(* ===== verification/Root_Prelude.thy ===== *)
theory Root_Prelude
  imports Main "HOL-Library.Word" "HOL-Library.Sublist"
begin

text \<open>
  Shared ground of the development.

  \<^item> The machine: RootOS is compiled with \<open>-m32\<close>, so \<open>usize\<close>, \<open>u32\<close> and pointers are 32 bits wide.
    Sizes and addresses are natural numbers, and wherever the C code adds, subtracts or multiplies
    them the wrap-around is written out with \<open>u32_add\<close>, \<open>u32_sub\<close> and \<open>u32_mul\<close>.
  \<^item> Memory is a total function from addresses to bytes, with little-endian 32-bit loads and stores.
  \<^item> A C string is the list of the characters in front of its terminator; reading it goes through
    \<open>chead\<close>, which yields NUL at the end, and an embedded NUL ends the string (\<open>cstr\<close>).
  \<^item> \<open>find_slot\<close> is the search loop every fixed table of the kernel uses, and the locale
    \<open>slot_table\<close> the contract of such a table.
  \<^item> The locale \<open>op_machine\<close> lifts one-step preservation of an invariant to sequences of operations.
\<close>

named_theorems rootos_consts "the numeric constants of the C headers"
named_theorems rep_simps "how the C routines act on represented data"

type_synonym u8 = "8 word"
type_synonym u16 = "16 word"
type_synonym u32 = "32 word"
type_synonym usize = nat
type_synonym addr = nat
type_synonym mem = "addr \<Rightarrow> u8"

section \<open>32-bit unsigned arithmetic\<close>

abbreviation USIZE_MOD :: nat where
  "USIZE_MOD \<equiv> 4294967296"

definition u32_add :: "nat \<Rightarrow> nat \<Rightarrow> nat" where
  "u32_add a b = (a + b) mod USIZE_MOD"

definition u32_sub :: "nat \<Rightarrow> nat \<Rightarrow> nat" where
  "u32_sub a b = (a + (USIZE_MOD - b mod USIZE_MOD)) mod USIZE_MOD"

definition u32_mul :: "nat \<Rightarrow> nat \<Rightarrow> nat" where
  "u32_mul a b = (a * b) mod USIZE_MOD"

lemma u32_add_exact [simp]: "a + b < USIZE_MOD \<Longrightarrow> u32_add a b = a + b"
  by (simp add: u32_add_def)

lemma u32_sub_exact [simp]: "b \<le> a \<Longrightarrow> a < USIZE_MOD \<Longrightarrow> u32_sub a b = a - b"
proof -
  assume a: "b \<le> a" "a < USIZE_MOD"
  then have "a + (USIZE_MOD - b mod USIZE_MOD) = (a - b) + USIZE_MOD" by simp
  then have "u32_sub a b = (a - b) mod USIZE_MOD"
    unfolding u32_sub_def by (simp only: mod_add_self2)
  with a show ?thesis by simp
qed

lemma u32_mul_exact [simp]: "a * b < USIZE_MOD \<Longrightarrow> u32_mul a b = a * b"
  by (simp add: u32_mul_def)

lemma u32_add_less [simp]: "u32_add a b < USIZE_MOD"
  by (simp add: u32_add_def)

section \<open>Little-endian words in memory\<close>

definition ld32 :: "mem \<Rightarrow> addr \<Rightarrow> nat" where
  "ld32 m a = unat (m a) + 256 * unat (m (a + 1)) + 65536 * unat (m (a + 2)) + 16777216 * unat (m (a + 3))"

definition st32 :: "mem \<Rightarrow> addr \<Rightarrow> nat \<Rightarrow> mem" where
  "st32 m a v = m(a := word_of_nat v, a + 1 := word_of_nat (v div 256),
     a + 2 := word_of_nat (v div 65536), a + 3 := word_of_nat (v div 16777216))"

lemma unat_byte [simp]: "unat (word_of_nat v :: u8) = v mod 256"
  by (simp add: unat_of_nat)

lemma unat_u8_less: "unat (b :: u8) < 256"
  using unsigned_less [of b] by simp

lemma le_digits4:
  "v mod 256 + 256 * (v div 256 mod 256) + 65536 * (v div 65536 mod 256)
     + 16777216 * (v div 16777216 mod 256) = v mod (4294967296::nat)"
proof -
  have a: "v mod 256 + 256 * (v div 256 mod 256) = v mod 65536"
    using mod_mult2_eq [of v 256 256] by simp
  have b: "v mod 65536 + 65536 * (v div 65536 mod 65536) = v mod 4294967296"
    using mod_mult2_eq [of v 65536 65536] by simp
  have c: "v div 65536 mod 65536 = v div 65536 mod 256 + 256 * (v div 65536 div 256 mod 256)"
    using mod_mult2_eq [of "v div 65536" 256 256] by simp
  have d: "v div 65536 div 256 = v div 16777216"
    using div_mult2_eq [of v 65536 256] by simp
  show ?thesis using a b c d by simp
qed

lemma ld32_st32 [simp]: "ld32 (st32 m a v) a = v mod USIZE_MOD"
proof -
  have "ld32 (st32 m a v) a = v mod 256 + 256 * (v div 256 mod 256) + 65536 * (v div 65536 mod 256)
     + 16777216 * (v div 16777216 mod 256)"
    by (simp add: ld32_def st32_def)
  then show ?thesis by (simp only: le_digits4)
qed

lemma ld32_st32_other [simp]: "a + 4 \<le> b \<or> b + 4 \<le> a \<Longrightarrow> ld32 (st32 m a v) b = ld32 m b"
  by (auto simp: ld32_def st32_def)

lemma st32_other [simp]: "x < a \<or> a + 4 \<le> x \<Longrightarrow> st32 m a v x = m x"
  by (auto simp: st32_def)

lemma ld32_less: "ld32 m a < USIZE_MOD"
  using unat_u8_less [of "m a"] unat_u8_less [of "m (a+1)"] unat_u8_less [of "m (a+2)"]
    unat_u8_less [of "m (a+3)"] by (simp add: ld32_def)

lemma ld32_cong: "(\<And>x. a \<le> x \<Longrightarrow> x < a + 4 \<Longrightarrow> m x = m' x) \<Longrightarrow> ld32 m a = ld32 m' a"
  by (simp add: ld32_def)

section \<open>C strings\<close>

abbreviation NUL :: char where
  "NUL \<equiv> CHR 0x00"

abbreviation SLASH :: char where
  "SLASH \<equiv> CHR 0x2F"

definition chead :: "string \<Rightarrow> char" where
  "chead s = (case s of [] \<Rightarrow> NUL | c # _ \<Rightarrow> c)"

definition cstr :: "string \<Rightarrow> string" where
  "cstr s = takeWhile (\<lambda>c. c \<noteq> NUL) s"

lemma chead_simps [simp]: "chead [] = NUL" "chead (c # s) = c"
  by (simp_all add: chead_def)

lemma chead_neq_NUL: "chead s \<noteq> NUL \<Longrightarrow> s \<noteq> []"
  by auto

lemma cstr_simps [simp]: "cstr [] = []" "cstr (c # s) = (if c = NUL then [] else c # cstr s)"
  by (simp_all add: cstr_def)

lemma cstr_id: "NUL \<notin> set s \<Longrightarrow> cstr s = s"
  by (induction s) auto

lemma NUL_notin_cstr [simp]: "NUL \<notin> set (cstr s)"
  by (induction s) auto

lemma cstr_idem [simp]: "cstr (cstr s) = cstr s"
  by (simp add: cstr_id)

section \<open>Fixed tables\<close>

text \<open>\<open>for (i = 0; i < N; i++) if (P(table[i])) return i;\<close> with the table as a list.\<close>

fun find_slot :: "('a \<Rightarrow> bool) \<Rightarrow> 'a list \<Rightarrow> nat option" where
  "find_slot P [] = None"
| "find_slot P (x # xs) = (if P x then Some 0 else map_option Suc (find_slot P xs))"

lemma find_slot_None [simp]: "find_slot P xs = None \<longleftrightarrow> (\<forall>x\<in>set xs. \<not> P x)"
  by (induction xs) auto

lemma find_slot_SomeD:
  "find_slot P xs = Some i \<Longrightarrow> i < length xs \<and> P (xs ! i) \<and> (\<forall>j<i. \<not> P (xs ! j))"
proof (induction xs arbitrary: i)
  case Nil
  then show ?case by simp
next
  case (Cons x xs)
  then show ?case
    by (auto split: if_splits simp: nth_Cons split: nat.splits)
qed

lemma find_slot_SomeI:
  "i < length xs \<Longrightarrow> P (xs ! i) \<Longrightarrow> \<forall>j<i. \<not> P (xs ! j) \<Longrightarrow> find_slot P xs = Some i"
proof (induction xs arbitrary: i)
  case Nil
  then show ?case by simp
next
  case (Cons x xs)
  show ?case
  proof (cases i)
    case 0
    with Cons.prems show ?thesis by simp
  next
    case (Suc k)
    with Cons.prems have "\<not> P x" by auto
    moreover from Suc Cons.prems have "find_slot P xs = Some k"
      by (intro Cons.IH) auto
    ultimately show ?thesis by (simp add: Suc)
  qed
qed

lemma find_slot_in_range: "find_slot P xs = Some i \<Longrightarrow> i < length xs"
  by (blast dest: find_slot_SomeD)

lemma find_slot_cong: "(\<And>x. x \<in> set xs \<Longrightarrow> P x = Q x) \<Longrightarrow> find_slot P xs = find_slot Q xs"
  by (induction xs) auto

lemma find_slot_exists: "x \<in> set xs \<Longrightarrow> P x \<Longrightarrow> \<exists>i. find_slot P xs = Some i"
  by (metis find_slot_None option.exhaust)

text \<open>A table whose entries carry a \<open>used\<close> flag and a key; \<open>blank\<close> is a zeroed entry.\<close>

locale slot_table =
  fixes used_of :: "'a \<Rightarrow> bool"
    and key_of :: "'a \<Rightarrow> 'k"
    and blank :: 'a
  assumes blank_unused: "\<not> used_of blank"
begin

definition keys_unique :: "'a list \<Rightarrow> bool" where
  "keys_unique xs \<longleftrightarrow> (\<forall>i<length xs. \<forall>j<length xs.
     used_of (xs ! i) \<longrightarrow> used_of (xs ! j) \<longrightarrow> key_of (xs ! i) = key_of (xs ! j) \<longrightarrow> i = j)"

definition holds :: "'a list \<Rightarrow> 'k set" where
  "holds xs = key_of ` {x \<in> set xs. used_of x}"

definition usage :: "'a list \<Rightarrow> nat" where
  "usage xs = length (filter used_of xs)"

lemma keys_uniqueI:
  "(\<And>i j. i < length xs \<Longrightarrow> j < length xs \<Longrightarrow> used_of (xs ! i) \<Longrightarrow> used_of (xs ! j) \<Longrightarrow>
     key_of (xs ! i) = key_of (xs ! j) \<Longrightarrow> i = j) \<Longrightarrow> keys_unique xs"
  by (simp add: keys_unique_def)

lemma keys_uniqueD:
  "keys_unique xs \<Longrightarrow> i < length xs \<Longrightarrow> j < length xs \<Longrightarrow> used_of (xs ! i) \<Longrightarrow> used_of (xs ! j) \<Longrightarrow>
     key_of (xs ! i) = key_of (xs ! j) \<Longrightarrow> i = j"
  by (simp add: keys_unique_def)

lemma lookup_unique:
  assumes "keys_unique xs" "i < length xs" "used_of (xs ! i)"
  shows "find_slot (\<lambda>x. used_of x \<and> key_of x = key_of (xs ! i)) xs = Some i"
proof (rule find_slot_SomeI)
  show "\<forall>j<i. \<not> (used_of (xs ! j) \<and> key_of (xs ! j) = key_of (xs ! i))"
    using assms keys_uniqueD [of xs _ i] by (metis less_irrefl less_trans)
qed (use assms in auto)

lemma lookup_iff:
  assumes "keys_unique xs"
  shows "find_slot (\<lambda>x. used_of x \<and> key_of x = k) xs = Some i
     \<longleftrightarrow> i < length xs \<and> used_of (xs ! i) \<and> key_of (xs ! i) = k"
  using assms lookup_unique find_slot_SomeD [of _ xs i] by blast

lemma lookup_None:
  "find_slot (\<lambda>x. used_of x \<and> key_of x = k) xs = None \<longleftrightarrow> k \<notin> holds xs"
  by (auto simp: holds_def)

lemma clear_unique:
  assumes "keys_unique xs"
  shows "keys_unique (xs[i := blank])"
proof (rule keys_uniqueI)
  fix a b
  assume "a < length (xs[i := blank])" "b < length (xs[i := blank])"
    "used_of (xs[i := blank] ! a)" "used_of (xs[i := blank] ! b)"
    "key_of (xs[i := blank] ! a) = key_of (xs[i := blank] ! b)"
  then show "a = b"
    using assms keys_uniqueD [of xs a b] blank_unused
    by (cases "i < length xs") (auto simp: nth_list_update list_update_beyond split: if_splits)
qed

lemma rekey_unique:
  assumes "keys_unique xs" "i < length xs"
    "\<And>j. j < length xs \<Longrightarrow> j \<noteq> i \<Longrightarrow> used_of (xs ! j) \<Longrightarrow> key_of (xs ! j) \<noteq> key_of x"
  shows "keys_unique (xs[i := x])"
proof (rule keys_uniqueI)
  fix a b
  assume "a < length (xs[i := x])" "b < length (xs[i := x])"
    "used_of (xs[i := x] ! a)" "used_of (xs[i := x] ! b)"
    "key_of (xs[i := x] ! a) = key_of (xs[i := x] ! b)"
  then show "a = b"
    using assms keys_uniqueD [of xs a b] by (auto simp: nth_list_update split: if_splits)
qed

lemma insert_unique:
  assumes "keys_unique xs" "i < length xs" "key_of x \<notin> holds xs"
  shows "keys_unique (xs[i := x])"
proof (rule rekey_unique [OF assms(1,2)])
  fix j
  assume "j < length xs" "used_of (xs ! j)"
  then have "key_of (xs ! j) \<in> holds xs" by (auto simp: holds_def)
  with assms(3) show "key_of (xs ! j) \<noteq> key_of x" by auto
qed

lemma insert_lookup:
  assumes "keys_unique xs" "i < length xs" "key_of x \<notin> holds xs" "used_of x"
  shows "find_slot (\<lambda>y. used_of y \<and> key_of y = key_of x) (xs[i := x]) = Some i"
  using lookup_unique [OF insert_unique [OF assms(1-3)], of i] assms by simp

lemma usage_update:
  assumes "i < length xs"
  shows "usage (xs[i := x]) + (if used_of (xs ! i) then 1 else 0) = usage xs + (if used_of x then 1 else 0)"
  using assms
proof (induction xs arbitrary: i)
  case Nil
  then show ?case by simp
next
  case (Cons y ys)
  show ?case
  proof (cases i)
    case 0
    then show ?thesis by (simp add: usage_def)
  next
    case (Suc k)
    with Cons show ?thesis by (auto simp: usage_def)
  qed
qed

end

section \<open>Sequences of operations\<close>

text \<open>
  Running a list of operations, each of which may fail to return (\<open>None\<close>); the run stops after a result that
  is \<open>fatal\<close>. A component whose operations return and keep an invariant unless their result is fatal does so
  over every sequence of them.
\<close>

primrec run_ops :: "('op \<Rightarrow> 's \<Rightarrow> ('r \<times> 's) option) \<Rightarrow> ('r \<Rightarrow> bool) \<Rightarrow> 'op list \<Rightarrow> 's \<Rightarrow> ('r list \<times> 's) option" where
  "run_ops exec fatal [] s = Some ([], s)"
| "run_ops exec fatal (a # ops) s =
     (case exec a s of
        None \<Rightarrow> None
      | Some (r, s') \<Rightarrow> if fatal r then Some ([r], s') else map_option (apfst (Cons r)) (run_ops exec fatal ops s'))"

locale op_machine =
  fixes exec :: "'op \<Rightarrow> 's \<Rightarrow> ('r \<times> 's) option"
    and fatal :: "'r \<Rightarrow> bool"
    and allowed :: "'op \<Rightarrow> bool"
    and inv :: "'s \<Rightarrow> bool"
  assumes exec_inv: "inv s \<Longrightarrow> allowed a \<Longrightarrow> \<exists>r s'. exec a s = Some (r, s') \<and> (\<not> fatal r \<longrightarrow> inv s')"
begin

lemma run_inv:
  assumes "inv s" "list_all allowed ops"
  shows "\<exists>rs s'. run_ops exec fatal ops s = Some (rs, s') \<and> (list_all (\<lambda>r. \<not> fatal r) rs \<longrightarrow> inv s' \<and> length rs = length ops)"
  using assms
proof (induction ops arbitrary: s)
  case (Cons a ops)
  then obtain r s1 where e: "exec a s = Some (r, s1)" "\<not> fatal r \<Longrightarrow> inv s1" using exec_inv [of s a] by auto
  show ?case
  proof (cases "fatal r")
    case True
    then show ?thesis using e by simp
  next
    case False
    from Cons.IH [OF e(2) [OF False]] Cons.prems(2) obtain rs s' where "run_ops exec fatal ops s1 = Some (rs, s')"
      "list_all (\<lambda>r. \<not> fatal r) rs \<longrightarrow> inv s' \<and> length rs = length ops" by auto
    then show ?thesis using e False by auto
  qed
qed simp

end

end
