(* ===== verification/Root_Memory.thy ===== *)
theory Root_Memory
  imports Root_Prelude
begin

text \<open>
  The byte routines of \<open>source/lib/memory.c\<close> over the memory of the prelude. A \<open>for\<close> loop over
  an index is a \<open>fold\<close> over the list of its indices, in the order the loop visits them. Shown: what
  each routine leaves in every byte of memory, that \<open>root_memmove\<close> is a simultaneous copy however its
  ranges overlap, and that \<open>root_memcmp\<close> decides equality and orders by the first difference.
\<close>

definition root_memset :: "mem \<Rightarrow> addr \<Rightarrow> int \<Rightarrow> nat \<Rightarrow> mem" where
  "root_memset m destination val count =
     fold (\<lambda>i m. m(destination + i := word_of_int val)) [0..<count] m"

definition root_memcpy :: "mem \<Rightarrow> addr \<Rightarrow> addr \<Rightarrow> nat \<Rightarrow> mem" where
  "root_memcpy m dst src count = fold (\<lambda>i m. m(dst + i := m (src + i))) [0..<count] m"

definition root_memmove :: "mem \<Rightarrow> addr \<Rightarrow> addr \<Rightarrow> nat \<Rightarrow> mem" where
  "root_memmove m dst src count =
     (if dst < src \<or> dst \<ge> src + count
      then fold (\<lambda>i m. m(dst + i := m (src + i))) [0..<count] m
      else fold (\<lambda>i m. m(dst + (i - 1) := m (src + (i - 1)))) (rev [1..<count + 1]) m)"

fun memcmp_loop :: "mem \<Rightarrow> addr \<Rightarrow> addr \<Rightarrow> nat list \<Rightarrow> int" where
  "memcmp_loop m left right [] = 0"
| "memcmp_loop m left right (i # is) =
     (if m (left + i) < m (right + i) then -1
      else if m (left + i) > m (right + i) then 1
      else memcmp_loop m left right is)"

definition root_memcmp :: "mem \<Rightarrow> addr \<Rightarrow> addr \<Rightarrow> nat \<Rightarrow> int" where
  "root_memcmp m a b count = memcmp_loop m a b [0..<count]"

definition root_memzero :: "mem \<Rightarrow> addr \<Rightarrow> nat \<Rightarrow> mem" where
  "root_memzero m destination count = root_memset m destination 0 count"

section \<open>The effect of each routine on every byte\<close>

lemma root_memset_spec:
  "root_memset m d v n x = (if d \<le> x \<and> x < d + n then word_of_int v else m x)"
  unfolding root_memset_def by (induction n) auto

lemma root_memzero_spec: "root_memzero m d n x = (if d \<le> x \<and> x < d + n then 0 else m x)"
  by (simp add: root_memzero_def root_memset_spec)

text \<open>An ascending copy is a simultaneous one unless the destination lies inside the source.\<close>

lemma copy_up_spec:
  assumes "d \<le> s \<or> s + n \<le> d"
  shows "fold (\<lambda>i m. m(d + i := m (s + i))) [0..<n] m x
     = (if d \<le> x \<and> x < d + n then m (s + (x - d)) else m x)"
  using assms
proof (induction n arbitrary: x)
  case 0
  then show ?case by auto
next
  case (Suc n)
  then have dis: "d \<le> s \<or> s + n \<le> d" by auto
  from Suc.prems have "\<not> (d \<le> s + n \<and> s + n < d + n)" by auto
  with Suc.IH [OF dis] show ?case by (auto simp: less_Suc_eq)
qed

lemma copy_down_spec:
  assumes "s \<le> d"
  shows "fold (\<lambda>i m. m(d + (i - 1) := m (s + (i - 1)))) (rev [1..<n + 1]) m x
     = (if d \<le> x \<and> x < d + n then m (s + (x - d)) else m x)"
proof (induction n arbitrary: m)
  case 0
  then show ?case by auto
next
  case (Suc n)
  have "rev [1..<Suc n + 1] = Suc n # rev [1..<n + 1]" by simp
  then have "fold (\<lambda>i m. m(d + (i - 1) := m (s + (i - 1)))) (rev [1..<Suc n + 1]) m x
      = fold (\<lambda>i m. m(d + (i - 1) := m (s + (i - 1)))) (rev [1..<n + 1]) (m(d + n := m (s + n))) x"
    by simp
  also have "\<dots> = (if d \<le> x \<and> x < d + n then (m(d + n := m (s + n))) (s + (x - d))
      else (m(d + n := m (s + n))) x)"
    by (rule Suc.IH)
  also have "\<dots> = (if d \<le> x \<and> x < d + Suc n then m (s + (x - d)) else m x)"
    using assms by (auto simp: less_Suc_eq)
  finally show ?case .
qed

lemma root_memcpy_spec:
  "d \<le> s \<or> s + n \<le> d \<Longrightarrow>
     root_memcpy m d s n x = (if d \<le> x \<and> x < d + n then m (s + (x - d)) else m x)"
  unfolding root_memcpy_def by (rule copy_up_spec)

lemma root_memcpy_outside: "x < d \<or> d + n \<le> x \<Longrightarrow> root_memcpy m d s n x = m x"
  unfolding root_memcpy_def by (induction n) auto

text \<open>
  \<open>root_memmove\<close> copies \<open>count\<close> bytes as if the source had been read completely before the first
  byte was written, for every pair of ranges, overlapping in either direction or not, and leaves
  every byte outside the destination range as it was.
\<close>

theorem root_memmove_simultaneous:
  "root_memmove m dst src count x
     = (if dst \<le> x \<and> x < dst + count then m (src + (x - dst)) else m x)"
proof (cases "dst < src \<or> dst \<ge> src + count")
  case True
  then have "dst \<le> src \<or> src + count \<le> dst" by auto
  with True show ?thesis by (simp only: root_memmove_def if_True copy_up_spec)
next
  case False
  then have "src \<le> dst" by simp
  with False show ?thesis by (simp only: root_memmove_def if_False copy_down_spec)
qed

lemma memcmp_loop_spec:
  "memcmp_loop m a b is = (let n = length (takeWhile (\<lambda>i. m (a + i) = m (b + i)) is) in
     if n = length is then 0 else if m (a + is ! n) < m (b + is ! n) then -1 else 1)"
  by (induction "is") (auto simp: Let_def)

text \<open>
  \<open>root_memcmp\<close> compares two ranges lexicographically as unsigned bytes: with \<open>n\<close> the number of leading
  positions where they agree, it returns 0 exactly when all \<open>count\<close> do, and otherwise -1 or 1 by the
  first byte in which they differ; the bytes behind that position play no role.
\<close>

theorem root_memcmp_correct:
  "root_memcmp m a b count = (let n = length (takeWhile (\<lambda>i. m (a + i) = m (b + i)) [0..<count]) in
     if n = count then 0 else if m (a + n) < m (b + n) then -1 else 1)"
proof -
  let ?n = "length (takeWhile (\<lambda>i. m (a + i) = m (b + i)) [0..<count])"
  have "?n = count \<or> [0..<count] ! ?n = ?n"
    using length_takeWhile_le [of "\<lambda>i. m (a + i) = m (b + i)" "[0..<count]"] by (cases "?n = count") simp_all
  then show ?thesis by (auto simp: root_memcmp_def memcmp_loop_spec Let_def)
qed

end
