(* ===== verification/Root_Unicode.thy ===== *)
theory Root_Unicode
  imports Root_Prelude
begin

text \<open>
  \<open>source/lib/unicode.c\<close>: UTF-8. Code points are 32-bit words and bytes 8-bit words; the encoder
  returns the bytes it wrote, the decoder gets the available bytes and returns the code point with
  the number of bytes consumed, or \<open>None\<close> where the C function returns 0. Both are first read as
  arithmetic on natural numbers; then encoding and decoding are shown inverse to each other, once for
  single characters and, through the locale \<open>prefix_codec\<close>, for whole texts.
\<close>

unbundle bit_operations_syntax

type_synonym RootCodepoint = u32

definition ROOT_UNICODE_REPLACEMENT :: RootCodepoint where
  "ROOT_UNICODE_REPLACEMENT = 0xFFFD"

definition root_unicode_valid :: "RootCodepoint \<Rightarrow> bool" where
  "root_unicode_valid codepoint =
     (if codepoint > 0x10FFFF then False
      else if codepoint \<ge> 0xD800 \<and> codepoint \<le> 0xDFFF then False
      else True)"

definition root_utf8_encode :: "RootCodepoint \<Rightarrow> u8 list" where
  "root_utf8_encode cp0 =
     (let cp = (if \<not> root_unicode_valid cp0 then ROOT_UNICODE_REPLACEMENT else cp0) in
      if cp \<le> 0x7F then [ucast cp]
      else if cp \<le> 0x7FF then
        [ucast (0xC0 OR drop_bit 6 cp),
         ucast (0x80 OR (cp AND 0x3F))]
      else if cp \<le> 0xFFFF then
        [ucast (0xE0 OR drop_bit 12 cp),
         ucast (0x80 OR (drop_bit 6 cp AND 0x3F)),
         ucast (0x80 OR (cp AND 0x3F))]
      else
        [ucast (0xF0 OR drop_bit 18 cp),
         ucast (0x80 OR (drop_bit 12 cp AND 0x3F)),
         ucast (0x80 OR (drop_bit 6 cp AND 0x3F)),
         ucast (0x80 OR (cp AND 0x3F))])"

definition root_utf8_decode :: "u8 list \<Rightarrow> (RootCodepoint \<times> nat) option" where
  "root_utf8_decode bytes =
     (let available = length bytes in
      if available = 0 then None
      else if bytes ! 0 \<le> 0x7F then Some (ucast (bytes ! 0), 1)
      else if bytes ! 0 AND 0xE0 = 0xC0 then
        (if available < 2 then None
         else if bytes ! 1 AND 0xC0 \<noteq> 0x80 then None
         else let cp = push_bit 6 (ucast (bytes ! 0 AND 0x1F)) OR ucast (bytes ! 1 AND 0x3F)
           in if cp < 0x80 then None else Some (cp, 2))
      else if bytes ! 0 AND 0xF0 = 0xE0 then
        (if available < 3 then None
         else if bytes ! 1 AND 0xC0 \<noteq> 0x80 \<or> bytes ! 2 AND 0xC0 \<noteq> 0x80 then None
         else let cp = push_bit 12 (ucast (bytes ! 0 AND 0x0F)) OR push_bit 6 (ucast (bytes ! 1 AND 0x3F))
                OR ucast (bytes ! 2 AND 0x3F)
           in if cp < 0x800 \<or> \<not> root_unicode_valid cp then None else Some (cp, 3))
      else if bytes ! 0 AND 0xF8 = 0xF0 then
        (if available < 4 then None
         else if bytes ! 1 AND 0xC0 \<noteq> 0x80 \<or> bytes ! 2 AND 0xC0 \<noteq> 0x80 \<or> bytes ! 3 AND 0xC0 \<noteq> 0x80
         then None
         else let cp = push_bit 18 (ucast (bytes ! 0 AND 0x07)) OR push_bit 12 (ucast (bytes ! 1 AND 0x3F))
                OR push_bit 6 (ucast (bytes ! 2 AND 0x3F)) OR ucast (bytes ! 3 AND 0x3F)
           in if cp < 0x10000 \<or> \<not> root_unicode_valid cp then None else Some (cp, 4))
      else None)"

section \<open>The bit operations as arithmetic\<close>

lemma nat_and_field: "x AND push_bit k (mask l) = push_bit k (take_bit l (drop_bit k (x::nat)))"
  by (rule bit_eqI) (auto simp: bit_simps)

lemma nat_or_add: "b < 2 ^ k \<Longrightarrow> push_bit k a OR b = 2 ^ k * a + (b::nat)"
proof -
  assume b: "b < 2 ^ k"
  then have "take_bit k b = b" by (simp add: take_bit_nat_eq_self)
  then have "push_bit k a AND b = push_bit k a AND take_bit k b" by simp
  also have "\<dots> = 0" by (rule bit_eqI) (auto simp: bit_simps)
  finally show ?thesis
    by (simp add: disjunctive_add_eq_or [symmetric] push_bit_eq_mult mult.commute)
qed

lemma nat_and_masks:
  "x AND 63 = x mod (64::nat)" "x AND 31 = x mod (32::nat)" "x AND 15 = x mod (16::nat)"
  "x AND 7 = x mod (8::nat)"
proof -
  have m: "x AND mask k = x mod 2 ^ k" for k
    by (simp add: take_bit_eq_mask [symmetric] take_bit_eq_mod)
  show "x AND 63 = x mod 64" "x AND 31 = x mod 32" "x AND 15 = x mod 16" "x AND 7 = x mod 8"
    using m [of 6] m [of 5] m [of 4] m [of 3] by (simp_all add: mask_eq_exp_minus_1)
qed

lemma nat_and_leads:
  "x AND 192 = 64 * (x div 64 mod (4::nat))" "x AND 224 = 32 * (x div 32 mod (8::nat))"
  "x AND 240 = 16 * (x div 16 mod (16::nat))" "x AND 248 = 8 * (x div 8 mod (32::nat))"
proof -
  have m: "x AND push_bit k (mask l) = 2 ^ k * (x div 2 ^ k mod 2 ^ l)" for k l
    unfolding nat_and_field by (simp add: take_bit_eq_mod push_bit_eq_mult drop_bit_eq_div mult.commute)
  show "x AND 192 = 64 * (x div 64 mod 4)" "x AND 224 = 32 * (x div 32 mod 8)"
    "x AND 240 = 16 * (x div 16 mod 16)" "x AND 248 = 8 * (x div 8 mod 32)"
    using m [of 6 2] m [of 5 3] m [of 4 4] m [of 3 5]
    by (simp_all add: mask_eq_exp_minus_1 push_bit_eq_mult)
qed

lemma byte_masks:
  "unat (b AND (0x3F::u8)) = unat b mod 64" "unat (b AND (0x1F::u8)) = unat b mod 32"
  "unat (b AND (0x0F::u8)) = unat b mod 16" "unat (b AND (0x07::u8)) = unat b mod 8"
  by (simp_all add: unsigned_and_eq nat_and_masks)

lemma byte_lead:
  "b AND (0xC0::u8) = 0x80 \<longleftrightarrow> unat b div 64 = 2" "b AND (0xE0::u8) = 0xC0 \<longleftrightarrow> unat b div 32 = 6"
  "b AND (0xF0::u8) = 0xE0 \<longleftrightarrow> unat b div 16 = 14" "b AND (0xF8::u8) = 0xF0 \<longleftrightarrow> unat b div 8 = 30"
proof -
  have lt: "unat b < 256" by (rule unat_u8_less)
  then have mods: "unat b div 64 mod 4 = unat b div 64" "unat b div 32 mod 8 = unat b div 32"
    "unat b div 16 mod 16 = unat b div 16" "unat b div 8 mod 32 = unat b div 8"
    by (simp_all add: less_mult_imp_div_less)
  show "b AND (0xC0::u8) = 0x80 \<longleftrightarrow> unat b div 64 = 2" "b AND (0xE0::u8) = 0xC0 \<longleftrightarrow> unat b div 32 = 6"
    "b AND (0xF0::u8) = 0xE0 \<longleftrightarrow> unat b div 16 = 14" "b AND (0xF8::u8) = 0xF0 \<longleftrightarrow> unat b div 8 = 30"
    unfolding word_unat_eq_iff by (simp_all add: unsigned_and_eq nat_and_leads mods)
qed

lemma unat_ucast_wide [simp]: "unat (ucast (b::u8) :: u32) = unat b"
  using unat_u8_less [of b] by (simp add: unsigned_ucast_eq take_bit_nat_eq_self)

lemma unat_push_exact:
  assumes "2 ^ k * unat (x::u32) < USIZE_MOD"
  shows "unat (push_bit k x) = 2 ^ k * unat x"
  using assms unfolding unsigned_push_bit_eq
  by (simp add: take_bit_eq_mod push_bit_eq_mult mult.commute)

lemma unat_or_add: "unat (x::u32) = 2 ^ k * a \<Longrightarrow> unat (y::u32) < 2 ^ k \<Longrightarrow> unat (x OR y) = unat x + unat y"
  using nat_or_add [of "unat y" k a] by (simp add: unsigned_or_eq push_bit_eq_mult mult.commute)

lemma unat_byte_of: "unat (x::u32) < 256 \<Longrightarrow> unat (ucast x :: u8) = unat x"
  by (simp add: unsigned_ucast_eq take_bit_nat_eq_self)

lemma unat_low6: "unat (x AND (0x3F::u32)) = unat x mod 64"
  by (simp add: unsigned_and_eq nat_and_masks)

lemma unat_u32_less: "unat (x::u32) < 4294967296"
  using unsigned_less [of x] by simp

lemma unat_drop: "unat (drop_bit k (x::u32)) = unat x div 2 ^ k"
  using unsigned_less [of x] unfolding unsigned_drop_bit_eq
  by (simp add: drop_bit_eq_div take_bit_nat_eq_self unat_u32_less)

lemma mod64_pair: "64 * (x mod 64) + y mod 64 < (4096::nat)"
  using mod_less_divisor [of 64 x] mod_less_divisor [of 64 y] by linarith

lemma enc_tail: "unat (ucast (0x80 OR (x AND (0x3F::u32))) :: u8) = 128 + unat x mod 64"
  using unat_or_add [of "0x80" 6 2 "x AND 0x3F"] by (simp add: unat_low6 unat_byte_of)

lemma enc_leads:
  "unat (x::u32) < 32 \<Longrightarrow> unat (ucast (0xC0 OR x) :: u8) = 192 + unat x"
  "unat x < 16 \<Longrightarrow> unat (ucast (0xE0 OR x) :: u8) = 224 + unat x"
  "unat x < 8 \<Longrightarrow> unat (ucast (0xF0 OR x) :: u8) = 240 + unat x"
  using unat_or_add [of "0xC0" 5 6 x] unat_or_add [of "0xE0" 4 14 x] unat_or_add [of "0xF0" 3 30 x]
  by (simp_all add: unat_byte_of)

section \<open>Decoding as arithmetic\<close>

text \<open>The code points of well-formed sequences of two, three and four bytes.\<close>

lemma dec2:
  "unat (push_bit 6 (ucast (a AND (0x1F::u8))) OR ucast (b AND (0x3F::u8)) :: u32)
     = 64 * (unat a mod 32) + unat b mod 64"
proof -
  have "unat (push_bit 6 (ucast (a AND (0x1F::u8))) :: u32) = 2 ^ 6 * (unat a mod 32)"
    by (subst unat_push_exact) (simp_all add: byte_masks)
  then show ?thesis by (subst unat_or_add [of _ 6]) (simp_all add: byte_masks)
qed

lemma dec3:
  "unat (push_bit 12 (ucast (a AND (0x0F::u8))) OR push_bit 6 (ucast (b AND (0x3F::u8)))
      OR ucast (c AND (0x3F::u8)) :: u32)
     = 4096 * (unat a mod 16) + 64 * (unat b mod 64) + unat c mod 64"
proof -
  have p: "unat (push_bit 12 (ucast (a AND (0x0F::u8))) :: u32) = 2 ^ 12 * (unat a mod 16)"
    "unat (push_bit 6 (ucast (b AND (0x3F::u8))) :: u32) = 2 ^ 6 * (unat b mod 64)"
    by (subst unat_push_exact; simp add: byte_masks)+
  have q: "unat (push_bit 6 (ucast (b AND (0x3F::u8))) OR ucast (c AND (0x3F::u8)) :: u32)
     = 64 * (unat b mod 64) + unat c mod 64"
    using p(2) by (subst unat_or_add [of _ 6]) (simp_all add: byte_masks)
  have "64 * (unat b mod 64) + unat c mod 64 < 2 ^ 12" using mod64_pair by simp
  with p(1) q show ?thesis by (subst unat_or_add [of _ 12]) simp_all
qed

lemma dec4:
  "unat (push_bit 18 (ucast (a AND (0x07::u8))) OR push_bit 12 (ucast (b AND (0x3F::u8)))
      OR push_bit 6 (ucast (c AND (0x3F::u8))) OR ucast (d AND (0x3F::u8)) :: u32)
     = 262144 * (unat a mod 8) + 4096 * (unat b mod 64) + 64 * (unat c mod 64) + unat d mod 64"
proof -
  have p: "unat (push_bit 18 (ucast (a AND (0x07::u8))) :: u32) = 2 ^ 18 * (unat a mod 8)"
    "unat (push_bit 12 (ucast (b AND (0x3F::u8))) :: u32) = 2 ^ 12 * (unat b mod 64)"
    "unat (push_bit 6 (ucast (c AND (0x3F::u8))) :: u32) = 2 ^ 6 * (unat c mod 64)"
    by (subst unat_push_exact; simp add: byte_masks)+
  have q: "unat (push_bit 6 (ucast (c AND (0x3F::u8))) OR ucast (d AND (0x3F::u8)) :: u32)
     = 64 * (unat c mod 64) + unat d mod 64"
    using p(3) by (subst unat_or_add [of _ 6]) (simp_all add: byte_masks)
  have l1: "64 * (unat c mod 64) + unat d mod 64 < 2 ^ 12" using mod64_pair by simp
  have r: "unat (push_bit 12 (ucast (b AND (0x3F::u8))) OR (push_bit 6 (ucast (c AND (0x3F::u8)))
      OR ucast (d AND (0x3F::u8))) :: u32) = 4096 * (unat b mod 64) + (64 * (unat c mod 64) + unat d mod 64)"
    using p(2) q l1 by (subst unat_or_add [of _ 12]) simp_all
  have "4096 * (unat b mod 64) + (64 * (unat c mod 64) + unat d mod 64) < 2 ^ 18"
    using l1 mod_less_divisor [of 64 "unat b"] by simp
  with p(1) r show ?thesis by (subst unat_or_add [of _ 18]) simp_all
qed

section \<open>Encode and decode are inverse\<close>

lemma unat_le: "(x::'a::len word) \<le> y \<longleftrightarrow> unat x \<le> unat y" "x < y \<longleftrightarrow> unat x < unat y"
  by (simp_all add: word_le_nat_alt word_less_nat_alt)

lemma valid_unat:
  "root_unicode_valid cp \<longleftrightarrow> unat cp \<le> 0x10FFFF \<and> \<not> (0xD800 \<le> unat cp \<and> unat cp \<le> 0xDFFF)"
  by (auto simp: root_unicode_valid_def unat_le)

lemma encode_unat:
  assumes "root_unicode_valid cp"
  shows "map unat (root_utf8_encode cp) =
     (let c = unat cp in
      if c \<le> 0x7F then [c]
      else if c \<le> 0x7FF then [192 + c div 64, 128 + c mod 64]
      else if c \<le> 0xFFFF then [224 + c div 4096, 128 + c div 64 mod 64, 128 + c mod 64]
      else [240 + c div 262144, 128 + c div 4096 mod 64, 128 + c div 64 mod 64, 128 + c mod 64])"
proof -
  have "unat cp div 64 < 32" if "unat cp \<le> 0x7FF" using that by simp
  moreover have "unat cp div 4096 < 16" if "unat cp \<le> 0xFFFF" using that by simp
  moreover have "unat cp div 262144 < 8" using assms by (simp add: valid_unat div_less_iff_less_mult)
  ultimately show ?thesis
    using assms
    by (simp add: root_utf8_encode_def Let_def unat_le enc_tail enc_leads unat_drop unat_byte_of)
qed

lemma decode1: "unat a \<le> 127 \<Longrightarrow> root_utf8_decode (a # r) = Some (ucast a, 1)"
  by (simp add: root_utf8_decode_def unat_le)

lemma decode2:
  assumes "unat a div 32 = 6"
  shows "root_utf8_decode (a # b # r) =
     (let cp = push_bit 6 (ucast (a AND 0x1F)) OR ucast (b AND 0x3F) in
      if unat b div 64 = 2 \<and> 128 \<le> unat cp then Some (cp, 2) else None)"
proof -
  from assms have "\<not> unat a \<le> 127" by linarith
  with assms show ?thesis by (auto simp: root_utf8_decode_def Let_def unat_le byte_lead)
qed

lemma decode3:
  assumes "unat a div 16 = 14"
  shows "root_utf8_decode (a # b # c # r) =
     (let cp = push_bit 12 (ucast (a AND 0x0F)) OR push_bit 6 (ucast (b AND 0x3F)) OR ucast (c AND 0x3F) in
      if unat b div 64 = 2 \<and> unat c div 64 = 2 \<and> 2048 \<le> unat cp \<and> root_unicode_valid cp
      then Some (cp, 3) else None)"
proof -
  from assms have "\<not> unat a \<le> 127" "unat a div 32 \<noteq> 6" by linarith+
  with assms show ?thesis by (auto simp: root_utf8_decode_def Let_def unat_le byte_lead)
qed

lemma decode4:
  assumes "unat a div 8 = 30"
  shows "root_utf8_decode (a # b # c # d # r) =
     (let cp = push_bit 18 (ucast (a AND 0x07)) OR push_bit 12 (ucast (b AND 0x3F))
        OR push_bit 6 (ucast (c AND 0x3F)) OR ucast (d AND 0x3F) in
      if unat b div 64 = 2 \<and> unat c div 64 = 2 \<and> unat d div 64 = 2 \<and> 65536 \<le> unat cp
        \<and> root_unicode_valid cp
      then Some (cp, 4) else None)"
proof -
  from assms have "\<not> unat a \<le> 127" "unat a div 32 \<noteq> 6" "unat a div 16 \<noteq> 14" by linarith+
  with assms show ?thesis by (auto simp: root_utf8_decode_def Let_def unat_le byte_lead)
qed

text \<open>Only sequences of these four shapes are accepted.\<close>

lemma decode_shape:
  assumes "root_utf8_decode bs = Some (cp, n)"
  obtains a r where "bs = a # r" "unat a \<le> 127"
  | a b r where "bs = a # b # r" "unat a div 32 = 6"
  | a b c r where "bs = a # b # c # r" "unat a div 16 = 14"
  | a b c d r where "bs = a # b # c # d # r" "unat a div 8 = 30"
proof -
  from assms obtain a bs1 where 1: "bs = a # bs1" by (cases bs) (auto simp: root_utf8_decode_def)
  have l: "2 \<le> length bs \<Longrightarrow> \<exists>b r. bs1 = b # r" "3 \<le> length bs \<Longrightarrow> \<exists>b c r. bs1 = b # c # r"
    "4 \<le> length bs \<Longrightarrow> \<exists>b c d r. bs1 = b # c # d # r"
    by (auto simp: 1 numeral_eq_Suc Suc_le_length_iff)
  from assms have "unat a \<le> 127 \<or> 2 \<le> length bs \<and> unat a div 32 = 6
      \<or> 3 \<le> length bs \<and> unat a div 16 = 14 \<or> 4 \<le> length bs \<and> unat a div 8 = 30"
    unfolding root_utf8_decode_def Let_def 1 by (auto simp: unat_le byte_lead Suc_le_eq split: if_splits)
  with l that 1 show ?thesis by metis
qed

lemma encode_nonempty: "root_utf8_encode cp \<noteq> []"
  by (simp add: root_utf8_encode_def Let_def)

lemma encode_cases:
  assumes "root_unicode_valid cp"
  obtains a where "root_utf8_encode cp = [a]" "unat a = unat cp" "unat cp \<le> 127"
  | a b where "root_utf8_encode cp = [a, b]" "unat a = 192 + unat cp div 64" "unat b = 128 + unat cp mod 64"
      "127 < unat cp" "unat cp \<le> 2047"
  | a b c where "root_utf8_encode cp = [a, b, c]" "unat a = 224 + unat cp div 4096"
      "unat b = 128 + unat cp div 64 mod 64" "unat c = 128 + unat cp mod 64"
      "2047 < unat cp" "unat cp \<le> 65535"
  | a b c d where "root_utf8_encode cp = [a, b, c, d]" "unat a = 240 + unat cp div 262144"
      "unat b = 128 + unat cp div 4096 mod 64" "unat c = 128 + unat cp div 64 mod 64"
      "unat d = 128 + unat cp mod 64" "65535 < unat cp"
  using encode_unat [OF assms] that unfolding Let_def
  by (auto split: if_splits simp: map_eq_Cons_conv)

lemma digits64:
  "64 * (c div 64) + c mod 64 = (c::nat)"
  "4096 * (c div 4096) + 64 * (c div 64 mod 64) + c mod 64 = c"
  "262144 * (c div 262144) + 4096 * (c div 4096 mod 64) + 64 * (c div 64 mod 64) + c mod 64 = c"
proof -
  have d: "c div 64 div 64 = c div 4096" "c div 4096 div 64 = c div 262144"
    using div_mult2_eq [of c 64 64] div_mult2_eq [of c 4096 64] by simp_all
  have 1: "64 * (c div 64) + c mod 64 = c" by simp
  have 2: "64 * (c div 4096) + c div 64 mod 64 = c div 64"
    using mult_div_mod_eq [of 64 "c div 64"] by (simp only: d)
  have 3: "64 * (c div 262144) + c div 4096 mod 64 = c div 4096"
    using mult_div_mod_eq [of 64 "c div 4096"] by (simp only: d)
  show "64 * (c div 64) + c mod 64 = c" "4096 * (c div 4096) + 64 * (c div 64 mod 64) + c mod 64 = c"
    "262144 * (c div 262144) + 4096 * (c div 4096 mod 64) + 64 * (c div 64 mod 64) + c mod 64 = c"
    using 1 2 3 by linarith+
qed

lemma byte_fields:
  "m < 64 \<Longrightarrow> (128 + m) div 64 = (2::nat) \<and> (128 + m) mod 64 = m"
  "m < 32 \<Longrightarrow> (192 + m) div 32 = (6::nat) \<and> (192 + m) mod 32 = m"
  "m < 16 \<Longrightarrow> (224 + m) div 16 = (14::nat) \<and> (224 + m) mod 16 = m"
  "m < 8 \<Longrightarrow> (240 + m) div 8 = (30::nat) \<and> (240 + m) mod 8 = m"
  using div_mult_self3 [of 64 2 m] mod_mult_self3 [of 2 64 m] div_mult_self3 [of 32 6 m] mod_mult_self3 [of 6 32 m]
    div_mult_self3 [of 16 14 m] mod_mult_self3 [of 14 16 m] div_mult_self3 [of 8 30 m] mod_mult_self3 [of 30 8 m]
  by simp_all

lemma tail_byte: "unat (b::u8) = 128 + c mod 64 \<Longrightarrow> unat b div 64 = 2 \<and> unat b mod 64 = c mod 64"
  by (simp add: byte_fields)

lemma utf8_decode_encode:
  assumes "root_unicode_valid cp"
  shows "root_utf8_decode (root_utf8_encode cp @ r) = Some (cp, length (root_utf8_encode cp))"
  using assms
proof (cases rule: encode_cases)
  case (1 a)
  then have "ucast a = cp" by (simp add: word_unat_eq_iff)
  with 1 show ?thesis by (simp add: decode1)
next
  case (2 a b)
  have "unat cp div 64 < 32" using 2(5) by (simp add: div_less_iff_less_mult)
  from byte_fields(2) [OF this] have a: "unat a div 32 = 6" "unat a mod 32 = unat cp div 64"
    by (simp_all only: 2(2))
  note b = tail_byte [OF 2(3)]
  have "push_bit 6 (ucast (a AND 0x1F)) OR ucast (b AND 0x3F) = cp"
    by (simp add: word_unat_eq_iff dec2 digits64 a b)
  then show ?thesis using 2(4) by (simp add: 2(1) decode2 [OF a(1)] b)
next
  case (3 a b c)
  have "unat cp div 4096 < 16" using 3(6) by (simp add: div_less_iff_less_mult)
  from byte_fields(3) [OF this] have a: "unat a div 16 = 14" "unat a mod 16 = unat cp div 4096"
    by (simp_all only: 3(2))
  note bc = tail_byte [OF 3(3)] tail_byte [OF 3(4)]
  have "push_bit 12 (ucast (a AND 0x0F)) OR push_bit 6 (ucast (b AND 0x3F)) OR ucast (c AND 0x3F) = cp"
    by (simp add: word_unat_eq_iff dec3 digits64 a bc)
  then show ?thesis using 3(5) assms by (simp add: 3(1) decode3 [OF a(1)] bc)
next
  case (4 a b c d)
  have "unat cp div 262144 < 8" using assms by (simp add: valid_unat div_less_iff_less_mult)
  from byte_fields(4) [OF this] have a: "unat a div 8 = 30" "unat a mod 8 = unat cp div 262144"
    by (simp_all only: 4(2))
  note bcd = tail_byte [OF 4(3)] tail_byte [OF 4(4)] tail_byte [OF 4(5)]
  have "push_bit 18 (ucast (a AND 0x07)) OR push_bit 12 (ucast (b AND 0x3F))
      OR push_bit 6 (ucast (c AND 0x3F)) OR ucast (d AND 0x3F) = cp"
    by (simp add: word_unat_eq_iff dec4 digits64 a bcd)
  then show ?thesis using 4(6) assms by (simp add: 4(1) decode4 [OF a(1)] bcd)
qed

lemma undigits64:
  fixes w x y z :: nat
  assumes "x < 64" "y < 64" "z < 64"
  shows "(64 * y + z) div 64 = y" "(64 * y + z) mod 64 = z"
    "(4096 * x + 64 * y + z) div 4096 = x" "(4096 * x + 64 * y + z) div 64 mod 64 = y"
    "(4096 * x + 64 * y + z) mod 64 = z"
    "(262144 * w + 4096 * x + 64 * y + z) div 262144 = w"
    "(262144 * w + 4096 * x + 64 * y + z) div 4096 mod 64 = x"
    "(262144 * w + 4096 * x + 64 * y + z) div 64 mod 64 = y"
    "(262144 * w + 4096 * x + 64 * y + z) mod 64 = z"
proof -
  have s: "(z + 64 * q) div 64 = q" "(z + 64 * q) mod 64 = z" for q using assms(3) by simp_all
  have t: "(y + 64 * q) div 64 = q" "(y + 64 * q) mod 64 = y" for q using assms(2) by simp_all
  have u: "(x + 64 * q) div 64 = q" "(x + 64 * q) mod 64 = x" for q using assms(1) by simp_all
  have e3: "4096 * x + 64 * y + z = z + 64 * (y + 64 * x)"
    and e4: "262144 * w + 4096 * x + 64 * y + z = z + 64 * (y + 64 * (x + 64 * w))" by simp_all
  have d: "c div 4096 = c div 64 div 64" "c div 262144 = c div 64 div 64 div 64" for c :: nat
    by (simp_all add: div_mult2_eq [symmetric])
  show "(64 * y + z) div 64 = y" "(64 * y + z) mod 64 = z"
    using s [of y] by (simp_all add: add.commute)
  show "(4096 * x + 64 * y + z) div 4096 = x" "(4096 * x + 64 * y + z) div 64 mod 64 = y"
    "(4096 * x + 64 * y + z) mod 64 = z"
    by (simp_all only: e3 d s t)
  show "(262144 * w + 4096 * x + 64 * y + z) div 262144 = w"
    "(262144 * w + 4096 * x + 64 * y + z) div 4096 mod 64 = x"
    "(262144 * w + 4096 * x + 64 * y + z) div 64 mod 64 = y"
    "(262144 * w + 4096 * x + 64 * y + z) mod 64 = z"
    by (simp_all only: e4 d s t u)
qed

lemma from_fields:
  "x div 64 = 2 \<Longrightarrow> 128 + x mod (64::nat) = x" "x div 32 = 6 \<Longrightarrow> 192 + x mod (32::nat) = x"
  "x div 16 = 14 \<Longrightarrow> 224 + x mod (16::nat) = x" "x div 8 = 30 \<Longrightarrow> 240 + x mod (8::nat) = x"
  using div_mult_mod_eq [of x 64] div_mult_mod_eq [of x 32] div_mult_mod_eq [of x 16] div_mult_mod_eq [of x 8]
  by linarith+

lemma map_unat_eq: "map unat xs = map unat (ys :: u8 list) \<Longrightarrow> xs = ys"
  by (simp add: inj_def word_unat_eq_iff inj_map_eq_map)

lemma utf8_encode_decode:
  assumes "root_utf8_decode bs = Some (cp, n)"
  shows "root_unicode_valid cp \<and> n \<le> length bs \<and> root_utf8_encode cp = take n bs"
  using assms
proof (cases rule: decode_shape)
  case (1 a r)
  with assms have cp: "n = 1" "unat cp = unat a" by (auto simp: decode1)
  then have "root_unicode_valid cp" using 1 by (simp add: valid_unat)
  then show ?thesis using encode_unat [of cp] cp 1 by (auto simp: map_eq_Cons_conv word_unat_eq_iff)
next
  case (2 a b r)
  with assms have cp: "n = 2" "unat b div 64 = 2" "unat cp = 64 * (unat a mod 32) + unat b mod 64" "128 \<le> unat cp"
    by (auto simp: decode2 Let_def dec2 split: if_splits)
  have le: "unat cp \<le> 2047"
    using cp(3) mod_less_divisor [of 32 "unat a"] mod_less_divisor [of 64 "unat b"] by linarith
  then have v: "root_unicode_valid cp" by (simp add: valid_unat)
  have f: "unat cp div 64 = unat a mod 32" "unat cp mod 64 = unat b mod 64"
    by (simp_all add: cp(3) undigits64)
  have "map unat (root_utf8_encode cp) = map unat [a, b]"
    using encode_unat [OF v] le cp(4) from_fields(2) [OF 2(2)] from_fields(1) [OF cp(2)] by (simp add: f)
  then have "root_utf8_encode cp = [a, b]" by (rule map_unat_eq)
  then show ?thesis using v cp(1) 2(1) by simp
next
  case (3 a b c r)
  with assms have cp: "n = 3" "unat b div 64 = 2" "unat c div 64 = 2"
    "unat cp = 4096 * (unat a mod 16) + 64 * (unat b mod 64) + unat c mod 64" "2048 \<le> unat cp"
    "root_unicode_valid cp"
    by (auto simp: decode3 Let_def dec3 split: if_splits)
  have le: "unat cp \<le> 65535"
    using cp(4) mod_less_divisor [of 16 "unat a"] mod64_pair [of "unat b" "unat c"] by linarith
  have "unat a mod 16 < 64" using mod_less_divisor [of 16 "unat a"] by linarith
  then have f: "unat cp div 4096 = unat a mod 16" "unat cp div 64 mod 64 = unat b mod 64"
    "unat cp mod 64 = unat c mod 64"
    unfolding cp(4) by (simp_all add: undigits64)
  have "map unat (root_utf8_encode cp) = map unat [a, b, c]"
    using encode_unat [OF cp(6)] le cp(5) from_fields(3) [OF 3(2)] from_fields(1) [OF cp(2)] from_fields(1) [OF cp(3)]
    by (simp add: f)
  then have "root_utf8_encode cp = [a, b, c]" by (rule map_unat_eq)
  then show ?thesis using cp(1,6) 3(1) by simp
next
  case (4 a b c d r)
  with assms have cp: "n = 4" "unat b div 64 = 2" "unat c div 64 = 2" "unat d div 64 = 2"
    "unat cp = 262144 * (unat a mod 8) + 4096 * (unat b mod 64) + 64 * (unat c mod 64) + unat d mod 64"
    "65536 \<le> unat cp" "root_unicode_valid cp"
    by (auto simp: decode4 Let_def dec4 split: if_splits)
  have f: "unat cp div 262144 = unat a mod 8" "unat cp div 4096 mod 64 = unat b mod 64"
    "unat cp div 64 mod 64 = unat c mod 64" "unat cp mod 64 = unat d mod 64"
    unfolding cp(5) by (simp_all add: undigits64)
  have "map unat (root_utf8_encode cp) = map unat [a, b, c, d]"
    using encode_unat [OF cp(7)] cp(6) from_fields(4) [OF 4(2)] from_fields(1) [OF cp(2)] from_fields(1) [OF cp(3)]
      from_fields(1) [OF cp(4)] by (simp add: f)
  then have "root_utf8_encode cp = [a, b, c, d]" by (rule map_unat_eq)
  then show ?thesis using cp(1,7) 4(1) by simp
qed

section \<open>Whole texts\<close>

text \<open>
  The contract of a self-delimiting code: what it decodes is what was encoded, whatever follows, and
  only encodings are decoded. Its clients get that a text is determined by its encoding.
\<close>

locale prefix_codec =
  fixes enc :: "'c \<Rightarrow> 'b list"
    and dec :: "'b list \<Rightarrow> ('c \<times> nat) option"
    and ok :: "'c \<Rightarrow> bool"
  assumes dec_enc: "ok c \<Longrightarrow> dec (enc c @ r) = Some (c, length (enc c))"
    and enc_dec: "dec bs = Some (c, n) \<Longrightarrow> ok c \<and> n \<le> length bs \<and> enc c = take n bs"
    and enc_nonempty: "enc c \<noteq> []"
begin

lemma dec_iff: "dec bs = Some (c, n) \<longleftrightarrow> ok c \<and> n = length (enc c) \<and> prefix (enc c) bs"
proof
  assume d: "dec bs = Some (c, n)"
  from enc_dec [OF this] show "ok c \<and> n = length (enc c) \<and> prefix (enc c) bs"
    by (metis length_take min.absorb2 take_is_prefix)
next
  assume "ok c \<and> n = length (enc c) \<and> prefix (enc c) bs"
  then show "dec bs = Some (c, n)" using dec_enc [of c] by (auto simp: prefix_def)
qed

lemma prefix_free: "ok c \<Longrightarrow> ok d \<Longrightarrow> prefix (enc c) (enc d) \<Longrightarrow> c = d"
  using dec_iff [of "enc d" c "length (enc c)"] dec_iff [of "enc d" d "length (enc d)"] by simp

lemma text_injective:
  "\<forall>c\<in>set cs. ok c \<Longrightarrow> \<forall>d\<in>set ds. ok d \<Longrightarrow> concat (map enc cs) = concat (map enc ds) \<Longrightarrow> cs = ds"
proof (induction cs arbitrary: ds)
  case Nil
  then show ?case using enc_nonempty by (cases ds) auto
next
  case (Cons c cs)
  from Cons.prems enc_nonempty [of c] obtain d ds' where ds: "ds = d # ds'" by (cases ds) auto
  have eq: "enc c @ concat (map enc cs) = enc d @ concat (map enc ds')" using Cons.prems ds by simp
  have "Some (c, length (enc c)) = dec (enc c @ concat (map enc cs))" using dec_enc [of c] Cons.prems(1) by simp
  also have "\<dots> = dec (enc d @ concat (map enc ds'))" by (simp only: eq)
  also have "\<dots> = Some (d, length (enc d))" using dec_enc Cons.prems ds by simp
  finally have cd: "c = d" by simp
  with eq have "concat (map enc cs) = concat (map enc ds')" by simp
  with Cons.prems(1,2) ds have "cs = ds'" by (intro Cons.IH) simp_all
  with cd ds show ?case by simp
qed

end

interpretation utf8: prefix_codec root_utf8_encode root_utf8_decode root_unicode_valid
  by unfold_locales (auto simp: utf8_decode_encode encode_nonempty dest: utf8_encode_decode)

text \<open>
  Decoding inverts encoding: for every valid code point, whatever bytes follow, decoding the
  encoded bytes returns that code point and consumes exactly the bytes the encoder wrote.
\<close>

theorem utf8_decode_inverts_encode:
  "root_unicode_valid cp \<Longrightarrow>
     root_utf8_decode (root_utf8_encode cp @ rest) = Some (cp, length (root_utf8_encode cp))"
  by (rule utf8.dec_enc)

theorem utf8_decode_inverts_encode_witness:
  "root_unicode_valid 0x20AC
   \<and> root_utf8_decode (root_utf8_encode 0x20AC @ [65]) = Some (0x20AC, length (root_utf8_encode 0x20AC))"
proof -
  have v: "root_unicode_valid 0x20AC" by (simp add: root_unicode_valid_def)
  from v utf8_decode_inverts_encode [OF v, of "[65]"] show ?thesis by blast
qed

text \<open>
  The decoder accepts exactly the canonical encodings: it returns a code point and a length if and
  only if the code point is valid and its encoding is a prefix of the input of that length. Overlong
  forms, surrogates, values above U+10FFFF, bad continuation bytes and truncated sequences are
  therefore all rejected, and it never reads past the available bytes.
\<close>

theorem utf8_decode_exact:
  "root_utf8_decode bytes = Some (cp, n) \<longleftrightarrow>
     root_unicode_valid cp \<and> n = length (root_utf8_encode cp) \<and> prefix (root_utf8_encode cp) bytes"
  by (rule utf8.dec_iff)

text \<open>
  A text is determined by its UTF-8 bytes: two sequences of valid code points with the same
  concatenated encodings are equal.
\<close>

theorem utf8_text_injective:
  "\<forall>c\<in>set cs. root_unicode_valid c \<Longrightarrow> \<forall>d\<in>set ds. root_unicode_valid d \<Longrightarrow>
     concat (map root_utf8_encode cs) = concat (map root_utf8_encode ds) \<Longrightarrow> cs = ds"
  by (rule utf8.text_injective)

theorem utf8_text_injective_witness:
  "[65, 0xE9] = [65, 0xE9 :: RootCodepoint]"
  by (rule utf8_text_injective) (simp_all add: root_unicode_valid_def)

lemma utf8_encode_invalid:
  "\<not> root_unicode_valid cp \<Longrightarrow> root_utf8_encode cp = [0xEF, 0xBF, 0xBD]"
proof -
  assume "\<not> root_unicode_valid cp"
  moreover have "root_unicode_valid ROOT_UNICODE_REPLACEMENT"
    by (simp add: root_unicode_valid_def ROOT_UNICODE_REPLACEMENT_def)
  ultimately have "root_utf8_encode cp = root_utf8_encode ROOT_UNICODE_REPLACEMENT"
    by (simp add: root_utf8_encode_def)
  also have "\<dots> = [0xEF, 0xBF, 0xBD]" by code_simp
  finally show ?thesis .
qed

end
