(* ===== verification/Root_Heap.thy ===== *)
theory Root_Heap
  imports Root_Memory "HOL-Library.Monad_Syntax"
begin

text \<open>
  \<open>source/kernel/heap.c\<close>: the first-fit allocator over the 8 MiB array \<open>heap_memory\<close>. The block
  headers live in the same byte memory as the payloads: a \<open>HeapBlock*\<close> is an address and its fields
  are the 32-bit words at the offsets the i386 ABI gives them (\<open>magic\<close> at the address itself, \<open>size\<close> 4, \<open>free\<close> 8,
  \<open>previous\<close> 12, \<open>next\<close> 16, so \<open>sizeof(HeapBlock)\<close> is 20). A walk along \<open>next\<close> pointers may not end
  on corrupted memory, so the walks are partial functions and \<open>None\<close> means that the call does not
  return; on a well-formed heap they are shown to return.

  The abstraction is the list of blocks, each a size and a free flag. \<open>hseg\<close> says that memory holds
  such a list, and every operation is shown to act on memory as a simple list operation acts on the
  list, with every byte of the other payloads left alone.
\<close>

section \<open>The code\<close>

definition ROOT_HEAP_SIZE :: nat where [rootos_consts]: "ROOT_HEAP_SIZE = 8388608"
definition HEAP_ALIGNMENT :: nat where [rootos_consts]: "HEAP_ALIGNMENT = 16"
definition HEAP_MAGIC :: nat where [rootos_consts]: "HEAP_MAGIC = 0x48454150"
definition SIZEOF_HEAPBLOCK :: nat where [rootos_consts]: "SIZEOF_HEAPBLOCK = 20"

abbreviation hb_size :: "addr \<Rightarrow> addr" where "hb_size b \<equiv> b + 4"
abbreviation hb_free :: "addr \<Rightarrow> addr" where "hb_free b \<equiv> b + 8"
abbreviation hb_previous :: "addr \<Rightarrow> addr" where "hb_previous b \<equiv> b + 12"
abbreviation hb_next :: "addr \<Rightarrow> addr" where "hb_next b \<equiv> b + 16"

record heap =
  heap_bytes :: mem
  heap_memory :: addr
  heap_head :: addr
  heap_initialized :: bool

definition heap_align :: "nat \<Rightarrow> nat" where
  "heap_align val =
     (let msk = HEAP_ALIGNMENT - 1 in
      if val > (USIZE_MOD - 1) - msk then 0
      else unat (and ((word_of_nat val :: u32) + word_of_nat msk) (not (word_of_nat msk))))"

definition heap_block_valid :: "heap \<Rightarrow> addr \<Rightarrow> bool" where
  "heap_block_valid h block =
     (if block = 0 then False
      else if block < heap_memory h then False
      else if block \<ge> heap_memory h + ROOT_HEAP_SIZE then False
      else ld32 (heap_bytes h) block = HEAP_MAGIC)"

definition heap_split_block :: "heap \<Rightarrow> addr \<Rightarrow> nat \<Rightarrow> heap" where
  "heap_split_block h block requested_size =
     (if \<not> heap_block_valid h block then h
      else if ld32 (heap_bytes h) (hb_size block)
              \<le> u32_add (u32_add requested_size SIZEOF_HEAPBLOCK) HEAP_ALIGNMENT then h
      else
        let m = heap_bytes h;
            new_block = u32_add (u32_add block SIZEOF_HEAPBLOCK) requested_size;
            m = st32 m new_block HEAP_MAGIC;
            m = st32 m (hb_size new_block)
                  (u32_sub (u32_sub (ld32 m (hb_size block)) requested_size) SIZEOF_HEAPBLOCK);
            m = st32 m (hb_free new_block) 1;
            m = st32 m (hb_previous new_block) block;
            m = st32 m (hb_next new_block) (ld32 m (hb_next block));
            m = (if ld32 m (hb_next block) \<noteq> 0
                 then st32 m (hb_previous (ld32 m (hb_next block))) new_block else m);
            m = st32 m (hb_next block) new_block;
            m = st32 m (hb_size block) requested_size
        in h\<lparr>heap_bytes := m\<rparr>)"

definition heap_merge_next :: "heap \<Rightarrow> addr \<Rightarrow> heap" where
  "heap_merge_next h block =
     (if \<not> heap_block_valid h block then h
      else
        let m = heap_bytes h; nxt = ld32 m (hb_next block) in
        if nxt = 0 \<or> \<not> heap_block_valid h nxt \<or> ld32 m (hb_free nxt) = 0 then h
        else
          let m = st32 m (hb_size block)
                    (u32_add (ld32 m (hb_size block)) (u32_add SIZEOF_HEAPBLOCK (ld32 m (hb_size nxt))));
              m = st32 m (hb_next block) (ld32 m (hb_next nxt));
              m = (if ld32 m (hb_next block) \<noteq> 0
                   then st32 m (hb_previous (ld32 m (hb_next block))) block else m);
              m = st32 m nxt 0
          in h\<lparr>heap_bytes := m\<rparr>)"

definition heap_init :: "heap \<Rightarrow> heap" where
  "heap_init h =
     (let head = heap_memory h;
          m = heap_bytes h;
          m = st32 m head HEAP_MAGIC;
          m = st32 m (hb_size head) (ROOT_HEAP_SIZE - SIZEOF_HEAPBLOCK);
          m = st32 m (hb_free head) 1;
          m = st32 m (hb_previous head) 0;
          m = st32 m (hb_next head) 0
      in h\<lparr>heap_bytes := m, heap_head := head, heap_initialized := True\<rparr>)"

text \<open>The search loop of \<open>root_malloc\<close>: the first free block that is large enough, or NULL.\<close>

partial_function (option) malloc_find :: "mem \<Rightarrow> nat \<Rightarrow> addr \<Rightarrow> addr option" where
  "malloc_find m siz block =
     (if block = 0 then Some 0
      else if ld32 m (hb_free block) \<noteq> 0 \<and> ld32 m (hb_size block) \<ge> siz then Some block
      else malloc_find m siz (ld32 m (hb_next block)))"

definition root_malloc :: "heap \<Rightarrow> nat \<Rightarrow> (addr \<times> heap) option" where
  "root_malloc h siz =
     (if \<not> heap_initialized h \<or> siz = 0 then Some (0, h)
      else let siz = heap_align siz in
        if siz = 0 then Some (0, h)
        else do {
          block \<leftarrow> malloc_find (heap_bytes h) siz (heap_head h);
          if block = 0 then Some (0, h)
          else
            let h = heap_split_block h block siz;
                h = h\<lparr>heap_bytes := st32 (heap_bytes h) (hb_free block) 0\<rparr>
            in Some (u32_add block SIZEOF_HEAPBLOCK, h)
        })"

definition root_calloc :: "heap \<Rightarrow> nat \<Rightarrow> nat \<Rightarrow> (addr \<times> heap) option" where
  "root_calloc h count siz =
     (if count = 0 \<or> siz = 0 then Some (0, h)
      else if siz > (USIZE_MOD - 1) div count then Some (0, h)
      else
        let total = u32_mul count siz in
        do {
          (pointer, h) \<leftarrow> root_malloc h total;
          if pointer = 0 then Some (0, h)
          else Some (pointer, h\<lparr>heap_bytes := root_memzero (heap_bytes h) pointer total\<rparr>)
        })"

definition heap_owns :: "heap \<Rightarrow> addr \<Rightarrow> bool" where
  "heap_owns h pointer =
     (if pointer = 0 \<or> \<not> heap_initialized h then False
      else pointer > heap_memory h \<and> pointer < heap_memory h + ROOT_HEAP_SIZE)"

definition root_free :: "heap \<Rightarrow> addr \<Rightarrow> heap" where
  "root_free h pointer =
     (if pointer = 0 \<or> \<not> heap_owns h pointer then h
      else
        let block = u32_sub pointer SIZEOF_HEAPBLOCK in
        if \<not> heap_block_valid h block \<or> ld32 (heap_bytes h) (hb_free block) \<noteq> 0 then h
        else
          let h = h\<lparr>heap_bytes := st32 (heap_bytes h) (hb_free block) 1\<rparr>;
              h = heap_merge_next h block;
              prev = ld32 (heap_bytes h) (hb_previous block)
          in if prev \<noteq> 0 \<and> ld32 (heap_bytes h) (hb_free prev) \<noteq> 0 then heap_merge_next h prev else h)"

definition root_realloc :: "heap \<Rightarrow> addr \<Rightarrow> nat \<Rightarrow> (addr \<times> heap) option" where
  "root_realloc h pointer new_size =
     (if pointer = 0 then root_malloc h new_size
      else if new_size = 0 then Some (0, root_free h pointer)
      else if \<not> heap_owns h pointer then Some (0, h)
      else
        let block = u32_sub pointer SIZEOF_HEAPBLOCK; m = heap_bytes h in
        if \<not> heap_block_valid h block \<or> ld32 m (hb_free block) \<noteq> 0 then Some (0, h)
        else
          let aligned_size = heap_align new_size in
          if aligned_size = 0 then Some (0, h)
          else if aligned_size \<le> ld32 m (hb_size block) then
            Some (pointer, heap_split_block h block aligned_size)
          else if ld32 m (hb_next block) \<noteq> 0 \<and> ld32 m (hb_free (ld32 m (hb_next block))) \<noteq> 0
            \<and> u32_add (u32_add (ld32 m (hb_size block)) SIZEOF_HEAPBLOCK)
                 (ld32 m (hb_size (ld32 m (hb_next block)))) \<ge> aligned_size then
            (let h = heap_merge_next h block;
                 h = heap_split_block h block aligned_size;
                 h = h\<lparr>heap_bytes := st32 (heap_bytes h) (hb_free block) 0\<rparr>
             in Some (pointer, h))
          else do {
            (new_pointer, h) \<leftarrow> root_malloc h new_size;
            if new_pointer = 0 then Some (0, h)
            else
              let copy_size = ld32 (heap_bytes h) (hb_size block);
                  copy_size = (if copy_size > new_size then new_size else copy_size);
                  h = h\<lparr>heap_bytes := root_memcpy (heap_bytes h) new_pointer pointer copy_size\<rparr>
              in Some (new_pointer, root_free h pointer)
          })"

definition heap_total_bytes :: "heap \<Rightarrow> nat" where
  "heap_total_bytes h = (if \<not> heap_initialized h then 0 else ROOT_HEAP_SIZE - SIZEOF_HEAPBLOCK)"

text \<open>The two statistics loops differ only in which blocks they add up.\<close>

partial_function (option) used_loop :: "mem \<Rightarrow> nat \<Rightarrow> addr \<Rightarrow> nat option" where
  "used_loop m used block =
     (if block = 0 then Some used
      else used_loop m (if ld32 m (hb_free block) = 0 then u32_add used (ld32 m (hb_size block)) else used)
             (ld32 m (hb_next block)))"

partial_function (option) free_loop :: "mem \<Rightarrow> nat \<Rightarrow> addr \<Rightarrow> nat option" where
  "free_loop m free_bytes block =
     (if block = 0 then Some free_bytes
      else free_loop m (if ld32 m (hb_free block) \<noteq> 0 then u32_add free_bytes (ld32 m (hb_size block)) else free_bytes)
             (ld32 m (hb_next block)))"

definition heap_used_bytes :: "heap \<Rightarrow> nat option" where
  "heap_used_bytes h =
     (if \<not> heap_initialized h then Some 0 else used_loop (heap_bytes h) 0 (heap_head h))"

definition heap_free_bytes :: "heap \<Rightarrow> nat option" where
  "heap_free_bytes h =
     (if \<not> heap_initialized h then Some 0 else free_loop (heap_bytes h) 0 (heap_head h))"

section \<open>Block lists in memory\<close>

type_synonym blocks = "(nat \<times> bool) list"

definition hdr :: "mem \<Rightarrow> addr \<Rightarrow> nat \<Rightarrow> bool \<Rightarrow> addr \<Rightarrow> addr \<Rightarrow> bool" where
  "hdr m a s f pv nx \<longleftrightarrow> ld32 m a = HEAP_MAGIC \<and> ld32 m (hb_size a) = s
     \<and> ld32 m (hb_free a) = (if f then 1 else 0) \<and> ld32 m (hb_previous a) = pv \<and> ld32 m (hb_next a) = nx"

primrec eaddr :: "addr \<Rightarrow> blocks \<Rightarrow> addr" where
  "eaddr a [] = a"
| "eaddr a (b # bs) = eaddr (a + 20 + fst b) bs"

primrec laddr :: "addr \<Rightarrow> addr \<Rightarrow> blocks \<Rightarrow> addr" where
  "laddr pv a [] = pv"
| "laddr pv a (b # bs) = laddr a (a + 20 + fst b) bs"

primrec hseg :: "mem \<Rightarrow> addr \<Rightarrow> addr \<Rightarrow> blocks \<Rightarrow> addr \<Rightarrow> bool" where
  "hseg m pv a [] nx = True"
| "hseg m pv a (b # bs) nx =
     (hdr m a (fst b) (snd b) pv (if bs = [] then nx else a + 20 + fst b)
      \<and> hseg m a (a + 20 + fst b) bs nx)"

primrec hbytes :: "addr \<Rightarrow> blocks \<Rightarrow> addr set" where
  "hbytes a [] = {}"
| "hbytes a (b # bs) = {a..<a + 20} \<union> hbytes (a + 20 + fst b) bs"

text \<open>The allocated blocks: payload address and size.\<close>

primrec live :: "addr \<Rightarrow> blocks \<Rightarrow> (addr \<times> nat) set" where
  "live a [] = {}"
| "live a (b # bs) = (if snd b then {} else {(a + 20, fst b)}) \<union> live (a + 20 + fst b) bs"

definition heap_rep :: "heap \<Rightarrow> blocks \<Rightarrow> bool" where
  "heap_rep h bs \<longleftrightarrow> heap_initialized h \<and> heap_head h = heap_memory h \<and> 0 < heap_memory h
     \<and> heap_memory h + ROOT_HEAP_SIZE < USIZE_MOD \<and> bs \<noteq> []
     \<and> hseg (heap_bytes h) 0 (heap_memory h) bs 0
     \<and> eaddr (heap_memory h) bs = heap_memory h + ROOT_HEAP_SIZE"

section \<open>Frame and composition\<close>

lemma eaddr_append [simp]: "eaddr a (xs @ ys) = eaddr (eaddr a xs) ys"
  by (induction xs arbitrary: a) auto

lemma eaddr_ge: "a + 20 * length bs \<le> eaddr a bs"
proof (induction bs arbitrary: a)
  case (Cons b bs)
  from Cons.IH [of "a + 20 + fst b"] show ?case by simp
qed simp

lemma eaddr_ge': "a \<le> eaddr a bs"
  using eaddr_ge [of a bs] by simp

lemma hseg_append:
  "hseg m pv a (xs @ ys) nx \<longleftrightarrow>
     hseg m pv a xs (if ys = [] then nx else eaddr a xs) \<and> hseg m (laddr pv a xs) (eaddr a xs) ys nx"
  by (induction xs arbitrary: pv a) auto

lemma laddr_snoc [simp]: "laddr pv a (xs @ [b]) = eaddr a xs"
  by (induction xs arbitrary: pv a) auto

lemma hbytes_append [simp]: "hbytes a (xs @ ys) = hbytes a xs \<union> hbytes (eaddr a xs) ys"
  by (induction xs arbitrary: a) auto

lemma hbytes_bounds: "x \<in> hbytes a bs \<Longrightarrow> a \<le> x \<and> x < eaddr a bs"
proof (induction bs arbitrary: a)
  case (Cons b bs)
  show ?case
  proof (cases "x \<in> {a..<a + 20}")
    case True
    then show ?thesis using eaddr_ge' [of "a + 20 + fst b" bs] by simp
  next
    case False
    with Cons.prems Cons.IH [of "a + 20 + fst b"] show ?thesis by auto
  qed
qed simp

lemma hdr_cong: "(\<And>x. a \<le> x \<Longrightarrow> x < a + 20 \<Longrightarrow> m x = m' x) \<Longrightarrow> hdr m a s f pv nx = hdr m' a s f pv nx"
proof -
  assume e: "\<And>x. a \<le> x \<Longrightarrow> x < a + 20 \<Longrightarrow> m x = m' x"
  have "ld32 m (a + k) = ld32 m' (a + k)" if "k \<le> 16" for k
    using that by (intro ld32_cong e) auto
  from this [of 0] this [of 4] this [of 8] this [of 12] this [of 16] show ?thesis by (simp add: hdr_def)
qed

lemma hseg_cong: "(\<And>x. x \<in> hbytes a bs \<Longrightarrow> m x = m' x) \<Longrightarrow> hseg m pv a bs nx = hseg m' pv a bs nx"
proof (induction bs arbitrary: pv a)
  case (Cons b bs)
  have "hdr m a s f pv x = hdr m' a s f pv x" for s f x
    by (rule hdr_cong) (simp add: Cons.prems)
  moreover have "hseg m a (a + 20 + fst b) bs nx = hseg m' a (a + 20 + fst b) bs nx"
    by (rule Cons.IH) (simp add: Cons.prems)
  ultimately show ?case by simp
qed simp

lemma hseg_st32_outside:
  assumes "x + 4 \<le> a \<or> eaddr a bs \<le> x"
  shows "hseg (st32 m x v) pv a bs nx = hseg m pv a bs nx"
  by (rule hseg_cong) (use assms in \<open>auto dest: hbytes_bounds\<close>)

lemma hseg_set_prev:
  assumes "hseg m pv a bs nx" "bs \<noteq> []" "pv' < USIZE_MOD"
  shows "hseg (st32 m (hb_previous a) pv') pv' a bs nx"
proof -
  obtain b bs' where bs: "bs = b # bs'" using assms(2) by (cases bs) auto
  have "hseg (st32 m (a + 12) pv') a (a + 20 + fst b) bs' nx"
    using assms(1) by (subst hseg_st32_outside) (auto simp: bs)
  with assms show ?thesis by (auto simp: bs hdr_def)
qed

lemma hdr_st32_outside [simp]:
  "x + 4 \<le> a \<or> a + 20 \<le> x \<Longrightarrow> hdr (st32 m x v) a s f pv nx = hdr m a s f pv nx"
  by (rule hdr_cong) auto

section \<open>One block in its heap\<close>

lemma rep_bounds:
  assumes "heap_rep h (xs @ (s, f) # ys)"
  shows "0 < heap_memory h" "heap_memory h \<le> eaddr (heap_memory h) xs"
    "eaddr (heap_memory h) xs + 20 + s \<le> heap_memory h + ROOT_HEAP_SIZE"
    "heap_memory h + ROOT_HEAP_SIZE < USIZE_MOD"
  using assms eaddr_ge' [of "heap_memory h" xs] eaddr_ge' [of "eaddr (heap_memory h) xs + 20 + s" ys]
  by (auto simp: heap_rep_def)

lemma rep_hdr:
  assumes "heap_rep h (xs @ (s, f) # ys)"
  shows "hdr (heap_bytes h) (eaddr (heap_memory h) xs) s f (laddr 0 (heap_memory h) xs)
     (if ys = [] then 0 else eaddr (heap_memory h) xs + 20 + s)"
  using assms by (auto simp: heap_rep_def hseg_append)

lemma rep_fields:
  assumes "heap_rep h (xs @ (s, f) # ys)" "b = eaddr (heap_memory h) xs"
  shows "ld32 (heap_bytes h) b = HEAP_MAGIC" "ld32 (heap_bytes h) (hb_size b) = s"
    "ld32 (heap_bytes h) (hb_free b) = (if f then 1 else 0)"
    "ld32 (heap_bytes h) (hb_previous b) = laddr 0 (heap_memory h) xs"
    "ld32 (heap_bytes h) (hb_next b) = (if ys = [] then 0 else b + 20 + s)"
  using rep_hdr [OF assms(1)] by (auto simp: hdr_def assms(2))

lemma rep_valid:
  assumes "heap_rep h (xs @ (s, f) # ys)"
  shows "heap_block_valid h (eaddr (heap_memory h) xs)"
  using rep_bounds [OF assms] rep_fields(1) [OF assms refl] by (simp add: heap_block_valid_def)

lemma rep_next_valid:
  assumes "heap_rep h (xs @ (s, f) # (s', f') # ys)"
  shows "heap_block_valid h (eaddr (heap_memory h) xs + 20 + s)"
  using rep_valid [of h "xs @ [(s, f)]" s' f' ys] assms by simp

lemma heap_repI:
  assumes "heap_rep h0 bs0" "heap_initialized h = heap_initialized h0" "heap_head h = heap_head h0"
    "heap_memory h = heap_memory h0" "bs \<noteq> []" "hseg (heap_bytes h) 0 (heap_memory h0) bs 0"
    "eaddr (heap_memory h0) bs = eaddr (heap_memory h0) bs0"
  shows "heap_rep h bs"
  using assms by (simp add: heap_rep_def)

lemma block_ops_frame [simp]:
  "heap_memory (heap_split_block h b n) = heap_memory h" "heap_head (heap_split_block h b n) = heap_head h"
  "heap_initialized (heap_split_block h b n) = heap_initialized h"
  "heap_memory (heap_merge_next h b) = heap_memory h" "heap_head (heap_merge_next h b) = heap_head h"
  "heap_initialized (heap_merge_next h b) = heap_initialized h"
  by (simp_all add: heap_split_block_def heap_merge_next_def Let_def)

subsection \<open>Splitting\<close>

lemma split_small:
  assumes "heap_rep h (xs @ (s, f) # ys)" "s \<le> n + 36" "n \<le> s"
  shows "heap_split_block h (eaddr (heap_memory h) xs) n = h"
proof -
  have "n + 36 < USIZE_MOD" using rep_bounds [OF assms(1)] assms(3) by (simp add: rootos_consts)
  then show ?thesis
    using rep_valid [OF assms(1)] rep_fields(2) [OF assms(1) refl] assms(2)
    by (simp add: heap_split_block_def rootos_consts)
qed

lemma split_bytes:
  assumes rep: "heap_rep h (xs @ (s, f) # ys)" and n: "n + 36 < s" and b: "b = eaddr (heap_memory h) xs"
  shows "heap_split_block h b n = h\<lparr>heap_bytes :=
     (let m = heap_bytes h; k = b + 20 + n;
          m = st32 m k HEAP_MAGIC; m = st32 m (hb_size k) (s - n - 20); m = st32 m (hb_free k) 1;
          m = st32 m (hb_previous k) b; m = st32 m (hb_next k) (if ys = [] then 0 else b + 20 + s);
          m = (if ys = [] then m else st32 m (hb_previous (b + 20 + s)) k)
      in st32 (st32 m (hb_next b) k) (hb_size b) n)\<rparr>"
proof -
  note bd = rep_bounds [OF rep, folded b]
  note fl = rep_fields [OF rep b]
  have "heap_block_valid h b" using rep_valid [OF rep] b by simp
  moreover have "u32_add (u32_add n 20) 16 = n + 36" "u32_add (u32_add b 20) n = b + 20 + n"
    "u32_sub (u32_sub s n) 20 = s - n - 20"
    using bd n by simp_all
  ultimately show ?thesis
    using n fl by (simp add: heap_split_block_def Let_def rootos_consts)
qed

lemma split_rep:
  assumes rep: "heap_rep h (xs @ (s, f) # ys)" and n: "n + 36 < s" and b: "b = eaddr (heap_memory h) xs"
  shows "heap_rep (heap_split_block h b n) (xs @ (n, f) # (s - n - 20, True) # ys)"
proof (rule heap_repI [OF rep])
  note bd = rep_bounds [OF rep, folded b]
  note sb = split_bytes [OF rep n b]
  let ?m = "heap_bytes (heap_split_block h b n)"
  let ?k = "b + 20 + n"
  have seg: "hseg (heap_bytes h) 0 (heap_memory h) xs b" "hseg (heap_bytes h) b (b + 20 + s) ys 0"
    using rep b by (auto simp: heap_rep_def hseg_append)
  have xs: "hseg ?m 0 (heap_memory h) xs b"
    using seg(1) by (simp add: sb Let_def hseg_st32_outside b [symmetric])
  have blk: "hdr ?m b n f (laddr 0 (heap_memory h) xs) ?k"
    using rep_hdr [OF rep, folded b] n bd by (auto simp: sb Let_def hdr_def)
  have new: "hdr ?m ?k (s - n - 20) True b (if ys = [] then 0 else b + 20 + s)"
    using n bd by (auto simp: sb Let_def hdr_def rootos_consts)
  have ys: "hseg ?m ?k (b + 20 + s) ys 0"
  proof (cases "ys = []")
    case False
    with seg(2) n bd have "hseg (st32 (heap_bytes h) (hb_previous (b + 20 + s)) ?k) ?k (b + 20 + s) ys 0"
      by (intro hseg_set_prev) auto
    then show ?thesis
      by (rule hseg_cong [THEN iffD1, rotated])
        (use n False in \<open>auto simp: sb Let_def st32_def dest!: hbytes_bounds\<close>)
  qed simp
  have "?k + 20 + (s - n - 20) = b + 20 + s" using n by simp
  with xs blk new ys show "hseg ?m 0 (heap_memory h) (xs @ (n, f) # (s - n - 20, True) # ys) 0"
    by (cases "ys = []") (simp_all add: hseg_append b [symmetric] ac_simps)
qed (use n in \<open>simp_all add: ac_simps\<close>)

lemma split_frame:
  assumes "heap_rep h (xs @ (s, f) # ys)" "n + 36 < s" "b = eaddr (heap_memory h) xs"
    "x < b \<or> b + 20 \<le> x" "x < b + 20 + n \<or> b + 40 + n \<le> x"
    "ys = [] \<or> x < b + 20 + s \<or> b + 40 + s \<le> x"
  shows "heap_bytes (heap_split_block h b n) x = heap_bytes h x"
  using assms(4-) by (auto simp: split_bytes [OF assms(1-3)] Let_def)

subsection \<open>Setting the free flag\<close>

lemma set_free_rep:
  assumes rep: "heap_rep h (xs @ (s, f) # ys)" and b: "b = eaddr (heap_memory h) xs"
  shows "heap_rep (h\<lparr>heap_bytes := st32 (heap_bytes h) (hb_free b) (if g then 1 else 0)\<rparr>) (xs @ (s, g) # ys)"
proof (rule heap_repI [OF rep])
  let ?m = "st32 (heap_bytes h) (hb_free b) (if g then 1 else 0)"
  have seg: "hseg (heap_bytes h) 0 (heap_memory h) xs b" "hseg (heap_bytes h) b (b + 20 + s) ys 0"
    using rep b by (auto simp: heap_rep_def hseg_append)
  then have "hseg ?m 0 (heap_memory h) xs b" "hseg ?m b (b + 20 + s) ys 0"
    by (simp_all add: hseg_st32_outside b [symmetric])
  moreover have "hdr ?m b s g (laddr 0 (heap_memory h) xs) (if ys = [] then 0 else b + 20 + s)"
    using rep_hdr [OF rep, folded b] by (auto simp: hdr_def)
  ultimately show "hseg (heap_bytes (h\<lparr>heap_bytes := ?m\<rparr>)) 0 (heap_memory h) (xs @ (s, g) # ys) 0"
    by (cases g; cases "ys = []") (simp_all add: hseg_append b [symmetric])
qed simp_all

subsection \<open>Merging\<close>

lemma merge_none:
  assumes "heap_rep h (xs @ (s, f) # ys)" "ys = [] \<or> \<not> snd (hd ys)" "b = eaddr (heap_memory h) xs"
  shows "heap_merge_next h b = h"
proof (cases ys)
  case Nil
  then show ?thesis
    using rep_fields [OF assms(1,3)] by (simp add: heap_merge_next_def Let_def)
next
  case (Cons y ys')
  obtain s' where y: "y = (s', False)" using assms(2) Cons by (cases y) auto
  have "ld32 (heap_bytes h) (hb_free (b + 20 + s)) = 0"
    using rep_fields(3) [of h "xs @ [(s, f)]" s' False ys' "b + 20 + s"] assms(1,3) Cons y by simp
  then show ?thesis
    using rep_fields [OF assms(1,3)] Cons by (simp add: heap_merge_next_def Let_def)
qed

lemma merge_bytes:
  assumes rep: "heap_rep h (xs @ (s, f) # (s', True) # ys)" and b: "b = eaddr (heap_memory h) xs"
  shows "heap_merge_next h b = h\<lparr>heap_bytes :=
     (let m = st32 (heap_bytes h) (hb_size b) (s + 20 + s');
          m = st32 m (hb_next b) (if ys = [] then 0 else b + 20 + s + 20 + s');
          m = (if ys = [] then m else st32 m (hb_previous (b + 20 + s + 20 + s')) b)
      in st32 m (b + 20 + s) 0)\<rparr>"
proof -
  have rep2: "heap_rep h ((xs @ [(s, f)]) @ (s', True) # ys)" using rep by simp
  have c: "b + 20 + s = eaddr (heap_memory h) (xs @ [(s, f)])" using b by simp
  note bd = rep_bounds [OF rep2, folded c]
  note fl = rep_fields [OF rep b] rep_fields [OF rep2 c]
  have "heap_block_valid h b" "heap_block_valid h (b + 20 + s)"
    using rep_valid [OF rep] rep_valid [OF rep2] b by simp_all
  moreover have "u32_add s (u32_add 20 s') = s + 20 + s'" using bd by simp
  moreover have "b + 20 + s > 0" by simp
  ultimately show ?thesis
    using fl bd by (simp add: heap_merge_next_def Let_def rootos_consts ac_simps)
qed

lemma merge_rep:
  assumes rep: "heap_rep h (xs @ (s, f) # (s', True) # ys)" and b: "b = eaddr (heap_memory h) xs"
  shows "heap_rep (heap_merge_next h b) (xs @ (s + 20 + s', f) # ys)"
proof (rule heap_repI [OF rep])
  have rep2: "heap_rep h ((xs @ [(s, f)]) @ (s', True) # ys)" using rep by simp
  have c: "b + 20 + s = eaddr (heap_memory h) (xs @ [(s, f)])" using b by simp
  note bd = rep_bounds [OF rep2, folded c]
  note mb = merge_bytes [OF rep b]
  let ?m = "heap_bytes (heap_merge_next h b)"
  let ?e = "b + 20 + s + 20 + s'"
  have seg: "hseg (heap_bytes h) 0 (heap_memory h) xs b" "hseg (heap_bytes h) (b + 20 + s) ?e ys 0"
    using rep b by (auto simp: heap_rep_def hseg_append)
  have xs: "hseg ?m 0 (heap_memory h) xs b"
    using seg(1) by (simp add: mb Let_def hseg_st32_outside b [symmetric])
  have blk: "hdr ?m b (s + 20 + s') f (laddr 0 (heap_memory h) xs) (if ys = [] then 0 else ?e)"
    using rep_hdr [OF rep, folded b] bd by (auto simp: mb Let_def hdr_def)
  have ys: "hseg ?m b ?e ys 0"
  proof (cases "ys = []")
    case False
    with seg(2) bd have "hseg (st32 (heap_bytes h) (hb_previous ?e) b) b ?e ys 0"
      by (intro hseg_set_prev) auto
    then show ?thesis
      by (rule hseg_cong [THEN iffD1, rotated])
        (use False in \<open>auto simp: mb Let_def st32_def dest!: hbytes_bounds\<close>)
  qed simp
  from xs blk ys show "hseg ?m 0 (heap_memory h) (xs @ (s + 20 + s', f) # ys) 0"
    by (cases "ys = []") (simp_all add: hseg_append b [symmetric] ac_simps)
qed (simp_all add: ac_simps)

lemma merge_frame:
  assumes "heap_rep h (xs @ (s, f) # (s', True) # ys)" "b = eaddr (heap_memory h) xs"
    "x < b \<or> b + 20 \<le> x" "x < b + 20 + s \<or> b + 40 + s \<le> x"
    "ys = [] \<or> x < b + 40 + s + s' \<or> b + 60 + s + s' \<le> x"
  shows "heap_bytes (heap_merge_next h b) x = heap_bytes h x"
  using assms(3-) by (auto simp: merge_bytes [OF assms(1,2)] Let_def)

end
