(* ===== verification/Root_Heap_Ops.thy ===== *)
theory Root_Heap_Ops
  imports Root_Heap
begin

text \<open>
  Functional correctness of the allocator of \<open>Root_Heap\<close>: first-fit search, allocation, release and
  resizing on represented heaps, the interface its clients rely on, and the safety of every sequence
  of calls.
\<close>

section \<open>Alignment of requests\<close>

lemma heap_align_0: "USIZE_MOD - 16 < n \<Longrightarrow> n < USIZE_MOD \<Longrightarrow> heap_align n = 0"
  by (simp add: heap_align_def Let_def rootos_consts)

lemma word_clear_low4: "unat (and (w::u32) (- 16)) = unat w div 16 * 16"
proof -
  have "and w (not (mask 4)) = push_bit 4 (drop_bit 4 w)"
    by (auto intro!: bit_word_eqI simp: bit_simps)
  moreover have "not (mask 4) = (- 16 :: u32)" using minus_exp_eq_not_mask [of 4] by simp
  ultimately have "and w (- 16) = push_bit 4 (drop_bit 4 w)" by simp
  moreover have "unat w < USIZE_MOD" using unsigned_less [of w] by simp
  then have "unat (push_bit 4 (drop_bit 4 w)) = unat w div 16 * 16"
    unfolding unsigned_push_bit_eq unsigned_drop_bit_eq
    by (simp add: take_bit_nat_eq_self take_bit_eq_mod push_bit_eq_mult drop_bit_eq_div)
  ultimately show ?thesis by simp
qed

lemma heap_align_eq: "n \<le> USIZE_MOD - 16 \<Longrightarrow> heap_align n = (n + 15) div 16 * 16"
proof -
  assume n: "n \<le> USIZE_MOD - 16"
  then have "unat ((word_of_nat n :: u32) + 15) = n + 15"
    by (simp add: unat_word_ariths unat_of_nat)
  with n show ?thesis by (simp add: heap_align_def Let_def rootos_consts word_clear_low4)
qed

text \<open>
  Rounding a request up to the alignment never wraps: for every 32-bit size the result is either 0,
  exactly when rounding up would not fit 32 bits, or the least multiple of 16 that is at least the
  size.
\<close>

theorem heap_align_correct:
  assumes "n < USIZE_MOD"
  shows "if n > USIZE_MOD - 16 then heap_align n = 0
     else n \<le> heap_align n \<and> heap_align n < n + 16 \<and> 16 dvd heap_align n \<and> heap_align n < USIZE_MOD"
proof (cases "n > USIZE_MOD - 16")
  case True
  with assms show ?thesis by (simp add: heap_align_0)
next
  case False
  then have "heap_align n = (n + 15) div 16 * 16" by (intro heap_align_eq) simp
  with False show ?thesis by auto
qed

theorem heap_align_correct_witness:
  "(if (100::nat) > USIZE_MOD - 16 then heap_align 100 = 0
     else 100 \<le> heap_align 100 \<and> heap_align 100 < 100 + 16 \<and> 16 dvd heap_align 100 \<and> heap_align 100 < USIZE_MOD)"
  by (rule heap_align_correct) simp

lemma heap_align_bounds:
  "0 < n \<Longrightarrow> n < USIZE_MOD \<Longrightarrow> heap_align n \<noteq> 0 \<Longrightarrow> n \<le> heap_align n \<and> heap_align n < USIZE_MOD"
  using heap_align_0 [of n] heap_align_eq [of n] by (cases "n \<le> USIZE_MOD - 16") auto

section \<open>First fit\<close>

primrec first_fit :: "nat \<Rightarrow> blocks \<Rightarrow> (blocks \<times> nat \<times> blocks) option" where
  "first_fit n [] = None"
| "first_fit n (b # bs) =
     (if snd b \<and> n \<le> fst b then Some ([], fst b, bs)
      else map_option (\<lambda>(xs, s, ys). (b # xs, s, ys)) (first_fit n bs))"

lemma first_fit_Some:
  "first_fit n bs = Some (xs, s, ys) \<Longrightarrow>
     bs = xs @ (s, True) # ys \<and> n \<le> s \<and> (\<forall>b\<in>set xs. \<not> (snd b \<and> n \<le> fst b))"
proof (induction bs arbitrary: xs)
  case (Cons b bs)
  show ?case
  proof (cases "snd b \<and> n \<le> fst b")
    case True
    with Cons.prems show ?thesis by (cases b) auto
  next
    case False
    with Cons.prems obtain xs' where "first_fit n bs = Some (xs', s, ys)" "xs = b # xs'" by auto
    with Cons.IH [of xs'] False show ?thesis by auto
  qed
qed simp

lemma first_fit_None: "first_fit n bs = None \<longleftrightarrow> (\<forall>b\<in>set bs. \<not> (snd b \<and> n \<le> fst b))"
  by (induction bs) auto

lemma malloc_find_seg:
  "hseg m pv a bs 0 \<Longrightarrow> 0 < a \<Longrightarrow>
     malloc_find m n (if bs = [] then 0 else a)
       = Some (case first_fit n bs of None \<Rightarrow> 0 | Some (xs, s, ys) \<Rightarrow> eaddr a xs)"
proof (induction bs arbitrary: pv a)
  case Nil
  then show ?case by (simp add: malloc_find.simps)
next
  case (Cons b bs)
  then have IH: "malloc_find m n (if bs = [] then 0 else a + 20 + fst b)
      = Some (case first_fit n bs of None \<Rightarrow> 0 | Some (xs, s, ys) \<Rightarrow> eaddr (a + 20 + fst b) xs)"
    by (intro Cons.IH) auto
  have fields: "ld32 m (hb_free a) = (if snd b then 1 else 0)" "ld32 m (hb_size a) = fst b"
    "ld32 m (hb_next a) = (if bs = [] then 0 else a + 20 + fst b)"
    using Cons.prems by (auto simp: hdr_def)
  show ?case
    using Cons.prems(2) IH fields by (subst malloc_find.simps) (auto split: option.splits)
qed

lemma malloc_find_rep:
  assumes "heap_rep h bs"
  shows "malloc_find (heap_bytes h) n (heap_head h)
     = Some (case first_fit n bs of None \<Rightarrow> 0 | Some (xs, s, ys) \<Rightarrow> eaddr (heap_memory h) xs)"
  using malloc_find_seg [of "heap_bytes h" 0 "heap_memory h" bs n] assms by (auto simp: heap_rep_def)

section \<open>Payloads\<close>

lemma live_append [simp]: "live a (xs @ ys) = live a xs \<union> live (eaddr a xs) ys"
  by (induction xs arbitrary: a) auto

lemma live_bounds: "(q, t) \<in> live a bs \<Longrightarrow> a + 20 \<le> q \<and> q + t \<le> eaddr a bs"
proof (induction bs arbitrary: a)
  case (Cons b bs)
  then show ?case
    using eaddr_ge' [of "a + 20 + fst b" bs] Cons.IH [of "a + 20 + fst b"]
    by (auto split: if_splits)
qed simp

lemma live_not_header: "(q, t) \<in> live a bs \<Longrightarrow> q \<le> x \<Longrightarrow> x < q + t \<Longrightarrow> x \<notin> hbytes a bs"
proof (induction bs arbitrary: a)
  case (Cons b bs)
  show ?case
  proof (cases "(q, t) \<in> live (a + 20 + fst b) bs")
    case True
    with Cons live_bounds [OF True] show ?thesis by auto
  next
    case False
    with Cons.prems have "q = a + 20" "t = fst b" by (auto split: if_splits)
    with Cons.prems show ?thesis by (auto dest: hbytes_bounds)
  qed
qed simp

lemma live_member: "(q, t) \<in> live a bs \<longleftrightarrow> (\<exists>xs ys. bs = xs @ (t, False) # ys \<and> q = eaddr a xs + 20)"
proof (induction bs arbitrary: a)
  case (Cons b bs)
  show ?case (is "?l \<longleftrightarrow> ?r")
  proof
    assume ?l
    then consider "b = (t, False)" "q = a + 20" | "(q, t) \<in> live (a + 20 + fst b) bs"
      by (cases b) (auto split: if_splits)
    then show ?r
    proof cases
      case 1
      then have "b # bs = [] @ (t, False) # bs \<and> q = eaddr a [] + 20" by simp
      then show ?thesis by blast
    next
      case 2
      with Cons.IH obtain xs ys where "bs = xs @ (t, False) # ys" "q = eaddr (a + 20 + fst b) xs + 20" by blast
      then have "b # bs = (b # xs) @ (t, False) # ys \<and> q = eaddr a (b # xs) + 20" by simp
      then show ?thesis by blast
    qed
  next
    assume ?r
    then obtain xs ys where "b # bs = xs @ (t, False) # ys" "q = eaddr a xs + 20" by blast
    with Cons.IH [of "a + 20 + fst b"] show ?l by (cases xs) auto
  qed
qed simp

lemma first_header: "x \<notin> hbytes c ys \<Longrightarrow> ys = [] \<or> x < c \<or> c + 20 \<le> x"
  by (cases ys) auto

lemma live_apart:
  "(p, s) \<in> live a bs \<Longrightarrow> (q, t) \<in> live a bs \<Longrightarrow> (p, s) \<noteq> (q, t) \<Longrightarrow> p + s \<le> q \<or> q + t \<le> p"
proof (induction bs arbitrary: a)
  case (Cons b bs)
  let ?a = "a + 20 + fst b"
  have *: "a + 20 + fst b \<le> r" if "(r, u) \<in> live ?a bs" for r u using live_bounds [OF that] by simp
  from Cons.prems consider "(p, s) \<in> live ?a bs" "(q, t) \<in> live ?a bs"
    | "p = a + 20" "s = fst b" "(q, t) \<in> live ?a bs" | "q = a + 20" "t = fst b" "(p, s) \<in> live ?a bs"
    by (auto split: if_splits)
  then show ?case
  proof cases
    case 1
    with Cons show ?thesis by blast
  qed (use * in auto)
qed simp

section \<open>Allocation\<close>

text \<open>What \<open>heap_split_block\<close> makes of a block of size \<open>s\<close> for a request of \<open>n\<close> bytes.\<close>

definition carve :: "bool \<Rightarrow> nat \<Rightarrow> nat \<Rightarrow> blocks" where
  "carve f n s = (if s \<le> n + 36 then [(s, f)] else [(n, f), (s - n - 20, True)])"

abbreviation carved :: "nat \<Rightarrow> nat \<Rightarrow> nat" where
  "carved n s \<equiv> (if s \<le> n + 36 then s else n)"

lemma live_carve [simp]: "live a (carve f n s) = (if f then {} else {(a + 20, carved n s)})"
  by (simp add: carve_def)

lemma eaddr_carve [simp]: "eaddr a (carve f n s) = a + 20 + s"
  by (auto simp: carve_def)

lemma carve_Cons: "\<exists>zs. \<forall>g. carve g n s = (carved n s, g) # zs"
  by (simp add: carve_def)

text \<open>
  \<open>frames h h' b k s ys\<close>: between the two heaps only the header of the block \<open>b\<close>, its bytes from \<open>k\<close>
  on (of \<open>s\<close>) and the headers of the blocks \<open>ys\<close> behind it may differ.
\<close>

definition frames :: "heap \<Rightarrow> heap \<Rightarrow> addr \<Rightarrow> nat \<Rightarrow> nat \<Rightarrow> blocks \<Rightarrow> bool" where
  "frames h h' b k s ys \<longleftrightarrow> (\<forall>x. (x < b \<or> b + 20 \<le> x) \<longrightarrow> (x < b + 20 + k \<or> b + 20 + s \<le> x)
     \<longrightarrow> x \<notin> hbytes (b + 20 + s) ys \<longrightarrow> heap_bytes h' x = heap_bytes h x)"

lemma frames_set_free:
  "frames h h' b k s ys \<Longrightarrow> frames h (h'\<lparr>heap_bytes := st32 (heap_bytes h') (hb_free b) v\<rparr>) b k s ys"
  by (auto simp: frames_def)

lemma split_carve:
  assumes rep: "heap_rep h (xs @ (s, f) # ys)" and n: "n \<le> s" and b: "b = eaddr (heap_memory h) xs"
  shows "heap_rep (heap_split_block h b n) (xs @ carve f n s @ ys) \<and> frames h (heap_split_block h b n) b n s ys"
proof (cases "s \<le> n + 36")
  case True
  then show ?thesis using split_small [OF rep True n] rep by (simp add: carve_def frames_def b)
next
  case False
  then have n': "n + 36 < s" by simp
  have "heap_bytes (heap_split_block h b n) x = heap_bytes h x"
    if "x < b \<or> b + 20 \<le> x" "x < b + 20 + n \<or> b + 20 + s \<le> x" "x \<notin> hbytes (b + 20 + s) ys" for x
  proof -
    have "x < b + 20 + n \<or> b + 40 + n \<le> x" using that(2) n' by linarith
    moreover have "ys = [] \<or> x < b + 20 + s \<or> b + 40 + s \<le> x" using first_header [OF that(3)] by linarith
    ultimately show ?thesis by (rule split_frame [OF rep n' b that(1)])
  qed
  then show ?thesis using split_rep [OF rep n' b] False by (simp add: carve_def frames_def)
qed

lemma split_take:
  assumes "heap_rep h (xs @ (s, f) # ys)" "n \<le> s" "b = eaddr (heap_memory h) xs"
  defines "h' \<equiv> (let h = heap_split_block h b n in h\<lparr>heap_bytes := st32 (heap_bytes h) (hb_free b) 0\<rparr>)"
  shows "heap_rep h' (xs @ carve False n s @ ys)" "heap_memory h' = heap_memory h" "frames h h' b n s ys"
proof -
  note sc = split_carve [OF assms(1-3)]
  obtain zs where zs: "\<And>g. carve g n s = (carved n s, g) # zs" using carve_Cons by blast
  have "heap_rep (heap_split_block h b n) (xs @ (carved n s, f) # zs @ ys)" using sc zs [of f] by simp
  from set_free_rep [OF this, of b False] show "heap_rep h' (xs @ carve False n s @ ys)"
    using zs [of False] assms(3) by (simp add: h'_def Let_def)
  show "heap_memory h' = heap_memory h" by (simp add: h'_def Let_def)
  from sc show "frames h h' b n s ys" unfolding h'_def Let_def by (intro frames_set_free) simp
qed

text \<open>The payloads in \<open>L\<close> hold the same bytes in both heaps.\<close>

definition kept :: "heap \<Rightarrow> heap \<Rightarrow> (addr \<times> nat) set \<Rightarrow> bool" where
  "kept h h' L \<longleftrightarrow> (\<forall>q t x. (q, t) \<in> L \<longrightarrow> q \<le> x \<longrightarrow> x < q + t \<longrightarrow> heap_bytes h' x = heap_bytes h x)"

lemma kept_refl [simp]: "kept h h L"
  by (simp add: kept_def)

lemma kept_trans: "kept h h' L \<Longrightarrow> kept h' h'' L \<Longrightarrow> kept h h'' L"
  by (simp add: kept_def)

lemma kept_mono: "kept h h' L \<Longrightarrow> M \<subseteq> L \<Longrightarrow> kept h h' M"
  unfolding kept_def by blast

lemma keptD: "kept h h' L \<Longrightarrow> (q, t) \<in> L \<Longrightarrow> i < t \<Longrightarrow> heap_bytes h' (q + i) = heap_bytes h (q + i)"
  by (auto simp: kept_def)

lemma frames_kept:
  assumes "heap_rep h (xs @ (s, f) # ys)" "b = eaddr (heap_memory h) xs" "frames h h' b k s ys" "k \<le> s"
  shows "kept h h' (live (heap_memory h) xs \<union> insert (b + 20, k) (live (b + 20 + s) ys))"
  unfolding kept_def
proof (intro allI impI)
  fix q t x
  assume "(q, t) \<in> live (heap_memory h) xs \<union> insert (b + 20, k) (live (b + 20 + s) ys)" "q \<le> x" "x < q + t"
  then consider "(q, t) \<in> live (heap_memory h) xs" | "q = b + 20" "t = k" | "(q, t) \<in> live (b + 20 + s) ys"
    by blast
  then show "heap_bytes h' x = heap_bytes h x"
  proof cases
    case 1
    with live_bounds [OF this] \<open>x < q + t\<close> assms(2) have "x < b" by simp
    then have "x \<notin> hbytes (b + 20 + s) ys" by (auto dest: hbytes_bounds)
    with \<open>x < b\<close> assms(3) show ?thesis by (simp add: frames_def)
  next
    case 2
    with \<open>q \<le> x\<close> \<open>x < q + t\<close> \<open>k \<le> s\<close> have "x < b + 20 + s" "b + 20 \<le> x" "x < b + 20 + k" by simp_all
    moreover from this have "x \<notin> hbytes (b + 20 + s) ys" by (auto dest: hbytes_bounds)
    ultimately show ?thesis using assms(3) by (simp add: frames_def)
  next
    case 3
    with live_bounds [OF 3] \<open>q \<le> x\<close> have "b + 20 + s \<le> x" by simp
    with assms(3) live_not_header [OF 3 \<open>q \<le> x\<close> \<open>x < q + t\<close>] show ?thesis by (simp add: frames_def)
  qed
qed

lemma malloc_steps:
  assumes "heap_rep h bs" "0 < n" "heap_align n \<noteq> 0"
  shows "root_malloc h n = Some (case first_fit (heap_align n) bs of
       None \<Rightarrow> (0, h)
     | Some (xs, s, ys) \<Rightarrow>
         (eaddr (heap_memory h) xs + 20,
          let h = heap_split_block h (eaddr (heap_memory h) xs) (heap_align n)
          in h\<lparr>heap_bytes := st32 (heap_bytes h) (hb_free (eaddr (heap_memory h) xs)) 0\<rparr>))"
proof (cases "first_fit (heap_align n) bs")
  case None
  then show ?thesis
    using assms malloc_find_rep [OF assms(1), of "heap_align n"]
    by (simp add: root_malloc_def Let_def heap_rep_def)
next
  case (Some r)
  obtain xs s ys where r: "r = (xs, s, ys)" by (cases r)
  from first_fit_Some [OF Some [unfolded r]] have bs: "bs = xs @ (s, True) # ys" by simp
  note bd = rep_bounds [OF assms(1) [unfolded bs]]
  have "eaddr (heap_memory h) xs \<noteq> 0" "u32_add (eaddr (heap_memory h) xs) 20 = eaddr (heap_memory h) xs + 20"
    using bd by simp_all
  then show ?thesis
    using assms malloc_find_rep [OF assms(1), of "heap_align n"] Some r
    by (simp add: root_malloc_def Let_def heap_rep_def rootos_consts)
qed

lemma malloc_rep:
  assumes "heap_rep h bs" "0 < n" "n < USIZE_MOD"
  obtains (null) "root_malloc h n = Some (0, h)" "heap_align n = 0 \<or> (\<forall>b\<in>set bs. \<not> (snd b \<and> heap_align n \<le> fst b))"
  | (block) p h' bs' sz where "root_malloc h n = Some (p, h')" "0 < p" "heap_rep h' bs'"
      "heap_memory h' = heap_memory h" "n \<le> sz"
      "live (heap_memory h) bs' = insert (p, sz) (live (heap_memory h) bs)"
      "(p, sz) \<notin> live (heap_memory h) bs" "kept h h' (live (heap_memory h) bs)"
proof (cases "heap_align n = 0")
  case True
  with assms null show ?thesis by (simp add: root_malloc_def)
next
  case False
  note al = heap_align_bounds [OF assms(2,3) False]
  note steps = malloc_steps [OF assms(1,2) False]
  show ?thesis
  proof (cases "first_fit (heap_align n) bs")
    case None
    with steps null show ?thesis by (simp add: first_fit_None)
  next
    case (Some r)
    obtain xs s ys where r: "r = (xs, s, ys)" by (cases r)
    from first_fit_Some [OF Some [unfolded r]] have bs: "bs = xs @ (s, True) # ys" and s: "heap_align n \<le> s"
      by simp_all
    define b where "b = eaddr (heap_memory h) xs"
    define h' where "h' = (let h = heap_split_block h b (heap_align n)
      in h\<lparr>heap_bytes := st32 (heap_bytes h) (hb_free b) 0\<rparr>)"
    let ?sz = "carved (heap_align n) s"
    note rep = assms(1) [unfolded bs]
    note sc = split_take [OF rep s b_def, folded h'_def]
    have lv: "live (heap_memory h) (xs @ carve False (heap_align n) s @ ys) = insert (b + 20, ?sz) (live (heap_memory h) bs)"
      by (simp add: bs b_def)
    have new: "(b + 20, ?sz) \<notin> live (heap_memory h) bs"
      using live_bounds [of "b + 20" ?sz "heap_memory h" xs] live_bounds [of "b + 20" ?sz "b + 20 + s" ys]
      by (auto simp: bs b_def [symmetric])
    have "kept h h' (live (heap_memory h) bs)"
      by (rule kept_mono [OF frames_kept [OF rep b_def sc(3) s]]) (auto simp: bs b_def)
    then show ?thesis
      using block [of "b + 20" h' "xs @ carve False (heap_align n) s @ ys" ?sz] steps Some r sc(1,2) lv new al s
      by (simp add: h'_def b_def)
  qed
qed

section \<open>Release\<close>

lemma merge_any:
  assumes rep: "heap_rep h (xs @ (s, f) # ys)" and b: "b = eaddr (heap_memory h) xs"
  obtains s' ys' where "heap_rep (heap_merge_next h b) (xs @ (s', f) # ys')" "s \<le> s'"
    "live (b + 20 + s') ys' = live (b + 20 + s) ys" "frames h (heap_merge_next h b) b s s ys"
proof (cases "ys = [] \<or> \<not> snd (hd ys)")
  case True
  then show ?thesis using that [of s ys] merge_none [OF rep True b] rep by (simp add: frames_def)
next
  case False
  then obtain t ys' where ys: "ys = (t, True) # ys'" by (cases ys) auto
  note rep' = rep [unfolded ys]
  have "frames h (heap_merge_next h b) b s s ys"
    unfolding frames_def
  proof (intro allI impI)
    fix x
    assume x: "x < b \<or> b + 20 \<le> x" "x \<notin> hbytes (b + 20 + s) ys"
    then have "x < b + 20 + s \<or> b + 40 + s \<le> x" by (auto simp: ys)
    moreover have "ys' = [] \<or> x < b + 40 + s + t \<or> b + 60 + s + t \<le> x"
    proof -
      have "x \<notin> hbytes (b + 20 + s + 20 + t) ys'" using x(2) ys by simp
      from first_header [OF this] show ?thesis by linarith
    qed
    ultimately show "heap_bytes (heap_merge_next h b) x = heap_bytes h x"
      by (rule merge_frame [OF rep' b x(1)])
  qed
  moreover have "live (b + 20 + (s + 20 + t)) ys' = live (b + 20 + s) ys" by (simp add: ys ac_simps)
  ultimately show ?thesis using that [of "s + 20 + t" ys'] merge_rep [OF rep' b] by simp
qed

lemma owns_block:
  assumes "heap_rep h (xs @ (s, f) # ys)" "p = eaddr (heap_memory h) xs + 20"
  shows "p \<noteq> 0" "u32_sub p SIZEOF_HEAPBLOCK = eaddr (heap_memory h) xs" "0 < s \<Longrightarrow> heap_owns h p"
  using rep_bounds [OF assms(1)] assms by (auto simp: heap_owns_def heap_rep_def SIZEOF_HEAPBLOCK_def)

lemma live_remove:
  assumes "p = eaddr a xs + 20"
  shows "live a (xs @ (s, False) # ys) - {(p, s)} = live a xs \<union> live (eaddr a xs + 20 + s) ys"
  using live_bounds [of p s a xs] live_bounds [of p s "eaddr a xs + 20 + s" ys] assms by auto

text \<open>The tail of \<open>root_free\<close>: after the block itself has been marked free.\<close>

lemma free_tail:
  assumes rep: "heap_rep h (xs @ (s, True) # ys)" and b: "b = eaddr (heap_memory h) xs"
  defines "h1 \<equiv> heap_merge_next h b"
  defines "prev \<equiv> ld32 (heap_bytes h1) (hb_previous b)"
  defines "h2 \<equiv> (if prev \<noteq> 0 \<and> ld32 (heap_bytes h1) (hb_free prev) \<noteq> 0 then heap_merge_next h1 prev else h1)"
  obtains bs' where "heap_rep h2 bs'" "heap_memory h2 = heap_memory h"
    "live (heap_memory h) bs' = live (heap_memory h) xs \<union> live (b + 20 + s) ys"
    "kept h h2 (live (heap_memory h) xs \<union> live (b + 20 + s) ys)"
proof -
  let ?a = "heap_memory h"
  let ?L = "live ?a xs \<union> live (b + 20 + s) ys"
  obtain s' ys' where m1: "heap_rep h1 (xs @ (s', True) # ys')" "live (b + 20 + s') ys' = live (b + 20 + s) ys"
      and f1: "frames h h1 b s s ys"
    using merge_any [OF rep b] unfolding h1_def by metis
  have a1 [simp]: "heap_memory h1 = ?a" by (simp add: h1_def)
  have k1: "kept h h1 ?L" by (rule kept_mono [OF frames_kept [OF rep b f1]]) auto
  have prev: "prev = laddr 0 ?a xs" using rep_fields(4) [OF m1(1), of b] b by (simp add: prev_def)
  show ?thesis
  proof (cases "prev \<noteq> 0 \<and> ld32 (heap_bytes h1) (hb_free prev) \<noteq> 0")
    case False
    then have "h2 = h1" by (auto simp: h2_def)
    with m1 k1 that [of "xs @ (s', True) # ys'"] b show ?thesis by simp
  next
    case True
    with prev have "xs \<noteq> []" by auto
    then obtain xs' t g where xs: "xs = xs' @ [(t, g)]" by (metis rev_exhaust surj_pair)
    have pa: "prev = eaddr ?a xs'" using prev xs by simp
    have m1': "heap_rep h1 (xs' @ (t, g) # (s', True) # ys')" using m1(1) xs by simp
    have g: "g" using rep_fields(3) [OF m1', of prev] pa True by (auto split: if_splits)
    obtain t' ys'' where m2: "heap_rep (heap_merge_next h1 prev) (xs' @ (t', g) # ys'')"
        "live (prev + 20 + t') ys'' = live (prev + 20 + t) ((s', True) # ys')"
        and f2: "frames h1 (heap_merge_next h1 prev) prev t t ((s', True) # ys')"
      using merge_any [OF m1', of prev] pa by (metis a1)
    have h2: "h2 = heap_merge_next h1 prev" using True by (simp add: h2_def)
    have eb: "prev + 20 + t = b" using pa b xs by simp
    have L: "?L = live ?a xs' \<union> live (b + 20 + s') ys'" using m1(2) xs g by simp
    have "kept h1 h2 ?L"
      unfolding h2 by (rule kept_mono [OF frames_kept [OF m1' _ f2]]) (use pa eb L in auto)
    with k1 have "kept h h2 ?L" by (rule kept_trans)
    moreover have "live (prev + 20 + t') ys'' = live (b + 20 + s') ys'" using m2(2) unfolding eb by simp
    then have "live ?a (xs' @ (t', g) # ys'') = ?L" using pa L g by simp
    ultimately show ?thesis using that [of "xs' @ (t', g) # ys''"] m2(1) h2 by simp
  qed
qed

lemma free_rep:
  assumes rep: "heap_rep h bs" and lv: "(p, s) \<in> live (heap_memory h) bs" and s: "0 < s"
  obtains bs' where "heap_rep (root_free h p) bs'" "heap_memory (root_free h p) = heap_memory h"
    "live (heap_memory h) bs' = live (heap_memory h) bs - {(p, s)}"
    "kept h (root_free h p) (live (heap_memory h) bs - {(p, s)})"
proof -
  from lv obtain xs ys where bs: "bs = xs @ (s, False) # ys" and p: "p = eaddr (heap_memory h) xs + 20"
    unfolding live_member by blast
  note rep' = rep [unfolded bs]
  define b where "b = eaddr (heap_memory h) xs"
  define h0 where "h0 = h\<lparr>heap_bytes := st32 (heap_bytes h) (hb_free b) 1\<rparr>"
  have rep0: "heap_rep h0 (xs @ (s, True) # ys)" and b0: "b = eaddr (heap_memory h0) xs"
    using set_free_rep [OF rep' b_def, of True] by (simp_all add: h0_def b_def)
  have k0: "kept h h0 (live (heap_memory h) bs - {(p, s)})"
  proof (rule kept_mono [OF frames_kept [OF rep' b_def]])
    show "frames h h0 b s s ys" by (auto simp: h0_def frames_def)
  qed (use live_remove [OF p] bs b_def in auto)
  note own = owns_block [OF rep' p]
  define h1 where "h1 = heap_merge_next h0 b"
  define prev where "prev = ld32 (heap_bytes h1) (hb_previous b)"
  have eq: "root_free h p = (if prev \<noteq> 0 \<and> ld32 (heap_bytes h1) (hb_free prev) \<noteq> 0 then heap_merge_next h1 prev else h1)"
    using own s rep_valid [OF rep'] rep_fields(3) [OF rep' b_def]
    by (simp add: root_free_def Let_def h0_def h1_def prev_def b_def)
  have a0: "heap_memory h0 = heap_memory h" by (simp add: h0_def)
  obtain bs' where "heap_rep (root_free h p) bs'" "heap_memory (root_free h p) = heap_memory h"
    "live (heap_memory h) bs' = live (heap_memory h) xs \<union> live (b + 20 + s) ys"
    "kept h0 (root_free h p) (live (heap_memory h) xs \<union> live (b + 20 + s) ys)"
    by (rule free_tail [OF rep0 b0, folded h1_def, folded prev_def, folded eq, unfolded a0])
  then show ?thesis
    using that [of bs'] kept_trans [OF k0] live_remove [OF p, of s ys] by (simp add: bs b_def)
qed

section \<open>The contract of the allocator\<close>

text \<open>
  \<open>heap_ok h L\<close>: the heap is well formed and its allocated payloads, as address and size, are \<open>L\<close>.
\<close>

definition heap_ok :: "heap \<Rightarrow> (addr \<times> nat) set \<Rightarrow> bool" where
  "heap_ok h L \<longleftrightarrow> (\<exists>bs. heap_rep h bs \<and> L = live (heap_memory h) bs) \<and> (\<forall>(q, t)\<in>L. 0 < t)"

lemma heap_okE:
  assumes "heap_ok h L"
  obtains bs where "heap_rep h bs" "L = live (heap_memory h) bs" "\<And>q t. (q, t) \<in> L \<Longrightarrow> 0 < t"
  using assms unfolding heap_ok_def by blast

lemma heap_okI: "heap_rep h bs \<Longrightarrow> L = live (heap_memory h) bs \<Longrightarrow> (\<And>q t. (q, t) \<in> L \<Longrightarrow> 0 < t) \<Longrightarrow> heap_ok h L"
  unfolding heap_ok_def by blast

lemma heap_ok_bounds:
  assumes "heap_ok h L" "(q, t) \<in> L"
  shows "heap_memory h + 20 \<le> q \<and> q + t \<le> heap_memory h + ROOT_HEAP_SIZE \<and> heap_memory h + ROOT_HEAP_SIZE < USIZE_MOD \<and> 0 < t"
proof -
  obtain bs where "heap_rep h bs" "L = live (heap_memory h) bs" "0 < t"
    using assms by (metis heap_okE)
  with live_bounds [of q t "heap_memory h" bs] assms(2) show ?thesis by (auto simp: heap_rep_def)
qed

lemma heap_ok_apart:
  assumes "heap_ok h L" "(p, s) \<in> L" "(q, t) \<in> L" "(p, s) \<noteq> (q, t)"
  shows "p + s \<le> q \<or> q + t \<le> p"
  using assms by (metis heap_okE live_apart)

lemma heap_ok_unique:
  assumes "heap_ok h L" "(p, s) \<in> L" "(p, t) \<in> L"
  shows "s = t"
  using heap_ok_apart [OF assms] heap_ok_bounds [OF assms(1,2)] heap_ok_bounds [OF assms(1,3)] by auto

lemma init_ok:
  assumes "0 < heap_memory h" "heap_memory h + ROOT_HEAP_SIZE < USIZE_MOD"
  shows "heap_ok (heap_init h) {}"
proof -
  have "heap_rep (heap_init h) [(ROOT_HEAP_SIZE - 20, True)]"
    using assms by (simp add: heap_rep_def heap_init_def Let_def hdr_def rootos_consts)
  then show ?thesis by (rule heap_okI) simp_all
qed

lemma malloc_ok:
  assumes ok: "heap_ok h L" and n: "0 < n" "n < USIZE_MOD"
  obtains (null) "root_malloc h n = Some (0, h)"
  | (block) p h' sz where "root_malloc h n = Some (p, h')" "0 < p" "heap_ok h' (insert (p, sz) L)"
      "heap_memory h' = heap_memory h" "n \<le> sz" "(p, sz) \<notin> L" "kept h h' L"
proof -
  obtain bs where rep: "heap_rep h bs" and L: "L = live (heap_memory h) bs" and pos: "\<And>q t. (q, t) \<in> L \<Longrightarrow> 0 < t"
    using ok by (rule heap_okE) blast
  show ?thesis
  proof (rule malloc_rep [OF rep n])
    assume "root_malloc h n = Some (0, h)"
    then show thesis by (rule null)
  next
    fix p h' bs' sz
    assume *: "root_malloc h n = Some (p, h')" "0 < p" "heap_rep h' bs'" "heap_memory h' = heap_memory h"
      "n \<le> sz" "live (heap_memory h) bs' = insert (p, sz) (live (heap_memory h) bs)"
      "(p, sz) \<notin> live (heap_memory h) bs" "kept h h' (live (heap_memory h) bs)"
    have "heap_ok h' (insert (p, sz) L)"
      by (rule heap_okI [OF *(3)]) (use * n pos L in auto)
    with * show thesis by (intro block) (auto simp: L)
  qed
qed

lemma free_ok:
  assumes ok: "heap_ok h L" and p: "(p, s) \<in> L"
  shows "heap_ok (root_free h p) (L - {(p, s)})" "heap_memory (root_free h p) = heap_memory h"
    "kept h (root_free h p) (L - {(p, s)})"
proof -
  obtain bs where rep: "heap_rep h bs" and L: "L = live (heap_memory h) bs" and pos: "\<And>q t. (q, t) \<in> L \<Longrightarrow> 0 < t"
    using ok by (rule heap_okE) blast
  obtain bs' where *: "heap_rep (root_free h p) bs'" "heap_memory (root_free h p) = heap_memory h"
    "live (heap_memory h) bs' = L - {(p, s)}" "kept h (root_free h p) (L - {(p, s)})"
    using free_rep [OF rep p [unfolded L] pos [OF p]] unfolding L by blast
  show "heap_ok (root_free h p) (L - {(p, s)})"
    by (rule heap_okI [OF *(1)]) (use * pos in auto)
  show "heap_memory (root_free h p) = heap_memory h" "kept h (root_free h p) (L - {(p, s)})"
    by (fact *)+
qed

text \<open>Writing inside allocated payloads, as clients do, keeps the heap well formed.\<close>

lemma store_ok:
  assumes ok: "heap_ok h L"
    and m: "\<And>x. m x \<noteq> heap_bytes h x \<Longrightarrow> \<exists>q t. (q, t) \<in> L \<and> q \<le> x \<and> x < q + t"
  shows "heap_ok (h\<lparr>heap_bytes := m\<rparr>) L"
proof -
  obtain bs where rep: "heap_rep h bs" and L: "L = live (heap_memory h) bs" and pos: "\<And>q t. (q, t) \<in> L \<Longrightarrow> 0 < t"
    using ok by (rule heap_okE) blast
  have "m x = heap_bytes h x" if "x \<in> hbytes (heap_memory h) bs" for x
    using m [of x] live_not_header that L by blast
  then have "hseg m 0 (heap_memory h) bs 0 = hseg (heap_bytes h) 0 (heap_memory h) bs 0"
    by (rule hseg_cong)
  with rep have "heap_rep (h\<lparr>heap_bytes := m\<rparr>) bs" by (simp add: heap_rep_def)
  then show ?thesis by (rule heap_okI) (use L pos in auto)
qed

lemma store_block_ok:
  assumes "heap_ok h L" "(p, s) \<in> L" "\<And>x. x < p \<or> p + s \<le> x \<Longrightarrow> m x = heap_bytes h x"
  shows "heap_ok (h\<lparr>heap_bytes := m\<rparr>) L" "kept h (h\<lparr>heap_bytes := m\<rparr>) (L - {(p, s)})"
proof -
  show "heap_ok (h\<lparr>heap_bytes := m\<rparr>) L"
    by (rule store_ok [OF assms(1)]) (metis assms(2,3) linorder_not_less)
  show "kept h (h\<lparr>heap_bytes := m\<rparr>) (L - {(p, s)})"
    unfolding kept_def
  proof (intro allI impI)
    fix q t x
    assume "(q, t) \<in> L - {(p, s)}" "q \<le> x" "x < q + t"
    with heap_ok_apart [OF assms(1,2), of q t] show "heap_bytes (h\<lparr>heap_bytes := m\<rparr>) x = heap_bytes h x"
      by (auto intro!: assms(3))
  qed
qed

lemma calloc_ok:
  assumes ok: "heap_ok h L" and n: "0 < k" "0 < n" "k < USIZE_MOD" "n < USIZE_MOD"
  obtains (null) "root_calloc h k n = Some (0, h)"
  | (block) p h' sz where "root_calloc h k n = Some (p, h')" "0 < p" "heap_ok h' (insert (p, sz) L)"
      "heap_memory h' = heap_memory h" "k * n \<le> sz" "(p, sz) \<notin> L" "kept h h' L"
      "\<forall>i<k * n. heap_bytes h' (p + i) = 0"
proof (cases "n > (USIZE_MOD - 1) div k")
  case True
  with null show ?thesis using n by (simp add: root_calloc_def)
next
  case False
  then have "k * n \<le> k * ((USIZE_MOD - 1) div k)" by simp
  also have "\<dots> \<le> USIZE_MOD - 1" by (rule times_div_less_eq_dividend)
  finally have lt: "k * n < USIZE_MOD" by simp
  show ?thesis
  proof (rule malloc_ok [OF ok _ lt])
    show "0 < k * n" using n by simp
  next
    assume "root_malloc h (k * n) = Some (0, h)"
    with False lt show thesis using n by (intro null) (simp add: root_calloc_def Let_def)
  next
    fix p h' sz
    assume *: "root_malloc h (k * n) = Some (p, h')" "0 < p" "heap_ok h' (insert (p, sz) L)"
      "heap_memory h' = heap_memory h" "k * n \<le> sz" "(p, sz) \<notin> L" "kept h h' L"
    define h2 where "h2 = h'\<lparr>heap_bytes := root_memzero (heap_bytes h') p (k * n)\<rparr>"
    have z: "root_memzero (heap_bytes h') p (k * n) x = (if p \<le> x \<and> x < p + k * n then 0 else heap_bytes h' x)" for x
      by (simp add: root_memzero_spec)
    have st: "heap_ok h2 (insert (p, sz) L)" "kept h' h2 (insert (p, sz) L - {(p, sz)})"
      unfolding h2_def by (rule store_block_ok [OF *(3) insertI1]; use *(5) in \<open>auto simp: z\<close>)+
    have "kept h h2 L" using *(6,7) st(2) by (metis Diff_insert_absorb kept_trans)
    moreover have "root_calloc h k n = Some (p, h2)"
      using False lt n * by (simp add: root_calloc_def Let_def h2_def)
    moreover have "\<forall>i<k * n. heap_bytes h2 (p + i) = 0" by (simp add: h2_def z)
    ultimately show thesis using * st(1) by (intro block [of p h2 sz]) (auto simp: h2_def)
  qed
qed

section \<open>Resizing\<close>

text \<open>The two ways a block is resized in place: cutting it, and absorbing the free block behind it.\<close>

lemma live_inner_pos:
  assumes "heap_ok h L" "(p, s) \<in> L"
  obtains xs ys where "heap_rep h (xs @ (s, False) # ys)" "p = eaddr (heap_memory h) xs + 20"
    "L - {(p, s)} = live (heap_memory h) xs \<union> live (p + s) ys" "\<And>q t. (q, t) \<in> L \<Longrightarrow> 0 < t"
proof -
  obtain bs where bs: "heap_rep h bs" "L = live (heap_memory h) bs" "\<And>q t. (q, t) \<in> L \<Longrightarrow> 0 < t"
    using assms(1) by (rule heap_okE) blast
  then obtain xs ys where "bs = xs @ (s, False) # ys" "p = eaddr (heap_memory h) xs + 20"
    using assms(2) live_member by blast
  with bs that [of xs ys] live_remove [of p "heap_memory h" xs s ys] show ?thesis by simp
qed

lemma resized_ok:
  assumes rep: "heap_rep h (xs @ (s, False) # ys)" and p: "p = eaddr (heap_memory h) xs + 20"
    and L: "L - {(p, s)} = live (heap_memory h) xs \<union> live (p + s) ys" "\<And>q t. (q, t) \<in> L \<Longrightarrow> 0 < t"
    and rep': "heap_rep h' (xs @ zs)" "heap_memory h' = heap_memory h"
    and zs: "live (p - 20) zs = insert (p, sz) (live (p + s) ys)" "0 < sz"
    and fr: "kept h h' (live (heap_memory h) xs \<union> insert (p, k) (live (p + s) ys))"
  shows "heap_ok h' (insert (p, sz) (L - {(p, s)}))" "kept h h' (L - {(p, s)})"
    "\<forall>i<k. heap_bytes h' (p + i) = heap_bytes h (p + i)"
proof -
  have "live (heap_memory h) (xs @ zs) = insert (p, sz) (L - {(p, s)})" using zs(1) p L(1) by simp
  then show "heap_ok h' (insert (p, sz) (L - {(p, s)}))"
    using rep' zs(2) L(2) by (intro heap_okI [of h' "xs @ zs"]) auto
  show "kept h h' (L - {(p, s)})" by (rule kept_mono [OF fr]) (use L(1) in auto)
  show "\<forall>i<k. heap_bytes h' (p + i) = heap_bytes h (p + i)" using keptD [OF fr, of p k] by simp
qed

lemma shrink_ok:
  assumes ok: "heap_ok h L" "(p, s) \<in> L" and n: "0 < n" "n \<le> s"
  obtains sz where "heap_ok (heap_split_block h (p - 20) n) (insert (p, sz) (L - {(p, s)}))" "n \<le> sz"
    "kept h (heap_split_block h (p - 20) n) (L - {(p, s)})"
    "\<forall>i<n. heap_bytes (heap_split_block h (p - 20) n) (p + i) = heap_bytes h (p + i)"
proof -
  obtain xs ys where rep: "heap_rep h (xs @ (s, False) # ys)" and p: "p = eaddr (heap_memory h) xs + 20"
    and L: "L - {(p, s)} = live (heap_memory h) xs \<union> live (p + s) ys" "\<And>q t. (q, t) \<in> L \<Longrightarrow> 0 < t"
    using live_inner_pos [OF ok] by blast
  have b: "p - 20 = eaddr (heap_memory h) xs" and pb: "p - 20 + 20 = p" using p by simp_all
  note sc = split_carve [OF rep n(2) b]
  have "kept h (heap_split_block h (p - 20) n) (live (heap_memory h) xs \<union> insert (p, n) (live (p + s) ys))"
    using frames_kept [OF rep b conjunct2 [OF sc] n(2)] by (simp add: pb)
  moreover have "live (p - 20) (carve False n s @ ys) = insert (p, carved n s) (live (p + s) ys)" by (simp add: pb)
  moreover have "0 < carved n s" "n \<le> carved n s" using n by simp_all
  ultimately show ?thesis
    using resized_ok [OF rep p L conjunct1 [OF sc], where sz = "carved n s" and k = n] that [of "carved n s"] by simp
qed

lemma grow_ok:
  assumes ok: "heap_ok h L" "(p, s) \<in> L" and n: "0 < n"
    and nx: "ld32 (heap_bytes h) (hb_next (p - 20)) = nx" "nx \<noteq> 0" "ld32 (heap_bytes h) (hb_free nx) \<noteq> 0"
      "n \<le> s + 20 + ld32 (heap_bytes h) (hb_size nx)" "s < n"
  defines "h' \<equiv> (let h = heap_split_block (heap_merge_next h (p - 20)) (p - 20) n
     in h\<lparr>heap_bytes := st32 (heap_bytes h) (hb_free (p - 20)) 0\<rparr>)"
  obtains sz where "heap_ok h' (insert (p, sz) (L - {(p, s)}))" "n \<le> sz" "kept h h' (L - {(p, s)})"
    "heap_memory h' = heap_memory h" "\<forall>i < s. heap_bytes h' (p + i) = heap_bytes h (p + i)"
proof -
  obtain xs ys where rep: "heap_rep h (xs @ (s, False) # ys)" and p: "p = eaddr (heap_memory h) xs + 20"
    and L: "L - {(p, s)} = live (heap_memory h) xs \<union> live (p + s) ys" "\<And>q t. (q, t) \<in> L \<Longrightarrow> 0 < t"
    using live_inner_pos [OF ok] by blast
  have b: "p - 20 = eaddr (heap_memory h) xs" and pb: "p - 20 + 20 = p" using p by simp_all
  from nx rep_fields(5) [OF rep b] have nxt: "nx = p + s" "ys \<noteq> []" by (auto split: if_splits simp: p)
  then obtain t g ys' where ys: "ys = (t, g) # ys'" by (metis neq_Nil_conv surj_pair)
  have rep2: "heap_rep h ((xs @ [(s, False)]) @ (t, g) # ys')" using rep ys by simp
  have ta: "ld32 (heap_bytes h) (hb_size nx) = t" and g: "g"
    using rep_fields(2,3) [OF rep2, of nx] nxt p nx(3) by (auto split: if_splits)
  have mrep: "heap_rep (heap_merge_next h (p - 20)) (xs @ (s + 20 + t, False) # ys')"
    using merge_rep [of h xs s False t ys' "p - 20"] rep ys g b by simp
  have n': "n \<le> s + 20 + t" using nx(4) ta by simp
  have b': "p - 20 = eaddr (heap_memory (heap_merge_next h (p - 20))) xs" using b by simp
  note st = split_take [OF mrep n' b', folded h'_def]
  have lys: "live (p + (s + 20 + t)) ys' = live (p + s) ys" using ys g by (simp add: ac_simps)
  have "kept (heap_merge_next h (p - 20)) h' (live (heap_memory h) xs \<union> insert (p, n) (live (p + s) ys))"
    using frames_kept [OF mrep b' st(3) n'] lys by (simp add: pb)
  then have k2: "kept (heap_merge_next h (p - 20)) h' (live (heap_memory h) xs \<union> insert (p, s) (live (p + s) ys))"
    using \<open>s < n\<close> by (auto simp: kept_def)
  have "frames h (heap_merge_next h (p - 20)) (p - 20) s s ys" by (rule merge_any [OF rep b]) blast
  from frames_kept [OF rep b this] have "kept h (heap_merge_next h (p - 20)) (live (heap_memory h) xs \<union> insert (p, s) (live (p + s) ys))"
    by (simp add: pb)
  note k = kept_trans [OF this k2]
  have lz: "live (p - 20) (carve False n (s + 20 + t) @ ys') = insert (p, carved n (s + 20 + t)) (live (p + s) ys)"
    using lys by (simp add: pb)
  have "0 < carved n (s + 20 + t)" "n \<le> carved n (s + 20 + t)" using n n' by simp_all
  with resized_ok [OF rep p L st(1) _ lz _ k] that [of "carved n (s + 20 + t)"] st(2) show ?thesis by simp
qed

text \<open>Allocate, copy, release.\<close>

lemma move_ok:
  assumes ok: "heap_ok h L" and p: "(p, s) \<in> L"
    and m: "heap_ok h' (insert (q, sz) L)" "heap_memory h' = heap_memory h" "n \<le> sz" "(q, sz) \<notin> L" "kept h h' L"
  defines "h2 \<equiv> root_free (h'\<lparr>heap_bytes := root_memcpy (heap_bytes h') q p (min s n)\<rparr>) p"
  shows "heap_ok h2 (insert (q, sz) (L - {(p, s)}))" "heap_memory h2 = heap_memory h" "kept h h2 (L - {(p, s)})"
    "\<forall>i < min s n. heap_bytes h2 (q + i) = heap_bytes h (p + i)"
proof -
  let ?m = "root_memcpy (heap_bytes h') q p (min s n)"
  define h1 where "h1 = h'\<lparr>heap_bytes := ?m\<rparr>"
  have ne: "(p, s) \<noteq> (q, sz)" using p m(4) by auto
  have apart: "p + s \<le> q \<or> q + sz \<le> p" using heap_ok_apart [OF m(1), of p s q sz] p ne by auto
  have out: "?m x = heap_bytes h' x" if "x < q \<or> q + sz \<le> x" for x
    using that m(3) by (intro root_memcpy_outside) auto
  have cp: "?m (q + i) = heap_bytes h' (p + i)" if "i < min s n" for i
    using that apart m(3) by (subst root_memcpy_spec) auto
  have "insert (q, sz) L - {(q, sz)} = L" using m(4) by simp
  with store_block_ok [OF m(1) insertI1 out] have 1: "heap_ok h1 (insert (q, sz) L)" "kept h' h1 L"
    by (simp_all add: h1_def)
  have "(p, s) \<in> insert (q, sz) L" using p by simp
  note fr = free_ok [OF 1(1) this]
  have L: "insert (q, sz) L - {(p, s)} = insert (q, sz) (L - {(p, s)})" using ne by auto
  have h2: "h2 = root_free h1 p" by (simp add: h2_def h1_def)
  show "heap_ok h2 (insert (q, sz) (L - {(p, s)}))" using fr(1) L h2 by simp
  show "heap_memory h2 = heap_memory h" using fr(2) m(2) h2 by (simp add: h1_def)
  have "kept h h1 L" using kept_trans [OF m(5) 1(2)] .
  moreover have k3: "kept h1 h2 (insert (q, sz) (L - {(p, s)}))" using fr(3) L h2 by simp
  ultimately show "kept h h2 (L - {(p, s)})" by (meson kept_mono kept_trans Diff_subset subset_insertI)
  show "\<forall>i < min s n. heap_bytes h2 (q + i) = heap_bytes h (p + i)"
  proof (intro allI impI)
    fix i
    assume i: "i < min s n"
    then have "heap_bytes h2 (q + i) = heap_bytes h1 (q + i)" using keptD [OF k3, of q sz i] m(3) by simp
    also have "\<dots> = heap_bytes h' (p + i)" using cp [OF i] by (simp add: h1_def)
    also have "\<dots> = heap_bytes h (p + i)" using keptD [OF m(5) p, of i] i by simp
    finally show "heap_bytes h2 (q + i) = heap_bytes h (p + i)" .
  qed
qed

lemma live_header:
  assumes "heap_ok h L" "(p, s) \<in> L"
  shows "p \<noteq> 0" "heap_owns h p" "u32_sub p SIZEOF_HEAPBLOCK = p - 20" "heap_block_valid h (p - 20)"
    "ld32 (heap_bytes h) (hb_free (p - 20)) = 0" "ld32 (heap_bytes h) (hb_size (p - 20)) = s"
proof -
  obtain xs ys where rep: "heap_rep h (xs @ (s, False) # ys)" and p: "p = eaddr (heap_memory h) xs + 20"
    and "0 < s"
    using live_inner_pos [OF assms] assms(2) by metis
  have b: "p - 20 = eaddr (heap_memory h) xs" using p by simp
  show "p \<noteq> 0" "heap_owns h p" "u32_sub p SIZEOF_HEAPBLOCK = p - 20"
    using owns_block [OF rep p] \<open>0 < s\<close> b by simp_all
  show "heap_block_valid h (p - 20)" using rep_valid [OF rep] b by simp
  show "ld32 (heap_bytes h) (hb_free (p - 20)) = 0" "ld32 (heap_bytes h) (hb_size (p - 20)) = s"
    using rep_fields(2,3) [OF rep b] by simp_all
qed

lemma next_small:
  assumes "heap_ok h L" "(p, s) \<in> L" "ld32 (heap_bytes h) (hb_next (p - 20)) = nx" "nx \<noteq> 0"
  shows "s + 20 + ld32 (heap_bytes h) (hb_size nx) < USIZE_MOD"
proof -
  obtain xs ys where rep: "heap_rep h (xs @ (s, False) # ys)" and p: "p = eaddr (heap_memory h) xs + 20"
    using live_inner_pos [OF assms(1,2)] by metis
  have b: "p - 20 = eaddr (heap_memory h) xs" using p by simp
  from assms(3,4) rep_fields(5) [OF rep b] have nxt: "nx = p + s" "ys \<noteq> []" by (auto split: if_splits simp: p)
  then obtain t g ys' where ys: "ys = (t, g) # ys'" by (metis neq_Nil_conv surj_pair)
  have rep2: "heap_rep h ((xs @ [(s, False)]) @ (t, g) # ys')" using rep ys by simp
  show ?thesis
    using rep_fields(2) [OF rep2, of nx] rep_bounds [OF rep2] nxt p by (simp add: rootos_consts)
qed

lemma realloc_ok:
  assumes ok: "heap_ok h L" "(p, s) \<in> L" and n: "0 < n" "n < USIZE_MOD"
  obtains (null) "root_realloc h p n = Some (0, h)"
  | (block) q h' sz where "root_realloc h p n = Some (q, h')" "0 < q" "heap_ok h' (insert (q, sz) (L - {(p, s)}))"
      "heap_memory h' = heap_memory h" "n \<le> sz" "(q, sz) \<notin> L - {(p, s)}" "kept h h' (L - {(p, s)})"
      "\<forall>i < min s n. heap_bytes h' (q + i) = heap_bytes h (p + i)"
proof (cases "heap_align n = 0")
  case True
  with null show ?thesis using live_header [OF ok] n by (simp add: root_realloc_def Let_def)
next
  case al0: False
  note al = heap_align_bounds [OF n al0]
  note hd = live_header [OF ok]
  have uq: "(p, sz) \<notin> L - {(p, s)}" for sz using heap_ok_unique [OF ok, of sz] by auto
  define nx where "nx = ld32 (heap_bytes h) (hb_next (p - 20))"
  have step: "root_realloc h p n =
      (if heap_align n \<le> s then Some (p, heap_split_block h (p - 20) (heap_align n))
       else if nx \<noteq> 0 \<and> ld32 (heap_bytes h) (hb_free nx) \<noteq> 0
         \<and> heap_align n \<le> u32_add (u32_add s 20) (ld32 (heap_bytes h) (hb_size nx)) then
         Some (p, let h = heap_split_block (heap_merge_next h (p - 20)) (p - 20) (heap_align n)
            in h\<lparr>heap_bytes := st32 (heap_bytes h) (hb_free (p - 20)) 0\<rparr>)
       else do { (q, h) \<leftarrow> root_malloc h n;
         if q = 0 then Some (0, h)
         else let c = ld32 (heap_bytes h) (hb_size (p - 20)); c = (if c > n then n else c);
              h = h\<lparr>heap_bytes := root_memcpy (heap_bytes h) q p c\<rparr> in Some (q, root_free h p) })"
    using hd n al0 by (simp add: root_realloc_def Let_def nx_def SIZEOF_HEAPBLOCK_def)
  consider (cut) "heap_align n \<le> s"
    | (grow) "s < heap_align n" "nx \<noteq> 0" "ld32 (heap_bytes h) (hb_free nx) \<noteq> 0"
        "heap_align n \<le> s + 20 + ld32 (heap_bytes h) (hb_size nx)"
    | (move) "s < heap_align n" "\<not> (nx \<noteq> 0 \<and> ld32 (heap_bytes h) (hb_free nx) \<noteq> 0
         \<and> heap_align n \<le> u32_add (u32_add s 20) (ld32 (heap_bytes h) (hb_size nx)))"
  proof -
    have "u32_add (u32_add s 20) (ld32 (heap_bytes h) (hb_size nx)) = s + 20 + ld32 (heap_bytes h) (hb_size nx)" if "nx \<noteq> 0"
      using next_small [OF ok nx_def [symmetric] that] by simp
    then show thesis using that by (metis not_le)
  qed
  then show ?thesis
  proof cases
    case cut
    obtain sz where "heap_ok (heap_split_block h (p - 20) (heap_align n)) (insert (p, sz) (L - {(p, s)}))"
      "heap_align n \<le> sz" "kept h (heap_split_block h (p - 20) (heap_align n)) (L - {(p, s)})"
      "\<forall>i<heap_align n. heap_bytes (heap_split_block h (p - 20) (heap_align n)) (p + i) = heap_bytes h (p + i)"
      using shrink_ok [OF ok _ cut] al0 by blast
    then show ?thesis using block [of p _ sz] step cut hd(1) al uq by simp
  next
    case grow
    define h' where "h' = (let h = heap_split_block (heap_merge_next h (p - 20)) (p - 20) (heap_align n)
      in h\<lparr>heap_bytes := st32 (heap_bytes h) (hb_free (p - 20)) 0\<rparr>)"
    have eq: "root_realloc h p n = Some (p, h')"
      using step grow next_small [OF ok nx_def [symmetric]] by (simp add: h'_def)
    have "0 < heap_align n" using al0 by simp
    then show ?thesis
      by (rule grow_ok [OF ok _ nx_def [symmetric] grow(2,3,4,1), folded h'_def])
        (use block [OF eq] hd(1) al uq in auto)
  next
    case move
    show ?thesis
    proof (rule malloc_ok [OF ok(1) n])
      assume "root_malloc h n = Some (0, h)"
      with step move show thesis by (intro null) auto
    next
      fix q h' sz
      assume *: "root_malloc h n = Some (q, h')" "0 < q" "heap_ok h' (insert (q, sz) L)"
        "heap_memory h' = heap_memory h" "n \<le> sz" "(q, sz) \<notin> L" "kept h h' L"
      have "(p, s) \<in> insert (q, sz) L" using ok(2) by simp
      from live_header(6) [OF *(3) this] have
        "root_realloc h p n = Some (q, root_free (h'\<lparr>heap_bytes := root_memcpy (heap_bytes h') q p (min s n)\<rparr>) p)"
        using step move *(1,2) by (auto simp: min_def Let_def)
      with move_ok [OF ok *(3-7)] * show thesis by (intro block) auto
    qed
  qed
qed

section \<open>Statistics\<close>

definition sizes :: "bool \<Rightarrow> blocks \<Rightarrow> nat" where
  "sizes f bs = sum_list (map fst (filter (\<lambda>b. snd b = f) bs))"

lemma sizes_simps [simp]: "sizes f [] = 0" "sizes f (b # bs) = (if snd b = f then fst b else 0) + sizes f bs"
  by (simp_all add: sizes_def)

lemma eaddr_sizes: "eaddr a bs = a + 20 * length bs + sizes True bs + sizes False bs"
  by (induction bs arbitrary: a) auto

lemma live_finite [simp]: "finite (live a bs)"
  by (induction bs arbitrary: a) auto

lemma live_sum: "(\<Sum>(q, t)\<in>live a bs. t) = sizes False bs"
proof (induction bs arbitrary: a)
  case (Cons b bs)
  have "(a + 20, fst b) \<notin> live (a + 20 + fst b) bs" if "0 < fst b"
    using live_bounds [of "a + 20" "fst b" "a + 20 + fst b" bs] that by auto
  with Cons.IH [of "a + 20 + fst b"] show ?case by (cases "fst b = 0") (auto simp: sum.insert_if)
qed simp

lemma used_loop_seg:
  assumes "hseg m pv a bs 0" "0 < a" "acc + sizes False bs < USIZE_MOD"
  shows "used_loop m acc (if bs = [] then 0 else a) = Some (acc + sizes False bs)"
  using assms
proof (induction bs arbitrary: pv a acc)
  case (Cons b bs)
  have f: "ld32 m (hb_free a) = (if snd b then 1 else 0)" "ld32 m (hb_size a) = fst b"
    "ld32 m (hb_next a) = (if bs = [] then 0 else a + 20 + fst b)"
    using Cons.prems by (auto simp: hdr_def)
  have "used_loop m (if snd b then acc else acc + fst b) (if bs = [] then 0 else a + 20 + fst b)
      = Some ((if snd b then acc else acc + fst b) + sizes False bs)"
    using Cons.prems by (intro Cons.IH [of a]) (auto split: if_splits)
  then show ?case
    using Cons.prems(2,3) f by (subst used_loop.simps) (auto split: if_splits)
qed (simp add: used_loop.simps)

lemma free_loop_seg:
  assumes "hseg m pv a bs 0" "0 < a" "acc + sizes True bs < USIZE_MOD"
  shows "free_loop m acc (if bs = [] then 0 else a) = Some (acc + sizes True bs)"
  using assms
proof (induction bs arbitrary: pv a acc)
  case (Cons b bs)
  have f: "ld32 m (hb_free a) = (if snd b then 1 else 0)" "ld32 m (hb_size a) = fst b"
    "ld32 m (hb_next a) = (if bs = [] then 0 else a + 20 + fst b)"
    using Cons.prems by (auto simp: hdr_def)
  have "free_loop m (if snd b then acc + fst b else acc) (if bs = [] then 0 else a + 20 + fst b)
      = Some ((if snd b then acc + fst b else acc) + sizes True bs)"
    using Cons.prems by (intro Cons.IH [of a]) (auto split: if_splits)
  then show ?case
    using Cons.prems(2,3) f by (subst free_loop.simps) (auto split: if_splits)
qed (simp add: free_loop.simps)

lemma stats_rep:
  assumes "heap_rep h bs"
  shows "heap_used_bytes h = Some (sizes False bs)" "heap_free_bytes h = Some (sizes True bs)"
    "sizes False bs + sizes True bs + 20 * length bs = ROOT_HEAP_SIZE"
proof -
  show sum: "sizes False bs + sizes True bs + 20 * length bs = ROOT_HEAP_SIZE"
    using assms eaddr_sizes [of "heap_memory h" bs] by (simp add: heap_rep_def)
  then have "sizes False bs < USIZE_MOD" "sizes True bs < USIZE_MOD" by (simp_all add: rootos_consts)
  then show "heap_used_bytes h = Some (sizes False bs)" "heap_free_bytes h = Some (sizes True bs)"
    using assms used_loop_seg [of "heap_bytes h" 0 "heap_memory h" bs 0]
      free_loop_seg [of "heap_bytes h" 0 "heap_memory h" bs 0]
    by (auto simp: heap_rep_def heap_used_bytes_def heap_free_bytes_def)
qed

section \<open>Releasing twice\<close>

lemma free_dead:
  assumes "heap_block_valid h (p - 20) \<Longrightarrow> ld32 (heap_bytes h) (hb_free (p - 20)) \<noteq> 0" "20 \<le> p" "p < USIZE_MOD"
  shows "root_free h p = h"
  using assms by (auto simp: root_free_def Let_def SIZEOF_HEAPBLOCK_def)

lemma free_tail_dead:
  assumes rep: "heap_rep h (xs @ (s, True) # ys)" and b: "b = eaddr (heap_memory h) xs"
  defines "h1 \<equiv> heap_merge_next h b"
  defines "prev \<equiv> ld32 (heap_bytes h1) (hb_previous b)"
  defines "h2 \<equiv> (if prev \<noteq> 0 \<and> ld32 (heap_bytes h1) (hb_free prev) \<noteq> 0 then heap_merge_next h1 prev else h1)"
  shows "heap_block_valid h2 b \<Longrightarrow> ld32 (heap_bytes h2) (hb_free b) \<noteq> 0"
proof -
  obtain s' ys' where m1: "heap_rep h1 (xs @ (s', True) # ys')"
    using merge_any [OF rep b] unfolding h1_def by metis
  have a1 [simp]: "heap_memory h1 = heap_memory h" by (simp add: h1_def)
  have b1: "b = eaddr (heap_memory h1) xs" using b by simp
  assume val: "heap_block_valid h2 b"
  show ?thesis
  proof (cases "prev \<noteq> 0 \<and> ld32 (heap_bytes h1) (hb_free prev) \<noteq> 0")
    case False
    then have "h2 = h1" by (auto simp: h2_def)
    then show ?thesis using rep_fields(3) [OF m1 b1] by simp
  next
    case True
    have prev: "prev = laddr 0 (heap_memory h) xs" using rep_fields(4) [OF m1 b1] by (simp add: prev_def)
    with True have "xs \<noteq> []" by auto
    then obtain xs' t g where xs: "xs = xs' @ [(t, g)]" by (metis rev_exhaust surj_pair)
    have m1': "heap_rep h1 (xs' @ (t, g) # (s', True) # ys')" using m1 xs by simp
    have pa: "prev = eaddr (heap_memory h1) xs'" using prev xs by simp
    have "prev + 20 + t = b" using pa b xs by simp
    then have "ld32 (heap_bytes h2) b = 0"
      using True merge_bytes [OF m1' pa] by (simp add: h2_def Let_def)
    with val show ?thesis by (simp add: heap_block_valid_def HEAP_MAGIC_def split: if_splits)
  qed
qed

lemma free_twice:
  assumes ok: "heap_ok h L" and lv: "(p, s) \<in> L"
  shows "root_free (root_free h p) p = root_free h p"
proof (rule free_dead)
  obtain xs ys where rep: "heap_rep h (xs @ (s, False) # ys)" and p: "p = eaddr (heap_memory h) xs + 20"
    using live_inner_pos [OF ok lv] by metis
  have b: "p - 20 = eaddr (heap_memory h) xs" using p by simp
  define h0 where "h0 = h\<lparr>heap_bytes := st32 (heap_bytes h) (hb_free (p - 20)) 1\<rparr>"
  have rep0: "heap_rep h0 (xs @ (s, True) # ys)" and b0: "p - 20 = eaddr (heap_memory h0) xs"
    using set_free_rep [OF rep b, of True] b by (simp_all add: h0_def)
  define h1 where "h1 = heap_merge_next h0 (p - 20)"
  define prev where "prev = ld32 (heap_bytes h1) (hb_previous (p - 20))"
  have eq: "root_free h p = (if prev \<noteq> 0 \<and> ld32 (heap_bytes h1) (hb_free prev) \<noteq> 0 then heap_merge_next h1 prev else h1)"
    using live_header [OF ok lv] by (simp add: root_free_def Let_def h0_def h1_def prev_def)
  show "heap_block_valid (root_free h p) (p - 20) \<Longrightarrow> ld32 (heap_bytes (root_free h p)) (hb_free (p - 20)) \<noteq> 0"
    by (rule free_tail_dead [OF rep0 b0, folded h1_def, folded prev_def, folded eq])
  show "20 \<le> p" "p < USIZE_MOD" using heap_ok_bounds [OF ok lv] by auto
qed

end
