(* ===== verification/Root_Heap_Safety.thy ===== *)
theory Root_Heap_Safety
  imports Root_Heap_Ops
begin

text \<open>
  What a client of the allocator may rely on. \<open>heap_call\<close> performs one call (or one byte store of the
  client into a block it owns), \<open>track\<close> keeps the client's own book of the blocks it holds with the
  sizes it asked for, and \<open>spec_step\<close> is the specification: a partial map from addresses to byte
  strings in which the blocks are separate objects. Every call on a well-formed heap returns and
  simulates a step of the specification; the inductive relation \<open>heap_run\<close> lifts this to every
  sequence of calls from boot.
\<close>

section \<open>Calls and their specification\<close>

datatype heap_op = Malloc nat | Calloc nat nat | Realloc addr nat | Free addr | Store addr nat u8

definition heap_call :: "heap_op \<Rightarrow> heap \<Rightarrow> (addr \<times> heap) option" where
  "heap_call op h = (case op of
     Malloc n \<Rightarrow> root_malloc h n
   | Calloc k n \<Rightarrow> root_calloc h k n
   | Realloc p n \<Rightarrow> root_realloc h p n
   | Free p \<Rightarrow> Some (0, root_free h p)
   | Store p i v \<Rightarrow> Some (0, h\<lparr>heap_bytes := (heap_bytes h)(p + i := v)\<rparr>))"

type_synonym book = "addr \<rightharpoonup> nat"

definition track :: "heap_op \<Rightarrow> addr \<Rightarrow> book \<Rightarrow> book" where
  "track op r M = (case op of
     Malloc n \<Rightarrow> (if r = 0 then M else M(r \<mapsto> n))
   | Calloc k n \<Rightarrow> (if r = 0 then M else M(r \<mapsto> k * n))
   | Realloc p n \<Rightarrow> (if n = 0 then M(p := None) else if r = 0 then M else (M(p := None))(r \<mapsto> n))
   | Free p \<Rightarrow> M(p := None)
   | Store p i v \<Rightarrow> M)"

definition allowed :: "book \<Rightarrow> heap_op \<Rightarrow> bool" where
  "allowed M op = (case op of
     Malloc n \<Rightarrow> n < USIZE_MOD
   | Calloc k n \<Rightarrow> k < USIZE_MOD \<and> n < USIZE_MOD
   | Realloc p n \<Rightarrow> n < USIZE_MOD \<and> (p = 0 \<or> M p \<noteq> None)
   | Free p \<Rightarrow> p = 0 \<or> M p \<noteq> None
   | Store p i v \<Rightarrow> (case M p of None \<Rightarrow> False | Some n \<Rightarrow> i < n))"

type_synonym objects = "addr \<rightharpoonup> u8 list"

inductive spec_step :: "objects \<Rightarrow> heap_op \<Rightarrow> addr \<Rightarrow> objects \<Rightarrow> bool" where
  malloc_fail: "spec_step S (Malloc n) 0 S"
| malloc: "p \<noteq> 0 \<Longrightarrow> p \<notin> dom S \<Longrightarrow> length bs = n \<Longrightarrow> 0 < n \<Longrightarrow> spec_step S (Malloc n) p (S(p \<mapsto> bs))"
| calloc_fail: "spec_step S (Calloc k n) 0 S"
| calloc: "p \<noteq> 0 \<Longrightarrow> p \<notin> dom S \<Longrightarrow> 0 < k * n \<Longrightarrow> k * n < USIZE_MOD \<Longrightarrow>
     spec_step S (Calloc k n) p (S(p \<mapsto> replicate (k * n) 0))"
| realloc_fail: "spec_step S (Realloc p n) 0 S"
| realloc_new: "q \<noteq> 0 \<Longrightarrow> q \<notin> dom S \<Longrightarrow> length bs = n \<Longrightarrow> 0 < n \<Longrightarrow> spec_step S (Realloc 0 n) q (S(q \<mapsto> bs))"
| realloc_free: "S p = Some bs \<Longrightarrow> spec_step S (Realloc p 0) 0 (S(p := None))"
| realloc: "S p = Some bs \<Longrightarrow> q \<noteq> 0 \<Longrightarrow> q = p \<or> q \<notin> dom S \<Longrightarrow> length bs' = n \<Longrightarrow> 0 < n \<Longrightarrow>
     take (min (length bs) n) bs' = take (min (length bs) n) bs \<Longrightarrow>
     spec_step S (Realloc p n) q ((S(p := None))(q \<mapsto> bs'))"
| free_null: "spec_step S (Free 0) 0 S"
| free: "S p = Some bs \<Longrightarrow> spec_step S (Free p) 0 (S(p := None))"
| store: "S p = Some bs \<Longrightarrow> i < length bs \<Longrightarrow> spec_step S (Store p i v) 0 (S(p \<mapsto> bs[i := v]))"

section \<open>The abstraction\<close>

definition bytes_at :: "heap \<Rightarrow> addr \<Rightarrow> nat \<Rightarrow> u8 list" where
  "bytes_at h p n = map (\<lambda>i. heap_bytes h (p + i)) [0..<n]"

definition objects_of :: "heap \<Rightarrow> book \<Rightarrow> objects" where
  "objects_of h M p = map_option (bytes_at h p) (M p)"

definition heap_inv :: "heap \<Rightarrow> book \<Rightarrow> bool" where
  "heap_inv h M \<longleftrightarrow> (\<exists>L. heap_ok h L \<and> dom M = fst ` L
     \<and> (\<forall>p n. M p = Some n \<longrightarrow> (\<exists>t. (p, t) \<in> L \<and> 0 < n \<and> n \<le> t)))"

lemma bytes_at_simps [simp]: "length (bytes_at h p n) = n" "i < n \<Longrightarrow> bytes_at h p n ! i = heap_bytes h (p + i)"
  by (simp_all add: bytes_at_def)

lemma dom_objects [simp]: "dom (objects_of h M) = dom M"
  by (auto simp: objects_of_def dom_def)

lemma bytes_at_eqI: "(\<And>i. i < n \<Longrightarrow> heap_bytes h' (p + i) = heap_bytes h (p + i)) \<Longrightarrow> bytes_at h' p n = bytes_at h p n"
  by (simp add: bytes_at_def)

lemma kept_bytes: "kept h h' L \<Longrightarrow> (p, t) \<in> L \<Longrightarrow> n \<le> t \<Longrightarrow> bytes_at h' p n = bytes_at h p n"
  by (intro bytes_at_eqI) (simp add: keptD [of h h' L p t])

lemma heap_invE:
  assumes "heap_inv h M"
  obtains L where "heap_ok h L" "dom M = fst ` L" "\<And>p n. M p = Some n \<Longrightarrow> \<exists>t. (p, t) \<in> L \<and> 0 < n \<and> n \<le> t"
  using assms unfolding heap_inv_def by blast

lemma heap_invI:
  assumes "heap_ok h L" "dom M = fst ` L" "\<And>p n. M p = Some n \<Longrightarrow> \<exists>t. (p, t) \<in> L \<and> 0 < n \<and> n \<le> t"
  shows "heap_inv h M"
  using assms unfolding heap_inv_def by blast

lemma heap_inv_null: "heap_inv h M \<Longrightarrow> M 0 = None"
  by (metis heap_invE heap_ok_bounds not_None_eq add_is_0 le_zero_eq zero_neq_numeral)

text \<open>A new block in the book.\<close>

lemma inv_insert:
  assumes L: "dom M = fst ` L" "\<And>p n. M p = Some n \<Longrightarrow> \<exists>t. (p, t) \<in> L \<and> 0 < n \<and> n \<le> t"
    and h': "heap_ok h' (insert (q, sz) L)" "kept h h' L" and n: "0 < n" "n \<le> sz" "(q, sz) \<notin> L"
  shows "heap_inv h' (M(q \<mapsto> n))" "q \<notin> dom M"
    "objects_of h' (M(q \<mapsto> n)) = (objects_of h M)(q \<mapsto> bytes_at h' q n)"
proof -
  show q: "q \<notin> dom M"
  proof
    assume "q \<in> dom M"
    then obtain t where "(q, t) \<in> L" using L(1) by auto
    then have "t = sz" using heap_ok_unique [OF h'(1), of q t sz] by simp
    with \<open>(q, t) \<in> L\<close> n show False by simp
  qed
  show "heap_inv h' (M(q \<mapsto> n))"
  proof (rule heap_invI [OF h'(1)])
    show "dom (M(q \<mapsto> n)) = fst ` insert (q, sz) L" using L(1) by simp
  next
    fix p k
    assume "(M(q \<mapsto> n)) p = Some k"
    then show "\<exists>t. (p, t) \<in> insert (q, sz) L \<and> 0 < k \<and> k \<le> t"
      using n L(2) [of p k] by (auto split: if_splits)
  qed
  show "objects_of h' (M(q \<mapsto> n)) = (objects_of h M)(q \<mapsto> bytes_at h' q n)"
  proof
    fix x
    show "objects_of h' (M(q \<mapsto> n)) x = ((objects_of h M)(q \<mapsto> bytes_at h' q n)) x"
      using L(2) [of x] kept_bytes [OF h'(2), of x] by (cases "M x") (auto simp: objects_of_def)
  qed
qed

text \<open>A block taken out of the book.\<close>

lemma inv_remove:
  assumes ok: "heap_ok h L" and L: "dom M = fst ` L" "\<And>p n. M p = Some n \<Longrightarrow> \<exists>t. (p, t) \<in> L \<and> 0 < n \<and> n \<le> t"
    and p: "(p, s) \<in> L" and k: "kept h h' (L - {(p, s)})"
  shows "dom (M(p := None)) = fst ` (L - {(p, s)})"
    "\<And>q n. (M(p := None)) q = Some n \<Longrightarrow> \<exists>t. (q, t) \<in> L - {(p, s)} \<and> 0 < n \<and> n \<le> t"
    "objects_of h' (M(p := None)) = (objects_of h M)(p := None)"
proof -
  have uniq: "t = s" if "(p, t) \<in> L" for t using heap_ok_unique [OF ok that p] .
  have "fst ` (L - {(p, s)}) = fst ` L - {p}" using uniq by force
  then show "dom (M(p := None)) = fst ` (L - {(p, s)})" using L(1) by auto
  show ex: "\<exists>t. (q, t) \<in> L - {(p, s)} \<and> 0 < n \<and> n \<le> t" if "(M(p := None)) q = Some n" for q n
    using L(2) [of q n] that by (auto split: if_splits)
  show "objects_of h' (M(p := None)) = (objects_of h M)(p := None)"
  proof
    fix x
    show "objects_of h' (M(p := None)) x = ((objects_of h M)(p := None)) x"
    proof (cases "(M(p := None)) x")
      case None
      then show ?thesis by (auto simp: objects_of_def split: if_splits)
    next
      case (Some n)
      with ex obtain t where t: "(x, t) \<in> L - {(p, s)}" "n \<le> t" by blast
      from Some have "x \<noteq> p" "M x = Some n" by (auto split: if_splits)
      with kept_bytes [OF k t] show ?thesis by (simp add: objects_of_def)
    qed
  qed
qed

section \<open>Every call simulates a step of the specification\<close>

definition simulated :: "heap \<Rightarrow> book \<Rightarrow> heap_op \<Rightarrow> bool" where
  "simulated h M op \<longleftrightarrow> (\<exists>r h'. heap_call op h = Some (r, h') \<and> heap_inv h' (track op r M)
     \<and> heap_memory h' = heap_memory h
     \<and> spec_step (objects_of h M) op r (objects_of h' (track op r M)))"

lemma simulatedI:
  assumes "heap_call op h = Some (r, h')" "heap_inv h' (track op r M)" "heap_memory h' = heap_memory h"
    "spec_step (objects_of h M) op r (objects_of h' (track op r M))"
  shows "simulated h M op"
  using assms unfolding simulated_def by blast

lemma malloc_simulated:
  assumes inv: "heap_inv h M" and n: "n < USIZE_MOD"
  obtains (null) "root_malloc h n = Some (0, h)"
  | (block) p h' where "root_malloc h n = Some (p, h')" "p \<noteq> 0" "heap_inv h' (M(p \<mapsto> n))" "p \<notin> dom M" "0 < n"
      "heap_memory h' = heap_memory h" "objects_of h' (M(p \<mapsto> n)) = (objects_of h M)(p \<mapsto> bytes_at h' p n)"
proof (cases "n = 0")
  case True
  with null show ?thesis by (simp add: root_malloc_def)
next
  case False
  obtain L where ok: "heap_ok h L" and L: "dom M = fst ` L" "\<And>p n. M p = Some n \<Longrightarrow> \<exists>t. (p, t) \<in> L \<and> 0 < n \<and> n \<le> t"
    using inv by (rule heap_invE) blast
  show ?thesis
  proof (rule malloc_ok [OF ok _ n])
    fix p h' sz
    assume *: "root_malloc h n = Some (p, h')" "0 < p" "heap_ok h' (insert (p, sz) L)"
      "heap_memory h' = heap_memory h" "n \<le> sz" "(p, sz) \<notin> L" "kept h h' L"
    from inv_insert [OF L *(3,7) _ *(5,6)] block [OF *(1)] *(2,4) False show thesis by simp
  qed (use False null in auto)
qed

lemma calloc_simulated:
  assumes inv: "heap_inv h M" and n: "k < USIZE_MOD" "n < USIZE_MOD"
  shows "simulated h M (Calloc k n)"
proof -
  obtain L where ok: "heap_ok h L" and L: "dom M = fst ` L" "\<And>p n. M p = Some n \<Longrightarrow> \<exists>t. (p, t) \<in> L \<and> 0 < n \<and> n \<le> t"
    using inv by (rule heap_invE) blast
  have null: "simulated h M (Calloc k n)" if "root_calloc h k n = Some (0, h)"
    by (rule simulatedI [of _ _ 0 h]) (use that inv in \<open>auto simp: heap_call_def track_def spec_step.calloc_fail\<close>)
  show ?thesis
  proof (cases "k = 0 \<or> n = 0")
    case True
    then show ?thesis by (intro null) (auto simp: root_calloc_def)
  next
    case False
    then have pos: "0 < k" "0 < n" by simp_all
    show ?thesis
    proof (rule calloc_ok [OF ok pos n])
      fix p h' sz
      assume *: "root_calloc h k n = Some (p, h')" "0 < p" "heap_ok h' (insert (p, sz) L)"
        "heap_memory h' = heap_memory h" "k * n \<le> sz" "(p, sz) \<notin> L" "kept h h' L"
        "\<forall>i<k * n. heap_bytes h' (p + i) = 0"
      have kn: "0 < k * n" using pos by simp
      note ins = inv_insert [OF L *(3,7) kn *(5,6)]
      have "bytes_at h' p (k * n) = replicate (k * n) 0" using *(8) by (auto simp: list_eq_iff_nth_eq)
      with ins(3) have eq: "objects_of h' (M(p \<mapsto> k * n)) = (objects_of h M)(p \<mapsto> replicate (k * n) 0)" by simp
      have "k * n < USIZE_MOD"
        using heap_ok_bounds [OF *(3) insertI1] *(5) by linarith
      with *(2) ins(2) kn have "spec_step (objects_of h M) (Calloc k n) p (objects_of h' (M(p \<mapsto> k * n)))"
        unfolding eq by (intro spec_step.calloc) auto
      with *(2) ins(1) show ?thesis
        by (intro simulatedI [of _ h p, OF _ _ *(4)]) (simp_all add: heap_call_def track_def *(1))
    qed (rule null)
  qed
qed

lemma free_simulated:
  assumes inv: "heap_inv h M" and p: "M p \<noteq> None"
  shows "heap_inv (root_free h p) (M(p := None))" "heap_memory (root_free h p) = heap_memory h"
    "objects_of (root_free h p) (M(p := None)) = (objects_of h M)(p := None)"
proof -
  obtain L where ok: "heap_ok h L" and L: "dom M = fst ` L" "\<And>p n. M p = Some n \<Longrightarrow> \<exists>t. (p, t) \<in> L \<and> 0 < n \<and> n \<le> t"
    using inv by (rule heap_invE) blast
  obtain s where s: "(p, s) \<in> L" using p L(2) [of p] by blast
  note fr = free_ok [OF ok s]
  note rm = inv_remove [OF ok L s fr(3)]
  show "heap_inv (root_free h p) (M(p := None))" by (rule heap_invI [OF fr(1) rm(1,2)])
  show "heap_memory (root_free h p) = heap_memory h" by (rule fr(2))
  show "objects_of (root_free h p) (M(p := None)) = (objects_of h M)(p := None)" by (rule rm(3))
qed

lemma realloc_simulated:
  assumes inv: "heap_inv h M" and p: "M p \<noteq> None" and n: "0 < n" "n < USIZE_MOD"
  shows "simulated h M (Realloc p n)"
proof -
  obtain L where ok: "heap_ok h L" and L: "dom M = fst ` L" "\<And>p n. M p = Some n \<Longrightarrow> \<exists>t. (p, t) \<in> L \<and> 0 < n \<and> n \<le> t"
    using inv by (rule heap_invE) blast
  obtain k s where k: "M p = Some k" and s: "(p, s) \<in> L" "k \<le> s" using p L(2) [of p] by blast
  show ?thesis
  proof (rule realloc_ok [OF ok s(1) n])
    assume "root_realloc h p n = Some (0, h)"
    then show ?thesis
      by (intro simulatedI [of _ _ 0 h]) (use inv n in \<open>auto simp: heap_call_def track_def spec_step.realloc_fail\<close>)
  next
    fix q h' sz
    assume *: "root_realloc h p n = Some (q, h')" "0 < q" "heap_ok h' (insert (q, sz) (L - {(p, s)}))"
      "heap_memory h' = heap_memory h" "n \<le> sz" and new: "(q, sz) \<notin> L - {(p, s)}" and **: "kept h h' (L - {(p, s)})"
      "\<forall>i<min s n. heap_bytes h' (q + i) = heap_bytes h (p + i)"
    note rm = inv_remove [OF ok L s(1) **(1)]
    note ins = inv_insert [OF rm(1,2) *(3) **(1) n(1) *(5) new]
    have S: "objects_of h M p = Some (bytes_at h p k)" using k by (simp add: objects_of_def)
    have q: "q = p \<or> q \<notin> dom (objects_of h M)" using ins(2) by auto
    have "take (min k n) (bytes_at h' q n) = take (min k n) (bytes_at h p k)"
      using **(2) s(2) by (auto simp: list_eq_iff_nth_eq)
    with S q n *(2) have "spec_step (objects_of h M) (Realloc p n) q ((objects_of h M)(p := None, q \<mapsto> bytes_at h' q n))"
      by (intro spec_step.realloc [where bs = "bytes_at h p k"]) simp_all
    moreover have "objects_of h (M(p := None)) = (objects_of h M)(p := None)" by (simp add: objects_of_def fun_eq_iff)
    with ins(3) have "objects_of h' ((M(p := None))(q \<mapsto> n)) = (objects_of h M)(p := None, q \<mapsto> bytes_at h' q n)" by simp
    ultimately have "spec_step (objects_of h M) (Realloc p n) q (objects_of h' ((M(p := None))(q \<mapsto> n)))" by simp
    with ins(1) *(2) n show ?thesis
      by (intro simulatedI [of _ h q, OF _ _ *(4)]) (simp_all add: heap_call_def track_def *(1))
  qed
qed

lemma store_simulated:
  assumes inv: "heap_inv h M" and p: "M p = Some n" "i < n"
  shows "simulated h M (Store p i v)"
proof -
  obtain L where ok: "heap_ok h L" and L: "dom M = fst ` L" "\<And>p n. M p = Some n \<Longrightarrow> \<exists>t. (p, t) \<in> L \<and> 0 < n \<and> n \<le> t"
    using inv by (rule heap_invE) blast
  obtain s where s: "(p, s) \<in> L" "n \<le> s" using L(2) [OF p(1)] by blast
  define h' where "h' = h\<lparr>heap_bytes := (heap_bytes h)(p + i := v)\<rparr>"
  have st: "heap_ok h' L" "kept h h' (L - {(p, s)})"
    unfolding h'_def by (rule store_block_ok [OF ok s(1)]; use p(2) s(2) in auto)+
  have "objects_of h' M = (objects_of h M)(p \<mapsto> (bytes_at h p n)[i := v])"
  proof
    fix x
    show "objects_of h' M x = ((objects_of h M)(p \<mapsto> (bytes_at h p n)[i := v])) x"
    proof (cases "x = p")
      case True
      then show ?thesis using p by (auto simp: objects_of_def list_eq_iff_nth_eq nth_list_update h'_def)
    next
      case False
      then show ?thesis using L(2) [of x] kept_bytes [OF st(2), of x] by (cases "M x") (auto simp: objects_of_def)
    qed
  qed
  moreover have "objects_of h M p = Some (bytes_at h p n)" using p by (simp add: objects_of_def)
  ultimately have "spec_step (objects_of h M) (Store p i v) 0 (objects_of h' M)"
    using p(2) spec_step.store [of "objects_of h M" p "bytes_at h p n" i v] by simp
  moreover have "heap_inv h' M" by (rule heap_invI [OF st(1) L])
  ultimately show ?thesis
    by (intro simulatedI [of _ h 0 h']) (simp_all add: heap_call_def track_def h'_def)
qed

lemma heap_call_simulated:
  assumes inv: "heap_inv h M" and al: "allowed M op"
  shows "simulated h M op"
proof (cases op)
  case (Malloc n)
  then have "n < USIZE_MOD" using al by (simp add: allowed_def)
  then show ?thesis unfolding Malloc
  proof (rule malloc_simulated [OF inv])
    assume "root_malloc h n = Some (0, h)"
    then show "simulated h M (heap_op.Malloc n)"
      by (intro simulatedI [of _ h 0 h]) (use inv in \<open>auto simp: heap_call_def track_def spec_step.malloc_fail\<close>)
  next
    fix p h'
    assume *: "root_malloc h n = Some (p, h')" "p \<noteq> 0" "heap_inv h' (M(p \<mapsto> n))" "p \<notin> dom M" "0 < n"
      "heap_memory h' = heap_memory h" "objects_of h' (M(p \<mapsto> n)) = (objects_of h M)(p \<mapsto> bytes_at h' p n)"
    then have "spec_step (objects_of h M) (heap_op.Malloc n) p (objects_of h' (M(p \<mapsto> n)))"
      using spec_step.malloc [of p "objects_of h M" "bytes_at h' p n" n] by simp
    with * show "simulated h M (heap_op.Malloc n)"
      by (intro simulatedI [of _ h p h']) (simp_all add: heap_call_def track_def)
  qed
next
  case (Calloc k n)
  then show ?thesis using calloc_simulated [OF inv] al by (simp add: allowed_def)
next
  case (Realloc p n)
  then have n: "n < USIZE_MOD" and p: "p = 0 \<or> M p \<noteq> None" using al by (simp_all add: allowed_def)
  note M0 = heap_inv_null [OF inv]
  show ?thesis
  proof (cases "p = 0")
    case True
    have M_upd: "M(0 := None) = M" using M0 by auto
    from n show ?thesis unfolding Realloc True
    proof (rule malloc_simulated [OF inv])
      assume "root_malloc h n = Some (0, h)"
      then show "simulated h M (heap_op.Realloc 0 n)"
        by (intro simulatedI [of _ h 0 h])
          (use inv in \<open>auto simp: heap_call_def track_def spec_step.realloc_fail root_realloc_def M_upd\<close>)
    next
      fix q h'
      assume *: "root_malloc h n = Some (q, h')" "q \<noteq> 0" "heap_inv h' (M(q \<mapsto> n))" "q \<notin> dom M" "0 < n"
        "heap_memory h' = heap_memory h" "objects_of h' (M(q \<mapsto> n)) = (objects_of h M)(q \<mapsto> bytes_at h' q n)"
      then have "spec_step (objects_of h M) (heap_op.Realloc 0 n) q (objects_of h' (M(q \<mapsto> n)))"
        using spec_step.realloc_new [of q "objects_of h M" "bytes_at h' q n" n] by simp
      with * show "simulated h M (heap_op.Realloc 0 n)"
        by (intro simulatedI [of _ h q h']) (simp_all add: heap_call_def track_def root_realloc_def M_upd)
    qed
  next
    case p0: False
    with p have p: "M p \<noteq> None" by simp
    show ?thesis
    proof (cases "n = 0")
      case True
      note fr = free_simulated [OF inv p]
      obtain k where "objects_of h M p = Some (bytes_at h p k)" using p by (auto simp: objects_of_def)
      then have "spec_step (objects_of h M) (heap_op.Realloc p 0) 0 (objects_of (root_free h p) (M(p := None)))"
        unfolding fr(3) by (rule spec_step.realloc_free)
      then show ?thesis
        using fr(1,2) p0 True unfolding Realloc
        by (intro simulatedI [of _ h 0 "root_free h p"]) (simp_all add: heap_call_def track_def root_realloc_def)
    next
      case False
      with realloc_simulated [OF inv p _ n] show ?thesis by (simp add: Realloc)
    qed
  qed
next
  case (Free p)
  note M0 = heap_inv_null [OF inv]
  show ?thesis
  proof (cases "p = 0")
    case True
    have "M(0 := None) = M" using M0 by auto
    then show ?thesis
      using inv unfolding Free True
      by (intro simulatedI [of _ h 0 h]) (simp_all add: heap_call_def track_def root_free_def spec_step.free_null)
  next
    case False
    with al Free have p: "M p \<noteq> None" by (simp add: allowed_def)
    note fr = free_simulated [OF inv p]
    obtain k where "objects_of h M p = Some (bytes_at h p k)" using p by (auto simp: objects_of_def)
    then have "spec_step (objects_of h M) (heap_op.Free p) 0 (objects_of (root_free h p) (M(p := None)))"
      unfolding fr(3) by (rule spec_step.free)
    then show ?thesis
      using fr(1,2) unfolding Free
      by (intro simulatedI [of _ h 0 "root_free h p"]) (simp_all add: heap_call_def track_def)
  qed
next
  case (Store p i v)
  then obtain n where "M p = Some n" "i < n" using al by (auto simp: allowed_def split: option.splits)
  with store_simulated [OF inv] Store show ?thesis by simp
qed

section \<open>Every sequence of calls\<close>

inductive heap_run :: "heap \<Rightarrow> book \<Rightarrow> bool" where
  boot: "0 < heap_memory h \<Longrightarrow> heap_memory h + ROOT_HEAP_SIZE < USIZE_MOD \<Longrightarrow> heap_run (heap_init h) Map.empty"
| call: "heap_run h M \<Longrightarrow> allowed M op \<Longrightarrow> heap_call op h = Some (r, h') \<Longrightarrow> heap_run h' (track op r M)"

lemma heap_run_inv: "heap_run h M \<Longrightarrow> heap_inv h M"
proof (induction rule: heap_run.induct)
  case (boot h)
  show ?case by (rule heap_invI [OF init_ok [OF boot]]) simp_all
next
  case (call h M op r h')
  from heap_call_simulated [OF call(4,2)] call(3) show ?case by (auto simp: simulated_def)
qed

lemma heap_inv_apart:
  assumes "heap_inv h M" "M p = Some m" "M q = Some n" "p \<noteq> q"
  shows "heap_memory h + 20 \<le> p \<and> p + m \<le> heap_memory h + ROOT_HEAP_SIZE \<and> (p + m \<le> q \<or> q + n \<le> p)"
proof -
  obtain L where ok: "heap_ok h L" and L: "\<And>p n. M p = Some n \<Longrightarrow> \<exists>t. (p, t) \<in> L \<and> 0 < n \<and> n \<le> t"
    using assms(1) by (rule heap_invE) blast
  obtain s where s: "(p, s) \<in> L" "m \<le> s" using L [OF assms(2)] by blast
  obtain t where t: "(q, t) \<in> L" "n \<le> t" using L [OF assms(3)] by blast
  show ?thesis
    using heap_ok_bounds [OF ok s(1)] heap_ok_apart [OF ok s(1) t(1)] assms(4) s(2) t(2) by auto
qed

lemma heap_inv_stats:
  assumes "heap_inv h M"
  shows "\<exists>u f k. heap_used_bytes h = Some u \<and> heap_free_bytes h = Some f
     \<and> u + f + 20 * k = ROOT_HEAP_SIZE \<and> (M = Map.empty \<longleftrightarrow> u = 0) \<and> (\<forall>p n. M p = Some n \<longrightarrow> n \<le> u)"
proof -
  obtain L where ok: "heap_ok h L" and L: "dom M = fst ` L" "\<And>p n. M p = Some n \<Longrightarrow> \<exists>t. (p, t) \<in> L \<and> 0 < n \<and> n \<le> t"
    using assms by (rule heap_invE) blast
  obtain bs where bs: "heap_rep h bs" "L = live (heap_memory h) bs" "\<And>q t. (q, t) \<in> L \<Longrightarrow> 0 < t"
    using ok by (rule heap_okE) blast
  have sum: "(\<Sum>(q, t)\<in>L. t) = sizes False bs" and fin: "finite L" using live_sum bs(2) by simp_all
  have e: "M = Map.empty \<longleftrightarrow> L = {}" using L(1) by (metis dom_eq_empty_conv image_is_empty)
  have z: "sizes False bs = 0 \<longleftrightarrow> L = {}"
  proof -
    have "(\<Sum>(q, t)\<in>L. t) = 0 \<longleftrightarrow> (\<forall>x\<in>L. (case x of (q, t) \<Rightarrow> t) = 0)" using fin by (rule sum_eq_0_iff)
    also have "\<dots> \<longleftrightarrow> L = {}" using bs(3) by fastforce
    finally show ?thesis using sum by simp
  qed
  have le: "n \<le> sizes False bs" if "M p = Some n" for p n
  proof -
    from L(2) [OF that] obtain t where t: "(p, t) \<in> L" "n \<le> t" by blast
    from member_le_sum [OF t(1), of "\<lambda>(q, t). t"] fin have "t \<le> (\<Sum>(q, t)\<in>L. t)" by simp
    with sum t(2) show ?thesis by simp
  qed
  show ?thesis
    by (intro exI [of _ "sizes False bs"] exI [of _ "sizes True bs"] exI [of _ "length bs"] conjI)
      (use stats_rep [OF bs(1)] e z le in auto)
qed

text \<open>
  C1: From boot on, after any sequence of allocations, resizes, releases of blocks the client holds, and
  stores into them, every further call returns, leaves the allocator in such a state again, and is a
  step of the specification in which the blocks are separate byte strings: malloc and calloc yield a
  fresh address (calloc all zeros, and only when the product fits 32 bits), realloc keeps the common
  prefix, and no call disturbs a byte of another block.
\<close>

theorem heap_run_refines:
  assumes "heap_run h M" "allowed M op"
  shows "\<exists>r h'. heap_call op h = Some (r, h') \<and> heap_run h' (track op r M)
     \<and> spec_step (objects_of h M) op r (objects_of h' (track op r M))"
proof -
  from heap_call_simulated [OF heap_run_inv [OF assms(1)] assms(2)] obtain r h' where
    "heap_call op h = Some (r, h')" "spec_step (objects_of h M) op r (objects_of h' (track op r M))"
    by (auto simp: simulated_def)
  with heap_run.call [OF assms this(1)] show ?thesis by blast
qed

abbreviation arena :: heap where
  "arena \<equiv> \<lparr>heap_bytes = (\<lambda>_. 0), heap_memory = 4096, heap_head = 0, heap_initialized = False\<rparr>"

lemma boot_run: "heap_run (heap_init arena) Map.empty"
  by (rule heap_run.boot) (simp_all add: rootos_consts)

theorem heap_run_refines_witness:
  "\<exists>r h'. heap_call (Realloc 0 100) (heap_init arena) = Some (r, h')
     \<and> heap_run h' (track (Realloc 0 100) r Map.empty)
     \<and> spec_step (objects_of (heap_init arena) Map.empty) (Realloc 0 100) r (objects_of h' (track (Realloc 0 100) r Map.empty))"
  by (rule heap_run_refines [OF boot_run]) (simp add: allowed_def)

text \<open>The first two allocations after boot, for the examples below.\<close>

lemma boot_rep: "heap_rep (heap_init arena) [(8388588, True)]"
  by (simp add: heap_rep_def heap_init_def Let_def hdr_def rootos_consts)

lemma carve_run:
  assumes run: "heap_run h M" and rep: "heap_rep h (xs @ [(s, True)])"
    and n: "0 < n" "n \<le> USIZE_MOD - 16" "heap_align n + 36 < s" and xs: "\<forall>b\<in>set xs. \<not> snd b"
  shows "\<exists>h'. root_malloc h n = Some (eaddr (heap_memory h) xs + 20, h')
     \<and> heap_run h' (M(eaddr (heap_memory h) xs + 20 \<mapsto> n)) \<and> heap_memory h' = heap_memory h
     \<and> heap_rep h' (xs @ [(heap_align n, False)] @ [(s - heap_align n - 20, True)])"
proof -
  have a0: "heap_align n \<noteq> 0" using n heap_align_eq [of n] by simp
  have ff: "first_fit (heap_align n) (xs @ [(s, True)]) = Some (xs, s, [])"
    using xs n(3) by (induction xs) auto
  define h' where "h' = (let h1 = heap_split_block h (eaddr (heap_memory h) xs) (heap_align n)
    in h1\<lparr>heap_bytes := st32 (heap_bytes h1) (hb_free (eaddr (heap_memory h) xs)) 0\<rparr>)"
  have m: "root_malloc h n = Some (eaddr (heap_memory h) xs + 20, h')"
    using malloc_steps [OF rep n(1) a0] ff by (simp add: h'_def)
  have le: "heap_align n \<le> s" using n(3) by simp
  have "heap_rep h' (xs @ carve False (heap_align n) s @ [])" "heap_memory h' = heap_memory h"
    using split_take(1,2) [OF rep le refl] by (simp_all add: h'_def Let_def)
  moreover have "heap_run h' (track (Malloc n) (eaddr (heap_memory h) xs + 20) M)"
    by (rule heap_run.call [OF run]) (use m n in \<open>simp_all add: heap_call_def allowed_def\<close>)
  ultimately show ?thesis using m n(3) by (simp add: carve_def track_def)
qed

lemma two_blocks: "\<exists>h. heap_run h [4116 \<mapsto> 10, 4152 \<mapsto> 20] \<and> heap_memory h = 4096"
proof -
  have a: "heap_align 10 = 16" "heap_align 20 = 32" by (simp_all add: heap_align_eq)
  obtain h1 where h1: "heap_run h1 [4116 \<mapsto> 10]" "heap_memory h1 = 4096"
    "heap_rep h1 ([(16, False)] @ [(8388552, True)])"
    using carve_run [OF boot_run, of "[]" 8388588 10] boot_rep a by (auto simp: heap_init_def Let_def)
  from carve_run [OF h1(1,3), of 20] h1(2) a show ?thesis by auto
qed

text \<open>
  In every state the allocator can reach, two different blocks the client holds do not overlap (over
  the sizes it asked for), and each lies inside the heap's memory behind the first header.
\<close>

theorem heap_run_disjoint:
  assumes "heap_run h M" "M p = Some m" "M q = Some n" "p \<noteq> q"
  shows "heap_memory h + 20 \<le> p \<and> p + m \<le> heap_memory h + ROOT_HEAP_SIZE \<and> (p + m \<le> q \<or> q + n \<le> p)"
  using heap_inv_apart [OF heap_run_inv [OF assms(1)] assms(2-4)] .

theorem heap_run_disjoint_witness:
  "\<exists>h. heap_run h [4116 \<mapsto> 10, 4152 \<mapsto> 20]
     \<and> heap_memory h + 20 \<le> 4116 \<and> 4116 + 10 \<le> heap_memory h + ROOT_HEAP_SIZE \<and> (4116 + 10 \<le> (4152::nat) \<or> 4152 + 20 \<le> (4116::nat))"
proof -
  obtain h where "heap_run h [4116 \<mapsto> 10, 4152 \<mapsto> 20]" using two_blocks by blast
  with heap_run_disjoint [OF this, of 4116 10 4152 20] show ?thesis by auto
qed

text \<open>
  In every state the allocator can reach, the two statistics loops return; used and free bytes and
  20 bytes per block header add up to the size of the heap, the used bytes are 0 exactly when the
  client holds nothing (no leak through splitting and merging), and no held block exceeds them.
\<close>

theorem heap_run_accounting:
  assumes "heap_run h M"
  shows "\<exists>u f k. heap_used_bytes h = Some u \<and> heap_free_bytes h = Some f
     \<and> u + f + SIZEOF_HEAPBLOCK * k = ROOT_HEAP_SIZE \<and> (M = Map.empty \<longleftrightarrow> u = 0)
     \<and> (\<forall>p n. M p = Some n \<longrightarrow> n \<le> u)"
  using heap_inv_stats [OF heap_run_inv [OF assms]] unfolding SIZEOF_HEAPBLOCK_def .

theorem heap_run_accounting_witness:
  "\<exists>h. heap_run h [4116 \<mapsto> 10, 4152 \<mapsto> 20] \<and> (\<exists>u f k. heap_used_bytes h = Some u \<and> heap_free_bytes h = Some f
     \<and> u + f + SIZEOF_HEAPBLOCK * k = ROOT_HEAP_SIZE \<and> ([4116 :: nat \<mapsto> 10, 4152 \<mapsto> 20 :: nat] = Map.empty \<longleftrightarrow> u = 0)
     \<and> (\<forall>p n. [4116 :: nat \<mapsto> 10, 4152 \<mapsto> 20] p = Some n \<longrightarrow> n \<le> u))"
proof -
  obtain h where "heap_run h [4116 \<mapsto> 10, 4152 \<mapsto> 20]" using two_blocks by blast
  with heap_run_accounting [OF this] show ?thesis by blast
qed

text \<open>
  Releasing a held block a second time, before any other call, changes nothing: either its header is
  still there and marked free, or it was merged away and its magic number erased.
\<close>

theorem root_free_double:
  assumes "heap_run h M" "M p = Some n"
  shows "root_free (root_free h p) p = root_free h p"
proof -
  obtain L where ok: "heap_ok h L" and L: "\<And>p n. M p = Some n \<Longrightarrow> \<exists>t. (p, t) \<in> L \<and> 0 < n \<and> n \<le> t"
    using heap_run_inv [OF assms(1)] by (rule heap_invE) blast
  obtain t where "(p, t) \<in> L" using L [OF assms(2)] by blast
  with ok show ?thesis by (rule free_twice)
qed

theorem root_free_double_witness:
  "\<exists>h. heap_run h [4116 \<mapsto> 10, 4152 \<mapsto> 20] \<and> root_free (root_free h 4152) 4152 = root_free h 4152"
proof -
  obtain h where "heap_run h [4116 \<mapsto> 10, 4152 \<mapsto> 20]" using two_blocks by blast
  with root_free_double [OF this, of 4152 20] show ?thesis by auto
qed

text \<open>
  First fit is complete: on a well-formed heap a request fails only when it cannot be rounded up
  within 32 bits or no free block is large enough; otherwise the first block that is large enough, in
  address order, serves it.
\<close>

theorem root_malloc_first_fit:
  assumes "heap_rep h bs" "0 < n" "n < USIZE_MOD"
  shows "\<exists>p h'. root_malloc h n = Some (p, h') \<and>
     (if heap_align n = 0 \<or> (\<forall>b\<in>set bs. snd b \<longrightarrow> fst b < heap_align n) then p = 0 \<and> h' = h
      else \<exists>xs s ys. bs = xs @ (s, True) # ys \<and> heap_align n \<le> s \<and> p = eaddr (heap_memory h) xs + SIZEOF_HEAPBLOCK
        \<and> (\<forall>b\<in>set xs. snd b \<longrightarrow> fst b < heap_align n))"
proof (cases "heap_align n = 0")
  case True
  then show ?thesis using assms by (simp add: root_malloc_def)
next
  case False
  note steps = malloc_steps [OF assms(1,2) False]
  show ?thesis
  proof (cases "first_fit (heap_align n) bs")
    case None
    then have "\<forall>b\<in>set bs. snd b \<longrightarrow> fst b < heap_align n" by (auto simp: first_fit_None)
    with steps None show ?thesis by simp
  next
    case (Some r)
    obtain xs s ys where r: "r = (xs, s, ys)" by (cases r)
    from first_fit_Some [OF Some [unfolded r]] have f: "bs = xs @ (s, True) # ys" "heap_align n \<le> s"
      "\<forall>b\<in>set xs. snd b \<longrightarrow> fst b < heap_align n" by auto
    then have "\<not> (\<forall>b\<in>set bs. snd b \<longrightarrow> fst b < heap_align n)" by auto
    with steps Some r f False show ?thesis by (auto simp: SIZEOF_HEAPBLOCK_def)
  qed
qed

theorem root_malloc_first_fit_witness:
  "\<exists>p h'. root_malloc (heap_init arena) 100 = Some (p, h') \<and>
     (if heap_align 100 = 0 \<or> (\<forall>b\<in>set [(8388588, True)]. snd b \<longrightarrow> fst b < heap_align 100) then p = 0 \<and> h' = heap_init arena
      else \<exists>xs s ys. [(8388588, True)] = xs @ (s, True) # ys \<and> heap_align 100 \<le> s
        \<and> p = eaddr (heap_memory (heap_init arena)) xs + SIZEOF_HEAPBLOCK
        \<and> (\<forall>b\<in>set xs. snd b \<longrightarrow> fst b < heap_align 100))"
  by (rule root_malloc_first_fit [OF boot_rep]) simp_all

end
