(* ===== verification/Root_String.thy ===== *)
theory Root_String
  imports Root_Prelude
begin

text \<open>
  \<open>source/lib/string.c\<close>. A \<open>const char*\<close> is the list of the characters from where it points up to
  the end of its object, a read behind the last of them being the terminator; advancing the pointer
  takes the tail. Shown: \<open>root_streq\<close> is equality of C strings, \<open>root_strcmp\<close> is antisymmetric and
  agrees with \<open>root_strncmp\<close>, and \<open>root_strlcpy\<close> truncates and reports as its callers rely on.
\<close>

fun root_strlen :: "string \<Rightarrow> nat" where
  "root_strlen [] = 0"
| "root_strlen (c # cs) = (if c = NUL then 0 else Suc (root_strlen cs))"

definition byte_of :: "char \<Rightarrow> int" where
  "byte_of c = of_char c"

function root_strcmp :: "string \<Rightarrow> string \<Rightarrow> int" where
  "root_strcmp a b =
     (if chead a \<noteq> NUL \<and> chead b \<noteq> NUL \<and> chead a = chead b then root_strcmp (tl a) (tl b)
      else byte_of (chead a) - byte_of (chead b))"
  by pat_completeness auto
termination
  by (relation "measure (\<lambda>(a, b). length a)") (auto simp: chead_def split: list.splits)

fun root_strncmp :: "string \<Rightarrow> string \<Rightarrow> nat \<Rightarrow> int" where
  "root_strncmp a b 0 = 0"
| "root_strncmp a b (Suc count) =
     (if chead a \<noteq> chead b then byte_of (chead a) - byte_of (chead b)
      else if chead a = NUL then 0
      else root_strncmp (tl a) (tl b) count)"

definition root_streq :: "string \<Rightarrow> string \<Rightarrow> bool" where
  "root_streq a b = (root_strcmp a b = 0)"

function root_starts_with :: "string \<Rightarrow> string \<Rightarrow> bool" where
  "root_starts_with txt prefix_text =
     (if chead prefix_text \<noteq> NUL then
        (if chead txt \<noteq> chead prefix_text then False
         else root_starts_with (tl txt) (tl prefix_text))
      else True)"
  by pat_completeness auto
termination
  by (relation "measure (\<lambda>(a, b). length b)") (auto simp: chead_def split: list.splits)

text \<open>\<open>root_strlcpy\<close> returns the destination's new contents and the length of the source.\<close>

definition root_strlcpy :: "string \<Rightarrow> string \<Rightarrow> nat \<Rightarrow> string \<times> nat" where
  "root_strlcpy destination source destination_size =
     (let source_length = root_strlen source in
      if destination_size = 0 then (destination, source_length)
      else let copy_length =
             (if source_length \<ge> destination_size then destination_size - 1 else source_length)
           in (take copy_length source, source_length))"

text \<open>\<open>root_strchr\<close> returns the string from the first occurrence on, or no pointer.\<close>

fun root_strchr :: "string \<Rightarrow> char \<Rightarrow> string option" where
  "root_strchr [] c = (if c = NUL then Some [] else None)"
| "root_strchr (x # xs) c =
     (if x = NUL then (if c = NUL then Some (x # xs) else None)
      else if x = c then Some (x # xs) else root_strchr xs c)"

declare root_strcmp.simps [simp del] root_starts_with.simps [simp del]

section \<open>Correctness\<close>

lemma root_strlen_cstr: "root_strlen s = length (cstr s)"
  by (induction s) auto

lemma root_strlen_exact: "NUL \<notin> set s \<Longrightarrow> root_strlen s = length s"
  by (simp add: root_strlen_cstr cstr_id)

lemma take_strlen: "take (root_strlen s) s = cstr s"
  by (induction s) auto

lemma take_cstr: "k \<le> length (cstr s) \<Longrightarrow> take k s = take k (cstr s)"
  by (metis min_def root_strlen_cstr take_strlen take_take)

lemma byte_of_inj [simp]: "byte_of a = byte_of b \<longleftrightarrow> a = b"
  by (simp add: byte_of_def)

lemma root_strcmp_step:
  "chead a \<noteq> NUL \<Longrightarrow> chead a = chead b \<Longrightarrow> root_strcmp a b = root_strcmp (tl a) (tl b)"
  by (subst root_strcmp.simps) simp

lemma root_strcmp_stop:
  "chead a = NUL \<or> chead a \<noteq> chead b \<Longrightarrow> root_strcmp a b = byte_of (chead a) - byte_of (chead b)"
  by (subst root_strcmp.simps) auto

lemma root_strcmp_eq_0: "root_strcmp a b = 0 \<longleftrightarrow> cstr a = cstr b"
proof (induction a b rule: root_strcmp.induct)
  case (1 a b)
  show ?case
  proof (cases "chead a \<noteq> NUL \<and> chead b \<noteq> NUL \<and> chead a = chead b")
    case True
    then obtain c as bs where "a = c # as" "b = c # bs" "c \<noteq> NUL"
      by (cases a; cases b) auto
    with 1 True show ?thesis by (simp add: root_strcmp_step)
  next
    case False
    then have "root_strcmp a b = byte_of (chead a) - byte_of (chead b)"
      by (intro root_strcmp_stop) auto
    with False show ?thesis by (cases a; cases b) (auto split: if_splits)
  qed
qed

text \<open>
  \<open>root_streq\<close> is exactly equality of the two C strings, that is of their characters up to the
  first NUL, for every pair of strings.
\<close>

theorem root_streq_iff: "root_streq a b \<longleftrightarrow> cstr a = cstr b"
  by (simp add: root_streq_def root_strcmp_eq_0)

lemma root_streq_exact [rep_simps]:
  "NUL \<notin> set a \<Longrightarrow> NUL \<notin> set b \<Longrightarrow> root_streq a b \<longleftrightarrow> a = b"
  by (simp add: root_streq_def root_strcmp_eq_0 cstr_id)

lemma root_strcmp_antisym: "root_strcmp b a = - root_strcmp a b"
proof (induction a b rule: root_strcmp.induct)
  case (1 a b)
  then show ?case
    by (cases "chead a \<noteq> NUL \<and> chead b \<noteq> NUL \<and> chead a = chead b")
      (auto simp: root_strcmp.simps [of a b] root_strcmp.simps [of b a])
qed

lemma root_strncmp_eq_0: "root_strncmp a b n = 0 \<longleftrightarrow> take n (cstr a) = take n (cstr b)"
proof (induction n arbitrary: a b)
  case 0
  then show ?case by simp
next
  case (Suc n)
  then show ?case by (cases a; cases b) auto
qed

lemma root_starts_with_iff: "root_starts_with t p \<longleftrightarrow> prefix (cstr p) (cstr t)"
proof (induction t p rule: root_starts_with.induct)
  case (1 t p)
  then show ?case
    by (subst root_starts_with.simps) (cases t; cases p; auto)
qed

text \<open>
  \<open>root_strncmp\<close> with any count, \<open>root_strcmp\<close> and \<open>root_starts_with\<close> agree: the first is 0
  exactly when the C strings have the same first \<open>count\<close> characters, swapping the arguments of
  \<open>root_strcmp\<close> negates the result, and a text starts with a prefix exactly when comparing the
  prefix's length of it gives 0.
\<close>

theorem root_string_comparisons_agree:
  "(root_strncmp a b n = 0 \<longleftrightarrow> take n (cstr a) = take n (cstr b))
   \<and> root_strcmp b a = - root_strcmp a b
   \<and> (root_starts_with a b \<longleftrightarrow> root_strncmp a b (root_strlen b) = 0)"
proof -
  have "prefix (cstr b) (cstr a) \<longleftrightarrow> take (length (cstr b)) (cstr a) = take (length (cstr b)) (cstr b)"
    by (metis append_eq_conv_conj prefix_def take_all_iff order_refl)
  then have "root_starts_with a b \<longleftrightarrow> root_strncmp a b (root_strlen b) = 0"
    by (simp only: root_strncmp_eq_0 root_starts_with_iff root_strlen_cstr)
  then show ?thesis
    by (intro conjI root_strncmp_eq_0 root_strcmp_antisym)
qed

lemma root_strlcpy_spec:
  "0 < n \<Longrightarrow> root_strlcpy d s n = (take (n - 1) (cstr s), length (cstr s))"
  using take_cstr [of "n - 1" s] take_cstr [of "length (cstr s)" s]
  by (auto simp: root_strlcpy_def Let_def root_strlen_cstr)

lemma root_strlcpy_fits:
  "snd (root_strlcpy d s n) < n \<Longrightarrow> fst (root_strlcpy d s n) = cstr s"
  by (cases "n = 0") (auto simp: root_strlcpy_spec)

text \<open>
  \<open>root_strlcpy\<close> returns the length of the source whatever the destination's size; the copy is
  always a C string shorter than the destination, it is the source's longest prefix that fits, and it
  is the whole source exactly when the returned length is below the size, which is the test its
  callers make.
\<close>

theorem root_strlcpy_correct:
  assumes "0 < destination_size" and "root_strlcpy destination source destination_size = (copy, n)"
  shows "n = length (cstr source) \<and> NUL \<notin> set copy \<and> length copy < destination_size
     \<and> copy = take (destination_size - 1) (cstr source)
     \<and> (copy = cstr source \<longleftrightarrow> n < destination_size)"
proof -
  have eq: "copy = take (destination_size - 1) (cstr source)" "n = length (cstr source)"
    using assms by (simp_all add: root_strlcpy_spec)
  moreover have "NUL \<notin> set copy"
    using NUL_notin_cstr [of source] by (auto simp: eq dest: in_set_takeD)
  moreover have "copy = cstr source \<longleftrightarrow> n < destination_size"
    using assms(1) by (auto simp: eq)
  ultimately show ?thesis using assms(1) by auto
qed

theorem root_strlcpy_correct_witness:
  "root_strlcpy ''old'' ''kernel'' 4 = (''ker'', 6)
   \<and> (6::nat) = length (cstr ''kernel'') \<and> \<not> (''ker'' = cstr ''kernel'')"
proof -
  have p: "(0::nat) < 4" by simp
  have e: "root_strlcpy ''old'' ''kernel'' 4 = (''ker'', 6)"
    by (simp add: root_strlcpy_def Let_def)
  from root_strlcpy_correct [OF p e] e show ?thesis by simp
qed

lemma root_strchr_Some:
  "root_strchr s c = Some t \<Longrightarrow> \<exists>p. s = p @ t \<and> chead t = c \<and> c \<notin> set p \<and> NUL \<notin> set p"
proof (induction s)
  case Nil
  then show ?case by (auto split: if_splits)
next
  case (Cons x xs)
  show ?case
  proof (cases "x = NUL \<or> x = c")
    case True
    with Cons.prems show ?thesis by (intro exI [of _ "[]"]) (auto split: if_splits)
  next
    case False
    with Cons obtain p where "xs = p @ t \<and> chead t = c \<and> c \<notin> set p \<and> NUL \<notin> set p" by auto
    with False show ?thesis by (intro exI [of _ "x # p"]) auto
  qed
qed

lemma root_strchr_None: "root_strchr s c = None \<longleftrightarrow> c \<noteq> NUL \<and> c \<notin> set (cstr s)"
  by (induction s) auto

end
