(* ===== verification/Root_Path.thy ===== *)
theory Root_Path
  imports Root_String
begin

text \<open>
  \<open>source/lib/path.c\<close>: normalisation of paths, base names and the direct-child test. A path buffer
  is its contents up to the terminator, so storing a terminator at an index truncates the list there,
  and a routine that returns \<open>false\<close> yields \<open>None\<close>.

  The specification works on the list of a path's components: \<open>render\<close> prints such a list,
  \<open>path_comps\<close> reads one, \<open>abs_resolve\<close> is path resolution on component lists. The main result is
  that \<open>root_path_resolve\<close> on a rendered current directory is \<open>abs_resolve\<close>, failures included.
\<close>

section \<open>The code\<close>

definition ROOT_PATH_MAX :: nat where [rootos_consts]: "ROOT_PATH_MAX = 512"
definition ROOT_NAME_MAX :: nat where [rootos_consts]: "ROOT_NAME_MAX = 128"
definition ROOTOS_DEFAULT_HOME :: string where "ROOTOS_DEFAULT_HOME = ''/home/user''"

definition path_set_root :: "nat \<Rightarrow> string option" where
  "path_set_root buf_size = (if buf_size < 2 then None else Some ''/'')"

fun path_pop_scan :: "string \<Rightarrow> nat \<Rightarrow> nat" where
  "path_pop_scan path len =
     (if len > 1 \<and> path ! (len - 1) \<noteq> SLASH then path_pop_scan path (len - 1) else len)"

definition path_pop :: "string \<Rightarrow> string" where
  "path_pop path =
     (let len = root_strlen path in
      if len \<le> 1 then ''/''
      else let len = path_pop_scan path len in
        if len \<le> 1 then ''/'' else take (len - 1) path)"

definition path_append :: "string \<Rightarrow> nat \<Rightarrow> string \<Rightarrow> string option" where
  "path_append path path_size component =
     (let path_length = root_strlen path;
          component_length = root_strlen component;
          root = (path_length = 1 \<and> path ! 0 = SLASH);
          required = path_length + component_length + (if root then 0 else 1) + 1
      in if required > path_size then None
         else Some (take path_length path @ (if root then [] else [SLASH]) @ take component_length component))"

fun skip_slashes :: "string \<Rightarrow> string" where
  "skip_slashes [] = []"
| "skip_slashes (c # cs) = (if c = SLASH then skip_slashes cs else c # cs)"

text \<open>The inner loop that copies one component into a buffer of \<open>ROOT_NAME_MAX\<close> characters.\<close>

fun path_component :: "nat \<Rightarrow> string \<Rightarrow> (string \<times> string) option" where
  "path_component len [] = Some ([], [])"
| "path_component len (c # cs) =
     (if c \<noteq> NUL \<and> c \<noteq> SLASH then
        (if len \<ge> ROOT_NAME_MAX - 1 then None
         else case path_component (Suc len) cs of
                None \<Rightarrow> None
              | Some (component, cursor) \<Rightarrow> Some (c # component, cursor))
      else Some ([], c # cs))"

lemma path_component_rest:
  "path_component n cs = Some (w, r) \<Longrightarrow> cs = w @ r \<and> (chead cs \<noteq> NUL \<and> chead cs \<noteq> SLASH \<longrightarrow> w \<noteq> [])"
  by (induction n cs arbitrary: w r rule: path_component.induct) (auto split: if_splits option.splits)

lemma length_skip_slashes: "length (skip_slashes cs) \<le> length cs"
  by (induction cs) auto

lemma skip_slashes_chead: "chead (skip_slashes cs) \<noteq> SLASH"
  by (induction cs) auto

function resolve_loop :: "nat \<Rightarrow> string \<Rightarrow> string \<Rightarrow> string option" where
  "resolve_loop output_size output cursor =
     (if chead cursor = NUL then Some output
      else let cursor = skip_slashes cursor in
        if chead cursor = NUL then Some output
        else case path_component 0 cursor of
               None \<Rightarrow> None
             | Some (component, cursor) \<Rightarrow>
                 if root_streq component ''.'' then resolve_loop output_size output cursor
                 else if root_streq component ''..'' then resolve_loop output_size (path_pop output) cursor
                 else (case path_append output output_size component of
                         None \<Rightarrow> None
                       | Some output \<Rightarrow> resolve_loop output_size output cursor))"
  by pat_completeness auto
termination
proof (relation "measure (\<lambda>(n, out, cur). length cur)", goal_cases)
  case 1
  then show ?case by simp
next
  case (2 n out cur cur' p w r)
  then show ?case
    using path_component_rest [of 0 "skip_slashes cur" w r] length_skip_slashes [of cur]
      skip_slashes_chead [of cur]
    by (cases w) auto
next
  case (3 n out cur cur' p w r)
  then show ?case
    using path_component_rest [of 0 "skip_slashes cur" w r] length_skip_slashes [of cur]
      skip_slashes_chead [of cur]
    by (cases w) auto
next
  case (4 n out cur cur' p w r out')
  then show ?case
    using path_component_rest [of 0 "skip_slashes cur" w r] length_skip_slashes [of cur]
      skip_slashes_chead [of cur]
    by (cases w) auto
qed

declare resolve_loop.simps [simp del] path_pop_scan.simps [simp del]

text \<open>The input is a pointer that may be NULL; the output buffer is one the caller owns.\<close>

definition root_path_resolve :: "string \<Rightarrow> string option \<Rightarrow> nat \<Rightarrow> string option" where
  "root_path_resolve current_directory input output_size =
     (if output_size < 2 then None
      else case input of
        None \<Rightarrow>
          (let (output, n) = root_strlcpy [] current_directory output_size in
           if n < output_size then Some output else None)
      | Some input \<Rightarrow>
          if chead input = NUL then
            (let (output, n) = root_strlcpy [] current_directory output_size in
             if n < output_size then Some output else None)
          else if chead input = SLASH then
            (case path_set_root output_size of
               None \<Rightarrow> None
             | Some output \<Rightarrow> resolve_loop output_size output (skip_slashes input))
          else if chead input = CHR ''~'' \<and> (chead (tl input) = NUL \<or> chead (tl input) = SLASH) then
            (let (output, n) = root_strlcpy [] ROOTOS_DEFAULT_HOME output_size in
             if n \<ge> output_size then None
             else resolve_loop output_size output (skip_slashes (tl input)))
          else
            (let (output, n) = root_strlcpy [] current_directory output_size in
             if n \<ge> output_size then None else resolve_loop output_size output input))"

fun basename_loop :: "string \<Rightarrow> string \<Rightarrow> string" where
  "basename_loop result [] = result"
| "basename_loop result (c # cs) =
     (if c = NUL then result
      else basename_loop (if c = SLASH \<and> chead cs \<noteq> NUL then cs else result) cs)"

definition root_path_basename :: "string option \<Rightarrow> string" where
  "root_path_basename path =
     (case path of None \<Rightarrow> []
      | Some path \<Rightarrow> if chead path = NUL then [] else basename_loop path path)"

fun no_slash_loop :: "string \<Rightarrow> bool" where
  "no_slash_loop [] = True"
| "no_slash_loop (c # cs) = (if c = NUL then True else if c = SLASH then False else no_slash_loop cs)"

definition root_path_is_direct_child :: "string \<Rightarrow> string \<Rightarrow> bool" where
  "root_path_is_direct_child parent child =
     (let remainder =
        (if chead parent = SLASH \<and> chead (tl parent) = NUL then
           (if chead child \<noteq> SLASH then None else Some (tl child))
         else let parent_length = root_strlen parent in
           (if root_strncmp child parent parent_length \<noteq> 0 then None
            else if chead (drop parent_length child) \<noteq> SLASH then None
            else Some (drop (parent_length + 1) child)))
      in case remainder of None \<Rightarrow> False
         | Some remainder \<Rightarrow> if chead remainder = NUL then False else no_slash_loop remainder)"

section \<open>Component lists\<close>

type_synonym path = "string list"

definition render :: "path \<Rightarrow> string" where
  "render cs = (if cs = [] then ''/'' else concat (map ((#) SLASH) cs))"

definition wf_comp :: "string \<Rightarrow> bool" where
  "wf_comp c \<longleftrightarrow> c \<noteq> [] \<and> SLASH \<notin> set c \<and> NUL \<notin> set c \<and> c \<noteq> ''.'' \<and> c \<noteq> ''..''
     \<and> length c < ROOT_NAME_MAX"

definition wf_path :: "path \<Rightarrow> bool" where
  "wf_path cs \<longleftrightarrow> (\<forall>c\<in>set cs. wf_comp c)"

abbreviation in_component :: "char \<Rightarrow> bool" where
  "in_component c \<equiv> c \<noteq> NUL \<and> c \<noteq> SLASH"

function path_comps :: "string \<Rightarrow> path" where
  "path_comps s =
     (let t = skip_slashes s in
      if chead t = NUL then [] else takeWhile in_component t # path_comps (dropWhile in_component t))"
  by pat_completeness auto
termination
proof (relation "measure length", goal_cases)
  case 1
  then show ?case by simp
next
  case (2 s t)
  then have "t \<noteq> []" by (intro chead_neq_NUL)
  then obtain c cs where t: "t = c # cs" by (cases t) auto
  have "length (dropWhile in_component cs) \<le> length cs" by (rule length_dropWhile_le)
  moreover have "chead t = c" by (simp add: t)
  with 2 have "in_component c" using skip_slashes_chead [of s] by metis
  ultimately have "length (dropWhile in_component t) < length t" by (simp add: t)
  with 2 show ?case using length_skip_slashes [of s] by auto
qed

declare path_comps.simps [simp del]

fun abs_resolve_loop :: "nat \<Rightarrow> path \<Rightarrow> path \<Rightarrow> path option" where
  "abs_resolve_loop buf_size acc [] = Some acc"
| "abs_resolve_loop buf_size acc (c # cs) =
     (if length c \<ge> ROOT_NAME_MAX then None
      else if c = ''.'' then abs_resolve_loop buf_size acc cs
      else if c = ''..'' then abs_resolve_loop buf_size (butlast acc) cs
      else if length (render (acc @ [c])) \<ge> buf_size then None
      else abs_resolve_loop buf_size (acc @ [c]) cs)"

definition abs_resolve :: "path \<Rightarrow> string \<Rightarrow> nat \<Rightarrow> path option" where
  "abs_resolve cwd input buf_size =
     (if buf_size < 2 then None
      else if chead input = SLASH then abs_resolve_loop buf_size [] (path_comps input)
      else if chead input = CHR ''~'' \<and> (chead (tl input) = NUL \<or> chead (tl input) = SLASH) then
        (if buf_size \<le> length ROOTOS_DEFAULT_HOME then None
         else abs_resolve_loop buf_size [''home'', ''user''] (path_comps (tl input)))
      else if buf_size \<le> length (render cwd) then None
      else abs_resolve_loop buf_size cwd (path_comps input))"

section \<open>The routines on rendered paths\<close>

lemma wf_path_simps [simp]:
  "wf_path []" "wf_path (c # cs) \<longleftrightarrow> wf_comp c \<and> wf_path cs"
  "wf_path (as @ bs) \<longleftrightarrow> wf_path as \<and> wf_path bs"
  by (auto simp: wf_path_def)

lemma wf_path_butlast: "wf_path cs \<Longrightarrow> wf_path (butlast cs)"
  by (auto simp: wf_path_def dest: in_set_butlastD)

lemma wf_path_take: "wf_path cs \<Longrightarrow> wf_path (take n cs)"
  by (auto simp: wf_path_def dest: in_set_takeD)

lemma render_Nil [simp]: "render [] = ''/''"
  by (simp add: render_def)

lemma render_Cons: "render (c # cs) = SLASH # c @ (if cs = [] then [] else render cs)"
  by (auto simp: render_def)

lemma render_snoc: "render (cs @ [c]) = (if cs = [] then [] else render cs) @ SLASH # c"
  by (simp add: render_def)

lemma render_append:
  "render (as @ bs) = (if bs = [] then render as else if as = [] then render bs else render as @ render bs)"
  by (simp add: render_def)

lemma chead_render [simp]: "chead (render cs) = SLASH"
  by (cases cs) (auto simp: render_Cons)

lemma NUL_render: "wf_path cs \<Longrightarrow> NUL \<notin> set (render cs)"
  by (auto simp: render_def wf_path_def wf_comp_def)

lemma cstr_render [rep_simps]: "wf_path cs \<Longrightarrow> cstr (render cs) = render cs"
  by (simp add: NUL_render cstr_id)

lemma strlen_render [rep_simps]: "wf_path cs \<Longrightarrow> root_strlen (render cs) = length (render cs)"
  by (simp add: NUL_render root_strlen_exact)

lemma length_render_pos: "0 < length (render cs)"
  by (cases cs) (auto simp: render_Cons)

lemma length_render_1: "wf_path cs \<Longrightarrow> length (render cs) = Suc 0 \<longleftrightarrow> cs = []"
  by (cases cs) (auto simp: render_Cons wf_comp_def)

lemma render_inj: "wf_path as \<Longrightarrow> wf_path bs \<Longrightarrow> render as = render bs \<longleftrightarrow> as = bs"
proof (induction as arbitrary: bs)
  case Nil
  then show ?case by (cases bs) (auto simp: render_Cons wf_comp_def)
next
  case (Cons a as)
  show ?case
  proof (cases bs)
    case Nil
    with Cons.prems show ?thesis by (auto simp: render_Cons wf_comp_def)
  next
    case (Cons b bs')
    have tw: "takeWhile (\<lambda>c. c \<noteq> SLASH) (x @ (if xs = [] then [] else render xs)) = x"
      if "wf_comp x" for x xs
      using that by (cases xs) (auto simp: wf_comp_def render_Cons takeWhile_tail takeWhile_eq_all_conv)
    have "a = b \<and> as = bs'" if eq: "render (a # as) = render bs"
    proof -
      from eq Cons have e: "a @ (if as = [] then [] else render as) = b @ (if bs' = [] then [] else render bs')"
        by (simp add: render_Cons)
      have "a = b"
        using arg_cong [OF e, of "takeWhile (\<lambda>c. c \<noteq> SLASH)"] tw Cons.prems Cons by simp
      moreover from this e have "(if as = [] then [] else render as) = (if bs' = [] then [] else render bs')"
        by simp
      then have "as = bs'"
        using Cons.IH [of bs'] Cons.prems Cons length_render_pos [of as] length_render_pos [of bs']
        by (auto split: if_splits)
      ultimately show ?thesis ..
    qed
    with Cons show ?thesis by auto
  qed
qed

lemma path_pop_scan_stops:
  assumes "SLASH \<notin> set c" "length x + 1 \<le> n" "n \<le> length x + 1 + length c"
  shows "path_pop_scan (x @ SLASH # c) n = length x + 1"
  using assms(2,3)
proof (induction "n - (length x + 1)" arbitrary: n)
  case 0
  then show ?case by (subst path_pop_scan.simps) (auto simp: nth_append)
next
  case (Suc k)
  then have n: "n = length x + 1 + Suc k" by simp
  with Suc.prems have "c ! k \<in> set c" by simp
  with assms(1) have "(x @ SLASH # c) ! (n - 1) \<noteq> SLASH"
    by (auto simp: n nth_append)
  with Suc show ?case by (subst path_pop_scan.simps) auto
qed

lemma path_pop_render [rep_simps]:
  assumes "wf_path cs"
  shows "path_pop (render cs) = render (butlast cs)"
proof (cases cs rule: rev_cases)
  case Nil
  then show ?thesis by (simp add: path_pop_def)
next
  case (snoc bs c)
  define x where "x = (if bs = [] then [] else render bs)"
  have r: "render cs = x @ SLASH # c" by (simp add: snoc render_snoc x_def)
  from assms snoc have c: "SLASH \<notin> set c" "c \<noteq> []" by (auto simp: wf_comp_def)
  have "path_pop_scan (render cs) (length (render cs)) = length x + 1"
    unfolding r by (rule path_pop_scan_stops) (use c in auto)
  moreover have "x = [] \<longleftrightarrow> bs = []" using length_render_pos [of bs] by (auto simp: x_def)
  ultimately have "path_pop (render cs) = (if bs = [] then ''/'' else x)"
    using c strlen_render [OF assms] unfolding path_pop_def Let_def r by auto
  then show ?thesis by (simp add: snoc x_def)
qed

lemma path_append_render [rep_simps]:
  assumes "wf_path cs" "NUL \<notin> set c"
  shows "path_append (render cs) n c
     = (if length (render (cs @ [c])) \<ge> n then None else Some (render (cs @ [c])))"
proof -
  have "render cs ! 0 = SLASH" by (cases cs) (auto simp: render_Cons)
  then show ?thesis
    using assms by (auto simp: path_append_def Let_def strlen_render root_strlen_exact length_render_1 render_snoc)
qed

section \<open>Resolution refines its specification\<close>

lemma path_component_spec:
  "n < ROOT_NAME_MAX \<Longrightarrow> path_component n cs =
     (if n + length (takeWhile in_component cs) < ROOT_NAME_MAX
      then Some (takeWhile in_component cs, dropWhile in_component cs) else None)"
proof (induction cs arbitrary: n)
  case Nil
  then show ?case by simp
next
  case (Cons c cs)
  show ?case
  proof (cases "in_component c \<and> n < ROOT_NAME_MAX - 1")
    case True
    then have "Suc n < ROOT_NAME_MAX" by (simp add: rootos_consts)
    from Cons.IH [OF this] True show ?thesis by auto
  next
    case False
    with Cons.prems show ?thesis by (auto simp: rootos_consts)
  qed
qed

lemma path_comps_stop: "chead (skip_slashes s) = NUL \<Longrightarrow> path_comps s = []"
  by (subst path_comps.simps) simp

lemma path_comps_step:
  "chead (skip_slashes s) \<noteq> NUL \<Longrightarrow> path_comps s
     = takeWhile in_component (skip_slashes s) # path_comps (dropWhile in_component (skip_slashes s))"
  by (subst path_comps.simps) (simp add: Let_def)

lemma skip_slashes_idem [simp]: "skip_slashes (skip_slashes s) = skip_slashes s"
  by (induction s) auto

lemma path_comps_skip [simp]: "path_comps (skip_slashes s) = path_comps s"
  by (subst (1 2) path_comps.simps) simp

lemma skip_slashes_id: "chead s \<noteq> SLASH \<Longrightarrow> skip_slashes s = s"
  by (cases s) auto

lemma resolve_loop_unfold:
  "resolve_loop n out cur =
     (if chead (skip_slashes cur) = NUL then Some out
      else let w = takeWhile in_component (skip_slashes cur);
               r = dropWhile in_component (skip_slashes cur) in
        if length w \<ge> ROOT_NAME_MAX then None
        else if w = ''.'' then resolve_loop n out r
        else if w = ''..'' then resolve_loop n (path_pop out) r
        else (case path_append out n w of None \<Rightarrow> None | Some out \<Rightarrow> resolve_loop n out r))"
proof -
  let ?w = "takeWhile in_component (skip_slashes cur)"
  have nul: "NUL \<notin> set ?w" by (metis (mono_tags, lifting) set_takeWhileD)
  have stop: "chead cur = NUL \<Longrightarrow> chead (skip_slashes cur) = NUL"
    by (cases cur) auto
  have "0 < ROOT_NAME_MAX" by (simp add: rootos_consts)
  note pc = path_component_spec [OF this, of "skip_slashes cur"]
  show ?thesis
    using nul stop
    by (subst resolve_loop.simps) (auto simp: pc Let_def root_streq_exact)
qed

lemma in_component_head:
  assumes "chead (skip_slashes s) \<noteq> NUL"
  shows "takeWhile in_component (skip_slashes s) \<noteq> []"
  using assms skip_slashes_chead [of s] by (cases "skip_slashes s") auto

lemma takeWhile_in_component:
  "SLASH \<notin> set (takeWhile in_component s)" "NUL \<notin> set (takeWhile in_component s)"
  by (metis (mono_tags, lifting) set_takeWhileD)+

lemma resolve_loop_abs:
  "wf_path acc \<Longrightarrow> resolve_loop n (render acc) cur = map_option render (abs_resolve_loop n acc (path_comps cur))"
proof (induction cur arbitrary: acc rule: path_comps.induct)
  case (1 cur)
  show ?case
  proof (cases "chead (skip_slashes cur) = NUL")
    case True
    then show ?thesis by (simp add: resolve_loop_unfold path_comps_stop)
  next
    case False
    let ?w = "takeWhile in_component (skip_slashes cur)"
    let ?r = "dropWhile in_component (skip_slashes cur)"
    have IH: "wf_path a \<Longrightarrow> resolve_loop n (render a) ?r = map_option render (abs_resolve_loop n a (path_comps ?r))" for a
      by (rule "1.IH" [OF refl False])
    have w: "NUL \<notin> set ?w" "?w \<noteq> []" "SLASH \<notin> set ?w"
      using False by (auto simp: in_component_head takeWhile_in_component)
    have wf: "wf_path (acc @ [?w])" if "length ?w < ROOT_NAME_MAX" "?w \<noteq> ''.''" "?w \<noteq> ''..''"
      using that w "1.prems" by (simp add: wf_comp_def)
    show ?thesis
      using w(1) False "1.prems" IH [OF wf] IH [OF "1.prems"] IH [OF wf_path_butlast [OF "1.prems"]]
      by (subst resolve_loop_unfold)
        (simp add: Let_def path_comps_step path_pop_render path_append_render)
  qed
qed

lemma abs_resolve_loop_wf:
  assumes "abs_resolve_loop n acc cs = Some out" "wf_path acc" "length (render acc) < n"
    "\<forall>c\<in>set cs. c \<noteq> [] \<and> SLASH \<notin> set c \<and> NUL \<notin> set c"
  shows "wf_path out \<and> length (render out) < n"
  using assms
proof (induction n acc cs rule: abs_resolve_loop.induct)
  case (1 n acc)
  then show ?case by simp
next
  case (2 n acc c cs)
  have "length (render (butlast acc)) \<le> length (render acc)"
    by (cases acc rule: rev_cases) (auto simp: render_snoc)
  with 2 show ?case by (auto split: if_splits simp: wf_path_butlast wf_comp_def)
qed

lemma path_comps_shape: "c \<in> set (path_comps s) \<Longrightarrow> c \<noteq> [] \<and> SLASH \<notin> set c \<and> NUL \<notin> set c"
proof (induction s rule: path_comps.induct)
  case (1 s)
  show ?case
  proof (cases "chead (skip_slashes s) = NUL")
    case True
    with 1 show ?thesis by (simp add: path_comps_stop)
  next
    case False
    from "1.IH" [OF refl False] "1.prems" show ?thesis
      using in_component_head [OF False] takeWhile_in_component [of "skip_slashes s"]
      unfolding path_comps_step [OF False] by auto
  qed
qed

lemma home_render: "render [''home'', ''user''] = ROOTOS_DEFAULT_HOME"
  by (simp add: render_def ROOTOS_DEFAULT_HOME_def)

lemma home_wf [simp]: "wf_path [''home'', ''user'']"
  by (simp add: wf_comp_def rootos_consts)

lemma root_path_resolve_abs:
  assumes "wf_path cwd" and "chead input \<noteq> NUL"
  shows "root_path_resolve (render cwd) (Some input) n = map_option render (abs_resolve cwd input n)"
proof -
  have root: "resolve_loop n ''/'' s = map_option render (abs_resolve_loop n [] (path_comps s))" for s
    using resolve_loop_abs [of "[]" n s] by simp
  have home: "resolve_loop n ROOTOS_DEFAULT_HOME s
      = map_option render (abs_resolve_loop n [''home'', ''user''] (path_comps s))" for s
    using resolve_loop_abs [OF home_wf, of n s] by (simp only: home_render)
  have cp: "root_strlcpy [] (render cwd) n = (take (n - 1) (render cwd), length (render cwd))"
    "root_strlcpy [] ROOTOS_DEFAULT_HOME n = (take (n - 1) ROOTOS_DEFAULT_HOME, length ROOTOS_DEFAULT_HOME)"
    if "0 < n"
    using that assms(1) cstr_render [OF home_wf]
    by (simp_all add: root_strlcpy_spec cstr_render home_render)
  show ?thesis
    using assms root home resolve_loop_abs [OF assms(1), of n input] cp
    unfolding root_path_resolve_def abs_resolve_def path_set_root_def Let_def
    by (auto split: if_splits)
qed

text \<open>
  C40: \<open>root_path_resolve\<close>, called with a normalised current directory and a non-empty input, computes
  exactly the specification on component lists and fails exactly when it fails: absolute inputs start
  at the root, \<open>~\<close> and \<open>~/...\<close> at the home directory, all others at the current directory; empty
  components and \<open>.\<close> are ignored, \<open>..\<close> removes the last component and is absorbed at the root, and
  a component of 128 or more characters or a path that no longer fits the buffer is an error.
\<close>

theorem root_path_resolve_refines:
  assumes "wf_path cwd" and "chead input \<noteq> NUL"
  shows "root_path_resolve (render cwd) (Some input) n = map_option render (abs_resolve cwd input n)"
  using assms by (rule root_path_resolve_abs)

theorem root_path_resolve_refines_witness:
  "wf_path [''home'', ''user''] \<and> chead ''../x//./y'' \<noteq> NUL
   \<and> root_path_resolve (render [''home'', ''user'']) (Some ''../x//./y'') 512
       = map_option render (abs_resolve [''home'', ''user''] ''../x//./y'' 512)"
proof -
  have h: "chead ''../x//./y'' \<noteq> NUL" by simp
  from root_path_resolve_refines [OF home_wf h, of 512] h home_wf show ?thesis by blast
qed

lemma abs_resolve_wf:
  assumes "abs_resolve cwd input n = Some out" "wf_path cwd"
  shows "wf_path out \<and> length (render out) < n"
proof -
  have shape: "\<forall>c\<in>set (path_comps s). c \<noteq> [] \<and> SLASH \<notin> set c \<and> NUL \<notin> set c" for s
    using path_comps_shape by blast
  note loop = abs_resolve_loop_wf [OF _ _ _ shape]
  show ?thesis
    using assms loop [of n "[]" input out] abs_resolve_loop_wf [OF _ home_wf _ shape, of n "tl input" out]
      loop [of n cwd input out]
    unfolding abs_resolve_def home_render [symmetric] by (auto split: if_splits)
qed

lemma root_path_resolve_empty:
  assumes "wf_path cwd" "case input of None \<Rightarrow> True | Some s \<Rightarrow> chead s = NUL"
  shows "root_path_resolve (render cwd) input n
     = (if n < 2 \<or> n \<le> length (render cwd) then None else Some (render cwd))"
  using assms by (auto simp: root_path_resolve_def root_strlcpy_spec cstr_render split: option.splits)

lemma root_path_resolve_cases:
  assumes "wf_path cwd" "root_path_resolve (render cwd) input n = Some out"
  obtains cs where "wf_path cs" "out = render cs" "length (render cs) < n"
proof (cases "case input of None \<Rightarrow> True | Some s \<Rightarrow> chead s = NUL")
  case True
  with assms that [of cwd] show ?thesis
    by (auto simp: root_path_resolve_empty split: if_splits)
next
  case False
  then obtain s where s: "input = Some s" "chead s \<noteq> NUL" by (auto split: option.splits)
  with assms obtain cs where "abs_resolve cwd s n = Some cs" "out = render cs"
    using root_path_resolve_abs [OF assms(1) s(2)] by (auto simp: s)
  then show ?thesis using that abs_resolve_wf [OF _ assms(1)] by blast
qed

text \<open>
  Whatever the input, an absolute, relative, home or missing one, a path that
  \<open>root_path_resolve\<close> returns for a normalised current directory is again normalised: it is the
  rendering of non-empty components without slashes, NUL, \<open>.\<close> or \<open>..\<close>, each shorter than
  \<open>ROOT_NAME_MAX\<close>, and together with its terminator it fits the output buffer.
\<close>

theorem root_path_resolve_normalised:
  assumes "wf_path cwd" and "root_path_resolve (render cwd) input n = Some out"
  shows "\<exists>cs. wf_path cs \<and> out = render cs \<and> length out + 1 \<le> n"
  using assms by (metis Suc_eq_plus1 Suc_leI root_path_resolve_cases)

theorem root_path_resolve_normalised_witness:
  "root_path_resolve (render [''home'', ''user'']) None 512 = Some (render [''home'', ''user''])
   \<and> (\<exists>cs. wf_path cs \<and> render [''home'', ''user''] = render cs \<and> length (render [''home'', ''user'']) + 1 \<le> 512)"
proof -
  have r: "root_path_resolve (render [''home'', ''user'']) None 512 = Some (render [''home'', ''user''])"
    by (subst root_path_resolve_empty [OF home_wf]) (simp_all add: render_Cons)
  from root_path_resolve_normalised [OF home_wf r] r show ?thesis by blast
qed

section \<open>Reading back what was rendered\<close>

lemma takeWhile_comp:
  assumes "wf_comp c" "\<not> in_component (chead s)"
  shows "takeWhile in_component (c @ s) = c" "dropWhile in_component (c @ s) = s"
proof -
  have c: "\<forall>x\<in>set c. in_component x" using assms(1) by (auto simp: wf_comp_def)
  have s: "takeWhile in_component s = []" "dropWhile in_component s = s"
    using assms(2) by (cases s; auto)+
  show "takeWhile in_component (c @ s) = c" "dropWhile in_component (c @ s) = s"
    using c s by (simp_all add: takeWhile_append2 dropWhile_append2)
qed

lemma path_comps_render: "wf_path cs \<Longrightarrow> path_comps (render cs) = cs"
proof (induction cs)
  case Nil
  then show ?case by (simp add: path_comps_stop)
next
  case (Cons c cs)
  let ?s = "if cs = [] then [] else render cs"
  from Cons.prems have c: "wf_comp c" by simp
  then have ne: "c \<noteq> []" "hd c \<noteq> SLASH" "hd c \<noteq> NUL"
    by (cases c; auto simp: wf_comp_def)+
  then have sk: "skip_slashes (render (c # cs)) = c @ ?s" "chead (c @ ?s) \<noteq> NUL"
    by (cases c; auto simp: render_Cons)+
  have s: "\<not> in_component (chead ?s)" by simp
  have "path_comps (render (c # cs)) = c # path_comps ?s"
    using sk takeWhile_comp [OF c s] by (subst path_comps_step) auto
  with Cons show ?case by (auto simp: path_comps_stop)
qed

lemma abs_resolve_loop_id:
  "wf_path (acc @ cs) \<Longrightarrow> length (render (acc @ cs)) < n \<Longrightarrow> abs_resolve_loop n acc cs = Some (acc @ cs)"
proof (induction cs arbitrary: acc)
  case Nil
  then show ?case by simp
next
  case (Cons c cs)
  have "length (render (acc @ [c])) \<le> length (render ((acc @ [c]) @ cs))"
    using length_render_pos by (simp only: render_append [of "acc @ [c]" cs]) auto
  with Cons.prems have "length (render (acc @ [c])) < n" by simp
  with Cons show ?case by (auto simp: wf_comp_def)
qed

text \<open>
  Resolving is idempotent: a normalised absolute path that fits the buffer resolves to itself
  from every current directory.
\<close>

theorem root_path_resolve_idempotent:
  assumes "wf_path cwd" and "wf_path cs" and "length (render cs) < n" and "2 \<le> n"
  shows "root_path_resolve (render cwd) (Some (render cs)) n = Some (render cs)"
  using assms abs_resolve_loop_id [of "[]" cs n]
  by (simp add: root_path_resolve_abs abs_resolve_def path_comps_render)

theorem root_path_resolve_idempotent_witness:
  "root_path_resolve (render []) (Some (render [''home'', ''user''])) 512 = Some (render [''home'', ''user''])"
  by (rule root_path_resolve_idempotent) (simp_all add: wf_comp_def rootos_consts render_Cons)

section \<open>Base names and children\<close>

lemma basename_loop_comp: "NUL \<notin> set c \<Longrightarrow> SLASH \<notin> set c \<Longrightarrow> basename_loop r c = r"
  by (induction c arbitrary: r) auto

lemma basename_loop_last:
  assumes "NUL \<notin> set x" "wf_comp c"
  shows "basename_loop r (x @ SLASH # c) = c"
  using assms(1)
proof (induction x arbitrary: r)
  case Nil
  from assms(2) have "chead c \<noteq> NUL" by (cases c) (auto simp: wf_comp_def)
  with assms(2) show ?case by (simp add: basename_loop_comp wf_comp_def)
next
  case (Cons a x)
  then show ?case by auto
qed

lemma root_path_basename_render [rep_simps]:
  assumes "wf_path (cs @ [c])"
  shows "root_path_basename (Some (render (cs @ [c]))) = c"
proof -
  have "NUL \<notin> set (if cs = [] then [] else render cs)" using assms by (simp add: NUL_render)
  then have "basename_loop (render (cs @ [c])) (render (cs @ [c])) = c"
    using assms by (simp add: basename_loop_last render_snoc)
  then show ?thesis by (simp add: root_path_basename_def)
qed

lemma no_slash_loop_iff: "no_slash_loop s \<longleftrightarrow> SLASH \<notin> set (cstr s)"
  by (induction s) auto

text \<open>The text behind the root: cutting it at a separator cuts the component list.\<close>

definition rtail :: "path \<Rightarrow> string" where
  "rtail cs = concat (map ((#) SLASH) cs)"

lemma rtail_simps [simp]: "rtail [] = []" "rtail (c # cs) = SLASH # c @ rtail cs"
  "rtail (as @ bs) = rtail as @ rtail bs"
  by (simp_all add: rtail_def)

lemma render_rtail: "cs \<noteq> [] \<Longrightarrow> render cs = rtail cs"
  by (simp add: render_def rtail_def)

lemma chead_rtail: "\<not> in_component (chead (rtail cs @ z)) \<longleftrightarrow> cs \<noteq> [] \<or> \<not> in_component (chead z)"
  by (cases cs) auto

lemma rtail_cut:
  "wf_path ps \<Longrightarrow> wf_path cs \<Longrightarrow> rtail cs = rtail ps @ z \<Longrightarrow> \<not> in_component (chead z) \<Longrightarrow>
     prefix ps cs \<and> z = rtail (drop (length ps) cs)"
proof (induction ps arbitrary: cs)
  case Nil
  then show ?case by simp
next
  case (Cons p ps)
  from Cons.prems obtain c cs' where cs: "cs = c # cs'" by (cases cs) auto
  with Cons.prems have eq: "c @ rtail cs' = p @ rtail ps @ z" by simp
  have wf: "wf_comp c" "wf_comp p" using Cons.prems cs by auto
  have "\<not> in_component (chead (rtail cs'))" "\<not> in_component (chead (rtail ps @ z))"
    using Cons.prems(4) chead_rtail [of cs' "[]"] chead_rtail [of ps z] by auto
  then have "c = p"
    using arg_cong [OF eq, of "takeWhile in_component"] takeWhile_comp(1) [OF wf(1)] takeWhile_comp(1) [OF wf(2)]
    by simp
  with eq Cons.IH [of cs'] Cons.prems cs show ?case by simp
qed

lemma render_cut:
  assumes "wf_path ps" "ps \<noteq> []" "wf_path cs"
  shows "take (length (render ps)) (render cs) = render ps
      \<and> \<not> in_component (chead (drop (length (render ps)) (render cs)))
    \<longleftrightarrow> prefix ps cs" (is "?l \<longleftrightarrow> _")
proof
  assume l: ?l
  define z where "z = drop (length (render ps)) (render cs)"
  have z: "render cs = render ps @ z" using l unfolding z_def by (metis append_take_drop_id)
  have "cs \<noteq> []"
  proof
    assume "cs = []"
    with z have "length (render ps) \<le> 1" by (metis One_nat_def render_Nil length_append le_add1 list.size(3,4) add_0)
    with length_render_1 [OF assms(1)] length_render_pos [of ps] assms(2) show False by linarith
  qed
  with z assms have "rtail cs = rtail ps @ z" by (simp add: render_rtail)
  with rtail_cut [OF assms(1,3) this] l show "prefix ps cs" by (simp add: z_def)
next
  assume "prefix ps cs"
  then obtain zs where "cs = ps @ zs" by (auto simp: prefix_def)
  then have "render cs = render ps @ rtail zs" using assms(2) by (simp add: render_rtail)
  then show ?l using chead_rtail [of zs "[]"] by simp
qed

lemma drop_render: "wf_path ps \<Longrightarrow> ps \<noteq> [] \<Longrightarrow> drop (length (render ps)) (render (ps @ zs)) = rtail zs"
  by (simp add: render_rtail)

lemma one_component: "wf_path zs \<Longrightarrow> zs \<noteq> [] \<Longrightarrow> SLASH \<notin> set (tl (rtail zs)) \<longleftrightarrow> (\<exists>c. zs = [c])"
  by (cases zs rule: list.exhaust; cases "tl zs") (auto simp: wf_comp_def)

lemma NUL_rtail: "wf_path cs \<Longrightarrow> NUL \<notin> set (rtail cs)"
  by (auto simp: rtail_def wf_path_def wf_comp_def)

lemma direct_child_remainder:
  assumes "wf_path zs"
  shows "chead (tl (rtail zs)) \<noteq> NUL \<and> no_slash_loop (tl (rtail zs)) \<longleftrightarrow> (\<exists>c. zs = [c])"
proof (cases zs)
  case Nil
  then show ?thesis by simp
next
  case (Cons z zs')
  then have "NUL \<notin> set (tl (rtail zs))" using NUL_rtail [OF assms] by simp
  then have "cstr (tl (rtail zs)) = tl (rtail zs)" by (rule cstr_id)
  moreover have "chead (tl (rtail zs)) \<noteq> NUL" using Cons assms by (cases z) (auto simp: wf_comp_def)
  ultimately show ?thesis using one_component [OF assms] Cons by (simp add: no_slash_loop_iff)
qed

lemma direct_child_root:
  assumes "wf_path cs"
  shows "root_path_is_direct_child ''/'' (render cs) \<longleftrightarrow> (\<exists>c. cs = [c])"
proof (cases "cs = []")
  case True
  then show ?thesis by (simp add: root_path_is_direct_child_def)
next
  case False
  have "chead (rtail cs) = SLASH" using False by (cases cs) auto
  with direct_child_remainder [OF assms] show ?thesis
    by (auto simp: root_path_is_direct_child_def render_rtail [OF False] Let_def)
qed

lemma direct_child_below:
  assumes "wf_path ps" "wf_path cs" "ps \<noteq> []"
  shows "root_path_is_direct_child (render ps) (render cs) \<longleftrightarrow> (\<exists>c. cs = ps @ [c])"
proof -
  have root: "chead (tl (render ps)) \<noteq> NUL"
    using assms(1,3) by (cases ps) (auto simp: render_Cons wf_comp_def chead_def split: list.splits)
  let ?n = "length (render ps)"
  have cmp: "root_strncmp (render cs) (render ps) ?n = 0 \<longleftrightarrow> take ?n (render cs) = render ps"
    using assms by (simp add: root_strncmp_eq_0 cstr_render)
  have tl_drop: "drop (?n + 1) (render cs) = tl (drop ?n (render cs))"
    by (simp add: drop_Suc tl_drop)
  have val: "root_path_is_direct_child (render ps) (render cs) \<longleftrightarrow>
      take ?n (render cs) = render ps \<and> chead (drop ?n (render cs)) = SLASH
      \<and> chead (tl (drop ?n (render cs))) \<noteq> NUL \<and> no_slash_loop (tl (drop ?n (render cs)))"
    using root assms(1) unfolding root_path_is_direct_child_def Let_def strlen_render [OF assms(1)] cmp tl_drop
    by simp
  show ?thesis
  proof (cases "prefix ps cs")
    case True
    then obtain zs where zs: "cs = ps @ zs" by (auto simp: prefix_def)
    have d: "drop ?n (render cs) = rtail zs" unfolding zs using assms by (intro drop_render)
    have t: "take ?n (render cs) = render ps" using True render_cut [OF assms(1,3,2)] by blast
    have "wf_path zs" using assms zs by simp
    moreover have "chead (rtail zs) = SLASH \<longleftrightarrow> zs \<noteq> []" by (cases zs) auto
    ultimately show ?thesis
      using direct_child_remainder [of zs] unfolding val d t by (auto simp: zs)
  next
    case False
    with render_cut [OF assms(1,3,2)] have
      "take ?n (render cs) \<noteq> render ps \<or> chead (drop ?n (render cs)) \<noteq> SLASH" by auto
    with False show ?thesis unfolding val by auto
  qed
qed

lemma root_path_is_direct_child_render [rep_simps]:
  "wf_path ps \<Longrightarrow> wf_path cs \<Longrightarrow>
     root_path_is_direct_child (render ps) (render cs) \<longleftrightarrow> (\<exists>c. cs = ps @ [c])"
  by (cases "ps = []") (simp_all add: direct_child_root direct_child_below)

text \<open>
  On normalised paths \<open>root_path_is_direct_child\<close> holds exactly when the child's path is the
  parent's followed by one component, so neither the directory itself nor a deeper descendant nor a
  sibling whose name starts with the parent's name is listed; and \<open>root_path_basename\<close> of such a
  child is that component.
\<close>

theorem root_path_children:
  assumes "wf_path ps" and "wf_path cs"
  shows "(root_path_is_direct_child (render ps) (render cs)
           \<longleftrightarrow> cs = ps @ [root_path_basename (Some (render cs))])"
  using assms by (auto simp: root_path_is_direct_child_render root_path_basename_render)

theorem root_path_children_witness:
  "root_path_is_direct_child (render [''home'']) (render [''home'', ''user''])
     \<longleftrightarrow> [''home'', ''user''] = [''home''] @ [root_path_basename (Some (render [''home'', ''user'']))]"
  by (rule root_path_children) (simp_all add: wf_comp_def rootos_consts)

end
