(* ===== verification/Root_Storage.thy ===== *)
theory Root_Storage
  imports Root_Prelude
begin

text \<open>
  \<open>source/storage/rootstorage.c\<close>: finding the RootOS volume on the disk and the guarded sector
  transfers. The drive itself is hardware behind \<open>ata_pio.c\<close>: the three entry points of that driver
  are the fields of \<open>ata_driver\<close>, functions on an arbitrary drive state \<open>'d\<close> that may fail at any
  call. What is relied on is \<open>drive_laws\<close>: with \<open>content d l\<close> the bytes of sector \<open>l\<close>, a read that
  succeeds delivers them and no read changes them, a write touches at most the addressed sector, and
  one that succeeds stores the buffer there. A failed write may have done anything to its own sector.
\<close>

section \<open>The drive\<close>

type_synonym sector = "u8 list"

record 'd ata_driver =
  ata_init :: "'d \<Rightarrow> nat option \<times> 'd"
  ata_read :: "'d \<Rightarrow> nat \<Rightarrow> sector option \<times> 'd"
  ata_write :: "'d \<Rightarrow> nat \<Rightarrow> sector \<Rightarrow> bool \<times> 'd"

definition drive_laws :: "'d ata_driver \<Rightarrow> ('d \<Rightarrow> nat \<Rightarrow> sector) \<Rightarrow> bool" where
  "drive_laws A content \<longleftrightarrow>
     (\<forall>d l. length (content d l) = 512)
   \<and> (\<forall>d. content (snd (ata_init A d)) = content d)
   \<and> (\<forall>d l. content (snd (ata_read A d l)) = content d
        \<and> (\<forall>b. fst (ata_read A d l) = Some b \<longrightarrow> b = content d l))
   \<and> (\<forall>d l b. length b = 512 \<longrightarrow> (\<forall>k. k \<noteq> l \<longrightarrow> content (snd (ata_write A d l b)) k = content d k)
        \<and> (fst (ata_write A d l b) \<longrightarrow> content (snd (ata_write A d l b)) l = b))"

text \<open>A drive that never fails on the sectors it has.\<close>

definition drive_reliable :: "'d ata_driver \<Rightarrow> nat \<Rightarrow> bool" where
  "drive_reliable A n \<longleftrightarrow> (\<forall>d l. l < n \<longrightarrow> fst (ata_read A d l) \<noteq> None)
     \<and> (\<forall>d l b. l < n \<longrightarrow> fst (ata_write A d l b))"

section \<open>Little-endian fields\<close>

unbundle bit_operations_syntax

definition read_u16 :: "u8 list \<Rightarrow> u16" where
  "read_u16 s = (ucast (s ! 0) :: u16) OR push_bit 8 (ucast (s ! 1))"

definition write_u16 :: "u16 \<Rightarrow> u8 list" where
  "write_u16 v = [ucast (v AND 0xFF), ucast (drop_bit 8 v)]"

definition read_u32 :: "u8 list \<Rightarrow> u32" where
  "read_u32 s = (ucast (s ! 0) :: u32) OR push_bit 8 (ucast (s ! 1))
     OR push_bit 16 (ucast (s ! 2)) OR push_bit 24 (ucast (s ! 3))"

definition write_u32 :: "u32 \<Rightarrow> u8 list" where
  "write_u32 v = [ucast (v AND 0xFF), ucast (drop_bit 8 v AND 0xFF),
     ucast (drop_bit 16 v AND 0xFF), ucast (drop_bit 24 v AND 0xFF)]"

text \<open>Overwriting part of a buffer from an offset on.\<close>

definition put_bytes :: "u8 list \<Rightarrow> nat \<Rightarrow> u8 list \<Rightarrow> u8 list" where
  "put_bytes buf off bs = take off buf @ bs @ drop (off + length bs) buf"

section \<open>The volume header\<close>

definition ROOT_STORAGE_SECTOR_SIZE :: nat where [rootos_consts]: "ROOT_STORAGE_SECTOR_SIZE = 512"
definition ROOT_STORAGE_HEADER_LBA :: nat where [rootos_consts]: "ROOT_STORAGE_HEADER_LBA = 2048"
definition ROOT_STORAGE_FORMAT_VERSION :: nat where [rootos_consts]: "ROOT_STORAGE_FORMAT_VERSION = 2"
definition ROOT_STORAGE_NODE_COUNT :: nat where [rootos_consts]: "ROOT_STORAGE_NODE_COUNT = 256"
definition ROOT_STORAGE_NODE_SLOT_SECTORS :: nat where [rootos_consts]: "ROOT_STORAGE_NODE_SLOT_SECTORS = 130"

definition root_storage_magic :: "u8 list" where
  "root_storage_magic = map of_char ''ROOTFS42''"

record RootStorageHeader =
  magic :: "u8 list"
  version :: nat
  sector_size :: nat
  node_count :: nat
  node_slot_sectors :: nat
  node_area_lba :: nat
  volume_sectors :: nat
  hdr_flags :: nat

text \<open>The packed structure laid over a sector.\<close>

definition header_of :: "sector \<Rightarrow> RootStorageHeader" where
  "header_of s = \<lparr>magic = take 8 s, version = unat (read_u32 (drop 8 s)), sector_size = unat (read_u32 (drop 12 s)),
     node_count = unat (read_u32 (drop 16 s)), node_slot_sectors = unat (read_u32 (drop 20 s)),
     node_area_lba = unat (read_u32 (drop 24 s)), volume_sectors = unat (read_u32 (drop 28 s)),
     hdr_flags = unat (read_u32 (drop 32 s))\<rparr>"

definition zero_header :: RootStorageHeader where
  "zero_header = header_of (replicate 512 0)"

record 'd storage =
  driver :: "'d ata_driver"
  drive :: 'd
  sector_count :: nat
  storage_device_ready :: bool
  storage_volume_ready :: bool
  storage_header :: RootStorageHeader

definition rootstorage_magic_valid :: "RootStorageHeader \<Rightarrow> bool" where
  "rootstorage_magic_valid h = (\<forall>i\<in>{0..<8}. magic h ! i = root_storage_magic ! i)"

definition rootstorage_header_valid :: "'d storage \<Rightarrow> RootStorageHeader \<Rightarrow> bool" where
  "rootstorage_header_valid st h =
     (if \<not> rootstorage_magic_valid h then False
      else if version h \<noteq> ROOT_STORAGE_FORMAT_VERSION \<or> sector_size h \<noteq> ROOT_STORAGE_SECTOR_SIZE
        \<or> node_count h \<noteq> ROOT_STORAGE_NODE_COUNT \<or> node_slot_sectors h \<noteq> ROOT_STORAGE_NODE_SLOT_SECTORS then False
      else if node_area_lba h \<le> ROOT_STORAGE_HEADER_LBA \<or> node_area_lba h \<ge> sector_count st then False
      else
        let required_sectors = u32_mul ROOT_STORAGE_NODE_COUNT ROOT_STORAGE_NODE_SLOT_SECTORS in
        if required_sectors > u32_sub (sector_count st) (node_area_lba h) then False
        else if volume_sectors h = 0
          \<or> volume_sectors h > u32_sub (sector_count st) ROOT_STORAGE_HEADER_LBA then False
        else True)"

definition rootstorage_init :: "'d storage \<Rightarrow> bool \<times> 'd storage" where
  "rootstorage_init st =
     (let st = st\<lparr>storage_device_ready := False, storage_volume_ready := False,
                  sector_count := 0, storage_header := zero_header\<rparr>;
          (r, d) = ata_init (driver st) (drive st);
          st = st\<lparr>drive := d\<rparr>
      in case r of
           None \<Rightarrow> (False, st)
         | Some n \<Rightarrow>
             (let st = st\<lparr>sector_count := n, storage_device_ready := True\<rparr> in
              if ROOT_STORAGE_HEADER_LBA \<ge> sector_count st then (True, st)
              else
                let (b, d) = ata_read (driver st) (drive st) ROOT_STORAGE_HEADER_LBA;
                    st = st\<lparr>drive := d\<rparr>
                in case b of
                     None \<Rightarrow> (True, st)
                   | Some s \<Rightarrow>
                       (let st = st\<lparr>storage_header := header_of s\<rparr>
                        in (True, st\<lparr>storage_volume_ready := rootstorage_header_valid st (storage_header st)\<rparr>))))"

definition rootstorage_device_available :: "'d storage \<Rightarrow> bool" where
  "rootstorage_device_available st = storage_device_ready st"

definition rootstorage_volume_available :: "'d storage \<Rightarrow> bool" where
  "rootstorage_volume_available st = storage_volume_ready st"

definition rootstorage_device_sector_count :: "'d storage \<Rightarrow> nat" where
  "rootstorage_device_sector_count st = (if storage_device_ready st then sector_count st else 0)"

definition rootstorage_volume_sector_count :: "'d storage \<Rightarrow> nat" where
  "rootstorage_volume_sector_count st = (if storage_volume_ready st then volume_sectors (storage_header st) else 0)"

definition rootstorage_node_count :: "'d storage \<Rightarrow> nat" where
  "rootstorage_node_count st = (if storage_volume_ready st then node_count (storage_header st) else 0)"

definition rootstorage_node_slot_sectors :: "'d storage \<Rightarrow> nat" where
  "rootstorage_node_slot_sectors st = (if storage_volume_ready st then node_slot_sectors (storage_header st) else 0)"

definition rootstorage_node_area_lba :: "'d storage \<Rightarrow> nat" where
  "rootstorage_node_area_lba st = (if storage_volume_ready st then node_area_lba (storage_header st) else 0)"

definition rootstorage_read_sector :: "'d storage \<Rightarrow> nat \<Rightarrow> sector option \<times> 'd storage" where
  "rootstorage_read_sector st lba =
     (if \<not> storage_device_ready st \<or> lba \<ge> sector_count st then (None, st)
      else let (b, d) = ata_read (driver st) (drive st) lba in (b, st\<lparr>drive := d\<rparr>))"

definition rootstorage_write_sector :: "'d storage \<Rightarrow> nat \<Rightarrow> sector \<Rightarrow> bool \<times> 'd storage" where
  "rootstorage_write_sector st lba buffer =
     (if \<not> storage_device_ready st \<or> \<not> storage_volume_ready st then (False, st)
      else if lba \<le> ROOT_STORAGE_HEADER_LBA \<or> lba \<ge> sector_count st then (False, st)
      else let (ok, d) = ata_write (driver st) (drive st) lba buffer in (ok, st\<lparr>drive := d\<rparr>))"

section \<open>Fields\<close>

lemma ff8: "(0xFF :: u32) = mask 8" "(0xFF :: u16) = mask 8"
  by (simp_all add: mask_eq_exp_minus_1)

lemma read_write_u16 [simp]: "read_u16 (write_u16 v @ xs) = v"
proof (rule bit_word_eqI)
  fix n
  assume "n < LENGTH(16)"
  then consider "n < 8" | k where "n = 8 + k" "k < 8" using that(2) [of "n - 8"] by fastforce
  then show "bit (read_u16 (write_u16 v @ xs)) n = bit v n"
    by cases (simp_all add: read_u16_def write_u16_def ff8(2) bit_simps)
qed

lemma read_write_u32 [simp]: "read_u32 (write_u32 v @ xs) = v"
proof (rule bit_word_eqI)
  fix n
  assume "n < LENGTH(32)"
  then consider "n < 8" | k where "n = 8 + k" "k < 8" | k where "n = 16 + k" "k < 8" | k where "n = 24 + k" "k < 8"
    using that(2) [of "n - 8"] that(3) [of "n - 16"] that(4) [of "n - 24"] by fastforce
  then show "bit (read_u32 (write_u32 v @ xs)) n = bit v n"
    by cases (simp_all add: read_u32_def write_u32_def ff8(1) bit_simps)
qed

lemma write_length [simp]: "length (write_u16 v) = 2" "length (write_u32 w) = 4"
  by (simp_all add: write_u16_def write_u32_def)

lemma put_bytes_length [simp]: "off + length bs \<le> length buf \<Longrightarrow> length (put_bytes buf off bs) = length buf"
  by (simp add: put_bytes_def)

lemma put_bytes_nth:
  "off + length bs \<le> length buf \<Longrightarrow> i < length buf \<Longrightarrow>
     put_bytes buf off bs ! i = (if i < off then buf ! i else if i < off + length bs then bs ! (i - off) else buf ! i)"
  by (auto simp: put_bytes_def nth_append min_def)

lemma put_bytes_drop: "off + length bs \<le> length buf \<Longrightarrow> drop off (put_bytes buf off bs) = bs @ drop (off + length bs) buf"
  by (simp add: put_bytes_def)

lemma put_bytes_drop_other: "off + length bs \<le> length buf \<Longrightarrow> off + length bs \<le> k \<Longrightarrow> drop k (put_bytes buf off bs) = drop k buf"
  by (simp add: put_bytes_def)

lemma put_bytes_drop_before:
  "off + length bs \<le> length buf \<Longrightarrow> k \<le> off \<Longrightarrow> drop k (put_bytes buf off bs) = put_bytes (drop k buf) (off - k) bs"
  by (simp add: put_bytes_def drop_take)

end
