(* ===== verification/Root_Disk.thy ===== *)
theory Root_Disk
  imports Root_Storage Root_String
begin

text \<open>
  \<open>source/fs/rootfs_disk.c\<close>: the 256 fixed slots of the RootFS volume. A slot is two metadata sectors
  with the node record and 128 data sectors. \<open>decode_node\<close> and \<open>encode_node\<close> are the parts of
  \<open>rootfs_disk_read_node\<close> and \<open>rootfs_disk_write_node\<close> that work on the metadata buffer. An operation
  returns its C result (\<open>None\<close> or \<open>False\<close> for failure) and the new storage state; the sector buffers of
  the C file are scratch memory that is always filled before it is used.
\<close>

section \<open>The code\<close>

definition ROOTFS_DISK_MAX_NODES :: nat where [rootos_consts]: "ROOTFS_DISK_MAX_NODES = 256"
definition ROOTFS_DISK_PATH_MAX :: nat where [rootos_consts]: "ROOTFS_DISK_PATH_MAX = 512"
definition ROOTFS_DISK_FILE_MAX :: nat where [rootos_consts]: "ROOTFS_DISK_FILE_MAX = 65536"
definition ROOTFS_NODE_METADATA_SECTORS :: nat where [rootos_consts]: "ROOTFS_NODE_METADATA_SECTORS = 2"
definition ROOTFS_NODE_DATA_SECTORS :: nat where [rootos_consts]: "ROOTFS_NODE_DATA_SECTORS = 128"
definition ROOTFS_NODE_VERSION :: u8 where [rootos_consts]: "ROOTFS_NODE_VERSION = 2"

datatype RootFsDiskType = ROOTFS_DISK_DIRECTORY | ROOTFS_DISK_FILE

record RootFsDiskNode =
  dn_used :: bool
  dn_type :: RootFsDiskType
  dn_size :: nat
  dn_path :: string

definition zero_disk_node :: RootFsDiskNode where
  "zero_disk_node = \<lparr>dn_used = False, dn_type = ROOTFS_DISK_DIRECTORY, dn_size = 0, dn_path = []\<rparr>"

primrec bounded_length :: "nat \<Rightarrow> string \<Rightarrow> nat" where
  "bounded_length 0 s = 0"
| "bounded_length (Suc k) s = (if chead s = NUL then 0 else Suc (bounded_length k (tl s)))"

definition bounded_path_length :: "string \<Rightarrow> nat" where
  "bounded_path_length path = bounded_length (ROOTFS_DISK_PATH_MAX - 1) path"

definition rootfs_node_lba :: "'d storage \<Rightarrow> nat \<Rightarrow> (nat \<times> nat) option" where
  "rootfs_node_lba st index =
     (if \<not> rootstorage_volume_available st \<or> index \<ge> ROOTFS_DISK_MAX_NODES then None
      else
        let slot_sectors = rootstorage_node_slot_sectors st in
        if slot_sectors < ROOTFS_NODE_METADATA_SECTORS + ROOTFS_NODE_DATA_SECTORS then None
        else
          let base = u32_add (rootstorage_node_area_lba st) (u32_mul index slot_sectors)
          in Some (base, u32_add base ROOTFS_NODE_METADATA_SECTORS))"

primrec read_sectors :: "nat \<Rightarrow> 'd storage \<Rightarrow> nat \<Rightarrow> u8 list \<Rightarrow> u8 list option \<times> 'd storage" where
  "read_sectors 0 st lba output = (Some output, st)"
| "read_sectors (Suc k) st lba output =
     (case rootstorage_read_sector st lba of
        (None, st) \<Rightarrow> (None, st)
      | (Some b, st) \<Rightarrow> read_sectors k st (u32_add lba 1) (output @ b))"

definition read_metadata :: "'d storage \<Rightarrow> nat \<Rightarrow> u8 list option \<times> 'd storage" where
  "read_metadata st lba = read_sectors ROOTFS_NODE_METADATA_SECTORS st lba []"

primrec write_sectors :: "nat \<Rightarrow> 'd storage \<Rightarrow> nat \<Rightarrow> u8 list \<Rightarrow> bool \<times> 'd storage" where
  "write_sectors 0 st lba input = (True, st)"
| "write_sectors (Suc k) st lba input =
     (case rootstorage_write_sector st lba (take ROOT_STORAGE_SECTOR_SIZE input) of
        (False, st) \<Rightarrow> (False, st)
      | (True, st) \<Rightarrow> write_sectors k st (u32_add lba 1) (drop ROOT_STORAGE_SECTOR_SIZE input))"

definition write_metadata :: "'d storage \<Rightarrow> nat \<Rightarrow> u8 list \<Rightarrow> bool \<times> 'd storage" where
  "write_metadata st lba input = write_sectors ROOTFS_NODE_METADATA_SECTORS st lba input"

definition rootfs_disk_ready :: "'d storage \<Rightarrow> bool" where
  "rootfs_disk_ready st = (rootstorage_volume_available st
     \<and> rootstorage_node_count st = ROOTFS_DISK_MAX_NODES \<and> rootstorage_node_slot_sectors st \<ge> 130)"

definition decode_node :: "u8 list \<Rightarrow> RootFsDiskNode option" where
  "decode_node metadata_buffer =
     (if take 4 metadata_buffer = [0, 0, 0, 0] then Some zero_disk_node
      else if take 5 metadata_buffer \<noteq> [of_char (CHR ''N''), of_char (CHR ''O''), of_char (CHR ''D''), of_char (CHR ''E''), ROOTFS_NODE_VERSION]
      then None
      else
        let used = metadata_buffer ! 5;
            type = metadata_buffer ! 6;
            siz = unat (read_u32 (drop 8 metadata_buffer));
            path_length = unat (read_u16 (drop 12 metadata_buffer))
        in if used > 1 \<or> type > 1 \<or> siz > ROOTFS_DISK_FILE_MAX \<or> path_length \<ge> ROOTFS_DISK_PATH_MAX then None
           else Some \<lparr>dn_used = (used \<noteq> 0), dn_type = (if type = 0 then ROOTFS_DISK_DIRECTORY else ROOTFS_DISK_FILE),
                  dn_size = siz, dn_path = cstr (map (\<lambda>b. char_of (unat b)) (take path_length (drop 16 metadata_buffer)))\<rparr>)"

definition rootfs_disk_read_node :: "'d storage \<Rightarrow> nat \<Rightarrow> RootFsDiskNode option \<times> 'd storage" where
  "rootfs_disk_read_node st index =
     (case rootfs_node_lba st index of
        None \<Rightarrow> (None, st)
      | Some (metadata_lba, data_lba) \<Rightarrow>
          (case read_metadata st metadata_lba of
             (None, st) \<Rightarrow> (None, st)
           | (Some metadata_buffer, st) \<Rightarrow> (decode_node metadata_buffer, st)))"

definition encode_node :: "RootFsDiskNode \<Rightarrow> nat \<Rightarrow> u8 list" where
  "encode_node node path_length =
     (let b = replicate 1024 0;
          b = put_bytes b 0 [of_char (CHR ''N''), of_char (CHR ''O''), of_char (CHR ''D''), of_char (CHR ''E''),
                ROOTFS_NODE_VERSION, if dn_used node then 1 else 0,
                case dn_type node of ROOTFS_DISK_DIRECTORY \<Rightarrow> 0 | ROOTFS_DISK_FILE \<Rightarrow> 1];
          b = put_bytes b 8 (write_u32 (word_of_nat (dn_size node)));
          b = put_bytes b 12 (write_u16 (word_of_nat path_length))
      in put_bytes b 16 (map of_char (take path_length (dn_path node))))"

definition rootfs_disk_write_node :: "'d storage \<Rightarrow> nat \<Rightarrow> RootFsDiskNode \<Rightarrow> bool \<times> 'd storage" where
  "rootfs_disk_write_node st index node =
     (if dn_size node > ROOTFS_DISK_FILE_MAX then (False, st)
      else
        let path_length = bounded_path_length (dn_path node) in
        if chead (drop path_length (dn_path node)) \<noteq> NUL \<or> path_length \<ge> ROOTFS_DISK_PATH_MAX then (False, st)
        else case rootfs_node_lba st index of
               None \<Rightarrow> (False, st)
             | Some (metadata_lba, data_lba) \<Rightarrow> write_metadata st metadata_lba (encode_node node path_length))"

primrec read_file_loop :: "nat \<Rightarrow> 'd storage \<Rightarrow> nat \<Rightarrow> nat \<Rightarrow> u8 list \<Rightarrow> u8 list option \<times> 'd storage" where
  "read_file_loop 0 st lba remaining destination = (Some destination, st)"
| "read_file_loop (Suc k) st lba remaining destination =
     (if remaining = 0 then (Some destination, st)
      else case rootstorage_read_sector st lba of
             (None, st) \<Rightarrow> (None, st)
           | (Some sector_buffer, st) \<Rightarrow>
               (let amount = (if remaining > ROOT_STORAGE_SECTOR_SIZE then ROOT_STORAGE_SECTOR_SIZE else remaining)
                in read_file_loop k st (u32_add lba 1) (remaining - amount) (destination @ take amount sector_buffer)))"

definition rootfs_disk_read_file :: "'d storage \<Rightarrow> nat \<Rightarrow> nat \<Rightarrow> u8 list option \<times> 'd storage" where
  "rootfs_disk_read_file st index capacity =
     (case rootfs_disk_read_node st index of
        (None, st) \<Rightarrow> (None, st)
      | (Some node, st) \<Rightarrow>
          if \<not> dn_used node \<or> dn_type node \<noteq> ROOTFS_DISK_FILE \<or> dn_size node > capacity then (None, st)
          else case rootfs_node_lba st index of
                 None \<Rightarrow> (None, st)
               | Some (metadata_lba, data_lba) \<Rightarrow>
                   read_file_loop ROOTFS_NODE_DATA_SECTORS st data_lba (dn_size node) [])"

function write_file_loop :: "'d storage \<Rightarrow> nat \<Rightarrow> u8 list \<Rightarrow> bool \<times> 'd storage" where
  "write_file_loop st lba source =
     (if length source = 0 then (True, st)
      else
        let amount = (if length source > ROOT_STORAGE_SECTOR_SIZE then ROOT_STORAGE_SECTOR_SIZE else length source);
            sector_buffer = put_bytes (replicate ROOT_STORAGE_SECTOR_SIZE 0) 0 (take amount source)
        in case rootstorage_write_sector st lba sector_buffer of
             (False, st) \<Rightarrow> (False, st)
           | (True, st) \<Rightarrow> write_file_loop st (u32_add lba 1) (drop amount source))"
  by pat_completeness auto
termination
  by (relation "measure (\<lambda>(st, lba, source). length source)") (auto simp: rootos_consts)

declare write_file_loop.simps [simp del]

definition rootfs_disk_write_file :: "'d storage \<Rightarrow> nat \<Rightarrow> u8 list option \<Rightarrow> nat \<Rightarrow> bool \<times> 'd storage" where
  "rootfs_disk_write_file st index data siz =
     (if siz > ROOTFS_DISK_FILE_MAX \<or> (siz > 0 \<and> data = None) then (False, st)
      else case rootfs_disk_read_node st index of
             (None, st) \<Rightarrow> (False, st)
           | (Some node, st) \<Rightarrow>
               if \<not> dn_used node \<or> dn_type node \<noteq> ROOTFS_DISK_FILE then (False, st)
               else case rootfs_node_lba st index of
                      None \<Rightarrow> (False, st)
                    | Some (metadata_lba, data_lba) \<Rightarrow>
                        (case write_file_loop st data_lba (take siz (case data of None \<Rightarrow> [] | Some bs \<Rightarrow> bs)) of
                           (False, st) \<Rightarrow> (False, st)
                         | (True, st) \<Rightarrow> rootfs_disk_write_node st index (node\<lparr>dn_size := siz\<rparr>)))"

definition rootfs_disk_clear_node :: "'d storage \<Rightarrow> nat \<Rightarrow> bool \<times> 'd storage" where
  "rootfs_disk_clear_node st index =
     (case rootfs_node_lba st index of
        None \<Rightarrow> (False, st)
      | Some (metadata_lba, data_lba) \<Rightarrow> write_metadata st metadata_lba (replicate 1024 0))"

section \<open>A mounted volume\<close>

definition volume_ok :: "'d storage \<Rightarrow> bool" where
  "volume_ok st \<longleftrightarrow> storage_device_ready st \<and> storage_volume_ready st
     \<and> rootstorage_header_valid st (storage_header st) \<and> sector_count st < USIZE_MOD"

definition vol :: "('d \<Rightarrow> nat \<Rightarrow> sector) \<Rightarrow> 'd storage \<Rightarrow> bool" where
  "vol content st \<longleftrightarrow> volume_ok st \<and> drive_laws (driver st) content"

abbreviation reliable :: "'d storage \<Rightarrow> bool" where
  "reliable st \<equiv> drive_reliable (driver st) (sector_count st)"

definition slot :: "'d storage \<Rightarrow> nat \<Rightarrow> nat" where
  "slot st i = node_area_lba (storage_header st) + i * 130"

lemma volume_geometry:
  assumes "volume_ok st"
  shows "2048 < node_area_lba (storage_header st)" "node_area_lba (storage_header st) + 33280 \<le> sector_count st"
    "sector_count st < USIZE_MOD"
  using assms by (auto simp: volume_ok_def rootstorage_header_valid_def Let_def rootos_consts split: if_splits)

lemma slot_bounds:
  assumes "volume_ok st" "i < 256"
  shows "2048 < slot st i" "slot st i + 130 \<le> sector_count st" "slot st i + 130 < USIZE_MOD"
  using volume_geometry [OF assms(1)] assms(2) by (auto simp: slot_def)

lemma node_lba:
  assumes "volume_ok st" "i < 256"
  shows "rootfs_node_lba st i = Some (slot st i, slot st i + 2)"
proof -
  have "node_slot_sectors (storage_header st) = 130" "storage_volume_ready st"
    using assms(1) by (auto simp: volume_ok_def rootstorage_header_valid_def rootos_consts split: if_splits)
  then show ?thesis
    using slot_bounds [OF assms] assms(2) volume_geometry [OF assms(1)]
    by (simp add: rootfs_node_lba_def rootstorage_volume_available_def rootstorage_node_slot_sectors_def
        rootstorage_node_area_lba_def slot_def rootos_consts Let_def)
qed

text \<open>\<open>st'\<close> is \<open>st\<close> after transfers that changed no sector outside \<open>S\<close>.\<close>

definition touches :: "('d \<Rightarrow> nat \<Rightarrow> sector) \<Rightarrow> nat set \<Rightarrow> 'd storage \<Rightarrow> 'd storage \<Rightarrow> bool" where
  "touches c S st st' \<longleftrightarrow> st' = st\<lparr>drive := drive st'\<rparr> \<and> (\<forall>l. l \<notin> S \<longrightarrow> c (drive st') l = c (drive st) l)"

lemma touches_refl [simp]: "touches c S st st"
  by (simp add: touches_def)

lemma touches_trans: "touches c S st st1 \<Longrightarrow> touches c T st1 st2 \<Longrightarrow> S \<union> T \<subseteq> U \<Longrightarrow> touches c U st st2"
proof -
  assume a: "touches c S st st1" "touches c T st1 st2" "S \<union> T \<subseteq> U"
  then have "st2 = st\<lparr>drive := drive st2\<rparr>" unfolding touches_def by (metis storage.update_convs(2) storage.surjective storage.select_convs)
  with a show "touches c U st st2" unfolding touches_def by (metis UnCI subset_iff)
qed

lemma touches_vol:
  assumes "touches c S st st'" "vol c st"
  shows "vol c st'" "slot st' = slot st" "sector_count st' = sector_count st" "driver st' = driver st"
proof -
  from assms(1) obtain d where [simp]: "st' = st\<lparr>drive := d\<rparr>" unfolding touches_def by blast
  have "rootstorage_header_valid st' = rootstorage_header_valid st" by (simp add: rootstorage_header_valid_def fun_eq_iff)
  with assms(2) show "vol c st'" "slot st' = slot st" "sector_count st' = sector_count st" "driver st' = driver st"
    by (simp_all add: vol_def volume_ok_def slot_def fun_eq_iff)
qed

lemma touches_empty: "touches c {} st st' \<Longrightarrow> c (drive st') = c (drive st)"
  by (auto simp: touches_def)

section \<open>Sector loops\<close>

lemma read_sector_spec:
  assumes v: "vol c st" and r: "rootstorage_read_sector st l = (r, st')"
  shows "touches c {} st st'" "r = Some b \<Longrightarrow> b = c (drive st) l"
    "reliable st \<Longrightarrow> l < sector_count st \<Longrightarrow> r \<noteq> None"
proof -
  obtain x d where ad: "ata_read (driver st) (drive st) l = (x, d)" by (cases "ata_read (driver st) (drive st) l")
  have "c d = c (drive st)" "\<And>b. x = Some b \<Longrightarrow> b = c (drive st) l"
    using v ad unfolding vol_def drive_laws_def by (metis fst_conv snd_conv)+
  moreover have "reliable st \<Longrightarrow> l < sector_count st \<Longrightarrow> x \<noteq> None"
    using ad unfolding drive_reliable_def by (metis fst_conv)
  moreover have "storage_device_ready st" using v by (simp add: vol_def volume_ok_def)
  ultimately show "touches c {} st st'" "r = Some b \<Longrightarrow> b = c (drive st) l"
    "reliable st \<Longrightarrow> l < sector_count st \<Longrightarrow> r \<noteq> None"
    using r ad by (auto simp: rootstorage_read_sector_def touches_def split: if_splits)
qed

lemma write_sector_spec:
  assumes v: "vol c st" and r: "rootstorage_write_sector st l b = (ok, st')" and b: "length b = 512"
  shows "touches c ({l} \<inter> {2048<..<sector_count st}) st st'" "ok \<Longrightarrow> c (drive st') l = b"
    "reliable st \<Longrightarrow> 2048 < l \<Longrightarrow> l < sector_count st \<Longrightarrow> ok"
proof -
  obtain x d where ad: "ata_write (driver st) (drive st) l b = (x, d)" by (cases "ata_write (driver st) (drive st) l b")
  have "\<And>k. k \<noteq> l \<Longrightarrow> c d k = c (drive st) k" "x \<Longrightarrow> c d l = b"
    using v ad b unfolding vol_def drive_laws_def by (metis fst_conv snd_conv)+
  moreover have "reliable st \<Longrightarrow> l < sector_count st \<Longrightarrow> x"
    using ad unfolding drive_reliable_def by (metis fst_conv)
  moreover have "storage_device_ready st" "storage_volume_ready st" using v by (simp_all add: vol_def volume_ok_def)
  ultimately show "touches c ({l} \<inter> {2048<..<sector_count st}) st st'" "ok \<Longrightarrow> c (drive st') l = b"
    "reliable st \<Longrightarrow> 2048 < l \<Longrightarrow> l < sector_count st \<Longrightarrow> ok"
    using r ad by (auto simp: rootstorage_write_sector_def touches_def rootos_consts split: if_splits)
qed

definition span :: "(nat \<Rightarrow> sector) \<Rightarrow> nat \<Rightarrow> nat \<Rightarrow> u8 list" where
  "span f lba k = concat (map f [lba..<lba + k])"

lemma span_0 [simp]: "span f lba 0 = []"
  by (simp add: span_def)

lemma span_Suc: "span f lba (Suc k) = f lba @ span f (Suc lba) k"
  by (simp add: span_def upt_rec)

lemma span_cong: "(\<And>l. lba \<le> l \<Longrightarrow> l < lba + k \<Longrightarrow> f l = g l) \<Longrightarrow> span f lba k = span g lba k"
  unfolding span_def by (rule arg_cong [of _ _ concat], rule map_cong) auto

lemma vol_length: "vol c st \<Longrightarrow> length (c d l) = 512"
  by (simp add: vol_def drive_laws_def)

lemma span_length: "vol c st \<Longrightarrow> length (span (c d) lba k) = 512 * k"
  by (induction k arbitrary: lba) (simp_all add: span_Suc vol_length)

lemma vol_count: "vol c st \<Longrightarrow> sector_count st < USIZE_MOD"
  by (simp add: vol_def volume_ok_def)

lemma read_sectors_spec:
  assumes "vol c st" "lba + k \<le> sector_count st" "read_sectors k st lba out = (r, st')"
  shows "touches c {} st st' \<and> (\<forall>x. r = Some x \<longrightarrow> x = out @ span (c (drive st)) lba k) \<and> (reliable st \<longrightarrow> r \<noteq> None)"
  using assms
proof (induction k arbitrary: st lba out)
  case (Suc k)
  obtain b st1 where rd: "rootstorage_read_sector st lba = (b, st1)" by (cases "rootstorage_read_sector st lba")
  note sp = read_sector_spec [OF Suc.prems(1) rd]
  show ?case
  proof (cases b)
    case None
    then show ?thesis using Suc.prems sp rd by auto
  next
    case (Some x)
    note tv = touches_vol [OF sp(1) Suc.prems(1)]
    have "u32_add lba 1 = Suc lba" using Suc.prems(2) vol_count [OF Suc.prems(1)] by simp
    then have "read_sectors k st1 (Suc lba) (out @ x) = (r, st')" using Suc.prems(3) rd Some by simp
    from Suc.IH [OF tv(1) _ this] Suc.prems(2) tv have IH: "touches c {} st1 st'"
      "\<forall>y. r = Some y \<longrightarrow> y = (out @ x) @ span (c (drive st1)) (Suc lba) k" "reliable st1 \<longrightarrow> r \<noteq> None" by auto
    with touches_trans [OF sp(1) IH(1)] touches_empty [OF sp(1)] sp(2) [OF Some] tv show ?thesis
      by (auto simp: span_Suc)
  qed
qed auto

lemma write_sectors_spec:
  assumes "vol c st" "2048 < lba" "lba + k \<le> sector_count st" "length input = 512 * k" "write_sectors k st lba input = (ok, st')"
  shows "touches c {lba..<lba + k} st st' \<and> (ok \<longrightarrow> span (c (drive st')) lba k = input) \<and> (reliable st \<longrightarrow> ok)"
  using assms
proof (induction k arbitrary: st lba input)
  case (Suc k)
  obtain b st1 where rd: "rootstorage_write_sector st lba (take 512 input) = (b, st1)"
    by (cases "rootstorage_write_sector st lba (take 512 input)")
  have len: "length (take 512 input) = 512" using Suc.prems(4) by simp
  note sp = write_sector_spec [OF Suc.prems(1) rd len]
  have t1: "touches c {lba} st st1" using sp(1) unfolding touches_def by blast
  show ?case
  proof (cases b)
    case False
    have "touches c {lba..<lba + Suc k} st st1" using touches_trans [OF t1 touches_refl, of "{}"] by simp
    with False show ?thesis using Suc.prems sp rd by (auto simp: rootos_consts)
  next
    case True
    note tv = touches_vol [OF t1 Suc.prems(1)]
    have "u32_add lba 1 = Suc lba" using Suc.prems(3) vol_count [OF Suc.prems(1)] by simp
    then have "write_sectors k st1 (Suc lba) (drop 512 input) = (ok, st')"
      using Suc.prems(5) rd True by (simp add: rootos_consts)
    from Suc.IH [OF tv(1) _ _ _ this] Suc.prems tv have IH: "touches c {Suc lba..<Suc lba + k} st1 st'"
      "ok \<longrightarrow> span (c (drive st')) (Suc lba) k = drop 512 input" "reliable st1 \<longrightarrow> ok" by auto
    have "touches c {lba..<lba + Suc k} st st'" by (rule touches_trans [OF t1 IH(1)]) auto
    moreover have "c (drive st') lba = take 512 input"
      using IH(1) sp(2) True by (simp add: touches_def)
    ultimately show ?thesis using IH tv by (simp add: span_Suc)
  qed
qed simp

lemma read_file_loop_spec:
  assumes "vol c st" "lba + k \<le> sector_count st" "read_file_loop k st lba rem dst = (r, st')" "rem \<le> 512 * k"
  shows "touches c {} st st' \<and> (\<forall>x. r = Some x \<longrightarrow> x = dst @ take rem (span (c (drive st)) lba k)) \<and> (reliable st \<longrightarrow> r \<noteq> None)"
  using assms
proof (induction k arbitrary: st lba rem dst)
  case (Suc k)
  obtain b st1 where rd: "rootstorage_read_sector st lba = (b, st1)" by (cases "rootstorage_read_sector st lba")
  note sp = read_sector_spec [OF Suc.prems(1) rd]
  define am where "am = (if rem > 512 then 512 else rem)"
  show ?case
  proof (cases "rem = 0 \<or> b = None")
    case True
    then show ?thesis using Suc.prems sp rd by (auto split: if_splits)
  next
    case False
    then obtain x where b: "b = Some x" by auto
    note tv = touches_vol [OF sp(1) Suc.prems(1)]
    have "u32_add lba 1 = Suc lba" using Suc.prems(2) vol_count [OF Suc.prems(1)] by simp
    then have "read_file_loop k st1 (Suc lba) (rem - am) (dst @ take am x) = (r, st')"
      using Suc.prems(3) rd b False by (simp add: am_def rootos_consts Let_def split: if_splits)
    moreover have "rem - am \<le> 512 * k" using Suc.prems(4) unfolding am_def by auto
    ultimately have IH: "touches c {} st1 st'"
      "\<forall>y. r = Some y \<longrightarrow> y = (dst @ take am x) @ take (rem - am) (span (c (drive st1)) (Suc lba) k)"
      "reliable st1 \<longrightarrow> r \<noteq> None"
      using Suc.IH [OF tv(1), of "Suc lba" "rem - am" "dst @ take am x"] Suc.prems(2) tv by auto
    have x: "x = c (drive st) lba" "length x = 512" using sp(2) [OF b] vol_length [OF Suc.prems(1)] by simp_all
    have "take rem (span (c (drive st)) lba (Suc k)) = take am x @ take (rem - am) (span (c (drive st1)) (Suc lba) k)"
      using x touches_empty [OF sp(1)] by (simp add: span_Suc am_def)
    moreover have "touches c {} st st'" by (rule touches_trans [OF sp(1) IH(1)]) simp
    moreover have "reliable st \<longrightarrow> r \<noteq> None" using IH(3) tv by simp
    ultimately show ?thesis using IH(2) by simp
  qed
qed auto

lemma write_file_loop_spec:
  assumes "vol c st" "2048 < lba" "lba + k \<le> sector_count st" "length src \<le> 512 * k" "write_file_loop st lba src = (ok, st')"
  shows "touches c {lba..<lba + k} st st' \<and> (ok \<longrightarrow> take (length src) (span (c (drive st')) lba k) = src) \<and> (reliable st \<longrightarrow> ok)"
  using assms
proof (induction k arbitrary: st lba src)
  case 0
  then show ?case by (simp add: write_file_loop.simps)
next
  case (Suc k)
  show ?case
  proof (cases "src = []")
    case True
    then show ?thesis using Suc.prems by (simp add: write_file_loop.simps)
  next
    case False
    define am where "am = (if length src > 512 then 512 else length src)"
    define buf where "buf = put_bytes (replicate 512 0) 0 (take am src)"
    have am: "am \<le> 512" "am \<le> length src" "0 < am" using False by (auto simp: am_def)
    have len: "length buf = 512" "take am buf = take am src" using am by (simp_all add: buf_def put_bytes_def)
    obtain b st1 where rd: "rootstorage_write_sector st lba buf = (b, st1)" by (cases "rootstorage_write_sector st lba buf")
    have step: "write_file_loop st lba src = (if b then write_file_loop st1 (u32_add lba 1) (drop am src) else (False, st1))"
      using False rd unfolding am_def buf_def
      by (subst write_file_loop.simps, cases "512 < length src") (auto simp: rootos_consts split: bool.splits)
    note sp = write_sector_spec [OF Suc.prems(1) rd len(1)]
    have t1: "touches c {lba} st st1" using sp(1) unfolding touches_def by blast
    have t1': "touches c {lba..<lba + Suc k} st st1" using touches_trans [OF t1 touches_refl, of "{}"] by simp
    show ?thesis
    proof (cases b)
      case False
      with t1' step show ?thesis using Suc.prems sp by auto
    next
      case True
      note tv = touches_vol [OF t1 Suc.prems(1)]
      have "u32_add lba 1 = Suc lba" using Suc.prems(3) vol_count [OF Suc.prems(1)] by simp
      then have "write_file_loop st1 (Suc lba) (drop am src) = (ok, st')" using Suc.prems(5) step True by simp
      moreover have "length (drop am src) \<le> 512 * k" using Suc.prems(4) unfolding am_def by auto
      ultimately have IH: "touches c {Suc lba..<Suc lba + k} st1 st'"
        "ok \<longrightarrow> take (length (drop am src)) (span (c (drive st')) (Suc lba) k) = drop am src" "reliable st1 \<longrightarrow> ok"
        using Suc.IH [OF tv(1), of "Suc lba" "drop am src"] Suc.prems(2,3) tv by auto
      have "touches c {lba..<lba + Suc k} st st'" by (rule touches_trans [OF t1 IH(1)]) auto
      moreover have "c (drive st') lba = buf" using IH(1) sp(2) True by (simp add: touches_def)
      moreover have "take (length src) (buf @ zs) = take am src @ take (length src - am) zs" for zs
        using len am by (cases "length src > 512") (auto simp: am_def)
      ultimately show ?thesis using IH tv by (auto simp: span_Suc)
    qed
  qed
qed

section \<open>The node record\<close>

lemma put_bytes_zeros:
  "off = length pre + k \<Longrightarrow> k + length bs \<le> n \<Longrightarrow>
     put_bytes (pre @ replicate n 0) off bs = (pre @ replicate k 0 @ bs) @ replicate (n - k - length bs) 0"
  by (simp add: put_bytes_def)

lemma encode_node_eq:
  assumes "length (dn_path node) = n" "n \<le> 1008"
  shows "encode_node node n =
     [of_char (CHR ''N''), of_char (CHR ''O''), of_char (CHR ''D''), of_char (CHR ''E''), 2, if dn_used node then 1 else 0,
        case dn_type node of ROOTFS_DISK_DIRECTORY \<Rightarrow> 0 | ROOTFS_DISK_FILE \<Rightarrow> 1, 0]
     @ write_u32 (word_of_nat (dn_size node)) @ write_u16 (word_of_nat n) @ [0, 0]
     @ map of_char (dn_path node) @ replicate (1008 - n) 0"
proof -
  let ?h = "[of_char (CHR ''N''), of_char (CHR ''O''), of_char (CHR ''D''), of_char (CHR ''E''), 2, if dn_used node then 1 else 0,
        case dn_type node of ROOTFS_DISK_DIRECTORY \<Rightarrow> 0 | ROOTFS_DISK_FILE \<Rightarrow> 1] :: u8 list"
  have 1: "put_bytes (replicate 1024 0) 0 ?h = ?h @ replicate 1017 0" by (simp add: put_bytes_def)
  have 2: "put_bytes (?h @ replicate 1017 0) 8 (write_u32 v) = ((?h @ [0]) @ write_u32 v) @ replicate 1012 0" for v
    using put_bytes_zeros [of 8 ?h 1 "write_u32 v" 1017] by simp
  have 3: "put_bytes (((?h @ [0]) @ write_u32 v) @ replicate 1012 0) 12 (write_u16 w)
      = ((?h @ [0]) @ write_u32 v @ write_u16 w) @ replicate 1010 0" for v w
    using put_bytes_zeros [of 12 "(?h @ [0]) @ write_u32 v" 0 "write_u16 w" 1012] by simp
  have 4: "put_bytes (((?h @ [0]) @ write_u32 v @ write_u16 w) @ replicate 1010 0) 16 bs
      = ((?h @ [0]) @ write_u32 v @ write_u16 w @ [0, 0] @ bs) @ replicate (1008 - length bs) 0" if "length bs \<le> 1008" for v w bs
    using put_bytes_zeros [of 16 "(?h @ [0]) @ write_u32 v @ write_u16 w" 2 bs 1010] that by (simp add: numeral_2_eq_2)
  show ?thesis
    unfolding encode_node_def Let_def ROOTFS_NODE_VERSION_def 1 2 3 using assms by (subst 4) simp_all
qed

lemma char_roundtrip [simp]: "char_of (unat (of_char c :: u8)) = c"
proof -
  have "unat (of_char c :: u8) = of_char c"
  proof -
    have "(of_char c :: u8) = word_of_nat (of_char c)" by (simp add: of_nat_of_char)
    moreover have "(of_char c :: nat) < 256" by simp
    ultimately show ?thesis by (simp add: unat_of_nat)
  qed
  then show ?thesis by simp
qed

definition storable :: "RootFsDiskNode \<Rightarrow> bool" where
  "storable node \<longleftrightarrow> dn_size node \<le> ROOTFS_DISK_FILE_MAX \<and> length (dn_path node) < ROOTFS_DISK_PATH_MAX \<and> NUL \<notin> set (dn_path node)"

lemma decode_encode:
  assumes "storable node"
  shows "decode_node (encode_node node (length (dn_path node))) = Some node"
proof -
  have l: "length (dn_path node) \<le> 511" "dn_size node \<le> 65536" and nul: "NUL \<notin> set (dn_path node)"
    using assms by (simp_all add: storable_def rootos_consts)
  have u: "unat (word_of_nat (dn_size node) :: u32) = dn_size node" "unat (word_of_nat (length (dn_path node)) :: u16) = length (dn_path node)"
    using l by (simp_all add: unat_of_nat)
  have cs: "cstr (map ((\<lambda>b. char_of (unat (b :: u8))) \<circ> of_char) (dn_path node)) = dn_path node"
    using nul by (simp add: cstr_id o_def)
  have e: "encode_node node (length (dn_path node)) =
     [of_char (CHR ''N''), of_char (CHR ''O''), of_char (CHR ''D''), of_char (CHR ''E''), 2, if dn_used node then 1 else 0,
        case dn_type node of ROOTFS_DISK_DIRECTORY \<Rightarrow> 0 | ROOTFS_DISK_FILE \<Rightarrow> 1, 0]
     @ write_u32 (word_of_nat (dn_size node)) @ write_u16 (word_of_nat (length (dn_path node))) @ [0, 0]
     @ map of_char (dn_path node) @ replicate (1008 - length (dn_path node)) 0"
    using l by (intro encode_node_eq) simp_all
  let ?b = "encode_node node (length (dn_path node))"
  have d8: "drop 8 ?b = write_u32 (word_of_nat (dn_size node)) @ write_u16 (word_of_nat (length (dn_path node))) @ [0, 0]
     @ map of_char (dn_path node) @ replicate (1008 - length (dn_path node)) 0" by (simp add: e)
  have d12: "drop 12 ?b = write_u16 (word_of_nat (length (dn_path node))) @ [0, 0]
     @ map of_char (dn_path node) @ replicate (1008 - length (dn_path node)) 0"
    using arg_cong [OF d8, of "drop 4"] by simp
  have d16: "drop 16 ?b = map of_char (dn_path node) @ replicate (1008 - length (dn_path node)) 0"
    using arg_cong [OF d12, of "drop 4"] by simp
  have t: "take 4 ?b \<noteq> [0, 0, 0, 0]" "take 5 ?b = [of_char (CHR ''N''), of_char (CHR ''O''), of_char (CHR ''D''), of_char (CHR ''E''), 2]"
    "?b ! 5 = (if dn_used node then 1 else 0)" "?b ! 6 = (case dn_type node of ROOTFS_DISK_DIRECTORY \<Rightarrow> 0 | ROOTFS_DISK_FILE \<Rightarrow> 1)"
    by (simp_all add: e)
  show ?thesis
    using l t u unfolding decode_node_def Let_def d8 d12 d16
    by (cases "dn_type node"; cases "dn_used node")
      (auto intro: RootFsDiskNode.equality simp: rootos_consts cs)
qed

lemma encode_length [simp]: "length (dn_path node) \<le> 1008 \<Longrightarrow> length (encode_node node (length (dn_path node))) = 1024"
  by (subst encode_node_eq) simp_all

lemma bounded_length_eq: "bounded_length k s = min k (length (cstr s))"
  by (induction k arbitrary: s) (auto simp: chead_def split: list.splits)

lemma bounded_path: "storable node \<Longrightarrow> bounded_path_length (dn_path node) = length (dn_path node)"
  by (simp add: storable_def bounded_path_length_def bounded_length_eq cstr_id rootos_consts)

section \<open>Slots\<close>

text \<open>What a slot holds, read off the sectors.\<close>

definition node_at :: "('d \<Rightarrow> nat \<Rightarrow> sector) \<Rightarrow> 'd storage \<Rightarrow> nat \<Rightarrow> RootFsDiskNode option" where
  "node_at c st i = decode_node (span (c (drive st)) (slot st i) 2)"

definition data_at :: "('d \<Rightarrow> nat \<Rightarrow> sector) \<Rightarrow> 'd storage \<Rightarrow> nat \<Rightarrow> nat \<Rightarrow> u8 list" where
  "data_at c st i n = take n (span (c (drive st)) (slot st i + 2) 128)"

definition slot_range :: "'d storage \<Rightarrow> nat \<Rightarrow> nat set" where
  "slot_range st i = {slot st i..<slot st i + 130}"

lemma vol_ok [simp]: "vol c st \<Longrightarrow> volume_ok st"
  by (simp add: vol_def)

lemma slot_range_disjoint: "i \<noteq> j \<Longrightarrow> slot_range st i \<inter> slot_range st j = {}"
  by (cases "i < j") (auto simp: slot_range_def slot_def not_less)

lemma slot_range_protected: "volume_ok st \<Longrightarrow> i < 256 \<Longrightarrow> slot_range st i \<subseteq> {2048<..<sector_count st}"
  using slot_bounds [of st i] by (auto simp: slot_range_def)

lemma touches_mono: "touches c S st st' \<Longrightarrow> S \<subseteq> T \<Longrightarrow> touches c T st st'"
  by (auto simp: touches_def)

lemma touches_span:
  assumes "touches c S st st'" "S \<inter> {l..<l + k} = {}"
  shows "span (c (drive st')) l k = span (c (drive st)) l k"
  by (rule span_cong) (use assms in \<open>auto simp: touches_def\<close>)

lemma touches_other:
  assumes t: "touches c (slot_range st i) st st'" and v: "vol c st" and ne: "i \<noteq> j"
  shows "node_at c st' j = node_at c st j" "data_at c st' j n = data_at c st j n"
proof -
  note dj = slot_range_disjoint [OF ne, of st]
  have "slot_range st i \<inter> {slot st j..<slot st j + 2} = {}" "slot_range st i \<inter> {slot st j + 2..<slot st j + 2 + 128} = {}"
    using dj by (auto simp: slot_range_def)
  with touches_span [OF t] touches_vol(2) [OF t v] show "node_at c st' j = node_at c st j" "data_at c st' j n = data_at c st j n"
    by (simp_all add: node_at_def data_at_def)
qed

lemma touches_none:
  assumes "touches c {} st st'" "vol c st"
  shows "node_at c st' = node_at c st" "data_at c st' = data_at c st"
  unfolding node_at_def [abs_def] data_at_def [abs_def] touches_empty [OF assms(1)] touches_vol(2) [OF assms] by simp_all

lemma read_node_spec:
  assumes v: "vol c st" and i: "i < 256" and r: "rootfs_disk_read_node st i = (r, st')"
  shows "touches c {} st st'" "r = None \<or> r = node_at c st i" "reliable st \<Longrightarrow> r = node_at c st i"
proof -
  obtain b st1 where rd: "read_metadata st (slot st i) = (b, st1)" by (cases "read_metadata st (slot st i)")
  then have rd': "read_sectors 2 st (slot st i) [] = (b, st1)" by (simp add: read_metadata_def rootos_consts)
  have "slot st i + 2 \<le> sector_count st" using slot_bounds [OF vol_ok [OF v] i] by simp
  note sp = read_sectors_spec [OF v this rd']
  have eq: "(r, st') = (case b of None \<Rightarrow> (None, st1) | Some buf \<Rightarrow> (decode_node buf, st1))"
    using r rd node_lba [OF vol_ok [OF v] i] by (simp add: rootfs_disk_read_node_def split: option.splits)
  with sp show "touches c {} st st'" "r = None \<or> r = node_at c st i" "reliable st \<Longrightarrow> r = node_at c st i"
    by (auto simp: node_at_def split: option.splits)
qed

lemma write_metadata_spec:
  assumes v: "vol c st" and i: "i < 256" and len: "length buf = 1024" and r: "write_metadata st (slot st i) buf = (ok, st')"
  shows "touches c {slot st i..<slot st i + 2} st st'" "ok \<Longrightarrow> node_at c st' i = decode_node buf" "reliable st \<Longrightarrow> ok"
proof -
  have r': "write_sectors 2 st (slot st i) buf = (ok, st')" using r by (simp add: write_metadata_def rootos_consts)
  have b: "2048 < slot st i" "slot st i + 2 \<le> sector_count st" using slot_bounds [OF vol_ok [OF v] i] by simp_all
  have "length buf = 512 * 2" using len by simp
  note sp = write_sectors_spec [OF v b this r']
  then show t: "touches c {slot st i..<slot st i + 2} st st'" by blast
  show "ok \<Longrightarrow> node_at c st' i = decode_node buf" "reliable st \<Longrightarrow> ok"
    using sp touches_vol(2) [OF t v] by (auto simp: node_at_def)
qed

lemma write_node_spec:
  assumes v: "vol c st" and i: "i < 256" and nd: "storable nd" and r: "rootfs_disk_write_node st i nd = (ok, st')"
  shows "touches c {slot st i..<slot st i + 2} st st'" "ok \<Longrightarrow> node_at c st' i = Some nd" "reliable st \<Longrightarrow> ok"
proof -
  have l: "length (dn_path nd) < 512" "dn_size nd \<le> 65536" using nd by (simp_all add: storable_def rootos_consts)
  have "write_metadata st (slot st i) (encode_node nd (length (dn_path nd))) = (ok, st')"
    using r l bounded_path [OF nd] node_lba [OF vol_ok [OF v] i]
    by (simp add: rootfs_disk_write_node_def rootos_consts)
  note sp = write_metadata_spec [OF v i _ this]
  show "touches c {slot st i..<slot st i + 2} st st'" "ok \<Longrightarrow> node_at c st' i = Some nd" "reliable st \<Longrightarrow> ok"
    using sp l decode_encode [OF nd] by simp_all
qed

lemma decode_zeros: "decode_node (replicate 1024 0) = Some zero_disk_node"
proof -
  have "take 4 (replicate 1024 (0::u8)) = [0, 0, 0, 0]" by (simp add: numeral_eq_Suc)
  then show ?thesis by (simp add: decode_node_def)
qed

lemma clear_node_spec:
  assumes v: "vol c st" and i: "i < 256" and r: "rootfs_disk_clear_node st i = (ok, st')"
  shows "touches c {slot st i..<slot st i + 2} st st'" "ok \<Longrightarrow> node_at c st' i = Some zero_disk_node" "reliable st \<Longrightarrow> ok"
proof -
  have "write_metadata st (slot st i) (replicate 1024 0) = (ok, st')"
    using r node_lba [OF vol_ok [OF v] i] by (simp add: rootfs_disk_clear_node_def)
  note sp = write_metadata_spec [OF v i _ this]
  then show "touches c {slot st i..<slot st i + 2} st st'" "ok \<Longrightarrow> node_at c st' i = Some zero_disk_node" "reliable st \<Longrightarrow> ok"
    by (simp_all add: decode_zeros)
qed

lemma cstr_length: "length (cstr s) \<le> length s"
  by (induction s) auto

lemma decode_storable: "decode_node b = Some nd \<Longrightarrow> storable nd"
proof -
  have *: "length (cstr (map f (take n xs))) < 512" if "n < 512" for f n and xs :: "u8 list"
    using cstr_length [of "map f (take n xs)"] that by simp
  assume "decode_node b = Some nd"
  then show "storable nd"
    by (auto simp: decode_node_def storable_def zero_disk_node_def rootos_consts Let_def * split: if_splits)
qed

definition readable :: "RootFsDiskNode \<Rightarrow> nat \<Rightarrow> bool" where
  "readable nd cap \<longleftrightarrow> dn_used nd \<and> dn_type nd = ROOTFS_DISK_FILE \<and> dn_size nd \<le> cap"

lemma read_file_spec:
  assumes v: "vol c st" and i: "i < 256" and r: "rootfs_disk_read_file st i cap = (r, st')"
  shows "touches c {} st st' \<and>
    (r = None \<or> (\<exists>nd. node_at c st i = Some nd \<and> readable nd cap \<and> r = Some (data_at c st i (dn_size nd)))) \<and>
    (reliable st \<longrightarrow> r = (case node_at c st i of None \<Rightarrow> None
       | Some nd \<Rightarrow> if readable nd cap then Some (data_at c st i (dn_size nd)) else None))"
proof -
  obtain n st1 where rn: "rootfs_disk_read_node st i = (n, st1)" by (cases "rootfs_disk_read_node st i")
  note sp = read_node_spec [OF v i rn]
  note tv = touches_vol [OF sp(1) v]
  show ?thesis
  proof (cases "\<exists>m. n = Some m \<and> readable m cap")
    case False
    then have "r = None \<and> st' = st1" using r rn
      by (auto simp: rootfs_disk_read_file_def readable_def split: option.splits if_splits)
    with sp False show ?thesis by (auto split: option.splits)
  next
    case True
    then obtain m where m: "n = Some m" "readable m cap" by blast
    have nm: "node_at c st i = Some m" using sp(2) m by auto
    have rl: "read_file_loop 128 st1 (slot st i + 2) (dn_size m) [] = (r, st')"
      using r rn m node_lba [OF vol_ok [OF tv(1)] i] tv(2) by (simp add: rootfs_disk_read_file_def readable_def rootos_consts)
    have "slot st i + 2 + 128 \<le> sector_count st1" "dn_size m \<le> 512 * 128"
      using slot_bounds [OF vol_ok [OF v] i] tv(3) decode_storable [OF nm [unfolded node_at_def]]
      by (simp_all add: storable_def rootos_consts)
    note ls = read_file_loop_spec [OF tv(1) this(1) rl this(2)]
    have d: "take (dn_size m) (span (c (drive st1)) (slot st i + 2) 128) = data_at c st i (dn_size m)"
      unfolding data_at_def touches_empty [OF sp(1)] ..
    have "touches c {} st st'" using touches_trans [OF sp(1), of "{}" st' "{}"] ls by simp
    moreover have "r = None \<or> r = Some (data_at c st i (dn_size m))" "reliable st \<Longrightarrow> r \<noteq> None"
      using ls d tv(3,4) by (cases r; auto)+
    ultimately show ?thesis using nm m by auto
  qed
qed

text \<open>The buffer the C code copies from: \<open>siz\<close> bytes behind the pointer.\<close>

abbreviation payload :: "u8 list option \<Rightarrow> nat \<Rightarrow> u8 list" where
  "payload data siz \<equiv> take siz (case data of None \<Rightarrow> [] | Some bs \<Rightarrow> bs)"

lemma write_file_spec:
  assumes v: "vol c st" and i: "i < 256" and r: "rootfs_disk_write_file st i data siz = (ok, st')"
  shows "touches c (slot_range st i) st st' \<and>
    (ok \<longrightarrow> (\<exists>nd. node_at c st i = Some nd \<and> dn_used nd \<and> dn_type nd = ROOTFS_DISK_FILE
       \<and> node_at c st' i = Some (nd\<lparr>dn_size := siz\<rparr>)
       \<and> data_at c st' i (length (payload data siz)) = payload data siz)) \<and>
    (reliable st \<longrightarrow> siz \<le> ROOTFS_DISK_FILE_MAX \<longrightarrow> (siz > 0 \<longrightarrow> data \<noteq> None) \<longrightarrow>
       (\<forall>nd. node_at c st i = Some nd \<longrightarrow> dn_used nd \<longrightarrow> dn_type nd = ROOTFS_DISK_FILE \<longrightarrow> ok))"
proof (cases "siz > ROOTFS_DISK_FILE_MAX \<or> (siz > 0 \<and> data = None)")
  case True
  then show ?thesis using r by (auto simp: rootfs_disk_write_file_def)
next
  case size_ok: False
  obtain n st1 where rn: "rootfs_disk_read_node st i = (n, st1)" by (cases "rootfs_disk_read_node st i")
  note sp = read_node_spec [OF v i rn]
  note tv = touches_vol [OF sp(1) v]
  show ?thesis
  proof (cases "\<exists>m. n = Some m \<and> dn_used m \<and> dn_type m = ROOTFS_DISK_FILE")
    case False
    then have "\<not> ok \<and> st' = st1"
      using r rn size_ok by (auto simp: rootfs_disk_write_file_def split: option.splits if_splits)
    with sp False touches_mono [OF sp(1)] show ?thesis by auto
  next
    case True
    then obtain m where m: "n = Some m" "dn_used m" "dn_type m = ROOTFS_DISK_FILE" by blast
    have nm: "node_at c st i = Some m" using sp(2) m by auto
    obtain b st2 where wl: "write_file_loop st1 (slot st i + 2) (payload data siz) = (b, st2)"
      by (cases "write_file_loop st1 (slot st i + 2) (payload data siz)")
    have res: "(ok, st') = (if b then rootfs_disk_write_node st2 i (m\<lparr>dn_size := siz\<rparr>) else (False, st2))"
      using r rn m size_ok wl node_lba [OF vol_ok [OF tv(1)] i] tv(2)
      by (auto simp: rootfs_disk_write_file_def split: if_splits)
    have "2048 < slot st i + 2" "slot st i + 2 + 128 \<le> sector_count st1" "length (payload data siz) \<le> 512 * 128"
      using slot_bounds [OF vol_ok [OF v] i] tv(3) size_ok by (auto simp: rootos_consts split: option.splits)
    note ls = write_file_loop_spec [OF tv(1) this wl]
    have "touches c {slot st i + 2..<slot st i + 2 + 128} st1 st2" using ls by blast
    from touches_trans [OF sp(1) this, of "slot_range st i"] have t2: "touches c (slot_range st i) st st2"
      by (auto simp: slot_range_def)
    note tv2 = touches_vol [OF t2 v]
    have st: "storable (m\<lparr>dn_size := siz\<rparr>)"
      using decode_storable [OF nm [unfolded node_at_def]] size_ok by (auto simp: storable_def)
    show ?thesis
    proof (cases b)
      case False
      then show ?thesis using res t2 ls tv(3,4) by auto
    next
      case True
      then have w: "rootfs_disk_write_node st2 i (m\<lparr>dn_size := siz\<rparr>) = (ok, st')" using res by simp
      note ws = write_node_spec [OF tv2(1) i st w]
      have t3: "touches c {slot st i..<slot st i + 2} st2 st'" using ws(1) tv2(2) by simp
      from touches_trans [OF t2 this, of "slot_range st i"] have t: "touches c (slot_range st i) st st'"
        by (auto simp: slot_range_def)
      have "span (c (drive st')) (slot st i + 2) 128 = span (c (drive st2)) (slot st i + 2) 128"
        by (rule touches_span [OF t3]) auto
      then have "data_at c st' i (length (payload data siz)) = payload data siz"
        using ls True touches_vol(2) [OF t v] by (simp add: data_at_def)
      with t ws nm m tv2 show ?thesis by auto
    qed
  qed
qed

section \<open>Correctness of the volume\<close>

text \<open>A drive without faults, as an instance of the laws: its state is the content.\<close>

definition ram_drive :: "nat \<Rightarrow> (nat \<Rightarrow> sector) ata_driver" where
  "ram_drive n = \<lparr>ata_init = (\<lambda>d. (Some n, d)), ata_read = (\<lambda>d l. (Some (d l), d)),
     ata_write = (\<lambda>d l b. (True, d(l := b)))\<rparr>"

definition clip :: "(nat \<Rightarrow> sector) \<Rightarrow> nat \<Rightarrow> sector" where
  "clip d l = take 512 (d l @ replicate 512 0)"

definition clip_drive :: "nat \<Rightarrow> (nat \<Rightarrow> sector) ata_driver" where
  "clip_drive n = (ram_drive n)\<lparr>ata_read := (\<lambda>d l. (Some (clip d l), d))\<rparr>"

lemma header_valid_update [simp]:
  "rootstorage_header_valid (st\<lparr>drive := d\<rparr>) h = rootstorage_header_valid st h"
  "rootstorage_header_valid (st\<lparr>storage_device_ready := b\<rparr>) h = rootstorage_header_valid st h"
  "rootstorage_header_valid (st\<lparr>storage_volume_ready := b\<rparr>) h = rootstorage_header_valid st h"
  "rootstorage_header_valid (st\<lparr>storage_header := k\<rparr>) h = rootstorage_header_valid st h"
  "rootstorage_header_valid (st\<lparr>storage_volume_ready := b, sector_count := n\<rparr>) h
     = rootstorage_header_valid (st\<lparr>sector_count := n\<rparr>) h"
  by (simp_all add: rootstorage_header_valid_def)

lemma clip_laws: "drive_laws (clip_drive n) clip"
  by (auto simp: drive_laws_def clip_drive_def ram_drive_def clip_def fun_eq_iff)

lemma clip_reliable: "drive_reliable (clip_drive n) n"
  by (simp add: drive_reliable_def clip_drive_def ram_drive_def)

text \<open>A formatted volume of 65536 sectors on that drive.\<close>

definition demo_header :: sector where
  "demo_header = root_storage_magic @ concat (map write_u32 [2, 512, 256, 130, 2049, 40000, 0]) @ replicate 476 0"

definition demo_volume :: "(nat \<Rightarrow> sector) storage" where
  "demo_volume = \<lparr>driver = clip_drive 65536, drive = (\<lambda>_. [])(2048 := demo_header), sector_count = 65536,
     storage_device_ready = True, storage_volume_ready = True,
     storage_header = \<lparr>magic = root_storage_magic, version = 2, sector_size = 512, node_count = 256,
       node_slot_sectors = 130, node_area_lba = 2049, volume_sectors = 40000, hdr_flags = 0\<rparr>\<rparr>"

lemma demo_vol: "vol clip demo_volume" "reliable demo_volume"
  by (simp_all add: vol_def volume_ok_def demo_volume_def rootstorage_header_valid_def rootstorage_magic_valid_def
      rootos_consts u32_mul_def Let_def clip_laws clip_reliable)

text \<open>
  Mounting accepts a volume only if everything the node operations will address lies on the device
  and behind the header: after \<open>rootstorage_init\<close> reports a volume, the header carries the expected
  magic, version and geometry, and for every slot index the 130 sectors of the slot lie strictly
  above the header sector and below the end of the device, with no 32-bit wrap-around.
\<close>

theorem rootstorage_init_geometry:
  assumes "rootstorage_init st = (ok, st')" "rootstorage_volume_available st'" "sector_count st' < USIZE_MOD" "i < ROOTFS_DISK_MAX_NODES"
  shows "rootfs_disk_ready st' \<and> rootstorage_magic_valid (storage_header st') \<and> rootfs_node_lba st' i = Some (slot st' i, slot st' i + 2)
     \<and> ROOT_STORAGE_HEADER_LBA < slot st' i \<and> slot st' i + 130 \<le> sector_count st'"
proof -
  have ok: "storage_device_ready st' \<and> storage_volume_ready st' \<and> rootstorage_header_valid st' (storage_header st')
"
    using assms(1,2)
    by (auto simp: rootstorage_init_def Let_def rootstorage_volume_available_def
        split: prod.splits option.splits if_splits)
  then have v: "volume_ok st'" using assms(3) by (simp add: volume_ok_def)
  have i: "i < 256" using assms(4) by (simp add: rootos_consts)
  have "rootstorage_magic_valid (storage_header st') \<and> rootfs_disk_ready st'"
    using ok by (auto simp: rootstorage_header_valid_def rootfs_disk_ready_def rootstorage_volume_available_def
        rootstorage_node_count_def rootstorage_node_slot_sectors_def rootos_consts split: if_splits)
  with ok node_lba [OF v i] slot_bounds [OF v i] show ?thesis by (simp add: rootos_consts)
qed

theorem rootstorage_init_geometry_witness:
  "\<exists>st'. rootstorage_init demo_volume = (True, st') \<and> rootstorage_volume_available st' \<and>
     rootfs_disk_ready st' \<and> rootstorage_magic_valid (storage_header st') \<and> rootfs_node_lba st' 255 = Some (slot st' 255, slot st' 255 + 2)
     \<and> ROOT_STORAGE_HEADER_LBA < slot st' 255 \<and> slot st' 255 + 130 \<le> sector_count st'"
proof -
  have len: "length demo_header = 512" by (simp add: demo_header_def root_storage_magic_def)
  then have cl: "clip ((\<lambda>_. [])(2048 := demo_header)) 2048 = demo_header" by (simp add: clip_def)
  have rd: "read_u32 (xs @ ys) = v" if "xs = write_u32 v" for xs ys v using that by simp
  have dr: "drop 8 demo_header = write_u32 2 @ concat (map write_u32 [512, 256, 130, 2049, 40000, 0]) @ replicate 476 0"
    "drop 12 demo_header = write_u32 512 @ concat (map write_u32 [256, 130, 2049, 40000, 0]) @ replicate 476 0"
    "drop 16 demo_header = write_u32 256 @ concat (map write_u32 [130, 2049, 40000, 0]) @ replicate 476 0"
    "drop 20 demo_header = write_u32 130 @ concat (map write_u32 [2049, 40000, 0]) @ replicate 476 0"
    "drop 24 demo_header = write_u32 2049 @ concat (map write_u32 [40000, 0]) @ replicate 476 0"
    "drop 28 demo_header = write_u32 40000 @ concat (map write_u32 [0]) @ replicate 476 0"
    "drop 32 demo_header = write_u32 0 @ replicate 476 0"
    by (simp_all add: demo_header_def root_storage_magic_def write_u32_def)
  have h: "header_of demo_header = storage_header demo_volume"
    unfolding header_of_def dr read_write_u32 by (simp add: demo_volume_def demo_header_def root_storage_magic_def)
  define st' where "st' = demo_volume"
  have "rootstorage_init demo_volume = (True, st')"
    using cl h demo_vol(1) unfolding vol_def volume_ok_def st'_def
    by (simp add: rootstorage_init_def Let_def demo_volume_def clip_drive_def ram_drive_def rootos_consts
        rootstorage_header_valid_def rootstorage_magic_valid_def)
  moreover have "rootstorage_volume_available st'" "sector_count st' < USIZE_MOD" "255 < ROOTFS_DISK_MAX_NODES"
    by (simp_all add: st'_def rootstorage_volume_available_def demo_volume_def rootos_consts)
  ultimately show ?thesis using rootstorage_init_geometry by blast
qed

text \<open>
  C38: Whatever the drive does, an operation on slot \<open>i\<close> of a mounted volume changes no sector outside the
  130 sectors of that slot (so never the header, the sectors before it, or another node), and the
  node record and the data of every other slot stay as they are, even if the operation fails halfway.
\<close>

theorem rootfs_disk_isolation:
  assumes "vol c st" "i < ROOTFS_DISK_MAX_NODES" "storable nd"
    "st' \<in> {snd (rootfs_disk_write_node st i nd), snd (rootfs_disk_write_file st i data siz), snd (rootfs_disk_clear_node st i),
       snd (rootfs_disk_read_node st i), snd (rootfs_disk_read_file st i siz)}"
  shows "(\<forall>l. l \<notin> slot_range st i \<longrightarrow> c (drive st') l = c (drive st) l)
     \<and> slot_range st i \<subseteq> {ROOT_STORAGE_HEADER_LBA<..<sector_count st}
     \<and> (\<forall>j n. j \<noteq> i \<longrightarrow> node_at c st' j = node_at c st j \<and> data_at c st' j n = data_at c st j n) \<and> vol c st'"
proof -
  have i: "i < 256" using assms(2) by (simp add: rootos_consts)
  have sub: "{slot st i..<slot st i + 2} \<subseteq> slot_range st i" "{} \<subseteq> slot_range st i" by (auto simp: slot_range_def)
  have t: "touches c (slot_range st i) st st'"
    using assms(4) write_node_spec(1) [OF assms(1) i assms(3)] clear_node_spec(1) [OF assms(1) i]
      write_file_spec [OF assms(1) i] read_node_spec(1) [OF assms(1) i] read_file_spec [OF assms(1) i]
    by (auto intro: touches_mono [OF _ sub(1)] touches_mono [OF _ sub(2)] simp: prod_eq_iff)
  show ?thesis
    using t touches_other [OF t assms(1)] touches_vol(1) [OF t assms(1)] slot_range_protected [OF vol_ok [OF assms(1)] i]
    by (auto simp: touches_def rootos_consts)
qed

theorem rootfs_disk_isolation_witness:
  "let st = demo_volume; st' = snd (rootfs_disk_write_file st 3 (Some [1, 2]) 2) in
     (\<forall>l. l \<notin> slot_range st 3 \<longrightarrow> clip (drive st') l = clip (drive st) l)
     \<and> slot_range st 3 \<subseteq> {ROOT_STORAGE_HEADER_LBA<..<sector_count st}
     \<and> (\<forall>j n. j \<noteq> 3 \<longrightarrow> node_at clip st' j = node_at clip st j \<and> data_at clip st' j n = data_at clip st j n) \<and> vol clip st'"
  unfolding Let_def
  by (rule rootfs_disk_isolation [OF demo_vol(1), of 3 zero_disk_node _ "Some [1, 2]" 2])
    (simp_all add: rootos_consts storable_def zero_disk_node_def)

text \<open>
  Node records survive the disk: if writing a record (path shorter than 512, size at most 64 KiB)
  reports success, reading the slot yields that very record unless the read itself fails, clearing
  it yields an unused one, and on a drive without faults none of these fails.
\<close>

theorem rootfs_node_roundtrip:
  assumes "vol c st" "i < ROOTFS_DISK_MAX_NODES" "storable nd"
    "rootfs_disk_write_node st i nd = (ok, st1)" "rootfs_disk_read_node st1 i = (r, st2)"
    "rootfs_disk_clear_node st2 i = (cok, st3)" "rootfs_disk_read_node st3 i = (r', st4)"
  shows "(ok \<longrightarrow> r \<in> {None, Some nd}) \<and> (cok \<longrightarrow> r' \<in> {None, Some zero_disk_node})
     \<and> (reliable st \<longrightarrow> ok \<and> r = Some nd \<and> cok \<and> r' = Some zero_disk_node)"
proof -
  have i: "i < 256" using assms(2) by (simp add: rootos_consts)
  note w = write_node_spec [OF assms(1) i assms(3,4)]
  note v1 = touches_vol [OF w(1) assms(1)]
  note rd = read_node_spec [OF v1(1) i assms(5)]
  note v2 = touches_vol [OF rd(1) v1(1)]
  note cl = clear_node_spec [OF v2(1) i assms(6)]
  note v3 = touches_vol [OF cl(1) v2(1)]
  note rd' = read_node_spec [OF v3(1) i assms(7)]
  show ?thesis using w(2,3) rd(2,3) cl(2,3) rd'(2,3) v1 v2 v3 by auto
qed

theorem rootfs_node_roundtrip_witness:
  "\<exists>st1 st2 st3 st4. let nd = \<lparr>dn_used = True, dn_type = ROOTFS_DISK_FILE, dn_size = 7, dn_path = ''/home/a''\<rparr> in
     rootfs_disk_write_node demo_volume 5 nd = (True, st1) \<and> rootfs_disk_read_node st1 5 = (Some nd, st2)
     \<and> rootfs_disk_clear_node st2 5 = (True, st3) \<and> rootfs_disk_read_node st3 5 = (Some zero_disk_node, st4)"
proof -
  let ?nd = "\<lparr>dn_used = True, dn_type = ROOTFS_DISK_FILE, dn_size = 7, dn_path = ''/home/a''\<rparr>"
  obtain ok st1 where 1: "rootfs_disk_write_node demo_volume 5 ?nd = (ok, st1)" by (meson surj_pair)
  obtain r st2 where 2: "rootfs_disk_read_node st1 5 = (r, st2)" by (meson surj_pair)
  obtain cok st3 where 3: "rootfs_disk_clear_node st2 5 = (cok, st3)" by (meson surj_pair)
  obtain r' st4 where 4: "rootfs_disk_read_node st3 5 = (r', st4)" by (meson surj_pair)
  have "5 < ROOTFS_DISK_MAX_NODES" "storable ?nd" by (simp_all add: rootos_consts storable_def)
  from rootfs_node_roundtrip [OF demo_vol(1) this 1 2 3 4] demo_vol(2) 1 2 3 4 show ?thesis by auto
qed

text \<open>
  C39: File contents survive the disk: if writing \<open>siz\<close> bytes to the slot of a file reports success, a
  later read (of the same slot, after any operations on other slots) delivers exactly these bytes unless it fails;
  on a drive without faults both succeed. The bound of 128 data sectors is never exceeded.
\<close>

theorem rootfs_file_roundtrip:
  assumes "vol c st" "i < ROOTFS_DISK_MAX_NODES" "length bs \<le> cap"
    "rootfs_disk_write_file st i (Some bs) (length bs) = (ok, st1)"
    "touches c (- slot_range st1 i) st1 st2" "rootfs_disk_read_file st2 i cap = (r, st3)"
  shows "(ok \<longrightarrow> r \<in> {None, Some bs}) \<and>
     (reliable st \<longrightarrow> length bs \<le> ROOTFS_DISK_FILE_MAX \<longrightarrow>
       (\<forall>nd. node_at c st i = Some nd \<and> dn_used nd \<and> dn_type nd = ROOTFS_DISK_FILE \<longrightarrow> ok \<and> r = Some bs))"
proof -
  have i: "i < 256" using assms(2) by (simp add: rootos_consts)
  note w = write_file_spec [OF assms(1) i assms(4)]
  note v1 = touches_vol [OF conjunct1 [OF w] assms(1)]
  note v2 = touches_vol [OF assms(5) v1(1)]
  have same: "node_at c st2 i = node_at c st1 i" "data_at c st2 i n = data_at c st1 i n" for n
  proof -
    have "- slot_range st1 i \<inter> {slot st1 i..<slot st1 i + 2} = {}" "- slot_range st1 i \<inter> {slot st1 i + 2..<slot st1 i + 2 + 128} = {}"
      by (auto simp: slot_range_def)
    with touches_span [OF assms(5)] v2(2) show "node_at c st2 i = node_at c st1 i" "data_at c st2 i n = data_at c st1 i n"
      by (simp_all add: node_at_def data_at_def)
  qed
  note rd = read_file_spec [OF v2(1) i assms(6)]
  have ok: "r \<in> {None, Some bs} \<and> (reliable st \<longrightarrow> r = Some bs)" if "ok"
  proof -
    from w that obtain nd where nd: "dn_used nd" "dn_type nd = ROOTFS_DISK_FILE"
      "node_at c st1 i = Some (nd\<lparr>dn_size := length bs\<rparr>)" "data_at c st1 i (length bs) = bs" by auto
    moreover have "readable (nd\<lparr>dn_size := length bs\<rparr>) cap" using nd assms(3) by (simp add: readable_def)
    ultimately show ?thesis using rd same v1 v2 by auto
  qed
  show ?thesis using ok w by auto
qed

theorem rootfs_file_roundtrip_witness:
  "\<exists>st0 st1 st3. rootfs_disk_write_node demo_volume 9 \<lparr>dn_used = True, dn_type = ROOTFS_DISK_FILE, dn_size = 0, dn_path = ''/f''\<rparr> = (True, st0)
     \<and> rootfs_disk_write_file st0 9 (Some [10, 20, 30]) 3 = (True, st1)
     \<and> rootfs_disk_read_file st1 9 100 = (Some [10, 20, 30], st3)"
proof -
  let ?nd = "\<lparr>dn_used = True, dn_type = ROOTFS_DISK_FILE, dn_size = 0, dn_path = ''/f''\<rparr>"
  have i: "(9::nat) < 256" and sb: "storable ?nd" by (simp_all add: storable_def rootos_consts)
  obtain ok st0 where 0: "rootfs_disk_write_node demo_volume 9 ?nd = (ok, st0)" by (meson surj_pair)
  note w = write_node_spec [OF demo_vol(1) i sb 0]
  note v = touches_vol [OF w(1) demo_vol(1)]
  have ok: ok and rel: "reliable st0" using w(3) demo_vol(2) v by auto
  obtain ok1 st1 where 1: "rootfs_disk_write_file st0 9 (Some [10, 20, 30]) (length [10, 20, 30 :: u8]) = (ok1, st1)" by (meson surj_pair)
  obtain r st3 where 3: "rootfs_disk_read_file st1 9 100 = (r, st3)" by (meson surj_pair)
  have "9 < ROOTFS_DISK_MAX_NODES" "length [10, 20, 30 :: u8] \<le> 100" by (simp_all add: rootos_consts)
  from rootfs_file_roundtrip [OF v(1) this 1 touches_refl 3] rel w(2) [OF ok] have "ok1" "r = Some [10, 20, 30]"
    by (auto simp: rootos_consts)
  with 0 1 3 ok show ?thesis by (auto simp: numeral_3_eq_3)
qed

end
