(* ===== verification/Root_Filesystem.thy ===== *)
theory Root_Filesystem
  imports Root_Path Root_Heap_Safety Root_Disk
begin

text \<open>
  \<open>source/fs/filesystem.c\<close>: the node table, its two backends (RootFS volume and RAM), and every
  operation of \<open>filesystem.h\<close>. The state is the record \<open>fs\<close>: the static variables of the C file, the
  heap the RAM backend allocates from, the storage stack below, and the text printed so far.

  A C result is returned together with the new state. The operations that may call \<open>root_malloc\<close> are
  option-valued: \<open>None\<close> stands for a call that does not return or leaves the defined behaviour of C (a
  copy beyond the end of \<open>fs_io_buffer\<close>). A data buffer is \<open>Some\<close> list of bytes or \<open>None\<close> for NULL,
  together with the size argument; output buffers are the list of bytes delivered.
\<close>

section \<open>State\<close>

abbreviation FS_MAX_NODES :: nat where "FS_MAX_NODES \<equiv> ROOTFS_DISK_MAX_NODES"
definition FS_MAX_FILE_SIZE :: nat where [rootos_consts]: "FS_MAX_FILE_SIZE = 65536"

datatype FsType = FS_DIRECTORY | FS_FILE

datatype FsResult = FS_RESULT_OK | FS_RESULT_NOT_FOUND | FS_RESULT_ALREADY_EXISTS | FS_RESULT_NOT_DIRECTORY
  | FS_RESULT_DIRECTORY_NOT_EMPTY | FS_RESULT_INVALID_PATH | FS_RESULT_NO_SPACE | FS_RESULT_BUSY
  | FS_RESULT_NOT_FILE | FS_RESULT_FILE_TOO_LARGE | FS_RESULT_IO_ERROR

record FsNode =
  node_used :: bool
  node_type :: FsType
  node_path :: string
  node_size :: nat
  ram_content :: addr

definition zero_node :: FsNode where
  "zero_node = \<lparr>node_used = False, node_type = FS_DIRECTORY, node_path = [], node_size = 0, ram_content = 0\<rparr>"

record 'd fs =
  nodes :: "FsNode list"
  current_directory :: string
  filesystem_persistent_backend :: bool
  filesystem_storage_error :: bool
  fs_heap :: heap
  disk :: "'d storage"
  printed :: string

abbreviation set_node :: "'d fs \<Rightarrow> nat \<Rightarrow> FsNode \<Rightarrow> 'd fs" where
  "set_node st i nd \<equiv> st\<lparr>nodes := (nodes st)[i := nd]\<rparr>"

definition initial_nodes :: "(string \<times> FsType) list" where
  "initial_nodes =
    [(''/'', FS_DIRECTORY),
     (''/boot'', FS_DIRECTORY),
     (''/boot/kernel.elf'', FS_FILE),
     (''/home'', FS_DIRECTORY),
     (''/home/user'', FS_DIRECTORY),
     (''/home/user/Documents'', FS_DIRECTORY),
     (''/home/user/Downloads'', FS_DIRECTORY),
     (''/home/user/Projects'', FS_DIRECTORY),
     (''/home/user/bin'', FS_DIRECTORY),
     (''/home/user/readme.txt'', FS_FILE),
     (''/system'', FS_DIRECTORY),
     (''/system/bin'', FS_DIRECTORY),
     (''/system/bin/shell'', FS_FILE),
     (''/system/drivers'', FS_DIRECTORY),
     (''/system/fonts'', FS_DIRECTORY),
     (''/system/fonts/unifont-17.0.05.otf'', FS_FILE),
     (''/system/libraries'', FS_DIRECTORY),
     (''/system/services'', FS_DIRECTORY),
     (''/system/apps'', FS_DIRECTORY),
     (''/system/version.txt'', FS_FILE),
     (''/config'', FS_DIRECTORY),
     (''/config/users'', FS_DIRECTORY),
     (''/config/shell'', FS_DIRECTORY),
     (''/config/system'', FS_DIRECTORY),
     (''/config/services'', FS_DIRECTORY),
     (''/packages'', FS_DIRECTORY),
     (''/temp'', FS_DIRECTORY),
     (''/var'', FS_DIRECTORY),
     (''/var/log'', FS_DIRECTORY),
     (''/var/log/kernel.log'', FS_FILE),
     (''/var/cache'', FS_DIRECTORY),
     (''/var/cache/packages'', FS_DIRECTORY),
     (''/var/run'', FS_DIRECTORY)]"

section \<open>Node table\<close>

definition release_ram_content :: "'d fs \<Rightarrow> nat \<Rightarrow> 'd fs" where
  "release_ram_content st index =
     (if index \<ge> FS_MAX_NODES then st
      else
        let nd = nodes st ! index in
        if ram_content nd \<noteq> 0 then
          (set_node st index (nd\<lparr>ram_content := 0\<rparr>))\<lparr>fs_heap := root_free (fs_heap st) (ram_content nd)\<rparr>
        else st)"

definition reset_node :: "'d fs \<Rightarrow> nat \<Rightarrow> 'd fs" where
  "reset_node st index =
     (if index \<ge> FS_MAX_NODES then st
      else let st = release_ram_content st index in set_node st index zero_node)"

definition reset_all_nodes :: "'d fs \<Rightarrow> 'd fs" where
  "reset_all_nodes st = fold (\<lambda>i st. reset_node st i) [0..<FS_MAX_NODES] st"

definition find_node :: "'d fs \<Rightarrow> string \<Rightarrow> nat option" where
  "find_node st path = find_slot (\<lambda>nd. node_used nd \<and> root_streq (node_path nd) path) (nodes st)"

definition find_free_node :: "'d fs \<Rightarrow> nat option" where
  "find_free_node st = find_slot (\<lambda>nd. \<not> node_used nd) (nodes st)"

definition count_free_nodes :: "'d fs \<Rightarrow> nat" where
  "count_free_nodes st = length (filter (\<lambda>nd. \<not> node_used nd) (nodes st))"

definition fs_type_to_disk :: "FsType \<Rightarrow> RootFsDiskType" where
  "fs_type_to_disk type = (if type = FS_DIRECTORY then ROOTFS_DISK_DIRECTORY else ROOTFS_DISK_FILE)"

definition disk_type_to_fs :: "RootFsDiskType \<Rightarrow> FsType" where
  "disk_type_to_fs type = (if type = ROOTFS_DISK_DIRECTORY then FS_DIRECTORY else FS_FILE)"

definition persist_node :: "'d fs \<Rightarrow> nat \<Rightarrow> bool \<times> 'd fs" where
  "persist_node st index =
     (if \<not> filesystem_persistent_backend st then (True, st)
      else if index \<ge> FS_MAX_NODES \<or> \<not> node_used (nodes st ! index) then (False, st)
      else
        let nd = nodes st ! index;
            (path, n) = root_strlcpy [] (node_path nd) ROOTFS_DISK_PATH_MAX;
            disk_node = \<lparr>dn_used = True, dn_type = fs_type_to_disk (node_type nd), dn_size = node_size nd, dn_path = path\<rparr>
        in if n \<ge> ROOTFS_DISK_PATH_MAX then (False, st)
           else
             let (ok, d) = rootfs_disk_write_node (disk st) index disk_node;
                 st = st\<lparr>disk := d\<rparr>
             in if \<not> ok then (False, st\<lparr>filesystem_storage_error := True\<rparr>) else (True, st))"

definition clear_persisted_node :: "'d fs \<Rightarrow> nat \<Rightarrow> bool \<times> 'd fs" where
  "clear_persisted_node st index =
     (if \<not> filesystem_persistent_backend st then (True, st)
      else
        let (ok, d) = rootfs_disk_clear_node (disk st) index;
            st = st\<lparr>disk := d\<rparr>
        in if \<not> ok then (False, st\<lparr>filesystem_storage_error := True\<rparr>) else (True, st))"

section \<open>Backends\<close>

definition store_bytes :: "mem \<Rightarrow> addr \<Rightarrow> u8 list \<Rightarrow> mem" where
  "store_bytes m p bs = (\<lambda>x. if p \<le> x \<and> x < p + length bs then bs ! (x - p) else m x)"

definition ram_write_file :: "'d fs \<Rightarrow> nat \<Rightarrow> u8 list option \<Rightarrow> nat \<Rightarrow> (bool \<times> 'd fs) option" where
  "ram_write_file st index data siz =
     (if index \<ge> FS_MAX_NODES \<or> \<not> node_used (nodes st ! index) \<or> node_type (nodes st ! index) \<noteq> FS_FILE
        \<or> siz > FS_MAX_FILE_SIZE \<or> (siz > 0 \<and> data = None) then Some (False, st)
      else
        let finish = (\<lambda>st replacement.
              let st = release_ram_content st index
              in (True, set_node st index ((nodes st ! index)\<lparr>ram_content := replacement, node_size := siz\<rparr>)))
        in if siz > 0 then
             do {
               (replacement, h) \<leftarrow> root_malloc (fs_heap st) (siz + 1);
               if replacement = 0 then Some (False, st\<lparr>fs_heap := h\<rparr>)
               else
                 let m = store_bytes (heap_bytes h) replacement (payload data siz);
                     m = m(replacement + siz := 0)
                 in Some (finish (st\<lparr>fs_heap := h\<lparr>heap_bytes := m\<rparr>\<rparr>) replacement)
             }
           else Some (finish st 0))"

definition ram_read_file :: "'d fs \<Rightarrow> nat \<Rightarrow> nat \<Rightarrow> u8 list option" where
  "ram_read_file st index capacity =
     (if index \<ge> FS_MAX_NODES \<or> \<not> node_used (nodes st ! index) \<or> node_type (nodes st ! index) \<noteq> FS_FILE
        \<or> node_size (nodes st ! index) > capacity then None
      else
        let nd = nodes st ! index in
        if node_size nd > 0 then
          (if ram_content nd = 0 then None else Some (bytes_at (fs_heap st) (ram_content nd) (node_size nd)))
        else Some [])"

definition backend_read_file :: "'d fs \<Rightarrow> nat \<Rightarrow> nat \<Rightarrow> u8 list option \<times> 'd fs" where
  "backend_read_file st index capacity =
     (if filesystem_persistent_backend st then
        (let (r, d) = rootfs_disk_read_file (disk st) index capacity;
             st = st\<lparr>disk := d\<rparr>
         in case r of None \<Rightarrow> (None, st\<lparr>filesystem_storage_error := True\<rparr>) | Some bs \<Rightarrow> (Some bs, st))
      else (ram_read_file st index capacity, st))"

definition backend_write_file :: "'d fs \<Rightarrow> nat \<Rightarrow> u8 list option \<Rightarrow> nat \<Rightarrow> (bool \<times> 'd fs) option" where
  "backend_write_file st index data siz =
     (if filesystem_persistent_backend st then
        (let (ok, d) = rootfs_disk_write_file (disk st) index data siz;
             st = st\<lparr>disk := d\<rparr>
         in if \<not> ok then Some (False, st\<lparr>filesystem_storage_error := True\<rparr>)
            else Some (True, set_node st index ((nodes st ! index)\<lparr>node_size := siz\<rparr>)))
      else ram_write_file st index data siz)"

section \<open>Adding nodes\<close>

definition add_node_absolute :: "'d fs \<Rightarrow> string \<Rightarrow> FsType \<Rightarrow> FsResult \<times> 'd fs" where
  "add_node_absolute st path type =
     (case find_node st path of
        Some _ \<Rightarrow> (FS_RESULT_ALREADY_EXISTS, st)
      | None \<Rightarrow>
          (case find_free_node st of
             None \<Rightarrow> (FS_RESULT_NO_SPACE, st)
           | Some index \<Rightarrow>
               (let st = reset_node st index;
                    (copied, n) = root_strlcpy (node_path (nodes st ! index)) path ROOT_PATH_MAX;
                    st = set_node st index ((nodes st ! index)\<lparr>node_path := copied\<rparr>)
                in if n \<ge> ROOT_PATH_MAX then (FS_RESULT_INVALID_PATH, st)
                   else
                     let st = set_node st index ((nodes st ! index)
                           \<lparr>node_type := type, node_size := 0, ram_content := 0, node_used := True\<rparr>);
                         (ok, st) = persist_node st index
                     in if \<not> ok then (FS_RESULT_IO_ERROR, reset_node st index)
                        else (FS_RESULT_OK, st))))"

section \<open>Paths\<close>

definition path_is_inside :: "string \<Rightarrow> string \<Rightarrow> bool" where
  "path_is_inside base candidate =
     (if root_streq base ''/'' then chead candidate = SLASH
      else
        let len = root_strlen base in
        if root_strncmp base candidate len \<noteq> 0 then False
        else chead (drop len candidate) = NUL \<or> chead (drop len candidate) = SLASH)"

primrec parent_scan :: "string \<Rightarrow> nat \<Rightarrow> nat" where
  "parent_scan output 0 = 0"
| "parent_scan output (Suc n) = (if output ! n \<noteq> SLASH then parent_scan output n else Suc n)"

definition get_parent_path :: "string option \<Rightarrow> string option" where
  "get_parent_path path =
     (case path of
        None \<Rightarrow> None
      | Some path \<Rightarrow>
          if root_streq path ''/'' then None
          else
            let (output, n) = root_strlcpy [] path ROOT_PATH_MAX in
            if n \<ge> ROOT_PATH_MAX then None
            else
              let len = parent_scan output (root_strlen output) in
              if len \<le> 1 then Some ''/'' else Some (take (len - 1) output))"

definition append_component :: "string \<Rightarrow> string \<Rightarrow> string option" where
  "append_component path component =
     (let path_length = root_strlen path;
          component_length = root_strlen component;
          root = root_streq path ''/'';
          required = path_length + component_length + (if root then 0 else 1) + 1
      in if required > ROOT_PATH_MAX then None
         else Some (take path_length path @ (if root then [] else [SLASH]) @ take component_length component))"

lemma ensure_decreases:
  assumes "path_component 0 cursor = Some (w, r)" "chead cursor \<noteq> NUL"
  shows "length (skip_slashes r) < length cursor"
proof (cases "chead cursor = SLASH")
  case True
  then obtain cs where "cursor = SLASH # cs" by (cases cursor) auto
  with assms show ?thesis using length_skip_slashes [of cs] by (auto split: if_splits)
next
  case False
  with path_component_rest [OF assms(1)] assms(2) have "cursor = w @ r" "w \<noteq> []" by auto
  then show ?thesis using length_skip_slashes [of r] by (cases w) auto
qed

function ensure_loop :: "'d fs \<Rightarrow> string \<Rightarrow> string \<Rightarrow> FsResult \<times> 'd fs" where
  "ensure_loop st current cursor =
     (if chead cursor = NUL then (FS_RESULT_OK, st)
      else case path_component 0 cursor of
             None \<Rightarrow> (FS_RESULT_INVALID_PATH, st)
           | Some (component, rest) \<Rightarrow>
               (let cursor = skip_slashes rest in
                case append_component current component of
                  None \<Rightarrow> (FS_RESULT_INVALID_PATH, st)
                | Some current \<Rightarrow>
                    (case find_node st current of
                       Some index \<Rightarrow>
                         if node_type (nodes st ! index) \<noteq> FS_DIRECTORY then (FS_RESULT_NOT_DIRECTORY, st)
                         else ensure_loop st current cursor
                     | None \<Rightarrow>
                         (let (result, st) = add_node_absolute st current FS_DIRECTORY in
                          if result \<noteq> FS_RESULT_OK then (result, st)
                          else ensure_loop st current cursor))))"
  by pat_completeness auto
termination
  by (relation "measure (\<lambda>(st, cur, cursor). length cursor)") (auto intro: ensure_decreases)

declare ensure_loop.simps [simp del]

definition ensure_directory_absolute :: "'d fs \<Rightarrow> string \<Rightarrow> FsResult \<times> 'd fs" where
  "ensure_directory_absolute st absolute_path =
     (if root_streq absolute_path ''/'' then (FS_RESULT_OK, st)
      else ensure_loop st ''/'' (skip_slashes absolute_path))"

section \<open>Mounting\<close>

primrec initial_loop :: "(string \<times> FsType) list \<Rightarrow> 'd fs \<Rightarrow> FsResult \<times> 'd fs" where
  "initial_loop [] st = (FS_RESULT_OK, st)"
| "initial_loop (n # ns) st =
     (let (result, st) = add_node_absolute st (fst n) (snd n) in
      if result \<noteq> FS_RESULT_OK \<and> result \<noteq> FS_RESULT_ALREADY_EXISTS then (result, st)
      else initial_loop ns st)"

definition create_initial_tree :: "'d fs \<Rightarrow> FsResult \<times> 'd fs" where
  "create_initial_tree st = initial_loop initial_nodes st"

text \<open>The load loop yields \<open>None\<close> where the C function returns false, else the flag \<open>any_node\<close>.\<close>

primrec load_loop :: "nat list \<Rightarrow> bool \<Rightarrow> 'd fs \<Rightarrow> bool option \<times> 'd fs" where
  "load_loop [] any_node st = (Some any_node, st)"
| "load_loop (i # is) any_node st =
     (let (r, d) = rootfs_disk_read_node (disk st) i;
          st = st\<lparr>disk := d\<rparr>
      in case r of
           None \<Rightarrow> (None, st\<lparr>filesystem_storage_error := True\<rparr>)
         | Some disk_node \<Rightarrow>
             if \<not> dn_used disk_node then load_loop is any_node st
             else if chead (dn_path disk_node) \<noteq> SLASH \<or> dn_size disk_node > FS_MAX_FILE_SIZE then
               (None, st\<lparr>filesystem_storage_error := True\<rparr>)
             else
               let (copied, n) = root_strlcpy (node_path (nodes st ! i)) (dn_path disk_node) ROOT_PATH_MAX;
                   st = set_node st i ((nodes st ! i)\<lparr>node_used := True, node_type := disk_type_to_fs (dn_type disk_node),
                          node_size := dn_size disk_node, ram_content := 0, node_path := copied\<rparr>)
               in if n \<ge> ROOT_PATH_MAX then (None, st\<lparr>filesystem_storage_error := True\<rparr>)
                  else load_loop is True st)"

definition load_persistent_nodes :: "'d fs \<Rightarrow> bool \<times> 'd fs" where
  "load_persistent_nodes st =
     (case load_loop [0..<FS_MAX_NODES] False st of
        (None, st) \<Rightarrow> (False, st)
      | (Some any_node, st) \<Rightarrow>
          if \<not> any_node then (let (result, st) = create_initial_tree st in (result = FS_RESULT_OK, st))
          else case find_node st ''/'' of
                 None \<Rightarrow> (False, st\<lparr>filesystem_storage_error := True\<rparr>)
               | Some root_index \<Rightarrow>
                   if node_type (nodes st ! root_index) \<noteq> FS_DIRECTORY then
                     (False, st\<lparr>filesystem_storage_error := True\<rparr>)
                   else
                     let (tree_result, st) = create_initial_tree st in
                     if tree_result \<noteq> FS_RESULT_OK \<and> tree_result \<noteq> FS_RESULT_ALREADY_EXISTS then
                       (False, st\<lparr>filesystem_storage_error := True\<rparr>)
                     else (True, st))"

definition filesystem_init :: "'d fs \<Rightarrow> 'd fs" where
  "filesystem_init st =
     (let st = reset_all_nodes st;
          st = st\<lparr>filesystem_storage_error := False, filesystem_persistent_backend := rootfs_disk_ready (disk st)\<rparr>;
          st = (if filesystem_persistent_backend st then
                  (let (ok, st) = load_persistent_nodes st in
                   if \<not> ok then
                     (let st = st\<lparr>filesystem_persistent_backend := False\<rparr>;
                          st = reset_all_nodes st
                      in snd (create_initial_tree st))
                   else st)
                else snd (create_initial_tree st))
      in case find_node st ROOTOS_DEFAULT_HOME of
           Some _ \<Rightarrow> st\<lparr>current_directory := fst (root_strlcpy (current_directory st) ROOTOS_DEFAULT_HOME ROOT_PATH_MAX)\<rparr>
         | None \<Rightarrow> st\<lparr>current_directory := fst (root_strlcpy (current_directory st) ''/'' ROOT_PATH_MAX)\<rparr>)"

section \<open>Queries and navigation\<close>

definition filesystem_is_persistent :: "'d fs \<Rightarrow> bool" where
  "filesystem_is_persistent st = filesystem_persistent_backend st"

definition filesystem_storage_faulted :: "'d fs \<Rightarrow> bool" where
  "filesystem_storage_faulted st = filesystem_storage_error st"

definition filesystem_node_count :: "'d fs \<Rightarrow> nat" where
  "filesystem_node_count st = length (filter node_used (nodes st))"

definition filesystem_free_node_count :: "'d fs \<Rightarrow> nat" where
  "filesystem_free_node_count st = count_free_nodes st"

definition filesystem_exists :: "'d fs \<Rightarrow> string option \<Rightarrow> bool" where
  "filesystem_exists st path =
     (case root_path_resolve (current_directory st) path ROOT_PATH_MAX of
        None \<Rightarrow> False
      | Some resolved \<Rightarrow> find_node st resolved \<noteq> None)"

definition filesystem_is_directory :: "'d fs \<Rightarrow> string option \<Rightarrow> bool" where
  "filesystem_is_directory st path =
     (case root_path_resolve (current_directory st) path ROOT_PATH_MAX of
        None \<Rightarrow> False
      | Some resolved \<Rightarrow>
          (case find_node st resolved of
             None \<Rightarrow> False
           | Some index \<Rightarrow> node_type (nodes st ! index) = FS_DIRECTORY))"

definition filesystem_change_directory :: "'d fs \<Rightarrow> string option \<Rightarrow> bool \<times> 'd fs" where
  "filesystem_change_directory st path =
     (case root_path_resolve (current_directory st) path ROOT_PATH_MAX of
        None \<Rightarrow> (False, st)
      | Some resolved \<Rightarrow>
          (case find_node st resolved of
             None \<Rightarrow> (False, st)
           | Some index \<Rightarrow>
               if node_type (nodes st ! index) \<noteq> FS_DIRECTORY then (False, st)
               else (True, st\<lparr>current_directory := fst (root_strlcpy (current_directory st) resolved ROOT_PATH_MAX)\<rparr>)))"

definition filesystem_print_current_directory :: "'d fs \<Rightarrow> 'd fs" where
  "filesystem_print_current_directory st = st\<lparr>printed := printed st @ current_directory st @ ''\<newline>''\<rparr>"

text \<open>One round of the listing loop: the text printed for a node, if it is a direct child.\<close>

definition list_entry :: "string \<Rightarrow> FsNode \<Rightarrow> string option" where
  "list_entry resolved nd =
     (if node_used nd \<and> root_path_is_direct_child resolved (node_path nd) then
        Some (root_path_basename (Some (node_path nd)) @ (if node_type nd = FS_DIRECTORY then ''/'' else []) @ ''\<newline>'')
      else None)"

definition filesystem_list :: "'d fs \<Rightarrow> string option \<Rightarrow> bool \<times> 'd fs" where
  "filesystem_list st path =
     (case root_path_resolve (current_directory st) path ROOT_PATH_MAX of
        None \<Rightarrow> (False, st)
      | Some resolved \<Rightarrow>
          (case find_node st resolved of
             None \<Rightarrow> (False, st)
           | Some directory_index \<Rightarrow>
               if node_type (nodes st ! directory_index) \<noteq> FS_DIRECTORY then (False, st)
               else
                 let entries = List.map_filter (list_entry resolved) (nodes st);
                     text = (if entries = [] then ''(vacio)\<newline>'' else concat entries)
                 in (True, st\<lparr>printed := printed st @ text\<rparr>)))"

definition filesystem_find_directories :: "'d fs \<Rightarrow> string option \<Rightarrow> nat \<times> 'd fs" where
  "filesystem_find_directories st name =
     (case name of
        None \<Rightarrow> (0, st)
      | Some name \<Rightarrow>
          if chead name = NUL then (0, st)
          else
            let found = filter (\<lambda>nd. node_used nd \<and> node_type nd = FS_DIRECTORY
                  \<and> root_streq (root_path_basename (Some (node_path nd))) name) (nodes st)
            in (length found, st\<lparr>printed := printed st @ concat (map (\<lambda>nd. node_path nd @ ''\<newline>'') found)\<rparr>))"

section \<open>Creation\<close>

definition filesystem_create_directory :: "'d fs \<Rightarrow> string option \<Rightarrow> FsResult \<times> 'd fs" where
  "filesystem_create_directory st path =
     (case path of
        None \<Rightarrow> (FS_RESULT_INVALID_PATH, st)
      | Some p \<Rightarrow>
          if chead p = NUL then (FS_RESULT_INVALID_PATH, st)
          else case root_path_resolve (current_directory st) path ROOT_PATH_MAX of
                 None \<Rightarrow> (FS_RESULT_INVALID_PATH, st)
               | Some resolved \<Rightarrow>
                   if find_node st resolved \<noteq> None then (FS_RESULT_ALREADY_EXISTS, st)
                   else ensure_directory_absolute st resolved)"

definition filesystem_create_file :: "'d fs \<Rightarrow> string option \<Rightarrow> FsResult \<times> 'd fs" where
  "filesystem_create_file st path =
     (case path of
        None \<Rightarrow> (FS_RESULT_INVALID_PATH, st)
      | Some p \<Rightarrow>
          if chead p = NUL then (FS_RESULT_INVALID_PATH, st)
          else case root_path_resolve (current_directory st) path ROOT_PATH_MAX of
                 None \<Rightarrow> (FS_RESULT_INVALID_PATH, st)
               | Some resolved \<Rightarrow>
                   if root_streq resolved ''/'' then (FS_RESULT_INVALID_PATH, st)
                   else if find_node st resolved \<noteq> None then (FS_RESULT_ALREADY_EXISTS, st)
                   else case get_parent_path (Some resolved) of
                          None \<Rightarrow> (FS_RESULT_INVALID_PATH, st)
                        | Some parent \<Rightarrow>
                            (let (parent_result, st) = ensure_directory_absolute st parent in
                             if parent_result \<noteq> FS_RESULT_OK then (parent_result, st)
                             else add_node_absolute st resolved FS_FILE))"

section \<open>Removal\<close>

primrec remove_loop :: "string \<Rightarrow> nat list \<Rightarrow> 'd fs \<Rightarrow> FsResult \<times> 'd fs" where
  "remove_loop resolved [] st = (FS_RESULT_OK, st)"
| "remove_loop resolved (i # is) st =
     (if \<not> node_used (nodes st ! i) then remove_loop resolved is st
      else if path_is_inside resolved (node_path (nodes st ! i)) then
        (let (ok, st) = clear_persisted_node st i in
         if \<not> ok then (FS_RESULT_IO_ERROR, st)
         else remove_loop resolved is (reset_node st i))
      else remove_loop resolved is st)"

definition filesystem_remove :: "'d fs \<Rightarrow> string option \<Rightarrow> bool \<Rightarrow> FsResult \<times> 'd fs" where
  "filesystem_remove st path recursive =
     (case root_path_resolve (current_directory st) path ROOT_PATH_MAX of
        None \<Rightarrow> (FS_RESULT_INVALID_PATH, st)
      | Some resolved \<Rightarrow>
          if root_streq resolved ''/'' then (FS_RESULT_BUSY, st)
          else case find_node st resolved of
                 None \<Rightarrow> (FS_RESULT_NOT_FOUND, st)
               | Some index \<Rightarrow>
                   if path_is_inside resolved (current_directory st) then (FS_RESULT_BUSY, st)
                   else if node_type (nodes st ! index) = FS_FILE then
                     (let (ok, st) = clear_persisted_node st index in
                      if \<not> ok then (FS_RESULT_IO_ERROR, st)
                      else (FS_RESULT_OK, reset_node st index))
                   else
                     let has_children = (\<exists>i\<in>{0..<FS_MAX_NODES}. node_used (nodes st ! i) \<and> i \<noteq> index
                           \<and> path_is_inside resolved (node_path (nodes st ! i)))
                     in if has_children \<and> \<not> recursive then (FS_RESULT_DIRECTORY_NOT_EMPTY, st)
                        else remove_loop resolved [0..<FS_MAX_NODES] st)"

section \<open>Copying and moving\<close>

definition inside_node :: "string \<Rightarrow> FsNode \<Rightarrow> bool" where
  "inside_node source_path nd = (node_used nd \<and> path_is_inside source_path (node_path nd))"

definition targets_fit :: "string \<Rightarrow> string \<Rightarrow> 'd fs \<Rightarrow> bool" where
  "targets_fit source_path destination_path st =
     (\<forall>nd\<in>set (nodes st). inside_node source_path nd \<longrightarrow>
        \<not> (root_strlen destination_path + root_strlen (drop (root_strlen source_path) (node_path nd)) \<ge> ROOT_PATH_MAX))"

definition join_target :: "string \<Rightarrow> string \<Rightarrow> string" where
  "join_target destination_path suffix_text =
     (let target = fst (root_strlcpy [] destination_path ROOT_PATH_MAX);
          target_length = root_strlen target
      in take target_length target @ fst (root_strlcpy [] suffix_text (ROOT_PATH_MAX - target_length)))"

text \<open>One round of the copy loop, for a node inside the source: slot \<open>i\<close> is duplicated as \<open>target\<close>.\<close>

definition copy_one :: "string \<Rightarrow> nat \<Rightarrow> 'd fs \<Rightarrow> (FsResult \<times> 'd fs) option" where
  "copy_one target i st =
     (let source_type = node_type (nodes st ! i);
          source_size = node_size (nodes st ! i);
          (data, st) = (if source_type = FS_FILE \<and> source_size > 0
                        then backend_read_file st i FS_MAX_FILE_SIZE else (Some [], st))
      in case data of
           None \<Rightarrow> Some (FS_RESULT_IO_ERROR, st)
         | Some fs_copy_buffer \<Rightarrow>
             if source_type = FS_FILE \<and> source_size > 0 \<and> length fs_copy_buffer \<noteq> source_size then
               Some (FS_RESULT_IO_ERROR, st)
             else
               let (result, st) = add_node_absolute st target source_type in
               if result \<noteq> FS_RESULT_OK then Some (result, st)
               else if source_type = FS_FILE then
                 (case find_node st target of
                    None \<Rightarrow> Some (FS_RESULT_IO_ERROR, st)
                  | Some target_index \<Rightarrow>
                      do {
                        (ok, st) \<leftarrow> backend_write_file st target_index (Some fs_copy_buffer) source_size;
                        if \<not> ok then Some (FS_RESULT_IO_ERROR, st) else Some (FS_RESULT_OK, st)
                      })
               else Some (FS_RESULT_OK, st))"

primrec copy_loop :: "string \<Rightarrow> string \<Rightarrow> nat list \<Rightarrow> 'd fs \<Rightarrow> (FsResult \<times> 'd fs) option" where
  "copy_loop source_path destination_path [] st = Some (FS_RESULT_OK, st)"
| "copy_loop source_path destination_path (i # is) st =
     (if \<not> inside_node source_path (nodes st ! i) then copy_loop source_path destination_path is st
      else do {
        (result, st) \<leftarrow> copy_one (join_target destination_path (drop (root_strlen source_path) (node_path (nodes st ! i)))) i st;
        if result \<noteq> FS_RESULT_OK then Some (result, st) else copy_loop source_path destination_path is st
      })"

definition filesystem_copy :: "'d fs \<Rightarrow> string option \<Rightarrow> string option \<Rightarrow> (FsResult \<times> 'd fs) option" where
  "filesystem_copy st source destination =
     (case (root_path_resolve (current_directory st) source ROOT_PATH_MAX,
            root_path_resolve (current_directory st) destination ROOT_PATH_MAX) of
        (Some source_path, Some destination_path) \<Rightarrow>
          (case find_node st source_path of
             None \<Rightarrow> Some (FS_RESULT_NOT_FOUND, st)
           | Some source_index \<Rightarrow>
               if find_node st destination_path \<noteq> None then Some (FS_RESULT_ALREADY_EXISTS, st)
               else if node_type (nodes st ! source_index) = FS_DIRECTORY \<and> path_is_inside source_path destination_path
               then Some (FS_RESULT_INVALID_PATH, st)
               else case get_parent_path (Some destination_path) of
                      None \<Rightarrow> Some (FS_RESULT_INVALID_PATH, st)
                    | Some parent \<Rightarrow>
                        (let (parent_result, st) = ensure_directory_absolute st parent in
                         if parent_result \<noteq> FS_RESULT_OK then Some (parent_result, st)
                         else
                           let required = length (filter (inside_node source_path) (nodes st)) in
                           if count_free_nodes st < required then Some (FS_RESULT_NO_SPACE, st)
                           else if \<not> targets_fit source_path destination_path st then Some (FS_RESULT_INVALID_PATH, st)
                           else copy_loop source_path destination_path [0..<FS_MAX_NODES] st))
      | _ \<Rightarrow> Some (FS_RESULT_INVALID_PATH, st))"

primrec move_loop :: "string \<Rightarrow> string \<Rightarrow> nat list \<Rightarrow> 'd fs \<Rightarrow> FsResult \<times> 'd fs" where
  "move_loop source_path destination_path [] st = (FS_RESULT_OK, st)"
| "move_loop source_path destination_path (i # is) st =
     (if \<not> inside_node source_path (nodes st ! i) then move_loop source_path destination_path is st
      else
        let old_path = fst (root_strlcpy [] (node_path (nodes st ! i)) ROOT_PATH_MAX);
            target = join_target destination_path (drop (root_strlen source_path) (node_path (nodes st ! i)));
            st = set_node st i ((nodes st ! i)\<lparr>node_path := fst (root_strlcpy (node_path (nodes st ! i)) target ROOT_PATH_MAX)\<rparr>);
            (ok, st) = persist_node st i
        in if \<not> ok then
             (FS_RESULT_IO_ERROR,
              set_node st i ((nodes st ! i)\<lparr>node_path := fst (root_strlcpy (node_path (nodes st ! i)) old_path ROOT_PATH_MAX)\<rparr>))
           else move_loop source_path destination_path is st)"

definition filesystem_move :: "'d fs \<Rightarrow> string option \<Rightarrow> string option \<Rightarrow> FsResult \<times> 'd fs" where
  "filesystem_move st source destination =
     (case (root_path_resolve (current_directory st) source ROOT_PATH_MAX,
            root_path_resolve (current_directory st) destination ROOT_PATH_MAX) of
        (Some source_path, Some destination_path) \<Rightarrow>
          (case find_node st source_path of
             None \<Rightarrow> (FS_RESULT_NOT_FOUND, st)
           | Some source_index \<Rightarrow>
               if root_streq source_path ''/'' then (FS_RESULT_BUSY, st)
               else if find_node st destination_path \<noteq> None then (FS_RESULT_ALREADY_EXISTS, st)
               else if node_type (nodes st ! source_index) = FS_DIRECTORY \<and> path_is_inside source_path destination_path
               then (FS_RESULT_INVALID_PATH, st)
               else case get_parent_path (Some destination_path) of
                      None \<Rightarrow> (FS_RESULT_INVALID_PATH, st)
                    | Some parent \<Rightarrow>
                        (let (parent_result, st) = ensure_directory_absolute st parent in
                         if parent_result \<noteq> FS_RESULT_OK then (parent_result, st)
                         else if \<not> targets_fit source_path destination_path st then (FS_RESULT_INVALID_PATH, st)
                         else
                           let update_current = path_is_inside source_path (current_directory st);
                               new_current = join_target destination_path (drop (root_strlen source_path) (current_directory st));
                               (result, st) = move_loop source_path destination_path [0..<FS_MAX_NODES] st
                           in if result \<noteq> FS_RESULT_OK then (result, st)
                              else if update_current then
                                (FS_RESULT_OK, st\<lparr>current_directory := fst (root_strlcpy (current_directory st) new_current ROOT_PATH_MAX)\<rparr>)
                              else (FS_RESULT_OK, st)))
      | _ \<Rightarrow> (FS_RESULT_INVALID_PATH, st))"

section \<open>File contents\<close>

text \<open>The bytes delivered in the output buffer, without the terminator written behind them.\<close>

definition filesystem_read_file :: "'d fs \<Rightarrow> string option \<Rightarrow> nat \<Rightarrow> (FsResult \<times> u8 list) \<times> 'd fs" where
  "filesystem_read_file st path output_size =
     (if path = None \<or> output_size = 0 then ((FS_RESULT_INVALID_PATH, []), st)
      else case root_path_resolve (current_directory st) path ROOT_PATH_MAX of
             None \<Rightarrow> ((FS_RESULT_INVALID_PATH, []), st)
           | Some resolved \<Rightarrow>
               (case find_node st resolved of
                  None \<Rightarrow> ((FS_RESULT_NOT_FOUND, []), st)
                | Some index \<Rightarrow>
                    if node_type (nodes st ! index) \<noteq> FS_FILE then ((FS_RESULT_NOT_FILE, []), st)
                    else if u32_add (node_size (nodes st ! index)) 1 > output_size then ((FS_RESULT_NO_SPACE, []), st)
                    else case backend_read_file st index (output_size - 1) of
                           (None, st) \<Rightarrow> ((FS_RESULT_IO_ERROR, []), st)
                         | (Some output, st) \<Rightarrow> ((FS_RESULT_OK, output), st)))"

definition filesystem_write_file :: "'d fs \<Rightarrow> string option \<Rightarrow> u8 list option \<Rightarrow> nat \<Rightarrow> (FsResult \<times> 'd fs) option" where
  "filesystem_write_file st path data siz =
     (if path = None \<or> (data = None \<and> siz \<noteq> 0) then Some (FS_RESULT_INVALID_PATH, st)
      else if siz > FS_MAX_FILE_SIZE then Some (FS_RESULT_FILE_TOO_LARGE, st)
      else case root_path_resolve (current_directory st) path ROOT_PATH_MAX of
             None \<Rightarrow> Some (FS_RESULT_INVALID_PATH, st)
           | Some resolved \<Rightarrow>
               (case find_node st resolved of
                  None \<Rightarrow> Some (FS_RESULT_NOT_FOUND, st)
                | Some index \<Rightarrow>
                    if node_type (nodes st ! index) \<noteq> FS_FILE then Some (FS_RESULT_NOT_FILE, st)
                    else do {
                      (ok, st) \<leftarrow> backend_write_file st index data siz;
                      if \<not> ok then
                        Some (if filesystem_persistent_backend st then FS_RESULT_IO_ERROR else FS_RESULT_NO_SPACE, st)
                      else Some (FS_RESULT_OK, st)
                    }))"

definition filesystem_append_file :: "'d fs \<Rightarrow> string option \<Rightarrow> u8 list option \<Rightarrow> nat \<Rightarrow> (FsResult \<times> 'd fs) option" where
  "filesystem_append_file st path data siz =
     (if path = None \<or> (data = None \<and> siz \<noteq> 0) then Some (FS_RESULT_INVALID_PATH, st)
      else case root_path_resolve (current_directory st) path ROOT_PATH_MAX of
             None \<Rightarrow> Some (FS_RESULT_INVALID_PATH, st)
           | Some resolved \<Rightarrow>
               (case find_node st resolved of
                  None \<Rightarrow> Some (FS_RESULT_NOT_FOUND, st)
                | Some index \<Rightarrow>
                    if node_type (nodes st ! index) \<noteq> FS_FILE then Some (FS_RESULT_NOT_FILE, st)
                    else if u32_add (node_size (nodes st ! index)) siz > FS_MAX_FILE_SIZE then
                      Some (FS_RESULT_FILE_TOO_LARGE, st)
                    else case backend_read_file st index FS_MAX_FILE_SIZE of
                           (None, st) \<Rightarrow> Some (FS_RESULT_IO_ERROR, st)
                         | (Some old, st) \<Rightarrow>
                             if siz > 0 \<and> length old + siz > FS_MAX_FILE_SIZE + 1 then None
                             else
                               let fs_io_buffer = old @ payload data siz;
                                   new_size = u32_add (length old) siz
                               in do {
                                    (ok, st) \<leftarrow> backend_write_file st index (Some fs_io_buffer) new_size;
                                    if \<not> ok then
                                      Some (if filesystem_persistent_backend st then FS_RESULT_IO_ERROR else FS_RESULT_NO_SPACE, st)
                                    else Some (FS_RESULT_OK, st)
                                  }))"

definition filesystem_file_size :: "'d fs \<Rightarrow> string option \<Rightarrow> nat option" where
  "filesystem_file_size st path =
     (if path = None then None
      else case root_path_resolve (current_directory st) path ROOT_PATH_MAX of
             None \<Rightarrow> None
           | Some resolved \<Rightarrow>
               (case find_node st resolved of
                  None \<Rightarrow> None
                | Some index \<Rightarrow>
                    if node_type (nodes st ! index) \<noteq> FS_FILE then None else Some (node_size (nodes st ! index))))"

end
