(* ===== verification/Root_FS_Table.thy ===== *)
theory Root_FS_Table
  imports Root_Filesystem
begin

text \<open>
  The node table as a tree. \<open>view f ns p\<close> looks up a component list in the table and projects the node
  found with \<open>f\<close> (its type, its contents, \<dots>); \<open>table_ok\<close> is the well-formedness of the table. One lemma
  says what a view becomes when a slot changes; everything the operations do to the table is an
  instance of it. The path helpers of the C file are shown to be prefix test, parent and append on
  component lists.
\<close>

section \<open>Path helpers on component lists\<close>

lemma streq_root [simp]: "wf_path p \<Longrightarrow> root_streq (render p) ''/'' \<longleftrightarrow> p = []"
proof -
  assume p: "wf_path p"
  have "root_streq (render p) (render []) \<longleftrightarrow> render p = render []"
    using p NUL_render [of p] NUL_render [of "[]"] by (intro root_streq_exact) simp_all
  then show ?thesis using p render_inj [of p "[]"] by (simp add: render_def)
qed

lemma path_is_inside_render:
  assumes "wf_path ps" "wf_path cs"
  shows "path_is_inside (render ps) (render cs) \<longleftrightarrow> prefix ps cs"
proof (cases "ps = []")
  case True
  then show ?thesis using streq_root [of "[]"] by (cases cs) (simp_all add: path_is_inside_def render_def)
next
  case False
  have "cstr (render ps) = render ps" "cstr (render cs) = render cs" using assms by (simp_all add: cstr_render)
  then show ?thesis
    using False assms render_cut [OF assms(1) False assms(2)]
    by (auto simp: path_is_inside_def root_strncmp_eq_0 strlen_render Let_def)
qed

lemma parent_scan_stops:
  assumes "SLASH \<notin> set c"
  shows "k \<le> length c \<Longrightarrow> parent_scan (x @ SLASH # c) (length x + 1 + k) = length x + 1"
proof (induction k)
  case (Suc k)
  then have "(x @ SLASH # c) ! (length x + 1 + k) = c ! k" by (simp add: nth_append)
  moreover have "c ! k \<noteq> SLASH" using assms Suc.prems by (metis Suc_le_lessD nth_mem)
  ultimately show ?case using Suc by simp
qed (simp add: nth_append)

lemma get_parent_path_render:
  assumes "wf_path p" "length (render p) < ROOT_PATH_MAX"
  shows "get_parent_path (Some (render p)) = (if p = [] then None else Some (render (butlast p)))"
proof (cases p rule: rev_cases)
  case Nil
  then show ?thesis using assms streq_root [of "[]"] by (simp add: get_parent_path_def)
next
  case (snoc q c)
  have c: "SLASH \<notin> set c" "c \<noteq> []" using assms snoc by (auto simp: wf_comp_def)
  define x where "x = (if q = [] then [] else render q)"
  have rp: "render p = x @ SLASH # c" by (simp add: snoc x_def render_def)
  have "parent_scan (render p) (length (render p)) = length x + 1"
    using parent_scan_stops [OF c(1), of "length c" x] by (simp add: rp)
  moreover have "cstr (render p) = render p" "root_strlen (render p) = length (render p)"
    using assms(1) by (simp_all add: cstr_render strlen_render)
  moreover have "q \<noteq> [] \<Longrightarrow> x \<noteq> []" by (simp add: x_def render_def)
  ultimately show ?thesis
    using assms snoc streq_root [of p] by (auto simp: get_parent_path_def root_strlcpy_spec Let_def rp x_def render_def rootos_consts)
qed

lemma append_component_render:
  assumes "wf_path p" "NUL \<notin> set c"
  shows "append_component (render p) c = (if length (render (p @ [c])) \<ge> ROOT_PATH_MAX then None else Some (render (p @ [c])))"
proof -
  have s: "root_strlen (render p) = length (render p)" "root_strlen c = length c"
    using assms by (simp_all add: strlen_render root_strlen_exact)
  show ?thesis
  proof (cases "p = []")
    case True
    then show ?thesis using s assms streq_root [of "[]"] by (auto simp: append_component_def render_def Let_def)
  next
    case False
    then have "\<not> root_streq (render p) ''/''" using assms(1) by simp
    then show ?thesis using s False by (simp add: append_component_def render_def Let_def)
  qed
qed

lemma suffix_text:
  assumes "wf_path s" "s \<noteq> []"
  shows "drop (root_strlen (render s)) (render (s @ z)) = rtail z"
  using assms by (simp add: strlen_render drop_render)

lemma join_target_render:
  assumes "wf_path d" "d \<noteq> []" "wf_path z" "length (render (d @ z)) < ROOT_PATH_MAX"
  shows "join_target (render d) (rtail z) = render (d @ z)"
proof -
  have "render (d @ z) = render d @ rtail z" using assms(2) by (simp add: render_rtail)
  moreover have "cstr (rtail z) = rtail z" using NUL_rtail [OF assms(3)] by (rule cstr_id)
  ultimately show ?thesis
    using assms by (simp add: join_target_def root_strlcpy_spec cstr_render strlen_render Let_def rootos_consts)
qed

section \<open>The table\<close>

interpretation ft: slot_table node_used node_path zero_node
  by unfold_locales (simp add: zero_node_def)

definition named :: "FsNode \<Rightarrow> path \<Rightarrow> bool" where
  "named nd p \<longleftrightarrow> node_used nd \<and> wf_path p \<and> node_path nd = render p"

definition node_ok :: "FsNode \<Rightarrow> bool" where
  "node_ok nd \<longleftrightarrow> (node_used nd \<longrightarrow> (\<exists>p. named nd p) \<and> length (node_path nd) < ROOT_PATH_MAX)
     \<and> (\<not> node_used nd \<longrightarrow> ram_content nd = 0)"

definition table_ok :: "FsNode list \<Rightarrow> bool" where
  "table_ok ns \<longleftrightarrow> length ns = FS_MAX_NODES \<and> (\<forall>nd\<in>set ns. node_ok nd) \<and> ft.keys_unique ns"

definition view :: "(FsNode \<Rightarrow> 'a) \<Rightarrow> FsNode list \<Rightarrow> path \<Rightarrow> 'a option" where
  "view f ns p = (if wf_path p then map_option (\<lambda>i. f (ns ! i)) (find_slot (\<lambda>nd. node_used nd \<and> node_path nd = render p) ns) else None)"

lemma zero_node_simps [simp]: "node_used zero_node = False" "ram_content zero_node = 0" "\<not> named zero_node p" "node_ok zero_node"
  by (simp_all add: zero_node_def named_def node_ok_def)

lemma named_unique: "named nd p \<Longrightarrow> named nd q \<Longrightarrow> p = q"
  using render_inj by (auto simp: named_def)

lemma table_length: "table_ok ns \<Longrightarrow> length ns = FS_MAX_NODES"
  by (simp add: table_ok_def)

lemma table_node: "table_ok ns \<Longrightarrow> i < FS_MAX_NODES \<Longrightarrow> node_ok (ns ! i)"
  by (simp add: table_ok_def)

lemma table_same:
  assumes "table_ok ns" "i < FS_MAX_NODES" "j < FS_MAX_NODES" "named (ns ! i) p" "named (ns ! j) p"
  shows "i = j"
  using assms ft.keys_uniqueD [of ns i j] by (simp add: table_ok_def named_def)

lemma table_used: "table_ok ns \<Longrightarrow> i < FS_MAX_NODES \<Longrightarrow> node_used (ns ! i) \<Longrightarrow> \<exists>p. named (ns ! i) p \<and> length (render p) < ROOT_PATH_MAX"
  using table_node [of ns i] by (auto simp: node_ok_def named_def)

lemma find_node_render:
  assumes "table_ok (nodes st)" "wf_path p"
  shows "find_node st (render p) = find_slot (\<lambda>nd. node_used nd \<and> node_path nd = render p) (nodes st)"
  unfolding find_node_def
proof (rule find_slot_cong)
  fix nd
  assume "nd \<in> set (nodes st)"
  then have "node_used nd \<longrightarrow> NUL \<notin> set (node_path nd)"
    using assms(1) by (auto simp: table_ok_def node_ok_def named_def NUL_render)
  then show "(node_used nd \<and> root_streq (node_path nd) (render p)) = (node_used nd \<and> node_path nd = render p)"
    using NUL_render [OF assms(2)] root_streq_exact by blast
qed

lemma find_node_SomeD:
  assumes "table_ok (nodes st)" "wf_path p" "find_node st (render p) = Some i"
  shows "i < FS_MAX_NODES" "named (nodes st ! i) p" "view f (nodes st) p = Some (f (nodes st ! i))"
proof -
  note fs = assms(3) [unfolded find_node_render [OF assms(1,2)]]
  show "i < FS_MAX_NODES" "named (nodes st ! i) p" "view f (nodes st) p = Some (f (nodes st ! i))"
    using find_slot_SomeD [OF fs] fs table_length [OF assms(1)] assms(2) by (simp_all add: named_def view_def)
qed

lemma find_node_None:
  assumes "table_ok (nodes st)" "wf_path p"
  shows "find_node st (render p) = None \<longleftrightarrow> view f (nodes st) p = None"
  unfolding find_node_render [OF assms] using assms(2) by (simp add: view_def)

lemma view_wf: "view f ns p = Some v \<Longrightarrow> wf_path p"
  by (simp add: view_def split: if_splits)

lemma view_Some:
  assumes "table_ok ns"
  shows "view f ns p = Some v \<longleftrightarrow> (\<exists>i<FS_MAX_NODES. named (ns ! i) p \<and> f (ns ! i) = v)"
proof
  assume v: "view f ns p = Some v"
  then obtain i where "find_slot (\<lambda>nd. node_used nd \<and> node_path nd = render p) ns = Some i" "f (ns ! i) = v"
    by (auto simp: view_def split: if_splits)
  with find_slot_SomeD [OF this(1)] view_wf [OF v] table_length [OF assms] show "\<exists>i<FS_MAX_NODES. named (ns ! i) p \<and> f (ns ! i) = v"
    by (auto simp: named_def)
next
  assume "\<exists>i<FS_MAX_NODES. named (ns ! i) p \<and> f (ns ! i) = v"
  then obtain i where i: "i < FS_MAX_NODES" "named (ns ! i) p" "f (ns ! i) = v" by blast
  have "find_slot (\<lambda>nd. node_used nd \<and> node_path nd = render p) ns = Some i"
    using ft.lookup_iff [of ns "render p" i] assms i by (simp add: table_ok_def named_def)
  with i show "view f ns p = Some v" by (simp add: view_def named_def)
qed

lemma view_None: "view f ns p = None \<longleftrightarrow> (\<forall>nd\<in>set ns. \<not> named nd p)"
  by (auto simp: view_def named_def)

lemma view_at: "table_ok ns \<Longrightarrow> i < FS_MAX_NODES \<Longrightarrow> named (ns ! i) p \<Longrightarrow> view f ns p = Some (f (ns ! i))"
  by (auto simp: view_Some)

lemma view_short: "table_ok ns \<Longrightarrow> view f ns p = Some v \<Longrightarrow> length (render p) < ROOT_PATH_MAX"
  by (auto simp: view_Some) (metis named_unique table_used named_def)

lemma table_update:
  assumes t: "table_ok ns" and i: "i < FS_MAX_NODES" and nd: "node_ok nd"
    and fresh: "\<And>p j. named nd p \<Longrightarrow> j < FS_MAX_NODES \<Longrightarrow> j \<noteq> i \<Longrightarrow> \<not> named (ns ! j) p"
  shows "table_ok (ns[i := nd])"
proof -
  have len: "length ns = FS_MAX_NODES" using t by (rule table_length)
  have "ft.keys_unique (ns[i := nd])"
  proof (rule ft.keys_uniqueI)
    fix a b
    assume ab: "a < length (ns[i := nd])" "b < length (ns[i := nd])" "node_used (ns[i := nd] ! a)" "node_used (ns[i := nd] ! b)"
      "node_path (ns[i := nd] ! a) = node_path (ns[i := nd] ! b)"
    have ok: "\<exists>p. named (ns[i := nd] ! k) p" if "k < FS_MAX_NODES" "node_used (ns[i := nd] ! k)" for k
      using that nd table_node [OF t that(1)] len by (cases "k = i") (auto simp: node_ok_def)
    obtain p where p: "named (ns[i := nd] ! a) p" "named (ns[i := nd] ! b) p"
      using ok [of a] ab len by (auto simp: named_def)
    show "a = b"
      using p fresh [of p] table_same [OF t, of a b p] ab(1,2) len i
      by (cases "a = i"; cases "b = i") auto
  qed
  then show ?thesis using t nd len by (auto simp: table_ok_def dest: set_update_subset_insert [THEN subsetD])
qed

lemma view_update:
  assumes t: "table_ok ns" "table_ok (ns[i := nd])" and i: "i < FS_MAX_NODES"
  shows "view f (ns[i := nd]) q = (if named nd q then Some (f nd) else if named (ns ! i) q then None else view f ns q)"
proof -
  have len: "length ns = FS_MAX_NODES" using t(1) by (rule table_length)
  show ?thesis
  proof (cases "named nd q")
    case True
    then show ?thesis using view_at [OF t(2) i] i len by simp
  next
    case n: False
    show ?thesis
    proof (cases "named (ns ! i) q")
      case True
      have "\<not> named x q" if "x \<in> set (ns[i := nd])" for x
      proof -
        from that obtain j where j: "j < FS_MAX_NODES" "x = ns[i := nd] ! j" using len by (auto simp: in_set_conv_nth)
        show ?thesis using j n True table_same [OF t(1) i, of j q] len by (cases "j = i") auto
      qed
      then have "view f (ns[i := nd]) q = None" by (simp add: view_None)
      then show ?thesis using n True by simp
    next
      case False
      have "view f (ns[i := nd]) q = Some v \<longleftrightarrow> view f ns q = Some v" for v
        unfolding view_Some [OF t(1)] view_Some [OF t(2)]
        using n False len i by (auto simp: nth_list_update split: if_splits)
      then show ?thesis using n False by (metis option.exhaust)
    qed
  qed
qed

lemma view_cong:
  assumes "table_ok ns" "\<And>i. i < FS_MAX_NODES \<Longrightarrow> node_used (ns ! i) \<Longrightarrow> f (ns ! i) = g (ns ! i)"
  shows "view f ns = view g ns"
proof
  fix p
  have "view f ns p = Some v \<longleftrightarrow> view g ns p = Some v" for v
    using assms by (auto simp: view_Some named_def)
  then show "view f ns p = view g ns p" by (metis option.exhaust)
qed

end
