(* ===== verification/Root_FS_Ops.thy ===== *)
theory Root_FS_Ops
  imports Root_FS_Table
begin

text \<open>
  What the operations of \<open>filesystem.c\<close> do to the tree. \<open>node_map\<close> is the table as a partial map from
  component lists to nodes; \<open>closed\<close> says that every node but the root sits in a directory. The lemmas
  describe the table after adding a node, creating the missing directories of a path, removing,
  renaming and copying subtrees, with every result code.
\<close>

section \<open>Maps of nodes\<close>

abbreviation node_map :: "FsNode list \<Rightarrow> path \<Rightarrow> FsNode option" where
  "node_map ns \<equiv> view (\<lambda>nd. nd) ns"

definition fresh_node :: "path \<Rightarrow> FsType \<Rightarrow> FsNode" where
  "fresh_node p t = \<lparr>node_used = True, node_type = t, node_path = render p, node_size = 0, ram_content = 0\<rparr>"

lemma view_node_map: "view f ns p = map_option f (node_map ns p)"
  by (simp add: view_def option.map_comp o_def)

lemma named_fresh [simp]: "wf_path p \<Longrightarrow> named (fresh_node p t) q \<longleftrightarrow> q = p"
  using render_inj by (auto simp: named_def fresh_node_def)

lemma named_iff: "named nd p \<Longrightarrow> named nd q \<longleftrightarrow> q = p"
  using named_unique by blast

text \<open>What every step leaves alone.\<close>

definition framed :: "'d fs \<Rightarrow> 'd fs \<Rightarrow> bool" where
  "framed st st' \<longleftrightarrow> current_directory st' = current_directory st
     \<and> filesystem_persistent_backend st' = filesystem_persistent_backend st \<and> printed st' = printed st"

lemma framed_refl [simp]: "framed st st"
  by (simp add: framed_def)

lemma framed_trans: "framed st st' \<Longrightarrow> framed st' st'' \<Longrightarrow> framed st st''"
  by (simp add: framed_def)

lemma framed_simps [simp]:
  "framed st (st\<lparr>nodes := ns\<rparr>)" "framed st (st\<lparr>disk := d\<rparr>)" "framed st (st\<lparr>fs_heap := h\<rparr>)"
  "framed st (st\<lparr>filesystem_storage_error := b\<rparr>)"
  by (simp_all add: framed_def)

section \<open>The basic steps\<close>

lemma persist_frame:
  assumes "persist_node st i = (ok, st')"
  shows "nodes st' = nodes st" "fs_heap st' = fs_heap st" "framed st st'" "\<not> filesystem_persistent_backend st \<Longrightarrow> ok \<and> st' = st"
  using assms by (auto simp: persist_node_def Let_def framed_def split: if_splits prod.splits)

lemma clear_frame:
  assumes "clear_persisted_node st i = (ok, st')"
  shows "nodes st' = nodes st" "fs_heap st' = fs_heap st" "framed st st'" "\<not> filesystem_persistent_backend st \<Longrightarrow> ok \<and> st' = st"
  using assms by (auto simp: clear_persisted_node_def Let_def framed_def split: if_splits prod.splits)

lemma reset_unused:
  assumes "table_ok (nodes st)" "i < FS_MAX_NODES" "\<not> node_used (nodes st ! i)"
  shows "reset_node st i = set_node st i zero_node"
proof -
  have "ram_content (nodes st ! i) = 0" using table_node [OF assms(1,2)] assms(3) by (simp add: node_ok_def)
  then show ?thesis using assms(2) by (simp add: reset_node_def release_ram_content_def)
qed

lemma reset_used:
  assumes "table_ok (nodes st)" "i < FS_MAX_NODES"
  shows "nodes (reset_node st i) = (nodes st)[i := zero_node]" "framed st (reset_node st i)"
    "disk (reset_node st i) = disk st"
    "fs_heap (reset_node st i) = (if ram_content (nodes st ! i) = 0 then fs_heap st else root_free (fs_heap st) (ram_content (nodes st ! i)))"
  using assms(2) by (simp_all add: reset_node_def release_ram_content_def Let_def framed_def)

lemma table_clear:
  assumes "table_ok ns" "i < FS_MAX_NODES"
  shows "table_ok (ns[i := zero_node])" "named (ns ! i) p \<Longrightarrow> node_map (ns[i := zero_node]) = (node_map ns)(p := None)"
    "\<not> node_used (ns ! i) \<Longrightarrow> node_map (ns[i := zero_node]) = node_map ns"
proof -
  show t: "table_ok (ns[i := zero_node])" by (rule table_update [OF assms]) simp_all
  show "node_map (ns[i := zero_node]) = (node_map ns)(p := None)" if "named (ns ! i) p"
    by (rule ext) (simp add: view_update [OF assms(1) t assms(2)] named_iff [OF that])
  show "node_map (ns[i := zero_node]) = node_map ns" if "\<not> node_used (ns ! i)"
    by (rule ext) (use that in \<open>auto simp: view_update [OF assms(1) t assms(2)] named_def\<close>)
qed

lemma table_add:
  assumes "table_ok ns" "i < FS_MAX_NODES" "\<not> node_used (ns ! i)" "wf_path p" "length (render p) < ROOT_PATH_MAX" "node_map ns p = None"
  shows "table_ok (ns[i := fresh_node p t])" "node_map (ns[i := fresh_node p t]) = (node_map ns)(p \<mapsto> fresh_node p t)"
proof -
  have nf: "named (fresh_node p t) q \<longleftrightarrow> q = p" for q using assms(4) by simp
  show t: "table_ok (ns[i := fresh_node p t])"
  proof (rule table_update [OF assms(1,2)])
    show "node_ok (fresh_node p t)" using assms(4,5) by (auto simp: node_ok_def fresh_node_def named_def)
    show "\<not> named (ns ! j) q" if "named (fresh_node p t) q" "j < FS_MAX_NODES" for q j
      using that assms(6) nf table_length [OF assms(1)] by (auto simp: view_None)
  qed
  show "node_map (ns[i := fresh_node p t]) = (node_map ns)(p \<mapsto> fresh_node p t)"
  proof
    fix q
    have "\<not> named (ns ! i) q" using assms(3) by (simp add: named_def)
    then show "node_map (ns[i := fresh_node p t]) q = ((node_map ns)(p \<mapsto> fresh_node p t)) q"
      by (simp add: view_update [OF assms(1) t assms(2)] nf)
  qed
qed

lemma add_node_spec:
  assumes t: "table_ok (nodes st)" and p: "wf_path p" "length (render p) < ROOT_PATH_MAX"
    and r: "add_node_absolute st (render p) ty = (r, st')"
  shows "table_ok (nodes st') \<and> framed st st' \<and> fs_heap st' = fs_heap st
     \<and> (if node_map (nodes st) p \<noteq> None then r = FS_RESULT_ALREADY_EXISTS \<and> st' = st
        else if count_free_nodes st = 0 then r = FS_RESULT_NO_SPACE \<and> st' = st
        else (r = FS_RESULT_OK
                \<and> count_free_nodes st' + 1 = count_free_nodes st
                \<and> (\<exists>i<FS_MAX_NODES. \<not> node_used (nodes st ! i) \<and> nodes st' = (nodes st)[i := fresh_node p ty]))
           \<or> (r = FS_RESULT_IO_ERROR \<and> filesystem_persistent_backend st
                \<and> (\<exists>i<FS_MAX_NODES. \<not> node_used (nodes st ! i) \<and> nodes st' = (nodes st)[i := zero_node])))"
proof (cases "find_node st (render p)")
  case (Some i)
  then have "node_map (nodes st) p \<noteq> None" using find_node_SomeD(3) [OF t p(1) Some, of "\<lambda>x. x"] by simp
  then show ?thesis using r t Some by (simp add: add_node_absolute_def)
next
  case None
  then have absent: "node_map (nodes st) p = None" using find_node_None [OF t p(1)] by blast
  show ?thesis
  proof (cases "find_free_node st")
    case None2: None
    then have "count_free_nodes st = 0"
      by (simp add: find_free_node_def count_free_nodes_def filter_empty_conv)
    then show ?thesis using r t None None2 absent by (simp add: add_node_absolute_def)
  next
    case (Some i)
    then have i: "i < FS_MAX_NODES" "\<not> node_used (nodes st ! i)"
      using find_slot_SomeD [OF Some [unfolded find_free_node_def]] table_length [OF t] by simp_all
    have len: "length (nodes st) = FS_MAX_NODES" using t by (rule table_length)
    have free: "count_free_nodes st \<noteq> 0"
      using i len nth_mem [of i "nodes st"] by (auto simp: count_free_nodes_def filter_empty_conv)
    define st1 where "st1 = set_node st i (fresh_node p ty)"
    obtain ok st2 where ps: "persist_node st1 i = (ok, st2)" by (cases "persist_node st1 i")
    note pf = persist_frame [OF ps]
    have res: "(r, st') = (if ok then (FS_RESULT_OK, st2) else (FS_RESULT_IO_ERROR, reset_node st2 i))"
      using r None Some i len p ps reset_unused [OF t i]
      by (auto simp: add_node_absolute_def Let_def root_strlcpy_spec cstr_render rootos_consts st1_def fresh_node_def zero_node_def
          split: if_splits)
    note ta = table_add [OF t i p absent, of ty]
    have n2: "nodes st2 = (nodes st)[i := fresh_node p ty]" using pf(1) by (simp add: st1_def)
    have f2: "framed st st2" "fs_heap st2 = fs_heap st" "filesystem_persistent_backend st1 = filesystem_persistent_backend st"
      using pf(2,3) by (simp_all add: st1_def framed_def)
    have cnt: "count_free_nodes st2 + 1 = count_free_nodes st"
    proof -
      have u: "node_used (fresh_node p ty)" by (simp add: fresh_node_def)
      have "length (filter (\<lambda>nd. \<not> node_used nd) xs) + length (filter node_used xs) = length xs" for xs :: "FsNode list"
        by (induction xs) auto
      from this [of "nodes st"] this [of "nodes st2"] show ?thesis
        using ft.usage_update [of i "nodes st" "fresh_node p ty"] i len u n2 by (simp add: count_free_nodes_def ft.usage_def)
    qed
    show ?thesis
    proof (cases ok)
      case True
      have "\<exists>i<FS_MAX_NODES. \<not> node_used (nodes st ! i) \<and> nodes st2 = (nodes st)[i := fresh_node p ty]"
        using i n2 by blast
      then show ?thesis using res True ta n2 f2 cnt absent free by simp
    next
      case False
      have t2: "table_ok (nodes st2)" using ta(1) n2 by simp
      have "nodes (reset_node st2 i) = (nodes st)[i := zero_node]" using reset_used(1) [OF t2 i(1)] n2 by simp
      moreover have "ram_content (nodes st2 ! i) = 0" using n2 i len by (simp add: fresh_node_def)
      ultimately show ?thesis
        using res False reset_used [OF t2 i(1)] table_clear(1) [OF t i(1)] i f2 absent free pf(4) framed_trans [OF f2(1)]
        by auto
    qed
  qed
qed

section \<open>Creating the directories of a path\<close>

definition ctext :: "path \<Rightarrow> string" where
  "ctext rest = skip_slashes (rtail rest)"

lemma ctext_Nil [simp]: "ctext [] = []"
  by (simp add: ctext_def)

lemma ctext_Cons: "wf_comp c \<Longrightarrow> ctext (c # cs) = c @ rtail cs"
  by (cases c) (auto simp: ctext_def wf_comp_def)

lemma ctext_step:
  assumes "wf_path (c # cs)"
  shows "path_component 0 (ctext (c # cs)) = Some (c, rtail cs)" "chead (ctext (c # cs)) \<noteq> NUL"
proof -
  have c: "wf_comp c" using assms by simp
  have "\<not> in_component (chead (rtail cs))" using chead_rtail [of cs "[]"] by (cases cs) simp_all
  note tw = takeWhile_comp [OF c this]
  show "path_component 0 (ctext (c # cs)) = Some (c, rtail cs)"
    using c by (simp add: ctext_Cons path_component_spec tw wf_comp_def rootos_consts)
  show "chead (ctext (c # cs)) \<noteq> NUL" using c by (cases c) (auto simp: ctext_Cons wf_comp_def)
qed

lemma ensure_unfold:
  assumes "wf_path (acc @ c # cs)" "length (render (acc @ [c])) < ROOT_PATH_MAX"
  shows "ensure_loop st (render acc) (ctext (c # cs)) =
     (case find_node st (render (acc @ [c])) of
        Some index \<Rightarrow> if node_type (nodes st ! index) \<noteq> FS_DIRECTORY then (FS_RESULT_NOT_DIRECTORY, st)
           else ensure_loop st (render (acc @ [c])) (ctext cs)
      | None \<Rightarrow> (let (result, st) = add_node_absolute st (render (acc @ [c])) FS_DIRECTORY in
           if result \<noteq> FS_RESULT_OK then (result, st) else ensure_loop st (render (acc @ [c])) (ctext cs)))"
proof -
  have "wf_path (c # cs)" "wf_path acc" "NUL \<notin> set c" using assms(1) by (auto simp: wf_comp_def)
  then show ?thesis
    using ctext_step [of c cs] append_component_render [of acc c] assms(2)
    by (subst ensure_loop.simps) (auto simp: ctext_def [symmetric] not_le Let_def split: option.splits prod.splits)
qed

lemma render_length_mono: "length (render p) \<le> length (render (p @ q))"
  by (cases "p = []"; cases q) (auto simp: render_def)

section \<open>The contract of a backend\<close>

text \<open>
  A view of the file system: \<open>view_of st\<close> maps component lists to values, \<open>val t bs\<close> is the value of a
  node of type \<open>t\<close> with contents \<open>bs\<close>, and \<open>inv\<close> the states in which the view makes sense. The laws say
  what the primitive steps of \<open>filesystem.c\<close> (filling a free slot, renaming a slot, resetting a slot,
  reading and writing file contents) do to the view. The operations are then specified once, for every
  view that obeys the laws.
\<close>

locale tree_view =
  fixes inv :: "'d fs \<Rightarrow> bool"
    and view_of :: "'d fs \<Rightarrow> path \<Rightarrow> 'v option"
    and val :: "FsType \<Rightarrow> u8 list \<Rightarrow> 'v"
  assumes inv_table: "inv st \<Longrightarrow> table_ok (nodes st)"
    and view_dom: "inv st \<Longrightarrow> view_of st p = None \<longleftrightarrow> node_map (nodes st) p = None"
    and view_node: "inv st \<Longrightarrow> i < FS_MAX_NODES \<Longrightarrow> named (nodes st ! i) p \<Longrightarrow>
      (if node_type (nodes st ! i) = FS_DIRECTORY then view_of st p = Some (val FS_DIRECTORY [])
       else \<exists>bs. view_of st p = Some (val FS_FILE bs) \<and> length bs = node_size (nodes st ! i))"
    and val_type: "val FS_FILE bs \<noteq> val FS_DIRECTORY []"
    and inv_cong: "inv st \<Longrightarrow> nodes st' = nodes st \<Longrightarrow> fs_heap st' = fs_heap st \<Longrightarrow>
      filesystem_persistent_backend st' = filesystem_persistent_backend st \<Longrightarrow> inv st' \<and> view_of st' = view_of st"
    and fresh_law: "inv st \<Longrightarrow> i < FS_MAX_NODES \<Longrightarrow> \<not> node_used (nodes st ! i) \<Longrightarrow> wf_path p \<Longrightarrow>
      length (render p) < ROOT_PATH_MAX \<Longrightarrow> view_of st p = None \<Longrightarrow>
      inv (set_node st i (fresh_node p t)) \<and> view_of (set_node st i (fresh_node p t)) = (view_of st)(p \<mapsto> val t [])"
    and zero_law: "inv st \<Longrightarrow> i < FS_MAX_NODES \<Longrightarrow> \<not> node_used (nodes st ! i) \<Longrightarrow>
      inv (set_node st i zero_node) \<and> view_of (set_node st i zero_node) = view_of st"
    and reset_law: "inv st \<Longrightarrow> i < FS_MAX_NODES \<Longrightarrow> named (nodes st ! i) p \<Longrightarrow>
      inv (reset_node st i) \<and> view_of (reset_node st i) = (view_of st)(p := None)"
    and rename_law: "inv st \<Longrightarrow> i < FS_MAX_NODES \<Longrightarrow> named (nodes st ! i) p \<Longrightarrow> wf_path q \<Longrightarrow>
      length (render q) < ROOT_PATH_MAX \<Longrightarrow> view_of st q = None \<Longrightarrow>
      inv (set_node st i ((nodes st ! i)\<lparr>node_path := render q\<rparr>))
      \<and> view_of (set_node st i ((nodes st ! i)\<lparr>node_path := render q\<rparr>)) = (view_of st)(p := None, q := view_of st p)"
    and read_law: "inv st \<Longrightarrow> i < FS_MAX_NODES \<Longrightarrow> named (nodes st ! i) p \<Longrightarrow> node_type (nodes st ! i) = FS_FILE \<Longrightarrow>
      backend_read_file st i cap = (Some bs, st') \<Longrightarrow> length bs = node_size (nodes st ! i) \<Longrightarrow>
      view_of st p = Some (val FS_FILE bs) \<and> length bs \<le> cap"
    and write_law: "inv st \<Longrightarrow> i < FS_MAX_NODES \<Longrightarrow> named (nodes st ! i) p \<Longrightarrow> node_type (nodes st ! i) = FS_FILE \<Longrightarrow>
      length bs = n \<Longrightarrow> n \<le> FS_MAX_FILE_SIZE \<Longrightarrow>
      \<exists>ok st'. backend_write_file st i (Some bs) n = Some (ok, st') \<and> inv st'
        \<and> view_of st' = (if ok then (view_of st)(p \<mapsto> val FS_FILE bs) else view_of st)
        \<and> framed st st' \<and> map node_path (nodes st') = map node_path (nodes st) \<and> map node_used (nodes st') = map node_used (nodes st)
        \<and> map node_type (nodes st') = map node_type (nodes st)
        \<and> (\<forall>j. j \<noteq> i \<longrightarrow> nodes st' ! j = nodes st ! j)"
begin

definition dirv :: 'v where
  "dirv = val FS_DIRECTORY []"

definition closed :: "(path \<Rightarrow> 'v option) \<Rightarrow> bool" where
  "closed V \<longleftrightarrow> V [] = Some dirv \<and> (\<forall>p x. V (p @ [x]) \<noteq> None \<longrightarrow> V p = Some dirv)"

text \<open>A step that only grows the tree: what is new are empty directories on the way to \<open>p\<close>.\<close>

definition grows :: "(path \<Rightarrow> 'v option) \<Rightarrow> (path \<Rightarrow> 'v option) \<Rightarrow> path \<Rightarrow> bool" where
  "grows V V' p \<longleftrightarrow> (\<forall>q. V' q = V q \<or> (V q = None \<and> V' q = Some dirv \<and> prefix q p \<and> q \<noteq> []))"

lemma closed_prefix:
  assumes "closed V" "V (p @ q) \<noteq> None" "q \<noteq> []"
  shows "V p = Some dirv"
  using assms(2,3)
proof (induction q rule: rev_induct)
  case (snoc x q)
  then have "V (p @ q) = Some dirv" using assms(1) unfolding closed_def by (metis append.assoc)
  then show ?case using snoc.IH by (cases "q = []") auto
qed simp

lemma closed_absent: "closed V \<Longrightarrow> V p = None \<Longrightarrow> V (p @ q) = None"
  by (metis append_Nil2 closed_prefix option.distinct(1))

lemma closed_add:
  assumes "closed V" "V p = Some dirv" "V (p @ [c]) = None"
  shows "closed (V((p @ [c]) \<mapsto> v))"
proof -
  have "V (p @ [c, x]) = None" for x using closed_absent [OF assms(1,3), of "[x]"] by simp
  with assms show ?thesis unfolding closed_def by auto
qed

lemma grows_refl [simp]: "grows V V p"
  by (simp add: grows_def)

lemma grows_trans: "grows V V' p \<Longrightarrow> grows V' V'' p \<Longrightarrow> grows V V'' p"
  unfolding grows_def by metis

lemma find_SomeD:
  assumes "inv st" "wf_path p" "find_node st (render p) = Some i"
  shows "i < FS_MAX_NODES" "named (nodes st ! i) p" "view_of st p \<noteq> None"
  using find_node_SomeD(1,2) [OF inv_table [OF assms(1)] assms(2,3)] view_dom [OF assms(1), of p]
    find_node_None [OF inv_table [OF assms(1)] assms(2), of "\<lambda>x. x"] assms(3) by simp_all

lemma find_None: "inv st \<Longrightarrow> wf_path p \<Longrightarrow> find_node st (render p) = None \<longleftrightarrow> view_of st p = None"
  using find_node_None [OF inv_table, of st p "\<lambda>x. x"] view_dom [of st p] by simp

lemma dir_iff:
  assumes "inv st" "i < FS_MAX_NODES" "named (nodes st ! i) p"
  shows "node_type (nodes st ! i) = FS_DIRECTORY \<longleftrightarrow> view_of st p = Some dirv"
proof -
  have "\<not> (\<exists>bs. Some dirv = Some (val FS_FILE bs))" using val_type by (metis dirv_def option.inject)
  then show ?thesis using view_node [OF assms] by (auto simp: dirv_def split: if_splits)
qed

lemma add_view:
  assumes "inv st" "wf_path p" "length (render p) < ROOT_PATH_MAX" "add_node_absolute st (render p) ty = (r, st')"
  shows "inv st' \<and> framed st st'
     \<and> (if view_of st p \<noteq> None then r = FS_RESULT_ALREADY_EXISTS \<and> st' = st
        else if count_free_nodes st = 0 then r = FS_RESULT_NO_SPACE \<and> st' = st
        else (r = FS_RESULT_OK \<and> view_of st' = (view_of st)(p \<mapsto> val ty []) \<and> count_free_nodes st' + 1 = count_free_nodes st
                \<and> (\<exists>i<FS_MAX_NODES. \<not> node_used (nodes st ! i) \<and> nodes st' = (nodes st)[i := fresh_node p ty]))
           \<or> (r = FS_RESULT_IO_ERROR \<and> view_of st' = view_of st \<and> filesystem_persistent_backend st))"
proof -
  note sp = add_node_spec [OF inv_table [OF assms(1)] assms(2-4)]
  have fr: "framed st st'" "fs_heap st' = fs_heap st" using sp by auto
  then have b: "filesystem_persistent_backend st' = filesystem_persistent_backend st" by (simp add: framed_def)
  show ?thesis
  proof (cases "view_of st p \<noteq> None \<or> count_free_nodes st = 0")
    case True
    then show ?thesis using sp view_dom [OF assms(1), of p] assms(1) by (auto split: if_splits)
  next
    case False
    then have ab: "view_of st p = None" "node_map (nodes st) p = None" using view_dom [OF assms(1), of p] by auto
    consider (ok) i where "r = FS_RESULT_OK" "count_free_nodes st' + 1 = count_free_nodes st" "i < FS_MAX_NODES"
        "\<not> node_used (nodes st ! i)" "nodes st' = (nodes st)[i := fresh_node p ty]"
      | (io) i where "r = FS_RESULT_IO_ERROR" "filesystem_persistent_backend st" "i < FS_MAX_NODES"
        "\<not> node_used (nodes st ! i)" "nodes st' = (nodes st)[i := zero_node]"
      using sp ab False by auto
    then show ?thesis
    proof cases
      case ok
      note fl = fresh_law [OF assms(1) ok(3,4) assms(2,3) ab(1), of ty]
      have "inv st' \<and> view_of st' = view_of (set_node st i (fresh_node p ty))"
        by (rule inv_cong) (use fl ok fr b in auto)
      with fl ok fr False show ?thesis by auto
    next
      case io
      note zl = zero_law [OF assms(1) io(3,4)]
      have "inv st' \<and> view_of st' = view_of (set_node st i zero_node)"
        by (rule inv_cong) (use zl io fr b in auto)
      with zl io fr False show ?thesis by auto
    qed
  qed
qed

text \<open>What creating the directories of \<open>p\<close> guarantees, whatever its result.\<close>

definition ensured :: "'d fs \<Rightarrow> path \<Rightarrow> FsResult \<Rightarrow> 'd fs \<Rightarrow> bool" where
  "ensured st p r st' \<longleftrightarrow> inv st' \<and> framed st st' \<and> closed (view_of st') \<and> grows (view_of st) (view_of st') p
     \<and> (r = FS_RESULT_OK \<longrightarrow> view_of st' p = Some dirv)
     \<and> r \<in> {FS_RESULT_OK, FS_RESULT_NOT_DIRECTORY, FS_RESULT_NO_SPACE, FS_RESULT_IO_ERROR}
     \<and> (r = FS_RESULT_IO_ERROR \<longrightarrow> filesystem_persistent_backend st)"

lemma ensured_trans:
  assumes "ensured st1 p r st'" "framed st st1" "grows (view_of st) (view_of st1) p"
  shows "ensured st p r st'"
proof -
  have "grows (view_of st) (view_of st') p" "framed st st'"
    using assms grows_trans [OF assms(3)] framed_trans [OF assms(2)] by (auto simp: ensured_def)
  with assms show ?thesis by (simp add: ensured_def framed_def)
qed

lemma ensure_loop_spec:
  assumes "inv st" "wf_path (acc @ rest)" "length (render (acc @ rest)) < ROOT_PATH_MAX"
    "closed (view_of st)" "view_of st acc = Some dirv" "ensure_loop st (render acc) (ctext rest) = (r, st')"
  shows "ensured st (acc @ rest) r st'"
  using assms
proof (induction rest arbitrary: st acc)
  case Nil
  then show ?case by (simp add: ensure_loop.simps ensured_def)
next
  case (Cons c cs)
  have len: "length (render (acc @ [c])) < ROOT_PATH_MAX"
    using Cons.prems(3) render_length_mono [of "acc @ [c]" cs] by simp
  have wf: "wf_path (acc @ [c])" using Cons.prems(2) by simp
  note un = ensure_unfold [OF Cons.prems(2) len, of st, unfolded Cons.prems(6)]
  show ?case
  proof (cases "find_node st (render (acc @ [c]))")
    case (Some i)
    note fn = find_SomeD [OF Cons.prems(1) wf Some]
    show ?thesis
    proof (cases "node_type (nodes st ! i) = FS_DIRECTORY")
      case True
      then have "view_of st (acc @ [c]) = Some dirv" using dir_iff [OF Cons.prems(1) fn(1,2)] by simp
      from Cons.IH [OF Cons.prems(1) _ _ Cons.prems(4) this] Cons.prems(2,3) un Some True show ?thesis by simp
    next
      case False
      with un Some Cons.prems show ?thesis by (simp add: ensured_def)
    qed
  next
    case None
    then have ab: "view_of st (acc @ [c]) = None" using find_None [OF Cons.prems(1) wf] by blast
    obtain r1 st1 where ad: "add_node_absolute st (render (acc @ [c])) FS_DIRECTORY = (r1, st1)"
      by (cases "add_node_absolute st (render (acc @ [c])) FS_DIRECTORY")
    note sp = add_view [OF Cons.prems(1) wf len ad]
    show ?thesis
    proof (cases "r1 = FS_RESULT_OK")
      case True
      then have nm: "view_of st1 = (view_of st)(acc @ [c] \<mapsto> dirv)" and t1: "inv st1" "framed st st1"
        using sp ab by (auto simp: dirv_def split: if_splits)
      have cl: "closed (view_of st1)" unfolding nm by (rule closed_add) (use Cons.prems ab in auto)
      have d: "view_of st1 (acc @ [c]) = Some dirv" unfolding nm by simp
      have "ensure_loop st1 (render (acc @ [c])) (ctext cs) = (r, st')" using un None ad True by simp
      from Cons.IH [OF t1(1) _ _ cl d this] Cons.prems(2,3) have "ensured st1 (acc @ c # cs) r st'" by simp
      moreover have "grows (view_of st) (view_of st1) (acc @ c # cs)"
        unfolding nm grows_def using ab by (auto simp: prefix_def)
      ultimately show ?thesis using ensured_trans t1 by blast
    next
      case False
      then have "r = r1 \<and> st' = st1" using un None ad by simp
      with False sp ab Cons.prems(4) show ?thesis by (auto simp: ensured_def split: if_splits)
    qed
  qed
qed

lemma ensure_spec:
  assumes "inv st" "wf_path p" "length (render p) < ROOT_PATH_MAX" "closed (view_of st)"
    "ensure_directory_absolute st (render p) = (r, st')"
  shows "ensured st p r st'"
proof (cases "p = []")
  case True
  then show ?thesis using assms streq_root [of "[]"] by (auto simp: ensure_directory_absolute_def closed_def ensured_def)
next
  case False
  then have "skip_slashes (render p) = ctext p" by (simp add: ctext_def render_rtail)
  moreover have "render [] = ''/''" by (simp add: render_def)
  ultimately have "ensure_loop st (render []) (ctext p) = (r, st')"
    using assms False by (simp add: ensure_directory_absolute_def)
  from ensure_loop_spec [OF assms(1) _ _ assms(4) _ this] assms(2-4) show ?thesis by (simp add: closed_def)
qed

text \<open>States between calls: a well-formed tree whose current directory exists.\<close>

definition good :: "'d fs \<Rightarrow> bool" where
  "good st \<longleftrightarrow> inv st \<and> closed (view_of st) \<and> (\<exists>c. wf_path c \<and> current_directory st = render c
     \<and> length (render c) < ROOT_PATH_MAX \<and> view_of st c = Some dirv)"

lemma good_simps: "good st \<Longrightarrow> inv st" "good st \<Longrightarrow> closed (view_of st)" "good st \<Longrightarrow> table_ok (nodes st)"
  using inv_table by (auto simp: good_def)

lemma good_resolve:
  assumes "good st" "root_path_resolve (current_directory st) path ROOT_PATH_MAX = Some out"
  obtains p where "wf_path p" "out = render p" "length (render p) < ROOT_PATH_MAX"
  using assms root_path_resolve_cases unfolding good_def by metis

lemma good_framed:
  assumes "good st" "framed st st'" "inv st'" "closed (view_of st')"
    "\<And>c. wf_path c \<Longrightarrow> current_directory st = render c \<Longrightarrow> view_of st c = Some dirv \<Longrightarrow> view_of st' c = Some dirv"
  shows "good st'"
  using assms unfolding good_def framed_def by metis

lemma good_ensured:
  assumes "good st" "ensured st p r st'"
  shows "good st'"
proof (rule good_framed [OF assms(1)])
  show "framed st st'" "inv st'" "closed (view_of st')" using assms(2) by (simp_all add: ensured_def)
  fix c
  assume "view_of st c = Some dirv"
  then show "view_of st' c = Some dirv" using assms(2) unfolding ensured_def grows_def by (metis option.distinct(1))
qed

lemma good_add:
  assumes "good st" "wf_path p" "p \<noteq> []" "length (render p) < ROOT_PATH_MAX" "view_of st (butlast p) = Some dirv"
    "add_node_absolute st (render p) ty = (r, st')"
  shows "good st'"
proof -
  note sp = add_view [OF good_simps(1) [OF assms(1)] assms(2,4,6)]
  have "closed (view_of st')"
  proof (cases "view_of st' = view_of st")
    case True
    then show ?thesis using good_simps(2) [OF assms(1)] by simp
  next
    case False
    then have "view_of st' = (view_of st)(p \<mapsto> val ty [])" "view_of st p = None" using sp by (auto split: if_splits)
    moreover have "p = butlast p @ [last p]" using assms(3) by simp
    ultimately show ?thesis using closed_add [OF good_simps(2) [OF assms(1)] assms(5), of "last p" "val ty []"] by metis
  qed
  then show ?thesis by (rule good_framed [OF assms(1), rotated 2]) (use sp in \<open>auto split: if_splits\<close>)
qed

section \<open>Creation\<close>

lemma create_directory_spec:
  assumes g: "good st" and r: "filesystem_create_directory st (Some path) = (r, st')"
    and rs: "chead path \<noteq> NUL" "root_path_resolve (current_directory st) (Some path) ROOT_PATH_MAX = Some (render p)"
    and p: "wf_path p" "length (render p) < ROOT_PATH_MAX"
  shows "good st' \<and> (if view_of st p \<noteq> None then r = FS_RESULT_ALREADY_EXISTS \<and> st' = st
     else grows (view_of st) (view_of st') p \<and> (r = FS_RESULT_OK \<longrightarrow> view_of st' p = Some dirv)
       \<and> r \<in> {FS_RESULT_OK, FS_RESULT_NOT_DIRECTORY, FS_RESULT_NO_SPACE, FS_RESULT_IO_ERROR})"
proof (cases "view_of st p = None")
  case False
  then have "find_node st (render p) \<noteq> None" using find_None [OF good_simps(1) [OF g] p(1)] by simp
  then show ?thesis using False r rs g by (auto simp: filesystem_create_directory_def)
next
  case True
  then have "find_node st (render p) = None" using find_None [OF good_simps(1) [OF g] p(1)] by simp
  then have "ensure_directory_absolute st (render p) = (r, st')" using r rs by (simp add: filesystem_create_directory_def)
  from ensure_spec [OF good_simps(1) [OF g] p good_simps(2) [OF g] this] good_ensured [OF g] True show ?thesis
    by (auto simp: ensured_def)
qed

lemma butlast_short: "length (render p) < n \<Longrightarrow> length (render (butlast p)) < n"
proof (cases p rule: rev_cases)
  case (snoc q c)
  assume "length (render p) < n"
  then show ?thesis using snoc render_length_mono [of q "[c]"] by simp
qed simp

lemma create_file_spec:
  assumes g: "good st" and r: "filesystem_create_file st (Some path) = (r, st')"
    and rs: "chead path \<noteq> NUL" "root_path_resolve (current_directory st) (Some path) ROOT_PATH_MAX = Some (render p)"
    and p: "wf_path p" "length (render p) < ROOT_PATH_MAX"
  shows "good st' \<and> (if p = [] then r = FS_RESULT_INVALID_PATH \<and> st' = st
     else if view_of st p \<noteq> None then r = FS_RESULT_ALREADY_EXISTS \<and> st' = st
     else if r = FS_RESULT_OK then \<exists>V. grows (view_of st) V (butlast p) \<and> V p = None \<and> V (butlast p) = Some dirv
         \<and> view_of st' = V(p \<mapsto> val FS_FILE [])
     else grows (view_of st) (view_of st') (butlast p)
       \<and> r \<in> {FS_RESULT_NOT_DIRECTORY, FS_RESULT_NO_SPACE, FS_RESULT_IO_ERROR})"
proof (cases "p = [] \<or> view_of st p \<noteq> None")
  case True
  then show ?thesis
    using g r rs p find_None [OF good_simps(1) [OF g] p(1)] by (auto simp: filesystem_create_file_def split: if_splits)
next
  case False
  then have p0: "p \<noteq> []" and ab: "view_of st p = None" by auto
  then have fn: "find_node st (render p) = None" using find_None [OF good_simps(1) [OF g] p(1)] by simp
  obtain r1 st1 where en: "ensure_directory_absolute st (render (butlast p)) = (r1, st1)"
    by (cases "ensure_directory_absolute st (render (butlast p))")
  have res: "(r, st') = (if r1 \<noteq> FS_RESULT_OK then (r1, st1) else add_node_absolute st1 (render p) FS_FILE)"
    using r rs p p0 fn en by (simp add: filesystem_create_file_def get_parent_path_render)
  note es = ensure_spec [OF good_simps(1) [OF g] wf_path_butlast [OF p(1)] butlast_short [OF p(2)] good_simps(2) [OF g] en]
  note g1 = good_ensured [OF g es]
  have ab1: "view_of st1 p = None"
  proof -
    have "\<not> prefix p (butlast p)" using p0 by (metis append_butlast_last_id not_Cons_self2 prefix_order.antisym prefixI same_append_eq self_append_conv)
    then show ?thesis using es ab unfolding ensured_def grows_def by metis
  qed
  show ?thesis
  proof (cases "r1 = FS_RESULT_OK")
    case False
    then show ?thesis using res p0 ab es g1 by (auto simp: ensured_def)
  next
    case True
    then have ad: "add_node_absolute st1 (render p) FS_FILE = (r, st')" using res by simp
    have d: "view_of st1 (butlast p) = Some dirv" using es True by (simp add: ensured_def)
    note av = add_view [OF good_simps(1) [OF g1] p ad]
    have "grows (view_of st) (view_of st1) (butlast p)" using es by (simp add: ensured_def)
    with good_add [OF g1 p(1) p0 p(2) d ad] av ab1 p0 ab d show ?thesis by (auto split: if_splits)
  qed
qed

section \<open>Removal\<close>

lemma inside_iff: "wf_path p \<Longrightarrow> named nd q \<Longrightarrow> path_is_inside (render p) (node_path nd) \<longleftrightarrow> prefix p q"
  by (simp add: named_def path_is_inside_render)

lemma clear_view:
  assumes "inv st" "clear_persisted_node st i = (ok, st')"
  shows "inv st'" "view_of st' = view_of st" "nodes st' = nodes st" "framed st st'"
    "\<not> ok \<Longrightarrow> filesystem_persistent_backend st"
  using clear_frame [OF assms(2)] inv_cong [OF assms(1), of st'] by (auto simp: framed_def)

lemma remove_loop_spec:
  assumes "inv st" "wf_path p" "set is \<subseteq> {..<FS_MAX_NODES}" "remove_loop (render p) is st = (r, st')"
  shows "inv st' \<and> framed st st' \<and> r \<in> {FS_RESULT_OK, FS_RESULT_IO_ERROR}
     \<and> (r = FS_RESULT_IO_ERROR \<longrightarrow> filesystem_persistent_backend st)
     \<and> (\<forall>q. view_of st' q = view_of st q \<or> (view_of st' q = None \<and> prefix p q))
     \<and> (\<forall>j. nodes st' ! j = nodes st ! j \<or> nodes st' ! j = zero_node)
     \<and> (r = FS_RESULT_OK \<longrightarrow> (\<forall>i\<in>set is. \<forall>q. named (nodes st' ! i) q \<longrightarrow> \<not> prefix p q))"
  using assms(1,3,4)
proof (induction "is" arbitrary: st)
  case Nil
  then show ?case by simp
next
  case (Cons i "is")
  have i: "i < FS_MAX_NODES" and is': "set is \<subseteq> {..<FS_MAX_NODES}" using Cons.prems(2) by auto
  note t = inv_table [OF Cons.prems(1)]
  show ?case
  proof (cases "\<exists>q. named (nodes st ! i) q \<and> prefix p q")
    case False
    have "remove_loop (render p) is st = (r, st')"
    proof (cases "node_used (nodes st ! i)")
      case True
      then obtain q where "named (nodes st ! i) q" using table_used [OF t i] by blast
      with False inside_iff [OF assms(2)] Cons.prems(3) True show ?thesis by auto
    qed (use Cons.prems(3) in simp)
    note IH = Cons.IH [OF Cons.prems(1) is' this]
    have "\<forall>q. named (nodes st' ! i) q \<longrightarrow> \<not> prefix p q"
      using IH False zero_node_simps(3) by metis
    with IH show ?thesis by auto
  next
    case True
    then obtain q where q: "named (nodes st ! i) q" "prefix p q" by blast
    obtain ok st1 where cl: "clear_persisted_node st i = (ok, st1)" by (cases "clear_persisted_node st i")
    note cv = clear_view [OF Cons.prems(1) cl]
    have step: "(r, st') = (if ok then remove_loop (render p) is (reset_node st1 i) else (FS_RESULT_IO_ERROR, st1))"
      using Cons.prems(3) q inside_iff [OF assms(2) q(1)] cl by (auto simp: named_def split: if_splits)
    show ?thesis
    proof (cases ok)
      case False
      then show ?thesis using step cv by simp
    next
      case ok: True
      define st2 where "st2 = reset_node st1 i"
      have q1: "named (nodes st1 ! i) q" using q cv(3) by simp
      note rl = reset_law [OF cv(1) i q1, folded st2_def]
      note ru = reset_used [OF inv_table [OF cv(1)] i, folded st2_def]
      have "remove_loop (render p) is st2 = (r, st')" using step ok st2_def by simp
      note IH = Cons.IH [OF conjunct1 [OF rl] is' this]
      have len: "length (nodes st) = FS_MAX_NODES" using t by (rule table_length)
      have "nodes st2 ! i = zero_node" using ru(1) cv(3) i len by simp
      then have zi: "nodes st' ! i = zero_node" using IH by metis
      have fr: "framed st st2" using framed_trans [OF cv(4)] ru(2) by blast
      have "nodes st2 ! j = nodes st ! j \<or> nodes st2 ! j = zero_node" for j
        using ru(1) cv(3) i len by (cases "j = i") auto
      then have "\<forall>j. nodes st' ! j = nodes st ! j \<or> nodes st' ! j = zero_node" using IH by metis
      moreover have "\<forall>x. view_of st' x = view_of st x \<or> (view_of st' x = None \<and> prefix p x)"
        using IH rl cv(2) q(2) by (metis fun_upd_other fun_upd_same)
      moreover have "framed st st'" "filesystem_persistent_backend st2 = filesystem_persistent_backend st"
        using framed_trans [OF fr] IH fr by (auto simp: framed_def)
      ultimately show ?thesis using IH zi by simp
    qed
  qed
qed

lemma remove_all:
  assumes "inv st" "wf_path p" "remove_loop (render p) [0..<FS_MAX_NODES] st = (FS_RESULT_OK, st')"
  shows "view_of st' = (\<lambda>q. if prefix p q then None else view_of st q)"
proof
  fix q
  note sp = remove_loop_spec [OF assms(1,2) _ assms(3)]
  have inv': "inv st'" using sp by (simp add: lessThan_atLeast0)
  show "view_of st' q = (if prefix p q then None else view_of st q)"
  proof (cases "prefix p q")
    case True
    have "view_of st' q = None"
    proof (rule ccontr)
      assume "view_of st' q \<noteq> None"
      then obtain nd where "node_map (nodes st') q = Some nd" using view_dom [OF inv'] by auto
      then obtain i where "i < FS_MAX_NODES" "named (nodes st' ! i) q" using view_Some [OF inv_table [OF inv']] by metis
      with sp True show False by (auto simp: lessThan_atLeast0)
    qed
    with True show ?thesis by simp
  next
    case False
    with sp show ?thesis by (auto simp: lessThan_atLeast0)
  qed
qed

lemma closed_remove:
  assumes "closed V" "p \<noteq> []"
  shows "closed (\<lambda>q. if prefix p q then None else V q)"
  unfolding closed_def
proof (intro conjI allI impI)
  show "(if prefix p [] then None else V []) = Some dirv" using assms by (simp add: closed_def)
  fix q x
  assume "(if prefix p (q @ [x]) then None else V (q @ [x])) \<noteq> None"
  then have "\<not> prefix p q" "V (q @ [x]) \<noteq> None" by (auto split: if_splits)
  then show "(if prefix p q then None else V q) = Some dirv" using assms(1) unfolding closed_def by auto
qed

lemma file_leaf:
  assumes "closed V" "V p \<noteq> Some dirv"
  shows "V (p @ q) \<noteq> None \<Longrightarrow> q = []"
  using closed_prefix [OF assms(1)] assms(2) by blast

lemma remove_spec:
  assumes g: "good st" and r: "filesystem_remove st path recursive = (r, st')"
    and rs: "root_path_resolve (current_directory st) path ROOT_PATH_MAX = Some (render p)"
    and p: "wf_path p" and c: "current_directory st = render c" "wf_path c"
  shows "if p = [] \<or> (view_of st p \<noteq> None \<and> prefix p c) then r = FS_RESULT_BUSY \<and> st' = st
     else if view_of st p = None then r = FS_RESULT_NOT_FOUND \<and> st' = st
     else if \<not> recursive \<and> (\<exists>q. strict_prefix p q \<and> view_of st q \<noteq> None) then r = FS_RESULT_DIRECTORY_NOT_EMPTY \<and> st' = st
     else (r = FS_RESULT_OK \<and> good st' \<and> framed st st' \<and> view_of st' = (\<lambda>q. if prefix p q then None else view_of st q))
        \<or> (r = FS_RESULT_IO_ERROR \<and> filesystem_persistent_backend st)"
proof (cases "p = [] \<or> view_of st p = None \<or> prefix p c")
  case True
  show ?thesis
  proof (cases "p = [] \<or> view_of st p = None")
    case True
    then show ?thesis
      using r rs p find_None [OF good_simps(1) [OF g] p] by (auto simp: filesystem_remove_def split: if_splits)
  next
    case False
    with True have "prefix p c" by auto
    with False obtain i where "find_node st (render p) = Some i" using find_None [OF good_simps(1) [OF g] p] by auto
    with False \<open>prefix p c\<close> r rs p c path_is_inside_render [OF p c(2)] show ?thesis by (simp add: filesystem_remove_def)
  qed
next
  case False
  then have p0: "p \<noteq> []" and ex: "view_of st p \<noteq> None" and nc: "\<not> prefix p c" by auto
  note inv = good_simps(1) [OF g] and cl = good_simps(2) [OF g]
  obtain i where fn: "find_node st (render p) = Some i" using ex find_None [OF inv p] by auto
  note fd = find_SomeD [OF inv p fn]
  have good': "good st2" if "inv st2" "framed st st2" "view_of st2 = (\<lambda>q. if prefix p q then None else view_of st q)" for st2
  proof (rule good_framed [OF g that(2,1)])
    show "closed (view_of st2)" using closed_remove [OF cl p0] that(3) by simp
    fix c'
    assume "wf_path c'" "current_directory st = render c'" "view_of st c' = Some dirv"
    then have "c' = c" using c render_inj by auto
    with nc \<open>view_of st c' = Some dirv\<close> show "view_of st2 c' = Some dirv" by (simp add: that(3))
  qed
  show ?thesis
  proof (cases "node_type (nodes st ! i) = FS_FILE")
    case True
    then have nd: "view_of st p \<noteq> Some dirv" using dir_iff [OF inv fd(1,2)] by simp
    obtain ok st1 where clr: "clear_persisted_node st i = (ok, st1)" by (cases "clear_persisted_node st i")
    note cv = clear_view [OF inv clr]
    have res: "(r, st') = (if ok then (FS_RESULT_OK, reset_node st1 i) else (FS_RESULT_IO_ERROR, st1))"
      using r rs p c p0 fn True nc clr path_is_inside_render [OF p c(2)] by (auto simp: filesystem_remove_def split: if_splits)
    have leaf: "\<not> (\<exists>q. strict_prefix p q \<and> view_of st q \<noteq> None)"
      using file_leaf [OF cl nd] by (auto simp: strict_prefix_def prefix_def)
    have "named (nodes st1 ! i) p" using fd(2) cv(3) by simp
    note rl = reset_law [OF cv(1) fd(1) this] reset_used [OF inv_table [OF cv(1)] fd(1)]
    have v: "(view_of st)(p := None) = (\<lambda>q. if prefix p q then None else view_of st q)"
    proof
      fix q
      show "((view_of st)(p := None)) q = (if prefix p q then None else view_of st q)"
        using leaf by (cases "q = p") (auto simp: strict_prefix_def)
    qed
    have "good (reset_node st1 i)" "framed st (reset_node st1 i)"
      using good' [of "reset_node st1 i"] rl v cv framed_trans [OF cv(4)] by auto
    then show ?thesis using res leaf p0 ex nc rl(1) v cv by (auto split: if_splits)
  next
    case False
    then have dt: "node_type (nodes st ! i) \<noteq> FS_FILE" by simp
    have ch: "(\<exists>j\<in>{0..<FS_MAX_NODES}. node_used (nodes st ! j) \<and> j \<noteq> i \<and> path_is_inside (render p) (node_path (nodes st ! j)))
        \<longleftrightarrow> (\<exists>q. strict_prefix p q \<and> view_of st q \<noteq> None)" (is "?l \<longleftrightarrow> ?r")
    proof
      assume ?l
      then obtain j where j: "j < FS_MAX_NODES" "node_used (nodes st ! j)" "j \<noteq> i" "path_is_inside (render p) (node_path (nodes st ! j))"
        by auto
      then obtain q where q: "named (nodes st ! j) q" using table_used [OF inv_table [OF inv]] by blast
      then have "prefix p q" using inside_iff [OF p] j(4) by blast
      moreover have "q \<noteq> p" using table_same [OF inv_table [OF inv] fd(1) j(1), of p] fd(2) q j(3) by auto
      moreover have "view_of st q \<noteq> None" using view_dom [OF inv, of q] view_at [OF inv_table [OF inv] j(1) q, of "\<lambda>x. x"] by simp
      ultimately show ?r by (auto simp: strict_prefix_def)
    next
      assume ?r
      then obtain q where q: "strict_prefix p q" "view_of st q \<noteq> None" by blast
      then obtain nd where "node_map (nodes st) q = Some nd" using view_dom [OF inv] by auto
      then obtain j where j: "j < FS_MAX_NODES" "named (nodes st ! j) q" using view_Some [OF inv_table [OF inv]] by metis
      then have "j \<noteq> i" using fd(2) named_unique q(1) by (auto simp: strict_prefix_def)
      with j q(1) inside_iff [OF p j(2)] show ?l by (auto simp: named_def strict_prefix_def)
    qed
    show ?thesis
    proof (cases "\<not> recursive \<and> (\<exists>q. strict_prefix p q \<and> view_of st q \<noteq> None)")
      case True
      then show ?thesis
        using r rs p c p0 ex fn dt nc ch path_is_inside_render [OF p c(2)] by (auto simp: filesystem_remove_def Let_def split: if_splits)
    next
      case False
      have rl: "remove_loop (render p) [0..<FS_MAX_NODES] st = (r, st')"
        using r rs p c p0 fn dt nc ch False path_is_inside_render [OF p c(2)] by (auto simp: filesystem_remove_def Let_def split: if_splits)
      note sp = remove_loop_spec [OF inv p _ rl]
      have "r = FS_RESULT_OK \<Longrightarrow> view_of st' = (\<lambda>q. if prefix p q then None else view_of st q)"
        using remove_all [OF inv p] rl by simp
      then show ?thesis using sp False p0 ex nc good' [of st'] by (auto simp: lessThan_atLeast0)
    qed
  qed
qed

section \<open>Moving\<close>

text \<open>
  \<open>relocate V s d M\<close>: the nodes \<open>s @ z\<close> for \<open>z\<close> in \<open>M\<close> have moved to \<open>d @ z\<close>; \<open>duplicate\<close>: they have
  been copied there.
\<close>

definition relocate :: "(path \<Rightarrow> 'v option) \<Rightarrow> path \<Rightarrow> path \<Rightarrow> path set \<Rightarrow> path \<Rightarrow> 'v option" where
  "relocate V s d M q = (if prefix s q \<and> drop (length s) q \<in> M then None
     else if prefix d q \<and> drop (length d) q \<in> M then V (s @ drop (length d) q) else V q)"

definition duplicate :: "(path \<Rightarrow> 'v option) \<Rightarrow> path \<Rightarrow> path \<Rightarrow> path set \<Rightarrow> path \<Rightarrow> 'v option" where
  "duplicate V s d M q = (if prefix d q \<and> drop (length d) q \<in> M then V (s @ drop (length d) q) else V q)"

lemma relocate_empty [simp]: "relocate V s d {} = V" "duplicate V s d {} = V"
  by (auto simp: relocate_def duplicate_def)

lemma parallel_ne: "s \<parallel> d \<Longrightarrow> s @ x \<noteq> d @ y"
  by (metis parallel_def prefix_same_cases prefixI)

lemma relocate_step:
  assumes "s \<parallel> d" "z \<notin> M"
  shows "relocate (V(s @ z := None, d @ z := V (s @ z))) s d M = relocate V s d (insert z M)"
proof
  fix q
  consider x where "q = s @ x" | x where "q = d @ x" | "\<not> prefix s q" "\<not> prefix d q" by (metis prefix_def)
  then show "relocate (V(s @ z := None, d @ z := V (s @ z))) s d M q = relocate V s d (insert z M) q"
  proof cases
    case 1
    then have "\<not> prefix d q" using parallel_ne [OF assms(1)] by (metis prefix_def)
    with 1 assms parallel_ne [OF assms(1)] show ?thesis by (auto simp: relocate_def)
  next
    case 2
    then have "\<not> prefix s q" using parallel_ne [OF assms(1)] by (metis prefix_def)
    with 2 assms parallel_ne [OF assms(1)] show ?thesis
      by (auto simp: relocate_def)
  next
    case 3
    then show ?thesis by (auto simp: relocate_def)
  qed
qed

text \<open>The relative names of the nodes below \<open>s\<close> in the slots \<open>is\<close>.\<close>

definition below :: "FsNode list \<Rightarrow> path \<Rightarrow> nat list \<Rightarrow> path set" where
  "below ns s is = {z. \<exists>i\<in>set is. named (ns ! i) (s @ z)}"

lemma below_simps: "below ns s [] = {}" "named (ns ! i) (s @ z) \<Longrightarrow> below ns s (i # is) = insert z (below ns s is)"
  "(\<And>z. \<not> named (ns ! i) (s @ z)) \<Longrightarrow> below ns s (i # is) = below ns s is"
  using named_iff by (auto simp: below_def)

lemma below_update: "i \<notin> set is \<Longrightarrow> below (ns[i := nd]) s is = below ns s is"
  unfolding below_def by (metis (no_types, lifting) nth_list_update_neq)

lemma below_all:
  assumes "inv st"
  shows "z \<in> below (nodes st) s [0..<FS_MAX_NODES] \<longleftrightarrow> view_of st (s @ z) \<noteq> None"
  using view_dom [OF assms, of "s @ z"] view_Some [OF inv_table [OF assms], of "\<lambda>x. x" "s @ z"]
  by (auto simp: below_def)

lemma inside_node_iff:
  assumes "inv st" "i < FS_MAX_NODES" "wf_path s"
  shows "inside_node (render s) (nodes st ! i) \<longleftrightarrow> (\<exists>z. named (nodes st ! i) (s @ z))"
proof (cases "node_used (nodes st ! i)")
  case True
  then obtain q where "named (nodes st ! i) q" using table_used [OF inv_table [OF assms(1)] assms(2)] by blast
  then show ?thesis using inside_iff [OF assms(3)] True named_iff by (auto simp: inside_node_def prefix_def)
qed (simp add: inside_node_def named_def)

lemma persist_view:
  assumes "inv st" "persist_node st i = (ok, st')"
  shows "inv st'" "view_of st' = view_of st" "nodes st' = nodes st" "framed st st'" "fs_heap st' = fs_heap st"
    "\<not> ok \<Longrightarrow> filesystem_persistent_backend st"
  using persist_frame [OF assms(2)] inv_cong [OF assms(1), of st'] by (auto simp: framed_def)

lemma node_path_restore: "named nd q \<Longrightarrow> nd\<lparr>node_path := render q\<rparr> = nd"
  by (simp add: named_def)

lemma move_loop_spec:
  assumes "inv st" "wf_path s" "s \<noteq> []" "wf_path d" "d \<noteq> []" "s \<parallel> d"
    "set is \<subseteq> {..<FS_MAX_NODES}" "distinct is"
    "\<And>z. z \<in> below (nodes st) s is \<Longrightarrow> view_of st (d @ z) = None \<and> length (render (d @ z)) < ROOT_PATH_MAX"
    "move_loop (render s) (render d) is st = (r, st')"
  shows "inv st' \<and> framed st st' \<and> r \<in> {FS_RESULT_OK, FS_RESULT_IO_ERROR}
     \<and> (r = FS_RESULT_IO_ERROR \<longrightarrow> filesystem_persistent_backend st)
     \<and> (r = FS_RESULT_OK \<longrightarrow> view_of st' = relocate (view_of st) s d (below (nodes st) s is))"
  using assms(1,7-)
proof (induction "is" arbitrary: st)
  case Nil
  then show ?case by (simp add: below_simps)
next
  case (Cons i "is")
  have i: "i < FS_MAX_NODES" "i \<notin> set is" and is': "set is \<subseteq> {..<FS_MAX_NODES}" "distinct is" using Cons.prems(2,3) by auto
  note t = inv_table [OF Cons.prems(1)]
  have len: "length (nodes st) = FS_MAX_NODES" using t by (rule table_length)
  show ?case
  proof (cases "\<exists>z. named (nodes st ! i) (s @ z)")
    case False
    then have "below (nodes st) s (i # is) = below (nodes st) s is" by (intro below_simps) blast
    moreover have "move_loop (render s) (render d) is st = (r, st')"
      using Cons.prems(5) False inside_node_iff [OF Cons.prems(1) i(1) assms(2)] by simp
    ultimately show ?thesis using Cons.IH [OF Cons.prems(1) is'] Cons.prems(4) by simp
  next
    case True
    then obtain z where z: "named (nodes st ! i) (s @ z)" by blast
    have wz: "wf_path z" using z by (simp add: named_def)
    have bl: "below (nodes st) s (i # is) = insert z (below (nodes st) s is)" using z by (rule below_simps)
    have dz: "view_of st (d @ z) = None" "length (render (d @ z)) < ROOT_PATH_MAX" using Cons.prems(4) [of z] bl by auto
    have wd: "wf_path (d @ z)" using assms(4) wz by simp
    define nd where "nd = nodes st ! i"
    define st1 where "st1 = set_node st i (nd\<lparr>node_path := render (d @ z)\<rparr>)"
    note rn = rename_law [OF Cons.prems(1) i(1) z wd dz(2,1), folded nd_def, folded st1_def]
    obtain ok st2 where pn: "persist_node st1 i = (ok, st2)" by (cases "persist_node st1 i")
    note pv = persist_view [OF conjunct1 [OF rn] pn]
    have old: "length (render (s @ z)) < ROOT_PATH_MAX"
      using table_used [OF t i(1)] z named_unique by (auto simp: named_def)
    have np: "node_path nd = render (s @ z)" using z by (simp add: named_def nd_def)
    have jt: "join_target (render d) (drop (root_strlen (render s)) (node_path nd)) = render (d @ z)"
      using join_target_render [OF assms(4,5) wz dz(2)] suffix_text [OF assms(2,3), of z] np by simp
    have cp: "fst (root_strlcpy x (render q) ROOT_PATH_MAX) = render q" if "wf_path q" "length (render q) < ROOT_PATH_MAX" for x q
      using that by (simp add: root_strlcpy_spec cstr_render rootos_consts)
    have ws: "wf_path (s @ z)" using assms(2) wz by simp
    have "inside_node (render s) (nodes st ! i)" using z inside_node_iff [OF Cons.prems(1) i(1) assms(2)] by blast
    then have step: "(r, st') = (if ok then move_loop (render s) (render d) is st2
        else (FS_RESULT_IO_ERROR, set_node st2 i ((nodes st2 ! i)\<lparr>node_path := render (s @ z)\<rparr>)))"
      using Cons.prems(5) pn jt np cp [OF wd dz(2)] cp [OF ws old]
      by (auto simp: Let_def nd_def [symmetric] st1_def split: if_splits)
    have n2: "nodes st2 = (nodes st)[i := nd\<lparr>node_path := render (d @ z)\<rparr>]" using pv(3) by (simp add: st1_def)
    have fr: "framed st st2" using framed_trans [of st st1 st2] pv(4) by (simp add: st1_def)
    show ?thesis
    proof (cases ok)
      case False
      have st': "st' = set_node st2 i ((nodes st2 ! i)\<lparr>node_path := render (s @ z)\<rparr>)" and rr: "r = FS_RESULT_IO_ERROR"
        using step False by simp_all
      have "nodes st' = nodes st" using st' n2 i len node_path_restore [OF z] by (simp add: nd_def)
      moreover have "fs_heap st' = fs_heap st" "framed st st'" using st' pv(5) fr by (auto simp: st1_def framed_def)
      ultimately show ?thesis
        using inv_cong [OF Cons.prems(1), of st'] rr pv(6) False by (auto simp: framed_def st1_def)
    next
      case True
      have ml: "move_loop (render s) (render d) is st2 = (r, st')" using step True by simp
      have same: "below (nodes st2) s is = below (nodes st) s is"
        using below_update [OF i(2)] n2 by simp
      have zn: "z \<notin> below (nodes st) s is"
        using z i is'(1) table_same [OF t i(1)] by (auto simp: below_def)
      have v2: "view_of st2 = (view_of st)(s @ z := None, d @ z := view_of st (s @ z))" using pv(2) rn by simp
      have pre: "view_of st2 (d @ y) = None \<and> length (render (d @ y)) < ROOT_PATH_MAX" if "y \<in> below (nodes st2) s is" for y
        using that same zn Cons.prems(4) [of y] bl parallel_ne [OF assms(6)] by (auto simp: v2)
      note IH = Cons.IH [OF pv(1) is' pre ml]
      have "filesystem_persistent_backend st2 = filesystem_persistent_backend st" using fr by (simp add: framed_def)
      moreover have "view_of st' = relocate (view_of st) s d (below (nodes st) s (i # is))" if "r = FS_RESULT_OK"
      proof -
        have "view_of st' = relocate (view_of st2) s d (below (nodes st2) s is)" using IH that by blast
        then show ?thesis unfolding v2 same bl relocate_step [OF assms(6) zn] .
      qed
      moreover have "framed st st'" using framed_trans [OF fr] IH by blast
      ultimately show ?thesis using IH by blast
    qed
  qed
qed

lemma targets_fit_iff:
  assumes "inv st" "wf_path s" "s \<noteq> []" "wf_path d" "d \<noteq> []"
  shows "targets_fit (render s) (render d) st \<longleftrightarrow> (\<forall>z. view_of st (s @ z) \<noteq> None \<longrightarrow> length (render (d @ z)) < ROOT_PATH_MAX)"
proof -
  have len: "root_strlen (render d) + root_strlen (drop (root_strlen (render s)) (render (s @ z))) = length (render (d @ z))"
    if "wf_path z" for z
    using suffix_text [OF assms(2,3), of z] root_strlen_exact [OF NUL_rtail [OF that]] strlen_render [OF assms(4)] assms(5)
    by (simp add: render_rtail)
  have dom: "view_of st (s @ z) \<noteq> None \<longleftrightarrow> (\<exists>i<FS_MAX_NODES. named (nodes st ! i) (s @ z))" for z
    using below_all [OF assms(1), of z s] by (auto simp: below_def)
  show ?thesis
  proof
    assume l: "targets_fit (render s) (render d) st"
    show "\<forall>z. view_of st (s @ z) \<noteq> None \<longrightarrow> length (render (d @ z)) < ROOT_PATH_MAX"
    proof (intro allI impI)
      fix z
      assume "view_of st (s @ z) \<noteq> None"
      then obtain i where i: "i < FS_MAX_NODES" "named (nodes st ! i) (s @ z)" using dom by blast
      then have "wf_path z" "node_path (nodes st ! i) = render (s @ z)" by (simp_all add: named_def)
      moreover have "nodes st ! i \<in> set (nodes st)" using i table_length [OF inv_table [OF assms(1)]] by simp
      moreover have "inside_node (render s) (nodes st ! i)" using i inside_node_iff [OF assms(1) i(1) assms(2)] by blast
      ultimately show "length (render (d @ z)) < ROOT_PATH_MAX" using l len by (auto simp: targets_fit_def not_le)
    qed
  next
    assume r: "\<forall>z. view_of st (s @ z) \<noteq> None \<longrightarrow> length (render (d @ z)) < ROOT_PATH_MAX"
    show "targets_fit (render s) (render d) st"
      unfolding targets_fit_def
    proof (intro ballI impI)
      fix nd
      assume nd: "nd \<in> set (nodes st)" "inside_node (render s) nd"
      then obtain i where i: "i < FS_MAX_NODES" "nd = nodes st ! i"
        using table_length [OF inv_table [OF assms(1)]] by (metis in_set_conv_nth)
      then obtain z where z: "named nd (s @ z)" using nd(2) inside_node_iff [OF assms(1) i(1) assms(2)] by blast
      then have "wf_path z" "node_path nd = render (s @ z)" by (simp_all add: named_def)
      with r dom i z len show "\<not> ROOT_PATH_MAX \<le> root_strlen (render d) + root_strlen (drop (root_strlen (render s)) (node_path nd))"
        by (metis not_le)
    qed
  qed
qed

text \<open>
  The situation in which copying and moving start their work: the parent of the destination is a
  directory, the destination is absent, and source and destination do not contain each other.
\<close>

lemma transfer_start:
  assumes cl: "closed V" and gr: "grows V V1 (butlast d)" and cl1: "closed V1" and ds: "V1 (butlast d) = Some dirv"
    and s: "V s \<noteq> None" and d: "V d = None" "d \<noteq> []" and ns: "V s = Some dirv \<Longrightarrow> \<not> prefix s d"
  shows "s \<parallel> d" "V1 d = None" "V1 (d @ z) = None" "V1 (s @ z) = V (s @ z)"
proof -
  have nb: "\<not> prefix d (butlast d)" using d(2)
    by (metis append_butlast_last_id not_Cons_self2 prefix_order.antisym prefixI same_append_eq self_append_conv)
  show d1: "V1 d = None" using gr d(1) nb unfolding grows_def by metis
  then show "V1 (d @ z) = None" by (rule closed_absent [OF cl1])
  have "\<not> prefix d s" using closed_absent [OF cl d(1)] s by (metis prefix_def)
  moreover have "\<not> prefix s d"
  proof
    assume a: "prefix s d"
    have "s \<noteq> d" using s d(1) by auto
    with a have "prefix s (butlast d)" by (metis append_butlast_last_id d(2) prefix_snoc)
    then obtain y where y: "butlast d = s @ y" by (auto simp: prefix_def)
    have "V1 s = Some dirv" using ds closed_prefix [OF cl1, of s y] y by (cases "y = []") auto
    moreover have "V1 s = V s" using gr s unfolding grows_def by metis
    ultimately show False using ns a by simp
  qed
  ultimately show par: "s \<parallel> d" by blast
  show "V1 (s @ z) = V (s @ z)"
  proof (rule ccontr)
    assume "V1 (s @ z) \<noteq> V (s @ z)"
    then have "prefix (s @ z) (butlast d)" using gr unfolding grows_def by metis
    then have "prefix s d" by (metis append_prefixD d(2) append_butlast_last_id prefix_snoc)
    with par show False by blast
  qed
qed

lemma closed_relocate:
  assumes cl: "closed V" and par: "s \<parallel> d" and d: "V (butlast d) = Some dirv" "d \<noteq> []" and s: "V s \<noteq> None" "s \<noteq> []"
    and M: "\<And>z. z \<in> M \<longleftrightarrow> V (s @ z) \<noteq> None" and ab: "\<And>z. V (d @ z) = None"
  shows "closed (relocate V s d M)"
proof -
  have ndp: "\<not> prefix s (butlast d)" "\<not> prefix d (butlast d)"
    using par d(2) by (metis append_butlast_last_id parallel_def prefix_snoc, metis d(2) append_butlast_last_id not_Cons_self2 prefix_order.antisym prefixI same_append_eq self_append_conv)
  have eqs: "relocate V s d M (s @ z) = None" "relocate V s d M (d @ z) = V (s @ z)" for z
    using par M [of z] ab parallel_ne [OF par] parallel_ne [OF par, THEN not_sym] by (auto simp: relocate_def prefix_def)
  have oth: "relocate V s d M q = V q" if "\<not> prefix s q" "\<not> prefix d q" for q
    using that by (simp add: relocate_def)
  show ?thesis
    unfolding closed_def
  proof (intro conjI allI impI)
    have "\<not> prefix s []" "\<not> prefix d []" using s d(2) by simp_all
    then show "relocate V s d M [] = Some dirv" using oth cl by (simp add: closed_def)
  next
    fix q x
    assume a: "relocate V s d M (q @ [x]) \<noteq> None"
    consider (src) "prefix s (q @ [x])" | (dst) "q @ [x] = d" | (below) y where "q = d @ y"
      | (other) "\<not> prefix s (q @ [x])" "\<not> prefix d (q @ [x])"
      by (metis prefix_def prefix_snoc)
    then show "relocate V s d M q = Some dirv"
    proof cases
      case src
      then show ?thesis using a eqs(1) by (metis prefix_def)
    next
      case dst
      then have "q = butlast d" by auto
      then show ?thesis using oth ndp d(1) by simp
    next
      case below
      then have "V (s @ y @ [x]) \<noteq> None" using a eqs(2) [of "y @ [x]"] by simp
      then have "V (s @ y) = Some dirv" using cl unfolding closed_def by (metis append.assoc)
      then show ?thesis using below eqs(2) by simp
    next
      case other
      then have "\<not> prefix s q" "\<not> prefix d q" by auto
      then show ?thesis using other a oth cl unfolding closed_def by metis
    qed
  qed
qed

lemma relocate_at:
  assumes "s \<parallel> d" "\<And>z. z \<in> M \<longleftrightarrow> V (s @ z) \<noteq> None" "\<And>z. V (d @ z) = None"
  shows "relocate V s d M (d @ z) = V (s @ z)" "relocate V s d M (s @ z) = None"
    "\<not> prefix s q \<Longrightarrow> \<not> prefix d q \<Longrightarrow> relocate V s d M q = V q"
  using assms(2) [of z] assms(3) parallel_ne [OF assms(1)] parallel_ne [OF assms(1), THEN not_sym]
  by (auto simp: relocate_def prefix_def)

definition renamed_cwd :: "path \<Rightarrow> path \<Rightarrow> path \<Rightarrow> path" where
  "renamed_cwd s d c = (if prefix s c then d @ drop (length s) c else c)"

lemma move_finish:
  assumes g: "good st" and gr: "grows (view_of st) (view_of st1) (butlast d)" and g1: "good st1" and fr: "framed st st1"
    and ds: "view_of st1 (butlast d) = Some dirv"
    and sd: "wf_path s" "s \<noteq> []" "wf_path d" "d \<noteq> []" "view_of st s \<noteq> None" "view_of st d = None"
      "view_of st s = Some dirv \<Longrightarrow> \<not> prefix s d"
    and fit: "targets_fit (render s) (render d) st1"
    and ml: "move_loop (render s) (render d) [0..<FS_MAX_NODES] st1 = (r, st2)"
    and c: "current_directory st = render c" "wf_path c"
  defines "st3 \<equiv> (if path_is_inside (render s) (current_directory st1)
     then st2\<lparr>current_directory := fst (root_strlcpy (current_directory st2)
       (join_target (render d) (drop (root_strlen (render s)) (current_directory st1))) ROOT_PATH_MAX)\<rparr> else st2)"
  shows "(r = FS_RESULT_OK \<and> good st3 \<and> view_of st3 = relocate (view_of st1) s d {z. view_of st (s @ z) \<noteq> None}
        \<and> current_directory st3 = render (renamed_cwd s d c))
     \<or> (r = FS_RESULT_IO_ERROR \<and> filesystem_persistent_backend st)"
proof -
  note inv1 = good_simps(1) [OF g1] and cl1 = good_simps(2) [OF g1]
  note ts = transfer_start [OF good_simps(2) [OF g] gr cl1 ds sd(5,6,4,7)]
  have M: "below (nodes st1) s [0..<FS_MAX_NODES] = {z. view_of st (s @ z) \<noteq> None}"
    using below_all [OF inv1, of _ s] ts(4) by auto
  have fitz: "length (render (d @ z)) < ROOT_PATH_MAX" if "view_of st1 (s @ z) \<noteq> None" for z
    using fit targets_fit_iff [OF inv1 sd(1-4)] that by blast
  have pre: "view_of st1 (d @ z) = None \<and> length (render (d @ z)) < ROOT_PATH_MAX" if "z \<in> below (nodes st1) s [0..<FS_MAX_NODES]" for z
    using ts(3) fitz below_all [OF inv1, of z s] that by blast
  have sub: "set [0..<FS_MAX_NODES] \<subseteq> {..<FS_MAX_NODES}" by auto
  note sp = move_loop_spec [OF inv1 sd(1-4) ts(1) sub distinct_upt pre ml]
  have c1: "current_directory st1 = render c" and b1: "filesystem_persistent_backend st1 = filesystem_persistent_backend st"
    using fr c by (simp_all add: framed_def)
  show ?thesis
  proof (cases "r = FS_RESULT_OK")
    case False
    then show ?thesis using sp b1 by auto
  next
    case True
    define W where "W = relocate (view_of st1) s d {z. view_of st (s @ z) \<noteq> None}"
    have v2: "view_of st2 = W" using sp True M by (simp add: W_def)
    have Mi: "z \<in> {z. view_of st (s @ z) \<noteq> None} \<longleftrightarrow> view_of st1 (s @ z) \<noteq> None" for z using ts(4) by simp
    note ra = relocate_at [OF ts(1) Mi ts(3), folded W_def]
    have s1: "view_of st1 s \<noteq> None" using ts(4) [of "[]"] sd(5) by simp
    have clW: "closed W" unfolding W_def by (rule closed_relocate [OF cl1 ts(1) ds sd(4) s1 sd(2) Mi ts(3)])
    have cd: "view_of st1 c = Some dirv" "length (render c) < ROOT_PATH_MAX"
      using g1 c1 c(2) render_inj unfolding good_def by metis+
    have v3: "view_of st3 = W" "inv st3"
    proof -
      have "nodes st3 = nodes st2" "fs_heap st3 = fs_heap st2" "filesystem_persistent_backend st3 = filesystem_persistent_backend st2"
        by (simp_all add: st3_def)
      with inv_cong [of st2 st3] sp v2 show "view_of st3 = W" "inv st3" by auto
    qed
    have "current_directory st3 = render (renamed_cwd s d c) \<and> wf_path (renamed_cwd s d c)
        \<and> length (render (renamed_cwd s d c)) < ROOT_PATH_MAX \<and> W (renamed_cwd s d c) = Some dirv"
    proof (cases "prefix s c")
      case True
      then obtain z where z: "c = s @ z" by (auto simp: prefix_def)
      have wz: "wf_path z" using c(2) z by simp
      have fz: "length (render (d @ z)) < ROOT_PATH_MAX" using fitz [of z] cd(1) z by simp
      have "join_target (render d) (drop (root_strlen (render s)) (render c)) = render (d @ z)"
        using join_target_render [OF sd(3,4) wz fz] suffix_text [OF sd(1,2), of z] z by simp
      then have "current_directory st3 = render (d @ z)"
        using True c1 path_is_inside_render [OF sd(1) c(2)] fz sd(3) wz
        by (simp add: st3_def root_strlcpy_spec cstr_render rootos_consts)
      moreover have "renamed_cwd s d c = d @ z" using True z by (simp add: renamed_cwd_def)
      moreover have "W (d @ z) = Some dirv" using ra(1) cd(1) z by simp
      ultimately show ?thesis using sd(3) wz fz by simp
    next
      case False
      have "\<not> prefix d c" using ts(3) cd(1) by (auto simp: prefix_def)
      then have "W c = Some dirv" using ra(3) False cd(1) by simp
      moreover have "current_directory st3 = render c"
        using False c1 path_is_inside_render [OF sd(1) c(2)] sp by (simp add: st3_def framed_def)
      ultimately show ?thesis using False c(2) cd(2) by (simp add: renamed_cwd_def)
    qed
    then show ?thesis using True v3 clW unfolding good_def W_def by metis
  qed
qed

lemma move_spec:
  assumes g: "good st" and r: "filesystem_move st source destination = (r, st')"
    and rs: "root_path_resolve (current_directory st) source ROOT_PATH_MAX = Some (render s)"
      "root_path_resolve (current_directory st) destination ROOT_PATH_MAX = Some (render d)"
    and s: "wf_path s" and d: "wf_path d" "length (render d) < ROOT_PATH_MAX"
    and c: "current_directory st = render c" "wf_path c"
  shows "if view_of st s = None then r = FS_RESULT_NOT_FOUND \<and> st' = st
     else if s = [] then r = FS_RESULT_BUSY \<and> st' = st
     else if view_of st d \<noteq> None then r = FS_RESULT_ALREADY_EXISTS \<and> st' = st
     else if view_of st s = Some dirv \<and> prefix s d then r = FS_RESULT_INVALID_PATH \<and> st' = st
     else (r \<in> {FS_RESULT_NOT_DIRECTORY, FS_RESULT_NO_SPACE, FS_RESULT_INVALID_PATH} \<and> good st'
             \<and> grows (view_of st) (view_of st') (butlast d))
       \<or> (r = FS_RESULT_OK \<and> good st' \<and> (\<exists>V. closed V \<and> grows (view_of st) V (butlast d) \<and> V (butlast d) = Some dirv
             \<and> view_of st' = relocate V s d {z. view_of st (s @ z) \<noteq> None})
             \<and> current_directory st' = render (renamed_cwd s d c))
       \<or> (r = FS_RESULT_IO_ERROR \<and> filesystem_persistent_backend st)"
proof (cases "view_of st s = None \<or> s = [] \<or> view_of st d \<noteq> None \<or> (view_of st s = Some dirv \<and> prefix s d)")
  case True
  note inv = good_simps(1) [OF g]
  show ?thesis
  proof (cases "find_node st (render s)")
    case None
    then show ?thesis using r rs find_None [OF inv s] by (simp add: filesystem_move_def)
  next
    case (Some i)
    note fd = find_SomeD [OF inv s Some]
    show ?thesis
      using True r rs Some fd(3) s find_None [OF inv d(1)] dir_iff [OF inv fd(1,2)] path_is_inside_render [OF s d(1)]
      by (auto simp: filesystem_move_def split: if_splits)
  qed
next
  case False
  note inv = good_simps(1) [OF g]
  have sd: "view_of st s \<noteq> None" "s \<noteq> []" "view_of st d = None" "view_of st s = Some dirv \<Longrightarrow> \<not> prefix s d"
    using False by auto
  have d0: "d \<noteq> []" using good_simps(2) [OF g] sd(3) by (auto simp: closed_def)
  obtain i where fs: "find_node st (render s) = Some i" using sd(1) find_None [OF inv s] by auto
  note fd = find_SomeD [OF inv s fs]
  have fdn: "find_node st (render d) = None" using sd(3) find_None [OF inv d(1)] by simp
  obtain r1 st1 where en: "ensure_directory_absolute st (render (butlast d)) = (r1, st1)"
    by (cases "ensure_directory_absolute st (render (butlast d))")
  note es = ensure_spec [OF inv wf_path_butlast [OF d(1)] butlast_short [OF d(2)] good_simps(2) [OF g] en]
  note g1 = good_ensured [OF g es]
  have gr: "grows (view_of st) (view_of st1) (butlast d)" "framed st st1" using es by (simp_all add: ensured_def)
  obtain r2 st2 where ml: "move_loop (render s) (render d) [0..<FS_MAX_NODES] st1 = (r2, st2)"
    by (cases "move_loop (render s) (render d) [0..<FS_MAX_NODES] st1")
  define st3 where "st3 = (if path_is_inside (render s) (current_directory st1)
     then st2\<lparr>current_directory := fst (root_strlcpy (current_directory st2)
       (join_target (render d) (drop (root_strlen (render s)) (current_directory st1))) ROOT_PATH_MAX)\<rparr> else st2)"
  have res: "(r, st') = (if r1 \<noteq> FS_RESULT_OK then (r1, st1)
      else if \<not> targets_fit (render s) (render d) st1 then (FS_RESULT_INVALID_PATH, st1)
      else if r2 \<noteq> FS_RESULT_OK then (r2, st2) else (FS_RESULT_OK, st3))"
    using r rs s d d0 sd fs fdn en ml dir_iff [OF inv fd(1,2)] path_is_inside_render [OF s d(1)]
    by (auto simp: filesystem_move_def get_parent_path_render st3_def Let_def split: if_splits)
  show ?thesis
  proof (cases "r1 = FS_RESULT_OK \<and> targets_fit (render s) (render d) st1")
    case F: False
    then show ?thesis using res False es g1 gr by (auto simp: ensured_def split: if_splits)
  next
    case True
    then have ds: "view_of st1 (butlast d) = Some dirv" using es by (simp add: ensured_def)
    note mf = move_finish [OF g gr(1) g1 gr(2) ds s sd(2) d(1) d0 sd(1,3,4) conjunct2 [OF True] ml c, folded st3_def]
    then consider "r2 = FS_RESULT_OK" "good st3" "view_of st3 = relocate (view_of st1) s d {z. view_of st (s @ z) \<noteq> None}"
        "current_directory st3 = render (renamed_cwd s d c)"
      | "r2 = FS_RESULT_IO_ERROR" "filesystem_persistent_backend st" by blast
    then show ?thesis
    proof cases
      case 1
      then have "r = FS_RESULT_OK" "st' = st3" using res True by simp_all
      with 1 gr(1) ds False good_simps(2) [OF g1] show ?thesis by auto
    next
      case 2
      then have "r = FS_RESULT_IO_ERROR" using res True by simp
      with 2 False show ?thesis by auto
    qed
  qed
qed

end

end
