(* ===== verification/Root_FS_Copy.thy ===== *)
theory Root_FS_Copy
  imports Root_FS_Ops
begin

text \<open>
  Copying subtrees and writing file contents, for every view of the file system (\<open>tree_view\<close>): the copy
  loop walks the table while it fills free slots of the same table, so its invariant says which slots
  still have to be copied and that enough free slots remain.
\<close>

lemma read_frame:
  assumes "backend_read_file st i cap = (r, st')"
  shows "nodes st' = nodes st" "fs_heap st' = fs_heap st" "framed st st'"
  using assms by (auto simp: backend_read_file_def Let_def framed_def split: if_splits prod.splits option.splits)

lemma count_free_used: "map node_used (nodes st') = map node_used (nodes st) \<Longrightarrow> count_free_nodes st' = count_free_nodes st"
proof -
  have "count_free_nodes x = length (filter Not (map node_used (nodes x)))" for x :: "'e fs"
    unfolding count_free_nodes_def by (induction "nodes x") (auto simp: filter_map o_def)
  moreover assume "map node_used (nodes st') = map node_used (nodes st)"
  ultimately show ?thesis by metis
qed

lemma named_map:
  assumes "map node_path ns' = map node_path ns" "map node_used ns' = map node_used ns" "i < length ns"
  shows "named (ns' ! i) = named (ns ! i)"
proof -
  have "length ns' = length ns" using assms(1) by (metis length_map)
  then have "node_path (ns' ! i) = node_path (ns ! i)" "node_used (ns' ! i) = node_used (ns ! i)"
    using assms by (metis nth_map)+
  then show ?thesis by (simp add: named_def fun_eq_iff)
qed

context tree_view
begin

lemma duplicate_step:
  assumes "s \<parallel> d" "z \<notin> M"
  shows "duplicate (V(d @ z := V (s @ z))) s d M = duplicate V s d (insert z M)"
proof
  fix q
  show "duplicate (V(d @ z := V (s @ z))) s d M q = duplicate V s d (insert z M) q"
  proof (cases "prefix d q")
    case True
    then obtain x where "q = d @ x" by (auto simp: prefix_def)
    then show ?thesis using assms parallel_ne [OF assms(1)] by (auto simp: duplicate_def)
  next
    case False
    then show ?thesis by (auto simp: duplicate_def)
  qed
qed

lemma read_view:
  assumes "inv st" "backend_read_file st i cap = (r, st')"
  shows "inv st'" "view_of st' = view_of st" "nodes st' = nodes st" "framed st st'" "count_free_nodes st' = count_free_nodes st"
  using read_frame [OF assms(2)] inv_cong [OF assms(1), of st'] by (auto simp: framed_def count_free_nodes_def)

lemma add_for_copy:
  assumes "inv st" "wf_path q" "length (render q) < ROOT_PATH_MAX" "view_of st q = None" "0 < count_free_nodes st"
    "add_node_absolute st (render q) ty = (r, st')"
  shows "inv st' \<and> framed st st' \<and> (r = FS_RESULT_IO_ERROR \<or> (r = FS_RESULT_OK \<and> view_of st' = (view_of st)(q \<mapsto> val ty [])
     \<and> count_free_nodes st' + 1 = count_free_nodes st
     \<and> (\<exists>k<FS_MAX_NODES. \<not> node_used (nodes st ! k) \<and> nodes st' = (nodes st)[k := fresh_node q ty])))"
  using add_view [OF assms(1-3,6)] assms(4,5) by auto

lemma named_after_add:
  assumes "inv st" "k < FS_MAX_NODES" "\<not> node_used (nodes st ! k)" "wf_path q" "nodes st' = (nodes st)[k := fresh_node q ty]"
    "j < FS_MAX_NODES" "p \<noteq> q"
  shows "named (nodes st' ! j) p \<longleftrightarrow> named (nodes st ! j) p"
  using assms table_length [OF inv_table [OF assms(1)]] by (cases "j = k") (auto simp: named_def fresh_node_def dest: render_inj [THEN iffD1, rotated 2])

lemma copy_one_spec:
  assumes inv: "inv st" and i: "i < FS_MAX_NODES" and z: "named (nodes st ! i) p" and q: "wf_path q" "length (render q) < ROOT_PATH_MAX"
    "view_of st q = None" and free: "0 < count_free_nodes st"
  shows "\<exists>r st'. copy_one (render q) i st = Some (r, st') \<and> inv st' \<and> framed st st'
     \<and> (r = FS_RESULT_IO_ERROR \<or> (r = FS_RESULT_OK \<and> view_of st' = (view_of st)(q := view_of st p)
         \<and> count_free_nodes st' + 1 = count_free_nodes st
         \<and> (\<forall>j<FS_MAX_NODES. \<forall>x. x \<noteq> q \<longrightarrow> named (nodes st' ! j) x = named (nodes st ! j) x)))"
proof -
  define ty where "ty = node_type (nodes st ! i)"
  define n where "n = node_size (nodes st ! i)"
  define rd where "rd = (if ty = FS_FILE \<and> n > 0 then backend_read_file st i FS_MAX_FILE_SIZE else (Some [], st))"
  obtain data st1 where rd1: "rd = (data, st1)" by (cases rd)
  have st1: "inv st1" "view_of st1 = view_of st" "nodes st1 = nodes st" "framed st st1" "count_free_nodes st1 = count_free_nodes st"
    using rd1 read_view [OF inv, of i FS_MAX_FILE_SIZE data st1] inv unfolding rd_def by (auto split: if_splits)
  show ?thesis
  proof (cases "\<exists>bs. data = Some bs \<and> (ty = FS_FILE \<and> n > 0 \<longrightarrow> length bs = n)")
    case False
    then have "copy_one (render q) i st = Some (FS_RESULT_IO_ERROR, st1)"
      using rd1 by (auto simp: copy_one_def Let_def ty_def [symmetric] n_def [symmetric] rd_def [symmetric] split: option.splits)
    then show ?thesis using st1 by simp
  next
    case True
    then obtain bs where bs: "data = Some bs" "ty = FS_FILE \<and> n > 0 \<longrightarrow> length bs = n" by blast
    have vp: "view_of st p = Some (val ty bs) \<and> length bs \<le> FS_MAX_FILE_SIZE \<and> (ty = FS_DIRECTORY \<longrightarrow> bs = []) \<and> (ty = FS_FILE \<longrightarrow> length bs = n)"
    proof (cases "ty = FS_FILE \<and> n > 0")
      case True
      then show ?thesis
        using read_law [OF inv i z, of FS_MAX_FILE_SIZE bs st1] bs rd1 unfolding rd_def ty_def n_def by auto
    next
      case False
      then have "bs = []" using bs rd1 by (simp add: rd_def split: if_splits)
      with False view_node [OF inv i z] show ?thesis by (cases ty) (auto simp: ty_def n_def)
    qed
    obtain r st2 where ad: "add_node_absolute st1 (render q) ty = (r, st2)" by (cases "add_node_absolute st1 (render q) ty")
    have "view_of st1 q = None" "0 < count_free_nodes st1" using st1 q(3) free by simp_all
    note av = add_for_copy [OF st1(1) q(1,2) this ad]
    have fr2: "framed st st2" using framed_trans [OF st1(4)] av by blast
    have unf: "copy_one (render q) i st = (if r \<noteq> FS_RESULT_OK then Some (r, st2)
        else if ty = FS_FILE then
          (case find_node st2 (render q) of None \<Rightarrow> Some (FS_RESULT_IO_ERROR, st2)
           | Some j \<Rightarrow> do { (ok, st) \<leftarrow> backend_write_file st2 j (Some bs) n;
               if \<not> ok then Some (FS_RESULT_IO_ERROR, st) else Some (FS_RESULT_OK, st) })
        else Some (FS_RESULT_OK, st2))"
      using rd1 bs ad by (auto simp: copy_one_def Let_def ty_def [symmetric] n_def [symmetric] rd_def [symmetric])
    show ?thesis
    proof (cases "r = FS_RESULT_OK")
      case False
      then show ?thesis using av fr2 unf by auto
    next
      case True
      with av obtain k where k: "k < FS_MAX_NODES" "\<not> node_used (nodes st1 ! k)" "nodes st2 = (nodes st1)[k := fresh_node q ty]"
        and v2: "view_of st2 = (view_of st1)(q \<mapsto> val ty [])" and c2: "count_free_nodes st2 + 1 = count_free_nodes st1"
        by auto
      have nm: "\<forall>j<FS_MAX_NODES. \<forall>x. x \<noteq> q \<longrightarrow> named (nodes st2 ! j) x = named (nodes st ! j) x"
        using named_after_add [OF st1(1) k(1,2) q(1) k(3)] st1(3) by auto
      show ?thesis
      proof (cases ty)
        case FS_DIRECTORY
        then show ?thesis using unf True av fr2 v2 c2 st1 vp nm by auto
      next
        case FS_FILE
        obtain j where j: "find_node st2 (render q) = Some j"
          using find_None [OF _ q(1), of st2] av v2 by auto
        note fd = find_SomeD [OF conjunct1 [OF av] q(1) j]
        have "node_type (nodes st2 ! j) = FS_FILE"
        proof -
          have "view_of st2 q \<noteq> Some dirv" using v2 val_type FS_FILE by (metis dirv_def fun_upd_same option.inject)
          then show ?thesis using dir_iff [OF conjunct1 [OF av] fd(1,2)] by (metis FsType.exhaust)
        qed
        from write_law [OF conjunct1 [OF av] fd(1,2) this, of bs n] vp FS_FILE obtain ok st3 where
          w: "backend_write_file st2 j (Some bs) n = Some (ok, st3)" "inv st3"
            "view_of st3 = (if ok then (view_of st2)(q \<mapsto> val FS_FILE bs) else view_of st2)" "framed st2 st3"
            "map node_path (nodes st3) = map node_path (nodes st2)" "map node_used (nodes st3) = map node_used (nodes st2)"
          by auto
        have fr3: "framed st st3" using framed_trans [OF fr2 w(4)] .
        show ?thesis
        proof (cases ok)
          case False
          then show ?thesis using unf True FS_FILE j w fr3 by auto
        next
          case okT: True
          have "named (nodes st3 ! l) = named (nodes st2 ! l)" if "l < FS_MAX_NODES" for l
            using named_map [OF w(5,6)] that table_length [OF inv_table] av by auto
          then have "\<forall>l<FS_MAX_NODES. \<forall>x. x \<noteq> q \<longrightarrow> named (nodes st3 ! l) x = named (nodes st ! l) x"
            using nm by simp
          moreover have "view_of st3 = (view_of st)(q := view_of st p)" using w(3) okT v2 st1(2) vp FS_FILE by simp
          moreover have "count_free_nodes st3 + 1 = count_free_nodes st" using count_free_used [OF w(6)] c2 st1(5) by simp
          ultimately show ?thesis using unf True FS_FILE j w okT fr3 by auto
        qed
      qed
    qed
  qed
qed

definition icount :: "'d fs \<Rightarrow> path \<Rightarrow> nat list \<Rightarrow> nat" where
  "icount st s is = length (filter (\<lambda>i. inside_node (render s) (nodes st ! i)) is)"

lemma copy_loop_spec:
  assumes "inv st" "wf_path s" "s \<noteq> []" "wf_path d" "d \<noteq> []" "s \<parallel> d"
    "set is \<subseteq> {..<FS_MAX_NODES}" "distinct is"
    "\<And>z. z \<in> below (nodes st) s is \<Longrightarrow> view_of st (d @ z) = None \<and> length (render (d @ z)) < ROOT_PATH_MAX"
    "icount st s is \<le> count_free_nodes st"
  shows "\<exists>r st'. copy_loop (render s) (render d) is st = Some (r, st') \<and> inv st' \<and> framed st st'
     \<and> r \<in> {FS_RESULT_OK, FS_RESULT_IO_ERROR}
     \<and> (r = FS_RESULT_OK \<longrightarrow> view_of st' = duplicate (view_of st) s d (below (nodes st) s is))"
  using assms(1,7-)
proof (induction "is" arbitrary: st)
  case Nil
  then show ?case by (simp add: below_simps)
next
  case (Cons i "is")
  have i: "i < FS_MAX_NODES" "i \<notin> set is" and is': "set is \<subseteq> {..<FS_MAX_NODES}" "distinct is" using Cons.prems(2,3) by auto
  note t = inv_table [OF Cons.prems(1)]
  show ?case
  proof (cases "\<exists>z. named (nodes st ! i) (s @ z)")
    case False
    then have b: "below (nodes st) s (i # is) = below (nodes st) s is" by (intro below_simps) blast
    have ni: "\<not> inside_node (render s) (nodes st ! i)" using False inside_node_iff [OF Cons.prems(1) i(1) assms(2)] by simp
    then have ic: "icount st s is \<le> count_free_nodes st" using Cons.prems(5) by (simp add: icount_def)
    have pre: "view_of st (d @ z) = None \<and> length (render (d @ z)) < ROOT_PATH_MAX" if "z \<in> below (nodes st) s is" for z
      using Cons.prems(4) that b by blast
    from Cons.IH [OF Cons.prems(1) is' pre ic] ni b show ?thesis by simp
  next
    case True
    then obtain z where z: "named (nodes st ! i) (s @ z)" by blast
    have wz: "wf_path z" using z by (simp add: named_def)
    have bl: "below (nodes st) s (i # is) = insert z (below (nodes st) s is)" using z by (rule below_simps)
    have dz: "view_of st (d @ z) = None" "length (render (d @ z)) < ROOT_PATH_MAX" using Cons.prems(4) [of z] bl by auto
    have wd: "wf_path (d @ z)" using assms(4) wz by simp
    have ins: "inside_node (render s) (nodes st ! i)" using z inside_node_iff [OF Cons.prems(1) i(1) assms(2)] by blast
    have free: "0 < count_free_nodes st" using Cons.prems(5) ins by (simp add: icount_def)
    have np: "node_path (nodes st ! i) = render (s @ z)" using z by (simp add: named_def)
    have jt: "join_target (render d) (drop (root_strlen (render s)) (node_path (nodes st ! i))) = render (d @ z)"
      using join_target_render [OF assms(4,5) wz dz(2)] suffix_text [OF assms(2,3), of z] np by simp
    obtain r1 st1 where c1: "copy_one (render (d @ z)) i st = Some (r1, st1)" "inv st1" "framed st st1"
        and or1: "r1 = FS_RESULT_IO_ERROR \<or> (r1 = FS_RESULT_OK \<and> view_of st1 = (view_of st)(d @ z := view_of st (s @ z))
         \<and> count_free_nodes st1 + 1 = count_free_nodes st
         \<and> (\<forall>j<FS_MAX_NODES. \<forall>x. x \<noteq> d @ z \<longrightarrow> named (nodes st1 ! j) x = named (nodes st ! j) x))"
      using copy_one_spec [OF Cons.prems(1) i(1) z wd dz(2,1) free] by blast
    have step: "copy_loop (render s) (render d) (i # is) st
        = (if r1 \<noteq> FS_RESULT_OK then Some (r1, st1) else copy_loop (render s) (render d) is st1)"
      using ins jt c1(1) by simp
    show ?thesis
    proof (cases "r1 = FS_RESULT_OK")
      case False
      then show ?thesis using step c1 or1 by auto
    next
      case True
      with or1 have v1: "view_of st1 = (view_of st)(d @ z := view_of st (s @ z))"
        and cf: "count_free_nodes st1 + 1 = count_free_nodes st"
        and nm: "\<And>j x. j < FS_MAX_NODES \<Longrightarrow> x \<noteq> d @ z \<Longrightarrow> named (nodes st1 ! j) x = named (nodes st ! j) x" by auto
      have nms: "named (nodes st1 ! j) (s @ y) = named (nodes st ! j) (s @ y)" if "j < FS_MAX_NODES" for j y
        using nm [OF that] parallel_ne [OF assms(6)] by blast
      have same: "below (nodes st1) s is = below (nodes st) s is" using nms is'(1) by (auto simp: below_def)
      have "inside_node (render s) (nodes st1 ! j) = inside_node (render s) (nodes st ! j)" if "j \<in> set is" for j
        using that is'(1) nms inside_node_iff [OF Cons.prems(1) _ assms(2)] inside_node_iff [OF c1(2) _ assms(2)] by auto
      then have "icount st1 s is = icount st s is" unfolding icount_def by (metis (mono_tags, lifting) filter_cong)
      then have ic: "icount st1 s is \<le> count_free_nodes st1" using Cons.prems(5) ins cf by (simp add: icount_def)
      have zn: "z \<notin> below (nodes st) s is"
        using z i is'(1) table_same [OF t i(1)] by (auto simp: below_def)
      have pre: "view_of st1 (d @ y) = None \<and> length (render (d @ y)) < ROOT_PATH_MAX" if "y \<in> below (nodes st1) s is" for y
        using that same zn Cons.prems(4) [of y] bl by (auto simp: v1)
      obtain r st' where IH: "copy_loop (render s) (render d) is st1 = Some (r, st')" "inv st'" "framed st1 st'"
          "r \<in> {FS_RESULT_OK, FS_RESULT_IO_ERROR}"
          "r = FS_RESULT_OK \<longrightarrow> view_of st' = duplicate (view_of st1) s d (below (nodes st1) s is)"
        using Cons.IH [OF c1(2) is' pre ic] by blast
      have "r = FS_RESULT_OK \<longrightarrow> view_of st' = duplicate (view_of st) s d (below (nodes st) s (i # is))"
        using IH(5) unfolding v1 same bl duplicate_step [OF assms(6) zn] .
      then show ?thesis using step True IH(1-4) framed_trans [OF c1(3) IH(3)] by auto
    qed
  qed
qed

lemma closed_duplicate:
  assumes cl: "closed V" and par: "s \<parallel> d" and d: "V (butlast d) = Some dirv" "d \<noteq> []"
    and M: "\<And>z. z \<in> M \<longleftrightarrow> V (s @ z) \<noteq> None" and ab: "\<And>z. V (d @ z) = None"
  shows "closed (duplicate V s d M)"
proof -
  have ndp: "\<not> prefix d (butlast d)"
    using d(2) by (metis append_butlast_last_id not_Cons_self2 prefix_order.antisym prefixI same_append_eq self_append_conv)
  have eqs: "duplicate V s d M (d @ z) = V (s @ z)" for z
    using M [of z] ab by (auto simp: duplicate_def)
  have oth: "duplicate V s d M q = V q" if "\<not> prefix d q" for q
    using that by (simp add: duplicate_def)
  show ?thesis
    unfolding closed_def
  proof (intro conjI allI impI)
    have "\<not> prefix d []" using d(2) by simp
    then show "duplicate V s d M [] = Some dirv" using oth cl by (simp add: closed_def)
  next
    fix q x
    assume a: "duplicate V s d M (q @ [x]) \<noteq> None"
    consider (dst) "q @ [x] = d" | (below) y where "q = d @ y" | (other) "\<not> prefix d (q @ [x])"
      by (metis prefix_def prefix_snoc)
    then show "duplicate V s d M q = Some dirv"
    proof cases
      case dst
      then have "q = butlast d" by auto
      then show ?thesis using oth ndp d(1) by simp
    next
      case below
      then have "V (s @ y @ [x]) \<noteq> None" using a eqs [of "y @ [x]"] by simp
      then have "V (s @ y) = Some dirv" using cl unfolding closed_def by (metis append.assoc)
      then show ?thesis using below eqs by simp
    next
      case other
      then have "\<not> prefix d q" by auto
      then show ?thesis using other a oth cl unfolding closed_def by metis
    qed
  qed
qed

lemma icount_all:
  assumes "inv st"
  shows "icount st s [0..<FS_MAX_NODES] = length (filter (inside_node (render s)) (nodes st))"
proof -
  have "nodes st = map ((!) (nodes st)) [0..<FS_MAX_NODES]" using table_length [OF inv_table [OF assms]] map_nth [of "nodes st"] by simp
  then have "filter (inside_node (render s)) (nodes st) = map ((!) (nodes st)) (filter (inside_node (render s) \<circ> (!) (nodes st)) [0..<FS_MAX_NODES])"
    by (metis filter_map)
  then show ?thesis by (simp add: icount_def o_def)
qed

lemma copy_spec:
  assumes g: "good st"
    and rs: "root_path_resolve (current_directory st) source ROOT_PATH_MAX = Some (render s)"
      "root_path_resolve (current_directory st) destination ROOT_PATH_MAX = Some (render d)"
    and s: "wf_path s" and d: "wf_path d" "length (render d) < ROOT_PATH_MAX"
  shows "\<exists>r st'. filesystem_copy st source destination = Some (r, st') \<and>
     (if view_of st s = None then r = FS_RESULT_NOT_FOUND \<and> st' = st
     else if view_of st d \<noteq> None then r = FS_RESULT_ALREADY_EXISTS \<and> st' = st
     else if view_of st s = Some dirv \<and> prefix s d then r = FS_RESULT_INVALID_PATH \<and> st' = st
     else (r \<in> {FS_RESULT_NOT_DIRECTORY, FS_RESULT_NO_SPACE, FS_RESULT_INVALID_PATH} \<and> good st'
             \<and> grows (view_of st) (view_of st') (butlast d))
       \<or> (r = FS_RESULT_OK \<and> good st' \<and> (\<exists>V. closed V \<and> grows (view_of st) V (butlast d) \<and> V (butlast d) = Some dirv
             \<and> view_of st' = duplicate V s d {z. view_of st (s @ z) \<noteq> None}))
       \<or> (r = FS_RESULT_IO_ERROR \<and> inv st' \<and> framed st st'))"
proof (cases "view_of st s = None \<or> view_of st d \<noteq> None \<or> (view_of st s = Some dirv \<and> prefix s d)")
  case True
  note inv = good_simps(1) [OF g]
  show ?thesis
  proof (cases "find_node st (render s)")
    case None
    then show ?thesis using rs find_None [OF inv s] by (simp add: filesystem_copy_def)
  next
    case (Some i)
    note fd = find_SomeD [OF inv s Some]
    show ?thesis
      using True rs Some fd(3) s find_None [OF inv d(1)] dir_iff [OF inv fd(1,2)] path_is_inside_render [OF s d(1)]
      by (auto simp: filesystem_copy_def)
  qed
next
  case False
  note inv = good_simps(1) [OF g]
  have sd: "view_of st s \<noteq> None" "view_of st d = None" "view_of st s = Some dirv \<Longrightarrow> \<not> prefix s d" using False by auto
  have s0: "s \<noteq> []" using good_simps(2) [OF g] sd(3) by (auto simp: closed_def)
  have d0: "d \<noteq> []" using good_simps(2) [OF g] sd(2) by (auto simp: closed_def)
  obtain i where fs: "find_node st (render s) = Some i" using sd(1) find_None [OF inv s] by auto
  note fd = find_SomeD [OF inv s fs]
  have fdn: "find_node st (render d) = None" using sd(2) find_None [OF inv d(1)] by simp
  obtain r1 st1 where en: "ensure_directory_absolute st (render (butlast d)) = (r1, st1)"
    by (cases "ensure_directory_absolute st (render (butlast d))")
  note es = ensure_spec [OF inv wf_path_butlast [OF d(1)] butlast_short [OF d(2)] good_simps(2) [OF g] en]
  note g1 = good_ensured [OF g es]
  note inv1 = good_simps(1) [OF g1] and cl1 = good_simps(2) [OF g1]
  have gr: "grows (view_of st) (view_of st1) (butlast d)" "framed st st1" using es by (simp_all add: ensured_def)
  have res: "filesystem_copy st source destination = (if r1 \<noteq> FS_RESULT_OK then Some (r1, st1)
      else if count_free_nodes st1 < icount st1 s [0..<FS_MAX_NODES] then Some (FS_RESULT_NO_SPACE, st1)
      else if \<not> targets_fit (render s) (render d) st1 then Some (FS_RESULT_INVALID_PATH, st1)
      else copy_loop (render s) (render d) [0..<FS_MAX_NODES] st1)"
    using rs s d d0 sd fs fdn en dir_iff [OF inv fd(1,2)] path_is_inside_render [OF s d(1)]
    by (auto simp: filesystem_copy_def get_parent_path_render Let_def icount_all [OF inv1])
  show ?thesis
  proof (cases "r1 = FS_RESULT_OK \<and> \<not> count_free_nodes st1 < icount st1 s [0..<FS_MAX_NODES] \<and> targets_fit (render s) (render d) st1")
    case F: False
    have "\<exists>r. filesystem_copy st source destination = Some (r, st1) \<and> (r = FS_RESULT_IO_ERROR
        \<or> r \<in> {FS_RESULT_NOT_DIRECTORY, FS_RESULT_NO_SPACE, FS_RESULT_INVALID_PATH})"
      using res F es by (auto simp: ensured_def)
    with g1 inv1 gr sd show ?thesis by auto
  next
    case True
    then have ds: "view_of st1 (butlast d) = Some dirv" and ic: "icount st1 s [0..<FS_MAX_NODES] \<le> count_free_nodes st1"
      using es by (simp_all add: ensured_def)
    note ts = transfer_start [OF good_simps(2) [OF g] gr(1) cl1 ds sd(1,2) d0 sd(3)]
    have M: "below (nodes st1) s [0..<FS_MAX_NODES] = {z. view_of st (s @ z) \<noteq> None}"
      using below_all [OF inv1, of _ s] ts(4) by auto
    have pre: "view_of st1 (d @ z) = None \<and> length (render (d @ z)) < ROOT_PATH_MAX" if "z \<in> below (nodes st1) s [0..<FS_MAX_NODES]" for z
      using ts(3) True targets_fit_iff [OF inv1 s s0 d(1) d0] below_all [OF inv1, of z s] that by blast
    have sub: "set [0..<FS_MAX_NODES] \<subseteq> {..<FS_MAX_NODES}" by auto
    obtain r st' where cp: "copy_loop (render s) (render d) [0..<FS_MAX_NODES] st1 = Some (r, st')" "inv st'" "framed st1 st'"
        "r \<in> {FS_RESULT_OK, FS_RESULT_IO_ERROR}"
        "r = FS_RESULT_OK \<longrightarrow> view_of st' = duplicate (view_of st1) s d {z. view_of st (s @ z) \<noteq> None}"
      using copy_loop_spec [OF inv1 s s0 d(1) d0 ts(1) sub distinct_upt pre ic] M by auto
    have fr: "framed st st'" using framed_trans [OF gr(2) cp(3)] .
    show ?thesis
    proof (cases "r = FS_RESULT_OK")
      case F: False
      then have "filesystem_copy st source destination = Some (FS_RESULT_IO_ERROR, st')" using res True cp by auto
      with cp(2) fr sd show ?thesis by auto
    next
      case okT: True
      define W where "W = duplicate (view_of st1) s d {z. view_of st (s @ z) \<noteq> None}"
      have v: "view_of st' = W" using cp(5) okT by (simp add: W_def)
      have "z \<in> {z. view_of st (s @ z) \<noteq> None} \<longleftrightarrow> view_of st1 (s @ z) \<noteq> None" for z using ts(4) by simp
      then have clW: "closed W" unfolding W_def by (intro closed_duplicate [OF cl1 ts(1) ds d0 _ ts(3)])
      have "good st'"
      proof (rule good_framed [OF g1 cp(3,2)])
        show "closed (view_of st')" using clW v by simp
        fix c
        assume c: "view_of st1 c = Some dirv"
        then have "\<not> prefix d c" using ts(3) by (auto simp: prefix_def)
        then show "view_of st' c = Some dirv" using c v by (simp add: W_def duplicate_def)
      qed
      moreover have "filesystem_copy st source destination = Some (FS_RESULT_OK, st')" using res True cp(1) okT by auto
      ultimately show ?thesis using gr(1) ds v sd cl1 unfolding W_def by auto
    qed
  qed
qed

end

end
