(* ===== verification/Root_FS_Views.thy ===== *)
theory Root_FS_Views
  imports Root_FS_Copy
begin

text \<open>
  The two backends as instances of \<open>tree_view\<close>.

  \<^item> \<open>ramv\<close>: with the RAM backend the value of a node is its type and its contents, the bytes its
    \<open>ram_content\<close> pointer owns on the heap. Here the laws rest on the allocator: every write allocates,
    copies and releases, and no other file may change.
  \<^item> \<open>metav\<close>: with the persistent backend the value of a node is its type and size, whatever the drive does.
\<close>

section \<open>Contents on the heap\<close>

definition content :: "heap \<Rightarrow> FsNode \<Rightarrow> u8 list" where
  "content h nd = (if node_type nd = FS_FILE then bytes_at h (ram_content nd) (node_size nd) else [])"

definition block_ok :: "(addr \<times> nat) set \<Rightarrow> FsNode \<Rightarrow> bool" where
  "block_ok L nd \<longleftrightarrow> (ram_content nd \<noteq> 0 \<longrightarrow> (\<exists>t. (ram_content nd, t) \<in> L \<and> node_size nd < t))
     \<and> (node_used nd \<longrightarrow> node_type nd = FS_FILE \<longrightarrow> node_size nd > 0 \<longrightarrow> ram_content nd \<noteq> 0)"

definition owned :: "heap \<Rightarrow> (addr \<times> nat) set \<Rightarrow> FsNode list \<Rightarrow> bool" where
  "owned h L ns \<longleftrightarrow> heap_ok h L \<and> (\<forall>i<FS_MAX_NODES. block_ok L (ns ! i))
     \<and> (\<forall>i<FS_MAX_NODES. \<forall>j<FS_MAX_NODES. i \<noteq> j \<longrightarrow> ram_content (ns ! i) \<noteq> 0 \<longrightarrow> ram_content (ns ! i) \<noteq> ram_content (ns ! j))"

lemma owned_update:
  assumes "owned h L ns" "i < FS_MAX_NODES" "length ns = FS_MAX_NODES" "heap_ok h' L'" "block_ok L' nd"
    "\<And>j. j < FS_MAX_NODES \<Longrightarrow> j \<noteq> i \<Longrightarrow> ram_content nd \<noteq> 0 \<Longrightarrow> ram_content (ns ! j) \<noteq> ram_content nd"
    "\<And>j t. j < FS_MAX_NODES \<Longrightarrow> j \<noteq> i \<Longrightarrow> (ram_content (ns ! j), t) \<in> L \<Longrightarrow> (ram_content (ns ! j), t) \<in> L'"
  shows "owned h' L' (ns[i := nd])"
proof -
  have b: "block_ok L' (ns ! j)" if "j < FS_MAX_NODES" "j \<noteq> i" for j
    using assms(1,7) that unfolding owned_def block_ok_def by meson
  have "block_ok L' (ns[i := nd] ! j)" if "j < FS_MAX_NODES" for j
    using b that assms(2,3,5) by (cases "j = i") auto
  moreover have "ram_content (ns[i := nd] ! a) \<noteq> ram_content (ns[i := nd] ! b)"
    if "a < FS_MAX_NODES" "b < FS_MAX_NODES" "a \<noteq> b" "ram_content (ns[i := nd] ! a) \<noteq> 0" for a b
  proof (cases "a = i \<or> b = i")
    case False
    then show ?thesis using that assms(1) by (simp add: owned_def)
  next
    case True
    show ?thesis
    proof (cases "a = i")
      case True
      then show ?thesis using that assms(2,3) assms(6) [of b] by simp
    next
      case ai: False
      then have "b = i" using True by simp
      then show ?thesis using that ai assms(2,3) assms(6) [of a] by (cases "ram_content nd = 0") simp_all
    qed
  qed
  ultimately show ?thesis using assms(4) by (auto simp: owned_def)
qed

lemma content_kept:
  assumes "kept h h' K" "block_ok L nd" "node_used nd" "\<And>t. (ram_content nd, t) \<in> L \<Longrightarrow> (ram_content nd, t) \<in> K"
  shows "content h' nd = content h nd"
proof (cases "node_type nd = FS_FILE \<and> node_size nd > 0")
  case True
  then obtain t where "(ram_content nd, t) \<in> L" "node_size nd < t" using assms(2,3) by (auto simp: block_ok_def)
  then have "bytes_at h' (ram_content nd) (node_size nd) = bytes_at h (ram_content nd) (node_size nd)"
    by (intro kept_bytes [OF assms(1) assms(4)]) auto
  then show ?thesis by (simp add: content_def)
qed (auto simp: content_def bytes_at_def)

text \<open>Releasing the block of slot \<open>i\<close>.\<close>

lemma release_spec:
  assumes ow: "owned h L ns" and i: "i < FS_MAX_NODES"
  defines "p \<equiv> ram_content (ns ! i)"
  defines "h' \<equiv> (if p = 0 then h else root_free h p)"
  obtains L' where "heap_ok h' L'" "L' \<subseteq> L" "kept h h' L'" "\<And>a t. a \<noteq> p \<Longrightarrow> (a, t) \<in> L \<Longrightarrow> (a, t) \<in> L'"
proof (cases "p = 0")
  case True
  then show ?thesis using that [of L] ow by (simp add: h'_def owned_def)
next
  case False
  then obtain t where t: "(p, t) \<in> L" using ow i by (auto simp: owned_def block_ok_def p_def)
  have ok: "heap_ok h L" using ow by (simp add: owned_def)
  note fr = free_ok [OF ok t]
  show ?thesis using that [of "L - {(p, t)}"] fr False by (auto simp: h'_def)
qed

section \<open>The RAM backend\<close>

definition ram_inv :: "'d fs \<Rightarrow> bool" where
  "ram_inv st \<longleftrightarrow> table_ok (nodes st) \<and> \<not> filesystem_persistent_backend st \<and> (\<exists>L. owned (fs_heap st) L (nodes st))"

text \<open>The blocks of others: \<open>F\<close> are live blocks that belong to no node and hold what they held in the heap \<open>g\<close>.\<close>

definition guards :: "(addr \<times> nat) set \<Rightarrow> heap \<Rightarrow> 'd fs \<Rightarrow> bool" where
  "guards F g st \<longleftrightarrow> (\<exists>L. owned (fs_heap st) L (nodes st) \<and> F \<subseteq> L
     \<and> (\<forall>i<FS_MAX_NODES. \<forall>t. (ram_content (nodes st ! i), t) \<notin> F) \<and> kept g (fs_heap st) F)"

definition ram_objects :: "'d fs \<Rightarrow> path \<Rightarrow> (FsType \<times> u8 list) option" where
  "ram_objects st = view (\<lambda>nd. (node_type nd, content (fs_heap st) nd)) (nodes st)"

abbreviation ram_val :: "FsType \<Rightarrow> u8 list \<Rightarrow> FsType \<times> u8 list" where
  "ram_val t bs \<equiv> (t, bs)"

lemma view_cong_at:
  assumes t: "table_ok ns" and eq: "\<And>j. j < FS_MAX_NODES \<Longrightarrow> named (ns ! j) q \<Longrightarrow> f (ns ! j) = g (ns ! j)"
  shows "view f ns q = view g ns q"
proof (cases "view f ns q = None")
  case True
  then show ?thesis using view_None [of f ns q] view_None [of g ns q] by simp
next
  case False
  then obtain j where j: "j < FS_MAX_NODES" "named (ns ! j) q" using view_Some [OF t, of f q] by blast
  show ?thesis using view_at [OF t j, of f] view_at [OF t j, of g] eq [OF j] by simp
qed

text \<open>How the objects change when one slot changes and the heap keeps the contents of the others.\<close>

lemma ram_update:
  assumes st: "table_ok (nodes st)" "table_ok ((nodes st)[i := nd])" "i < FS_MAX_NODES"
    and ns: "nodes st' = (nodes st)[i := nd]"
    and ke: "\<And>j. j < FS_MAX_NODES \<Longrightarrow> j \<noteq> i \<Longrightarrow> node_used (nodes st ! j) \<Longrightarrow> content (fs_heap st') (nodes st ! j) = content (fs_heap st) (nodes st ! j)"
  shows "ram_objects st' q = (if named nd q then Some (node_type nd, content (fs_heap st') nd)
     else if named (nodes st ! i) q then None else ram_objects st q)"
proof -
  let ?f = "\<lambda>h nd. (node_type nd, content h nd)"
  note len = table_length [OF st(1)]
  have "view (?f (fs_heap st')) ((nodes st)[i := nd]) q = (if named nd q then Some (?f (fs_heap st') nd)
      else if named (nodes st ! i) q then None else view (?f (fs_heap st')) (nodes st) q)"
    by (rule view_update [OF st])
  moreover have "view (?f (fs_heap st')) (nodes st) q = view (?f (fs_heap st)) (nodes st) q" if n: "\<not> named (nodes st ! i) q"
  proof -
    show ?thesis
    proof (rule view_cong_at [OF st(1)])
      fix j assume j: "j < FS_MAX_NODES" "named (nodes st ! j) q"
      with n have "j \<noteq> i" by blast
      with ke [OF j(1) this] j show "?f (fs_heap st') (nodes st ! j) = ?f (fs_heap st) (nodes st ! j)" by (simp add: named_def)
    qed
  qed
  ultimately show ?thesis by (simp add: ram_objects_def ns)
qed

lemma owned_slot:
  assumes L: "owned h L ns" and i: "i < FS_MAX_NODES" "length ns = FS_MAX_NODES"
    and nd: "\<And>L. block_ok L (ns ! i) \<Longrightarrow> block_ok L nd" "ram_content nd \<in> {0, ram_content (ns ! i)}"
  shows "owned h L (ns[i := nd])"
proof (rule owned_update [OF L i])
  show "heap_ok h L" using L by (simp add: owned_def)
  show "block_ok L nd" using nd(1) L i by (simp add: owned_def)
  show "ram_content (ns ! j) \<noteq> ram_content nd" if "j < FS_MAX_NODES" "j \<noteq> i" "ram_content nd \<noteq> 0" for j
    using that nd(2) L i unfolding owned_def by (metis insertE singletonD)
qed

lemma owned_null: "owned h L ns \<Longrightarrow> (0, t) \<notin> L"
  using heap_ok_bounds [of h L 0 t] by (auto simp: owned_def)

lemma ram_slot:
  assumes inv: "ram_inv st" and i: "i < FS_MAX_NODES" and t': "table_ok ((nodes st)[i := nd])"
    and nd: "\<And>L. block_ok L (nodes st ! i) \<Longrightarrow> block_ok L nd" "ram_content nd \<in> {0, ram_content (nodes st ! i)}"
  shows "ram_inv (set_node st i nd)" "guards F g st \<Longrightarrow> guards F g (set_node st i nd)"
    "ram_objects (set_node st i nd) q = (if named nd q then Some (node_type nd, content (fs_heap st) nd)
       else if named (nodes st ! i) q then None else ram_objects st q)"
proof -
  obtain L where L: "owned (fs_heap st) L (nodes st)" using inv by (auto simp: ram_inv_def)
  have t: "table_ok (nodes st)" using inv by (simp add: ram_inv_def)
  note len = table_length [OF t]
  have "owned (fs_heap st) L ((nodes st)[i := nd])" by (rule owned_slot [OF L i len nd])
  then show "ram_inv (set_node st i nd)" using inv t' by (auto simp: ram_inv_def)
  show "guards F g (set_node st i nd)" if gu: "guards F g st"
  proof -
    obtain M where M: "owned (fs_heap st) M (nodes st)" "F \<subseteq> M" "\<forall>i<FS_MAX_NODES. \<forall>t. (ram_content (nodes st ! i), t) \<notin> F"
      "kept g (fs_heap st) F" using gu by (auto simp: guards_def)
    have "owned (fs_heap st) M ((nodes st)[i := nd])" by (rule owned_slot [OF M(1) i len nd])
    moreover have "(ram_content ((nodes st)[i := nd] ! j), u) \<notin> F" if "j < FS_MAX_NODES" for j u
      using nd(2) M(2,3) owned_null [OF M(1), of u] that i len by (cases "j = i") auto
    ultimately show ?thesis using M(2,4) by (auto simp: guards_def)
  qed
  show "ram_objects (set_node st i nd) q = (if named nd q then Some (node_type nd, content (fs_heap st) nd)
       else if named (nodes st ! i) q then None else ram_objects st q)"
    using ram_update [OF t t' i, of "set_node st i nd" q] by simp
qed

lemma owned_reset:
  assumes t: "table_ok (nodes st)" and L: "owned (fs_heap st) L (nodes st)" and i: "i < FS_MAX_NODES"
  obtains L' where "owned (fs_heap (reset_node st i)) L' (nodes (reset_node st i))" "kept (fs_heap st) (fs_heap (reset_node st i)) L'"
    "\<And>a t. a \<noteq> ram_content (nodes st ! i) \<Longrightarrow> (a, t) \<in> L \<Longrightarrow> (a, t) \<in> L'"
    "\<And>j t. j < FS_MAX_NODES \<Longrightarrow> j \<noteq> i \<Longrightarrow> (ram_content (nodes st ! j), t) \<in> L \<Longrightarrow> (ram_content (nodes st ! j), t) \<in> L'"
proof -
  note rs = reset_used [OF t i]
  define p where "p = ram_content (nodes st ! i)"
  have fh: "fs_heap (reset_node st i) = (if p = 0 then fs_heap st else root_free (fs_heap st) p)" using rs(4) by (simp add: p_def)
  obtain L' where L': "heap_ok (fs_heap (reset_node st i)) L'" "kept (fs_heap st) (fs_heap (reset_node st i)) L'"
      "\<And>a t. a \<noteq> p \<Longrightarrow> (a, t) \<in> L \<Longrightarrow> (a, t) \<in> L'"
    using release_spec [OF L i] unfolding fh p_def by metis
  have ne: "ram_content (nodes st ! j) = 0 \<or> ram_content (nodes st ! j) \<noteq> p" if "j < FS_MAX_NODES" "j \<noteq> i" for j
    using L that i unfolding owned_def p_def by metis
  have into: "(ram_content (nodes st ! j), t) \<in> L'" if "j < FS_MAX_NODES" "j \<noteq> i" "(ram_content (nodes st ! j), t) \<in> L" for j t
    using ne [OF that(1,2)] owned_null [OF L] that(3) L'(3) by metis
  have "owned (fs_heap (reset_node st i)) L' ((nodes st)[i := zero_node])"
    by (rule owned_update [OF L i table_length [OF t] L'(1)]) (use into in \<open>auto simp: block_ok_def\<close>)
  then show ?thesis using that [of L'] L'(2,3) into rs(1) by (simp add: p_def)
qed

lemma ram_reset:
  assumes inv: "ram_inv st" and i: "i < FS_MAX_NODES"
  shows "ram_inv (reset_node st i)" "guards F g st \<Longrightarrow> guards F g (reset_node st i)"
    "ram_objects (reset_node st i) q = (if named (nodes st ! i) q then None else ram_objects st q)"
proof -
  have t: "table_ok (nodes st)" using inv by (simp add: ram_inv_def)
  obtain L where L: "owned (fs_heap st) L (nodes st)" using inv by (auto simp: ram_inv_def)
  note rs = reset_used [OF t i]
  from owned_reset [OF t L i] obtain L' where L': "owned (fs_heap (reset_node st i)) L' (nodes (reset_node st i))"
    "kept (fs_heap st) (fs_heap (reset_node st i)) L'"
    "\<And>j t. j < FS_MAX_NODES \<Longrightarrow> j \<noteq> i \<Longrightarrow> (ram_content (nodes st ! j), t) \<in> L \<Longrightarrow> (ram_content (nodes st ! j), t) \<in> L'" by metis
  have t': "table_ok ((nodes st)[i := zero_node])" by (rule table_clear [OF t i])
  show "ram_inv (reset_node st i)" using L'(1) inv t' rs(1,2) by (auto simp: ram_inv_def framed_def)
  show "guards F g (reset_node st i)" if gu: "guards F g st"
  proof -
    obtain M where M: "owned (fs_heap st) M (nodes st)" "F \<subseteq> M" "\<forall>i<FS_MAX_NODES. \<forall>t. (ram_content (nodes st ! i), t) \<notin> F"
      "kept g (fs_heap st) F" using gu by (auto simp: guards_def)
    from owned_reset [OF t M(1) i] obtain M' where M': "owned (fs_heap (reset_node st i)) M' (nodes (reset_node st i))"
      "kept (fs_heap st) (fs_heap (reset_node st i)) M'" "\<And>a t. a \<noteq> ram_content (nodes st ! i) \<Longrightarrow> (a, t) \<in> M \<Longrightarrow> (a, t) \<in> M'" by metis
    have sub: "F \<subseteq> M'" using M(2,3) M'(3) i by (metis subsetD subsetI surj_pair)
    have "(ram_content (nodes (reset_node st i) ! j), u) \<notin> F" if "j < FS_MAX_NODES" for j u
      using M(2,3) owned_null [OF M(1), of u] that i rs(1) table_length [OF t] by (cases "j = i") auto
    then show ?thesis using M'(1) sub kept_trans [OF M(4) kept_mono [OF M'(2) sub]] by (auto simp: guards_def)
  qed
  have ke: "content (fs_heap (reset_node st i)) (nodes st ! j) = content (fs_heap st) (nodes st ! j)"
    if "j < FS_MAX_NODES" "j \<noteq> i" "node_used (nodes st ! j)" for j
  proof (rule content_kept [OF L'(2) _ that(3)])
    show "block_ok L (nodes st ! j)" using L that(1) by (simp add: owned_def)
  qed (use L'(3) that in auto)
  from ram_update [OF t t' i rs(1) ke] show "ram_objects (reset_node st i) q = (if named (nodes st ! i) q then None else ram_objects st q)"
    by simp
qed

lemma release_nodes:
  assumes "i < FS_MAX_NODES" "length (nodes st) = FS_MAX_NODES"
  shows "fs_heap (release_ram_content st i) = (if ram_content (nodes st ! i) = 0 then fs_heap st else root_free (fs_heap st) (ram_content (nodes st ! i)))"
    "(nodes (release_ram_content st i))[i := nd] = (nodes st)[i := nd]"
    "nodes (release_ram_content st i) ! i = (nodes st ! i)\<lparr>ram_content := 0\<rparr>" "framed st (release_ram_content st i)"
  using assms by (auto simp: release_ram_content_def Let_def framed_def)

lemma owned_mono:
  assumes "owned h L ns" "L \<subseteq> M" "heap_ok h' M"
  shows "owned h' M ns"
proof -
  have "block_ok M (ns ! i)" if "i < FS_MAX_NODES" for i
    using assms(1,2) that unfolding owned_def block_ok_def by (meson subsetD)
  then show ?thesis using assms(1,3) by (simp add: owned_def)
qed

text \<open>Replacing the block of slot \<open>i\<close> by a new one, \<open>p\<close>, that holds \<open>n\<close> bytes: the whole of a write after the allocation.\<close>

lemma ram_replace:
  assumes inv: "table_ok (nodes st)" "\<not> filesystem_persistent_backend st" and ow: "owned (fs_heap st) L (nodes st)"
    and i: "i < FS_MAX_NODES" "named (nodes st ! i) f" "node_type (nodes st ! i) = FS_FILE"
    and h1: "heap_ok h1 L1" "L \<subseteq> L1" "kept (fs_heap st) h1 L"
    and p: "p \<noteq> 0 \<Longrightarrow> (p, t) \<in> L1 \<and> (p, t) \<notin> L \<and> n < t" "n > 0 \<Longrightarrow> p \<noteq> 0"
  defines "st1 \<equiv> release_ram_content (st\<lparr>fs_heap := h1\<rparr>) i"
  defines "st' \<equiv> set_node st1 i ((nodes st1 ! i)\<lparr>ram_content := p, node_size := n\<rparr>)"
  shows "ram_inv st'" "ram_objects st' = (ram_objects st)(f \<mapsto> (FS_FILE, bytes_at h1 p n))"
    "F \<subseteq> L \<Longrightarrow> \<forall>i<FS_MAX_NODES. \<forall>t. (ram_content (nodes st ! i), t) \<notin> F \<Longrightarrow> kept g (fs_heap st) F \<Longrightarrow> guards F g st'"
    "nodes st' = (nodes st)[i := (nodes st ! i)\<lparr>ram_content := p, node_size := n\<rparr>]" "framed st st'"
proof -
  note len = table_length [OF inv(1)]
  let ?old = "ram_content (nodes st ! i)" and ?nd = "(nodes st ! i)\<lparr>ram_content := p, node_size := n\<rparr>"
  let ?h2 = "if ?old = 0 then h1 else root_free h1 ?old"
  have st': "nodes st' = (nodes st)[i := ?nd]" "fs_heap st' = ?h2" "framed st st'"
    using release_nodes [of i "st\<lparr>fs_heap := h1\<rparr>"] i(1) len by (simp_all add: st'_def st1_def framed_def)
  then show "nodes st' = (nodes st)[i := ?nd]" "framed st st'" by simp_all
  have ow1: "owned h1 L1 (nodes st)" by (rule owned_mono [OF ow h1(2,1)])
  obtain L' where L': "heap_ok ?h2 L'" "kept h1 ?h2 L'" "\<And>a t. a \<noteq> ?old \<Longrightarrow> (a, t) \<in> L1 \<Longrightarrow> (a, t) \<in> L'"
    using release_spec [OF ow1 i(1)] by metis
  have new: "ram_content (nodes st ! j) \<noteq> p" if j: "j < FS_MAX_NODES" "p \<noteq> 0" for j
  proof
    assume eq: "ram_content (nodes st ! j) = p"
    then obtain u where "(p, u) \<in> L" using ow j by (auto simp: owned_def block_ok_def)
    then show False using heap_ok_unique [OF h1(1), of p u t] p(1) [OF j(2)] h1(2) by blast
  qed
  have pL: "(p, t) \<in> L'" if "p \<noteq> 0" using L'(3) [of p t] p(1) [OF that] new [OF i(1) that] by metis
  have nz: "(0, u) \<notin> L1" for u using heap_ok_bounds [OF h1(1), of 0 u] by auto
  have others: "(ram_content (nodes st ! j), u) \<in> L'" if "j < FS_MAX_NODES" "j \<noteq> i" "(ram_content (nodes st ! j), u) \<in> L1" for j u
    using ow that i(1) nz L'(3) unfolding owned_def by metis
  have t': "table_ok ((nodes st)[i := ?nd])"
  proof (rule table_update [OF inv(1) i(1)])
    show "node_ok ?nd" using table_node [OF inv(1) i(1)] i(2) by (auto simp: node_ok_def named_def)
    show "\<not> named (nodes st ! j) q" if "named ?nd q" "j < FS_MAX_NODES" "j \<noteq> i" for q j
      using table_same [OF inv(1) i(1) that(2), of q] that by (auto simp: named_def)
  qed
  have own: "owned ?h2 L' ((nodes st)[i := ?nd])"
  proof (rule owned_update [OF ow1 i(1) len L'(1)])
    show "block_ok L' ?nd" using pL p by (auto simp: block_ok_def)
  qed (use new others in auto)
  then show "ram_inv st'" using st' t' inv(2) by (auto simp: ram_inv_def framed_def)
  show "guards F g st'"
    if F: "F \<subseteq> L" "\<forall>i<FS_MAX_NODES. \<forall>t. (ram_content (nodes st ! i), t) \<notin> F" "kept g (fs_heap st) F"
  proof -
    have "(p, u) \<notin> F" for u
      using p(1) h1(2) F(1) heap_ok_unique [OF h1(1), of p u t] nz [of u] by (cases "p = 0") auto
    then have "\<forall>j<FS_MAX_NODES. \<forall>u. (ram_content ((nodes st)[i := ?nd] ! j), u) \<notin> F"
      using F(2) i(1) len by (auto simp: nth_list_update)
    moreover have sub: "F \<subseteq> L'" using F(1,2) h1(2) L'(3) i(1) by (metis subsetD subsetI surj_pair)
    moreover have "kept g ?h2 F"
      by (rule kept_trans [OF F(3) kept_trans [OF kept_mono [OF h1(3) F(1)] kept_mono [OF L'(2) sub]]])
    ultimately show ?thesis using own st' by (auto simp: guards_def)
  qed
  have ke: "content (fs_heap st') (nodes st ! j) = content (fs_heap st) (nodes st ! j)"
    if j: "j < FS_MAX_NODES" "j \<noteq> i" "node_used (nodes st ! j)" for j
  proof -
    have "content h1 (nodes st ! j) = content (fs_heap st) (nodes st ! j)"
      by (rule content_kept [OF h1(3) _ j(3)]) (use ow j in \<open>auto simp: owned_def\<close>)
    moreover have "content ?h2 (nodes st ! j) = content h1 (nodes st ! j)"
      by (rule content_kept [where L = L1, OF L'(2) _ j(3)]) (use ow1 j others in \<open>auto simp: owned_def\<close>)
    ultimately show ?thesis using st'(2) by simp
  qed
  have bytes: "bytes_at ?h2 p n = bytes_at h1 p n"
  proof (cases "n = 0")
    case False
    then have "p \<noteq> 0" using p(2) by simp
    then show ?thesis using kept_bytes [OF L'(2) pL, of n] p(1) by simp
  qed (simp add: bytes_at_def)
  have nf: "named ?nd q \<longleftrightarrow> q = f" "named (nodes st ! i) q \<longleftrightarrow> q = f" for q
    using i(2) named_iff [OF i(2), of q] by (auto simp: named_def)
  show "ram_objects st' = (ram_objects st)(f \<mapsto> (FS_FILE, bytes_at h1 p n))"
  proof
    fix q
    show "ram_objects st' q = ((ram_objects st)(f \<mapsto> (FS_FILE, bytes_at h1 p n))) q"
      using ram_update [OF inv(1) t' i(1) st'(1), of q] ke i(3) bytes st'(2) by (simp add: content_def nf)
  qed
qed


text \<open>Storing \<open>bs\<close> and the terminating zero in a fresh block.\<close>

lemma ram_alloc:
  assumes ok: "heap_ok h L" and n: "0 < length bs" "length bs \<le> FS_MAX_FILE_SIZE"
  obtains (null) "root_malloc h (length bs + 1) = Some (0, h)"
  | (block) p h' t h1 where "root_malloc h (length bs + 1) = Some (p, h')" "0 < p"
      "h1 = h'\<lparr>heap_bytes := (store_bytes (heap_bytes h') p bs)(p + length bs := 0)\<rparr>"
      "heap_ok h1 (insert (p, t) L)" "(p, t) \<notin> L" "length bs < t" "kept h h1 L" "bytes_at h1 p (length bs) = bs"
proof (rule malloc_ok [OF ok, of "length bs + 1"])
  fix p h' t
  assume m: "root_malloc h (length bs + 1) = Some (p, h')" "0 < p" "heap_ok h' (insert (p, t) L)" "heap_memory h' = heap_memory h"
    "length bs + 1 \<le> t" "(p, t) \<notin> L" "kept h h' L"
  let ?h1 = "h'\<lparr>heap_bytes := (store_bytes (heap_bytes h') p bs)(p + length bs := 0)\<rparr>"
  have out: "((store_bytes (heap_bytes h') p bs)(p + length bs := 0)) x = heap_bytes h' x" if "x < p \<or> p + t \<le> x" for x
    using that m(5) by (auto simp: store_bytes_def)
  have sb: "heap_ok ?h1 (insert (p, t) L)" "kept h' ?h1 (insert (p, t) L - {(p, t)})"
    by (rule store_block_ok [OF m(3) insertI1 out], assumption)+
  have ke: "kept h ?h1 L"
    by (rule kept_trans [OF m(7)]) (rule kept_mono [OF sb(2)], use m(6) in auto)
  have bt: "bytes_at ?h1 p (length bs) = bs"
    by (rule nth_equalityI) (simp_all add: bytes_at_def store_bytes_def)
  show ?thesis by (rule block [OF m(1,2) refl sb(1) m(6) _ ke bt]) (use m(5) in linarith)
qed (use n null in \<open>auto simp: rootos_consts\<close>)

lemma ram_write_law:
  assumes inv: "ram_inv st" and i: "i < FS_MAX_NODES" "named (nodes st ! i) f" "node_type (nodes st ! i) = FS_FILE"
    and n: "length bs \<le> FS_MAX_FILE_SIZE"
  shows "\<exists>ok st'. backend_write_file st i (Some bs) (length bs) = Some (ok, st') \<and> ram_inv st' \<and> framed st st'
     \<and> (guards F g st \<longrightarrow> guards F g st')
     \<and> (if ok then ram_objects st' = (ram_objects st)(f \<mapsto> (FS_FILE, bs))
          \<and> (\<exists>p. nodes st' = (nodes st)[i := (nodes st ! i)\<lparr>ram_content := p, node_size := length bs\<rparr>])
        else st' = st \<and> bs \<noteq> [])"
proof -
  obtain L where L: "owned (fs_heap st) L (nodes st)"
    and F: "guards F g st \<Longrightarrow> F \<subseteq> L \<and> (\<forall>i<FS_MAX_NODES. \<forall>t. (ram_content (nodes st ! i), t) \<notin> F) \<and> kept g (fs_heap st) F"
  proof (cases "guards F g st")
    case True
    then obtain L where "owned (fs_heap st) L (nodes st)" "F \<subseteq> L" "\<forall>i<FS_MAX_NODES. \<forall>t. (ram_content (nodes st ! i), t) \<notin> F" "kept g (fs_heap st) F"
      by (auto simp: guards_def)
    then show ?thesis using that by blast
  qed (use inv that in \<open>auto simp: ram_inv_def\<close>)
  have tp: "table_ok (nodes st)" "\<not> filesystem_persistent_backend st" and ok: "heap_ok (fs_heap st) L"
    using inv L by (auto simp: ram_inv_def owned_def)
  have used: "node_used (nodes st ! i)" using i(2) by (simp add: named_def)
  show ?thesis
  proof (cases "bs = []")
    case True
    note rp = ram_replace [OF tp L i ok subset_refl kept_refl, of 0 0 0]
    have "guards F g st \<Longrightarrow> guards F g (set_node (release_ram_content (st\<lparr>fs_heap := fs_heap st\<rparr>) i) i
        ((nodes (release_ram_content (st\<lparr>fs_heap := fs_heap st\<rparr>) i) ! i)\<lparr>ram_content := 0, node_size := 0\<rparr>))"
      using rp(3) F by simp
    with rp(1,2,4,5) show ?thesis
      using True i used tp by (auto simp: backend_write_file_def ram_write_file_def Let_def bytes_at_def)
  next
    case False
    then have pos: "0 < length bs" by simp
    show ?thesis
    proof (rule ram_alloc [OF ok pos n])
      assume "root_malloc (fs_heap st) (length bs + 1) = Some (0, fs_heap st)"
      then show ?thesis using False i used tp n inv by (auto simp: backend_write_file_def ram_write_file_def Let_def)
    next
      fix p h' t h1
      assume a: "root_malloc (fs_heap st) (length bs + 1) = Some (p, h')" "0 < p"
        "h1 = h'\<lparr>heap_bytes := (store_bytes (heap_bytes h') p bs)(p + length bs := 0)\<rparr>"
        "heap_ok h1 (insert (p, t) L)" "(p, t) \<notin> L" "length bs < t" "kept (fs_heap st) h1 L" "bytes_at h1 p (length bs) = bs"
      note rp = ram_replace [OF tp L i a(4) subset_insertI a(7), of p t "length bs", unfolded a(8)]
      let ?s = "release_ram_content (st\<lparr>fs_heap := h1\<rparr>) i"
      have "backend_write_file st i (Some bs) (length bs) = Some (True, set_node ?s i ((nodes ?s ! i)\<lparr>ram_content := p, node_size := length bs\<rparr>))"
        using False i used tp n a(1,2) by (simp add: backend_write_file_def ram_write_file_def Let_def a(3))
      moreover have "guards F g st \<Longrightarrow> guards F g (set_node ?s i ((nodes ?s ! i)\<lparr>ram_content := p, node_size := length bs\<rparr>))"
        using rp(3) F a(2,5,6) by simp
      ultimately show ?thesis using rp(1,2,4,5) a(2,5,6) by auto
    qed
  qed
qed

lemma ram_read_law:
  assumes inv: "ram_inv st" and i: "i < FS_MAX_NODES" "named (nodes st ! i) f" "node_type (nodes st ! i) = FS_FILE"
  shows "\<exists>bs. ram_objects st f = Some (FS_FILE, bs) \<and> length bs = node_size (nodes st ! i)
     \<and> backend_read_file st i cap = (if length bs \<le> cap then Some bs else None, st)"
proof -
  obtain L where L: "owned (fs_heap st) L (nodes st)" using inv by (auto simp: ram_inv_def)
  have tp: "table_ok (nodes st)" "\<not> filesystem_persistent_backend st" using inv by (auto simp: ram_inv_def)
  have used: "node_used (nodes st ! i)" using i(2) by (simp add: named_def)
  let ?bs = "content (fs_heap st) (nodes st ! i)"
  have c: "node_size (nodes st ! i) > 0 \<Longrightarrow> ram_content (nodes st ! i) \<noteq> 0" using L i used by (auto simp: owned_def block_ok_def)
  have len: "length ?bs = node_size (nodes st ! i)" using i by (simp add: content_def bytes_at_def)
  have "ram_objects st f = Some (FS_FILE, ?bs)" using view_at [OF tp(1) i(1,2), of "\<lambda>nd. (node_type nd, content (fs_heap st) nd)"] i(3) by (simp add: ram_objects_def)
  moreover have "backend_read_file st i cap = (if length ?bs \<le> cap then Some ?bs else None, st)"
    using tp i used c len by (auto simp: backend_read_file_def ram_read_file_def Let_def content_def bytes_at_def)
  ultimately show ?thesis using len by blast
qed


lemma table_rename:
  assumes "table_ok ns" "i < FS_MAX_NODES" "node_used (ns ! i)" "wf_path q" "length (render q) < ROOT_PATH_MAX" "node_map ns q = None"
  shows "table_ok (ns[i := (ns ! i)\<lparr>node_path := render q\<rparr>])"
proof (rule table_update [OF assms(1,2)])
  show "node_ok ((ns ! i)\<lparr>node_path := render q\<rparr>)" using assms by (auto simp: node_ok_def named_def)
  show "\<not> named (ns ! j) r" if "named ((ns ! i)\<lparr>node_path := render q\<rparr>) r" "j < FS_MAX_NODES" for r j
  proof -
    have "r = q" using that(1) render_inj [of r q] assms(4) by (auto simp: named_def)
    then show ?thesis using assms(6) that(2) table_length [OF assms(1)] by (auto simp: view_None)
  qed
qed

lemma map_slot: "g nd = g (ns ! i) \<Longrightarrow> map g (ns[i := nd]) = map g ns"
  by (rule nth_equalityI) (simp_all, metis nth_list_update_eq nth_list_update_neq)

lemma slot_frame:
  "map node_path (ns[i := (ns ! i)\<lparr>ram_content := a, node_size := k\<rparr>]) = map node_path ns"
  "map node_used (ns[i := (ns ! i)\<lparr>ram_content := a, node_size := k\<rparr>]) = map node_used ns"
  "map node_type (ns[i := (ns ! i)\<lparr>ram_content := a, node_size := k\<rparr>]) = map node_type ns"
  "\<forall>j. j \<noteq> i \<longrightarrow> ns[i := (ns ! i)\<lparr>ram_content := a, node_size := k\<rparr>] ! j = ns ! j"
  by (simp_all add: map_slot)

interpretation ramv: tree_view ram_inv ram_objects "\<lambda>t bs. (t, bs)"
proof unfold_locales
  fix st :: "'a fs" and p
  assume inv: "ram_inv st"
  show t: "table_ok (nodes st)" using inv by (simp add: ram_inv_def)
  show dom: "ram_objects st p = None \<longleftrightarrow> node_map (nodes st) p = None" for p
    by (simp add: ram_objects_def view_node_map [of "\<lambda>nd. (node_type nd, content (fs_heap st) nd)"])
  show "ram_inv st' \<and> ram_objects st' = ram_objects st"
    if "nodes st' = nodes st" "fs_heap st' = fs_heap st" "filesystem_persistent_backend st' = filesystem_persistent_backend st" for st'
    using inv that by (simp add: ram_inv_def ram_objects_def)
  fix i
  assume i: "i < FS_MAX_NODES"
  show "ram_inv (set_node st i zero_node) \<and> ram_objects (set_node st i zero_node) = ram_objects st" if "\<not> node_used (nodes st ! i)"
    using ram_slot(1,3) [OF inv i table_clear(1) [OF t i]] that by (auto simp: block_ok_def named_def)
  show "ram_inv (set_node st i (fresh_node p ty)) \<and> ram_objects (set_node st i (fresh_node p ty)) = (ram_objects st)(p \<mapsto> (ty, []))"
    if "\<not> node_used (nodes st ! i)" "wf_path p" "length (render p) < ROOT_PATH_MAX" "ram_objects st p = None" for ty
  proof -
    note ta = table_add(1) [OF t i that(1,2,3) that(4) [unfolded dom], of ty]
    have "named (nodes st ! i) q = False" for q using that(1) by (simp add: named_def)
    then show ?thesis using ram_slot(1,3) [OF inv i ta] named_fresh [OF that(2), of ty]
      by (auto simp: block_ok_def fresh_node_def content_def bytes_at_def fun_eq_iff)
  qed
  assume n: "named (nodes st ! i) p"
  note ni = named_iff [OF n]
  show "ram_inv (reset_node st i) \<and> ram_objects (reset_node st i) = (ram_objects st)(p := None)"
    using ram_reset(1,3) [OF inv i] ni by (auto simp: fun_eq_iff)
  note at = view_at [OF t i n, of "\<lambda>nd. (node_type nd, content (fs_heap st) nd)"]
  show "if node_type (nodes st ! i) = FS_DIRECTORY then ram_objects st p = Some (FS_DIRECTORY, [])
       else \<exists>bs. ram_objects st p = Some (FS_FILE, bs) \<and> length bs = node_size (nodes st ! i)"
    using at by (cases "node_type (nodes st ! i)") (simp_all add: ram_objects_def content_def bytes_at_def)
  show "ram_inv (set_node st i ((nodes st ! i)\<lparr>node_path := render q\<rparr>))
      \<and> ram_objects (set_node st i ((nodes st ! i)\<lparr>node_path := render q\<rparr>)) = (ram_objects st)(p := None, q := ram_objects st p)"
    if "wf_path q" "length (render q) < ROOT_PATH_MAX" "ram_objects st q = None" for q
  proof -
    let ?nd = "(nodes st ! i)\<lparr>node_path := render q\<rparr>"
    have u: "node_used (nodes st ! i)" using n by (simp add: named_def)
    note tr = table_rename [OF t i u that(1,2) that(3) [unfolded dom]]
    have nd: "named ?nd r \<longleftrightarrow> r = q" for r using u that(1) render_inj [of r q] by (auto simp: named_def)
    have c: "content (fs_heap st) ?nd = content (fs_heap st) (nodes st ! i)" by (simp add: content_def)
    have "ram_objects (set_node st i ?nd) r = ((ram_objects st)(p := None, q := ram_objects st p)) r" for r
      using ram_slot(3) [OF inv i tr, of r] at by (simp add: nd ni c block_ok_def ram_objects_def)
    moreover have "ram_inv (set_node st i ?nd)" using ram_slot(1) [OF inv i tr] by (simp add: block_ok_def)
    ultimately show ?thesis by blast
  qed
  assume f: "node_type (nodes st ! i) = FS_FILE"
  show "ram_objects st p = Some (FS_FILE, bs) \<and> length bs \<le> cap"
    if "backend_read_file st i cap = (Some bs, st')" "length bs = node_size (nodes st ! i)" for cap bs st'
    using ram_read_law [OF inv i n f, of cap] that by (auto split: if_splits)
  show "\<exists>ok st'. backend_write_file st i (Some bs) m = Some (ok, st') \<and> ram_inv st'
        \<and> ram_objects st' = (if ok then (ram_objects st)(p \<mapsto> (FS_FILE, bs)) else ram_objects st)
        \<and> framed st st' \<and> map node_path (nodes st') = map node_path (nodes st) \<and> map node_used (nodes st') = map node_used (nodes st)
        \<and> map node_type (nodes st') = map node_type (nodes st)
        \<and> (\<forall>j. j \<noteq> i \<longrightarrow> nodes st' ! j = nodes st ! j)"
    if m: "length bs = m" "m \<le> FS_MAX_FILE_SIZE" for bs m
  proof -
    obtain ok st' where w: "backend_write_file st i (Some bs) m = Some (ok, st')" "ram_inv st'" "framed st st'"
      and ok: "if ok then ram_objects st' = (ram_objects st)(p \<mapsto> (FS_FILE, bs))
          \<and> (\<exists>a. nodes st' = (nodes st)[i := (nodes st ! i)\<lparr>ram_content := a, node_size := length bs\<rparr>])
        else st' = st \<and> bs \<noteq> []"
      using ram_write_law [OF inv i n f, of bs] m(2) unfolding m(1) by blast
    show ?thesis
    proof (cases ok)
      case True
      then obtain a where ns: "nodes st' = (nodes st)[i := (nodes st ! i)\<lparr>ram_content := a, node_size := length bs\<rparr>]" using ok by auto
      show ?thesis
        by (rule exI [of _ True], rule exI [of _ st']) (simp only: ns slot_frame, use w ok True in simp)
    qed (use w ok in auto)
  qed
qed auto


text \<open>
  The same laws hold for the invariant that also names blocks of others: no operation of the file system writes into
  them or releases them.
\<close>

definition ram_frame :: "(addr \<times> nat) set \<Rightarrow> heap \<Rightarrow> 'd fs \<Rightarrow> bool" where
  "ram_frame F g st \<longleftrightarrow> ram_inv st \<and> guards F g st"

interpretation ramf: tree_view "ram_frame F g" ram_objects "\<lambda>t bs. (t, bs)"
proof unfold_locales
  fix st :: "'a fs" and p
  assume "ram_frame F g st"
  then have inv: "ram_inv st" and gu: "guards F g st" by (simp_all add: ram_frame_def)
  show t: "table_ok (nodes st)" by (rule ramv.inv_table [OF inv])
  show dom: "ram_objects st p = None \<longleftrightarrow> node_map (nodes st) p = None" by (rule ramv.view_dom [OF inv])
  show "ram_frame F g st' \<and> ram_objects st' = ram_objects st"
    if "nodes st' = nodes st" "fs_heap st' = fs_heap st" "filesystem_persistent_backend st' = filesystem_persistent_backend st" for st' :: "'a fs"
    using ramv.inv_cong [OF inv that] gu that by (simp add: ram_frame_def guards_def)
  fix i
  assume i: "i < FS_MAX_NODES"
  show "ram_frame F g (set_node st i zero_node) \<and> ram_objects (set_node st i zero_node) = ram_objects st" if "\<not> node_used (nodes st ! i)"
    using ramv.zero_law [OF inv i that] ram_slot(2) [OF inv i table_clear(1) [OF t i] _ _ gu] by (auto simp: ram_frame_def block_ok_def)
  show "ram_frame F g (set_node st i (fresh_node p ty)) \<and> ram_objects (set_node st i (fresh_node p ty)) = (ram_objects st)(p \<mapsto> (ty, []))"
    if u: "\<not> node_used (nodes st ! i)" "wf_path p" "length (render p) < ROOT_PATH_MAX" "ram_objects st p = None" for ty
    using ramv.fresh_law [OF inv i u, of ty] ram_slot(2) [OF inv i table_add(1) [OF t i u(1-3) u(4) [unfolded dom], of ty] _ _ gu]
    by (auto simp: ram_frame_def block_ok_def fresh_node_def)
  assume n: "named (nodes st ! i) p"
  show "ram_frame F g (reset_node st i) \<and> ram_objects (reset_node st i) = (ram_objects st)(p := None)"
    using ramv.reset_law [OF inv i n] ram_reset(2) [OF inv i gu] by (simp add: ram_frame_def)
  show "if node_type (nodes st ! i) = FS_DIRECTORY then ram_objects st p = Some (FS_DIRECTORY, [])
       else \<exists>bs. ram_objects st p = Some (FS_FILE, bs) \<and> length bs = node_size (nodes st ! i)"
    by (rule ramv.view_node [OF inv i n])
  show "ram_frame F g (set_node st i ((nodes st ! i)\<lparr>node_path := render q\<rparr>))
      \<and> ram_objects (set_node st i ((nodes st ! i)\<lparr>node_path := render q\<rparr>)) = (ram_objects st)(p := None, q := ram_objects st p)"
    if q: "wf_path q" "length (render q) < ROOT_PATH_MAX" "ram_objects st q = None" for q
  proof -
    have u: "node_used (nodes st ! i)" using n by (simp add: named_def)
    note tr = table_rename [OF t i u q(1,2) q(3) [unfolded ramv.view_dom [OF inv]]]
    show ?thesis using ramv.rename_law [OF inv i n q] ram_slot(2) [OF inv i tr _ _ gu] by (auto simp: ram_frame_def block_ok_def)
  qed
  assume f: "node_type (nodes st ! i) = FS_FILE"
  show "ram_objects st p = Some (FS_FILE, bs) \<and> length bs \<le> cap"
    if "backend_read_file st i cap = (Some bs, st')" "length bs = node_size (nodes st ! i)" for cap bs st'
    by (rule ramv.read_law [OF inv i n f that])
  show "\<exists>ok st'. backend_write_file st i (Some bs) m = Some (ok, st') \<and> ram_frame F g st'
        \<and> ram_objects st' = (if ok then (ram_objects st)(p \<mapsto> (FS_FILE, bs)) else ram_objects st)
        \<and> framed st st' \<and> map node_path (nodes st') = map node_path (nodes st) \<and> map node_used (nodes st') = map node_used (nodes st)
        \<and> map node_type (nodes st') = map node_type (nodes st)
        \<and> (\<forall>j. j \<noteq> i \<longrightarrow> nodes st' ! j = nodes st ! j)"
    if m: "length bs = m" "m \<le> FS_MAX_FILE_SIZE" for bs m
    using ramv.write_law [OF inv i n f m] ram_write_law [OF inv i n f, of bs F g] m gu by (auto simp: ram_frame_def)
qed auto

section \<open>The persistent backend\<close>

definition meta_inv :: "'d fs \<Rightarrow> bool" where
  "meta_inv st \<longleftrightarrow> table_ok (nodes st) \<and> filesystem_persistent_backend st"

definition meta_value :: "FsNode \<Rightarrow> FsType \<times> nat" where
  "meta_value nd = (node_type nd, if node_type nd = FS_FILE then node_size nd else 0)"

definition meta_objects :: "'d fs \<Rightarrow> path \<Rightarrow> (FsType \<times> nat) option" where
  "meta_objects st = view meta_value (nodes st)"

lemma read_file_loop_length:
  "read_file_loop k st lba remaining out = (Some bs, st') \<Longrightarrow> length bs \<le> length out + remaining"
  by (induction k arbitrary: st lba remaining out) (fastforce split: if_splits prod.splits option.splits simp: Let_def)+

lemma rootfs_disk_read_file_length: "rootfs_disk_read_file st i cap = (Some bs, st') \<Longrightarrow> length bs \<le> cap"
  using read_file_loop_length [of _ _ _ _ "[]"]
  by (fastforce simp: rootfs_disk_read_file_def split: if_splits prod.splits option.splits)

lemma meta_slot:
  assumes inv: "meta_inv st" and i: "i < FS_MAX_NODES" and t': "table_ok ((nodes st)[i := nd])"
    and st': "nodes st' = (nodes st)[i := nd]" "filesystem_persistent_backend st'"
  shows "meta_inv st'" "meta_objects st' q = (if named nd q then Some (meta_value nd) else if named (nodes st ! i) q then None else meta_objects st q)"
  using inv t' st' view_update [OF _ t' i, of meta_value q] by (simp_all add: meta_inv_def meta_objects_def)

interpretation metav: tree_view meta_inv meta_objects "\<lambda>t bs. (t, length bs)"
proof unfold_locales
  fix st :: "'a fs" and p
  assume inv: "meta_inv st"
  show t: "table_ok (nodes st)" using inv by (simp add: meta_inv_def)
  have b: "filesystem_persistent_backend st" using inv by (simp add: meta_inv_def)
  show dom: "meta_objects st p = None \<longleftrightarrow> node_map (nodes st) p = None" for p
    by (simp add: meta_objects_def view_node_map [of meta_value])
  show "meta_inv st' \<and> meta_objects st' = meta_objects st"
    if "nodes st' = nodes st" "fs_heap st' = fs_heap st" "filesystem_persistent_backend st' = filesystem_persistent_backend st" for st'
    using inv that by (simp add: meta_inv_def meta_objects_def)
  fix i
  assume i: "i < FS_MAX_NODES"
  note slot = meta_slot [OF inv i]
  show "meta_inv (set_node st i zero_node) \<and> meta_objects (set_node st i zero_node) = meta_objects st" if "\<not> node_used (nodes st ! i)"
    using slot [OF table_clear(1) [OF t i], of "set_node st i zero_node"] that b by (auto simp: named_def)
  show "meta_inv (set_node st i (fresh_node p ty)) \<and> meta_objects (set_node st i (fresh_node p ty)) = (meta_objects st)(p \<mapsto> (ty, length ([] :: u8 list)))"
    if "\<not> node_used (nodes st ! i)" "wf_path p" "length (render p) < ROOT_PATH_MAX" "meta_objects st p = None" for ty
  proof -
    note ta = table_add(1) [OF t i that(1,2,3) that(4) [unfolded dom], of ty]
    have "named (nodes st ! i) q = False" for q using that(1) by (simp add: named_def)
    then show ?thesis using slot [OF ta, of "set_node st i (fresh_node p ty)"] b named_fresh [OF that(2), of ty]
      by (auto simp: fresh_node_def meta_value_def fun_eq_iff)
  qed
  assume n: "named (nodes st ! i) p"
  note ni = named_iff [OF n]
  show "meta_inv (reset_node st i) \<and> meta_objects (reset_node st i) = (meta_objects st)(p := None)"
    using slot [OF table_clear(1) [OF t i], of "reset_node st i"] reset_used [OF t i] b ni by (auto simp: fun_eq_iff framed_def)
  note at = view_at [OF t i n, of meta_value]
  show "if node_type (nodes st ! i) = FS_DIRECTORY then meta_objects st p = Some (FS_DIRECTORY, length ([] :: u8 list))
       else \<exists>bs :: u8 list. meta_objects st p = Some (FS_FILE, length bs) \<and> length bs = node_size (nodes st ! i)"
    using at by (cases "node_type (nodes st ! i)")
      (auto simp: meta_objects_def meta_value_def intro!: exI [of _ "replicate (node_size (nodes st ! i)) (0 :: u8)"])
  show "meta_inv (set_node st i ((nodes st ! i)\<lparr>node_path := render q\<rparr>))
      \<and> meta_objects (set_node st i ((nodes st ! i)\<lparr>node_path := render q\<rparr>)) = (meta_objects st)(p := None, q := meta_objects st p)"
    if "wf_path q" "length (render q) < ROOT_PATH_MAX" "meta_objects st q = None" for q
  proof -
    let ?nd = "(nodes st ! i)\<lparr>node_path := render q\<rparr>"
    have u: "node_used (nodes st ! i)" using n by (simp add: named_def)
    note tr = table_rename [OF t i u that(1,2) that(3) [unfolded dom]]
    have nd: "named ?nd r \<longleftrightarrow> r = q" for r using u that(1) render_inj [of r q] by (auto simp: named_def)
    have "meta_objects (set_node st i ?nd) r = ((meta_objects st)(p := None, q := meta_objects st p)) r" for r
      using slot(2) [OF tr, of "set_node st i ?nd" r] at b by (simp add: nd ni meta_value_def meta_objects_def)
    moreover have "meta_inv (set_node st i ?nd)" using slot(1) [OF tr, of "set_node st i ?nd"] b by simp
    ultimately show ?thesis by blast
  qed
  assume f: "node_type (nodes st ! i) = FS_FILE"
  show "meta_objects st p = Some (FS_FILE, length bs) \<and> length bs \<le> cap"
    if "backend_read_file st i cap = (Some bs, st')" "length bs = node_size (nodes st ! i)" for cap bs st'
    using that at f b rootfs_disk_read_file_length [of "disk st" i cap bs]
    by (auto simp: backend_read_file_def Let_def meta_objects_def meta_value_def split: prod.splits option.splits)
  show "\<exists>ok st'. backend_write_file st i (Some bs) m = Some (ok, st') \<and> meta_inv st'
        \<and> meta_objects st' = (if ok then (meta_objects st)(p \<mapsto> (FS_FILE, length bs)) else meta_objects st)
        \<and> framed st st' \<and> map node_path (nodes st') = map node_path (nodes st) \<and> map node_used (nodes st') = map node_used (nodes st)
        \<and> map node_type (nodes st') = map node_type (nodes st)
        \<and> (\<forall>j. j \<noteq> i \<longrightarrow> nodes st' ! j = nodes st ! j)"
    if m: "length bs = m" "m \<le> FS_MAX_FILE_SIZE" for bs m
  proof -
    obtain ok d where w: "rootfs_disk_write_file (disk st) i (Some bs) m = (ok, d)" by (cases "rootfs_disk_write_file (disk st) i (Some bs) m")
    show ?thesis
    proof (cases ok)
      case True
      let ?nd = "(nodes st ! i)\<lparr>node_size := m\<rparr>"
      let ?st = "set_node (st\<lparr>disk := d\<rparr>) i ?nd"
      have e: "backend_write_file st i (Some bs) m = Some (True, ?st)" using w True b by (simp add: backend_write_file_def)
      have t': "table_ok ((nodes st)[i := ?nd])"
      proof (rule table_update [OF t i])
        show "node_ok ?nd" using table_node [OF t i] n by (auto simp: node_ok_def named_def)
        show "\<not> named (nodes st ! j) q" if "named ?nd q" "j < FS_MAX_NODES" "j \<noteq> i" for q j
          using table_same [OF t i that(2), of q] that by (auto simp: named_def)
      qed
      have nd: "named ?nd r \<longleftrightarrow> r = p" for r using ni [of r] by (auto simp: named_def)
      have "meta_objects ?st r = ((meta_objects st)(p \<mapsto> (FS_FILE, length bs))) r" for r
        using slot(2) [OF t', of ?st r] b f m by (simp add: nd ni meta_value_def)
      then have o: "meta_objects ?st = (meta_objects st)(p \<mapsto> (FS_FILE, length bs))" by (rule ext)
      have "meta_inv ?st" using slot(1) [OF t', of ?st] b by simp
      with o e show ?thesis by (intro exI [of _ True] exI [of _ ?st]) (simp add: map_slot framed_def)
    next
      case False
      then show ?thesis using w b inv by (auto simp: backend_write_file_def meta_inv_def meta_objects_def framed_def)
    qed
  qed
qed auto

end
