(* ===== verification/Root_FS_Data.thy ===== *)
theory Root_FS_Data
  imports Root_FS_Views
begin

text \<open>
  Navigation, queries and file contents over any view of the file system, and the file system as a
  machine whose operations keep the tree well formed.
\<close>

section \<open>Operations on one resolved path\<close>

context tree_view begin

lemma find_cases:
  assumes "inv st" "wf_path p"
  obtains (none) "find_node st (render p) = None" "view_of st p = None"
  | (dir) i where "find_node st (render p) = Some i" "i < FS_MAX_NODES" "named (nodes st ! i) p"
      "node_type (nodes st ! i) = FS_DIRECTORY" "view_of st p = Some dirv"
  | (leaf) i bs where "find_node st (render p) = Some i" "i < FS_MAX_NODES" "named (nodes st ! i) p"
      "node_type (nodes st ! i) = FS_FILE" "view_of st p = Some (val FS_FILE bs)" "length bs = node_size (nodes st ! i)"
      "view_of st p \<noteq> Some dirv"
proof (cases "find_node st (render p)")
  case None
  then show ?thesis using none find_None [OF assms] by simp
next
  case (Some i)
  note f = find_SomeD [OF assms Some]
  show ?thesis
  proof (cases "node_type (nodes st ! i)")
    case FS_DIRECTORY
    then show ?thesis using dir [OF Some f(1,2)] dir_iff [OF assms(1) f(1,2)] by simp
  next
    case FS_FILE
    obtain bs where bs: "view_of st p = Some (val FS_FILE bs)" "length bs = node_size (nodes st ! i)"
      using view_node [OF assms(1) f(1,2)] FS_FILE by auto
    moreover have "view_of st p \<noteq> Some dirv" using dir_iff [OF assms(1) f(1,2)] FS_FILE by simp
    ultimately show ?thesis using leaf [OF Some f(1,2) FS_FILE] by blast
  qed
qed

lemma change_directory_spec:
  assumes g: "good st" and rs: "root_path_resolve (current_directory st) path ROOT_PATH_MAX = Some (render p)"
    and p: "wf_path p" "length (render p) < ROOT_PATH_MAX"
  shows "filesystem_change_directory st path =
      (if view_of st p = Some dirv then (True, st\<lparr>current_directory := render p\<rparr>) else (False, st))"
    "view_of st p = Some dirv \<Longrightarrow> good (st\<lparr>current_directory := render p\<rparr>)"
    "view_of (st\<lparr>current_directory := render p\<rparr>) = view_of st"
proof -
  note inv = good_simps(1) [OF g]
  have cg: "inv (st\<lparr>current_directory := render p\<rparr>) \<and> view_of (st\<lparr>current_directory := render p\<rparr>) = view_of st"
    by (rule inv_cong [OF inv]) simp_all
  then show "view_of (st\<lparr>current_directory := render p\<rparr>) = view_of st" by simp
  show "filesystem_change_directory st path =
      (if view_of st p = Some dirv then (True, st\<lparr>current_directory := render p\<rparr>) else (False, st))"
    using inv p(1)
  proof (cases rule: find_cases)
    case (dir i)
    then show ?thesis using rs p by (simp add: filesystem_change_directory_def root_strlcpy_spec cstr_render rootos_consts)
  qed (use rs in \<open>simp_all add: filesystem_change_directory_def\<close>)
  show "good (st\<lparr>current_directory := render p\<rparr>)" if "view_of st p = Some dirv"
    using cg g p that unfolding good_def by auto
qed

lemma exists_spec:
  assumes g: "good st" and rs: "root_path_resolve (current_directory st) path ROOT_PATH_MAX = Some (render p)" and p: "wf_path p"
  shows "filesystem_exists st path \<longleftrightarrow> view_of st p \<noteq> None" "filesystem_is_directory st path \<longleftrightarrow> view_of st p = Some dirv"
    "path \<noteq> None \<Longrightarrow> view_of st p = Some (val FS_FILE bs) \<Longrightarrow> \<exists>bs'. val FS_FILE bs' = val FS_FILE bs \<and> filesystem_file_size st path = Some (length bs')"
    "view_of st p \<in> {None, Some dirv} \<Longrightarrow> filesystem_file_size st path = None"
proof -
  note fc = find_cases [OF good_simps(1) [OF g] p]
  show "filesystem_exists st path \<longleftrightarrow> view_of st p \<noteq> None"
    by (rule fc) (use rs in \<open>simp_all add: filesystem_exists_def\<close>)
  show "filesystem_is_directory st path \<longleftrightarrow> view_of st p = Some dirv"
    by (rule fc) (use rs in \<open>simp_all add: filesystem_is_directory_def\<close>)
  show "\<exists>bs'. val FS_FILE bs' = val FS_FILE bs \<and> filesystem_file_size st path = Some (length bs')"
    if "path \<noteq> None" "view_of st p = Some (val FS_FILE bs)"
  proof (rule fc)
    fix i assume "view_of st p = Some dirv"
    then show ?thesis using that(2) val_type by (simp add: dirv_def)
  qed (use that rs in \<open>auto simp: filesystem_file_size_def\<close>)
  show "filesystem_file_size st path = None" if "view_of st p \<in> {None, Some dirv}"
    by (rule fc) (use rs that in \<open>auto simp: filesystem_file_size_def\<close>)
qed

text \<open>Writing at most the maximal size, or a refused longer one, through the backend of an open file.\<close>

lemma good_file:
  assumes g: "good st" and p: "view_of st p = Some (val FS_FILE bs)" and st': "inv st'" "framed st st'" "view_of st' = (view_of st)(p \<mapsto> val FS_FILE bs')"
  shows "good st'"
proof (rule good_framed [OF g st'(2,1)])
  have nd: "val FS_FILE bs \<noteq> dirv" for bs using val_type by (simp add: dirv_def)
  have cl: "closed (view_of st)" by (rule good_simps(2) [OF g])
  have "p \<noteq> []" using cl p nd [of bs] by (auto simp: closed_def)
  moreover have "view_of st (p @ [x]) = None" for x using file_leaf [OF cl, of p "[x]"] p nd [of bs] by (cases "view_of st (p @ [x])") simp_all
  ultimately show "closed (view_of st')" using cl p unfolding closed_def st'(3) by auto
  show "view_of st' c = Some dirv" if "view_of st c = Some dirv" for c using that p nd [of bs] unfolding st'(3) by auto
qed

lemma write_spec:
  assumes g: "good st" and rs: "root_path_resolve (current_directory st) (Some path) ROOT_PATH_MAX = Some (render p)" and p: "wf_path p"
    and n: "length bs \<le> FS_MAX_FILE_SIZE"
  shows "\<exists>r st'. filesystem_write_file st (Some path) (Some bs) (length bs) = Some (r, st') \<and> good st' \<and> framed st st' \<and>
     (if view_of st p = None then r = FS_RESULT_NOT_FOUND \<and> st' = st
      else if view_of st p = Some dirv then r = FS_RESULT_NOT_FILE \<and> st' = st
      else (r = FS_RESULT_OK \<and> view_of st' = (view_of st)(p \<mapsto> val FS_FILE bs))
         \<or> (r = (if filesystem_persistent_backend st then FS_RESULT_IO_ERROR else FS_RESULT_NO_SPACE) \<and> view_of st' = view_of st))"
  using good_simps(1) [OF g] p
proof (cases rule: find_cases)
  case (leaf i old)
  obtain ok st' where w: "backend_write_file st i (Some bs) (length bs) = Some (ok, st')" "inv st'" "framed st st'"
    "view_of st' = (if ok then (view_of st)(p \<mapsto> val FS_FILE bs) else view_of st)"
    using write_law [OF good_simps(1) [OF g] leaf(2-4) refl n] by auto
  have "good st'"
  proof (cases ok)
    case True
    then show ?thesis using good_file [OF g leaf(5) w(2,3)] w(4) by simp
  next
    case False
    then show ?thesis using good_framed [OF g w(3,2)] w(4) good_simps(2) [OF g] by simp
  qed
  moreover have "filesystem_persistent_backend st' = filesystem_persistent_backend st" using w(3) by (simp add: framed_def)
  ultimately show ?thesis using rs w leaf(1,4,5,7) n by (cases ok) (simp_all add: filesystem_write_file_def)
qed (use g rs n in \<open>simp_all add: filesystem_write_file_def\<close>)

lemma backend_write_too_large:
  assumes "FS_MAX_FILE_SIZE < n"
  shows "\<exists>st'. backend_write_file st i (Some bs) n = Some (False, st') \<and> nodes st' = nodes st \<and> fs_heap st' = fs_heap st \<and> framed st st'"
  using assms by (auto simp: backend_write_file_def ram_write_file_def rootfs_disk_write_file_def framed_def rootos_consts)

lemma backend_read_frame:
  assumes "backend_read_file st i cap = (r, st')"
  shows "nodes st' = nodes st \<and> fs_heap st' = fs_heap st \<and> framed st st' \<and> (\<not> filesystem_persistent_backend st \<longrightarrow> st' = st)"
  using assms by (auto simp: backend_read_file_def Let_def framed_def split: if_splits prod.splits option.splits)

lemma backend_read_length:
  "backend_read_file st i cap = (Some bs, st') \<Longrightarrow> length bs \<le> cap"
  using rootfs_disk_read_file_length [of "disk st" i cap bs]
  by (auto simp: backend_read_file_def ram_read_file_def bytes_at_def Let_def split: if_splits prod.splits option.splits)

lemma good_cong:
  assumes "good st" "nodes st' = nodes st" "fs_heap st' = fs_heap st" "framed st st'"
  shows "good st'" "view_of st' = view_of st"
proof -
  have "inv st' \<and> view_of st' = view_of st"
    by (rule inv_cong [OF good_simps(1) [OF assms(1)] assms(2,3)]) (use assms(4) in \<open>simp add: framed_def\<close>)
  then show "good st'" "view_of st' = view_of st" using assms(1,4) by (auto simp: good_def framed_def)
qed

lemma read_spec:
  assumes g: "good st" and rs: "root_path_resolve (current_directory st) (Some path) ROOT_PATH_MAX = Some (render p)" and p: "wf_path p"
    and r: "filesystem_read_file st (Some path) n = ((r, out), st')"
  shows "good st'" "view_of st' = view_of st" "framed st st'"
    "r \<in> {FS_RESULT_OK, FS_RESULT_INVALID_PATH, FS_RESULT_NOT_FOUND, FS_RESULT_NOT_FILE, FS_RESULT_NO_SPACE, FS_RESULT_IO_ERROR}"
proof -
  have fr: "nodes st' = nodes st \<and> fs_heap st' = fs_heap st \<and> framed st st'"
  proof (cases "find_node st (render p)")
    case None
    then show ?thesis using r rs by (simp add: filesystem_read_file_def split: if_splits)
  next
    case (Some i)
    obtain x st1 where rd: "backend_read_file st i (n - 1) = (x, st1)" by (cases "backend_read_file st i (n - 1)")
    have "st' = st \<or> st' = st1"
      by (cases x) (use r in \<open>simp_all add: filesystem_read_file_def rs Some rd [simplified] split: if_splits\<close>)
    then show ?thesis using backend_read_frame [OF rd] by auto
  qed
  then show "framed st st'" by simp
  show "good st'" "view_of st' = view_of st" using good_cong [OF g, of st'] fr by blast+
  show "r \<in> {FS_RESULT_OK, FS_RESULT_INVALID_PATH, FS_RESULT_NOT_FOUND, FS_RESULT_NOT_FILE, FS_RESULT_NO_SPACE, FS_RESULT_IO_ERROR}"
    using r by (auto simp: filesystem_read_file_def split: if_splits option.splits prod.splits)
qed

text \<open>Appending: whatever the drive delivers for the old contents, a success stores it followed by the new bytes.\<close>

lemma append_spec:
  assumes g: "good st" and rs: "root_path_resolve (current_directory st) (Some path) ROOT_PATH_MAX = Some (render p)" and p: "wf_path p"
    and r: "filesystem_append_file st (Some path) (Some bs) (length bs) = Some (r, st')"
  shows "good st' \<and> framed st st' \<and>
     (if view_of st p = None then r = FS_RESULT_NOT_FOUND \<and> st' = st
      else if view_of st p = Some dirv then r = FS_RESULT_NOT_FILE \<and> st' = st
      else (r = FS_RESULT_OK \<and> (\<exists>old. view_of st' = (view_of st)(p \<mapsto> val FS_FILE (old @ bs))))
         \<or> (r \<in> {FS_RESULT_FILE_TOO_LARGE, FS_RESULT_NO_SPACE, FS_RESULT_IO_ERROR} \<and> view_of st' = view_of st))"
  using good_simps(1) [OF g] p
proof (cases rule: find_cases)
  case (leaf i cur)
  show ?thesis
  proof (cases "u32_add (node_size (nodes st ! i)) (length bs) > FS_MAX_FILE_SIZE")
    case True
    then show ?thesis using r rs g leaf(1,4,5,7) by (simp add: filesystem_append_file_def)
  next
    case False
    obtain x st1 where rd: "backend_read_file st i FS_MAX_FILE_SIZE = (x, st1)" by (cases "backend_read_file st i FS_MAX_FILE_SIZE")
    have g1: "good st1" "view_of st1 = view_of st" "framed st st1" "nodes st1 = nodes st"
      using backend_read_frame [OF rd] good_cong [OF g, of st1] by blast+
    show ?thesis
    proof (cases x)
      case None
      then show ?thesis using r rs g1 leaf(1,4,5,7) False rd by (simp add: filesystem_append_file_def)
    next
      case (Some old)
      have fit: "bs = [] \<or> length old + length bs \<le> FS_MAX_FILE_SIZE + 1"
        using r rs leaf(1,4) False rd Some by (auto simp: filesystem_append_file_def split: if_splits)
      show ?thesis
      proof (cases "length old + length bs \<le> FS_MAX_FILE_SIZE")
        case le: True
        then have sz: "u32_add (length old) (length bs) = length (old @ bs)" by (simp add: u32_add_def rootos_consts)
        obtain ok st2 where w: "backend_write_file st1 i (Some (old @ bs)) (length (old @ bs)) = Some (ok, st2)" "inv st2" "framed st1 st2"
          "view_of st2 = (if ok then (view_of st1)(p \<mapsto> val FS_FILE (old @ bs)) else view_of st1)"
          using write_law [OF good_simps(1) [OF g1(1)], of i p "old @ bs"] leaf(2-4) g1(4) le by auto
        have res: "st' = st2" "r = (if ok then FS_RESULT_OK else if filesystem_persistent_backend st2 then FS_RESULT_IO_ERROR else FS_RESULT_NO_SPACE)"
          using r rs leaf(1,4) False rd Some w(1) sz le fit by (auto simp: filesystem_append_file_def Let_def split: if_splits)
        have "good st2"
        proof (cases ok)
          case True
          then show ?thesis using good_file [OF g1(1) _ w(2,3)] leaf(5) w(4) g1(2) by simp
        next
          case False
          then show ?thesis using good_framed [OF g1(1) w(3,2)] w(4) good_simps(2) [OF g1(1)] by simp
        qed
        then show ?thesis using res w(3,4) g1 framed_trans [OF g1(3) w(3)] leaf(5,7) by (cases ok) auto
      next
        case gt: False
        then have ne: "bs \<noteq> []" using backend_read_length [OF rd [unfolded Some]] by auto
        then have sz: "FS_MAX_FILE_SIZE < u32_add (length old) (length bs)"
          using fit gt by (auto simp: u32_add_def rootos_consts)
        obtain st2 where w: "backend_write_file st1 i (Some (old @ bs)) (u32_add (length old) (length bs)) = Some (False, st2)"
            "nodes st2 = nodes st1" "fs_heap st2 = fs_heap st1" "framed st1 st2"
          using backend_write_too_large [OF sz] by blast
        have res: "st' = st2" "r \<in> {FS_RESULT_NO_SPACE, FS_RESULT_IO_ERROR}"
          using r rs leaf(1,4) False rd Some w(1) fit ne by (auto simp: filesystem_append_file_def Let_def split: if_splits)
        then show ?thesis using good_cong [OF g1(1) w(2,3,4)] g1 framed_trans [OF g1(3) w(4)] leaf(5,7) by auto
      qed
    qed
  qed
qed (use g rs r in \<open>simp_all add: filesystem_append_file_def\<close>)

end

end
