(* ===== verification/Root_FS_Machine.thy ===== *)
theory Root_FS_Machine
  imports Root_FS_Data
begin

text \<open>
  The file system as a machine: every operation of \<open>filesystem.h\<close> that takes a path, as one step. Each step
  that does not report an I/O error keeps the tree well formed (\<open>good\<close>: unique normalised paths, every node
  in a directory, the current directory an existing directory), for both backends.
\<close>

datatype fs_op =
    Fs_create_directory "string option"
  | Fs_create_file "string option"
  | Fs_remove "string option" bool
  | Fs_copy "string option" "string option"
  | Fs_move "string option" "string option"
  | Fs_read_file "string option" nat
  | Fs_write_file "string option" "u8 list"
  | Fs_append_file "string option" "u8 list"
  | Fs_change_directory "string option"
  | Fs_list "string option"
  | Fs_find_directories "string option"
  | Fs_print_current_directory

abbreviation of_bool_result :: "bool \<times> 'd fs \<Rightarrow> FsResult \<times> 'd fs" where
  "of_bool_result r \<equiv> (if fst r then FS_RESULT_OK else FS_RESULT_NOT_FOUND, snd r)"

fun fs_exec :: "fs_op \<Rightarrow> 'd fs \<Rightarrow> (FsResult \<times> 'd fs) option" where
  "fs_exec (Fs_create_directory p) st = Some (filesystem_create_directory st p)"
| "fs_exec (Fs_create_file p) st = Some (filesystem_create_file st p)"
| "fs_exec (Fs_remove p recursive) st = Some (filesystem_remove st p recursive)"
| "fs_exec (Fs_copy s d) st = filesystem_copy st s d"
| "fs_exec (Fs_move s d) st = Some (filesystem_move st s d)"
| "fs_exec (Fs_read_file p n) st = (let ((r, out), st) = filesystem_read_file st p n in Some (r, st))"
| "fs_exec (Fs_write_file p bs) st = filesystem_write_file st p (Some bs) (length bs)"
| "fs_exec (Fs_append_file p bs) st = filesystem_append_file st p (Some bs) (length bs)"
| "fs_exec (Fs_change_directory p) st = Some (of_bool_result (filesystem_change_directory st p))"
| "fs_exec (Fs_list p) st = Some (of_bool_result (filesystem_list st p))"
| "fs_exec (Fs_find_directories p) st = Some (FS_RESULT_OK, snd (filesystem_find_directories st p))"
| "fs_exec Fs_print_current_directory st = Some (FS_RESULT_OK, filesystem_print_current_directory st)"

fun is_append :: "fs_op \<Rightarrow> bool" where
  "is_append (Fs_append_file p bs) = True"
| "is_append _ = False"

context tree_view begin

lemma good_printed: "good st \<Longrightarrow> good (st\<lparr>printed := t\<rparr>)"
  using inv_cong [of st "st\<lparr>printed := t\<rparr>"] by (simp add: good_def)

lemma good_cwd:
  assumes "good st"
  obtains c where "wf_path c" "current_directory st = render c" "view_of st c = Some dirv"
  using assms unfolding good_def by blast

lemma create_directory_good:
  assumes g: "good st" and r: "filesystem_create_directory st path = (r, st')"
  shows "good st'"
proof (cases path)
  case None
  then show ?thesis using g r by (simp add: filesystem_create_directory_def)
next
  case (Some s)
  show ?thesis
  proof (cases "chead s = NUL \<or> root_path_resolve (current_directory st) path ROOT_PATH_MAX = None")
    case True
    then show ?thesis using g r Some by (auto simp: filesystem_create_directory_def split: if_splits)
  next
    case False
    then obtain out where o: "root_path_resolve (current_directory st) (Some s) ROOT_PATH_MAX = Some out" using Some by auto
    obtain p where p: "wf_path p" "out = render p" "length (render p) < ROOT_PATH_MAX" by (rule good_resolve [OF g o])
    show ?thesis using create_directory_spec [OF g r [unfolded Some] _ o [unfolded p(2)] p(1,3)] False by simp
  qed
qed

lemma create_file_good:
  assumes g: "good st" and r: "filesystem_create_file st path = (r, st')"
  shows "good st'"
proof (cases path)
  case None
  then show ?thesis using g r by (simp add: filesystem_create_file_def)
next
  case (Some s)
  show ?thesis
  proof (cases "chead s = NUL \<or> root_path_resolve (current_directory st) path ROOT_PATH_MAX = None")
    case True
    then show ?thesis using g r Some by (auto simp: filesystem_create_file_def split: if_splits)
  next
    case False
    then obtain out where o: "root_path_resolve (current_directory st) (Some s) ROOT_PATH_MAX = Some out" using Some by auto
    obtain p where p: "wf_path p" "out = render p" "length (render p) < ROOT_PATH_MAX" by (rule good_resolve [OF g o])
    show ?thesis using create_file_spec [OF g r [unfolded Some] _ o [unfolded p(2)] p(1,3)] False by simp
  qed
qed

lemma remove_good:
  assumes g: "good st" and r: "filesystem_remove st path recursive = (r, st')" and io: "r \<noteq> FS_RESULT_IO_ERROR"
  shows "good st'"
proof (cases "root_path_resolve (current_directory st) path ROOT_PATH_MAX")
  case None
  then show ?thesis using g r by (simp add: filesystem_remove_def)
next
  case (Some out)
  obtain p where p: "wf_path p" "out = render p" by (rule good_resolve [OF g Some])
  obtain c where c: "wf_path c" "current_directory st = render c" by (rule good_cwd [OF g])
  show ?thesis using remove_spec [OF g r Some [unfolded p(2)] p(1) c(2,1)] g io by (auto split: if_splits)
qed

lemma move_good:
  assumes g: "good st" and r: "filesystem_move st source destination = (r, st')" and io: "r \<noteq> FS_RESULT_IO_ERROR"
  shows "good st'"
proof (cases "root_path_resolve (current_directory st) source ROOT_PATH_MAX = None \<or> root_path_resolve (current_directory st) destination ROOT_PATH_MAX = None")
  case True
  then show ?thesis using g r by (auto simp: filesystem_move_def split: option.splits)
next
  case False
  then obtain so de where o: "root_path_resolve (current_directory st) source ROOT_PATH_MAX = Some so"
    "root_path_resolve (current_directory st) destination ROOT_PATH_MAX = Some de" by auto
  obtain s where s: "wf_path s" "so = render s" by (rule good_resolve [OF g o(1)])
  obtain d where d: "wf_path d" "de = render d" "length (render d) < ROOT_PATH_MAX" by (rule good_resolve [OF g o(2)])
  obtain c where c: "wf_path c" "current_directory st = render c" by (rule good_cwd [OF g])
  show ?thesis using move_spec [OF g r o [unfolded s(2) d(2)] s(1) d(1,3) c(2,1)] g io by (auto split: if_splits)
qed

lemma copy_good:
  assumes g: "good st"
  shows "\<exists>r st'. filesystem_copy st source destination = Some (r, st') \<and> (r \<noteq> FS_RESULT_IO_ERROR \<longrightarrow> good st')"
proof (cases "root_path_resolve (current_directory st) source ROOT_PATH_MAX = None \<or> root_path_resolve (current_directory st) destination ROOT_PATH_MAX = None")
  case True
  then have "filesystem_copy st source destination = Some (FS_RESULT_INVALID_PATH, st)"
    by (auto simp: filesystem_copy_def split: option.splits)
  with g show ?thesis by simp
next
  case False
  then obtain so de where o: "root_path_resolve (current_directory st) source ROOT_PATH_MAX = Some so"
    "root_path_resolve (current_directory st) destination ROOT_PATH_MAX = Some de" by auto
  obtain s where s: "wf_path s" "so = render s" by (rule good_resolve [OF g o(1)])
  obtain d where d: "wf_path d" "de = render d" "length (render d) < ROOT_PATH_MAX" by (rule good_resolve [OF g o(2)])
  obtain r st' where c: "filesystem_copy st source destination = Some (r, st')" and
    sp: "if view_of st s = None then r = FS_RESULT_NOT_FOUND \<and> st' = st
     else if view_of st d \<noteq> None then r = FS_RESULT_ALREADY_EXISTS \<and> st' = st
     else if view_of st s = Some dirv \<and> prefix s d then r = FS_RESULT_INVALID_PATH \<and> st' = st
     else (r \<in> {FS_RESULT_NOT_DIRECTORY, FS_RESULT_NO_SPACE, FS_RESULT_INVALID_PATH} \<and> good st'
             \<and> grows (view_of st) (view_of st') (butlast d))
       \<or> (r = FS_RESULT_OK \<and> good st' \<and> (\<exists>V. closed V \<and> grows (view_of st) V (butlast d) \<and> V (butlast d) = Some dirv
             \<and> view_of st' = duplicate V s d {z. view_of st (s @ z) \<noteq> None}))
       \<or> (r = FS_RESULT_IO_ERROR \<and> inv st' \<and> framed st st')"
    using copy_spec [OF g o [unfolded s(2) d(2)] s(1) d(1,3)] by blast
  then have "r \<noteq> FS_RESULT_IO_ERROR \<longrightarrow> good st'" using g by (auto split: if_splits)
  with c show ?thesis by blast
qed

lemma write_good:
  assumes g: "good st"
  shows "\<exists>r st'. filesystem_write_file st path (Some bs) (length bs) = Some (r, st') \<and> good st'"
proof (cases "path = None \<or> length bs > FS_MAX_FILE_SIZE \<or> root_path_resolve (current_directory st) path ROOT_PATH_MAX = None")
  case True
  then show ?thesis using g by (auto simp: filesystem_write_file_def)
next
  case False
  then obtain s out where o: "path = Some s" "root_path_resolve (current_directory st) (Some s) ROOT_PATH_MAX = Some out" by auto
  obtain p where p: "wf_path p" "out = render p" by (rule good_resolve [OF g o(2)])
  show ?thesis using write_spec [OF g o(2) [unfolded p(2)] p(1), of bs] False o(1) by auto
qed

lemma append_good:
  assumes g: "good st" and r: "filesystem_append_file st path (Some bs) (length bs) = Some (r, st')"
  shows "good st'"
proof (cases "path = None \<or> root_path_resolve (current_directory st) path ROOT_PATH_MAX = None")
  case True
  then show ?thesis using g r by (auto simp: filesystem_append_file_def split: if_splits)
next
  case False
  then obtain s out where o: "path = Some s" "root_path_resolve (current_directory st) (Some s) ROOT_PATH_MAX = Some out" by auto
  obtain p where p: "wf_path p" "out = render p" by (rule good_resolve [OF g o(2)])
  show ?thesis using append_spec [OF g o(2) [unfolded p(2)] p(1) r [unfolded o(1)]] by simp
qed

lemma read_good:
  assumes g: "good st" and r: "filesystem_read_file st path n = ((r, out), st')"
  shows "good st'"
proof (cases "path = None \<or> root_path_resolve (current_directory st) path ROOT_PATH_MAX = None")
  case True
  then show ?thesis using g r by (auto simp: filesystem_read_file_def split: if_splits)
next
  case False
  then obtain s out where o: "path = Some s" "root_path_resolve (current_directory st) (Some s) ROOT_PATH_MAX = Some out" by auto
  obtain p where p: "wf_path p" "out = render p" by (rule good_resolve [OF g o(2)])
  show ?thesis by (rule read_spec(1) [OF g o(2) [unfolded p(2)] p(1) r [unfolded o(1)]])
qed

lemma change_directory_good:
  assumes g: "good st"
  shows "good (snd (filesystem_change_directory st path))"
proof (cases "root_path_resolve (current_directory st) path ROOT_PATH_MAX")
  case None
  then show ?thesis using g by (simp add: filesystem_change_directory_def)
next
  case (Some out)
  obtain p where p: "wf_path p" "out = render p" "length (render p) < ROOT_PATH_MAX" by (rule good_resolve [OF g Some])
  show ?thesis using change_directory_spec(1,2) [OF g Some [unfolded p(2)] p(1,3)] g by auto
qed

lemma exec_good:
  assumes g: "good st" and e: "fs_exec op st = Some (r, st')" and io: "r \<noteq> FS_RESULT_IO_ERROR"
  shows "good st'"
proof (cases op)
  case (Fs_create_directory p)
  then show ?thesis using create_directory_good [OF g] e by (cases "filesystem_create_directory st p") auto
next
  case (Fs_create_file p)
  then show ?thesis using create_file_good [OF g] e by (cases "filesystem_create_file st p") auto
next
  case (Fs_remove p b)
  then show ?thesis using remove_good [OF g _ io] e by auto
next
  case (Fs_copy s d)
  then show ?thesis using copy_good [OF g, of s d] e io by auto
next
  case (Fs_move s d)
  then show ?thesis using move_good [OF g _ io] e by auto
next
  case (Fs_read_file p n)
  then show ?thesis using read_good [OF g] e by (auto split: prod.splits)
next
  case (Fs_write_file p bs)
  then show ?thesis using write_good [OF g, of p bs] e by auto
next
  case (Fs_append_file p bs)
  then show ?thesis using append_good [OF g] e by auto
next
  case (Fs_change_directory p)
  then show ?thesis using change_directory_good [OF g, of p] e by auto
next
  case (Fs_list p)
  then show ?thesis using g good_printed [OF g] e by (auto simp: filesystem_list_def Let_def split: option.splits if_splits)
next
  case (Fs_find_directories p)
  then show ?thesis using g good_printed [OF g] e by (auto simp: filesystem_find_directories_def Let_def split: option.splits if_splits)
next
  case Fs_print_current_directory
  then show ?thesis using good_printed [OF g] e by (auto simp: filesystem_print_current_directory_def)
qed

lemma exec_returns:
  assumes "good st" "\<not> is_append op"
  shows "\<exists>r st'. fs_exec op st = Some (r, st')"
  using assms write_good [OF assms(1)] copy_good [OF assms(1)] by (cases op) (fastforce split: prod.splits)+

end

end
