(* ===== verification/Root_FS_Boot.thy ===== *)
theory Root_FS_Boot
  imports Root_FS_Machine
begin

text \<open>
  Mounting: whatever the disk holds, when \<open>filesystem_init\<close> ends with the RAM backend (no volume, or a volume
  it could not load), the table holds exactly the initial tree and is well formed.
\<close>

section \<open>States without file contents on the heap\<close>

definition plain :: "heap \<Rightarrow> bool \<Rightarrow> 'd fs \<Rightarrow> bool" where
  "plain h b st \<longleftrightarrow> length (nodes st) = FS_MAX_NODES \<and> (\<forall>i<FS_MAX_NODES. ram_content (nodes st ! i) = 0)
     \<and> fs_heap st = h \<and> filesystem_persistent_backend st = b"

lemma plain_set: "plain h b st \<Longrightarrow> ram_content nd = 0 \<Longrightarrow> plain h b (set_node st i nd)"
proof -
  assume a: "plain h b st" "ram_content nd = 0"
  have "ram_content ((nodes st)[i := nd] ! j) = 0" if "j < FS_MAX_NODES" for j
    using a that by (cases "j = i") (auto simp: plain_def)
  with a show ?thesis by (simp add: plain_def)
qed

lemma plain_cong: "plain h b st \<Longrightarrow> nodes st' = nodes st \<Longrightarrow> fs_heap st' = fs_heap st \<Longrightarrow>
    filesystem_persistent_backend st' = filesystem_persistent_backend st \<Longrightarrow> plain h b st'"
  by (simp add: plain_def)

lemma plain_reset: "plain h b st \<Longrightarrow> i < FS_MAX_NODES \<Longrightarrow> reset_node st i = set_node st i zero_node"
  by (simp add: plain_def reset_node_def release_ram_content_def Let_def)

lemma plain_add:
  assumes "plain h b st" "add_node_absolute st p t = (r, st')"
  shows "plain h b st'"
proof (cases "find_node st p = None \<and> find_free_node st \<noteq> None")
  case False
  then show ?thesis using assms by (auto simp: add_node_absolute_def split: option.splits)
next
  case True
  then obtain i where f: "find_node st p = None" "find_free_node st = Some i" by auto
  then have i: "i < FS_MAX_NODES"
    using find_slot_SomeD [OF f(2) [unfolded find_free_node_def]] assms(1) by (simp add: plain_def)
  obtain copied n where c: "root_strlcpy (node_path (nodes (reset_node st i) ! i)) p ROOT_PATH_MAX = (copied, n)"
    by (meson surj_pair)
  note ps = plain_set [OF assms(1)]
  let ?s1 = "set_node st i (zero_node\<lparr>node_path := copied\<rparr>)"
  let ?s2 = "set_node st i \<lparr>node_used = True, node_type = t, node_path = copied, node_size = 0, ram_content = 0\<rparr>"
  obtain ok s3 where p: "persist_node ?s2 i = (ok, s3)" by (meson surj_pair)
  note pf = persist_frame [OF p]
  have len: "i < length (nodes st)" using i assms(1) by (simp add: plain_def)
  have s1: "plain h b ?s1" by (rule ps) simp
  have s2: "plain h b ?s2" by (rule ps) simp
  have s3: "plain h b s3" by (rule plain_cong [OF s2]) (use pf(3) in \<open>simp_all add: pf framed_def\<close>)
  have s4: "plain h b (reset_node s3 i)" unfolding plain_reset [OF s3 i] by (rule plain_set [OF s3]) simp
  have "st' \<in> {?s1, s3, reset_node s3 i}"
    using assms(2) f c p len by (auto simp: add_node_absolute_def plain_reset [OF assms(1) i] Let_def zero_node_def split: if_splits)
  then show ?thesis using s1 s3 s4 by auto
qed

lemma plain_initial: "plain h b st \<Longrightarrow> initial_loop ns st = (r, st') \<Longrightarrow> plain h b st'"
proof (induction ns arbitrary: st)
  case (Cons n ns)
  obtain r1 st1 where a: "add_node_absolute st (fst n) (snd n) = (r1, st1)" by (meson surj_pair)
  then have "plain h b st1" by (rule plain_add [OF Cons.prems(1)])
  with Cons a show ?case by (auto split: if_splits)
qed simp

lemma plain_load_loop: "plain h b st \<Longrightarrow> load_loop is any st = (r, st') \<Longrightarrow> plain h b st'"
proof (induction "is" arbitrary: any st)
  case (Cons i "is")
  obtain n d where rd: "rootfs_disk_read_node (disk st) i = (n, d)" by (meson surj_pair)
  let ?st = "st\<lparr>disk := d\<rparr>"
  have p: "plain h b ?st" by (rule plain_cong [OF Cons.prems(1)]) simp_all
  have pe: "plain h b (s\<lparr>filesystem_storage_error := True\<rparr>)" if "plain h b s" for s using that by (simp add: plain_def)
  show ?case
  proof (cases n)
    case None
    then show ?thesis using Cons.prems(2) rd pe [OF p] by simp
  next
    case (Some dn)
    obtain copied k where c: "root_strlcpy (node_path (nodes st ! i)) (dn_path dn) ROOT_PATH_MAX = (copied, k)" by (meson surj_pair)
    let ?s = "set_node ?st i ((nodes st ! i)\<lparr>node_used := True, node_type := disk_type_to_fs (dn_type dn),
        node_size := dn_size dn, ram_content := 0, node_path := copied\<rparr>)"
    have ps: "plain h b ?s" using plain_set [OF p, of "(nodes st ! i)\<lparr>node_used := True, node_type := disk_type_to_fs (dn_type dn),
        node_size := dn_size dn, ram_content := 0, node_path := copied\<rparr>" i] by simp
    consider "load_loop is any ?st = (r, st')" | "st' = ?st\<lparr>filesystem_storage_error := True\<rparr>"
      | "st' = ?s\<lparr>filesystem_storage_error := True\<rparr>" | "load_loop is True ?s = (r, st')"
      using Cons.prems(2) rd Some c by (auto simp: Let_def split: if_splits)
    then show ?thesis using Cons.IH [OF p] Cons.IH [OF ps] pe [OF p] pe [OF ps] by cases auto
  qed
qed simp

lemma plain_load:
  assumes "plain h b st" "load_persistent_nodes st = (ok, st')"
  shows "plain h b st'"
proof -
  obtain x s1 where l: "load_loop [0..<FS_MAX_NODES] False st = (x, s1)" by (meson surj_pair)
  have p1: "plain h b s1" by (rule plain_load_loop [OF assms(1) l])
  obtain r s2 where t: "create_initial_tree s1 = (r, s2)" by (meson surj_pair)
  have p2: "plain h b s2" using plain_initial [OF p1] t by (simp add: create_initial_tree_def)
  have "st' \<in> {s1, s2, s1\<lparr>filesystem_storage_error := True\<rparr>, s2\<lparr>filesystem_storage_error := True\<rparr>}"
    using assms(2) l t by (auto simp: load_persistent_nodes_def Let_def split: option.splits if_splits)
  then show ?thesis using p1 p2 by (auto simp: plain_def)
qed

lemma reset_all_plain:
  assumes "plain h b st"
  shows "reset_all_nodes st = st\<lparr>nodes := replicate FS_MAX_NODES zero_node\<rparr>"
proof -
  have "n \<le> FS_MAX_NODES \<Longrightarrow> fold (\<lambda>i st. reset_node st i) [0..<n] st = st\<lparr>nodes := replicate n zero_node @ drop n (nodes st)\<rparr>" for n
  proof (induction n)
    case (Suc n)
    let ?st = "st\<lparr>nodes := replicate n zero_node @ drop n (nodes st)\<rparr>"
    have pl: "plain h b ?st" using assms Suc.prems by (auto simp: plain_def nth_append)
    have n: "n < length (nodes st)" using assms Suc.prems by (simp add: plain_def)
    then have "(replicate n zero_node @ drop n (nodes st))[n := zero_node] = replicate (Suc n) zero_node @ drop (Suc n) (nodes st)"
      by (simp add: list_update_append Cons_nth_drop_Suc [symmetric] replicate_app_Cons_same)
    then show ?case using Suc plain_reset [OF pl, of n] by simp
  qed simp
  then show ?thesis using assms by (simp add: reset_all_nodes_def plain_def)
qed


section \<open>The initial tree\<close>

definition initial_paths :: "(path \<times> FsType) list" where
  "initial_paths = map (apfst path_comps) initial_nodes"

definition initial_objects :: "path \<Rightarrow> (FsType \<times> u8 list) option" where
  "initial_objects = map_of (map (\<lambda>(p, t). (p, (t, []))) initial_paths)"

lemma initial_paths_simp: "initial_paths =
    [([], FS_DIRECTORY), ([''boot''], FS_DIRECTORY), ([''boot'', ''kernel.elf''], FS_FILE), ([''home''], FS_DIRECTORY),
     ([''home'', ''user''], FS_DIRECTORY), ([''home'', ''user'', ''Documents''], FS_DIRECTORY), ([''home'', ''user'', ''Downloads''], FS_DIRECTORY),
     ([''home'', ''user'', ''Projects''], FS_DIRECTORY), ([''home'', ''user'', ''bin''], FS_DIRECTORY), ([''home'', ''user'', ''readme.txt''], FS_FILE),
     ([''system''], FS_DIRECTORY), ([''system'', ''bin''], FS_DIRECTORY), ([''system'', ''bin'', ''shell''], FS_FILE),
     ([''system'', ''drivers''], FS_DIRECTORY), ([''system'', ''fonts''], FS_DIRECTORY), ([''system'', ''fonts'', ''unifont-17.0.05.otf''], FS_FILE),
     ([''system'', ''libraries''], FS_DIRECTORY), ([''system'', ''services''], FS_DIRECTORY), ([''system'', ''apps''], FS_DIRECTORY),
     ([''system'', ''version.txt''], FS_FILE), ([''config''], FS_DIRECTORY), ([''config'', ''users''], FS_DIRECTORY),
     ([''config'', ''shell''], FS_DIRECTORY), ([''config'', ''system''], FS_DIRECTORY), ([''config'', ''services''], FS_DIRECTORY),
     ([''packages''], FS_DIRECTORY), ([''temp''], FS_DIRECTORY), ([''var''], FS_DIRECTORY), ([''var'', ''log''], FS_DIRECTORY),
     ([''var'', ''log'', ''kernel.log''], FS_FILE), ([''var'', ''cache''], FS_DIRECTORY), ([''var'', ''cache'', ''packages''], FS_DIRECTORY),
     ([''var'', ''run''], FS_DIRECTORY)]"
  by code_simp

lemma initial_paths_props:
  "map (\<lambda>(p, t). (render p, t)) initial_paths = initial_nodes"
  "list_all (\<lambda>(p, t). list_all wf_comp p \<and> length (render p) < 512) initial_paths"
  "distinct (map fst initial_paths)" "length initial_paths = 33"
  "list_all (\<lambda>(p, t). p = [] \<or> map_of initial_paths (butlast p) = Some FS_DIRECTORY) initial_paths"
  by code_simp+

context tree_view begin

lemma initial_loop_spec:
  assumes "inv st" "\<not> filesystem_persistent_backend st" "distinct (map fst ps)" "length ps \<le> count_free_nodes st"
    "\<And>p t. (p, t) \<in> set ps \<Longrightarrow> wf_path p \<and> length (render p) < ROOT_PATH_MAX \<and> view_of st p = None"
  shows "\<exists>st'. initial_loop (map (\<lambda>(p, t). (render p, t)) ps) st = (FS_RESULT_OK, st') \<and> inv st' \<and> framed st st'
     \<and> view_of st' = view_of st ++ map_of (map (\<lambda>(p, t). (p, val t [])) ps)"
  using assms
proof (induction ps arbitrary: st)
  case (Cons x ps)
  obtain p t where x: "x = (p, t)" by (cases x)
  have p: "wf_path p" "length (render p) < ROOT_PATH_MAX" "view_of st p = None" using Cons.prems(5) [of p t] x by auto
  obtain r st1 where a: "add_node_absolute st (render p) t = (r, st1)" by (meson surj_pair)
  have ad: "r = FS_RESULT_OK" "view_of st1 = (view_of st)(p \<mapsto> val t [])" "count_free_nodes st1 + 1 = count_free_nodes st" "inv st1" "framed st st1"
    using add_view [OF Cons.prems(1) p(1,2) a] p(3) Cons.prems(2,4) by auto
  have new: "p \<notin> fst ` set ps" using Cons.prems(3) x by simp
  have "\<exists>st'. initial_loop (map (\<lambda>(p, t). (render p, t)) ps) st1 = (FS_RESULT_OK, st') \<and> inv st' \<and> framed st1 st'
     \<and> view_of st' = view_of st1 ++ map_of (map (\<lambda>(p, t). (p, val t [])) ps)"
  proof (rule Cons.IH)
    show "wf_path q \<and> length (render q) < ROOT_PATH_MAX \<and> view_of st1 q = None" if "(q, u) \<in> set ps" for q u
    proof -
      have "q \<noteq> p" using that new by (metis fst_conv image_eqI)
      then show ?thesis using Cons.prems(5) [of q u] that ad(2) by simp
    qed
  qed (use ad Cons.prems in \<open>auto simp: framed_def\<close>)
  then obtain st' where st': "initial_loop (map (\<lambda>(p, t). (render p, t)) ps) st1 = (FS_RESULT_OK, st')" "inv st'" "framed st1 st'"
    "view_of st' = view_of st1 ++ map_of (map (\<lambda>(p, t). (p, val t [])) ps)" by blast
  have "p \<notin> dom (map_of (map (\<lambda>(p, t). (p, val t [])) ps))"
    using new by (simp add: dom_map_of_conv_image_fst image_comp comp_def case_prod_unfold)
  then have "view_of st' = view_of st ++ map_of (map (\<lambda>(p, t). (p, val t [])) (x # ps))"
    unfolding st'(4) ad(2) x by (simp add: map_add_upd_left)
  moreover have "initial_loop (map (\<lambda>(p, t). (render p, t)) (x # ps)) st = (FS_RESULT_OK, st')" using a ad(1) x st'(1) by simp
  ultimately show ?case using st'(2) framed_trans [OF ad(5) st'(3)] by blast
qed simp

end


lemma initial_view: "map_of (map (\<lambda>(p, t). (p, (t, []))) ps) p = map_option (\<lambda>t. (t, [])) (map_of ps p)"
  by (induction ps) auto

lemma initial_closed: "ramv.closed initial_objects"
  unfolding ramv.closed_def
proof (intro conjI allI impI)
  show "initial_objects [] = Some ramv.dirv"
    by (simp add: initial_objects_def initial_paths_simp ramv.dirv_def)
  fix p x
  assume "initial_objects (p @ [x]) \<noteq> None"
  then obtain t where "(p @ [x], t) \<in> set initial_paths" by (auto simp: initial_objects_def initial_view dest: map_of_SomeD)
  then have "map_of initial_paths p = Some FS_DIRECTORY" using initial_paths_props(5) by (fastforce simp: list_all_iff)
  then show "initial_objects p = Some ramv.dirv" by (simp add: initial_objects_def initial_view ramv.dirv_def)
qed

text \<open>Building the initial tree in an emptied table with the RAM backend.\<close>

lemma ram_initial_tree:
  assumes "heap_ok (fs_heap st) {}" "nodes st = replicate FS_MAX_NODES zero_node" "\<not> filesystem_persistent_backend st"
  shows "\<exists>st'. create_initial_tree st = (FS_RESULT_OK, st') \<and> ram_inv st' \<and> framed st st' \<and> ram_objects st' = initial_objects"
proof -
  have t: "table_ok (nodes st)" unfolding assms(2) table_ok_def by (auto intro!: ft.keys_uniqueI)
  have "owned (fs_heap st) {} (nodes st)" using assms(1) by (simp add: owned_def block_ok_def assms(2))
  then have inv: "ram_inv st" using t assms(3) by (auto simp: ram_inv_def)
  have none: "ram_objects st = Map.empty" by (rule ext) (auto simp: ram_objects_def view_None assms(2))
  have free: "count_free_nodes st = 256" by (simp add: count_free_nodes_def assms(2) rootos_consts)
  have wf: "wf_path p \<and> length (render p) < ROOT_PATH_MAX" if "(p, t) \<in> set initial_paths" for p t
    using initial_paths_props(2) that by (fastforce simp: list_all_iff wf_path_def rootos_consts)
  have "\<exists>st'. initial_loop (map (\<lambda>(p, t). (render p, t)) initial_paths) st = (FS_RESULT_OK, st') \<and> ram_inv st' \<and> framed st st'
     \<and> ram_objects st' = ram_objects st ++ map_of (map (\<lambda>(p, t). (p, (t, []))) initial_paths)"
    by (rule ramv.initial_loop_spec [OF inv assms(3) initial_paths_props(3)]) (use free wf none initial_paths_props(4) in auto)
  then show ?thesis by (simp add: create_initial_tree_def initial_paths_props(1) none initial_objects_def)
qed

lemma init_ram_tree:
  assumes "heap_ok (fs_heap st) {}" "plain (fs_heap st) False st" "\<not> filesystem_persistent_backend st"
  shows "ram_inv (snd (create_initial_tree (reset_all_nodes st)))" "ram_objects (snd (create_initial_tree (reset_all_nodes st))) = initial_objects"
    "framed st (snd (create_initial_tree (reset_all_nodes st)))"
proof -
  let ?st = "st\<lparr>nodes := replicate FS_MAX_NODES zero_node\<rparr>"
  obtain st' where "create_initial_tree ?st = (FS_RESULT_OK, st')" "ram_inv st'" "framed ?st st'" "ram_objects st' = initial_objects"
    using ram_initial_tree [of ?st] assms by auto
  then show "ram_inv (snd (create_initial_tree (reset_all_nodes st)))" "ram_objects (snd (create_initial_tree (reset_all_nodes st))) = initial_objects"
    "framed st (snd (create_initial_tree (reset_all_nodes st)))"
    unfolding reset_all_plain [OF assms(2)] by (simp_all add: framed_def)
qed

end
