(* ===== verification/Root_FS_Claims.thy ===== *)
theory Root_FS_Claims
  imports Root_FS_Boot
begin

text \<open>
  The properties of the file system, stated over the RAM backend's tree \<open>ram_objects\<close> (paths to type and
  contents) and, for the persistent backend, over \<open>meta_objects\<close> (paths to type and size).
\<close>

section \<open>Well-formed states\<close>

definition tree_ok :: "(path \<Rightarrow> (FsType \<times> 'c) option) \<Rightarrow> bool" where
  "tree_ok T \<longleftrightarrow> (\<exists>x. T [] = Some (FS_DIRECTORY, x)) \<and> (\<forall>p c. T (p @ [c]) \<noteq> None \<longrightarrow> (\<exists>x. T p = Some (FS_DIRECTORY, x)))"

definition cwd_ok :: "(path \<Rightarrow> (FsType \<times> 'c) option) \<Rightarrow> 'd fs \<Rightarrow> bool" where
  "cwd_ok T st \<longleftrightarrow> (\<exists>c x. wf_path c \<and> current_directory st = render c \<and> length (render c) < ROOT_PATH_MAX \<and> T c = Some (FS_DIRECTORY, x))"

definition ram_good :: "'d fs \<Rightarrow> bool" where
  "ram_good st \<longleftrightarrow> ram_inv st \<and> tree_ok (ram_objects st) \<and> cwd_ok (ram_objects st) st"

definition disk_good :: "'d fs \<Rightarrow> bool" where
  "disk_good st \<longleftrightarrow> meta_inv st \<and> tree_ok (meta_objects st) \<and> cwd_ok (meta_objects st) st"

lemma ram_dir: "ram_inv st \<Longrightarrow> ram_objects st p = Some (FS_DIRECTORY, x) \<longleftrightarrow> ram_objects st p = Some (FS_DIRECTORY, []) \<and> x = []"
  by (auto simp: ram_objects_def view_Some [of "nodes st"] ram_inv_def content_def)

lemma meta_dir: "meta_inv st \<Longrightarrow> meta_objects st p = Some (FS_DIRECTORY, x) \<longleftrightarrow> meta_objects st p = Some (FS_DIRECTORY, 0) \<and> x = 0"
  by (auto simp: meta_objects_def view_Some [of "nodes st"] meta_inv_def meta_value_def)

lemma ram_good_iff: "ramv.good st \<longleftrightarrow> ram_good st"
proof (cases "ram_inv st")
  case True
  have d: "(\<exists>x. ram_objects st p = Some (FS_DIRECTORY, x)) \<longleftrightarrow> ram_objects st p = Some (FS_DIRECTORY, [])" for p
    using ram_dir [OF True, of p] by blast
  have "cwd_ok (ram_objects st) st \<longleftrightarrow> (\<exists>c. wf_path c \<and> current_directory st = render c \<and> length (render c) < ROOT_PATH_MAX
      \<and> ram_objects st c = Some (FS_DIRECTORY, []))" unfolding cwd_ok_def using d by blast
  then show ?thesis using True by (simp add: ramv.good_def ram_good_def tree_ok_def ramv.closed_def ramv.dirv_def d)
qed (simp add: ramv.good_def ram_good_def)

lemma disk_good_iff: "metav.good st \<longleftrightarrow> disk_good st"
proof (cases "meta_inv st")
  case True
  have d: "(\<exists>x. meta_objects st p = Some (FS_DIRECTORY, x)) \<longleftrightarrow> meta_objects st p = Some (FS_DIRECTORY, 0)" for p
    using meta_dir [OF True, of p] by blast
  have "cwd_ok (meta_objects st) st \<longleftrightarrow> (\<exists>c. wf_path c \<and> current_directory st = render c \<and> length (render c) < ROOT_PATH_MAX
      \<and> meta_objects st c = Some (FS_DIRECTORY, 0))" unfolding cwd_ok_def using d by blast
  then show ?thesis using True by (simp add: metav.good_def disk_good_def tree_ok_def metav.closed_def metav.dirv_def d)
qed (simp add: metav.good_def disk_good_def)

section \<open>Mounting\<close>

text \<open>The state at boot: an initialised heap and zeroed variables, on any storage.\<close>

definition booted :: "'d fs \<Rightarrow> bool" where
  "booted st \<longleftrightarrow> heap_ok (fs_heap st) {} \<and> nodes st = replicate FS_MAX_NODES zero_node \<and> \<not> filesystem_persistent_backend st"

lemma root_home:
  assumes "ram_inv st" "ram_objects st = initial_objects"
  shows "find_node st ROOTOS_DEFAULT_HOME \<noteq> None"
proof -
  have h: "ROOTOS_DEFAULT_HOME = render [''home'', ''user'']" by (simp add: ROOTOS_DEFAULT_HOME_def render_def)
  have "initial_objects [''home'', ''user''] \<noteq> None" by (simp add: initial_objects_def initial_paths_simp)
  then show ?thesis unfolding h using ramv.find_None [OF assms(1) home_wf] assms(2) by simp
qed

lemma init_finish:
  assumes st: "ram_inv st" "ram_objects st = initial_objects"
    and e: "st' = (case find_node st ROOTOS_DEFAULT_HOME of
           Some _ \<Rightarrow> st\<lparr>current_directory := fst (root_strlcpy (current_directory st) ROOTOS_DEFAULT_HOME ROOT_PATH_MAX)\<rparr>
         | None \<Rightarrow> st\<lparr>current_directory := fst (root_strlcpy (current_directory st) ''/'' ROOT_PATH_MAX)\<rparr>)"
  shows "ram_good st' \<and> ram_objects st' = initial_objects \<and> current_directory st' = ''/home/user''"
proof -
  have h: "ROOTOS_DEFAULT_HOME = render [''home'', ''user'']" by (simp add: ROOTOS_DEFAULT_HOME_def render_def)
  have e': "st' = st\<lparr>current_directory := ''/home/user''\<rparr>"
    using e root_home [OF st] home_wf by (auto simp: root_strlcpy_spec cstr_render h render_def rootos_consts)
  have cg: "ram_inv st' \<and> ram_objects st' = ram_objects st" by (rule ramv.inv_cong [OF st(1)]) (simp_all add: e')
  have "initial_objects [''home'', ''user''] = Some ramv.dirv" by (simp add: initial_objects_def initial_paths_simp ramv.dirv_def)
  moreover have "render [''home'', ''user''] = ''/home/user''" "length (render [''home'', ''user'']) < ROOT_PATH_MAX"
    by (simp_all add: render_def rootos_consts)
  ultimately have "ramv.good st'"
    unfolding ramv.good_def using cg st(2) initial_closed home_wf e' by (intro conjI exI [of _ "[''home'', ''user'']"]) simp_all
  then show ?thesis using cg st(2) e' by (simp add: ram_good_iff)
qed

lemma init_tree:
  assumes "booted st"
  shows "(filesystem_persistent_backend (filesystem_init st) \<and> rootfs_disk_ready (disk st))
     \<or> (ram_good (filesystem_init st) \<and> ram_objects (filesystem_init st) = initial_objects
        \<and> current_directory (filesystem_init st) = ''/home/user'')"
proof -
  have hp: "heap_ok (fs_heap st) {}" and pl: "plain (fs_heap st) False st" using assms by (auto simp: booted_def plain_def)
  have ra: "reset_all_nodes st = st"
    using reset_all_plain [OF pl] assms by (simp add: booted_def)
  define s0 where "s0 = st\<lparr>filesystem_storage_error := False, filesystem_persistent_backend := rootfs_disk_ready (disk st)\<rparr>"
  have p0: "plain (fs_heap st) (rootfs_disk_ready (disk st)) s0" using pl by (simp add: plain_def s0_def)
  have r0: "reset_all_nodes s0 = s0" using reset_all_plain [OF p0] assms by (simp add: booted_def s0_def)
  obtain ok s1 where l: "load_persistent_nodes s0 = (ok, s1)" by (meson surj_pair)
  let ?s2 = "s1\<lparr>filesystem_persistent_backend := False\<rparr>"
  have p2: "plain (fs_heap st) False ?s2" using plain_load [OF p0 l] by (simp add: plain_def)
  then have h2: "fs_heap ?s2 = fs_heap st" by (simp add: plain_def)
  let ?fin = "\<lambda>st. case find_node st ROOTOS_DEFAULT_HOME of
           Some _ \<Rightarrow> st\<lparr>current_directory := fst (root_strlcpy (current_directory st) ROOTOS_DEFAULT_HOME ROOT_PATH_MAX)\<rparr>
         | None \<Rightarrow> st\<lparr>current_directory := fst (root_strlcpy (current_directory st) ''/'' ROOT_PATH_MAX)\<rparr>"
  have e: "filesystem_init st = ?fin (if filesystem_persistent_backend s0 then
      (if \<not> ok then snd (create_initial_tree (reset_all_nodes ?s2)) else s1) else snd (create_initial_tree (reset_all_nodes s0)))"
    unfolding filesystem_init_def Let_def ra s0_def [symmetric] r0 l by (simp only: prod.case)
  have b0: "filesystem_persistent_backend s0 = rootfs_disk_ready (disk st)" by (simp add: s0_def)
  consider (none) "\<not> rootfs_disk_ready (disk st)" | (load) "rootfs_disk_ready (disk st)" "ok" | (failed) "rootfs_disk_ready (disk st)" "\<not> ok" by blast
  then show ?thesis
  proof cases
    case none
    then have e: "filesystem_init st = ?fin (snd (create_initial_tree (reset_all_nodes s0)))"
      using e b0 by (simp only: if_False)
    have "fs_heap s0 = fs_heap st" "\<not> filesystem_persistent_backend s0" using none by (simp_all add: s0_def)
    with init_ram_tree [of s0] hp p0 none have "ram_inv (snd (create_initial_tree (reset_all_nodes s0)))"
      "ram_objects (snd (create_initial_tree (reset_all_nodes s0))) = initial_objects" by auto
    from init_finish [OF this e] show ?thesis by blast
  next
    case failed
    then have e: "filesystem_init st = ?fin (snd (create_initial_tree (reset_all_nodes ?s2)))"
      using e b0 by (simp only: if_True not_False_eq_True)
    from init_ram_tree [of ?s2] hp p2 h2 have "ram_inv (snd (create_initial_tree (reset_all_nodes ?s2)))"
      "ram_objects (snd (create_initial_tree (reset_all_nodes ?s2))) = initial_objects" by auto
    from init_finish [OF this e] show ?thesis by blast
  next
    case load
    then have e: "filesystem_init st = ?fin s1" using e b0 by (simp only: if_True not_True_eq_False if_False)
    have "filesystem_persistent_backend s1" using plain_load [OF p0 l] load by (simp add: plain_def)
    then have "filesystem_persistent_backend (filesystem_init st)" unfolding e by (simp split: option.split)
    with load show ?thesis by blast
  qed
qed


text \<open>
  C7: However the volume behaves while it is mounted, \<open>filesystem_init\<close> ends either with the persistent
  backend or with a well-formed RAM file system that holds exactly the initial tree, with \<open>/home/user\<close> as the
  current directory: a volume that cannot be loaded leaves no half-loaded node behind.
\<close>

theorem filesystem_init_tree:
  assumes "booted st"
  shows "(filesystem_persistent_backend (filesystem_init st) \<and> rootfs_disk_ready (disk st))
     \<or> (ram_good (filesystem_init st) \<and> ram_objects (filesystem_init st) = initial_objects
        \<and> current_directory (filesystem_init st) = ''/home/user'')"
  using assms by (rule init_tree)

definition boot_fs :: "(nat \<Rightarrow> sector) fs" where
  "boot_fs = \<lparr>nodes = replicate FS_MAX_NODES zero_node, current_directory = [], filesystem_persistent_backend = False,
     filesystem_storage_error = False, fs_heap = heap_init arena, disk = demo_volume\<lparr>storage_volume_ready := False\<rparr>, printed = []\<rparr>"

definition demo_fs :: "(nat \<Rightarrow> sector) fs" where
  "demo_fs = filesystem_init boot_fs"

lemma boot_fs_booted: "booted boot_fs"
  by (simp add: booted_def boot_fs_def init_ok rootos_consts)

lemma boot_fs_disk: "\<not> rootfs_disk_ready (disk boot_fs)"
  by (simp add: boot_fs_def rootfs_disk_ready_def rootstorage_volume_available_def)

theorem filesystem_init_tree_witness:
  "ram_good (filesystem_init boot_fs) \<and> ram_objects (filesystem_init boot_fs) = initial_objects
     \<and> current_directory (filesystem_init boot_fs) = ''/home/user''"
  using filesystem_init_tree [OF boot_fs_booted] boot_fs_disk by blast

lemma demo_fs_good: "ram_good demo_fs" "ram_objects demo_fs = initial_objects" "current_directory demo_fs = ''/home/user''"
  unfolding demo_fs_def using init_tree [OF boot_fs_booted] boot_fs_disk by blast+

end
