(* ===== verification/Root_FS_Props.thy ===== *)
theory Root_FS_Props
  imports Root_FS_Claims
begin

text \<open>
  What each operation does to the tree of the RAM backend, on every branch, and the invariant of both
  backends over sequences of operations.
\<close>

lemma ram_dirv [simp]: "ramv.dirv = (FS_DIRECTORY, [])"
  by (simp add: ramv.dirv_def)

lemma ram_backend: "ram_good st \<Longrightarrow> \<not> filesystem_persistent_backend st"
  by (simp add: ram_good_def ram_inv_def)

lemma ram_resolve_short:
  assumes "ram_good st" "root_path_resolve (current_directory st) path ROOT_PATH_MAX = Some (render p)"
  shows "length (render p) < ROOT_PATH_MAX"
  using assms(1) [folded ram_good_iff] ramv.good_resolve [OF _ assms(2)] by metis

section \<open>Sequences of operations\<close>

lemma ram_size_bound:
  assumes "ram_inv st" "i < FS_MAX_NODES" "named (nodes st ! i) p" "node_type (nodes st ! i) = FS_FILE"
  shows "node_size (nodes st ! i) < ROOT_HEAP_SIZE"
proof (cases "node_size (nodes st ! i) = 0")
  case False
  obtain L where L: "owned (fs_heap st) L (nodes st)" using assms(1) by (auto simp: ram_inv_def)
  then obtain t where "(ram_content (nodes st ! i), t) \<in> L" "node_size (nodes st ! i) < t"
    using assms False by (auto simp: owned_def block_ok_def named_def)
  then show ?thesis using heap_ok_bounds [of "fs_heap st" L "ram_content (nodes st ! i)" t] L by (auto simp: owned_def)
qed (simp add: rootos_consts)

lemma ram_append_spec:
  assumes g: "ramv.good st" and rs: "root_path_resolve (current_directory st) (Some path) ROOT_PATH_MAX = Some (render p)" and p: "wf_path p"
    and n: "length bs < 2 ^ 31"
  shows "\<exists>r st'. filesystem_append_file st (Some path) (Some bs) (length bs) = Some (r, st') \<and>
     (case ram_objects st p of
        None \<Rightarrow> r = FS_RESULT_NOT_FOUND \<and> st' = st
      | Some (FS_DIRECTORY, x) \<Rightarrow> r = FS_RESULT_NOT_FILE \<and> st' = st
      | Some (FS_FILE, old) \<Rightarrow>
          if length old + length bs > FS_MAX_FILE_SIZE then r = FS_RESULT_FILE_TOO_LARGE \<and> st' = st
          else (r = FS_RESULT_OK \<and> ramv.good st' \<and> framed st st' \<and> ram_objects st' = (ram_objects st)(p \<mapsto> (FS_FILE, old @ bs)))
            \<or> (r = FS_RESULT_NO_SPACE \<and> st' = st))"
  using ramv.good_simps(1) [OF g] p
proof (cases rule: ramv.find_cases)
  case (leaf i bs0)
  note inv = ramv.good_simps(1) [OF g]
  obtain old where old: "ram_objects st p = Some (FS_FILE, old)" "length old = node_size (nodes st ! i)"
      "backend_read_file st i FS_MAX_FILE_SIZE = (if length old \<le> FS_MAX_FILE_SIZE then Some old else None, st)"
    using ram_read_law [OF inv leaf(2-4)] by blast
  have sz: "u32_add (node_size (nodes st ! i)) (length bs) = length old + length bs"
    using ram_size_bound [OF inv leaf(2-4)] n old(2) by (simp add: u32_add_def rootos_consts)
  show ?thesis
  proof (cases "length old + length bs > FS_MAX_FILE_SIZE")
    case True
    then show ?thesis using rs leaf(1,4) old sz by (simp add: filesystem_append_file_def)
  next
    case False
    then have le: "length (old @ bs) \<le> FS_MAX_FILE_SIZE" by simp
    obtain ok st' where w: "backend_write_file st i (Some (old @ bs)) (length (old @ bs)) = Some (ok, st')" "ram_inv st'" "framed st st'"
      and sp: "if ok then ram_objects st' = (ram_objects st)(p \<mapsto> (FS_FILE, old @ bs))
          \<and> (\<exists>q. nodes st' = (nodes st)[i := (nodes st ! i)\<lparr>ram_content := q, node_size := length (old @ bs)\<rparr>])
        else st' = st \<and> old @ bs \<noteq> []"
      using ram_write_law [OF inv leaf(2-4) le] by blast
    have np: "\<not> filesystem_persistent_backend st" using inv by (simp add: ram_inv_def)
    have u: "u32_add (length old) (length bs) = length (old @ bs)" using sz old(2) by simp
    have res: "filesystem_append_file st (Some path) (Some bs) (length bs) = Some (if ok then FS_RESULT_OK else FS_RESULT_NO_SPACE, st')"
      using rs leaf(1,4) old sz False w(1) u np sp by (cases ok) (simp_all add: filesystem_append_file_def)
    show ?thesis
    proof (cases ok)
      case True
      then have "ramv.good st'" using ramv.good_file [OF g old(1) w(2,3)] sp by auto
      then show ?thesis using res True sp w(3) old(1) False by simp
    qed (use res sp old(1) False in simp)
  qed
qed (use rs in \<open>simp_all add: filesystem_append_file_def ramv.dirv_def\<close>)

fun ram_op_ok :: "fs_op \<Rightarrow> bool" where
  "ram_op_ok (Fs_append_file p bs) = (length bs < 2 ^ 31)"
| "ram_op_ok _ = True"

lemma ram_append_returns:
  assumes g: "ramv.good st" and n: "length bs < 2 ^ 31"
  shows "\<exists>r st'. filesystem_append_file st path (Some bs) (length bs) = Some (r, st')"
proof (cases "path = None \<or> root_path_resolve (current_directory st) path ROOT_PATH_MAX = None")
  case True
  then show ?thesis by (auto simp: filesystem_append_file_def)
next
  case False
  then obtain s out where o: "path = Some s" "root_path_resolve (current_directory st) (Some s) ROOT_PATH_MAX = Some out" by auto
  obtain p where p: "wf_path p" "out = render p" by (rule ramv.good_resolve [OF g o(2)])
  show ?thesis using ram_append_spec [OF g o(2) [unfolded p(2)] p(1) n] o(1) by blast
qed

interpretation ramm: op_machine fs_exec "\<lambda>r. r = FS_RESULT_IO_ERROR" ram_op_ok ramv.good
proof unfold_locales
  fix st :: "'a fs" and op
  assume g: "ramv.good st" and ok: "ram_op_ok op"
  obtain r st' where e: "fs_exec op st = Some (r, st')"
  proof (cases "is_append op")
    case True
    then obtain p bs where "op = Fs_append_file p bs" by (cases op) auto
    then show ?thesis using that ram_append_returns [OF g, of bs p] ok by auto
  qed (use that ramv.exec_returns [OF g, of op] in blast)
  with ramv.exec_good [OF g e] show "\<exists>r s'. fs_exec op st = Some (r, s') \<and> (r \<noteq> FS_RESULT_IO_ERROR \<longrightarrow> ramv.good s')" by blast
qed

interpretation metam: op_machine fs_exec "\<lambda>r. r = FS_RESULT_IO_ERROR" "\<lambda>op. \<not> is_append op" metav.good
proof unfold_locales
  fix st :: "'a fs" and op
  assume g: "metav.good st" and ok: "\<not> is_append op"
  obtain r st' where e: "fs_exec op st = Some (r, st')" using metav.exec_returns [OF g ok] by blast
  with metav.exec_good [OF g e] show "\<exists>r s'. fs_exec op st = Some (r, s') \<and> (r \<noteq> FS_RESULT_IO_ERROR \<longrightarrow> metav.good s')" by blast
qed

text \<open>
  C2: With the RAM backend every operation returns, and every sequence of operations none of which reports
  an I/O error leaves a well-formed file system: paths normalised and unique, every object inside a directory,
  the current directory an existing directory, and the contents of different files in different heap blocks.
  Appended pieces are taken below 2 GiB, where the size check of the append cannot wrap around.
\<close>

theorem filesystem_ram_invariant:
  assumes "ram_good st" "list_all ram_op_ok ops"
  shows "\<exists>rs st'. run_ops fs_exec (\<lambda>r. r = FS_RESULT_IO_ERROR) ops st = Some (rs, st')
     \<and> (list_all (\<lambda>r. r \<noteq> FS_RESULT_IO_ERROR) rs \<longrightarrow> ram_good st' \<and> length rs = length ops)"
  using ramm.run_inv [of st ops] assms by (simp add: ram_good_iff)

definition demo_ops :: "fs_op list" where
  "demo_ops = [Fs_create_directory (Some ''a/b''), Fs_write_file (Some ''readme.txt'') [1, 2], Fs_append_file (Some ''readme.txt'') [3],
     Fs_copy (Some ''readme.txt'') (Some ''a/b/c''), Fs_move (Some ''a'') (Some ''/temp/z''), Fs_remove (Some ''/temp/z'') True]"

theorem filesystem_ram_invariant_witness:
  "\<exists>rs st'. run_ops fs_exec (\<lambda>r. r = FS_RESULT_IO_ERROR) demo_ops demo_fs = Some (rs, st')
     \<and> (list_all (\<lambda>r. r \<noteq> FS_RESULT_IO_ERROR) rs \<longrightarrow> ram_good st' \<and> length rs = length demo_ops)"
  by (rule filesystem_ram_invariant [OF demo_fs_good(1)]) (simp add: demo_ops_def)

text \<open>
  C8: With the persistent backend, whatever the drive does, a sequence of operations other than appends returns
  and, as long as none reports an I/O error, keeps the cached tree well formed: every object inside a directory,
  paths normalised and unique, the current directory existing.
\<close>

theorem filesystem_disk_invariant:
  assumes "disk_good st" "list_all (\<lambda>op. \<not> is_append op) ops"
  shows "\<exists>rs st'. run_ops fs_exec (\<lambda>r. r = FS_RESULT_IO_ERROR) ops st = Some (rs, st')
     \<and> (list_all (\<lambda>r. r \<noteq> FS_RESULT_IO_ERROR) rs \<longrightarrow> disk_good st' \<and> length rs = length ops)"
  using metam.run_inv [of st ops] assms by (simp add: disk_good_iff)


definition demo_disk_fs :: "(nat \<Rightarrow> sector) fs" where
  "demo_disk_fs = \<lparr>nodes = (replicate FS_MAX_NODES zero_node)[0 := fresh_node [] FS_DIRECTORY], current_directory = ''/'',
     filesystem_persistent_backend = True, filesystem_storage_error = False, fs_heap = heap_init arena, disk = demo_volume, printed = []\<rparr>"

lemma demo_disk_good: "disk_good demo_disk_fs"
proof -
  let ?st = "demo_disk_fs\<lparr>nodes := replicate FS_MAX_NODES zero_node\<rparr>"
  have m: "meta_inv ?st" by (auto simp: meta_inv_def demo_disk_fs_def table_ok_def intro!: ft.keys_uniqueI)
  have "meta_inv (set_node ?st 0 (fresh_node [] FS_DIRECTORY)) \<and> meta_objects (set_node ?st 0 (fresh_node [] FS_DIRECTORY))
      = (meta_objects ?st)([] \<mapsto> (FS_DIRECTORY, length ([] :: u8 list)))"
    by (rule metav.fresh_law [OF m]) (simp_all add: rootos_consts meta_objects_def view_None wf_path_def render_def)
  moreover have "set_node ?st 0 (fresh_node [] FS_DIRECTORY) = demo_disk_fs" by (simp add: demo_disk_fs_def)
  moreover have "meta_objects ?st = Map.empty" by (rule ext) (auto simp: meta_objects_def view_None)
  ultimately have "meta_inv demo_disk_fs" "meta_objects demo_disk_fs = [[] \<mapsto> (FS_DIRECTORY, 0)]" by simp_all
  moreover have "current_directory demo_disk_fs = render []" by (simp add: demo_disk_fs_def render_def)
  ultimately show ?thesis by (auto simp: disk_good_def tree_ok_def cwd_ok_def wf_path_def render_def rootos_consts intro!: exI [of _ "[]"])
qed

definition demo_disk_ops :: "fs_op list" where
  "demo_disk_ops = [Fs_create_file (Some ''/x/y''), Fs_write_file (Some ''/x/y'') [7], Fs_move (Some ''/x'') (Some ''/z''), Fs_list None]"

theorem filesystem_disk_invariant_witness:
  "\<exists>rs st'. run_ops fs_exec (\<lambda>r. r = FS_RESULT_IO_ERROR) demo_disk_ops demo_disk_fs = Some (rs, st')
     \<and> (list_all (\<lambda>r. r \<noteq> FS_RESULT_IO_ERROR) rs \<longrightarrow> disk_good st' \<and> length rs = length demo_disk_ops)"
  by (rule filesystem_disk_invariant [OF demo_disk_good]) (simp add: demo_disk_ops_def)

end
