(* ===== verification/Root_FS_Semantics.thy ===== *)
theory Root_FS_Semantics
  imports Root_FS_Props
begin

text \<open>
  The functional behaviour of each operation of the file system with the RAM backend, on every branch.
\<close>

section \<open>Reading and writing\<close>

lemma ram_read_spec:
  assumes g: "ram_good st" and rs: "root_path_resolve (current_directory st) (Some path) ROOT_PATH_MAX = Some (render p)" and p: "wf_path p"
  shows "filesystem_read_file st (Some path) n = ((case ram_objects st p of
       None \<Rightarrow> if n = 0 then (FS_RESULT_INVALID_PATH, []) else (FS_RESULT_NOT_FOUND, [])
     | Some (FS_DIRECTORY, x) \<Rightarrow> if n = 0 then (FS_RESULT_INVALID_PATH, []) else (FS_RESULT_NOT_FILE, [])
     | Some (FS_FILE, bs) \<Rightarrow> if n = 0 then (FS_RESULT_INVALID_PATH, [])
          else if length bs < n then (FS_RESULT_OK, bs) else (FS_RESULT_NO_SPACE, [])), st)"
  using ramv.good_simps(1) [OF g [folded ram_good_iff]] p
proof (cases rule: ramv.find_cases)
  case (leaf i bs0)
  note inv = ramv.good_simps(1) [OF g [folded ram_good_iff]]
  obtain bs where bs: "ram_objects st p = Some (FS_FILE, bs)" "length bs = node_size (nodes st ! i)"
      "backend_read_file st i (n - 1) = (if length bs \<le> n - 1 then Some bs else None, st)"
    using ram_read_law [OF inv leaf(2-4)] by blast
  have sz: "u32_add (node_size (nodes st ! i)) 1 = length bs + 1"
    using ram_size_bound [OF inv leaf(2-4)] bs(2) by (simp add: u32_add_def rootos_consts)
  show ?thesis using rs leaf(1,4) bs(1,2) bs(3) [simplified] sz [simplified] by (cases n) (auto simp: filesystem_read_file_def)
qed (use rs in \<open>simp_all add: filesystem_read_file_def\<close>)


text \<open>
  Appending adds the new bytes behind the old contents of the file and changes no other object, unless the
  sum exceeds 64 KiB (reported, nothing changes) or the heap has no room (reported, nothing changes); pieces are
  below 2 GiB. The current directory and everything outside the node table and the heap stay as they are.
\<close>

theorem filesystem_append_correct:
  assumes g: "ram_good st" and p: "wf_path p"
    and rs: "root_path_resolve (current_directory st) (Some path) ROOT_PATH_MAX = Some (render p)" and n: "length bs < 2 ^ 31"
  shows "\<exists>r st'. filesystem_append_file st (Some path) (Some bs) (length bs) = Some (r, st') \<and>
     (case ram_objects st p of
        None \<Rightarrow> r = FS_RESULT_NOT_FOUND \<and> st' = st
      | Some (FS_DIRECTORY, x) \<Rightarrow> r = FS_RESULT_NOT_FILE \<and> st' = st
      | Some (FS_FILE, old) \<Rightarrow>
          if length old + length bs > FS_MAX_FILE_SIZE then r = FS_RESULT_FILE_TOO_LARGE \<and> st' = st
          else (r = FS_RESULT_OK \<and> ram_good st' \<and> framed st st' \<and> ram_objects st' = (ram_objects st)(p \<mapsto> (FS_FILE, old @ bs)))
            \<or> (r = FS_RESULT_NO_SPACE \<and> st' = st))"
  using ram_append_spec [OF g [folded ram_good_iff] rs p n] unfolding ram_good_iff .


text \<open>Concrete paths for the witnesses, resolved from \<open>/home/user\<close>.\<close>

lemma demo_resolve:
  "root_path_resolve ''/home/user'' (Some ''readme.txt'') 512 = Some ''/home/user/readme.txt''"
  "root_path_resolve ''/home/user'' (Some ''bin'') 512 = Some ''/home/user/bin''"
  "root_path_resolve ''/home/user'' (Some ''../../var'') 512 = Some ''/var''"
  "root_path_resolve ''/home/user'' (Some ''/temp/a/b'') 512 = Some ''/temp/a/b''"
  "root_path_resolve ''/home/user'' (Some ''..'') 512 = Some ''/home''"
  by code_simp+

lemma demo_paths:
  "''/home/user/readme.txt'' = render [''home'', ''user'', ''readme.txt'']" "wf_path [''home'', ''user'', ''readme.txt'']"
  "''/home/user/bin'' = render [''home'', ''user'', ''bin'']" "wf_path [''home'', ''user'', ''bin'']"
  "''/var'' = render [''var'']" "wf_path [''var'']"
  "''/temp/a/b'' = render [''temp'', ''a'', ''b'']" "wf_path [''temp'', ''a'', ''b'']"
  "''/home'' = render [''home'']" "wf_path [''home'']"
  by code_simp+

lemma demo_objects:
  "ram_objects demo_fs [''home'', ''user'', ''readme.txt''] = Some (FS_FILE, [])"
  "ram_objects demo_fs [''var''] = Some (FS_DIRECTORY, [])" "ram_objects demo_fs [''home''] = Some (FS_DIRECTORY, [])"
  "ram_objects demo_fs [''temp'', ''a'', ''b''] = None" "ram_objects demo_fs [''home'', ''user'', ''bin''] = Some (FS_DIRECTORY, [])"
  by (simp_all add: demo_fs_good initial_objects_def initial_paths_simp)

lemma demo_at:
  "root_path_resolve (current_directory demo_fs) (Some ''readme.txt'') ROOT_PATH_MAX = Some (render [''home'', ''user'', ''readme.txt''])"
  "root_path_resolve (current_directory demo_fs) (Some ''bin'') ROOT_PATH_MAX = Some (render [''home'', ''user'', ''bin''])"
  "root_path_resolve (current_directory demo_fs) (Some ''../../var'') ROOT_PATH_MAX = Some (render [''var''])"
  "root_path_resolve (current_directory demo_fs) (Some ''/temp/a/b'') ROOT_PATH_MAX = Some (render [''temp'', ''a'', ''b''])"
  "root_path_resolve (current_directory demo_fs) (Some ''..'') ROOT_PATH_MAX = Some (render [''home''])"
  unfolding demo_fs_good rootos_consts demo_paths(1,3,5,7,9) [symmetric] by (fact demo_resolve)+


theorem filesystem_append_correct_witness:
  "\<exists>r st'. filesystem_append_file demo_fs (Some ''readme.txt'') (Some [33]) 1 = Some (r, st')
     \<and> (r = FS_RESULT_NO_SPACE \<or> ram_objects st' [''home'', ''user'', ''readme.txt''] = Some (FS_FILE, [33]))"
proof -
  have "\<not> FS_MAX_FILE_SIZE < length [] + length [33 :: u8]" by (simp add: rootos_consts)
  with filesystem_append_correct [OF demo_fs_good(1) demo_paths(2) demo_at(1), of "[33]"] show ?thesis
    unfolding demo_objects(1) by (auto simp: rootos_consts)
qed


section \<open>The tree operations\<close>

text \<open>\<open>T'\<close> differs from \<open>T\<close> at most by new empty directories on the way to \<open>p\<close>.\<close>

definition dirs_added :: "(path \<Rightarrow> (FsType \<times> u8 list) option) \<Rightarrow> (path \<Rightarrow> (FsType \<times> u8 list) option) \<Rightarrow> path \<Rightarrow> bool" where
  "dirs_added T T' p \<longleftrightarrow> (\<forall>q. T' q = T q \<or> (T q = None \<and> T' q = Some (FS_DIRECTORY, []) \<and> prefix q p))"

lemma grows_dirs: "ramv.grows T T' p \<Longrightarrow> dirs_added T T' p"
  unfolding ramv.grows_def dirs_added_def ram_dirv by blast

text \<open>
  C5: Removing deletes exactly the object and everything below it. The root, and any directory the current
  directory lies in, is refused as busy; a missing object is reported; a directory with anything in it is refused
  unless the removal is recursive; in these cases nothing changes.
\<close>

theorem filesystem_remove_correct:
  assumes g: "ram_good st" and p: "wf_path p" and c: "wf_path c" "current_directory st = render c"
    and rs: "root_path_resolve (current_directory st) path ROOT_PATH_MAX = Some (render p)"
    and r: "filesystem_remove st path recursive = (r, st')"
  shows "if p = [] \<or> (ram_objects st p \<noteq> None \<and> prefix p c) then r = FS_RESULT_BUSY \<and> st' = st
     else if ram_objects st p = None then r = FS_RESULT_NOT_FOUND \<and> st' = st
     else if \<not> recursive \<and> (\<exists>q. strict_prefix p q \<and> ram_objects st q \<noteq> None) then r = FS_RESULT_DIRECTORY_NOT_EMPTY \<and> st' = st
     else r = FS_RESULT_OK \<and> ram_good st' \<and> framed st st' \<and> ram_objects st' = (\<lambda>q. if prefix p q then None else ram_objects st q)"
  using ramv.remove_spec [OF g [folded ram_good_iff] r rs p c(2,1)] ram_backend [OF g]
  unfolding ram_good_iff by (auto split: if_splits)

theorem filesystem_remove_correct_witness:
  "(\<exists>st'. filesystem_remove demo_fs (Some ''../../var'') True = (FS_RESULT_OK, st') \<and> ram_good st'
     \<and> ram_objects st' [''var'', ''log''] = None \<and> ram_objects st' [''home''] = Some (FS_DIRECTORY, []))
   \<and> filesystem_remove demo_fs (Some ''..'') True = (FS_RESULT_BUSY, demo_fs)"
proof -
  have c: "wf_path [''home'', ''user'']" "current_directory demo_fs = render [''home'', ''user'']"
    using home_wf by (simp_all add: demo_fs_good render_def)
  obtain r st' where 1: "filesystem_remove demo_fs (Some ''../../var'') True = (r, st')" by (meson surj_pair)
  obtain r2 st2 where 2: "filesystem_remove demo_fs (Some ''..'') True = (r2, st2)" by (meson surj_pair)
  show ?thesis
    using filesystem_remove_correct [OF demo_fs_good(1) demo_paths(6) c demo_at(3) 1]
      filesystem_remove_correct [OF demo_fs_good(1) demo_paths(10) c demo_at(5) 2] 1 2 demo_objects by simp
qed

context tree_view begin

lemma moved_pointwise:
  assumes cl: "closed V" and V1: "closed V1" "grows V V1 (butlast d)" "V1 (butlast d) = Some dirv"
    and s: "V s \<noteq> None" and d: "V d = None" and ns: "\<not> (V s = Some dirv \<and> prefix s d)"
  shows "relocate V1 s d {z. V (s @ z) \<noteq> None} (d @ z) = V (s @ z)" "relocate V1 s d {z. V (s @ z) \<noteq> None} (s @ z) = None"
    "\<not> prefix s q \<Longrightarrow> \<not> prefix d q \<Longrightarrow> relocate V1 s d {z. V (s @ z) \<noteq> None} q = V1 q"
    "duplicate V1 s d {z. V (s @ z) \<noteq> None} (d @ z) = V (s @ z)" "\<not> prefix d q \<Longrightarrow> duplicate V1 s d {z. V (s @ z) \<noteq> None} q = V1 q"
proof -
  have d0: "d \<noteq> []" using cl d by (auto simp: closed_def)
  note ts = transfer_start [OF cl V1(2,1,3) s d d0, rotated]
  have ns': "V s = Some dirv \<Longrightarrow> \<not> prefix s d" using ns by blast
  have M: "x \<in> {z. V (s @ z) \<noteq> None} \<longleftrightarrow> V1 (s @ x) \<noteq> None" for x using ts(4) ns' by auto
  note ra = relocate_at [OF ts(1) M ts(3)]
  show "relocate V1 s d {z. V (s @ z) \<noteq> None} (d @ z) = V (s @ z)" "relocate V1 s d {z. V (s @ z) \<noteq> None} (s @ z) = None"
    "\<not> prefix s q \<Longrightarrow> \<not> prefix d q \<Longrightarrow> relocate V1 s d {z. V (s @ z) \<noteq> None} q = V1 q"
    using ra ts(4) ns' by auto
  show "duplicate V1 s d {z. V (s @ z) \<noteq> None} (d @ z) = V (s @ z)" using ts(3,4) [of z] ns' by (auto simp: duplicate_def)
  show "\<not> prefix d q \<Longrightarrow> duplicate V1 s d {z. V (s @ z) \<noteq> None} q = V1 q" by (simp add: duplicate_def)
qed

end







end
