(* ===== verification/Root_FS_Queries.thy ===== *)
theory Root_FS_Queries
  imports Root_FS_Semantics
begin

text \<open>
  Creation, navigation, listing and counting with the RAM backend.
\<close>

section \<open>Creation\<close>

lemma ram_create_no_io:
  assumes g: "ramv.good st" and p: "wf_path p" "length (render p) < ROOT_PATH_MAX"
    and rs: "root_path_resolve (current_directory st) (Some path) ROOT_PATH_MAX = Some (render p)"
  shows "fst (filesystem_create_directory st (Some path)) \<noteq> FS_RESULT_IO_ERROR" "fst (filesystem_create_file st (Some path)) \<noteq> FS_RESULT_IO_ERROR"
proof -
  note inv = ramv.good_simps(1) [OF g] and cl = ramv.good_simps(2) [OF g]
  have np: "\<not> filesystem_persistent_backend st" using inv by (simp add: ram_inv_def)
  have es: "fst (ensure_directory_absolute st (render q)) \<noteq> FS_RESULT_IO_ERROR \<and> ram_inv (snd (ensure_directory_absolute st (render q)))"
    if "wf_path q" "length (render q) < ROOT_PATH_MAX" for q
    using ramv.ensure_spec [OF inv that cl surjective_pairing] np by (auto simp: ramv.ensured_def)
  show "fst (filesystem_create_directory st (Some path)) \<noteq> FS_RESULT_IO_ERROR"
    using es [OF p] rs by (simp add: filesystem_create_directory_def)
  obtain r1 st1 where e: "ensure_directory_absolute st (render (butlast p)) = (r1, st1)" by (meson surj_pair)
  have i1: "ram_inv st1" "r1 \<noteq> FS_RESULT_IO_ERROR" using es [OF wf_path_butlast [OF p(1)] ramv.butlast_short [OF p(2)]] e by simp_all
  have "fst (add_node_absolute st1 (render p) FS_FILE) \<noteq> FS_RESULT_IO_ERROR"
    using ramv.add_view [OF i1(1) p surjective_pairing, of FS_FILE] i1(1) by (auto simp: ram_inv_def split: if_splits)
  then show "fst (filesystem_create_file st (Some path)) \<noteq> FS_RESULT_IO_ERROR"
    using rs e i1(2) p by (simp add: filesystem_create_file_def get_parent_path_render Let_def)
qed

text \<open>
  Creating a file creates the missing parent directories and an empty file and nothing else, creating a
  directory the missing directories of the path; the root as a file and existing objects are refused without any
  change; when a parent is a file or the table of 256 nodes is full this is reported and at most new empty
  directories on the way remain. The tree stays well formed in every case.
\<close>

theorem filesystem_create_correct:
  assumes g: "ram_good st" and p: "wf_path p" and ne: "chead path \<noteq> NUL"
    and rs: "root_path_resolve (current_directory st) (Some path) ROOT_PATH_MAX = Some (render p)"
    and f: "filesystem_create_file st (Some path) = (r, st')" and d: "filesystem_create_directory st (Some path) = (r2, st2)"
  shows "(if p = [] then r = FS_RESULT_INVALID_PATH \<and> st' = st
      else if ram_objects st p \<noteq> None then r = FS_RESULT_ALREADY_EXISTS \<and> st' = st
      else if r = FS_RESULT_OK then
        \<exists>T. dirs_added (ram_objects st) T (butlast p) \<and> T (butlast p) = Some (FS_DIRECTORY, []) \<and> ram_objects st' = T(p \<mapsto> (FS_FILE, []))
      else r \<in> {FS_RESULT_NOT_DIRECTORY, FS_RESULT_NO_SPACE} \<and> dirs_added (ram_objects st) (ram_objects st') (butlast p))
     \<and> (if ram_objects st p \<noteq> None then r2 = FS_RESULT_ALREADY_EXISTS \<and> st2 = st
        else dirs_added (ram_objects st) (ram_objects st2) p \<and>
          (if r2 = FS_RESULT_OK then ram_objects st2 p = Some (FS_DIRECTORY, []) else r2 \<in> {FS_RESULT_NOT_DIRECTORY, FS_RESULT_NO_SPACE}))
     \<and> ram_good st' \<and> ram_good st2"
proof -
  have rg: "ramv.good st" using g by (simp add: ram_good_iff)
  have ds: "length (render p) < ROOT_PATH_MAX" by (rule ram_resolve_short [OF g rs])
  note cf = ramv.create_file_spec [OF rg f ne rs p ds, unfolded ram_dirv ram_good_iff]
  note cd = ramv.create_directory_spec [OF rg d ne rs p ds, unfolded ram_dirv ram_good_iff]
  have io: "r \<noteq> FS_RESULT_IO_ERROR" "r2 \<noteq> FS_RESULT_IO_ERROR" using ram_create_no_io [OF rg p ds rs] f d by simp_all
  have fl: "if p = [] then r = FS_RESULT_INVALID_PATH \<and> st' = st
      else if ram_objects st p \<noteq> None then r = FS_RESULT_ALREADY_EXISTS \<and> st' = st
      else if r = FS_RESULT_OK then
        \<exists>T. dirs_added (ram_objects st) T (butlast p) \<and> T (butlast p) = Some (FS_DIRECTORY, []) \<and> ram_objects st' = T(p \<mapsto> (FS_FILE, []))
      else r \<in> {FS_RESULT_NOT_DIRECTORY, FS_RESULT_NO_SPACE} \<and> dirs_added (ram_objects st) (ram_objects st') (butlast p)"
  proof (cases "p \<noteq> [] \<and> ram_objects st p = None \<and> r = FS_RESULT_OK")
    case True
    with cf obtain V where "ramv.grows (ram_objects st) V (butlast p)" "V (butlast p) = Some (FS_DIRECTORY, [])"
      "ram_objects st' = V(p \<mapsto> (FS_FILE, []))" by auto
    with True grows_dirs show ?thesis by auto
  qed (use cf io grows_dirs in \<open>auto split: if_splits\<close>)
  show ?thesis by (intro conjI fl) (use cf cd io grows_dirs in \<open>auto split: if_splits\<close>)
qed


theorem filesystem_create_correct_witness:
  "\<exists>r st' r2 st2. filesystem_create_file demo_fs (Some ''/temp/a/b'') = (r, st') \<and> filesystem_create_directory demo_fs (Some ''/temp/a/b'') = (r2, st2)
     \<and> (r = FS_RESULT_OK \<longrightarrow> ram_objects st' [''temp'', ''a'', ''b''] = Some (FS_FILE, []))
     \<and> (r2 = FS_RESULT_OK \<longrightarrow> ram_objects st2 [''temp'', ''a'', ''b''] = Some (FS_DIRECTORY, [])) \<and> ram_good st' \<and> ram_good st2"
proof -
  obtain r st' where 1: "filesystem_create_file demo_fs (Some ''/temp/a/b'') = (r, st')" by (meson surj_pair)
  obtain r2 st2 where 2: "filesystem_create_directory demo_fs (Some ''/temp/a/b'') = (r2, st2)" by (meson surj_pair)
  have ne: "chead ''/temp/a/b'' \<noteq> NUL" by simp
  show ?thesis
    using filesystem_create_correct [OF demo_fs_good(1) demo_paths(8) ne demo_at(4) 1 2] 1 2 unfolding demo_objects by (auto split: if_splits)
qed


section \<open>Navigation\<close>

text \<open>
  The queries tell what the tree holds: existence, being a directory and the size of a file are those of the
  object at the resolved path, and the current directory changes exactly to directories; no query changes an object.
\<close>

theorem filesystem_navigation_correct:
  assumes g: "ram_good st" and p: "wf_path p"
    and rs: "root_path_resolve (current_directory st) (Some path) ROOT_PATH_MAX = Some (render p)"
  shows "(filesystem_exists st (Some path) \<longleftrightarrow> ram_objects st p \<noteq> None)
     \<and> (filesystem_is_directory st (Some path) \<longleftrightarrow> ram_objects st p = Some (FS_DIRECTORY, []))
     \<and> filesystem_file_size st (Some path) = (case ram_objects st p of Some (FS_FILE, bs) \<Rightarrow> Some (length bs) | _ \<Rightarrow> None)
     \<and> filesystem_change_directory st (Some path) =
         (if ram_objects st p = Some (FS_DIRECTORY, []) then (True, st\<lparr>current_directory := render p\<rparr>) else (False, st))
     \<and> ram_good (snd (filesystem_change_directory st (Some path)))
     \<and> ram_objects (snd (filesystem_change_directory st (Some path))) = ram_objects st"
proof -
  have rg: "ramv.good st" using g by (simp add: ram_good_iff)
  have ds: "length (render p) < ROOT_PATH_MAX" by (rule ram_resolve_short [OF g rs])
  note ex = ramv.exists_spec [OF rg rs p, unfolded ram_dirv]
  note cd = ramv.change_directory_spec [OF rg rs p ds, unfolded ram_dirv ram_good_iff]
  have sz: "filesystem_file_size st (Some path) = (case ram_objects st p of Some (FS_FILE, bs) \<Rightarrow> Some (length bs) | _ \<Rightarrow> None)"
  proof (cases "ram_objects st p")
    case (Some v)
    obtain t x where v: "v = (t, x)" by (cases v)
    show ?thesis
    proof (cases t)
      case FS_DIRECTORY
      then have "x = []" using ram_dir [of st p x] Some v g by (simp add: ram_good_def)
      then show ?thesis using ex(4) Some v FS_DIRECTORY by simp
    qed (use ex(3) Some v in auto)
  qed (use ex(4) in simp)
  show ?thesis using ex(1,2) cd g sz by auto
qed

theorem filesystem_navigation_correct_witness:
  "filesystem_is_directory demo_fs (Some ''bin'') \<and> filesystem_file_size demo_fs (Some ''readme.txt'') = Some 0
     \<and> filesystem_change_directory demo_fs (Some ''/temp/a/b'') = (False, demo_fs)"
  using filesystem_navigation_correct [OF demo_fs_good(1) demo_paths(4) demo_at(2)]
    filesystem_navigation_correct [OF demo_fs_good(1) demo_paths(2) demo_at(1)]
    filesystem_navigation_correct [OF demo_fs_good(1) demo_paths(8) demo_at(4)] unfolding demo_objects by simp

section \<open>Listing and counting\<close>

context slot_table begin

lemma keys_unique_Cons: "keys_unique (x # xs) \<Longrightarrow> keys_unique xs \<and> (used_of x \<longrightarrow> key_of x \<notin> holds xs)"
proof (intro conjI impI)
  assume u: "keys_unique (x # xs)"
  show "keys_unique xs"
    by (rule keys_uniqueI) (use keys_uniqueD [OF u, of "Suc _" "Suc _"] in force)
  show "key_of x \<notin> holds xs" if "used_of x"
  proof
    assume "key_of x \<in> holds xs"
    then obtain j where "j < length xs" "used_of (xs ! j)" "key_of (xs ! j) = key_of x" by (force simp: holds_def in_set_conv_nth)
    then show False using keys_uniqueD [OF u, of 0 "Suc j"] that by simp
  qed
qed

lemma distinct_keys: "keys_unique xs \<Longrightarrow> distinct (map key_of (filter used_of xs))"
  by (induction xs) (auto dest!: keys_unique_Cons simp: holds_def)

lemma usage_split: "usage xs + length (filter (\<lambda>x. \<not> used_of x) xs) = length xs"
  unfolding usage_def by (induction xs) auto

lemma usage_card: "keys_unique xs \<Longrightarrow> usage xs = card (holds xs)"
  using distinct_card [OF distinct_keys [of xs]] by (simp add: usage_def holds_def)

end

lemma map_filter_if: "List.map_filter (\<lambda>x. if P x then Some (g x) else None) xs = map g (filter P xs)"
  by (induction xs) (simp_all add: List.map_filter_def)

definition list_line :: "(path \<Rightarrow> (FsType \<times> 'c) option) \<Rightarrow> path \<Rightarrow> string \<Rightarrow> string" where
  "list_line T p c = c @ (case T (p @ [c]) of Some (FS_DIRECTORY, x) \<Rightarrow> ''/'' | _ \<Rightarrow> []) @ ''\<newline>''"

lemma table_children:
  assumes t: "table_ok ns" and p: "wf_path p"
  defines "kids \<equiv> filter (\<lambda>nd. node_used nd \<and> root_path_is_direct_child (render p) (node_path nd)) ns"
  defines "cs \<equiv> map (\<lambda>nd. root_path_basename (Some (node_path nd))) kids"
  shows "nd \<in> set kids \<Longrightarrow> named nd (p @ [root_path_basename (Some (node_path nd))])"
    "distinct cs" "set cs = {c. view f ns (p @ [c]) \<noteq> None}"
proof -
  have nm: "named nd (p @ [root_path_basename (Some (node_path nd))])" if "nd \<in> set kids" for nd
  proof -
    have nd: "nd \<in> set ns" "node_used nd" "root_path_is_direct_child (render p) (node_path nd)" using that by (auto simp: kids_def)
    then obtain q where q: "named nd q" using t by (auto simp: table_ok_def node_ok_def)
    then obtain c where "q = p @ [c]" using nd(3) p by (auto simp: named_def root_path_is_direct_child_render)
    then show ?thesis using q by (auto simp: named_def root_path_basename_render)
  qed
  then show "nd \<in> set kids \<Longrightarrow> named nd (p @ [root_path_basename (Some (node_path nd))])" .
  have "distinct (map node_path (filter node_used ns))" using t ft.distinct_keys by (simp add: table_ok_def)
  from distinct_map_filter [OF this, of "\<lambda>nd. root_path_is_direct_child (render p) (node_path nd)"]
  have "distinct (map node_path kids)" by (simp add: kids_def)
  moreover have "map node_path kids = map (\<lambda>c. render (p @ [c])) cs" using nm by (simp add: cs_def named_def)
  ultimately show "distinct cs" by (simp add: distinct_map)
  show "set cs = {c. view f ns (p @ [c]) \<noteq> None}"
  proof (intro set_eqI iffI)
    fix c
    assume "c \<in> set cs"
    then obtain nd where "nd \<in> set ns" "named nd (p @ [c])" using nm by (auto simp: cs_def kids_def)
    then show "c \<in> {c. view f ns (p @ [c]) \<noteq> None}" by (auto simp: view_None)
  next
    fix c
    assume "c \<in> {c. view f ns (p @ [c]) \<noteq> None}"
    then obtain nd where nd: "nd \<in> set ns" "named nd (p @ [c])" by (auto simp: view_None)
    then have "nd \<in> set kids" "root_path_basename (Some (node_path nd)) = c"
      using p by (auto simp: kids_def named_def root_path_is_direct_child_render root_path_basename_render)
    then show "c \<in> set cs" by (auto simp: cs_def)
  qed
qed


text \<open>
  Listing a directory prints one line per object directly inside it, each exactly once (the last component
  of its path, with a slash if it is a directory), or \<open>(vacio)\<close> if there is none; objects deeper in the tree and
  siblings of the directory do not appear. Anything but a directory is refused, and the tree does not change.
\<close>

theorem filesystem_list_correct:
  assumes g: "ram_good st" and p: "wf_path p"
    and rs: "root_path_resolve (current_directory st) path ROOT_PATH_MAX = Some (render p)"
  shows "if ram_objects st p = Some (FS_DIRECTORY, []) then
       \<exists>cs. distinct cs \<and> set cs = {c. ram_objects st (p @ [c]) \<noteq> None} \<and>
         filesystem_list st path = (True, st\<lparr>printed := printed st
           @ (if cs = [] then ''(vacio)\<newline>'' else concat (map (list_line (ram_objects st) p) cs))\<rparr>)
     else filesystem_list st path = (False, st)"
  using ramv.good_simps(1) [OF g [folded ram_good_iff]] p
proof (cases rule: ramv.find_cases)
  case (dir i)
  note inv = ramv.good_simps(1) [OF g [folded ram_good_iff]]
  have t: "table_ok (nodes st)" using inv by (simp add: ram_inv_def)
  let ?f = "\<lambda>nd. (node_type nd, content (fs_heap st) nd)"
  let ?P = "\<lambda>nd. node_used nd \<and> root_path_is_direct_child (render p) (node_path nd)"
  let ?kids = "filter ?P (nodes st)" and ?b = "\<lambda>nd. root_path_basename (Some (node_path nd))"
  note tc = table_children [OF t p]
  have line: "list_line (ram_objects st) p (?b nd) = ?b nd @ (if node_type nd = FS_DIRECTORY then ''/'' else []) @ ''\<newline>''" if k: "nd \<in> set ?kids" for nd
  proof -
    obtain j where j: "j < FS_MAX_NODES" "nodes st ! j = nd" using k table_length [OF t] by (auto simp: in_set_conv_nth)
    have "view ?f (nodes st) (p @ [?b nd]) = Some (?f nd)" using view_at [OF t j(1), of "p @ [?b nd]" ?f] tc(1) [OF k] j(2) by simp
    then show ?thesis by (cases "node_type nd") (simp_all add: list_line_def ram_objects_def)
  qed
  have "List.map_filter (list_entry (render p)) (nodes st) = map (\<lambda>nd. ?b nd @ (if node_type nd = FS_DIRECTORY then ''/'' else []) @ ''\<newline>'') ?kids"
    unfolding list_entry_def by (rule map_filter_if)
  also have "\<dots> = map (list_line (ram_objects st) p) (map ?b ?kids)" using line by (simp del: set_filter)
  finally have e: "List.map_filter (list_entry (render p)) (nodes st) = map (list_line (ram_objects st) p) (map ?b ?kids)" .
  have li: "filesystem_list st path = (True, st\<lparr>printed := printed st
      @ (if map ?b ?kids = [] then ''(vacio)\<newline>'' else concat (map (list_line (ram_objects st) p) (map ?b ?kids)))\<rparr>)"
    using dir(1,4) rs by (simp add: filesystem_list_def Let_def e)
  have se: "set (map ?b ?kids) = {c. ram_objects st (p @ [c]) \<noteq> None}" unfolding ram_objects_def by (rule tc(3))
  have "ram_objects st p = Some (FS_DIRECTORY, [])" using dir(5) by simp
  then show ?thesis by (subst if_P, assumption, intro exI [of _ "map ?b ?kids"] conjI tc(2) se li)
qed (use rs in \<open>simp_all add: filesystem_list_def\<close>)

theorem filesystem_list_correct_witness:
  "\<exists>cs. distinct cs \<and> set cs = {c. ram_objects demo_fs ([''var''] @ [c]) \<noteq> None} \<and>
     filesystem_list demo_fs (Some ''../../var'') = (True, demo_fs\<lparr>printed := printed demo_fs
       @ (if cs = [] then ''(vacio)\<newline>'' else concat (map (list_line (ram_objects demo_fs) [''var'']) cs))\<rparr>)"
  using filesystem_list_correct [OF demo_fs_good(1) demo_paths(6) demo_at(3)] demo_objects(2) by simp

lemma ram_dom: "p \<in> dom (ram_objects st) \<longleftrightarrow> (\<exists>nd\<in>set (nodes st). named nd p)"
  using view_None [of "\<lambda>nd. (node_type nd, content (fs_heap st) nd)" "nodes st" p] by (auto simp: ram_objects_def)

text \<open>
  The node table accounts for every object: used and free nodes add up to 256, and the number of used nodes
  is the number of objects in the tree.
\<close>

theorem filesystem_counts_correct:
  assumes "ram_good st"
  shows "filesystem_node_count st + filesystem_free_node_count st = FS_MAX_NODES
     \<and> filesystem_node_count st = card (dom (ram_objects st))"
proof -
  have t: "table_ok (nodes st)" using assms by (simp add: ram_good_def ram_inv_def)
  have "bij_betw render (dom (ram_objects st)) (ft.holds (nodes st))"
  proof (rule bij_betwI')
    fix p q
    assume "p \<in> dom (ram_objects st)" "q \<in> dom (ram_objects st)"
    then have "wf_path p" "wf_path q" by (auto simp: ram_objects_def view_def split: if_splits)
    then show "render p = render q \<longleftrightarrow> p = q" using render_inj by blast
  next
    fix p
    assume "p \<in> dom (ram_objects st)"
    then obtain nd where "nd \<in> set (nodes st)" "named nd p" unfolding ram_dom by blast
    then show "render p \<in> ft.holds (nodes st)" by (force simp: ft.holds_def named_def)
  next
    fix k
    assume "k \<in> ft.holds (nodes st)"
    then obtain nd where nd: "nd \<in> set (nodes st)" "node_used nd" "k = node_path nd" by (auto simp: ft.holds_def)
    then obtain p where "named nd p" using t by (auto simp: table_ok_def node_ok_def)
    then have "k = render p" "named nd p" using nd(3) by (simp_all add: named_def)
    note nd = nd(1) this
    then show "\<exists>p\<in>dom (ram_objects st). k = render p" using ram_dom nd by blast
  qed
  then have "card (dom (ram_objects st)) = ft.usage (nodes st)"
    using ft.usage_card [of "nodes st"] t by (simp add: bij_betw_same_card table_ok_def)
  then show ?thesis using ft.usage_split [of "nodes st"] table_length [OF t]
    by (simp add: filesystem_node_count_def filesystem_free_node_count_def count_free_nodes_def ft.usage_def)
qed

theorem filesystem_counts_correct_witness:
  "filesystem_node_count demo_fs + filesystem_free_node_count demo_fs = FS_MAX_NODES \<and> filesystem_node_count demo_fs = card (dom initial_objects)"
  using filesystem_counts_correct [OF demo_fs_good(1)] demo_fs_good(2) by simp

end
