(* ===== verification/Root_Net_Wire.thy ===== *)
theory Root_Net_Wire
  imports Root_Prelude
begin

text \<open>
  Bytes on the wire (\<open>src/source/network/net.c\<close>, and the checksum routines of \<open>ipv4.c\<close>, \<open>udp.c\<close> and
  \<open>tcp.c\<close>). A packet is the list of its bytes. \<open>net_read_be16\<close>, \<open>net_read_be32\<close> read at the head of the
  bytes a pointer addresses; \<open>net_write_be16\<close>, \<open>net_write_be32\<close> yield the bytes the C routines store, and a
  packed header is the concatenation of its fields. The Internet checksum is computed on natural numbers with
  the carry folding the code has; \<open>fold_carry_closed\<close> gives its value, the representative of the sum modulo
  65535, and \<open>checksum_verifies\<close> that a message with its own checksum filled in sums to all ones.
\<close>

unbundle bit_operations_syntax

named_theorems wire_simps "how the readers act on the bytes the writers produce"

section \<open>Big-endian fields\<close>

definition net_read_be16 :: "u8 list \<Rightarrow> u16" where
  "net_read_be16 d = (push_bit 8 (ucast (d ! 0)) OR ucast (d ! 1))"

definition net_read_be32 :: "u8 list \<Rightarrow> u32" where
  "net_read_be32 d = (push_bit 24 (ucast (d ! 0)) OR push_bit 16 (ucast (d ! 1)) OR push_bit 8 (ucast (d ! 2)) OR ucast (d ! 3))"

definition net_write_be16 :: "u16 \<Rightarrow> u8 list" where
  "net_write_be16 v = [ucast (drop_bit 8 v), ucast (v AND 0xFF)]"

definition net_write_be32 :: "u32 \<Rightarrow> u8 list" where
  "net_write_be32 v = [ucast (drop_bit 24 v), ucast (drop_bit 16 v AND 0xFF), ucast (drop_bit 8 v AND 0xFF), ucast (v AND 0xFF)]"

lemma length_write_be16 [simp]: "length (net_write_be16 v) = 2"
  by (simp add: net_write_be16_def)

lemma length_write_be32 [simp]: "length (net_write_be32 v) = 4"
  by (simp add: net_write_be32_def)

lemma and_byte_mask: "x AND 0xFF = take_bit 8 (x :: 'a::len word)"
proof -
  have "(0xFF :: 'a word) = mask 8" by (simp add: mask_eq_exp_minus_1)
  then show ?thesis by (simp add: take_bit_eq_mask)
qed

lemma bit_byte_range: "bit (b :: u8) n \<Longrightarrow> n < 8"
  using bit_imp_le_length [of b n] by simp

lemma read_write_be16 [wire_simps]: "net_read_be16 (net_write_be16 v @ r) = v"
proof (rule bit_word_eqI)
  fix n
  assume "n < LENGTH(16)"
  then show "bit (net_read_be16 (net_write_be16 v @ r)) n = bit v n"
    by (cases "n < 8") (auto simp: net_read_be16_def net_write_be16_def and_byte_mask bit_simps)
qed

lemma read_write_be32 [wire_simps]: "net_read_be32 (net_write_be32 v @ r) = v"
proof (rule bit_word_eqI)
  fix n
  assume n: "n < LENGTH(32)"
  consider "n < 8" | "8 \<le> n" "n < 16" | "16 \<le> n" "n < 24" | "24 \<le> n" "n < 32" using n by force
  then show "bit (net_read_be32 (net_write_be32 v @ r)) n = bit v n"
    by cases (auto simp: net_read_be32_def net_write_be32_def and_byte_mask bit_simps)
qed

lemma unat_read_be16: "unat (net_read_be16 (h # l # r)) = 256 * unat h + unat l"
proof -
  have "push_bit 8 (ucast h) OR ucast l = (push_bit 8 (ucast h) + ucast l :: u16)"
    by (rule disjunctive_add [symmetric]) (auto simp: bit_simps dest: bit_byte_range)
  moreover have "unat (push_bit 8 (ucast h) + ucast l :: u16) = 256 * unat h + unat l"
    using unat_u8_less [of h] unat_u8_less [of l]
    by (simp add: unat_word_ariths unsigned_ucast_eq push_bit_eq_mult take_bit_eq_mod)
  ultimately show ?thesis by (simp add: net_read_be16_def)
qed

section \<open>The Internet checksum\<close>

text \<open>\<open>while ((sum >> 16) != 0u) sum = (sum & 0xFFFFu) + (sum >> 16);\<close>\<close>

function fold_carry :: "nat \<Rightarrow> nat" where
  "fold_carry acc = (if acc div 65536 \<noteq> 0 then fold_carry (acc mod 65536 + acc div 65536) else acc)"
  by pat_completeness auto

termination
proof (relation "measure (\<lambda>n. n)")
  fix n :: nat
  assume "n div 65536 \<noteq> 0"
  then have "n mod 65536 + n div 65536 < n" using div_mult_mod_eq [of n 65536] by linarith
  then show "(n mod 65536 + n div 65536, n) \<in> measure (\<lambda>n. n)" by simp
qed simp

declare fold_carry.simps [simp del]

text \<open>The loop of \<open>ipv4_checksum\<close> folds the carry after every 16-bit word, those of \<open>udp.c\<close> and \<open>tcp.c\<close>
  (the same routine, declared in both files) after the last one.\<close>

fun ipv4_checksum_loop :: "u8 list \<Rightarrow> nat \<Rightarrow> nat" where
  "ipv4_checksum_loop (a # b # r) acc = ipv4_checksum_loop r (fold_carry (u32_add acc (256 * unat a + unat b)))"
| "ipv4_checksum_loop [a] acc = fold_carry (u32_add acc (256 * unat a))"
| "ipv4_checksum_loop [] acc = acc"

definition ipv4_checksum :: "u8 list \<Rightarrow> u16" where
  "ipv4_checksum d = NOT (word_of_nat (ipv4_checksum_loop d 0))"

fun checksum_loop :: "u8 list \<Rightarrow> nat \<Rightarrow> nat" where
  "checksum_loop (a # b # r) acc = checksum_loop r (u32_add acc (256 * unat a + unat b))"
| "checksum_loop [a] acc = u32_add acc (256 * unat a)"
| "checksum_loop [] acc = acc"

definition checksum_add :: "u8 list \<Rightarrow> nat \<Rightarrow> nat" where
  "checksum_add d acc = fold_carry (checksum_loop d acc)"

definition pseudo_header :: "u32 \<Rightarrow> u32 \<Rightarrow> u8 \<Rightarrow> nat \<Rightarrow> u8 list" where
  "pseudo_header source_ip destination_ip protocol n =
     net_write_be32 source_ip @ net_write_be32 destination_ip @ [0, protocol] @ net_write_be16 (word_of_nat n)"

definition pseudo_sum :: "u32 \<Rightarrow> u32 \<Rightarrow> u8 \<Rightarrow> u8 list \<Rightarrow> nat" where
  "pseudo_sum source_ip destination_ip protocol segment =
     checksum_add segment (checksum_add (pseudo_header source_ip destination_ip protocol (length segment)) 0)"

definition udp_checksum :: "u32 \<Rightarrow> u32 \<Rightarrow> u8 list \<Rightarrow> u16" where
  "udp_checksum source_ip destination_ip segment =
     (let result = NOT (word_of_nat (pseudo_sum source_ip destination_ip 17 segment)) in if result = 0 then 0xFFFF else result)"

definition tcp_checksum :: "u32 \<Rightarrow> u32 \<Rightarrow> u8 list \<Rightarrow> u16" where
  "tcp_checksum source_ip destination_ip segment =
     NOT (word_of_nat (fold_carry (pseudo_sum source_ip destination_ip 6 segment)))"

subsection \<open>Its value\<close>

text \<open>\<open>wire_sum\<close> is the exact sum of the 16-bit words of a message, padded with a zero byte; \<open>ones_sum\<close> picks
  the representative in \<open>1..65535\<close> of a positive number modulo 65535.\<close>

fun wire_sum :: "u8 list \<Rightarrow> nat" where
  "wire_sum (a # b # r) = 256 * unat a + unat b + wire_sum r"
| "wire_sum [a] = 256 * unat a"
| "wire_sum [] = 0"

definition ones_sum :: "nat \<Rightarrow> nat" where
  "ones_sum n = (if n = 0 then 0 else (n - 1) mod 65535 + 1)"

lemma ones_sum_small [simp]: "n \<le> 65535 \<Longrightarrow> ones_sum n = n"
  by (auto simp: ones_sum_def)

lemma ones_sum_le: "ones_sum n \<le> 65535"
  by (simp add: ones_sum_def Suc_le_eq)

lemma ones_sum_mod: "ones_sum n mod 65535 = n mod 65535"
proof (cases n)
  case (Suc k)
  have "Suc (k mod 65535) mod 65535 = Suc k mod 65535" by (rule mod_Suc_eq)
  with Suc show ?thesis by (simp add: ones_sum_def)
qed (simp add: ones_sum_def)

lemma ones_sum_eqI:
  assumes "a mod 65535 = b mod 65535" "a = 0 \<longleftrightarrow> b = 0"
  shows "ones_sum a = ones_sum b"
proof (cases "a = 0")
  case False
  with assms have "b \<noteq> 0" by simp
  from assms(1) obtain p q where "a + 65535 * p = b + 65535 * q" by (auto simp: nat_mod_eq_iff)
  with False \<open>b \<noteq> 0\<close> have "(a - 1) + 65535 * p = (b - 1) + 65535 * q" by simp
  then have "(a - 1) mod 65535 = (b - 1) mod 65535" by (auto simp: nat_mod_eq_iff)
  with False \<open>b \<noteq> 0\<close> show ?thesis by (simp add: ones_sum_def)
qed (use assms in simp)

lemma ones_sum_zero [simp]: "ones_sum n = 0 \<longleftrightarrow> n = 0"
  by (simp add: ones_sum_def)

lemma ones_sum_add [simp]: "ones_sum (ones_sum a + b) = ones_sum (a + b)"
proof (rule ones_sum_eqI)
  show "(ones_sum a + b) mod 65535 = (a + b) mod 65535"
    using ones_sum_mod [of a] by (metis mod_add_left_eq)
qed simp

lemma fold_carry_closed: "fold_carry n = ones_sum n"
proof (induction n rule: fold_carry.induct)
  case (1 n)
  show ?case
  proof (cases "n div 65536 = 0")
    case True
    then have "n \<le> 65535" by (simp add: div_eq_0_iff)
    with True show ?thesis by (simp add: fold_carry.simps [of n])
  next
    case False
    have "n mod 65536 + n div 65536 + 65535 * (n div 65536) = n + 65535 * 0"
      using div_mult_mod_eq [of n 65536] by linarith
    then have "(n mod 65536 + n div 65536) mod 65535 = n mod 65535"
      unfolding nat_mod_eq_iff by blast
    moreover have "n mod 65536 + n div 65536 = 0 \<longleftrightarrow> n = 0" using False by auto
    ultimately have "ones_sum (n mod 65536 + n div 65536) = ones_sum n" by (rule ones_sum_eqI)
    with 1 False show ?thesis by (simp add: fold_carry.simps [of n])
  qed
qed

lemma wire_sum_append: "even (length a) \<Longrightarrow> wire_sum (a @ b) = wire_sum a + wire_sum b"
  by (induction a rule: wire_sum.induct) auto

lemma wire_sum_le: "wire_sum d \<le> 65535 * ((length d + 1) div 2)"
proof (induction d rule: wire_sum.induct)
  case (1 a b r)
  then show ?case using unat_u8_less [of a] unat_u8_less [of b] by simp
next
  case (2 a)
  then show ?case using unat_u8_less [of a] by simp
qed simp

lemma ipv4_checksum_loop_eq: "acc \<le> 65535 \<Longrightarrow> ipv4_checksum_loop d acc = ones_sum (acc + wire_sum d)"
proof (induction d acc rule: ipv4_checksum_loop.induct)
  case (1 a b r acc)
  then show ?case
    using unat_u8_less [of a] unat_u8_less [of b] ones_sum_le
    by (simp add: fold_carry_closed add.assoc)
next
  case (2 a acc)
  then show ?case using unat_u8_less [of a] by (simp add: fold_carry_closed)
qed simp

lemma checksum_loop_eq: "acc + 65535 * ((length d + 1) div 2) < USIZE_MOD \<Longrightarrow> checksum_loop d acc = acc + wire_sum d"
proof (induction d acc rule: checksum_loop.induct)
  case (1 a b r acc)
  have "u32_add acc (256 * unat a + unat b) = acc + (256 * unat a + unat b)"
    using 1(2) unat_u8_less [of a] unat_u8_less [of b] by simp
  moreover have "checksum_loop r (acc + (256 * unat a + unat b)) = acc + (256 * unat a + unat b) + wire_sum r"
    using 1 unat_u8_less [of a] unat_u8_less [of b] by (simp add: calculation)
  ultimately show ?case by simp
next
  case (2 a acc)
  then show ?case using unat_u8_less [of a] by simp
qed simp

lemma checksum_add_eq: "length d \<le> 65535 \<Longrightarrow> acc \<le> 65535 \<Longrightarrow> checksum_add d acc = ones_sum (acc + wire_sum d)"
  unfolding checksum_add_def fold_carry_closed
  by (subst checksum_loop_eq) auto

subsection \<open>Filling in and verifying\<close>

lemma unat_u16_le: "unat (v :: u16) \<le> 65535"
  using unsigned_less [where ?'a = nat, of v] by simp

lemma wire_sum_be16 [simp]: "wire_sum (net_write_be16 v) = unat v"
proof -
  obtain h l where hl: "net_write_be16 v = [h, l]" by (simp add: net_write_be16_def)
  have "net_read_be16 [h, l] = v" using read_write_be16 [of v "[]"] by (simp add: hl)
  then show ?thesis using unat_read_be16 [of h l "[]"] by (simp add: hl)
qed

lemma unat_not_u16: "n \<le> 65535 \<Longrightarrow> unat (NOT (word_of_nat n :: u16)) = 65535 - n"
proof -
  assume n: "n \<le> 65535"
  have "NOT (word_of_nat n :: u16) = - word_of_nat n - 1" by (simp add: not_eq_complement)
  also have "\<dots> = word_of_nat (65535 - n)" using n by (simp add: of_nat_diff)
  finally have "NOT (word_of_nat n :: u16) = word_of_nat (65535 - n)" .
  moreover have "unat (word_of_nat (65535 - n) :: u16) = 65535 - n" by (simp only: unat_of_nat) simp
  ultimately show ?thesis by (simp only:)
qed

lemma not_u16_zero: "n \<le> 65535 \<Longrightarrow> NOT (word_of_nat n :: u16) = 0 \<longleftrightarrow> n = 65535"
  using unat_not_u16 [of n] by (metis diff_is_0_eq diff_self_eq_0 dual_order.antisym unat_0 unat_eq_zero)

lemma ones_sum_complement: "ones_sum (n + (65535 - ones_sum n)) = 65535"
  using ones_sum_add [of n "65535 - ones_sum n"] ones_sum_le [of n] by simp

lemma ones_sum_full: "ones_sum n = 65535 \<Longrightarrow> ones_sum (n + 65535) = 65535"
  using ones_sum_add [of n 65535] by (simp add: ones_sum_def)

lemma ipv4_checksum_eq: "ipv4_checksum d = NOT (word_of_nat (ones_sum (wire_sum d)))"
  by (simp add: ipv4_checksum_def ipv4_checksum_loop_eq)

lemma ipv4_checksum_zero: "ipv4_checksum d = 0 \<longleftrightarrow> ones_sum (wire_sum d) = 65535"
  by (simp add: ipv4_checksum_eq not_u16_zero ones_sum_le)

lemma wire_sum_field:
  "even (length a) \<Longrightarrow> wire_sum (a @ net_write_be16 v @ b) = wire_sum (a @ net_write_be16 0 @ b) + unat v"
  by (simp add: wire_sum_append)

lemma ipv4_checksum_fill:
  assumes "even (length a)"
  shows "ipv4_checksum (a @ net_write_be16 (ipv4_checksum (a @ net_write_be16 0 @ b)) @ b) = 0"
  unfolding ipv4_checksum_zero
  by (subst wire_sum_field [OF assms]) (simp only: ipv4_checksum_eq unat_not_u16 ones_sum_le ones_sum_complement)

definition pseudo_wire_sum :: "u32 \<Rightarrow> u32 \<Rightarrow> u8 \<Rightarrow> u8 list \<Rightarrow> nat" where
  "pseudo_wire_sum source_ip destination_ip protocol segment =
     wire_sum (pseudo_header source_ip destination_ip protocol (length segment)) + wire_sum segment"

lemma length_pseudo_header [simp]: "length (pseudo_header s d p n) = 12"
  by (simp add: pseudo_header_def)

lemma pseudo_sum_eq: "length segment \<le> 65535 \<Longrightarrow> pseudo_sum s d p segment = ones_sum (pseudo_wire_sum s d p segment)"
  by (simp add: pseudo_sum_def pseudo_wire_sum_def checksum_add_eq ones_sum_le)

lemma pseudo_wire_sum_field:
  "even (length a) \<Longrightarrow> pseudo_wire_sum s d p (a @ net_write_be16 v @ b) = pseudo_wire_sum s d p (a @ net_write_be16 0 @ b) + unat v"
  by (simp add: pseudo_wire_sum_def wire_sum_append)

lemma udp_checksum_fill:
  assumes "even (length a)" "length a + 2 + length b \<le> 65535"
  shows "pseudo_sum s d 17 (a @ net_write_be16 (udp_checksum s d (a @ net_write_be16 0 @ b)) @ b) = 65535"
    and "udp_checksum s d (a @ net_write_be16 0 @ b) \<noteq> 0"
proof -
  let ?n = "pseudo_wire_sum s d 17 (a @ net_write_be16 0 @ b)"
  let ?c = "udp_checksum s d (a @ net_write_be16 0 @ b)"
  have c: "?c = (let r = NOT (word_of_nat (ones_sum ?n)) in if r = 0 then 0xFFFF else r)"
    using assms(2) by (simp add: udp_checksum_def pseudo_sum_eq)
  have u: "unat ?c = (if ones_sum ?n = 65535 then 65535 else 65535 - ones_sum ?n)"
    unfolding c Let_def not_u16_zero [OF ones_sum_le] by (simp add: unat_not_u16 ones_sum_le)
  have "ones_sum (?n + unat ?c) = 65535"
    unfolding u by (simp add: ones_sum_complement ones_sum_full)
  then show "pseudo_sum s d 17 (a @ net_write_be16 ?c @ b) = 65535"
    using assms by (simp add: pseudo_sum_eq pseudo_wire_sum_field [of a s d 17 ?c])
  have "ones_sum ?n \<le> 65535" by (rule ones_sum_le)
  then show "?c \<noteq> 0" using u by (metis diff_is_0_eq le_antisym unat_0 zero_neq_numeral)
qed

lemma tcp_checksum_eq:
  "length segment \<le> 65535 \<Longrightarrow> tcp_checksum s d segment = NOT (word_of_nat (ones_sum (pseudo_wire_sum s d 6 segment)))"
  by (simp add: tcp_checksum_def pseudo_sum_eq fold_carry_closed ones_sum_le)

lemma tcp_checksum_fill:
  assumes "even (length a)" "length a + 2 + length b \<le> 65535"
  shows "tcp_checksum s d (a @ net_write_be16 (tcp_checksum s d (a @ net_write_be16 0 @ b)) @ b) = 0"
proof -
  let ?n = "pseudo_wire_sum s d 6 (a @ net_write_be16 0 @ b)"
  let ?c = "tcp_checksum s d (a @ net_write_be16 0 @ b)"
  have "ones_sum (?n + unat ?c) = 65535"
    using assms(2) ones_sum_complement [of ?n] by (simp add: tcp_checksum_eq unat_not_u16 ones_sum_le)
  then show ?thesis
    using assms by (simp add: tcp_checksum_eq [of "a @ net_write_be16 ?c @ b"] pseudo_wire_sum_field [of a s d 6 ?c] not_u16_zero)
qed

end
