(* ===== verification/Root_Net_Tables.thy ===== *)
theory Root_Net_Tables
  imports Root_Net_Wire
begin

text \<open>
  The two fixed tables of the network stack: the ARP cache of \<open>src/source/network/arp.c\<close> and the port bindings of
  \<open>udp.c\<close>, with their searches over \<open>find_slot\<close>. Both are interpretations of \<open>slot_table\<close>. \<open>arp_ok\<close> and \<open>udp_ok\<close>
  are their invariants. The ARP cache is refined to a finite map from addresses to hardware addresses whose only
  departure from an unbounded map is the entry evicted when the table is full (\<open>arp_lookup_remember\<close>).
\<close>

section \<open>The ARP cache\<close>

record ArpEntry =
  ae_used :: bool
  ae_ipv4 :: u32
  ae_mac :: "u8 list"

record arp_state =
  entries :: "ArpEntry list"
  replacement_index :: nat

abbreviation ARP_TABLE_SIZE :: nat where
  "ARP_TABLE_SIZE \<equiv> 16"

definition blank_entry :: ArpEntry where
  "blank_entry = \<lparr>ae_used = False, ae_ipv4 = 0, ae_mac = replicate 6 0\<rparr>"

definition arp_init :: arp_state where
  "arp_init = \<lparr>entries = replicate ARP_TABLE_SIZE blank_entry, replacement_index = 0\<rparr>"

definition arp_remember :: "u32 \<Rightarrow> u8 list \<Rightarrow> arp_state \<Rightarrow> arp_state" where
  "arp_remember ipv4 mac st =
     (if ipv4 = 0 then st
      else case find_slot (\<lambda>e. ae_used e \<and> ae_ipv4 e = ipv4) (entries st) of
        Some i \<Rightarrow> st\<lparr>entries := (entries st)[i := (entries st ! i)\<lparr>ae_mac := mac\<rparr>]\<rparr>
      | None \<Rightarrow>
          (case find_slot (\<lambda>e. \<not> ae_used e) (entries st) of
             Some i \<Rightarrow> st\<lparr>entries := (entries st)[i := (entries st ! i)\<lparr>ae_used := True, ae_ipv4 := ipv4, ae_mac := mac\<rparr>]\<rparr>
           | None \<Rightarrow>
               (let r = replacement_index st in
                st\<lparr>entries := (entries st)[r := (entries st ! r)\<lparr>ae_used := True, ae_ipv4 := ipv4, ae_mac := mac\<rparr>],
                   replacement_index := (r + 1) mod ARP_TABLE_SIZE\<rparr>)))"

definition arp_lookup :: "u32 \<Rightarrow> arp_state \<Rightarrow> u8 list option" where
  "arp_lookup ipv4 st = map_option (\<lambda>i. ae_mac (entries st ! i)) (find_slot (\<lambda>e. ae_used e \<and> ae_ipv4 e = ipv4) (entries st))"

definition arp_entry_count :: "arp_state \<Rightarrow> nat" where
  "arp_entry_count st = length (filter ae_used (entries st))"

text \<open>\<open>arp_get_entry\<close>, \<open>tcp_get_connection\<close> and \<open>dns_cache_get\<close> count the entries in use up to the wanted one.\<close>

fun nth_used :: "('a \<Rightarrow> bool) \<Rightarrow> nat \<Rightarrow> 'a list \<Rightarrow> 'a option" where
  "nth_used P k [] = None"
| "nth_used P k (x # xs) = (if \<not> P x then nth_used P k xs else if k = 0 then Some x else nth_used P (k - 1) xs)"

definition arp_get_entry :: "nat \<Rightarrow> arp_state \<Rightarrow> ArpEntry option" where
  "arp_get_entry k st = nth_used ae_used k (entries st)"

lemma nth_used_eq: "nth_used P k xs = (if k < length (filter P xs) then Some (filter P xs ! k) else None)"
  by (induction P k xs rule: nth_used.induct) auto

interpretation arpt: slot_table ae_used ae_ipv4 blank_entry
  by unfold_locales (simp add: blank_entry_def)

definition arp_ok :: "arp_state \<Rightarrow> bool" where
  "arp_ok st \<longleftrightarrow> length (entries st) = ARP_TABLE_SIZE \<and> replacement_index st < ARP_TABLE_SIZE \<and> arpt.keys_unique (entries st)
     \<and> list_all (\<lambda>e. length (ae_mac e) = 6 \<and> (ae_used e \<longrightarrow> ae_ipv4 e \<noteq> 0)) (entries st)"

lemma arp_ok_init: "arp_ok arp_init"
  by (auto simp: arp_ok_def arp_init_def blank_entry_def arpt.keys_unique_def list_all_iff)

lemma list_all_update: "list_all P xs \<Longrightarrow> P x \<Longrightarrow> list_all P (xs[i := x])"
  using set_update_subset_insert [of xs i x] by (auto simp: list_all_iff)

lemma arp_lookup_None: "arp_lookup ip st = None \<longleftrightarrow> ip \<notin> arpt.holds (entries st)"
  unfolding arp_lookup_def using arpt.lookup_None [of ip "entries st"] by auto

lemma arp_lookup_Some:
  "arp_ok st \<Longrightarrow> arp_lookup ip st = Some mac \<longleftrightarrow>
     (\<exists>i<ARP_TABLE_SIZE. ae_used (entries st ! i) \<and> ae_ipv4 (entries st ! i) = ip \<and> ae_mac (entries st ! i) = mac)"
  unfolding arp_lookup_def arp_ok_def by (auto simp: arpt.lookup_iff)

text \<open>The slot \<open>arp_remember\<close> writes, and the address it drops from a full table.\<close>

definition arp_slot :: "u32 \<Rightarrow> arp_state \<Rightarrow> nat" where
  "arp_slot ipv4 st =
     (case find_slot (\<lambda>e. ae_used e \<and> ae_ipv4 e = ipv4) (entries st) of
        Some i \<Rightarrow> i
      | None \<Rightarrow> (case find_slot (\<lambda>e. \<not> ae_used e) (entries st) of Some i \<Rightarrow> i | None \<Rightarrow> replacement_index st))"

lemma full_update:
  "(e :: ArpEntry)\<lparr>ae_used := True, ae_ipv4 := ip, ae_mac := mac\<rparr> = \<lparr>ae_used = True, ae_ipv4 = ip, ae_mac = mac\<rparr>"
  by (cases e) simp

lemma option_guard_eq: "(\<And>m. x = Some m \<longleftrightarrow> \<not> v \<and> y = Some m) \<Longrightarrow> x = (if v then None else y)"
  by (cases x; cases y) auto

lemma arp_remember_entries:
  assumes "ipv4 \<noteq> 0"
  shows "entries (arp_remember ipv4 mac st) = (entries st)[arp_slot ipv4 st := \<lparr>ae_used = True, ae_ipv4 = ipv4, ae_mac = mac\<rparr>]"
proof (cases "find_slot (\<lambda>e. ae_used e \<and> ae_ipv4 e = ipv4) (entries st)")
  case (Some i)
  then have "ae_used (entries st ! i) \<and> ae_ipv4 (entries st ! i) = ipv4" by (blast dest: find_slot_SomeD)
  then have "(entries st ! i)\<lparr>ae_mac := mac\<rparr> = \<lparr>ae_used = True, ae_ipv4 = ipv4, ae_mac = mac\<rparr>"
    by (cases "entries st ! i") simp
  with Some assms show ?thesis by (simp add: arp_remember_def arp_slot_def)
next
  case None
  then show ?thesis
    using assms by (simp add: arp_remember_def arp_slot_def Let_def full_update del: find_slot_None split: option.split)
qed

lemma arp_slot_cases:
  assumes "arp_ok st"
  shows "arp_slot ip st < ARP_TABLE_SIZE"
    and "ip \<in> arpt.holds (entries st) \<Longrightarrow> ae_used (entries st ! arp_slot ip st) \<and> ae_ipv4 (entries st ! arp_slot ip st) = ip"
proof -
  show "arp_slot ip st < ARP_TABLE_SIZE"
    using assms unfolding arp_ok_def arp_slot_def
    by (auto dest!: find_slot_in_range simp del: find_slot_None split: option.splits)
  assume "ip \<in> arpt.holds (entries st)"
  then obtain i where "find_slot (\<lambda>e. ae_used e \<and> ae_ipv4 e = ip) (entries st) = Some i"
    using arpt.lookup_None [of ip "entries st"] by (cases "find_slot (\<lambda>e. ae_used e \<and> ae_ipv4 e = ip) (entries st)") blast+
  moreover from this have "ae_used (entries st ! i) \<and> ae_ipv4 (entries st ! i) = ip" by (blast dest: find_slot_SomeD)
  ultimately show "ae_used (entries st ! arp_slot ip st) \<and> ae_ipv4 (entries st ! arp_slot ip st) = ip"
    by (simp add: arp_slot_def)
qed

lemma arp_ok_remember:
  assumes "arp_ok st" "length mac = 6"
  shows "arp_ok (arp_remember ip mac st)"
proof (cases "ip = 0")
  case True
  with assms show ?thesis by (simp add: arp_remember_def)
next
  case False
  let ?x = "\<lparr>ae_used = True, ae_ipv4 = ip, ae_mac = mac\<rparr>" and ?i = "arp_slot ip st"
  note i = arp_slot_cases [OF assms(1), of ip]
  have u: "arpt.keys_unique (entries st)" and l: "length (entries st) = 16" using assms(1) by (simp_all add: arp_ok_def)
  have "arpt.keys_unique ((entries st)[?i := ?x])"
  proof (rule arpt.rekey_unique [OF u])
    fix j
    assume j: "j < length (entries st)" "j \<noteq> ?i" "ae_used (entries st ! j)"
    show "ae_ipv4 (entries st ! j) \<noteq> ae_ipv4 ?x"
    proof
      assume k: "ae_ipv4 (entries st ! j) = ae_ipv4 ?x"
      then have "ip \<in> arpt.holds (entries st)" using j by (force simp: arpt.holds_def)
      from i(2) [OF this] k j i(1) l show False using arpt.keys_uniqueD [OF u, of j ?i] by simp
    qed
  qed (use i l in simp)
  moreover have "replacement_index (arp_remember ip mac st) < 16"
    using assms(1) by (simp add: arp_remember_def arp_ok_def Let_def del: find_slot_None split: option.split)
  ultimately show ?thesis
    using assms False by (simp add: arp_ok_def arp_remember_entries list_all_update)
qed

lemma arp_lookup_remember:
  assumes "arp_ok st" "length mac = 6" "ip \<noteq> 0"
  shows "arp_lookup ip (arp_remember ip mac st) = Some mac"
    and "a \<noteq> ip \<Longrightarrow> arp_lookup a (arp_remember ip mac st) =
      (if ae_used (entries st ! arp_slot ip st) \<and> ae_ipv4 (entries st ! arp_slot ip st) = a then None else arp_lookup a st)"
proof -
  let ?x = "\<lparr>ae_used = True, ae_ipv4 = ip, ae_mac = mac\<rparr>" and ?i = "arp_slot ip st"
  have ok: "arp_ok (arp_remember ip mac st)" by (rule arp_ok_remember [OF assms(1,2)])
  have e: "entries (arp_remember ip mac st) = (entries st)[?i := ?x]" by (rule arp_remember_entries [OF assms(3)])
  have l: "length (entries st) = 16" "arpt.keys_unique (entries st)" using assms(1) by (simp_all add: arp_ok_def)
  note i = arp_slot_cases(1) [OF assms(1), of ip]
  show "arp_lookup ip (arp_remember ip mac st) = Some mac"
    unfolding arp_lookup_Some [OF ok] e using i l by (intro exI [of _ ?i]) simp
  assume a: "a \<noteq> ip"
  let ?v = "ae_used (entries st ! ?i) \<and> ae_ipv4 (entries st ! ?i) = a"
  have nth: "(entries st)[?i := ?x] ! j = (if j = ?i then ?x else entries st ! j)" if "j < 16" for j
    using that l by (simp add: nth_list_update)
  have "arp_lookup a (arp_remember ip mac st) = Some m \<longleftrightarrow> \<not> ?v \<and> arp_lookup a st = Some m" for m
  proof -
    have "arp_lookup a (arp_remember ip mac st) = Some m \<longleftrightarrow>
        (\<exists>j<16. j \<noteq> ?i \<and> ae_used (entries st ! j) \<and> ae_ipv4 (entries st ! j) = a \<and> ae_mac (entries st ! j) = m)"
      unfolding arp_lookup_Some [OF ok] e using a nth by fastforce
    also have "\<dots> \<longleftrightarrow> \<not> ?v \<and> (\<exists>j<16. ae_used (entries st ! j) \<and> ae_ipv4 (entries st ! j) = a \<and> ae_mac (entries st ! j) = m)"
      using arpt.keys_uniqueD [OF l(2), of ?i] l(1) i by metis
    finally show ?thesis by (simp only: arp_lookup_Some [OF assms(1)])
  qed
  then show "arp_lookup a (arp_remember ip mac st) = (if ?v then None else arp_lookup a st)"
    by (rule option_guard_eq)
qed

section \<open>UDP port bindings\<close>

text \<open>The receive handlers the sources bind: \<open>dhcp_udp_receive\<close> in \<open>dhcp.c\<close> and \<open>dns_receive\<close> in \<open>dns.c\<close>.\<close>

datatype RootUdpReceiveHandler = Handler_dhcp_udp_receive | Handler_dns_receive

record UdpBinding =
  ub_used :: bool
  ub_port :: u16
  ub_handler :: "RootUdpReceiveHandler option"
  ub_context :: nat

record udp_state =
  bindings :: "UdpBinding list"
  next_ephemeral :: u16

abbreviation ROOT_UDP_MAX_BINDINGS :: nat where
  "ROOT_UDP_MAX_BINDINGS \<equiv> 8"

abbreviation ROOT_UDP_EPHEMERAL_FIRST :: u16 where
  "ROOT_UDP_EPHEMERAL_FIRST \<equiv> 49152"

abbreviation ROOT_UDP_EPHEMERAL_LAST :: u16 where
  "ROOT_UDP_EPHEMERAL_LAST \<equiv> 65535"

definition blank_binding :: UdpBinding where
  "blank_binding = \<lparr>ub_used = False, ub_port = 0, ub_handler = None, ub_context = 0\<rparr>"

definition udp_init :: udp_state where
  "udp_init = \<lparr>bindings = replicate ROOT_UDP_MAX_BINDINGS blank_binding, next_ephemeral = ROOT_UDP_EPHEMERAL_FIRST\<rparr>"

definition udp_port_bound :: "u16 \<Rightarrow> udp_state \<Rightarrow> bool" where
  "udp_port_bound port st \<longleftrightarrow> port \<noteq> 0 \<and> find_slot (\<lambda>b. ub_used b \<and> ub_port b = port) (bindings st) \<noteq> None"

definition udp_bind :: "u16 \<Rightarrow> RootUdpReceiveHandler option \<Rightarrow> nat \<Rightarrow> udp_state \<Rightarrow> bool \<times> udp_state" where
  "udp_bind port handler ctx st =
     (if port = 0 \<or> handler = None \<or> udp_port_bound port st then (False, st)
      else case find_slot (\<lambda>b. \<not> ub_used b) (bindings st) of
        Some i \<Rightarrow> (True, st\<lparr>bindings := (bindings st)
                    [i := \<lparr>ub_used = True, ub_port = port, ub_handler = handler, ub_context = ctx\<rparr>]\<rparr>)
      | None \<Rightarrow> (False, st))"

definition udp_unbind :: "u16 \<Rightarrow> udp_state \<Rightarrow> udp_state" where
  "udp_unbind port st =
     (case find_slot (\<lambda>b. ub_used b \<and> ub_port b = port) (bindings st) of
        Some i \<Rightarrow> st\<lparr>bindings := (bindings st)[i := blank_binding]\<rparr>
      | None \<Rightarrow> st)"

definition step_ephemeral :: "u16 \<Rightarrow> u16" where
  "step_ephemeral port = (if port = ROOT_UDP_EPHEMERAL_LAST then ROOT_UDP_EPHEMERAL_FIRST else port + 1)"

primrec ephemeral_loop :: "nat \<Rightarrow> udp_state \<Rightarrow> u16 \<times> udp_state" where
  "ephemeral_loop 0 st = (0, st)"
| "ephemeral_loop (Suc attempts) st =
     (let candidate = next_ephemeral st; st' = st\<lparr>next_ephemeral := step_ephemeral candidate\<rparr>
      in if \<not> udp_port_bound candidate st' then (candidate, st') else ephemeral_loop attempts st')"

definition udp_allocate_ephemeral_port :: "udp_state \<Rightarrow> u16 \<times> udp_state" where
  "udp_allocate_ephemeral_port st =
     ephemeral_loop (unat ROOT_UDP_EPHEMERAL_LAST - unat ROOT_UDP_EPHEMERAL_FIRST + 1) st"

interpretation udpt: slot_table ub_used ub_port blank_binding
  by unfold_locales (simp add: blank_binding_def)

definition udp_ok :: "udp_state \<Rightarrow> bool" where
  "udp_ok st \<longleftrightarrow> length (bindings st) = ROOT_UDP_MAX_BINDINGS \<and> udpt.keys_unique (bindings st)
     \<and> list_all (\<lambda>b. ub_used b \<longrightarrow> ub_port b \<noteq> 0 \<and> ub_handler b \<noteq> None) (bindings st)
     \<and> ROOT_UDP_EPHEMERAL_FIRST \<le> next_ephemeral st"

lemma udp_ok_init: "udp_ok udp_init"
  by (auto simp: udp_ok_def udp_init_def blank_binding_def udpt.keys_unique_def list_all_iff)

lemma udp_port_bound_holds: "udp_ok st \<Longrightarrow> udp_port_bound port st \<longleftrightarrow> port \<in> udpt.holds (bindings st)"
  unfolding udp_port_bound_def using udpt.lookup_None [of port "bindings st"]
  by (auto simp: udp_ok_def udpt.holds_def list_all_iff)

lemma udp_ok_bind: "udp_ok st \<Longrightarrow> udp_ok (snd (udp_bind port h c st))"
  using udp_port_bound_holds [of st port]
  by (auto simp: udp_bind_def udp_ok_def list_all_update simp del: find_slot_None
      intro!: udpt.insert_unique dest!: find_slot_in_range split: option.split)

lemma udp_ok_unbind: "udp_ok st \<Longrightarrow> udp_ok (udp_unbind port st)"
  by (auto simp: udp_unbind_def udp_ok_def udpt.clear_unique udpt.blank_unused simp del: find_slot_None
      intro!: list_all_update split: option.split)

text \<open>The candidates run through the whole range; eight bindings cannot block all of them.\<close>

lemma step_ephemeral_unat:
  "ROOT_UDP_EPHEMERAL_FIRST \<le> p \<Longrightarrow> unat (step_ephemeral p) = 49152 + (unat p - 49152 + 1) mod 16384"
proof -
  assume p: "ROOT_UDP_EPHEMERAL_FIRST \<le> p"
  then have ge: "49152 \<le> unat p" by (simp add: word_le_nat_alt)
  show ?thesis
  proof (cases "p = 65535")
    case False
    then have "unat p \<noteq> 65535" using word_unat_eq_iff [of p 65535] by simp
    then have "unat p < 65535" using unat_u16_le [of p] by simp
    then have "unat (p + 1) = unat p + 1" by (simp add: unat_word_ariths)
    with False ge \<open>unat p < 65535\<close> show ?thesis by (simp add: step_ephemeral_def)
  qed (simp add: step_ephemeral_def)
qed

lemma funpow_ephemeral_unat:
  "ROOT_UDP_EPHEMERAL_FIRST \<le> p \<Longrightarrow> unat ((step_ephemeral ^^ i) p) = 49152 + (unat p - 49152 + i) mod 16384"
proof (induction i)
  case 0
  then show ?case using unat_u16_le [of p] by (simp add: word_le_nat_alt)
next
  case (Suc i)
  let ?q = "(step_ephemeral ^^ i) p"
  have "ROOT_UDP_EPHEMERAL_FIRST \<le> ?q" using Suc by (simp add: word_le_nat_alt)
  from step_ephemeral_unat [OF this] Suc show ?case by (simp add: mod_simps)
qed

lemma ephemeral_loop_spec:
  assumes "udp_ok st"
  shows "udp_ok (snd (ephemeral_loop n st)) \<and> bindings (snd (ephemeral_loop n st)) = bindings st \<and>
    (let p = fst (ephemeral_loop n st) in
       p = 0 \<and> (\<forall>i<n. (step_ephemeral ^^ i) (next_ephemeral st) \<in> udpt.holds (bindings st))
     \<or> ROOT_UDP_EPHEMERAL_FIRST \<le> p \<and> p \<notin> udpt.holds (bindings st))"
  using assms
proof (induction n arbitrary: st)
  case (Suc n)
  let ?c = "next_ephemeral st" and ?st = "st\<lparr>next_ephemeral := step_ephemeral (next_ephemeral st)\<rparr>"
  have c: "ROOT_UDP_EPHEMERAL_FIRST \<le> ?c" using Suc.prems by (simp add: udp_ok_def)
  have ok: "udp_ok ?st"
    using Suc.prems step_ephemeral_unat [OF c] by (simp add: udp_ok_def word_le_nat_alt)
  show ?case
  proof (cases "?c \<in> udpt.holds (bindings st)")
    case True
    then have e: "ephemeral_loop (Suc n) st = ephemeral_loop n ?st" using udp_port_bound_holds [OF ok] by (simp add: Let_def)
    have "(\<forall>i<Suc n. (step_ephemeral ^^ i) ?c \<in> udpt.holds (bindings st))
        \<longleftrightarrow> (\<forall>i<n. (step_ephemeral ^^ i) (step_ephemeral ?c) \<in> udpt.holds (bindings st))"
      using True by (simp add: All_less_Suc2 funpow_swap1)
    with Suc.IH [OF ok] show ?thesis unfolding e by (simp add: Let_def)
  next
    case False
    then have "ephemeral_loop (Suc n) st = (?c, ?st)" using udp_port_bound_holds [OF ok] by (simp add: Let_def)
    with False ok c show ?thesis by simp
  qed
qed simp

lemma udp_allocate_spec:
  assumes "udp_ok st"
  shows "udp_ok (snd (udp_allocate_ephemeral_port st))"
    and "bindings (snd (udp_allocate_ephemeral_port st)) = bindings st"
    and "ROOT_UDP_EPHEMERAL_FIRST \<le> fst (udp_allocate_ephemeral_port st)"
    and "\<not> udp_port_bound (fst (udp_allocate_ephemeral_port st)) st"
proof -
  let ?c = "\<lambda>i. (step_ephemeral ^^ i) (next_ephemeral st)"
  have c: "ROOT_UDP_EPHEMERAL_FIRST \<le> next_ephemeral st" using assms by (simp add: udp_ok_def)
  have inj: "inj_on ?c {..<16384}"
  proof (rule inj_onI)
    fix i j
    assume ij: "i \<in> {..<16384}" "j \<in> {..<16384}" "?c i = ?c j"
    then have "(unat (next_ephemeral st) - 49152 + i) mod 16384 = (unat (next_ephemeral st) - 49152 + j) mod 16384"
      using funpow_ephemeral_unat [OF c, of i] funpow_ephemeral_unat [OF c, of j] by simp
    then have "i mod 16384 = j mod 16384" by (auto simp: nat_mod_eq_iff)
    with ij show "i = j" by simp
  qed
  have "udpt.holds (bindings st) \<subseteq> set (map ub_port (bindings st))" by (auto simp: udpt.holds_def)
  then have "card (udpt.holds (bindings st)) \<le> card (set (map ub_port (bindings st)))" by (intro card_mono) simp_all
  also have "\<dots> \<le> length (bindings st)" using card_length [of "map ub_port (bindings st)"] by simp
  finally have "card (udpt.holds (bindings st)) \<le> length (bindings st)" .
  then have "card (udpt.holds (bindings st)) \<le> 8" using assms by (simp add: udp_ok_def)
  moreover have "finite (udpt.holds (bindings st))" by (simp add: udpt.holds_def)
  ultimately have "\<not> (\<forall>i<16384. ?c i \<in> udpt.holds (bindings st))"
    using card_inj_on_le [OF inj, of "udpt.holds (bindings st)"] by auto
  with ephemeral_loop_spec [OF assms, of 16384] udp_port_bound_holds [OF assms]
  show "udp_ok (snd (udp_allocate_ephemeral_port st))"
    "bindings (snd (udp_allocate_ephemeral_port st)) = bindings st"
    "ROOT_UDP_EPHEMERAL_FIRST \<le> fst (udp_allocate_ephemeral_port st)"
    "\<not> udp_port_bound (fst (udp_allocate_ephemeral_port st)) st"
    by (auto simp: udp_allocate_ephemeral_port_def Let_def)
qed

end
