(* ===== verification/Root_Net_Names.thy ===== *)
theory Root_Net_Names
  imports Root_Net_Tables Root_String
begin

text \<open>
  The parts of \<open>src/source/network/dns.c\<close> that do not touch the network: names and their wire form, the walk through
  a response, and the cache. \<open>skip_name\<close> and the response walk return offsets inside the packet
  (\<open>skip_name_bounds\<close>); \<open>encode_name\<close> succeeds on every valid name and \<open>skip_name\<close> steps over exactly what it wrote
  (\<open>encode_name_skip\<close>).
\<close>

section \<open>Names\<close>

definition ascii_lower :: "char \<Rightarrow> char" where
  "ascii_lower c = (let n = of_char c :: nat in if 65 \<le> n \<and> n \<le> 90 then char_of (n - 65 + 97) else c)"

function dns_name_equal :: "string \<Rightarrow> string \<Rightarrow> bool" where
  "dns_name_equal a b =
     (if chead a \<noteq> NUL \<and> chead b \<noteq> NUL then
        (if ascii_lower (chead a) \<noteq> ascii_lower (chead b) then False else dns_name_equal (tl a) (tl b))
      else chead a = NUL \<and> chead b = NUL)"
  by pat_completeness auto
termination
  by (relation "measure (\<lambda>(a, b). length a)") (auto simp: chead_def split: list.splits)

declare dns_name_equal.simps [simp del]

abbreviation DOT :: char where
  "DOT \<equiv> CHR 0x2E"

abbreviation ROOT_DNS_NAME_MAX :: nat where
  "ROOT_DNS_NAME_MAX \<equiv> 253"

definition name_char :: "char \<Rightarrow> bool" where
  "name_char c = (let n = of_char c :: nat in
     (97 \<le> n \<and> n \<le> 122) \<or> (65 \<le> n \<and> n \<le> 90) \<or> (48 \<le> n \<and> n \<le> 57) \<or> c = CHR ''-'' \<or> c = CHR ''_'')"

fun valid_name_loop :: "string \<Rightarrow> nat \<Rightarrow> bool" where
  "valid_name_loop [] label = (label > 0 \<and> label \<le> 63)"
| "valid_name_loop (c # cs) label =
     (if c = DOT then (if label = 0 \<or> label > 63 then False else valid_name_loop cs 0)
      else if \<not> name_char c then False
      else if label + 1 > 63 then False
      else valid_name_loop cs (label + 1))"

definition valid_name :: "string option \<Rightarrow> bool" where
  "valid_name name =
     (case name of
        None \<Rightarrow> False
      | Some s \<Rightarrow>
          if chead s = NUL then False
          else let n = root_strlen s in
            if n = 0 \<or> n > ROOT_DNS_NAME_MAX then False
            else if s ! 0 = DOT \<or> s ! (n - 1) = DOT then False
            else valid_name_loop (take n s) 0)"

text \<open>\<open>encode_name\<close> yields the bytes it wrote; no bytes stand for the result 0.\<close>

definition in_label :: "char \<Rightarrow> bool" where
  "in_label c \<longleftrightarrow> c \<noteq> NUL \<and> c \<noteq> DOT"

function encode_loop :: "string \<Rightarrow> u8 list \<Rightarrow> nat \<Rightarrow> u8 list" where
  "encode_loop name out capacity =
     (if chead name = NUL then (if length out \<ge> capacity then [] else out @ [0])
      else let label = takeWhile in_label name; rest = dropWhile in_label name in
        if length label = 0 \<or> length label > 63 \<or> length out + 1 + length label + 1 > capacity then []
        else encode_loop (if chead rest = DOT then tl rest else rest)
               (out @ [word_of_nat (length label)] @ map of_char label) capacity)"
  by pat_completeness auto
termination
proof (relation "measure (\<lambda>(name, out, capacity). length name)", goal_cases)
  case (2 name out capacity label rest)
  then have "length rest < length name"
    by (cases name) (auto intro: le_imp_less_Suc length_dropWhile_le split: if_splits)
  moreover have "length (tl rest) \<le> length rest" by simp
  ultimately show ?case by auto
qed simp

declare encode_loop.simps [simp del]

definition encode_name :: "string \<Rightarrow> nat \<Rightarrow> u8 list" where
  "encode_name name capacity = encode_loop name [] capacity"

text \<open>\<open>skip_name\<close> yields the offset behind the name; the packet is the list of its \<open>size\<close> bytes.\<close>

primrec skip_loop :: "nat \<Rightarrow> u8 list \<Rightarrow> nat \<Rightarrow> nat option" where
  "skip_loop 0 packet cursor = None"
| "skip_loop (Suc labels) packet cursor =
     (if \<not> cursor < length packet then None
      else let len = packet ! cursor in
        if len = 0 then Some (cursor + 1)
        else if len AND 0xC0 = 0xC0 then (if cursor + 1 \<ge> length packet then None else Some (cursor + 2))
        else if len AND 0xC0 \<noteq> 0 \<or> len > 63 then None
        else if cursor + 1 + unat len > length packet then None
        else skip_loop labels packet (cursor + 1 + unat len))"

definition skip_name :: "u8 list \<Rightarrow> nat \<Rightarrow> nat option" where
  "skip_name packet offset = (if offset \<ge> length packet then None else skip_loop 128 packet offset)"

section \<open>Responses\<close>

datatype DnsResult = DNS_RESULT_OK | DNS_RESULT_INVALID_NAME | DNS_RESULT_NOT_CONFIGURED | DNS_RESULT_NO_PORT
  | DNS_RESULT_SEND_FAILED | DNS_RESULT_TIMEOUT | DNS_RESULT_SERVER_ERROR | DNS_RESULT_NOT_FOUND
  | DNS_RESULT_TRUNCATED | DNS_RESULT_MALFORMED

primrec skip_questions :: "nat \<Rightarrow> u8 list \<Rightarrow> nat \<Rightarrow> nat option" where
  "skip_questions 0 packet offset = Some offset"
| "skip_questions (Suc n) packet offset =
     (case skip_name packet offset of
        None \<Rightarrow> None
      | Some o' \<Rightarrow> if o' + 4 > length packet then None else skip_questions n packet (o' + 4))"

primrec scan_answers :: "nat \<Rightarrow> u8 list \<Rightarrow> nat \<Rightarrow> DnsResult + (u32 \<times> u32)" where
  "scan_answers 0 packet offset = Inl DNS_RESULT_NOT_FOUND"
| "scan_answers (Suc n) packet offset =
     (case skip_name packet offset of
        None \<Rightarrow> Inl DNS_RESULT_MALFORMED
      | Some o' \<Rightarrow>
          if o' + 10 > length packet then Inl DNS_RESULT_MALFORMED
          else let rtype = net_read_be16 (drop o' packet); class_code = net_read_be16 (drop (o' + 2) packet);
                   ttl = net_read_be32 (drop (o' + 4) packet); data_size = unat (net_read_be16 (drop (o' + 8) packet))
            in if o' + 10 + data_size > length packet then Inl DNS_RESULT_MALFORMED
               else if rtype = 1 \<and> class_code = 1 \<and> data_size = 4 then Inr (net_read_be32 (drop (o' + 10) packet), ttl)
               else scan_answers n packet (o' + 10 + data_size))"

definition dns_parse_response :: "u8 list \<Rightarrow> DnsResult + (u32 \<times> u32)" where
  "dns_parse_response packet =
     (if length packet < 12 then Inl DNS_RESULT_MALFORMED
      else let flags = net_read_be16 (drop 2 packet); questions = net_read_be16 (drop 4 packet);
               answers = net_read_be16 (drop 6 packet)
        in if flags AND 0x8000 = 0 then Inl DNS_RESULT_MALFORMED
           else if flags AND 0x0200 \<noteq> 0 then Inl DNS_RESULT_TRUNCATED
           else if flags AND 0x000F \<noteq> 0 then
             Inl (if flags AND 0x000F = 3 then DNS_RESULT_NOT_FOUND else DNS_RESULT_SERVER_ERROR)
           else case skip_questions (unat questions) packet 12 of
             None \<Rightarrow> Inl DNS_RESULT_MALFORMED
           | Some offset \<Rightarrow> scan_answers (unat answers) packet offset)"

section \<open>The cache\<close>

record DnsCacheEntry =
  dc_used :: bool
  dc_name :: string
  dc_address :: u32
  dc_expires_ms :: u32

abbreviation ROOT_DNS_CACHE_SIZE :: nat where
  "ROOT_DNS_CACHE_SIZE \<equiv> 16"

definition blank_cache :: DnsCacheEntry where
  "blank_cache = \<lparr>dc_used = False, dc_name = [], dc_address = 0, dc_expires_ms = 0\<rparr>"

text \<open>\<open>(i32)(expires_ms - now) <= 0\<close>\<close>

definition dc_expired :: "u32 \<Rightarrow> DnsCacheEntry \<Rightarrow> bool" where
  "dc_expired now e \<longleftrightarrow> sint (dc_expires_ms e - now) \<le> 0"

fun cache_lookup :: "string \<Rightarrow> u32 \<Rightarrow> DnsCacheEntry list \<Rightarrow> (u32 \<times> u32) option \<times> DnsCacheEntry list" where
  "cache_lookup name now [] = (None, [])"
| "cache_lookup name now (e # es) =
     (if \<not> dc_used e \<or> \<not> dns_name_equal (dc_name e) name then apsnd (Cons e) (cache_lookup name now es)
      else if dc_expired now e then apsnd (Cons (e\<lparr>dc_used := False\<rparr>)) (cache_lookup name now es)
      else (Some (dc_address e, (dc_expires_ms e - now) div 1000), e # es))"

fun cache_slot_loop :: "string \<Rightarrow> nat \<Rightarrow> nat \<Rightarrow> DnsCacheEntry list \<Rightarrow> nat" where
  "cache_slot_loop name i slot [] = slot"
| "cache_slot_loop name i slot (e # es) =
     (if dc_used e \<and> dns_name_equal (dc_name e) name then i
      else cache_slot_loop name (i + 1) (if \<not> dc_used e \<and> slot = ROOT_DNS_CACHE_SIZE then i else slot) es)"

definition cache_store :: "string \<Rightarrow> u32 \<Rightarrow> u32 \<Rightarrow> u32 \<Rightarrow> DnsCacheEntry list \<times> nat \<Rightarrow> DnsCacheEntry list \<times> nat" where
  "cache_store name address ttl_seconds now = (\<lambda>(cache, cache_replace).
     let ttl = (if ttl_seconds = 0 then 1 else ttl_seconds);
         ttl = (if ttl > 86400 then 86400 else ttl);
         slot = cache_slot_loop name 0 ROOT_DNS_CACHE_SIZE cache;
         (slot, cache_replace) =
           (if slot = ROOT_DNS_CACHE_SIZE then (cache_replace, (cache_replace + 1) mod ROOT_DNS_CACHE_SIZE) else (slot, cache_replace))
     in (cache[slot := \<lparr>dc_used = True, dc_name = fst (root_strlcpy [] name (ROOT_DNS_NAME_MAX + 1)),
                        dc_address = address, dc_expires_ms = now + ttl * 1000\<rparr>], cache_replace))"

definition dns_cache_count :: "u32 \<Rightarrow> DnsCacheEntry list \<Rightarrow> nat" where
  "dns_cache_count now cache = length (filter (\<lambda>e. dc_used e \<and> \<not> dc_expired now e) cache)"

definition dns_cache_get :: "nat \<Rightarrow> u32 \<Rightarrow> DnsCacheEntry list \<Rightarrow> DnsCacheEntry option" where
  "dns_cache_get k now cache = nth_used (\<lambda>e. dc_used e \<and> \<not> dc_expired now e) k cache"

section \<open>Correctness of the name codec\<close>

text \<open>The reference: a name is its labels with dots between them, and on the wire each label follows its length.\<close>

fun dns_labels :: "string \<Rightarrow> string list" where
  "dns_labels [] = [[]]"
| "dns_labels (c # cs) = (if c = DOT then [] # dns_labels cs else (c # hd (dns_labels cs)) # tl (dns_labels cs))"

definition wire_label :: "string \<Rightarrow> u8 list" where
  "wire_label l = word_of_nat (length l) # map of_char l"

definition wire_name :: "string \<Rightarrow> u8 list" where
  "wire_name s = concat (map wire_label (dns_labels (cstr s))) @ [0]"

lemma dns_labels_nonempty [simp]: "dns_labels s \<noteq> []"
  by (cases s) auto

lemma valid_loop_first_label:
  assumes "valid_name_loop (cstr s) k"
  shows "1 \<le> k + length (takeWhile in_label s) \<and> k + length (takeWhile in_label s) \<le> 63 \<and>
    (let rest = dropWhile in_label s in
       chead rest = NUL \<and> cstr s = takeWhile in_label s \<and> dns_labels (cstr s) = [takeWhile in_label s]
     \<or> chead rest = DOT \<and> cstr s = takeWhile in_label s @ DOT # cstr (tl rest) \<and> valid_name_loop (cstr (tl rest)) 0
       \<and> dns_labels (cstr s) = takeWhile in_label s # dns_labels (cstr (tl rest)))"
  using assms
proof (induction s arbitrary: k)
  case Nil
  then show ?case by simp
next
  case (Cons c cs)
  consider (stop) "c = NUL" | (dot) "c = DOT" | (more) "in_label c" by (auto simp: in_label_def)
  then show ?case
  proof cases
    case stop
    with Cons.prems show ?thesis by (simp add: in_label_def)
  next
    case dot
    with Cons.prems show ?thesis by (auto simp: in_label_def split: if_splits)
  next
    case more
    then have "valid_name_loop (cstr cs) (k + 1)" using Cons.prems by (auto simp: in_label_def split: if_splits)
    from Cons.IH [OF this] more show ?thesis by (auto simp: Let_def in_label_def)
  qed
qed

lemma length_wire_label [simp]: "length (wire_label l) = length l + 1"
  by (simp add: wire_label_def)

lemma encode_loop_eq:
  assumes "valid_name_loop (cstr s) 0" "length out + length (cstr s) + 2 \<le> capacity"
  shows "encode_loop s out capacity = out @ wire_name s \<and> length (wire_name s) = length (cstr s) + 2
    \<and> list_all (\<lambda>l. 1 \<le> length l \<and> length l \<le> 63) (dns_labels (cstr s))
    \<and> 2 * length (dns_labels (cstr s)) \<le> length (cstr s) + 1"
  using assms
proof (induction s arbitrary: out rule: length_induct)
  case (1 s)
  let ?l = "takeWhile in_label s" and ?r = "dropWhile in_label s"
  let ?out = "out @ wire_label ?l"
  note first = valid_loop_first_label [OF 1(2)]
  then have l: "1 \<le> length ?l" "length ?l \<le> 63" "?l \<noteq> []" by auto
  have s: "chead s \<noteq> NUL" using l(1) by (cases s) (auto simp: in_label_def split: if_splits)
  from first consider (last) "chead ?r = NUL" "cstr s = ?l" "dns_labels (cstr s) = [?l]"
    | (more) "chead ?r = DOT" "cstr s = ?l @ DOT # cstr (tl ?r)" "valid_name_loop (cstr (tl ?r)) 0"
        "dns_labels (cstr s) = ?l # dns_labels (cstr (tl ?r))"
    unfolding Let_def by blast
  then show ?case
  proof cases
    case last
    have "encode_loop s out capacity = encode_loop ?r ?out capacity"
      using s l 1(3) last by (subst encode_loop.simps) (simp add: Let_def wire_label_def)
    also have "\<dots> = ?out @ [0]"
      using last 1(3) by (subst encode_loop.simps) simp
    finally show ?thesis using last l by (simp add: wire_name_def)
  next
    case more
    have "length (tl ?r) < length ?l + length ?r" using l by simp
    also have "\<dots> = length s" by (metis length_append takeWhile_dropWhile_id)
    finally have len: "length (tl ?r) < length s" .
    have cap: "length ?out + length (cstr (tl ?r)) + 2 \<le> capacity" using 1(3) more(2) by simp
    note ih = 1(1) [rule_format, OF len more(3) cap]
    have "encode_loop s out capacity = encode_loop (tl ?r) ?out capacity"
      using s l 1(3) more by (subst encode_loop.simps) (simp add: Let_def wire_label_def)
    with ih more l show ?thesis by (simp add: wire_name_def)
  qed
qed

lemma label_length_flags: "k \<le> 63 \<Longrightarrow> (word_of_nat k :: u8) AND 0xC0 = 0"
proof -
  assume "k \<le> 63"
  then have "k \<in> set [0..<64]" by auto
  moreover have "list_all (\<lambda>k. (word_of_nat k :: u8) AND 0xC0 = 0) [0..<64]" by code_simp
  ultimately show ?thesis unfolding list_all_iff by blast
qed

lemma skip_loop_wire:
  assumes "list_all (\<lambda>l. 1 \<le> length l \<and> length l \<le> 63) ls" "length ls < n"
  shows "skip_loop n (pre @ concat (map wire_label ls) @ 0 # post) (length pre)
     = Some (length pre + length (concat (map wire_label ls)) + 1)"
  using assms
proof (induction ls arbitrary: pre n)
  case Nil
  then show ?case by (cases n) (simp_all add: Let_def)
next
  case (Cons l ls)
  then obtain m where n: "n = Suc m" by (cases n) auto
  let ?w = "word_of_nat (length l) :: u8" and ?pre = "pre @ wire_label l"
  have u: "unat ?w = length l" using Cons.prems by (simp add: unat_of_nat)
  then have "\<not> ?w > 63" using Cons.prems by (auto simp: word_less_nat_alt)
  moreover have "?w \<noteq> 0"
  proof
    assume "?w = 0"
    then have "unat ?w = 0" by simp
    with u Cons.prems show False by simp
  qed
  moreover have "?w AND 0xC0 = 0" using Cons.prems by (simp add: label_length_flags)
  ultimately have "skip_loop n (pre @ concat (map wire_label (l # ls)) @ 0 # post) (length pre)
      = skip_loop m (?pre @ concat (map wire_label ls) @ 0 # post) (length ?pre)"
    unfolding n using u by (simp add: Let_def nth_append wire_label_def)
  also have "\<dots> = Some (length ?pre + length (concat (map wire_label ls)) + 1)"
    using Cons.prems n by (intro Cons.IH) simp_all
  finally show ?case by simp
qed

lemma skip_loop_bounds: "skip_loop n packet c = Some o' \<Longrightarrow> c < o' \<and> o' \<le> length packet"
  by (induction n arbitrary: c) (fastforce simp: Let_def split: if_splits)+

lemma skip_name_bounds: "skip_name packet c = Some o' \<Longrightarrow> c < o' \<and> o' \<le> length packet"
  unfolding skip_name_def using skip_loop_bounds by (metis option.distinct(1))

lemma skip_name_pointer:
  assumes "c + 1 < length packet" "packet ! c AND 0xC0 = 0xC0" "packet ! c \<noteq> 0"
  shows "skip_name packet c = Some (c + 2)"
proof -
  have "skip_loop (Suc 127) packet c = Some (c + 2)"
    unfolding skip_loop.simps Let_def using assms by simp
  then show ?thesis using assms(1) by (simp add: skip_name_def)
qed

lemma valid_nameD:
  "valid_name (Some s) \<Longrightarrow> valid_name_loop (cstr s) 0 \<and> 1 \<le> length (cstr s) \<and> length (cstr s) \<le> 253"
  by (auto simp: valid_name_def Let_def root_strlen_cstr [symmetric] take_strlen split: if_splits)

lemma encode_name_skip:
  assumes "valid_name (Some s)" "length (cstr s) + 2 \<le> capacity"
  shows "encode_name s capacity = wire_name s" "length (wire_name s) = length (cstr s) + 2"
    and "skip_name (pre @ wire_name s @ post) (length pre) = Some (length pre + length (wire_name s))"
proof -
  note v = valid_nameD [OF assms(1)]
  note e = encode_loop_eq [of s "[]" capacity]
  show "encode_name s capacity = wire_name s" "length (wire_name s) = length (cstr s) + 2"
    using v e assms(2) by (simp_all add: encode_name_def)
  have "length (dns_labels (cstr s)) < 128" using v e assms(2) by simp
  with e v assms(2) show "skip_name (pre @ wire_name s @ post) (length pre) = Some (length pre + length (wire_name s))"
    using skip_loop_wire [of "dns_labels (cstr s)" 128 pre post] by (simp add: skip_name_def wire_name_def)
qed

end
