(* ===== verification/Root_Net_State.thy ===== *)
theory Root_Net_State
  imports Root_Net_Names "HOL-Library.Monad_Syntax"
begin

text \<open>
  The state of the network stack: the device registry of \<open>src/source/network/net_device.c\<close>, the configuration of
  \<open>net.c\<close>, and one record per protocol module holding its static variables. The rest of the machine (the adapters
  behind \<open>RootNetDeviceOps\<close>, the clock and \<open>hlt\<close>) is an abstract state \<open>'h\<close>; a driver is the record of its four
  function pointers, where \<open>None\<close> is a null pointer, and the queries \<open>ready\<close> and \<open>link_up\<close> leave \<open>'h\<close> alone.
  \<open>receive_frame\<close> yields the bytes it put into the caller's buffer. Buffers that are filled anew before every use
  are values; the TCP transmit buffer, which a nested call can overwrite before it is sent, is part of the state.
\<close>

type_synonym u64 = "64 word"

section \<open>Device registry\<close>

record 'h RootNetDeviceOps =
  ops_ready :: "(nat \<Rightarrow> 'h \<Rightarrow> bool) option"
  ops_link_up :: "(nat \<Rightarrow> 'h \<Rightarrow> bool) option"
  ops_send_frame :: "(nat \<Rightarrow> u8 list \<Rightarrow> 'h \<Rightarrow> bool \<times> 'h) option"
  ops_receive_frame :: "(nat \<Rightarrow> nat \<Rightarrow> 'h \<Rightarrow> u8 list option \<times> 'h) option"

record 'h RootNetDevice =
  nd_used :: bool
  nd_id :: nat
  nd_driver_name :: string
  nd_context :: nat
  nd_ops :: "'h RootNetDeviceOps"
  nd_mac :: "u8 list"

record 'h net_devices =
  devices :: "'h RootNetDevice list"
  dev_count :: nat
  active_index :: nat
  active_valid :: bool

abbreviation ROOT_NET_DEVICE_MAX :: nat where
  "ROOT_NET_DEVICE_MAX \<equiv> 8"

definition zero_device :: "'h RootNetDevice" where
  "zero_device = \<lparr>nd_used = False, nd_id = 0, nd_driver_name = [], nd_context = 0,
     nd_ops = \<lparr>ops_ready = None, ops_link_up = None, ops_send_frame = None, ops_receive_frame = None\<rparr>, nd_mac = replicate 6 0\<rparr>"

definition net_device_init :: "'h net_devices" where
  "net_device_init = \<lparr>devices = replicate ROOT_NET_DEVICE_MAX zero_device, dev_count = 0, active_index = 0, active_valid = False\<rparr>"

definition net_device_register ::
  "string option \<Rightarrow> nat \<Rightarrow> 'h RootNetDeviceOps option \<Rightarrow> u8 list option \<Rightarrow> 'h net_devices \<Rightarrow> bool \<times> 'h net_devices" where
  "net_device_register driver_name ctx ops mac d =
     (case (driver_name, ops, mac) of
        (Some name, Some f, Some m) \<Rightarrow>
          if chead name = NUL \<or> ops_send_frame f = None \<or> ops_receive_frame f = None \<or> ops_ready f = None
             \<or> ops_link_up f = None \<or> dev_count d \<ge> ROOT_NET_DEVICE_MAX
          then (False, d)
          else let n = dev_count d;
                   d = d\<lparr>devices := (devices d)[n := \<lparr>nd_used = True, nd_id = n, nd_driver_name = name, nd_context = ctx,
                             nd_ops = f, nd_mac = take 6 m\<rparr>]\<rparr>;
                   d = (if \<not> active_valid d then d\<lparr>active_index := n, active_valid := True\<rparr> else d)
               in (True, d\<lparr>dev_count := n + 1\<rparr>)
      | _ \<Rightarrow> (False, d))"

definition net_device_count :: "'h net_devices \<Rightarrow> nat" where
  "net_device_count d = dev_count d"

definition net_device_get :: "nat \<Rightarrow> 'h net_devices \<Rightarrow> 'h RootNetDevice option" where
  "net_device_get i d = (if i \<ge> dev_count d then None else Some (devices d ! i))"

definition net_device_active :: "'h net_devices \<Rightarrow> 'h RootNetDevice option" where
  "net_device_active d = (if \<not> active_valid d \<or> active_index d \<ge> dev_count d then None else Some (devices d ! active_index d))"

definition net_device_select :: "nat \<Rightarrow> 'h net_devices \<Rightarrow> bool \<times> 'h net_devices" where
  "net_device_select i d =
     (if i \<ge> dev_count d \<or> \<not> nd_used (devices d ! i) then (False, d)
      else (True, d\<lparr>active_index := i, active_valid := True\<rparr>))"

definition net_device_active_index :: "'h net_devices \<Rightarrow> nat option" where
  "net_device_active_index d = (if \<not> active_valid d \<or> active_index d \<ge> dev_count d then None else Some (active_index d))"

definition net_device_is_active :: "nat \<Rightarrow> 'h net_devices \<Rightarrow> bool" where
  "net_device_is_active i d \<longleftrightarrow> active_valid d \<and> i < dev_count d \<and> i = active_index d"

definition net_device_active_driver :: "'h net_devices \<Rightarrow> string" where
  "net_device_active_driver d = (case net_device_active d of Some dev \<Rightarrow> nd_driver_name dev | None \<Rightarrow> ''none'')"

definition net_device_get_mac :: "'h net_devices \<Rightarrow> u8 list" where
  "net_device_get_mac d = (case net_device_active d of Some dev \<Rightarrow> take 6 (nd_mac dev) | None \<Rightarrow> replicate 6 0)"

text \<open>Every registered device has its four operations and a six-byte address; the active one is registered.\<close>

definition device_ok :: "'h RootNetDevice \<Rightarrow> bool" where
  "device_ok dev \<longleftrightarrow> nd_used dev \<and> length (nd_mac dev) = 6 \<and> ops_ready (nd_ops dev) \<noteq> None \<and> ops_link_up (nd_ops dev) \<noteq> None
     \<and> ops_send_frame (nd_ops dev) \<noteq> None \<and> ops_receive_frame (nd_ops dev) \<noteq> None"

definition devices_ok :: "'h net_devices \<Rightarrow> bool" where
  "devices_ok d \<longleftrightarrow> length (devices d) = ROOT_NET_DEVICE_MAX \<and> dev_count d \<le> ROOT_NET_DEVICE_MAX
     \<and> list_all device_ok (take (dev_count d) (devices d)) \<and> (active_valid d \<longleftrightarrow> 0 < dev_count d)
     \<and> (active_valid d \<longrightarrow> active_index d < dev_count d)"

lemma devices_ok_init: "devices_ok net_device_init"
  by (simp add: devices_ok_def net_device_init_def)

lemma devices_ok_register:
  "devices_ok d \<Longrightarrow> mac = Some m \<Longrightarrow> length m = 6 \<Longrightarrow> devices_ok (snd (net_device_register name ctx ops mac d))"
  by (auto simp: devices_ok_def net_device_register_def Let_def device_ok_def take_Suc_conv_app_nth
      split: option.split)

lemma devices_ok_select: "devices_ok d \<Longrightarrow> devices_ok (snd (net_device_select i d))"
  by (auto simp: devices_ok_def net_device_select_def)

lemma active_ok: "devices_ok d \<Longrightarrow> net_device_active d = Some dev \<Longrightarrow> device_ok dev"
  by (auto simp: devices_ok_def net_device_active_def list_all_length split: if_splits)

section \<open>The stack's state\<close>

record RootNetConfig =
  c_adapter_ready :: bool
  c_link_up :: bool
  c_configured :: bool
  c_dhcp :: bool
  c_mac :: "u8 list"
  c_ipv4_address :: u32
  c_subnet_mask :: u32
  c_gateway :: u32
  c_dns_server :: u32
  c_dhcp_server :: u32
  c_lease_seconds :: u32

datatype DhcpState = DHCP_STATE_IDLE | DHCP_STATE_DISCOVERING | DHCP_STATE_REQUESTING | DHCP_STATE_BOUND | DHCP_STATE_FAILED

record dhcp_vars =
  state_value :: DhcpState
  error_text :: string
  transaction_id :: u32
  offered_ip :: u32
  offered_mask :: u32
  offered_gateway :: u32
  offered_dns :: u32
  offered_server :: u32
  offered_lease :: u32
  request_sent :: bool

record dns_vars =
  response :: "u8 list"
  response_ready :: bool
  active_id :: u16
  active_port :: u16
  cache :: "DnsCacheEntry list"
  cache_replace :: nat

datatype RootTcpState = ROOT_TCP_CLOSED | ROOT_TCP_SYN_SENT | ROOT_TCP_ESTABLISHED | ROOT_TCP_FIN_WAIT | ROOT_TCP_RESET | ROOT_TCP_ERROR

record RootTcpConnection =
  t_used :: bool
  t_remote_ip :: u32
  t_local_port :: u16
  t_remote_port :: u16
  t_send_next :: u32
  t_receive_next :: u32
  t_state :: RootTcpState
  t_last_error :: "string option"

record tcp_vars =
  connections :: "RootTcpConnection list"
  tcp_transmit_buffer :: "u8 list"
  next_port :: u16

record 'h net =
  world :: 'h
  nd :: "'h net_devices"
  config :: RootNetConfig
  arp :: arp_state
  next_identification :: u16
  udp :: udp_state
  dhcp :: dhcp_vars
  dns :: dns_vars
  tcp :: tcp_vars

text \<open>The clock \<open>root_time_millis\<close> and the \<open>hlt\<close> instruction.\<close>

record 'h platform =
  pf_millis :: "'h \<Rightarrow> u64 \<times> 'h"
  pf_hlt :: "'h \<Rightarrow> 'h"

text \<open>
  What a routine that waits needs: the platform, a bound on the turns of its wait loop, and \<open>net_poll\<close>, which it
  calls back into. \<open>None\<close> is a call that has not returned within the bound.
\<close>

record 'h net_env =
  env_pf :: "'h platform"
  env_turns :: nat
  env_poll :: "'h net \<Rightarrow> 'h net option"

definition root_time_millis :: "'h platform \<Rightarrow> 'h net \<Rightarrow> u64 \<times> 'h net" where
  "root_time_millis pf s = (let (t, w) = pf_millis pf (world s) in (t, s\<lparr>world := w\<rparr>))"

definition halt :: "'h platform \<Rightarrow> 'h net \<Rightarrow> 'h net" where
  "halt pf s = s\<lparr>world := pf_hlt pf (world s)\<rparr>"

definition net_device_ready :: "'h net \<Rightarrow> bool" where
  "net_device_ready s \<longleftrightarrow> (case net_device_active (nd s) of None \<Rightarrow> False
     | Some d \<Rightarrow> the (ops_ready (nd_ops d)) (nd_context d) (world s))"

definition net_device_link_up :: "'h net \<Rightarrow> bool" where
  "net_device_link_up s \<longleftrightarrow> (case net_device_active (nd s) of None \<Rightarrow> False
     | Some d \<Rightarrow> the (ops_link_up (nd_ops d)) (nd_context d) (world s))"

definition net_device_send_frame :: "u8 list \<Rightarrow> 'h net \<Rightarrow> bool \<times> 'h net" where
  "net_device_send_frame frame s =
     (case net_device_active (nd s) of
        None \<Rightarrow> (False, s)
      | Some d \<Rightarrow> let (ok, w) = the (ops_send_frame (nd_ops d)) (nd_context d) frame (world s) in (ok, s\<lparr>world := w\<rparr>))"

definition net_device_receive_frame :: "nat \<Rightarrow> 'h net \<Rightarrow> u8 list option \<times> 'h net" where
  "net_device_receive_frame capacity s =
     (case net_device_active (nd s) of
        None \<Rightarrow> (None, s)
      | Some d \<Rightarrow> let (r, w) = the (ops_receive_frame (nd_ops d)) (nd_context d) capacity (world s) in (r, s\<lparr>world := w\<rparr>))"

end
