(* ===== verification/Root_Net_Stack.thy ===== *)
theory Root_Net_Stack
  imports Root_Net_State
begin

text \<open>
  The network stack as the sources compose it: \<open>net.c\<close>, the frame handlers of \<open>arp.c\<close>, \<open>ipv4.c\<close>, \<open>udp.c\<close>, \<open>dhcp.c\<close>,
  \<open>dns.c\<close> and \<open>tcp.c\<close>. Sending an IPv4 packet may have to wait for an ARP reply, and that wait polls the adapter, so
  \<open>net_poll\<close>, the TCP receive path and \<open>ipv4_send_packet\<close> call each other. The routines on this cycle take the
  \<open>net_env\<close> they call back into; \<open>net_poll\<close> ties the knot by recursion on a bound of the nesting depth, which also
  bounds the turns of the wait loops.
\<close>

section \<open>Configuration and frames (net.c)\<close>

definition net_refresh_adapter :: "'h net \<Rightarrow> 'h net" where
  "net_refresh_adapter s =
     (let ready = net_device_ready s in
      s\<lparr>config := (config s)\<lparr>c_adapter_ready := ready, c_link_up := net_device_link_up s,
          c_mac := (if ready then net_device_get_mac (nd s) else replicate 6 0)\<rparr>\<rparr>)"

text \<open>\<open>net_config\<close> returns a pointer to the refreshed configuration: its callers read \<open>config\<close> of the new state.\<close>

definition net_config :: "'h net \<Rightarrow> 'h net" where
  "net_config s = net_refresh_adapter s"

text \<open>The bytes a call reads through a payload pointer.\<close>

definition read_payload :: "u8 list option \<Rightarrow> nat \<Rightarrow> u8 list" where
  "read_payload payload payload_size = (case payload of None \<Rightarrow> [] | Some d \<Rightarrow> take payload_size d)"

definition net_send_ethernet :: "u8 list option \<Rightarrow> u16 \<Rightarrow> u8 list option \<Rightarrow> nat \<Rightarrow> 'h net \<Rightarrow> bool \<times> 'h net" where
  "net_send_ethernet destination ether_type payload payload_size s =
     (if \<not> net_device_ready s \<or> destination = None \<or> (payload_size > 0 \<and> payload = None) \<or> payload_size > 1500
         \<or> u32_add 14 payload_size > 2048
      then (False, s)
      else let s = net_refresh_adapter s;
               frame = take 6 (the destination) @ c_mac (config s) @ net_write_be16 ether_type @ read_payload payload payload_size;
               frame = (if length frame < 60 then frame @ replicate (60 - length frame) 0 else frame)
           in net_device_send_frame frame s)"

definition net_apply_dhcp :: "u32 \<Rightarrow> u32 \<Rightarrow> u32 \<Rightarrow> u32 \<Rightarrow> u32 \<Rightarrow> u32 \<Rightarrow> 'h net \<Rightarrow> 'h net" where
  "net_apply_dhcp address subnet_mask gateway dns_server dhcp_server lease_seconds s =
     s\<lparr>config := (config s)\<lparr>c_ipv4_address := address, c_subnet_mask := subnet_mask, c_gateway := gateway,
         c_dns_server := dns_server, c_dhcp_server := dhcp_server, c_lease_seconds := lease_seconds,
         c_configured := address \<noteq> 0, c_dhcp := address \<noteq> 0\<rparr>\<rparr>"

section \<open>ARP (arp.c)\<close>

definition broadcast_mac :: "u8 list" where
  "broadcast_mac = replicate 6 0xFF"

definition arp_payload :: "u16 \<Rightarrow> u8 list \<Rightarrow> u32 \<Rightarrow> u8 list \<Rightarrow> u32 \<Rightarrow> u8 list" where
  "arp_payload operation sender_mac sender_ip target_mac target_ip =
     net_write_be16 1 @ net_write_be16 0x0800 @ [6, 4] @ net_write_be16 operation @ sender_mac @ net_write_be32 sender_ip
       @ target_mac @ net_write_be32 target_ip"

definition arp_request :: "u32 \<Rightarrow> 'h net \<Rightarrow> bool \<times> 'h net" where
  "arp_request ipv4 s =
     (let s = net_config s in
      if \<not> c_configured (config s) \<or> ipv4 = 0 then (False, s)
      else net_send_ethernet (Some broadcast_mac) 0x0806
             (Some (arp_payload 1 (c_mac (config s)) (c_ipv4_address (config s)) (replicate 6 0) ipv4)) 28 s)"

definition arp_receive :: "u8 list \<Rightarrow> 'h net \<Rightarrow> 'h net" where
  "arp_receive frame s =
     (if length frame < 42 then s
      else if net_read_be16 (drop 14 frame) \<noteq> 1 \<or> net_read_be16 (drop 16 frame) \<noteq> 0x0800 \<or> frame ! 18 \<noteq> 6 \<or> frame ! 19 \<noteq> 4 then s
      else let operation = net_read_be16 (drop 20 frame);
               sender_mac = take 6 (drop 22 frame);
               sender_ip = net_read_be32 (drop 28 frame);
               target_ip = net_read_be32 (drop 38 frame);
               s = net_config (s\<lparr>arp := arp_remember sender_ip sender_mac (arp s)\<rparr>)
           in if operation \<noteq> 1 \<or> \<not> c_configured (config s) \<or> target_ip \<noteq> c_ipv4_address (config s) then s
              else snd (net_send_ethernet (Some sender_mac) 0x0806
                     (Some (arp_payload 2 (c_mac (config s)) (c_ipv4_address (config s)) sender_mac sender_ip)) 28 s))"

section \<open>Next-hop resolution (net.c)\<close>

primrec resolve_wait :: "nat \<Rightarrow> 'h net_env \<Rightarrow> u32 \<Rightarrow> u64 \<Rightarrow> 'h net \<Rightarrow> (u8 list option \<times> 'h net) option" where
  "resolve_wait 0 E next_hop deadline s = None"
| "resolve_wait (Suc n) E next_hop deadline s =
     (let (t, s) = root_time_millis (env_pf E) s in
      if \<not> t < deadline then Some (None, s)
      else do {
        s \<leftarrow> env_poll E s;
        case arp_lookup next_hop (arp s) of
          Some mac \<Rightarrow> Some (Some mac, s)
        | None \<Rightarrow> resolve_wait n E next_hop deadline (halt (env_pf E) s)
      })"

definition route_next_hop :: "u32 \<Rightarrow> RootNetConfig \<Rightarrow> u32" where
  "route_next_hop destination_ip c =
     (if c_subnet_mask c \<noteq> 0 \<and> destination_ip AND c_subnet_mask c \<noteq> c_ipv4_address c AND c_subnet_mask c
      then c_gateway c else destination_ip)"

definition net_resolve_ipv4 :: "'h net_env \<Rightarrow> u32 \<Rightarrow> u32 \<Rightarrow> 'h net \<Rightarrow> (u8 list option \<times> 'h net) option" where
  "net_resolve_ipv4 E destination_ip timeout_ms s =
     (if \<not> c_configured (config s) \<or> destination_ip = 0 then Some (None, s)
      else if destination_ip = 0xFFFFFFFF then Some (Some broadcast_mac, s)
      else let next_hop = route_next_hop destination_ip (config s) in
        if next_hop = 0 then Some (None, s)
        else case arp_lookup next_hop (arp s) of
          Some mac \<Rightarrow> Some (Some mac, s)
        | None \<Rightarrow>
            (case arp_request next_hop s of
               (False, s) \<Rightarrow> Some (None, s)
             | (True, s) \<Rightarrow>
                 let timeout = (if timeout_ms = 0 then 1000 else timeout_ms);
                     (t, s) = root_time_millis (env_pf E) s
                 in resolve_wait (env_turns E) E next_hop (t + ucast timeout) s))"

section \<open>IPv4 output (ipv4.c)\<close>

definition ipv4_header_fields :: "nat \<Rightarrow> u16 \<Rightarrow> u8 \<Rightarrow> u8 list" where
  "ipv4_header_fields total_size identification protocol =
     [0x45, 0] @ net_write_be16 (word_of_nat total_size) @ net_write_be16 identification @ net_write_be16 0x4000 @ [64, protocol]"

definition build_header :: "nat \<Rightarrow> u8 \<Rightarrow> u32 \<Rightarrow> u32 \<Rightarrow> 'h net \<Rightarrow> u8 list \<times> 'h net" where
  "build_header total_size protocol source_ip destination_ip s =
     (let fields = ipv4_header_fields total_size (next_identification s) protocol;
          addresses = net_write_be32 source_ip @ net_write_be32 destination_ip;
          checksum = ipv4_checksum (fields @ net_write_be16 0 @ addresses)
      in (fields @ net_write_be16 checksum @ addresses, s\<lparr>next_identification := next_identification s + 1\<rparr>))"

text \<open>The payload pointer is read after the next hop has been resolved.\<close>

definition ipv4_send_packet :: "'h net_env \<Rightarrow> u32 \<Rightarrow> u8 \<Rightarrow> ('h net \<Rightarrow> u8 list) option \<Rightarrow> nat \<Rightarrow> 'h net \<Rightarrow> (bool \<times> 'h net) option" where
  "ipv4_send_packet E destination_ip protocol payload payload_size s =
     (let s = net_config s; total_size = u32_add 20 payload_size in
      if \<not> c_configured (config s) \<or> destination_ip = 0 \<or> (payload_size > 0 \<and> payload = None) \<or> total_size > 1500
      then Some (False, s)
      else do {
        (mac, s) \<leftarrow> net_resolve_ipv4 E destination_ip 1000 s;
        case mac of
          None \<Rightarrow> Some (False, s)
        | Some m \<Rightarrow>
            let (header, s) = build_header total_size protocol (c_ipv4_address (config s)) destination_ip s;
                packet = header @ read_payload (map_option (\<lambda>p. p s) payload) payload_size
            in Some (net_send_ethernet (Some m) 0x0800 (Some packet) total_size s)
      })"

definition udp_header :: "u16 \<Rightarrow> u16 \<Rightarrow> nat \<Rightarrow> u16 \<Rightarrow> u8 list" where
  "udp_header source_port destination_port segment_size checksum =
     net_write_be16 source_port @ net_write_be16 destination_port @ net_write_be16 (word_of_nat segment_size) @ net_write_be16 checksum"

definition ipv4_send_udp_broadcast :: "u16 \<Rightarrow> u16 \<Rightarrow> u8 list option \<Rightarrow> nat \<Rightarrow> 'h net \<Rightarrow> bool \<times> 'h net" where
  "ipv4_send_udp_broadcast source_port destination_port payload payload_size s =
     (let ip_size = u32_add 28 payload_size in
      if (payload_size > 0 \<and> payload = None) \<or> ip_size > 1500 then (False, s)
      else let s = net_config s;
               source_ip = (if c_configured (config s) then c_ipv4_address (config s) else 0);
               (header, s) = build_header ip_size 17 source_ip 0xFFFFFFFF s;
               packet = header @ udp_header source_port destination_port (8 + payload_size) 0 @ read_payload payload payload_size
           in net_send_ethernet (Some broadcast_mac) 0x0800 (Some packet) ip_size s)"

section \<open>UDP output (udp.c)\<close>

definition udp_send_to :: "'h net_env \<Rightarrow> u32 \<Rightarrow> u16 \<Rightarrow> u16 \<Rightarrow> u8 list option \<Rightarrow> nat \<Rightarrow> 'h net \<Rightarrow> (bool \<times> 'h net) option" where
  "udp_send_to E destination_ip source_port destination_port payload payload_size s =
     (let s = net_config s; segment_size = u32_add 8 payload_size in
      if \<not> c_configured (config s) \<or> destination_ip = 0 \<or> destination_ip = 0xFFFFFFFF \<or> source_port = 0 \<or> destination_port = 0
         \<or> (payload_size > 0 \<and> payload = None) \<or> segment_size > 1500
      then Some (False, s)
      else let data = read_payload payload payload_size;
               checksum = udp_checksum (c_ipv4_address (config s)) destination_ip
                            (udp_header source_port destination_port segment_size 0 @ data);
               segment = udp_header source_port destination_port segment_size checksum @ data
           in ipv4_send_packet E destination_ip 17 (Some (\<lambda>_. segment)) segment_size s)"

definition udp_send_broadcast :: "u16 \<Rightarrow> u16 \<Rightarrow> u8 list option \<Rightarrow> nat \<Rightarrow> 'h net \<Rightarrow> bool \<times> 'h net" where
  "udp_send_broadcast source_port destination_port payload payload_size s =
     ipv4_send_udp_broadcast source_port destination_port payload payload_size s"

section \<open>DHCP (dhcp.c): state, requests and replies\<close>

definition reset_offer :: "dhcp_vars \<Rightarrow> dhcp_vars" where
  "reset_offer d = d\<lparr>offered_ip := 0, offered_mask := 0, offered_gateway := 0, offered_dns := 0, offered_server := 0,
     offered_lease := 0, request_sent := False\<rparr>"

text \<open>The packet under construction is the bytes up to the running offset.\<close>

definition append_option :: "u8 list \<Rightarrow> u8 \<Rightarrow> u8 list \<Rightarrow> u8 list" where
  "append_option out code d = (if length out + 2 + length d \<ge> 548 then out else out @ [code, word_of_nat (length d)] @ d)"

definition dhcp_base :: "u32 \<Rightarrow> u8 list \<Rightarrow> u8 list" where
  "dhcp_base xid mac = [1, 1, 6, 0] @ net_write_be32 xid @ [0, 0] @ net_write_be16 0x8000 @ replicate 16 0 @ mac
     @ replicate 202 0 @ net_write_be32 0x63825363"

definition build_base :: "'h net \<Rightarrow> u8 list option \<times> 'h net" where
  "build_base s =
     (let s = net_config s in
      if \<not> c_adapter_ready (config s) then (None, s)
      else (Some (dhcp_base (transaction_id (dhcp s)) (c_mac (config s))), s))"

definition dhcp_parameter_list :: "u8 list" where
  "dhcp_parameter_list = [1, 3, 6, 51, 54]"

definition send_discover :: "'h net \<Rightarrow> bool \<times> 'h net" where
  "send_discover s =
     (case build_base s of
        (None, s) \<Rightarrow> (False, s)
      | (Some p, s) \<Rightarrow>
          let p = append_option p 53 [1];
              s = net_config s;
              p = append_option p 61 (1 # c_mac (config s));
              p = append_option p 55 dhcp_parameter_list;
              p = p @ [255]
          in ipv4_send_udp_broadcast 68 67 (Some p) (length p) s)"

definition send_request :: "'h net \<Rightarrow> bool \<times> 'h net" where
  "send_request s =
     (if offered_ip (dhcp s) = 0 \<or> offered_server (dhcp s) = 0 then (False, s)
      else case build_base s of
        (None, s) \<Rightarrow> (False, s)
      | (Some p, s) \<Rightarrow>
          let p = append_option p 53 [3];
              p = append_option p 50 (net_write_be32 (offered_ip (dhcp s)));
              p = append_option p 54 (net_write_be32 (offered_server (dhcp s)));
              s = net_config s;
              p = append_option p 61 (1 # c_mac (config s));
              p = append_option p 55 dhcp_parameter_list;
              p = p @ [255]
          in ipv4_send_udp_broadcast 68 67 (Some p) (length p) s)"

definition dhcp_init :: "'h net \<Rightarrow> 'h net" where
  "dhcp_init s =
     s\<lparr>dhcp := reset_offer ((dhcp s)\<lparr>state_value := DHCP_STATE_IDLE, error_text := ''none'', transaction_id := 0\<rparr>),
       udp := snd (udp_bind 68 (Some Handler_dhcp_udp_receive) 0 (udp s))\<rparr>"

definition dhcp_option :: "u8 \<Rightarrow> u8 \<Rightarrow> u8 list \<Rightarrow> u8 \<times> dhcp_vars \<Rightarrow> u8 \<times> dhcp_vars" where
  "dhcp_option code len val = (\<lambda>(message_type, d).
     if code = 53 \<and> len \<ge> 1 then (val ! 0, d)
     else if code = 1 \<and> len \<ge> 4 then (message_type, d\<lparr>offered_mask := net_read_be32 val\<rparr>)
     else if code = 3 \<and> len \<ge> 4 then (message_type, d\<lparr>offered_gateway := net_read_be32 val\<rparr>)
     else if code = 6 \<and> len \<ge> 4 then (message_type, d\<lparr>offered_dns := net_read_be32 val\<rparr>)
     else if code = 54 \<and> len \<ge> 4 then (message_type, d\<lparr>offered_server := net_read_be32 val\<rparr>)
     else if code = 51 \<and> len \<ge> 4 then (message_type, d\<lparr>offered_lease := net_read_be32 val\<rparr>)
     else (message_type, d))"

function parse_options_loop :: "u8 list \<Rightarrow> nat \<Rightarrow> u8 \<times> dhcp_vars \<Rightarrow> u8 \<times> dhcp_vars" where
  "parse_options_loop data offset r =
     (if \<not> offset < length data then r
      else let code = data ! offset in
        if code = 255 then r
        else if code = 0 then parse_options_loop data (offset + 1) r
        else if offset + 1 \<ge> length data then r
        else let len = data ! (offset + 1) in
          if offset + 2 + unat len > length data then r
          else parse_options_loop data (offset + 2 + unat len) (dhcp_option code len (drop (offset + 2) data) r))"
  by pat_completeness auto
termination
  by (relation "measure (\<lambda>(data, offset, r). length data - offset)") auto

declare parse_options_loop.simps [simp del]

definition parse_options :: "u8 list \<Rightarrow> dhcp_vars \<Rightarrow> u8 \<times> dhcp_vars" where
  "parse_options data d = parse_options_loop data 240 (0, d)"

definition dhcp_receive :: "u8 list \<Rightarrow> 'h net \<Rightarrow> 'h net" where
  "dhcp_receive payload s =
     (if length payload < 240 then s
      else if payload ! 0 \<noteq> 2 \<or> payload ! 1 \<noteq> 1 \<or> payload ! 2 \<noteq> 6 \<or> net_read_be32 (drop 4 payload) \<noteq> transaction_id (dhcp s)
          \<or> net_read_be32 (drop 236 payload) \<noteq> 0x63825363 then s
      else let s = net_config s in
        if take 6 (drop 28 payload) \<noteq> c_mac (config s) then s
        else let yiaddr = net_read_be32 (drop 16 payload);
                 (message_type, d) = parse_options payload (dhcp s);
                 s = s\<lparr>dhcp := d\<rparr>
             in if message_type = 2 \<and> state_value d = DHCP_STATE_DISCOVERING then
                  s\<lparr>dhcp := d\<lparr>offered_ip := yiaddr, state_value := DHCP_STATE_REQUESTING\<rparr>\<rparr>
                else if message_type = 5 \<and> state_value d = DHCP_STATE_REQUESTING then
                  let d = (if yiaddr \<noteq> 0 then d\<lparr>offered_ip := yiaddr\<rparr> else d);
                      s = net_apply_dhcp (offered_ip d) (offered_mask d) (offered_gateway d) (offered_dns d)
                            (offered_server d) (offered_lease d) s
                  in s\<lparr>dhcp := d\<lparr>state_value := DHCP_STATE_BOUND, error_text := ''none''\<rparr>\<rparr>
                else if message_type = 6 then
                  s\<lparr>dhcp := d\<lparr>state_value := DHCP_STATE_FAILED, error_text := ''server rejected request''\<rparr>\<rparr>
                else s)"

definition dhcp_udp_receive :: "u16 \<Rightarrow> u16 \<Rightarrow> u8 list \<Rightarrow> 'h net \<Rightarrow> 'h net" where
  "dhcp_udp_receive source_port destination_port payload s =
     (if source_port \<noteq> 67 \<or> destination_port \<noteq> 68 then s else dhcp_receive payload s)"

definition dhcp_state :: "'h net \<Rightarrow> DhcpState" where
  "dhcp_state s = state_value (dhcp s)"

definition dhcp_last_error :: "'h net \<Rightarrow> string" where
  "dhcp_last_error s = error_text (dhcp s)"

definition dhcp_state_name :: "DhcpState \<Rightarrow> string" where
  "dhcp_state_name st = (case st of DHCP_STATE_IDLE \<Rightarrow> ''idle'' | DHCP_STATE_DISCOVERING \<Rightarrow> ''discovering''
     | DHCP_STATE_REQUESTING \<Rightarrow> ''requesting'' | DHCP_STATE_BOUND \<Rightarrow> ''bound'' | DHCP_STATE_FAILED \<Rightarrow> ''failed'')"

section \<open>DNS (dns.c): the receive handler and the cache in the state\<close>

definition dns_receive :: "u32 \<Rightarrow> u16 \<Rightarrow> u16 \<Rightarrow> u8 list \<Rightarrow> 'h net \<Rightarrow> 'h net" where
  "dns_receive source_ip source_port destination_port payload s =
     (if source_port \<noteq> 53 \<or> destination_port \<noteq> active_port (dns s) \<or> length payload < 12 \<or> length payload > 512 then s
      else let s = net_config s in
        if source_ip \<noteq> c_dns_server (config s) \<or> net_read_be16 payload \<noteq> active_id (dns s) then s
        else s\<lparr>dns := (dns s)\<lparr>response := payload, response_ready := True\<rparr>\<rparr>)"

definition dns_cache_flush :: "dns_vars \<Rightarrow> dns_vars" where
  "dns_cache_flush d = d\<lparr>cache := replicate ROOT_DNS_CACHE_SIZE blank_cache, cache_replace := 0\<rparr>"

definition dns_init :: "dns_vars \<Rightarrow> dns_vars" where
  "dns_init d = (dns_cache_flush d)\<lparr>response := [], response_ready := False, active_id := 0, active_port := 0\<rparr>"

definition dns_result_name :: "DnsResult \<Rightarrow> string" where
  "dns_result_name r = (case r of DNS_RESULT_OK \<Rightarrow> ''ok'' | DNS_RESULT_INVALID_NAME \<Rightarrow> ''invalid name''
     | DNS_RESULT_NOT_CONFIGURED \<Rightarrow> ''network/DNS not configured'' | DNS_RESULT_NO_PORT \<Rightarrow> ''no UDP port available''
     | DNS_RESULT_SEND_FAILED \<Rightarrow> ''send failed'' | DNS_RESULT_TIMEOUT \<Rightarrow> ''timeout''
     | DNS_RESULT_SERVER_ERROR \<Rightarrow> ''DNS server error'' | DNS_RESULT_NOT_FOUND \<Rightarrow> ''not found''
     | DNS_RESULT_TRUNCATED \<Rightarrow> ''truncated response (TCP DNS not implemented yet)''
     | DNS_RESULT_MALFORMED \<Rightarrow> ''malformed response'')"

section \<open>UDP input (udp.c)\<close>

definition call_handler :: "RootUdpReceiveHandler \<Rightarrow> u32 \<Rightarrow> u16 \<Rightarrow> u16 \<Rightarrow> u8 list \<Rightarrow> 'h net \<Rightarrow> 'h net" where
  "call_handler h source_ip source_port destination_port payload =
     (case h of
        Handler_dhcp_udp_receive \<Rightarrow> dhcp_udp_receive source_port destination_port payload
      | Handler_dns_receive \<Rightarrow> dns_receive source_ip source_port destination_port payload)"

text \<open>The part of \<open>udp_receive\<close> before the dispatch: the ports and the payload of a segment it accepts.\<close>

definition udp_accept :: "u32 \<Rightarrow> u32 \<Rightarrow> u8 list \<Rightarrow> (u16 \<times> u16 \<times> u8 list) option" where
  "udp_accept source_ip destination_ip segment =
     (if length segment < 8 then None
      else let source_port = net_read_be16 segment;
               destination_port = net_read_be16 (drop 2 segment);
               udp_length = unat (net_read_be16 (drop 4 segment));
               received_checksum = net_read_be16 (drop 6 segment)
           in if source_port = 0 \<or> destination_port = 0 \<or> udp_length < 8 \<or> udp_length > length segment then None
              else if received_checksum \<noteq> 0
                \<and> word_of_nat (fold_carry (pseudo_sum source_ip destination_ip 17 (take udp_length segment))) \<noteq> (0xFFFF :: u16) then None
              else Some (source_port, destination_port, take (udp_length - 8) (drop 8 segment)))"

definition udp_receive :: "u32 \<Rightarrow> u32 \<Rightarrow> u8 list \<Rightarrow> 'h net \<Rightarrow> 'h net" where
  "udp_receive source_ip destination_ip segment s =
     (case udp_accept source_ip destination_ip segment of
        None \<Rightarrow> s
      | Some (source_port, destination_port, payload) \<Rightarrow>
          (case find_slot (\<lambda>b. ub_used b \<and> ub_port b = destination_port \<and> ub_handler b \<noteq> None) (bindings (udp s)) of
             Some i \<Rightarrow> call_handler (the (ub_handler (bindings (udp s) ! i))) source_ip source_port destination_port payload s
           | None \<Rightarrow> s))"

section \<open>TCP (tcp.c): segments, receive path and close\<close>

abbreviation ROOT_TCP_MAX_CONNECTIONS :: nat where
  "ROOT_TCP_MAX_CONNECTIONS \<equiv> 4"

abbreviation TCP_FLAG_FIN :: u8 where "TCP_FLAG_FIN \<equiv> 0x01"
abbreviation TCP_FLAG_SYN :: u8 where "TCP_FLAG_SYN \<equiv> 0x02"
abbreviation TCP_FLAG_RST :: u8 where "TCP_FLAG_RST \<equiv> 0x04"
abbreviation TCP_FLAG_ACK :: u8 where "TCP_FLAG_ACK \<equiv> 0x10"

definition zero_connection :: RootTcpConnection where
  "zero_connection = \<lparr>t_used = False, t_remote_ip = 0, t_local_port = 0, t_remote_port = 0, t_send_next = 0, t_receive_next = 0,
     t_state = ROOT_TCP_CLOSED, t_last_error = None\<rparr>"

definition tcp_init :: "tcp_vars \<Rightarrow> tcp_vars" where
  "tcp_init v = v\<lparr>connections := replicate ROOT_TCP_MAX_CONNECTIONS zero_connection, next_port := 50000\<rparr>"

definition local_port_used :: "u16 \<Rightarrow> tcp_vars \<Rightarrow> bool" where
  "local_port_used port v \<longleftrightarrow> find_slot (\<lambda>c. t_used c \<and> t_local_port c = port) (connections v) \<noteq> None"

definition step_port :: "u16 \<Rightarrow> u16" where
  "step_port p = (let q = p + 1 in if q < 50000 \<or> q > 60000 then 50000 else q)"

primrec allocate_port_loop :: "nat \<Rightarrow> tcp_vars \<Rightarrow> u16 \<times> tcp_vars" where
  "allocate_port_loop 0 v = (0, v)"
| "allocate_port_loop (Suc tries) v =
     (let port = next_port v; v = v\<lparr>next_port := step_port port\<rparr>
      in if \<not> local_port_used port v then (port, v) else allocate_port_loop tries v)"

definition allocate_port :: "tcp_vars \<Rightarrow> u16 \<times> tcp_vars" where
  "allocate_port v = allocate_port_loop 10000 v"

definition the_connection :: "nat \<Rightarrow> 'h net \<Rightarrow> RootTcpConnection" where
  "the_connection i s = connections (tcp s) ! i"

definition put_connection :: "nat \<Rightarrow> RootTcpConnection \<Rightarrow> 'h net \<Rightarrow> 'h net" where
  "put_connection i c s = s\<lparr>tcp := (tcp s)\<lparr>connections := (connections (tcp s))[i := c]\<rparr>\<rparr>"

definition tcp_header :: "RootTcpConnection \<Rightarrow> u8 \<Rightarrow> u32 \<Rightarrow> u32 \<Rightarrow> nat \<Rightarrow> u16 \<Rightarrow> u8 list" where
  "tcp_header c flags sequence acknowledgment header_size checksum =
     net_write_be16 (t_local_port c) @ net_write_be16 (t_remote_port c) @ net_write_be32 sequence @ net_write_be32 acknowledgment
       @ [word_of_nat (header_size div 4 * 16), flags] @ net_write_be16 32768 @ net_write_be16 checksum @ net_write_be16 0"

definition tcp_options :: "bool \<Rightarrow> u8 list" where
  "tcp_options include_mss = (if include_mss then [2, 4] @ net_write_be16 1460 else [])"

definition send_segment :: "'h net_env \<Rightarrow> nat \<Rightarrow> u8 \<Rightarrow> u32 \<Rightarrow> u32 \<Rightarrow> bool \<Rightarrow> 'h net \<Rightarrow> (bool \<times> 'h net) option" where
  "send_segment E i flags sequence acknowledgment include_mss s =
     (let s = net_config s in
      if \<not> c_configured (config s) then Some (False, s)
      else let c = the_connection i s;
               header_size = (if include_mss then 24 else 20);
               checksum = tcp_checksum (c_ipv4_address (config s)) (t_remote_ip c)
                            (tcp_header c flags sequence acknowledgment header_size 0 @ tcp_options include_mss);
               segment = tcp_header c flags sequence acknowledgment header_size checksum @ tcp_options include_mss;
               s = s\<lparr>tcp := (tcp s)\<lparr>tcp_transmit_buffer := segment @ drop header_size (tcp_transmit_buffer (tcp s))\<rparr>\<rparr>
           in ipv4_send_packet E (t_remote_ip c) 6 (Some (\<lambda>s. tcp_transmit_buffer (tcp s))) header_size s)"

definition tcp_close :: "'h net_env \<Rightarrow> int \<Rightarrow> 'h net \<Rightarrow> (bool \<times> 'h net) option" where
  "tcp_close E ident s =
     (if ident < 0 \<or> ident \<ge> int ROOT_TCP_MAX_CONNECTIONS \<or> \<not> t_used (the_connection (nat ident) s) then Some (False, s)
      else let i = nat ident; c = the_connection i s in do {
        s \<leftarrow> (if t_state c = ROOT_TCP_ESTABLISHED
             then map_option snd (send_segment E i (TCP_FLAG_RST OR TCP_FLAG_ACK) (t_send_next c) (t_receive_next c) False s)
             else Some s);
        Some (True, put_connection i zero_connection s)
      })"

text \<open>
  \<open>tcp_receive\<close> for the connection the segment belongs to. The connection is read again after every call that may
  have polled the adapter.
\<close>

definition tcp_receive_syn_sent :: "'h net_env \<Rightarrow> nat \<Rightarrow> u32 \<Rightarrow> u32 \<Rightarrow> u8 \<Rightarrow> 'h net \<Rightarrow> 'h net option" where
  "tcp_receive_syn_sent E i sequence acknowledgment flags s =
     (let c = the_connection i s in
      if flags AND (TCP_FLAG_SYN OR TCP_FLAG_ACK) = (TCP_FLAG_SYN OR TCP_FLAG_ACK) \<and> acknowledgment = t_send_next c then
        let s = put_connection i (c\<lparr>t_receive_next := sequence + 1\<rparr>) s in do {
          (ok, s) \<leftarrow> send_segment E i TCP_FLAG_ACK (t_send_next c) (sequence + 1) False s;
          if \<not> ok then
            Some (put_connection i ((the_connection i s)\<lparr>t_state := ROOT_TCP_ERROR, t_last_error := Some ''final ACK send failed''\<rparr>) s)
          else
            Some (put_connection i ((the_connection i s)\<lparr>t_state := ROOT_TCP_ESTABLISHED, t_last_error := Some ''none''\<rparr>) s)
        }
      else Some s)"

definition tcp_receive_established :: "'h net_env \<Rightarrow> nat \<Rightarrow> u32 \<Rightarrow> u8 \<Rightarrow> nat \<Rightarrow> 'h net \<Rightarrow> 'h net option" where
  "tcp_receive_established E i sequence flags data_size s = do {
     s \<leftarrow> (let c = the_connection i s in
           if sequence = t_receive_next c \<and> data_size > 0 then
             let c = c\<lparr>t_receive_next := t_receive_next c + word_of_nat data_size\<rparr>; s = put_connection i c s
             in map_option snd (send_segment E i TCP_FLAG_ACK (t_send_next c) (t_receive_next c) False s)
           else Some s);
     if flags AND TCP_FLAG_FIN \<noteq> 0 then
       let c = (the_connection i s)\<lparr>t_receive_next := t_receive_next (the_connection i s) + 1\<rparr>; s = put_connection i c s in do {
         s \<leftarrow> map_option snd (send_segment E i TCP_FLAG_ACK (t_send_next c) (t_receive_next c) False s);
         Some (put_connection i ((the_connection i s)\<lparr>t_state := ROOT_TCP_FIN_WAIT\<rparr>) s)
       }
     else Some s
   }"

definition tcp_receive :: "'h net_env \<Rightarrow> u32 \<Rightarrow> u32 \<Rightarrow> u8 list \<Rightarrow> 'h net \<Rightarrow> 'h net option" where
  "tcp_receive E source_ip destination_ip segment s =
     (if length segment < 20 then Some s
      else let s = net_config s in
        if destination_ip \<noteq> c_ipv4_address (config s) then Some s
        else let source_port = net_read_be16 segment;
                 destination_port = net_read_be16 (drop 2 segment);
                 header_size = unat (drop_bit 4 (segment ! 12)) * 4
             in if header_size < 20 \<or> header_size > length segment then Some s
                else if tcp_checksum source_ip destination_ip segment \<noteq> 0 then Some s
                else case find_slot (\<lambda>c. t_used c \<and> t_remote_ip c = source_ip \<and> t_remote_port c = source_port
                              \<and> t_local_port c = destination_port) (connections (tcp s)) of
                  None \<Rightarrow> Some s
                | Some i \<Rightarrow>
                    let c = the_connection i s;
                        sequence = net_read_be32 (drop 4 segment);
                        acknowledgment = net_read_be32 (drop 8 segment);
                        flags = segment ! 13
                    in if flags AND TCP_FLAG_RST \<noteq> 0 then
                         Some (put_connection i (c\<lparr>t_state := ROOT_TCP_RESET, t_last_error := Some ''peer reset''\<rparr>) s)
                       else if t_state c = ROOT_TCP_SYN_SENT then tcp_receive_syn_sent E i sequence acknowledgment flags s
                       else if t_state c = ROOT_TCP_ESTABLISHED then
                         tcp_receive_established E i sequence flags (length segment - header_size) s
                       else Some s)"

definition tcp_state :: "int \<Rightarrow> tcp_vars \<Rightarrow> RootTcpState" where
  "tcp_state ident v =
     (if ident < 0 \<or> ident \<ge> int ROOT_TCP_MAX_CONNECTIONS \<or> \<not> t_used (connections v ! nat ident) then ROOT_TCP_CLOSED
      else t_state (connections v ! nat ident))"

definition tcp_state_name :: "RootTcpState \<Rightarrow> string" where
  "tcp_state_name st = (case st of ROOT_TCP_CLOSED \<Rightarrow> ''CLOSED'' | ROOT_TCP_SYN_SENT \<Rightarrow> ''SYN-SENT''
     | ROOT_TCP_ESTABLISHED \<Rightarrow> ''ESTABLISHED'' | ROOT_TCP_FIN_WAIT \<Rightarrow> ''FIN-WAIT'' | ROOT_TCP_RESET \<Rightarrow> ''RESET''
     | ROOT_TCP_ERROR \<Rightarrow> ''ERROR'')"

definition tcp_last_error :: "int \<Rightarrow> tcp_vars \<Rightarrow> string" where
  "tcp_last_error ident v =
     (if ident < 0 \<or> ident \<ge> int ROOT_TCP_MAX_CONNECTIONS \<or> \<not> t_used (connections v ! nat ident) then ''invalid connection''
      else case t_last_error (connections v ! nat ident) of Some e \<Rightarrow> e | None \<Rightarrow> ''none'')"

definition tcp_connection_count :: "tcp_vars \<Rightarrow> nat" where
  "tcp_connection_count v = length (filter t_used (connections v))"

definition tcp_get_connection :: "nat \<Rightarrow> tcp_vars \<Rightarrow> (RootTcpConnection \<times> nat) option" where
  "tcp_get_connection k v = nth_used (\<lambda>(c, i). t_used c) k (zip (connections v) [0..<length (connections v)])"

section \<open>IPv4 input and polling (ipv4.c, net.c)\<close>

text \<open>The part of \<open>ipv4_receive\<close> before the address check: addresses, protocol and payload of a packet it accepts.\<close>

definition ipv4_accept :: "u8 list \<Rightarrow> (u32 \<times> u32 \<times> u8 \<times> u8 list) option" where
  "ipv4_accept frame =
     (if length frame < 34 then None
      else let packet = drop 14 frame;
               packet_available = length frame - 14;
               header_size = unat (packet ! 0 AND 0x0F) * 4;
               total_length = unat (net_read_be16 (drop 2 packet))
           in if drop_bit 4 (packet ! 0) \<noteq> 4 then None
              else if header_size < 20 \<or> header_size > packet_available then None
              else if total_length < header_size \<or> total_length > packet_available then None
              else if ipv4_checksum (take header_size packet) \<noteq> 0 then None
              else if net_read_be16 (drop 6 packet) AND 0x3FFF \<noteq> 0 then None
              else Some (net_read_be32 (drop 12 packet), net_read_be32 (drop 16 packet), packet ! 9,
                     take (total_length - header_size) (drop header_size packet)))"

definition ipv4_receive :: "'h net_env \<Rightarrow> u8 list \<Rightarrow> 'h net \<Rightarrow> 'h net option" where
  "ipv4_receive E frame s =
     (case ipv4_accept frame of
        None \<Rightarrow> Some s
      | Some (source_ip, destination_ip, protocol, payload) \<Rightarrow>
          let s = net_config s in
          if c_configured (config s) \<and> destination_ip \<noteq> c_ipv4_address (config s) \<and> destination_ip \<noteq> 0xFFFFFFFF then Some s
          else if protocol = 17 then Some (udp_receive source_ip destination_ip payload s)
          else if protocol = 6 then tcp_receive E source_ip destination_ip payload s
          else Some s)"

primrec poll_frames :: "nat \<Rightarrow> 'h net_env \<Rightarrow> 'h net \<Rightarrow> 'h net option" where
  "poll_frames 0 E s = Some s"
| "poll_frames (Suc n) E s =
     (case net_device_receive_frame 2048 s of
        (None, s) \<Rightarrow> Some s
      | (Some frame, s) \<Rightarrow>
          if length frame < 14 then poll_frames n E s
          else let ether_type = net_read_be16 (drop 12 frame) in
            if ether_type = 0x0806 then poll_frames n E (arp_receive frame s)
            else if ether_type = 0x0800 then do { s \<leftarrow> ipv4_receive E frame s; poll_frames n E s }
            else poll_frames n E s)"

definition net_poll_body :: "'h net_env \<Rightarrow> 'h net \<Rightarrow> 'h net option" where
  "net_poll_body E s =
     (if \<not> net_device_ready s then Some s
      else poll_frames 32 E (s\<lparr>config := (config s)\<lparr>c_link_up := net_device_link_up s\<rparr>\<rparr>))"

primrec net_poll :: "'h platform \<Rightarrow> nat \<Rightarrow> 'h net \<Rightarrow> 'h net option" where
  "net_poll pf 0 s = None"
| "net_poll pf (Suc n) s = net_poll_body \<lparr>env_pf = pf, env_turns = n, env_poll = net_poll pf n\<rparr> s"

definition stack_env :: "'h platform \<Rightarrow> nat \<Rightarrow> 'h net_env" where
  "stack_env pf n = \<lparr>env_pf = pf, env_turns = n, env_poll = net_poll pf n\<rparr>"

section \<open>Starting and reconfiguring (net.c)\<close>

definition net_clear_ipv4 :: "'h net \<Rightarrow> 'h net" where
  "net_clear_ipv4 s =
     (let s = s\<lparr>config := (config s)\<lparr>c_ipv4_address := 0, c_subnet_mask := 0, c_gateway := 0, c_dns_server := 0,
                   c_dhcp_server := 0, c_lease_seconds := 0, c_configured := False, c_dhcp := False\<rparr>\<rparr>;
          s = dhcp_init s
      in s\<lparr>arp := arp_init, dns := dns_cache_flush (dns s), tcp := tcp_init (tcp s)\<rparr>)"

definition net_select_device :: "nat \<Rightarrow> 'h net \<Rightarrow> bool \<times> 'h net" where
  "net_select_device i s =
     (case net_device_select i (nd s) of
        (False, d) \<Rightarrow> (False, s)
      | (True, d) \<Rightarrow> (True, net_refresh_adapter (net_clear_ipv4 (s\<lparr>nd := d\<rparr>))))"

definition ipv4_init :: "'h net \<Rightarrow> 'h net" where
  "ipv4_init s = s\<lparr>next_identification := 1\<rparr>"

declare ipv4_init_def [simp]

definition zero_config :: RootNetConfig where
  "zero_config = \<lparr>c_adapter_ready = False, c_link_up = False, c_configured = False, c_dhcp = False, c_mac = replicate 6 0,
     c_ipv4_address = 0, c_subnet_mask = 0, c_gateway = 0, c_dns_server = 0, c_dhcp_server = 0, c_lease_seconds = 0\<rparr>"

definition net_init :: "'h net \<Rightarrow> 'h net" where
  "net_init s =
     (let ready = net_device_ready s;
          s = s\<lparr>config := zero_config\<lparr>c_adapter_ready := ready, c_link_up := net_device_link_up s,
                  c_mac := (if ready then net_device_get_mac (nd s) else replicate 6 0)\<rparr>\<rparr>;
          s = s\<lparr>arp := arp_init\<rparr>;
          s = ipv4_init s;
          s = dhcp_init (s\<lparr>udp := udp_init\<rparr>)
      in s\<lparr>dns := dns_init (dns s), tcp := tcp_init (tcp s)\<rparr>)"

end
