(* ===== verification/Root_Net_Clients.thy ===== *)
theory Root_Net_Clients
  imports Root_Net_Stack
begin

text \<open>
  The operations of the network stack that block: \<open>dhcp_acquire\<close> of \<open>src/source/network/dhcp.c\<close>, \<open>dns_resolve_ipv4\<close> of
  \<open>dns.c\<close> and \<open>tcp_connect\<close> of \<open>tcp.c\<close>, with their retries and wait loops over the clock and \<open>net_poll\<close>. A result
  \<open>None\<close> is a loop that has used up its turns.
\<close>

definition put_dhcp :: "(dhcp_vars \<Rightarrow> dhcp_vars) \<Rightarrow> 'h net \<Rightarrow> 'h net" where
  "put_dhcp f s = s\<lparr>dhcp := f (dhcp s)\<rparr>"

definition dhcp_fail :: "string \<Rightarrow> 'h net \<Rightarrow> 'h net" where
  "dhcp_fail e = put_dhcp (\<lambda>d. d\<lparr>state_value := DHCP_STATE_FAILED, error_text := e\<rparr>)"

section \<open>DHCP\<close>

text \<open>
  One turn of the loop in \<open>dhcp_acquire\<close> after the poll: the request is sent once an offer has arrived. \<open>None\<close> in the
  first component is the \<open>break\<close>, otherwise it is the deadline.
\<close>

definition dhcp_turn :: "'h platform \<Rightarrow> u64 \<Rightarrow> 'h net \<Rightarrow> u64 option \<times> 'h net" where
  "dhcp_turn pf deadline s =
     (if state_value (dhcp s) = DHCP_STATE_REQUESTING \<and> \<not> request_sent (dhcp s) then
        if offered_ip (dhcp s) = 0 \<or> offered_server (dhcp s) = 0 then (None, dhcp_fail ''invalid offer'' s)
        else case send_request s of
          (False, s) \<Rightarrow> (None, dhcp_fail ''could not transmit request'' s)
        | (True, s) \<Rightarrow>
            let s = put_dhcp (\<lambda>d. d\<lparr>request_sent := True, error_text := ''waiting for acknowledgement''\<rparr>) s;
                (t, s) = root_time_millis pf s
            in (Some (t + 3000), s)
      else (Some deadline, s))"

primrec dhcp_wait :: "nat \<Rightarrow> 'h net_env \<Rightarrow> u64 \<Rightarrow> 'h net \<Rightarrow> (bool \<times> 'h net) option" where
  "dhcp_wait 0 E deadline s = None"
| "dhcp_wait (Suc n) E deadline s =
     (let (t, s) = root_time_millis (env_pf E) s in
      if \<not> t < deadline then Some (False, s)
      else do {
        s \<leftarrow> env_poll E s;
        case dhcp_turn (env_pf E) deadline s of
          (None, s) \<Rightarrow> Some (False, s)
        | (Some deadline, s) \<Rightarrow>
            if state_value (dhcp s) = DHCP_STATE_BOUND then Some (True, s)
            else if state_value (dhcp s) = DHCP_STATE_FAILED then Some (False, s)
            else dhcp_wait n E deadline (halt (env_pf E) s)
      })"

text \<open>The attempts left; \<open>Some True\<close> returns success, a failed transmission ends the loop at once.\<close>

primrec dhcp_attempts :: "nat \<Rightarrow> 'h net_env \<Rightarrow> 'h net \<Rightarrow> (bool \<times> 'h net) option" where
  "dhcp_attempts 0 E s = Some (False, dhcp_fail ''timeout waiting for DHCP'' s)"
| "dhcp_attempts (Suc n) E s =
     (let s = put_dhcp (\<lambda>d. (reset_offer d)\<lparr>state_value := DHCP_STATE_DISCOVERING, error_text := ''waiting for offer''\<rparr>) s in
      case send_discover s of
        (False, s) \<Rightarrow> Some (False, dhcp_fail ''could not transmit discover'' s)
      | (True, s) \<Rightarrow>
          let (t, s) = root_time_millis (env_pf E) s in do {
            (bound, s) \<leftarrow> dhcp_wait (env_turns E) E (t + 3000) s;
            if bound then Some (True, s) else dhcp_attempts n E s
          })"

definition dhcp_xid :: "u64 \<Rightarrow> u8 list \<Rightarrow> u32" where
  "dhcp_xid now mac =
     (let x = ucast now XOR push_bit 24 (ucast (mac ! 2)) XOR push_bit 16 (ucast (mac ! 3)) XOR push_bit 8 (ucast (mac ! 4))
            XOR ucast (mac ! 5) XOR 0x524F4F54
      in if x = 0 then 0x524F4F54 else x)"

definition dhcp_acquire :: "'h net_env \<Rightarrow> 'h net \<Rightarrow> (bool \<times> 'h net) option" where
  "dhcp_acquire E s =
     (let s = net_config s in
      if \<not> c_adapter_ready (config s) then Some (False, dhcp_fail ''no Ethernet adapter'' s)
      else if \<not> c_link_up (config s) then Some (False, dhcp_fail ''link is down'' s)
      else let s = put_dhcp reset_offer (net_clear_ipv4 s);
               (t, s) = root_time_millis (env_pf E) s;
               s = put_dhcp (\<lambda>d. d\<lparr>transaction_id := dhcp_xid t (c_mac (config s))\<rparr>) s
           in dhcp_attempts 3 E s)"

section \<open>DNS\<close>

definition put_dns :: "(dns_vars \<Rightarrow> dns_vars) \<Rightarrow> 'h net \<Rightarrow> 'h net" where
  "put_dns f s = s\<lparr>dns := f (dns s)\<rparr>"

definition put_udp :: "(udp_state \<Rightarrow> udp_state) \<Rightarrow> 'h net \<Rightarrow> 'h net" where
  "put_udp f s = s\<lparr>udp := f (udp s)\<rparr>"

primrec dns_wait :: "nat \<Rightarrow> 'h net_env \<Rightarrow> u64 \<Rightarrow> 'h net \<Rightarrow> 'h net option" where
  "dns_wait 0 E deadline s = None"
| "dns_wait (Suc n) E deadline s =
     (if response_ready (dns s) then Some s
      else let (t, s) = root_time_millis (env_pf E) s in
        if \<not> t < deadline then Some s
        else do { s \<leftarrow> env_poll E s; dns_wait n E deadline (halt (env_pf E) s) })"

text \<open>The attempts of \<open>dns_resolve_ipv4\<close>: whether no transmission failed, and the state.\<close>

primrec dns_attempts :: "nat \<Rightarrow> 'h net_env \<Rightarrow> u16 \<Rightarrow> u8 list \<Rightarrow> 'h net \<Rightarrow> (bool \<times> 'h net) option" where
  "dns_attempts 0 E port query s = Some (True, s)"
| "dns_attempts (Suc n) E port query s =
     (if response_ready (dns s) then Some (True, s)
      else do {
        (ok, s) \<leftarrow> udp_send_to E (c_dns_server (config s)) port 53 (Some query) (length query) s;
        if \<not> ok then Some (False, s)
        else let (t, s) = root_time_millis (env_pf E) s in do {
          s \<leftarrow> dns_wait (env_turns E) E (t + 2500) s;
          dns_attempts n E port query s
        }
      })"

definition dns_query :: "u16 \<Rightarrow> string \<Rightarrow> u8 list option" where
  "dns_query ident name =
     (let encoded = encode_name name 500 in
      if encoded = [] \<or> 12 + length encoded + 4 > 512 then None
      else Some (net_write_be16 ident @ net_write_be16 0x0100 @ net_write_be16 1 @ replicate 6 0 @ encoded
             @ net_write_be16 1 @ net_write_be16 1))"

definition dns_release :: "u16 \<Rightarrow> 'h net \<Rightarrow> 'h net" where
  "dns_release port s = put_dns (\<lambda>d. d\<lparr>active_port := 0\<rparr>) (put_udp (udp_unbind port) s)"

text \<open>The exchange with the server once the port is bound.\<close>

definition dns_exchange :: "'h net_env \<Rightarrow> u16 \<Rightarrow> string \<Rightarrow> 'h net \<Rightarrow> ((DnsResult + (u32 \<times> u32)) \<times> 'h net) option" where
  "dns_exchange E port name s =
     (case dns_query (active_id (dns s)) name of
        None \<Rightarrow> Some (Inl DNS_RESULT_INVALID_NAME, dns_release port s)
      | Some query \<Rightarrow> do {
          (sent, s) \<leftarrow> dns_attempts 2 E port query s;
          let s = dns_release port s in
          if \<not> sent then Some (Inl DNS_RESULT_SEND_FAILED, s)
          else if \<not> response_ready (dns s) then Some (Inl DNS_RESULT_TIMEOUT, s)
          else case dns_parse_response (response (dns s)) of
            Inl e \<Rightarrow> Some (Inl e, s)
          | Inr (address, ttl) \<Rightarrow>
              let (t, s) = root_time_millis (env_pf E) s;
                  (ca, r) = cache_store name address ttl (ucast t) (cache (dns s), cache_replace (dns s))
              in Some (Inr (address, ttl), put_dns (\<lambda>d. d\<lparr>cache := ca, cache_replace := r\<rparr>) s)
        })"

definition dns_resolve_ipv4 :: "'h net_env \<Rightarrow> string option \<Rightarrow> 'h net \<Rightarrow> ((DnsResult + (u32 \<times> u32)) \<times> 'h net) option" where
  "dns_resolve_ipv4 E name s =
     (if \<not> valid_name name then Some (Inl DNS_RESULT_INVALID_NAME, s)
      else let s = net_config s in
        if \<not> c_configured (config s) \<or> c_dns_server (config s) = 0 then Some (Inl DNS_RESULT_NOT_CONFIGURED, s)
        else let (t, s) = root_time_millis (env_pf E) s;
                 (hit, ca) = cache_lookup (the name) (ucast t) (cache (dns s));
                 s = put_dns (\<lambda>d. d\<lparr>cache := ca\<rparr>) s
             in case hit of
                  Some r \<Rightarrow> Some (Inr r, s)
                | None \<Rightarrow>
                    let (port, u) = udp_allocate_ephemeral_port (udp s); s = s\<lparr>udp := u\<rparr> in
                    if port = 0 then Some (Inl DNS_RESULT_NO_PORT, s)
                    else let (t, s) = root_time_millis (env_pf E) s;
                             ident = ucast (ucast t XOR c_ipv4_address (config s) XOR ucast port :: u32);
                             ident = (if ident = 0 then 1 else ident);
                             s = put_dns (\<lambda>d. d\<lparr>response := [], response_ready := False, active_port := port, active_id := ident\<rparr>) s
                         in case udp_bind port (Some Handler_dns_receive) 0 (udp s) of
                              (False, u) \<Rightarrow> Some (Inl DNS_RESULT_NO_PORT, put_dns (\<lambda>d. d\<lparr>active_port := 0\<rparr>) s)
                            | (True, u) \<Rightarrow> dns_exchange E port (the name) (s\<lparr>udp := u\<rparr>))"

section \<open>TCP\<close>

primrec tcp_wait :: "nat \<Rightarrow> 'h net_env \<Rightarrow> nat \<Rightarrow> u64 \<Rightarrow> 'h net \<Rightarrow> 'h net option" where
  "tcp_wait 0 E i deadline s = None"
| "tcp_wait (Suc n) E i deadline s =
     (if t_state (the_connection i s) \<noteq> ROOT_TCP_SYN_SENT then Some s
      else let (t, s) = root_time_millis (env_pf E) s in
        if \<not> t < deadline then Some s
        else do { s \<leftarrow> env_poll E s; tcp_wait n E i deadline (halt (env_pf E) s) })"

definition tcp_fail :: "nat \<Rightarrow> string \<Rightarrow> 'h net \<Rightarrow> 'h net" where
  "tcp_fail i e s = put_connection i ((the_connection i s)\<lparr>t_state := ROOT_TCP_ERROR, t_last_error := Some e\<rparr>) s"

text \<open>The attempts left; the flag is \<open>transmitted\<close>. The result says whether the function returns at once.\<close>

primrec tcp_attempts :: "nat \<Rightarrow> 'h net_env \<Rightarrow> nat \<Rightarrow> u32 \<Rightarrow> u32 \<Rightarrow> bool \<Rightarrow> 'h net \<Rightarrow> (bool \<times> 'h net) option" where
  "tcp_attempts 0 E i initial_sequence per_attempt transmitted s = Some (False, s)"
| "tcp_attempts (Suc n) E i initial_sequence per_attempt transmitted s =
     (if t_state (the_connection i s) \<noteq> ROOT_TCP_SYN_SENT then Some (False, s)
      else do {
        (ok, s) \<leftarrow> send_segment E i TCP_FLAG_SYN initial_sequence 0 True s;
        if \<not> ok then (if \<not> transmitted then Some (True, tcp_fail i ''SYN send failed'' s) else Some (False, s))
        else let (t, s) = root_time_millis (env_pf E) s in do {
          s \<leftarrow> tcp_wait (env_turns E) E i (t + ucast per_attempt) s;
          tcp_attempts n E i initial_sequence per_attempt True s
        }
      })"

text \<open>\<open>tcp_connect\<close> yields the slot, or \<open>None\<close> for the result \<open>-1\<close>.\<close>

definition tcp_connect :: "'h net_env \<Rightarrow> u32 \<Rightarrow> u16 \<Rightarrow> u32 \<Rightarrow> 'h net \<Rightarrow> (nat option \<times> 'h net) option" where
  "tcp_connect E remote_ip remote_port timeout_ms s =
     (let s = net_config s in
      if \<not> c_configured (config s) \<or> remote_ip = 0 \<or> remote_port = 0 then Some (None, s)
      else case find_slot (\<lambda>c. \<not> t_used c) (connections (tcp s)) of
        None \<Rightarrow> Some (None, s)
      | Some i \<Rightarrow>
          let (local_port, v) = allocate_port (tcp s); s = s\<lparr>tcp := v\<rparr> in
          if local_port = 0 then Some (None, s)
          else let (t, s) = root_time_millis (env_pf E) s;
                   initial_sequence = ucast t XOR remote_ip XOR push_bit 16 (ucast remote_port) XOR ucast local_port;
                   initial_sequence = (if initial_sequence = 0 then 1 else initial_sequence);
                   s = put_connection i \<lparr>t_used = True, t_remote_ip = remote_ip, t_local_port = local_port,
                         t_remote_port = remote_port, t_send_next = initial_sequence + 1, t_receive_next = 0,
                         t_state = ROOT_TCP_SYN_SENT, t_last_error = Some ''none''\<rparr> s;
                   timeout = (if timeout_ms = 0 then 5000 else timeout_ms);
                   per_attempt = (if timeout div 3 < 1000 then 1000 else timeout div 3)
               in do {
                    (stop, s) \<leftarrow> tcp_attempts 3 E i initial_sequence per_attempt False s;
                    if stop then Some (Some i, s)
                    else if t_state (the_connection i s) = ROOT_TCP_SYN_SENT then Some (Some i, tcp_fail i ''connect timeout'' s)
                    else Some (Some i, s)
                  })"

end
