(* ===== verification/Root_Net_Exchange.thy ===== *)
theory Root_Net_Exchange
  imports Root_Net_Clients
begin

text \<open>
  Packets from one machine to another. The sending routines are shown to hand the driver one explicit frame
  (\<open>ethernet_frame\<close> around \<open>ipv4_packet\<close> or an ARP packet), and the receiving routines to recover exactly what was sent:
  an ARP request is answered and both caches learn the peer, and a UDP payload reaches the handler bound to its port.
\<close>

section \<open>Frames\<close>

definition ethernet_frame :: "u8 list \<Rightarrow> u8 list \<Rightarrow> u16 \<Rightarrow> u8 list \<Rightarrow> u8 list" where
  "ethernet_frame dst src ether_type payload =
     dst @ src @ net_write_be16 ether_type @ payload @ replicate (46 - length payload) 0"

text \<open>The address the adapter of a state answers with, and the invariants that make it six bytes long.\<close>

definition host_mac :: "'h net \<Rightarrow> u8 list" where
  "host_mac s = net_device_get_mac (nd s)"

definition host_up :: "'h net \<Rightarrow> bool" where
  "host_up s \<longleftrightarrow> devices_ok (nd s) \<and> arp_ok (arp s) \<and> udp_ok (udp s) \<and> net_device_ready s"

lemma length_host_mac [simp]: "host_up s \<Longrightarrow> length (host_mac s) = 6"
  using active_ok [of "nd s"]
  by (auto simp: host_up_def host_mac_def net_device_get_mac_def device_ok_def split: option.split)

lemma net_config_fields [simp]:
  "world (net_config s) = world s" "nd (net_config s) = nd s" "arp (net_config s) = arp s" "udp (net_config s) = udp s"
  "dhcp (net_config s) = dhcp s" "dns (net_config s) = dns s" "tcp (net_config s) = tcp s"
  "next_identification (net_config s) = next_identification s"
  "c_configured (config (net_config s)) = c_configured (config s)" "c_ipv4_address (config (net_config s)) = c_ipv4_address (config s)"
  "c_dns_server (config (net_config s)) = c_dns_server (config s)" "c_subnet_mask (config (net_config s)) = c_subnet_mask (config s)"
  "c_gateway (config (net_config s)) = c_gateway (config s)"
  by (simp_all add: net_config_def net_refresh_adapter_def Let_def)

lemma ready_net_config [simp]: "net_device_ready (net_config s) = net_device_ready s"
  by (simp add: net_device_ready_def cong: option.case_cong)

lemma link_net_config [simp]: "net_device_link_up (net_config s) = net_device_link_up s"
  by (simp add: net_device_link_up_def cong: option.case_cong)

lemma net_config_mac [simp]: "net_device_ready s \<Longrightarrow> c_mac (config (net_config s)) = host_mac s"
  by (simp add: net_config_def net_refresh_adapter_def Let_def host_mac_def)

lemma net_config_idem [simp]: "net_config (net_config s) = net_config s"
  using ready_net_config [of s] link_net_config [of s]
  by (simp add: net_config_def net_refresh_adapter_def Let_def)

lemma host_up_net_config [simp]: "host_up (net_config s) = host_up s"
  by (simp add: host_up_def)

lemma host_mac_net_config [simp]: "host_mac (net_config s) = host_mac s"
  by (simp add: host_mac_def)

lemma net_send_ethernet_eq:
  assumes "host_up s" "length m = 6" "length d = n" "n \<le> 1500"
  shows "net_send_ethernet (Some m) ty (Some d) n s = net_device_send_frame (ethernet_frame m (host_mac s) ty d) (net_config s)"
proof -
  have r: "net_device_ready s" using assms(1) by (simp add: host_up_def)
  have "net_refresh_adapter s = net_config s" by (simp add: net_config_def)
  then show ?thesis
    using assms r by (simp add: net_send_ethernet_def ethernet_frame_def read_payload_def Let_def)
qed

lemma length_ethernet_frame [simp]:
  "length m = 6 \<Longrightarrow> length h = 6 \<Longrightarrow> length (ethernet_frame m h ty d) = max 60 (14 + length d)"
  by (simp add: ethernet_frame_def)

lemma frame_type [wire_simps]:
  "length m = 6 \<Longrightarrow> length h = 6 \<Longrightarrow> net_read_be16 (drop 12 (ethernet_frame m h ty d)) = ty"
  by (simp add: ethernet_frame_def wire_simps)

lemma frame_payload [wire_simps]:
  "length m = 6 \<Longrightarrow> length h = 6 \<Longrightarrow> drop 14 (ethernet_frame m h ty d) = d @ replicate (46 - length d) 0"
  by (simp add: ethernet_frame_def)

section \<open>ARP\<close>

definition arp_frame :: "u16 \<Rightarrow> u8 list \<Rightarrow> u8 list \<Rightarrow> u32 \<Rightarrow> u8 list \<Rightarrow> u32 \<Rightarrow> u8 list" where
  "arp_frame operation dst sender_mac sender_ip target_mac target_ip =
     ethernet_frame dst sender_mac 0x0806 (arp_payload operation sender_mac sender_ip target_mac target_ip)"

lemma arp_frame_fields:
  assumes "length dst = 6" "length m = 6" "length t = 6"
  shows "length (arp_frame op dst m ip t tip) = 60"
    and "net_read_be16 (drop 12 (arp_frame op dst m ip t tip)) = 0x0806"
    and "net_read_be16 (drop 14 (arp_frame op dst m ip t tip)) = 1"
    and "net_read_be16 (drop 16 (arp_frame op dst m ip t tip)) = 0x0800"
    and "arp_frame op dst m ip t tip ! 18 = 6" and "arp_frame op dst m ip t tip ! 19 = 4"
    and "net_read_be16 (drop 20 (arp_frame op dst m ip t tip)) = op"
    and "take 6 (drop 22 (arp_frame op dst m ip t tip)) = m"
    and "net_read_be32 (drop 28 (arp_frame op dst m ip t tip)) = ip"
    and "net_read_be32 (drop 38 (arp_frame op dst m ip t tip)) = tip"
  using assms by (simp_all add: arp_frame_def ethernet_frame_def arp_payload_def nth_append wire_simps)

lemma ready_updates [simp]:
  "net_device_ready (s\<lparr>config := a\<rparr>) = net_device_ready s" "net_device_ready (s\<lparr>arp := b\<rparr>) = net_device_ready s"
  "net_device_ready (s\<lparr>next_identification := c\<rparr>) = net_device_ready s" "net_device_ready (s\<lparr>udp := d\<rparr>) = net_device_ready s"
  "net_device_ready (s\<lparr>dhcp := e\<rparr>) = net_device_ready s" "net_device_ready (s\<lparr>dns := f\<rparr>) = net_device_ready s"
  "net_device_ready (s\<lparr>tcp := g\<rparr>) = net_device_ready s"
  by (simp_all add: net_device_ready_def cong: option.case_cong)

lemma arp_request_eq:
  assumes "host_up s" "c_configured (config s)" "ip \<noteq> 0"
  shows "arp_request ip s = net_device_send_frame
     (arp_frame 1 broadcast_mac (host_mac s) (c_ipv4_address (config s)) (replicate 6 0) ip) (net_config s)"
proof -
  have "net_device_ready s" using assms(1) by (simp add: host_up_def)
  moreover have "length (arp_payload 1 (host_mac s) (c_ipv4_address (config s)) (replicate 6 0) ip) = 28"
    using assms(1) by (simp add: arp_payload_def)
  ultimately show ?thesis
    using assms net_send_ethernet_eq [of "net_config s" broadcast_mac _ 28 "0x0806"]
    by (simp add: arp_request_def arp_frame_def broadcast_mac_def)
qed

lemma arp_receive_frame:
  assumes "length dst = 6" "length m = 6" "length t = 6"
  shows "arp_receive (arp_frame op dst m ip t tip) s =
    (let s = net_config (s\<lparr>arp := arp_remember ip m (arp s)\<rparr>) in
     if op \<noteq> 1 \<or> \<not> c_configured (config s) \<or> tip \<noteq> c_ipv4_address (config s) then s
     else snd (net_send_ethernet (Some m) 0x0806
            (Some (arp_payload 2 (c_mac (config s)) (c_ipv4_address (config s)) m ip)) 28 s))"
  using arp_frame_fields [OF assms, of op ip tip] by (simp add: arp_receive_def Let_def)

lemma arp_receive_request:
  assumes "host_up s" "c_configured (config s)" "length dst = 6" "length m = 6" "length t = 6"
  shows "arp_receive (arp_frame 1 dst m ip t (c_ipv4_address (config s))) s =
    snd (net_device_send_frame (arp_frame 2 m (host_mac s) (c_ipv4_address (config s)) m ip)
           (net_config (s\<lparr>arp := arp_remember ip m (arp s)\<rparr>)))"
proof -
  let ?s = "net_config (s\<lparr>arp := arp_remember ip m (arp s)\<rparr>)"
  have up: "host_up ?s" using assms by (simp add: host_up_def arp_ok_remember)
  have r: "net_device_ready s" using assms(1) by (simp add: host_up_def)
  have mac: "c_mac (config ?s) = host_mac s" using r by (simp add: host_mac_def)
  have l: "length (arp_payload 2 (host_mac s) (c_ipv4_address (config s)) m ip) = 28"
    using assms by (simp add: arp_payload_def)
  show ?thesis
    unfolding arp_receive_frame [OF assms(3-5)]
    using assms(2) mac net_send_ethernet_eq [OF up assms(4) l]
    by (simp add: Let_def arp_frame_def host_mac_def)
qed

section \<open>IPv4 packets\<close>

definition ipv4_header :: "nat \<Rightarrow> u16 \<Rightarrow> u8 \<Rightarrow> u32 \<Rightarrow> u32 \<Rightarrow> u8 list" where
  "ipv4_header total_size ident protocol source_ip destination_ip =
     ipv4_header_fields total_size ident protocol
       @ net_write_be16 (ipv4_checksum (ipv4_header_fields total_size ident protocol @ net_write_be16 0
           @ net_write_be32 source_ip @ net_write_be32 destination_ip))
       @ net_write_be32 source_ip @ net_write_be32 destination_ip"

lemma build_header_eq:
  "build_header n protocol src dst s =
     (ipv4_header n (next_identification s) protocol src dst, s\<lparr>next_identification := next_identification s + 1\<rparr>)"
  by (simp add: build_header_def ipv4_header_def Let_def)

lemma length_header_fields [simp]: "length (ipv4_header_fields n ident p) = 10"
  by (simp add: ipv4_header_fields_def)

lemma length_ipv4_header [simp]: "length (ipv4_header n ident p src dst) = 20"
  by (simp add: ipv4_header_def)

lemma ipv4_header_sum: "ipv4_checksum (ipv4_header n ident p src dst) = 0"
  unfolding ipv4_header_def by (rule ipv4_checksum_fill) simp

lemma ipv4_header_reads:
  "(ipv4_header n ident p src dst @ r) ! 0 = 0x45" "(ipv4_header n ident p src dst @ r) ! 9 = p"
  "net_read_be16 (drop 2 (ipv4_header n ident p src dst @ r)) = word_of_nat n"
  "net_read_be16 (drop 6 (ipv4_header n ident p src dst @ r)) = 0x4000"
  "net_read_be32 (drop 12 (ipv4_header n ident p src dst @ r)) = src"
  "net_read_be32 (drop 16 (ipv4_header n ident p src dst @ r)) = dst"
  by (simp_all add: ipv4_header_def ipv4_header_fields_def nth_append wire_simps)

definition ipv4_packet :: "u16 \<Rightarrow> u8 \<Rightarrow> u32 \<Rightarrow> u32 \<Rightarrow> u8 list \<Rightarrow> u8 list" where
  "ipv4_packet ident protocol source_ip destination_ip payload =
     ipv4_header (20 + length payload) ident protocol source_ip destination_ip @ payload"

definition ipv4_frame :: "u8 list \<Rightarrow> u8 list \<Rightarrow> u16 \<Rightarrow> u8 \<Rightarrow> u32 \<Rightarrow> u32 \<Rightarrow> u8 list \<Rightarrow> u8 list" where
  "ipv4_frame dst src ident protocol source_ip destination_ip payload =
     ethernet_frame dst src 0x0800 (ipv4_packet ident protocol source_ip destination_ip payload)"

lemma unat_size_u16: "n \<le> 65535 \<Longrightarrow> unat (word_of_nat n :: u16) = n"
  by (simp add: unat_of_nat)

lemma first_byte_flags: "unat ((0x45 :: u8) AND 0x0F) = 5" "drop_bit 4 (0x45 :: u8) = 4" "(0x4000 :: u16) AND 0x3FFF = 0"
  by simp_all

lemma ipv4_accept_frame:
  assumes "length m = 6" "length h = 6" "length payload \<le> 1480"
  shows "ipv4_accept (ipv4_frame m h ident protocol src dst payload) = Some (src, dst, protocol, payload)"
proof -
  let ?hd = "ipv4_header (20 + length payload) ident protocol src dst"
  let ?pad = "replicate (46 - length (ipv4_packet ident protocol src dst payload)) 0"
  have d: "drop 14 (ipv4_frame m h ident protocol src dst payload) = ?hd @ payload @ ?pad"
    using assms by (simp add: ipv4_frame_def wire_simps ipv4_packet_def)
  have l: "length (ipv4_frame m h ident protocol src dst payload) = max 60 (34 + length payload)"
    using assms by (simp add: ipv4_frame_def ipv4_packet_def)
  have t: "unat (word_of_nat (20 + length payload) :: u16) = 20 + length payload"
    using assms by (intro unat_size_u16) simp
  show ?thesis
    unfolding ipv4_accept_def d Let_def ipv4_header_reads t first_byte_flags
    using l by (simp add: ipv4_header_sum)
qed

lemma net_config_ident [simp]:
  "net_config ((net_config s)\<lparr>next_identification := x\<rparr>) = (net_config s)\<lparr>next_identification := x\<rparr>"
proof -
  have "net_device_link_up ((net_config s)\<lparr>next_identification := x\<rparr>) = net_device_link_up s"
    by (simp add: net_device_link_up_def cong: option.case_cong)
  then show ?thesis
    using ready_net_config [of s] link_net_config [of s]
    by (simp add: net_config_def net_refresh_adapter_def Let_def)
qed

lemma host_up_ident [simp]: "host_up (s\<lparr>next_identification := x\<rparr>) = host_up s" "host_mac (s\<lparr>next_identification := x\<rparr>) = host_mac s"
  by (simp_all add: host_up_def host_mac_def)

lemma send_built_packet:
  assumes "host_up s" "length m = 6" "length payload \<le> 1480"
  shows "net_send_ethernet (Some m) 0x0800 (Some (ipv4_packet ident protocol src dst payload)) (20 + length payload)
       ((net_config s)\<lparr>next_identification := x\<rparr>)
     = net_device_send_frame (ipv4_frame m (host_mac s) ident protocol src dst payload) ((net_config s)\<lparr>next_identification := x\<rparr>)"
  using net_send_ethernet_eq [of "(net_config s)\<lparr>next_identification := x\<rparr>" m "ipv4_packet ident protocol src dst payload"] assms
  by (simp add: ipv4_frame_def ipv4_packet_def)

section \<open>UDP\<close>

definition udp_segment :: "u16 \<Rightarrow> u16 \<Rightarrow> u16 \<Rightarrow> u8 list \<Rightarrow> u8 list" where
  "udp_segment source_port destination_port checksum d = udp_header source_port destination_port (8 + length d) checksum @ d"

lemma length_udp_header [simp]: "length (udp_header sp dp n c) = 8"
  by (simp add: udp_header_def)

lemma udp_header_reads:
  "net_read_be16 (udp_header sp dp n c @ r) = sp" "net_read_be16 (drop 2 (udp_header sp dp n c @ r)) = dp"
  "net_read_be16 (drop 4 (udp_header sp dp n c @ r)) = word_of_nat n" "net_read_be16 (drop 6 (udp_header sp dp n c @ r)) = c"
  by (simp_all add: udp_header_def wire_simps)

lemma udp_segment_sum:
  assumes "length d \<le> 1472" "c = udp_checksum src dst (udp_segment sp dp 0 d)"
  shows "pseudo_sum src dst 17 (udp_segment sp dp c d) = 65535"
proof -
  let ?a = "net_write_be16 sp @ net_write_be16 dp @ net_write_be16 (word_of_nat (8 + length d))"
  have "udp_segment sp dp x d = ?a @ net_write_be16 x @ d" for x
    by (simp add: udp_segment_def udp_header_def)
  then show ?thesis using udp_checksum_fill(1) [of ?a d src dst] assms by simp
qed

lemma udp_accept_segment:
  assumes "sp \<noteq> 0" "dp \<noteq> 0" "length d \<le> 1472" "c = 0 \<or> c = udp_checksum src dst (udp_segment sp dp 0 d)"
  shows "udp_accept src dst (udp_segment sp dp c d) = Some (sp, dp, d)"
proof -
  have t: "unat (word_of_nat (8 + length d) :: u16) = 8 + length d" using assms by (intro unat_size_u16) simp
  have v: "c \<noteq> 0 \<Longrightarrow> word_of_nat (fold_carry (pseudo_sum src dst 17 (udp_segment sp dp c d))) = (0xFFFF :: u16)"
    using assms udp_segment_sum [of d c src dst sp dp] by (simp add: fold_carry_closed)
  have l: "length (udp_segment sp dp c d) = 8 + length d" by (simp add: udp_segment_def)
  show ?thesis
    unfolding udp_accept_def l
    unfolding udp_segment_def udp_header_reads Let_def t
    using assms(1,2) v by (cases "c = 0") (simp_all add: udp_segment_def)
qed

lemma binding_found:
  assumes "udp_ok u" "i < 8" "ub_used (bindings u ! i)" "ub_handler (bindings u ! i) = Some h"
  shows "find_slot (\<lambda>b. ub_used b \<and> ub_port b = ub_port (bindings u ! i) \<and> ub_handler b \<noteq> None) (bindings u) = Some i"
proof -
  have "find_slot (\<lambda>b. ub_used b \<and> ub_port b = ub_port (bindings u ! i) \<and> ub_handler b \<noteq> None) (bindings u)
      = find_slot (\<lambda>b. ub_used b \<and> ub_port b = ub_port (bindings u ! i)) (bindings u)"
    using assms(1) by (intro find_slot_cong) (auto simp: udp_ok_def list_all_iff)
  also have "\<dots> = Some i" using assms by (intro udpt.lookup_unique) (simp_all add: udp_ok_def)
  finally show ?thesis .
qed

definition listens :: "u16 \<Rightarrow> RootUdpReceiveHandler \<Rightarrow> 'h net \<Rightarrow> bool" where
  "listens port h s \<longleftrightarrow> port \<noteq> 0 \<and> list_ex (\<lambda>b. ub_used b \<and> ub_port b = port \<and> ub_handler b = Some h) (bindings (udp s))"

lemma udp_receive_segment:
  assumes "udp_ok (udp s)" "listens dp h s" "sp \<noteq> 0" "length d \<le> 1472" "c = 0 \<or> c = udp_checksum src dst (udp_segment sp dp 0 d)"
  shows "udp_receive src dst (udp_segment sp dp c d) s = call_handler h src sp dp d s"
proof -
  obtain i where i: "i < 8" "ub_used (bindings (udp s) ! i)" "ub_port (bindings (udp s) ! i) = dp" "ub_handler (bindings (udp s) ! i) = Some h"
    using assms(1,2) by (auto simp: listens_def list_ex_length udp_ok_def)
  moreover have "dp \<noteq> 0" using assms(2) by (simp add: listens_def)
  ultimately show ?thesis
    using binding_found [OF assms(1) i(1,2,4)] udp_accept_segment [OF assms(3) _ assms(4,5)]
    by (simp add: udp_receive_def del: find_slot_None)
qed

lemma ipv4_receive_udp:
  assumes "length m = 6" "length h' = 6" "udp_ok (udp s)" "listens dp h s" "sp \<noteq> 0" "length d \<le> 1472"
    "c = 0 \<or> c = udp_checksum src dst (udp_segment sp dp 0 d)"
    "c_configured (config s) \<longrightarrow> dst = c_ipv4_address (config s) \<or> dst = 0xFFFFFFFF"
  shows "ipv4_receive E (ipv4_frame m h' ident 17 src dst (udp_segment sp dp c d)) s = Some (call_handler h src sp dp d (net_config s))"
proof -
  have "length (udp_segment sp dp c d) \<le> 1480" using assms(6) by (simp add: udp_segment_def)
  note a = ipv4_accept_frame [OF assms(1,2) this, of ident 17 src dst]
  have "listens dp h (net_config s)" "udp_ok (udp (net_config s))" using assms(3,4) by (simp_all add: listens_def)
  from udp_receive_segment [OF this(2,1) assms(5-7)] assms(8) show ?thesis
    by (auto simp: ipv4_receive_def a Let_def)
qed

text \<open>The next hop towards an address is in the ARP cache, so that sending does not wait.\<close>

definition reachable :: "u32 \<Rightarrow> u8 list \<Rightarrow> 'h net \<Rightarrow> bool" where
  "reachable ip m s \<longleftrightarrow> c_configured (config s) \<and> ip \<noteq> 0 \<and> ip \<noteq> 0xFFFFFFFF \<and> arp_lookup (route_next_hop ip (config s)) (arp s) = Some m"

lemma route_net_config [simp]: "route_next_hop ip (config (net_config s)) = route_next_hop ip (config s)"
  by (simp add: route_next_hop_def)

lemma reachable_net_config [simp]: "reachable ip m (net_config s) = reachable ip m s"
  by (simp add: reachable_def)

lemma arp_lookup_length: "arp_ok st \<Longrightarrow> arp_lookup ip st = Some m \<Longrightarrow> ip \<noteq> 0 \<and> length m = 6"
  unfolding arp_lookup_Some by (auto simp: arp_ok_def list_all_length)

lemma net_resolve_cached: "host_up s \<Longrightarrow> reachable ip m s \<Longrightarrow> net_resolve_ipv4 E ip t s = Some (Some m, s)"
  using arp_lookup_length [of "arp s" _ m] by (auto simp: net_resolve_ipv4_def reachable_def host_up_def Let_def)

lemma ipv4_send_cached:
  assumes "host_up s" "reachable ip m s" "n \<le> 1480"
    and "take n (rd ((net_config s)\<lparr>next_identification := next_identification s + 1\<rparr>)) = payload" "length payload = n"
  shows "ipv4_send_packet E ip protocol (Some rd) n s =
    Some (net_device_send_frame (ipv4_frame m (host_mac s) (next_identification s) protocol (c_ipv4_address (config s)) ip payload)
       ((net_config s)\<lparr>next_identification := next_identification s + 1\<rparr>))"
proof -
  have m: "length m = 6" using assms(1,2) arp_lookup_length [of "arp s"] by (auto simp: reachable_def host_up_def)
  have "ipv4_header (20 + n) i protocol x ip @ take n (rd ((net_config s)\<lparr>next_identification := next_identification s + 1\<rparr>))
      = ipv4_packet i protocol x ip payload" for i x
    using assms(4,5) by (simp add: ipv4_packet_def)
  moreover have "net_resolve_ipv4 E ip 1000 (net_config s) = Some (Some m, net_config s)"
    using assms by (intro net_resolve_cached) simp_all
  ultimately show ?thesis
    using assms send_built_packet [OF assms(1) m, of payload]
    by (simp add: ipv4_send_packet_def Let_def build_header_eq read_payload_def reachable_def)
qed

section \<open>Two example machines\<close>

text \<open>An adapter that is always ready, logs the frames it sends and never receives one.\<close>

definition demo_nic_ops :: "u8 list list RootNetDeviceOps" where
  "demo_nic_ops = \<lparr>ops_ready = Some (\<lambda>_ _. True), ops_link_up = Some (\<lambda>_ _. True),
     ops_send_frame = Some (\<lambda>_ f w. (True, w @ [f])), ops_receive_frame = Some (\<lambda>_ _ w. (None, w))\<rparr>"

definition demo_blank :: "u8 list \<Rightarrow> u8 list list net" where
  "demo_blank mac =
     \<lparr>world = [], nd = snd (net_device_register (Some ''demo'') 0 (Some demo_nic_ops) (Some mac) net_device_init), config = zero_config,
      arp = arp_init, next_identification = 0, udp = udp_init,
      dhcp = \<lparr>state_value = DHCP_STATE_IDLE, error_text = ''none'', transaction_id = 0, offered_ip = 0, offered_mask = 0,
        offered_gateway = 0, offered_dns = 0, offered_server = 0, offered_lease = 0, request_sent = False\<rparr>,
      dns = \<lparr>response = [], response_ready = False, active_id = 0, active_port = 0,
        cache = replicate ROOT_DNS_CACHE_SIZE blank_cache, cache_replace = 0\<rparr>,
      tcp = \<lparr>connections = replicate 4 zero_connection, tcp_transmit_buffer = replicate 1500 0, next_port = 50000\<rparr>\<rparr>"

definition demo_mac :: "u8 \<Rightarrow> u8 list" where
  "demo_mac k = [2, 0, 0, 0, 0, k]"

definition demo_net :: "u8 \<Rightarrow> u8 list list net" where
  "demo_net k = net_init (demo_blank (demo_mac k))"

definition demo_host :: "u8 \<Rightarrow> u32 \<Rightarrow> u8 list list net" where
  "demo_host k ip = net_apply_dhcp ip 0xFFFFFF00 0 0 0 0 (demo_net k)"

definition demo_env :: "u8 list list net_env" where
  "demo_env = stack_env \<lparr>pf_millis = (\<lambda>w. (0, w)), pf_hlt = (\<lambda>w. w)\<rparr> 0"

lemma demo_active:
  "net_device_active (nd (demo_blank mac)) = Some \<lparr>nd_used = True, nd_id = 0, nd_driver_name = ''demo'', nd_context = 0,
     nd_ops = demo_nic_ops, nd_mac = take 6 mac\<rparr>"
  by (simp add: demo_blank_def net_device_register_def net_device_init_def Let_def demo_nic_ops_def net_device_active_def numeral_eq_Suc)

lemma demo_net_fields:
  "nd (demo_net k) = nd (demo_blank (demo_mac k))" "arp (demo_net k) = arp_init"
  "udp (demo_net k) = snd (udp_bind 68 (Some Handler_dhcp_udp_receive) 0 udp_init)"
  "c_configured (config (demo_net k)) = False"
  by (simp_all add: demo_net_def net_init_def Let_def dhcp_init_def zero_config_def)

lemma demo_up: "host_up (demo_net k)" "host_mac (demo_net k) = demo_mac k" "listens 68 Handler_dhcp_udp_receive (demo_net k)"
proof -
  have "devices_ok (nd (demo_blank (demo_mac k)))"
    unfolding demo_blank_def by (simp add: devices_ok_register devices_ok_init demo_mac_def)
  moreover have "net_device_ready (demo_net k)"
    by (simp add: net_device_ready_def demo_net_fields demo_active demo_nic_ops_def)
  ultimately show "host_up (demo_net k)"
    by (simp add: host_up_def demo_net_fields arp_ok_init udp_ok_bind udp_ok_init)
  show "host_mac (demo_net k) = demo_mac k"
    by (simp add: host_mac_def net_device_get_mac_def demo_net_fields demo_active demo_mac_def)
  have "list_ex (\<lambda>b. ub_used b \<and> ub_port b = 68 \<and> ub_handler b = Some Handler_dhcp_udp_receive)
      (bindings (snd (udp_bind 68 (Some Handler_dhcp_udp_receive) 0 udp_init)))" by code_simp
  then show "listens 68 Handler_dhcp_udp_receive (demo_net k)" by (simp add: listens_def demo_net_fields)
qed

lemma demo_host_facts:
  "host_up (demo_host k ip)" "host_mac (demo_host k ip) = demo_mac k" "listens 68 Handler_dhcp_udp_receive (demo_host k ip)"
  "c_ipv4_address (config (demo_host k ip)) = ip" "c_configured (config (demo_host k ip)) = (ip \<noteq> 0)"
  "c_subnet_mask (config (demo_host k ip)) = 0xFFFFFF00" "arp (demo_host k ip) = arp_init"
  using demo_up [of k] by (simp_all add: demo_host_def net_apply_dhcp_def host_up_def host_mac_def listens_def demo_net_fields)

definition demo_peer :: "u8 list list net" where
  "demo_peer = (demo_host 1 0x0A000001)\<lparr>arp := arp_remember 0x0A000002 (demo_mac 2) arp_init\<rparr>"

lemma demo_peer_facts:
  "host_up demo_peer" "reachable 0x0A000002 (demo_mac 2) demo_peer" "c_ipv4_address (config demo_peer) = 0x0A000001"
proof -
  have m: "length (demo_mac 2) = 6" by (simp add: demo_mac_def)
  show "host_up demo_peer"
    using demo_host_facts [of 1 "0x0A000001"] m by (simp add: demo_peer_def host_up_def arp_ok_remember arp_ok_init)
  show "reachable 0x0A000002 (demo_mac 2) demo_peer"
    using demo_host_facts [of 1 "0x0A000001"] arp_lookup_remember(1) [OF arp_ok_init m, of "0x0A000002"]
    by (simp add: demo_peer_def reachable_def route_next_hop_def)
  show "c_ipv4_address (config demo_peer) = 0x0A000001" using demo_host_facts [of 1 "0x0A000001"] by (simp add: demo_peer_def)
qed

section \<open>From one machine to another\<close>

text \<open>
  C13: ARP works between two machines running this stack. When \<open>a\<close> asks for the address of \<open>b\<close>, it sends one broadcast
  frame; \<open>b\<close>, on receiving that frame, stores the address of \<open>a\<close> and sends one frame back; and \<open>a\<close>, in whatever
  state the answer finds it, then has the hardware address of \<open>b\<close> in its cache.
\<close>

theorem arp_exchange_correct:
  assumes "host_up a" "c_configured (config a)" "ip_a = c_ipv4_address (config a)" "ip_a \<noteq> 0"
    and "host_up b" "c_configured (config b)" "ip_b = c_ipv4_address (config b)" "ip_b \<noteq> 0"
    and "arp_ok (arp a')"
  shows "\<exists>query answer b'.
      arp_request ip_b a = net_device_send_frame query (net_config a)
    \<and> arp_receive query b = snd (net_device_send_frame answer b') \<and> arp_lookup ip_a (arp b') = Some (host_mac a)
    \<and> arp_lookup ip_b (arp (arp_receive answer a')) = Some (host_mac b)"
proof (intro exI conjI)
  let ?q = "arp_frame 1 broadcast_mac (host_mac a) ip_a (replicate 6 0) ip_b"
  let ?r = "arp_frame 2 (host_mac a) (host_mac b) ip_b (host_mac a) ip_a"
  let ?b = "net_config (b\<lparr>arp := arp_remember ip_a (host_mac a) (arp b)\<rparr>)"
  have m: "length (host_mac a) = 6" "length (host_mac b) = 6" "length broadcast_mac = 6" "arp_ok (arp b)"
    using assms by (simp_all add: broadcast_mac_def) (simp add: host_up_def)
  show "arp_request ip_b a = net_device_send_frame ?q (net_config a)"
    using arp_request_eq [OF assms(1,2,8)] assms(3) by simp
  show "arp_receive ?q b = snd (net_device_send_frame ?r ?b)"
    using arp_receive_request [OF assms(5,6), of broadcast_mac "host_mac a" "replicate 6 0" ip_a] m assms(7) by simp
  show "arp_lookup ip_a (arp ?b) = Some (host_mac a)"
    using arp_lookup_remember(1) [OF m(4) m(1) assms(4)] by simp
  have "arp_receive ?r a' = net_config (a'\<lparr>arp := arp_remember ip_b (host_mac b) (arp a')\<rparr>)"
    unfolding arp_receive_frame [OF m(1) m(2) m(1)] by (simp add: Let_def)
  then show "arp_lookup ip_b (arp (arp_receive ?r a')) = Some (host_mac b)"
    using arp_lookup_remember(1) [OF assms(9) m(2) assms(8)] by simp
qed

theorem arp_exchange_correct_witness:
  "\<exists>query answer b'.
      arp_request 0x0A000002 (demo_host 1 0x0A000001) = net_device_send_frame query (net_config (demo_host 1 0x0A000001))
    \<and> arp_receive query (demo_host 2 0x0A000002) = snd (net_device_send_frame answer b')
    \<and> arp_lookup 0x0A000001 (arp b') = Some (demo_mac 1)
    \<and> arp_lookup 0x0A000002 (arp (arp_receive answer (demo_host 1 0x0A000001))) = Some (demo_mac 2)"
  using arp_exchange_correct [of "demo_host 1 0x0A000001" "0x0A000001" "demo_host 2 0x0A000002" "0x0A000002" "demo_host 1 0x0A000001"]
    demo_host_facts [of 1 "0x0A000001"] demo_host_facts [of 2 "0x0A000002"] by (simp add: arp_ok_init)

text \<open>
  A UDP broadcast, which is how DHCP reaches its server before an address is configured, carries its payload
  unchanged from the sender to the handler bound to the port: the frame handed to the adapter, when another machine
  running this stack receives it, leads to exactly one call of that handler with the sender's address (0 while
  unconfigured), both ports and all payload bytes.
\<close>

theorem udp_broadcast_delivery:
  assumes "host_up a" "length d \<le> 1472" "source_port \<noteq> 0"
    and "host_up b" "listens port h b"
  shows "\<exists>frame a'. udp_send_broadcast source_port port (Some d) (length d) a = net_device_send_frame frame a'
    \<and> ipv4_receive E frame b = Some (call_handler h (if c_configured (config a) then c_ipv4_address (config a) else 0)
         source_port port d (net_config b))"
proof (intro exI conjI)
  define src where "src = (if c_configured (config a) then c_ipv4_address (config a) else 0)"
  let ?seg = "udp_segment source_port port 0 d"
  let ?a = "(net_config a)\<lparr>next_identification := next_identification a + 1\<rparr>"
  let ?f = "ipv4_frame broadcast_mac (host_mac a) (next_identification a) 17 src 0xFFFFFFFF ?seg"
  have l: "length broadcast_mac = 6" "length ?seg = 8 + length d" by (simp_all add: broadcast_mac_def udp_segment_def)
  have p: "ipv4_packet i 17 x y ?seg = ipv4_header (28 + length d) i 17 x y @ udp_header source_port port (8 + length d) 0 @ d" for i x y
    by (simp add: ipv4_packet_def udp_segment_def)
  show "udp_send_broadcast source_port port (Some d) (length d) a = net_device_send_frame ?f ?a"
    using assms(2) send_built_packet [OF assms(1) l(1), of ?seg "next_identification a" 17 src "0xFFFFFFFF" "next_identification a + 1"]
    by (cases "c_configured (config a)")
      (simp_all add: udp_send_broadcast_def ipv4_send_udp_broadcast_def Let_def build_header_eq read_payload_def p l(2) src_def)
  show "ipv4_receive E ?f b = Some (call_handler h (if c_configured (config a) then c_ipv4_address (config a) else 0)
      source_port port d (net_config b))"
    unfolding src_def [symmetric] using assms l by (intro ipv4_receive_udp) (simp_all add: host_up_def [of b])
qed

theorem udp_broadcast_delivery_witness:
  "\<exists>frame a'. udp_send_broadcast 67 68 (Some [1, 2, 3]) 3 (demo_net 1) = net_device_send_frame frame a'
    \<and> ipv4_receive demo_env frame (demo_net 2) = Some (call_handler Handler_dhcp_udp_receive 0 67 68 [1, 2, 3] (net_config (demo_net 2)))"
  using udp_broadcast_delivery [of "demo_net 1" "[1, 2, 3]" 67 "demo_net 2" 68 Handler_dhcp_udp_receive demo_env]
    demo_up [of 1] demo_up [of 2] demo_net_fields(4) [of 1] by (simp add: numeral_3_eq_3)

text \<open>
  C15: A UDP datagram to one machine, once its next hop is in the ARP cache, is sent at once as a single frame, and that
  frame is accepted by the addressed machine (its header checksum and the UDP checksum over pseudo-header, header and
  payload both verify) and handed to the handler bound to the destination port with the sender's address, both ports
  and exactly the payload.
\<close>

theorem udp_unicast_delivery:
  assumes "host_up a" "reachable ip m a" "length d \<le> 1472" "source_port \<noteq> 0"
    and "host_up b" "listens port h b" "c_configured (config b)" "ip = c_ipv4_address (config b)"
  shows "\<exists>frame a'. udp_send_to E ip source_port port (Some d) (length d) a = Some (net_device_send_frame frame a')
    \<and> ipv4_receive E' frame b = Some (call_handler h (c_ipv4_address (config a)) source_port port d (net_config b))"
proof (intro exI conjI)
  let ?src = "c_ipv4_address (config a)"
  let ?c = "udp_checksum ?src ip (udp_segment source_port port 0 d)"
  let ?seg = "udp_segment source_port port ?c d"
  let ?a = "(net_config a)\<lparr>next_identification := next_identification a + 1\<rparr>"
  let ?f = "ipv4_frame m (host_mac a) (next_identification a) 17 ?src ip ?seg"
  have m: "length m = 6" using assms(1,2) arp_lookup_length [of "arp a"] by (auto simp: reachable_def host_up_def)
  have l: "length ?seg = 8 + length d" by (simp add: udp_segment_def)
  have port: "port \<noteq> 0" using assms(6) by (simp add: listens_def)
  have "ipv4_send_packet E ip 17 (Some (\<lambda>_. ?seg)) (8 + length d) (net_config a) = Some (net_device_send_frame ?f ?a)"
    using ipv4_send_cached [of "net_config a" ip m "8 + length d" "\<lambda>_. ?seg" ?seg E 17] assms(1-3) l by simp
  then show "udp_send_to E ip source_port port (Some d) (length d) a = Some (net_device_send_frame ?f ?a)"
    using assms(2-4) port by (simp add: udp_send_to_def Let_def read_payload_def reachable_def udp_segment_def)
  show "ipv4_receive E' ?f b = Some (call_handler h ?src source_port port d (net_config b))"
    using assms m by (intro ipv4_receive_udp) (simp_all add: host_up_def [of b])
qed

theorem udp_unicast_delivery_witness:
  "\<exists>frame a'. udp_send_to demo_env 0x0A000002 67 68 (Some [1, 2, 3]) 3 demo_peer = Some (net_device_send_frame frame a')
    \<and> ipv4_receive demo_env frame (demo_host 2 0x0A000002)
        = Some (call_handler Handler_dhcp_udp_receive 0x0A000001 67 68 [1, 2, 3] (net_config (demo_host 2 0x0A000002)))"
  using udp_unicast_delivery [of demo_peer "0x0A000002" "demo_mac 2" "[1, 2, 3]" 67 "demo_host 2 0x0A000002" 68 Handler_dhcp_udp_receive
      demo_env demo_env] demo_peer_facts demo_host_facts [of 2 "0x0A000002"] by (simp add: numeral_3_eq_3)

end
