(* ===== verification/Root_Net_Tcp.thy ===== *)
theory Root_Net_Tcp
  imports Root_Net_Exchange
begin

text \<open>
  The TCP client of \<open>src/source/network/tcp.c\<close>: its connection table as an interpretation of \<open>slot_table\<close>, port
  allocation, and what \<open>tcp_receive\<close> does with the segments of a peer when the next hop is in the ARP cache: the
  handshake, data in and out of order, FIN and RST.
\<close>

section \<open>Connections\<close>

interpretation tcpt: slot_table t_used t_local_port zero_connection
  by unfold_locales (simp add: zero_connection_def)

definition tcp_ok :: "tcp_vars \<Rightarrow> bool" where
  "tcp_ok v \<longleftrightarrow> length (connections v) = ROOT_TCP_MAX_CONNECTIONS \<and> tcpt.keys_unique (connections v)
     \<and> 50000 \<le> next_port v \<and> next_port v \<le> 60000"

lemma tcp_ok_init: "tcp_ok (tcp_init v)"
  by (auto simp: tcp_ok_def tcp_init_def zero_connection_def tcpt.keys_unique_def)

lemma connection_found:
  assumes "tcp_ok v" "i < 4" "t_used (connections v ! i)"
  shows "find_slot (\<lambda>c. t_used c \<and> t_remote_ip c = t_remote_ip (connections v ! i) \<and> t_remote_port c = t_remote_port (connections v ! i)
      \<and> t_local_port c = t_local_port (connections v ! i)) (connections v) = Some i"
proof (rule find_slot_SomeI)
  show "i < length (connections v)" using assms by (simp add: tcp_ok_def)
  show "\<forall>j<i. \<not> (t_used (connections v ! j) \<and> t_remote_ip (connections v ! j) = t_remote_ip (connections v ! i) \<and>
      t_remote_port (connections v ! j) = t_remote_port (connections v ! i) \<and> t_local_port (connections v ! j) = t_local_port (connections v ! i))"
  proof (intro allI impI notI)
    fix j
    assume j: "j < i" "t_used (connections v ! j) \<and> t_remote_ip (connections v ! j) = t_remote_ip (connections v ! i) \<and>
      t_remote_port (connections v ! j) = t_remote_port (connections v ! i) \<and> t_local_port (connections v ! j) = t_local_port (connections v ! i)"
    then have "j = i" using assms tcpt.keys_uniqueD [of "connections v" j i] by (simp add: tcp_ok_def)
    with j show False by simp
  qed
qed (use assms in simp)

section \<open>Segments\<close>

definition tcp_segment :: "u32 \<Rightarrow> u32 \<Rightarrow> RootTcpConnection \<Rightarrow> u8 \<Rightarrow> u32 \<Rightarrow> u32 \<Rightarrow> u8 list \<Rightarrow> u8 list \<Rightarrow> u8 list" where
  "tcp_segment src dst c flags sequence acknowledgment opts d =
     tcp_header c flags sequence acknowledgment (20 + length opts)
       (tcp_checksum src dst (tcp_header c flags sequence acknowledgment (20 + length opts) 0 @ opts @ d)) @ opts @ d"

lemma length_tcp_header [simp]: "length (tcp_header c flags sn an hs ck) = 20"
  by (simp add: tcp_header_def)

lemma length_tcp_segment [simp]: "length (tcp_segment src dst c flags sn an opts d) = 20 + length opts + length d"
  by (simp add: tcp_segment_def)

lemma tcp_segment_sum:
  assumes "length opts + length d \<le> 1460"
  shows "tcp_checksum src dst (tcp_segment src dst c flags sn an opts d) = 0"
proof -
  let ?a = "net_write_be16 (t_local_port c) @ net_write_be16 (t_remote_port c) @ net_write_be32 sn @ net_write_be32 an
      @ [word_of_nat ((20 + length opts) div 4 * 16), flags] @ net_write_be16 32768"
  have h: "tcp_header c flags sn an (20 + length opts) ck @ opts @ d = ?a @ net_write_be16 ck @ (net_write_be16 0 @ opts @ d)" for ck
    by (simp add: tcp_header_def)
  show ?thesis
    unfolding tcp_segment_def h using assms by (intro tcp_checksum_fill) simp_all
qed

lemma tcp_header_reads:
  "net_read_be16 (tcp_header c flags sn an hs ck @ r) = t_local_port c"
  "net_read_be16 (drop 2 (tcp_header c flags sn an hs ck @ r)) = t_remote_port c"
  "net_read_be32 (drop 4 (tcp_header c flags sn an hs ck @ r)) = sn"
  "net_read_be32 (drop 8 (tcp_header c flags sn an hs ck @ r)) = an"
  "(tcp_header c flags sn an hs ck @ r) ! 12 = word_of_nat (hs div 4 * 16)"
  "(tcp_header c flags sn an hs ck @ r) ! 13 = flags"
  by (simp_all add: tcp_header_def nth_append wire_simps)

lemma header_nibble:
  assumes "hs \<le> 60" "4 dvd hs"
  shows "unat (drop_bit 4 (word_of_nat (hs div 4 * 16) :: u8)) * 4 = hs"
proof -
  have "hs div 4 \<in> set [0..<16]" using assms(1) by auto
  moreover have "list_all (\<lambda>k. unat (drop_bit 4 (word_of_nat (k * 16) :: u8)) = k) [0..<16]" by code_simp
  ultimately have "unat (drop_bit 4 (word_of_nat (hs div 4 * 16) :: u8)) = hs div 4" unfolding list_all_iff by blast
  with assms(2) show ?thesis by simp
qed

section \<open>Sending with a cached next hop\<close>

lemma net_config_tcp [simp]: "net_config ((net_config s)\<lparr>tcp := x\<rparr>) = (net_config s)\<lparr>tcp := x\<rparr>"
proof -
  have "net_device_link_up ((net_config s)\<lparr>tcp := x\<rparr>) = net_device_link_up s"
    by (simp add: net_device_link_up_def cong: option.case_cong)
  then show ?thesis
    using ready_net_config [of s] link_net_config [of s] by (simp add: net_config_def net_refresh_adapter_def Let_def)
qed

lemma host_up_tcp [simp]: "host_up (s\<lparr>tcp := x\<rparr>) = host_up s" "host_mac (s\<lparr>tcp := x\<rparr>) = host_mac s"
  "reachable ip m (s\<lparr>tcp := x\<rparr>) = reachable ip m s"
  by (simp_all add: host_up_def host_mac_def reachable_def)

text \<open>The state in front of the transmission, and the frame transmitted.\<close>

definition sending :: "nat \<Rightarrow> u8 list \<Rightarrow> 'h net \<Rightarrow> 'h net" where
  "sending n segment s = (net_config s)\<lparr>tcp := (tcp s)\<lparr>tcp_transmit_buffer := segment @ drop n (tcp_transmit_buffer (tcp s))\<rparr>,
     next_identification := next_identification s + 1\<rparr>"

definition tcp_frame :: "u8 list \<Rightarrow> u8 list \<Rightarrow> 'h net \<Rightarrow> u32 \<Rightarrow> u8 list" where
  "tcp_frame m segment s remote_ip =
     ipv4_frame m (host_mac s) (next_identification s) 6 (c_ipv4_address (config s)) remote_ip segment"

lemma send_segment_cached:
  assumes "host_up s" "reachable (t_remote_ip (the_connection i s)) m s"
    and c_def: "c = the_connection i s" and opts_def: "opts = tcp_options mss"
    and seg_def: "seg = tcp_segment (c_ipv4_address (config s)) (t_remote_ip c) c flags sn an opts []"
  shows "send_segment E i flags sn an mss s =
    Some (net_device_send_frame (tcp_frame m seg s (t_remote_ip c)) (sending (20 + length opts) seg s))"
proof -
  let ?n = "20 + length opts"
  let ?s = "(net_config s)\<lparr>tcp := (tcp s)\<lparr>tcp_transmit_buffer := seg @ drop ?n (tcp_transmit_buffer (tcp s))\<rparr>\<rparr>"
  have n: "(if mss then 24 else 20) = ?n" by (simp add: opts_def tcp_options_def)
  have c: "the_connection i (net_config s) = c" by (simp add: c_def the_connection_def)
  have seg: "tcp_header c flags sn an ?n (tcp_checksum (c_ipv4_address (config s)) (t_remote_ip c)
      (tcp_header c flags sn an ?n 0 @ opts)) @ opts @ r = seg @ r" for r by (simp add: seg_def tcp_segment_def)
  have "send_segment E i flags sn an mss s = ipv4_send_packet E (t_remote_ip c) 6 (Some (\<lambda>s. tcp_transmit_buffer (tcp s))) ?n ?s"
    using assms(2) by (simp add: send_segment_def Let_def n c seg opts_def [symmetric] reachable_def)
  also have "\<dots> = Some (net_device_send_frame (tcp_frame m seg s (t_remote_ip c)) (sending ?n seg s))"
    using assms(1,2) ipv4_send_cached [of ?s "t_remote_ip c" m ?n "\<lambda>s. tcp_transmit_buffer (tcp s)" seg E 6]
    by (simp add: tcp_frame_def sending_def c_def seg_def opts_def tcp_options_def)
  finally show ?thesis .
qed

section \<open>Receiving from the peer\<close>

text \<open>\<open>peer c c'\<close>: \<open>c'\<close> is the other end of \<open>c\<close>.\<close>

definition peer :: "RootTcpConnection \<Rightarrow> RootTcpConnection \<Rightarrow> bool" where
  "peer c c' \<longleftrightarrow> t_local_port c' = t_remote_port c \<and> t_remote_port c' = t_local_port c"

definition options_ok :: "u8 list \<Rightarrow> u8 list \<Rightarrow> bool" where
  "options_ok opts d \<longleftrightarrow> 4 dvd length opts \<and> length opts \<le> 40 \<and> length opts + length d \<le> 1460"

lemma tcp_header_receive_next [simp]: "tcp_header (c\<lparr>t_receive_next := x\<rparr>) = tcp_header c"
  by (intro ext) (simp add: tcp_header_def)

lemma tcp_segment_receive_next [simp]: "tcp_segment a b (c\<lparr>t_receive_next := x\<rparr>) = tcp_segment a b c"
  by (intro ext) (simp add: tcp_segment_def)

lemma connection_put [simp]:
  "i < length (connections (tcp s)) \<Longrightarrow> the_connection i (put_connection i c s) = c"
  "connections (tcp (put_connection i c s)) = (connections (tcp s))[i := c]"
  "the_connection i (net_config s) = the_connection i s"
  by (simp_all add: the_connection_def put_connection_def)

lemma tcp_receive_peer:
  assumes "tcp_ok (tcp s)" "i < 4" "c = the_connection i s" "t_used c" "peer c c'" "options_ok opts d"
  shows "tcp_receive E (t_remote_ip c) (c_ipv4_address (config s))
      (tcp_segment (t_remote_ip c) (c_ipv4_address (config s)) c' flags sn an opts d) s =
    (if flags AND TCP_FLAG_RST \<noteq> 0 then
       Some (put_connection i (c\<lparr>t_state := ROOT_TCP_RESET, t_last_error := Some ''peer reset''\<rparr>) (net_config s))
     else if t_state c = ROOT_TCP_SYN_SENT then tcp_receive_syn_sent E i sn an flags (net_config s)
     else if t_state c = ROOT_TCP_ESTABLISHED then tcp_receive_established E i sn flags (length d) (net_config s)
     else Some (net_config s))"
proof -
  let ?src = "t_remote_ip c" and ?dst = "c_ipv4_address (config s)"
  let ?seg = "tcp_segment ?src ?dst c' flags sn an opts d"
  have find: "find_slot (\<lambda>x. t_used x \<and> t_remote_ip x = ?src \<and> t_remote_port x = t_local_port c' \<and> t_local_port x = t_remote_port c')
      (connections (tcp (net_config s))) = Some i"
    using connection_found [OF assms(1,2)] assms(3-5) by (simp add: peer_def the_connection_def)
  have sum: "tcp_checksum ?src ?dst ?seg = 0" using assms(6) by (intro tcp_segment_sum) (simp add: options_ok_def)
  have hs: "unat (drop_bit 4 (?seg ! 12)) * 4 = 20 + length opts"
    unfolding tcp_segment_def tcp_header_reads using assms(6) by (intro header_nibble) (simp_all add: options_ok_def)
  have reads: "net_read_be16 ?seg = t_local_port c'" "net_read_be16 (drop 2 ?seg) = t_remote_port c'"
    "net_read_be32 (drop 4 ?seg) = sn" "net_read_be32 (drop 8 ?seg) = an" "?seg ! 13 = flags"
    by (simp_all only: tcp_segment_def tcp_header_reads)
  show ?thesis
    unfolding tcp_receive_def Let_def hs reads find
    using sum assms(3) by (simp add: Let_def)
qed

lemma ipv4_receive_tcp:
  assumes "length m = 6" "length h = 6" "length seg \<le> 1480"
  shows "ipv4_receive E (ipv4_frame m h ident 6 src (c_ipv4_address (config s)) seg) s =
    tcp_receive E src (c_ipv4_address (config s)) seg (net_config s)"
  using ipv4_accept_frame [OF assms, of ident 6 src "c_ipv4_address (config s)"] by (simp add: ipv4_receive_def Let_def)

lemma send_frame_keeps:
  "net_device_send_frame f s = (ok, s') \<Longrightarrow>
     nd s' = nd s \<and> config s' = config s \<and> arp s' = arp s \<and> udp s' = udp s \<and> dhcp s' = dhcp s \<and> dns s' = dns s \<and> tcp s' = tcp s
     \<and> next_identification s' = next_identification s"
  by (auto simp: net_device_send_frame_def split: option.splits prod.splits)

lemma length_reachable: "host_up s \<Longrightarrow> reachable ip m s \<Longrightarrow> length m = 6"
  using arp_lookup_length [of "arp s"] by (auto simp: reachable_def host_up_def)

lemma put_connection_keeps [simp]:
  "host_up (put_connection i c s) = host_up s" "host_mac (put_connection i c s) = host_mac s"
  "reachable ip m (put_connection i c s) = reachable ip m s" "config (put_connection i c s) = config s"
  "next_identification (put_connection i c s) = next_identification s"
  by (simp_all add: put_connection_def)

lemma receive_syn_ack:
  assumes "host_up s" "length (connections (tcp s)) = 4" "i < 4" "c = the_connection i s" "reachable (t_remote_ip c) m s"
    and "flags AND (TCP_FLAG_SYN OR TCP_FLAG_ACK) = (TCP_FLAG_SYN OR TCP_FLAG_ACK)"
    and "ack = tcp_segment (c_ipv4_address (config s)) (t_remote_ip c) c TCP_FLAG_ACK (t_send_next c) (sn + 1) [] []"
    and "net_device_send_frame (tcp_frame m ack s (t_remote_ip c)) (sending 20 ack (put_connection i (c\<lparr>t_receive_next := sn + 1\<rparr>) s)) = (ok, post)"
  shows "tcp_receive_syn_sent E i sn (t_send_next c) flags s =
    Some (put_connection i (c\<lparr>t_receive_next := sn + 1, t_state := (if ok then ROOT_TCP_ESTABLISHED else ROOT_TCP_ERROR),
       t_last_error := Some (if ok then ''none'' else ''final ACK send failed'')\<rparr>) post)"
proof -
  let ?c = "c\<lparr>t_receive_next := sn + 1\<rparr>"
  let ?s = "put_connection i ?c s"
  have the: "the_connection i ?s = ?c" using assms(2,3) by simp
  have fr: "tcp_frame m ack ?s ip = tcp_frame m ack s ip" for ip by (simp add: tcp_frame_def)
  have "send_segment E i TCP_FLAG_ACK (t_send_next c) (sn + 1) False ?s = Some (ok, post)"
    using send_segment_cached [of ?s i m ?c "[]" False ack TCP_FLAG_ACK "t_send_next c" "sn + 1" E] assms(1,5,7,8) the fr
    by (simp add: tcp_options_def)
  moreover have "the_connection i post = ?c"
    using send_frame_keeps [OF assms(8)] the by (simp add: the_connection_def sending_def)
  ultimately show ?thesis
    using assms(4,6) by (simp add: tcp_receive_syn_sent_def Let_def)
qed

text \<open>
  C11: The client's side of the TCP handshake. A connection in SYN-SENT that receives its peer's SYN-ACK (any window and
  options) acknowledging its sequence number answers with one frame, which the peer accepts as an IPv4 packet carrying
  the ACK segment with the client's next sequence number and the peer's plus one, and is then ESTABLISHED (or ERROR when
  the adapter refuses the frame). A segment without both flags or with another acknowledgment number changes nothing.
\<close>

theorem tcp_handshake_correct:
  assumes "host_up s" "tcp_ok (tcp s)" "i < 4" "c = the_connection i s" "t_used c" "t_state c = ROOT_TCP_SYN_SENT"
    and "reachable (t_remote_ip c) m s" "peer c c'" "options_ok opts []" "me = c_ipv4_address (config s)"
    and "flags AND TCP_FLAG_RST = 0" "length dst_mac = 6" "length src_mac = 6"
    and "frame = ipv4_frame dst_mac src_mac ident 6 (t_remote_ip c) me (tcp_segment (t_remote_ip c) me c' flags sn an opts [])"
  shows "if flags AND (TCP_FLAG_SYN OR TCP_FLAG_ACK) = (TCP_FLAG_SYN OR TCP_FLAG_ACK) \<and> an = t_send_next c
    then \<exists>answer pre ok post. net_device_send_frame answer pre = (ok, post)
      \<and> ipv4_accept answer = Some (me, t_remote_ip c, 6, tcp_segment me (t_remote_ip c) c TCP_FLAG_ACK (t_send_next c) (sn + 1) [] [])
      \<and> connections (tcp post) = (connections (tcp s))[i := c\<lparr>t_receive_next := sn + 1\<rparr>]
      \<and> ipv4_receive E frame s = Some (put_connection i (c\<lparr>t_receive_next := sn + 1,
          t_state := (if ok then ROOT_TCP_ESTABLISHED else ROOT_TCP_ERROR),
          t_last_error := Some (if ok then ''none'' else ''final ACK send failed'')\<rparr>) post)
    else ipv4_receive E frame s = Some (net_config s)"
proof -
  let ?s = "net_config s" and ?ip = "t_remote_ip c"
  let ?seg = "tcp_segment ?ip me c' flags sn an opts []"
  have "length ?seg \<le> 1480" using assms(9) by (simp add: options_ok_def)
  then have "ipv4_receive E frame s = tcp_receive E ?ip me ?seg ?s"
    using ipv4_receive_tcp [OF assms(12,13), of ?seg E ident ?ip s] assms(10,14) by simp
  also have "\<dots> = tcp_receive_syn_sent E i sn an flags ?s"
    using tcp_receive_peer [of ?s i c c' opts "[]" E flags sn an] assms(2-6,8-11) by simp
  finally have rcv: "ipv4_receive E frame s = tcp_receive_syn_sent E i sn an flags ?s" .
  show ?thesis
  proof (cases "flags AND (TCP_FLAG_SYN OR TCP_FLAG_ACK) = (TCP_FLAG_SYN OR TCP_FLAG_ACK) \<and> an = t_send_next c")
    case True
    let ?ack = "tcp_segment me ?ip c TCP_FLAG_ACK (t_send_next c) (sn + 1) [] []"
    let ?pre = "sending 20 ?ack (put_connection i (c\<lparr>t_receive_next := sn + 1\<rparr>) ?s)"
    obtain ok post where send: "net_device_send_frame (tcp_frame m ?ack ?s ?ip) ?pre = (ok, post)" by fastforce
    have m: "length m = 6" by (rule length_reachable [OF assms(1,7)])
    have acc: "ipv4_accept (tcp_frame m ?ack ?s ?ip) = Some (me, ?ip, 6, ?ack)"
      unfolding tcp_frame_def using ipv4_accept_frame m assms(1,10) by simp
    have conn: "connections (tcp post) = (connections (tcp s))[i := c\<lparr>t_receive_next := sn + 1\<rparr>]"
      using send_frame_keeps [OF send] by (simp add: sending_def)
    have "tcp_receive_syn_sent E i sn (t_send_next c) flags ?s = Some (put_connection i (c\<lparr>t_receive_next := sn + 1,
          t_state := (if ok then ROOT_TCP_ESTABLISHED else ROOT_TCP_ERROR),
          t_last_error := Some (if ok then ''none'' else ''final ACK send failed'')\<rparr>) post)"
      using assms(1-5,7,10) True send by (intro receive_syn_ack [of ?s i c m flags ?ack]) (simp_all add: tcp_ok_def)
    then have r: "ipv4_receive E frame s = Some (put_connection i (c\<lparr>t_receive_next := sn + 1,
          t_state := (if ok then ROOT_TCP_ESTABLISHED else ROOT_TCP_ERROR),
          t_last_error := Some (if ok then ''none'' else ''final ACK send failed'')\<rparr>) post)"
      using rcv True by (simp only:)
    show ?thesis unfolding if_P [OF True] by (intro exI conjI, rule send, rule acc, rule conn, rule r)
  next
    case False
    then show ?thesis using rcv assms(4) by (auto simp: tcp_receive_syn_sent_def Let_def)
  qed
qed

definition demo_conn :: RootTcpConnection where
  "demo_conn = \<lparr>t_used = True, t_remote_ip = 0x0A000002, t_local_port = 50000, t_remote_port = 80, t_send_next = 101,
     t_receive_next = 0, t_state = ROOT_TCP_SYN_SENT, t_last_error = Some ''none''\<rparr>"

definition demo_peer_conn :: RootTcpConnection where
  "demo_peer_conn = zero_connection\<lparr>t_local_port := 80, t_remote_port := 50000\<rparr>"

definition demo_client :: "RootTcpConnection \<Rightarrow> u8 list list net" where
  "demo_client c = put_connection 0 c (demo_peer\<lparr>tcp := tcp_init (tcp demo_peer)\<rparr>)"

lemma demo_client_facts:
  "host_up (demo_client c)" "reachable 0x0A000002 (demo_mac 2) (demo_client c)" "tcp_ok (tcp (demo_client c))"
  "the_connection 0 (demo_client c) = c" "c_ipv4_address (config (demo_client c)) = 0x0A000001"
  "connections (tcp (demo_client c)) = [c, zero_connection, zero_connection, zero_connection]"
proof -
  show "host_up (demo_client c)" "reachable 0x0A000002 (demo_mac 2) (demo_client c)" "c_ipv4_address (config (demo_client c)) = 0x0A000001"
    using demo_peer_facts by (simp_all add: demo_client_def)
  show l: "connections (tcp (demo_client c)) = [c, zero_connection, zero_connection, zero_connection]"
    by (simp add: demo_client_def tcp_init_def numeral_eq_Suc)
  then show "the_connection 0 (demo_client c) = c" by (simp add: the_connection_def)
  have ok: "tcp_ok (tcp_init (tcp demo_peer))" by (rule tcp_ok_init)
  have "tcpt.keys_unique ((connections (tcp_init (tcp demo_peer)))[0 := c])"
  proof (rule tcpt.rekey_unique)
    fix j
    assume "j < length (connections (tcp_init (tcp demo_peer)))" "t_used (connections (tcp_init (tcp demo_peer)) ! j)"
    then show "t_local_port (connections (tcp_init (tcp demo_peer)) ! j) \<noteq> t_local_port c"
      by (simp add: tcp_init_def zero_connection_def)
  qed (use ok in \<open>simp_all add: tcp_ok_def\<close>)
  then show "tcp_ok (tcp (demo_client c))" using ok by (simp add: demo_client_def tcp_ok_def put_connection_def)
qed

theorem tcp_handshake_correct_witness:
  "\<exists>answer pre ok post. net_device_send_frame answer pre = (ok, post)
      \<and> ipv4_accept answer = Some (0x0A000001, 0x0A000002, 6, tcp_segment 0x0A000001 0x0A000002 demo_conn TCP_FLAG_ACK 101 501 [] [])
      \<and> connections (tcp post) = (connections (tcp (demo_client demo_conn)))[0 := demo_conn\<lparr>t_receive_next := 501\<rparr>]
      \<and> ipv4_receive demo_env (ipv4_frame (demo_mac 1) (demo_mac 2) 7 6 0x0A000002 0x0A000001
          (tcp_segment 0x0A000002 0x0A000001 demo_peer_conn 0x12 500 101 [] [])) (demo_client demo_conn)
        = Some (put_connection 0 (demo_conn\<lparr>t_receive_next := 501,
          t_state := (if ok then ROOT_TCP_ESTABLISHED else ROOT_TCP_ERROR),
          t_last_error := Some (if ok then ''none'' else ''final ACK send failed'')\<rparr>) post)"
  using tcp_handshake_correct [of "demo_client demo_conn" 0 demo_conn "demo_mac 2" demo_peer_conn "[]" "0x0A000001" "0x12"
      "demo_mac 1" "demo_mac 2" _ 7 500 101 demo_env, OF _ _ _ _ _ _ _ _ _ _ _ _ _ refl] demo_client_facts [of demo_conn]
  by (simp add: demo_conn_def peer_def demo_peer_conn_def options_ok_def demo_mac_def)

section \<open>The established connection\<close>

text \<open>What a transmission leaves alone.\<close>

definition same_tables :: "'h net \<Rightarrow> 'h net \<Rightarrow> bool" where
  "same_tables s s' \<longleftrightarrow> nd s' = nd s \<and> arp s' = arp s \<and> udp s' = udp s \<and> dhcp s' = dhcp s \<and> dns s' = dns s
     \<and> connections (tcp s') = connections (tcp s) \<and> next_port (tcp s') = next_port (tcp s)
     \<and> c_configured (config s') = c_configured (config s) \<and> c_ipv4_address (config s') = c_ipv4_address (config s)
     \<and> c_subnet_mask (config s') = c_subnet_mask (config s) \<and> c_gateway (config s') = c_gateway (config s)
     \<and> c_dns_server (config s') = c_dns_server (config s)"

lemma same_tables_refl [simp]: "same_tables s s"
  by (simp add: same_tables_def)

lemma same_tables_trans: "same_tables s s' \<Longrightarrow> same_tables s' s'' \<Longrightarrow> same_tables s s''"
  by (simp add: same_tables_def)

lemma same_tables_config [simp]: "same_tables s (net_config s)"
  by (simp add: same_tables_def)

lemma send_ethernet_tables: "net_send_ethernet m ty p n s = (ok, s') \<Longrightarrow> same_tables s s'"
proof -
  assume a: "net_send_ethernet m ty p n s = (ok, s')"
  show ?thesis
  proof (cases "s' = s")
    case False
    with a obtain f where "net_device_send_frame f (net_config s) = (ok, s')"
      by (auto simp: net_send_ethernet_def Let_def net_config_def split: if_splits)
    from send_frame_keeps [OF this] show ?thesis by (simp add: same_tables_def)
  qed simp
qed

lemma route_same: "same_tables s s' \<Longrightarrow> route_next_hop ip (config s') = route_next_hop ip (config s)"
  by (simp add: same_tables_def route_next_hop_def)

lemma reachable_same: "same_tables s s' \<Longrightarrow> reachable ip m s' = reachable ip m s"
  by (simp add: reachable_def route_same) (simp add: same_tables_def)

lemma resolve_known: "arp_ok (arp s) \<Longrightarrow> reachable ip m s \<Longrightarrow> net_resolve_ipv4 E ip t s = Some (Some m, s)"
  using arp_lookup_length [of "arp s" _ m] by (auto simp: net_resolve_ipv4_def reachable_def Let_def)

lemma send_segment_form:
  "c_configured (config s) \<Longrightarrow> \<exists>b. send_segment E i flags sn an mss s =
     ipv4_send_packet E (t_remote_ip (the_connection i s)) 6 (Some (\<lambda>s. tcp_transmit_buffer (tcp s))) (if mss then 24 else 20)
       ((net_config s)\<lparr>tcp := (tcp s)\<lparr>tcp_transmit_buffer := b\<rparr>\<rparr>)"
  unfolding send_segment_def Let_def by (simp split del: if_split) blast

lemma send_segment_known:
  assumes "arp_ok (arp s)" "reachable (t_remote_ip (the_connection i s)) m s"
  shows "\<exists>ok s'. send_segment E i flags sn an mss s = Some (ok, s') \<and> same_tables s s'"
proof -
  define ip n where "ip = t_remote_ip (the_connection i s)" and "n = (if mss then 24 else 20 :: nat)"
  have n: "n \<le> 1480" by (simp add: n_def)
  have conf: "c_configured (config s)" using assms(2) by (simp add: reachable_def)
  have ip: "ip \<noteq> 0" using assms(2) by (simp add: reachable_def ip_def)
  obtain b where s1: "send_segment E i flags sn an mss s =
      ipv4_send_packet E ip 6 (Some (\<lambda>s. tcp_transmit_buffer (tcp s))) n ((net_config s)\<lparr>tcp := (tcp s)\<lparr>tcp_transmit_buffer := b\<rparr>\<rparr>)"
    using send_segment_form [OF conf, of E i flags sn an mss] unfolding ip_def n_def by blast
  let ?s = "(net_config s)\<lparr>tcp := (tcp s)\<lparr>tcp_transmit_buffer := b\<rparr>\<rparr>"
  have r: "net_resolve_ipv4 E ip 1000 ?s = Some (Some m, ?s)"
    using assms by (intro resolve_known) (simp_all add: ip_def)
  obtain p where s2: "ipv4_send_packet E ip 6 (Some (\<lambda>s. tcp_transmit_buffer (tcp s))) n ?s =
      Some (net_send_ethernet (Some m) 0x0800 (Some p) (20 + n) (?s\<lparr>next_identification := next_identification s + 1\<rparr>))"
    using r conf ip n by (simp add: ipv4_send_packet_def Let_def build_header_eq)
  obtain ok s' where s3: "net_send_ethernet (Some m) 0x0800 (Some p) (20 + n) (?s\<lparr>next_identification := next_identification s + 1\<rparr>) = (ok, s')"
    by fastforce
  have "same_tables s (?s\<lparr>next_identification := next_identification s + 1\<rparr>)" by (simp add: same_tables_def)
  from same_tables_trans [OF this send_ethernet_tables [OF s3]] s1 s2 s3 show ?thesis by simp
qed

lemma acked_step:
  assumes "arp_ok (arp s)" "length (connections (tcp s)) = 4" "i < 4" "c = the_connection i s" "reachable (t_remote_ip c) m s"
    and "t_remote_ip x = t_remote_ip c"
  shows "\<exists>s'. map_option snd (send_segment E i TCP_FLAG_ACK sn an False (put_connection i x s)) = Some s' \<and>
     connections (tcp s') = (connections (tcp s))[i := x] \<and> the_connection i s' = x \<and> arp s' = arp s \<and> reachable (t_remote_ip c) m s'"
proof -
  let ?s = "put_connection i x s"
  have the: "the_connection i ?s = x" using assms(2,3) by simp
  have arp: "arp ?s = arp s" by (simp add: put_connection_def)
  obtain ok s' where s': "send_segment E i TCP_FLAG_ACK sn an False ?s = Some (ok, s')" "same_tables ?s s'"
    using send_segment_known [of ?s i m E TCP_FLAG_ACK sn an False] assms(1,5,6) the arp by auto
  moreover have "reachable (t_remote_ip c) m s'" using reachable_same [OF s'(2)] assms(5) by simp
  moreover have "connections (tcp s') = (connections (tcp s))[i := x]" "arp s' = arp s"
    using s'(2) arp by (simp_all add: same_tables_def)
  moreover from this have "the_connection i s' = x" using assms(2,3) by (simp add: the_connection_def)
  ultimately show ?thesis by auto
qed

definition tcp_advance :: "u32 \<Rightarrow> u8 \<Rightarrow> nat \<Rightarrow> RootTcpConnection \<Rightarrow> RootTcpConnection" where
  "tcp_advance sn flags n c =
     (let c = (if sn = t_receive_next c then c\<lparr>t_receive_next := t_receive_next c + word_of_nat n\<rparr> else c)
      in if flags AND TCP_FLAG_FIN \<noteq> 0 then c\<lparr>t_receive_next := t_receive_next c + 1, t_state := ROOT_TCP_FIN_WAIT\<rparr> else c)"

lemma receive_established:
  assumes "arp_ok (arp s)" "length (connections (tcp s)) = 4" "i < 4" "c = the_connection i s" "reachable (t_remote_ip c) m s"
  shows "\<exists>s'. tcp_receive_established E i sn flags n s = Some s' \<and> connections (tcp s') = (connections (tcp s))[i := tcp_advance sn flags n c]"
proof -
  define x where "x = (if sn = t_receive_next c then c\<lparr>t_receive_next := t_receive_next c + word_of_nat n\<rparr> else c)"
  have id: "(connections (tcp s))[i := c] = connections (tcp s)" using assms(4) by (simp add: the_connection_def)
  have x: "t_remote_ip x = t_remote_ip c" by (simp add: x_def)
  obtain s1 where s1: "(if sn = t_receive_next c \<and> n > 0 then
        map_option snd (send_segment E i TCP_FLAG_ACK (t_send_next c) (t_receive_next x) False (put_connection i x s)) else Some s) = Some s1"
    "connections (tcp s1) = (connections (tcp s))[i := x]" "the_connection i s1 = x" "arp s1 = arp s" "reachable (t_remote_ip c) m s1"
  proof (cases "sn = t_receive_next c \<and> n > 0")
    case True
    obtain s' where s': "map_option snd (send_segment E i TCP_FLAG_ACK (t_send_next c) (t_receive_next x) False (put_connection i x s)) = Some s'"
      "connections (tcp s') = (connections (tcp s))[i := x]" "the_connection i s' = x" "arp s' = arp s" "reachable (t_remote_ip c) m s'"
      using acked_step [OF assms x, of E "t_send_next c" "t_receive_next x"] by blast
    from s'(1) True have "(if sn = t_receive_next c \<and> n > 0 then
        map_option snd (send_segment E i TCP_FLAG_ACK (t_send_next c) (t_receive_next x) False (put_connection i x s)) else Some s) = Some s'"
      by (simp only: if_True simp_thms)
    from this s'(2-5) show thesis by (rule that)
  next
    case False
    then have xc: "x = c" by (auto simp: x_def)
    show thesis
    proof (rule that [of s])
      show "connections (tcp s) = (connections (tcp s))[i := x]" using id xc by (simp only:)
      show "the_connection i s = x" using assms(4) xc by (simp only:)
    qed (use False assms(5) in auto)
  qed
  have first: "tcp_receive_established E i sn flags n s =
      (if flags AND TCP_FLAG_FIN \<noteq> 0 then
         let y = x\<lparr>t_receive_next := t_receive_next x + 1\<rparr> in
         Option.bind (map_option snd (send_segment E i TCP_FLAG_ACK (t_send_next y) (t_receive_next y) False (put_connection i y s1)))
           (\<lambda>s. Some (put_connection i ((the_connection i s)\<lparr>t_state := ROOT_TCP_FIN_WAIT\<rparr>) s))
       else Some s1)"
    using s1(1,3) assms(4) by (auto simp: tcp_receive_established_def Let_def x_def split: if_splits)
  show ?thesis
  proof (cases "flags AND TCP_FLAG_FIN = 0")
    case True
    then show ?thesis using first s1(2) by (simp add: tcp_advance_def x_def)
  next
    case False
    let ?y = "x\<lparr>t_receive_next := t_receive_next x + 1\<rparr>"
    have ok1: "arp_ok (arp s1)" using assms(1) s1(4) by simp
    have len1: "length (connections (tcp s1)) = 4" using assms(2) s1(2) by simp
    have reach1: "reachable (t_remote_ip x) m s1" using s1(5) x by simp
    obtain s2 where s2: "map_option snd (send_segment E i TCP_FLAG_ACK (t_send_next ?y) (t_receive_next ?y) False (put_connection i ?y s1)) = Some s2"
      "connections (tcp s2) = (connections (tcp s1))[i := ?y]" "the_connection i s2 = ?y"
      using acked_step [OF ok1 len1 assms(3) s1(3) [symmetric] reach1, of ?y E "t_send_next ?y" "t_receive_next ?y"] by force
    have adv: "tcp_advance sn flags n c = ?y\<lparr>t_state := ROOT_TCP_FIN_WAIT\<rparr>"
      using False by (simp add: tcp_advance_def x_def [symmetric] Let_def)
    have "tcp_receive_established E i sn flags n s = Some (put_connection i (?y\<lparr>t_state := ROOT_TCP_FIN_WAIT\<rparr>) s2)"
      unfolding first Let_def s2(1) using False s2(3) by simp
    then show ?thesis using s2(2) s1(2) unfolding adv by simp
  qed
qed



end
