(* ===== verification/Root_Net_Safety.thy ===== *)
theory Root_Net_Safety
  imports Root_Net_Tcp
begin

text \<open>
  Safety of the whole stack against any driver, any clock and any received bytes. \<open>net_ok P W\<close> collects the invariants of
  the components and a property \<open>W\<close> of the machine outside the stack that the registered drivers, which satisfy \<open>P\<close>,
  keep as long as they are only given frames of 60 to 1514 bytes (\<open>driver_law\<close>). Every routine keeps it, hence so does every sequence of operations; taking
  for \<open>W\<close> a statement about the frames handed out so far turns this into a bound on them.
\<close>

section \<open>The invariant\<close>

definition driver_law :: "('h \<Rightarrow> bool) \<Rightarrow> 'h RootNetDevice \<Rightarrow> bool" where
  "driver_law W dev \<longleftrightarrow>
     (\<forall>w f. W w \<longrightarrow> 60 \<le> length f \<longrightarrow> length f \<le> 1514 \<longrightarrow> W (snd (the (ops_send_frame (nd_ops dev)) (nd_context dev) f w)))
     \<and> (\<forall>w n. W w \<longrightarrow> W (snd (the (ops_receive_frame (nd_ops dev)) (nd_context dev) n w)))"

definition platform_law :: "('h \<Rightarrow> bool) \<Rightarrow> 'h platform \<Rightarrow> bool" where
  "platform_law W pf \<longleftrightarrow> (\<forall>w. W w \<longrightarrow> W (snd (pf_millis pf w)) \<and> W (pf_hlt pf w))"

definition net_ok :: "('h RootNetDevice \<Rightarrow> bool) \<Rightarrow> ('h \<Rightarrow> bool) \<Rightarrow> 'h net \<Rightarrow> bool" where
  "net_ok P W s \<longleftrightarrow> W (world s) \<and> devices_ok (nd s) \<and> (\<forall>dev. P dev \<longrightarrow> driver_law W dev)
     \<and> (\<forall>dev\<in>set (take (dev_count (nd s)) (devices (nd s))). P dev)
     \<and> arp_ok (arp s) \<and> udp_ok (udp s) \<and> tcp_ok (tcp s)
     \<and> length (cache (dns s)) = ROOT_DNS_CACHE_SIZE \<and> cache_replace (dns s) < ROOT_DNS_CACHE_SIZE"

definition env_ok :: "('h RootNetDevice \<Rightarrow> bool) \<Rightarrow> ('h \<Rightarrow> bool) \<Rightarrow> 'h net_env \<Rightarrow> bool" where
  "env_ok P W E \<longleftrightarrow> platform_law W (env_pf E) \<and> (\<forall>s s'. net_ok P W s \<longrightarrow> env_poll E s = Some s' \<longrightarrow> net_ok P W s')"

named_theorems net_keeps "routines that keep the invariant"

lemma active_mem:
  assumes "devices_ok (nd s)" "net_device_active (nd s) = Some dev"
  shows "dev \<in> set (take (dev_count (nd s)) (devices (nd s)))"
proof -
  let ?i = "active_index (nd s)" and ?n = "dev_count (nd s)"
  have i: "?i < ?n" "dev = devices (nd s) ! ?i" using assms(2) by (auto simp: net_device_active_def split: if_splits)
  moreover have "?n \<le> length (devices (nd s))" using assms(1) by (simp add: devices_ok_def)
  ultimately have "dev = take ?n (devices (nd s)) ! ?i" "?i < length (take ?n (devices (nd s)))" by simp_all
  then show ?thesis using nth_mem by blast
qed

lemma active_law: "net_ok P W s \<Longrightarrow> net_device_active (nd s) = Some dev \<Longrightarrow> driver_law W dev"
  using active_mem [of s dev] by (simp add: net_ok_def)

lemma net_ok_config [simp]: "net_ok P W (s\<lparr>config := c\<rparr>) = net_ok P W s"
  by (simp add: net_ok_def)

lemma net_ok_unchecked [simp]:
  "net_ok P W (s\<lparr>next_identification := x\<rparr>) = net_ok P W s" "net_ok P W (s\<lparr>dhcp := d\<rparr>) = net_ok P W s"
  by (simp_all add: net_ok_def)

lemma net_ok_net_config [simp]: "net_ok P W (net_config s) = net_ok P W s"
  by (simp add: net_config_def net_refresh_adapter_def Let_def)

lemma send_frame_ok [net_keeps]:
  assumes "net_device_send_frame f s = (ok, s')" "net_ok P W s" "60 \<le> length f" "length f \<le> 1514"
  shows "net_ok P W s'"
proof -
  have w: "W (world s)" using assms(2) by (simp add: net_ok_def)
  have "W (world s')"
    using assms(1,3,4) w active_law [OF assms(2)]
    by (auto simp: net_device_send_frame_def driver_law_def split: option.splits prod.splits) (metis snd_conv)
  then show ?thesis using assms(2) send_frame_keeps [OF assms(1)] by (simp add: net_ok_def)
qed

lemma receive_frame_ok [net_keeps]:
  assumes "net_device_receive_frame n s = (r, s')" "net_ok P W s"
  shows "net_ok P W s'"
proof -
  have w: "W (world s)" using assms(2) by (simp add: net_ok_def)
  then have "W (world s')"
    using assms(1) active_law [OF assms(2)]
    by (auto simp: net_device_receive_frame_def driver_law_def split: option.splits prod.splits) (metis snd_conv)
  then show ?thesis
    using assms by (auto simp: net_device_receive_frame_def net_ok_def split: option.splits prod.splits)
qed

lemma mac_length: "length (c_mac (config (net_refresh_adapter s))) \<le> 6"
  by (simp add: net_refresh_adapter_def Let_def net_device_get_mac_def split: option.split)

lemma send_ethernet_ok [net_keeps]:
  assumes "net_send_ethernet m ty p n s = (ok, s')" "net_ok P W s"
  shows "net_ok P W s'"
proof (cases "s' = s")
  case False
  let ?s = "net_refresh_adapter s"
  let ?f = "take 6 (the m) @ c_mac (config ?s) @ net_write_be16 ty @ read_payload p n"
  let ?g = "if length ?f < 60 then ?f @ replicate (60 - length ?f) 0 else ?f"
  from assms(1) False have n: "n \<le> 1500" and send: "net_device_send_frame ?g ?s = (ok, s')"
    by (auto simp: net_send_ethernet_def Let_def split: if_splits)
  have "length (read_payload p n) \<le> n" by (simp add: read_payload_def split: option.split)
  then have "60 \<le> length ?g" "length ?g \<le> 1514" using n mac_length [of s] by auto
  from send_frame_ok [OF send _ this] assms(2) show ?thesis by (simp add: net_config_def [symmetric])
qed (use assms in simp)

lemma send_ethernet_snd [simp]: "net_ok P W s \<Longrightarrow> net_ok P W (snd (net_send_ethernet m ty p n s))"
  by (rule send_ethernet_ok [OF surjective_pairing])

lemma arp_request_ok [net_keeps]: "arp_request ip s = (ok, s') \<Longrightarrow> net_ok P W s \<Longrightarrow> net_ok P W s'"
  by (auto simp: arp_request_def Let_def dest: send_ethernet_ok split: if_splits)

lemma net_ok_arp: "net_ok P W s \<Longrightarrow> length mac = 6 \<Longrightarrow> net_ok P W (s\<lparr>arp := arp_remember ip mac (arp s)\<rparr>)"
  by (simp add: net_ok_def arp_ok_remember)

lemma arp_receive_ok [net_keeps]:
  assumes "net_ok P W s"
  shows "net_ok P W (arp_receive frame s)"
proof -
  let ?m = "take 6 (drop 22 frame)" and ?ip = "net_read_be32 (drop 28 frame)"
  have "net_ok P W (net_config (s\<lparr>arp := arp_remember ?ip ?m (arp s)\<rparr>))" if "\<not> length frame < 42"
    using assms that by (simp add: net_ok_arp)
  then show ?thesis
    using assms unfolding arp_receive_def Let_def by simp
qed

section \<open>Sending\<close>

lemma net_ok_world: "net_ok P W s \<Longrightarrow> W w \<Longrightarrow> net_ok P W (s\<lparr>world := w\<rparr>)"
  by (simp add: net_ok_def)

lemma millis_ok: "root_time_millis pf s = (t, s') \<Longrightarrow> platform_law W pf \<Longrightarrow> net_ok P W s \<Longrightarrow> net_ok P W s'"
proof -
  assume a: "root_time_millis pf s = (t, s')" "platform_law W pf" "net_ok P W s"
  then have "s' = s\<lparr>world := snd (pf_millis pf (world s))\<rparr>" by (auto simp: root_time_millis_def split: prod.splits)
  with a show ?thesis by (simp add: net_ok_world) (simp add: platform_law_def net_ok_def)
qed

lemma halt_ok: "platform_law W pf \<Longrightarrow> net_ok P W s \<Longrightarrow> net_ok P W (halt pf s)"
  unfolding halt_def by (rule net_ok_world) (simp_all add: platform_law_def net_ok_def)

lemma env_okD:
  "env_ok P W E \<Longrightarrow> platform_law W (env_pf E)"
  "env_ok P W E \<Longrightarrow> env_poll E s = Some s' \<Longrightarrow> net_ok P W s \<Longrightarrow> net_ok P W s'"
  by (auto simp: env_ok_def)

lemma resolve_wait_ok: "resolve_wait n E ip deadline s = Some (r, s') \<Longrightarrow> env_ok P W E \<Longrightarrow> net_ok P W s \<Longrightarrow> net_ok P W s'"
proof (induction n arbitrary: s)
  case (Suc n)
  obtain t s1 where t: "root_time_millis (env_pf E) s = (t, s1)" by fastforce
  note ok1 = millis_ok [OF t env_okD(1) [OF Suc.prems(2)] Suc.prems(3)]
  show ?case
  proof (cases "t < deadline")
    case True
    with Suc.prems(1) t obtain s2 where s2: "env_poll E s1 = Some s2"
      and rest: "(case arp_lookup ip (arp s2) of Some mac \<Rightarrow> Some (Some mac, s2)
        | None \<Rightarrow> resolve_wait n E ip deadline (halt (env_pf E) s2)) = Some (r, s')"
      by (auto simp: bind_eq_Some_conv)
    note ok2 = env_okD(2) [OF Suc.prems(2) s2 ok1]
    show ?thesis
      using rest ok2 Suc.IH [OF _ Suc.prems(2) halt_ok [OF env_okD(1) [OF Suc.prems(2)] ok2]] by (auto split: option.splits)
  next
    case False
    then show ?thesis using Suc.prems(1) t ok1 by simp
  qed
qed simp

lemma resolve_ok: "net_resolve_ipv4 E ip timeout s = Some (r, s') \<Longrightarrow> env_ok P W E \<Longrightarrow> net_ok P W s \<Longrightarrow> net_ok P W s'"
  by (auto simp: net_resolve_ipv4_def Let_def split: if_splits option.splits prod.splits bool.splits
      dest: arp_request_ok resolve_wait_ok millis_ok env_okD)

lemma send_ident_ok:
  "net_send_ethernet m ty p n (s\<lparr>next_identification := x\<rparr>) = (ok, s') \<Longrightarrow> net_ok P W s \<Longrightarrow> net_ok P W s'"
  using send_ethernet_ok [of m ty p n "s\<lparr>next_identification := x\<rparr>" ok s' P W] by simp

lemma send_packet_ok: "ipv4_send_packet E ip p rd n s = Some (r, s') \<Longrightarrow> env_ok P W E \<Longrightarrow> net_ok P W s \<Longrightarrow> net_ok P W s'"
  by (auto simp: ipv4_send_packet_def Let_def build_header_eq bind_eq_Some_conv split: if_splits option.splits
      dest!: resolve_ok dest: send_ident_ok)

lemma udp_broadcast_ok: "ipv4_send_udp_broadcast sp dp p n s = (r, s') \<Longrightarrow> net_ok P W s \<Longrightarrow> net_ok P W s'"
  by (auto simp: ipv4_send_udp_broadcast_def Let_def build_header_eq split: if_splits dest: send_ident_ok)

lemma udp_send_to_ok: "udp_send_to E ip sp dp p n s = Some (r, s') \<Longrightarrow> env_ok P W E \<Longrightarrow> net_ok P W s \<Longrightarrow> net_ok P W s'"
  by (auto simp: udp_send_to_def Let_def split: if_splits dest: send_packet_ok)

section \<open>DHCP, DNS and UDP input\<close>

lemma net_ok_udp: "net_ok P W s \<Longrightarrow> udp_ok u \<Longrightarrow> net_ok P W (s\<lparr>udp := u\<rparr>)"
  by (simp add: net_ok_def)

lemma build_base_ok: "build_base s = (p, s') \<Longrightarrow> net_ok P W s \<Longrightarrow> net_ok P W s'"
  by (auto simp: build_base_def Let_def split: if_splits)

lemma send_discover_ok: "send_discover s = (r, s') \<Longrightarrow> net_ok P W s \<Longrightarrow> net_ok P W s'"
  by (auto simp: send_discover_def Let_def split: option.splits prod.splits dest!: build_base_ok dest: udp_broadcast_ok)

lemma send_request_ok: "send_request s = (r, s') \<Longrightarrow> net_ok P W s \<Longrightarrow> net_ok P W s'"
  by (auto simp: send_request_def Let_def split: if_splits option.splits prod.splits dest!: build_base_ok dest: udp_broadcast_ok)

lemma dhcp_init_ok: "net_ok P W s \<Longrightarrow> net_ok P W (dhcp_init s)"
  by (simp add: dhcp_init_def net_ok_def udp_ok_bind)

lemma dhcp_receive_ok: "net_ok P W s \<Longrightarrow> net_ok P W (dhcp_receive payload s)"
  by (simp add: dhcp_receive_def Let_def net_apply_dhcp_def split: prod.split)

lemma dns_receive_ok: "net_ok P W s \<Longrightarrow> net_ok P W (dns_receive ip sp dp payload s)"
  by (simp add: dns_receive_def Let_def) (simp add: net_ok_def)

lemma udp_receive_ok: "net_ok P W s \<Longrightarrow> net_ok P W (udp_receive src dst segment s)"
  by (auto simp: udp_receive_def call_handler_def dhcp_udp_receive_def dhcp_receive_ok dns_receive_ok
      simp del: find_slot_None split: option.split RootUdpReceiveHandler.split)

section \<open>TCP\<close>

lemma net_ok_tcp: "net_ok P W s \<Longrightarrow> tcp_ok v \<Longrightarrow> net_ok P W (s\<lparr>tcp := v\<rparr>)"
  by (simp add: net_ok_def)

lemma net_ok_put:
  assumes "net_ok P W s" "t_used c = t_used (the_connection i s)" "t_local_port c = t_local_port (the_connection i s)"
  shows "net_ok P W (put_connection i c s)"
proof -
  have ok: "tcp_ok (tcp s)" using assms(1) by (simp add: net_ok_def)
  have same: "t_used ((connections (tcp s))[i := c] ! a) = t_used (connections (tcp s) ! a) \<and>
      t_local_port ((connections (tcp s))[i := c] ! a) = t_local_port (connections (tcp s) ! a)" if "a < length (connections (tcp s))" for a
    using assms(2,3) that by (cases "a = i") (simp_all add: the_connection_def)
  have "tcpt.keys_unique ((connections (tcp s))[i := c])"
  proof (rule tcpt.keys_uniqueI)
    fix a b
    assume "a < length ((connections (tcp s))[i := c])" "b < length ((connections (tcp s))[i := c])"
      "t_used ((connections (tcp s))[i := c] ! a)" "t_used ((connections (tcp s))[i := c] ! b)"
      "t_local_port ((connections (tcp s))[i := c] ! a) = t_local_port ((connections (tcp s))[i := c] ! b)"
    then show "a = b"
      using ok same [of a] same [of b] tcpt.keys_uniqueD [of "connections (tcp s)" a b] by (simp add: tcp_ok_def)
  qed
  with ok assms(1) show ?thesis by (simp add: put_connection_def net_ok_tcp tcp_ok_def)
qed

lemma net_ok_put_zero: "net_ok P W s \<Longrightarrow> net_ok P W (put_connection i zero_connection s)"
  by (simp add: put_connection_def net_ok_def tcp_ok_def tcpt.clear_unique)

lemma net_ok_buffer: "net_ok P W s \<Longrightarrow> net_ok P W (s\<lparr>tcp := (tcp s)\<lparr>tcp_transmit_buffer := b\<rparr>\<rparr>)"
  by (simp add: net_ok_def tcp_ok_def)

lemma send_segment_ok: "send_segment E i flags sn an mss s = Some (r, s') \<Longrightarrow> env_ok P W E \<Longrightarrow> net_ok P W s \<Longrightarrow> net_ok P W s'"
  using net_ok_buffer [of P W "net_config s"]
  by (auto simp: send_segment_def Let_def split: if_splits dest!: send_packet_ok [where P = P and W = W])

lemma send_segment_snd_ok:
  "map_option snd (send_segment E i flags sn an mss s) = Some s' \<Longrightarrow> env_ok P W E \<Longrightarrow> net_ok P W s \<Longrightarrow> net_ok P W s'"
  by (auto dest: send_segment_ok)

lemma tcp_close_ok: "tcp_close E ident s = Some (r, s') \<Longrightarrow> env_ok P W E \<Longrightarrow> net_ok P W s \<Longrightarrow> net_ok P W s'"
  by (auto simp: tcp_close_def Let_def bind_eq_Some_conv intro!: net_ok_put_zero dest: send_segment_ok split: if_splits)

lemma syn_sent_ok:
  assumes "tcp_receive_syn_sent E i sn an flags s = Some s'" "env_ok P W E" "net_ok P W s"
  shows "net_ok P W s'"
proof -
  have "net_ok P W (put_connection i ((the_connection i s)\<lparr>t_receive_next := x\<rparr>) s)" for x
    using assms(3) by (rule net_ok_put) simp_all
  then show ?thesis
    using assms by (auto simp: tcp_receive_syn_sent_def Let_def bind_eq_Some_conv split: if_splits
        intro!: net_ok_put dest!: send_segment_ok [where P = P and W = W])
qed

lemma established_ok:
  assumes "tcp_receive_established E i sn flags n s = Some s'" "env_ok P W E" "net_ok P W s"
  shows "net_ok P W s'"
proof -
  have put: "net_ok P W (put_connection i ((the_connection i s)\<lparr>t_receive_next := x\<rparr>) s)" if "net_ok P W s" for x s
    using that by (rule net_ok_put) simp_all
  obtain s1 where first: "(let c = the_connection i s in
           if sn = t_receive_next c \<and> n > 0 then
             let c = c\<lparr>t_receive_next := t_receive_next c + word_of_nat n\<rparr>; s = put_connection i c s
             in map_option snd (send_segment E i TCP_FLAG_ACK (t_send_next c) (t_receive_next c) False s)
           else Some s) = Some s1"
    and rest: "(if flags AND TCP_FLAG_FIN \<noteq> 0 then
       let c = (the_connection i s1)\<lparr>t_receive_next := t_receive_next (the_connection i s1) + 1\<rparr>; s = put_connection i c s1 in do {
         s \<leftarrow> map_option snd (send_segment E i TCP_FLAG_ACK (t_send_next c) (t_receive_next c) False s);
         Some (put_connection i ((the_connection i s)\<lparr>t_state := ROOT_TCP_FIN_WAIT\<rparr>) s)
       }
     else Some s1) = Some s'"
    using assms(1) unfolding tcp_receive_established_def bind_eq_Some_conv by blast
  have s1: "net_ok P W s1"
    using first put [OF assms(3)] assms(2,3) by (auto simp: Let_def split: if_splits dest!: send_segment_ok [where P = P and W = W])
  show ?thesis
    using rest s1 put [OF s1] assms(2)
    by (auto simp: Let_def bind_eq_Some_conv split: if_splits intro!: net_ok_put dest!: send_segment_ok [where P = P and W = W])
qed

lemma tcp_receive_ok: "tcp_receive E src dst seg s = Some s' \<Longrightarrow> env_ok P W E \<Longrightarrow> net_ok P W s \<Longrightarrow> net_ok P W s'"
  by (auto simp: tcp_receive_def Let_def simp del: find_slot_None split: if_splits option.splits
      intro!: net_ok_put dest: syn_sent_ok established_ok)

section \<open>Polling\<close>

lemma ipv4_receive_ok: "ipv4_receive E frame s = Some s' \<Longrightarrow> env_ok P W E \<Longrightarrow> net_ok P W s \<Longrightarrow> net_ok P W s'"
  using tcp_receive_ok [of E _ _ _ "net_config s" s' P W]
  by (auto simp: ipv4_receive_def Let_def udp_receive_ok split: if_splits option.splits)

lemma poll_frames_ok: "poll_frames n E s = Some s' \<Longrightarrow> env_ok P W E \<Longrightarrow> net_ok P W s \<Longrightarrow> net_ok P W s'"
proof (induction n arbitrary: s)
  case (Suc n)
  obtain r s1 where r: "net_device_receive_frame 2048 s = (r, s1)" by fastforce
  have ok1: "net_ok P W s1" by (rule receive_frame_ok [OF r Suc.prems(3)])
  show ?case
    using Suc.prems(1,2) r ok1 Suc.IH [OF _ Suc.prems(2)] arp_receive_ok [OF ok1] ipv4_receive_ok [OF _ Suc.prems(2) ok1]
    by (cases r) (auto simp: Let_def bind_eq_Some_conv split: if_splits)
qed simp

lemma net_poll_ok: "platform_law W pf \<Longrightarrow> net_poll pf n s = Some s' \<Longrightarrow> net_ok P W s \<Longrightarrow> net_ok P W s'"
proof (induction n arbitrary: s s')
  case (Suc n)
  let ?E = "\<lparr>env_pf = pf, env_turns = n, env_poll = net_poll pf n\<rparr>"
  have "env_ok P W ?E" using Suc.IH [OF Suc.prems(1)] Suc.prems(1) by (simp add: env_ok_def)
  then show ?case
    using Suc.prems(2,3) by (auto simp: net_poll_body_def split: if_splits dest: poll_frames_ok)
qed simp

lemma stack_env_ok: "platform_law W pf \<Longrightarrow> env_ok P W (stack_env pf n)"
  by (auto simp: env_ok_def stack_env_def dest: net_poll_ok)

lemma net_clear_ok: "net_ok P W s \<Longrightarrow> net_ok P W (net_clear_ipv4 s)"
proof -
  assume "net_ok P W s"
  then have "net_ok P W (dhcp_init (s\<lparr>config := c\<rparr>))" for c by (intro dhcp_init_ok) simp
  then show ?thesis
    by (simp add: net_clear_ipv4_def Let_def net_ok_def arp_ok_init tcp_ok_init dns_cache_flush_def)
qed

lemma net_select_ok: "net_select_device i s = (r, s') \<Longrightarrow> net_ok P W s \<Longrightarrow> net_ok P W s'"
proof -
  assume a: "net_select_device i s = (r, s')" "net_ok P W s"
  show ?thesis
  proof (cases "i \<ge> dev_count (nd s) \<or> \<not> nd_used (devices (nd s) ! i)")
    case False
    let ?d = "(nd s)\<lparr>active_index := i, active_valid := True\<rparr>"
    have "devices_ok ?d" using a(2) devices_ok_select [of "nd s" i] False by (simp add: net_ok_def net_device_select_def)
    then have "net_ok P W (s\<lparr>nd := ?d\<rparr>)" using a(2) by (simp add: net_ok_def)
    from net_clear_ok [OF this] a(1) False show ?thesis
      by (auto simp: net_select_device_def net_device_select_def net_config_def [symmetric])
  qed (use a in \<open>auto simp: net_select_device_def net_device_select_def\<close>)
qed

section \<open>The blocking operations\<close>

lemma put_dhcp_ok [simp]: "net_ok P W (put_dhcp f s) = net_ok P W s" "net_ok P W (dhcp_fail e s) = net_ok P W s"
  by (simp_all add: put_dhcp_def dhcp_fail_def)

lemma dhcp_turn_ok: "dhcp_turn pf deadline s = (r, s') \<Longrightarrow> platform_law W pf \<Longrightarrow> net_ok P W s \<Longrightarrow> net_ok P W s'"
  by (auto simp: dhcp_turn_def Let_def split: if_splits prod.splits bool.splits dest!: send_request_ok [where P = P and W = W] millis_ok [where P = P and W = W])

lemma dhcp_wait_ok: "dhcp_wait n E deadline s = Some (r, s') \<Longrightarrow> env_ok P W E \<Longrightarrow> net_ok P W s \<Longrightarrow> net_ok P W s'"
proof (induction n arbitrary: s deadline)
  case (Suc n)
  note pf = env_okD(1) [OF Suc.prems(2)]
  obtain t s1 where t: "root_time_millis (env_pf E) s = (t, s1)" by fastforce
  note ok1 = millis_ok [OF t pf Suc.prems(3)]
  show ?case
  proof (cases "t < deadline")
    case True
    with Suc.prems(1) t obtain s2 where s2: "env_poll E s1 = Some s2" by (auto simp: bind_eq_Some_conv)
    obtain d s3 where d: "dhcp_turn (env_pf E) deadline s2 = (d, s3)" by fastforce
    note ok3 = dhcp_turn_ok [OF d pf env_okD(2) [OF Suc.prems(2) s2 ok1]]
    show ?thesis
      using Suc.prems(1) t True s2 d ok3 Suc.IH [OF _ Suc.prems(2) halt_ok [OF pf ok3]]
      by (cases d) (auto split: if_splits)
  next
    case False
    then show ?thesis using Suc.prems(1) t ok1 by simp
  qed
qed simp

lemma dhcp_attempts_ok: "dhcp_attempts n E s = Some (r, s') \<Longrightarrow> env_ok P W E \<Longrightarrow> net_ok P W s \<Longrightarrow> net_ok P W s'"
proof (induction n arbitrary: s)
  case (Suc n)
  let ?s = "put_dhcp (\<lambda>d. (reset_offer d)\<lparr>state_value := DHCP_STATE_DISCOVERING, error_text := ''waiting for offer''\<rparr>) s"
  obtain ok s1 where send: "send_discover ?s = (ok, s1)" by fastforce
  have ok1: "net_ok P W s1" using send_discover_ok [OF send] Suc.prems(3) by simp
  obtain t s2 where t: "root_time_millis (env_pf E) s1 = (t, s2)" by fastforce
  note ok2 = millis_ok [OF t env_okD(1) [OF Suc.prems(2)] ok1]
  show ?case
    using Suc.prems(1,2) send t ok1 dhcp_wait_ok [OF _ Suc.prems(2) ok2] Suc.IH [OF _ Suc.prems(2)]
    by (cases ok) (auto simp: Let_def bind_eq_Some_conv split: if_splits)
qed auto

lemma dhcp_acquire_ok: "dhcp_acquire E s = Some (r, s') \<Longrightarrow> env_ok P W E \<Longrightarrow> net_ok P W s \<Longrightarrow> net_ok P W s'"
  using net_clear_ok [of P W "net_config s"]
  by (auto simp: dhcp_acquire_def Let_def split: if_splits prod.splits dest: env_okD(1)
      dest!: dhcp_attempts_ok [where P = P and W = W] millis_ok [where P = P and W = W])

lemma net_ok_dns: "net_ok P W s \<Longrightarrow> length (cache (f (dns s))) = 16 \<Longrightarrow> cache_replace (f (dns s)) < 16 \<Longrightarrow> net_ok P W (put_dns f s)"
  by (simp add: net_ok_def put_dns_def)

lemma cache_lookup_length [simp]: "length (snd (cache_lookup name now es)) = length es"
  by (induction name now es rule: cache_lookup.induct) auto

lemma cache_store_shape:
  "cache_store name a ttl now (es, r) = (es', r') \<Longrightarrow> r < 16 \<Longrightarrow> length es' = length es \<and> r' < 16"
  by (auto simp: cache_store_def Let_def split: if_splits)

lemma dns_bounds: "net_ok P W s \<Longrightarrow> length (cache (dns s)) = 16 \<and> cache_replace (dns s) < 16"
  by (simp add: net_ok_def)

lemma dns_wait_ok: "dns_wait n E deadline s = Some s' \<Longrightarrow> env_ok P W E \<Longrightarrow> net_ok P W s \<Longrightarrow> net_ok P W s'"
proof (induction n arbitrary: s)
  case (Suc n)
  note pf = env_okD(1) [OF Suc.prems(2)]
  obtain t s1 where t: "root_time_millis (env_pf E) s = (t, s1)" by fastforce
  note ok1 = millis_ok [OF t pf Suc.prems(3)]
  show ?case
    using Suc.prems(1,3) t ok1 Suc.IH [OF _ Suc.prems(2) halt_ok [OF pf env_okD(2) [OF Suc.prems(2) _ ok1]]]
    by (auto simp: bind_eq_Some_conv split: if_splits)
qed simp

lemma dns_attempts_ok: "dns_attempts n E port q s = Some (r, s') \<Longrightarrow> env_ok P W E \<Longrightarrow> net_ok P W s \<Longrightarrow> net_ok P W s'"
proof (induction n arbitrary: s)
  case (Suc n)
  show ?case
    using Suc.prems Suc.IH [OF _ Suc.prems(2)]
    by (auto simp: bind_eq_Some_conv split: if_splits prod.splits
        dest!: udp_send_to_ok [where P = P and W = W] millis_ok [where P = P and W = W] dns_wait_ok [where P = P and W = W] dest: env_okD(1))
qed simp

lemma dns_release_ok: "net_ok P W s \<Longrightarrow> net_ok P W (dns_release port s)"
  by (simp add: dns_release_def put_udp_def put_dns_def net_ok_def udp_ok_unbind)

lemma dns_exchange_ok: "dns_exchange E port name s = Some (r, s') \<Longrightarrow> env_ok P W E \<Longrightarrow> net_ok P W s \<Longrightarrow> net_ok P W s'"
proof -
  assume a: "dns_exchange E port name s = Some (r, s')" "env_ok P W E" "net_ok P W s"
  show ?thesis
  proof (cases "dns_query (active_id (dns s)) name")
    case None
    then show ?thesis using a by (auto simp: dns_exchange_def dns_release_ok)
  next
    case (Some q)
    then obtain sent s1 where s1: "dns_attempts 2 E port q s = Some (sent, s1)"
      using a(1) by (auto simp: dns_exchange_def bind_eq_Some_conv)
    note ok1 = dns_release_ok [OF dns_attempts_ok [OF s1 a(2,3)], of port]
    obtain t s2 where t: "root_time_millis (env_pf E) (dns_release port s1) = (t, s2)" by fastforce
    note ok2 = millis_ok [OF t env_okD(1) [OF a(2)] ok1]
    have "net_ok P W (put_dns (\<lambda>d. d\<lparr>cache := ca, cache_replace := k\<rparr>) s2)"
      if "cache_store name x y z (cache (dns s2), cache_replace (dns s2)) = (ca, k)" for ca k x y z
      using ok2 cache_store_shape [OF that] dns_bounds [OF ok2] by (intro net_ok_dns) simp_all
    then show ?thesis
      using a(1) Some s1 ok1 t by (auto simp: dns_exchange_def Let_def split: if_splits sum.splits prod.splits)
  qed
qed

lemma dns_resolve_ok: "dns_resolve_ipv4 E name s = Some (r, s') \<Longrightarrow> env_ok P W E \<Longrightarrow> net_ok P W s \<Longrightarrow> net_ok P W s'"
proof -
  assume a: "dns_resolve_ipv4 E name s = Some (r, s')" "env_ok P W E" "net_ok P W s"
  note pf = env_okD(1) [OF a(2)]
  obtain t s1 where t: "root_time_millis (env_pf E) (net_config s) = (t, s1)" by fastforce
  have ok1: "net_ok P W s1" using millis_ok [OF t pf] a(3) by simp
  obtain hit ca where hit: "cache_lookup (the name) (ucast t) (cache (dns s1)) = (hit, ca)" by fastforce
  let ?s2 = "put_dns (\<lambda>d. d\<lparr>cache := ca\<rparr>) s1"
  have "length ca = 16" using cache_lookup_length [of "the name" "ucast t" "cache (dns s1)"] hit dns_bounds [OF ok1] by simp
  then have ok2: "net_ok P W ?s2" using ok1 dns_bounds [OF ok1] by (intro net_ok_dns) simp_all
  obtain port u where u: "udp_allocate_ephemeral_port (udp ?s2) = (port, u)" by fastforce
  have "udp_ok u" using udp_allocate_spec(1) [of "udp ?s2"] ok2 u by (simp add: net_ok_def)
  then have ok3: "net_ok P W (?s2\<lparr>udp := u\<rparr>)" using ok2 by (rule net_ok_udp [rotated])
  obtain t' s4 where t': "root_time_millis (env_pf E) (?s2\<lparr>udp := u\<rparr>) = (t', s4)" by fastforce
  note ok4 = millis_ok [OF t' pf ok3]
  let ?s5 = "\<lambda>x. put_dns (\<lambda>d. d\<lparr>response := [], response_ready := False, active_port := port, active_id := x\<rparr>) s4"
  have ok5: "net_ok P W (?s5 x)" for x using ok4 dns_bounds [OF ok4] by (intro net_ok_dns) simp_all
  have ok6: "net_ok P W (?s5 x\<lparr>udp := u'\<rparr>)" if "udp_bind port h c (udp (?s5 x)) = (b, u')" for x h c b u'
    using ok5 [of x] udp_ok_bind [of "udp (?s5 x)" port h c] that by (intro net_ok_udp) (simp_all add: net_ok_def)
  have ok7: "net_ok P W (put_dns (\<lambda>d. d\<lparr>active_port := 0\<rparr>) (?s5 x))" for x
    using net_ok_dns [OF ok5 [of x], of "\<lambda>d. d\<lparr>active_port := 0\<rparr>"] dns_bounds [OF ok5 [of x]] by simp
  show ?thesis
    using a t hit u t' ok1 ok2 ok3 ok6 ok7 dns_exchange_ok [OF _ a(2) ok6]
    by (auto simp: dns_resolve_ipv4_def Let_def split: if_splits option.splits prod.splits bool.splits)
qed

lemma step_port_range: "50000 \<le> step_port p \<and> step_port p \<le> 60000"
  by (auto simp: step_port_def Let_def)

lemma allocate_port_spec:
  "allocate_port_loop n v = (p, v') \<Longrightarrow> tcp_ok v \<Longrightarrow> tcp_ok v' \<and> connections v' = connections v \<and> (p \<noteq> 0 \<longrightarrow> p \<notin> tcpt.holds (connections v))"
proof (induction n arbitrary: v)
  case (Suc n)
  let ?v = "v\<lparr>next_port := step_port (next_port v)\<rparr>"
  have ok: "tcp_ok ?v" using Suc.prems(2) step_port_range [of "next_port v"] by (simp add: tcp_ok_def)
  have "local_port_used q ?v \<longleftrightarrow> q \<in> tcpt.holds (connections v)" for q
    using tcpt.lookup_None [of q "connections v"] by (simp add: local_port_used_def)
  with Suc.prems(1) Suc.IH [OF _ ok] ok show ?case by (auto simp: Let_def split: if_splits)
qed simp

lemma tcp_wait_ok: "tcp_wait n E i deadline s = Some s' \<Longrightarrow> env_ok P W E \<Longrightarrow> net_ok P W s \<Longrightarrow> net_ok P W s'"
proof (induction n arbitrary: s)
  case (Suc n)
  note pf = env_okD(1) [OF Suc.prems(2)]
  obtain t s1 where t: "root_time_millis (env_pf E) s = (t, s1)" by fastforce
  note ok1 = millis_ok [OF t pf Suc.prems(3)]
  show ?case
    using Suc.prems(1,3) t ok1 Suc.IH [OF _ Suc.prems(2) halt_ok [OF pf env_okD(2) [OF Suc.prems(2) _ ok1]]]
    by (auto simp: bind_eq_Some_conv split: if_splits)
qed simp

lemma tcp_fail_ok: "net_ok P W s \<Longrightarrow> net_ok P W (tcp_fail i e s)"
  unfolding tcp_fail_def by (rule net_ok_put) simp_all

lemma tcp_attempts_ok: "tcp_attempts n E i sn per tr s = Some (r, s') \<Longrightarrow> env_ok P W E \<Longrightarrow> net_ok P W s \<Longrightarrow> net_ok P W s'"
proof (induction n arbitrary: s tr)
  case (Suc n)
  show ?case
    using Suc.prems Suc.IH [OF _ Suc.prems(2)]
    by (auto simp: bind_eq_Some_conv tcp_fail_ok split: if_splits prod.splits
        dest!: send_segment_ok [where P = P and W = W] millis_ok [where P = P and W = W] tcp_wait_ok [where P = P and W = W] dest: env_okD(1))
qed simp

lemma tcp_connect_ok: "tcp_connect E ip port timeout s = Some (r, s') \<Longrightarrow> env_ok P W E \<Longrightarrow> net_ok P W s \<Longrightarrow> net_ok P W s'"
proof -
  assume a: "tcp_connect E ip port timeout s = Some (r, s')" "env_ok P W E" "net_ok P W s"
  let ?s = "net_config s"
  obtain p v where p: "allocate_port (tcp s) = (p, v)" by fastforce
  have v: "tcp_ok v" "connections v = connections (tcp s)" "p \<noteq> 0 \<longrightarrow> p \<notin> tcpt.holds (connections v)"
    using allocate_port_spec [of 10000 "tcp s" p v] p a(3) by (simp_all add: allocate_port_def net_ok_def)
  have ok1: "net_ok P W (?s\<lparr>tcp := v\<rparr>)" using a(3) v(1) by (intro net_ok_tcp) simp_all
  obtain t s2 where t: "root_time_millis (env_pf E) (?s\<lparr>tcp := v\<rparr>) = (t, s2)" by fastforce
  note ok2 = millis_ok [OF t env_okD(1) [OF a(2)] ok1]
  have tcp2: "tcp s2 = v" using t by (auto simp: root_time_millis_def split: prod.splits)
  have ok3: "net_ok P W (put_connection i c s2)" if "t_local_port c = p" "p \<noteq> 0" "i < 4" for i c
  proof -
    have "tcpt.keys_unique ((connections v)[i := c])"
      using v that by (intro tcpt.insert_unique) (simp_all add: tcp_ok_def)
    then show ?thesis using ok2 v(1) tcp2 by (simp add: put_connection_def net_ok_def tcp_ok_def)
  qed
  have len: "length (connections (tcp s)) = 4" using v by (simp add: tcp_ok_def)
  show ?thesis
    using a p t ok1 ok3 tcp_fail_ok len
    by (auto simp: tcp_connect_def Let_def bind_eq_Some_conv simp del: find_slot_None split: if_splits option.splits prod.splits
        dest!: find_slot_in_range tcp_attempts_ok [where P = P and W = W])
qed

section \<open>The example machine\<close>

definition demo_device :: "u8 list list RootNetDevice" where
  "demo_device = \<lparr>nd_used = True, nd_id = 0, nd_driver_name = ''demo'', nd_context = 0, nd_ops = demo_nic_ops, nd_mac = demo_mac 1\<rparr>"

lemma demo_net_ok:
  assumes "P demo_device" "\<And>dev. P dev \<Longrightarrow> driver_law W dev" "W []"
  shows "net_ok P W (demo_client c)"
proof -
  have nd: "nd (demo_client c) = nd (demo_blank (demo_mac 1))"
    by (simp add: demo_client_def put_connection_def demo_peer_def demo_host_def net_apply_dhcp_def demo_net_fields)
  have set: "set (take (dev_count (nd (demo_blank (demo_mac 1)))) (devices (nd (demo_blank (demo_mac 1))))) = {demo_device}"
    by (simp add: demo_blank_def net_device_register_def net_device_init_def Let_def demo_nic_ops_def numeral_eq_Suc)
      (simp add: demo_device_def demo_nic_ops_def demo_mac_def)
  have "world (demo_client c) = []"
    by (simp add: demo_client_def put_connection_def demo_peer_def demo_host_def net_apply_dhcp_def demo_net_def net_init_def
        Let_def dhcp_init_def demo_blank_def)
  moreover have "dns (demo_client c) = dns_init (dns (demo_blank (demo_mac 1)))"
    by (simp add: demo_client_def put_connection_def demo_peer_def demo_host_def net_apply_dhcp_def demo_net_def net_init_def
        Let_def dhcp_init_def)
  ultimately show ?thesis
    using demo_client_facts [of c] assms by (simp add: net_ok_def host_up_def nd set dns_init_def dns_cache_flush_def)
qed

end
