(* ===== verification/Root_Net_Liveness.thy ===== *)
theory Root_Net_Liveness
  imports Root_Net_Safety
begin

text \<open>
  Why the mutually recursive receive path of the network stack returns. The machine is assumed to behave like a machine:
  \<open>queue\<close> counts the frames the adapter still has to deliver, receiving one uses it up and nothing else adds to them, and
  \<open>now\<close> is the clock, which never runs backwards and advances with every \<open>hlt\<close> until the 64-bit counter is exhausted.
  Then every nested \<open>net_poll\<close> has fewer frames in front of it, and every wait loop reaches its deadline.
\<close>

section \<open>Quiet machines\<close>

definition clock_max :: nat where
  "clock_max = 2 ^ 64 - 1"

definition quiet_driver :: "('h \<Rightarrow> nat) \<Rightarrow> ('h \<Rightarrow> nat) \<Rightarrow> 'h RootNetDevice \<Rightarrow> bool" where
  "quiet_driver queue now dev \<longleftrightarrow>
     (\<forall>w f. queue (snd (the (ops_send_frame (nd_ops dev)) (nd_context dev) f w)) \<le> queue w
        \<and> now w \<le> now (snd (the (ops_send_frame (nd_ops dev)) (nd_context dev) f w)))
     \<and> (\<forall>w n. queue (snd (the (ops_receive_frame (nd_ops dev)) (nd_context dev) n w)) \<le> queue w
        \<and> now w \<le> now (snd (the (ops_receive_frame (nd_ops dev)) (nd_context dev) n w))
        \<and> (fst (the (ops_receive_frame (nd_ops dev)) (nd_context dev) n w) \<noteq> None \<longrightarrow>
             queue (snd (the (ops_receive_frame (nd_ops dev)) (nd_context dev) n w)) < queue w))"

definition quiet_platform :: "('h \<Rightarrow> nat) \<Rightarrow> ('h \<Rightarrow> nat) \<Rightarrow> 'h platform \<Rightarrow> bool" where
  "quiet_platform queue now pf \<longleftrightarrow>
     (\<forall>w. unat (fst (pf_millis pf w)) = now (snd (pf_millis pf w)) \<and> now w \<le> now (snd (pf_millis pf w))
        \<and> queue (snd (pf_millis pf w)) \<le> queue w)
     \<and> (\<forall>w. now w \<le> now (pf_hlt pf w) \<and> (now w < clock_max \<longrightarrow> now w < now (pf_hlt pf w)) \<and> queue (pf_hlt pf w) \<le> queue w)"

definition within :: "('h \<Rightarrow> nat) \<Rightarrow> ('h \<Rightarrow> nat) \<Rightarrow> nat \<Rightarrow> nat \<Rightarrow> 'h \<Rightarrow> bool" where
  "within queue now q T w \<longleftrightarrow> queue w \<le> q \<and> T \<le> now w"

definition quiet_ok :: "('h \<Rightarrow> nat) \<Rightarrow> ('h \<Rightarrow> nat) \<Rightarrow> nat \<Rightarrow> nat \<Rightarrow> 'h net \<Rightarrow> bool" where
  "quiet_ok queue now q T s \<longleftrightarrow> net_ok (quiet_driver queue now) (within queue now q T) s"

lemma quiet_driver_law: "quiet_driver queue now dev \<Longrightarrow> driver_law (within queue now q T) dev"
  unfolding quiet_driver_def driver_law_def within_def by (meson le_trans)

lemma quiet_platform_law: "quiet_platform queue now pf \<Longrightarrow> platform_law (within queue now q T) pf"
  unfolding quiet_platform_def platform_law_def within_def by (meson le_trans)

lemma quiet_okI:
  "quiet_ok queue now q T s \<Longrightarrow> queue (world s) \<le> q' \<Longrightarrow> T' \<le> now (world s) \<Longrightarrow> quiet_ok queue now q' T' s"
  using quiet_driver_law by (auto simp: quiet_ok_def net_ok_def within_def)

lemma quiet_ok_world: "quiet_ok queue now q T s \<Longrightarrow> queue (world s) \<le> q \<and> T \<le> now (world s)"
  by (simp add: quiet_ok_def net_ok_def within_def)

text \<open>An environment that answers whenever at most \<open>q\<close> frames are waiting.\<close>

definition answers :: "('h \<Rightarrow> nat) \<Rightarrow> ('h \<Rightarrow> nat) \<Rightarrow> nat \<Rightarrow> 'h net_env \<Rightarrow> bool" where
  "answers queue now q E \<longleftrightarrow> env_turns E > 1000 \<and> quiet_platform queue now (env_pf E)
     \<and> (\<forall>q T. env_ok (quiet_driver queue now) (within queue now q T) E)
     \<and> (\<forall>T s. quiet_ok queue now q T s \<longrightarrow> (\<exists>s'. env_poll E s = Some s'))"

lemma answersD:
  assumes "answers queue now q E"
  shows "env_turns E > 1000" "quiet_platform queue now (env_pf E)"
    "env_ok (quiet_driver queue now) (within queue now q' T) E" "platform_law (within queue now q' T) (env_pf E)"
    "quiet_ok queue now q T s \<Longrightarrow> \<exists>s'. env_poll E s = Some s' \<and> quiet_ok queue now q T s'"
proof -
  show "env_turns E > 1000" "quiet_platform queue now (env_pf E)"
    and e: "env_ok (quiet_driver queue now) (within queue now q' T) E" for q' T using assms by (auto simp: answers_def)
  show "platform_law (within queue now q' T) (env_pf E)" using e env_okD(1) by blast
  assume "quiet_ok queue now q T s"
  moreover from this obtain s' where "env_poll E s = Some s'" using assms unfolding answers_def by blast
  ultimately show "\<exists>s'. env_poll E s = Some s' \<and> quiet_ok queue now q T s'"
    using env_okD(2) [OF e] by (auto simp: quiet_ok_def)
qed

section \<open>Wait loops\<close>

lemma millis_quiet:
  assumes "quiet_platform queue now pf" "quiet_ok queue now q T s" "root_time_millis pf s = (t, s')"
  shows "quiet_ok queue now q (unat t) s'" "T \<le> unat t"
proof -
  obtain w where w: "pf_millis pf (world s) = (t, w)" "s' = s\<lparr>world := w\<rparr>"
    using assms(3) by (auto simp: root_time_millis_def split: prod.splits)
  have l: "unat t = now w" "now (world s) \<le> now w" "queue w \<le> queue (world s)"
    using assms(1) w(1) unfolding quiet_platform_def by (metis fst_conv snd_conv)+
  have h: "quiet_ok queue now q T s'"
    using millis_ok [OF assms(3) quiet_platform_law [OF assms(1)]] assms(2) by (simp add: quiet_ok_def)
  show "quiet_ok queue now q (unat t) s'"
    by (rule quiet_okI [OF h]) (use l quiet_ok_world [OF assms(2)] in \<open>simp_all add: w\<close>)
  show "T \<le> unat t" using l quiet_ok_world [OF assms(2)] by simp
qed

lemma halt_quiet:
  assumes "quiet_platform queue now pf" "quiet_ok queue now q T s" "T < clock_max"
  shows "quiet_ok queue now q (Suc T) (halt pf s)"
proof -
  have h: "quiet_ok queue now q T (halt pf s)"
    using halt_ok [OF quiet_platform_law [OF assms(1)]] assms(2) by (simp add: quiet_ok_def)
  have l: "now (world s) \<le> now (pf_hlt pf (world s))" "now (world s) < clock_max \<longrightarrow> now (world s) < now (pf_hlt pf (world s))"
    using assms(1) unfolding quiet_platform_def by blast+
  then have n: "Suc T \<le> now (pf_hlt pf (world s))"
    using quiet_ok_world [OF assms(2)] assms(3) by (cases "now (world s) = T") auto
  show ?thesis by (rule quiet_okI [OF h]) (use n quiet_ok_world [OF h] in \<open>simp_all add: halt_def\<close>)
qed

lemma unat_clock_max: "unat (t :: u64) \<le> clock_max"
  using unsigned_less [where ?'a = nat, of t] by (simp add: clock_max_def)

lemma resolve_wait_returns:
  assumes "answers queue now q E"
  shows "quiet_ok queue now q T s \<Longrightarrow> unat deadline - T < m \<Longrightarrow> \<exists>r s'. resolve_wait m E ip deadline s = Some (r, s')"
proof (induction m arbitrary: s T)
  case (Suc m)
  obtain t s1 where t: "root_time_millis (env_pf E) s = (t, s1)" by fastforce
  note q1 = millis_quiet [OF answersD(2) [OF assms] Suc.prems(1) t]
  show ?case
  proof (cases "t < deadline")
    case True
    obtain s2 where s2: "env_poll E s1 = Some s2" "quiet_ok queue now q (unat t) s2" using answersD(5) [OF assms q1(1)] by blast
    have lt: "unat t < unat deadline" using True by (simp add: word_less_nat_alt)
    then have "unat t < clock_max" using unat_clock_max [of deadline] by (rule less_le_trans)
    note q3 = halt_quiet [OF answersD(2) [OF assms] s2(2) this]
    have "\<exists>r s'. resolve_wait m E ip deadline (halt (env_pf E) s2) = Some (r, s')"
      using Suc.IH [OF q3] Suc.prems(2) q1(2) lt by simp
    then show ?thesis using t True s2(1) by (auto split: option.split)
  qed (use t in simp)
qed simp

lemma deadline_distance: "unat (t + k :: u64) - unat t \<le> unat k"
proof -
  have "unat (t + k) \<le> unat t + unat k" by (simp add: unat_word_ariths)
  then show ?thesis by simp
qed

section \<open>The receive path\<close>

lemma quiet_ok_simps [simp]:
  "quiet_ok queue now q T (net_config s) = quiet_ok queue now q T s"
  "quiet_ok queue now q T (s\<lparr>config := c\<rparr>) = quiet_ok queue now q T s"
  by (simp_all add: quiet_ok_def)

lemma resolve_returns:
  assumes "answers queue now q E" "quiet_ok queue now q T s"
  shows "\<exists>r s'. net_resolve_ipv4 E ip 1000 s = Some (r, s')"
proof -
  let ?hop = "route_next_hop ip (config s)"
  obtain ok s1 where req: "arp_request ?hop s = (ok, s1)" by fastforce
  have q1: "quiet_ok queue now q T s1" using arp_request_ok [OF req] assms(2) by (simp add: quiet_ok_def)
  obtain t s2 where t: "root_time_millis (env_pf E) s1 = (t, s2)" by fastforce
  note q2 = millis_quiet(1) [OF answersD(2) [OF assms(1)] q1 t]
  have "unat (t + 1000) - unat t < env_turns E"
    using deadline_distance [of t 1000] answersD(1) [OF assms(1)] by simp
  from resolve_wait_returns [OF assms(1) q2 this, of ?hop] req t show ?thesis
    by (auto simp: net_resolve_ipv4_def Let_def split: option.split bool.split)
qed

lemma send_packet_returns:
  assumes "answers queue now q E" "quiet_ok queue now q T s"
  shows "\<exists>r s'. ipv4_send_packet E ip p rd n s = Some (r, s')"
proof -
  obtain r s1 where "net_resolve_ipv4 E ip 1000 (net_config s) = Some (r, s1)"
    using resolve_returns [OF assms(1), of T "net_config s" ip] assms(2) by auto
  then show ?thesis
    by (cases r) (auto simp: ipv4_send_packet_def Let_def split: prod.split)
qed

lemma send_segment_returns:
  assumes "answers queue now q E" "quiet_ok queue now q T s"
  shows "\<exists>r s'. send_segment E i flags sn an mss s = Some (r, s') \<and> quiet_ok queue now q T s'"
proof -
  have "quiet_ok queue now q T ((net_config s)\<lparr>tcp := (tcp s)\<lparr>tcp_transmit_buffer := b\<rparr>\<rparr>)" for b
    using net_ok_buffer [of _ _ "net_config s"] assms(2) by (simp add: quiet_ok_def)
  note q = send_packet_returns [OF assms(1) this]
  obtain r s' where "send_segment E i flags sn an mss s = Some (r, s')"
  proof (cases "c_configured (config s)")
    case True
    from send_segment_form [OF True, of E i flags sn an mss] q that show thesis by metis
  next
    case False
    with that show thesis by (simp add: send_segment_def Let_def)
  qed
  then show ?thesis using send_segment_ok [OF _ answersD(3) [OF assms(1)]] assms(2) unfolding quiet_ok_def by blast
qed

lemma put_quiet:
  "quiet_ok queue now q T s \<Longrightarrow> quiet_ok queue now q T (put_connection i ((the_connection i s)\<lparr>t_receive_next := x\<rparr>) s)"
  unfolding quiet_ok_def by (rule net_ok_put) simp_all

lemma tcp_receive_returns:
  assumes "answers queue now q E" "quiet_ok queue now q T s"
  shows "\<exists>s'. tcp_receive E src dst seg s = Some s'"
proof -
  have syn: "\<exists>s'. tcp_receive_syn_sent E i sn an flags s = Some s'" if that': "quiet_ok queue now q T s" for i sn an flags s
  proof -
    let ?c = "the_connection i s"
    obtain r s1 where "send_segment E i TCP_FLAG_ACK (t_send_next ?c) (sn + 1) False
        (put_connection i (?c\<lparr>t_receive_next := sn + 1\<rparr>) s) = Some (r, s1)"
      using send_segment_returns [OF assms(1) put_quiet [OF that']] by blast
    then show ?thesis by (cases r) (simp_all add: tcp_receive_syn_sent_def Let_def)
  qed
  have est: "\<exists>s'. tcp_receive_established E i sn flags n s = Some s'" if that': "quiet_ok queue now q T s" for i sn flags n s
  proof -
    obtain s1 where first: "(let c = the_connection i s in
           if sn = t_receive_next c \<and> n > 0 then
             let c = c\<lparr>t_receive_next := t_receive_next c + word_of_nat n\<rparr>; s = put_connection i c s
             in map_option snd (send_segment E i TCP_FLAG_ACK (t_send_next c) (t_receive_next c) False s)
           else Some s) = Some s1" "quiet_ok queue now q T s1"
    proof (cases "sn = t_receive_next (the_connection i s) \<and> n > 0")
      case True
      let ?c = "(the_connection i s)\<lparr>t_receive_next := t_receive_next (the_connection i s) + word_of_nat n\<rparr>"
      obtain r s1 where "send_segment E i TCP_FLAG_ACK (t_send_next ?c) (t_receive_next ?c) False (put_connection i ?c s) = Some (r, s1)"
        "quiet_ok queue now q T s1" using send_segment_returns [OF assms(1) put_quiet [OF that']] by blast
      with True show thesis by (intro that [of s1]) (simp_all add: Let_def)
    next
      case False
      with that' show thesis by (intro that [of s]) (auto simp: Let_def)
    qed
    let ?d = "(the_connection i s1)\<lparr>t_receive_next := t_receive_next (the_connection i s1) + 1\<rparr>"
    obtain r s2 where "send_segment E i TCP_FLAG_ACK (t_send_next ?d) (t_receive_next ?d) False (put_connection i ?d s1) = Some (r, s2)"
      using send_segment_returns [OF assms(1) put_quiet [OF first(2)]] by blast
    with first(1) show ?thesis unfolding tcp_receive_established_def by (simp add: Let_def)
  qed
  show ?thesis
    using assms(2) syn [of "net_config s"] est [of "net_config s"]
    by (auto simp: tcp_receive_def Let_def simp del: find_slot_None split: option.split)
qed

lemma ipv4_receive_returns:
  assumes "answers queue now q E" "quiet_ok queue now q T s"
  shows "\<exists>s'. ipv4_receive E frame s = Some s' \<and> quiet_ok queue now q T s'"
proof -
  have "\<exists>s'. ipv4_receive E frame s = Some s'"
    using tcp_receive_returns [OF assms(1), of T "net_config s"] assms(2)
    by (auto simp: ipv4_receive_def Let_def split: option.split)
  then show ?thesis using ipv4_receive_ok [OF _ answersD(3) [OF assms(1)]] assms(2) unfolding quiet_ok_def by blast
qed

lemma receive_quiet:
  assumes "quiet_ok queue now q T s" "net_device_receive_frame n s = (Some f, s')"
  shows "\<exists>q'. q = Suc q' \<and> quiet_ok queue now q' T s'"
proof -
  have ok: "quiet_ok queue now q T s'" using receive_frame_ok [OF assms(2)] assms(1) by (simp add: quiet_ok_def)
  obtain dev w where dev: "net_device_active (nd s) = Some dev"
    "the (ops_receive_frame (nd_ops dev)) (nd_context dev) n (world s) = (Some f, w)" "world s' = w"
    using assms(2) by (auto simp: net_device_receive_frame_def split: option.splits prod.splits)
  have "quiet_driver queue now dev"
    using assms(1) dev(1) active_mem [of s dev] by (auto simp: quiet_ok_def net_ok_def)
  then have "queue w < queue (world s)" using dev(2) unfolding quiet_driver_def by (metis fst_conv snd_conv option.distinct(1))
  then have "queue (world s') < q" using quiet_ok_world [OF assms(1)] dev(3) by simp
  then obtain q' where "q = Suc q'" "queue (world s') \<le> q'" by (cases q) auto
  with quiet_okI [OF ok] quiet_ok_world [OF ok] show ?thesis by blast
qed

lemma poll_frames_returns:
  assumes "\<And>q'. q = Suc q' \<Longrightarrow> answers queue now q' E"
  shows "quiet_ok queue now q T s \<Longrightarrow> \<exists>s'. poll_frames n E s = Some s'"
proof (induction n arbitrary: s)
  case (Suc n)
  obtain r s1 where r: "net_device_receive_frame 2048 s = (r, s1)" by fastforce
  show ?case
  proof (cases r)
    case (Some f)
    with receive_quiet [OF Suc.prems] r obtain q' where q': "q = Suc q'" "quiet_ok queue now q' T s1" by blast
    have up: "quiet_ok queue now q' T s2 \<Longrightarrow> quiet_ok queue now q T s2" for s2
      using q'(1) quiet_ok_world [of queue now q' T s2] by (auto intro: quiet_okI)
    have "quiet_ok queue now q' T (arp_receive f s1)" using q'(2) by (simp add: quiet_ok_def arp_receive_ok)
    moreover obtain s2 where "ipv4_receive E f s1 = Some s2" "quiet_ok queue now q' T s2"
      using ipv4_receive_returns [OF assms [OF q'(1)] q'(2)] by blast
    ultimately show ?thesis
      using r Some Suc.IH [OF up] q'(2) by (auto simp: Let_def)
  qed (use r in simp)
qed simp

lemma net_poll_Suc: "net_poll pf (Suc n) s = net_poll_body (stack_env pf n) s"
  by (simp add: stack_env_def)

lemma net_poll_answers:
  assumes "quiet_platform queue now pf"
  shows "quiet_ok queue now q T s \<Longrightarrow> \<exists>s'. net_poll pf (Suc (q + 1001 + k)) s = Some s'"
proof (induction q arbitrary: T s k)
  case 0
  let ?E = "stack_env pf (0 + 1001 + k)"
  have "\<exists>s'. poll_frames 32 ?E (s\<lparr>config := c\<rparr>) = Some s'" for c
    using poll_frames_returns [of 0 queue now ?E T "s\<lparr>config := c\<rparr>" 32] 0 by simp
  then show ?case unfolding net_poll_Suc by (simp add: net_poll_body_def)
next
  case (Suc q)
  let ?n = "Suc q + 1001 + k"
  have n: "?n = Suc (q + 1001 + k)" by simp
  let ?E = "stack_env pf ?n"
  have "env_ok (quiet_driver queue now) (within queue now q' T') ?E" for q' T'
    by (rule stack_env_ok [OF quiet_platform_law [OF assms]])
  then have "answers queue now q ?E" unfolding n using Suc.IH assms by (auto simp: answers_def stack_env_def)
  then have "\<exists>s'. poll_frames 32 ?E (s\<lparr>config := c\<rparr>) = Some s'" for c
    using poll_frames_returns [of "Suc q" queue now ?E T "s\<lparr>config := c\<rparr>" 32] Suc.prems by simp
  then show ?case unfolding net_poll_Suc net_poll_body_def by (simp del: add_Suc add_Suc_right)
qed

lemma stack_answers:
  assumes "quiet_platform queue now pf" "n \<ge> q + 1002"
  shows "answers queue now q (stack_env pf n)"
proof -
  obtain k where "n = q + 1002 + k" using assms(2) le_Suc_ex by blast
  then have "n = Suc (q + 1001 + k)" by simp
  then show ?thesis
    using net_poll_answers [OF assms(1), of q _ _ k] stack_env_ok [OF quiet_platform_law [OF assms(1)]] assms
    by (auto simp: answers_def stack_env_def)
qed

section \<open>Connecting\<close>

lemma tcp_wait_returns:
  assumes "answers queue now q E"
  shows "quiet_ok queue now q T s \<Longrightarrow> unat deadline - T < m \<Longrightarrow> \<exists>s'. tcp_wait m E i deadline s = Some s' \<and> quiet_ok queue now q T s'"
proof (induction m arbitrary: s T)
  case (Suc m)
  obtain t s1 where t: "root_time_millis (env_pf E) s = (t, s1)" by fastforce
  note q1 = millis_quiet [OF answersD(2) [OF assms] Suc.prems(1) t]
  have weaken: "quiet_ok queue now q T' s2 \<Longrightarrow> T \<le> T' \<Longrightarrow> quiet_ok queue now q T s2" for T' s2
    using quiet_ok_world [of queue now q T' s2] by (auto intro: quiet_okI)
  show ?case
  proof (cases "t_state (the_connection i s) = ROOT_TCP_SYN_SENT \<and> t < deadline")
    case True
    obtain s2 where s2: "env_poll E s1 = Some s2" "quiet_ok queue now q (unat t) s2" using answersD(5) [OF assms q1(1)] by blast
    have lt: "unat t < unat deadline" using True by (simp add: word_less_nat_alt)
    then have "unat t < clock_max" using unat_clock_max [of deadline] by (rule less_le_trans)
    note q3 = halt_quiet [OF answersD(2) [OF assms] s2(2) this]
    have "unat deadline - Suc (unat t) < m" using Suc.prems(2) q1(2) lt by linarith
    then obtain s' where "tcp_wait m E i deadline (halt (env_pf E) s2) = Some s'" "quiet_ok queue now q (Suc (unat t)) s'"
      using Suc.IH [OF q3] by blast
    then show ?thesis using t True s2(1) weaken [of "Suc (unat t)" s'] q1(2) by simp
  next
    case False
    then show ?thesis using t Suc.prems(1) weaken [OF q1] by auto
  qed
qed simp

lemma tcp_attempts_returns:
  assumes "answers queue now q E" "unat per < env_turns E"
  shows "quiet_ok queue now q T s \<Longrightarrow> \<exists>r s'. tcp_attempts m E i sn per tr s = Some (r, s')"
proof (induction m arbitrary: s tr T)
  case (Suc m)
  obtain ok s1 where s1: "send_segment E i TCP_FLAG_SYN sn 0 True s = Some (ok, s1)" "quiet_ok queue now q T s1"
    using send_segment_returns [OF assms(1) Suc.prems] by blast
  obtain t s2 where t: "root_time_millis (env_pf E) s1 = (t, s2)" by fastforce
  note q2 = millis_quiet(1) [OF answersD(2) [OF assms(1)] s1(2) t]
  have "unat per < 2 ^ 64" using unsigned_less [where ?'a = nat, of per] by simp
  then have "unat (ucast per :: u64) = unat per" by (simp add: unsigned_ucast_eq take_bit_nat_eq_self)
  then have "unat (t + ucast per) - unat t < env_turns E" using deadline_distance [of t "ucast per"] assms(2) by simp
  from tcp_wait_returns [OF assms(1) q2 this] obtain s3 where "tcp_wait (env_turns E) E i (t + ucast per) s2 = Some s3"
    "quiet_ok queue now q (unat t) s3" by blast
  with Suc.IH [of "unat t" s3 True] s1 t show ?case by (cases ok) (auto simp: Let_def)
qed auto

lemma tcp_fail_state: "net_ok P W s \<Longrightarrow> i < 4 \<Longrightarrow> t_state (the_connection i (tcp_fail i e s)) = ROOT_TCP_ERROR"
  by (simp add: tcp_fail_def net_ok_def tcp_ok_def)

lemma tcp_attempts_stop:
  "tcp_attempts m E i sn per tr s = Some (True, s') \<Longrightarrow> env_ok P W E \<Longrightarrow> net_ok P W s \<Longrightarrow> i < 4 \<Longrightarrow>
     t_state (the_connection i s') = ROOT_TCP_ERROR"
proof (induction m arbitrary: s tr)
  case (Suc m)
  show ?case
    using Suc.prems Suc.IH [OF _ Suc.prems(2)]
    by (auto simp: bind_eq_Some_conv tcp_fail_state split: if_splits prod.splits
        dest!: send_segment_ok [where P = P and W = W] millis_ok [where P = P and W = W] tcp_wait_ok [where P = P and W = W]
        dest: env_okD(1))
qed simp

lemma tcp_connect_returns:
  assumes "answers queue now q E" "quiet_ok queue now q T s"
    and "1667 < env_turns E" "unat timeout div 3 < env_turns E"
  shows "\<exists>r s'. tcp_connect E ip port timeout s = Some (r, s')
    \<and> (case r of None \<Rightarrow> True | Some i \<Rightarrow> i < 4 \<and> t_state (the_connection i s') \<noteq> ROOT_TCP_SYN_SENT)"
proof -
  let ?s = "net_config s"
  obtain p v where p: "allocate_port (tcp s) = (p, v)" by fastforce
  have ok: "tcp_ok (tcp s)" using assms(2) by (simp add: quiet_ok_def net_ok_def)
  have v: "tcp_ok v" "connections v = connections (tcp s)" "p \<noteq> 0 \<longrightarrow> p \<notin> tcpt.holds (connections v)"
    using allocate_port_spec [of 10000 "tcp s" p v] p ok by (simp_all add: allocate_port_def)
  have q1: "quiet_ok queue now q T (?s\<lparr>tcp := v\<rparr>)" using assms(2) v(1) by (simp add: quiet_ok_def net_ok_tcp)
  obtain t s2 where t: "root_time_millis (env_pf E) (?s\<lparr>tcp := v\<rparr>) = (t, s2)" by fastforce
  have tcp2: "tcp s2 = v" using t by (auto simp: root_time_millis_def split: prod.splits)
  note q2 = millis_quiet(1) [OF answersD(2) [OF assms(1)] q1 t]
  define per where "per = (let timeout = (if timeout = 0 then 5000 else timeout) in if timeout div 3 < 1000 then 1000 else timeout div 3)"
  have per: "unat per < env_turns E"
    using assms(3,4) by (auto simp: per_def Let_def unat_div)
  show ?thesis
  proof (cases "\<not> c_configured (config s) \<or> ip = 0 \<or> port = 0 \<or> find_slot (\<lambda>c. \<not> t_used c) (connections (tcp s)) = None \<or> p = 0")
    case True
    then show ?thesis using p by (auto simp: tcp_connect_def Let_def simp del: find_slot_None split: option.split)
  next
    case False
    obtain i where i: "find_slot (\<lambda>c. \<not> t_used c) (connections (tcp s)) = Some i"
      using False by (cases "find_slot (\<lambda>c. \<not> t_used c) (connections (tcp s))") blast+
    have i4: "i < 4" using find_slot_in_range [OF i] ok by (simp add: tcp_ok_def)
    define sq where "sq = (let x = ucast t XOR ip XOR push_bit 16 (ucast port) XOR ucast p in if x = 0 then 1 else x :: u32)"
    define c where "c = \<lparr>t_used = True, t_remote_ip = ip, t_local_port = p, t_remote_port = port, t_send_next = sq + 1, t_receive_next = 0,
                         t_state = ROOT_TCP_SYN_SENT, t_last_error = Some ''none''\<rparr>"
    have "tcpt.keys_unique ((connections v)[i := c])"
      using v False i4 by (intro tcpt.insert_unique) (auto simp: tcp_ok_def c_def)
    then have q3: "quiet_ok queue now q (unat t) (put_connection i c s2)"
      using q2 v(1) tcp2 by (simp add: quiet_ok_def put_connection_def net_ok_def tcp_ok_def)
    obtain r s4 where s4: "tcp_attempts 3 E i sq per False (put_connection i c s2) = Some (r, s4)"
      using tcp_attempts_returns [OF assms(1) per q3] by blast
    have "tcp_connect E ip port timeout s =
        (if r then Some (Some i, s4)
         else if t_state (the_connection i s4) = ROOT_TCP_SYN_SENT then Some (Some i, tcp_fail i ''connect timeout'' s4)
         else Some (Some i, s4))"
      using False i p t s4 unfolding tcp_connect_def Let_def
      by (simp add: c_def sq_def per_def Let_def)
    moreover have "r \<Longrightarrow> t_state (the_connection i s4) \<noteq> ROOT_TCP_SYN_SENT"
      using tcp_attempts_stop [OF _ answersD(3) [OF assms(1)] q3 [unfolded quiet_ok_def] i4] s4 by simp
    moreover have "t_state (the_connection i (tcp_fail i e s4)) \<noteq> ROOT_TCP_SYN_SENT" for e
      using tcp_attempts_ok [OF s4 answersD(3) [OF assms(1)] q3 [unfolded quiet_ok_def]] i4 by (simp add: tcp_fail_state)
    ultimately show ?thesis using i4 by auto
  qed
qed

section \<open>The operations return\<close>


definition demo_now :: "u8 list list \<Rightarrow> nat" where
  "demo_now w = min (length w) clock_max"

definition demo_clock :: "u8 list list platform" where
  "demo_clock = \<lparr>pf_millis = (\<lambda>w. (word_of_nat (demo_now w), w)), pf_hlt = (\<lambda>w. w @ [[]])\<rparr>"

lemma demo_quiet: "quiet_platform (\<lambda>_. 0) demo_now demo_clock" "quiet_ok (\<lambda>_. 0) demo_now 0 0 (demo_client c)"
proof -
  have "unat (word_of_nat (demo_now w) :: u64) = demo_now w" for w
    by (simp add: unat_of_nat demo_now_def clock_max_def)
  then show "quiet_platform (\<lambda>_. 0) demo_now demo_clock"
    by (simp add: quiet_platform_def demo_clock_def) (auto simp: demo_now_def min_def)
  have "quiet_driver (\<lambda>_. 0) demo_now demo_device"
    by (simp add: quiet_driver_def demo_device_def demo_nic_ops_def demo_now_def min.coboundedI1)
  then show "quiet_ok (\<lambda>_. 0) demo_now 0 0 (demo_client c)"
    unfolding quiet_ok_def by (intro demo_net_ok) (simp_all add: quiet_driver_law within_def)
qed


end
