(* ===== verification/Root_Net_Claims.thy ===== *)
theory Root_Net_Claims
  imports Root_Net_Liveness
begin

text \<open>
  The network stack as a machine of operations (\<open>net_exec\<close>), its safety over every sequence of them, and the properties
  of its parts: checksums, the ARP cache, port allocation, DNS names and the DHCP client.
\<close>

section \<open>Sequences of operations\<close>

datatype net_op = Op_poll | Op_dhcp_acquire | Op_dns_resolve "string option" | Op_tcp_connect u32 u16 u32 | Op_tcp_close int
  | Op_udp_send_to u32 u16 u16 "u8 list option" nat | Op_udp_send_broadcast u16 u16 "u8 list option" nat
  | Op_select_device nat | Op_clear_ipv4

datatype net_status = Net_returned | Net_waiting

definition net_step :: "'h platform \<Rightarrow> nat \<Rightarrow> net_op \<Rightarrow> 'h net \<Rightarrow> 'h net option" where
  "net_step pf n a s =
     (case a of
        Op_poll \<Rightarrow> net_poll pf n s
      | Op_dhcp_acquire \<Rightarrow> map_option snd (dhcp_acquire (stack_env pf n) s)
      | Op_dns_resolve name \<Rightarrow> map_option snd (dns_resolve_ipv4 (stack_env pf n) name s)
      | Op_tcp_connect ip port timeout \<Rightarrow> map_option snd (tcp_connect (stack_env pf n) ip port timeout s)
      | Op_tcp_close ident \<Rightarrow> map_option snd (tcp_close (stack_env pf n) ident s)
      | Op_udp_send_to ip sp dp p k \<Rightarrow> map_option snd (udp_send_to (stack_env pf n) ip sp dp p k s)
      | Op_udp_send_broadcast sp dp p k \<Rightarrow> Some (snd (udp_send_broadcast sp dp p k s))
      | Op_select_device i \<Rightarrow> Some (snd (net_select_device i s))
      | Op_clear_ipv4 \<Rightarrow> Some (net_clear_ipv4 s))"

definition net_exec :: "'h platform \<Rightarrow> nat \<Rightarrow> net_op \<Rightarrow> 'h net \<Rightarrow> (net_status \<times> 'h net) option" where
  "net_exec pf n a s = (case net_step pf n a s of Some s' \<Rightarrow> Some (Net_returned, s') | None \<Rightarrow> Some (Net_waiting, s))"

lemma net_step_ok: "net_step pf n a s = Some s' \<Longrightarrow> platform_law W pf \<Longrightarrow> net_ok P W s \<Longrightarrow> net_ok P W s'"
  using stack_env_ok [of W pf P n]
  by (auto simp: net_step_def udp_send_broadcast_def split: net_op.splits
      dest: net_poll_ok dhcp_acquire_ok dns_resolve_ok tcp_connect_ok tcp_close_ok udp_send_to_ok
      intro: udp_broadcast_ok [OF surjective_pairing] net_select_ok [OF surjective_pairing] net_clear_ok)

interpretation netm: op_machine "net_exec pf n" "\<lambda>r. r = Net_waiting" "\<lambda>_. True" "\<lambda>s. platform_law W pf \<and> net_ok P W s"
  for pf :: "'h platform" and n W P
proof unfold_locales
  fix s a
  assume "platform_law W pf \<and> net_ok P W s"
  then show "\<exists>r s'. net_exec pf n a s = Some (r, s') \<and> (r \<noteq> Net_waiting \<longrightarrow> platform_law W pf \<and> net_ok P W s')"
    by (cases "net_step pf n a s") (auto simp: net_exec_def dest: net_step_ok)
qed


definition demo_log_ok :: "u8 list list \<Rightarrow> bool" where
  "demo_log_ok w \<longleftrightarrow> list_all (\<lambda>f. 60 \<le> length f \<and> length f \<le> 1514) w"

definition demo_pf :: "u8 list list platform" where
  "demo_pf = \<lparr>pf_millis = (\<lambda>w. (0, w)), pf_hlt = (\<lambda>w. w)\<rparr>"

lemma demo_log_law: "driver_law demo_log_ok demo_device"
  by (simp add: driver_law_def demo_device_def demo_nic_ops_def demo_log_ok_def)

lemma demo_log_net: "net_ok (driver_law demo_log_ok) demo_log_ok (demo_client c)"
  using demo_log_law by (intro demo_net_ok) (simp_all add: demo_log_ok_def)

lemma demo_run:
  "\<exists>s'. run_ops (net_exec demo_pf 2) (\<lambda>r. r = Net_waiting)
       [Op_udp_send_broadcast 68 67 (Some [1]) 1, Op_select_device 0, Op_clear_ipv4] s = Some ([Net_returned, Net_returned, Net_returned], s')"
  by (simp add: net_exec_def net_step_def)


section \<open>Checksums\<close>



section \<open>The ARP cache\<close>

lemma arp_full: "arp_ok st \<Longrightarrow> arp_entry_count st = 16 \<longleftrightarrow> (\<forall>e\<in>set (entries st). ae_used e)"
  unfolding arp_entry_count_def arp_ok_def by (metis filter_id_conv length_filter_less less_irrefl)

text \<open>
  The ARP cache refines a map from addresses to hardware addresses. Remembering a pair updates the map at that
  address; the only other effect is that a full table forgets the address in its replacement slot when a new one
  comes in. The address 0 is never remembered, and the table keeps one entry per address.
\<close>

theorem arp_cache_refines:
  assumes "arp_ok st" "length mac = 6"
  shows "arp_ok (arp_remember ip mac st)
    \<and> (\<lambda>a. arp_lookup a (arp_remember ip mac st)) =
      (if ip = 0 then (\<lambda>a. arp_lookup a st)
       else if arp_lookup ip st = None \<and> arp_entry_count st = ARP_TABLE_SIZE
       then ((\<lambda>a. arp_lookup a st)(ae_ipv4 (entries st ! replacement_index st) := None))(ip \<mapsto> mac)
       else (\<lambda>a. arp_lookup a st)(ip \<mapsto> mac))"
proof (cases "ip = 0")
  case True
  then show ?thesis using assms by (simp add: arp_remember_def)
next
  case False
  let ?i = "arp_slot ip st"
  have l: "length (entries st) = 16" "replacement_index st < 16" using assms(1) by (simp_all add: arp_ok_def)
  have slot: "ae_used (entries st ! ?i) \<and> ae_ipv4 (entries st ! ?i) \<noteq> ip \<longleftrightarrow> arp_lookup ip st = None \<and> arp_entry_count st = 16"
    and repl: "arp_lookup ip st = None \<Longrightarrow> arp_entry_count st = 16 \<Longrightarrow> ?i = replacement_index st"
    using arp_full [OF assms(1)] arp_slot_cases [OF assms(1), of ip] arp_lookup_None [of ip st] arpt.lookup_None [of ip "entries st"] l
    unfolding arp_slot_def
    by (auto simp: arpt.holds_def split: option.splits dest: find_slot_SomeD)
  have "arp_lookup a (arp_remember ip mac st) =
      (if arp_lookup ip st = None \<and> arp_entry_count st = ARP_TABLE_SIZE
       then (((\<lambda>a. arp_lookup a st)(ae_ipv4 (entries st ! replacement_index st) := None))(ip \<mapsto> mac)) a
       else ((\<lambda>a. arp_lookup a st)(ip \<mapsto> mac)) a)" for a
    using arp_lookup_remember [OF assms False] slot repl by (cases "a = ip") auto
  then show ?thesis using False arp_ok_remember [OF assms] by (auto simp: fun_eq_iff)
qed

theorem arp_cache_refines_witness:
  "(\<lambda>a. arp_lookup a (arp_remember 0x0A000002 (demo_mac 2) arp_init)) = (\<lambda>a. arp_lookup a arp_init)(0x0A000002 \<mapsto> demo_mac 2)"
proof -
  have "arp_entry_count arp_init = 0" by (simp add: arp_entry_count_def arp_init_def blank_entry_def)
  moreover have "length (demo_mac 2) = 6" by (simp add: demo_mac_def)
  ultimately show ?thesis using arp_cache_refines [of arp_init "demo_mac 2" "0x0A000002"] by (simp add: arp_ok_init)
qed

section \<open>UDP ports\<close>

lemma holds_update_free:
  "i < length xs \<Longrightarrow> \<not> ub_used (xs ! i) \<Longrightarrow> ub_used x \<Longrightarrow> udpt.holds (xs[i := x]) = insert (ub_port x) (udpt.holds xs)"
proof -
  assume a: "i < length xs" "\<not> ub_used (xs ! i)" "ub_used x"
  have "{y \<in> set (xs[i := x]). ub_used y} = insert x {y \<in> set xs. ub_used y}"
    using a by (auto simp: set_conv_nth nth_list_update)
  then show ?thesis by (simp add: udpt.holds_def)
qed

text \<open>
  Ephemeral UDP ports. The search over the 16384 candidates always ends with a port of the range 49152..65535 that
  is not bound, because at most eight can be; binding it succeeds exactly when one of the eight slots is free, and then
  that port is bound in addition to those bound before.
\<close>

theorem udp_ephemeral_port_correct:
  assumes "udp_ok st" "udp_allocate_ephemeral_port st = (port, st')" "udp_bind port (Some h) c st' = (ok, st'')"
  shows "49152 \<le> port \<and> \<not> udp_port_bound port st \<and> bindings st' = bindings st \<and> udp_ok st''
    \<and> ok = list_ex (\<lambda>b. \<not> ub_used b) (bindings st)
    \<and> (\<lambda>p. udp_port_bound p st'') = (\<lambda>p. ok \<and> p = port \<or> udp_port_bound p st)"
proof -
  have st': "udp_ok st'" "bindings st' = bindings st" "49152 \<le> port" "\<not> udp_port_bound port st"
    using udp_allocate_spec [OF assms(1)] assms(2) by simp_all
  have st'': "udp_ok st''" using udp_ok_bind [OF st'(1), of port "Some h" c] assms(3) by simp
  have nb: "\<not> udp_port_bound port st'" using st'(2,4) by (simp add: udp_port_bound_def)
  have "port \<noteq> 0" using st'(3) by auto
  with nb assms(3) have bind: "(case find_slot (\<lambda>b. \<not> ub_used b) (bindings st) of
        Some i \<Rightarrow> (True, st'\<lparr>bindings := (bindings st)[i := \<lparr>ub_used = True, ub_port = port, ub_handler = Some h, ub_context = c\<rparr>]\<rparr>)
      | None \<Rightarrow> (False, st')) = (ok, st'')" using st'(2) by (simp add: udp_bind_def del: find_slot_None cong: option.case_cong)
  have "ok = list_ex (\<lambda>b. \<not> ub_used b) (bindings st) \<and> udpt.holds (bindings st'') = (if ok then insert port else id) (udpt.holds (bindings st))"
  proof (cases "find_slot (\<lambda>b. \<not> ub_used b) (bindings st)")
    case None
    have "ok = False" "st'' = st'" using bind unfolding None by simp_all
    moreover have "\<not> list_ex (\<lambda>b. \<not> ub_used b) (bindings st)" using None by (simp add: list_ex_iff)
    ultimately show ?thesis using st'(2) by simp
  next
    case (Some i)
    then have "i < length (bindings st)" "\<not> ub_used (bindings st ! i)" using find_slot_SomeD by blast+
    then show ?thesis using bind Some holds_update_free [of i "bindings st"] by (auto simp: list_ex_length)
  qed
  moreover have "udp_port_bound p st'' = (p \<in> udpt.holds (bindings st''))" "udp_port_bound p st = (p \<in> udpt.holds (bindings st))" for p
    using udp_port_bound_holds st'' assms(1) by blast+
  ultimately show ?thesis using st' st'' by (auto simp: fun_eq_iff)
qed

theorem udp_ephemeral_port_correct_witness:
  "\<exists>port st' ok st''. udp_allocate_ephemeral_port udp_init = (port, st') \<and> udp_bind port (Some Handler_dns_receive) 0 st' = (ok, st'')
    \<and> 49152 \<le> port \<and> ok \<and> udp_port_bound port st''"
proof -
  obtain port st' where a: "udp_allocate_ephemeral_port udp_init = (port, st')" by fastforce
  obtain ok st'' where b: "udp_bind port (Some Handler_dns_receive) 0 st' = (ok, st'')" by fastforce
  have "list_ex (\<lambda>b. \<not> ub_used b) (bindings udp_init)" by (simp add: udp_init_def blank_binding_def list_ex_iff)
  with udp_ephemeral_port_correct [OF udp_ok_init a b] a b show ?thesis by metis
qed

section \<open>DNS\<close>

text \<open>A server's answer to a query: one question, one answer whose name is a compression pointer to the question.\<close>

definition dns_answer :: "u8 list \<Rightarrow> u32 \<Rightarrow> u32 \<Rightarrow> u8 list" where
  "dns_answer query address ttl =
     take 2 query @ net_write_be16 0x8180 @ net_write_be16 1 @ net_write_be16 1 @ replicate 4 0 @ drop 12 query
       @ [0xC0, 0x0C] @ net_write_be16 1 @ net_write_be16 1 @ net_write_be32 ttl @ net_write_be16 4 @ net_write_be32 address"

text \<open>
  C16: DNS queries and answers. Every name \<open>valid_name\<close> accepts is encoded (each label behind its length, as the wire
  format asks), the query fits its buffer with 18 bytes more than the name, and the parser, stepping over the echoed
  name and the compressed one, extracts exactly the address and time to live of the server's answer.
\<close>

theorem dns_query_answer_correct:
  assumes "valid_name (Some name)"
  shows "\<exists>query. dns_query ident name = Some query \<and> length query = length (cstr name) + 18 \<and> length query \<le> 512
    \<and> drop 12 query = concat (map wire_label (dns_labels (cstr name))) @ [0] @ net_write_be16 1 @ net_write_be16 1
    \<and> dns_parse_response (dns_answer query address ttl) = Inr (address, ttl)"
proof -
  note v = valid_nameD [OF assms]
  have cap: "length (cstr name) + 2 \<le> 500" using v by simp
  note e = encode_name_skip [OF assms cap]
  let ?w = "wire_name name"
  let ?q = "net_write_be16 ident @ net_write_be16 0x0100 @ net_write_be16 1 @ replicate 6 0 @ ?w @ net_write_be16 1 @ net_write_be16 1"
  let ?pre = "net_write_be16 ident @ net_write_be16 0x8180 @ net_write_be16 1 @ net_write_be16 1 @ replicate 4 0"
  let ?ans = "[0xC0, 0x0C] @ net_write_be16 1 @ net_write_be16 1 @ net_write_be32 ttl @ net_write_be16 4 @ net_write_be32 address"
  let ?p = "?pre @ ?w @ net_write_be16 1 @ net_write_be16 1 @ ?ans"
  have q: "dns_query ident name = Some ?q" using e(1,2) v by (auto simp: dns_query_def Let_def)
  have p: "dns_answer ?q address ttl = ?p" by (simp add: dns_answer_def)
  have len: "length ?w = length (cstr name) + 2" by (rule e(2))
  have skip1: "skip_name ?p 12 = Some (12 + length ?w)"
    using e(3) [of ?pre "net_write_be16 1 @ net_write_be16 1 @ ?ans"] by simp
  let ?o = "12 + length ?w + 4"
  have drop_o: "drop (?o + k) ?p = drop k ?ans" for k by simp
  have nth_o: "?p ! (?o + k) = ?ans ! k" for k
    using nth_drop [of ?o ?p k] drop_o [of 0] by simp
  have skip2: "skip_name ?p ?o = Some (?o + 2)"
    using nth_o [of 0] by (intro skip_name_pointer) simp_all
  have reads: "net_read_be16 (drop (?o + 2) ?p) = 1" "net_read_be16 (drop (?o + 2 + 2) ?p) = 1" "net_read_be32 (drop (?o + 2 + 4) ?p) = ttl"
    "net_read_be16 (drop (?o + 2 + 8) ?p) = 4" "net_read_be32 (drop (?o + 2 + 10) ?p) = address"
    unfolding add.assoc [of ?o 2] drop_o using read_write_be32 [of address "[]"] by (simp_all add: wire_simps)
  have plen: "length ?p = ?o + 16" by simp
  have head: "net_read_be16 (drop 2 ?p) = 0x8180" "net_read_be16 (drop 4 ?p) = 1" "net_read_be16 (drop 6 ?p) = 1"
    by (simp_all add: wire_simps)
  have questions: "skip_questions 1 ?p 12 = Some ?o"
    unfolding One_nat_def skip_questions.simps skip1 plen by simp
  have answers: "scan_answers 1 ?p ?o = Inr (address, ttl)"
    unfolding One_nat_def scan_answers.simps skip2 option.case Let_def reads plen by simp
  have "dns_parse_response ?p = Inr (address, ttl)"
    unfolding dns_parse_response_def Let_def head plen using questions answers by simp
  then have "dns_parse_response (dns_answer ?q address ttl) = Inr (address, ttl)" by (simp only: p)
  moreover have "length ?q = length (cstr name) + 18" using len by simp
  moreover have "drop 12 ?q = concat (map wire_label (dns_labels (cstr name))) @ [0] @ net_write_be16 1 @ net_write_be16 1"
    by (simp add: wire_name_def)
  ultimately show ?thesis using q v by auto
qed

theorem dns_query_answer_correct_witness:
  "\<exists>query. dns_query 7 ''root.org'' = Some query \<and> length query = 26
    \<and> dns_parse_response (dns_answer query 0x01020304 60) = Inr (0x01020304, 60)"
proof -
  have "valid_name (Some ''root.org'')" by code_simp
  moreover have "length (cstr ''root.org'') = 8" by code_simp
  ultimately show ?thesis using dns_query_answer_correct [of "''root.org''" 7 "0x01020304" 60] by auto
qed

section \<open>DHCP\<close>

text \<open>A server's message: the fixed part and a list of options, each behind its code and length.\<close>

definition option_bytes :: "(u8 \<times> u8 list) list \<Rightarrow> u8 list" where
  "option_bytes opts = concat (map (\<lambda>(code, v). code # word_of_nat (length v) # v) opts)"

definition dhcp_reply :: "u32 \<Rightarrow> u8 list \<Rightarrow> u32 \<Rightarrow> (u8 \<times> u8 list) list \<Rightarrow> u8 list" where
  "dhcp_reply xid mac yiaddr opts =
     [2, 1, 6, 0] @ net_write_be32 xid @ replicate 8 0 @ net_write_be32 yiaddr @ replicate 8 0 @ mac @ replicate 202 0
       @ net_write_be32 0x63825363 @ option_bytes opts @ [255]"

lemma read_be32_prefix: "4 \<le> length v \<Longrightarrow> net_read_be32 (v @ r) = net_read_be32 v"
  by (auto simp: net_read_be32_def nth_append)

lemma dhcp_option_prefix:
  "length v \<le> 255 \<Longrightarrow> dhcp_option code (word_of_nat (length v)) (v @ r) x = dhcp_option code (word_of_nat (length v)) v x"
proof -
  assume l: "length v \<le> 255"
  then have u: "unat (word_of_nat (length v) :: u8) = length v" by simp
  have four: "(4 :: u8) \<le> word_of_nat (length v) \<longleftrightarrow> 4 \<le> length v" "(1 :: u8) \<le> word_of_nat (length v) \<longleftrightarrow> 1 \<le> length v"
    unfolding word_le_nat_alt u by simp_all
  show ?thesis
    unfolding dhcp_option_def four by (cases x) (simp add: read_be32_prefix nth_append cong: if_cong conj_cong)
qed

lemma parse_options_reply:
  assumes "list_all (\<lambda>(code, v). code \<noteq> 0 \<and> code \<noteq> 255 \<and> length v \<le> 255) opts"
  shows "parse_options_loop (pre @ option_bytes opts @ 255 # r) (length pre) x =
    fold (\<lambda>(code, v). dhcp_option code (word_of_nat (length v)) v) opts x"
  using assms
proof (induction opts arbitrary: pre x)
  case Nil
  then show ?case by (subst parse_options_loop.simps) (simp add: option_bytes_def)
next
  case (Cons o' opts)
  obtain code v where o': "o' = (code, v)" by fastforce
  let ?w = "word_of_nat (length v) :: u8" and ?pre = "pre @ code # word_of_nat (length v) # v"
  let ?data = "pre @ option_bytes (o' # opts) @ 255 # r"
  have l: "code \<noteq> 0" "code \<noteq> 255" "length v \<le> 255" using Cons.prems o' by auto
  have u: "unat ?w = length v" using l by simp
  have data: "?data = pre @ code # ?w # v @ option_bytes opts @ 255 # r" "?data = ?pre @ option_bytes opts @ 255 # r"
    by (simp_all add: option_bytes_def o')
  have "parse_options_loop ?data (length pre) x =
      parse_options_loop ?data (length pre + 2 + length v) (dhcp_option code ?w (v @ option_bytes opts @ 255 # r) x)"
    unfolding data(1) using l u by (subst parse_options_loop.simps) (simp add: Let_def nth_append)
  also have "\<dots> = parse_options_loop ?data (length ?pre) (dhcp_option code ?w v x)"
    using dhcp_option_prefix [OF l(3), of code "option_bytes opts @ 255 # r" x] by simp
  also have "\<dots> = fold (\<lambda>(code, v). dhcp_option code (word_of_nat (length v)) v) opts (dhcp_option code ?w v x)"
    unfolding data(2) using Cons.prems by (intro Cons.IH) simp
  finally show ?case by (simp add: o')
qed

lemma dhcp_reply_reads:
  assumes "length mac = 6"
  shows "length (dhcp_reply xid mac ip opts) \<ge> 240" "dhcp_reply xid mac ip opts ! 0 = 2" "dhcp_reply xid mac ip opts ! 1 = 1"
    "dhcp_reply xid mac ip opts ! 2 = 6" "net_read_be32 (drop 4 (dhcp_reply xid mac ip opts)) = xid"
    "net_read_be32 (drop 16 (dhcp_reply xid mac ip opts)) = ip" "take 6 (drop 28 (dhcp_reply xid mac ip opts)) = mac"
    "net_read_be32 (drop 236 (dhcp_reply xid mac ip opts)) = 0x63825363"
  using assms by (simp_all add: dhcp_reply_def nth_append wire_simps)

lemma parse_reply:
  assumes "length mac = 6" "list_all (\<lambda>(code, v). code \<noteq> 0 \<and> code \<noteq> 255 \<and> length v \<le> 255) opts"
  shows "parse_options (dhcp_reply xid mac ip opts) d = fold (\<lambda>(code, v). dhcp_option code (word_of_nat (length v)) v) opts (0, d)"
proof -
  let ?pre = "[2, 1, 6, 0] @ net_write_be32 xid @ replicate 8 0 @ net_write_be32 ip @ replicate 8 0 @ mac @ replicate 202 0
       @ net_write_be32 0x63825363 :: u8 list"
  have "length ?pre = 240" using assms(1) by simp
  moreover have "dhcp_reply xid mac ip opts = ?pre @ option_bytes opts @ 255 # []" by (simp add: dhcp_reply_def)
  ultimately show ?thesis
    using parse_options_reply [OF assms(2), of ?pre "[]" "(0, d)"] by (simp only: parse_options_def)
qed

definition lease_options :: "u8 \<Rightarrow> u32 \<Rightarrow> u32 \<Rightarrow> u32 \<Rightarrow> u32 \<Rightarrow> u32 \<Rightarrow> (u8 \<times> u8 list) list" where
  "lease_options message server netmask router resolver seconds =
     [(53, [message]), (54, net_write_be32 server), (1, net_write_be32 netmask), (3, net_write_be32 router),
      (6, net_write_be32 resolver), (51, net_write_be32 seconds)]"

definition with_offer :: "u32 \<Rightarrow> u32 \<Rightarrow> u32 \<Rightarrow> u32 \<Rightarrow> u32 \<Rightarrow> dhcp_vars \<Rightarrow> dhcp_vars" where
  "with_offer server netmask router resolver seconds d =
     d\<lparr>offered_server := server, offered_mask := netmask, offered_gateway := router, offered_dns := resolver, offered_lease := seconds\<rparr>"

lemma parse_lease:
  assumes "length mac = 6"
  shows "parse_options (dhcp_reply xid mac ip (lease_options message server netmask router resolver seconds)) d
    = (message, with_offer server netmask router resolver seconds d)"
proof -
  have r: "net_read_be32 (net_write_be32 v) = v" for v using read_write_be32 [of v "[]"] by simp
  have "list_all (\<lambda>(code, v). code \<noteq> 0 \<and> code \<noteq> 255 \<and> length v \<le> 255)
      (lease_options message server netmask router resolver seconds)"
    by (simp add: lease_options_def)
  from parse_reply [OF assms this] show ?thesis
    by (simp add: lease_options_def dhcp_option_def r with_offer_def)
qed

lemma dhcp_receive_accept:
  assumes "length mac = 6"
  shows "dhcp_receive (dhcp_reply (transaction_id (dhcp s)) mac ip opts) s =
    (let s = net_config s in
     if mac \<noteq> c_mac (config s) then s
     else let (message_type, d) = parse_options (dhcp_reply (transaction_id (dhcp s)) mac ip opts) (dhcp s); s = s\<lparr>dhcp := d\<rparr>
       in if message_type = 2 \<and> state_value d = DHCP_STATE_DISCOVERING then
            s\<lparr>dhcp := d\<lparr>offered_ip := ip, state_value := DHCP_STATE_REQUESTING\<rparr>\<rparr>
          else if message_type = 5 \<and> state_value d = DHCP_STATE_REQUESTING then
            let d = (if ip \<noteq> 0 then d\<lparr>offered_ip := ip\<rparr> else d);
                s = net_apply_dhcp (offered_ip d) (offered_mask d) (offered_gateway d) (offered_dns d)
                      (offered_server d) (offered_lease d) s
            in s\<lparr>dhcp := d\<lparr>state_value := DHCP_STATE_BOUND, error_text := ''none''\<rparr>\<rparr>
          else if message_type = 6 then
            s\<lparr>dhcp := d\<lparr>state_value := DHCP_STATE_FAILED, error_text := ''server rejected request''\<rparr>\<rparr>
          else s)"
proof -
  have "\<not> length (dhcp_reply xid mac ip opts) < 240" for xid using dhcp_reply_reads(1) [OF assms, of xid ip opts] by simp
  then show ?thesis unfolding dhcp_receive_def dhcp_reply_reads(2-) [OF assms] Let_def by simp
qed

lemma dhcp_receive_ignored:
  assumes "host_up s" "length mac = 6"
  shows "xid \<noteq> transaction_id (dhcp s) \<Longrightarrow> dhcp_receive (dhcp_reply xid mac ip opts) s = s"
    and "mac \<noteq> host_mac s \<Longrightarrow> dhcp_receive (dhcp_reply (transaction_id (dhcp s)) mac ip opts) s = net_config s"
proof -
  have up: "net_device_ready s" using assms(1) by (simp add: host_up_def)
  show "xid \<noteq> transaction_id (dhcp s) \<Longrightarrow> dhcp_receive (dhcp_reply xid mac ip opts) s = s"
    unfolding dhcp_receive_def dhcp_reply_reads(5) [OF assms(2)] by simp
  show "mac \<noteq> host_mac s \<Longrightarrow> dhcp_receive (dhcp_reply (transaction_id (dhcp s)) mac ip opts) s = net_config s"
    using up by (simp add: dhcp_receive_accept [OF assms(2)])
qed

lemma dhcp_receive_lease:
  fixes server netmask router resolver seconds ip :: u32 and s :: "'h net"
  defines "d \<equiv> with_offer server netmask router resolver seconds (dhcp s)"
  assumes "host_up s"
  shows "dhcp_receive (dhcp_reply (transaction_id (dhcp s)) (host_mac s) ip
      (lease_options message server netmask router resolver seconds)) s =
    (if message = 2 \<and> state_value (dhcp s) = DHCP_STATE_DISCOVERING then
       (net_config s)\<lparr>dhcp := d\<lparr>offered_ip := ip, state_value := DHCP_STATE_REQUESTING\<rparr>\<rparr>
     else if message = 5 \<and> state_value (dhcp s) = DHCP_STATE_REQUESTING then
       (let d = (if ip \<noteq> 0 then d\<lparr>offered_ip := ip\<rparr> else d)
        in (net_apply_dhcp (offered_ip d) netmask router resolver server seconds (net_config s))
             \<lparr>dhcp := d\<lparr>state_value := DHCP_STATE_BOUND, error_text := ''none''\<rparr>\<rparr>)
     else if message = 6 then
       (net_config s)\<lparr>dhcp := d\<lparr>state_value := DHCP_STATE_FAILED, error_text := ''server rejected request''\<rparr>\<rparr>
     else (net_config s)\<lparr>dhcp := d\<rparr>)"
proof -
  have m: "length (host_mac s) = 6" "net_device_ready s" using assms(2) by (simp_all add: host_up_def)
  show ?thesis
    using m(2) by (simp add: dhcp_receive_accept [OF m(1)] parse_lease [OF m(1)] Let_def d_def with_offer_def net_apply_dhcp_def)
qed



end
