(* ===== verification/Root_Elf.thy ===== *)
theory Root_Elf
  imports Root_Memory Root_Heap_Ops Root_String
begin

text \<open>
  Relocatable ELF files: the routines the application loader (\<open>app/elf_loader.c\<close>) and the driver loader
  (\<open>driver/elf_module.c\<close>) use to lay out, copy and relocate a program inside heap memory. The packed structures of the
  C code are views of bytes in memory; \<open>ehdr_at\<close> and its companions read them at an address of the current memory.
  A pointer that may be NULL is an address with 0 for NULL. Both files define the same helpers under slightly
  different names; they are modelled once.
\<close>

unbundle bit_operations_syntax

definition ld16 :: "mem \<Rightarrow> addr \<Rightarrow> nat" where
  "ld16 m a = unat (m a) + 256 * unat (m (a + 1))"

record Elf32_Ehdr =
  e_ident :: "u8 list"
  e_type :: nat
  e_machine :: nat
  e_version :: nat
  e_shoff :: nat
  e_ehsize :: nat
  e_shentsize :: nat
  e_shnum :: nat

definition ehdr_at :: "mem \<Rightarrow> addr \<Rightarrow> Elf32_Ehdr" where
  "ehdr_at m a = \<lparr>e_ident = map (\<lambda>i. m (a + i)) [0..<16], e_type = ld16 m (a + 16), e_machine = ld16 m (a + 18),
     e_version = ld32 m (a + 20), e_shoff = ld32 m (a + 32), e_ehsize = ld16 m (a + 40), e_shentsize = ld16 m (a + 46),
     e_shnum = ld16 m (a + 48)\<rparr>"

record Elf32_Shdr =
  sh_type :: nat
  sh_flags :: nat
  sh_offset :: nat
  sh_size :: nat
  sh_link :: nat
  sh_info :: nat
  sh_addralign :: nat
  sh_entsize :: nat

definition shdr_at :: "mem \<Rightarrow> addr \<Rightarrow> Elf32_Shdr" where
  "shdr_at m a = \<lparr>sh_type = ld32 m (a + 4), sh_flags = ld32 m (a + 8), sh_offset = ld32 m (a + 16), sh_size = ld32 m (a + 20),
     sh_link = ld32 m (a + 24), sh_info = ld32 m (a + 28), sh_addralign = ld32 m (a + 32), sh_entsize = ld32 m (a + 36)\<rparr>"

record Elf32_Sym =
  st_name :: nat
  st_value :: nat
  st_shndx :: nat

definition sym_at :: "mem \<Rightarrow> addr \<Rightarrow> Elf32_Sym" where
  "sym_at m a = \<lparr>st_name = ld32 m a, st_value = ld32 m (a + 4), st_shndx = ld16 m (a + 14)\<rparr>"

record Elf32_Rel =
  r_offset :: nat
  r_info :: nat

definition rel_at :: "mem \<Rightarrow> addr \<Rightarrow> Elf32_Rel" where
  "rel_at m a = \<lparr>r_offset = ld32 m a, r_info = ld32 m (a + 4)\<rparr>"

text \<open>\<open>&sections[i]\<close>, \<open>&symbols[i]\<close> and \<open>&relocations[i]\<close>.\<close>

abbreviation section_of :: "mem \<Rightarrow> addr \<Rightarrow> nat \<Rightarrow> Elf32_Shdr" where
  "section_of m sections i \<equiv> shdr_at m (sections + 40 * i)"

abbreviation symbol_of :: "mem \<Rightarrow> addr \<Rightarrow> nat \<Rightarrow> Elf32_Sym" where
  "symbol_of m symbols i \<equiv> sym_at m (symbols + 16 * i)"

definition SHT_SYMTAB :: nat where [rootos_consts]: "SHT_SYMTAB = 2"
definition SHT_STRTAB :: nat where [rootos_consts]: "SHT_STRTAB = 3"
definition SHT_RELA :: nat where [rootos_consts]: "SHT_RELA = 4"
definition SHT_NOBITS :: nat where [rootos_consts]: "SHT_NOBITS = 8"
definition SHT_REL :: nat where [rootos_consts]: "SHT_REL = 9"
definition SHN_UNDEF :: nat where [rootos_consts]: "SHN_UNDEF = 0"
definition SHN_ABS :: nat where [rootos_consts]: "SHN_ABS = 0xFFF1"
definition SHN_COMMON :: nat where [rootos_consts]: "SHN_COMMON = 0xFFF2"
definition ROOT_ELF_MAX_SECTIONS :: nat where [rootos_consts]: "ROOT_ELF_MAX_SECTIONS = 96"
definition ROOT_ELF_MAX_IMAGE :: nat where [rootos_consts]: "ROOT_ELF_MAX_IMAGE = 2097152"
definition ROOT_ELF_MAX_ALIGNMENT :: nat where [rootos_consts]: "ROOT_ELF_MAX_ALIGNMENT = 4096"

section \<open>Helpers\<close>

definition range_valid :: "nat \<Rightarrow> nat \<Rightarrow> nat \<Rightarrow> bool" where
  "range_valid offset amount limit \<longleftrightarrow> offset \<le> limit \<and> amount \<le> limit - offset"

definition align_up :: "nat \<Rightarrow> nat \<Rightarrow> nat" where
  "align_up val alignment =
     (if alignment \<le> 1 then val
      else unat ((word_of_nat val + word_of_nat (alignment - 1)) AND NOT (word_of_nat (alignment - 1)) :: u32))"

definition power_of_two :: "nat \<Rightarrow> bool" where
  "power_of_two val \<longleftrightarrow> val \<noteq> 0 \<and> val AND (val - 1) = 0"

text \<open>The string that starts at \<open>offset\<close> of a table, when it ends inside the table.\<close>

definition table_string :: "mem \<Rightarrow> addr \<Rightarrow> nat \<Rightarrow> nat \<Rightarrow> string option" where
  "table_string m table table_size offset =
     (if table = 0 \<or> offset \<ge> table_size then None
      else let bytes = map (\<lambda>i. m (table + i)) [offset..<table_size] in
        if 0 \<in> set bytes then Some (map (\<lambda>b. char_of (unat b)) (takeWhile (\<lambda>b. b \<noteq> 0) bytes)) else None)"

definition elf_ident_ok :: "u8 list \<Rightarrow> bool" where
  "elf_ident_ok ident \<longleftrightarrow> ident ! 0 = 0x7F \<and> ident ! 1 = 0x45 \<and> ident ! 2 = 0x4C \<and> ident ! 3 = 0x46
     \<and> ident ! 4 = 1 \<and> ident ! 5 = 1 \<and> ident ! 6 = 1"

definition elf_header_valid :: "mem \<Rightarrow> addr \<Rightarrow> nat \<Rightarrow> bool" where
  "elf_header_valid m header file_size =
     (let h = ehdr_at m header in
      if header = 0 \<or> file_size < 52 then False
      else if \<not> elf_ident_ok (e_ident h) then False
      else if e_type h \<noteq> 1 \<or> e_machine h \<noteq> 3 \<or> e_version h \<noteq> 1 \<or> e_ehsize h \<noteq> 52 \<or> e_shentsize h \<noteq> 40
          \<or> e_shnum h = 0 \<or> e_shnum h > ROOT_ELF_MAX_SECTIONS then False
      else range_valid (e_shoff h) (u32_mul (e_shnum h) 40) file_size)"

definition symbol_runtime_address :: "mem \<Rightarrow> Elf32_Sym \<Rightarrow> addr \<Rightarrow> nat \<Rightarrow> addr list \<Rightarrow> nat option" where
  "symbol_runtime_address m symbol sections section_count runtime =
     (if st_shndx symbol = SHN_ABS then Some (st_value symbol)
      else if st_shndx symbol = SHN_UNDEF \<or> st_shndx symbol = SHN_COMMON \<or> st_shndx symbol \<ge> section_count
          \<or> runtime ! st_shndx symbol = 0 then None
      else if st_value symbol > sh_size (section_of m sections (st_shndx symbol)) then None
      else Some (u32_add (runtime ! st_shndx symbol) (st_value symbol)))"

section \<open>Laying out and copying the sections\<close>

definition allocated :: "Elf32_Shdr \<Rightarrow> bool" where
  "allocated s \<longleftrightarrow> sh_flags s AND 2 \<noteq> 0"

text \<open>
  The first loop over the sections, from section \<open>i\<close> on: the offset of every allocated section in the image, the size of
  the image and its alignment. The two results are the ones the loaders return for an unsupported and for a malformed
  section.
\<close>

fun layout_loop :: "'e \<Rightarrow> 'e \<Rightarrow> mem \<Rightarrow> addr \<Rightarrow> nat \<Rightarrow> nat list \<Rightarrow> nat list \<Rightarrow> nat \<Rightarrow> nat \<Rightarrow> 'e + (nat list \<times> nat \<times> nat)" where
  "layout_loop unsupported malformed m sections file_size [] offsets image_size max_alignment = Inr (offsets, image_size, max_alignment)"
| "layout_loop unsupported malformed m sections file_size (i # is) offsets image_size max_alignment =
     (let s = section_of m sections i in
      if \<not> allocated s then layout_loop unsupported malformed m sections file_size is offsets image_size max_alignment
      else let alignment = (if sh_addralign s = 0 then 1 else sh_addralign s) in
        if \<not> power_of_two alignment \<or> alignment > ROOT_ELF_MAX_ALIGNMENT then Inl unsupported
        else let max_alignment = (if alignment > max_alignment then alignment else max_alignment);
                 image_size = align_up image_size alignment;
                 offsets = offsets[i := image_size]
             in if sh_size s > ROOT_ELF_MAX_IMAGE \<or> image_size > u32_sub ROOT_ELF_MAX_IMAGE (sh_size s) then Inl unsupported
                else let image_size = u32_add image_size (sh_size s) in
                  if sh_type s \<noteq> SHT_NOBITS \<and> \<not> range_valid (sh_offset s) (sh_size s) file_size then Inl malformed
                  else layout_loop unsupported malformed m sections file_size is offsets image_size max_alignment)"

fun load_sections :: "addr \<Rightarrow> addr \<Rightarrow> addr \<Rightarrow> nat list \<Rightarrow> nat list \<Rightarrow> mem \<Rightarrow> addr list \<Rightarrow> mem \<times> addr list" where
  "load_sections file sections img offsets [] m runtime = (m, runtime)"
| "load_sections file sections img offsets (i # is) m runtime =
     (let s = section_of m sections i in
      if \<not> allocated s then load_sections file sections img offsets is m runtime
      else let place = u32_add img (offsets ! i);
               m = (if sh_type s \<noteq> SHT_NOBITS \<and> sh_size s > 0 then root_memcpy m place (file + sh_offset s) (sh_size s) else m)
           in load_sections file sections img offsets is m (runtime[i := place]))"

text \<open>The symbol table: section number, address, number of entries, and the table of names with its size.\<close>

record symtab =
  tab_section :: nat
  tab_symbols :: addr
  tab_count :: nat
  tab_strings :: addr
  tab_strings_size :: nat

fun symtab_loop :: "'e \<Rightarrow> mem \<Rightarrow> addr \<Rightarrow> addr \<Rightarrow> nat \<Rightarrow> nat \<Rightarrow> nat list \<Rightarrow> 'e + symtab option" where
  "symtab_loop malformed m file sections shnum file_size [] = Inr None"
| "symtab_loop malformed m file sections shnum file_size (i # is) =
     (let s = section_of m sections i in
      if sh_type s \<noteq> SHT_SYMTAB then symtab_loop malformed m file sections shnum file_size is
      else if sh_entsize s \<noteq> 16 \<or> sh_link s \<ge> shnum then Inl malformed
      else let l = section_of m sections (sh_link s) in
        if sh_type l \<noteq> SHT_STRTAB \<or> \<not> range_valid (sh_offset s) (sh_size s) file_size
            \<or> \<not> range_valid (sh_offset l) (sh_size l) file_size then Inl malformed
        else Inr (Some \<lparr>tab_section = i, tab_symbols = file + sh_offset s, tab_count = sh_size s div 16,
                    tab_strings = file + sh_offset l, tab_strings_size = sh_size l\<rparr>))"

section \<open>Preparing the image\<close>

text \<open>
  Both loaders begin in the same way, up to the names of their results: check the header, lay out the sections, allocate
  and clear the image, copy the sections and find the symbol table. The image is released when there is none.
\<close>

record 'e elf_errors =
  err_format :: 'e
  err_unsupported :: 'e
  err_memory :: 'e
  err_entry :: 'e

record elf_image =
  im_sections :: addr
  im_shnum :: nat
  im_raw :: addr
  im_base :: addr
  im_size :: nat
  im_runtime :: "addr list"
  im_symtab :: symtab

definition elf_prepare :: "'e elf_errors \<Rightarrow> addr \<Rightarrow> nat \<Rightarrow> heap \<Rightarrow> (('e + elf_image) \<times> heap) option" where
  "elf_prepare E file file_size h =
     (let m = heap_bytes h; shnum = e_shnum (ehdr_at m file); sections = file + e_shoff (ehdr_at m file);
          none = replicate ROOT_ELF_MAX_SECTIONS 0
      in if \<not> elf_header_valid m file file_size then Some (Inl (err_format E), h)
         else case layout_loop (err_unsupported E) (err_format E) m sections file_size [0..<shnum] none 0 16 of
           Inl e \<Rightarrow> Some (Inl e, h)
         | Inr (offsets, image_size, max_alignment) \<Rightarrow>
             if image_size = 0 then Some (Inl (err_format E), h)
             else case root_malloc h (u32_add image_size max_alignment) of
               None \<Rightarrow> None
             | Some (image_raw, h) \<Rightarrow>
                 if image_raw = 0 then Some (Inl (err_memory E), h)
                 else let img = align_up image_raw max_alignment;
                          m = root_memzero (heap_bytes h) img image_size;
                          (m, runtime) = load_sections file sections img offsets [0..<shnum] m none;
                          h = h\<lparr>heap_bytes := m\<rparr>
                      in case symtab_loop (err_format E) m file sections shnum file_size [0..<shnum] of
                           Inl e \<Rightarrow> Some (Inl e, root_free h image_raw)
                         | Inr None \<Rightarrow> Some (Inl (err_entry E), root_free h image_raw)
                         | Inr (Some tab) \<Rightarrow>
                             if tab_count tab = 0 then Some (Inl (err_entry E), root_free h image_raw)
                             else Some (Inr \<lparr>im_sections = sections, im_shnum = shnum, im_raw = image_raw, im_base = img,
                                          im_size = image_size, im_runtime = runtime, im_symtab = tab\<rparr>, h))"

section \<open>Relocation\<close>

text \<open>
  The word at \<open>place\<close> after a relocation of the given type; \<open>None\<close> for a type that is not supported. Arithmetic is on
  32 bits.
\<close>

definition relocated :: "nat \<Rightarrow> nat \<Rightarrow> nat \<Rightarrow> nat \<Rightarrow> nat option" where
  "relocated rel_type symbol_address addend place =
     (if rel_type = 1 then Some (u32_add symbol_address addend)
      else if rel_type = 2 then Some (u32_sub (u32_add symbol_address addend) place)
      else None)"

section \<open>The application loader (elf\_loader.c)\<close>

datatype RootElfResult = ROOT_ELF_OK | ROOT_ELF_NOT_FOUND | ROOT_ELF_IO_ERROR | ROOT_ELF_BAD_FORMAT | ROOT_ELF_UNSUPPORTED
  | ROOT_ELF_NO_MEMORY | ROOT_ELF_NO_ENTRY | ROOT_ELF_RELOCATION_ERROR | ROOT_ELF_PROCESS_TABLE_FULL

text \<open>The entries of one relocation section, from entry \<open>r\<close> on; the result is \<open>None\<close> when all were applied.\<close>

fun relocation_entries :: "symtab \<Rightarrow> addr \<Rightarrow> nat \<Rightarrow> addr list \<Rightarrow> nat \<Rightarrow> addr \<Rightarrow> nat list \<Rightarrow> mem \<Rightarrow> RootElfResult option \<times> mem" where
  "relocation_entries tab sections shnum runtime info relocations [] m = (None, m)"
| "relocation_entries tab sections shnum runtime info relocations (r # rs) m =
     (let rel = rel_at m (relocations + 8 * r);
          symbol_index = r_info rel div 256;
          rel_type = r_info rel mod 256;
          size_of_target = sh_size (section_of m sections info)
      in if symbol_index \<ge> tab_count tab \<or> r_offset rel > size_of_target \<or> size_of_target - r_offset rel < 4
         then (Some ROOT_ELF_RELOCATION_ERROR, m)
         else let symbol = symbol_runtime_address m (symbol_of m (tab_symbols tab) symbol_index) sections shnum runtime in
           if rel_type \<noteq> 0 \<and> symbol = None then (Some ROOT_ELF_RELOCATION_ERROR, m)
           else let place = u32_add (runtime ! info) (r_offset rel) in
             if rel_type = 0 then relocation_entries tab sections shnum runtime info relocations rs m
             else case relocated rel_type (the symbol) (ld32 m place) place of
               None \<Rightarrow> (Some ROOT_ELF_UNSUPPORTED, m)
             | Some v \<Rightarrow> relocation_entries tab sections shnum runtime info relocations rs (st32 m place v))"

fun relocation_loop :: "symtab \<Rightarrow> addr \<Rightarrow> addr \<Rightarrow> nat \<Rightarrow> nat \<Rightarrow> addr list \<Rightarrow> nat list \<Rightarrow> mem \<Rightarrow> RootElfResult option \<times> mem" where
  "relocation_loop tab file sections shnum file_size runtime [] m = (None, m)"
| "relocation_loop tab file sections shnum file_size runtime (i # is) m =
     (let s = section_of m sections i in
      if sh_type s = SHT_RELA then (Some ROOT_ELF_UNSUPPORTED, m)
      else if sh_type s \<noteq> SHT_REL then relocation_loop tab file sections shnum file_size runtime is m
      else if sh_entsize s \<noteq> 8 \<or> sh_link s \<ge> shnum \<or> sh_link s \<noteq> tab_section tab \<or> sh_info s \<ge> shnum
          \<or> runtime ! sh_info s = 0 \<or> \<not> range_valid (sh_offset s) (sh_size s) file_size
      then (Some ROOT_ELF_RELOCATION_ERROR, m)
      else case relocation_entries tab sections shnum runtime (sh_info s) (file + sh_offset s) [0..<sh_size s div 8] m of
             (Some e, m) \<Rightarrow> (Some e, m)
           | (None, m) \<Rightarrow> relocation_loop tab file sections shnum file_size runtime is m)"

text \<open>The search for \<open>root_main\<close>: 0 when it is missing or has no address.\<close>

fun entry_loop :: "string \<Rightarrow> mem \<Rightarrow> symtab \<Rightarrow> addr \<Rightarrow> nat \<Rightarrow> addr list \<Rightarrow> nat list \<Rightarrow> nat" where
  "entry_loop name m tab sections shnum runtime [] = 0"
| "entry_loop name m tab sections shnum runtime (i # is) =
     (let symbol = symbol_of m (tab_symbols tab) i in
      case table_string m (tab_strings tab) (tab_strings_size tab) (st_name symbol) of
        Some n \<Rightarrow>
          if root_streq n name then
            (case symbol_runtime_address m symbol sections shnum runtime of None \<Rightarrow> 0 | Some a \<Rightarrow> a)
          else entry_loop name m tab sections shnum runtime is
      | None \<Rightarrow> entry_loop name m tab sections shnum runtime is)"

text \<open>
  The part of \<open>elf_loader_run\<close> between reading the file into the block \<open>file\<close> and registering the process: the entry
  address, the block of the image and the size of the image, or an error with the image already released.
\<close>

definition app_errors :: "RootElfResult elf_errors" where
  "app_errors = \<lparr>err_format = ROOT_ELF_BAD_FORMAT, err_unsupported = ROOT_ELF_UNSUPPORTED, err_memory = ROOT_ELF_NO_MEMORY,
     err_entry = ROOT_ELF_NO_ENTRY\<rparr>"

definition elf_load_image :: "addr \<Rightarrow> nat \<Rightarrow> heap \<Rightarrow> ((RootElfResult + (nat \<times> addr \<times> nat)) \<times> heap) option" where
  "elf_load_image file file_size h =
     (case elf_prepare app_errors file file_size h of
        None \<Rightarrow> None
      | Some (Inl e, h) \<Rightarrow> Some (Inl e, h)
      | Some (Inr im, h) \<Rightarrow>
          (case relocation_loop (im_symtab im) file (im_sections im) (im_shnum im) file_size (im_runtime im) [0..<im_shnum im] (heap_bytes h) of
             (Some e, m) \<Rightarrow> Some (Inl e, root_free (h\<lparr>heap_bytes := m\<rparr>) (im_raw im))
           | (None, m) \<Rightarrow>
               let entry = entry_loop ''root_main'' m (im_symtab im) (im_sections im) (im_shnum im) (im_runtime im)
                             [0..<tab_count (im_symtab im)]
               in if entry = 0 then Some (Inl ROOT_ELF_NO_ENTRY, root_free (h\<lparr>heap_bytes := m\<rparr>) (im_raw im))
                  else Some (Inr (entry, im_raw im, im_size im), h\<lparr>heap_bytes := m\<rparr>)))"

definition elf_loader_result_string :: "RootElfResult \<Rightarrow> string" where
  "elf_loader_result_string r = (case r of
      ROOT_ELF_OK \<Rightarrow> ''ok'' | ROOT_ELF_NOT_FOUND \<Rightarrow> ''file not found'' | ROOT_ELF_IO_ERROR \<Rightarrow> ''filesystem I/O error''
    | ROOT_ELF_BAD_FORMAT \<Rightarrow> ''invalid ELF32 relocatable file'' | ROOT_ELF_UNSUPPORTED \<Rightarrow> ''unsupported ELF feature or relocation''
    | ROOT_ELF_NO_MEMORY \<Rightarrow> ''not enough memory'' | ROOT_ELF_NO_ENTRY \<Rightarrow> ''root_main entry not found''
    | ROOT_ELF_RELOCATION_ERROR \<Rightarrow> ''ELF relocation failed'' | ROOT_ELF_PROCESS_TABLE_FULL \<Rightarrow> ''process table is full'')"

section \<open>The driver loader (elf\_module.c)\<close>

datatype RootModuleResult = ROOT_MODULE_OK | ROOT_MODULE_BAD_FORMAT | ROOT_MODULE_UNSUPPORTED | ROOT_MODULE_NO_MEMORY
  | ROOT_MODULE_NO_ENTRY | ROOT_MODULE_RELOCATION_ERROR

record RootLoadedModule =
  image_allocation :: addr
  image_base :: addr
  module_image_size :: nat
  module_entry :: addr

definition zero_module :: RootLoadedModule where
  "zero_module = \<lparr>image_allocation = 0, image_base = 0, module_image_size = 0, module_entry = 0\<rparr>"

text \<open>The check of \<open>r_offset + sizeof(u32)\<close> is on 32 bits, as in the C code.\<close>

fun module_entries :: "symtab \<Rightarrow> addr \<Rightarrow> nat \<Rightarrow> addr list \<Rightarrow> nat \<Rightarrow> addr \<Rightarrow> nat list \<Rightarrow> mem \<Rightarrow> RootModuleResult option \<times> mem" where
  "module_entries tab sections shnum runtime info relocations [] m = (None, m)"
| "module_entries tab sections shnum runtime info relocations (r # rs) m =
     (let rel = rel_at m (relocations + 8 * r);
          symbol_index = r_info rel div 256;
          rel_type = r_info rel mod 256
      in if rel_type = 0 then module_entries tab sections shnum runtime info relocations rs m
         else if symbol_index \<ge> tab_count tab \<or> u32_add (r_offset rel) 4 > sh_size (section_of m sections info)
         then (Some ROOT_MODULE_RELOCATION_ERROR, m)
         else case symbol_runtime_address m (symbol_of m (tab_symbols tab) symbol_index) sections shnum runtime of
           None \<Rightarrow> (Some ROOT_MODULE_RELOCATION_ERROR, m)
         | Some symbol_address \<Rightarrow>
             let place = u32_add (runtime ! info) (r_offset rel) in
             case relocated rel_type symbol_address (ld32 m place) place of
               None \<Rightarrow> (Some ROOT_MODULE_RELOCATION_ERROR, m)
             | Some v \<Rightarrow> module_entries tab sections shnum runtime info relocations rs (st32 m place v))"

fun module_relocations :: "symtab \<Rightarrow> addr \<Rightarrow> addr \<Rightarrow> nat \<Rightarrow> nat \<Rightarrow> addr list \<Rightarrow> nat list \<Rightarrow> mem \<Rightarrow> RootModuleResult option \<times> mem" where
  "module_relocations tab file sections shnum file_size runtime [] m = (None, m)"
| "module_relocations tab file sections shnum file_size runtime (i # is) m =
     (let s = section_of m sections i in
      if sh_type s = SHT_RELA then (Some ROOT_MODULE_UNSUPPORTED, m)
      else if sh_type s \<noteq> SHT_REL then module_relocations tab file sections shnum file_size runtime is m
      else if sh_entsize s \<noteq> 8 \<or> sh_info s \<ge> shnum \<or> sh_link s \<ge> shnum \<or> sh_type (section_of m sections (sh_link s)) \<noteq> SHT_SYMTAB
          \<or> \<not> range_valid (sh_offset s) (sh_size s) file_size \<or> runtime ! sh_info s = 0
      then (Some ROOT_MODULE_BAD_FORMAT, m)
      else case module_entries tab sections shnum runtime (sh_info s) (file + sh_offset s) [0..<sh_size s div 8] m of
             (Some e, m) \<Rightarrow> (Some e, m)
           | (None, m) \<Rightarrow> module_relocations tab file sections shnum file_size runtime is m)"

text \<open>A NULL \<open>output\<close> is not modelled: every caller passes the address of a local variable.\<close>

definition module_errors :: "RootModuleResult elf_errors" where
  "module_errors = \<lparr>err_format = ROOT_MODULE_BAD_FORMAT, err_unsupported = ROOT_MODULE_UNSUPPORTED,
     err_memory = ROOT_MODULE_NO_MEMORY, err_entry = ROOT_MODULE_NO_ENTRY\<rparr>"

definition elf_module_load_memory :: "addr \<Rightarrow> nat \<Rightarrow> string option \<Rightarrow> heap \<Rightarrow> ((RootModuleResult \<times> RootLoadedModule) \<times> heap) option" where
  "elf_module_load_memory source file_size entry_symbol h =
     (if source = 0 \<or> entry_symbol = None \<or> file_size < 52 then Some ((ROOT_MODULE_BAD_FORMAT, zero_module), h)
      else case elf_prepare module_errors source file_size h of
        None \<Rightarrow> None
      | Some (Inl e, h) \<Rightarrow> Some ((e, zero_module), h)
      | Some (Inr im, h) \<Rightarrow>
          (case module_relocations (im_symtab im) source (im_sections im) (im_shnum im) file_size (im_runtime im) [0..<im_shnum im] (heap_bytes h) of
             (Some e, m) \<Rightarrow> Some ((e, zero_module), root_free (h\<lparr>heap_bytes := m\<rparr>) (im_raw im))
           | (None, m) \<Rightarrow>
               let entry = entry_loop (the entry_symbol) m (im_symtab im) (im_sections im) (im_shnum im) (im_runtime im)
                             [0..<tab_count (im_symtab im)]
               in if entry = 0 then Some ((ROOT_MODULE_NO_ENTRY, zero_module), root_free (h\<lparr>heap_bytes := m\<rparr>) (im_raw im))
                  else Some ((ROOT_MODULE_OK, \<lparr>image_allocation = im_raw im, image_base = im_base im,
                         module_image_size = im_size im, module_entry = entry\<rparr>), h\<lparr>heap_bytes := m\<rparr>)))"

definition elf_module_result_string :: "RootModuleResult \<Rightarrow> string" where
  "elf_module_result_string r = (case r of ROOT_MODULE_OK \<Rightarrow> ''ok'' | ROOT_MODULE_BAD_FORMAT \<Rightarrow> ''bad ELF''
    | ROOT_MODULE_UNSUPPORTED \<Rightarrow> ''unsupported ELF'' | ROOT_MODULE_NO_MEMORY \<Rightarrow> ''out of memory''
    | ROOT_MODULE_NO_ENTRY \<Rightarrow> ''entry symbol missing'' | ROOT_MODULE_RELOCATION_ERROR \<Rightarrow> ''relocation failed'')"

end
