(* ===== verification/Root_Process.thy ===== *)
theory Root_Process
  imports Root_String
begin

text \<open>
  The process table (\<open>process/process.c\<close>): 32 records of programs that are ready, running or finished. Programs run
  synchronously, so the table is a history; when it is full, a finished record is replaced in round-robin order.
\<close>

unbundle bit_operations_syntax

datatype RootProcessState = ROOT_PROCESS_UNUSED | ROOT_PROCESS_READY | ROOT_PROCESS_RUNNING | ROOT_PROCESS_EXITED | ROOT_PROCESS_FAILED

record RootProcessInfo =
  pr_used :: bool
  pr_pid :: u32
  pr_state :: RootProcessState
  pr_exit_code :: int
  pr_image_size :: nat
  pr_name :: string

record processes =
  process_table :: "RootProcessInfo list"
  next_pid :: u32
  replacement_cursor :: nat

definition ROOT_PROCESS_MAX :: nat where [rootos_consts]: "ROOT_PROCESS_MAX = 32"
definition ROOT_PROCESS_NAME_MAX :: nat where [rootos_consts]: "ROOT_PROCESS_NAME_MAX = 64"

definition zero_process :: RootProcessInfo where
  "zero_process = \<lparr>pr_used = False, pr_pid = 0, pr_state = ROOT_PROCESS_UNUSED, pr_exit_code = 0, pr_image_size = 0, pr_name = []\<rparr>"

definition process_find :: "u32 \<Rightarrow> processes \<Rightarrow> nat option" where
  "process_find pid s = find_slot (\<lambda>p. pr_used p \<and> pr_pid p = pid) (process_table s)"

definition process_finished :: "RootProcessInfo \<Rightarrow> bool" where
  "process_finished p \<longleftrightarrow> pr_state p = ROOT_PROCESS_EXITED \<or> pr_state p = ROOT_PROCESS_FAILED"

text \<open>The second loop of \<open>process_choose_slot\<close>: the attempts that are left.\<close>

fun replacement_loop :: "nat list \<Rightarrow> processes \<Rightarrow> nat \<times> processes" where
  "replacement_loop [] s = (ROOT_PROCESS_MAX, s)"
| "replacement_loop (attempt # rest) s =
     (let index = (replacement_cursor s + attempt) mod ROOT_PROCESS_MAX in
      if process_finished (process_table s ! index) then (index, s\<lparr>replacement_cursor := (index + 1) mod ROOT_PROCESS_MAX\<rparr>)
      else replacement_loop rest s)"

definition process_choose_slot :: "processes \<Rightarrow> nat \<times> processes" where
  "process_choose_slot s =
     (case find_slot (\<lambda>p. \<not> pr_used p) (process_table s) of
        Some i \<Rightarrow> (i, s)
      | None \<Rightarrow> replacement_loop [0..<ROOT_PROCESS_MAX] s)"

definition process_manager_init :: processes where
  "process_manager_init = \<lparr>process_table = replicate ROOT_PROCESS_MAX zero_process, next_pid = 1, replacement_cursor = 0\<rparr>"

definition process_begin :: "string option \<Rightarrow> nat \<Rightarrow> processes \<Rightarrow> u32 \<times> processes" where
  "process_begin name image_size s =
     (let (index, s) = process_choose_slot s in
      if index \<ge> ROOT_PROCESS_MAX then (0, s)
      else let pid = next_pid s;
               following = (if pid + 1 = 0 then 1 else pid + 1);
               title = (case name of None \<Rightarrow> ''application'' | Some n \<Rightarrow> if chead n = NUL then ''application'' else n);
               p = \<lparr>pr_used = True, pr_pid = pid, pr_state = ROOT_PROCESS_READY, pr_exit_code = 0, pr_image_size = image_size,
                    pr_name = fst (root_strlcpy [] title ROOT_PROCESS_NAME_MAX)\<rparr>
           in (pid, s\<lparr>process_table := (process_table s)[index := p], next_pid := following\<rparr>))"

definition change_process :: "u32 \<Rightarrow> (RootProcessInfo \<Rightarrow> RootProcessInfo) \<Rightarrow> processes \<Rightarrow> processes" where
  "change_process pid f s =
     (case process_find pid s of
        None \<Rightarrow> s
      | Some i \<Rightarrow> s\<lparr>process_table := (process_table s)[i := f (process_table s ! i)]\<rparr>)"

definition process_mark_running :: "u32 \<Rightarrow> processes \<Rightarrow> processes" where
  "process_mark_running pid = change_process pid (\<lambda>p. p\<lparr>pr_state := ROOT_PROCESS_RUNNING\<rparr>)"

definition process_mark_exit :: "u32 \<Rightarrow> int \<Rightarrow> processes \<Rightarrow> processes" where
  "process_mark_exit pid exit_code = change_process pid (\<lambda>p. p\<lparr>pr_state := ROOT_PROCESS_EXITED, pr_exit_code := exit_code\<rparr>)"

definition process_mark_failed :: "u32 \<Rightarrow> int \<Rightarrow> processes \<Rightarrow> processes" where
  "process_mark_failed pid exit_code = change_process pid (\<lambda>p. p\<lparr>pr_state := ROOT_PROCESS_FAILED, pr_exit_code := exit_code\<rparr>)"

definition process_count :: "processes \<Rightarrow> nat" where
  "process_count s = length (filter pr_used (process_table s))"

text \<open>The visible records are counted from 0; \<open>visible\<close> counts the used ones passed so far.\<close>

fun process_get_loop :: "nat \<Rightarrow> nat \<Rightarrow> RootProcessInfo list \<Rightarrow> RootProcessInfo option" where
  "process_get_loop index visible [] = None"
| "process_get_loop index visible (p # ps) =
     (if \<not> pr_used p then process_get_loop index visible ps
      else if visible = index then Some p
      else process_get_loop index (visible + 1) ps)"

definition process_get :: "nat \<Rightarrow> processes \<Rightarrow> RootProcessInfo option" where
  "process_get index s = process_get_loop index 0 (process_table s)"

definition process_state_name :: "RootProcessState \<Rightarrow> string" where
  "process_state_name st = (case st of ROOT_PROCESS_READY \<Rightarrow> ''ready'' | ROOT_PROCESS_RUNNING \<Rightarrow> ''running''
     | ROOT_PROCESS_EXITED \<Rightarrow> ''exited'' | ROOT_PROCESS_FAILED \<Rightarrow> ''failed'' | ROOT_PROCESS_UNUSED \<Rightarrow> ''unused'')"

section \<open>The table\<close>

interpretation proct: slot_table pr_used pr_pid zero_process
  by unfold_locales (simp add: zero_process_def)

text \<open>
  \<open>pids_below\<close>: identifiers are unique and below the next one, as long as the 32-bit counter has not wrapped around.
\<close>

definition processes_ok :: "processes \<Rightarrow> bool" where
  "processes_ok s \<longleftrightarrow> length (process_table s) = ROOT_PROCESS_MAX \<and> replacement_cursor s < ROOT_PROCESS_MAX \<and> next_pid s \<noteq> 0"

definition pids_below :: "processes \<Rightarrow> bool" where
  "pids_below s \<longleftrightarrow> proct.keys_unique (process_table s)
     \<and> (\<forall>p\<in>set (process_table s). pr_used p \<longrightarrow> pr_pid p \<noteq> 0 \<and> pr_pid p < next_pid s)"

definition running :: "RootProcessInfo \<Rightarrow> bool" where
  "running p \<longleftrightarrow> pr_used p \<and> \<not> process_finished p"

lemma replacement_loop_spec:
  assumes "length (process_table s) = ROOT_PROCESS_MAX" "replacement_cursor s < ROOT_PROCESS_MAX"
  shows "replacement_loop as s = (index, s') \<Longrightarrow>
    process_table s' = process_table s \<and> next_pid s' = next_pid s \<and> replacement_cursor s' < ROOT_PROCESS_MAX
    \<and> (if \<exists>a\<in>set as. process_finished (process_table s ! ((replacement_cursor s + a) mod ROOT_PROCESS_MAX))
       then index < ROOT_PROCESS_MAX \<and> process_finished (process_table s ! index) else index = ROOT_PROCESS_MAX \<and> s' = s)"
  using assms by (induction as) (auto simp: Let_def rootos_consts split: if_splits)

lemma all_slots:
  assumes "c < (n :: nat)" "i < n"
  shows "\<exists>a\<in>set [0..<n]. (c + a) mod n = i"
proof (cases "c \<le> i")
  case True
  then show ?thesis using assms by (intro bexI [of _ "i - c"]) auto
next
  case False
  then have "(c + (n + i - c)) mod n = i" using assms by simp
  then show ?thesis using assms False by (intro bexI [of _ "n + i - c"]) auto
qed

lemma choose_slot_spec:
  assumes "processes_ok s" "process_choose_slot s = (index, s')"
  shows "process_table s' = process_table s \<and> next_pid s' = next_pid s \<and> processes_ok s'
    \<and> (if list_all running (process_table s) then index = ROOT_PROCESS_MAX \<and> s' = s
       else index < ROOT_PROCESS_MAX \<and> \<not> running (process_table s ! index))"
proof (cases "find_slot (\<lambda>p. \<not> pr_used p) (process_table s)")
  case (Some i)
  then have i: "i < length (process_table s)" "\<not> pr_used (process_table s ! i)" using find_slot_SomeD by blast+
  then have "\<not> list_all running (process_table s)" by (auto simp: list_all_length running_def)
  then show ?thesis using assms Some i by (auto simp: process_choose_slot_def processes_ok_def running_def)
next
  case None
  let ?t = "process_table s"
  have used: "\<forall>p\<in>set ?t. pr_used p" using None by simp
  have len: "length ?t = ROOT_PROCESS_MAX" and cur: "replacement_cursor s < ROOT_PROCESS_MAX" using assms by (auto simp: processes_ok_def)
  have r: "replacement_loop [0..<ROOT_PROCESS_MAX] s = (index, s')" using assms(2) None by (simp add: process_choose_slot_def del: find_slot_None)
  have "(\<exists>a\<in>set [0..<ROOT_PROCESS_MAX]. process_finished (?t ! ((replacement_cursor s + a) mod ROOT_PROCESS_MAX)))
      \<longleftrightarrow> \<not> list_all running ?t"
  proof
    assume "\<exists>a\<in>set [0..<ROOT_PROCESS_MAX]. process_finished (?t ! ((replacement_cursor s + a) mod ROOT_PROCESS_MAX))"
    then obtain a where "process_finished (?t ! ((replacement_cursor s + a) mod ROOT_PROCESS_MAX))" by blast
    then show "\<not> list_all running ?t"
      using len by (auto simp: list_all_length running_def rootos_consts intro!: exI [of _ "(replacement_cursor s + a) mod 32"])
  next
    assume "\<not> list_all running ?t"
    then obtain i where i: "i < ROOT_PROCESS_MAX" "process_finished (?t ! i)"
      using used len by (auto simp: list_all_length running_def)
    with all_slots [OF cur i(1)] show "\<exists>a\<in>set [0..<ROOT_PROCESS_MAX]. process_finished (?t ! ((replacement_cursor s + a) mod ROOT_PROCESS_MAX))"
      by metis
  qed
  with replacement_loop_spec [OF len cur r] assms(1) show ?thesis by (auto simp: processes_ok_def running_def)
qed

lemma process_begin_spec:
  assumes ok: "processes_ok s" and b: "process_begin name image_size s = (pid, s')"
  shows "if list_all running (process_table s) then pid = 0 \<and> s' = s
    else pid = next_pid s \<and> processes_ok s' \<and> (\<exists>i p. i < ROOT_PROCESS_MAX \<and> \<not> running (process_table s ! i)
      \<and> process_table s' = (process_table s)[i := p] \<and> pr_used p \<and> pr_pid p = pid \<and> pr_state p = ROOT_PROCESS_READY
      \<and> pr_image_size p = image_size \<and> next_pid s' = (if pid + 1 = 0 then 1 else pid + 1))"
proof -
  obtain index t where c: "process_choose_slot s = (index, t)" by fastforce
  note spec = choose_slot_spec [OF ok c]
  show ?thesis
  proof (cases "list_all running (process_table s)")
    case True
    then show ?thesis using spec b by (simp add: process_begin_def c)
  next
    case False
    then have i: "index < ROOT_PROCESS_MAX" "\<not> running (process_table s ! index)" "processes_ok t" "process_table t = process_table s" "next_pid t = next_pid s"
      using spec by auto
    show ?thesis
      using False b i by (auto simp: process_begin_def c Let_def processes_ok_def intro!: exI [of _ index])
  qed
qed

text \<open>What the table shows of one identifier: marking changes exactly that record.\<close>

lemma change_process_at:
  assumes "proct.keys_unique (process_table s)" "i < length (process_table s)" "pr_used (process_table s ! i)"
  shows "change_process (pr_pid (process_table s ! i)) f s = s\<lparr>process_table := (process_table s)[i := f (process_table s ! i)]\<rparr>"
  using proct.lookup_unique [OF assms] by (simp add: change_process_def process_find_def)

lemma pids_below_update:
  assumes ok: "processes_ok s" and below: "pids_below s" and i: "i < ROOT_PROCESS_MAX"
    and p: "pr_used p" "pr_pid p = next_pid s" and nowrap: "next_pid s + 1 \<noteq> 0"
  shows "pids_below (s\<lparr>process_table := (process_table s)[i := p], next_pid := next_pid s + 1\<rparr>)"
proof -
  have "unat (next_pid s + 1) = (unat (next_pid s) + 1) mod 4294967296" by (simp add: unat_word_ariths)
  moreover have "unat (next_pid s + 1) \<noteq> 0" using nowrap unat_eq_zero [of "next_pid s + 1"] by blast
  moreover have "unat (next_pid s) < 4294967296" using unsigned_less [of "next_pid s"] by simp
  ultimately have "unat (next_pid s + 1) = unat (next_pid s) + 1" by (cases "unat (next_pid s) + 1 = 4294967296") auto
  then have self: "next_pid s < next_pid s + 1" by (simp add: word_less_nat_alt)
  then have lt: "x < next_pid s \<Longrightarrow> x < next_pid s + 1" for x using less_trans by blast
  have "pr_pid p \<notin> proct.holds (process_table s)" using below p(2) by (auto simp: pids_below_def proct.holds_def)
  then have "proct.keys_unique ((process_table s)[i := p])"
    using proct.insert_unique below ok i by (auto simp: pids_below_def processes_ok_def)
  moreover have "pr_pid q \<noteq> 0 \<and> pr_pid q < next_pid s + 1" if "q \<in> set ((process_table s)[i := p])" "pr_used q" for q
    using that set_update_subset_insert [of "process_table s" i p] below p self lt ok
    by (auto simp: pids_below_def processes_ok_def)
  ultimately show ?thesis by (simp add: pids_below_def)
qed

text \<open>
  C37: The life of a program in the process table. \<open>process_begin\<close> fails (returning 0 and changing nothing) exactly when
  all 32 records belong to programs that have not finished; otherwise it replaces a free or finished record, never one
  of a program still running. Marking the program as running and then as exited changes that record only, which ends
  with the exit code, and identifiers stay unique.
\<close>

theorem process_lifecycle_correct:
  assumes "processes_ok s" "pids_below s" "next_pid s + 1 \<noteq> 0" "process_begin name image_size s = (pid, begun)"
  shows "if list_all running (process_table s) then pid = 0 \<and> begun = s
    else \<exists>i < ROOT_PROCESS_MAX. \<exists>p. \<not> running (process_table s ! i) \<and> pid \<noteq> 0 \<and> pr_pid p = pid \<and> pr_image_size p = image_size
      \<and> process_table begun = (process_table s)[i := p\<lparr>pr_state := ROOT_PROCESS_READY\<rparr>]
      \<and> process_table (process_mark_running pid begun) = (process_table s)[i := p\<lparr>pr_state := ROOT_PROCESS_RUNNING\<rparr>]
      \<and> process_table (process_mark_exit pid code (process_mark_running pid begun))
          = (process_table s)[i := p\<lparr>pr_state := ROOT_PROCESS_EXITED, pr_exit_code := code\<rparr>]
      \<and> processes_ok begun \<and> pids_below begun"
proof (cases "list_all running (process_table s)")
  case True
  then show ?thesis using process_begin_spec [OF assms(1,4)] by simp
next
  case False
  then obtain i p where i: "i < ROOT_PROCESS_MAX" "\<not> running (process_table s ! i)" "pid = next_pid s" "processes_ok begun"
    and p: "process_table begun = (process_table s)[i := p]" "pr_used p" "pr_pid p = pid" "pr_state p = ROOT_PROCESS_READY"
      "pr_image_size p = image_size" "next_pid begun = pid + 1"
    using process_begin_spec [OF assms(1,4)] assms(3) by auto
  have len: "length (process_table s) = ROOT_PROCESS_MAX" using assms(1) by (simp add: processes_ok_def)
  have below: "pids_below begun"
    using pids_below_update [OF assms(1,2) i(1) p(2) _ assms(3)] p i(3) by (simp add: pids_below_def)
  have change: "change_process pid f (begun\<lparr>process_table := (process_table s)[i := q]\<rparr>) = begun\<lparr>process_table := (process_table s)[i := f q]\<rparr>"
    if "pr_used q" "pr_pid q = pid" for f q
  proof -
    let ?b = "begun\<lparr>process_table := (process_table s)[i := q]\<rparr>"
    have u: "proct.keys_unique ((process_table s)[i := p])" using below p(1) by (simp add: pids_below_def)
    have "proct.keys_unique ((process_table s)[i := p, i := q])"
    proof (rule proct.rekey_unique [OF u])
      fix j
      assume "j < length ((process_table s)[i := p])" "j \<noteq> i" "pr_used ((process_table s)[i := p] ! j)"
      with proct.keys_uniqueD [OF u, of j i] show "pr_pid ((process_table s)[i := p] ! j) \<noteq> pr_pid q"
        using len i(1) p(2,3) that by auto
    qed (use len i(1) in simp)
    then have "proct.keys_unique (process_table ?b)" by simp
    from change_process_at [OF this, of i f] show ?thesis using that len i(1) by simp
  qed
  let ?r = "process_mark_running pid begun"
  have "begun = begun\<lparr>process_table := (process_table s)[i := p]\<rparr>" using p(1) by simp
  then have r: "?r = begun\<lparr>process_table := (process_table s)[i := p\<lparr>pr_state := ROOT_PROCESS_RUNNING\<rparr>]\<rparr>"
    using change [OF p(2,3)] unfolding process_mark_running_def by metis
  have e: "process_mark_exit pid code ?r = begun\<lparr>process_table := (process_table s)[i := p\<lparr>pr_state := ROOT_PROCESS_EXITED, pr_exit_code := code\<rparr>]\<rparr>"
    unfolding r process_mark_exit_def by (subst change) (simp_all add: p)
  have ready: "p = p\<lparr>pr_state := ROOT_PROCESS_READY\<rparr>" using p(4) by simp
  have "pid \<noteq> 0" using i(3) assms(1) by (simp add: processes_ok_def)
  then have "\<not> running (process_table s ! i) \<and> pid \<noteq> 0 \<and> pr_pid p = pid \<and> pr_image_size p = image_size
      \<and> process_table begun = (process_table s)[i := p\<lparr>pr_state := ROOT_PROCESS_READY\<rparr>]
      \<and> process_table (process_mark_running pid begun) = (process_table s)[i := p\<lparr>pr_state := ROOT_PROCESS_RUNNING\<rparr>]
      \<and> process_table (process_mark_exit pid code (process_mark_running pid begun))
          = (process_table s)[i := p\<lparr>pr_state := ROOT_PROCESS_EXITED, pr_exit_code := code\<rparr>]
      \<and> processes_ok begun \<and> pids_below begun"
    unfolding e using i p(3,5) p(1) [folded ready] r below by (simp add: ready [symmetric])
  then show ?thesis using False i(1) by auto
qed

theorem process_lifecycle_correct_witness:
  "\<exists>pid begun i. process_begin (Some ''demo'') 4096 process_manager_init = (pid, begun) \<and> pid \<noteq> 0
    \<and> pr_state (process_table (process_mark_exit pid 7 (process_mark_running pid begun)) ! i) = ROOT_PROCESS_EXITED"
proof -
  have init: "processes_ok process_manager_init" "pids_below process_manager_init" "next_pid process_manager_init + 1 \<noteq> 0"
    by (simp_all add: process_manager_init_def processes_ok_def pids_below_def rootos_consts zero_process_def proct.keys_unique_def)
  obtain pid begun where b: "process_begin (Some ''demo'') 4096 process_manager_init = (pid, begun)" by fastforce
  have "\<not> list_all running (process_table process_manager_init)"
    by (simp add: process_manager_init_def zero_process_def running_def rootos_consts list_all_iff)
  with process_lifecycle_correct [OF init b, of 7] obtain i p where "i < ROOT_PROCESS_MAX" "pid \<noteq> 0"
    "process_table (process_mark_exit pid 7 (process_mark_running pid begun))
       = (process_table process_manager_init)[i := p\<lparr>pr_state := ROOT_PROCESS_EXITED, pr_exit_code := 7\<rparr>]" by auto
  then show ?thesis using b by (intro exI [of _ pid] exI [of _ begun] exI [of _ i]) (simp add: process_manager_init_def)
qed

end
