(* ===== verification/Root_App.thy ===== *)
theory Root_App
  imports Root_Elf Root_Process Root_Filesystem
begin

text \<open>
  Running applications: the file of \<open>elf_loader_run\<close> (\<open>app/elf_loader.c\<close>) and \<open>app/app_manager.c\<close>. An application is
  named by a path or by the name of a directory under \<open>/system/apps\<close> whose manifest \<open>app.toml\<close> names the executable.
  The program that is started is native code: it is a parameter, a function of its entry address, its arguments and the
  state of the system, which may also fail to return.
\<close>

record 'd sys =
  sys_fs :: "'d fs"
  sys_processes :: processes

type_synonym 'd program = "nat \<Rightarrow> int \<Rightarrow> string list \<Rightarrow> 'd sys \<Rightarrow> (int \<times> 'd sys) option"

abbreviation sys_heap :: "'d sys \<Rightarrow> heap" where
  "sys_heap s \<equiv> fs_heap (sys_fs s)"

definition put_heap :: "heap \<Rightarrow> 'd sys \<Rightarrow> 'd sys" where
  "put_heap h s = s\<lparr>sys_fs := (sys_fs s)\<lparr>fs_heap := h\<rparr>\<rparr>"

section \<open>Loading and running a file (elf\_loader.c)\<close>

text \<open>
  The process is registered and run; afterwards the image and the file are released, in this order. The result is the
  loader's result, the exit code and the process identifier.
\<close>

definition run_image :: "'d program \<Rightarrow> string \<Rightarrow> int \<Rightarrow> string list \<Rightarrow> addr \<Rightarrow> nat \<times> addr \<times> nat \<Rightarrow> 'd sys
    \<Rightarrow> ((RootElfResult \<times> int \<times> u32) \<times> 'd sys) option" where
  "run_image program name argc argv file = (\<lambda>(entry, image_raw, image_size) s.
     let release = (\<lambda>s. put_heap (root_free (root_free (sys_heap s) image_raw) file) s);
         (pid, ps) = process_begin (Some name) image_size (sys_processes s);
         s = s\<lparr>sys_processes := ps\<rparr>
     in if pid = 0 then Some ((ROOT_ELF_PROCESS_TABLE_FULL, -1, 0), release s)
        else let s = s\<lparr>sys_processes := process_mark_running pid (sys_processes s)\<rparr> in
          case program entry argc argv s of
            None \<Rightarrow> None
          | Some (result, s) \<Rightarrow>
              Some ((ROOT_ELF_OK, result, pid), release (s\<lparr>sys_processes := process_mark_exit pid result (sys_processes s)\<rparr>)))"

definition elf_loader_run :: "'d program \<Rightarrow> string option \<Rightarrow> string option \<Rightarrow> int \<Rightarrow> string list \<Rightarrow> 'd sys
    \<Rightarrow> ((RootElfResult \<times> int \<times> u32) \<times> 'd sys) option" where
  "elf_loader_run program path process_name argc argv s =
     (let fail = (\<lambda>e s. Some ((e, -1, 0), s)) in
      if path = None \<or> chead (the path) = NUL then fail ROOT_ELF_BAD_FORMAT s
      else case filesystem_file_size (sys_fs s) path of
        None \<Rightarrow> fail ROOT_ELF_NOT_FOUND s
      | Some file_size \<Rightarrow>
          if file_size < 52 \<or> file_size > FS_MAX_FILE_SIZE then fail ROOT_ELF_BAD_FORMAT s
          else case root_malloc (sys_heap s) (file_size + 1) of
            None \<Rightarrow> None
          | Some (file, h) \<Rightarrow>
              let s = put_heap h s in
              if file = 0 then fail ROOT_ELF_NO_MEMORY s
              else let ((read_result, bytes), st) = filesystem_read_file (sys_fs s) path (file_size + 1);
                       s = s\<lparr>sys_fs := st\<rparr>
                   in if read_result \<noteq> FS_RESULT_OK \<or> length bytes \<noteq> file_size
                      then fail ROOT_ELF_IO_ERROR (put_heap (root_free (sys_heap s) file) s)
                      else let h = sys_heap s;
                               h = h\<lparr>heap_bytes := store_bytes (heap_bytes h) file (bytes @ [0])\<rparr>
                           in case elf_load_image file file_size h of
                                None \<Rightarrow> None
                              | Some (Inl e, h) \<Rightarrow> fail e (put_heap (root_free h file) s)
                              | Some (Inr im, h) \<Rightarrow>
                                  run_image program (case process_name of Some n \<Rightarrow> n | None \<Rightarrow> the path) argc argv file im (put_heap h s))"

section \<open>Names and paths (app\_manager.c)\<close>

definition ROOT_APP_NAME_MAX :: nat where [rootos_consts]: "ROOT_APP_NAME_MAX = 64"
definition ROOT_APP_MANIFEST_MAX :: nat where [rootos_consts]: "ROOT_APP_MANIFEST_MAX = 2048"

definition app_name_char :: "char \<Rightarrow> bool" where
  "app_name_char c = (let n = of_char c :: nat in
     (97 \<le> n \<and> n \<le> 122) \<or> (65 \<le> n \<and> n \<le> 90) \<or> (48 \<le> n \<and> n \<le> 57) \<or> c = CHR ''-'' \<or> c = CHR ''_'' \<or> c = CHR ''.'')"

fun safe_name_loop :: "nat \<Rightarrow> string \<Rightarrow> bool" where
  "safe_name_loop len [] = True"
| "safe_name_loop len (c # cs) =
     (if c = NUL then True else if \<not> app_name_char c \<or> len \<ge> ROOT_APP_NAME_MAX - 1 then False else safe_name_loop (len + 1) cs)"

definition safe_app_name :: "string option \<Rightarrow> bool" where
  "safe_app_name name = (case name of None \<Rightarrow> False | Some n \<Rightarrow> chead n \<noteq> NUL \<and> safe_name_loop 0 n)"

lemma tl_dropWhile_less: "xs \<noteq> [] \<Longrightarrow> length (tl (dropWhile P xs)) < length xs"
  using length_dropWhile_le [of P xs] length_greater_0_conv [of xs] unfolding length_tl by linarith

text \<open>The cursor is at the beginning of a component.\<close>

function safe_relative_loop :: "string \<Rightarrow> bool" where
  "safe_relative_loop cursor =
     (if chead cursor = NUL then True
      else if chead cursor = CHR ''.'' \<and> chead (tl cursor) = CHR ''.'' \<and> (chead (tl (tl cursor)) = NUL \<or> chead (tl (tl cursor)) = SLASH) then False
      else let rest = dropWhile in_component cursor in
        if chead rest = SLASH then safe_relative_loop (tl rest) else safe_relative_loop rest)"
  by pat_completeness auto
termination
proof (relation "measure length", goal_cases)
  case (2 cursor rest)
  then show ?case using tl_dropWhile_less [of cursor in_component] chead_neq_NUL [of cursor] by simp
next
  case (3 cursor rest)
  then obtain c cs where c: "cursor = c # cs" "c \<noteq> NUL" by (cases cursor) auto
  show ?case
  proof (cases "c = SLASH")
    case True
    then show ?thesis using 3 c by simp
  next
    case False
    then show ?thesis using 3 c length_dropWhile_le [of in_component cs] by simp
  qed
qed simp

declare safe_relative_loop.simps [simp del]

definition safe_relative_path :: "string option \<Rightarrow> bool" where
  "safe_relative_path path = (case path of None \<Rightarrow> False | Some p \<Rightarrow> chead p \<noteq> NUL \<and> chead p \<noteq> SLASH \<and> safe_relative_loop p)"

definition looks_like_path :: "string option \<Rightarrow> bool" where
  "looks_like_path target = (case target of None \<Rightarrow> False
     | Some t \<Rightarrow> SLASH \<in> set (cstr t) \<or> (root_strlen t \<ge> 4 \<and> root_streq (drop (root_strlen t - 4) t) ''.elf''))"

section \<open>The manifest\<close>

definition blank :: "char \<Rightarrow> bool" where
  "blank c \<longleftrightarrow> c = CHR '' '' \<or> c = CHR 0x09"

abbreviation NEWLINE :: char where "NEWLINE \<equiv> CHR 0x0A"
abbreviation RETURN :: char where "RETURN \<equiv> CHR 0x0D"
abbreviation QUOTE :: char where "QUOTE \<equiv> CHR 0x22"

text \<open>The value behind a key: the rest of the line.\<close>

definition manifest_value :: "nat \<Rightarrow> string \<Rightarrow> string option" where
  "manifest_value output_size rest =
     (let v = dropWhile blank rest in
      if v = [] \<or> hd v \<noteq> CHR ''='' then None
      else let v = dropWhile blank (tl v) in
        if v = [] \<or> hd v \<noteq> QUOTE then None
        else let body = takeWhile (\<lambda>c. c \<noteq> QUOTE) (tl v) in
          if length body \<ge> output_size \<or> length body = length (tl v) then None else Some body)"

definition section_header :: "string \<Rightarrow> string \<Rightarrow> bool \<Rightarrow> bool" where
  "section_header wanted_section line active =
     (let name = takeWhile (\<lambda>c. c \<noteq> CHR '']'') (tl line) in
      if length name < length (tl line)
      then length name = root_strlen wanted_section \<and> root_strncmp (tl line) wanted_section (root_strlen wanted_section) = 0
      else active)"

text \<open>The lines that are left; the text ends at its terminator.\<close>

function manifest_loop :: "string \<Rightarrow> string \<Rightarrow> nat \<Rightarrow> bool \<Rightarrow> string \<Rightarrow> string option" where
  "manifest_loop wanted_section wanted_key output_size active cursor =
     (if cursor = [] then None
      else let start = dropWhile (\<lambda>c. blank c \<or> c = RETURN) cursor;
               line = takeWhile (\<lambda>c. c \<noteq> NEWLINE) start;
               next_line = tl (dropWhile (\<lambda>c. c \<noteq> NEWLINE) start)
           in if line = [] \<or> hd line = CHR ''#'' then manifest_loop wanted_section wanted_key output_size active next_line
              else if hd line = CHR ''['' then
                manifest_loop wanted_section wanted_key output_size (section_header wanted_section line active) next_line
              else if \<not> active then manifest_loop wanted_section wanted_key output_size active next_line
              else let key = takeWhile (\<lambda>c. c \<noteq> CHR ''='' \<and> \<not> blank c) line in
                if length key = root_strlen wanted_key \<and> root_strncmp line wanted_key (root_strlen wanted_key) = 0
                then manifest_value output_size (drop (length key) line)
                else manifest_loop wanted_section wanted_key output_size active next_line)"
  by pat_completeness auto
termination
proof -
  have "length (tl (dropWhile P (dropWhile Q c))) < length c" if "c \<noteq> []" for P Q and c :: string
    using that tl_dropWhile_less [of "dropWhile Q c" P] length_dropWhile_le [of Q c]
    by (cases "dropWhile Q c = []") (auto simp del: dropWhile_eq_Nil_conv)
  then show ?thesis by (relation "measure (\<lambda>(_, _, _, _, c). length c)") auto
qed

declare manifest_loop.simps [simp del]

text \<open>The pointers are not NULL and the output has room for at least its terminator at every call.\<close>

definition manifest_get_value :: "string \<Rightarrow> string \<Rightarrow> string \<Rightarrow> nat \<Rightarrow> string option" where
  "manifest_get_value txt wanted_section wanted_key output_size =
     (if output_size = 0 then None else manifest_loop wanted_section wanted_key output_size False (cstr txt))"

section \<open>Running by name\<close>

datatype RootAppRunResult = ROOT_APP_RUN_OK | ROOT_APP_RUN_NOT_FOUND | ROOT_APP_RUN_BAD_MANIFEST | ROOT_APP_RUN_INVALID_NAME
  | ROOT_APP_RUN_ELF_ERROR

record RootAppRunInfo =
  run_result :: RootAppRunResult
  run_elf_result :: RootElfResult
  run_exit_code :: int
  run_pid :: u32
  run_executable :: string

definition APPS_ROOT :: string where "APPS_ROOT = ''/system/apps/''"

definition text_of :: "u8 list \<Rightarrow> string" where
  "text_of bytes = map (\<lambda>b. char_of (unat b)) bytes"

text \<open>\<open>root_strlcpy(buffer + used, text, capacity - used)\<close> behind the \<open>used\<close> characters of \<open>prefix\<close>: the buffer and whether all fitted.\<close>

definition append_text :: "nat \<Rightarrow> string \<Rightarrow> string \<Rightarrow> string \<times> bool" where
  "append_text capacity front txt =
     (let (tail, n) = root_strlcpy [] txt (capacity - length front) in (front @ tail, n < capacity - length front))"

definition no_run :: "RootAppRunResult \<Rightarrow> string \<Rightarrow> RootAppRunInfo" where
  "no_run r executable = \<lparr>run_result = r, run_elf_result = ROOT_ELF_NOT_FOUND, run_exit_code = -1, run_pid = 0, run_executable = executable\<rparr>"

text \<open>The executable of an application that is named by its directory.\<close>

definition app_executable :: "string \<Rightarrow> 'd fs \<Rightarrow> (RootAppRunInfo + string) \<times> 'd fs" where
  "app_executable target st =
     (if \<not> safe_app_name (Some target) then (Inl (no_run ROOT_APP_RUN_INVALID_NAME []), st)
      else let (manifest_path, ok) = append_text 512 APPS_ROOT target in
        if \<not> ok then (Inl (no_run ROOT_APP_RUN_INVALID_NAME []), st)
        else let (manifest_path, ok) = append_text 512 manifest_path ''/app.toml'' in
          if \<not> ok then (Inl (no_run ROOT_APP_RUN_INVALID_NAME []), st)
          else let ((result, bytes), st) = filesystem_read_file st (Some manifest_path) (ROOT_APP_MANIFEST_MAX + 1) in
            if result \<noteq> FS_RESULT_OK then (Inl (no_run ROOT_APP_RUN_NOT_FOUND []), st)
            else case manifest_get_value (text_of bytes) ''application'' ''executable'' 256 of
              None \<Rightarrow> (Inl (no_run ROOT_APP_RUN_BAD_MANIFEST []), st)
            | Some executable \<Rightarrow>
                if \<not> safe_relative_path (Some executable) then (Inl (no_run ROOT_APP_RUN_BAD_MANIFEST []), st)
                else let path = fst (append_text 512 APPS_ROOT target) in
                  if length path + 1 \<ge> 512 then (Inl (no_run ROOT_APP_RUN_BAD_MANIFEST path), st)
                  else let (full, ok) = append_text 512 (path @ ''/'') executable in
                    if \<not> ok then (Inl (no_run ROOT_APP_RUN_BAD_MANIFEST full), st) else (Inr full, st))"

definition app_manager_run :: "'d program \<Rightarrow> string option \<Rightarrow> int \<Rightarrow> string list \<Rightarrow> 'd sys \<Rightarrow> (RootAppRunInfo \<times> 'd sys) option" where
  "app_manager_run program target argc argv s =
     (if target = None \<or> chead (the target) = NUL then Some (no_run ROOT_APP_RUN_INVALID_NAME [], s)
      else let found = (if looks_like_path target then
                          let (path, ok) = append_text 512 [] (the target) in
                          ((if ok then Inr (path, fst (root_strlcpy [] (root_path_basename target) ROOT_APP_NAME_MAX))
                            else Inl (no_run ROOT_APP_RUN_INVALID_NAME path)), sys_fs s)
                        else case app_executable (the target) (sys_fs s) of
                          (Inl info, st) \<Rightarrow> (Inl info, st)
                        | (Inr path, st) \<Rightarrow> (Inr (path, fst (root_strlcpy [] (the target) ROOT_APP_NAME_MAX)), st))
           in case found of
                (Inl info, st) \<Rightarrow> Some (info, s\<lparr>sys_fs := st\<rparr>)
              | (Inr (path, process_name), st) \<Rightarrow>
                  (case elf_loader_run program (Some path) (Some process_name) argc argv (s\<lparr>sys_fs := st\<rparr>) of
                     None \<Rightarrow> None
                   | Some ((elf_result, exit_code, pid), s) \<Rightarrow>
                       Some (\<lparr>run_result = (if elf_result = ROOT_ELF_OK then ROOT_APP_RUN_OK else ROOT_APP_RUN_ELF_ERROR),
                          run_elf_result = elf_result, run_exit_code = exit_code, run_pid = pid, run_executable = path\<rparr>, s)))"

end
