(* ===== verification/Root_Package.thy ===== *)
theory Root_Package
  imports Root_App
begin

text \<open>
  Packages: the file format (\<open>package/rtpgk.c\<close>) and the package manager (\<open>package/package_manager.c\<close>). A package is read
  into a block of the heap, checked there and unpacked from there, so the functions of the format work on byte memory;
  the table of installed packages is the list of its used records, in order (the records behind \<open>installed_count\<close> are
  cleared or overwritten before they are used).
\<close>

definition text_at :: "mem \<Rightarrow> addr \<Rightarrow> nat \<Rightarrow> string" where
  "text_at m a n = map (\<lambda>i. char_of (unat (m (a + i)))) [0..<n]"

section \<open>The package format (rtpgk.c)\<close>

definition RTPGK_NAME_MAX :: nat where [rootos_consts]: "RTPGK_NAME_MAX = 64"
definition RTPGK_VERSION_TEXT_MAX :: nat where [rootos_consts]: "RTPGK_VERSION_TEXT_MAX = 32"
definition RTPGK_ENTRY_NAME_MAX :: nat where [rootos_consts]: "RTPGK_ENTRY_NAME_MAX = 96"
definition RTPGK_PATH_MAX :: nat where [rootos_consts]: "RTPGK_PATH_MAX = 256"
definition RTPGK_HEADER_SIZE :: nat where [rootos_consts]: "RTPGK_HEADER_SIZE = 256"
definition RTPGK_ENTRY_SIZE :: nat where [rootos_consts]: "RTPGK_ENTRY_SIZE = 268"

record RtpgkHeader =
  hd_magic :: "u8 list"
  hd_version :: nat
  hd_header_size :: nat
  hd_entry_count :: nat
  hd_table_offset :: nat
  hd_data_offset :: nat
  hd_total_size :: nat
  hd_package_type :: nat
  hd_name :: string
  hd_version_text :: string
  hd_application_entry :: string

record RtpgkEntry =
  en_path :: string
  en_data_offset :: nat
  en_size :: nat
  en_flags :: nat

text \<open>The packed structures at an address.\<close>

definition rtpgk_header_at :: "mem \<Rightarrow> addr \<Rightarrow> RtpgkHeader" where
  "rtpgk_header_at m a = \<lparr>hd_magic = map (\<lambda>i. m (a + i)) [0..<8], hd_version = ld32 m (a + 8), hd_header_size = ld32 m (a + 12),
     hd_entry_count = ld32 m (a + 16), hd_table_offset = ld32 m (a + 20), hd_data_offset = ld32 m (a + 24),
     hd_total_size = ld32 m (a + 28), hd_package_type = ld32 m (a + 32), hd_name = text_at m (a + 36) RTPGK_NAME_MAX,
     hd_version_text = text_at m (a + 100) RTPGK_VERSION_TEXT_MAX, hd_application_entry = text_at m (a + 132) RTPGK_ENTRY_NAME_MAX\<rparr>"

definition rtpgk_entry_at :: "mem \<Rightarrow> addr \<Rightarrow> RtpgkEntry" where
  "rtpgk_entry_at m a = \<lparr>en_path = text_at m a RTPGK_PATH_MAX, en_data_offset = ld32 m (a + 256), en_size = ld32 m (a + 260),
     en_flags = ld32 m (a + 264)\<rparr>"

definition rtpgk_magic :: "u8 list" where
  "rtpgk_magic = map of_char ''RTPGK001''"

definition fixed_string_terminated :: "string \<Rightarrow> bool" where
  "fixed_string_terminated txt \<longleftrightarrow> NUL \<in> set txt"

fun rtpgk_name_loop :: "nat \<Rightarrow> string \<Rightarrow> bool" where
  "rtpgk_name_loop i [] = True"
| "rtpgk_name_loop i (c # cs) =
     (if c = NUL then True else if \<not> app_name_char c \<or> i \<ge> RTPGK_NAME_MAX - 1 then False else rtpgk_name_loop (i + 1) cs)"

definition rtpgk_safe_name :: "string option \<Rightarrow> bool" where
  "rtpgk_safe_name name = (case name of None \<Rightarrow> False | Some n \<Rightarrow> chead n \<noteq> NUL \<and> rtpgk_name_loop 0 n)"

text \<open>The loop over the components; \<open>len\<close> is the length of what was read.\<close>

function rtpgk_path_loop :: "nat \<Rightarrow> string \<Rightarrow> bool" where
  "rtpgk_path_loop len component =
     (if chead component = NUL then True
      else let part = takeWhile in_component component; rest = dropWhile in_component component in
        if part = [] \<or> part = ''.'' \<or> part = ''..'' then False
        else let len' = len + length part + (if chead rest = SLASH then 1 else 0) in
          if len' \<ge> RTPGK_PATH_MAX then False
          else rtpgk_path_loop len' (if chead rest = SLASH then tl rest else rest))"
  by pat_completeness auto
termination
proof (relation "measure (\<lambda>(_, c). length c)", goal_cases)
  case (2 len component part rest len')
  have "length part + length rest = length component"
    using 2(2,3) takeWhile_dropWhile_id [of in_component component] by (metis length_append)
  moreover have "0 < length part" using 2(4) by simp
  ultimately have "length rest < length component" by linarith
  then show ?case by auto
qed simp

declare rtpgk_path_loop.simps [simp del]

definition rtpgk_safe_relative_path :: "string option \<Rightarrow> bool" where
  "rtpgk_safe_relative_path path =
     (case path of None \<Rightarrow> False | Some p \<Rightarrow> chead p \<noteq> NUL \<and> chead p \<noteq> SLASH \<and> rtpgk_path_loop 0 p)"

definition rtpgk_entry_valid :: "mem \<Rightarrow> addr \<Rightarrow> nat \<Rightarrow> RtpgkHeader \<Rightarrow> nat \<Rightarrow> bool" where
  "rtpgk_entry_valid m data siz header i =
     (let entry = rtpgk_entry_at m (data + hd_table_offset header + u32_mul i RTPGK_ENTRY_SIZE) in
      fixed_string_terminated (en_path entry) \<and> rtpgk_safe_relative_path (Some (en_path entry)) \<and> en_flags entry = 0
      \<and> en_data_offset entry \<ge> hd_data_offset header \<and> range_valid (en_data_offset entry) (en_size entry) siz)"

definition rtpgk_validate :: "mem \<Rightarrow> addr \<Rightarrow> nat \<Rightarrow> bool" where
  "rtpgk_validate m data siz =
     (let header = rtpgk_header_at m data in
      if data = 0 \<or> siz < RTPGK_HEADER_SIZE then False
      else if hd_magic header \<noteq> rtpgk_magic then False
      else if hd_version header \<noteq> 1 \<or> hd_header_size header \<noteq> RTPGK_HEADER_SIZE \<or> hd_package_type header \<noteq> 1
          \<or> hd_entry_count header = 0 \<or> hd_entry_count header > 128 \<or> hd_table_offset header < RTPGK_HEADER_SIZE
          \<or> hd_total_size header \<noteq> siz then False
      else let table_bytes = u32_mul (hd_entry_count header) RTPGK_ENTRY_SIZE in
        if \<not> range_valid (hd_table_offset header) table_bytes siz
          \<or> hd_data_offset header < u32_add (hd_table_offset header) table_bytes \<or> hd_data_offset header > siz then False
        else if \<not> fixed_string_terminated (hd_name header) \<or> \<not> fixed_string_terminated (hd_version_text header)
          \<or> \<not> fixed_string_terminated (hd_application_entry header) \<or> \<not> rtpgk_safe_name (Some (hd_name header))
          \<or> \<not> rtpgk_safe_relative_path (Some (hd_application_entry header)) then False
        else list_all (rtpgk_entry_valid m data siz header) [0..<hd_entry_count header])"

definition rtpgk_entry :: "mem \<Rightarrow> addr \<Rightarrow> nat \<Rightarrow> RtpgkHeader \<Rightarrow> nat \<Rightarrow> (RtpgkEntry \<times> addr) option" where
  "rtpgk_entry m data siz header index =
     (if data = 0 \<or> index \<ge> hd_entry_count header then None
      else let entry_offset = u32_add (hd_table_offset header) (u32_mul index RTPGK_ENTRY_SIZE) in
        if \<not> range_valid entry_offset RTPGK_ENTRY_SIZE siz then None
        else let entry = rtpgk_entry_at m (data + entry_offset) in
          if \<not> range_valid (en_data_offset entry) (en_size entry) siz then None
          else Some (entry, data + en_data_offset entry))"

section \<open>The package manager (package\_manager.c)\<close>

definition ROOT_PACKAGE_MAX_INSTALLED :: nat where [rootos_consts]: "ROOT_PACKAGE_MAX_INSTALLED = 64"
definition PACKAGE_DB_MAX :: nat where [rootos_consts]: "PACKAGE_DB_MAX = 16384"
definition PACKAGE_DB_PATH :: string where "PACKAGE_DB_PATH = ''/packages/installed.db''"

record RootPackageInfo =
  info_name :: string
  info_version :: string
  info_entry :: string

datatype RootPackageResult = ROOT_PACKAGE_OK | ROOT_PACKAGE_NOT_FOUND | ROOT_PACKAGE_ALREADY_INSTALLED | ROOT_PACKAGE_INVALID
  | ROOT_PACKAGE_IO_ERROR | ROOT_PACKAGE_NO_MEMORY | ROOT_PACKAGE_NO_SPACE | ROOT_PACKAGE_NOT_INSTALLED

record 'd pkgs =
  pk_fs :: "'d fs"
  installed :: "RootPackageInfo list"

text \<open>The buffer is the text written so far; \<open>None\<close> when the new text does not fit.\<close>

definition text_append :: "nat \<Rightarrow> string \<Rightarrow> string \<Rightarrow> string option" where
  "text_append capacity out txt =
     (if length out > capacity \<or> root_strlen txt \<ge> capacity - length out then None else Some (out @ cstr txt))"

fun save_loop :: "nat \<Rightarrow> string \<Rightarrow> RootPackageInfo list \<Rightarrow> string option" where
  "save_loop capacity out [] = Some out"
| "save_loop capacity out (info # infos) = do {
     out \<leftarrow> text_append capacity out (info_name info);
     out \<leftarrow> text_append capacity out ''|'';
     out \<leftarrow> text_append capacity out (info_version info);
     out \<leftarrow> text_append capacity out ''|'';
     out \<leftarrow> text_append capacity out (info_entry info);
     out \<leftarrow> text_append capacity out [NEWLINE];
     save_loop capacity out infos }"

definition package_database_save :: "'d pkgs \<Rightarrow> (bool \<times> 'd pkgs) option" where
  "package_database_save s =
     (case save_loop (PACKAGE_DB_MAX + 1) [] (installed s) of
        None \<Rightarrow> Some (False, s)
      | Some out \<Rightarrow>
          let (result, st) = (if filesystem_exists (pk_fs s) (Some PACKAGE_DB_PATH) then (FS_RESULT_OK, pk_fs s)
                              else filesystem_create_file (pk_fs s) (Some PACKAGE_DB_PATH))
          in if result \<noteq> FS_RESULT_OK then Some (False, s\<lparr>pk_fs := st\<rparr>)
             else case filesystem_write_file st (Some PACKAGE_DB_PATH) (Some (map of_char out)) (length out) of
                    None \<Rightarrow> None
                  | Some (result, st) \<Rightarrow> Some (result = FS_RESULT_OK, s\<lparr>pk_fs := st\<rparr>))"

abbreviation line_break :: "char \<Rightarrow> bool" where
  "line_break c \<equiv> c = NEWLINE \<or> c = RETURN"

definition parse_field :: "string \<Rightarrow> char \<Rightarrow> nat \<Rightarrow> (string \<times> string) option" where
  "parse_field cursor delimiter capacity =
     (if capacity = 0 then None
      else let P = (\<lambda>c. c \<noteq> NUL \<and> c \<noteq> delimiter \<and> \<not> line_break c); field = takeWhile P cursor; rest = dropWhile P cursor in
        if length field \<ge> capacity then None
        else if chead rest \<noteq> delimiter then None
        else if field = [] then None else Some (field, tl rest))"

definition parse_record :: "string \<Rightarrow> (RootPackageInfo \<times> string) option" where
  "parse_record cursor =
     (case parse_field cursor (CHR ''|'') RTPGK_NAME_MAX of
        None \<Rightarrow> None
      | Some (name, cursor) \<Rightarrow>
          (case parse_field cursor (CHR ''|'') RTPGK_VERSION_TEXT_MAX of
             None \<Rightarrow> None
           | Some (ver, cursor) \<Rightarrow>
               let P = (\<lambda>c. c \<noteq> NUL \<and> \<not> line_break c); entry = takeWhile P cursor in
               if length entry \<ge> RTPGK_ENTRY_NAME_MAX then None
               else if \<not> rtpgk_safe_name (Some name) \<or> \<not> rtpgk_safe_relative_path (Some entry) \<or> chead ver = NUL then None
               else Some (\<lparr>info_name = name, info_version = ver, info_entry = entry\<rparr>, dropWhile P cursor)))"

lemma parse_field_shorter:
  assumes "parse_field cursor d n = Some (f, rest)"
  shows "length rest < length cursor"
proof -
  have "rest = tl (dropWhile (\<lambda>c. c \<noteq> NUL \<and> c \<noteq> d \<and> \<not> line_break c) cursor)" "cursor \<noteq> []"
    using assms by (auto simp: parse_field_def Let_def split: if_splits)
  then show ?thesis using tl_dropWhile_less [of cursor] by blast
qed

lemma parse_record_shorter:
  assumes "parse_record cursor = Some (info, rest)"
  shows "length rest < length cursor"
proof -
  obtain n c1 v c2 where p: "parse_field cursor (CHR ''|'') RTPGK_NAME_MAX = Some (n, c1)"
      "parse_field c1 (CHR ''|'') RTPGK_VERSION_TEXT_MAX = Some (v, c2)" "rest = dropWhile (\<lambda>c. c \<noteq> NUL \<and> \<not> line_break c) c2"
    using assms by (auto simp: parse_record_def Let_def split: option.splits prod.splits if_splits)
  show ?thesis
    using parse_field_shorter [OF p(1)] parse_field_shorter [OF p(2)] length_dropWhile_le [of "\<lambda>c. c \<noteq> NUL \<and> \<not> line_break c" c2]
    unfolding p(3) by linarith
qed

function load_loop_db :: "RootPackageInfo list \<Rightarrow> string \<Rightarrow> bool \<times> RootPackageInfo list" where
  "load_loop_db infos cursor =
     (let cursor = dropWhile line_break cursor in
      if chead cursor = NUL then (True, infos)
      else if length infos \<ge> ROOT_PACKAGE_MAX_INSTALLED then (False, infos)
      else case parse_record cursor of
        None \<Rightarrow> (False, infos)
      | Some (info, rest) \<Rightarrow> load_loop_db (infos @ [info]) rest)"
  by pat_completeness auto
termination
proof (relation "measure (\<lambda>(_, c). length c)", goal_cases)
  case (2 infos cursor xa pair info rest)
  then show ?case using parse_record_shorter [of xa info rest] length_dropWhile_le [of line_break cursor] by auto
qed simp

declare load_loop_db.simps [simp del]

definition package_database_load :: "'d pkgs \<Rightarrow> bool \<times> 'd pkgs" where
  "package_database_load s =
     (let s = s\<lparr>installed := []\<rparr> in
      if \<not> filesystem_exists (pk_fs s) (Some PACKAGE_DB_PATH) then
        let (create, st) = filesystem_create_file (pk_fs s) (Some PACKAGE_DB_PATH) in
        (create = FS_RESULT_OK \<or> create = FS_RESULT_ALREADY_EXISTS, s\<lparr>pk_fs := st\<rparr>)
      else let ((result, bytes), st) = filesystem_read_file (pk_fs s) (Some PACKAGE_DB_PATH) (PACKAGE_DB_MAX + 1);
               s = s\<lparr>pk_fs := st\<rparr>
           in if result \<noteq> FS_RESULT_OK then (False, s)
              else let (ok, infos) = load_loop_db [] (text_of bytes) in (ok, s\<lparr>installed := infos\<rparr>))"

definition package_manager_init :: "'d pkgs \<Rightarrow> 'd pkgs" where
  "package_manager_init s = snd (package_database_load s)"

definition destination_path :: "string \<Rightarrow> string \<Rightarrow> nat \<Rightarrow> string option" where
  "destination_path package_name relative capacity =
     (if capacity = 0 then None
      else do {
        out \<leftarrow> text_append capacity [] APPS_ROOT;
        out \<leftarrow> text_append capacity out package_name;
        out \<leftarrow> text_append capacity out ''/'';
        text_append capacity out relative })"

definition package_find :: "string option \<Rightarrow> 'd pkgs \<Rightarrow> RootPackageInfo option" where
  "package_find name s = (case name of None \<Rightarrow> None | Some n \<Rightarrow> find (\<lambda>info. root_streq (info_name info) n) (installed s))"

text \<open>
  The entries from the list on. The header and the entries are read from the block of the package, whose address is
  \<open>data\<close>; the results are an error, or whether the manifest and the application entry were among the files.
\<close>

fun install_loop :: "addr \<Rightarrow> nat \<Rightarrow> nat list \<Rightarrow> bool \<Rightarrow> bool \<Rightarrow> 'd fs \<Rightarrow> ((RootPackageResult + (bool \<times> bool)) \<times> 'd fs) option" where
  "install_loop data siz [] has_manifest has_entry st = Some (Inr (has_manifest, has_entry), st)"
| "install_loop data siz (i # is) has_manifest has_entry st =
     (let m = heap_bytes (fs_heap st); header = rtpgk_header_at m data in
      case rtpgk_entry m data siz header i of
        None \<Rightarrow> Some (Inl ROOT_PACKAGE_INVALID, st)
      | Some (entry, source) \<Rightarrow>
          let has_manifest = (has_manifest \<or> root_streq (en_path entry) ''app.toml'');
              has_entry = (has_entry \<or> root_streq (en_path entry) (hd_application_entry header))
          in case destination_path (hd_name header) (en_path entry) 512 of
               None \<Rightarrow> Some (Inl ROOT_PACKAGE_INVALID, st)
             | Some destination \<Rightarrow>
                 let (create, st) = filesystem_create_file st (Some destination) in
                 if create \<noteq> FS_RESULT_OK \<and> create \<noteq> FS_RESULT_ALREADY_EXISTS then Some (Inl ROOT_PACKAGE_NO_SPACE, st)
                 else case filesystem_write_file st (Some destination) (Some (bytes_at (fs_heap st) source (en_size entry))) (en_size entry) of
                        None \<Rightarrow> None
                      | Some (result, st) \<Rightarrow>
                          if result \<noteq> FS_RESULT_OK then Some (Inl ROOT_PACKAGE_IO_ERROR, st)
                          else install_loop data siz is has_manifest has_entry st)"

text \<open>Giving up: the install root is removed with everything below it, then the block of the package is released.\<close>

definition free_package :: "addr \<Rightarrow> 'd fs \<Rightarrow> 'd fs" where
  "free_package data st = st\<lparr>fs_heap := root_free (fs_heap st) data\<rparr>"

definition undo_install :: "string \<Rightarrow> addr \<Rightarrow> 'd fs \<Rightarrow> 'd fs" where
  "undo_install install_root data st = free_package data (snd (filesystem_remove st (Some install_root) True))"

definition package_record :: "RtpgkHeader \<Rightarrow> RootPackageInfo" where
  "package_record header = \<lparr>info_name = fst (root_strlcpy [] (hd_name header) RTPGK_NAME_MAX),
     info_version = fst (root_strlcpy [] (hd_version_text header) RTPGK_VERSION_TEXT_MAX),
     info_entry = fst (root_strlcpy [] (hd_application_entry header) RTPGK_ENTRY_NAME_MAX)\<rparr>"

text \<open>From the creation of the install root on.\<close>

definition install_files :: "addr \<Rightarrow> nat \<Rightarrow> string \<Rightarrow> 'd pkgs \<Rightarrow> (RootPackageResult \<times> 'd pkgs) option" where
  "install_files data siz install_root s =
     (let header = rtpgk_header_at (heap_bytes (fs_heap (pk_fs s))) data;
          (create_root, st) = filesystem_create_directory (pk_fs s) (Some install_root)
      in if create_root \<noteq> FS_RESULT_OK \<and> create_root \<noteq> FS_RESULT_ALREADY_EXISTS
         then Some (ROOT_PACKAGE_IO_ERROR, s\<lparr>pk_fs := free_package data st\<rparr>)
         else case install_loop data siz [0..<hd_entry_count header] False False st of
           None \<Rightarrow> None
         | Some (Inl e, st) \<Rightarrow> Some (e, s\<lparr>pk_fs := undo_install install_root data st\<rparr>)
         | Some (Inr (has_manifest, has_entry), st) \<Rightarrow>
             if \<not> has_manifest \<or> \<not> has_entry then Some (ROOT_PACKAGE_INVALID, s\<lparr>pk_fs := undo_install install_root data st\<rparr>)
             else let header = rtpgk_header_at (heap_bytes (fs_heap st)) data in
               (case package_database_save (s\<lparr>pk_fs := st, installed := installed s @ [package_record header]\<rparr>) of
                  None \<Rightarrow> None
                | Some (False, s') \<Rightarrow>
                    Some (ROOT_PACKAGE_IO_ERROR, s'\<lparr>pk_fs := undo_install install_root data (pk_fs s'), installed := installed s\<rparr>)
                | Some (True, s') \<Rightarrow> Some (ROOT_PACKAGE_OK, s'\<lparr>pk_fs := free_package data (pk_fs s')\<rparr>)))"

definition install_image :: "addr \<Rightarrow> nat \<Rightarrow> 'd pkgs \<Rightarrow> (RootPackageResult \<times> 'd pkgs) option" where
  "install_image data siz s =
     (let st = pk_fs s; m = heap_bytes (fs_heap st); header = rtpgk_header_at m data;
          fail = (\<lambda>r. Some (r, s\<lparr>pk_fs := free_package data st\<rparr>))
      in if \<not> rtpgk_validate m data siz then fail ROOT_PACKAGE_INVALID
         else if package_find (Some (hd_name header)) s \<noteq> None then fail ROOT_PACKAGE_ALREADY_INSTALLED
         else if length (installed s) \<ge> ROOT_PACKAGE_MAX_INSTALLED then fail ROOT_PACKAGE_NO_SPACE
         else let (install_root, ok) = append_text 512 APPS_ROOT (hd_name header) in
           if \<not> ok then fail ROOT_PACKAGE_INVALID
           else if filesystem_exists st (Some install_root) then fail ROOT_PACKAGE_ALREADY_INSTALLED
           else install_files data siz install_root s)"

definition package_install :: "string option \<Rightarrow> 'd pkgs \<Rightarrow> (RootPackageResult \<times> 'd pkgs) option" where
  "package_install package_path s =
     (if package_path = None \<or> chead (the package_path) = NUL then Some (ROOT_PACKAGE_NOT_FOUND, s)
      else case filesystem_file_size (pk_fs s) package_path of
        None \<Rightarrow> Some (ROOT_PACKAGE_NOT_FOUND, s)
      | Some siz \<Rightarrow>
          if siz < RTPGK_HEADER_SIZE \<or> siz > FS_MAX_FILE_SIZE then Some (ROOT_PACKAGE_INVALID, s)
          else case root_malloc (fs_heap (pk_fs s)) (siz + 1) of
            None \<Rightarrow> None
          | Some (data, h) \<Rightarrow>
              if data = 0 then Some (ROOT_PACKAGE_NO_MEMORY, s\<lparr>pk_fs := (pk_fs s)\<lparr>fs_heap := h\<rparr>\<rparr>)
              else let ((result, bytes), st) = filesystem_read_file ((pk_fs s)\<lparr>fs_heap := h\<rparr>) package_path (siz + 1) in
                if result \<noteq> FS_RESULT_OK \<or> length bytes \<noteq> siz
                then Some (ROOT_PACKAGE_IO_ERROR, s\<lparr>pk_fs := free_package data st\<rparr>)
                else let h = fs_heap st in
                  install_image data siz
                    (s\<lparr>pk_fs := st\<lparr>fs_heap := h\<lparr>heap_bytes := store_bytes (heap_bytes h) data (bytes @ [0])\<rparr>\<rparr>\<rparr>))"

definition package_remove :: "string option \<Rightarrow> 'd pkgs \<Rightarrow> (RootPackageResult \<times> 'd pkgs) option" where
  "package_remove name s =
     (if name = None \<or> chead (the name) = NUL then Some (ROOT_PACKAGE_NOT_INSTALLED, s)
      else case find_slot (\<lambda>info. root_streq (info_name info) (the name)) (installed s) of
        None \<Rightarrow> Some (ROOT_PACKAGE_NOT_INSTALLED, s)
      | Some index \<Rightarrow>
          let install_root = fst (append_text 512 APPS_ROOT (info_name (installed s ! index)));
              (removed, st) = (if filesystem_exists (pk_fs s) (Some install_root) then filesystem_remove (pk_fs s) (Some install_root) True
                               else (FS_RESULT_OK, pk_fs s))
          in if removed \<noteq> FS_RESULT_OK then Some (ROOT_PACKAGE_IO_ERROR, s\<lparr>pk_fs := st\<rparr>)
             else case package_database_save (s\<lparr>pk_fs := st, installed := take index (installed s) @ drop (index + 1) (installed s)\<rparr>) of
                    None \<Rightarrow> None
                  | Some (ok, s) \<Rightarrow> Some (if ok then ROOT_PACKAGE_OK else ROOT_PACKAGE_IO_ERROR, s))"

definition package_count :: "'d pkgs \<Rightarrow> nat" where
  "package_count s = length (installed s)"

definition package_get :: "nat \<Rightarrow> 'd pkgs \<Rightarrow> RootPackageInfo option" where
  "package_get index s = (if index \<ge> length (installed s) then None else Some (installed s ! index))"

definition package_result_string :: "RootPackageResult \<Rightarrow> string" where
  "package_result_string r = (case r of ROOT_PACKAGE_OK \<Rightarrow> ''ok'' | ROOT_PACKAGE_NOT_FOUND \<Rightarrow> ''package file not found''
    | ROOT_PACKAGE_ALREADY_INSTALLED \<Rightarrow> ''package is already installed'' | ROOT_PACKAGE_INVALID \<Rightarrow> ''invalid .rtpgk package''
    | ROOT_PACKAGE_IO_ERROR \<Rightarrow> ''filesystem I/O error'' | ROOT_PACKAGE_NO_MEMORY \<Rightarrow> ''not enough memory''
    | ROOT_PACKAGE_NO_SPACE \<Rightarrow> ''not enough package/filesystem space'' | ROOT_PACKAGE_NOT_INSTALLED \<Rightarrow> ''package is not installed'')"

end
