(* ===== verification/Root_Elf_Safety.thy ===== *)
theory Root_Elf_Safety
  imports Root_Elf Root_Heap_Safety
begin

text \<open>
  The loaders touch nothing but the block they allocate: every address they write is derived from offsets of the file
  that were checked against the layout, and every failure path releases the block.
\<close>

unbundle bit_operations_syntax

section \<open>Alignment\<close>

lemma power_of_two_pow: "power_of_two n \<Longrightarrow> \<exists>k. n = 2 ^ k"
proof (induction n rule: less_induct)
  case (less n)
  show ?case
  proof (cases "even n")
    case True
    then obtain m where m: "n = 2 * m" by blast
    have m0: "m \<noteq> 0" using less.prems m by (simp add: power_of_two_def)
    then obtain j where j: "m = Suc j" by (cases m) auto
    have "n - 1 = 1 + 2 * j" "m - 1 = j" using m j by simp_all
    then have "n AND (n - 1) = 2 * (m AND (m - 1))"
      unfolding m by (subst and_rec) simp
    then have "power_of_two m" using less.prems m0 by (simp add: power_of_two_def)
    moreover have "m < n" using m m0 by simp
    ultimately obtain k where "m = 2 ^ k" using less.IH by blast
    then have "n = 2 ^ Suc k" using m by simp
    then show ?thesis by blast
  next
    case False
    then obtain m where m: "n = 2 * m + 1" using oddE by blast
    then have "n AND (n - 1) = 2 * (m AND m)" by (subst and_rec) simp
    then have "m = 0" using less.prems by (simp add: power_of_two_def)
    then show ?thesis using m by (intro exI [of _ 0]) simp
  qed
qed

lemma unat_and_not_mask: "unat (w AND NOT (mask k) :: u32) = unat w - unat w mod 2 ^ k"
proof -
  have "w - take_bit k w = w AND NOT (take_bit k w)"
    by (rule disjunctive_diff) (simp add: bit_take_bit_iff)
  also have "\<dots> = w AND NOT (mask k)" by (rule bit_eqI) (auto simp: bit_simps)
  finally have e: "w AND NOT (mask k) = w - take_bit k w" by simp
  have t: "unat (take_bit k w) = unat w mod 2 ^ k" by (subst unsigned_take_bit_eq) (rule take_bit_eq_mod)
  then have "take_bit k w \<le> w" by (simp add: word_le_nat_alt)
  then show ?thesis unfolding e by (simp add: unat_sub t)
qed

lemma align_up_eq:
  assumes "power_of_two a" "v + a \<le> USIZE_MOD"
  shows "align_up v a = (v + (a - 1)) - (v + (a - 1)) mod a"
proof -
  obtain k where k: "a = 2 ^ k" using power_of_two_pow [OF assms(1)] by blast
  show ?thesis
  proof (cases "a \<le> 1")
    case True
    then have "a = 1" using k by (simp add: le_Suc_eq)
    then show ?thesis by (simp add: align_up_def)
  next
    case False
    have "word_of_nat (a - 1) = (mask k :: u32)" by (simp add: k mask_eq_exp_minus_1 of_nat_diff)
    moreover have "unat (word_of_nat v + word_of_nat (a - 1) :: u32) = v + (a - 1)"
    proof -
      have "word_of_nat v + word_of_nat (a - 1) = (word_of_nat (v + (a - 1)) :: u32)" by simp
      then show ?thesis using assms(2) False by (simp only: unat_of_nat) simp
    qed
    ultimately show ?thesis using False by (simp add: align_up_def unat_and_not_mask k)
  qed
qed

lemma align_up_bounds:
  assumes "power_of_two a" "v + a \<le> USIZE_MOD"
  shows "v \<le> align_up v a" "align_up v a < v + a" "a dvd align_up v a"
proof -
  have a: "0 < a" using assms(1) by (simp add: power_of_two_def)
  have "(v + (a - 1)) mod a \<le> a - 1" using a by (simp add: less_Suc_eq_le [symmetric])
  then show "v \<le> align_up v a" "align_up v a < v + a" unfolding align_up_eq [OF assms] using a by auto
  show "a dvd align_up v a" unfolding align_up_eq [OF assms] by (rule dvd_minus_mod)
qed

section \<open>The layout\<close>

text \<open>
  \<open>laid_out\<close>: the sections of a list lie one behind the other inside an image, each at an address of its alignment, and
  the contents of each are inside the file.
\<close>

fun laid_out :: "mem \<Rightarrow> addr \<Rightarrow> nat \<Rightarrow> nat list \<Rightarrow> nat list \<Rightarrow> nat \<Rightarrow> nat \<Rightarrow> bool" where
  "laid_out m sections file_size offsets [] start finish \<longleftrightarrow> start \<le> finish"
| "laid_out m sections file_size offsets (i # is) start finish \<longleftrightarrow>
     (let s = section_of m sections i in
      if \<not> allocated s then laid_out m sections file_size offsets is start finish
      else start \<le> offsets ! i \<and> (sh_addralign s = 0 \<or> sh_addralign s dvd offsets ! i)
        \<and> (sh_type s \<noteq> SHT_NOBITS \<longrightarrow> sh_offset s + sh_size s \<le> file_size)
        \<and> laid_out m sections file_size offsets is (offsets ! i + sh_size s) finish)"

lemma laid_out_cong:
  "(\<And>i. i \<in> set is \<Longrightarrow> offsets ! i = offsets' ! i \<and> section_of m sections i = section_of m' sections i) \<Longrightarrow>
     laid_out m sections file_size offsets is start finish = laid_out m' sections file_size offsets' is start finish"
  by (induction "is" arbitrary: start) (auto simp: Let_def)

lemma laid_out_le: "laid_out m sections file_size offsets is start finish \<Longrightarrow> start \<le> finish"
  by (induction "is" arbitrary: start) (fastforce simp: Let_def split: if_splits)+

lemma laid_out_section:
  assumes "laid_out m sections file_size offsets is start finish" "i \<in> set is" "allocated (section_of m sections i)"
  shows "start \<le> offsets ! i \<and> offsets ! i + sh_size (section_of m sections i) \<le> finish
    \<and> (sh_type (section_of m sections i) \<noteq> SHT_NOBITS
        \<longrightarrow> sh_offset (section_of m sections i) + sh_size (section_of m sections i) \<le> file_size)"
  using assms
proof (induction "is" arbitrary: start)
  case (Cons j js)
  show ?case
  proof (cases "allocated (section_of m sections j)")
    case False
    then show ?thesis using Cons by (cases "i = j") (auto simp: Let_def)
  next
    case True
    then show ?thesis
      using Cons laid_out_le [of m sections file_size offsets js "offsets ! j + sh_size (section_of m sections j)" finish]
      by (cases "i = j") (fastforce simp: Let_def)+
  qed
qed simp

lemma range_validD: "range_valid a n l \<Longrightarrow> a + n \<le> l"
  unfolding range_valid_def by linarith

definition alignment_ok :: "nat \<Rightarrow> bool" where
  "alignment_ok a \<longleftrightarrow> power_of_two a \<and> a \<le> ROOT_ELF_MAX_ALIGNMENT"

lemma layout_loop_spec:
  assumes "layout_loop e1 e2 m sections file_size is offsets image_size max_alignment = Inr (offsets', size', al')"
    and "distinct is" "\<forall>i\<in>set is. i < length offsets" "image_size \<le> ROOT_ELF_MAX_IMAGE" "alignment_ok max_alignment"
  shows "laid_out m sections file_size offsets' is image_size size' \<and> size' \<le> ROOT_ELF_MAX_IMAGE \<and> alignment_ok al'
    \<and> length offsets' = length offsets \<and> (\<forall>j. j \<notin> set is \<longrightarrow> offsets' ! j = offsets ! j)
    \<and> max_alignment \<le> al' \<and> (\<forall>i\<in>set is. allocated (section_of m sections i) \<longrightarrow> sh_addralign (section_of m sections i) \<le> al')"
  using assms
proof (induction "is" arbitrary: offsets image_size max_alignment)
  case (Cons i "is")
  let ?s = "section_of m sections i"
  show ?case
  proof (cases "allocated ?s")
    case False
    then show ?thesis using Cons by (auto simp: Let_def)
  next
    case True
    define a where "a = (if sh_addralign ?s = 0 then 1 else sh_addralign ?s)"
    define mx where "mx = (if a > max_alignment then a else max_alignment)"
    define o' where "o' = align_up image_size a"
    have a: "alignment_ok a" and sz: "sh_size ?s \<le> ROOT_ELF_MAX_IMAGE" "o' \<le> u32_sub ROOT_ELF_MAX_IMAGE (sh_size ?s)"
      and rng: "sh_type ?s \<noteq> SHT_NOBITS \<longrightarrow> range_valid (sh_offset ?s) (sh_size ?s) file_size"
      and rec: "layout_loop e1 e2 m sections file_size is (offsets[i := o']) (u32_add o' (sh_size ?s)) mx = Inr (offsets', size', al')"
      using Cons.prems(1) True
      by (auto simp: Let_def alignment_ok_def a_def [symmetric] mx_def [symmetric] o'_def [symmetric] split: if_splits)
    have al: "image_size \<le> o'" "a dvd o'"
      using align_up_bounds [of a image_size] a Cons.prems(4) by (auto simp: o'_def alignment_ok_def rootos_consts)
    have le: "o' + sh_size ?s \<le> ROOT_ELF_MAX_IMAGE" using sz by (simp add: rootos_consts)
    then have add: "u32_add o' (sh_size ?s) = o' + sh_size ?s" by (simp add: rootos_consts)
    have mx: "alignment_ok mx" "max_alignment \<le> mx" "a \<le> mx" using a Cons.prems(5) by (auto simp: mx_def)
    have IH: "laid_out m sections file_size offsets' is (o' + sh_size ?s) size' \<and> size' \<le> ROOT_ELF_MAX_IMAGE \<and> alignment_ok al'
      \<and> length offsets' = length (offsets[i := o']) \<and> (\<forall>j. j \<notin> set is \<longrightarrow> offsets' ! j = offsets[i := o'] ! j)
      \<and> mx \<le> al' \<and> (\<forall>i\<in>set is. allocated (section_of m sections i) \<longrightarrow> sh_addralign (section_of m sections i) \<le> al')"
      by (rule Cons.IH [OF rec [unfolded add]]) (use Cons.prems mx(1) le in auto)
    have "sh_addralign ?s = 0 \<or> sh_addralign ?s dvd o'" using al(2) by (auto simp: a_def split: if_splits)
    moreover have "offsets' ! i = o'" using IH Cons.prems(2,3) by auto
    moreover have "sh_addralign ?s \<le> al'" using IH mx(3) by (auto simp: a_def split: if_splits)
    ultimately show ?thesis using IH al rng True mx(2) by (auto simp: Let_def dest: range_validD)
  qed
qed auto

section \<open>Writing inside the image only\<close>

text \<open>
  \<open>only m m' a n\<close>: the memories differ at most in the \<open>n\<close> bytes from \<open>a\<close> on.
\<close>

definition only :: "mem \<Rightarrow> mem \<Rightarrow> addr \<Rightarrow> nat \<Rightarrow> bool" where
  "only m m' a n \<longleftrightarrow> (\<forall>x. x < a \<or> a + n \<le> x \<longrightarrow> m' x = m x)"

lemma only_refl [simp]: "only m m a n"
  by (simp add: only_def)

lemma only_trans: "only m m' a n \<Longrightarrow> only m' m'' a n \<Longrightarrow> only m m'' a n"
  by (simp add: only_def)

lemma onlyD: "only m m' a n \<Longrightarrow> x < a \<or> a + n \<le> x \<Longrightarrow> m' x = m x"
  by (auto simp: only_def)

definition apart :: "addr \<Rightarrow> nat \<Rightarrow> addr \<Rightarrow> nat \<Rightarrow> bool" where
  "apart a n b k \<longleftrightarrow> a + n \<le> b \<or> b + k \<le> a"

lemma only_ld32: "only m m' a n \<Longrightarrow> apart a n x 4 \<Longrightarrow> ld32 m' x = ld32 m x"
  by (rule ld32_cong) (auto simp: only_def apart_def)

lemma only_ld16: "only m m' a n \<Longrightarrow> apart a n x 2 \<Longrightarrow> ld16 m' x = ld16 m x"
  by (auto simp: only_def apart_def ld16_def)

lemma apart_sub: "apart a n b k \<Longrightarrow> b \<le> x \<Longrightarrow> x + j \<le> b + k \<Longrightarrow> apart a n x j"
  by (auto simp: apart_def)

lemma only_section:
  assumes "only m m' a n" "apart a n sections (40 * shnum)" "i < shnum"
  shows "section_of m' sections i = section_of m sections i"
proof -
  have "40 * i + 40 \<le> 40 * shnum" using assms(3) by simp
  then have "apart a n (sections + 40 * i + k) 4" if "k + 4 \<le> 40" for k
    using apart_sub [OF assms(2), of "sections + 40 * i + k" 4] that by simp
  then have "ld32 m' (sections + 40 * i + k) = ld32 m (sections + 40 * i + k)" if "k + 4 \<le> 40" for k
    using only_ld32 [OF assms(1)] that by blast
  then show ?thesis by (simp add: shdr_at_def)
qed

text \<open>Where the sections are at run time: a section without an address has not been allocated.\<close>

definition placed :: "mem \<Rightarrow> addr \<Rightarrow> nat \<Rightarrow> addr \<Rightarrow> nat \<Rightarrow> addr list \<Rightarrow> bool" where
  "placed m sections shnum img image_size runtime \<longleftrightarrow>
     (\<forall>i < shnum. runtime ! i \<noteq> 0 \<longrightarrow> img \<le> runtime ! i \<and> runtime ! i + sh_size (section_of m sections i) \<le> img + image_size)"

lemma placed_only:
  assumes "placed m sections shnum img n runtime" "only m m' a k" "apart a k sections (40 * shnum)"
  shows "placed m' sections shnum img n runtime"
  using assms(1) only_section [OF assms(2,3)] by (simp add: placed_def)

lemma load_sections_spec:
  assumes "load_sections file sections img offsets is m runtime = (m', runtime')"
    and "laid_out m sections file_size offsets is start image_size" "\<forall>i\<in>set is. i < shnum \<and> i < length runtime" "distinct is"
    and "apart img image_size sections (40 * shnum)" "img + image_size < USIZE_MOD"
  shows "only m m' img image_size \<and> length runtime' = length runtime
    \<and> (\<forall>j. j \<notin> set is \<longrightarrow> runtime' ! j = runtime ! j)
    \<and> (\<forall>i\<in>set is. runtime' ! i = (if allocated (section_of m sections i) then img + offsets ! i else runtime ! i))"
  using assms(1-4)
proof (induction "is" arbitrary: m runtime start)
  case (Cons i "is")
  let ?s = "section_of m sections i"
  show ?case
  proof (cases "allocated ?s")
    case False
    then have *: "only m m' img image_size \<and> length runtime' = length runtime
        \<and> (\<forall>j. j \<notin> set is \<longrightarrow> runtime' ! j = runtime ! j)
        \<and> (\<forall>i\<in>set is. runtime' ! i = (if allocated (section_of m sections i) then img + offsets ! i else runtime ! i))"
      using Cons.IH [of m runtime start] Cons.prems by (auto simp: Let_def)
    then show ?thesis using False Cons.prems(4) by auto
  next
    case True
    define p where "p = img + offsets ! i"
    have sec: "offsets ! i + sh_size ?s \<le> image_size" using laid_out_section [OF Cons.prems(2), of i] True by simp
    have p: "u32_add img (offsets ! i) = p" using sec assms(6) by (simp add: p_def)
    define m1 where "m1 = (if sh_type ?s \<noteq> SHT_NOBITS \<and> sh_size ?s > 0 then root_memcpy m p (file + sh_offset ?s) (sh_size ?s) else m)"
    have o1: "only m m1 img image_size"
      unfolding only_def m1_def using sec by (auto intro: root_memcpy_outside simp: p_def)
    have same: "section_of m1 sections j = section_of m sections j" if "j \<in> set (i # is)" for j
      using only_section [OF o1 assms(5)] that Cons.prems(3) by auto
    have rec: "load_sections file sections img offsets is m1 (runtime[i := p]) = (m', runtime')"
      using Cons.prems(1) True by (simp add: Let_def p m1_def)
    have lay: "laid_out m1 sections file_size offsets is (offsets ! i + sh_size ?s) image_size"
      using Cons.prems(2) True laid_out_cong [of "is" offsets offsets m1 sections m] same by (auto simp: Let_def)
    have IH: "only m1 m' img image_size \<and> length runtime' = length (runtime[i := p])
        \<and> (\<forall>j. j \<notin> set is \<longrightarrow> runtime' ! j = runtime[i := p] ! j)
        \<and> (\<forall>i'\<in>set is. runtime' ! i' = (if allocated (section_of m1 sections i') then img + offsets ! i' else runtime[i := p] ! i'))"
      by (rule Cons.IH [OF rec lay]) (use Cons.prems in auto)
    have "runtime' ! i = p" using IH Cons.prems(3,4) by auto
    moreover have "\<forall>j\<in>set is. runtime' ! j = (if allocated (section_of m sections j) then img + offsets ! j else runtime ! j)"
    proof
      fix j
      assume j: "j \<in> set is"
      then have "j \<noteq> i" using Cons.prems(4) by auto
      then show "runtime' ! j = (if allocated (section_of m sections j) then img + offsets ! j else runtime ! j)"
        using IH j same [of j] by simp
    qed
    ultimately show ?thesis using IH only_trans [OF o1] True by (auto simp: p_def)
  qed
qed simp

lemma only_st32: "a \<le> p \<Longrightarrow> p + 4 \<le> a + n \<Longrightarrow> only m (st32 m p v) a n"
  by (auto simp: only_def)

text \<open>Applying the entries of one relocation section.\<close>

lemma relocation_entries_only:
  assumes "relocation_entries tab sections shnum runtime info rels rs m = (e, m')"
    and "placed m sections shnum img n runtime" "info < shnum" "runtime ! info \<noteq> 0"
    and "apart img n sections (40 * shnum)" "img + n < USIZE_MOD"
  shows "only m m' img n"
  using assms(1,2)
proof (induction rs arbitrary: m)
  case (Cons r rs)
  let ?rel = "rel_at m (rels + 8 * r)" and ?t = "sh_size (section_of m sections info)"
  define place where "place = u32_add (runtime ! info) (r_offset ?rel)"
  show ?case
  proof (cases "e = None \<or> m' \<noteq> m")
    case False
    then show ?thesis by simp
  next
    case True
    have in_target: "r_offset ?rel + 4 \<le> ?t"
      using Cons.prems(1) True by (auto simp: Let_def split: if_splits)
    then have p: "place = runtime ! info + r_offset ?rel" "img \<le> place" "place + 4 \<le> img + n"
      using Cons.prems(2) assms(3,4,6) by (auto simp: placed_def place_def)
    have o: "only m (st32 m place v) img n" for v using p by (intro only_st32) auto
    consider "relocation_entries tab sections shnum runtime info rels rs m = (e, m')"
      | v where "relocation_entries tab sections shnum runtime info rels rs (st32 m place v) = (e, m')" | "m' = m"
      using Cons.prems(1) by (auto simp: Let_def place_def [symmetric] split: if_splits option.splits)
    then show ?thesis
    proof cases
      case 1
      then show ?thesis using Cons.IH Cons.prems(2) by blast
    next
      case (2 v)
      from Cons.IH [OF this placed_only [OF Cons.prems(2) o assms(5)]] show ?thesis using only_trans [OF o] by blast
    qed simp
  qed
qed simp

lemma relocation_loop_only:
  assumes "relocation_loop tab file sections shnum file_size runtime is m = (e, m')"
    and "placed m sections shnum img n runtime" "apart img n sections (40 * shnum)" "img + n < USIZE_MOD"
  shows "only m m' img n"
  using assms(1,2)
proof (induction "is" arbitrary: m)
  case (Cons i "is")
  let ?s = "section_of m sections i"
  let ?entries = "relocation_entries tab sections shnum runtime (sh_info ?s) (file + sh_offset ?s) [0..<sh_size ?s div 8] m"
  obtain e1 m1 where en: "?entries = (e1, m1)" by fastforce
  consider "m' = m" | "relocation_loop tab file sections shnum file_size runtime is m = (e, m')"
    | "sh_info ?s < shnum" "runtime ! sh_info ?s \<noteq> 0"
        "case e1 of Some x \<Rightarrow> e = e1 \<and> m' = m1 | None \<Rightarrow> relocation_loop tab file sections shnum file_size runtime is m1 = (e, m')"
    using Cons.prems(1) unfolding relocation_loop.simps Let_def en by (cases e1) (simp_all split: if_split_asm)
  then show ?case
  proof cases
    case 2
    then show ?thesis using Cons.IH Cons.prems(2) by blast
  next
    case 3
    have o: "only m m1 img n" by (rule relocation_entries_only [OF en Cons.prems(2) 3(1,2) assms(3,4)])
    show ?thesis
    proof (cases e1)
      case None
      then have "relocation_loop tab file sections shnum file_size runtime is m1 = (e, m')" using 3(3) by simp
      from Cons.IH [OF this placed_only [OF Cons.prems(2) o assms(3)]] show ?thesis using only_trans [OF o] by blast
    qed (use 3(3) o in simp)
  qed simp
qed simp

text \<open>An entry address is absolute or lies in the image (one past its last byte included).\<close>

lemma symbol_address_in_image:
  assumes "symbol_runtime_address m symbol sections shnum runtime = Some a" "placed m sections shnum img n runtime" "img + n < USIZE_MOD"
  shows "st_shndx symbol = SHN_ABS \<or> (img \<le> a \<and> a \<le> img + n)"
proof -
  have "a = u32_add (runtime ! st_shndx symbol) (st_value symbol)" "st_shndx symbol < shnum" "runtime ! st_shndx symbol \<noteq> 0"
    "st_value symbol \<le> sh_size (section_of m sections (st_shndx symbol))" if "st_shndx symbol \<noteq> SHN_ABS"
    using assms(1) that by (auto simp: symbol_runtime_address_def split: if_splits)
  then show ?thesis using assms(2,3) by (fastforce simp: placed_def)
qed

section \<open>The image block\<close>

lemma image_block:
  assumes ok: "heap_ok h L" and n: "0 < n" "n \<le> ROOT_ELF_MAX_IMAGE" and al: "alignment_ok al"
  obtains (null) "root_malloc h (u32_add n al) = Some (0, h)"
  | (block) raw h1 sz where "root_malloc h (u32_add n al) = Some (raw, h1)" "raw \<noteq> 0" "heap_ok h1 (insert (raw, sz) L)" "(raw, sz) \<notin> L"
      "kept h h1 L" "raw \<le> align_up raw al" "align_up raw al + n \<le> raw + sz" "raw + sz < USIZE_MOD" "al dvd align_up raw al"
proof -
  have le: "al \<le> 4096" "power_of_two al" using al by (simp_all add: alignment_ok_def rootos_consts)
  then have add: "u32_add n al = n + al" using n by (simp add: rootos_consts)
  show ?thesis
  proof (rule malloc_ok [OF ok, of "n + al"])
    fix raw h1 sz
    assume m: "root_malloc h (n + al) = Some (raw, h1)" "0 < raw" "heap_ok h1 (insert (raw, sz) L)" "heap_memory h1 = heap_memory h"
      "n + al \<le> sz" "(raw, sz) \<notin> L" "kept h h1 L"
    have b: "raw + sz < USIZE_MOD" using heap_ok_bounds [OF m(3) insertI1] by linarith
    have "raw + al \<le> USIZE_MOD" using b m(5) by simp
    note au = align_up_bounds [OF le(2) this]
    show ?thesis by (rule block [OF _ _ m(3,6,7)]) (use m au b add in auto)
  qed (use n le add null in \<open>auto simp: rootos_consts\<close>)
qed

lemma image_write:
  assumes "heap_ok h1 (insert (raw, sz) L)" "(raw, sz) \<notin> L" "kept h h1 L" "raw \<le> img" "img + n \<le> raw + sz"
    and "only (heap_bytes h1) m img n"
  shows "heap_ok (h1\<lparr>heap_bytes := m\<rparr>) (insert (raw, sz) L)" "kept h (h1\<lparr>heap_bytes := m\<rparr>) L"
    "heap_ok (root_free (h1\<lparr>heap_bytes := m\<rparr>) raw) L" "kept h (root_free (h1\<lparr>heap_bytes := m\<rparr>) raw) L"
proof -
  let ?h = "h1\<lparr>heap_bytes := m\<rparr>"
  have out: "m x = heap_bytes h1 x" if "x < raw \<or> raw + sz \<le> x" for x
    using onlyD [OF assms(6), of x] that assms(4,5) by linarith
  have w: "heap_ok ?h (insert (raw, sz) L)" "kept h1 ?h (insert (raw, sz) L - {(raw, sz)})"
    by (rule store_block_ok [OF assms(1) insertI1 out], assumption)+
  have L: "insert (raw, sz) L - {(raw, sz)} = L" using assms(2) by simp
  show "heap_ok ?h (insert (raw, sz) L)" by (rule w(1))
  show k: "kept h ?h L" using kept_trans [OF assms(3)] w(2) L by simp
  note f = free_ok [OF w(1) insertI1, unfolded L]
  show "heap_ok (root_free ?h raw) L" by (rule f(1))
  show "kept h (root_free ?h raw) L" using kept_trans [OF k] f(3) by simp
qed

text \<open>The section headers of an accepted file lie inside it.\<close>

lemma header_validD:
  assumes "elf_header_valid m file file_size"
  shows "file \<noteq> 0" "52 \<le> file_size" "e_shnum (ehdr_at m file) \<le> ROOT_ELF_MAX_SECTIONS"
    "e_shoff (ehdr_at m file) + 40 * e_shnum (ehdr_at m file) \<le> file_size"
proof -
  have n: "e_shnum (ehdr_at m file) \<le> ROOT_ELF_MAX_SECTIONS" and r: "range_valid (e_shoff (ehdr_at m file)) (u32_mul (e_shnum (ehdr_at m file)) 40) file_size"
    using assms by (auto simp: elf_header_valid_def Let_def split: if_splits)
  then show "e_shnum (ehdr_at m file) \<le> ROOT_ELF_MAX_SECTIONS" "e_shoff (ehdr_at m file) + 40 * e_shnum (ehdr_at m file) \<le> file_size"
    using range_validD [OF r] by (simp_all add: rootos_consts mult.commute)
  show "file \<noteq> 0" "52 \<le> file_size" using assms by (auto simp: elf_header_valid_def Let_def split: if_splits)
qed

text \<open>What both loaders have when the sections are copied: \<open>m\<close> differs from the heap after the allocation in the image only.\<close>

lemma image_loaded:
  fixes h :: heap and "file" shoff shnum :: nat
  defines "sections \<equiv> file + shoff" and "none \<equiv> replicate ROOT_ELF_MAX_SECTIONS 0"
  assumes lay: "layout_loop e1 e2 (heap_bytes h) sections file_size [0..<shnum] none 0 16 = Inr (offsets, n, al)"
    and blk: "(file, t) \<in> L" "file_size \<le> t" "shoff + 40 * shnum \<le> file_size" "shnum \<le> ROOT_ELF_MAX_SECTIONS"
    and h1: "heap_ok h1 (insert (raw, sz) L)" "(raw, sz) \<notin> L" "kept h h1 L" "raw \<le> img" "img + n \<le> raw + sz" "raw + sz < USIZE_MOD"
    and ld: "load_sections file sections img offsets [0..<shnum] (root_memzero (heap_bytes h1) img n) none = (m, runtime)"
  shows "only (heap_bytes h1) m img n" "placed m sections shnum img n runtime" "apart img n file t" "apart img n sections (40 * shnum)"
    "n \<le> ROOT_ELF_MAX_IMAGE" "alignment_ok al"
proof -
  have "alignment_ok 16" by (simp add: alignment_ok_def power_of_two_def rootos_consts)
  then have lo: "laid_out (heap_bytes h) sections file_size offsets [0..<shnum] 0 n" "n \<le> ROOT_ELF_MAX_IMAGE" "alignment_ok al"
    using layout_loop_spec [OF lay] blk(4) by (auto simp: none_def)
  then show "n \<le> ROOT_ELF_MAX_IMAGE" "alignment_ok al" by auto
  have "file + t \<le> raw \<or> raw + sz \<le> file"
    using heap_ok_apart [OF h1(1), of "file" t raw sz] blk(1) h1(2) by auto
  then show ap: "apart img n file t" using h1(4,5) by (auto simp: apart_def)
  show sec: "apart img n sections (40 * shnum)"
    using apart_sub [OF ap, of "file + shoff" "40 * shnum"] blk(2,3) by (simp add: sections_def)
  let ?m0 = "root_memzero (heap_bytes h1) img n"
  have z: "only (heap_bytes h1) ?m0 img n" by (auto simp: only_def root_memzero_spec)
  have same: "section_of ?m0 sections i = section_of (heap_bytes h) sections i" if "i < shnum" for i
  proof -
    have "heap_bytes h1 x = heap_bytes h x" if "file \<le> x" "x < file + t" for x
      using keptD [OF h1(3) blk(1), of "x - file"] that by simp
    moreover have "sections + 40 * i + 40 \<le> file + t" using that blk(2,3) by (simp add: sections_def)
    ultimately have "ld32 (heap_bytes h1) (sections + 40 * i + k) = ld32 (heap_bytes h) (sections + 40 * i + k)" if "k + 4 \<le> 40" for k
      using that by (intro ld32_cong) (simp add: sections_def)
    then have "section_of (heap_bytes h1) sections i = section_of (heap_bytes h) sections i" by (simp add: shdr_at_def)
    then show ?thesis using only_section [OF z sec that] by simp
  qed
  have lo': "laid_out ?m0 sections file_size offsets [0..<shnum] 0 n"
    using lo(1) laid_out_cong [of "[0..<shnum]" offsets offsets ?m0 sections "heap_bytes h"] same by simp
  have bound: "img + n < USIZE_MOD" using h1(5,6) by simp
  note ls = load_sections_spec [OF ld lo' _ _ sec bound]
  have o: "only ?m0 m img n" and rt: "\<forall>i < shnum. runtime ! i = (if allocated (section_of ?m0 sections i) then img + offsets ! i else 0)"
    using ls blk(4) by (auto simp: none_def)
  show "only (heap_bytes h1) m img n" using only_trans [OF z o] .
  show "placed m sections shnum img n runtime"
    unfolding placed_def
  proof (intro allI impI)
    fix i
    assume i: "i < shnum" "runtime ! i \<noteq> 0"
    then have a: "allocated (section_of ?m0 sections i)" "runtime ! i = img + offsets ! i" using rt by (auto split: if_splits)
    show "img \<le> runtime ! i \<and> runtime ! i + sh_size (section_of m sections i) \<le> img + n"
      using laid_out_section [OF lo', of i] a i only_section [OF o sec i(1)] by simp
  qed
qed

section \<open>Preparing\<close>

text \<open>
  \<open>prepared\<close>: what the second half of a loader starts from. The heap has the image as a new block, the blocks of \<open>L\<close>
  are as before, the sections have their places in the image, and the image does not overlap the file.
\<close>

definition prepared :: "heap \<Rightarrow> (addr \<times> nat) set \<Rightarrow> addr \<Rightarrow> nat \<Rightarrow> elf_image \<Rightarrow> heap \<Rightarrow> bool" where
  "prepared h L file t im h' \<longleftrightarrow> (\<exists>h1 sz. heap_ok h1 (insert (im_raw im, sz) L) \<and> (im_raw im, sz) \<notin> L \<and> kept h h1 L
      \<and> im_raw im \<le> im_base im \<and> im_base im + im_size im \<le> im_raw im + sz \<and> im_raw im + sz < USIZE_MOD \<and> 0 < im_size im
      \<and> only (heap_bytes h1) (heap_bytes h') (im_base im) (im_size im) \<and> h' = h1\<lparr>heap_bytes := heap_bytes h'\<rparr>)
    \<and> im_sections im = file + e_shoff (ehdr_at (heap_bytes h) file) \<and> im_shnum im = e_shnum (ehdr_at (heap_bytes h) file)
    \<and> apart (im_base im) (im_size im) file t \<and> apart (im_base im) (im_size im) (im_sections im) (40 * im_shnum im)
    \<and> placed (heap_bytes h') (im_sections im) (im_shnum im) (im_base im) (im_size im) (im_runtime im)
    \<and> im_base im + im_size im < USIZE_MOD"

lemma preparedD:
  assumes "prepared h L file t im h'"
  shows "placed (heap_bytes h') (im_sections im) (im_shnum im) (im_base im) (im_size im) (im_runtime im)"
    "apart (im_base im) (im_size im) (im_sections im) (40 * im_shnum im)" "im_base im + im_size im < USIZE_MOD"
    "apart (im_base im) (im_size im) file t" "im_sections im = file + e_shoff (ehdr_at (heap_bytes h) file)"
    "im_shnum im = e_shnum (ehdr_at (heap_bytes h) file)"
  using assms unfolding prepared_def by blast+

lemma prepare_image:
  assumes ok: "heap_ok h L" and blk: "(file, t) \<in> L" "file_size \<le> t" and hv: "elf_header_valid (heap_bytes h) file file_size"
    and lay: "layout_loop (err_unsupported E) (err_format E) (heap_bytes h) (file + e_shoff (ehdr_at (heap_bytes h) file)) file_size
      [0..<e_shnum (ehdr_at (heap_bytes h) file)] (replicate ROOT_ELF_MAX_SECTIONS 0) 0 16 = Inr (offsets, n, al)" and n: "0 < n"
  shows "\<exists>r h'. elf_prepare E file file_size h = Some (r, h') \<and> (case r of Inl e \<Rightarrow> heap_ok h' L \<and> kept h h' L | Inr im \<Rightarrow> prepared h L file t im h')"
proof -
  let ?e = "ehdr_at (heap_bytes h) file" and ?none = "replicate ROOT_ELF_MAX_SECTIONS 0"
  let ?shnum = "e_shnum ?e" and ?sec = "file + e_shoff ?e"
  note hd = header_validD [OF hv]
  have lim: "n \<le> ROOT_ELF_MAX_IMAGE" "alignment_ok al"
    using layout_loop_spec [OF lay] hd(3) by (auto simp: alignment_ok_def power_of_two_def rootos_consts)
  from ok n lim show ?thesis
  proof (cases rule: image_block)
    case null
    then show ?thesis using hv lay ok n by (simp add: elf_prepare_def Let_def)
  next
    case (block raw h1 sz)
    define img where "img = align_up raw al"
    obtain m runtime where ld: "load_sections file ?sec img offsets [0..<?shnum] (root_memzero (heap_bytes h1) img n) ?none = (m, runtime)"
      by fastforce
    note im = image_loaded [OF lay blk hd(4,3) block(3-5) _ _ block(8) ld, unfolded img_def, OF block(6,7), folded img_def]
    note wr = image_write [OF block(3-5) _ _ im(1), unfolded img_def, OF block(6,7), folded img_def]
    have pre: "prepared h L file t \<lparr>im_sections = ?sec, im_shnum = ?shnum, im_raw = raw, im_base = img, im_size = n, im_runtime = runtime,
        im_symtab = tab\<rparr> (h1\<lparr>heap_bytes := m\<rparr>)" for tab
      unfolding prepared_def using block(3-8) im n by (auto simp: img_def [symmetric] intro!: exI [of _ h1] exI [of _ sz])
    show ?thesis
      using hv lay n block(1,2) wr(3,4) pre
      by (auto simp: elf_prepare_def Let_def img_def [symmetric] ld split: sum.split option.split)
  qed
qed

lemma elf_prepare_safe:
  assumes ok: "heap_ok h L" and blk: "(file, t) \<in> L" "file_size \<le> t"
  obtains (failed) e h' where "elf_prepare E file file_size h = Some (Inl e, h')" "heap_ok h' L" "kept h h' L"
  | (image) im h' where "elf_prepare E file file_size h = Some (Inr im, h')" "prepared h L file t im h'"
proof (cases "elf_header_valid (heap_bytes h) file file_size")
  case False
  then show ?thesis using ok failed by (simp add: elf_prepare_def)
next
  case hv: True
  let ?lay = "layout_loop (err_unsupported E) (err_format E) (heap_bytes h) (file + e_shoff (ehdr_at (heap_bytes h) file)) file_size
      [0..<e_shnum (ehdr_at (heap_bytes h) file)] (replicate ROOT_ELF_MAX_SECTIONS 0) 0 16"
  show ?thesis
  proof (cases ?lay)
    case (Inl e)
    then show ?thesis using hv ok failed by (simp add: elf_prepare_def Let_def)
  next
    case (Inr l)
    then obtain offsets n al where lay: "?lay = Inr (offsets, n, al)" by (cases l) auto
    show ?thesis
    proof (cases "n = 0")
      case True
      then show ?thesis using hv lay ok failed by (simp add: elf_prepare_def Let_def)
    next
      case False
      then obtain r h' where "elf_prepare E file file_size h = Some (r, h')"
        "case r of Inl e \<Rightarrow> heap_ok h' L \<and> kept h h' L | Inr im \<Rightarrow> prepared h L file t im h'"
        using prepare_image [OF ok blk hv lay] by blast
      then show ?thesis using failed image by (cases r) auto
    qed
  qed
qed

text \<open>Writing to the prepared image and releasing it.\<close>

lemma prepared_write:
  assumes "prepared h L file t im h'" "only (heap_bytes h') m (im_base im) (im_size im)"
  shows "\<exists>sz. heap_ok (h'\<lparr>heap_bytes := m\<rparr>) (insert (im_raw im, sz) L) \<and> (im_raw im, sz) \<notin> L
      \<and> im_raw im \<le> im_base im \<and> im_base im + im_size im \<le> im_raw im + sz"
    "kept h (h'\<lparr>heap_bytes := m\<rparr>) L"
    "heap_ok (root_free (h'\<lparr>heap_bytes := m\<rparr>) (im_raw im)) L" "kept h (root_free (h'\<lparr>heap_bytes := m\<rparr>) (im_raw im)) L"
proof -
  obtain h1 sz where h1: "heap_ok h1 (insert (im_raw im, sz) L)" "(im_raw im, sz) \<notin> L" "kept h h1 L" "im_raw im \<le> im_base im"
      "im_base im + im_size im \<le> im_raw im + sz" "only (heap_bytes h1) (heap_bytes h') (im_base im) (im_size im)" "h' = h1\<lparr>heap_bytes := heap_bytes h'\<rparr>"
    using assms(1) by (auto simp: prepared_def)
  have e: "h'\<lparr>heap_bytes := m\<rparr> = h1\<lparr>heap_bytes := m\<rparr>" by (subst h1(7)) simp
  note w = image_write [OF h1(1-5) only_trans [OF h1(6) assms(2)], folded e]
  show "\<exists>sz. heap_ok (h'\<lparr>heap_bytes := m\<rparr>) (insert (im_raw im, sz) L) \<and> (im_raw im, sz) \<notin> L
      \<and> im_raw im \<le> im_base im \<and> im_base im + im_size im \<le> im_raw im + sz"
    using w(1) h1(2,4,5) by (intro exI [of _ sz]) auto
  show "kept h (h'\<lparr>heap_bytes := m\<rparr>) L"
    "heap_ok (root_free (h'\<lparr>heap_bytes := m\<rparr>) (im_raw im)) L" "kept h (root_free (h'\<lparr>heap_bytes := m\<rparr>) (im_raw im)) L"
    by (rule w)+
qed

section \<open>The application loader\<close>

text \<open>The outcome of \<open>elf_load_image\<close>: no block of \<open>L\<close> has changed, and the image is live exactly on success.\<close>

definition image_outcome :: "heap \<Rightarrow> (addr \<times> nat) set \<Rightarrow> (RootElfResult + (nat \<times> addr \<times> nat)) \<times> heap \<Rightarrow> bool" where
  "image_outcome h L = (\<lambda>(r, h'). kept h h' L \<and> (case r of
      Inl e \<Rightarrow> heap_ok h' L
    | Inr (entry, raw, n) \<Rightarrow> entry \<noteq> 0 \<and> (\<exists>sz. heap_ok h' (insert (raw, sz) L) \<and> (raw, sz) \<notin> L \<and> n \<le> sz)))"

lemma elf_load_image_safe:
  assumes "heap_ok h L" "(file, t) \<in> L" "file_size \<le> t"
  shows "\<exists>r. elf_load_image file file_size h = Some r \<and> image_outcome h L r"
  using assms
proof (cases rule: elf_prepare_safe [of h L "file" t file_size app_errors])
  case (failed e h')
  then show ?thesis by (simp add: elf_load_image_def image_outcome_def)
next
  case (image im h')
  let ?reloc = "relocation_loop (im_symtab im) file (im_sections im) (im_shnum im) file_size (im_runtime im) [0..<im_shnum im] (heap_bytes h')"
  obtain e m where r: "?reloc = (e, m)" by fastforce
  have o: "only (heap_bytes h') m (im_base im) (im_size im)"
    by (rule relocation_loop_only [OF r preparedD(1-3) [OF image(2)]])
  note w = prepared_write [OF image(2) o]
  show ?thesis
    using image(1) w r by (cases e) (auto simp: elf_load_image_def image_outcome_def Let_def)
qed

section \<open>The driver loader\<close>

text \<open>
  The driver loader checks \<open>r_offset + 4\<close> on 32 bits. An offset of \<open>0xFFFFFFFC\<close> or more passes for every section, and
  the word that is changed then lies in front of the section. The loader is safe for files without such offsets.
\<close>

lemma module_relocation_underflow:
  assumes "r_offset (rel_at m rels) = 0xFFFFFFFC" "r_info (rel_at m rels) = 256 * k + 1" "k < tab_count tab"
    and "symbol_runtime_address m (symbol_of m (tab_symbols tab) k) sections shnum runtime = Some a"
    and "4 \<le> runtime ! info" "runtime ! info < USIZE_MOD"
  shows "module_entries tab sections shnum runtime info rels [0] m
    = (None, st32 m (runtime ! info - 4) (u32_add a (ld32 m (runtime ! info - 4))))"
proof -
  have "runtime ! info + 0xFFFFFFFC = runtime ! info - 4 + USIZE_MOD" using assms(5) by simp
  then have "u32_add (runtime ! info) 0xFFFFFFFC = (runtime ! info - 4 + USIZE_MOD) mod USIZE_MOD" by (simp only: u32_add_def)
  also have "\<dots> = runtime ! info - 4" unfolding mod_add_self2 using assms(6) by (intro mod_less) linarith
  finally have p: "u32_add (runtime ! info) 0xFFFFFFFC = runtime ! info - 4" .
  have w: "u32_add 0xFFFFFFFC 4 = 0" by (simp add: u32_add_def)
  have t: "(256 * k + 1) mod 256 = 1" "(256 * k + 1) div 256 = k" by simp_all
  show ?thesis
    unfolding module_entries.simps Let_def mult_0_right add_0_right assms(1,2) t w p using assms(3,4) by (simp add: relocated_def)
qed

definition offsets_ok :: "mem \<Rightarrow> addr \<Rightarrow> addr \<Rightarrow> nat \<Rightarrow> nat \<Rightarrow> bool" where
  "offsets_ok m file sections shnum file_size \<longleftrightarrow> (\<forall>i < shnum. let s = section_of m sections i in
     sh_type s = SHT_REL \<and> range_valid (sh_offset s) (sh_size s) file_size
       \<longrightarrow> (\<forall>r < sh_size s div 8. r_offset (rel_at m (file + sh_offset s + 8 * r)) < 0xFFFFFFFC))"

text \<open>It depends on the bytes of the file only.\<close>

definition agree :: "mem \<Rightarrow> mem \<Rightarrow> addr \<Rightarrow> nat \<Rightarrow> bool" where
  "agree m m' a n \<longleftrightarrow> (\<forall>x. a \<le> x \<longrightarrow> x < a + n \<longrightarrow> m' x = m x)"

lemma agree_sub: "agree m m' a n \<Longrightarrow> a \<le> b \<Longrightarrow> b + k \<le> a + n \<Longrightarrow> agree m m' b k"
  by (simp add: agree_def)

lemma agree_ld32: "agree m m' a 4 \<Longrightarrow> ld32 m' a = ld32 m a"
  by (rule ld32_cong) (simp add: agree_def)

lemma only_agree: "only m m' a n \<Longrightarrow> apart a n b k \<Longrightarrow> agree m m' b k"
  by (auto simp: only_def apart_def agree_def)

lemma agree_rel: "agree m m' x 8 \<Longrightarrow> rel_at m' x = rel_at m x"
  using agree_ld32 [OF agree_sub, of m m' x 8 x] agree_ld32 [OF agree_sub, of m m' x 8 "x + 4"] by (simp add: rel_at_def)

lemma agree_section:
  assumes "agree m m' sections (40 * shnum)" "i < shnum"
  shows "section_of m' sections i = section_of m sections i"
proof -
  have "40 * i + 40 \<le> 40 * shnum" using assms(2) by simp
  then have "ld32 m' (sections + 40 * i + k) = ld32 m (sections + 40 * i + k)" if "k + 4 \<le> 40" for k
    using that by (intro agree_ld32 agree_sub [OF assms(1)]) simp_all
  then show ?thesis by (simp add: shdr_at_def)
qed

lemma offsets_ok_agree:
  assumes "offsets_ok m file sections shnum file_size" "agree m m' file t" "file \<le> sections" "sections + 40 * shnum \<le> file + t" "file_size \<le> t"
  shows "offsets_ok m' file sections shnum file_size"
  unfolding offsets_ok_def Let_def
proof (intro allI impI)
  fix i r
  assume i: "i < shnum"
  note sec = agree_section [OF agree_sub [OF assms(2-4)] i]
  let ?s = "section_of m sections i"
  assume s: "sh_type (section_of m' sections i) = SHT_REL \<and> range_valid (sh_offset (section_of m' sections i)) (sh_size (section_of m' sections i)) file_size"
    and r: "r < sh_size (section_of m' sections i) div 8"
  have rr: "range_valid (sh_offset ?s) (sh_size ?s) file_size" "8 * r + 8 \<le> sh_size ?s" using s r unfolding sec by auto
  then have "file + sh_offset ?s + 8 * r + 8 \<le> file + t" using range_validD [OF rr(1)] assms(5) by linarith
  then have "rel_at m' (file + sh_offset ?s + 8 * r) = rel_at m (file + sh_offset ?s + 8 * r)"
    by (intro agree_rel agree_sub [OF assms(2)]) simp_all
  then show "r_offset (rel_at m' (file + sh_offset (section_of m' sections i) + 8 * r)) < 0xFFFFFFFC"
    using assms(1) i s r unfolding sec offsets_ok_def Let_def by auto
qed

lemma module_entries_only:
  assumes "module_entries tab sections shnum runtime info rels rs m = (e, m')"
    and "\<forall>r\<in>set rs. r < k \<and> r_offset (rel_at m (rels + 8 * r)) < 0xFFFFFFFC"
    and "placed m sections shnum img n runtime" "info < shnum" "runtime ! info \<noteq> 0"
    and "apart img n sections (40 * shnum)" "apart img n rels (8 * k)" "img + n < USIZE_MOD"
  shows "only m m' img n"
  using assms(1-3)
proof (induction rs arbitrary: m)
  case (Cons r rs)
  let ?rel = "rel_at m (rels + 8 * r)" and ?t = "sh_size (section_of m sections info)"
  define place where "place = u32_add (runtime ! info) (r_offset ?rel)"
  have add: "u32_add (r_offset ?rel) 4 = r_offset ?rel + 4" using Cons.prems(2) by simp
  consider (skip) "module_entries tab sections shnum runtime info rels rs m = (e, m')" | (same) "m' = m"
    | (step) v where "r_offset ?rel + 4 \<le> ?t" "module_entries tab sections shnum runtime info rels rs (st32 m place v) = (e, m')"
    using Cons.prems(1) unfolding module_entries.simps Let_def place_def [symmetric] add
    by (auto split: if_splits option.splits simp: not_less)
  then show ?case
  proof cases
    case skip
    then show ?thesis using Cons.IH Cons.prems(2,3) by simp
  next
    case (step v)
    then have p: "img \<le> place" "place + 4 \<le> img + n" using Cons.prems(3) assms(4,5,8) by (auto simp: placed_def place_def)
    have o: "only m (st32 m place v) img n" by (rule only_st32 [OF p])
    have "rel_at (st32 m place v) (rels + 8 * q) = rel_at m (rels + 8 * q)" if "q < k" for q
      using that by (intro agree_rel agree_sub [OF only_agree [OF o assms(7)]]) auto
    then have "only (st32 m place v) m' img n"
      using Cons.prems(2) by (intro Cons.IH [OF step(2) _ placed_only [OF Cons.prems(3) o assms(6)]]) simp
    then show ?thesis by (rule only_trans [OF o])
  qed simp
qed simp

lemma module_relocations_only:
  assumes "module_relocations tab file sections shnum file_size runtime is m = (e, m')" "\<forall>i\<in>set is. i < shnum"
    and "placed m sections shnum img n runtime" "offsets_ok m file sections shnum file_size"
    and "apart img n sections (40 * shnum)" "apart img n file t" "file_size \<le> t" "img + n < USIZE_MOD"
    and "file \<le> sections" "sections + 40 * shnum \<le> file + t"
  shows "only m m' img n"
  using assms(1-4)
proof (induction "is" arbitrary: m)
  case (Cons i "is")
  let ?s = "section_of m sections i"
  let ?entries = "module_entries tab sections shnum runtime (sh_info ?s) (file + sh_offset ?s) [0..<sh_size ?s div 8] m"
  obtain e1 m1 where en: "?entries = (e1, m1)" by fastforce
  consider (same) "m' = m" | (skip) "module_relocations tab file sections shnum file_size runtime is m = (e, m')"
    | (step) "sh_info ?s < shnum" "runtime ! sh_info ?s \<noteq> 0" "sh_type ?s = SHT_REL" "range_valid (sh_offset ?s) (sh_size ?s) file_size"
        "case e1 of Some x \<Rightarrow> e = e1 \<and> m' = m1 | None \<Rightarrow> module_relocations tab file sections shnum file_size runtime is m1 = (e, m')"
    using Cons.prems(1) unfolding module_relocations.simps Let_def en by (cases e1) (simp_all split: if_split_asm)
  then show ?case
  proof cases
    case skip
    then show ?thesis using Cons.IH Cons.prems by simp
  next
    case step
    have "\<forall>r\<in>set [0..<sh_size ?s div 8]. r < sh_size ?s div 8 \<and> r_offset (rel_at m (file + sh_offset ?s + 8 * r)) < 0xFFFFFFFC"
      using Cons.prems(2,4) step(3,4) by (auto simp: offsets_ok_def Let_def)
    moreover have "apart img n (file + sh_offset ?s) (8 * (sh_size ?s div 8))"
      using range_validD [OF step(4)] assms(7) by (intro apart_sub [OF assms(6)]) auto
    ultimately have o: "only m m1 img n"
      using module_entries_only [OF en _ Cons.prems(3) step(1,2) assms(5) _ assms(8)] by blast
    show ?thesis
    proof (cases e1)
      case None
      then have rest: "module_relocations tab file sections shnum file_size runtime is m1 = (e, m')" using step(5) by simp
      have "only m1 m' img n"
        by (rule Cons.IH [OF rest _ placed_only [OF Cons.prems(3) o assms(5)] offsets_ok_agree [OF Cons.prems(4) only_agree [OF o assms(6)] assms(9,10,7)]])
          (use Cons.prems(2) in simp)
      then show ?thesis by (rule only_trans [OF o])
    qed (use step(5) o in simp)
  qed simp
qed simp

text \<open>The outcome of \<open>elf_module_load_memory\<close>.\<close>

definition module_outcome :: "heap \<Rightarrow> (addr \<times> nat) set \<Rightarrow> (RootModuleResult \<times> RootLoadedModule) \<times> heap \<Rightarrow> bool" where
  "module_outcome h L = (\<lambda>((r, md), h'). kept h h' L \<and>
     (if r = ROOT_MODULE_OK then module_entry md \<noteq> 0 \<and> (\<exists>sz. heap_ok h' (insert (image_allocation md, sz) L) \<and> (image_allocation md, sz) \<notin> L
          \<and> image_allocation md \<le> image_base md \<and> image_base md + module_image_size md \<le> image_allocation md + sz)
      else md = zero_module \<and> heap_ok h' L))"

lemma prepare_result: "elf_prepare E file n h = Some (Inl e, h') \<Longrightarrow> e \<in> {err_format E, err_unsupported E, err_memory E, err_entry E}"
proof -
  have "layout_loop u f m s n is os k al = Inl e \<Longrightarrow> e \<in> {u, f}" for u f :: 'a and m s n "is" os k al
    by (induction "is" arbitrary: os k al) (auto simp: Let_def split: if_splits)
  moreover have "symtab_loop f m file s k n is = Inl e \<Longrightarrow> e = f" for f :: 'a and m s k n "is"
    by (induction "is") (auto simp: Let_def split: if_splits)
  ultimately show "elf_prepare E file n h = Some (Inl e, h') \<Longrightarrow> ?thesis"
    by (auto simp: elf_prepare_def Let_def split: if_splits sum.splits prod.splits option.splits; blast)
qed

lemma module_entries_error: "module_entries tab sections shnum runtime info rels rs m = (Some x, m') \<Longrightarrow> x = ROOT_MODULE_RELOCATION_ERROR"
  by (induction rs arbitrary: m) (auto simp: Let_def split: if_splits option.splits)

lemma module_relocations_error:
  "module_relocations tab file sections shnum file_size runtime is m = (Some x, m') \<Longrightarrow> x \<noteq> ROOT_MODULE_OK"
proof (induction "is" arbitrary: m)
  case (Cons i "is")
  let ?s = "section_of m sections i"
  let ?entries = "module_entries tab sections shnum runtime (sh_info ?s) (file + sh_offset ?s) [0..<sh_size ?s div 8] m"
  obtain e1 m1 where en: "?entries = (e1, m1)" by fastforce
  have err: "e1 = Some y \<Longrightarrow> y = ROOT_MODULE_RELOCATION_ERROR" for y using module_entries_error en by blast
  show ?case
    using Cons.prems Cons.IH [of m] Cons.IH [of m1] err
    unfolding module_relocations.simps Let_def en by (cases e1) (auto split: if_split_asm)
qed simp

lemma elf_module_safe:
  assumes "heap_ok h L" and blk: "(source, t) \<in> L" "file_size \<le> t"
    and offs: "offsets_ok (heap_bytes h) source (source + e_shoff (ehdr_at (heap_bytes h) source)) (e_shnum (ehdr_at (heap_bytes h) source)) file_size"
  shows "\<exists>r. elf_module_load_memory source file_size entry_symbol h = Some r \<and> module_outcome h L r"
proof (cases "source = 0 \<or> entry_symbol = None \<or> file_size < 52")
  case True
  then show ?thesis using assms(1) by (auto simp: elf_module_load_memory_def module_outcome_def)
next
  case ok: False
  from assms(1) blk show ?thesis
  proof (cases rule: elf_prepare_safe [of h L source t file_size module_errors])
    case (failed e h')
    then show ?thesis using ok prepare_result [OF failed(1)]
      by (auto simp: elf_module_load_memory_def module_outcome_def module_errors_def)
  next
    case (image im h')
    note pd = preparedD [OF image(2)]
    have hv: "e_shoff (ehdr_at (heap_bytes h) source) + 40 * e_shnum (ehdr_at (heap_bytes h) source) \<le> file_size"
      using image(1) header_validD(4) by (auto simp: elf_prepare_def Let_def split: if_splits)
    then have sec: "source \<le> im_sections im" "im_sections im + 40 * im_shnum im \<le> source + t" using pd(5,6) blk(2) by simp_all
    obtain e m where r: "module_relocations (im_symtab im) source (im_sections im) (im_shnum im) file_size (im_runtime im) [0..<im_shnum im] (heap_bytes h') = (e, m)"
      by fastforce
    have "kept h h' L" using prepared_write(2) [OF image(2) only_refl] by simp
    then have "agree (heap_bytes h) (heap_bytes h') source t"
      using keptD [of h h' L source t] blk(1) by (auto simp: agree_def kept_def)
    then have of': "offsets_ok (heap_bytes h') source (im_sections im) (im_shnum im) file_size"
      using offsets_ok_agree [OF offs] sec blk(2) pd(5,6) by simp
    have o: "only (heap_bytes h') m (im_base im) (im_size im)"
      by (rule module_relocations_only [OF r _ pd(1) of' pd(2,4) blk(2) pd(3) sec]) simp
    have err: "e = Some x \<Longrightarrow> x \<noteq> ROOT_MODULE_OK" for x using module_relocations_error r by blast
    show ?thesis
      using ok image(1) prepared_write [OF image(2) o] r err
      by (cases e) (auto simp: elf_module_load_memory_def module_outcome_def Let_def)
  qed
qed

end
