(* ===== verification/Root_App_Safety.thy ===== *)
theory Root_App_Safety
  imports Root_App Root_Elf_Safety Root_FS_Claims
begin

text \<open>
  Loading and running a program leaves the heap and the file system as they were, apart from what the program itself
  does, and an application named in a manifest cannot leave its directory.
\<close>

section \<open>The loader and the heap\<close>

lemma read_file_keeps:
  assumes "filesystem_read_file st path n = (r, st')"
  shows "fs_heap st' = fs_heap st" "nodes st' = nodes st" "\<not> filesystem_persistent_backend st \<Longrightarrow> st' = st"
    "current_directory st' = current_directory st" "filesystem_persistent_backend st' = filesystem_persistent_backend st"
proof -
  have b: "fs_heap st'' = fs_heap st \<and> nodes st'' = nodes st \<and> (\<not> filesystem_persistent_backend st \<longrightarrow> st'' = st)
      \<and> current_directory st'' = current_directory st \<and> filesystem_persistent_backend st'' = filesystem_persistent_backend st"
    if "backend_read_file st i k = (x, st'')" for i k x st''
    using that by (auto simp: backend_read_file_def Let_def split: if_splits option.splits prod.splits)
  have "fs_heap st' = fs_heap st \<and> nodes st' = nodes st \<and> (\<not> filesystem_persistent_backend st \<longrightarrow> st' = st)
      \<and> current_directory st' = current_directory st \<and> filesystem_persistent_backend st' = filesystem_persistent_backend st"
    using assms b by (auto simp: filesystem_read_file_def split: if_splits option.splits prod.splits)
  then show "fs_heap st' = fs_heap st" "nodes st' = nodes st" "\<not> filesystem_persistent_backend st \<Longrightarrow> st' = st"
    "current_directory st' = current_directory st" "filesystem_persistent_backend st' = filesystem_persistent_backend st" by auto
qed

text \<open>
  What is assumed of a program: it returns, it keeps the heap well formed, and it does not release blocks that neither
  it nor the file system owns. The last is what \<open>foreign\<close> says: live blocks that hold no file.
\<close>

definition foreign :: "(addr \<times> nat) set \<Rightarrow> FsNode list \<Rightarrow> (addr \<times> nat) set" where
  "foreign K ns = {(a, t) \<in> K. a \<notin> ram_content ` set ns}"

definition program_law :: "'d program \<Rightarrow> bool" where
  "program_law program \<longleftrightarrow> (\<forall>entry argc argv s K. heap_ok (sys_heap s) K \<longrightarrow>
     (\<exists>code s' K'. program entry argc argv s = Some (code, s') \<and> heap_ok (sys_heap s') K' \<and> foreign K (nodes (sys_fs s)) \<subseteq> K'))"

definition files_in :: "(addr \<times> nat) set \<Rightarrow> FsNode list \<Rightarrow> bool" where
  "files_in L ns \<longleftrightarrow> (\<forall>nd\<in>set ns. ram_content nd \<noteq> 0 \<longrightarrow> (\<exists>t. (ram_content nd, t) \<in> L))"

lemma put_heap_simps [simp]:
  "sys_heap (put_heap h s) = h" "nodes (sys_fs (put_heap h s)) = nodes (sys_fs s)" "sys_processes (put_heap h s) = sys_processes s"
  by (simp_all add: put_heap_def)

lemma fresh_foreign:
  assumes "heap_ok h K" "files_in L ns" "L \<subseteq> K" "(a, t) \<in> K" "\<And>u. (a, u) \<notin> L"
  shows "(a, t) \<in> foreign K ns"
proof -
  have "a \<noteq> 0" using heap_ok_bounds [OF assms(1,4)] by auto
  then have "a \<notin> ram_content ` set ns" using assms(2,5) by (auto simp: files_in_def)
  then show ?thesis using assms(4) by (simp add: foreign_def)
qed

text \<open>What the loader promises; a started program is responsible for what it does itself.\<close>

definition loader_outcome :: "'d program \<Rightarrow> int \<Rightarrow> string list \<Rightarrow> 'd sys \<Rightarrow> (addr \<times> nat) set \<Rightarrow> (RootElfResult \<times> int \<times> u32) \<times> 'd sys \<Rightarrow> bool" where
  "loader_outcome program argc argv s L = (\<lambda>((r, code, pid), s').
     if r = ROOT_ELF_OK then
       \<exists>entry s1 s2 K f b. program entry argc argv s1 = Some (code, s2) \<and> nodes (sys_fs s1) = nodes (sys_fs s)
         \<and> f \<notin> L \<and> b \<notin> L \<and> heap_ok (sys_heap s1) (insert b (insert f L)) \<and> kept (sys_heap s) (sys_heap s1) L
         \<and> heap_ok (sys_heap s2) K \<and> heap_ok (sys_heap s') (K - {b, f}) \<and> kept (sys_heap s2) (sys_heap s') (K - {b, f})
     else heap_ok (sys_heap s') L \<and> kept (sys_heap s) (sys_heap s') L \<and> nodes (sys_fs s') = nodes (sys_fs s)
       \<and> sys_processes s' = sys_processes s)"

text \<open>A run after loading: the blocks \<open>b\<close> (image) and \<open>f\<close> (file) are released at the end.\<close>

lemma run_image_safe:
  assumes law: "program_law program" and po: "processes_ok (sys_processes s)"
    and ok: "heap_ok (sys_heap s) (insert (raw, u) (insert (file, t) L))" and "(file, t) \<notin> L" "(raw, u) \<notin> insert (file, t) L"
    and "files_in L (nodes (sys_fs s))"
  shows "\<exists>r. run_image program name argc argv file (entry, raw, n) s = Some r \<and> loader_outcome program argc argv s L r"
proof -
  let ?K = "insert (raw, u) (insert (file, t) L)"
  have two: "heap_ok (root_free (root_free h raw) file) (K - {(raw, u), (file, t)})"
      "kept h (root_free (root_free h raw) file) (K - {(raw, u), (file, t)})"
    if h: "heap_ok h K" "(raw, u) \<in> K" "(file, t) \<in> K" for h K
  proof -
    have ne: "(file, t) \<noteq> (raw, u)" using assms(5) by auto
    note f1 = free_ok [OF h(1,2)]
    have "(file, t) \<in> K - {(raw, u)}" using h(3) ne by simp
    note f2 = free_ok [OF f1(1) this]
    have e: "K - {(raw, u)} - {(file, t)} = K - {(raw, u), (file, t)}" by auto
    show "heap_ok (root_free (root_free h raw) file) (K - {(raw, u), (file, t)})" using f2(1) by (simp only: e)
    show "kept h (root_free (root_free h raw) file) (K - {(raw, u), (file, t)})"
      using kept_trans [OF kept_mono [OF f1(3)] f2(3)] by (auto simp: e)
  qed
  obtain pid ps where b: "process_begin (Some name) n (sys_processes s) = (pid, ps)" by fastforce
  note bs = process_begin_spec [OF po b]
  show ?thesis
  proof (cases "pid = 0")
    case True
    have "ps = sys_processes s" using bs True po by (auto simp: processes_ok_def split: if_splits)
    moreover have "?K - {(raw, u), (file, t)} = L" using assms(4,5) by auto
    ultimately show ?thesis using True b two [OF ok] by (simp add: run_image_def loader_outcome_def)
  next
    case False
    define s1 where "s1 = s\<lparr>sys_processes := process_mark_running pid ps\<rparr>"
    have h1: "heap_ok (sys_heap s1) ?K" using ok by (simp add: s1_def)
    then obtain code s2 K' where p: "program entry argc argv s1 = Some (code, s2)" "heap_ok (sys_heap s2) K'"
        "foreign ?K (nodes (sys_fs s1)) \<subseteq> K'"
      using law unfolding program_law_def by blast
    have "(a, w) \<in> K'" if aw: "(a, w) \<in> {(raw, u), (file, t)}" for a w
    proof -
      have "(a, v) \<notin> L" for v using heap_ok_unique [OF ok, of a w v] aw assms(4,5) by auto
      then have "(a, w) \<in> foreign ?K (nodes (sys_fs s1))"
        using fresh_foreign [OF h1, of L "nodes (sys_fs s1)" a w] assms(6) aw by (auto simp: s1_def)
      then show ?thesis using p(3) by blast
    qed
    then have "(raw, u) \<in> K'" "(file, t) \<in> K'" by auto
    note rel = two [OF p(2) this]
    have "run_image program name argc argv file (entry, raw, n) s = Some ((ROOT_ELF_OK, code, pid),
        put_heap (root_free (root_free (sys_heap s2) raw) file) (s2\<lparr>sys_processes := process_mark_exit pid code (sys_processes s2)\<rparr>))"
      using b False p(1) by (simp add: run_image_def s1_def)
    moreover have "sys_fs s1 = sys_fs s" by (simp add: s1_def)
    moreover have "(raw, u) \<notin> L" using assms(5) by simp
    ultimately show ?thesis using p(1,2) rel h1 assms(4) unfolding loader_outcome_def
      by (intro exI [of _ "((ROOT_ELF_OK, code, pid), _)"] conjI) (assumption, simp, metis kept_refl)
  qed
qed

lemma store_bytes_outside: "x < p \<or> p + length bs \<le> x \<Longrightarrow> store_bytes m p bs x = m x"
  by (auto simp: store_bytes_def)

lemma load_failure: "elf_load_image file n h = Some (Inl e, h') \<Longrightarrow> e \<noteq> ROOT_ELF_OK"
proof -
  have en: "relocation_entries tab s k rt i rels rs m = (Some e, m') \<Longrightarrow> e \<noteq> ROOT_ELF_OK" for tab s k rt i rels rs m m'
    by (induction rs arbitrary: m) (auto simp: Let_def split: if_splits option.splits)
  have "relocation_loop tab file s k n rt is m = (Some e, m') \<Longrightarrow> e \<noteq> ROOT_ELF_OK" for tab s k rt "is" m m'
  proof (induction "is" arbitrary: m)
    case (Cons i "is")
    let ?s = "section_of m s i"
    let ?entries = "relocation_entries tab s k rt (sh_info ?s) (file + sh_offset ?s) [0..<sh_size ?s div 8] m"
    obtain e1 m1 where es: "?entries = (e1, m1)" by fastforce
    have err: "e \<noteq> ROOT_ELF_OK" if "e1 = Some e" by (rule en [OF es [unfolded that]])
    show ?case using Cons.prems Cons.IH [of m] Cons.IH [of m1] err
      unfolding relocation_loop.simps Let_def es by (cases e1) (auto split: if_split_asm)
  qed simp
  note loop = this
  assume l: "elf_load_image file n h = Some (Inl e, h')"
  then obtain r h1 where p: "elf_prepare app_errors file n h = Some (r, h1)"
    by (cases "elf_prepare app_errors file n h") (auto simp: elf_load_image_def)
  show ?thesis
  proof (cases r)
    case (Inl e')
    then show ?thesis using l p prepare_result [of app_errors "file" n h e' h1] by (auto simp: elf_load_image_def app_errors_def)
  next
    case (Inr im)
    obtain e1 m where rl: "relocation_loop (im_symtab im) file (im_sections im) (im_shnum im) n (im_runtime im) [0..<im_shnum im] (heap_bytes h1) = (e1, m)"
      by fastforce
    have "e \<noteq> ROOT_ELF_OK" if "e1 = Some e" by (rule loop [OF rl [unfolded that]])
    then show ?thesis using l unfolding elf_load_image_def p Inr option.case prod.case sum.case rl Let_def
      by (cases e1) (auto split: if_split_asm)
  qed
qed

text \<open>Seen from a state before, whose blocks and nodes are the same.\<close>

lemma loader_outcome_from:
  assumes "kept (sys_heap s) (sys_heap s1) L" "nodes (sys_fs s1) = nodes (sys_fs s)" "sys_processes s1 = sys_processes s"
    and "loader_outcome program argc argv s1 L r"
  shows "loader_outcome program argc argv s L r"
proof -
  obtain x code pid s' where r: "r = ((x, code, pid), s')" by (metis prod.exhaust)
  have k: "kept (sys_heap s) h L" if "kept (sys_heap s1) h L" for h using kept_trans [OF assms(1) that] .
  show ?thesis
  proof (cases "x = ROOT_ELF_OK")
    case True
    then show ?thesis using assms(4) k unfolding loader_outcome_def r by (simp add: assms(2)) blast
  next
    case False
    then show ?thesis using assms k by (simp add: loader_outcome_def r)
  qed
qed

lemma elf_loader_safe:
  assumes law: "program_law program" and po: "processes_ok (sys_processes s)" and ok: "heap_ok (sys_heap s) L"
    and files: "files_in L (nodes (sys_fs s))"
  shows "\<exists>r. elf_loader_run program path process_name argc argv s = Some r \<and> loader_outcome program argc argv s L r"
proof (cases "path = None \<or> chead (the path) = NUL \<or> filesystem_file_size (sys_fs s) path = None
    \<or> the (filesystem_file_size (sys_fs s) path) < 52 \<or> the (filesystem_file_size (sys_fs s) path) > FS_MAX_FILE_SIZE")
  case True
  have "\<exists>e. elf_loader_run program path process_name argc argv s = Some ((e, -1, 0), s) \<and> e \<noteq> ROOT_ELF_OK"
  proof (cases "path = None \<or> chead (the path) = NUL")
    case True
    then show ?thesis unfolding elf_loader_run_def Let_def by simp
  next
    case False
    then consider "filesystem_file_size (sys_fs s) path = None"
      | n where "filesystem_file_size (sys_fs s) path = Some n" "n < 52 \<or> n > FS_MAX_FILE_SIZE"
      using True by (cases "filesystem_file_size (sys_fs s) path") auto
    then show ?thesis using False unfolding elf_loader_run_def Let_def by cases simp_all
  qed
  then obtain e where "elf_loader_run program path process_name argc argv s = Some ((e, -1, 0), s)" "e \<noteq> ROOT_ELF_OK" by blast
  then show ?thesis using ok by (simp add: loader_outcome_def)
next
  case False
  then obtain n where n: "filesystem_file_size (sys_fs s) path = Some n" "\<not> n < 52" "\<not> n > FS_MAX_FILE_SIZE" "path \<noteq> None" "chead (the path) \<noteq> NUL"
    by auto
  have lim: "0 < n + 1" "n + 1 < USIZE_MOD" using n(3) by (simp_all add: rootos_consts)
  from ok lim show ?thesis
  proof (cases rule: malloc_ok)
    case null
    then show ?thesis using n ok by (simp add: elf_loader_run_def loader_outcome_def Let_def put_heap_def)
  next
    case (block f h t)
    define s1 where "s1 = put_heap h s"
    obtain res bytes st where rd: "filesystem_read_file (sys_fs s1) path (n + 1) = ((res, bytes), st)" by (metis prod.exhaust)
    note keep = read_file_keeps [OF rd]
    define s2 where "s2 = s1\<lparr>sys_fs := st\<rparr>"
    have s2: "sys_heap s2 = h" "nodes (sys_fs s2) = nodes (sys_fs s)" "sys_processes s2 = sys_processes s"
      using keep by (simp_all add: s2_def s1_def)
    have L: "insert (f, t) L - {(f, t)} = L" using block(6) by simp
    show ?thesis
    proof (cases "res \<noteq> FS_RESULT_OK \<or> length bytes \<noteq> n")
      case True
      have "elf_loader_run program path process_name argc argv s = Some ((ROOT_ELF_IO_ERROR, -1, 0), put_heap (root_free (sys_heap s2) f) s2)"
        using n block(1,2) True rd by (auto simp: elf_loader_run_def Let_def s1_def s2_def)
      then show ?thesis
        using free_ok [OF block(3) insertI1, unfolded L] kept_trans [OF block(7)] s2 by (auto simp: loader_outcome_def)
    next
      case False
      define h3 where "h3 = h\<lparr>heap_bytes := store_bytes (heap_bytes h) f (bytes @ [0])\<rparr>"
      have w: "heap_ok h3 (insert (f, t) L)" "kept h h3 (insert (f, t) L - {(f, t)})"
        unfolding h3_def
        by (rule store_block_ok [OF block(3) insertI1]; use False block(5) in \<open>auto intro: store_bytes_outside\<close>)+
      have k3: "kept (sys_heap s) h3 L" using kept_trans [OF block(7)] w(2) L by simp
      obtain r h4 where ld: "elf_load_image f n h3 = Some (r, h4)" "image_outcome h3 (insert (f, t) L) (r, h4)"
        using elf_load_image_safe [OF w(1) insertI1, of n] block(5) by auto
      have k4: "kept (sys_heap s) h4 L" using ld(2) kept_trans [OF k3] kept_mono [of h3 h4 "insert (f, t) L" L] by (auto simp: image_outcome_def)
      have run: "elf_loader_run program path process_name argc argv s = (case r of
          Inl e \<Rightarrow> Some ((e, -1, 0), put_heap (root_free h4 f) s2)
        | Inr im \<Rightarrow> run_image program (case process_name of Some k \<Rightarrow> k | None \<Rightarrow> the path) argc argv f im (put_heap h4 s2))"
        using n block(1,2) False rd ld(1) s2(1)
        by (auto simp: elf_loader_run_def Let_def s1_def s2_def h3_def split: sum.split)
      show ?thesis
      proof (cases r)
        case (Inl e)
        have "heap_ok h4 (insert (f, t) L)" using ld(2) Inl by (simp add: image_outcome_def)
        from free_ok [OF this insertI1, unfolded L] show ?thesis
          using run Inl load_failure ld(1) kept_trans [OF k4] s2 by (auto simp: loader_outcome_def)
      next
        case (Inr im)
        obtain entry raw k where im: "im = (entry, raw, k)" by (metis prod.exhaust)
        obtain u where u: "heap_ok h4 (insert (raw, u) (insert (f, t) L))" "(raw, u) \<notin> insert (f, t) L"
          using ld(2) Inr im by (auto simp: image_outcome_def)
        let ?S = "put_heap h4 s2"
        have "\<exists>r. run_image program (case process_name of Some k \<Rightarrow> k | None \<Rightarrow> the path) argc argv f (entry, raw, k) ?S = Some r
            \<and> loader_outcome program argc argv ?S L r"
          by (rule run_image_safe [OF law _ _ block(6) u(2)]) (use u(1) files po s2 in simp_all)
        then show ?thesis
          using run Inr im loader_outcome_from [of s ?S L] k4 s2 by auto
      qed
    qed
  qed
qed

lemma view_kept:
  assumes "owned h L (nodes st)" "table_ok (nodes st)" "kept h (fs_heap st') L" "nodes st' = nodes st" "fs_heap st = h"
  shows "ram_objects st' = ram_objects st"
proof
  fix p
  have len: "length (nodes st) = FS_MAX_NODES" using assms(2) by (simp add: table_ok_def)
  have "content (fs_heap st') (nodes st ! i) = content h (nodes st ! i)" if "i < FS_MAX_NODES" "node_used (nodes st ! i)" for i
    using assms(1) that by (intro content_kept [OF assms(3), of L]) (auto simp: owned_def)
  moreover have "i < FS_MAX_NODES \<and> node_used (nodes st ! i)"
    if "find_slot (\<lambda>nd. node_used nd \<and> node_path nd = render p) (nodes st) = Some i" for i
    using find_slot_SomeD [OF that] len by simp
  ultimately show "ram_objects st' p = ram_objects st p"
    unfolding ram_objects_def view_def assms(4,5)
    by (cases "find_slot (\<lambda>nd. node_used nd \<and> node_path nd = render p) (nodes st)") (simp_all del: find_slot_None)
qed

lemma owned_files: "owned h L ns \<Longrightarrow> length ns = FS_MAX_NODES \<Longrightarrow> files_in L ns"
  unfolding owned_def block_ok_def files_in_def by (metis in_set_conv_nth)

text \<open>
  C35: Loading a program is safe for every file, however malformed. The loader always returns; when it refuses the file or
  runs out of memory or process records, the heap has exactly the blocks it had (nothing leaks), every file has the
  contents it had and no process is registered. When the program is started, the heap has two more blocks (the file and
  the image), and these two, and nothing else, are released after the program returns.
\<close>

theorem elf_loader_run_safe:
  assumes "program_law program" "processes_ok (sys_processes s)" "ram_inv (sys_fs s)" "owned (sys_heap s) L (nodes (sys_fs s))"
  shows "\<exists>r code pid s'. elf_loader_run program path process_name argc argv s = Some ((r, code, pid), s') \<and>
    (if r = ROOT_ELF_OK then
       \<exists>entry s1 s2 K f b. program entry argc argv s1 = Some (code, s2) \<and> ram_objects (sys_fs s1) = ram_objects (sys_fs s)
         \<and> f \<notin> L \<and> b \<notin> L \<and> heap_ok (sys_heap s1) (insert b (insert f L))
         \<and> heap_ok (sys_heap s2) K \<and> heap_ok (sys_heap s') (K - {b, f}) \<and> kept (sys_heap s2) (sys_heap s') (K - {b, f})
     else heap_ok (sys_heap s') L \<and> ram_objects (sys_fs s') = ram_objects (sys_fs s) \<and> sys_processes s' = sys_processes s)"
proof -
  have t: "table_ok (nodes (sys_fs s))" and ok: "heap_ok (sys_heap s) L" using assms(3,4) by (auto simp: ram_inv_def owned_def)
  have "files_in L (nodes (sys_fs s))" using owned_files [OF assms(4)] t by (simp add: table_ok_def)
  from elf_loader_safe [OF assms(1,2) ok this] obtain r code pid s' where
    run: "elf_loader_run program path process_name argc argv s = Some ((r, code, pid), s')" and
    out: "loader_outcome program argc argv s L ((r, code, pid), s')" by (metis prod.exhaust)
  have objs: "ram_objects (sys_fs s1) = ram_objects (sys_fs s)"
    if "kept (sys_heap s) (sys_heap s1) L" "nodes (sys_fs s1) = nodes (sys_fs s)" for s1 :: "'a sys"
    using view_kept [OF assms(4) t that] by simp
  show ?thesis
  proof (cases "r = ROOT_ELF_OK")
    case True
    then obtain entry s1 s2 K f b where "program entry argc argv s1 = Some (code, s2)" "nodes (sys_fs s1) = nodes (sys_fs s)"
        "f \<notin> L" "b \<notin> L" "heap_ok (sys_heap s1) (insert b (insert f L))" "kept (sys_heap s) (sys_heap s1) L"
        "heap_ok (sys_heap s2) K" "heap_ok (sys_heap s') (K - {b, f})" "kept (sys_heap s2) (sys_heap s') (K - {b, f})"
      using out unfolding loader_outcome_def by auto
    moreover have "ram_objects (sys_fs s1) = ram_objects (sys_fs s)" using objs calculation(2,6) by blast
    ultimately have "\<exists>entry s1 s2 K f b. program entry argc argv s1 = Some (code, s2) \<and> ram_objects (sys_fs s1) = ram_objects (sys_fs s)
         \<and> f \<notin> L \<and> b \<notin> L \<and> heap_ok (sys_heap s1) (insert b (insert f L))
         \<and> heap_ok (sys_heap s2) K \<and> heap_ok (sys_heap s') (K - {b, f}) \<and> kept (sys_heap s2) (sys_heap s') (K - {b, f})"
      by blast
    then show ?thesis using run True by (intro exI [of _ r] exI [of _ code] exI [of _ pid] exI [of _ s']) simp
  next
    case False
    then have o: "heap_ok (sys_heap s') L" "kept (sys_heap s) (sys_heap s') L" "nodes (sys_fs s') = nodes (sys_fs s)" "sys_processes s' = sys_processes s"
      using out by (simp_all add: loader_outcome_def)
    have "ram_objects (sys_fs s') = ram_objects (sys_fs s)" by (rule objs [OF o(2,3)])
    then show ?thesis using run False o by (intro exI [of _ r] exI [of _ code] exI [of _ pid] exI [of _ s']) simp
  qed
qed

definition demo_sys :: "(nat \<Rightarrow> sector) sys" where
  "demo_sys = \<lparr>sys_fs = demo_fs, sys_processes = process_manager_init\<rparr>"

theorem elf_loader_run_safe_witness:
  "\<exists>r code pid s' L. elf_loader_run (\<lambda>entry argc argv s. Some (0, s)) (Some ''/boot/kernel.elf'') None 0 [] demo_sys = Some ((r, code, pid), s')
    \<and> (r \<noteq> ROOT_ELF_OK \<longrightarrow> heap_ok (sys_heap s') L \<and> ram_objects (sys_fs s') = ram_objects demo_fs)"
proof -
  have law: "program_law (\<lambda>entry argc argv s. Some (0, s))" by (auto simp: program_law_def foreign_def)
  have po: "processes_ok (sys_processes demo_sys)" by (simp add: demo_sys_def process_manager_init_def processes_ok_def rootos_consts)
  have inv: "ram_inv (sys_fs demo_sys)" using demo_fs_good(1) by (simp add: demo_sys_def ram_good_def)
  then obtain L where "owned (sys_heap demo_sys) L (nodes (sys_fs demo_sys))" by (auto simp: ram_inv_def)
  from elf_loader_run_safe [OF law po inv this, of "Some ''/boot/kernel.elf''" None 0 "[]"] show ?thesis
    by (auto simp: demo_sys_def split: if_splits)
qed

section \<open>Paths below a directory\<close>

text \<open>The components of a path that is put together from pieces.\<close>

lemma path_comps_slash: "path_comps (SLASH # r) = path_comps r"
  using path_comps_skip [of "SLASH # r"] path_comps_skip [of r] by simp

lemma path_comps_piece:
  assumes "c \<noteq> []" "SLASH \<notin> set c" "NUL \<notin> set c"
  shows "path_comps (SLASH # c @ SLASH # rest) = c # path_comps rest" "path_comps (SLASH # c) = [c]"
proof -
  have all: "takeWhile in_component (c @ r) = c @ takeWhile in_component r" "dropWhile in_component (c @ r) = dropWhile in_component r" for r
    using assms(2,3) by (auto simp: takeWhile_append dropWhile_append)
  have hd: "chead (c @ r) \<noteq> NUL" "chead (c @ r) \<noteq> SLASH" for r using assms by (cases c; auto)+
  note skip = path_comps_slash
  show "path_comps (SLASH # c @ SLASH # rest) = c # path_comps rest"
    using path_comps_step [of "c @ SLASH # rest"] hd [of "SLASH # rest"] all [of "SLASH # rest"] by (simp add: skip skip_slashes_id)
  have "path_comps (c @ []) = takeWhile in_component (c @ []) # path_comps (dropWhile in_component (c @ []))"
    using path_comps_step [of "c @ []"] hd [of "[]"] skip_slashes_id [of "c @ []"] by metis
  then show "path_comps (SLASH # c) = [c]" unfolding all by (simp add: skip path_comps_stop)
qed

lemma cstr_pieces:
  "skip_slashes (cstr s) = cstr (skip_slashes s)" "takeWhile in_component (cstr s) = takeWhile in_component s"
  "dropWhile in_component (cstr s) = cstr (dropWhile in_component s)"
  by (induction s) auto

lemma path_comps_cstr: "path_comps (cstr s) = path_comps s"
proof (induction s rule: path_comps.induct)
  case (1 s)
  let ?t = "skip_slashes s"
  have h: "chead (cstr x) = chead x" for x by (cases x) auto
  show ?case
  proof (cases "chead ?t = NUL")
    case True
    then show ?thesis using h [of ?t] by (simp add: path_comps_stop cstr_pieces)
  next
    case False
    then show ?thesis
      using 1 [OF refl False] path_comps_step [of s] path_comps_step [of "cstr s"] h [of ?t] by (simp add: cstr_pieces)
  qed
qed

lemma resolve_below:
  assumes "abs_resolve_loop n acc cs = Some out" "''..'' \<notin> set cs"
  shows "out = acc @ filter (\<lambda>c. c \<noteq> ''.'') cs"
  using assms by (induction n acc cs rule: abs_resolve_loop.induct) (auto split: if_splits)

lemma safe_relative_comps: "safe_relative_loop p \<Longrightarrow> ''..'' \<notin> set (path_comps p)"
proof (induction p rule: safe_relative_loop.induct)
  case (1 p)
  show ?case
  proof (cases "chead p = NUL")
    case True
    then show ?thesis by (cases p) (auto simp: path_comps_stop)
  next
    case False
    then obtain c cs where p: "p = c # cs" "c \<noteq> NUL" by (cases p) auto
    let ?rest = "dropWhile in_component p"
    have safe: "safe_relative_loop (if chead ?rest = SLASH then tl ?rest else ?rest)"
      and nd: "\<not> (chead p = CHR ''.'' \<and> chead (tl p) = CHR ''.'' \<and> (chead (tl (tl p)) = NUL \<or> chead (tl (tl p)) = SLASH))"
      using 1(3) False unfolding safe_relative_loop.simps [of p] Let_def by (simp_all split: if_split_asm)
    have IH: "''..'' \<notin> set (path_comps (if chead ?rest = SLASH then tl ?rest else ?rest))"
      using 1(1) [OF False nd refl] 1(2) [OF False nd refl] safe by (auto split: if_splits)
    have tail: "path_comps ?rest = path_comps (if chead ?rest = SLASH then tl ?rest else ?rest)"
    proof (cases ?rest)
      case (Cons a r)
      then show ?thesis using path_comps_slash [of r] by (simp only: Cons chead_simps list.sel) simp
    next
      case Nil
      then show ?thesis by (simp only: Nil) simp
    qed
    show ?thesis
    proof (cases "c = SLASH")
      case True
      then show ?thesis using IH tail p by simp
    next
      case c: False
      have step: "path_comps p = takeWhile in_component p # path_comps ?rest"
        using path_comps_step [of p] p c by (simp add: skip_slashes_id)
      have "takeWhile in_component p \<noteq> ''..''"
      proof
        assume t: "takeWhile in_component p = ''..''"
        obtain r where r: "?rest = r" by blast
        have e: "p = ''..'' @ r" using takeWhile_dropWhile_id [of in_component p] unfolding t r by simp
        have "r = [] \<or> \<not> in_component (hd r)" using hd_dropWhile [of in_component p] r by blast
        then have "chead r = NUL \<or> chead r = SLASH" by (cases r) auto
        then show False using nd by (simp add: e)
      qed
      then show ?thesis using step IH tail by simp
    qed
  qed
qed

lemma append_text_fits:
  "append_text n front txt = (r, True) \<Longrightarrow> r = front @ cstr txt \<and> length r < n"
proof -
  assume a: "append_text n front txt = (r, True)"
  then have n: "0 < n - length front" by (auto simp: append_text_def split: prod.splits)
  show ?thesis using a n unfolding append_text_def root_strlcpy_spec [OF n] by auto
qed

lemma safe_name_chars: "safe_name_loop k n \<Longrightarrow> \<forall>c\<in>set (cstr n). app_name_char c"
  by (induction n arbitrary: k) (auto split: if_split_asm)

lemma safe_name_comp:
  assumes "safe_app_name (Some n)"
  shows "cstr n \<noteq> []" "SLASH \<notin> set (cstr n)" "NUL \<notin> set (cstr n)"
proof -
  have s: "chead n \<noteq> NUL" "safe_name_loop 0 n" using assms by (simp_all add: safe_app_name_def)
  have "\<not> app_name_char SLASH" by (simp add: app_name_char_def)
  then show "SLASH \<notin> set (cstr n)" using safe_name_chars [OF s(2)] by blast
  show "cstr n \<noteq> []" using s(1) by (cases n) auto
qed simp

text \<open>
  C36: An application that is started by name is a file below its own directory: whatever its manifest says, the path of
  the executable resolves to \<open>/system/apps/<name>\<close> followed by further components, for every name but \<open>.\<close> and \<open>..\<close>, which
  the check of names does not exclude.
\<close>

theorem app_executable_contained:
  assumes "app_executable target st = (Inr path, st')" "wf_path cwd" "cstr target \<notin> {''.'', ''..''}"
    and "root_path_resolve (render cwd) (Some path) n = Some resolved"
  shows "\<exists>rel. resolved = render ([''system'', ''apps'', cstr target] @ rel)"
proof -
  obtain exe where sn: "safe_app_name (Some target)" and safe: "safe_relative_path (Some exe)"
    and t: "append_text 512 APPS_ROOT target = (fst (append_text 512 APPS_ROOT target), True)"
    and e: "append_text 512 (fst (append_text 512 APPS_ROOT target) @ ''/'') exe = (path, True)"
    using assms(1) by (auto simp: app_executable_def Let_def split: if_splits prod.splits option.splits)
  have p: "path = APPS_ROOT @ cstr target @ SLASH # cstr exe"
    using append_text_fits [OF e] append_text_fits [OF t] by simp
  have "path = SLASH # ''system'' @ SLASH # ''apps'' @ SLASH # cstr target @ SLASH # cstr exe" by (simp add: p APPS_ROOT_def)
  moreover have "path_comps (''apps'' @ SLASH # x) = path_comps (SLASH # ''apps'' @ SLASH # x)" "path_comps (cstr target @ SLASH # x) = path_comps (SLASH # cstr target @ SLASH # x)" for x
    by (simp_all only: path_comps_slash)
  ultimately have comps: "path_comps path = ''system'' # ''apps'' # cstr target # path_comps (cstr exe)"
    using path_comps_piece(1) [OF safe_name_comp [OF sn]] path_comps_piece(1) [of "''system''"] path_comps_piece(1) [of "''apps''"]
    by simp
  have "path_comps (cstr exe) = path_comps exe" by (rule path_comps_cstr)
  then have dots: "''..'' \<notin> set (path_comps path)"
    using comps safe_relative_comps [of exe] safe assms(3) by (auto simp: safe_relative_path_def)
  have "chead path = SLASH" by (simp add: p APPS_ROOT_def)
  then obtain out where out: "abs_resolve cwd path n = Some out" "resolved = render out"
    using assms(4) root_path_resolve_abs [OF assms(2), of path n] by auto
  then have "abs_resolve_loop n [] (path_comps path) = Some out" using \<open>chead path = SLASH\<close> by (simp add: abs_resolve_def split: if_splits)
  from resolve_below [OF this dots] show ?thesis using out(2) comps assms(3) by auto
qed

text \<open>The root directory with the manifest of an application \<open>hi\<close> as its only file.\<close>

definition demo_manifest :: string where
  "demo_manifest = ''[application]'' @ [NEWLINE] @ ''executable = '' @ [QUOTE] @ ''hi.elf'' @ [QUOTE]"

definition demo_app :: "(nat \<Rightarrow> sector) fs" where
  "demo_app = boot_fs\<lparr>nodes := [\<lparr>node_used = True, node_type = FS_FILE, node_path = render [''system'', ''apps'', ''hi'', ''app.toml''],
       node_size = length demo_manifest, ram_content = 64\<rparr>], current_directory := render [],
     fs_heap := \<lparr>heap_bytes = (\<lambda>a. if a < 64 then 0 else of_char ((demo_manifest @ replicate 64 NUL) ! (a - 64))), heap_memory = 32, heap_head = 0, heap_initialized = False\<rparr>\<rparr>"

lemma demo_app_fields:
  "current_directory demo_app = render []" "\<not> filesystem_persistent_backend demo_app"
  "find_node demo_app (render [''system'', ''apps'', ''hi'', ''app.toml'']) = Some 0"
  "nodes demo_app ! 0 = \<lparr>node_used = True, node_type = FS_FILE, node_path = render [''system'', ''apps'', ''hi'', ''app.toml''],
     node_size = length demo_manifest, ram_content = 64\<rparr>"
  "bytes_at (fs_heap demo_app) 64 (length demo_manifest) = map of_char demo_manifest"
  by (simp_all add: demo_app_def boot_fs_def find_node_def root_streq_iff) (auto simp: bytes_at_def nth_append intro: nth_equalityI)

lemma demo_app_reads:
  "filesystem_read_file demo_app (Some ''/system/apps/hi/app.toml'') (ROOT_APP_MANIFEST_MAX + 1)
     = ((FS_RESULT_OK, map of_char demo_manifest), demo_app)"
proof -
  have r: "root_path_resolve (render []) (Some (render [''system'', ''apps'', ''hi'', ''app.toml''])) ROOT_PATH_MAX
      = Some (render [''system'', ''apps'', ''hi'', ''app.toml''])"
    by (rule root_path_resolve_idempotent) (simp_all add: wf_comp_def rootos_consts render_Cons)
  have p: "''/system/apps/hi/app.toml'' = render [''system'', ''apps'', ''hi'', ''app.toml'']" by (simp add: render_Cons)
  have len: "length demo_manifest = 35" by (simp add: demo_manifest_def)
  have b: "backend_read_file demo_app 0 2048 = (Some (map of_char demo_manifest), demo_app)"
    using demo_app_fields(5) by (simp add: backend_read_file_def ram_read_file_def demo_app_fields(2,4) len rootos_consts)
  show ?thesis unfolding p filesystem_read_file_def demo_app_fields(1) r
    by (simp add: demo_app_fields(3,4) len b rootos_consts u32_add_def)
qed

lemma demo_app_executable: "app_executable ''hi'' demo_app = (Inr ''/system/apps/hi/hi.elf'', demo_app)"
proof -
  have t: "text_of (map of_char demo_manifest) = demo_manifest" by (simp add: text_of_def comp_def)
  have m: "manifest_get_value demo_manifest ''application'' ''executable'' 256 = Some ''hi.elf''" by code_simp
  have c: "safe_app_name (Some ''hi'')" "append_text 512 APPS_ROOT ''hi'' = (''/system/apps/hi'', True)"
    "append_text 512 ''/system/apps/hi'' ''/app.toml'' = (''/system/apps/hi/app.toml'', True)"
    "append_text 512 ''/system/apps/hi/'' ''hi.elf'' = (''/system/apps/hi/hi.elf'', True)" "safe_relative_path (Some ''hi.elf'')"
    by code_simp+
  show ?thesis unfolding app_executable_def by (simp add: c demo_app_reads [simplified] t m)
qed

theorem app_executable_contained_witness:
  "\<exists>rel. render [''system'', ''apps'', ''hi'', ''hi.elf''] = render ([''system'', ''apps'', cstr ''hi''] @ rel)"
proof (rule app_executable_contained)
  show "root_path_resolve (render []) (Some (render [''system'', ''apps'', ''hi'', ''hi.elf''])) 512 = Some (render [''system'', ''apps'', ''hi'', ''hi.elf''])"
    by (rule root_path_resolve_idempotent) (simp_all add: wf_comp_def rootos_consts render_Cons)
  show "app_executable ''hi'' demo_app = (Inr (render [''system'', ''apps'', ''hi'', ''hi.elf'']), demo_app)"
    using demo_app_executable by (simp add: render_Cons)
qed simp_all

end
