(* ===== verification/Root_Package_Format.thy ===== *)
theory Root_Package_Format
  imports Root_Package Root_App_Safety
begin

text \<open>
  The package format: what a package that passes \<open>rtpgk_validate\<close> guarantees, that the checks depend on the bytes of the
  package only, and where the files of a package go.
\<close>

section \<open>The package in memory\<close>

definition same_bytes :: "mem \<Rightarrow> addr \<Rightarrow> mem \<Rightarrow> addr \<Rightarrow> nat \<Rightarrow> bool" where
  "same_bytes m a m' a' n \<longleftrightarrow> (\<forall>i<n. m (a + i) = m' (a' + i))"

lemma same_bytesD: "same_bytes m a m' a' n \<Longrightarrow> i < n \<Longrightarrow> m (a + i) = m' (a' + i)"
  by (simp add: same_bytes_def)

lemma same_ld32: "same_bytes m a m' a' n \<Longrightarrow> k + 3 < n \<Longrightarrow> ld32 m (a + k) = ld32 m' (a' + k)"
  using same_bytesD [of m a m' a' n k] same_bytesD [of m a m' a' n "k + 1"] same_bytesD [of m a m' a' n "k + 2"]
    same_bytesD [of m a m' a' n "k + 3"] by (simp add: ld32_def add.assoc)

lemma same_text:
  assumes "same_bytes m a m' a' n" "k + l \<le> n"
  shows "text_at m (a + k) l = text_at m' (a' + k) l"
  using same_bytesD [OF assms(1), of "k + i" for i] assms(2) by (auto simp: text_at_def add.assoc)

lemma same_header:
  assumes "same_bytes m a m' a' n" "RTPGK_HEADER_SIZE \<le> n"
  shows "rtpgk_header_at m a = rtpgk_header_at m' a'"
proof -
  have n: "256 \<le> n" using assms(2) by (simp add: rootos_consts)
  note ld = same_ld32 [OF assms(1)] and tx = same_text [OF assms(1)]
  have "map (\<lambda>i. m (a + i)) [0..<8] = map (\<lambda>i. m' (a' + i)) [0..<8]" using same_bytesD [OF assms(1)] n by simp
  then show ?thesis
    unfolding rtpgk_header_at_def
    using ld [of 8] ld [of 12] ld [of 16] ld [of 20] ld [of 24] ld [of 28] ld [of 32] tx [of 36 64] tx [of 100 32] tx [of 132 96] n
    by (simp add: rootos_consts)
qed

lemma same_entry:
  assumes "same_bytes m a m' a' n" "off + RTPGK_ENTRY_SIZE \<le> n"
  shows "rtpgk_entry_at m (a + off) = rtpgk_entry_at m' (a' + off)"
  unfolding rtpgk_entry_at_def
  using same_ld32 [OF assms(1), of "off + 256"] same_ld32 [OF assms(1), of "off + 260"] same_ld32 [OF assms(1), of "off + 264"]
    same_text [OF assms(1), of off RTPGK_PATH_MAX] assms(2) by (simp add: rootos_consts add.assoc)

section \<open>What a valid package guarantees\<close>

lemma header_fields:
  "length (hd_name (rtpgk_header_at m a)) = 64"
  "length (hd_version_text (rtpgk_header_at m a)) = 32" "length (hd_application_entry (rtpgk_header_at m a)) = 96"
  "length (en_path (rtpgk_entry_at m a)) = 256"
  by (simp_all add: rtpgk_header_at_def rtpgk_entry_at_def text_at_def rootos_consts)

text \<open>The entry with number \<open>i\<close> of a package at \<open>a\<close>.\<close>

definition pk_entry :: "mem \<Rightarrow> addr \<Rightarrow> nat \<Rightarrow> RtpgkEntry" where
  "pk_entry m a i = rtpgk_entry_at m (a + (hd_table_offset (rtpgk_header_at m a) + i * RTPGK_ENTRY_SIZE))"

lemma validate_facts:
  assumes "rtpgk_validate m a n"
  shows "0 < a" "RTPGK_HEADER_SIZE \<le> n" "hd_entry_count (rtpgk_header_at m a) \<le> 128" "0 < hd_entry_count (rtpgk_header_at m a)"
    "hd_table_offset (rtpgk_header_at m a) + hd_entry_count (rtpgk_header_at m a) * RTPGK_ENTRY_SIZE \<le> n"
    "rtpgk_safe_name (Some (hd_name (rtpgk_header_at m a)))" "rtpgk_safe_relative_path (Some (hd_application_entry (rtpgk_header_at m a)))"
    "NUL \<in> set (hd_name (rtpgk_header_at m a))" "NUL \<in> set (hd_version_text (rtpgk_header_at m a))"
    "NUL \<in> set (hd_application_entry (rtpgk_header_at m a))"
    "\<And>i. i < hd_entry_count (rtpgk_header_at m a) \<Longrightarrow> rtpgk_entry_valid m a n (rtpgk_header_at m a) i"
proof -
  let ?h = "rtpgk_header_at m a"
  note v = assms [unfolded rtpgk_validate_def Let_def]
  show a: "0 < a" "RTPGK_HEADER_SIZE \<le> n" "hd_entry_count ?h \<le> 128" "0 < hd_entry_count ?h"
    "rtpgk_safe_name (Some (hd_name ?h))" "rtpgk_safe_relative_path (Some (hd_application_entry ?h))"
    "NUL \<in> set (hd_name ?h)" "NUL \<in> set (hd_version_text ?h)" "NUL \<in> set (hd_application_entry ?h)"
    "\<And>i. i < hd_entry_count ?h \<Longrightarrow> rtpgk_entry_valid m a n ?h i"
    using v by (auto simp: fixed_string_terminated_def list_all_iff split: if_split_asm)
  have "range_valid (hd_table_offset ?h) (u32_mul (hd_entry_count ?h) RTPGK_ENTRY_SIZE) n" using v by (simp split: if_split_asm)
  then show "hd_table_offset ?h + hd_entry_count ?h * RTPGK_ENTRY_SIZE \<le> n"
    using a(3) unfolding range_valid_def by (auto simp: rootos_consts)
qed

lemma valid_entry:
  assumes v: "rtpgk_validate m a n" and i: "i < hd_entry_count (rtpgk_header_at m a)"
  shows "rtpgk_safe_relative_path (Some (en_path (pk_entry m a i)))" "NUL \<in> set (en_path (pk_entry m a i))"
    "en_data_offset (pk_entry m a i) + en_size (pk_entry m a i) \<le> n"
    "hd_table_offset (rtpgk_header_at m a) + i * RTPGK_ENTRY_SIZE + RTPGK_ENTRY_SIZE \<le> n"
proof -
  note f = validate_facts [OF v]
  have "i + 1 \<le> hd_entry_count (rtpgk_header_at m a)" using i by simp
  then have "i * RTPGK_ENTRY_SIZE + RTPGK_ENTRY_SIZE \<le> hd_entry_count (rtpgk_header_at m a) * RTPGK_ENTRY_SIZE"
    using mult_le_mono1 [of "i + 1" "hd_entry_count (rtpgk_header_at m a)" RTPGK_ENTRY_SIZE] by (simp add: add.commute)
  then show "hd_table_offset (rtpgk_header_at m a) + i * RTPGK_ENTRY_SIZE + RTPGK_ENTRY_SIZE \<le> n" using f(5) by linarith
  have "u32_mul i RTPGK_ENTRY_SIZE = i * RTPGK_ENTRY_SIZE" using i f(3) by (simp add: rootos_consts)
  then have e: "rtpgk_entry_at m (a + hd_table_offset (rtpgk_header_at m a) + u32_mul i RTPGK_ENTRY_SIZE) = pk_entry m a i"
    by (simp add: pk_entry_def add.assoc)
  note ev = f(11) [OF i, unfolded rtpgk_entry_valid_def Let_def e]
  then show "rtpgk_safe_relative_path (Some (en_path (pk_entry m a i)))" "NUL \<in> set (en_path (pk_entry m a i))"
    "en_data_offset (pk_entry m a i) + en_size (pk_entry m a i) \<le> n"
    by (auto simp: range_valid_def fixed_string_terminated_def)
qed

lemma valid_entry_found:
  assumes v: "rtpgk_validate m a n" and i: "i < hd_entry_count (rtpgk_header_at m a)" and n: "n < USIZE_MOD"
  shows "rtpgk_entry m a n (rtpgk_header_at m a) i = Some (pk_entry m a i, a + en_data_offset (pk_entry m a i))"
proof -
  note f = validate_facts [OF v] and e = valid_entry [OF v i]
  have m: "u32_mul i RTPGK_ENTRY_SIZE = i * RTPGK_ENTRY_SIZE" using i f(3) by (simp add: rootos_consts)
  have o: "u32_add (hd_table_offset (rtpgk_header_at m a)) (i * RTPGK_ENTRY_SIZE) = hd_table_offset (rtpgk_header_at m a) + i * RTPGK_ENTRY_SIZE"
    using e(4) n by (intro u32_add_exact) linarith
  have r: "range_valid (hd_table_offset (rtpgk_header_at m a) + i * RTPGK_ENTRY_SIZE) RTPGK_ENTRY_SIZE n"
    "range_valid (en_data_offset (pk_entry m a i)) (en_size (pk_entry m a i)) n"
    using e(3,4) by (auto simp: range_valid_def)
  show ?thesis unfolding rtpgk_entry_def m o Let_def using f(1) i r by (simp add: pk_entry_def)
qed

text \<open>The checks depend on the bytes of the package only.\<close>

lemma same_pk_entry:
  assumes sb: "same_bytes m a m' a' n" and v: "rtpgk_validate m a n" and i: "i < hd_entry_count (rtpgk_header_at m a)"
  shows "pk_entry m a i = pk_entry m' a' i"
proof -
  have h: "rtpgk_header_at m a = rtpgk_header_at m' a'" by (rule same_header [OF sb validate_facts(2) [OF v]])
  show ?thesis using same_entry [OF sb, of "hd_table_offset (rtpgk_header_at m a) + i * RTPGK_ENTRY_SIZE"] valid_entry(4) [OF v i]
    by (simp add: pk_entry_def h)
qed

lemma same_validate:
  assumes sb: "same_bytes m a m' a' n" and v: "rtpgk_validate m a n" and a: "0 < a'"
  shows "rtpgk_validate m' a' n"
proof -
  note f = validate_facts [OF v]
  let ?h = "rtpgk_header_at m a"
  have h: "rtpgk_header_at m' a' = ?h" using same_header [OF sb f(2)] by simp
  have "rtpgk_entry_valid m' a' n ?h i" if i: "i < hd_entry_count ?h" for i
  proof -
    have m: "u32_mul i RTPGK_ENTRY_SIZE = i * RTPGK_ENTRY_SIZE" using i f(3) by (simp add: rootos_consts)
    have "rtpgk_entry_at m' (a' + hd_table_offset ?h + i * RTPGK_ENTRY_SIZE) = rtpgk_entry_at m (a + hd_table_offset ?h + i * RTPGK_ENTRY_SIZE)"
      using same_entry [OF sb, of "hd_table_offset ?h + i * RTPGK_ENTRY_SIZE"] valid_entry(4) [OF v i] by (simp add: add.assoc)
    then show ?thesis using f(11) [OF i] unfolding rtpgk_entry_valid_def m by simp
  qed
  then show ?thesis using v a unfolding rtpgk_validate_def Let_def h by (auto simp: list_all_iff split: if_splits)
qed

section \<open>Where the files go\<close>

lemma rtpgk_name_chars: "rtpgk_name_loop k n \<Longrightarrow> (\<forall>c\<in>set (cstr n). app_name_char c) \<and> (cstr n = [] \<or> k + length (cstr n) < RTPGK_NAME_MAX)"
proof (induction n arbitrary: k)
  case (Cons c n)
  show ?case
  proof (cases "c = NUL")
    case False
    then have s: "app_name_char c" "k < 63" "rtpgk_name_loop (k + 1) n" using Cons.prems by (auto simp: rootos_consts split: if_split_asm)
    show ?thesis using Cons.IH [OF s(3)] s(1,2) False by (auto simp: rootos_consts)
  qed simp
qed simp

lemma rtpgk_name_facts:
  assumes "rtpgk_safe_name (Some n)"
  shows "cstr n \<noteq> []" "SLASH \<notin> set (cstr n)" "length (cstr n) < RTPGK_NAME_MAX" "\<forall>c\<in>set (cstr n). app_name_char c"
proof -
  have s: "chead n \<noteq> NUL" "rtpgk_name_loop 0 n" using assms by (simp_all add: rtpgk_safe_name_def)
  have "\<not> app_name_char SLASH" by (simp add: app_name_char_def)
  then show "SLASH \<notin> set (cstr n)" using rtpgk_name_chars [OF s(2)] by blast
  show "cstr n \<noteq> []" using s(1) by (cases n) auto
  then show "length (cstr n) < RTPGK_NAME_MAX" "\<forall>c\<in>set (cstr n). app_name_char c" using rtpgk_name_chars [OF s(2)] by auto
qed

text \<open>A component as the package format admits it; the file system also limits its length.\<close>

definition plain_comp :: "string \<Rightarrow> bool" where
  "plain_comp c \<longleftrightarrow> c \<noteq> [] \<and> SLASH \<notin> set c \<and> NUL \<notin> set c \<and> c \<noteq> ''.'' \<and> c \<noteq> ''..''"

lemma wf_comp_plain: "wf_comp c \<longleftrightarrow> plain_comp c \<and> length c < ROOT_NAME_MAX"
  by (auto simp: wf_comp_def plain_comp_def)

lemma rtpgk_path_facts:
  "rtpgk_path_loop k p \<Longrightarrow> k \<le> RTPGK_PATH_MAX \<Longrightarrow>
     (\<forall>c\<in>set (path_comps p). plain_comp c) \<and> k + length (rtail (path_comps p)) \<le> RTPGK_PATH_MAX"
proof (induction k p rule: rtpgk_path_loop.induct)
  case (1 k p)
  let ?part = "takeWhile in_component p" and ?rest = "dropWhile in_component p"
  show ?case
  proof (cases "chead p = NUL")
    case True
    then have "path_comps p = []" by (cases p) (auto intro: path_comps_stop)
    then show ?thesis using 1(3) by simp
  next
    case False
    let ?k = "k + length ?part + (if chead ?rest = SLASH then 1 else 0)" and ?next = "if chead ?rest = SLASH then tl ?rest else ?rest"
    have ok: "\<not> (?part = [] \<or> ?part = ''.'' \<or> ?part = ''..'')" "\<not> RTPGK_PATH_MAX \<le> ?k" "rtpgk_path_loop ?k ?next"
      using 1(2) False unfolding rtpgk_path_loop.simps [of k p] Let_def by (simp_all split: if_split_asm)
    have IH: "(\<forall>c\<in>set (path_comps ?next). plain_comp c) \<and> ?k + length (rtail (path_comps ?next)) \<le> RTPGK_PATH_MAX"
      using 1(1) [OF False refl refl ok(1) refl ok(2,3)] ok(2) by linarith
    have "chead p \<noteq> SLASH" using ok(1) by (cases p) auto
    then have pc: "path_comps p = ?part # path_comps ?rest" using path_comps_step [of p] False by (simp add: skip_slashes_id)
    have part: "plain_comp ?part" using ok(1) by (auto simp: plain_comp_def dest: set_takeWhileD)
    show ?thesis
    proof (cases "chead ?rest = SLASH")
      case True
      then obtain r where "?rest = SLASH # r" by (cases ?rest) (auto simp del: dropWhile_eq_Cons_conv)
      then have "path_comps ?rest = path_comps ?next" using path_comps_slash [of r] by simp
      then show ?thesis using IH part pc True by simp
    next
      case rest: False
      have "?rest = [] \<or> \<not> in_component (hd ?rest)" using hd_dropWhile [of in_component p] by blast
      then have "chead ?rest = NUL" using rest by (cases ?rest) (auto simp del: dropWhile_eq_Cons_conv dropWhile_eq_Nil_conv)
      then have "path_comps ?rest = []" by (intro path_comps_stop) (simp add: skip_slashes_id)
      then show ?thesis using ok(2) part pc rest by simp
    qed
  qed
qed

lemma safe_path_facts:
  assumes "rtpgk_safe_relative_path (Some p)"
  shows "\<forall>c\<in>set (path_comps p). plain_comp c" "length (rtail (path_comps p)) \<le> RTPGK_PATH_MAX" "path_comps p \<noteq> []"
proof -
  have s: "chead p \<noteq> NUL" "chead p \<noteq> SLASH" "rtpgk_path_loop 0 p" using assms by (simp_all add: rtpgk_safe_relative_path_def)
  show "\<forall>c\<in>set (path_comps p). plain_comp c" "length (rtail (path_comps p)) \<le> RTPGK_PATH_MAX"
    using rtpgk_path_facts [OF s(3)] by simp_all
  show "path_comps p \<noteq> []" using path_comps_step [of p] s(1,2) by (simp add: skip_slashes_id)
qed

text \<open>The directory of a package.\<close>

definition app_root :: "string \<Rightarrow> path" where
  "app_root n = (if n = ''.'' then [''system'', ''apps''] else if n = ''..'' then [''system''] else [''system'', ''apps'', n])"

lemma app_root_facts:
  assumes "rtpgk_safe_name (Some n)"
  shows "wf_path (app_root (cstr n))" "app_root (cstr n) \<noteq> []" "hd (app_root (cstr n)) = ''system''"
    "length (rtail (app_root (cstr n))) < 80"
  using rtpgk_name_facts [OF assms] by (auto simp: app_root_def wf_comp_def rootos_consts)

lemma resolve_proper:
  assumes "\<forall>c\<in>set cs. plain_comp c" "wf_path acc" "length (rtail acc) + length (rtail cs) < n" "acc \<noteq> []"
  shows "abs_resolve_loop n acc cs = (if wf_path cs then Some (acc @ cs) else None)"
  using assms
proof (induction cs arbitrary: acc)
  case (Cons c cs)
  have c: "plain_comp c" using Cons.prems(1) by simp
  show ?case
  proof (cases "length c < ROOT_NAME_MAX")
    case True
    then have w: "wf_comp c" using c by (simp add: wf_comp_plain)
    have "length (render (acc @ [c])) < n" using Cons.prems(3) by (simp add: render_rtail)
    moreover have "abs_resolve_loop n (acc @ [c]) cs = (if wf_path cs then Some ((acc @ [c]) @ cs) else None)"
      by (rule Cons.IH) (use Cons.prems w in auto)
    ultimately show ?thesis using True c w by (simp add: plain_comp_def)
  qed (simp add: wf_comp_def)
qed simp

lemma app_paths:
  assumes n: "rtpgk_safe_name (Some n)"
  shows "path_comps (APPS_ROOT @ cstr n) = [''system'', ''apps'', cstr n]"
    "path_comps (APPS_ROOT @ cstr n @ SLASH # r) = ''system'' # ''apps'' # cstr n # path_comps r"
    "abs_resolve_loop ROOT_PATH_MAX [] (''system'' # ''apps'' # cstr n # cs) = abs_resolve_loop ROOT_PATH_MAX (app_root (cstr n)) cs"
proof -
  note f = rtpgk_name_facts [OF n]
  have c: "path_comps (SLASH # cstr n @ SLASH # x) = cstr n # path_comps x" "path_comps (SLASH # cstr n) = [cstr n]" for x
    using path_comps_piece [OF f(1,2)] by simp_all
  have e: "path_comps (''apps'' @ SLASH # x) = path_comps (SLASH # ''apps'' @ SLASH # x)"
    "path_comps (cstr n @ x) = path_comps (SLASH # cstr n @ x)" "path_comps (cstr n) = path_comps (SLASH # cstr n)" for x
    by (simp_all only: path_comps_slash)
  have a: "APPS_ROOT @ x = SLASH # ''system'' @ SLASH # ''apps'' @ SLASH # x" for x by (simp add: APPS_ROOT_def)
  show "path_comps (APPS_ROOT @ cstr n) = [''system'', ''apps'', cstr n]"
    "path_comps (APPS_ROOT @ cstr n @ SLASH # r) = ''system'' # ''apps'' # cstr n # path_comps r"
    unfolding a using path_comps_piece(1) [of "''system''"] path_comps_piece(1) [of "''apps''"] c e by simp_all
  show "abs_resolve_loop ROOT_PATH_MAX [] (''system'' # ''apps'' # cstr n # cs) = abs_resolve_loop ROOT_PATH_MAX (app_root (cstr n)) cs"
    using f(3) by (simp add: app_root_def rootos_consts render_Cons)
qed

lemma root_resolves:
  assumes n: "rtpgk_safe_name (Some n)" and c: "wf_path c"
  shows "append_text 512 APPS_ROOT n = (APPS_ROOT @ cstr n, True)"
    "root_path_resolve (render c) (Some (APPS_ROOT @ cstr n)) ROOT_PATH_MAX = Some (render (app_root (cstr n)))"
    "root_path_resolve (render c) (Some (APPS_ROOT @ cstr n @ SLASH # cstr p)) ROOT_PATH_MAX
       = map_option render (abs_resolve_loop ROOT_PATH_MAX (app_root (cstr n)) (path_comps p))"
proof -
  have h: "chead (APPS_ROOT @ x) = SLASH" for x by (simp add: APPS_ROOT_def)
  have r: "root_path_resolve (render c) (Some (APPS_ROOT @ x)) ROOT_PATH_MAX
      = map_option render (abs_resolve_loop ROOT_PATH_MAX [] (path_comps (APPS_ROOT @ x)))" for x
    using root_path_resolve_abs [OF c, of "APPS_ROOT @ x" ROOT_PATH_MAX] h [of x] by (simp add: abs_resolve_def rootos_consts)
  show "root_path_resolve (render c) (Some (APPS_ROOT @ cstr n)) ROOT_PATH_MAX = Some (render (app_root (cstr n)))"
    unfolding r app_paths(1) [OF n] app_paths(3) [OF n] by simp
  show "root_path_resolve (render c) (Some (APPS_ROOT @ cstr n @ SLASH # cstr p)) ROOT_PATH_MAX
       = map_option render (abs_resolve_loop ROOT_PATH_MAX (app_root (cstr n)) (path_comps p))"
    unfolding r app_paths(2) [OF n] app_paths(3) [OF n] path_comps_cstr ..
  show "append_text 512 APPS_ROOT n = (APPS_ROOT @ cstr n, True)"
    using rtpgk_name_facts(3) [OF n] root_strlcpy_spec [of "512 - length APPS_ROOT" "[]" n]
    by (auto simp: append_text_def APPS_ROOT_def rootos_consts)
qed

lemma destination_resolves:
  assumes n: "rtpgk_safe_name (Some n)" and p: "rtpgk_safe_relative_path (Some p)" "length (cstr p) < RTPGK_PATH_MAX" and c: "wf_path c"
  shows "destination_path n p 512 = Some (APPS_ROOT @ cstr n @ SLASH # cstr p)"
    "root_path_resolve (render c) (Some (APPS_ROOT @ cstr n @ SLASH # cstr p)) ROOT_PATH_MAX
       = (if wf_path (path_comps p) then Some (render (app_root (cstr n) @ path_comps p)) else None)"
proof -
  have "abs_resolve_loop ROOT_PATH_MAX (app_root (cstr n)) (path_comps p)
      = (if wf_path (path_comps p) then Some (app_root (cstr n) @ path_comps p) else None)"
    by (rule resolve_proper) (use safe_path_facts [OF p(1)] app_root_facts [OF n] in \<open>auto simp: rootos_consts\<close>)
  then show "root_path_resolve (render c) (Some (APPS_ROOT @ cstr n @ SLASH # cstr p)) ROOT_PATH_MAX
       = (if wf_path (path_comps p) then Some (render (app_root (cstr n) @ path_comps p)) else None)"
    using root_resolves(3) [OF n c, of p] by simp
  have "APPS_ROOT = cstr APPS_ROOT" by (simp add: APPS_ROOT_def)
  then show "destination_path n p 512 = Some (APPS_ROOT @ cstr n @ SLASH # cstr p)"
    using rtpgk_name_facts(3) [OF n] p(2) by (auto simp: destination_path_def text_append_def root_strlen_cstr APPS_ROOT_def rootos_consts)
qed

end
