(* ===== verification/Root_Package_Safety.thy ===== *)
theory Root_Package_Safety
  imports Root_Package_Format Root_FS_Queries
begin

text \<open>
  Installing and removing packages with the RAM backend: a package is unpacked below its own directory, a failed
  installation leaves nothing behind there, and the blocks of others are never touched.
\<close>

section \<open>Good states with a guarded block\<close>

definition guarded :: "(addr \<times> nat) set \<Rightarrow> heap \<Rightarrow> 'd fs \<Rightarrow> bool" where
  "guarded F g st \<longleftrightarrow> ram_good st \<and> guards F g st"

lemma ramf_good: "ramf.good F g st \<longleftrightarrow> guarded F g st"
  unfolding guarded_def ram_good_iff [symmetric] ramf.good_def ramv.good_def ramf.closed_def ramv.closed_def ramf.dirv_def ramv.dirv_def ram_frame_def
  by blast

lemma ramf_dirv: "ramf.dirv = (FS_DIRECTORY, [])"
  by (simp add: ramf.dirv_def)

lemmas create_file_guarded = ramf.create_file_spec [unfolded ramf_good ramf_dirv]
lemmas create_directory_guarded = ramf.create_directory_spec [unfolded ramf_good ramf_dirv]
lemmas write_guarded = ramf.write_spec [unfolded ramf_good ramf_dirv]
lemmas remove_guarded = ramf.remove_spec [unfolded ramf_good ramf_dirv]
lemmas exists_guarded = ramf.exists_spec [unfolded ramf_good ramf_dirv]

lemma add_node_frame: "add_node_absolute st p t = (r, st') \<Longrightarrow> framed st st'"
  by (auto simp: add_node_absolute_def Let_def framed_def reset_node_def release_ram_content_def persist_node_def split: if_splits prod.splits option.splits)

lemma ensure_loop_frame: "ensure_loop st a b = (r, st') \<Longrightarrow> framed st st'"
proof (induction st a b arbitrary: r st' rule: ensure_loop.induct)
  case (1 st a b)
  show ?case
  proof (cases "chead b = NUL")
    case True
    then show ?thesis using 1(3) by (simp add: ensure_loop.simps [of st a b])
  next
    case False
    show ?thesis
    proof (cases "path_component 0 b")
      case None
      then show ?thesis using 1(3) False by (simp add: ensure_loop.simps [of st a b])
    next
      case (Some cr)
      obtain c rest where cr: "cr = (c, rest)" by (cases cr)
      show ?thesis
      proof (cases "append_component a c")
        case None
        then show ?thesis using 1(3) False Some cr by (simp add: ensure_loop.simps [of st a b])
      next
        case cur: (Some a')
        obtain ra sa where ad: "add_node_absolute st a' FS_DIRECTORY = (ra, sa)" by (meson surj_pair)
        note IH1 = 1(2) [OF False Some cr [symmetric] refl cur] and IH2 = 1(1) [OF False Some cr [symmetric] refl cur _ refl ad [symmetric]]
        show ?thesis
          using 1(3) False Some cr cur ad IH1 IH2 add_node_frame [OF ad] framed_trans [of st sa st']
          by (auto simp: ensure_loop.simps [of st a b] Let_def split: option.splits if_splits)
      qed
    qed
  qed
qed

lemma ensure_frame: "ensure_directory_absolute st p = (r, st') \<Longrightarrow> framed st st'"
  by (auto simp: ensure_directory_absolute_def dest: ensure_loop_frame split: if_splits)

lemma create_frame:
  "filesystem_create_file st p = (r, st') \<Longrightarrow> framed st st'" "filesystem_create_directory st p = (r, st') \<Longrightarrow> framed st st'"
proof -
  show "filesystem_create_file st p = (r, st') \<Longrightarrow> framed st st'"
    by (auto simp: filesystem_create_file_def dest: ensure_frame add_node_frame intro: framed_trans
        split: option.splits if_splits prod.splits)
  show "filesystem_create_directory st p = (r, st') \<Longrightarrow> framed st st'"
    by (auto simp: filesystem_create_directory_def dest: ensure_frame split: option.splits if_splits)
qed

section \<open>Growing the tree below a directory\<close>

text \<open>Apart from the places in \<open>X\<close> the tree only gets new empty directories below \<open>R\<close>.\<close>

definition grown :: "path \<Rightarrow> (path \<Rightarrow> (FsType \<times> u8 list) option) \<Rightarrow> (path \<Rightarrow> (FsType \<times> u8 list) option) \<Rightarrow> path set \<Rightarrow> bool" where
  "grown R V V' X \<longleftrightarrow> (\<forall>q. q \<notin> X \<longrightarrow> V' q = V q \<or> (V q = None \<and> V' q = Some (FS_DIRECTORY, []) \<and> prefix R q))"

lemma grownD: "grown R V V' X \<Longrightarrow> q \<notin> X \<Longrightarrow> V' q = V q \<or> (V q = None \<and> V' q = Some (FS_DIRECTORY, []) \<and> prefix R q)"
  by (simp add: grown_def)

lemma grown_refl [simp]: "grown R V V X"
  by (simp add: grown_def)

lemma grown_trans:
  assumes "grown R V V1 X" "grown R V1 V2 Y"
  shows "grown R V V2 (X \<union> Y)"
  unfolding grown_def
proof (intro allI impI)
  fix q assume "q \<notin> X \<union> Y"
  then show "V2 q = V q \<or> (V q = None \<and> V2 q = Some (FS_DIRECTORY, []) \<and> prefix R q)"
    using grownD [OF assms(1), of q] grownD [OF assms(2), of q] by auto
qed

lemma grown_kept: "grown R V V' X \<Longrightarrow> q \<notin> X \<Longrightarrow> V q \<noteq> None \<Longrightarrow> V' q = V q"
  using grownD by metis

lemma grown_upd: "grown R V V' {p} \<Longrightarrow> grown R V (V'(p \<mapsto> x)) {p}"
  by (auto simp: grown_def)

lemma grows_grown:
  assumes gr: "ramf.grows V V' p" and cl: "ramf.closed V" and R: "V R \<noteq> None" and p: "prefix p (R @ cs)"
  shows "grown R V V' {}"
  unfolding grown_def
proof (intro allI impI)
  fix q
  show "V' q = V q \<or> (V q = None \<and> V' q = Some (FS_DIRECTORY, []) \<and> prefix R q)"
  proof (cases "V' q = V q")
    case False
    then have q: "V q = None" "V' q = Some (FS_DIRECTORY, [])" "prefix q p" using gr by (auto simp: ramf.grows_def ramf_dirv)
    have "prefix q (R @ cs)" using q(3) p by (rule prefix_order.trans)
    then have "prefix q R \<or> prefix R q" by (auto simp: prefix_append)
    moreover have "prefix q R \<Longrightarrow> prefix R q"
    proof (erule prefixE)
      fix z assume z: "R = q @ z"
      show "prefix R q" using ramf.closed_absent [OF cl q(1), of z] R z by simp
    qed
    ultimately show ?thesis using q by blast
  qed simp
qed

section \<open>Unpacking one file\<close>

lemma guarded_cwd:
  assumes "guarded F g st"
  obtains c where "wf_path c" "current_directory st = render c" "ram_objects st c = Some (FS_DIRECTORY, [])"
  using assms unfolding ramf_good [symmetric] ramf.good_def ramf_dirv by blast

lemma guarded_closed: "guarded F g st \<Longrightarrow> ramf.closed (ram_objects st)"
  by (simp add: ramf_good [symmetric] ramf.good_def)

lemma put_file:
  assumes gd: "guarded F g st" and R: "ram_objects st R = Some (FS_DIRECTORY, [])" and w: "wf_path (R @ cs)" "cs \<noteq> []"
    and len: "length (render (R @ cs)) < ROOT_PATH_MAX" and n: "length bs \<le> FS_MAX_FILE_SIZE" and d: "chead d \<noteq> NUL"
    and rs: "\<And>c. wf_path c \<Longrightarrow> root_path_resolve (render c) (Some d) ROOT_PATH_MAX = Some (render (R @ cs))"
    and cr: "filesystem_create_file st (Some d) = (r, st1)"
  shows "guarded F g st1" "framed st st1" "grown R (ram_objects st) (ram_objects st1) {R @ cs}"
    "\<exists>r2 st2. filesystem_write_file st1 (Some d) (Some bs) (length bs) = Some (r2, st2) \<and> guarded F g st2 \<and> framed st st2
       \<and> grown R (ram_objects st) (ram_objects st2) {R @ cs} \<and> (r2 = FS_RESULT_OK \<longrightarrow> ram_objects st2 (R @ cs) = Some (FS_FILE, bs))"
proof -
  have rsc: "root_path_resolve (current_directory s) (Some d) ROOT_PATH_MAX = Some (render (R @ cs))" if "guarded F g s" for s
    using guarded_cwd [OF that] rs by metis
  note sp = create_file_guarded [OF gd cr d rsc [OF gd] w(1) len]
  show g1: "guarded F g st1" using sp by blast
  show fr: "framed st st1" by (rule create_frame(1) [OF cr])
  have pre: "prefix (butlast (R @ cs)) (R @ cs)" by (rule prefixI [of _ _ "[last (R @ cs)]"]) (use w(2) in \<open>simp add: butlast_append\<close>)
  note gg = grows_grown [OF _ guarded_closed [OF gd] _ pre]
  show gr: "grown R (ram_objects st) (ram_objects st1) {R @ cs}"
  proof -
    consider "st1 = st" | V where "ramf.grows (ram_objects st) V (butlast (R @ cs))" "ram_objects st1 = V(R @ cs \<mapsto> (FS_FILE, []))"
      | "ramf.grows (ram_objects st) (ram_objects st1) (butlast (R @ cs))"
      using sp by (auto split: if_splits)
    then show ?thesis
    proof cases
      case 2
      show ?thesis using grown_upd [of R "ram_objects st" V] gg [OF 2(1)] R 2(2) by (auto simp: grown_def)
    next
      case 3
      show ?thesis using gg [OF 3] R by (auto simp: grown_def)
    qed simp
  qed
  from write_guarded [OF g1 rsc [OF g1] w(1) n] obtain r2 st2 where wr:
    "filesystem_write_file st1 (Some d) (Some bs) (length bs) = Some (r2, st2)" "guarded F g st2" "framed st1 st2"
    and o: "st2 = st1 \<and> r2 \<noteq> FS_RESULT_OK \<or> ram_objects st2 = (ram_objects st1)(R @ cs \<mapsto> (FS_FILE, bs))
      \<or> ram_objects st2 = ram_objects st1 \<and> r2 \<noteq> FS_RESULT_OK"
    by (auto split: if_splits)
  have "grown R (ram_objects st) (ram_objects st2) {R @ cs}" using o gr grown_upd [OF gr] by auto
  then show "\<exists>r2 st2. filesystem_write_file st1 (Some d) (Some bs) (length bs) = Some (r2, st2) \<and> guarded F g st2 \<and> framed st st2
       \<and> grown R (ram_objects st) (ram_objects st2) {R @ cs} \<and> (r2 = FS_RESULT_OK \<longrightarrow> ram_objects st2 (R @ cs) = Some (FS_FILE, bs))"
    using wr framed_trans [OF fr wr(3)] o by auto
qed

section \<open>Unpacking all files\<close>

text \<open>The place of an entry below the directory of the package, and its contents.\<close>

definition pk_place :: "mem \<Rightarrow> addr \<Rightarrow> nat \<Rightarrow> path" where
  "pk_place m a i = app_root (cstr (hd_name (rtpgk_header_at m a))) @ path_comps (en_path (pk_entry m a i))"

definition pk_bytes :: "mem \<Rightarrow> addr \<Rightarrow> nat \<Rightarrow> u8 list" where
  "pk_bytes m a i = map (\<lambda>k. m (a + (en_data_offset (pk_entry m a i) + k))) [0..<en_size (pk_entry m a i)]"

lemma guarded_bytes:
  assumes "guarded F g st" "(data, t) \<in> F" "n \<le> t"
  shows "same_bytes (heap_bytes g) data (heap_bytes (fs_heap st)) data n"
proof -
  have k: "kept g (fs_heap st) F" using assms(1) by (auto simp: guarded_def guards_def)
  show ?thesis unfolding same_bytes_def using keptD [OF k assms(2)] assms(3) by simp
qed

lemma cstr_short: "NUL \<in> set s \<Longrightarrow> length (cstr s) < length s"
  by (induction s) auto

lemma valid_place:
  assumes v: "rtpgk_validate m a n" and i: "i < hd_entry_count (rtpgk_header_at m a)" and c: "wf_path c"
  defines "name \<equiv> hd_name (rtpgk_header_at m a)" and "rel \<equiv> en_path (pk_entry m a i)"
  defines "d \<equiv> APPS_ROOT @ cstr name @ SLASH # cstr rel"
  shows "destination_path name rel 512 = Some d" "chead d \<noteq> NUL" "path_comps rel \<noteq> []" "length (render (pk_place m a i)) < ROOT_PATH_MAX"
    "root_path_resolve (render c) (Some d) ROOT_PATH_MAX = (if wf_path (path_comps rel) then Some (render (pk_place m a i)) else None)"
    "wf_path (app_root (cstr name))"
proof -
  have n: "rtpgk_safe_name (Some name)" using validate_facts(6) [OF v] by (simp add: name_def)
  have r: "rtpgk_safe_relative_path (Some rel)" "length (cstr rel) < RTPGK_PATH_MAX"
    using valid_entry(1,2) [OF v i] cstr_short [of rel] header_fields(4) by (auto simp: rel_def pk_entry_def rootos_consts)
  note ds = destination_resolves [OF n r c] and rf = app_root_facts [OF n] and sf = safe_path_facts [OF r(1)]
  show "destination_path name rel 512 = Some d" using ds(1) by (simp add: d_def)
  show "root_path_resolve (render c) (Some d) ROOT_PATH_MAX = (if wf_path (path_comps rel) then Some (render (pk_place m a i)) else None)"
    using ds(2) by (simp add: d_def pk_place_def name_def rel_def)
  show "chead d \<noteq> NUL" by (simp add: d_def APPS_ROOT_def)
  show "path_comps rel \<noteq> []" by (rule sf(3))
  show "wf_path (app_root (cstr name))" by (rule rf(1))
  have "length (rtail (app_root (cstr name))) + length (rtail (path_comps rel)) < ROOT_PATH_MAX" using rf(4) sf(2) by (simp add: rootos_consts)
  then show "length (render (pk_place m a i)) < ROOT_PATH_MAX"
    using rf(2) by (simp add: pk_place_def name_def rel_def render_rtail)
qed

lemma install_step:
  assumes v: "rtpgk_validate (heap_bytes g) data n" and F: "(data, t) \<in> F" "n \<le> t" and n: "n \<le> FS_MAX_FILE_SIZE"
    and i: "i < hd_entry_count (rtpgk_header_at (heap_bytes g) data)"
    and gd: "guarded F g st" and R: "ram_objects st (app_root (cstr (hd_name (rtpgk_header_at (heap_bytes g) data)))) = Some (FS_DIRECTORY, [])"
  defines "R \<equiv> app_root (cstr (hd_name (rtpgk_header_at (heap_bytes g) data)))"
  defines "m \<equiv> heap_bytes g"
  shows "(\<exists>e st'. install_loop data n (i # is) hm he st = Some (Inl e, st') \<and> e \<noteq> ROOT_PACKAGE_OK \<and> guarded F g st' \<and> framed st st'
       \<and> grown R (ram_objects st) (ram_objects st') {pk_place m data i})
   \<or> (\<exists>st'. install_loop data n (i # is) hm he st = install_loop data n is (hm \<or> root_streq (en_path (pk_entry m data i)) ''app.toml'')
         (he \<or> root_streq (en_path (pk_entry m data i)) (hd_application_entry (rtpgk_header_at m data))) st'
       \<and> guarded F g st' \<and> framed st st' \<and> grown R (ram_objects st) (ram_objects st') {pk_place m data i}
       \<and> ram_objects st' (pk_place m data i) = Some (FS_FILE, pk_bytes m data i))"
proof -
  let ?h = "rtpgk_header_at m data" and ?e = "pk_entry m data i"
  note v' = v [folded m_def] and i' = i [folded m_def]
  have same: "same_bytes m data (heap_bytes (fs_heap s)) data n" if "guarded F g s" for s
    using guarded_bytes [OF that F] by (simp add: m_def)
  have "0 < data" using validate_facts(1) [OF v'] .
  have hd: "rtpgk_header_at (heap_bytes (fs_heap st)) data = ?h" using same_header [OF same [OF gd] validate_facts(2) [OF v']] by simp
  have vs: "rtpgk_validate (heap_bytes (fs_heap st)) data n" by (rule same_validate [OF same [OF gd] v' \<open>0 < data\<close>])
  have en: "rtpgk_entry (heap_bytes (fs_heap st)) data n ?h i = Some (?e, data + en_data_offset ?e)"
    using valid_entry_found [OF vs, of i] hd i' same_pk_entry [OF same [OF gd] v' i'] n by (simp add: rootos_consts)
  obtain c where c: "wf_path c" "current_directory st = render c" using gd by (rule guarded_cwd)
  note vp = valid_place [OF v' i']
  define d where "d = APPS_ROOT @ cstr (hd_name ?h) @ SLASH # cstr (en_path ?e)"
  have dp: "destination_path (hd_name ?h) (en_path ?e) 512 = Some d" using vp(1) [OF c(1)] by (simp add: d_def)
  obtain r st1 where cr: "filesystem_create_file st (Some d) = (r, st1)" by (meson surj_pair)
  show ?thesis
  proof (cases "wf_path (path_comps (en_path ?e))")
    case False
    then have "r = FS_RESULT_INVALID_PATH" "st1 = st"
      using cr vp(2,5) [OF c(1)] c(2) by (simp_all add: filesystem_create_file_def d_def)
    then show ?thesis using hd en dp cr gd by (simp add: Let_def)
  next
    case True
    have pl: "pk_place m data i = R @ path_comps (en_path ?e)" by (simp add: pk_place_def R_def m_def)
    have w: "wf_path (R @ path_comps (en_path ?e))" using True vp(6) [OF c(1)] by (simp add: R_def m_def)
    have len: "en_size ?e \<le> FS_MAX_FILE_SIZE" using valid_entry(3) [OF v' i'] n by linarith
    have rs: "root_path_resolve (render c') (Some d) ROOT_PATH_MAX = Some (render (R @ path_comps (en_path ?e)))" if "wf_path c'" for c'
      using vp(5) [OF that] True by (simp add: d_def pl)
    have dn: "chead d \<noteq> NUL" using vp(2) [OF c(1)] by (simp add: d_def)
    note pf = put_file [OF gd R [folded R_def] w vp(3) [OF c(1)] vp(4) [OF c(1), unfolded pl] _ dn rs cr]
    have b: "bytes_at (fs_heap st1) (data + en_data_offset ?e) (en_size ?e) = pk_bytes m data i"
      using same_bytesD [OF same [OF pf(1) [of "[]"]]] valid_entry(3) [OF v' i'] by (auto simp: bytes_at_def pk_bytes_def add.assoc)
    have lb: "length (pk_bytes m data i) = en_size ?e" by (simp add: pk_bytes_def)
    from pf(4) [of "pk_bytes m data i"] lb len obtain r2 st2 where wr:
      "filesystem_write_file st1 (Some d) (Some (pk_bytes m data i)) (en_size ?e) = Some (r2, st2)" "guarded F g st2" "framed st st2"
      "grown R (ram_objects st) (ram_objects st2) {pk_place m data i}"
      "r2 = FS_RESULT_OK \<Longrightarrow> ram_objects st2 (pk_place m data i) = Some (FS_FILE, pk_bytes m data i)" unfolding pl by auto
    show ?thesis
      using hd en dp cr b wr pf(1-3) [of "[]"] pl by (cases "r \<noteq> FS_RESULT_OK \<and> r \<noteq> FS_RESULT_ALREADY_EXISTS"; cases "r2 = FS_RESULT_OK") (auto simp: Let_def)
  qed
qed

text \<open>Every entry is unpacked, a later one with the same path over an earlier one.\<close>

definition unpacked :: "mem \<Rightarrow> addr \<Rightarrow> nat list \<Rightarrow> (path \<Rightarrow> (FsType \<times> u8 list) option) \<Rightarrow> bool" where
  "unpacked m a is V \<longleftrightarrow> (\<forall>front i rest. is = front @ i # rest \<longrightarrow> pk_place m a i \<notin> pk_place m a ` set rest \<longrightarrow>
     V (pk_place m a i) = Some (FS_FILE, pk_bytes m a i))"

lemma unpacked_Cons:
  assumes "pk_place m a i \<notin> pk_place m a ` set is \<Longrightarrow> V (pk_place m a i) = Some (FS_FILE, pk_bytes m a i)" "unpacked m a is V"
  shows "unpacked m a (i # is) V"
  using assms by (auto simp: unpacked_def Cons_eq_append_conv)

lemma install_loop_spec:
  assumes v: "rtpgk_validate (heap_bytes g) data n" and F: "(data, t) \<in> F" "n \<le> t" and n: "n \<le> FS_MAX_FILE_SIZE"
  defines "R \<equiv> app_root (cstr (hd_name (rtpgk_header_at (heap_bytes g) data)))"
  defines "m \<equiv> heap_bytes g"
  assumes "set is \<subseteq> {..<hd_entry_count (rtpgk_header_at m data)}" "guarded F g st" "ram_objects st R = Some (FS_DIRECTORY, [])"
  shows "\<exists>res st'. install_loop data n is hm he st = Some (res, st') \<and> guarded F g st' \<and> framed st st'
     \<and> grown R (ram_objects st) (ram_objects st') (pk_place m data ` set is)
     \<and> (case res of Inl e \<Rightarrow> e \<noteq> ROOT_PACKAGE_OK
        | Inr (hm', he') \<Rightarrow> unpacked m data is (ram_objects st')
            \<and> (hm' \<longleftrightarrow> hm \<or> (\<exists>i\<in>set is. root_streq (en_path (pk_entry m data i)) ''app.toml''))
            \<and> (he' \<longleftrightarrow> he \<or> (\<exists>i\<in>set is. root_streq (en_path (pk_entry m data i)) (hd_application_entry (rtpgk_header_at m data)))))"
  using assms(7-9)
proof (induction "is" arbitrary: hm he st)
  case Nil
  then show ?case by (simp add: unpacked_def)
next
  case (Cons i "is")
  let ?V = "ram_objects st"
  have i: "i < hd_entry_count (rtpgk_header_at (heap_bytes g) data)" using Cons.prems(1) by (simp add: m_def)
  note st = install_step [OF v F n i Cons.prems(2) Cons.prems(3) [unfolded R_def], of "is" hm he, folded R_def m_def]
  show ?case
  proof (rule disjE [OF st])
    assume "\<exists>e st'. install_loop data n (i # is) hm he st = Some (Inl e, st') \<and> e \<noteq> ROOT_PACKAGE_OK \<and> guarded F g st' \<and> framed st st'
       \<and> grown R ?V (ram_objects st') {pk_place m data i}"
    then show ?thesis by (fastforce simp: grown_def)
  next
    let ?hm = "hm \<or> root_streq (en_path (pk_entry m data i)) ''app.toml''"
    let ?he = "he \<or> root_streq (en_path (pk_entry m data i)) (hd_application_entry (rtpgk_header_at m data))"
    assume "\<exists>st'. install_loop data n (i # is) hm he st = install_loop data n is ?hm ?he st' \<and> guarded F g st' \<and> framed st st'
       \<and> grown R ?V (ram_objects st') {pk_place m data i} \<and> ram_objects st' (pk_place m data i) = Some (FS_FILE, pk_bytes m data i)"
    then obtain st1 where l: "install_loop data n (i # is) hm he st = install_loop data n is ?hm ?he st1" "guarded F g st1" "framed st st1"
      and gr: "grown R ?V (ram_objects st1) {pk_place m data i}" and at: "ram_objects st1 (pk_place m data i) = Some (FS_FILE, pk_bytes m data i)"
      by blast
    have "R \<noteq> pk_place m data i"
      using valid_place(3) [OF v i wf_path_simps(1)] by (simp add: pk_place_def R_def m_def)
    then have "ram_objects st1 R = Some (FS_DIRECTORY, [])" using grown_kept [OF gr, of R] Cons.prems(3) by simp
    from Cons.IH [OF _ l(2) this, of ?hm ?he] Cons.prems(1) obtain res st' where rec:
      "install_loop data n is ?hm ?he st1 = Some (res, st')" "guarded F g st'" "framed st1 st'"
      "grown R (ram_objects st1) (ram_objects st') (pk_place m data ` set is)"
      and res: "case res of Inl e \<Rightarrow> e \<noteq> ROOT_PACKAGE_OK
        | Inr (hm', he') \<Rightarrow> unpacked m data is (ram_objects st')
            \<and> (hm' \<longleftrightarrow> ?hm \<or> (\<exists>i\<in>set is. root_streq (en_path (pk_entry m data i)) ''app.toml''))
            \<and> (he' \<longleftrightarrow> ?he \<or> (\<exists>i\<in>set is. root_streq (en_path (pk_entry m data i)) (hd_application_entry (rtpgk_header_at m data))))"
      by auto
    have "unpacked m data (i # is) (ram_objects st')" if "unpacked m data is (ram_objects st')"
      by (rule unpacked_Cons [OF _ that]) (use grown_kept [OF rec(4)] at in auto)
    moreover have "grown R ?V (ram_objects st') (pk_place m data ` set (i # is))"
      using grown_trans [OF gr rec(4)] by simp
    ultimately show ?thesis using l rec res framed_trans [OF l(3) rec(3)] by (auto split: sum.splits)
  qed
qed

section \<open>Giving up and releasing\<close>

lemma free_guarded:
  assumes gd: "guarded (insert (data, t) K) g st" and new: "(data, t) \<notin> K"
  shows "guarded K g (free_package data st)" "ram_objects (free_package data st) = ram_objects st"
proof -
  obtain L where L: "owned (fs_heap st) L (nodes st)" "insert (data, t) K \<subseteq> L"
      "\<forall>i<FS_MAX_NODES. \<forall>u. (ram_content (nodes st ! i), u) \<notin> insert (data, t) K" "kept g (fs_heap st) (insert (data, t) K)"
    using gd by (auto simp: guarded_def guards_def)
  have good: "ram_good st" and inv: "ram_inv st" using gd by (auto simp: guarded_def ram_good_def)
  have ok: "heap_ok (fs_heap st) L" using L(1) by (simp add: owned_def)
  let ?h = "root_free (fs_heap st) data" and ?L = "L - {(data, t)}"
  note fr = free_ok [OF ok, of data t]
  have d: "(data, t) \<in> L" using L(2) by simp
  have other: "(ram_content (nodes st ! i), u) \<in> ?L" if "i < FS_MAX_NODES" "(ram_content (nodes st ! i), u) \<in> L" for i u
    using that L(3) by auto
  have "block_ok ?L (nodes st ! i)" if "i < FS_MAX_NODES" for i
    using L(1) that other [OF that] unfolding owned_def block_ok_def by meson
  then have ow: "owned ?h ?L (nodes st)" using L(1) fr(1) [OF d] by (simp add: owned_def)
  have "kept (fs_heap st) ?h K" by (rule kept_mono [OF fr(3) [OF d]]) (use L(2) new in auto)
  then have kp: "kept g ?h K" using kept_trans [OF kept_mono [OF L(4)]] by blast
  have guards: "guards K g (free_package data st)"
    using ow L(2,3) new kp by (auto simp: guards_def free_package_def)
  have ct: "content ?h (nodes st ! i) = content (fs_heap st) (nodes st ! i)" if "i < FS_MAX_NODES" "node_used (nodes st ! i)" for i
    by (rule content_kept [OF fr(3) [OF d] _ that(2), of L]) (use L(1) that other in \<open>auto simp: owned_def\<close>)
  have t: "table_ok (nodes st)" using inv by (simp add: ram_inv_def)
  show ob: "ram_objects (free_package data st) = ram_objects st"
    unfolding ram_objects_def free_package_def
    by (rule ext, simp, rule view_cong_at [OF t]) (use ct in \<open>auto simp: named_def\<close>)
  have "ram_inv (free_package data st)" using inv ow by (auto simp: ram_inv_def free_package_def)
  then have "ram_good (free_package data st)"
    using good ob by (simp add: ram_good_def cwd_ok_def) (simp add: free_package_def)
  then show "guarded K g (free_package data st)" using guards by (simp add: guarded_def)
qed

lemma undo_spec:
  assumes gd: "guarded (insert (data, t) K) g st" and new: "(data, t) \<notin> K"
    and rs: "\<And>c. wf_path c \<Longrightarrow> root_path_resolve (render c) (Some d) ROOT_PATH_MAX = Some (render R)"
    and R: "wf_path R" "R \<noteq> []" "ram_objects st R \<noteq> None" and c: "current_directory st = render c" "wf_path c" "\<not> prefix R c"
  shows "guarded K g (undo_install d data st)" "ram_objects (undo_install d data st) = (\<lambda>q. if prefix R q then None else ram_objects st q)"
proof -
  obtain r st1 where rm: "filesystem_remove st (Some d) True = (r, st1)" by (meson surj_pair)
  have np: "\<not> filesystem_persistent_backend st" using gd by (auto simp: guarded_def ram_good_def ram_inv_def)
  have sp: "guarded (insert (data, t) K) g st1" "ram_objects st1 = (\<lambda>q. if prefix R q then None else ram_objects st q)"
    using remove_guarded [OF gd rm rs [OF c(2), folded c(1)] R(1) c(1,2)] R c np by auto
  show "guarded K g (undo_install d data st)" "ram_objects (undo_install d data st) = (\<lambda>q. if prefix R q then None else ram_objects st q)"
    using free_guarded [OF sp(1) new] sp(2) rm by (simp_all add: undo_install_def)
qed

section \<open>The database file\<close>

definition db_path :: path where
  "db_path = [''packages'', ''installed.db'']"

lemma db_path_facts:
  "wf_path db_path" "length (render db_path) < ROOT_PATH_MAX" "chead PACKAGE_DB_PATH \<noteq> NUL" "butlast db_path = [''packages'']"
  "wf_path c \<Longrightarrow> root_path_resolve (render c) (Some PACKAGE_DB_PATH) ROOT_PATH_MAX = Some (render db_path)"
proof -
  show f: "wf_path db_path" "length (render db_path) < ROOT_PATH_MAX" "chead PACKAGE_DB_PATH \<noteq> NUL" "butlast db_path = [''packages'']"
    by (simp_all add: db_path_def wf_comp_def render_Cons PACKAGE_DB_PATH_def rootos_consts)
  have "PACKAGE_DB_PATH = render db_path" by (simp add: PACKAGE_DB_PATH_def db_path_def render_Cons)
  then show "wf_path c \<Longrightarrow> root_path_resolve (render c) (Some PACKAGE_DB_PATH) ROOT_PATH_MAX = Some (render db_path)"
    using root_path_resolve_idempotent [OF _ f(1,2), of c] by (simp add: rootos_consts)
qed

lemma text_append_length: "text_append cap out txt = Some out' \<Longrightarrow> length out' < cap"
  by (auto simp: text_append_def root_strlen_cstr split: if_splits)

lemma save_loop_length: "save_loop cap out infos = Some txt \<Longrightarrow> length out < cap \<Longrightarrow> length txt < cap"
proof (induction infos arbitrary: out)
  case (Cons i infos)
  then obtain out' where "save_loop cap out' infos = Some txt" "length out' < cap"
    by (auto simp: bind_eq_Some_conv dest: text_append_length)
  then show ?case by (rule Cons.IH)
qed simp

text \<open>What a save may change: the database file and its directory.\<close>

definition db_only :: "(path \<Rightarrow> (FsType \<times> u8 list) option) \<Rightarrow> (path \<Rightarrow> (FsType \<times> u8 list) option) \<Rightarrow> bool" where
  "db_only V V' \<longleftrightarrow> (\<forall>q. q \<noteq> db_path \<longrightarrow> V' q = V q \<or> (V q = None \<and> V' q = Some (FS_DIRECTORY, []) \<and> q = [''packages'']))"

lemma save_spec:
  assumes gd: "guarded F g (pk_fs s)"
  shows "\<exists>ok s'. package_database_save s = Some (ok, s') \<and> installed s' = installed s \<and> guarded F g (pk_fs s') \<and> framed (pk_fs s) (pk_fs s')
     \<and> db_only (ram_objects (pk_fs s)) (ram_objects (pk_fs s'))
     \<and> (ok \<longrightarrow> (\<exists>txt. save_loop (PACKAGE_DB_MAX + 1) [] (installed s) = Some txt \<and> ram_objects (pk_fs s') db_path = Some (FS_FILE, map of_char txt)))
     \<and> (\<not> ok \<longrightarrow> ram_objects (pk_fs s') db_path = ram_objects (pk_fs s) db_path
          \<or> (ram_objects (pk_fs s) db_path = None \<and> ram_objects (pk_fs s') db_path = Some (FS_FILE, [])))"
proof (cases "save_loop (PACKAGE_DB_MAX + 1) [] (installed s)")
  case None
  then show ?thesis using gd by (intro exI [of _ False] exI [of _ s]) (simp add: package_database_save_def db_only_def)
next
  case (Some out)
  let ?st = "pk_fs s"
  have rsc: "root_path_resolve (current_directory st) (Some PACKAGE_DB_PATH) ROOT_PATH_MAX = Some (render db_path)" if "guarded F g st" for st :: "'a fs"
    using guarded_cwd [OF that] db_path_facts(5) by metis
  note df = db_path_facts
  have ex: "filesystem_exists ?st (Some PACKAGE_DB_PATH) \<longleftrightarrow> ram_objects ?st db_path \<noteq> None"
    by (rule exists_guarded(1) [OF gd rsc [OF gd] df(1)])
  obtain r st1 where r: "(r, st1) = (if filesystem_exists ?st (Some PACKAGE_DB_PATH) then (FS_RESULT_OK, ?st)
      else filesystem_create_file ?st (Some PACKAGE_DB_PATH))" by (metis surj_pair)
  have cr: "guarded F g st1 \<and> framed ?st st1 \<and> db_only (ram_objects ?st) (ram_objects st1)
     \<and> (ram_objects st1 db_path = ram_objects ?st db_path \<or> ram_objects ?st db_path = None \<and> ram_objects st1 db_path = Some (FS_FILE, []))"
  proof (cases "ram_objects ?st db_path = None")
    case True
    then have c: "filesystem_create_file ?st (Some PACKAGE_DB_PATH) = (r, st1)" using r ex by simp
    note sp = create_file_guarded [OF gd c df(3) rsc [OF gd] df(1,2)]
    have pre: "prefix q [''packages''] \<Longrightarrow> q \<noteq> [] \<Longrightarrow> q = [''packages'']" for q :: path by (cases q) auto
    have db: "db_path \<noteq> []" by (simp add: db_path_def)
    consider V where "ramf.grows (ram_objects ?st) V [''packages'']" "ram_objects st1 = V(db_path \<mapsto> (FS_FILE, []))"
      | "ramf.grows (ram_objects ?st) (ram_objects st1) [''packages'']"
      using sp True db by (auto simp: df(4) split: if_splits)
    then have "db_only (ram_objects ?st) (ram_objects st1)
        \<and> (ram_objects st1 db_path = ram_objects ?st db_path \<or> ram_objects st1 db_path = Some (FS_FILE, []))"
    proof cases
      case 1
      then show ?thesis using pre by (auto simp: db_only_def ramf.grows_def ramf_dirv)
    next
      case 2
      moreover have "db_path \<noteq> [''packages'']" "\<not> prefix db_path [''packages'']" by (auto simp: db_path_def)
      ultimately show ?thesis using pre unfolding db_only_def ramf.grows_def ramf_dirv by metis
    qed
    then show ?thesis using sp True create_frame(1) [OF c] by auto
  next
    case False
    then show ?thesis using r ex gd by (simp add: db_only_def)
  qed
  show ?thesis
  proof (cases "r = FS_RESULT_OK")
    case False
    have "package_database_save s = Some (False, s\<lparr>pk_fs := st1\<rparr>)"
      using Some False by (simp add: package_database_save_def r [symmetric])
    then show ?thesis using cr by auto
  next
    case True
    have len: "length (map of_char out :: u8 list) \<le> FS_MAX_FILE_SIZE"
      using save_loop_length [OF Some] by (simp add: rootos_consts)
    have g1: "guarded F g st1" using cr by blast
    from write_guarded [OF g1 rsc [OF g1] df(1) len] obtain r2 st2 where wr:
      "filesystem_write_file st1 (Some PACKAGE_DB_PATH) (Some (map of_char out)) (length out) = Some (r2, st2)" "guarded F g st2" "framed st1 st2"
      and o: "ram_objects st2 = ram_objects st1 \<and> r2 \<noteq> FS_RESULT_OK
        \<or> r2 = FS_RESULT_OK \<and> ram_objects st2 = (ram_objects st1)(db_path \<mapsto> (FS_FILE, map of_char out))"
      by (auto split: if_splits)
    have "package_database_save s = Some (r2 = FS_RESULT_OK, s\<lparr>pk_fs := st2\<rparr>)"
      using Some True wr(1) by (simp add: package_database_save_def r [symmetric])
    moreover have "db_only (ram_objects ?st) (ram_objects st2)" using o cr by (auto simp: db_only_def)
    ultimately show ?thesis using o wr cr Some framed_trans [of ?st st1 st2]
      by (intro exI [of _ "r2 = FS_RESULT_OK"] exI [of _ "s\<lparr>pk_fs := st2\<rparr>"]) auto
  qed
qed

section \<open>Installing\<close>

text \<open>
  What an installation may have changed when it ends with \<open>r\<close>: the tree of files and the table of packages. \<open>M\<close> and \<open>A\<close>
  are any memory that holds the package.
\<close>

definition install_outcome :: "mem \<Rightarrow> addr \<Rightarrow> 'd pkgs \<Rightarrow> RootPackageResult \<times> 'd pkgs \<Rightarrow> bool" where
  "install_outcome M A s = (\<lambda>(r, s').
     let V = ram_objects (pk_fs s); V' = ram_objects (pk_fs s'); header = rtpgk_header_at M A; R = app_root (cstr (hd_name header)) in
     if r = ROOT_PACKAGE_OK then
       V R = None \<and> unpacked M A [0..<hd_entry_count header] V' \<and> V' (R @ [''app.toml'']) \<noteq> None
       \<and> installed s' = installed s @ [package_record header]
       \<and> (\<exists>txt. save_loop (PACKAGE_DB_MAX + 1) [] (installed s') = Some txt \<and> V' db_path = Some (FS_FILE, map of_char txt))
       \<and> (\<forall>q. \<not> prefix R q \<longrightarrow> q \<noteq> db_path \<longrightarrow> V' q = V q \<or> (V q = None \<and> V' q = Some (FS_DIRECTORY, []) \<and> (prefix q R \<or> q = [''packages''])))
     else installed s' = installed s
       \<and> (\<forall>q. q \<noteq> db_path \<longrightarrow> V' q = V q \<or> (V q = None \<and> V' q = Some (FS_DIRECTORY, []) \<and> (prefix q R \<or> q = [''packages''])))
       \<and> (V' db_path = V db_path \<or> (V db_path = None \<and> V' db_path = Some (FS_FILE, []))))"

lemma install_refused:
  assumes "r \<noteq> ROOT_PACKAGE_OK" "ram_objects (pk_fs s') = ram_objects (pk_fs s)" "installed s' = installed s"
  shows "install_outcome M A s (r, s')"
  using assms by (simp add: install_outcome_def Let_def)

lemma toml_comp: "path_comps ''app.toml'' = [''app.toml'']"
proof -
  have "path_comps (SLASH # ''app.toml'') = [''app.toml'']" by (rule path_comps_piece(2)) simp_all
  then show ?thesis using path_comps_slash [of "''app.toml''"] by simp
qed

lemma unpacked_place:
  assumes "unpacked m a is V" "i \<in> set is"
  shows "V (pk_place m a i) \<noteq> None"
proof -
  let ?P = "\<lambda>j. pk_place m a j = pk_place m a i"
  have "\<exists>x\<in>set is. ?P x" using assms(2) by blast
  from split_list_last_prop [OF this] obtain front j rest where
    s: "is = front @ j # rest" "?P j" "\<forall>z\<in>set rest. \<not> ?P z" by blast
  then have "pk_place m a j \<notin> pk_place m a ` set rest" by auto
  then have "V (pk_place m a j) = Some (FS_FILE, pk_bytes m a j)" using assms(1) s(1) unfolding unpacked_def by blast
  then show ?thesis using s(2) by simp
qed

lemma system_not_db: "hd R = ''system'' \<Longrightarrow> R \<noteq> [] \<Longrightarrow> \<not> prefix R db_path \<and> \<not> prefix R [''packages'']"
  by (cases R) (auto simp: db_path_def)

lemma install_files_spec:
  assumes v: "rtpgk_validate (heap_bytes g) data n" and n: "n \<le> t" "n \<le> FS_MAX_FILE_SIZE" and new: "(data, t) \<notin> K"
    and gd: "guarded (insert (data, t) K) g (pk_fs s)"
  defines "header \<equiv> rtpgk_header_at (heap_bytes g) data"
  defines "R \<equiv> app_root (cstr (hd_name header))"
  assumes R: "ram_objects (pk_fs s) R = None"
  shows "\<exists>r s'. install_files data n (APPS_ROOT @ cstr (hd_name header)) s = Some (r, s') \<and> guarded K g (pk_fs s')
     \<and> install_outcome (heap_bytes g) data s (r, s')"
proof -
  let ?F = "insert (data, t) K" and ?st = "pk_fs s" and ?d = "APPS_ROOT @ cstr (hd_name header)" and ?m = "heap_bytes g"
  let ?V = "ram_objects ?st"
  have F: "(data, t) \<in> ?F" by simp
  have sn: "rtpgk_safe_name (Some (hd_name header))" using validate_facts(6) [OF v] by (simp add: header_def)
  note rf = app_root_facts [OF sn, folded R_def]
  have rs: "root_path_resolve (render c) (Some ?d) ROOT_PATH_MAX = Some (render R)" if "wf_path c" for c
    using root_resolves(2) [OF sn that] by (simp add: R_def)
  obtain c where c: "wf_path c" "current_directory ?st = render c" "?V c = Some (FS_DIRECTORY, [])" using gd by (rule guarded_cwd)
  have nc: "\<not> prefix R c" using ramf.closed_absent [OF guarded_closed [OF gd] R] c(3) by (auto elim!: prefixE)
  have hd: "rtpgk_header_at (heap_bytes (fs_heap st)) data = header" if "guarded ?F g st" for st :: "'a fs"
    using same_header [OF guarded_bytes [OF that F n(1)] validate_facts(2) [OF v]] by (simp add: header_def)
  obtain r0 st1 where cd: "filesystem_create_directory ?st (Some ?d) = (r0, st1)" by (meson surj_pair)
  have len: "length (render R) < ROOT_PATH_MAX" using rf(2,4) by (simp add: render_rtail rootos_consts)
  have dn: "chead ?d \<noteq> NUL" by (simp add: APPS_ROOT_def)
  have sp: "guarded ?F g st1" "ramf.grows ?V (ram_objects st1) R" "r0 = FS_RESULT_OK \<Longrightarrow> ram_objects st1 R = Some (FS_DIRECTORY, [])"
      "r0 \<noteq> FS_RESULT_ALREADY_EXISTS"
    using create_directory_guarded [OF gd cd dn rs [OF c(1), folded c(2)] rf(1) len] R by auto
  have gr: "ram_objects st1 q = ?V q \<or> (?V q = None \<and> ram_objects st1 q = Some (FS_DIRECTORY, []) \<and> prefix q R)" for q
    using sp(2) unfolding ramf.grows_def ramf_dirv by blast
  have fr1: "current_directory st1 = render c" using create_frame(2) [OF cd] c(2) by (simp add: framed_def)
  have db1: "ram_objects st1 db_path = ?V db_path" "db_path \<noteq> R" "[''packages''] \<noteq> R"
    using gr [of db_path] rf(2,3) by (cases R; auto simp: db_path_def)+
  note nd = system_not_db [OF rf(3,2)]
  show ?thesis
  proof (cases "r0 = FS_RESULT_OK")
    case False
    let ?s' = "s\<lparr>pk_fs := free_package data st1\<rparr>"
    have "install_files data n ?d s = Some (ROOT_PACKAGE_IO_ERROR, ?s')"
      using cd False sp(4) by (simp add: install_files_def Let_def)
    moreover have "install_outcome ?m data s (ROOT_PACKAGE_IO_ERROR, ?s')"
      using free_guarded(2) [OF sp(1) new] gr db1(1) by (auto simp: install_outcome_def Let_def R_def header_def)
    ultimately show ?thesis using free_guarded(1) [OF sp(1) new] by auto
  next
    case True
    note R1 = sp(3) [OF True]
    have cnt: "set [0..<hd_entry_count header] \<subseteq> {..<hd_entry_count header}" by auto
    from install_loop_spec [OF v F n cnt [unfolded header_def] sp(1) R1 [unfolded R_def header_def], of False False, folded header_def, folded R_def]
    obtain res st2 where lp: "install_loop data n [0..<hd_entry_count header] False False st1 = Some (res, st2)" "guarded ?F g st2" "framed st1 st2"
      "grown R (ram_objects st1) (ram_objects st2) (pk_place ?m data ` set [0..<hd_entry_count header])"
      and "case res of Inl e \<Rightarrow> e \<noteq> ROOT_PACKAGE_OK
        | Inr (hm', he') \<Rightarrow> unpacked ?m data [0..<hd_entry_count header] (ram_objects st2)
            \<and> (hm' \<longleftrightarrow> False \<or> (\<exists>i\<in>set [0..<hd_entry_count header]. root_streq (en_path (pk_entry ?m data i)) ''app.toml''))
            \<and> (he' \<longleftrightarrow> False \<or> (\<exists>i\<in>set [0..<hd_entry_count header]. root_streq (en_path (pk_entry ?m data i)) (hd_application_entry header)))"
      by blast
    then have res: "case res of Inl e \<Rightarrow> e \<noteq> ROOT_PACKAGE_OK
        | Inr (hm', he') \<Rightarrow> unpacked ?m data [0..<hd_entry_count header] (ram_objects st2)
            \<and> (hm' \<longrightarrow> (\<exists>i<hd_entry_count header. root_streq (en_path (pk_entry ?m data i)) ''app.toml''))"
      by (auto split: sum.splits)
    have c2: "current_directory st2 = render c" using lp(3) fr1 by (simp add: framed_def)
    have pl: "pk_place ?m data i = R @ path_comps (en_path (pk_entry ?m data i))" for i by (simp add: pk_place_def R_def header_def)
    have out2: "ram_objects st2 q = ram_objects st1 q" if q: "\<not> prefix R q" for q
    proof -
      have "q \<notin> pk_place ?m data ` X" for X using q pl by (metis imageE prefixI)
      then show ?thesis using grownD [OF lp(4)] q by blast
    qed
    have notR: "pk_place ?m data i \<noteq> R" if "i < hd_entry_count header" for i
      using valid_place(3) [OF v that [unfolded header_def] wf_path_simps(1)] by (simp add: pl)
    then have "R \<notin> pk_place ?m data ` set [0..<hd_entry_count header]" by fastforce
    then have R2: "ram_objects st2 R = Some (FS_DIRECTORY, [])" using grown_kept [OF lp(4), of R] R1 by simp
    have undo: "\<exists>s'. s' = s2\<lparr>pk_fs := undo_install ?d data (pk_fs s2), installed := installed s\<rparr> \<and> guarded K g (pk_fs s') \<and> (e \<noteq> ROOT_PACKAGE_OK \<longrightarrow> install_outcome ?m data s (e, s'))"
      if s2: "guarded ?F g (pk_fs s2)" "current_directory (pk_fs s2) = render c" "db_only (ram_objects st2) (ram_objects (pk_fs s2))"
        "ram_objects (pk_fs s2) db_path = ram_objects st2 db_path
          \<or> (ram_objects st2 db_path = None \<and> ram_objects (pk_fs s2) db_path = Some (FS_FILE, []))" for s2 e
    proof -
      have p: "ram_objects (pk_fs s2) R \<noteq> None" using s2(3) R2 db1(2) unfolding db_only_def by (metis option.distinct(1))
      note un = undo_spec [OF s2(1) new rs rf(1,2) p s2(2) c(1) nc]
      have "ram_objects (undo_install ?d data (pk_fs s2)) q = ?V q \<or> (?V q = None \<and> ram_objects (undo_install ?d data (pk_fs s2)) q = Some (FS_DIRECTORY, [])
          \<and> (prefix q R \<or> q = [''packages'']))" if q: "q \<noteq> db_path" for q
      proof (cases "prefix R q")
        case True
        then show ?thesis using un(2) ramf.closed_absent [OF guarded_closed [OF gd] R] by (auto elim!: prefixE)
      next
        case False
        then show ?thesis using un(2) s2(3) q out2 [OF False] gr [of q] unfolding db_only_def by (auto dest!: spec [of _ q])
      qed
      moreover have "ram_objects (undo_install ?d data (pk_fs s2)) db_path = ?V db_path
          \<or> (?V db_path = None \<and> ram_objects (undo_install ?d data (pk_fs s2)) db_path = Some (FS_FILE, []))"
        using un(2) s2(4) nd out2 [of db_path] db1(1) by auto
      ultimately show ?thesis using un(1) by (auto simp: install_outcome_def Let_def R_def header_def)
    qed
    have same2: "db_only (ram_objects st2) (ram_objects st2)" by (simp add: db_only_def)
    note undo2 = undo [of "s\<lparr>pk_fs := st2\<rparr>", simplified, OF lp(2) c2 same2]
    note unf = install_files_def Let_def cd prod.case hd [OF gd] lp(1) option.case
    show ?thesis
    proof (cases res)
      case (Inl e)
      have "install_files data n ?d s = Some (e, s\<lparr>pk_fs := undo_install ?d data st2\<rparr>)"
        unfolding unf using True Inl by simp
      then show ?thesis using undo2 [of e] res Inl by simp
    next
      case (Inr hs)
      obtain hm' he' where hs: "hs = (hm', he')" by (cases hs)
      show ?thesis
      proof (cases "hm' \<and> he'")
        case False
        have "install_files data n ?d s = Some (ROOT_PACKAGE_INVALID, s\<lparr>pk_fs := undo_install ?d data st2\<rparr>)"
          unfolding unf using True Inr hs False by auto
        then show ?thesis using undo2 [of ROOT_PACKAGE_INVALID] by simp
      next
        case both: True
        let ?s2 = "s\<lparr>pk_fs := st2, installed := installed s @ [package_record header]\<rparr>"
        have g2: "guarded ?F g (pk_fs ?s2)" using lp(2) by simp
        from save_spec [OF g2] obtain ok s3 where sv: "package_database_save ?s2 = Some (ok, s3)" "installed s3 = installed s @ [package_record header]"
            "guarded ?F g (pk_fs s3)" "framed st2 (pk_fs s3)" "db_only (ram_objects st2) (ram_objects (pk_fs s3))"
          and ok: "ok \<longrightarrow> (\<exists>txt. save_loop (PACKAGE_DB_MAX + 1) [] (installed s3) = Some txt \<and> ram_objects (pk_fs s3) db_path = Some (FS_FILE, map of_char txt))"
            "\<not> ok \<longrightarrow> ram_objects (pk_fs s3) db_path = ram_objects st2 db_path
              \<or> (ram_objects st2 db_path = None \<and> ram_objects (pk_fs s3) db_path = Some (FS_FILE, []))"
          by auto
        have inst: "install_files data n ?d s = (case Some (ok, s3) of None \<Rightarrow> None
            | Some (False, s') \<Rightarrow> Some (ROOT_PACKAGE_IO_ERROR, s'\<lparr>pk_fs := undo_install ?d data (pk_fs s'), installed := installed s\<rparr>)
            | Some (True, s') \<Rightarrow> Some (ROOT_PACKAGE_OK, s'\<lparr>pk_fs := free_package data (pk_fs s')\<rparr>))"
          unfolding unf using True Inr hs both hd [OF lp(2)] sv(1) by simp
        show ?thesis
        proof (cases ok)
          case False
          have c3: "current_directory (pk_fs s3) = render c" using sv(4) c2 by (simp add: framed_def)
          show ?thesis using inst False undo [OF sv(3) c3 sv(5), of ROOT_PACKAGE_IO_ERROR] ok(2) by auto
        next
          case okT: True
          let ?s4 = "s3\<lparr>pk_fs := free_package data (pk_fs s3)\<rparr>" and ?V4 = "ram_objects (pk_fs s3)"
          note fg = free_guarded [OF sv(3) new]
          have un: "unpacked ?m data [0..<hd_entry_count header] (ram_objects st2)" using res Inr hs by simp
          have pk: "pk_place ?m data i \<noteq> db_path" "pk_place ?m data i \<noteq> [''packages'']" for i
            using nd pl [of i] by (metis prefixI)+
          have same4: "?V4 (pk_place ?m data i) = ram_objects st2 (pk_place ?m data i)" for i
            using sv(5) pk [of i] unfolding db_only_def by blast
          have un4: "unpacked ?m data [0..<hd_entry_count header] ?V4" using un same4 unfolding unpacked_def by metis
          obtain i where i: "i < hd_entry_count header" "root_streq (en_path (pk_entry ?m data i)) ''app.toml''"
            using res Inr hs both by auto
          have "path_comps (en_path (pk_entry ?m data i)) = [''app.toml'']"
            using i(2) path_comps_cstr [of "en_path (pk_entry ?m data i)"] path_comps_cstr [of "''app.toml''"] toml_comp by (simp add: root_streq_iff)
          then have toml: "?V4 (R @ [''app.toml'']) \<noteq> None"
            using unpacked_place [OF un4, of i] i(1) pl [of i] by simp
          have "?V4 q = ?V q \<or> (?V q = None \<and> ?V4 q = Some (FS_DIRECTORY, []) \<and> (prefix q R \<or> q = [''packages'']))"
            if "\<not> prefix R q" "q \<noteq> db_path" for q
            using sv(5) that out2 [OF that(1)] gr [of q] unfolding db_only_def by (auto dest!: spec [of _ q])
          then have "install_outcome ?m data s (ROOT_PACKAGE_OK, ?s4)"
            using R un4 toml ok(1) okT sv(2) fg(2) by (simp add: install_outcome_def Let_def R_def header_def)
          then show ?thesis using inst okT fg(1) by auto
        qed
      qed
    qed
  qed
qed

lemma guards_from: "guards K h st \<Longrightarrow> kept g h K \<Longrightarrow> guards K g st"
  unfolding guards_def using kept_trans by blast

lemma alloc_guarded:
  assumes gd: "guarded K g st" and L: "owned (fs_heap st) L (nodes st)" "K \<subseteq> L"
    and h: "heap_ok h (insert (p, t) L)" "(p, t) \<notin> L" "kept (fs_heap st) h L"
  shows "guarded (insert (p, t) K) h (st\<lparr>fs_heap := h\<rparr>)" "ram_objects (st\<lparr>fs_heap := h\<rparr>) = ram_objects st" "kept g h K" "(p, t) \<notin> K"
proof -
  have good: "ram_good st" and t: "table_ok (nodes st)" and np: "\<not> filesystem_persistent_backend st"
    and gu: "guards K g st" using gd by (auto simp: guarded_def ram_good_def ram_inv_def)
  have ow: "owned h (insert (p, t) L) (nodes st)" by (rule owned_mono [OF L(1) _ h(1)]) blast
  have fresh: "ram_content (nodes st ! i) \<noteq> p" if "i < FS_MAX_NODES" for i
  proof
    assume "ram_content (nodes st ! i) = p"
    moreover have "0 < p" using heap_ok_bounds [OF h(1), of p t] by auto
    moreover have "block_ok L (nodes st ! i)" using L(1) that by (simp add: owned_def)
    ultimately obtain u where "(p, u) \<in> L" by (auto simp: block_ok_def)
    then show False using heap_ok_unique [OF h(1), of p t u] h(2) by auto
  qed
  show ob: "ram_objects (st\<lparr>fs_heap := h\<rparr>) = ram_objects st"
    using view_kept [OF L(1) t, of "st\<lparr>fs_heap := h\<rparr>"] h(3) by simp
  show kp: "kept g h K" using gu kept_trans [OF _ kept_mono [OF h(3) L(2)]] by (auto simp: guards_def)
  show "(p, t) \<notin> K" using L(2) h(2) by blast
  have "guards (insert (p, t) K) h (st\<lparr>fs_heap := h\<rparr>)"
    using ow L(2) gu fresh by (auto simp: guards_def intro!: exI [of _ "insert (p, t) L"])
  moreover have "ram_inv (st\<lparr>fs_heap := h\<rparr>)" using t np ow by (auto simp: ram_inv_def)
  then have "ram_good (st\<lparr>fs_heap := h\<rparr>)" using good ob by (simp add: ram_good_def cwd_ok_def)
  ultimately show "guarded (insert (p, t) K) h (st\<lparr>fs_heap := h\<rparr>)" by (simp add: guarded_def)
qed

lemma same_outcome:
  assumes sb: "same_bytes m a M A n" and v: "rtpgk_validate m a n" and o: "install_outcome m a s (r, s')"
  shows "install_outcome M A s (r, s')"
proof -
  have h: "rtpgk_header_at M A = rtpgk_header_at m a" using same_header [OF sb validate_facts(2) [OF v]] by simp
  have e: "pk_entry M A i = pk_entry m a i" if "i < hd_entry_count (rtpgk_header_at m a)" for i
    using same_pk_entry [OF sb v that] by simp
  have pl: "pk_place M A i = pk_place m a i" if "i < hd_entry_count (rtpgk_header_at m a)" for i
    using e [OF that] by (simp add: pk_place_def h)
  have pb: "pk_bytes M A i = pk_bytes m a i" if "i < hd_entry_count (rtpgk_header_at m a)" for i
    using e [OF that] valid_entry(3) [OF v that] same_bytesD [OF sb] by (auto simp: pk_bytes_def)
  have "unpacked M A [0..<hd_entry_count (rtpgk_header_at m a)] V" if u: "unpacked m a [0..<hd_entry_count (rtpgk_header_at m a)] V" for V
    unfolding unpacked_def
  proof (intro allI impI)
    fix front i rest
    assume l: "[0..<hd_entry_count (rtpgk_header_at m a)] = front @ i # rest" "pk_place M A i \<notin> pk_place M A ` set rest"
    have "set (front @ i # rest) = {..<hd_entry_count (rtpgk_header_at m a)}" unfolding l(1) [symmetric] by auto
    then have i: "i < hd_entry_count (rtpgk_header_at m a)" "\<And>j. j \<in> set rest \<Longrightarrow> j < hd_entry_count (rtpgk_header_at m a)" by auto
    have "pk_place m a i \<notin> pk_place m a ` set rest" using l(2) pl i by (metis image_cong)
    then show "V (pk_place M A i) = Some (FS_FILE, pk_bytes M A i)" using u l(1) pl [OF i(1)] pb [OF i(1)] unfolding unpacked_def by metis
  qed
  then show ?thesis using o unfolding install_outcome_def Let_def h by (auto split: if_splits)
qed

lemma install_image_spec:
  assumes gd: "guarded (insert (data, t) K) g (pk_fs s)" and new: "(data, t) \<notin> K" and n: "n \<le> t" "n \<le> FS_MAX_FILE_SIZE"
    and g: "fs_heap (pk_fs s) = g"
  shows "\<exists>r s'. install_image data n s = Some (r, s') \<and> guarded K g (pk_fs s') \<and> install_outcome (heap_bytes g) data s (r, s')
    \<and> (r = ROOT_PACKAGE_OK \<longrightarrow> rtpgk_validate (heap_bytes g) data n)
    \<and> (\<not> rtpgk_validate (heap_bytes g) data n \<longrightarrow> r = ROOT_PACKAGE_INVALID \<and> ram_objects (pk_fs s') = ram_objects (pk_fs s))"
proof -
  let ?header = "rtpgk_header_at (heap_bytes g) data"
  note fg = free_guarded [OF gd new]
  have refuse: "\<exists>s'. Some (r, s\<lparr>pk_fs := free_package data (pk_fs s)\<rparr>) = Some (r, s') \<and> guarded K g (pk_fs s')
      \<and> install_outcome (heap_bytes g) data s (r, s') \<and> ram_objects (pk_fs s') = ram_objects (pk_fs s)" if "r \<noteq> ROOT_PACKAGE_OK" for r
    using fg install_refused [OF that, of "s\<lparr>pk_fs := free_package data (pk_fs s)\<rparr>" s "heap_bytes g" data] by simp
  show ?thesis
  proof (cases "rtpgk_validate (heap_bytes g) data n")
    case False
    then show ?thesis using refuse [of ROOT_PACKAGE_INVALID] by (auto simp: install_image_def g)
  next
    case v: True
    have sn: "rtpgk_safe_name (Some (hd_name ?header))" by (rule validate_facts(6) [OF v])
    obtain c where c: "wf_path c" "current_directory (pk_fs s) = render c" using gd by (rule guarded_cwd)
    note rr = root_resolves [OF sn c(1)]
    have ex: "filesystem_exists (pk_fs s) (Some (APPS_ROOT @ cstr (hd_name ?header))) \<longleftrightarrow> ram_objects (pk_fs s) (app_root (cstr (hd_name ?header))) \<noteq> None"
      by (rule exists_guarded(1) [OF gd _ app_root_facts(1) [OF sn]]) (use rr(2) c(2) in simp)
    note unf = install_image_def Let_def g rr(1) prod.case
    consider (found) "package_find (Some (hd_name ?header)) s \<noteq> None"
      | (full) "package_find (Some (hd_name ?header)) s = None" "length (installed s) \<ge> ROOT_PACKAGE_MAX_INSTALLED"
      | (there) "package_find (Some (hd_name ?header)) s = None" "\<not> length (installed s) \<ge> ROOT_PACKAGE_MAX_INSTALLED"
          "ram_objects (pk_fs s) (app_root (cstr (hd_name ?header))) \<noteq> None"
      | (go) "package_find (Some (hd_name ?header)) s = None" "\<not> length (installed s) \<ge> ROOT_PACKAGE_MAX_INSTALLED"
          "ram_objects (pk_fs s) (app_root (cstr (hd_name ?header))) = None" by argo
    then show ?thesis
    proof cases
      case found
      then show ?thesis unfolding unf using v refuse [of ROOT_PACKAGE_ALREADY_INSTALLED] by auto
    next
      case full
      then show ?thesis unfolding unf using v refuse [of ROOT_PACKAGE_NO_SPACE] by auto
    next
      case there
      then show ?thesis unfolding unf using v ex refuse [of ROOT_PACKAGE_ALREADY_INSTALLED] by auto
    next
      case go
      then show ?thesis unfolding unf using v ex install_files_spec [OF v n new gd go(3)] by auto
    qed
  qed
qed

text \<open>
  C33: Installing a package. Whatever the file contains, the installation returns, keeps the file system well formed and
  touches no block of the heap that belongs to others. It succeeds only for a package that passes \<open>rtpgk_validate\<close>; then
  every entry is a file with exactly its bytes below the directory of the package (of two entries with one path the
  later counts), the manifest is among them, the record is in the table and the saved database holds the table, and
  outside that directory only the database file changed, apart from missing parent directories. When it fails the table
  is unchanged and nothing is left of the files: every object is as before, except for empty parent directories and a
  database file that was created empty. A file that is no valid package changes no object at all.
\<close>

theorem package_install_correct:
  assumes gd: "guarded K g (pk_fs s)" and P: "wf_path P" "root_path_resolve (current_directory (pk_fs s)) (Some path) ROOT_PATH_MAX = Some (render P)"
    and bs: "ram_objects (pk_fs s) P = Some (FS_FILE, bs)" and M: "\<forall>i<length bs. M (A + i) = bs ! i" "0 < A"
  shows "\<exists>r s'. package_install (Some path) s = Some (r, s') \<and> guarded K g (pk_fs s') \<and> install_outcome M A s (r, s')
    \<and> (r = ROOT_PACKAGE_OK \<longrightarrow> rtpgk_validate M A (length bs))
    \<and> (\<not> rtpgk_validate M A (length bs) \<longrightarrow> ram_objects (pk_fs s') = ram_objects (pk_fs s))"
proof -
  let ?st = "pk_fs s" and ?n = "length bs"
  have stay: "r \<noteq> ROOT_PACKAGE_OK \<Longrightarrow> guarded K g (pk_fs s) \<and> install_outcome M A s (r, s)" for r
    using gd install_refused by blast
  have siz: "filesystem_file_size ?st (Some path) = Some ?n"
    using exists_guarded(3) [OF gd P(2,1), of bs] bs by auto
  show ?thesis
  proof (cases "chead path = NUL \<or> ?n < RTPGK_HEADER_SIZE \<or> ?n > FS_MAX_FILE_SIZE")
    case True
    then have "package_install (Some path) s \<in> {Some (ROOT_PACKAGE_NOT_FOUND, s), Some (ROOT_PACKAGE_INVALID, s)}"
      using siz by (auto simp: package_install_def)
    then show ?thesis using stay by auto
  next
    case False
    obtain L where L: "owned (fs_heap ?st) L (nodes ?st)" "K \<subseteq> L" using gd by (auto simp: guarded_def guards_def)
    have ok: "heap_ok (fs_heap ?st) L" using L(1) by (simp add: owned_def)
    have n: "0 < ?n + 1" "?n + 1 < USIZE_MOD" "?n \<le> FS_MAX_FILE_SIZE" using False by (auto simp: rootos_consts)
    show ?thesis
    proof (rule malloc_ok [OF ok n(1,2)])
      assume "root_malloc (fs_heap ?st) (?n + 1) = Some (0, fs_heap ?st)"
      then have "package_install (Some path) s = Some (ROOT_PACKAGE_NO_MEMORY, s)"
        using siz False by (simp add: package_install_def)
      then show ?thesis using stay by auto
    next
      fix data h t
      assume m: "root_malloc (fs_heap ?st) (?n + 1) = Some (data, h)" "0 < data" "heap_ok h (insert (data, t) L)" "heap_memory h = heap_memory (fs_heap ?st)"
        "?n + 1 \<le> t" "(data, t) \<notin> L" "kept (fs_heap ?st) h L"
      note ag = alloc_guarded [OF gd L m(3,6,7)]
      have good: "ram_good (?st\<lparr>fs_heap := h\<rparr>)" using ag(1) by (simp add: guarded_def)
      have rd: "filesystem_read_file (?st\<lparr>fs_heap := h\<rparr>) (Some path) (?n + 1) = ((FS_RESULT_OK, bs), ?st\<lparr>fs_heap := h\<rparr>)"
        using ram_read_spec [OF good _ P(1), of path "?n + 1"] P(2) ag(2) bs by simp
      let ?g = "h\<lparr>heap_bytes := store_bytes (heap_bytes h) data (bs @ [0])\<rparr>"
      have out: "store_bytes (heap_bytes h) data (bs @ [0]) x = heap_bytes h x" if "x < data \<or> data + t \<le> x" for x
        using store_bytes_outside [of x data "bs @ [0]"] that m(5) by auto
      note sb = store_block_ok [OF m(3) insertI1 out]
      have kp: "kept (fs_heap ?st) ?g L"
        by (rule kept_trans [OF m(7)]) (rule kept_mono [OF sb(2)], use m(6) in auto)
      note sg = alloc_guarded [OF gd L sb(1) m(6) kp]
      let ?s = "s\<lparr>pk_fs := ?st\<lparr>fs_heap := ?g\<rparr>\<rparr>"
      have inst: "package_install (Some path) s = install_image data ?n ?s"
        using siz False m(1,2) rd by (simp add: package_install_def Let_def)
      have g1: "guarded (insert (data, t) K) ?g (pk_fs ?s)" using sg(1) by simp
      have "?n \<le> t" using m(5) by simp
      from install_image_spec [OF g1 sg(4) this n(3)] obtain r s' where im:
        "install_image data ?n ?s = Some (r, s')" "guarded K ?g (pk_fs s')" "install_outcome (heap_bytes ?g) data ?s (r, s')"
        "r = ROOT_PACKAGE_OK \<Longrightarrow> rtpgk_validate (heap_bytes ?g) data ?n"
        "\<not> rtpgk_validate (heap_bytes ?g) data ?n \<Longrightarrow> r = ROOT_PACKAGE_INVALID \<and> ram_objects (pk_fs s') = ram_objects (pk_fs ?s)"
        by auto
      have sm: "same_bytes (heap_bytes ?g) data M A ?n" "same_bytes M A (heap_bytes ?g) data ?n"
        using M(1) by (simp_all add: same_bytes_def store_bytes_def nth_append)
      have v: "rtpgk_validate (heap_bytes ?g) data ?n \<longleftrightarrow> rtpgk_validate M A ?n"
        using same_validate [OF sm(1)] same_validate [OF sm(2)] M(2) m(2) by blast
      have os: "install_outcome X Y ?s (r, s') = install_outcome X Y s (r, s')" for X Y
        using sg(2) by (simp add: install_outcome_def)
      have "install_outcome M A s (r, s')"
      proof (cases "rtpgk_validate (heap_bytes ?g) data ?n")
        case True
        then show ?thesis using same_outcome [OF sm(1) True im(3)] os by blast
      next
        case no: False
        have "installed s' = installed s" using im(3) im(5) [OF no] by (simp add: install_outcome_def Let_def)
        then show ?thesis using im(5) [OF no] sg(2) by (intro install_refused) simp_all
      qed
      moreover have "guarded K g (pk_fs s')" using im(2) guards_from [OF _ sg(3)] by (auto simp: guarded_def)
      ultimately show ?thesis using inst im sg(2) v by auto
    qed
  qed
qed

end
