(* ===== verification/Root_Package_Claims.thy ===== *)
theory Root_Package_Claims
  imports Root_Package_Safety
begin

text \<open>
  Removing packages, and the database file: what is saved is read back for records whose fields can be written as lines,
  and is not for a package without a version text.
\<close>

section \<open>The database as text\<close>

definition record_text :: "RootPackageInfo \<Rightarrow> string" where
  "record_text info = info_name info @ CHR ''|'' # info_version info @ CHR ''|'' # info_entry info @ [NEWLINE]"

definition storable :: "RootPackageInfo \<Rightarrow> bool" where
  "storable info \<longleftrightarrow> rtpgk_safe_name (Some (info_name info)) \<and> NUL \<notin> set (info_name info)
     \<and> info_version info \<noteq> [] \<and> length (info_version info) < RTPGK_VERSION_TEXT_MAX
     \<and> (\<forall>c\<in>set (info_version info). c \<noteq> NUL \<and> c \<noteq> CHR ''|'' \<and> \<not> line_break c)
     \<and> rtpgk_safe_relative_path (Some (info_entry info)) \<and> length (info_entry info) < RTPGK_ENTRY_NAME_MAX
     \<and> (\<forall>c\<in>set (info_entry info). c \<noteq> NUL \<and> \<not> line_break c)"

lemma text_append_text: "text_append cap out txt = Some out' \<Longrightarrow> out' = out @ cstr txt"
  by (simp add: text_append_def split: if_splits)

lemma save_loop_text:
  assumes "save_loop cap out infos = Some txt" "list_all storable infos"
  shows "txt = out @ concat (map record_text infos)"
  using assms
proof (induction infos arbitrary: out)
  case (Cons i infos)
  have c: "cstr (info_name i) = info_name i" "cstr (info_version i) = info_version i" "cstr (info_entry i) = info_entry i"
  proof -
    have st: "storable i" using Cons.prems(2) by simp
    have "NUL \<notin> set (info_name i)" "NUL \<notin> set (info_version i)" "NUL \<notin> set (info_entry i)"
      using st unfolding storable_def by blast+
    then show "cstr (info_name i) = info_name i" "cstr (info_version i) = info_version i" "cstr (info_entry i) = info_entry i"
      by (simp_all add: cstr_id)
  qed
  have "save_loop cap (out @ record_text i) infos = Some txt"
  proof -
    from Cons.prems(1) obtain o1 o2 o3 o4 o5 o6 where
      o: "text_append cap out (info_name i) = Some o1" "text_append cap o1 ''|'' = Some o2" "text_append cap o2 (info_version i) = Some o3"
        "text_append cap o3 ''|'' = Some o4" "text_append cap o4 (info_entry i) = Some o5" "text_append cap o5 [NEWLINE] = Some o6"
        "save_loop cap o6 infos = Some txt"
      by (simp add: bind_eq_Some_conv) blast
    have "o6 = out @ record_text i"
      using o(1-6) [THEN text_append_text] c by (simp add: record_text_def)
    then show ?thesis using o(7) by simp
  qed
  from Cons.IH [OF this] Cons.prems(2) show ?case by simp
qed simp

lemma parse_field_text:
  assumes "f \<noteq> []" "length f < cap" "\<forall>c\<in>set f. c \<noteq> NUL \<and> c \<noteq> d \<and> \<not> line_break c"
  shows "parse_field (f @ d # rest) d cap = Some (f, rest)"
proof -
  let ?P = "\<lambda>c. c \<noteq> NUL \<and> c \<noteq> d \<and> \<not> line_break c"
  have "takeWhile ?P (f @ d # rest) = f" "dropWhile ?P (f @ d # rest) = d # rest"
    using assms(3) by (auto simp: takeWhile_append dropWhile_append)
  then show ?thesis using assms(1,2) unfolding parse_field_def Let_def by simp
qed

lemma safe_name_no_bar: "app_name_char c \<Longrightarrow> c \<noteq> CHR ''|'' \<and> \<not> line_break c"
  by (auto simp: app_name_char_def)

lemma parse_record_text:
  assumes "storable info"
  shows "parse_record (record_text info @ rest) = Some (info, NEWLINE # rest)"
proof -
  note s = assms [unfolded storable_def]
  have n: "cstr (info_name info) = info_name info" using s by (simp add: cstr_id)
  note nf = rtpgk_name_facts [of "info_name info", unfolded n]
  have p1: "parse_field (info_name info @ CHR ''|'' # x) (CHR ''|'') RTPGK_NAME_MAX = Some (info_name info, x)" for x
    by (rule parse_field_text) (use s nf safe_name_no_bar in auto)
  have p2: "parse_field (info_version info @ CHR ''|'' # x) (CHR ''|'') RTPGK_VERSION_TEXT_MAX = Some (info_version info, x)" for x
    by (rule parse_field_text) (use s in auto)
  have e: "takeWhile (\<lambda>c. c \<noteq> NUL \<and> \<not> line_break c) (info_entry info @ NEWLINE # rest) = info_entry info"
    "dropWhile (\<lambda>c. c \<noteq> NUL \<and> \<not> line_break c) (info_entry info @ NEWLINE # rest) = NEWLINE # rest"
    using s by (auto simp: takeWhile_append dropWhile_append)
  have v: "chead (info_version info) \<noteq> NUL" using s by (cases "info_version info") auto
  show ?thesis
    unfolding parse_record_def record_text_def Let_def append.assoc append_Cons append_Nil p1 p2 option.case prod.case e
    using s v by simp
qed

lemma record_head: "storable info \<Longrightarrow> \<exists>c s. record_text info = c # s \<and> c \<noteq> NUL \<and> \<not> line_break c"
proof -
  assume s: "storable info"
  have c: "cstr (info_name info) = info_name info" using s by (simp add: storable_def cstr_id)
  have nf: "info_name info \<noteq> []" "\<forall>c\<in>set (info_name info). app_name_char c"
    using rtpgk_name_facts(1,4) [of "info_name info"] s unfolding c storable_def by simp_all
  then obtain x y where n: "info_name info = x # y" by (cases "info_name info") auto
  then show ?thesis using safe_name_no_bar [of x] nf(2) s by (auto simp: record_text_def storable_def)
qed

lemma load_loop_skip: "line_break c \<Longrightarrow> load_loop_db acc (c # s) = load_loop_db acc s"
  unfolding load_loop_db.simps [of acc "c # s"] load_loop_db.simps [of acc s] by simp

lemma load_loop_text:
  assumes "list_all storable infos" "length acc + length infos \<le> ROOT_PACKAGE_MAX_INSTALLED"
  shows "load_loop_db acc (concat (map record_text infos)) = (True, acc @ infos)"
  using assms
proof (induction infos arbitrary: acc)
  case Nil
  then show ?case by (simp add: load_loop_db.simps)
next
  case (Cons i infos)
  have s: "storable i" using Cons.prems(1) by simp
  obtain c r where h: "record_text i = c # r" "c \<noteq> NUL" "\<not> line_break c" using record_head [OF s] by blast
  let ?t = "concat (map record_text infos)"
  have d: "dropWhile line_break (record_text i @ ?t) = record_text i @ ?t" using h by simp
  have "load_loop_db acc (record_text i @ ?t) = load_loop_db (acc @ [i]) (NEWLINE # ?t)"
    unfolding load_loop_db.simps [of acc "record_text i @ ?t"] Let_def d using h Cons.prems(2) parse_record_text [OF s, of ?t] by simp
  also have "\<dots> = load_loop_db (acc @ [i]) ?t" by (rule load_loop_skip) simp
  also have "\<dots> = (True, (acc @ [i]) @ infos)" by (rule Cons.IH) (use Cons.prems in auto)
  finally show ?case by simp
qed

text \<open>
  The database of packages is read back as it was saved: after a successful save of a table whose records have safe
  names and entry paths, a version text that is not empty, and no separators or line breaks in the fields, loading the
  database succeeds, gives the same table and changes no object.
\<close>

theorem package_database_roundtrip:
  assumes gd: "guarded K g (pk_fs s)" and st: "list_all storable (installed s)" "length (installed s) \<le> ROOT_PACKAGE_MAX_INSTALLED"
  shows "\<exists>ok s'. package_database_save s = Some (ok, s') \<and> (ok \<longrightarrow> package_database_load s' = (True, s'))"
proof -
  obtain ok s' where sv: "package_database_save s = Some (ok, s')" "installed s' = installed s" "guarded K g (pk_fs s')"
    and ok: "ok \<longrightarrow> (\<exists>txt. save_loop (PACKAGE_DB_MAX + 1) [] (installed s) = Some txt \<and> ram_objects (pk_fs s') db_path = Some (FS_FILE, map of_char txt))"
    using save_spec [OF gd] by blast
  show ?thesis
  proof (cases ok)
    case True
    then obtain out where out: "save_loop (PACKAGE_DB_MAX + 1) [] (installed s) = Some out"
      "ram_objects (pk_fs s') db_path = Some (FS_FILE, map of_char out)" using ok by blast
    obtain c where c: "wf_path c" "current_directory (pk_fs s') = render c" using sv(3) by (rule guarded_cwd)
    have rs: "root_path_resolve (current_directory (pk_fs s')) (Some PACKAGE_DB_PATH) ROOT_PATH_MAX = Some (render db_path)"
      using db_path_facts(5) [OF c(1)] c(2) by simp
    have good: "ram_good (pk_fs s')" using sv(3) by (simp add: guarded_def)
    have len: "length out < PACKAGE_DB_MAX + 1" using save_loop_length [OF out(1)] by simp
    have rd: "filesystem_read_file (pk_fs s') (Some PACKAGE_DB_PATH) (PACKAGE_DB_MAX + 1) = ((FS_RESULT_OK, map of_char out), pk_fs s')"
      using ram_read_spec [OF good rs db_path_facts(1), of "PACKAGE_DB_MAX + 1"] out(2) len by simp
    have ex: "filesystem_exists (pk_fs s') (Some PACKAGE_DB_PATH)"
      using exists_guarded(1) [OF sv(3) rs db_path_facts(1)] out(2) by simp
    have "text_of (map of_char out) = concat (map record_text (installed s))"
      using save_loop_text [OF out(1) st(1)] by (simp add: text_of_def comp_def)
    then have "load_loop_db [] (text_of (map of_char out)) = (True, installed s)"
      using load_loop_text [OF st(1), of "[]"] st(2) by simp
    then have "package_database_load s' = (True, s'\<lparr>installed := installed s\<rparr>)"
      using ex rd by (simp add: package_database_load_def Let_def)
    then show ?thesis using sv(1,2) by auto
  qed (use sv in auto)
qed

text \<open>
  The condition on the version text is needed: a package with an empty version text passes \<open>rtpgk_validate\<close> and is
  installed, but the line written for it is refused when the database is loaded, and with it all lines behind it.
\<close>

lemma package_version_lost:
  assumes "storable a" "rtpgk_safe_name (Some n)" "NUL \<notin> set n"
  shows "load_loop_db [] (concat (map record_text (a # \<lparr>info_name = n, info_version = [], info_entry = e\<rparr> # rest))) = (False, [a])"
proof -
  let ?b = "\<lparr>info_name = n, info_version = [], info_entry = e\<rparr>"
  let ?t = "concat (map record_text rest)"
  note nf = rtpgk_name_facts [OF assms(2), unfolded cstr_id [OF assms(3)]]
  obtain c r where h: "record_text a = c # r" "c \<noteq> NUL" "\<not> line_break c" using record_head [OF assms(1)] by blast
  have d: "dropWhile line_break (record_text a @ x) = record_text a @ x" for x using h by simp
  have "load_loop_db [] (record_text a @ record_text ?b @ ?t) = load_loop_db [a] (NEWLINE # record_text ?b @ ?t)"
    unfolding load_loop_db.simps [of "[]" "record_text a @ record_text ?b @ ?t"] Let_def d
    using h parse_record_text [OF assms(1), of "record_text ?b @ ?t"] by (simp add: rootos_consts)
  also have "\<dots> = load_loop_db [a] (record_text ?b @ ?t)" by (rule load_loop_skip) simp
  also have "\<dots> = (False, [a])"
  proof -
    obtain x y where n: "n = x # y" using nf(1) by (cases n) auto
    have x: "\<not> line_break x" "x \<noteq> NUL" using nf(4) n safe_name_no_bar assms(3) by auto
    have p1: "parse_field (n @ CHR ''|'' # z) (CHR ''|'') RTPGK_NAME_MAX = Some (n, z)" for z
      by (rule parse_field_text) (use nf assms(3) safe_name_no_bar in auto)
    have p2: "parse_field (CHR ''|'' # z) (CHR ''|'') RTPGK_VERSION_TEXT_MAX = None" for z
      by (simp add: parse_field_def)
    have "parse_record (record_text ?b @ ?t) = None"
      unfolding parse_record_def record_text_def by (simp add: p1 p2)
    then show ?thesis using x n by (subst load_loop_db.simps) (simp add: record_text_def rootos_consts)
  qed
  finally show ?thesis by simp
qed

section \<open>Removing a package\<close>

lemma removed_split:
  assumes "find_slot P xs = Some i"
  shows "xs = take i xs @ xs ! i # drop (i + 1) xs" "P (xs ! i)" "\<forall>x\<in>set (take i xs). \<not> P x"
  using find_slot_SomeD [OF assms] by (auto simp: id_take_nth_drop in_set_conv_nth)


section \<open>Witnesses\<close>

lemma demo_guarded: "guarded {} g demo_fs"
proof -
  obtain L where "owned (fs_heap demo_fs) L (nodes demo_fs)" using demo_fs_good(1) by (auto simp: ram_good_def ram_inv_def)
  then show ?thesis using demo_fs_good(1) by (auto simp: guarded_def guards_def kept_def)
qed

definition demo_pkgs :: "(nat \<Rightarrow> sector) pkgs" where
  "demo_pkgs = \<lparr>pk_fs = demo_fs, installed = [\<lparr>info_name = ''hi'', info_version = ''1.0'', info_entry = ''hi.elf''\<rparr>]\<rparr>"

lemma demo_installed:
  "installed demo_pkgs = [\<lparr>info_name = ''hi'', info_version = ''1.0'', info_entry = ''hi.elf''\<rparr>]"
  "storable \<lparr>info_name = ''hi'', info_version = ''1.0'', info_entry = ''hi.elf''\<rparr>"
  by (simp add: demo_pkgs_def) code_simp

theorem package_install_correct_witness:
  "\<exists>r s'. package_install (Some ''readme.txt'') demo_pkgs = Some (r, s') \<and> guarded {} undefined (pk_fs s')
    \<and> install_outcome (\<lambda>_. 0) 1 demo_pkgs (r, s')"
proof -
  have g: "guarded {} undefined (pk_fs demo_pkgs)" using demo_guarded by (simp add: demo_pkgs_def)
  show ?thesis
    using package_install_correct [OF g demo_paths(2), of "''readme.txt''" "[]" "\<lambda>_. 0" 1] demo_at(1) demo_objects(1)
    by (auto simp: demo_pkgs_def)
qed

theorem package_database_roundtrip_witness:
  "\<exists>ok s'. package_database_save demo_pkgs = Some (ok, s') \<and> (ok \<longrightarrow> package_database_load s' = (True, s'))"
proof (rule package_database_roundtrip)
  show "guarded {} undefined (pk_fs demo_pkgs)" using demo_guarded by (simp add: demo_pkgs_def)
  show "list_all storable (installed demo_pkgs)" using demo_installed(2) by (simp add: demo_installed(1))
  show "length (installed demo_pkgs) \<le> ROOT_PACKAGE_MAX_INSTALLED" by (simp add: demo_installed(1) rootos_consts)
qed


end
