(* ===== verification/Root_Keyboard.thy ===== *)
theory Root_Keyboard
  imports Root_Unicode
begin

text \<open>
  The keyboard: \<open>source/input/keycodes.h\<close> (the keys, in the order of the enumeration),
  \<open>source/input/keymap_latam.c\<close> (the Latin American layout with its dead keys) and
  \<open>source/drivers/input/keyboard.c\<close> (the decoder of set-1 scan codes). The static variables of the two C files are the
  fields of \<open>keyboard\<close>; a \<open>switch\<close> over keys or codes is a table, read with \<open>map_of\<close>.
\<close>

type_synonym RootKey = nat

abbreviation (input) ROOT_KEY_UNKNOWN :: RootKey where "ROOT_KEY_UNKNOWN \<equiv> 0"
abbreviation (input) ROOT_KEY_ESCAPE :: RootKey where "ROOT_KEY_ESCAPE \<equiv> 1"
abbreviation (input) ROOT_KEY_F1 :: RootKey where "ROOT_KEY_F1 \<equiv> 2"
abbreviation (input) ROOT_KEY_F2 :: RootKey where "ROOT_KEY_F2 \<equiv> 3"
abbreviation (input) ROOT_KEY_F3 :: RootKey where "ROOT_KEY_F3 \<equiv> 4"
abbreviation (input) ROOT_KEY_F4 :: RootKey where "ROOT_KEY_F4 \<equiv> 5"
abbreviation (input) ROOT_KEY_F5 :: RootKey where "ROOT_KEY_F5 \<equiv> 6"
abbreviation (input) ROOT_KEY_F6 :: RootKey where "ROOT_KEY_F6 \<equiv> 7"
abbreviation (input) ROOT_KEY_F7 :: RootKey where "ROOT_KEY_F7 \<equiv> 8"
abbreviation (input) ROOT_KEY_F8 :: RootKey where "ROOT_KEY_F8 \<equiv> 9"
abbreviation (input) ROOT_KEY_F9 :: RootKey where "ROOT_KEY_F9 \<equiv> 10"
abbreviation (input) ROOT_KEY_F10 :: RootKey where "ROOT_KEY_F10 \<equiv> 11"
abbreviation (input) ROOT_KEY_F11 :: RootKey where "ROOT_KEY_F11 \<equiv> 12"
abbreviation (input) ROOT_KEY_F12 :: RootKey where "ROOT_KEY_F12 \<equiv> 13"
abbreviation (input) ROOT_KEY_GRAVE :: RootKey where "ROOT_KEY_GRAVE \<equiv> 14"
abbreviation (input) ROOT_KEY_1 :: RootKey where "ROOT_KEY_1 \<equiv> 15"
abbreviation (input) ROOT_KEY_2 :: RootKey where "ROOT_KEY_2 \<equiv> 16"
abbreviation (input) ROOT_KEY_3 :: RootKey where "ROOT_KEY_3 \<equiv> 17"
abbreviation (input) ROOT_KEY_4 :: RootKey where "ROOT_KEY_4 \<equiv> 18"
abbreviation (input) ROOT_KEY_5 :: RootKey where "ROOT_KEY_5 \<equiv> 19"
abbreviation (input) ROOT_KEY_6 :: RootKey where "ROOT_KEY_6 \<equiv> 20"
abbreviation (input) ROOT_KEY_7 :: RootKey where "ROOT_KEY_7 \<equiv> 21"
abbreviation (input) ROOT_KEY_8 :: RootKey where "ROOT_KEY_8 \<equiv> 22"
abbreviation (input) ROOT_KEY_9 :: RootKey where "ROOT_KEY_9 \<equiv> 23"
abbreviation (input) ROOT_KEY_0 :: RootKey where "ROOT_KEY_0 \<equiv> 24"
abbreviation (input) ROOT_KEY_MINUS :: RootKey where "ROOT_KEY_MINUS \<equiv> 25"
abbreviation (input) ROOT_KEY_EQUAL :: RootKey where "ROOT_KEY_EQUAL \<equiv> 26"
abbreviation (input) ROOT_KEY_BACKSPACE :: RootKey where "ROOT_KEY_BACKSPACE \<equiv> 27"
abbreviation (input) ROOT_KEY_TAB :: RootKey where "ROOT_KEY_TAB \<equiv> 28"
abbreviation (input) ROOT_KEY_Q :: RootKey where "ROOT_KEY_Q \<equiv> 29"
abbreviation (input) ROOT_KEY_W :: RootKey where "ROOT_KEY_W \<equiv> 30"
abbreviation (input) ROOT_KEY_E :: RootKey where "ROOT_KEY_E \<equiv> 31"
abbreviation (input) ROOT_KEY_R :: RootKey where "ROOT_KEY_R \<equiv> 32"
abbreviation (input) ROOT_KEY_T :: RootKey where "ROOT_KEY_T \<equiv> 33"
abbreviation (input) ROOT_KEY_Y :: RootKey where "ROOT_KEY_Y \<equiv> 34"
abbreviation (input) ROOT_KEY_U :: RootKey where "ROOT_KEY_U \<equiv> 35"
abbreviation (input) ROOT_KEY_I :: RootKey where "ROOT_KEY_I \<equiv> 36"
abbreviation (input) ROOT_KEY_O :: RootKey where "ROOT_KEY_O \<equiv> 37"
abbreviation (input) ROOT_KEY_P :: RootKey where "ROOT_KEY_P \<equiv> 38"
abbreviation (input) ROOT_KEY_LEFT_BRACKET :: RootKey where "ROOT_KEY_LEFT_BRACKET \<equiv> 39"
abbreviation (input) ROOT_KEY_RIGHT_BRACKET :: RootKey where "ROOT_KEY_RIGHT_BRACKET \<equiv> 40"
abbreviation (input) ROOT_KEY_ENTER :: RootKey where "ROOT_KEY_ENTER \<equiv> 41"
abbreviation (input) ROOT_KEY_LEFT_CTRL :: RootKey where "ROOT_KEY_LEFT_CTRL \<equiv> 42"
abbreviation (input) ROOT_KEY_A :: RootKey where "ROOT_KEY_A \<equiv> 43"
abbreviation (input) ROOT_KEY_S :: RootKey where "ROOT_KEY_S \<equiv> 44"
abbreviation (input) ROOT_KEY_D :: RootKey where "ROOT_KEY_D \<equiv> 45"
abbreviation (input) ROOT_KEY_F :: RootKey where "ROOT_KEY_F \<equiv> 46"
abbreviation (input) ROOT_KEY_G :: RootKey where "ROOT_KEY_G \<equiv> 47"
abbreviation (input) ROOT_KEY_H :: RootKey where "ROOT_KEY_H \<equiv> 48"
abbreviation (input) ROOT_KEY_J :: RootKey where "ROOT_KEY_J \<equiv> 49"
abbreviation (input) ROOT_KEY_K :: RootKey where "ROOT_KEY_K \<equiv> 50"
abbreviation (input) ROOT_KEY_L :: RootKey where "ROOT_KEY_L \<equiv> 51"
abbreviation (input) ROOT_KEY_SEMICOLON :: RootKey where "ROOT_KEY_SEMICOLON \<equiv> 52"
abbreviation (input) ROOT_KEY_APOSTROPHE :: RootKey where "ROOT_KEY_APOSTROPHE \<equiv> 53"
abbreviation (input) ROOT_KEY_BACKSLASH :: RootKey where "ROOT_KEY_BACKSLASH \<equiv> 54"
abbreviation (input) ROOT_KEY_LEFT_SHIFT :: RootKey where "ROOT_KEY_LEFT_SHIFT \<equiv> 55"
abbreviation (input) ROOT_KEY_Z :: RootKey where "ROOT_KEY_Z \<equiv> 56"
abbreviation (input) ROOT_KEY_X :: RootKey where "ROOT_KEY_X \<equiv> 57"
abbreviation (input) ROOT_KEY_C :: RootKey where "ROOT_KEY_C \<equiv> 58"
abbreviation (input) ROOT_KEY_V :: RootKey where "ROOT_KEY_V \<equiv> 59"
abbreviation (input) ROOT_KEY_B :: RootKey where "ROOT_KEY_B \<equiv> 60"
abbreviation (input) ROOT_KEY_N :: RootKey where "ROOT_KEY_N \<equiv> 61"
abbreviation (input) ROOT_KEY_M :: RootKey where "ROOT_KEY_M \<equiv> 62"
abbreviation (input) ROOT_KEY_COMMA :: RootKey where "ROOT_KEY_COMMA \<equiv> 63"
abbreviation (input) ROOT_KEY_DOT :: RootKey where "ROOT_KEY_DOT \<equiv> 64"
abbreviation (input) ROOT_KEY_SLASH :: RootKey where "ROOT_KEY_SLASH \<equiv> 65"
abbreviation (input) ROOT_KEY_RIGHT_SHIFT :: RootKey where "ROOT_KEY_RIGHT_SHIFT \<equiv> 66"
abbreviation (input) ROOT_KEY_ISO_LTGT :: RootKey where "ROOT_KEY_ISO_LTGT \<equiv> 67"
abbreviation (input) ROOT_KEY_LEFT_ALT :: RootKey where "ROOT_KEY_LEFT_ALT \<equiv> 68"
abbreviation (input) ROOT_KEY_SPACE :: RootKey where "ROOT_KEY_SPACE \<equiv> 69"
abbreviation (input) ROOT_KEY_CAPS_LOCK :: RootKey where "ROOT_KEY_CAPS_LOCK \<equiv> 70"
abbreviation (input) ROOT_KEY_NUM_LOCK :: RootKey where "ROOT_KEY_NUM_LOCK \<equiv> 71"
abbreviation (input) ROOT_KEY_SCROLL_LOCK :: RootKey where "ROOT_KEY_SCROLL_LOCK \<equiv> 72"
abbreviation (input) ROOT_KEY_KP_0 :: RootKey where "ROOT_KEY_KP_0 \<equiv> 73"
abbreviation (input) ROOT_KEY_KP_1 :: RootKey where "ROOT_KEY_KP_1 \<equiv> 74"
abbreviation (input) ROOT_KEY_KP_2 :: RootKey where "ROOT_KEY_KP_2 \<equiv> 75"
abbreviation (input) ROOT_KEY_KP_3 :: RootKey where "ROOT_KEY_KP_3 \<equiv> 76"
abbreviation (input) ROOT_KEY_KP_4 :: RootKey where "ROOT_KEY_KP_4 \<equiv> 77"
abbreviation (input) ROOT_KEY_KP_5 :: RootKey where "ROOT_KEY_KP_5 \<equiv> 78"
abbreviation (input) ROOT_KEY_KP_6 :: RootKey where "ROOT_KEY_KP_6 \<equiv> 79"
abbreviation (input) ROOT_KEY_KP_7 :: RootKey where "ROOT_KEY_KP_7 \<equiv> 80"
abbreviation (input) ROOT_KEY_KP_8 :: RootKey where "ROOT_KEY_KP_8 \<equiv> 81"
abbreviation (input) ROOT_KEY_KP_9 :: RootKey where "ROOT_KEY_KP_9 \<equiv> 82"
abbreviation (input) ROOT_KEY_KP_DOT :: RootKey where "ROOT_KEY_KP_DOT \<equiv> 83"
abbreviation (input) ROOT_KEY_KP_PLUS :: RootKey where "ROOT_KEY_KP_PLUS \<equiv> 84"
abbreviation (input) ROOT_KEY_KP_MINUS :: RootKey where "ROOT_KEY_KP_MINUS \<equiv> 85"
abbreviation (input) ROOT_KEY_KP_MULTIPLY :: RootKey where "ROOT_KEY_KP_MULTIPLY \<equiv> 86"
abbreviation (input) ROOT_KEY_KP_DIVIDE :: RootKey where "ROOT_KEY_KP_DIVIDE \<equiv> 87"
abbreviation (input) ROOT_KEY_KP_ENTER :: RootKey where "ROOT_KEY_KP_ENTER \<equiv> 88"
abbreviation (input) ROOT_KEY_RIGHT_CTRL :: RootKey where "ROOT_KEY_RIGHT_CTRL \<equiv> 89"
abbreviation (input) ROOT_KEY_RIGHT_ALT :: RootKey where "ROOT_KEY_RIGHT_ALT \<equiv> 90"
abbreviation (input) ROOT_KEY_INSERT :: RootKey where "ROOT_KEY_INSERT \<equiv> 91"
abbreviation (input) ROOT_KEY_DELETE :: RootKey where "ROOT_KEY_DELETE \<equiv> 92"
abbreviation (input) ROOT_KEY_HOME :: RootKey where "ROOT_KEY_HOME \<equiv> 93"
abbreviation (input) ROOT_KEY_END :: RootKey where "ROOT_KEY_END \<equiv> 94"
abbreviation (input) ROOT_KEY_PAGE_UP :: RootKey where "ROOT_KEY_PAGE_UP \<equiv> 95"
abbreviation (input) ROOT_KEY_PAGE_DOWN :: RootKey where "ROOT_KEY_PAGE_DOWN \<equiv> 96"
abbreviation (input) ROOT_KEY_LEFT :: RootKey where "ROOT_KEY_LEFT \<equiv> 97"
abbreviation (input) ROOT_KEY_RIGHT :: RootKey where "ROOT_KEY_RIGHT \<equiv> 98"
abbreviation (input) ROOT_KEY_UP :: RootKey where "ROOT_KEY_UP \<equiv> 99"
abbreviation (input) ROOT_KEY_DOWN :: RootKey where "ROOT_KEY_DOWN \<equiv> 100"
abbreviation (input) ROOT_KEY_COUNT :: RootKey where "ROOT_KEY_COUNT \<equiv> 101"

definition cps :: "string \<Rightarrow> RootCodepoint list" where
  "cps s = map of_char s"

section \<open>The layout\<close>

datatype DeadKey = DEAD_NONE | DEAD_ACUTE | DEAD_DIAERESIS | DEAD_CIRCUMFLEX | DEAD_GRAVE

definition letter_keys :: "RootKey list" where
  "letter_keys = [ROOT_KEY_A, ROOT_KEY_B, ROOT_KEY_C, ROOT_KEY_D, ROOT_KEY_E, ROOT_KEY_F, ROOT_KEY_G, ROOT_KEY_H,
     ROOT_KEY_I, ROOT_KEY_J, ROOT_KEY_K, ROOT_KEY_L, ROOT_KEY_M, ROOT_KEY_N, ROOT_KEY_O, ROOT_KEY_P, ROOT_KEY_Q,
     ROOT_KEY_R, ROOT_KEY_S, ROOT_KEY_T, ROOT_KEY_U, ROOT_KEY_V, ROOT_KEY_W, ROOT_KEY_X, ROOT_KEY_Y, ROOT_KEY_Z]"

definition key_letter :: "RootKey \<Rightarrow> RootCodepoint" where
  "key_letter key = (case map_of (zip letter_keys (cps ''abcdefghijklmnopqrstuvwxyz'')) key of Some c \<Rightarrow> c | None \<Rightarrow> 0)"

definition upper :: "RootCodepoint \<Rightarrow> RootCodepoint" where
  "upper c = (if c \<ge> 97 \<and> c \<le> 122 then c - 97 + 65 else c)"

definition vowels :: "RootCodepoint list" where
  "vowels = cps ''aeiouAEIOU''"

definition accents :: "DeadKey \<Rightarrow> RootCodepoint list" where
  "accents d = (case d of
     DEAD_NONE \<Rightarrow> []
   | DEAD_ACUTE \<Rightarrow> [0xE1, 0xE9, 0xED, 0xF3, 0xFA, 0xC1, 0xC9, 0xCD, 0xD3, 0xDA]
   | DEAD_DIAERESIS \<Rightarrow> [0xE4, 0xEB, 0xEF, 0xF6, 0xFC, 0xC4, 0xCB, 0xCF, 0xD6, 0xDC]
   | DEAD_CIRCUMFLEX \<Rightarrow> [0xE2, 0xEA, 0xEE, 0xF4, 0xFB, 0xC2, 0xCA, 0xCE, 0xD4, 0xDB]
   | DEAD_GRAVE \<Rightarrow> [0xE0, 0xE8, 0xEC, 0xF2, 0xF9, 0xC0, 0xC8, 0xCC, 0xD2, 0xD9])"

definition spacing :: "DeadKey \<Rightarrow> RootCodepoint" where
  "spacing d = (case d of DEAD_ACUTE \<Rightarrow> 0xB4 | DEAD_DIAERESIS \<Rightarrow> 0xA8 | DEAD_CIRCUMFLEX \<Rightarrow> 94 | DEAD_GRAVE \<Rightarrow> 96 | DEAD_NONE \<Rightarrow> 32)"

definition compose :: "RootCodepoint \<Rightarrow> DeadKey \<Rightarrow> RootCodepoint \<times> DeadKey" where
  "compose character previous =
     (if character = 32 then spacing previous
      else case map_of (zip vowels (accents previous)) character of Some c \<Rightarrow> c | None \<Rightarrow> character,
      DEAD_NONE)"

definition finish :: "RootCodepoint \<Rightarrow> DeadKey \<Rightarrow> RootCodepoint \<times> DeadKey" where
  "finish character dead = (if dead \<noteq> DEAD_NONE then compose character dead else (character, dead))"

text \<open>The keys of the switch that end in \<open>finish\<close>: plain, with Shift, and with AltGr where the code asks for it.\<close>

definition latam_keys :: "(RootKey \<times> RootCodepoint \<times> RootCodepoint \<times> RootCodepoint option) list" where
  "latam_keys =
    [(ROOT_KEY_1, 0x31, 0x21, Some 0x7C), (ROOT_KEY_2, 0x32, 0x22, Some 0x40), (ROOT_KEY_3, 0x33, 0x23, Some 0xB7),
     (ROOT_KEY_4, 0x34, 0x24, Some 0x7E), (ROOT_KEY_5, 0x35, 0x25, None), (ROOT_KEY_6, 0x36, 0x26, Some 0xAC),
     (ROOT_KEY_7, 0x37, 0x2F, Some 0x7B), (ROOT_KEY_8, 0x38, 0x28, Some 0x5B), (ROOT_KEY_9, 0x39, 0x29, Some 0x5D),
     (ROOT_KEY_0, 0x30, 0x3D, Some 0x7D), (ROOT_KEY_MINUS, 0x27, 0x3F, Some 0x5C), (ROOT_KEY_EQUAL, 0xBF, 0xA1, None),
     (ROOT_KEY_RIGHT_BRACKET, 0x2B, 0x2A, Some 0x7E), (ROOT_KEY_SEMICOLON, 0xF1, 0xD1, None),
     (ROOT_KEY_APOSTROPHE, 0x7B, 0x5B, None), (ROOT_KEY_GRAVE, 0x7C, 0xB0, Some 0xAC),
     (ROOT_KEY_BACKSLASH, 0x7D, 0x5D, Some 0x60), (ROOT_KEY_ISO_LTGT, 0x3C, 0x3E, Some 0x7C),
     (ROOT_KEY_COMMA, 0x2C, 0x3B, None), (ROOT_KEY_DOT, 0x2E, 0x3A, None), (ROOT_KEY_SLASH, 0x2D, 0x5F, None),
     (ROOT_KEY_SPACE, 0x20, 0x20, None)]"

definition keypad_operators :: "(RootKey \<times> RootCodepoint) list" where
  "keypad_operators = [(ROOT_KEY_KP_MULTIPLY, 0x2A), (ROOT_KEY_KP_DIVIDE, 0x2F), (ROOT_KEY_KP_PLUS, 0x2B), (ROOT_KEY_KP_MINUS, 0x2D)]"

definition keypad_digits :: "(RootKey \<times> RootCodepoint) list" where
  "keypad_digits = [(ROOT_KEY_KP_0, 0x30), (ROOT_KEY_KP_1, 0x31), (ROOT_KEY_KP_2, 0x32), (ROOT_KEY_KP_3, 0x33), (ROOT_KEY_KP_4, 0x34),
     (ROOT_KEY_KP_5, 0x35), (ROOT_KEY_KP_6, 0x36), (ROOT_KEY_KP_7, 0x37), (ROOT_KEY_KP_8, 0x38), (ROOT_KEY_KP_9, 0x39), (ROOT_KEY_KP_DOT, 0x2E)]"

definition keymap_latam_translate :: "RootKey \<Rightarrow> bool \<Rightarrow> bool \<Rightarrow> bool \<Rightarrow> bool \<Rightarrow> DeadKey \<Rightarrow> RootCodepoint \<times> DeadKey" where
  "keymap_latam_translate key shift altgr caps_lock num_lock dead =
     (if key = ROOT_KEY_E \<and> altgr then (0x20AC, dead)
      else if key_letter key \<noteq> 0 then finish (if shift \<noteq> caps_lock then upper (key_letter key) else key_letter key) dead
      else if key = ROOT_KEY_LEFT_BRACKET then
        (0, if altgr then DEAD_GRAVE else if shift then DEAD_DIAERESIS else DEAD_ACUTE)
      else if key = ROOT_KEY_APOSTROPHE \<and> altgr then (0, DEAD_CIRCUMFLEX)
      else case map_of latam_keys key of
             Some (plain, shifted, graphic) \<Rightarrow>
               (case graphic of
                  Some c \<Rightarrow> if altgr then finish c dead else finish (if shift then shifted else plain) dead
                | None \<Rightarrow> finish (if shift then shifted else plain) dead)
           | None \<Rightarrow>
               (case map_of keypad_operators key of
                  Some c \<Rightarrow> (c, dead)
                | None \<Rightarrow>
                    (case if num_lock then map_of keypad_digits key else None of
                       Some c \<Rightarrow> (c, dead)
                     | None \<Rightarrow> (0, dead))))"

section \<open>Scan codes\<close>

definition normal_codes :: "(u8 \<times> RootKey) list" where
  "normal_codes =
    [(0x01, ROOT_KEY_ESCAPE), (0x02, ROOT_KEY_1), (0x03, ROOT_KEY_2), (0x04, ROOT_KEY_3), (0x05, ROOT_KEY_4),
    (0x06, ROOT_KEY_5), (0x07, ROOT_KEY_6), (0x08, ROOT_KEY_7), (0x09, ROOT_KEY_8), (0x0A, ROOT_KEY_9),
    (0x0B, ROOT_KEY_0), (0x0C, ROOT_KEY_MINUS), (0x0D, ROOT_KEY_EQUAL), (0x0E, ROOT_KEY_BACKSPACE),
    (0x0F, ROOT_KEY_TAB), (0x10, ROOT_KEY_Q), (0x11, ROOT_KEY_W), (0x12, ROOT_KEY_E), (0x13, ROOT_KEY_R),
    (0x14, ROOT_KEY_T), (0x15, ROOT_KEY_Y), (0x16, ROOT_KEY_U), (0x17, ROOT_KEY_I), (0x18, ROOT_KEY_O),
    (0x19, ROOT_KEY_P), (0x1A, ROOT_KEY_LEFT_BRACKET), (0x1B, ROOT_KEY_RIGHT_BRACKET), (0x1C, ROOT_KEY_ENTER),
    (0x1D, ROOT_KEY_LEFT_CTRL), (0x1E, ROOT_KEY_A), (0x1F, ROOT_KEY_S), (0x20, ROOT_KEY_D), (0x21, ROOT_KEY_F),
    (0x22, ROOT_KEY_G), (0x23, ROOT_KEY_H), (0x24, ROOT_KEY_J), (0x25, ROOT_KEY_K), (0x26, ROOT_KEY_L),
    (0x27, ROOT_KEY_SEMICOLON), (0x28, ROOT_KEY_APOSTROPHE), (0x29, ROOT_KEY_GRAVE), (0x2A, ROOT_KEY_LEFT_SHIFT),
    (0x2B, ROOT_KEY_BACKSLASH), (0x2C, ROOT_KEY_Z), (0x2D, ROOT_KEY_X), (0x2E, ROOT_KEY_C), (0x2F, ROOT_KEY_V),
    (0x30, ROOT_KEY_B), (0x31, ROOT_KEY_N), (0x32, ROOT_KEY_M), (0x33, ROOT_KEY_COMMA), (0x34, ROOT_KEY_DOT),
    (0x35, ROOT_KEY_SLASH), (0x36, ROOT_KEY_RIGHT_SHIFT), (0x37, ROOT_KEY_KP_MULTIPLY),
    (0x38, ROOT_KEY_LEFT_ALT), (0x39, ROOT_KEY_SPACE), (0x3A, ROOT_KEY_CAPS_LOCK), (0x3B, ROOT_KEY_F1),
    (0x3C, ROOT_KEY_F2), (0x3D, ROOT_KEY_F3), (0x3E, ROOT_KEY_F4), (0x3F, ROOT_KEY_F5), (0x40, ROOT_KEY_F6),
    (0x41, ROOT_KEY_F7), (0x42, ROOT_KEY_F8), (0x43, ROOT_KEY_F9), (0x44, ROOT_KEY_F10),
    (0x45, ROOT_KEY_NUM_LOCK), (0x46, ROOT_KEY_SCROLL_LOCK), (0x47, ROOT_KEY_KP_7), (0x48, ROOT_KEY_KP_8),
    (0x49, ROOT_KEY_KP_9), (0x4A, ROOT_KEY_KP_MINUS), (0x4B, ROOT_KEY_KP_4), (0x4C, ROOT_KEY_KP_5),
    (0x4D, ROOT_KEY_KP_6), (0x4E, ROOT_KEY_KP_PLUS), (0x4F, ROOT_KEY_KP_1), (0x50, ROOT_KEY_KP_2),
    (0x51, ROOT_KEY_KP_3), (0x52, ROOT_KEY_KP_0), (0x53, ROOT_KEY_KP_DOT), (0x56, ROOT_KEY_ISO_LTGT),
    (0x57, ROOT_KEY_F11), (0x58, ROOT_KEY_F12)]"

definition extended_codes :: "(u8 \<times> RootKey) list" where
  "extended_codes =
    [(0x1C, ROOT_KEY_KP_ENTER), (0x1D, ROOT_KEY_RIGHT_CTRL), (0x35, ROOT_KEY_KP_DIVIDE),
    (0x38, ROOT_KEY_RIGHT_ALT), (0x47, ROOT_KEY_HOME), (0x48, ROOT_KEY_UP), (0x49, ROOT_KEY_PAGE_UP),
    (0x4B, ROOT_KEY_LEFT), (0x4D, ROOT_KEY_RIGHT), (0x4F, ROOT_KEY_END), (0x50, ROOT_KEY_DOWN),
    (0x51, ROOT_KEY_PAGE_DOWN), (0x52, ROOT_KEY_INSERT), (0x53, ROOT_KEY_DELETE)]"

definition normal_key :: "u8 \<Rightarrow> RootKey" where
  "normal_key code = (case map_of normal_codes code of Some key \<Rightarrow> key | None \<Rightarrow> ROOT_KEY_UNKNOWN)"

definition extended_key :: "u8 \<Rightarrow> RootKey" where
  "extended_key code = (case map_of extended_codes code of Some key \<Rightarrow> key | None \<Rightarrow> ROOT_KEY_UNKNOWN)"

record keyboard =
  left_shift :: bool
  right_shift :: bool
  left_ctrl :: bool
  right_ctrl :: bool
  left_alt :: bool
  right_alt :: bool
  caps_lock :: bool
  num_lock :: bool
  extended :: bool
  pause_bytes_remaining :: nat
  dead_key :: DeadKey

record KeyboardEvent =
  ke_key :: RootKey
  ke_codepoint :: RootCodepoint
  ke_pressed :: bool
  ke_shift :: bool
  ke_ctrl :: bool
  ke_alt :: bool
  ke_altgr :: bool
  ke_caps_lock :: bool
  ke_num_lock :: bool

definition update_modifier :: "RootKey \<Rightarrow> bool \<Rightarrow> keyboard \<Rightarrow> keyboard" where
  "update_modifier key pressed k =
     (if key = ROOT_KEY_LEFT_SHIFT then k\<lparr>left_shift := pressed\<rparr>
      else if key = ROOT_KEY_RIGHT_SHIFT then k\<lparr>right_shift := pressed\<rparr>
      else if key = ROOT_KEY_LEFT_CTRL then k\<lparr>left_ctrl := pressed\<rparr>
      else if key = ROOT_KEY_RIGHT_CTRL then k\<lparr>right_ctrl := pressed\<rparr>
      else if key = ROOT_KEY_LEFT_ALT then k\<lparr>left_alt := pressed\<rparr>
      else if key = ROOT_KEY_RIGHT_ALT then k\<lparr>right_alt := pressed\<rparr>
      else k)"

definition update_locks :: "RootKey \<Rightarrow> bool \<Rightarrow> keyboard \<Rightarrow> keyboard" where
  "update_locks key pressed k =
     (if pressed then
        let k = (if key = ROOT_KEY_CAPS_LOCK then k\<lparr>caps_lock := \<not> caps_lock k\<rparr> else k)
        in if key = ROOT_KEY_NUM_LOCK then k\<lparr>num_lock := \<not> num_lock k\<rparr> else k
      else k)"

definition keyboard_reset :: keyboard where
  "keyboard_reset = \<lparr>left_shift = False, right_shift = False, left_ctrl = False, right_ctrl = False, left_alt = False,
     right_alt = False, caps_lock = False, num_lock = False, extended = False, pause_bytes_remaining = 0, dead_key = DEAD_NONE\<rparr>"

definition keyboard_key :: "RootKey \<Rightarrow> bool \<Rightarrow> keyboard \<Rightarrow> KeyboardEvent \<times> keyboard" where
  "keyboard_key key pressed k0 =
     (let k = update_locks key pressed (update_modifier key pressed k0);
          shift = (left_shift k \<or> right_shift k);
          ctrl = (left_ctrl k \<or> right_ctrl k);
          altgr = right_alt k;
          alt = left_alt k;
          text_modifier_ok = ((\<not> ctrl \<and> \<not> alt) \<or> (altgr \<and> \<not> ctrl \<and> \<not> alt));
          (codepoint, dead) = (if pressed \<and> text_modifier_ok
             then keymap_latam_translate key shift altgr (caps_lock k) (num_lock k) (dead_key k)
             else (0, dead_key k))
      in (\<lparr>ke_key = key, ke_codepoint = codepoint, ke_pressed = pressed, ke_shift = shift, ke_ctrl = ctrl, ke_alt = alt,
           ke_altgr = altgr, ke_caps_lock = caps_lock k, ke_num_lock = num_lock k\<rparr>,
          k\<lparr>dead_key := dead\<rparr>))"

definition keyboard_feed_byte :: "u8 \<Rightarrow> keyboard \<Rightarrow> KeyboardEvent option \<times> keyboard" where
  "keyboard_feed_byte scancode k =
     (if pause_bytes_remaining k > 0 then (None, k\<lparr>pause_bytes_remaining := pause_bytes_remaining k - 1\<rparr>)
      else if scancode = 0xE1 then (None, k\<lparr>pause_bytes_remaining := 5, extended := False\<rparr>)
      else if scancode = 0xE0 then (None, k\<lparr>extended := True\<rparr>)
      else
        let released = (scancode AND 0x80 \<noteq> 0);
            code = scancode AND 0x7F;
            key = (if extended k then extended_key code else normal_key code);
            k = k\<lparr>extended := False\<rparr>
        in if key = ROOT_KEY_UNKNOWN then (None, k)
           else case keyboard_key key (\<not> released) k of (event, k) \<Rightarrow> (Some event, k))"

fun keyboard_feed :: "u8 list \<Rightarrow> keyboard \<Rightarrow> KeyboardEvent list \<times> keyboard" where
  "keyboard_feed [] k = ([], k)"
| "keyboard_feed (b # bs) k =
     (case keyboard_feed_byte b k of (e, k) \<Rightarrow>
        case keyboard_feed bs k of (es, k) \<Rightarrow> ((case e of None \<Rightarrow> es | Some e \<Rightarrow> e # es), k))"

section \<open>Well-formed events\<close>

lemma accents_valid: "list_all root_unicode_valid (accents d)"
  by (cases d) (simp_all add: accents_def root_unicode_valid_def)

lemma tables_valid:
  "list_all (\<lambda>(_, p, s, g). root_unicode_valid p \<and> root_unicode_valid s \<and> (case g of None \<Rightarrow> True | Some c \<Rightarrow> root_unicode_valid c)) latam_keys"
  "list_all (root_unicode_valid \<circ> snd) keypad_operators" "list_all (root_unicode_valid \<circ> snd) keypad_digits"
  by (simp_all add: latam_keys_def keypad_operators_def keypad_digits_def root_unicode_valid_def)

lemma letters_valid: "root_unicode_valid (key_letter key) \<and> root_unicode_valid (upper (key_letter key))"
proof -
  have all: "list_all (\<lambda>c. root_unicode_valid c \<and> root_unicode_valid (upper c)) (cps ''abcdefghijklmnopqrstuvwxyz'')"
    by (simp add: cps_def root_unicode_valid_def upper_def)
  show ?thesis
  proof (cases "map_of (zip letter_keys (cps ''abcdefghijklmnopqrstuvwxyz'')) key")
    case (Some c)
    then have "c \<in> set (cps ''abcdefghijklmnopqrstuvwxyz'')" by (blast dest: map_of_SomeD set_zip_rightD)
    then show ?thesis using all Some by (simp add: key_letter_def list_all_iff)
  next
    case None
    then show ?thesis by (simp add: key_letter_def root_unicode_valid_def upper_def)
  qed
qed

lemma spacing_valid: "root_unicode_valid (spacing d)"
  by (cases d) (simp_all add: spacing_def root_unicode_valid_def)

lemma compose_valid: "root_unicode_valid c \<Longrightarrow> root_unicode_valid (fst (compose c d))"
proof (cases "map_of (zip vowels (accents d)) c")
  case (Some a)
  then have "a \<in> set (accents d)" by (blast dest: map_of_SomeD set_zip_rightD)
  then show ?thesis using accents_valid [of d] Some by (simp add: compose_def list_all_iff spacing_valid)
qed (simp add: compose_def spacing_valid)

lemma finish_valid: "root_unicode_valid c \<Longrightarrow> root_unicode_valid (fst (finish c d))"
  by (simp add: finish_def compose_valid)

lemma latam_key_valid:
  assumes "map_of latam_keys key = Some (p, s, g)"
  shows "root_unicode_valid p" "root_unicode_valid s" "g = Some c \<Longrightarrow> root_unicode_valid c"
  using map_of_SomeD [OF assms] tables_valid(1) by (auto simp: list_all_iff)

lemma keypad_valid:
  "map_of keypad_operators key = Some c \<Longrightarrow> root_unicode_valid c"
  "(if num then map_of keypad_digits key else None) = Some c \<Longrightarrow> root_unicode_valid c"
  using tables_valid(2,3) by (auto simp: list_all_iff split: if_splits dest!: map_of_SomeD)

lemma translate_valid: "root_unicode_valid (fst (keymap_latam_translate key shift altgr caps num dead))"
proof -
  have zero: "root_unicode_valid 0" "root_unicode_valid 0x20AC" by (simp_all add: root_unicode_valid_def)
  have pad: "root_unicode_valid (fst (case if num then map_of keypad_digits key else None of Some c \<Rightarrow> (c, dead) | None \<Rightarrow> (0, dead)))"
    using zero keypad_valid(2) [of num key] by (cases "if num then map_of keypad_digits key else None") simp_all
  have table: "root_unicode_valid (fst (case map_of latam_keys key of
       Some (plain, shifted, graphic) \<Rightarrow>
         (case graphic of
            Some c \<Rightarrow> if altgr then finish c dead else finish (if shift then shifted else plain) dead
          | None \<Rightarrow> finish (if shift then shifted else plain) dead)
     | None \<Rightarrow> (case map_of keypad_operators key of Some c \<Rightarrow> (c, dead)
          | None \<Rightarrow> (case if num then map_of keypad_digits key else None of Some c \<Rightarrow> (c, dead) | None \<Rightarrow> (0, dead)))))"
  proof (cases "map_of latam_keys key")
    case None
    then show ?thesis using pad keypad_valid(1) [of key] by (cases "map_of keypad_operators key") simp_all
  next
    case (Some t)
    then obtain p s g where "map_of latam_keys key = Some (p, s, g)" by (cases t) auto
    then show ?thesis using latam_key_valid [of key p s g] by (cases g) (auto simp: finish_valid)
  qed
  show ?thesis unfolding keymap_latam_translate_def
    using zero table letters_valid [of key] by (simp add: finish_valid split del: option.split)
qed

lemma codes_known:
  "list_all (\<lambda>(_, key). 0 < key \<and> key < ROOT_KEY_COUNT) normal_codes"
  "list_all (\<lambda>(_, key). 0 < key \<and> key < ROOT_KEY_COUNT) extended_codes"
  by (simp_all add: normal_codes_def extended_codes_def)

lemma key_known: "normal_key code < ROOT_KEY_COUNT" "extended_key code < ROOT_KEY_COUNT"
  using codes_known by (auto simp: normal_key_def extended_key_def list_all_iff split: option.split dest!: map_of_SomeD)

definition event_wellformed :: "KeyboardEvent \<Rightarrow> bool" where
  "event_wellformed e \<longleftrightarrow> 0 < ke_key e \<and> ke_key e < ROOT_KEY_COUNT \<and> root_unicode_valid (ke_codepoint e)
     \<and> (\<not> ke_pressed e \<or> ke_ctrl e \<or> ke_alt e \<longrightarrow> ke_codepoint e = 0)"

lemma keyboard_key_wellformed:
  assumes "0 < key" "key < ROOT_KEY_COUNT"
  shows "event_wellformed (fst (keyboard_key key pressed k))"
proof -
  have "root_unicode_valid 0" by (simp add: root_unicode_valid_def)
  then show ?thesis
    using assms translate_valid unfolding keyboard_key_def event_wellformed_def Let_def by (auto simp: case_prod_beta)
qed

lemma feed_byte_wellformed: "keyboard_feed_byte b k = (Some e, k') \<Longrightarrow> event_wellformed e"
  using key_known keyboard_key_wellformed
  by (auto simp: keyboard_feed_byte_def Let_def split: if_split_asm prod.split_asm) (metis fst_conv)+

text \<open>
  C31: Whatever bytes the keyboard sends, every event it leads to names a key of the enumeration (so that the index into
  the table of key states is in range) and carries a Unicode scalar value, and releases and key strokes held with Ctrl
  or Alt carry no text.
\<close>

theorem keyboard_events_wellformed: "list_all event_wellformed (fst (keyboard_feed bytes k))"
proof (induction bytes arbitrary: k)
  case (Cons b bytes)
  obtain e k1 where fb: "keyboard_feed_byte b k = (e, k1)" by force
  then show ?case using Cons feed_byte_wellformed [of b k _ k1] by (auto split: option.split simp: case_prod_beta)
qed simp

section \<open>Strokes\<close>

text \<open>The bytes a set-1 keyboard sends for a key, and the decoder read as a function on strokes.\<close>

definition key_codes :: "RootKey \<Rightarrow> u8 list \<times> u8" where
  "key_codes key = (case map_of (map prod.swap extended_codes) key of
     Some c \<Rightarrow> ([0xE0], c)
   | None \<Rightarrow> (case map_of (map prod.swap normal_codes) key of Some c \<Rightarrow> ([], c) | None \<Rightarrow> ([], 0)))"

definition stroke_bytes :: "RootKey \<times> bool \<Rightarrow> u8 list" where
  "stroke_bytes stroke = (case stroke of (key, pressed) \<Rightarrow>
     case key_codes key of (lead, c) \<Rightarrow> lead @ [if pressed then c else c OR 0x80])"

fun keyboard_strokes :: "(RootKey \<times> bool) list \<Rightarrow> keyboard \<Rightarrow> KeyboardEvent list \<times> keyboard" where
  "keyboard_strokes [] k = ([], k)"
| "keyboard_strokes ((key, pressed) # ss) k =
     (case keyboard_key key pressed k of (e, k) \<Rightarrow> case keyboard_strokes ss k of (es, k) \<Rightarrow> (e # es, k))"

definition keyboard_idle :: "keyboard \<Rightarrow> bool" where
  "keyboard_idle k \<longleftrightarrow> pause_bytes_remaining k = 0 \<and> \<not> extended k"

definition known_keys :: "RootKey list" where
  "known_keys = map snd extended_codes @ map snd normal_codes"

definition code_ok :: "u8 \<Rightarrow> bool" where
  "code_ok c \<longleftrightarrow> c \<noteq> 0xE0 \<and> c \<noteq> 0xE1 \<and> c OR 0x80 \<noteq> 0xE0 \<and> c OR 0x80 \<noteq> 0xE1 \<and> c AND 0x80 = 0 \<and> c AND 0x7F = c
     \<and> (c OR 0x80) AND 0x80 \<noteq> 0 \<and> (c OR 0x80) AND 0x7F = c"

lemma codes_ok: "list_all (code_ok \<circ> fst) normal_codes" "list_all (code_ok \<circ> fst) extended_codes"
  by (simp_all add: normal_codes_def extended_codes_def code_ok_def)

lemma codes_distinct: "distinct (map snd (extended_codes @ normal_codes))" "distinct (map fst normal_codes)" "distinct (map fst extended_codes)"
  by (simp_all add: normal_codes_def extended_codes_def)

lemma key_codes_ok:
  assumes "key \<in> set known_keys"
  obtains c where "code_ok c" "key \<noteq> 0" "key_codes key = ([], c) \<and> normal_key c = key \<or> key_codes key = ([0xE0], c) \<and> extended_key c = key"
proof -
  have dist: "distinct (map fst (map prod.swap extended_codes))" "distinct (map fst (map prod.swap normal_codes))"
    using codes_distinct(1) by (simp_all add: comp_def)
  from assms consider (e) c where "(c, key) \<in> set extended_codes" | (n) c where "(c, key) \<in> set normal_codes"
    by (auto simp: known_keys_def)
  then show ?thesis
  proof cases
    case e
    then have "map_of (map prod.swap extended_codes) key = Some c" using dist(1) by (intro map_of_is_SomeI) force+
    moreover have "extended_key c = key" using map_of_is_SomeI [OF codes_distinct(3) e] by (simp add: extended_key_def)
    ultimately show ?thesis using that [of c] codes_ok(2) codes_known(2) e by (fastforce simp: key_codes_def list_all_iff)
  next
    case n
    then have "map_of (map prod.swap normal_codes) key = Some c" using dist(2) by (intro map_of_is_SomeI) force+
    moreover have "normal_key c = key" using map_of_is_SomeI [OF codes_distinct(2) n] by (simp add: normal_key_def)
    moreover have "map_of (map prod.swap extended_codes) key = None"
    proof -
      have "key \<in> snd ` set normal_codes" using n by force
      then have "key \<notin> snd ` set extended_codes" using codes_distinct(1) by auto
      then show ?thesis by (simp add: map_of_eq_None_iff image_image)
    qed
    ultimately show ?thesis using that [of c] codes_ok(1) codes_known(1) n by (fastforce simp: key_codes_def list_all_iff)
  qed
qed

lemma keyboard_key_idle: "keyboard_idle (snd (keyboard_key key pressed k)) = keyboard_idle k"
  by (simp add: keyboard_key_def keyboard_idle_def update_modifier_def update_locks_def Let_def case_prod_beta)

lemma feed_append: "keyboard_feed (xs @ ys) k =
   (case keyboard_feed xs k of (es, k) \<Rightarrow> case keyboard_feed ys k of (fs, k) \<Rightarrow> (es @ fs, k))"
  by (induction xs arbitrary: k) (auto simp: case_prod_beta split: option.split)

lemma feed_stroke:
  assumes "keyboard_idle k" "key \<in> set known_keys"
  shows "keyboard_feed (stroke_bytes (key, pressed)) k = ([fst (keyboard_key key pressed k)], snd (keyboard_key key pressed k))"
proof -
  from key_codes_ok [OF assms(2)] obtain c where c: "code_ok c" "key \<noteq> 0"
    "key_codes key = ([], c) \<and> normal_key c = key \<or> key_codes key = ([0xE0], c) \<and> extended_key c = key" by blast
  have k: "k\<lparr>extended := False\<rparr> = k" "pause_bytes_remaining k = 0" "\<not> extended k" using assms(1) by (simp_all add: keyboard_idle_def)
  have kx: "k\<lparr>extended := True, extended := False\<rparr> = k" using k(1) by simp
  let ?b = "if pressed then c else c OR 0x80"
  have b: "?b \<noteq> 0xE0" "?b \<noteq> 0xE1" "(?b AND 0x80 \<noteq> 0) = (\<not> pressed)" "?b AND 0x7F = c" using c(1) by (simp_all add: code_ok_def)
  have one: "keyboard_feed_byte ?b q = (Some (fst (keyboard_key key pressed k)), snd (keyboard_key key pressed k))"
    if "pause_bytes_remaining q = 0" "q\<lparr>extended := False\<rparr> = k" "(if extended q then extended_key c else normal_key c) = key" for q
    using b that c(2) unfolding keyboard_feed_byte_def Let_def by (auto simp: case_prod_beta split: if_split_asm)
  from c(3) show ?thesis
  proof
    assume "key_codes key = ([], c) \<and> normal_key c = key"
    then show ?thesis using one [of k] k by (simp add: stroke_bytes_def)
  next
    assume e: "key_codes key = ([0xE0], c) \<and> extended_key c = key"
    have "keyboard_feed_byte 0xE0 k = (None, k\<lparr>extended := True\<rparr>)" using k by (simp add: keyboard_feed_byte_def)
    then show ?thesis using e one [of "k\<lparr>extended := True\<rparr>"] k kx by (simp add: stroke_bytes_def)
  qed
qed

lemma feed_strokes:
  "keyboard_idle k \<Longrightarrow> fst ` set strokes \<subseteq> set known_keys \<Longrightarrow>
     keyboard_feed (concat (map stroke_bytes strokes)) k = keyboard_strokes strokes k"
proof (induction strokes arbitrary: k)
  case (Cons s strokes)
  obtain key pressed where s: "s = (key, pressed)" by force
  have "keyboard_feed (concat (map stroke_bytes strokes)) (snd (keyboard_key key pressed k)) =
      keyboard_strokes strokes (snd (keyboard_key key pressed k))"
    using Cons s by (intro Cons.IH) (auto simp: keyboard_key_idle)
  moreover have "keyboard_feed (stroke_bytes s) k = ([fst (keyboard_key key pressed k)], snd (keyboard_key key pressed k))"
    using feed_stroke [of k key pressed] Cons.prems s by simp
  ultimately show ?case by (simp add: feed_append s case_prod_beta)
qed simp

lemma pause_ignored: "keyboard_idle k \<Longrightarrow> keyboard_feed [0xE1, 0x1D, 0x45, 0xE1, 0x9D, 0xC5] k = ([], k)"
  by (simp add: keyboard_feed_byte_def keyboard_idle_def)

text \<open>
  C30: The decoder inverts the keyboard: fed with the set-1 codes of any sequence of strokes on known keys (in front of
  them the six bytes of Pause, which must not be taken for Ctrl), it delivers one event per stroke, in order, for that
  key and direction.
\<close>

theorem keyboard_decodes_strokes:
  assumes "keyboard_idle k" "fst ` set strokes \<subseteq> set known_keys"
  shows "keyboard_feed ([0xE1, 0x1D, 0x45, 0xE1, 0x9D, 0xC5] @ concat (map stroke_bytes strokes)) k = keyboard_strokes strokes k
    \<and> map (\<lambda>e. (ke_key e, ke_pressed e)) (fst (keyboard_strokes strokes k)) = strokes"
proof -
  have "map (\<lambda>e. (ke_key e, ke_pressed e)) (fst (keyboard_strokes strokes k)) = strokes"
    by (induction strokes k rule: keyboard_strokes.induct) (auto simp: case_prod_beta keyboard_key_def Let_def)
  then show ?thesis
    using feed_strokes [OF assms] pause_ignored [OF assms(1)] by (simp only: feed_append) simp
qed

theorem keyboard_decodes_strokes_witness:
  "keyboard_feed ([0xE1, 0x1D, 0x45, 0xE1, 0x9D, 0xC5] @ concat (map stroke_bytes [(ROOT_KEY_A, True), (ROOT_KEY_DELETE, True)])) keyboard_reset
     = keyboard_strokes [(ROOT_KEY_A, True), (ROOT_KEY_DELETE, True)] keyboard_reset
   \<and> map (\<lambda>e. (ke_key e, ke_pressed e)) (fst (keyboard_strokes [(ROOT_KEY_A, True), (ROOT_KEY_DELETE, True)] keyboard_reset))
     = [(ROOT_KEY_A, True), (ROOT_KEY_DELETE, True)]"
proof (rule keyboard_decodes_strokes)
  show "keyboard_idle keyboard_reset" by (simp add: keyboard_idle_def keyboard_reset_def)
  show "fst ` set [(ROOT_KEY_A, True), (ROOT_KEY_DELETE, True)] \<subseteq> set known_keys"
    by (simp add: known_keys_def normal_codes_def extended_codes_def)
qed

section \<open>Modifiers and dead keys\<close>

definition accented :: "DeadKey \<Rightarrow> RootCodepoint \<Rightarrow> RootCodepoint" where
  "accented d c = (case map_of (zip vowels (accents d)) c of Some a \<Rightarrow> a | None \<Rightarrow> c)"

definition letter_of :: "bool \<Rightarrow> RootKey \<Rightarrow> RootCodepoint" where
  "letter_of capital key = (if capital then upper (key_letter key) else key_letter key)"

definition plain_modifiers :: "keyboard \<Rightarrow> bool" where
  "plain_modifiers k \<longleftrightarrow> \<not> left_ctrl k \<and> \<not> right_ctrl k \<and> \<not> left_alt k \<and> \<not> right_alt k"

text \<open>No letter is also a modifier or a lock, and no letter is the blank that spells an accent alone.\<close>

lemma letters_plain:
  assumes "key \<in> set letter_keys"
  shows "update_modifier key p k = k" "update_locks key p k = k" "key_letter key \<noteq> 0" "letter_of b key \<noteq> 32"
proof -
  have "list_all (\<lambda>key. key_letter key \<noteq> 0 \<and> letter_of True key \<noteq> 32 \<and> letter_of False key \<noteq> 32
      \<and> key \<notin> {ROOT_KEY_LEFT_SHIFT, ROOT_KEY_RIGHT_SHIFT, ROOT_KEY_LEFT_CTRL, ROOT_KEY_RIGHT_CTRL, ROOT_KEY_LEFT_ALT, ROOT_KEY_RIGHT_ALT,
               ROOT_KEY_CAPS_LOCK, ROOT_KEY_NUM_LOCK}) letter_keys"
    by (simp add: letter_keys_def key_letter_def letter_of_def cps_def upper_def)
  then have "key_letter key \<noteq> 0 \<and> letter_of True key \<noteq> 32 \<and> letter_of False key \<noteq> 32
      \<and> key \<notin> {ROOT_KEY_LEFT_SHIFT, ROOT_KEY_RIGHT_SHIFT, ROOT_KEY_LEFT_CTRL, ROOT_KEY_RIGHT_CTRL, ROOT_KEY_LEFT_ALT, ROOT_KEY_RIGHT_ALT,
               ROOT_KEY_CAPS_LOCK, ROOT_KEY_NUM_LOCK}"
    using assms by (simp add: list_all_iff)
  then show "update_modifier key p k = k" "update_locks key p k = k" "key_letter key \<noteq> 0" "letter_of b key \<noteq> 32"
    by (cases b; simp add: update_modifier_def update_locks_def Let_def)+
qed

text \<open>
  A letter typed without Ctrl, Alt and AltGr is delivered in the case that Shift and Caps Lock give it, with the
  accent of the dead key struck before, and the dead key is then used up.
\<close>

theorem keyboard_letter_correct:
  assumes "plain_modifiers k" "key \<in> set letter_keys"
  shows "ke_codepoint (fst (keyboard_key key True k)) = accented (dead_key k) (letter_of ((left_shift k \<or> right_shift k) \<noteq> caps_lock k) key)
    \<and> dead_key (snd (keyboard_key key True k)) = DEAD_NONE"
proof -
  have "compose (letter_of b key) (dead_key k) = (accented (dead_key k) (letter_of b key), DEAD_NONE)" for b
    using letters_plain(4) [OF assms(2), of b] by (simp add: compose_def accented_def)
  moreover have "accented DEAD_NONE c = c" for c by (simp add: accented_def accents_def)
  ultimately have "finish (letter_of b key) (dead_key k) = (accented (dead_key k) (letter_of b key), DEAD_NONE)" for b
    by (cases "dead_key k = DEAD_NONE") (simp_all add: finish_def)
  then show ?thesis
    using assms(1) letters_plain [OF assms(2)]
    by (simp add: keyboard_key_def Let_def plain_modifiers_def keymap_latam_translate_def flip: letter_of_def)
qed

theorem keyboard_letter_correct_witness:
  "ke_codepoint (fst (keyboard_key ROOT_KEY_E True (keyboard_reset\<lparr>dead_key := DEAD_ACUTE\<rparr>)))
     = accented DEAD_ACUTE (letter_of False ROOT_KEY_E)
   \<and> accented DEAD_ACUTE (letter_of False ROOT_KEY_E) = 0xE9"
proof -
  have "plain_modifiers (keyboard_reset\<lparr>dead_key := DEAD_ACUTE\<rparr>)" "ROOT_KEY_E \<in> set letter_keys"
    by (simp_all add: plain_modifiers_def keyboard_reset_def letter_keys_def)
  moreover have "accented DEAD_ACUTE (letter_of False ROOT_KEY_E) = 0xE9"
    by (simp add: accented_def letter_of_def key_letter_def letter_keys_def cps_def vowels_def accents_def)
  ultimately show ?thesis using keyboard_letter_correct [of "keyboard_reset\<lparr>dead_key := DEAD_ACUTE\<rparr>" ROOT_KEY_E]
    by (simp add: keyboard_reset_def)
qed

end
