(* ===== verification/Root_Ring.thy ===== *)
theory Root_Ring
  imports Root_Prelude
begin

text \<open>
  Fixed rings of the kernel: an array of \<open>n\<close> entries read from a start position, as the input queue, the scrollback of
  the terminal and the undo and redo stacks of the editor use it. \<open>ring_list\<close> is the sequence a ring holds, oldest
  entry first; \<open>bounded_log\<close> is the contract of a ring that forgets its oldest entry when it is full.
\<close>

definition ring_list :: "nat \<Rightarrow> 'a list \<Rightarrow> nat \<Rightarrow> nat \<Rightarrow> 'a list" where
  "ring_list n xs start count = map (\<lambda>k. xs ! ((start + k) mod n)) [0..<count]"

definition last_n :: "nat \<Rightarrow> 'a list \<Rightarrow> 'a list" where
  "last_n n xs = drop (length xs - n) xs"

lemma last_n_short [simp]: "length xs \<le> n \<Longrightarrow> last_n n xs = xs"
  by (simp add: last_n_def)

lemma length_last_n [simp]: "length (last_n n xs) = min n (length xs)"
  by (simp add: last_n_def)

lemma last_n_last_n_append [simp]: "last_n n (last_n n xs @ ys) = last_n n (xs @ ys)"
  by (cases "length xs \<le> n") (auto simp: last_n_def add.commute)

lemma last_n_last_n [simp]: "last_n n (last_n n xs) = last_n n xs"
  by (simp add: last_n_def)

lemma length_ring_list [simp]: "length (ring_list n xs start count) = count"
  by (simp add: ring_list_def)

lemma ring_list_0 [simp]: "ring_list n xs start 0 = []"
  by (simp add: ring_list_def)

lemma ring_list_Suc: "ring_list n xs start (Suc count) = ring_list n xs start count @ [xs ! ((start + count) mod n)]"
  by (simp add: ring_list_def)

lemma nth_ring_list: "k < count \<Longrightarrow> ring_list n xs start count ! k = xs ! ((start + k) mod n)"
  by (simp add: ring_list_def)

text \<open>Two positions of a ring that are less than a turn apart are different.\<close>

lemma ring_position_inj:
  assumes "i < n" "k < (n::nat)" "(start + i) mod n = (start + k) mod n"
  shows "i = k"
proof -
  have close: "a \<le> b \<Longrightarrow> b < a + n \<Longrightarrow> a mod n = b mod n \<Longrightarrow> a = b" for a b
    using mod_eq_dvd_iff_nat [of a b n] nat_dvd_not_less [of "b - a" n] by fastforce
  show ?thesis
    using close [of "start + i" "start + k"] close [of "start + k" "start + i"] assms by (cases "i \<le> k") auto
qed

lemma ring_list_update_outside:
  assumes "count \<le> n" "i < n" "\<And>k. k < count \<Longrightarrow> (start + k) mod n \<noteq> i"
  shows "ring_list n (xs[i := v]) start count = ring_list n xs start count"
  unfolding ring_list_def by (rule map_cong) (use assms(3) in \<open>force intro: nth_list_update_neq\<close>)+

lemma ring_list_append:
  assumes "length xs = n" "count < n"
  shows "ring_list n (xs[(start + count) mod n := v]) start (Suc count) = ring_list n xs start count @ [v]"
proof -
  have "(start + k) mod n \<noteq> (start + count) mod n" if "k < count" for k
    using ring_position_inj [of k n count start] that assms(2) by auto
  then have "ring_list n (xs[(start + count) mod n := v]) start count = ring_list n xs start count"
    using assms by (intro ring_list_update_outside) auto
  then show ?thesis using assms by (simp add: ring_list_Suc)
qed

lemma ring_list_tl: "ring_list n xs ((start + 1) mod n) count = tl (ring_list n xs start (Suc count))"
proof (rule nth_equalityI)
  fix k assume "k < length (ring_list n xs ((start + 1) mod n) count)"
  then show "ring_list n xs ((start + 1) mod n) count ! k = tl (ring_list n xs start (Suc count)) ! k"
    by (simp add: nth_ring_list nth_tl mod_simps)
qed simp

lemma ring_list_overwrite:
  assumes "length xs = n" "start < n"
  shows "ring_list n (xs[start := v]) ((start + 1) mod n) n = tl (ring_list n xs start n) @ [v]"
proof -
  obtain m where m: "n = Suc m" using assms(2) by (cases n) auto
  have "((start + 1) mod n + m) mod n = (start + n) mod n" unfolding m by (simp add: mod_simps del: mod_add_self2)
  then have "((start + 1) mod n + m) mod n = start" using assms(2) by simp
  then have "ring_list n (xs[start := v]) ((start + 1) mod n) (Suc m) = ring_list n xs ((start + 1) mod n) m @ [v]"
    using ring_list_append [of xs n m "(start + 1) mod n" v] assms m by simp
  then show ?thesis using ring_list_tl [of n xs start m] unfolding m by simp
qed

text \<open>Writing behind the newest entry, and over the oldest one of a full ring, keeps the last \<open>n\<close> entries.\<close>

lemma ring_list_push:
  assumes "length xs = n" "start < n" "count \<le> n"
  shows "(if count < n then ring_list n (xs[(start + count) mod n := v]) start (Suc count)
          else ring_list n (xs[start := v]) ((start + 1) mod n) n) = last_n n (ring_list n xs start count @ [v])"
proof (cases "count < n")
  case True
  then show ?thesis using assms(1) by (simp add: ring_list_append)
next
  case False
  have "last_n n (ring_list n xs start n @ [v]) = tl (ring_list n xs start n) @ [v]"
    using assms(2) by (simp add: last_n_def drop_Suc)
  then show ?thesis using False assms ring_list_overwrite [OF assms(1,2), of v] by simp
qed

section \<open>Logs that keep their newest entries\<close>

locale bounded_log =
  fixes push :: "'a \<Rightarrow> 's \<Rightarrow> 's"
    and content :: "'s \<Rightarrow> 'a list"
    and capacity :: nat
    and good :: "'s \<Rightarrow> bool"
  assumes good_push: "good s \<Longrightarrow> good (push a s)"
    and content_push: "good s \<Longrightarrow> content (push a s) = last_n capacity (content s @ [a])"
    and content_bounded: "good s \<Longrightarrow> length (content s) \<le> capacity"
begin

lemma fold_push:
  "good s \<Longrightarrow> good (fold push as s) \<and> content (fold push as s) = last_n capacity (content s @ as)"
proof (induction as arbitrary: s)
  case Nil
  then show ?case by (simp add: content_bounded)
next
  case (Cons a as)
  then have "content (fold push as (push a s)) = last_n capacity (last_n capacity (content s @ [a]) @ as)"
    using good_push content_push by simp
  then show ?case using Cons good_push by simp
qed

lemma newest_kept: "good s \<Longrightarrow> 0 < capacity \<Longrightarrow> content (push a s) \<noteq> [] \<and> last (content (push a s)) = a"
  by (simp add: content_push last_n_def)

lemma older_kept:
  assumes "good s" "0 < capacity"
  shows "butlast (content (push a s)) = last_n (capacity - 1) (content s)"
  using assms by (simp add: content_push last_n_def butlast_append butlast_drop Suc_diff_Suc flip: drop_Suc)

end

end
