(* ===== verification/Root_Screen.thy ===== *)
theory Root_Screen
  imports Root_Prelude
begin

text \<open>
  The display as the terminal, the editor and the input layer see it (\<open>source/display/rootdisplay.h\<close>): whether it is
  ready and how large it is, and the drawing requests they made, in order. Every \<open>rootdisplay\<close> call of those components
  is a value of \<open>DisplayOp\<close> that is appended to the trace.
\<close>

datatype DisplayOp =
    Begin_update
  | End_update
  | Clear u32
  | Fill_rect nat nat nat nat u32
  | Invert_rect nat nat nat nat
  | Draw_mono_bitmap nat nat nat nat "u8 list" nat u32 u32 bool
  | Scroll_up nat u32
  | Shift_vertical nat nat int u32
  | Cursor_enable bool
  | Cursor_move int int

record display =
  display_ready :: bool
  display_width :: nat
  display_height :: nat
  display_trace :: "DisplayOp list"

definition request :: "DisplayOp \<Rightarrow> display \<Rightarrow> display" where
  "request op d = d\<lparr>display_trace := display_trace d @ [op]\<rparr>"

lemma request_simps [simp]:
  "display_ready (request op d) = display_ready d" "display_width (request op d) = display_width d"
  "display_height (request op d) = display_height d" "display_trace (request op d) = display_trace d @ [op]"
  by (simp_all add: request_def)

end
