(* ===== verification/Root_Input.thy ===== *)
theory Root_Input
  imports Root_Keyboard Root_Ring Root_Screen "HOL-Library.Monad_Syntax"
begin

text \<open>
  Input: \<open>source/drivers/input/ps2.c\<close> and \<open>mouse.c\<close> (the controller and the mouse protocol) and
  \<open>source/input/rootinput_legacy_impl.c\<close> with its wrapper \<open>rootinput.c\<close> (events and their queue).

  The 8042 controller, the clock and the \<open>hlt\<close> instruction are the parameter \<open>ps2_port\<close>: reading and writing a port, the
  milliseconds since boot, and waiting for an interrupt act on a hardware state of any type. Coordinates are integers;
  the code keeps them between 0 and the size of the screen.
\<close>

record 'h ps2_port =
  port_in :: "nat \<Rightarrow> 'h \<Rightarrow> u8 \<times> 'h"
  port_out :: "nat \<Rightarrow> u8 \<Rightarrow> 'h \<Rightarrow> 'h"
  time_millis :: "'h \<Rightarrow> nat"
  halt :: "'h \<Rightarrow> 'h"

abbreviation PS2_DATA_PORT :: nat where "PS2_DATA_PORT \<equiv> 0x60"
abbreviation PS2_STATUS_PORT :: nat where "PS2_STATUS_PORT \<equiv> 0x64"
abbreviation PS2_COMMAND_PORT :: nat where "PS2_COMMAND_PORT \<equiv> 0x64"

definition PS2_STATUS_OUTPUT_FULL :: u8 where "PS2_STATUS_OUTPUT_FULL = 0x01"
definition PS2_STATUS_INPUT_FULL :: u8 where "PS2_STATUS_INPUT_FULL = 0x02"
definition PS2_STATUS_MOUSE_DATA :: u8 where "PS2_STATUS_MOUSE_DATA = 0x20"

section \<open>The controller\<close>

definition ps2_status :: "'h ps2_port \<Rightarrow> 'h \<Rightarrow> u8 \<times> 'h" where
  "ps2_status P h = port_in P PS2_STATUS_PORT h"

definition ps2_has_data :: "'h ps2_port \<Rightarrow> 'h \<Rightarrow> bool \<times> 'h" where
  "ps2_has_data P h = (case ps2_status P h of (status, h) \<Rightarrow> (status AND PS2_STATUS_OUTPUT_FULL \<noteq> 0, h))"

definition ps2_read_data :: "'h ps2_port \<Rightarrow> 'h \<Rightarrow> u8 \<times> 'h" where
  "ps2_read_data P h = port_in P PS2_DATA_PORT h"

text \<open>A bounded wait reads the status until the condition holds, at most \<open>n\<close> times.\<close>

fun wait_status :: "'h ps2_port \<Rightarrow> (u8 \<Rightarrow> bool) \<Rightarrow> nat \<Rightarrow> 'h \<Rightarrow> bool \<times> 'h" where
  "wait_status P ready 0 h = (False, h)"
| "wait_status P ready (Suc n) h =
     (case port_in P PS2_STATUS_PORT h of (status, h) \<Rightarrow> if ready status then (True, h) else wait_status P ready n h)"

definition PS2_TIMEOUT :: nat where "PS2_TIMEOUT = 1000000"
definition MOUSE_IO_TIMEOUT :: nat where "MOUSE_IO_TIMEOUT = 200000"

definition ps2_wait_input_clear :: "'h ps2_port \<Rightarrow> 'h \<Rightarrow> bool \<times> 'h" where
  "ps2_wait_input_clear P = wait_status P (\<lambda>s. s AND PS2_STATUS_INPUT_FULL = 0) PS2_TIMEOUT"

definition ps2_wait_output_full :: "'h ps2_port \<Rightarrow> 'h \<Rightarrow> bool \<times> 'h" where
  "ps2_wait_output_full P = wait_status P (\<lambda>s. s AND PS2_STATUS_OUTPUT_FULL \<noteq> 0) PS2_TIMEOUT"

definition ps2_write_command :: "'h ps2_port \<Rightarrow> u8 \<Rightarrow> 'h \<Rightarrow> bool \<times> 'h" where
  "ps2_write_command P command h = (case ps2_wait_input_clear P h of (ok, h) \<Rightarrow>
     if \<not> ok then (False, h) else (True, port_out P PS2_COMMAND_PORT command h))"

definition ps2_write_data :: "'h ps2_port \<Rightarrow> u8 \<Rightarrow> 'h \<Rightarrow> bool \<times> 'h" where
  "ps2_write_data P data h = (case ps2_wait_input_clear P h of (ok, h) \<Rightarrow>
     if \<not> ok then (False, h) else (True, port_out P PS2_DATA_PORT data h))"

definition ps2_write_mouse :: "'h ps2_port \<Rightarrow> u8 \<Rightarrow> 'h \<Rightarrow> bool \<times> 'h" where
  "ps2_write_mouse P data h = (case ps2_write_command P 0xD4 h of (ok, h) \<Rightarrow>
     if \<not> ok then (False, h) else ps2_write_data P data h)"

fun ps2_flush_loop :: "'h ps2_port \<Rightarrow> nat \<Rightarrow> 'h \<Rightarrow> 'h" where
  "ps2_flush_loop P 0 h = h"
| "ps2_flush_loop P (Suc n) h =
     (case ps2_has_data P h of (full, h) \<Rightarrow> if \<not> full then h else ps2_flush_loop P n (snd (ps2_read_data P h)))"

definition ps2_flush :: "'h ps2_port \<Rightarrow> 'h \<Rightarrow> 'h" where
  "ps2_flush P = ps2_flush_loop P 256"

section \<open>The mouse\<close>

record MousePacket =
  mp_dx :: int
  mp_dy :: int
  mp_wheel :: int
  mp_left :: bool
  mp_right :: bool
  mp_middle :: bool

record mouse =
  packet_bytes :: "u8 list"
  packet_index :: nat
  packet_size :: nat
  wheel_available :: bool

definition wait_input_clear :: "'h ps2_port \<Rightarrow> 'h \<Rightarrow> bool \<times> 'h" where
  "wait_input_clear P = wait_status P (\<lambda>s. s AND 0x02 = 0) MOUSE_IO_TIMEOUT"

definition wait_mouse_output :: "'h ps2_port \<Rightarrow> 'h \<Rightarrow> bool \<times> 'h" where
  "wait_mouse_output P = wait_status P (\<lambda>s. s AND 0x01 \<noteq> 0 \<and> s AND 0x20 \<noteq> 0) MOUSE_IO_TIMEOUT"

definition read_mouse_byte :: "'h ps2_port \<Rightarrow> 'h \<Rightarrow> u8 option \<times> 'h" where
  "read_mouse_byte P h = (case wait_mouse_output P h of (ok, h) \<Rightarrow>
     if \<not> ok then (None, h) else case port_in P PS2_DATA_PORT h of (b, h) \<Rightarrow> (Some b, h))"

definition write_mouse_byte :: "'h ps2_port \<Rightarrow> u8 \<Rightarrow> 'h \<Rightarrow> bool \<times> 'h" where
  "write_mouse_byte P value h = (case wait_input_clear P h of (ok, h) \<Rightarrow>
     if \<not> ok then (False, h)
     else case wait_input_clear P (port_out P PS2_COMMAND_PORT 0xD4 h) of (ok, h) \<Rightarrow>
       if \<not> ok then (False, h) else (True, port_out P PS2_DATA_PORT value h))"

definition mouse_command :: "'h ps2_port \<Rightarrow> u8 \<Rightarrow> 'h \<Rightarrow> bool \<times> 'h" where
  "mouse_command P command h = (case write_mouse_byte P command h of (ok, h) \<Rightarrow>
     if \<not> ok then (False, h)
     else case read_mouse_byte P h of (reply, h) \<Rightarrow> (reply = Some 0xFA, h))"

definition mouse_command_value :: "'h ps2_port \<Rightarrow> u8 \<Rightarrow> u8 \<Rightarrow> 'h \<Rightarrow> bool \<times> 'h" where
  "mouse_command_value P command value h = (case mouse_command P command h of (ok, h) \<Rightarrow>
     if \<not> ok then (False, h) else mouse_command P value h)"

definition try_enable_wheel :: "'h ps2_port \<Rightarrow> 'h \<Rightarrow> u8 option \<times> 'h" where
  "try_enable_wheel P h =
     (case mouse_command_value P 0xF3 200 h of (ok, h) \<Rightarrow> if \<not> ok then (None, h)
      else case mouse_command_value P 0xF3 100 h of (ok, h) \<Rightarrow> if \<not> ok then (None, h)
      else case mouse_command_value P 0xF3 80 h of (ok, h) \<Rightarrow> if \<not> ok then (None, h)
      else case mouse_command P 0xF2 h of (ok, h) \<Rightarrow> if \<not> ok then (None, h)
      else read_mouse_byte P h)"

definition mouse_init :: "'h ps2_port \<Rightarrow> mouse \<Rightarrow> 'h \<Rightarrow> bool \<times> mouse \<times> 'h" where
  "mouse_init P m h =
     (let m = m\<lparr>packet_index := 0, packet_size := 3, wheel_available := False\<rparr>
      in case mouse_command P 0xF6 h of (ok, h) \<Rightarrow>
           if \<not> ok then (False, m, h)
           else case try_enable_wheel P h of (device_id, h) \<Rightarrow>
             let m = (if device_id = Some 0x03 \<or> device_id = Some 0x04
                      then m\<lparr>packet_size := 4, wheel_available := True\<rparr> else m)
             in case mouse_command P 0xF4 h of (ok, h) \<Rightarrow> (ok, m, h))"

definition mouse_packet :: "mouse \<Rightarrow> MousePacket" where
  "mouse_packet m =
     (let status = packet_bytes m ! 0;
          overflow = (status AND 0xC0 \<noteq> 0)
      in \<lparr>mp_dx = (if overflow then 0 else sint (packet_bytes m ! 1)),
          mp_dy = (if overflow then 0 else - sint (packet_bytes m ! 2)),
          mp_wheel = (if packet_size m = 4 \<and> wheel_available m then sint (packet_bytes m ! 3) else 0),
          mp_left = (status AND 0x01 \<noteq> 0), mp_right = (status AND 0x02 \<noteq> 0), mp_middle = (status AND 0x04 \<noteq> 0)\<rparr>)"

definition mouse_feed_byte :: "u8 \<Rightarrow> mouse \<Rightarrow> MousePacket option \<times> mouse" where
  "mouse_feed_byte data m =
     (if packet_index m = 0 \<and> data AND 0x08 = 0 then (None, m)
      else let m = m\<lparr>packet_bytes := (packet_bytes m)[packet_index m := data], packet_index := packet_index m + 1\<rparr>
           in if packet_index m < packet_size m then (None, m)
              else let m = m\<lparr>packet_index := 0\<rparr> in (Some (mouse_packet m), m))"

section \<open>Events\<close>

datatype RootInputEventType =
    ROOT_INPUT_NONE | ROOT_INPUT_KEY_DOWN | ROOT_INPUT_KEY_UP | ROOT_INPUT_MOUSE_MOVE
  | ROOT_INPUT_MOUSE_BUTTON_DOWN | ROOT_INPUT_MOUSE_BUTTON_UP | ROOT_INPUT_MOUSE_CLICK
  | ROOT_INPUT_MOUSE_DOUBLE_CLICK | ROOT_INPUT_MOUSE_DRAG | ROOT_INPUT_MOUSE_WHEEL

datatype RootMouseButton = ROOT_MOUSE_NONE | ROOT_MOUSE_LEFT | ROOT_MOUSE_RIGHT | ROOT_MOUSE_MIDDLE

record RootInputEvent =
  timestamp_ms :: nat
  ev_type :: RootInputEventType
  ev_key :: RootKey
  ev_codepoint :: RootCodepoint
  ev_shift :: bool
  ev_ctrl :: bool
  ev_alt :: bool
  ev_altgr :: bool
  ev_mouse_x :: int
  ev_mouse_y :: int
  ev_mouse_dx :: int
  ev_mouse_dy :: int
  ev_mouse_wheel :: int
  ev_button :: RootMouseButton
  ev_mouse_buttons :: u8

definition ROOT_INPUT_QUEUE_SIZE :: nat where
  [rootos_consts]: "ROOT_INPUT_QUEUE_SIZE = 128"

record 'h input =
  queue :: "RootInputEvent list"
  queue_head :: nat
  queue_tail :: nat
  key_states :: "bool list"
  mouse_ready :: bool
  mouse_x :: int
  mouse_y :: int
  mouse_max_x :: int
  mouse_max_y :: int
  mouse_buttons :: u8
  mouse_visual_dirty :: bool
  press_at :: "RootMouseButton \<Rightarrow> int \<times> int"
  last_click :: "RootMouseButton \<Rightarrow> (nat \<times> int \<times> int) option"
  in_keyboard :: keyboard
  in_mouse :: mouse
  in_display :: display
  in_hw :: 'h

section \<open>The queue\<close>

definition queue_previous :: "'h input \<Rightarrow> nat" where
  "queue_previous s = (queue_head s + ROOT_INPUT_QUEUE_SIZE - 1) mod ROOT_INPUT_QUEUE_SIZE"

definition coalesce_wheel :: "RootInputEvent \<Rightarrow> RootInputEvent \<Rightarrow> RootInputEvent" where
  "coalesce_wheel event newest =
     (let combined = ev_mouse_wheel newest + ev_mouse_wheel event;
          combined = (if combined > 32 then 32 else combined);
          combined = (if combined < -32 then -32 else combined)
      in newest\<lparr>ev_mouse_wheel := combined, ev_mouse_x := ev_mouse_x event, ev_mouse_y := ev_mouse_y event,
           ev_mouse_buttons := ev_mouse_buttons event, timestamp_ms := timestamp_ms event\<rparr>)"

definition coalesce_motion :: "RootInputEvent \<Rightarrow> RootInputEvent \<Rightarrow> RootInputEvent" where
  "coalesce_motion event newest =
     newest\<lparr>ev_mouse_dx := ev_mouse_dx newest + ev_mouse_dx event, ev_mouse_dy := ev_mouse_dy newest + ev_mouse_dy event,
       ev_mouse_x := ev_mouse_x event, ev_mouse_y := ev_mouse_y event, timestamp_ms := timestamp_ms event\<rparr>"

text \<open>The event that replaces the newest one of the queue, if the two are merged.\<close>

definition coalesced :: "RootInputEvent \<Rightarrow> RootInputEvent \<Rightarrow> RootInputEvent option" where
  "coalesced event newest =
     (if ev_type event = ROOT_INPUT_MOUSE_WHEEL \<and> ev_type newest = ROOT_INPUT_MOUSE_WHEEL then Some (coalesce_wheel event newest)
      else if (ev_type event = ROOT_INPUT_MOUSE_MOVE \<or> ev_type event = ROOT_INPUT_MOUSE_DRAG)
        \<and> ev_type newest = ev_type event \<and> ev_mouse_buttons newest = ev_mouse_buttons event then Some (coalesce_motion event newest)
      else None)"

definition queue_append :: "RootInputEvent \<Rightarrow> 'h input \<Rightarrow> 'h input" where
  "queue_append event s =
     (let nxt = (queue_head s + 1) mod ROOT_INPUT_QUEUE_SIZE;
          s = (if nxt = queue_tail s then s\<lparr>queue_tail := (queue_tail s + 1) mod ROOT_INPUT_QUEUE_SIZE\<rparr> else s)
      in s\<lparr>queue := (queue s)[queue_head s := event], queue_head := nxt\<rparr>)"

definition queue_push :: "RootInputEvent \<Rightarrow> 'h input \<Rightarrow> 'h input" where
  "queue_push event s =
     (if queue_head s \<noteq> queue_tail s then
        case coalesced event (queue s ! queue_previous s) of
          Some merged \<Rightarrow> s\<lparr>queue := (queue s)[queue_previous s := merged]\<rparr>
        | None \<Rightarrow> queue_append event s
      else queue_append event s)"

definition queue_pop :: "'h input \<Rightarrow> RootInputEvent option \<times> 'h input" where
  "queue_pop s =
     (if queue_tail s = queue_head s then (None, s)
      else (Some (queue s ! queue_tail s), s\<lparr>queue_tail := (queue_tail s + 1) mod ROOT_INPUT_QUEUE_SIZE\<rparr>))"

section \<open>From bytes to events\<close>

definition clamp_i32 :: "int \<Rightarrow> int \<Rightarrow> int \<Rightarrow> int" where
  "clamp_i32 value minimum maximum = (if value < minimum then minimum else if value > maximum then maximum else value)"

definition blank_event :: "'h ps2_port \<Rightarrow> 'h input \<Rightarrow> RootInputEventType \<Rightarrow> RootInputEvent" where
  "blank_event P s type = \<lparr>timestamp_ms = time_millis P (in_hw s), ev_type = type, ev_key = 0, ev_codepoint = 0,
     ev_shift = False, ev_ctrl = False, ev_alt = False, ev_altgr = False, ev_mouse_x = 0, ev_mouse_y = 0, ev_mouse_dx = 0,
     ev_mouse_dy = 0, ev_mouse_wheel = 0, ev_button = ROOT_MOUSE_NONE, ev_mouse_buttons = 0\<rparr>"

definition process_keyboard :: "'h ps2_port \<Rightarrow> u8 \<Rightarrow> 'h input \<Rightarrow> 'h input" where
  "process_keyboard P data s =
     (case keyboard_feed_byte data (in_keyboard s) of
        (None, k) \<Rightarrow> s\<lparr>in_keyboard := k\<rparr>
      | (Some e, k) \<Rightarrow>
          let s = s\<lparr>in_keyboard := k\<rparr>;
              event = (blank_event P s (if ke_pressed e then ROOT_INPUT_KEY_DOWN else ROOT_INPUT_KEY_UP))
                \<lparr>ev_key := ke_key e, ev_codepoint := ke_codepoint e, ev_shift := ke_shift e, ev_ctrl := ke_ctrl e,
                 ev_alt := ke_alt e, ev_altgr := ke_altgr e\<rparr>;
              s = (if ke_key e > ROOT_KEY_UNKNOWN \<and> ke_key e < ROOT_KEY_COUNT
                   then s\<lparr>key_states := (key_states s)[ke_key e := ke_pressed e]\<rparr> else s)
          in queue_push event s)"

definition mask_to_button :: "u8 \<Rightarrow> RootMouseButton" where
  "mask_to_button m = (if m = 0x01 then ROOT_MOUSE_LEFT else if m = 0x02 then ROOT_MOUSE_RIGHT
     else if m = 0x04 then ROOT_MOUSE_MIDDLE else ROOT_MOUSE_NONE)"

definition mouse_event :: "'h ps2_port \<Rightarrow> 'h input \<Rightarrow> RootInputEventType \<Rightarrow> RootMouseButton \<Rightarrow> RootInputEvent" where
  "mouse_event P s type button = (blank_event P s type)\<lparr>ev_mouse_x := mouse_x s, ev_mouse_y := mouse_y s, ev_button := button,
     ev_mouse_buttons := mouse_buttons s\<rparr>"

definition emit_click :: "'h ps2_port \<Rightarrow> RootMouseButton \<Rightarrow> 'h input \<Rightarrow> 'h input" where
  "emit_click P button s0 =
     (let click = mouse_event P s0 ROOT_INPUT_MOUSE_CLICK button;
          s = queue_push click s0;
          first = s\<lparr>last_click := (last_click s)(button := Some (timestamp_ms click, mouse_x s, mouse_y s))\<rparr>
      in case last_click s button of
           Some (time, x, y) \<Rightarrow>
             if (timestamp_ms click + 2 ^ 64 - time) mod 2 ^ 64 \<le> 400 \<and> \<bar>mouse_x s - x\<bar> \<le> 6 \<and> \<bar>mouse_y s - y\<bar> \<le> 6 then
               let s = queue_push (mouse_event P s ROOT_INPUT_MOUSE_DOUBLE_CLICK button) s
               in s\<lparr>last_click := (last_click s)(button := None)\<rparr>
             else first
         | None \<Rightarrow> first)"

definition emit_mouse_button :: "'h ps2_port \<Rightarrow> u8 \<Rightarrow> bool \<Rightarrow> 'h input \<Rightarrow> 'h input" where
  "emit_mouse_button P m pressed s0 =
     (let button = mask_to_button m;
          s = queue_push (mouse_event P s0 (if pressed then ROOT_INPUT_MOUSE_BUTTON_DOWN else ROOT_INPUT_MOUSE_BUTTON_UP) button) s0
      in if pressed then s\<lparr>press_at := (press_at s)(button := (mouse_x s, mouse_y s))\<rparr>
         else if \<bar>mouse_x s - fst (press_at s button)\<bar> > 4 \<or> \<bar>mouse_y s - snd (press_at s button)\<bar> > 4 then s
         else emit_click P button s)"

definition packet_buttons :: "MousePacket \<Rightarrow> u8" where
  "packet_buttons p = (if mp_left p then 0x01 else 0) OR (if mp_right p then 0x02 else 0) OR (if mp_middle p then 0x04 else 0)"

definition mouse_move :: "'h ps2_port \<Rightarrow> MousePacket \<Rightarrow> u8 \<Rightarrow> 'h input \<Rightarrow> 'h input" where
  "mouse_move P p new_buttons s0 =
     (if mp_dx p \<noteq> 0 \<or> mp_dy p \<noteq> 0 then
        let s = s0\<lparr>mouse_x := clamp_i32 (mouse_x s0 + mp_dx p) 0 (mouse_max_x s0),
                   mouse_y := clamp_i32 (mouse_y s0 + mp_dy p) 0 (mouse_max_y s0), mouse_visual_dirty := True\<rparr>;
            move = (blank_event P s (if new_buttons \<noteq> 0 then ROOT_INPUT_MOUSE_DRAG else ROOT_INPUT_MOUSE_MOVE))
              \<lparr>ev_mouse_x := mouse_x s, ev_mouse_y := mouse_y s, ev_mouse_dx := mp_dx p, ev_mouse_dy := mp_dy p,
               ev_mouse_buttons := new_buttons\<rparr>
        in queue_push move s
      else s0)"

definition mouse_wheel :: "'h ps2_port \<Rightarrow> MousePacket \<Rightarrow> 'h input \<Rightarrow> 'h input" where
  "mouse_wheel P p s =
     (if mp_wheel p \<noteq> 0 then
        queue_push ((blank_event P s ROOT_INPUT_MOUSE_WHEEL)\<lparr>ev_mouse_x := mouse_x s, ev_mouse_y := mouse_y s,
          ev_mouse_wheel := mp_wheel p, ev_mouse_buttons := mouse_buttons s\<rparr>) s
      else s)"

definition process_packet :: "'h ps2_port \<Rightarrow> MousePacket \<Rightarrow> 'h input \<Rightarrow> 'h input" where
  "process_packet P p s0 =
     (let s = mouse_wheel P p s0;
          old_buttons = mouse_buttons s;
          new_buttons = packet_buttons p;
          s = (mouse_move P p new_buttons s)\<lparr>mouse_buttons := new_buttons\<rparr>;
          changed = old_buttons XOR new_buttons
      in fold (\<lambda>m s. if changed AND m \<noteq> 0 then emit_mouse_button P m (new_buttons AND m \<noteq> 0) s else s) [0x01, 0x02, 0x04] s)"

definition process_mouse :: "'h ps2_port \<Rightarrow> u8 \<Rightarrow> 'h input \<Rightarrow> 'h input" where
  "process_mouse P data s =
     (case mouse_feed_byte data (in_mouse s) of
        (None, m) \<Rightarrow> s\<lparr>in_mouse := m\<rparr>
      | (Some p, m) \<Rightarrow> process_packet P p (s\<lparr>in_mouse := m\<rparr>))"

section \<open>Initialisation, polling and waiting\<close>

definition show_pointer :: "'h input \<Rightarrow> 'h input" where
  "show_pointer s = s\<lparr>in_display := request (Cursor_enable True) (request (Cursor_move (mouse_x s) (mouse_y s)) (in_display s))\<rparr>"

text \<open>Division by 2 as in C, towards zero.\<close>

definition half_i32 :: "int \<Rightarrow> int" where
  "half_i32 v = (if v < 0 then - ((- v) div 2) else v div 2)"

definition legacy_rootinput_init :: "'h ps2_port \<Rightarrow> 'h input \<Rightarrow> 'h input" where
  "legacy_rootinput_init P s =
     (let s = s\<lparr>queue_head := 0, queue_tail := 0, key_states := replicate (length (key_states s)) False,
            press_at := (\<lambda>_. (0, 0)), last_click := (\<lambda>_. None), in_keyboard := keyboard_reset, in_hw := ps2_flush P (in_hw s)\<rparr>;
          ready = display_ready (in_display s);
          s = (if ready then s\<lparr>mouse_max_x := int (display_width (in_display s)) - 1, mouse_max_y := int (display_height (in_display s)) - 1\<rparr>
               else s\<lparr>mouse_max_x := 1023, mouse_max_y := 767\<rparr>);
          s = s\<lparr>mouse_x := half_i32 (mouse_max_x s), mouse_y := half_i32 (mouse_max_y s), mouse_buttons := 0, mouse_visual_dirty := False\<rparr>;
          s = (if ready then s\<lparr>in_display := request (Cursor_enable False) (in_display s)\<rparr> else s);
          (ok, m, h) = mouse_init P (in_mouse s) (in_hw s);
          s = s\<lparr>mouse_ready := ok, in_mouse := m, in_hw := h\<rparr>
      in if ok \<and> ready then show_pointer s else s)"

definition rootinput_init :: "'h ps2_port \<Rightarrow> 'h input \<Rightarrow> 'h input" where
  "rootinput_init P s = (let s = legacy_rootinput_init P s in if display_ready (in_display s) then show_pointer s else s)"

text \<open>One byte of the controller: the status is read again to tell the mouse from the keyboard.\<close>

definition poll_byte :: "'h ps2_port \<Rightarrow> 'h input \<Rightarrow> 'h input" where
  "poll_byte P s =
     (case ps2_status P (in_hw s) of (status, h) \<Rightarrow>
        case ps2_read_data P h of (data, h) \<Rightarrow>
          let s = s\<lparr>in_hw := h\<rparr>
          in if status AND PS2_STATUS_MOUSE_DATA \<noteq> 0 then (if mouse_ready s then process_mouse P data s else s)
             else process_keyboard P data s)"

partial_function (option) poll_loop :: "'h ps2_port \<Rightarrow> 'h input \<Rightarrow> 'h input option" where
  "poll_loop P s =
     (case ps2_has_data P (in_hw s) of (full, h) \<Rightarrow>
        let s = s\<lparr>in_hw := h\<rparr> in if full then poll_loop P (poll_byte P s) else Some s)"

definition rootinput_poll :: "'h ps2_port \<Rightarrow> 'h input \<Rightarrow> 'h input option" where
  "rootinput_poll P s = do {
     s \<leftarrow> poll_loop P s;
     Some (if mouse_visual_dirty s \<and> display_ready (in_display s)
       then s\<lparr>in_display := request (Cursor_move (mouse_x s) (mouse_y s)) (in_display s), mouse_visual_dirty := False\<rparr> else s)
   }"

definition rootinput_next_event :: "'h ps2_port \<Rightarrow> 'h input \<Rightarrow> (RootInputEvent option \<times> 'h input) option" where
  "rootinput_next_event P s = do { s \<leftarrow> rootinput_poll P s; Some (queue_pop s) }"

partial_function (option) rootinput_wait_event :: "'h ps2_port \<Rightarrow> 'h input \<Rightarrow> (RootInputEvent \<times> 'h input) option" where
  "rootinput_wait_event P s =
     Option.bind (rootinput_next_event P s) (\<lambda>(event, s). case event of
        Some e \<Rightarrow> Some (e, s)
      | None \<Rightarrow> rootinput_wait_event P (s\<lparr>in_hw := halt P (in_hw s)\<rparr>))"

definition rootinput_key_down :: "'h ps2_port \<Rightarrow> RootKey \<Rightarrow> 'h input \<Rightarrow> (bool \<times> 'h input) option" where
  "rootinput_key_down P key s =
     (if key \<le> ROOT_KEY_UNKNOWN \<or> key \<ge> ROOT_KEY_COUNT then Some (False, s)
      else do { s \<leftarrow> rootinput_poll P s; Some (key_states s ! key, s) })"

definition rootinput_mouse_x :: "'h ps2_port \<Rightarrow> 'h input \<Rightarrow> (int \<times> 'h input) option" where
  "rootinput_mouse_x P s = do { s \<leftarrow> rootinput_poll P s; Some (mouse_x s, s) }"

definition rootinput_mouse_y :: "'h ps2_port \<Rightarrow> 'h input \<Rightarrow> (int \<times> 'h input) option" where
  "rootinput_mouse_y P s = do { s \<leftarrow> rootinput_poll P s; Some (mouse_y s, s) }"

end
