(* ===== verification/Root_Input_Safety.thy ===== *)
theory Root_Input_Safety
  imports Root_Input
begin

text \<open>
  What the input layer promises: the event queue is a bounded first-in first-out list that merges bursts of motion and
  wheel events; the pointer, the packet decoder and the table of key states stay in their bounds for every byte the
  controller delivers; and polling ends once the controller has nothing more to give.
\<close>

section \<open>The queue as a list\<close>

definition queue_ok :: "'h input \<Rightarrow> bool" where
  "queue_ok s \<longleftrightarrow> length (queue s) = ROOT_INPUT_QUEUE_SIZE \<and> queue_head s < ROOT_INPUT_QUEUE_SIZE \<and> queue_tail s < ROOT_INPUT_QUEUE_SIZE"

definition queue_count :: "'h input \<Rightarrow> nat" where
  "queue_count s = (queue_head s + ROOT_INPUT_QUEUE_SIZE - queue_tail s) mod ROOT_INPUT_QUEUE_SIZE"

definition queue_events :: "'h input \<Rightarrow> RootInputEvent list" where
  "queue_events s = ring_list ROOT_INPUT_QUEUE_SIZE (queue s) (queue_tail s) (queue_count s)"

lemma length_queue_events [simp]: "length (queue_events s) = queue_count s"
  by (simp add: queue_events_def)

text \<open>The three ways the positions of a ring of 128 entries can lie.\<close>

lemma wrap_128: "b < 128 \<Longrightarrow> a < 128 \<Longrightarrow> (a + 128 - b) mod 128 = (if b \<le> a then a - b else a + 128 - (b::nat))"
  by (auto simp: mod_if)

lemma next_128: "a < 128 \<Longrightarrow> Suc a mod 128 = (if a = 127 then 0 else Suc a)"
  by (simp add: mod_Suc)

lemma head_position: "queue_ok s \<Longrightarrow> (queue_tail s + queue_count s) mod ROOT_INPUT_QUEUE_SIZE = queue_head s"
  by (auto simp: queue_ok_def queue_count_def rootos_consts wrap_128 mod_if)

lemma queue_count_less: "queue_count s < ROOT_INPUT_QUEUE_SIZE"
  by (simp add: queue_count_def rootos_consts)

lemma queue_count_0: "queue_ok s \<Longrightarrow> queue_count s = 0 \<longleftrightarrow> queue_head s = queue_tail s"
  by (auto simp: queue_ok_def queue_count_def rootos_consts wrap_128 split: if_splits)

lemma queue_append_ok: "queue_ok s \<Longrightarrow> queue_ok (queue_append e s)"
  by (simp add: queue_ok_def queue_append_def Let_def rootos_consts)

lemma queue_append_events:
  assumes "queue_ok s"
  shows "queue_events (queue_append e s) = last_n (ROOT_INPUT_QUEUE_SIZE - 1) (queue_events s @ [e])"
proof -
  let ?n = ROOT_INPUT_QUEUE_SIZE and ?c = "queue_count s"
  have len: "length (queue s) = ?n" using assms by (simp add: queue_ok_def)
  have app: "ring_list ?n ((queue s)[queue_head s := e]) (queue_tail s) (Suc ?c) = queue_events s @ [e]"
    using ring_list_append [OF len, of "queue_count s" "queue_tail s" e] queue_count_less [of s] head_position [OF assms]
    by (simp add: queue_events_def)
  show ?thesis
  proof (cases "?c < ?n - 1")
    case True
    then have "(queue_head s + 1) mod ?n \<noteq> queue_tail s" "queue_count (queue_append e s) = Suc ?c"
      using assms
      by (simp_all add: queue_ok_def queue_count_def queue_append_def rootos_consts wrap_128 next_128 Let_def split: if_splits) (linarith | auto)+
    then show ?thesis using app True by (simp add: queue_events_def queue_append_def Let_def)
  next
    case False
    then have c: "?c = ?n - 1" using queue_count_less [of s] by simp
    then have full: "(queue_head s + 1) mod ?n = queue_tail s" "queue_count (queue_append e s) = ?c"
      using assms
      by (simp_all add: queue_ok_def queue_count_def queue_append_def rootos_consts wrap_128 next_128 Let_def split: if_splits) (linarith | auto)+
    then have "queue_events (queue_append e s) = tl (queue_events s @ [e])"
      using ring_list_tl [of ?n "(queue s)[queue_head s := e]" "queue_tail s" ?c] app
      by (simp add: queue_events_def queue_append_def Let_def)
    moreover have "queue_events s \<noteq> []" using c length_queue_events [of s] by (auto simp: rootos_consts simp del: length_queue_events)
    ultimately show ?thesis using c by (simp add: last_n_def rootos_consts drop_Suc)
  qed
qed

interpretation eventq: bounded_log queue_append queue_events "ROOT_INPUT_QUEUE_SIZE - 1" queue_ok
proof
  fix s :: "'h input" and e
  assume ok: "queue_ok s"
  show "queue_ok (queue_append e s)" using ok by (rule queue_append_ok)
  show "queue_events (queue_append e s) = last_n (ROOT_INPUT_QUEUE_SIZE - 1) (queue_events s @ [e])"
    using ok by (rule queue_append_events)
  show "length (queue_events s) \<le> ROOT_INPUT_QUEUE_SIZE - 1" using queue_count_less [of s] by simp
qed

text \<open>The list the queue implements: the newest event absorbs motion and wheel events, a full queue loses its oldest event.\<close>

definition enqueue :: "RootInputEvent \<Rightarrow> RootInputEvent list \<Rightarrow> RootInputEvent list" where
  "enqueue e q = (case if q = [] then None else coalesced e (last q) of
     Some merged \<Rightarrow> butlast q @ [merged]
   | None \<Rightarrow> last_n (ROOT_INPUT_QUEUE_SIZE - 1) (q @ [e]))"

lemma queue_newest:
  assumes "queue_ok s" "queue_head s \<noteq> queue_tail s"
  shows "queue_events s \<noteq> []" "last (queue_events s) = queue s ! queue_previous s"
    "queue_events (s\<lparr>queue := (queue s)[queue_previous s := e]\<rparr>) = butlast (queue_events s) @ [e]"
proof -
  let ?n = ROOT_INPUT_QUEUE_SIZE
  have pos: "0 < queue_count s" using queue_count_0 [OF assms(1)] assms(2) by simp
  then obtain c where c: "queue_count s = Suc c" by (cases "queue_count s") auto
  have "(queue_tail s + c) mod ?n = queue_previous s"
    using head_position [OF assms(1)] mod_Suc [of "queue_tail s + c" ?n] c
    by (auto simp: queue_previous_def rootos_consts split: if_splits)
  note p = this
  show "queue_events s \<noteq> []" using pos by (metis length_queue_events less_numeral_extra(3) list.size(3))
  have ev: "queue_events s = ring_list ?n (queue s) (queue_tail s) c @ [queue s ! queue_previous s]"
    using p by (simp add: queue_events_def c ring_list_Suc)
  then show "last (queue_events s) = queue s ! queue_previous s" by simp
  have "queue_events (s\<lparr>queue := (queue s)[queue_previous s := e]\<rparr>)
      = ring_list ?n ((queue s)[(queue_tail s + c) mod ?n := e]) (queue_tail s) (Suc c)"
    using c p by (simp add: queue_events_def queue_count_def)
  also have "\<dots> = ring_list ?n (queue s) (queue_tail s) c @ [e]"
    using assms(1) c queue_count_less [of s] by (intro ring_list_append) (auto simp: queue_ok_def)
  finally show "queue_events (s\<lparr>queue := (queue s)[queue_previous s := e]\<rparr>) = butlast (queue_events s) @ [e]"
    using ev by simp
qed

lemma queue_push_ok: "queue_ok s \<Longrightarrow> queue_ok (queue_push e s)"
  using queue_append_ok by (auto simp: queue_push_def queue_ok_def split: option.split)

lemma queue_push_events: "queue_ok s \<Longrightarrow> queue_events (queue_push e s) = enqueue e (queue_events s)"
proof -
  assume ok: "queue_ok s"
  show ?thesis
  proof (cases "queue_head s = queue_tail s")
    case True
    then have "queue_events s = []" using queue_count_0 [OF ok] by (metis length_0_conv length_queue_events)
    then show ?thesis using True queue_append_events [OF ok] by (simp add: queue_push_def enqueue_def)
  next
    case False
    show ?thesis using False queue_newest [OF ok False] queue_append_events [OF ok]
      by (simp add: queue_push_def enqueue_def split: option.split)
  qed
qed

lemma queue_pop_events:
  assumes "queue_ok s"
  shows "queue_ok (snd (queue_pop s))"
    "fst (queue_pop s) = (if queue_events s = [] then None else Some (hd (queue_events s)))"
    "queue_events (snd (queue_pop s)) = tl (queue_events s)"
proof -
  let ?n = ROOT_INPUT_QUEUE_SIZE
  show "queue_ok (snd (queue_pop s))" using assms by (simp add: queue_pop_def queue_ok_def rootos_consts)
  have e: "queue_events s = [] \<longleftrightarrow> queue_head s = queue_tail s"
    using queue_count_0 [OF assms] by (metis length_0_conv length_queue_events)
  show "fst (queue_pop s) = (if queue_events s = [] then None else Some (hd (queue_events s)))"
    using assms e queue_count_0 [OF assms] by (auto simp: queue_pop_def hd_conv_nth queue_ok_def queue_events_def nth_ring_list)
  show "queue_events (snd (queue_pop s)) = tl (queue_events s)"
  proof (cases "queue_head s = queue_tail s")
    case True
    then show ?thesis using e by (simp add: queue_pop_def)
  next
    case False
    then obtain c where c: "queue_count s = Suc c" using queue_count_0 [OF assms] by (cases "queue_count s") auto
    have "queue_count (snd (queue_pop s)) = c"
      using assms c False by (auto simp: queue_ok_def queue_count_def queue_pop_def rootos_consts wrap_128 next_128 split: if_splits)
    then show ?thesis using False c ring_list_tl [of ?n "queue s" "queue_tail s" c] by (simp add: queue_events_def queue_pop_def)
  qed
qed

datatype queue_op = Push RootInputEvent | Pop

fun queue_run :: "queue_op list \<Rightarrow> 'h input \<Rightarrow> RootInputEvent option list \<times> 'h input" where
  "queue_run [] s = ([], s)"
| "queue_run (Push e # ops) s = queue_run ops (queue_push e s)"
| "queue_run (Pop # ops) s = (case queue_pop s of (r, s) \<Rightarrow> case queue_run ops s of (rs, s) \<Rightarrow> (r # rs, s))"

fun list_run :: "queue_op list \<Rightarrow> RootInputEvent list \<Rightarrow> RootInputEvent option list \<times> RootInputEvent list" where
  "list_run [] q = ([], q)"
| "list_run (Push e # ops) q = list_run ops (enqueue e q)"
| "list_run (Pop # ops) q = (case list_run ops (tl q) of (rs, q') \<Rightarrow> ((if q = [] then None else Some (hd q)) # rs, q'))"

text \<open>
  C28: The event ring implements a list: for every sequence of pushes and pops it delivers the events the list
  specification delivers, oldest first, with motion and wheel bursts merged into the newest event and only the oldest
  event lost when 127 are waiting.
\<close>

theorem input_queue_refines:
  assumes "queue_ok s"
  shows "fst (queue_run ops s) = fst (list_run ops (queue_events s))
    \<and> queue_events (snd (queue_run ops s)) = snd (list_run ops (queue_events s)) \<and> queue_ok (snd (queue_run ops s))"
  using assms
proof (induction ops s rule: queue_run.induct)
  case (2 e ops s)
  then show ?case using queue_push_ok [of s e] queue_push_events [of s e] by simp
next
  case (3 ops s)
  obtain r s1 where p: "queue_pop s = (r, s1)" by force
  have s1: "queue_ok s1" "r = (if queue_events s = [] then None else Some (hd (queue_events s)))" "queue_events s1 = tl (queue_events s)"
    using queue_pop_events [OF "3.prems"] p by simp_all
  show ?case using 3 p s1 by (auto simp: case_prod_beta)
qed simp

theorem input_queue_refines_witness:
  "\<exists>s :: unit input. queue_ok s \<and> fst (queue_run [Pop, Pop] s) = fst (list_run [Pop, Pop] (queue_events s))"
proof -
  define e where "e = \<lparr>timestamp_ms = 0, ev_type = ROOT_INPUT_KEY_DOWN, ev_key = ROOT_KEY_A, ev_codepoint = 97, ev_shift = False,
    ev_ctrl = False, ev_alt = False, ev_altgr = False, ev_mouse_x = 0, ev_mouse_y = 0, ev_mouse_dx = 0, ev_mouse_dy = 0,
    ev_mouse_wheel = 0, ev_button = ROOT_MOUSE_NONE, ev_mouse_buttons = 0\<rparr>"
  define s :: "unit input" where "s = \<lparr>queue = replicate 128 e, queue_head = 0, queue_tail = 127, key_states = [], mouse_ready = False,
    mouse_x = 0, mouse_y = 0, mouse_max_x = 0, mouse_max_y = 0, mouse_buttons = 0, mouse_visual_dirty = False, press_at = (\<lambda>_. (0, 0)),
    last_click = (\<lambda>_. None), in_keyboard = keyboard_reset,
    in_mouse = \<lparr>packet_bytes = [0, 0, 0, 0], packet_index = 0, packet_size = 3, wheel_available = False\<rparr>,
    in_display = \<lparr>display_ready = False, display_width = 0, display_height = 0, display_trace = []\<rparr>, in_hw = ()\<rparr>"
  have "queue_ok s" by (simp add: s_def queue_ok_def rootos_consts)
  then show ?thesis using input_queue_refines [of s "[Pop, Pop]"] by blast
qed

section \<open>Mouse packets\<close>

definition mouse_aligned :: "mouse \<Rightarrow> bool" where
  "mouse_aligned m \<longleftrightarrow> length (packet_bytes m) = 4 \<and> packet_index m < packet_size m \<and> (packet_size m = 3 \<or> packet_size m = 4)"

text \<open>The bytes of a packet as the protocol defines them: bit 3 set, the signs of the movement in bits 4 and 5.\<close>

definition packet_status :: "MousePacket \<Rightarrow> u8" where
  "packet_status p = 0x08 OR (if mp_left p then 0x01 else 0) OR (if mp_right p then 0x02 else 0) OR (if mp_middle p then 0x04 else 0)
     OR (if mp_dx p < 0 then 0x10 else 0) OR (if - mp_dy p < 0 then 0x20 else 0)"

definition packet_encode :: "nat \<Rightarrow> MousePacket \<Rightarrow> u8 list" where
  "packet_encode n p = [packet_status p, word_of_int (mp_dx p), word_of_int (- mp_dy p)] @ (if n = 4 then [word_of_int (mp_wheel p)] else [])"

fun mouse_feed :: "u8 list \<Rightarrow> mouse \<Rightarrow> MousePacket list \<times> mouse" where
  "mouse_feed [] m = ([], m)"
| "mouse_feed (b # bs) m = (case mouse_feed_byte b m of (p, m) \<Rightarrow>
     case mouse_feed bs m of (ps, m) \<Rightarrow> ((case p of None \<Rightarrow> ps | Some p \<Rightarrow> p # ps), m))"

definition byte_range :: "int \<Rightarrow> bool" where
  "byte_range v \<longleftrightarrow> -128 \<le> v \<and> v < 128"

lemma sint_byte: "byte_range v \<Longrightarrow> sint (word_of_int v :: u8) = v"
  by (simp add: byte_range_def signed_of_int signed_take_bit_int_eq_self)

lemma packet_status_bits:
  "packet_status p AND 0x08 \<noteq> 0" "packet_status p AND 0xC0 = 0" "(packet_status p AND 0x01 \<noteq> 0) = mp_left p"
  "(packet_status p AND 0x02 \<noteq> 0) = mp_right p" "(packet_status p AND 0x04 \<noteq> 0) = mp_middle p"
  by (simp_all add: packet_status_def)

lemma packet_list4: "length xs = 4 \<Longrightarrow> \<exists>a b c d. xs = [a, b, c, d]"
  by (auto simp: numeral_eq_Suc length_Suc_conv)

text \<open>
  A mouse packet reaches the input layer as it was sent: a decoder that waits for a new packet and is fed the three
  or four bytes of a packet with movements between -128 and 127 delivers that packet, and waits for the next one. With
  three bytes there is no wheel.
\<close>

theorem mouse_packet_roundtrip:
  assumes "mouse_aligned m" "packet_index m = 0" "byte_range (mp_dx p)" "byte_range (- mp_dy p)" "byte_range (mp_wheel p)"
    "wheel_available m = (packet_size m = 4)"
  shows "\<exists>m'. mouse_feed (packet_encode (packet_size m) p) m = ([p\<lparr>mp_wheel := if packet_size m = 4 then mp_wheel p else 0\<rparr>], m')
    \<and> mouse_aligned m' \<and> packet_index m' = 0 \<and> packet_size m' = packet_size m"
proof -
  obtain a b c d where pb: "packet_bytes m = [a, b, c, d]" using packet_list4 [of "packet_bytes m"] assms(1) by (auto simp: mouse_aligned_def)
  have "packet_size m = 3 \<or> packet_size m = 4" using assms(1) by (simp add: mouse_aligned_def)
  moreover have "sint (- word_of_int (mp_dy p) :: u8) = - mp_dy p" using sint_byte [OF assms(4)] by simp
  ultimately show ?thesis
    using assms pb packet_status_bits [of p] sint_byte
    by (cases p; elim disjE) (simp_all add: packet_encode_def mouse_feed_byte_def mouse_packet_def Let_def mouse_aligned_def numeral_eq_Suc)
qed

theorem mouse_packet_roundtrip_witness:
  "\<exists>m'. mouse_feed (packet_encode 3 \<lparr>mp_dx = 5, mp_dy = -7, mp_wheel = 0, mp_left = True, mp_right = False, mp_middle = False\<rparr>)
       \<lparr>packet_bytes = [0, 0, 0, 0], packet_index = 0, packet_size = 3, wheel_available = False\<rparr>
     = ([\<lparr>mp_dx = 5, mp_dy = -7, mp_wheel = 0, mp_left = True, mp_right = False, mp_middle = False\<rparr>], m')"
  using mouse_packet_roundtrip [of "\<lparr>packet_bytes = [0, 0, 0, 0], packet_index = 0, packet_size = 3, wheel_available = False\<rparr>"
      "\<lparr>mp_dx = 5, mp_dy = -7, mp_wheel = 0, mp_left = True, mp_right = False, mp_middle = False\<rparr>"]
  by (auto simp: mouse_aligned_def byte_range_def)

text \<open>
  The sign bits are not used: a movement of 200 to the right, which the protocol sends as the byte 200 with a clear sign
  bit, is taken for a movement to the left.
\<close>

lemma mouse_fast_movement_reversed:
  "fst (mouse_feed [0x08, 200, 0] \<lparr>packet_bytes = [0, 0, 0, 0], packet_index = 0, packet_size = 3, wheel_available = False\<rparr>)
     = [\<lparr>mp_dx = -56, mp_dy = 0, mp_wheel = 0, mp_left = False, mp_right = False, mp_middle = False\<rparr>]"
  by (simp add: mouse_feed_byte_def mouse_packet_def Let_def)

section \<open>The bounds of the input state\<close>

definition inside :: "int \<Rightarrow> int \<Rightarrow> RootInputEvent \<Rightarrow> bool" where
  "inside mx my e \<longleftrightarrow> 0 \<le> ev_mouse_x e \<and> ev_mouse_x e \<le> mx \<and> 0 \<le> ev_mouse_y e \<and> ev_mouse_y e \<le> my"

definition input_ok :: "'h input \<Rightarrow> bool" where
  "input_ok s \<longleftrightarrow> queue_ok s \<and> length (key_states s) = ROOT_KEY_COUNT \<and> mouse_aligned (in_mouse s)
     \<and> 0 \<le> mouse_x s \<and> mouse_x s \<le> mouse_max_x s \<and> 0 \<le> mouse_y s \<and> mouse_y s \<le> mouse_max_y s
     \<and> list_all (inside (mouse_max_x s) (mouse_max_y s)) (queue_events s)"

lemma inside_coalesced: "coalesced e q = Some r \<Longrightarrow> inside mx my e \<Longrightarrow> inside mx my r"
  by (auto simp: coalesced_def coalesce_wheel_def coalesce_motion_def inside_def Let_def split: if_splits)

lemma set_last_n: "set (last_n n xs) \<subseteq> set xs"
  by (simp add: last_n_def set_drop_subset)

lemma inside_enqueue: "list_all (inside mx my) q \<Longrightarrow> inside mx my e \<Longrightarrow> list_all (inside mx my) (enqueue e q)"
  using set_last_n [of _ "q @ [e]"] inside_coalesced
  by (fastforce simp: enqueue_def list_all_iff split: option.split dest: in_set_butlastD)

text \<open>What an event leaves alone: everything but the queue.\<close>

lemma queue_push_frame [simp]:
  "key_states (queue_push e s) = key_states s" "mouse_x (queue_push e s) = mouse_x s" "mouse_y (queue_push e s) = mouse_y s"
  "mouse_max_x (queue_push e s) = mouse_max_x s" "mouse_max_y (queue_push e s) = mouse_max_y s"
  "mouse_buttons (queue_push e s) = mouse_buttons s" "in_mouse (queue_push e s) = in_mouse s" "in_hw (queue_push e s) = in_hw s"
  "in_display (queue_push e s) = in_display s" "press_at (queue_push e s) = press_at s" "last_click (queue_push e s) = last_click s"
  "mouse_ready (queue_push e s) = mouse_ready s" "in_keyboard (queue_push e s) = in_keyboard s"
  by (simp_all add: queue_push_def queue_append_def Let_def split: option.split)

lemma input_ok_push: "input_ok s \<Longrightarrow> inside (mouse_max_x s) (mouse_max_y s) e \<Longrightarrow> input_ok (queue_push e s)"
  by (simp add: input_ok_def queue_push_ok queue_push_events inside_enqueue)

lemma queue_frame [simp]:
  "queue_events (s\<lparr>press_at := v1\<rparr>) = queue_events s" "queue_events (s\<lparr>last_click := v2\<rparr>) = queue_events s"
  "queue_events (s\<lparr>mouse_buttons := v3\<rparr>) = queue_events s" "queue_events (s\<lparr>in_keyboard := v4\<rparr>) = queue_events s"
  "queue_events (s\<lparr>key_states := v5\<rparr>) = queue_events s" "queue_events (s\<lparr>in_mouse := v6\<rparr>) = queue_events s"
  "queue_events (s\<lparr>in_hw := v7\<rparr>) = queue_events s" "queue_events (s\<lparr>in_display := v8\<rparr>) = queue_events s"
  "queue_events (s\<lparr>mouse_visual_dirty := v9\<rparr>) = queue_events s" "queue_events (s\<lparr>mouse_x := x\<rparr>) = queue_events s"
  "queue_events (s\<lparr>mouse_y := x\<rparr>) = queue_events s"
  by (simp_all add: queue_events_def queue_count_def)

lemma input_ok_frame [simp]:
  "input_ok (s\<lparr>press_at := v1\<rparr>) = input_ok s" "input_ok (s\<lparr>last_click := v2\<rparr>) = input_ok s"
  "input_ok (s\<lparr>mouse_buttons := v3\<rparr>) = input_ok s" "input_ok (s\<lparr>in_keyboard := v4\<rparr>) = input_ok s"
  "input_ok (s\<lparr>in_hw := v7\<rparr>) = input_ok s" "input_ok (s\<lparr>in_display := v8\<rparr>) = input_ok s"
  "input_ok (s\<lparr>mouse_visual_dirty := v9\<rparr>) = input_ok s"
  by (simp_all add: input_ok_def queue_ok_def)

lemma input_ok_mouse: "input_ok s \<Longrightarrow> mouse_aligned m \<Longrightarrow> input_ok (s\<lparr>in_mouse := m\<rparr>)"
  by (simp add: input_ok_def queue_ok_def)

lemma input_ok_move:
  assumes "input_ok s" "0 \<le> x" "x \<le> mouse_max_x s" "0 \<le> y" "y \<le> mouse_max_y s"
  shows "input_ok (s\<lparr>mouse_x := x, mouse_y := y\<rparr>)"
  using assms by (simp add: input_ok_def queue_ok_def)

lemma mouse_event_inside [simp]: "input_ok s \<Longrightarrow> inside (mouse_max_x s) (mouse_max_y s) (mouse_event P s t b)"
  by (simp add: input_ok_def inside_def mouse_event_def blank_event_def)

lemma emit_click_ok: "input_ok s \<Longrightarrow> input_ok (emit_click P b s)"
  using input_ok_push [of s "mouse_event P s ROOT_INPUT_MOUSE_CLICK b"]
    input_ok_push [of "queue_push (mouse_event P s ROOT_INPUT_MOUSE_CLICK b) s"
      "mouse_event P (queue_push (mouse_event P s ROOT_INPUT_MOUSE_CLICK b) s) ROOT_INPUT_MOUSE_DOUBLE_CLICK b"]
    mouse_event_inside [of "queue_push (mouse_event P s ROOT_INPUT_MOUSE_CLICK b) s"]
  by (simp add: emit_click_def Let_def split: option.split prod.split)

lemma emit_mouse_button_ok: "input_ok s \<Longrightarrow> input_ok (emit_mouse_button P m pressed s)"
  by (simp add: emit_mouse_button_def Let_def input_ok_push emit_click_ok)

lemma clamp_range: "minimum \<le> maximum \<Longrightarrow> minimum \<le> clamp_i32 v minimum maximum \<and> clamp_i32 v minimum maximum \<le> maximum"
  by (simp add: clamp_i32_def)

lemma mouse_move_ok: "input_ok s \<Longrightarrow> input_ok (mouse_move P p nb s)"
proof -
  assume ok: "input_ok s"
  let ?x = "clamp_i32 (mouse_x s + mp_dx p) 0 (mouse_max_x s)" and ?y = "clamp_i32 (mouse_y s + mp_dy p) 0 (mouse_max_y s)"
  have b: "0 \<le> ?x" "?x \<le> mouse_max_x s" "0 \<le> ?y" "?y \<le> mouse_max_y s"
    using ok clamp_range [of 0 "mouse_max_x s"] clamp_range [of 0 "mouse_max_y s"] by (simp_all add: input_ok_def)
  have "input_ok (s\<lparr>mouse_x := ?x, mouse_y := ?y, mouse_visual_dirty := True\<rparr>)" using input_ok_move [OF ok b] by simp
  from input_ok_push [OF this] show ?thesis
    using ok b by (simp add: mouse_move_def Let_def inside_def blank_event_def)
qed

lemma mouse_wheel_ok: "input_ok s \<Longrightarrow> input_ok (mouse_wheel P p s)"
  using input_ok_push [of s] by (simp add: mouse_wheel_def inside_def blank_event_def) (simp add: input_ok_def)

lemma process_packet_ok: "input_ok s \<Longrightarrow> input_ok (process_packet P p s)"
  by (simp add: process_packet_def Let_def emit_mouse_button_ok mouse_move_ok mouse_wheel_ok)

lemma mouse_feed_byte_aligned: "mouse_aligned m \<Longrightarrow> mouse_aligned (snd (mouse_feed_byte b m))"
  by (auto simp: mouse_feed_byte_def mouse_aligned_def Let_def)

lemma process_mouse_ok: "input_ok s \<Longrightarrow> input_ok (process_mouse P b s)"
proof -
  assume ok: "input_ok s"
  obtain p m where f: "mouse_feed_byte b (in_mouse s) = (p, m)" by force
  then have "input_ok (s\<lparr>in_mouse := m\<rparr>)"
    using ok mouse_feed_byte_aligned [of "in_mouse s" b] input_ok_mouse by (auto simp: input_ok_def)
  then show ?thesis using f by (simp add: process_mouse_def process_packet_ok split: option.split)
qed

lemma process_keyboard_ok: "input_ok s \<Longrightarrow> input_ok (process_keyboard P b s)"
proof -
  assume ok: "input_ok s"
  have ks: "input_ok (s\<lparr>in_keyboard := k, key_states := (key_states s)[i := v]\<rparr>)" for k i v using ok by (simp add: input_ok_def queue_ok_def)
  have at: "inside (mouse_max_x s) (mouse_max_y s) e" if "ev_mouse_x e = 0" "ev_mouse_y e = 0" for e
    using that ok by (simp add: inside_def input_ok_def)
  show ?thesis unfolding process_keyboard_def Let_def
    using ok ks at by (auto simp: blank_event_def intro!: input_ok_push split: option.split prod.split)
qed

lemma poll_byte_ok: "input_ok s \<Longrightarrow> input_ok (poll_byte P s)"
  by (simp add: poll_byte_def process_mouse_ok process_keyboard_ok Let_def split: prod.split)

section \<open>Sessions\<close>

text \<open>
  The controller: \<open>pending\<close> counts the bytes the devices still send before they fall silent. Reading the status takes no
  byte, the output buffer is only reported full when there is a byte, and reading the data port takes it.
\<close>

definition ps2_law :: "'h ps2_port \<Rightarrow> ('h \<Rightarrow> nat) \<Rightarrow> bool" where
  "ps2_law P pending \<longleftrightarrow> (\<forall>h. pending (snd (port_in P PS2_STATUS_PORT h)) = pending h
     \<and> (fst (port_in P PS2_STATUS_PORT h) AND PS2_STATUS_OUTPUT_FULL \<noteq> 0 \<longrightarrow> 0 < pending h)
     \<and> (0 < pending h \<longrightarrow> pending (snd (port_in P PS2_DATA_PORT h)) < pending h))"

lemma process_hw [simp]:
  fixes P :: "'h ps2_port"
  shows "in_hw (process_mouse P b s) = in_hw s" "in_hw (process_keyboard P b s) = in_hw s"
proof -
  have "in_hw (emit_click P c s) = in_hw s" for c and s :: "'h input"
    by (simp add: emit_click_def Let_def split: option.split prod.split)
  then have e: "in_hw (emit_mouse_button P m q s) = in_hw s" for m q and s :: "'h input"
    by (simp add: emit_mouse_button_def Let_def)
  have m: "in_hw (mouse_move P p nb s) = in_hw s" "in_hw (mouse_wheel P p s) = in_hw s" for p nb and s :: "'h input"
    by (simp_all add: mouse_move_def mouse_wheel_def Let_def)
  have "in_hw (process_packet P p s) = in_hw s" for p and s :: "'h input"
    by (simp add: process_packet_def Let_def e m)
  then show "in_hw (process_mouse P b s) = in_hw s" by (simp add: process_mouse_def split: option.split prod.split)
  show "in_hw (process_keyboard P b s) = in_hw s"
    by (simp add: process_keyboard_def Let_def split: option.split prod.split)
qed

lemma poll_byte_pending:
  assumes "ps2_law P pending" "0 < pending (in_hw s)"
  shows "pending (in_hw (poll_byte P s)) < pending (in_hw s)"
  using assms by (auto simp: poll_byte_def ps2_status_def ps2_read_data_def ps2_law_def Let_def split: prod.split) (metis snd_conv)+

lemma poll_loop_returns:
  assumes "ps2_law P pending" "input_ok s"
  shows "\<exists>s'. poll_loop P s = Some s' \<and> input_ok s'"
  using assms(2)
proof (induction "pending (in_hw s)" arbitrary: s rule: less_induct)
  case less
  obtain full h where hd: "ps2_has_data P (in_hw s) = (full, h)" by force
  have p: "pending h = pending (in_hw s)" "full \<Longrightarrow> 0 < pending (in_hw s)"
    using assms(1) hd by (auto simp: ps2_has_data_def ps2_status_def ps2_law_def split: prod.split_asm) (metis fst_conv snd_conv)+
  show ?case
  proof (cases full)
    case True
    let ?s = "poll_byte P (s\<lparr>in_hw := h\<rparr>)"
    have "pending (in_hw ?s) < pending (in_hw s)"
      using poll_byte_pending [OF assms(1), of "s\<lparr>in_hw := h\<rparr>"] p True by simp
    moreover have "input_ok ?s" using less.prems by (simp add: poll_byte_ok)
    ultimately obtain s' where "poll_loop P ?s = Some s'" "input_ok s'" using less.hyps [of ?s] by auto
    then show ?thesis using hd True by (subst poll_loop.simps) simp
  next
    case False
    then show ?thesis using hd less.prems by (subst poll_loop.simps) simp
  qed
qed

lemma rootinput_poll_returns:
  assumes "ps2_law P pending" "input_ok s"
  shows "\<exists>s'. rootinput_poll P s = Some s' \<and> input_ok s'"
  using poll_loop_returns [OF assms] by (auto simp: rootinput_poll_def)

lemma queue_pop_ok:
  assumes "input_ok s"
  shows "input_ok (snd (queue_pop s))"
proof -
  have "set (tl (queue_events s)) \<subseteq> set (queue_events s)" by (cases "queue_events s") auto
  moreover have "mouse_x (snd (queue_pop s)) = mouse_x s" "mouse_y (snd (queue_pop s)) = mouse_y s" "key_states (snd (queue_pop s)) = key_states s"
    "mouse_max_x (snd (queue_pop s)) = mouse_max_x s" "mouse_max_y (snd (queue_pop s)) = mouse_max_y s" "in_mouse (snd (queue_pop s)) = in_mouse s"
    by (simp_all add: queue_pop_def)
  ultimately show ?thesis using assms queue_pop_events [of s] by (auto simp: input_ok_def list_all_iff)
qed

datatype input_call = Next_event | Key_down RootKey | Mouse_x | Mouse_y

datatype input_result = Got_event "RootInputEvent option" | Got_key bool | Got_coordinate int

definition input_exec :: "'h ps2_port \<Rightarrow> input_call \<Rightarrow> 'h input \<Rightarrow> (input_result \<times> 'h input) option" where
  "input_exec P call s = (case call of
     Next_event \<Rightarrow> map_option (map_prod Got_event id) (rootinput_next_event P s)
   | Key_down key \<Rightarrow> map_option (map_prod Got_key id) (rootinput_key_down P key s)
   | Mouse_x \<Rightarrow> map_option (map_prod Got_coordinate id) (rootinput_mouse_x P s)
   | Mouse_y \<Rightarrow> map_option (map_prod Got_coordinate id) (rootinput_mouse_y P s))"

interpretation inputm: op_machine "input_exec P" "\<lambda>_. False" "\<lambda>_. True" "\<lambda>s. ps2_law P pending \<and> input_ok s"
proof
  fix s :: "'a input" and call
  assume a: "ps2_law P pending \<and> input_ok s"
  obtain s' where "rootinput_poll P s = Some s'" "input_ok s'" using rootinput_poll_returns a by blast
  then show "\<exists>r s'. input_exec P call s = Some (r, s') \<and> (\<not> False \<longrightarrow> ps2_law P pending \<and> input_ok s')"
    using a queue_pop_ok [of s']
    by (cases call; cases "queue_pop s'") (auto simp: input_exec_def rootinput_next_event_def rootinput_key_down_def rootinput_mouse_x_def rootinput_mouse_y_def)
qed

lemma mouse_init_aligned:
  "length (packet_bytes m) = 4 \<Longrightarrow> mouse_init P m h = (ok, m', h') \<Longrightarrow> mouse_aligned m'"
  by (auto simp: mouse_init_def mouse_aligned_def Let_def split: prod.split_asm if_split_asm)

lemma half_range: "0 \<le> v \<Longrightarrow> 0 \<le> half_i32 v \<and> half_i32 v \<le> v"
  by (auto simp: half_i32_def)

text \<open>The arrays of the C file have their declared sizes; a display that is ready shows at least one pixel.\<close>

definition input_arrays :: "'h input \<Rightarrow> bool" where
  "input_arrays s \<longleftrightarrow> length (queue s) = ROOT_INPUT_QUEUE_SIZE \<and> length (key_states s) = ROOT_KEY_COUNT \<and> length (packet_bytes (in_mouse s)) = 4
     \<and> (display_ready (in_display s) \<longrightarrow> 0 < display_width (in_display s) \<and> 0 < display_height (in_display s))"

lemma legacy_init_ok: "input_arrays s \<Longrightarrow> input_ok (rootinput_init P s)"
proof -
  assume a: "input_arrays s"
  obtain ok m h where i: "mouse_init P (in_mouse s) (ps2_flush P (in_hw s)) = (ok, m, h)" by (cases "mouse_init P (in_mouse s) (ps2_flush P (in_hw s))")
  have m: "mouse_aligned m" using mouse_init_aligned [OF _ i] a by (simp add: input_arrays_def)
  have "input_ok (legacy_rootinput_init P s)"
    using a i m half_range [of "int (display_width (in_display s)) - 1"] half_range [of "int (display_height (in_display s)) - 1"]
      half_range [of 1023] half_range [of 767]
    by (auto simp: legacy_rootinput_init_def show_pointer_def input_ok_def queue_ok_def queue_events_def queue_count_def rootos_consts input_arrays_def Let_def)
  then show ?thesis by (simp add: rootinput_init_def show_pointer_def Let_def)
qed

text \<open>
  C29: After initialisation every sequence of input calls returns, for whatever bytes keyboard and mouse send in between,
  as long as the controller obeys its protocol; at the end the pointer is on the screen, every waiting event lies on
  the screen, the queue indices, the key table and the packet decoder are in their bounds.
\<close>

theorem input_session_safe:
  assumes "ps2_law P pending" "input_arrays s"
  shows "\<exists>rs s'. run_ops (input_exec P) (\<lambda>_. False) calls (rootinput_init P s) = Some (rs, s')
    \<and> length rs = length calls \<and> input_ok s'"
  using inputm.run_inv [of P pending "rootinput_init P s" calls] legacy_init_ok [OF assms(2), of P] assms(1) by (auto simp: list_all_iff)

text \<open>A controller with the bytes still to come in a list, each marked as the mouse's or the keyboard's.\<close>

definition fifo_port :: "(bool \<times> u8) list ps2_port" where
  "fifo_port = \<lparr>port_in = (\<lambda>port h. case h of [] \<Rightarrow> (0, h)
       | (m, b) # rest \<Rightarrow> if port = PS2_STATUS_PORT then (if m then 0x21 else 0x01, h) else (b, rest)),
     port_out = (\<lambda>_ _ h. h), time_millis = (\<lambda>_. 0), halt = (\<lambda>h. h)\<rparr>"

lemma fifo_law: "ps2_law fifo_port length"
  by (simp add: ps2_law_def fifo_port_def PS2_STATUS_OUTPUT_FULL_def split: list.split)

theorem input_session_safe_witness:
  "\<exists>(s :: (bool \<times> u8) list input) rs s'. in_hw s = [(False, 0x1E), (True, 0x08)]
     \<and> run_ops (input_exec fifo_port) (\<lambda>_. False) [Next_event, Mouse_x] (rootinput_init fifo_port s) = Some (rs, s') \<and> length rs = 2"
proof -
  define e where "e = \<lparr>timestamp_ms = 0, ev_type = ROOT_INPUT_NONE, ev_key = 0, ev_codepoint = 0, ev_shift = False,
    ev_ctrl = False, ev_alt = False, ev_altgr = False, ev_mouse_x = 0, ev_mouse_y = 0, ev_mouse_dx = 0, ev_mouse_dy = 0,
    ev_mouse_wheel = 0, ev_button = ROOT_MOUSE_NONE, ev_mouse_buttons = 0\<rparr>"
  define s :: "(bool \<times> u8) list input" where "s = \<lparr>queue = replicate 128 e, queue_head = 0, queue_tail = 0,
    key_states = replicate 101 False, mouse_ready = False,
    mouse_x = 0, mouse_y = 0, mouse_max_x = 0, mouse_max_y = 0, mouse_buttons = 0, mouse_visual_dirty = False, press_at = (\<lambda>_. (0, 0)),
    last_click = (\<lambda>_. None), in_keyboard = keyboard_reset,
    in_mouse = \<lparr>packet_bytes = [0, 0, 0, 0], packet_index = 0, packet_size = 3, wheel_available = False\<rparr>,
    in_display = \<lparr>display_ready = False, display_width = 0, display_height = 0, display_trace = []\<rparr>, in_hw = [(False, 0x1E), (True, 0x08)]\<rparr>"
  have "input_arrays s" "in_hw s = [(False, 0x1E), (True, 0x08)]" by (simp_all add: s_def input_arrays_def rootos_consts)
  then show ?thesis using input_session_safe [OF fifo_law, of s "[Next_event, Mouse_x]"] by fastforce
qed

end
