(* ===== verification/Root_Text.thy ===== *)
theory Root_Text
  imports Root_Input
begin

text \<open>
  Text input shared by the terminal and the editor: the clipboard (\<open>source/input/rootclipboard.c\<close>, a fixed array with a
  length and a terminator) and the keyboard shortcuts (\<open>source/input/roottext.c\<close>).
\<close>

section \<open>The clipboard\<close>

definition ROOT_CLIPBOARD_MAX_CODEPOINTS :: nat where
  [rootos_consts]: "ROOT_CLIPBOARD_MAX_CODEPOINTS = 4096"

record clipboard =
  clipboard_data :: "RootCodepoint list"
  clipboard_length :: nat

definition rootclipboard_clear :: "clipboard \<Rightarrow> clipboard" where
  "rootclipboard_clear c = c\<lparr>clipboard_length := 0, clipboard_data := (clipboard_data c)[0 := 0]\<rparr>"

definition rootclipboard_init :: "clipboard \<Rightarrow> clipboard" where
  "rootclipboard_init c = c\<lparr>clipboard_length := 0, clipboard_data := (clipboard_data c)[0 := 0]\<rparr>"

definition rootclipboard_set :: "RootCodepoint list option \<Rightarrow> nat \<Rightarrow> clipboard \<Rightarrow> bool \<times> clipboard" where
  "rootclipboard_set txt n c =
     (if txt = None \<and> n \<noteq> 0 then (False, c)
      else if n \<ge> ROOT_CLIPBOARD_MAX_CODEPOINTS then (False, c)
      else (True, c\<lparr>clipboard_data := (take n (the txt) @ drop n (clipboard_data c))[n := 0], clipboard_length := n\<rparr>))"

text \<open>The code points written to the output array, in front of the terminator.\<close>

definition rootclipboard_get :: "nat \<Rightarrow> clipboard \<Rightarrow> RootCodepoint list" where
  "rootclipboard_get capacity c =
     (if capacity = 0 then []
      else let count = (if clipboard_length c \<ge> capacity then capacity - 1 else clipboard_length c)
           in take count (clipboard_data c))"

definition rootclipboard_empty :: "clipboard \<Rightarrow> bool" where
  "rootclipboard_empty c = (clipboard_length c = 0)"

definition clipboard_ok :: "clipboard \<Rightarrow> bool" where
  "clipboard_ok c \<longleftrightarrow> length (clipboard_data c) = ROOT_CLIPBOARD_MAX_CODEPOINTS \<and> clipboard_length c < ROOT_CLIPBOARD_MAX_CODEPOINTS"

definition clipboard_text :: "clipboard \<Rightarrow> RootCodepoint list" where
  "clipboard_text c = take (clipboard_length c) (clipboard_data c)"

lemma clipboard_set_spec:
  assumes "clipboard_ok c"
  shows "rootclipboard_set (Some txt) (length txt) c =
      (length txt < ROOT_CLIPBOARD_MAX_CODEPOINTS, snd (rootclipboard_set (Some txt) (length txt) c))"
    "clipboard_ok (snd (rootclipboard_set (Some txt) (length txt) c))"
    "clipboard_text (snd (rootclipboard_set (Some txt) (length txt) c)) =
       (if length txt < ROOT_CLIPBOARD_MAX_CODEPOINTS then txt else clipboard_text c)"
  using assms by (auto simp: rootclipboard_set_def clipboard_ok_def clipboard_text_def)

lemma clipboard_get_set:
  assumes "clipboard_ok c" "length txt < ROOT_CLIPBOARD_MAX_CODEPOINTS" "length txt < capacity"
  shows "rootclipboard_get capacity (snd (rootclipboard_set (Some txt) (length txt) c)) = txt"
  using assms by (simp add: rootclipboard_get_def rootclipboard_set_def Let_def)

section \<open>Shortcuts\<close>

datatype RootTextAction =
    ROOT_TEXT_ACTION_NONE | ROOT_TEXT_ACTION_SELECT_ALL | ROOT_TEXT_ACTION_COPY | ROOT_TEXT_ACTION_CUT
  | ROOT_TEXT_ACTION_PASTE | ROOT_TEXT_ACTION_UNDO | ROOT_TEXT_ACTION_REDO | ROOT_TEXT_ACTION_SAVE
  | ROOT_TEXT_ACTION_EXIT | ROOT_TEXT_ACTION_INTERRUPT | ROOT_TEXT_ACTION_CLEAR_SCREEN
  | ROOT_TEXT_ACTION_LINE_START | ROOT_TEXT_ACTION_LINE_END | ROOT_TEXT_ACTION_LINE_CLEAR
  | ROOT_TEXT_ACTION_SUSPEND | ROOT_TEXT_ACTION_TERMINAL_COPY | ROOT_TEXT_ACTION_TERMINAL_PASTE

definition is_key_down :: "RootInputEvent \<Rightarrow> bool" where
  "is_key_down event = (ev_type event = ROOT_INPUT_KEY_DOWN)"

definition plain_ctrl :: "RootInputEvent \<Rightarrow> bool" where
  "plain_ctrl event = (if \<not> is_key_down event then False else if ev_altgr event then False else ev_ctrl event \<and> \<not> ev_alt event)"

definition roottext_should_insert :: "RootInputEvent \<Rightarrow> bool" where
  "roottext_should_insert event =
     (if \<not> is_key_down event \<or> ev_codepoint event = 0 then False
      else if ev_altgr event then True
      else if ev_ctrl event \<or> ev_alt event then False
      else True)"

definition roottext_editor_action :: "RootInputEvent \<Rightarrow> RootTextAction" where
  "roottext_editor_action event =
     (let key = ev_key event in
      if \<not> plain_ctrl event then ROOT_TEXT_ACTION_NONE
      else if key = ROOT_KEY_A then ROOT_TEXT_ACTION_SELECT_ALL
      else if key = ROOT_KEY_C then ROOT_TEXT_ACTION_COPY
      else if key = ROOT_KEY_X then ROOT_TEXT_ACTION_CUT
      else if key = ROOT_KEY_V then ROOT_TEXT_ACTION_PASTE
      else if key = ROOT_KEY_Z then (if ev_shift event then ROOT_TEXT_ACTION_REDO else ROOT_TEXT_ACTION_UNDO)
      else if key = ROOT_KEY_Y then ROOT_TEXT_ACTION_REDO
      else if key = ROOT_KEY_S then ROOT_TEXT_ACTION_SAVE
      else if key = ROOT_KEY_Q then ROOT_TEXT_ACTION_EXIT
      else ROOT_TEXT_ACTION_NONE)"

definition roottext_terminal_action :: "RootInputEvent \<Rightarrow> RootTextAction" where
  "roottext_terminal_action event =
     (let key = ev_key event in
      if \<not> is_key_down event \<or> ev_altgr event then ROOT_TEXT_ACTION_NONE
      else if ev_ctrl event \<and> ev_shift event \<and> \<not> ev_alt event then
        (if key = ROOT_KEY_C then ROOT_TEXT_ACTION_TERMINAL_COPY
         else if key = ROOT_KEY_V then ROOT_TEXT_ACTION_TERMINAL_PASTE
         else ROOT_TEXT_ACTION_NONE)
      else if \<not> ev_ctrl event \<or> ev_alt event then ROOT_TEXT_ACTION_NONE
      else if key = ROOT_KEY_C then ROOT_TEXT_ACTION_INTERRUPT
      else if key = ROOT_KEY_L then ROOT_TEXT_ACTION_CLEAR_SCREEN
      else if key = ROOT_KEY_A then ROOT_TEXT_ACTION_LINE_START
      else if key = ROOT_KEY_E then ROOT_TEXT_ACTION_LINE_END
      else if key = ROOT_KEY_U then ROOT_TEXT_ACTION_LINE_CLEAR
      else if key = ROOT_KEY_Z then ROOT_TEXT_ACTION_SUSPEND
      else ROOT_TEXT_ACTION_NONE)"

text \<open>A key stroke is never both text and a shortcut, in the editor or in the terminal.\<close>

lemma insert_excludes_action:
  "roottext_should_insert e \<Longrightarrow> roottext_editor_action e = ROOT_TEXT_ACTION_NONE \<and> roottext_terminal_action e = ROOT_TEXT_ACTION_NONE"
  by (auto simp: roottext_should_insert_def roottext_editor_action_def roottext_terminal_action_def plain_ctrl_def Let_def split: if_splits)

end
