(* ===== verification/Root_Font.thy ===== *)
theory Root_Font
  imports Root_Unicode
begin

text \<open>
  The bitmap font (\<open>source/font/rootfont.c\<close>). The font file is linked into the kernel by the build; it is a parameter
  here: the memory behind \<open>_binary_rootfont_bin_start\<close> (offsets from there) and the size of the file. The header check,
  the binary search and the fall-back to U+FFFD are the code's; the search is shown to be a lookup in the table of records
  for a font whose records are sorted, and never to look behind the last record.
\<close>

record rootfont =
  font_bytes :: mem
  font_size :: nat

definition ROOTFONT_MAGIC :: nat where "ROOTFONT_MAGIC = 0x544E4652"
definition ROOTFONT_VERSION :: nat where "ROOTFONT_VERSION = 1"
definition SIZEOF_FONT_HEADER :: nat where [rootos_consts]: "SIZEOF_FONT_HEADER = 12"
definition SIZEOF_FONT_RECORD :: nat where [rootos_consts]: "SIZEOF_FONT_RECORD = 37"

record RootGlyph =
  glyph_width :: u8
  glyph_bitmap :: "u8 list"

text \<open>\<open>rootfont_header\<close>: the number of glyphs of a font that is accepted.\<close>

definition rootfont_header :: "rootfont \<Rightarrow> nat option" where
  "rootfont_header f =
     (if font_size f < SIZEOF_FONT_HEADER then None
      else if ld32 (font_bytes f) 0 \<noteq> ROOTFONT_MAGIC then None
      else if ld32 (font_bytes f) 4 \<noteq> ROOTFONT_VERSION then None
      else let glyph_count = ld32 (font_bytes f) 8;
               expected = u32_add SIZEOF_FONT_HEADER (u32_mul glyph_count SIZEOF_FONT_RECORD)
           in if expected > font_size f then None else Some glyph_count)"

definition rootfont_ready :: "rootfont \<Rightarrow> bool" where
  "rootfont_ready f = (rootfont_header f \<noteq> None)"

definition record_at :: "nat \<Rightarrow> addr" where
  "record_at i = SIZEOF_FONT_HEADER + i * SIZEOF_FONT_RECORD"

definition record_codepoint :: "rootfont \<Rightarrow> nat \<Rightarrow> RootCodepoint" where
  "record_codepoint f i = word_of_nat (ld32 (font_bytes f) (record_at i))"

definition record_glyph :: "rootfont \<Rightarrow> nat \<Rightarrow> RootGlyph" where
  "record_glyph f i = \<lparr>glyph_width = font_bytes f (record_at i + 4),
     glyph_bitmap = map (\<lambda>k. font_bytes f (record_at i + 5 + k)) [0..<32]\<rparr>"

function find_loop :: "rootfont \<Rightarrow> RootCodepoint \<Rightarrow> nat \<Rightarrow> nat \<Rightarrow> nat option" where
  "find_loop f codepoint left right =
     (if left < right then
        let middle = left + (right - left) div 2;
            current = record_codepoint f middle
        in if current = codepoint then Some middle
           else if current < codepoint then find_loop f codepoint (middle + 1) right
           else find_loop f codepoint left middle
      else None)"
  by pat_completeness auto
termination by (relation "measure (\<lambda>(_, _, l, r). r - l)") auto

declare find_loop.simps [simp del]

definition find_record :: "rootfont \<Rightarrow> RootCodepoint \<Rightarrow> nat option" where
  "find_record f codepoint = (case rootfont_header f of None \<Rightarrow> None | Some glyph_count \<Rightarrow> find_loop f codepoint 0 glyph_count)"

definition rootfont_get_glyph :: "rootfont \<Rightarrow> RootCodepoint \<Rightarrow> RootGlyph option" where
  "rootfont_get_glyph f codepoint =
     (let found = find_record f codepoint;
          found = (if found = None \<and> codepoint \<noteq> ROOT_UNICODE_REPLACEMENT then find_record f ROOT_UNICODE_REPLACEMENT else found)
      in map_option (record_glyph f) found)"

section \<open>The search is a lookup\<close>

definition font_sorted :: "rootfont \<Rightarrow> nat \<Rightarrow> bool" where
  "font_sorted f n \<longleftrightarrow> (\<forall>i j. i < j \<and> j < n \<longrightarrow> record_codepoint f i < record_codepoint f j)"

lemma find_loop_bounds: "find_loop f cp l r = Some i \<Longrightarrow> l \<le> i \<and> i < r \<and> record_codepoint f i = cp"
proof (induction f cp l r rule: find_loop.induct)
  case (1 f cp l r)
  then show ?case by (subst (asm) (3) find_loop.simps) (fastforce simp: Let_def split: if_split_asm)
qed

lemma find_loop_complete:
  assumes "font_sorted f n" "r \<le> n" "l \<le> i" "i < r" "record_codepoint f i = cp"
  shows "find_loop f cp l r = Some i"
  using assms(2-4)
proof (induction "r - l" arbitrary: l r rule: less_induct)
  case less
  let ?m = "l + (r - l) div 2"
  have m: "l \<le> ?m" "?m < r" using less.prems by auto
  have lt: "record_codepoint f j < record_codepoint f k" if "j < k" "k < r" for j k
    using assms(1) that less.prems(1) by (auto simp: font_sorted_def)
  consider "i = ?m" | "?m < i" | "i < ?m" by linarith
  then show ?case
  proof cases
    case 1
    then show ?thesis using m assms(5) by (subst find_loop.simps) (simp add: Let_def)
  next
    case 2
    then have "find_loop f cp (?m + 1) r = Some i" using less.prems m by (intro less.hyps) auto
    then show ?thesis using lt [OF 2] less.prems m assms(5) by (subst find_loop.simps) (auto simp: Let_def)
  next
    case 3
    then have "find_loop f cp l ?m = Some i" using less.prems m by (intro less.hyps) auto
    then show ?thesis using lt [OF 3] m assms(5) by (subst find_loop.simps) (auto simp: Let_def)
  qed
qed

lemma find_record_iff:
  assumes "rootfont_header f = Some n" "font_sorted f n"
  shows "find_record f cp = Some i \<longleftrightarrow> i < n \<and> record_codepoint f i = cp"
  using find_loop_bounds [of f cp 0 n i] find_loop_complete [OF assms(2), of n 0 i cp] assms(1) by (auto simp: find_record_def)

lemma header_fits:
  assumes "rootfont_header f = Some n" "SIZEOF_FONT_HEADER + n * SIZEOF_FONT_RECORD < USIZE_MOD" "i < n"
  shows "record_at i + SIZEOF_FONT_RECORD \<le> font_size f"
proof -
  have "SIZEOF_FONT_HEADER + n * SIZEOF_FONT_RECORD \<le> font_size f"
    using assms(1,2) by (auto simp: rootfont_header_def Let_def rootos_consts split: if_split_asm)
  moreover have "Suc i * SIZEOF_FONT_RECORD \<le> n * SIZEOF_FONT_RECORD" using assms(3) by (intro mult_right_mono) auto
  ultimately show ?thesis by (simp add: record_at_def)
qed

text \<open>The glyph a table of records gives for a code point: its own, else the one of U+FFFD.\<close>

definition table_glyph :: "rootfont \<Rightarrow> nat \<Rightarrow> RootCodepoint \<Rightarrow> RootGlyph option" where
  "table_glyph f n cp = (case find (\<lambda>i. record_codepoint f i = cp) [0..<n] of
     Some i \<Rightarrow> Some (record_glyph f i)
   | None \<Rightarrow> map_option (record_glyph f) (find (\<lambda>i. record_codepoint f i = ROOT_UNICODE_REPLACEMENT) [0..<n]))"

lemma find_record_find:
  assumes "rootfont_header f = Some n" "font_sorted f n"
  shows "find_record f cp = find (\<lambda>i. record_codepoint f i = cp) [0..<n]"
proof (cases "find (\<lambda>i. record_codepoint f i = cp) [0..<n]")
  case None
  then have "\<forall>i<n. record_codepoint f i \<noteq> cp" by (simp add: find_None_iff)
  then have "find_record f cp = None" using find_record_iff [OF assms, of cp] by (cases "find_record f cp") auto
  then show ?thesis using None by (rule trans [OF _ sym])
next
  case (Some j)
  then have "j < n" "record_codepoint f j = cp" by (auto simp: find_Some_iff)
  then show ?thesis using Some find_record_iff [OF assms, of cp j] by simp
qed


text \<open>
  The size check wraps: a header that announces 116080198 glyphs asks for 42 bytes only, and is accepted for a file of
  that size, so the search would read far behind it.
\<close>

lemma font_size_check_wraps: "u32_add SIZEOF_FONT_HEADER (u32_mul 116080198 SIZEOF_FONT_RECORD) = 42"
  by (simp add: u32_add_def u32_mul_def rootos_consts)

definition demo_font_bytes :: "u8 list" where
  "demo_font_bytes = [0x52, 0x46, 0x4E, 0x54, 1, 0, 0, 0, 2, 0, 0, 0] @ [65, 0, 0, 0, 8] @ replicate 32 1 @ [0xFD, 0xFF, 0, 0, 16] @ replicate 32 2"

definition demo_font :: rootfont where
  "demo_font = \<lparr>font_bytes = (\<lambda>a. if a < 86 then demo_font_bytes ! a else 0), font_size = 86\<rparr>"

lemma demo_font_header: "rootfont_header demo_font = Some 2"
  by (simp add: rootfont_header_def demo_font_def demo_font_bytes_def ld32_def rootos_consts ROOTFONT_MAGIC_def ROOTFONT_VERSION_def Let_def)

lemma demo_font_records: "record_codepoint demo_font 0 = 65" "record_codepoint demo_font 1 = 0xFFFD"
  by (simp_all add: record_codepoint_def record_at_def demo_font_def demo_font_bytes_def ld32_def rootos_consts nth_append)

lemma demo_font_sorted: "font_sorted demo_font 2"
  unfolding font_sorted_def using demo_font_records by (auto simp: less_2_cases_iff)


end
