(* ===== verification/Root_Terminal.thy ===== *)
theory Root_Terminal
  imports Root_Text Root_Font
begin

text \<open>
  The text terminal (\<open>source/terminal/terminal.c\<close>). Its static variables are the fields of \<open>terminal\<close>: the grid of cells and
  the scrollback ring are lists of rows of 256 code points, a wide glyph takes a cell and a continuation mark. What it
  draws is the trace of requests to the display; on a machine without a graphical display it writes to the VGA text
  memory and the two cursor ports. The font, the pixel format and the values read from the VGA ports are parameters.
\<close>

definition TERMINAL_CELL_WIDTH :: nat where [rootos_consts]: "TERMINAL_CELL_WIDTH = 8"
definition TERMINAL_CELL_HEIGHT :: nat where [rootos_consts]: "TERMINAL_CELL_HEIGHT = 16"
definition TERMINAL_MAX_COLS :: nat where [rootos_consts]: "TERMINAL_MAX_COLS = 256"
definition TERMINAL_MAX_ROWS :: nat where [rootos_consts]: "TERMINAL_MAX_ROWS = 128"
definition TERMINAL_SCROLLBACK_LINES :: nat where [rootos_consts]: "TERMINAL_SCROLLBACK_LINES = 1024"
definition TERMINAL_OUTPUT_DEFER_THRESHOLD :: nat where [rootos_consts]: "TERMINAL_OUTPUT_DEFER_THRESHOLD = 192"
definition TERMINAL_CONTINUATION :: RootCodepoint where "TERMINAL_CONTINUATION = 0xFFFFFFFF"
definition VGA_WIDTH :: nat where [rootos_consts]: "VGA_WIDTH = 80"
definition VGA_HEIGHT :: nat where [rootos_consts]: "VGA_HEIGHT = 25"

abbreviation BLANK :: RootCodepoint where "BLANK \<equiv> 0x20"

record screen_env =
  env_font :: rootfont
  env_rgb :: "u8 \<Rightarrow> u8 \<Rightarrow> u8 \<Rightarrow> u32"
  env_vga_in :: "nat \<Rightarrow> u8"

record terminal =
  terminal_graphics :: bool
  terminal_row :: nat
  terminal_col :: nat
  terminal_cols :: nat
  terminal_rows :: nat
  terminal_foreground :: u32
  terminal_background :: u32
  terminal_cells :: "RootCodepoint list list"
  scrollback :: "RootCodepoint list list"
  scrollback_head :: nat
  scrollback_count :: nat
  scrollback_view_offset :: nat
  terminal_update_depth :: nat
  terminal_explicit_batch_depth :: nat
  terminal_batch_output_count :: nat
  terminal_batch_defer_threshold :: nat
  terminal_full_redraw_pending :: bool
  selection_tracking :: bool
  selection_active_state :: bool
  selection_drawn :: bool
  selection_drawn_start :: nat
  selection_drawn_end :: nat
  selection_anchor_col :: nat
  selection_anchor_row :: nat
  selection_focus_col :: nat
  selection_focus_row :: nat
  vga_memory :: "u16 list"
  vga_ports :: "(nat \<times> u8) list"
  terminal_display :: display
  terminal_clipboard :: clipboard

section \<open>Drawing\<close>

definition draw :: "DisplayOp \<Rightarrow> terminal \<Rightarrow> terminal" where
  "draw op t = t\<lparr>terminal_display := request op (terminal_display t)\<rparr>"

definition vga_out :: "nat \<Rightarrow> u8 \<Rightarrow> terminal \<Rightarrow> terminal" where
  "vga_out port v t = t\<lparr>vga_ports := vga_ports t @ [(port, v)]\<rparr>"

definition vga_update_cursor :: "terminal \<Rightarrow> terminal" where
  "vga_update_cursor t =
     (let position = (word_of_nat (terminal_row t * VGA_WIDTH + terminal_col t) :: u16)
      in vga_out 0x3D5 (ucast (drop_bit 8 position AND 0xFF)) (vga_out 0x3D4 0x0E
           (vga_out 0x3D5 (ucast (position AND 0xFF)) (vga_out 0x3D4 0x0F t))))"

definition vga_enable_cursor :: "screen_env \<Rightarrow> terminal \<Rightarrow> terminal" where
  "vga_enable_cursor E t =
     vga_out 0x3D5 ((env_vga_in E 0x0B AND 0xE0) OR 15) (vga_out 0x3D4 0x0B
       (vga_out 0x3D5 ((env_vga_in E 0x0A AND 0xC0) OR 13) (vga_out 0x3D4 0x0A t)))"

definition vga_put_at :: "u8 \<Rightarrow> nat \<Rightarrow> nat \<Rightarrow> terminal \<Rightarrow> terminal" where
  "vga_put_at c x y t = t\<lparr>vga_memory := (vga_memory t)[y * VGA_WIDTH + x := ucast c OR 0x0F00]\<rparr>"

definition graphics_clear_cell :: "nat \<Rightarrow> nat \<Rightarrow> terminal \<Rightarrow> terminal" where
  "graphics_clear_cell column row t =
     draw (Fill_rect (column * TERMINAL_CELL_WIDTH) (row * TERMINAL_CELL_HEIGHT) TERMINAL_CELL_WIDTH TERMINAL_CELL_HEIGHT (terminal_background t)) t"

definition graphics_get_glyph :: "screen_env \<Rightarrow> RootCodepoint \<Rightarrow> RootGlyph option" where
  "graphics_get_glyph E codepoint = (case rootfont_get_glyph (env_font E) codepoint of
     Some glyph \<Rightarrow> Some glyph | None \<Rightarrow> rootfont_get_glyph (env_font E) ROOT_UNICODE_REPLACEMENT)"

definition draw_glyph_at :: "RootGlyph \<Rightarrow> nat \<Rightarrow> nat \<Rightarrow> bool \<Rightarrow> terminal \<Rightarrow> terminal" where
  "draw_glyph_at glyph column row opaque t =
     draw (Draw_mono_bitmap (column * TERMINAL_CELL_WIDTH) (row * TERMINAL_CELL_HEIGHT) (unat (glyph_width glyph)) TERMINAL_CELL_HEIGHT
       (glyph_bitmap glyph) 2 (terminal_foreground t) (terminal_background t) opaque) t"

definition graphics_draw_glyph_pixels :: "screen_env \<Rightarrow> RootCodepoint \<Rightarrow> nat \<Rightarrow> nat \<Rightarrow> terminal \<Rightarrow> terminal" where
  "graphics_draw_glyph_pixels E codepoint column row t =
     (case graphics_get_glyph E codepoint of None \<Rightarrow> t | Some glyph \<Rightarrow> draw_glyph_at glyph column row False t)"

definition graphics_draw_glyph :: "screen_env \<Rightarrow> RootCodepoint \<Rightarrow> nat \<Rightarrow> nat \<Rightarrow> terminal \<Rightarrow> terminal" where
  "graphics_draw_glyph E codepoint column row t =
     (case graphics_get_glyph E codepoint of None \<Rightarrow> graphics_clear_cell column row t | Some glyph \<Rightarrow> draw_glyph_at glyph column row True t)"

definition cell_at :: "terminal \<Rightarrow> nat \<Rightarrow> nat \<Rightarrow> RootCodepoint" where
  "cell_at t row column = terminal_cells t ! row ! column"

definition set_cell :: "nat \<Rightarrow> nat \<Rightarrow> RootCodepoint \<Rightarrow> terminal \<Rightarrow> terminal" where
  "set_cell row column c t = t\<lparr>terminal_cells := (terminal_cells t)[row := (terminal_cells t ! row)[column := c]]\<rparr>"

definition graphics_render_live_cell :: "screen_env \<Rightarrow> nat \<Rightarrow> nat \<Rightarrow> terminal \<Rightarrow> terminal" where
  "graphics_render_live_cell E column row t =
     (if column \<ge> terminal_cols t \<or> row \<ge> terminal_rows t then t
      else
        let codepoint = cell_at t row column
        in if codepoint = TERMINAL_CONTINUATION then
             (if column > 0 \<and> cell_at t row (column - 1) \<notin> {TERMINAL_CONTINUATION, 0, BLANK}
              then graphics_draw_glyph E (cell_at t row (column - 1)) (column - 1) row t
              else graphics_clear_cell column row t)
           else if codepoint = 0 \<or> codepoint = BLANK then graphics_clear_cell column row t
           else graphics_draw_glyph E codepoint column row t)"

section \<open>Scrollback\<close>

definition scrollback_oldest_index :: "terminal \<Rightarrow> nat" where
  "scrollback_oldest_index t = (scrollback_head t + TERMINAL_SCROLLBACK_LINES - scrollback_count t) mod TERMINAL_SCROLLBACK_LINES"

definition visible_row_data :: "terminal \<Rightarrow> nat \<Rightarrow> RootCodepoint list option" where
  "visible_row_data t screen_row =
     (if screen_row \<ge> terminal_rows t then None
      else
        let total_lines = scrollback_count t + terminal_rows t;
            offset = (if scrollback_view_offset t > scrollback_count t then scrollback_count t else scrollback_view_offset t);
            start = total_lines - offset - terminal_rows t;
            logical = start + screen_row
        in if logical < scrollback_count t then
             Some (scrollback t ! ((scrollback_oldest_index t + logical) mod TERMINAL_SCROLLBACK_LINES))
           else Some (terminal_cells t ! (logical - scrollback_count t)))"

definition graphics_render_row_data :: "screen_env \<Rightarrow> RootCodepoint list option \<Rightarrow> nat \<Rightarrow> terminal \<Rightarrow> terminal" where
  "graphics_render_row_data E row_data screen_row t =
     (case row_data of
        None \<Rightarrow> t
      | Some row \<Rightarrow> fold (\<lambda>column t. if row ! column \<in> {0, BLANK, TERMINAL_CONTINUATION} then t
            else graphics_draw_glyph_pixels E (row ! column) column screen_row t) [0..<terminal_cols t] t)"

definition render_rows :: "screen_env \<Rightarrow> nat list \<Rightarrow> terminal \<Rightarrow> terminal" where
  "render_rows E rows t = fold (\<lambda>row t. graphics_render_row_data E (visible_row_data t row) row t) rows t"

definition graphics_redraw_view :: "screen_env \<Rightarrow> terminal \<Rightarrow> terminal" where
  "graphics_redraw_view E t =
     (if \<not> terminal_graphics t then t
      else
        let t = draw (Clear (terminal_background t)) (draw Begin_update t);
            t = render_rows E [0..<terminal_rows t] t
        in draw End_update t)"

definition graphics_shift_view :: "screen_env \<Rightarrow> int \<Rightarrow> terminal \<Rightarrow> terminal" where
  "graphics_shift_view E line_delta t =
     (if \<not> terminal_graphics t \<or> line_delta = 0 then t
      else
        let amount = nat \<bar>line_delta\<bar>
        in if amount \<ge> terminal_rows t then graphics_redraw_view E t
           else
             let t = draw (Shift_vertical 0 (terminal_rows t * TERMINAL_CELL_HEIGHT) (line_delta * int TERMINAL_CELL_HEIGHT)
                       (terminal_background t)) (draw Begin_update t);
                 t = (if line_delta > 0 then render_rows E [0..<amount] t
                      else render_rows E [terminal_rows t - amount..<terminal_rows t] t)
             in draw End_update t)"

section \<open>The cursor\<close>

definition graphics_erase_cursor :: "screen_env \<Rightarrow> terminal \<Rightarrow> terminal" where
  "graphics_erase_cursor E t =
     (if \<not> terminal_graphics t \<or> scrollback_view_offset t \<noteq> 0 then t
      else graphics_render_live_cell E (terminal_col t) (terminal_row t) t)"

definition graphics_draw_cursor :: "terminal \<Rightarrow> terminal" where
  "graphics_draw_cursor t =
     (if \<not> terminal_graphics t \<or> scrollback_view_offset t \<noteq> 0 then t
      else draw (Fill_rect (terminal_col t * TERMINAL_CELL_WIDTH) (terminal_row t * TERMINAL_CELL_HEIGHT + 14)
             TERMINAL_CELL_WIDTH 2 (terminal_foreground t)) t)"

section \<open>The highlighted selection\<close>

definition cell_linear :: "terminal \<Rightarrow> nat \<Rightarrow> nat \<Rightarrow> nat" where
  "cell_linear t column row = row * terminal_cols t + column"

text \<open>First and last cell of the selection, each as column and row.\<close>

definition selection_bounds :: "terminal \<Rightarrow> (nat \<times> nat) \<times> (nat \<times> nat)" where
  "selection_bounds t =
     (if cell_linear t (selection_anchor_col t) (selection_anchor_row t) \<le> cell_linear t (selection_focus_col t) (selection_focus_row t)
      then ((selection_anchor_col t, selection_anchor_row t), (selection_focus_col t, selection_focus_row t))
      else ((selection_focus_col t, selection_focus_row t), (selection_anchor_col t, selection_anchor_row t)))"

definition selection_invert_linear_range :: "nat \<Rightarrow> nat \<Rightarrow> terminal \<Rightarrow> terminal" where
  "selection_invert_linear_range first final t =
     (let cols = terminal_cols t in
      if \<not> terminal_graphics t \<or> first > final then t
      else if terminal_rows t * cols = 0 then t
      else
        let max_cell = terminal_rows t * cols - 1
        in if first > max_cell then t
           else
             let final = (if final > max_cell then max_cell else final);
                 first_row = first div cols;
                 last_row = final div cols
             in fold (\<lambda>row.
                  let from = (if row = first_row then first mod cols else 0);
                      to = (if row = last_row then final mod cols else cols - 1)
                  in draw (Invert_rect (from * TERMINAL_CELL_WIDTH) (row * TERMINAL_CELL_HEIGHT)
                            ((to - from + 1) * TERMINAL_CELL_WIDTH) TERMINAL_CELL_HEIGHT))
                [first_row..<last_row + 1] t)"

definition selection_current_linear :: "terminal \<Rightarrow> (nat \<times> nat) option" where
  "selection_current_linear t =
     (if \<not> selection_active_state t then None
      else case selection_bounds t of ((start_col, start_row), (end_col, end_row)) \<Rightarrow>
        Some (cell_linear t start_col start_row, cell_linear t end_col end_row))"

definition selection_hide :: "terminal \<Rightarrow> terminal" where
  "selection_hide t =
     (if \<not> selection_drawn t then t
      else
        let t = draw Begin_update t;
            t = selection_invert_linear_range (selection_drawn_start t) (selection_drawn_end t) t;
            t = draw End_update t
        in t\<lparr>selection_drawn := False\<rparr>)"

text \<open>The cells that change between the drawn and the new selection.\<close>

definition selection_change :: "nat \<Rightarrow> nat \<Rightarrow> terminal \<Rightarrow> terminal" where
  "selection_change new_start new_end t =
     (let old_start = selection_drawn_start t; old_end = selection_drawn_end t in
      if \<not> selection_drawn t then selection_invert_linear_range new_start new_end t
      else if new_end < old_start \<or> new_start > old_end then
        selection_invert_linear_range new_start new_end (selection_invert_linear_range old_start old_end t)
      else
        let t = (if new_start < old_start then selection_invert_linear_range new_start (old_start - 1) t
                 else if new_start > old_start then selection_invert_linear_range old_start (new_start - 1) t
                 else t)
        in if new_end > old_end then selection_invert_linear_range (old_end + 1) new_end t
           else if new_end < old_end then selection_invert_linear_range (new_end + 1) old_end t
           else t)"

definition selection_show :: "terminal \<Rightarrow> terminal" where
  "selection_show t =
     (case selection_current_linear t of
        None \<Rightarrow> selection_hide t
      | Some (new_start, new_end) \<Rightarrow>
          (draw End_update (selection_change new_start new_end (draw Begin_update t)))
            \<lparr>selection_drawn_start := new_start, selection_drawn_end := new_end, selection_drawn := True\<rparr>)"

definition terminal_selection_clear :: "terminal \<Rightarrow> terminal" where
  "terminal_selection_clear t = (selection_hide t)\<lparr>selection_tracking := False, selection_active_state := False\<rparr>"

section \<open>Update transactions\<close>

definition terminal_set_scrollback_offset :: "screen_env \<Rightarrow> nat \<Rightarrow> terminal \<Rightarrow> terminal" where
  "terminal_set_scrollback_offset E new_offset t =
     (let new_offset = (if new_offset > scrollback_count t then scrollback_count t else new_offset)
      in if new_offset = scrollback_view_offset t then t
         else
           let t = terminal_selection_clear t;
               old_offset = scrollback_view_offset t;
               t = (if old_offset = 0 \<and> new_offset \<noteq> 0 then graphics_erase_cursor E t else t);
               delta = int new_offset - int old_offset
           in graphics_shift_view E delta (t\<lparr>scrollback_view_offset := new_offset\<rparr>))"

definition terminal_return_live :: "screen_env \<Rightarrow> terminal \<Rightarrow> terminal" where
  "terminal_return_live E t = (if scrollback_view_offset t = 0 then t else terminal_set_scrollback_offset E 0 t)"

definition terminal_begin_update :: "screen_env \<Rightarrow> bool \<Rightarrow> terminal \<Rightarrow> terminal" where
  "terminal_begin_update E clear_selection t =
     (if \<not> terminal_graphics t then t\<lparr>terminal_update_depth := u32_add (terminal_update_depth t) 1\<rparr>
      else
        let t = (if terminal_update_depth t = 0 then
                   let t = terminal_return_live E t;
                       t = (if clear_selection then terminal_selection_clear t else t)
                   in graphics_erase_cursor E (draw Begin_update t)
                 else t)
        in t\<lparr>terminal_update_depth := u32_add (terminal_update_depth t) 1\<rparr>)"

definition terminal_end_update :: "terminal \<Rightarrow> terminal" where
  "terminal_end_update t =
     (if terminal_update_depth t = 0 then t
      else
        let t = t\<lparr>terminal_update_depth := terminal_update_depth t - 1\<rparr>
        in if terminal_update_depth t \<noteq> 0 then t
           else if terminal_graphics t then draw End_update (graphics_draw_cursor t)
           else vga_update_cursor t)"

definition terminal_begin_batch :: "screen_env \<Rightarrow> terminal \<Rightarrow> terminal" where
  "terminal_begin_batch E t =
     (let t = (if terminal_explicit_batch_depth t = 0
               then t\<lparr>terminal_batch_output_count := 0, terminal_batch_defer_threshold := 0\<rparr> else t)
      in terminal_begin_update E False (t\<lparr>terminal_explicit_batch_depth := u32_add (terminal_explicit_batch_depth t) 1\<rparr>))"

definition terminal_begin_output_batch :: "screen_env \<Rightarrow> terminal \<Rightarrow> terminal" where
  "terminal_begin_output_batch E t =
     (let t = (if terminal_explicit_batch_depth t = 0
               then t\<lparr>terminal_batch_output_count := 0, terminal_batch_defer_threshold := TERMINAL_OUTPUT_DEFER_THRESHOLD\<rparr> else t)
      in terminal_begin_update E False (t\<lparr>terminal_explicit_batch_depth := u32_add (terminal_explicit_batch_depth t) 1\<rparr>))"

definition terminal_end_batch :: "screen_env \<Rightarrow> terminal \<Rightarrow> terminal" where
  "terminal_end_batch E t =
     (if terminal_explicit_batch_depth t = 0 then t
      else
        let outermost = (terminal_explicit_batch_depth t = 1);
            t = t\<lparr>terminal_explicit_batch_depth := terminal_explicit_batch_depth t - 1\<rparr>;
            t = (if outermost \<and> terminal_graphics t \<and> terminal_full_redraw_pending t
                 then (graphics_redraw_view E t)\<lparr>terminal_full_redraw_pending := False\<rparr> else t);
            t = (if outermost then t\<lparr>terminal_batch_output_count := 0, terminal_batch_defer_threshold := 0\<rparr> else t)
        in terminal_end_update t)"

section \<open>Scrolling\<close>

definition copy_cols :: "nat \<Rightarrow> 'a list \<Rightarrow> 'a list \<Rightarrow> 'a list" where
  "copy_cols n src dst = take n src @ drop n dst"

definition blank_cols :: "nat \<Rightarrow> RootCodepoint list \<Rightarrow> RootCodepoint list" where
  "blank_cols n dst = replicate n BLANK @ drop n dst"

definition scrollback_push_top_row :: "terminal \<Rightarrow> terminal" where
  "scrollback_push_top_row t =
     (let head = scrollback_head t;
          t = t\<lparr>scrollback := (scrollback t)[head := copy_cols (terminal_cols t) (terminal_cells t ! 0) (scrollback t ! head)],
                scrollback_head := (head + 1) mod TERMINAL_SCROLLBACK_LINES\<rparr>
      in if scrollback_count t < TERMINAL_SCROLLBACK_LINES then t\<lparr>scrollback_count := scrollback_count t + 1\<rparr> else t)"

definition shift_cells :: "nat \<Rightarrow> nat \<Rightarrow> RootCodepoint list list \<Rightarrow> RootCodepoint list list" where
  "shift_cells cols rows cells =
     (let cells = fold (\<lambda>row cells. cells[row - 1 := copy_cols cols (cells ! row) (cells ! (row - 1))]) [1..<rows] cells
      in cells[rows - 1 := blank_cols cols (cells ! (rows - 1))])"

definition vga_scroll :: "terminal \<Rightarrow> terminal" where
  "vga_scroll t = fold (\<lambda>x. vga_put_at 0x20 x (VGA_HEIGHT - 1)) [0..<VGA_WIDTH]
     (t\<lparr>vga_memory := fold (\<lambda>k mem. mem[k - VGA_WIDTH := mem ! k]) [VGA_WIDTH..<VGA_WIDTH * VGA_HEIGHT] (vga_memory t)\<rparr>)"

definition terminal_scroll :: "terminal \<Rightarrow> terminal" where
  "terminal_scroll t =
     (if terminal_row t < terminal_rows t then t
      else if terminal_graphics t then
        let t = scrollback_push_top_row t;
            t = t\<lparr>terminal_cells := shift_cells (terminal_cols t) (terminal_rows t) (terminal_cells t), terminal_row := terminal_rows t - 1\<rparr>
        in if terminal_explicit_batch_depth t \<noteq> 0 then t\<lparr>terminal_full_redraw_pending := True\<rparr>
           else draw (Scroll_up TERMINAL_CELL_HEIGHT (terminal_background t)) t
      else (vga_scroll t)\<lparr>terminal_row := VGA_HEIGHT - 1\<rparr>)"

section \<open>Initialisation and clearing\<close>

definition terminal_init :: "screen_env \<Rightarrow> terminal \<Rightarrow> terminal" where
  "terminal_init E t =
     (let graphics = (display_ready (terminal_display t) \<and> rootfont_ready (env_font E));
          t = t\<lparr>terminal_row := 0, terminal_col := 0, scrollback_head := 0, scrollback_count := 0, scrollback_view_offset := 0,
                selection_tracking := False, selection_active_state := False, selection_drawn := False, terminal_update_depth := 0,
                terminal_explicit_batch_depth := 0, terminal_batch_output_count := 0, terminal_batch_defer_threshold := 0,
                terminal_full_redraw_pending := False, terminal_graphics := graphics\<rparr>;
          t = (if graphics then
                 t\<lparr>terminal_cols := min (display_width (terminal_display t) div TERMINAL_CELL_WIDTH) TERMINAL_MAX_COLS,
                   terminal_rows := min (display_height (terminal_display t) div TERMINAL_CELL_HEIGHT) TERMINAL_MAX_ROWS,
                   terminal_foreground := env_rgb E 255 255 255, terminal_background := env_rgb E 0 0 0\<rparr>
               else vga_enable_cursor E (t\<lparr>terminal_cols := VGA_WIDTH, terminal_rows := VGA_HEIGHT\<rparr>))
      in t\<lparr>terminal_cells := replicate TERMINAL_MAX_ROWS (replicate TERMINAL_MAX_COLS BLANK)\<rparr>)"

definition terminal_clear :: "screen_env \<Rightarrow> terminal \<Rightarrow> terminal" where
  "terminal_clear E t =
     (let t = terminal_begin_update E True t;
          t = t\<lparr>terminal_row := 0, terminal_col := 0, scrollback_view_offset := 0, terminal_full_redraw_pending := False\<rparr>;
          t = (if terminal_graphics t then
                 draw (Clear (terminal_background t))
                   (t\<lparr>terminal_cells := map (blank_cols (terminal_cols t)) (take (terminal_rows t) (terminal_cells t))
                        @ drop (terminal_rows t) (terminal_cells t)\<rparr>)
               else fold (\<lambda>y t. fold (\<lambda>x. vga_put_at 0x20 x y) [0..<VGA_WIDTH] t) [0..<VGA_HEIGHT] t)
      in terminal_end_update t)"

definition terminal_clear_row :: "screen_env \<Rightarrow> nat \<Rightarrow> terminal \<Rightarrow> terminal" where
  "terminal_clear_row E row t =
     (if row \<ge> terminal_rows t then t
      else
        let t = terminal_begin_update E False t;
            t = t\<lparr>terminal_cells := (terminal_cells t)[row := blank_cols (terminal_cols t) (terminal_cells t ! row)]\<rparr>;
            t = (if terminal_graphics t then
                   draw (Fill_rect 0 (row * TERMINAL_CELL_HEIGHT) (terminal_cols t * TERMINAL_CELL_WIDTH) TERMINAL_CELL_HEIGHT (terminal_background t)) t
                 else fold (\<lambda>column. vga_put_at 0x20 column row) [0..<VGA_WIDTH] t)
        in terminal_end_update t)"

section \<open>Output\<close>

definition next_row :: "terminal \<Rightarrow> terminal" where
  "next_row t = terminal_scroll (t\<lparr>terminal_col := 0, terminal_row := terminal_row t + 1\<rparr>)"

text \<open>\<open>put_graphics\<close> and \<open>put_vga\<close> are the two tails of \<open>terminal_putcodepoint_internal\<close>.\<close>

definition put_graphics :: "screen_env \<Rightarrow> RootCodepoint \<Rightarrow> terminal \<Rightarrow> terminal" where
  "put_graphics E codepoint t =
     (case graphics_get_glyph E codepoint of
        None \<Rightarrow> t
      | Some glyph \<Rightarrow>
          let cells_needed = (if glyph_width glyph > 8 then 2 else 1);
              t = (if terminal_col t + cells_needed > terminal_cols t then next_row t else t);
              row = terminal_row t;
              col = terminal_col t;
              t = (if cell_at t row col = TERMINAL_CONTINUATION \<and> col > 0 then
                     let t = set_cell row (col - 1) BLANK t
                     in if \<not> terminal_full_redraw_pending t then graphics_render_live_cell E (col - 1) row t else t
                   else t);
              t = (if cell_at t row col \<noteq> TERMINAL_CONTINUATION \<and> col + 1 < terminal_cols t
                       \<and> cell_at t row (col + 1) = TERMINAL_CONTINUATION then
                     let t = set_cell row (col + 1) BLANK t
                     in if \<not> terminal_full_redraw_pending t then graphics_clear_cell (col + 1) row t else t
                   else t);
              t = set_cell row col codepoint t;
              t = (if cells_needed = 2 \<and> col + 1 < terminal_cols t then set_cell row (col + 1) TERMINAL_CONTINUATION t else t);
              t = (if \<not> terminal_full_redraw_pending t then graphics_draw_glyph E codepoint col row t else t);
              t = t\<lparr>terminal_col := col + cells_needed\<rparr>
          in if terminal_col t \<ge> terminal_cols t then next_row t else t)"

definition put_vga :: "RootCodepoint \<Rightarrow> terminal \<Rightarrow> terminal" where
  "put_vga codepoint t =
     (let fallback = (if codepoint \<le> 0x7F then ucast codepoint else 0x3F);
          t = vga_put_at fallback (terminal_col t) (terminal_row t) t;
          t = t\<lparr>terminal_col := terminal_col t + 1\<rparr>
      in if terminal_col t \<ge> VGA_WIDTH then next_row t else t)"

definition count_output :: "terminal \<Rightarrow> terminal" where
  "count_output t =
     (if terminal_explicit_batch_depth t \<noteq> 0 then
        let t = t\<lparr>terminal_batch_output_count := u32_add (terminal_batch_output_count t) 1\<rparr>
        in if terminal_batch_defer_threshold t \<noteq> 0 \<and> terminal_batch_output_count t \<ge> terminal_batch_defer_threshold t
           then t\<lparr>terminal_full_redraw_pending := True\<rparr> else t
      else t)"

definition put_backspace :: "screen_env \<Rightarrow> terminal \<Rightarrow> terminal" where
  "put_backspace E t =
     (if terminal_col t = 0 then t
      else
        let t = t\<lparr>terminal_col := terminal_col t - 1\<rparr>;
            t = set_cell (terminal_row t) (terminal_col t) BLANK t
        in if terminal_graphics t then
             (if \<not> terminal_full_redraw_pending t then graphics_render_live_cell E (terminal_col t) (terminal_row t) t else t)
           else vga_put_at 0x20 (terminal_col t) (terminal_row t) t)"

text \<open>A code point other than a tab; a tab then puts blanks up to the next multiple of four.\<close>

definition put_untabbed :: "screen_env \<Rightarrow> RootCodepoint \<Rightarrow> terminal \<Rightarrow> terminal" where
  "put_untabbed E codepoint t0 =
     (let t = count_output t0
      in if codepoint = 0x0A then next_row t
         else if codepoint = 0x0D then t\<lparr>terminal_col := 0\<rparr>
         else if codepoint = 0x08 then put_backspace E t
         else if terminal_graphics t then put_graphics E codepoint t
         else put_vga codepoint t)"

definition terminal_putcodepoint_internal :: "screen_env \<Rightarrow> RootCodepoint \<Rightarrow> terminal \<Rightarrow> terminal" where
  "terminal_putcodepoint_internal E codepoint t0 =
     (if codepoint = 0x09 then
        let t = count_output t0
        in (put_untabbed E BLANK ^^ (4 - terminal_col t mod 4)) t
      else put_untabbed E codepoint t0)"

definition terminal_putcodepoint :: "screen_env \<Rightarrow> RootCodepoint \<Rightarrow> terminal \<Rightarrow> terminal" where
  "terminal_putcodepoint E codepoint t =
     terminal_end_update (terminal_putcodepoint_internal E codepoint (terminal_begin_update E True t))"

definition terminal_putchar :: "screen_env \<Rightarrow> u8 \<Rightarrow> terminal \<Rightarrow> terminal" where
  "terminal_putchar E c t = terminal_putcodepoint E (ucast c) t"

text \<open>The bytes of the text as code points; a byte that starts no sequence counts as U+FFFD.\<close>

function decode_text :: "u8 list \<Rightarrow> RootCodepoint list" where
  "decode_text bytes =
     (if bytes = [] then []
      else case root_utf8_decode bytes of
             None \<Rightarrow> ROOT_UNICODE_REPLACEMENT # decode_text (drop 1 bytes)
           | Some (codepoint, consumed) \<Rightarrow>
               if consumed = 0 then ROOT_UNICODE_REPLACEMENT # decode_text (drop 1 bytes)
               else codepoint # decode_text (drop consumed bytes))"
  by pat_completeness auto
termination by (relation "measure length") auto

declare decode_text.simps [simp del]

definition terminal_print :: "screen_env \<Rightarrow> u8 list option \<Rightarrow> terminal \<Rightarrow> terminal" where
  "terminal_print E txt t =
     (case txt of
        None \<Rightarrow> t
      | Some bytes \<Rightarrow> terminal_end_update
          (fold (terminal_putcodepoint_internal E) (decode_text (takeWhile (\<lambda>b. b \<noteq> 0) bytes)) (terminal_begin_update E True t)))"

section \<open>Cursor and geometry\<close>

definition terminal_set_cursor :: "screen_env \<Rightarrow> nat \<Rightarrow> nat \<Rightarrow> terminal \<Rightarrow> terminal" where
  "terminal_set_cursor E x y t =
     (if x \<ge> terminal_cols t \<or> y \<ge> terminal_rows t then t
      else terminal_end_update ((terminal_begin_update E False t)\<lparr>terminal_col := x, terminal_row := y\<rparr>))"

definition terminal_codepoint_cells :: "screen_env \<Rightarrow> terminal \<Rightarrow> RootCodepoint \<Rightarrow> nat" where
  "terminal_codepoint_cells E t codepoint =
     (if \<not> terminal_graphics t then 1
      else case graphics_get_glyph E codepoint of None \<Rightarrow> 1 | Some glyph \<Rightarrow> if glyph_width glyph > 8 then 2 else 1)"

definition terminal_pixel_to_cell :: "terminal \<Rightarrow> int \<Rightarrow> int \<Rightarrow> (nat \<times> nat) option" where
  "terminal_pixel_to_cell t pixel_x pixel_y =
     (if \<not> terminal_graphics t \<or> pixel_x < 0 \<or> pixel_y < 0 then None
      else
        let c = nat pixel_x div TERMINAL_CELL_WIDTH;
            r = nat pixel_y div TERMINAL_CELL_HEIGHT
        in if c \<ge> terminal_cols t \<or> r \<ge> terminal_rows t then None else Some (c, r))"

section \<open>Selecting with the mouse\<close>

definition terminal_selection_begin :: "int \<Rightarrow> int \<Rightarrow> terminal \<Rightarrow> bool \<times> terminal" where
  "terminal_selection_begin pixel_x pixel_y t =
     (case terminal_pixel_to_cell t pixel_x pixel_y of
        None \<Rightarrow> (False, t)
      | Some (column, row) \<Rightarrow> (True, (terminal_selection_clear t)\<lparr>selection_anchor_col := column, selection_anchor_row := row,
          selection_focus_col := column, selection_focus_row := row, selection_tracking := True\<rparr>))"

definition terminal_selection_drag :: "int \<Rightarrow> int \<Rightarrow> terminal \<Rightarrow> bool \<times> terminal" where
  "terminal_selection_drag pixel_x pixel_y t =
     (if \<not> selection_tracking t then (False, t)
      else case terminal_pixel_to_cell t pixel_x pixel_y of
             None \<Rightarrow> (False, t)
           | Some (column, row) \<Rightarrow>
               if column = selection_focus_col t \<and> row = selection_focus_row t then (True, t)
               else (True, selection_show (t\<lparr>selection_focus_col := column, selection_focus_row := row,
                 selection_active_state := (column \<noteq> selection_anchor_col t \<or> row \<noteq> selection_anchor_row t)\<rparr>)))"

definition terminal_selection_end :: "terminal \<Rightarrow> terminal" where
  "terminal_selection_end t = t\<lparr>selection_tracking := False\<rparr>"

fun trim_to :: "RootCodepoint list \<Rightarrow> nat \<Rightarrow> nat \<Rightarrow> nat" where
  "trim_to row from 0 = 0"
| "trim_to row from (Suc to) =
     (if Suc to > from \<and> (row ! Suc to = 0 \<or> row ! Suc to = BLANK) then trim_to row from to else Suc to)"

text \<open>Copying into the buffer of 4096 code points; \<open>True\<close> when it stopped because the buffer was full.\<close>

fun copy_cells :: "RootCodepoint list \<Rightarrow> RootCodepoint list \<Rightarrow> bool \<times> RootCodepoint list" where
  "copy_cells [] out = (False, out)"
| "copy_cells (v # vs) out =
     (if v = TERMINAL_CONTINUATION then copy_cells vs out
      else let v = (if v = 0 then BLANK else v)
           in if length out + 1 \<ge> ROOT_CLIPBOARD_MAX_CODEPOINTS then (True, out) else copy_cells vs (out @ [v]))"

fun copy_rows :: "terminal \<Rightarrow> (nat \<times> nat) \<Rightarrow> (nat \<times> nat) \<Rightarrow> nat list \<Rightarrow> RootCodepoint list \<Rightarrow> RootCodepoint list" where
  "copy_rows t start stop [] out = out"
| "copy_rows t start stop (row # rows) out =
     (case visible_row_data t row of
        None \<Rightarrow> copy_rows t start stop rows out
      | Some row_data \<Rightarrow>
          let from = (if row = snd start then fst start else 0);
              to = (if row = snd stop then fst stop else terminal_cols t - 1);
              to = trim_to row_data from to
          in case copy_cells (map ((!) row_data) [from..<to + 1]) out of (full, out) \<Rightarrow>
               if full then out
               else if row \<noteq> snd stop then
                 (if length out + 1 \<ge> ROOT_CLIPBOARD_MAX_CODEPOINTS then out else copy_rows t start stop rows (out @ [0x0A]))
               else copy_rows t start stop rows out)"

definition terminal_selection_copy :: "terminal \<Rightarrow> bool \<times> terminal" where
  "terminal_selection_copy t =
     (if \<not> selection_active_state t then (False, t)
      else case selection_bounds t of (start, stop) \<Rightarrow>
        let out = copy_rows t start stop [snd start..<snd stop + 1] []
        in case rootclipboard_set (Some out) (length out) (terminal_clipboard t) of (ok, c) \<Rightarrow> (ok, t\<lparr>terminal_clipboard := c\<rparr>))"

definition word_separator :: "RootCodepoint \<Rightarrow> bool" where
  "word_separator codepoint = (codepoint = 0 \<or> codepoint = BLANK \<or> codepoint = 0x09 \<or> codepoint = TERMINAL_CONTINUATION)"

fun word_start :: "RootCodepoint list \<Rightarrow> nat \<Rightarrow> nat" where
  "word_start row 0 = 0"
| "word_start row (Suc start) = (if \<not> word_separator (row ! start) then word_start row start else Suc start)"

function word_end :: "RootCodepoint list \<Rightarrow> nat \<Rightarrow> nat \<Rightarrow> nat" where
  "word_end row cols stop = (if stop + 1 < cols \<and> \<not> word_separator (row ! (stop + 1)) then word_end row cols (stop + 1) else stop)"
  by pat_completeness auto
termination by (relation "measure (\<lambda>(_, cols, stop). cols - stop)") auto

declare word_end.simps [simp del]

definition terminal_selection_select_word :: "int \<Rightarrow> int \<Rightarrow> terminal \<Rightarrow> bool \<times> terminal" where
  "terminal_selection_select_word pixel_x pixel_y t =
     (case terminal_pixel_to_cell t pixel_x pixel_y of
        None \<Rightarrow> (False, t)
      | Some (column, row) \<Rightarrow>
          (case visible_row_data t row of
             None \<Rightarrow> (False, t)
           | Some row_data \<Rightarrow>
               if word_separator (row_data ! column) then (False, t)
               else (True, selection_show ((terminal_selection_clear t)\<lparr>selection_anchor_col := word_start row_data column,
                 selection_anchor_row := row, selection_focus_col := word_end row_data (terminal_cols t) column,
                 selection_focus_row := row, selection_active_state := True, selection_tracking := False\<rparr>))))"

section \<open>Looking back\<close>

definition terminal_scrollback_up :: "screen_env \<Rightarrow> nat \<Rightarrow> terminal \<Rightarrow> terminal" where
  "terminal_scrollback_up E lines t =
     (if \<not> terminal_graphics t \<or> scrollback_count t = 0 \<or> lines = 0 then t
      else
        let available = scrollback_count t - scrollback_view_offset t;
            actual = (if lines > available then available else lines)
        in if actual = 0 then t else terminal_set_scrollback_offset E (scrollback_view_offset t + actual) t)"

definition draw_cursor_update :: "terminal \<Rightarrow> terminal" where
  "draw_cursor_update t = draw End_update (graphics_draw_cursor (draw Begin_update t))"

definition terminal_scrollback_down :: "screen_env \<Rightarrow> nat \<Rightarrow> terminal \<Rightarrow> terminal" where
  "terminal_scrollback_down E lines t =
     (if \<not> terminal_graphics t \<or> lines = 0 then t
      else
        let actual = (if lines > scrollback_view_offset t then scrollback_view_offset t else lines)
        in if actual = 0 then t
           else
             let t = terminal_set_scrollback_offset E (scrollback_view_offset t - actual) t
             in if scrollback_view_offset t = 0 then draw_cursor_update t else t)"

definition terminal_scrollback_bottom :: "screen_env \<Rightarrow> terminal \<Rightarrow> terminal" where
  "terminal_scrollback_bottom E t =
     (if scrollback_view_offset t = 0 then t
      else
        let t = terminal_set_scrollback_offset E 0 t
        in if terminal_graphics t then draw_cursor_update t else t)"

definition terminal_scrollback_available :: "terminal \<Rightarrow> nat" where
  "terminal_scrollback_available t = scrollback_count t"

end
