(* ===== verification/Root_Terminal_Safety.thy ===== *)
theory Root_Terminal_Safety
  imports Root_Terminal
begin

text \<open>
  The invariant of the terminal: whatever is printed, selected and scrolled, the cursor is on the grid, the scrollback
  ring and the view into it are in their bounds and a selection lies on the grid. The state is read through two
  projections, the text (\<open>text_of\<close>) and the selection (\<open>sel_of\<close>), that drawing leaves alone.
\<close>

section \<open>What drawing leaves alone\<close>

definition text_of :: "terminal \<Rightarrow> (bool \<times> nat \<times> nat \<times> nat \<times> nat) \<times> (RootCodepoint list list \<times> RootCodepoint list list \<times> nat \<times> nat) \<times> clipboard \<times> nat" where
  "text_of t = ((terminal_graphics t, terminal_row t, terminal_col t, terminal_cols t, terminal_rows t),
     (terminal_cells t, scrollback t, scrollback_head t, scrollback_count t), terminal_clipboard t, length (vga_memory t))"

definition sel_of :: "terminal \<Rightarrow> bool \<times> bool \<times> nat \<times> nat \<times> nat \<times> nat" where
  "sel_of t = (selection_tracking t, selection_active_state t, selection_anchor_col t, selection_anchor_row t,
     selection_focus_col t, selection_focus_row t)"

definition core_of where
  "core_of t = (text_of t, sel_of t, scrollback_view_offset t, terminal_explicit_batch_depth t)"

lemma core_eqD:
  assumes "core_of t' = core_of t"
  shows "terminal_graphics t' = terminal_graphics t" "terminal_row t' = terminal_row t" "terminal_col t' = terminal_col t"
    "terminal_cols t' = terminal_cols t" "terminal_rows t' = terminal_rows t" "terminal_cells t' = terminal_cells t"
    "scrollback t' = scrollback t" "scrollback_head t' = scrollback_head t" "scrollback_count t' = scrollback_count t"
    "terminal_clipboard t' = terminal_clipboard t" "length (vga_memory t') = length (vga_memory t)"
    "scrollback_view_offset t' = scrollback_view_offset t" "text_of t' = text_of t" "sel_of t' = sel_of t"
  using assms by (simp_all add: core_of_def text_of_def sel_of_def)

lemma core_draw [simp]: "core_of (draw op t) = core_of t"
  by (simp add: core_of_def text_of_def sel_of_def draw_def)

lemma core_fold: "(\<And>x t. core_of (f x t) = core_of t) \<Longrightarrow> core_of (fold f xs t) = core_of t"
  by (induction xs arbitrary: t) auto

lemma core_vga [simp]:
  "core_of (vga_out p v t) = core_of t" "core_of (vga_put_at c x y t) = core_of t"
  by (simp_all add: core_of_def text_of_def sel_of_def vga_out_def vga_put_at_def)

lemma core_drawing [simp]:
  "core_of (vga_update_cursor t) = core_of t" "core_of (vga_enable_cursor E t) = core_of t"
  "core_of (graphics_clear_cell c r t) = core_of t" "core_of (draw_glyph_at g c r b t) = core_of t"
  "core_of (graphics_draw_glyph_pixels E cp c r t) = core_of t" "core_of (graphics_draw_glyph E cp c r t) = core_of t"
  by (simp_all add: vga_update_cursor_def vga_enable_cursor_def graphics_clear_cell_def draw_glyph_at_def
      graphics_draw_glyph_pixels_def graphics_draw_glyph_def Let_def split: option.split)

lemma core_views [simp]:
  "core_of (graphics_render_live_cell E c r t) = core_of t" "core_of (graphics_render_row_data E d r t) = core_of t"
  "core_of (render_rows E rs t) = core_of t" "core_of (graphics_redraw_view E t) = core_of t"
  "core_of (graphics_shift_view E d' t) = core_of t" "core_of (graphics_erase_cursor E t) = core_of t"
  "core_of (graphics_draw_cursor t) = core_of t" "core_of (selection_invert_linear_range a b t) = core_of t"
proof -
  show live: "core_of (graphics_render_live_cell E c r t) = core_of t" for c r t by (simp add: graphics_render_live_cell_def Let_def)
  show row: "core_of (graphics_render_row_data E d r t) = core_of t" for d r t
    by (cases d) (simp_all add: graphics_render_row_data_def core_fold)
  show rows: "core_of (render_rows E rs t) = core_of t" for rs t by (simp add: render_rows_def core_fold row)
  show redraw: "core_of (graphics_redraw_view E t) = core_of t" for t by (simp add: graphics_redraw_view_def Let_def rows)
  show "core_of (graphics_shift_view E d' t) = core_of t" by (simp add: graphics_shift_view_def Let_def rows redraw)
  show "core_of (graphics_erase_cursor E t) = core_of t" by (simp add: graphics_erase_cursor_def live)
  show "core_of (graphics_draw_cursor t) = core_of t" by (simp add: graphics_draw_cursor_def)
  show "core_of (selection_invert_linear_range a b t) = core_of t"
    by (simp add: selection_invert_linear_range_def Let_def core_fold)
qed

lemma core_drawn [simp]:
  "core_of (t\<lparr>selection_drawn := b\<rparr>) = core_of t" "core_of (t\<lparr>selection_drawn_start := n\<rparr>) = core_of t"
  "core_of (t\<lparr>selection_drawn_end := n\<rparr>) = core_of t" "core_of (t\<lparr>terminal_update_depth := n\<rparr>) = core_of t"
  "core_of (t\<lparr>terminal_batch_output_count := n\<rparr>) = core_of t" "core_of (t\<lparr>terminal_batch_defer_threshold := n\<rparr>) = core_of t"
  "core_of (t\<lparr>terminal_full_redraw_pending := b\<rparr>) = core_of t"
  by (simp_all add: core_of_def text_of_def sel_of_def)

lemma core_selection [simp]:
  "core_of (selection_hide t) = core_of t" "core_of (selection_change a b t) = core_of t" "core_of (selection_show t) = core_of t"
proof -
  show hide: "core_of (selection_hide t) = core_of t" by (simp add: selection_hide_def Let_def)
  show change: "core_of (selection_change a b t) = core_of t" for a b t by (simp add: selection_change_def Let_def)
  show "core_of (selection_show t) = core_of t" by (simp add: selection_show_def hide change split: option.split)
qed

section \<open>The invariant\<close>

definition row_ok :: "RootCodepoint list \<Rightarrow> bool" where
  "row_ok row \<longleftrightarrow> length row = TERMINAL_MAX_COLS"

definition grid_ok :: "terminal \<Rightarrow> bool" where
  "grid_ok t \<longleftrightarrow> 0 < terminal_cols t \<and> terminal_cols t \<le> TERMINAL_MAX_COLS \<and> 0 < terminal_rows t \<and> terminal_rows t \<le> TERMINAL_MAX_ROWS
     \<and> length (terminal_cells t) = TERMINAL_MAX_ROWS \<and> list_all row_ok (terminal_cells t)
     \<and> length (scrollback t) = TERMINAL_SCROLLBACK_LINES \<and> list_all row_ok (scrollback t)
     \<and> scrollback_head t < TERMINAL_SCROLLBACK_LINES \<and> scrollback_count t \<le> TERMINAL_SCROLLBACK_LINES
     \<and> clipboard_ok (terminal_clipboard t) \<and> length (vga_memory t) = VGA_WIDTH * VGA_HEIGHT
     \<and> (\<not> terminal_graphics t \<longrightarrow> terminal_cols t = VGA_WIDTH \<and> terminal_rows t = VGA_HEIGHT)"

definition cursor_ok :: "terminal \<Rightarrow> bool" where
  "cursor_ok t \<longleftrightarrow> terminal_row t < terminal_rows t \<and> terminal_col t < terminal_cols t"

definition sel_ok :: "terminal \<Rightarrow> bool" where
  "sel_ok t \<longleftrightarrow> (selection_tracking t \<or> selection_active_state t \<longrightarrow>
     selection_anchor_col t < terminal_cols t \<and> selection_anchor_row t < terminal_rows t
     \<and> selection_focus_col t < terminal_cols t \<and> selection_focus_row t < terminal_rows t)"

definition view_ok :: "terminal \<Rightarrow> bool" where
  "view_ok t \<longleftrightarrow> scrollback_view_offset t \<le> scrollback_count t"

definition term_ok :: "terminal \<Rightarrow> bool" where
  "term_ok t \<longleftrightarrow> grid_ok t \<and> cursor_ok t \<and> sel_ok t \<and> view_ok t"

lemma term_ok_core: "core_of t' = core_of t \<Longrightarrow> term_ok t' = term_ok t"
  by (simp add: term_ok_def grid_ok_def cursor_ok_def sel_ok_def view_ok_def core_of_def text_of_def sel_of_def)

text \<open>Opening and closing an update keeps the text; the view returns to the live rows and a selection may go.\<close>

lemma selection_clear_fields [simp]:
  "text_of (terminal_selection_clear t) = text_of t" "scrollback_view_offset (terminal_selection_clear t) = scrollback_view_offset t"
  "terminal_explicit_batch_depth (terminal_selection_clear t) = terminal_explicit_batch_depth t"
  "\<not> selection_tracking (terminal_selection_clear t)" "\<not> selection_active_state (terminal_selection_clear t)"
  using core_selection(1) [of t] by (simp_all add: terminal_selection_clear_def core_of_def text_of_def)

definition quiet :: "terminal \<Rightarrow> terminal \<Rightarrow> bool" where
  "quiet t t' \<longleftrightarrow> text_of t' = text_of t \<and> scrollback_view_offset t' \<le> scrollback_view_offset t
     \<and> (sel_of t' = sel_of t \<or> \<not> selection_tracking t' \<and> \<not> selection_active_state t')
     \<and> terminal_explicit_batch_depth t' = terminal_explicit_batch_depth t"

lemma quiet_core: "core_of t' = core_of t \<Longrightarrow> quiet t t'"
  by (simp add: quiet_def core_of_def)

lemma quiet_trans: "quiet a b \<Longrightarrow> quiet b c \<Longrightarrow> quiet a c"
  by (auto simp: quiet_def sel_of_def)

lemma quiet_ok: "quiet t t' \<Longrightarrow> term_ok t \<Longrightarrow> term_ok t'"
  unfolding quiet_def term_ok_def grid_ok_def cursor_ok_def sel_ok_def view_ok_def text_of_def sel_of_def
  by (elim conjE disjE) simp_all

lemma quiet_selection_clear: "quiet t (terminal_selection_clear t)"
  by (simp add: quiet_def)

lemma core_offset: "core_of u = core_of v \<Longrightarrow> core_of (u\<lparr>scrollback_view_offset := m\<rparr>) = core_of (v\<lparr>scrollback_view_offset := m\<rparr>)"
  by (simp add: core_of_def text_of_def sel_of_def)

lemma core_set_offset:
  "terminal_set_scrollback_offset E n t = t \<and> min n (scrollback_count t) = scrollback_view_offset t
   \<or> core_of (terminal_set_scrollback_offset E n t) = core_of ((terminal_selection_clear t)\<lparr>scrollback_view_offset := min n (scrollback_count t)\<rparr>)"
proof -
  let ?n = "if n > scrollback_count t then scrollback_count t else n"
  have n: "?n = min n (scrollback_count t)" by (simp add: min_def)
  have er: "core_of (if b then graphics_erase_cursor E u else u) = core_of u" for b u by simp
  show ?thesis unfolding terminal_set_scrollback_offset_def Let_def n [symmetric]
    using core_offset [OF er] by simp
qed

lemma quiet_set_offset:
  assumes "n \<le> scrollback_view_offset t"
  shows "quiet t (terminal_set_scrollback_offset E n t)"
proof -
  let ?c = "(terminal_selection_clear t)\<lparr>scrollback_view_offset := min n (scrollback_count t)\<rparr>"
  have "text_of ?c = text_of (terminal_selection_clear t)" by (simp add: text_of_def)
  then have "quiet t ?c" using assms by (simp add: quiet_def)
  then show ?thesis using core_set_offset [of E n t] quiet_trans [OF _ quiet_core] quiet_core [of t t] by metis
qed

lemma set_offset_ok: "term_ok t \<Longrightarrow> term_ok (terminal_set_scrollback_offset E n t)"
proof -
  assume ok: "term_ok t"
  have "term_ok (terminal_selection_clear t)" using quiet_ok [OF quiet_selection_clear ok] .
  moreover have "scrollback_count (terminal_selection_clear t) = scrollback_count t"
    using selection_clear_fields(1) [of t] by (simp add: text_of_def)
  ultimately have "term_ok ((terminal_selection_clear t)\<lparr>scrollback_view_offset := min n (scrollback_count t)\<rparr>)"
    by (simp add: term_ok_def grid_ok_def cursor_ok_def sel_ok_def view_ok_def)
  then show ?thesis using core_set_offset [of E n t] ok term_ok_core by metis
qed

lemma quiet_return_live: "quiet t (terminal_return_live E t)"
  by (simp add: terminal_return_live_def quiet_set_offset quiet_core)

lemma quiet_begin_update: "quiet t (terminal_begin_update E c t)"
proof -
  let ?r = "terminal_return_live E t"
  let ?s = "if c then terminal_selection_clear ?r else ?r"
  have s: "quiet t ?s" using quiet_trans [OF quiet_return_live quiet_selection_clear] quiet_return_live by simp
  have "core_of ((graphics_erase_cursor E (draw Begin_update ?s))\<lparr>terminal_update_depth := n\<rparr>) = core_of ?s" for n by simp
  then have "quiet t ((graphics_erase_cursor E (draw Begin_update ?s))\<lparr>terminal_update_depth := n\<rparr>)" for n
    using quiet_trans [OF s quiet_core] by blast
  then show ?thesis by (simp add: terminal_begin_update_def Let_def quiet_core)
qed

lemma core_end_update [simp]: "core_of (terminal_end_update t) = core_of t"
  by (simp add: terminal_end_update_def Let_def)

section \<open>Every operation keeps the invariant\<close>

lemma row_ok_simps [simp]:
  "n \<le> TERMINAL_MAX_COLS \<Longrightarrow> row_ok r \<Longrightarrow> row_ok (blank_cols n r)"
  "n \<le> TERMINAL_MAX_COLS \<Longrightarrow> row_ok r \<Longrightarrow> row_ok q \<Longrightarrow> row_ok (copy_cols n r q)"
  "row_ok r \<Longrightarrow> row_ok (r[i := v])"
  by (simp_all add: row_ok_def blank_cols_def copy_cols_def)

lemma rows_update: "list_all row_ok rows \<Longrightarrow> row_ok r \<Longrightarrow> list_all row_ok (rows[i := r])"
  by (auto simp: list_all_iff dest!: set_update_subset_insert [THEN subsetD])

lemma rows_nth: "list_all row_ok rows \<Longrightarrow> i < length rows \<Longrightarrow> row_ok (rows ! i)"
  by (simp add: list_all_iff)

lemma shift_cells_rows:
  assumes "cols \<le> TERMINAL_MAX_COLS" "list_all row_ok cells" "0 < rows" "rows \<le> length cells"
  shows "list_all row_ok (shift_cells cols rows cells) \<and> length (shift_cells cols rows cells) = length cells"
proof -
  let ?f = "\<lambda>row cells. cells[row - 1 := copy_cols cols (cells ! row) (cells ! (row - 1))]"
  have "list_all row_ok (fold ?f rs cells) \<and> length (fold ?f rs cells) = length cells" if "\<forall>r\<in>set rs. r < length cells" for rs
    using that assms(2)
  proof (induction rs arbitrary: cells)
    case (Cons r rs)
    have "row_ok (cells ! r)" "row_ok (cells ! (r - 1))"
      using Cons.prems by (auto simp: less_imp_diff_less intro: rows_nth)
    then have "list_all row_ok (?f r cells)" using assms(1) Cons.prems(2) by (intro rows_update) simp_all
    then show ?case using Cons.IH [of "?f r cells"] Cons.prems(1) by simp
  qed simp
  from this [of "[1..<rows]"] show ?thesis
    using assms by (simp add: shift_cells_def Let_def rows_update rows_nth)
qed

lemma set_cell_ok: "term_ok t \<Longrightarrow> row < terminal_rows t \<Longrightarrow> term_ok (set_cell row column c t)"
  by (simp add: term_ok_def grid_ok_def cursor_ok_def sel_ok_def view_ok_def set_cell_def rows_update rows_nth)

lemma set_cell_cursor [simp]:
  "terminal_row (set_cell r c v t) = terminal_row t" "terminal_col (set_cell r c v t) = terminal_col t"
  "terminal_cols (set_cell r c v t) = terminal_cols t" "terminal_rows (set_cell r c v t) = terminal_rows t"
  by (simp_all add: set_cell_def)

text \<open>\<open>steady t t'\<close>: the invariant is kept, cursor and geometry are where they were.\<close>

definition steady :: "terminal \<Rightarrow> terminal \<Rightarrow> bool" where
  "steady t t' \<longleftrightarrow> (term_ok t \<longrightarrow> term_ok t') \<and> terminal_row t' = terminal_row t \<and> terminal_col t' = terminal_col t
     \<and> terminal_cols t' = terminal_cols t \<and> terminal_rows t' = terminal_rows t"

lemma steady_refl [simp]: "steady t t"
  by (simp add: steady_def)

lemma steady_trans: "steady a b \<Longrightarrow> steady b c \<Longrightarrow> steady a c"
  by (simp add: steady_def)

lemma steady_core: "core_of t' = core_of t \<Longrightarrow> steady t t'"
  using term_ok_core [of t' t] by (simp add: steady_def core_of_def text_of_def)

lemma steady_set_cell: "row < terminal_rows t \<Longrightarrow> steady t (set_cell row c v t)"
  by (simp add: steady_def set_cell_ok)

lemma steady_ok: "steady t t' \<Longrightarrow> term_ok t \<Longrightarrow> term_ok t'"
  by (simp add: steady_def)

definition scroll_ready :: "terminal \<Rightarrow> bool" where
  "scroll_ready t \<longleftrightarrow> grid_ok t \<and> sel_ok t \<and> view_ok t \<and> terminal_row t \<le> terminal_rows t \<and> terminal_col t < terminal_cols t"

lemma core_vga_fold [simp]: "core_of (fold (\<lambda>x. vga_put_at c (f x) (g x)) xs t) = core_of t"
  by (rule core_fold) simp

lemma vga_scroll_core: "core_of (vga_scroll t) = core_of t"
proof -
  let ?m = "fold (\<lambda>k mem. mem[k - VGA_WIDTH := mem ! k]) [VGA_WIDTH..<VGA_WIDTH * VGA_HEIGHT] (vga_memory t)"
  have "length (fold (\<lambda>k mem. mem[k - VGA_WIDTH := mem ! k]) ks m) = length m" for ks and m :: "u16 list"
    by (induction ks arbitrary: m) auto
  then have "core_of (t\<lparr>vga_memory := ?m\<rparr>) = core_of t" by (simp add: core_of_def text_of_def sel_of_def)
  then show ?thesis by (simp add: vga_scroll_def)
qed

lemma push_top_ok:
  assumes "grid_ok t" "view_ok t"
  shows "grid_ok (scrollback_push_top_row t) \<and> view_ok (scrollback_push_top_row t)"
proof -
  have "row_ok (terminal_cells t ! 0)" "row_ok (scrollback t ! scrollback_head t)"
    using assms(1) by (auto simp: grid_ok_def rootos_consts intro!: rows_nth)
  then have "row_ok (copy_cols (terminal_cols t) (terminal_cells t ! 0) (scrollback t ! scrollback_head t))"
    using assms(1) by (simp add: grid_ok_def)
  then show ?thesis using assms
    by (simp add: scrollback_push_top_row_def Let_def grid_ok_def view_ok_def rows_update TERMINAL_SCROLLBACK_LINES_def)
qed

lemma push_top_fields [simp]:
  "terminal_cells (scrollback_push_top_row t) = terminal_cells t" "terminal_cols (scrollback_push_top_row t) = terminal_cols t"
  "terminal_rows (scrollback_push_top_row t) = terminal_rows t" "terminal_graphics (scrollback_push_top_row t) = terminal_graphics t"
  "sel_of (scrollback_push_top_row t) = sel_of t" "terminal_col (scrollback_push_top_row t) = terminal_col t"
  "terminal_explicit_batch_depth (scrollback_push_top_row t) = terminal_explicit_batch_depth t"
  by (simp_all add: scrollback_push_top_row_def Let_def sel_of_def)

lemma scroll_ok:
  assumes "scroll_ready t"
  shows "term_ok (terminal_scroll t)"
proof (cases "terminal_row t < terminal_rows t")
  case True
  then show ?thesis using assms by (simp add: terminal_scroll_def scroll_ready_def term_ok_def cursor_ok_def)
next
  case row: False
  show ?thesis
  proof (cases "terminal_graphics t")
    case True
    let ?p = "scrollback_push_top_row t"
    let ?s = "?p\<lparr>terminal_cells := shift_cells (terminal_cols ?p) (terminal_rows ?p) (terminal_cells ?p), terminal_row := terminal_rows ?p - 1\<rparr>"
    have g: "grid_ok ?p" "view_ok ?p" using push_top_ok assms by (simp_all add: scroll_ready_def)
    have "list_all row_ok (shift_cells (terminal_cols t) (terminal_rows t) (terminal_cells t))
        \<and> length (shift_cells (terminal_cols t) (terminal_rows t) (terminal_cells t)) = length (terminal_cells t)"
      using assms by (intro shift_cells_rows) (auto simp: scroll_ready_def grid_ok_def)
    then have "grid_ok ?s" using g(1) by (simp add: grid_ok_def)
    moreover have "sel_ok ?s" using assms push_top_fields(5) [of t] by (simp add: scroll_ready_def sel_ok_def sel_of_def)
    moreover have "cursor_ok ?s" "view_ok ?s" using assms g by (simp_all add: scroll_ready_def cursor_ok_def grid_ok_def view_ok_def)
    ultimately have "term_ok ?s" by (simp add: term_ok_def)
    moreover have "core_of (?s\<lparr>terminal_full_redraw_pending := True\<rparr>) = core_of ?s" "core_of (draw op ?s) = core_of ?s" for op by simp_all
    ultimately have "term_ok (?s\<lparr>terminal_full_redraw_pending := True\<rparr>)" "term_ok (draw op ?s)" for op
      using term_ok_core by metis+
    then show ?thesis using row True unfolding terminal_scroll_def Let_def by simp
  next
    case False
    have "core_of ((vga_scroll t)\<lparr>terminal_row := n\<rparr>) = core_of (t\<lparr>terminal_row := n\<rparr>)" for n
      using vga_scroll_core [of t] by (simp add: core_of_def text_of_def sel_of_def)
    moreover have "term_ok (t\<lparr>terminal_row := VGA_HEIGHT - 1\<rparr>)"
    proof -
      have "terminal_rows t = VGA_HEIGHT" using assms False by (simp add: scroll_ready_def grid_ok_def)
      then have "term_ok (t\<lparr>terminal_row := terminal_rows t - 1\<rparr>) = term_ok (t\<lparr>terminal_row := VGA_HEIGHT - 1\<rparr>)" by simp
      moreover have "term_ok (t\<lparr>terminal_row := terminal_rows t - 1\<rparr>)"
        using assms by (simp add: scroll_ready_def term_ok_def grid_ok_def cursor_ok_def sel_ok_def view_ok_def)
      ultimately show ?thesis by blast
    qed
    ultimately have "term_ok ((vga_scroll t)\<lparr>terminal_row := VGA_HEIGHT - 1\<rparr>)" using term_ok_core by metis
    then show ?thesis using row False by (simp add: terminal_scroll_def)
  qed
qed

lemma next_row_ok:
  assumes "grid_ok t" "sel_ok t" "view_ok t" "terminal_row t < terminal_rows t"
  shows "term_ok (next_row t)"
proof -
  have "scroll_ready (t\<lparr>terminal_col := 0, terminal_row := terminal_row t + 1\<rparr>)"
    using assms by (simp add: scroll_ready_def grid_ok_def sel_ok_def view_ok_def)
  from scroll_ok [OF this] show ?thesis by (simp add: next_row_def)
qed

lemma next_row_ok': "term_ok t \<Longrightarrow> term_ok (next_row t)"
  by (rule next_row_ok) (simp_all add: term_ok_def cursor_ok_def)

lemma scroll_geometry [simp]:
  "terminal_cols (terminal_scroll t) = terminal_cols t" "terminal_rows (terminal_scroll t) = terminal_rows t"
  "terminal_graphics (terminal_scroll t) = terminal_graphics t"
  using core_eqD(1,4,5) [OF vga_scroll_core [of t]]
  by (simp_all add: terminal_scroll_def Let_def draw_def)

text \<open>Advancing the cursor behind a glyph and, at the end of the line, to the next row.\<close>

lemma advance_ok:
  assumes "term_ok t" "t' = t\<lparr>terminal_col := c\<rparr>"
  shows "term_ok (if terminal_col t' \<ge> terminal_cols t' then next_row t' else t')"
proof (cases "c \<ge> terminal_cols t")
  case True
  have "term_ok (next_row t')"
    using assms by (intro next_row_ok) (simp_all add: term_ok_def cursor_ok_def grid_ok_def sel_ok_def view_ok_def)
  then show ?thesis using True assms(2) by simp
next
  case False
  then show ?thesis using assms by (simp add: term_ok_def cursor_ok_def grid_ok_def sel_ok_def view_ok_def)
qed

lemma steady_drawing:
  assumes "steady t u"
  shows "steady t (graphics_render_live_cell E c r u)" "steady t (graphics_clear_cell c r u)" "steady t (graphics_draw_glyph E cp c r u)"
  using steady_trans [OF assms steady_core] by simp_all

lemma put_graphics_ok:
  assumes ok: "term_ok t"
  shows "term_ok (put_graphics E codepoint t)"
proof (cases "graphics_get_glyph E codepoint")
  case None
  then show ?thesis using ok by (simp add: put_graphics_def)
next
  case (Some glyph)
  define need :: nat where "need = (if glyph_width glyph > 8 then 2 else 1)"
  define t0 where "t0 = (if terminal_col t + need > terminal_cols t then next_row t else t)"
  define row where "row = terminal_row t0"
  define col where "col = terminal_col t0"
  define t1 where "t1 = (if cell_at t0 row col = TERMINAL_CONTINUATION \<and> col > 0 then
     let u = set_cell row (col - 1) BLANK t0 in if \<not> terminal_full_redraw_pending u then graphics_render_live_cell E (col - 1) row u else u
     else t0)"
  define t2 where "t2 = (if cell_at t1 row col \<noteq> TERMINAL_CONTINUATION \<and> col + 1 < terminal_cols t1 \<and> cell_at t1 row (col + 1) = TERMINAL_CONTINUATION then
     let u = set_cell row (col + 1) BLANK t1 in if \<not> terminal_full_redraw_pending u then graphics_clear_cell (col + 1) row u else u
     else t1)"
  define t3 where "t3 = set_cell row col codepoint t2"
  define t4 where "t4 = (if need = 2 \<and> col + 1 < terminal_cols t3 then set_cell row (col + 1) TERMINAL_CONTINUATION t3 else t3)"
  define t5 where "t5 = (if \<not> terminal_full_redraw_pending t4 then graphics_draw_glyph E codepoint col row t4 else t4)"
  have t0: "term_ok t0" using ok next_row_ok' by (simp add: t0_def)
  then have row: "row < terminal_rows t0" by (simp add: row_def term_ok_def cursor_ok_def)
  have set: "steady t0 u \<Longrightarrow> steady t0 (set_cell row c v u)" for u c v
    using row steady_set_cell [of row u c v] steady_trans [of t0 u] by (simp add: steady_def [of t0 u])
  have s1: "steady t0 t1" using set [OF steady_refl] by (simp add: t1_def Let_def steady_drawing)
  have s2: "steady t0 t2" using s1 set [OF s1] by (simp add: t2_def Let_def steady_drawing)
  have s3: "steady t0 t3" using set [OF s2] by (simp add: t3_def)
  have s4: "steady t0 t4" using s3 set [OF s3] by (simp add: t4_def)
  have s5: "steady t0 t5" using s4 by (simp add: t5_def steady_drawing)
  have "put_graphics E codepoint t = (let u = t5\<lparr>terminal_col := col + need\<rparr> in if terminal_col u \<ge> terminal_cols u then next_row u else u)"
    using Some unfolding put_graphics_def Let_def t5_def t4_def t3_def t2_def t1_def row_def col_def t0_def need_def by simp
  moreover have "terminal_cols (t5\<lparr>terminal_col := col + need\<rparr>) = terminal_cols t5" by simp
  ultimately show ?thesis using advance_ok [OF steady_ok [OF s5 t0] refl, of "col + need"] by (simp add: Let_def)
qed

lemma put_vga_ok:
  assumes "term_ok t" "\<not> terminal_graphics t"
  shows "term_ok (put_vga codepoint t)"
proof -
  define u where "u = vga_put_at (if codepoint \<le> 0x7F then ucast codepoint else 0x3F) (terminal_col t) (terminal_row t) t"
  have "core_of u = core_of t" by (simp add: u_def)
  then have u: "term_ok u" "terminal_cols u = VGA_WIDTH"
    using assms term_ok_core [of u t] core_eqD [of u t] by (simp_all add: term_ok_def grid_ok_def)
  have "put_vga codepoint t = (let v = u\<lparr>terminal_col := terminal_col u + 1\<rparr> in if terminal_col v \<ge> VGA_WIDTH then next_row v else v)"
    by (simp add: put_vga_def Let_def u_def)
  then show ?thesis using advance_ok [OF u(1) refl, of "Suc (terminal_col u)"] u(2) by (simp add: Let_def)
qed

lemma core_count [simp]: "core_of (count_output t) = core_of t"
  by (simp add: count_output_def Let_def)

lemma count_ok: "term_ok t \<Longrightarrow> term_ok (count_output t)"
  using term_ok_core [OF core_count] by simp

lemma put_backspace_ok:
  assumes "term_ok t"
  shows "term_ok (put_backspace E t)"
proof (cases "terminal_col t = 0")
  case False
  let ?u = "t\<lparr>terminal_col := terminal_col t - 1\<rparr>"
  have u: "term_ok ?u" "terminal_row ?u < terminal_rows ?u"
    using assms by (auto simp: term_ok_def cursor_ok_def grid_ok_def sel_ok_def view_ok_def)
  let ?v = "set_cell (terminal_row ?u) (terminal_col ?u) BLANK ?u"
  have "term_ok ?v" using u by (rule set_cell_ok)
  then have "term_ok (graphics_render_live_cell E c r ?v)" "term_ok (vga_put_at x c r ?v)" "term_ok ?v" for c r x
    using term_ok_core [of "graphics_render_live_cell E c r ?v" ?v] term_ok_core [of "vga_put_at x c r ?v" ?v] by simp_all
  then show ?thesis using False unfolding put_backspace_def Let_def by (simp split: if_split)
qed (use assms in \<open>simp add: put_backspace_def\<close>)

lemma put_untabbed_ok:
  assumes "term_ok t"
  shows "term_ok (put_untabbed E codepoint t)"
proof -
  note c = count_ok [OF assms]
  have "term_ok ((count_output t)\<lparr>terminal_col := 0\<rparr>)"
    using c by (simp add: term_ok_def cursor_ok_def grid_ok_def sel_ok_def view_ok_def)
  then show ?thesis using c
    by (simp add: put_untabbed_def Let_def next_row_ok' put_backspace_ok put_graphics_ok put_vga_ok)
qed

lemma put_internal_ok: "term_ok t \<Longrightarrow> term_ok (terminal_putcodepoint_internal E codepoint t)"
proof -
  have "term_ok t \<Longrightarrow> term_ok ((put_untabbed E c ^^ n) t)" for n c and t
    by (induction n) (simp_all add: put_untabbed_ok)
  then show "term_ok t \<Longrightarrow> term_ok (terminal_putcodepoint_internal E codepoint t)"
    by (simp add: terminal_putcodepoint_internal_def put_untabbed_ok count_ok Let_def)
qed

lemma begin_ok: "term_ok t \<Longrightarrow> term_ok (terminal_begin_update E c t)"
  using quiet_ok [OF quiet_begin_update] .

lemma end_ok: "term_ok t \<Longrightarrow> term_ok (terminal_end_update t)"
  using term_ok_core [OF core_end_update] by simp

lemma print_ok: "term_ok t \<Longrightarrow> term_ok (terminal_print E txt t)"
proof -
  have "term_ok t \<Longrightarrow> term_ok (fold (terminal_putcodepoint_internal E) cs t)" for cs t
    by (induction cs arbitrary: t) (simp_all add: put_internal_ok)
  then show "term_ok t \<Longrightarrow> term_ok (terminal_print E txt t)"
    by (simp add: terminal_print_def begin_ok end_ok split: option.split)
qed

section \<open>Sessions\<close>

datatype terminal_op =
    T_clear | T_clear_row nat | T_begin_batch | T_begin_output_batch | T_end_batch
  | T_putchar u8 | T_putcodepoint RootCodepoint | T_print "u8 list option" | T_set_cursor nat nat
  | T_selection_begin int int | T_selection_drag int int | T_selection_end | T_selection_clear
  | T_selection_copy | T_selection_word int int
  | T_scrollback_up nat | T_scrollback_down nat | T_scrollback_bottom

definition terminal_exec :: "screen_env \<Rightarrow> terminal_op \<Rightarrow> terminal \<Rightarrow> terminal" where
  "terminal_exec E op t = (case op of
     T_clear \<Rightarrow> terminal_clear E t | T_clear_row row \<Rightarrow> terminal_clear_row E row t
   | T_begin_batch \<Rightarrow> terminal_begin_batch E t | T_begin_output_batch \<Rightarrow> terminal_begin_output_batch E t
   | T_end_batch \<Rightarrow> terminal_end_batch E t | T_putchar c \<Rightarrow> terminal_putchar E c t
   | T_putcodepoint c \<Rightarrow> terminal_putcodepoint E c t | T_print txt \<Rightarrow> terminal_print E txt t
   | T_set_cursor x y \<Rightarrow> terminal_set_cursor E x y t
   | T_selection_begin x y \<Rightarrow> snd (terminal_selection_begin x y t) | T_selection_drag x y \<Rightarrow> snd (terminal_selection_drag x y t)
   | T_selection_end \<Rightarrow> terminal_selection_end t | T_selection_clear \<Rightarrow> terminal_selection_clear t
   | T_selection_copy \<Rightarrow> snd (terminal_selection_copy t) | T_selection_word x y \<Rightarrow> snd (terminal_selection_select_word x y t)
   | T_scrollback_up n \<Rightarrow> terminal_scrollback_up E n t | T_scrollback_down n \<Rightarrow> terminal_scrollback_down E n t
   | T_scrollback_bottom \<Rightarrow> terminal_scrollback_bottom E t)"

lemma term_ok_depth [simp]: "term_ok (t\<lparr>terminal_explicit_batch_depth := n\<rparr>) = term_ok t"
  by (simp add: term_ok_def grid_ok_def cursor_ok_def sel_ok_def view_ok_def)

lemma term_ok_draw [simp]:
  "term_ok (draw op t) = term_ok t" "term_ok (t\<lparr>terminal_full_redraw_pending := b\<rparr>) = term_ok t"
  "term_ok (t\<lparr>terminal_batch_output_count := n\<rparr>) = term_ok t" "term_ok (t\<lparr>terminal_batch_defer_threshold := n\<rparr>) = term_ok t"
  "term_ok (graphics_redraw_view E t) = term_ok t" "term_ok (graphics_draw_cursor t) = term_ok t" "term_ok (selection_show t) = term_ok t"
  by (rule term_ok_core; simp)+

lemma batch_ok:
  "term_ok t \<Longrightarrow> term_ok (terminal_begin_batch E t)" "term_ok t \<Longrightarrow> term_ok (terminal_begin_output_batch E t)"
  "term_ok t \<Longrightarrow> term_ok (terminal_end_batch E t)"
  by (simp_all add: terminal_begin_batch_def terminal_begin_output_batch_def terminal_end_batch_def begin_ok end_ok Let_def)

lemma vga_fill_ok: "term_ok t \<Longrightarrow> term_ok (fold (\<lambda>y t. fold (\<lambda>x. vga_put_at c x y) xs t) ys t)"
  by (subst term_ok_core [OF core_fold]) simp_all

lemma blank_rows_ok:
  assumes "term_ok t"
  shows "term_ok (t\<lparr>terminal_cells := map (blank_cols (terminal_cols t)) (take (terminal_rows t) (terminal_cells t)) @ drop (terminal_rows t) (terminal_cells t)\<rparr>)"
proof -
  have "list_all row_ok (map (blank_cols (terminal_cols t)) (take (terminal_rows t) (terminal_cells t)) @ drop (terminal_rows t) (terminal_cells t))"
    using assms by (auto simp: term_ok_def grid_ok_def list_all_iff dest: in_set_takeD in_set_dropD)
  then show ?thesis using assms by (simp add: term_ok_def grid_ok_def cursor_ok_def sel_ok_def view_ok_def)
qed

lemma clear_ok: "term_ok t \<Longrightarrow> term_ok (terminal_clear E t)"
proof -
  assume "term_ok t"
  then have "term_ok (terminal_begin_update E True t)" by (rule begin_ok)
  then have u: "term_ok ((terminal_begin_update E True t)\<lparr>terminal_row := 0, terminal_col := 0, scrollback_view_offset := 0, terminal_full_redraw_pending := False\<rparr>)"
    by (simp add: term_ok_def grid_ok_def cursor_ok_def sel_ok_def view_ok_def)
  show ?thesis unfolding terminal_clear_def Let_def
    using blank_rows_ok [OF u] vga_fill_ok [OF u] by (intro end_ok) simp
qed

lemma clear_row_ok: "term_ok t \<Longrightarrow> term_ok (terminal_clear_row E row t)"
proof (cases "row < terminal_rows t")
  case True
  assume "term_ok t"
  then have b: "term_ok (terminal_begin_update E False t)" by (rule begin_ok)
  let ?b = "terminal_begin_update E False t"
  have "terminal_rows ?b = terminal_rows t" using quiet_begin_update [of t E False] by (simp add: quiet_def text_of_def)
  then have "row_ok (terminal_cells ?b ! row)" using b True by (auto simp: term_ok_def grid_ok_def intro!: rows_nth)
  then have u: "term_ok (?b\<lparr>terminal_cells := (terminal_cells ?b)[row := blank_cols (terminal_cols ?b) (terminal_cells ?b ! row)]\<rparr>)"
    using b by (simp add: term_ok_def grid_ok_def cursor_ok_def sel_ok_def view_ok_def rows_update)
  have "term_ok (fold (\<lambda>column. vga_put_at 0x20 column row) xs v) = term_ok v" for xs v by (rule term_ok_core) simp
  then show ?thesis unfolding terminal_clear_row_def Let_def using True u by (simp add: end_ok)
qed (simp add: terminal_clear_row_def)

lemma set_cursor_ok: "term_ok t \<Longrightarrow> term_ok (terminal_set_cursor E x y t)"
proof -
  assume ok: "term_ok t"
  let ?b = "terminal_begin_update E False t"
  have "terminal_rows ?b = terminal_rows t" "terminal_cols ?b = terminal_cols t"
    using quiet_begin_update [of t E False] by (simp_all add: quiet_def text_of_def)
  then have "term_ok (?b\<lparr>terminal_col := x, terminal_row := y\<rparr>)" if "x < terminal_cols t" "y < terminal_rows t"
    using begin_ok [OF ok, of E False] that by (simp add: term_ok_def grid_ok_def cursor_ok_def sel_ok_def view_ok_def)
  then show ?thesis using ok by (simp add: terminal_set_cursor_def end_ok)
qed

lemma pixel_cell: "terminal_pixel_to_cell t x y = Some (c, r) \<Longrightarrow> c < terminal_cols t \<and> r < terminal_rows t"
  by (auto simp: terminal_pixel_to_cell_def Let_def split: if_split_asm)

lemma word_start_le: "word_start row c \<le> c"
  by (induction row c rule: word_start.induct) auto

lemma word_end_less: "c < cols \<Longrightarrow> word_end row cols c < cols"
  by (induction row cols c rule: word_end.induct) (subst word_end.simps, simp)

text \<open>A selection between two cells of the grid can be set on any state.\<close>

lemma sel_set_ok:
  assumes "term_ok t" "ac < terminal_cols t" "ar < terminal_rows t" "fc < terminal_cols t" "fr < terminal_rows t"
  shows "term_ok (t\<lparr>selection_anchor_col := ac, selection_anchor_row := ar, selection_focus_col := fc, selection_focus_row := fr,
    selection_active_state := a, selection_tracking := tr\<rparr>)"
  using assms by (simp add: term_ok_def grid_ok_def cursor_ok_def sel_ok_def view_ok_def)

lemma selection_clear_ok: "term_ok t \<Longrightarrow> term_ok (terminal_selection_clear t)"
  using quiet_ok [OF quiet_selection_clear] .

lemma clear_geometry: "terminal_cols (terminal_selection_clear t) = terminal_cols t" "terminal_rows (terminal_selection_clear t) = terminal_rows t"
  using selection_clear_fields(1) [of t] by (simp_all add: text_of_def)

lemma selection_begin_ok: "term_ok t \<Longrightarrow> term_ok (snd (terminal_selection_begin x y t))"
proof (cases "terminal_pixel_to_cell t x y")
  case (Some p)
  assume ok: "term_ok t"
  obtain c r where p: "p = (c, r)" by force
  have "term_ok ((terminal_selection_clear t)\<lparr>selection_anchor_col := c, selection_anchor_row := r, selection_focus_col := c,
      selection_focus_row := r, selection_active_state := False, selection_tracking := True\<rparr>)"
    using pixel_cell Some p by (intro sel_set_ok selection_clear_ok ok) (simp_all add: clear_geometry)
  moreover have "(terminal_selection_clear t)\<lparr>selection_anchor_col := c, selection_anchor_row := r, selection_focus_col := c,
      selection_focus_row := r, selection_active_state := False, selection_tracking := True\<rparr>
    = (terminal_selection_clear t)\<lparr>selection_anchor_col := c, selection_anchor_row := r, selection_focus_col := c,
      selection_focus_row := r, selection_tracking := True\<rparr>"
    by (simp add: terminal_selection_clear_def)
  ultimately show ?thesis using Some p by (simp add: terminal_selection_begin_def)
qed (simp add: terminal_selection_begin_def)

lemma selection_drag_ok: "term_ok t \<Longrightarrow> term_ok (snd (terminal_selection_drag x y t))"
proof (cases "terminal_pixel_to_cell t x y")
  case (Some p)
  assume ok: "term_ok t"
  obtain c r where p: "p = (c, r)" by force
  have "term_ok (t\<lparr>selection_focus_col := c, selection_focus_row := r, selection_active_state := b\<rparr>)" if "selection_tracking t" for b
    using ok that pixel_cell Some p by (simp add: term_ok_def grid_ok_def cursor_ok_def sel_ok_def view_ok_def)
  then show ?thesis using ok Some p by (simp add: terminal_selection_drag_def)
qed (simp add: terminal_selection_drag_def)

lemma selection_word_ok: "term_ok t \<Longrightarrow> term_ok (snd (terminal_selection_select_word x y t))"
proof (cases "terminal_pixel_to_cell t x y")
  case (Some p)
  assume ok: "term_ok t"
  obtain c r where p: "p = (c, r)" by force
  have cr: "c < terminal_cols t" "r < terminal_rows t" using pixel_cell Some p by auto
  have "term_ok ((terminal_selection_clear t)\<lparr>selection_anchor_col := word_start row c, selection_anchor_row := r,
      selection_focus_col := word_end row (terminal_cols t) c, selection_focus_row := r, selection_active_state := True, selection_tracking := False\<rparr>)" for row
    using cr word_end_less [OF cr(1)] word_start_le [of row c]
    by (intro sel_set_ok selection_clear_ok ok) (simp_all add: clear_geometry)
  then show ?thesis using ok Some p by (simp add: terminal_selection_select_word_def split: option.split)
qed (simp add: terminal_selection_select_word_def)

lemma clipboard_set_ok: "clipboard_ok c \<Longrightarrow> clipboard_ok (snd (rootclipboard_set (Some out) (length out) c))"
  using clipboard_set_spec(2) .

lemma selection_copy_ok: "term_ok t \<Longrightarrow> term_ok (snd (terminal_selection_copy t))"
proof -
  assume ok: "term_ok t"
  have "term_ok (t\<lparr>terminal_clipboard := snd (rootclipboard_set (Some out) (length out) (terminal_clipboard t))\<rparr>)" for out
    using ok clipboard_set_ok by (simp add: term_ok_def grid_ok_def cursor_ok_def sel_ok_def view_ok_def)
  then show ?thesis using ok by (simp add: terminal_selection_copy_def Let_def case_prod_beta)
qed

lemma scrollback_ok:
  "term_ok t \<Longrightarrow> term_ok (terminal_scrollback_up E n t)" "term_ok t \<Longrightarrow> term_ok (terminal_scrollback_down E n t)"
  "term_ok t \<Longrightarrow> term_ok (terminal_scrollback_bottom E t)"
  by (simp_all add: terminal_scrollback_up_def terminal_scrollback_down_def terminal_scrollback_bottom_def Let_def set_offset_ok draw_cursor_update_def)

lemma exec_ok: "term_ok t \<Longrightarrow> term_ok (terminal_exec E op t)"
proof -
  have "term_ok t \<Longrightarrow> term_ok (terminal_selection_end t)"
    by (simp add: terminal_selection_end_def term_ok_def grid_ok_def cursor_ok_def sel_ok_def view_ok_def)
  then show "term_ok t \<Longrightarrow> term_ok (terminal_exec E op t)"
    by (cases op) (simp_all add: terminal_exec_def clear_ok clear_row_ok batch_ok terminal_putchar_def terminal_putcodepoint_def
      put_internal_ok begin_ok end_ok print_ok set_cursor_ok selection_begin_ok selection_drag_ok selection_clear_ok selection_copy_ok
      selection_word_ok scrollback_ok)
qed

text \<open>The arrays have their declared sizes, and a display that is used for text holds at least one cell.\<close>

definition terminal_arrays :: "screen_env \<Rightarrow> terminal \<Rightarrow> bool" where
  "terminal_arrays E t \<longleftrightarrow> length (scrollback t) = TERMINAL_SCROLLBACK_LINES \<and> list_all row_ok (scrollback t)
     \<and> length (vga_memory t) = VGA_WIDTH * VGA_HEIGHT \<and> clipboard_ok (terminal_clipboard t)
     \<and> (display_ready (terminal_display t) \<and> rootfont_ready (env_font E) \<longrightarrow>
          TERMINAL_CELL_WIDTH \<le> display_width (terminal_display t) \<and> TERMINAL_CELL_HEIGHT \<le> display_height (terminal_display t))"

lemma terminal_init_ok: "terminal_arrays E t \<Longrightarrow> term_ok (terminal_init E t)"
  by (auto simp: terminal_init_def Let_def terminal_arrays_def term_ok_def grid_ok_def cursor_ok_def sel_ok_def view_ok_def row_ok_def
      rootos_consts vga_enable_cursor_def vga_out_def list_all_iff)

text \<open>
  C18: From initialisation on, whatever is printed (any bytes), cleared, batched, selected, copied and scrolled back, with
  any coordinates: the cursor stays on the grid, the scrollback ring and the view into it stay in their bounds, the
  grid keeps its size, and a selection that exists lies on the grid.
\<close>

theorem terminal_session_safe:
  assumes "terminal_arrays E t"
  shows "term_ok (fold (terminal_exec E) ops (terminal_init E t))"
proof -
  have "term_ok u \<Longrightarrow> term_ok (fold (terminal_exec E) ops u)" for u
    by (induction ops arbitrary: u) (simp_all add: exec_ok)
  then show ?thesis using terminal_init_ok [OF assms] .
qed

definition demo_env :: screen_env where
  "demo_env = \<lparr>env_font = demo_font, env_rgb = (\<lambda>r g b. if r = 0 then 0 else 0xFFFFFF), env_vga_in = (\<lambda>_. 0)\<rparr>"

definition raw_terminal :: "bool \<Rightarrow> nat \<Rightarrow> nat \<Rightarrow> terminal" where
  "raw_terminal ready w h = \<lparr>terminal_graphics = False, terminal_row = 0, terminal_col = 0, terminal_cols = 80, terminal_rows = 25,
     terminal_foreground = 0, terminal_background = 0, terminal_cells = [], scrollback = replicate 1024 (replicate 256 0),
     scrollback_head = 0, scrollback_count = 0, scrollback_view_offset = 0, terminal_update_depth = 0, terminal_explicit_batch_depth = 0,
     terminal_batch_output_count = 0, terminal_batch_defer_threshold = 0, terminal_full_redraw_pending = False,
     selection_tracking = False, selection_active_state = False, selection_drawn = False, selection_drawn_start = 0,
     selection_drawn_end = 0, selection_anchor_col = 0, selection_anchor_row = 0, selection_focus_col = 0, selection_focus_row = 0,
     vga_memory = replicate 2000 0, vga_ports = [],
     terminal_display = \<lparr>display_ready = ready, display_width = w, display_height = h, display_trace = []\<rparr>,
     terminal_clipboard = \<lparr>clipboard_data = replicate 4096 0, clipboard_length = 0\<rparr>\<rparr>"

lemma raw_terminal_arrays: "8 \<le> w \<Longrightarrow> 16 \<le> h \<Longrightarrow> terminal_arrays E (raw_terminal ready w h)"
  by (simp add: terminal_arrays_def raw_terminal_def row_ok_def clipboard_ok_def rootos_consts list_all_iff)

theorem terminal_session_safe_witness:
  "term_ok (fold (terminal_exec demo_env) [T_print (Some [72, 0xC3, 0x80, 10]), T_selection_begin 3 4, T_selection_drag 900 20, T_selection_copy, T_scrollback_up 3]
     (terminal_init demo_env (raw_terminal True 1024 768)))"
  by (rule terminal_session_safe [OF raw_terminal_arrays]) simp_all

end
