(* ===== verification/Root_Terminal_View.thy ===== *)
theory Root_Terminal_View
  imports Root_Terminal_Safety
begin

text \<open>
  What the user of the terminal sees. \<open>history\<close> is the text as one list of lines, the scrollback in front of the live
  rows: the view is a window of it, and scrolling appends a line to it and forgets the oldest one beyond 1024. The
  highlighting of a selection, which only redraws the cells that change, flips exactly the cells that a redraw of the
  whole selection would; and copying yields the selected text.
\<close>

section \<open>The history\<close>

definition scroll_lines :: "terminal \<Rightarrow> RootCodepoint list list" where
  "scroll_lines t = map (take (terminal_cols t)) (ring_list TERMINAL_SCROLLBACK_LINES (scrollback t) (scrollback_oldest_index t) (scrollback_count t))"

definition live_lines :: "terminal \<Rightarrow> RootCodepoint list list" where
  "live_lines t = map (take (terminal_cols t)) (take (terminal_rows t) (terminal_cells t))"

definition history :: "terminal \<Rightarrow> RootCodepoint list list" where
  "history t = scroll_lines t @ live_lines t"

lemma length_scroll_lines [simp]: "length (scroll_lines t) = scrollback_count t"
  by (simp add: scroll_lines_def)

lemma length_live_lines: "grid_ok t \<Longrightarrow> length (live_lines t) = terminal_rows t"
  by (simp add: live_lines_def grid_ok_def)

lemma visible_row_window:
  assumes "term_ok t" "r < terminal_rows t"
  shows "map_option (take (terminal_cols t)) (visible_row_data t r) = Some (history t ! (scrollback_count t - scrollback_view_offset t + r))"
proof -
  let ?o = "scrollback_view_offset t" and ?c = "scrollback_count t"
  have o: "?o \<le> ?c" "terminal_rows t \<le> length (terminal_cells t)"
    using assms(1) by (simp_all add: term_ok_def view_ok_def grid_ok_def)
  have "?c + terminal_rows t - ?o - terminal_rows t = ?c - ?o" using o by simp
  then have v: "visible_row_data t r = (if ?c - ?o + r < ?c
      then Some (scrollback t ! ((scrollback_oldest_index t + (?c - ?o + r)) mod TERMINAL_SCROLLBACK_LINES))
      else Some (terminal_cells t ! (?c - ?o + r - ?c)))"
    using assms(2) o by (simp add: visible_row_data_def Let_def)
  show ?thesis
  proof (cases "?c - ?o + r < ?c")
    case True
    then show ?thesis using v by (simp add: history_def nth_append scroll_lines_def nth_ring_list)
  next
    case False
    then have "?c - ?o + r - ?c < terminal_rows t" using assms(2) o by simp
    then show ?thesis using v False o by (simp add: history_def nth_append live_lines_def)
  qed
qed

definition shift_row :: "nat \<Rightarrow> nat \<Rightarrow> RootCodepoint list list \<Rightarrow> RootCodepoint list list" where
  "shift_row cols row cells = cells[row - 1 := copy_cols cols (cells ! row) (cells ! (row - 1))]"

lemma fold_shift:
  assumes "n \<le> length cells"
  shows "length (fold (shift_row cols) [1..<n] cells) = length cells
    \<and> (\<forall>i<length cells. fold (shift_row cols) [1..<n] cells ! i = (if Suc i < n then copy_cols cols (cells ! Suc i) (cells ! i) else cells ! i))"
  using assms
proof (induction n)
  case (Suc n)
  let ?c = "fold (shift_row cols) [1..<n] cells"
  have IH: "length ?c = length cells" "i < length cells \<Longrightarrow> ?c ! i = (if Suc i < n then copy_cols cols (cells ! Suc i) (cells ! i) else cells ! i)" for i
    using Suc by auto
  show ?case
  proof (cases "1 \<le> n")
    case True
    have st: "fold (shift_row cols) [1..<Suc n] cells = ?c[n - 1 := copy_cols cols (cells ! n) (cells ! (n - 1))]"
      using True Suc.prems IH(2) [of n] IH(2) [of "n - 1"] by (simp add: shift_row_def)
    show ?thesis unfolding st using IH True Suc.prems by (auto simp: nth_list_update)
  next
    case False
    then show ?thesis by simp
  qed
qed simp

lemma shift_cells_nth:
  assumes "0 < rows" "rows \<le> length cells" "i < rows"
  shows "shift_cells cols rows cells ! i = (if Suc i < rows then copy_cols cols (cells ! Suc i) (cells ! i) else blank_cols cols (cells ! i))"
proof -
  let ?c = "fold (shift_row cols) [1..<rows] cells"
  have s: "shift_cells cols rows cells = ?c[rows - 1 := blank_cols cols (?c ! (rows - 1))]"
    unfolding shift_cells_def Let_def shift_row_def [abs_def] ..
  have c: "length ?c = length cells" "\<forall>i<length cells. ?c ! i = (if Suc i < rows then copy_cols cols (cells ! Suc i) (cells ! i) else cells ! i)"
    using fold_shift [OF assms(2)] by auto
  show ?thesis unfolding s using assms c by (auto simp: nth_list_update)
qed

lemma take_copy [simp]: "cols \<le> length src \<Longrightarrow> take cols (copy_cols cols src dst) = take cols src"
  by (simp add: copy_cols_def)

lemma take_blank [simp]: "take cols (blank_cols cols dst) = replicate cols BLANK"
  by (simp add: blank_cols_def)

lemma shift_live:
  assumes "0 < rows" "rows \<le> length cells" "\<forall>r\<in>set cells. cols \<le> length r"
  shows "map (take cols) (take rows (shift_cells cols rows cells)) = tl (map (take cols) (take rows cells)) @ [replicate cols BLANK]"
proof -
  have len: "length (shift_cells cols rows cells) = length cells"
    using fold_shift [OF assms(2)] unfolding shift_cells_def Let_def shift_row_def [abs_def] by simp
  show ?thesis
  proof (rule nth_equalityI)
    show "length (map (take cols) (take rows (shift_cells cols rows cells))) = length (tl (map (take cols) (take rows cells)) @ [replicate cols BLANK])"
      using assms len by simp
    fix i assume "i < length (map (take cols) (take rows (shift_cells cols rows cells)))"
    then have i: "i < rows" using len assms by simp
    show "map (take cols) (take rows (shift_cells cols rows cells)) ! i = (tl (map (take cols) (take rows cells)) @ [replicate cols BLANK]) ! i"
    proof (cases "Suc i < rows")
      case True
      then have "i < rows - 1" by simp
      then show ?thesis using True i assms len shift_cells_nth [OF assms(1,2) i, of cols] by (simp add: nth_append nth_tl)
    next
      case False
      then have "\<not> i < rows - 1" "i - (rows - 1) = 0" using i by simp_all
      then show ?thesis using False i assms len shift_cells_nth [OF assms(1,2) i, of cols] by (simp add: nth_append)
    qed
  qed
qed

lemma wrap_1024: "c \<le> 1024 \<Longrightarrow> h < 1024 \<Longrightarrow> (h + 1024 - c) mod 1024 = (if c \<le> h then h - c else h + 1024 - (c::nat))"
  by (auto simp: mod_if)

lemma wrap_1024': "c \<le> 1024 \<Longrightarrow> h < 1024 \<Longrightarrow> (1024 + h - c) mod 1024 = (if c \<le> h then h - c else h + 1024 - (c::nat))"
  using wrap_1024 [of c h] by (simp add: add.commute)

lemma push_top_lines:
  assumes "grid_ok t"
  shows "scroll_lines (scrollback_push_top_row t) = last_n TERMINAL_SCROLLBACK_LINES (scroll_lines t @ [take (terminal_cols t) (terminal_cells t ! 0)])"
proof -
  let ?n = TERMINAL_SCROLLBACK_LINES and ?h = "scrollback_head t" and ?c = "scrollback_count t" and ?o = "scrollback_oldest_index t"
  let ?row = "copy_cols (terminal_cols t) (terminal_cells t ! 0) (scrollback t ! ?h)"
  let ?p = "scrollback_push_top_row t"
  have g: "length (scrollback t) = ?n" "?h < ?n" "?c \<le> ?n" using assms by (simp_all add: grid_ok_def)
  have o: "?o < ?n" "(?o + ?c) mod ?n = ?h" "?c = ?n \<Longrightarrow> ?o = ?h"
    using g(2,3) by (auto simp: scrollback_oldest_index_def rootos_consts wrap_1024 mod_if)
  have row: "take (terminal_cols t) ?row = take (terminal_cols t) (terminal_cells t ! 0)"
  proof -
    have "row_ok (terminal_cells t ! 0)" using assms by (auto simp: grid_ok_def rootos_consts intro!: rows_nth)
    then show ?thesis using assms by (simp add: grid_ok_def row_ok_def)
  qed
  have "ring_list ?n (scrollback ?p) (scrollback_oldest_index ?p) (scrollback_count ?p)
      = last_n ?n (ring_list ?n (scrollback t) ?o ?c @ [?row])"
  proof (cases "?c < ?n")
    case True
    have "scrollback_oldest_index ?p = ?o"
      using True g by (auto simp: scrollback_oldest_index_def scrollback_push_top_row_def Let_def rootos_consts mod_Suc wrap_1024 wrap_1024')
    then show ?thesis using ring_list_push [OF g(1) o(1) g(3), of ?row] True o(2)
      by (simp add: scrollback_push_top_row_def Let_def)
  next
    case False
    then have "scrollback_oldest_index ?p = (?o + 1) mod ?n" "?c = ?n"
      using g o by (auto simp: scrollback_oldest_index_def scrollback_push_top_row_def Let_def rootos_consts)
    then show ?thesis using ring_list_push [OF g(1) o(1) g(3), of ?row] o(3)
      by (simp add: scrollback_push_top_row_def Let_def)
  qed
  then show ?thesis using row by (simp add: scroll_lines_def last_n_def drop_map) (simp add: rootos_consts)
qed

lemma last_n_append: "last_n (n + length ys) (xs @ ys) = last_n n xs @ ys"
  by (simp add: last_n_def)

text \<open>
  C19: The terminal keeps its text as one history. Row \<open>r\<close> of the screen is the line that lies \<open>scrollback_view_offset\<close> lines
  above its place at the bottom of the history; and when output runs off the last row, the history gains one empty line
  and keeps its newest 1024 + \<open>terminal_rows\<close> lines.
\<close>

theorem terminal_history_correct:
  assumes "term_ok t" "terminal_graphics t"
  shows "(\<forall>r<terminal_rows t. map_option (take (terminal_cols t)) (visible_row_data t r)
            = Some (history t ! (scrollback_count t - scrollback_view_offset t + r)))
    \<and> history (terminal_scroll (t\<lparr>terminal_row := terminal_rows t\<rparr>))
        = last_n (TERMINAL_SCROLLBACK_LINES + terminal_rows t) (history t @ [replicate (terminal_cols t) BLANK])"
proof -
  let ?u = "t\<lparr>terminal_row := terminal_rows t\<rparr>"
  let ?p = "scrollback_push_top_row ?u"
  let ?blank = "replicate (terminal_cols t) BLANK"
  have g: "grid_ok t" "grid_ok ?u" using assms(1) by (simp_all add: term_ok_def grid_ok_def)
  have hist: "history (terminal_scroll ?u) = scroll_lines ?p @ map (take (terminal_cols t)) (take (terminal_rows t) (shift_cells (terminal_cols t) (terminal_rows t) (terminal_cells t)))"
    using assms(2) by (simp add: terminal_scroll_def Let_def history_def scroll_lines_def live_lines_def draw_def scrollback_oldest_index_def)
  have sl: "scroll_lines ?p = last_n TERMINAL_SCROLLBACK_LINES (scroll_lines t @ [take (terminal_cols t) (terminal_cells t ! 0)])"
    using push_top_lines [OF g(2)] by (simp add: scroll_lines_def scrollback_oldest_index_def)
  have live: "live_lines t = take (terminal_cols t) (terminal_cells t ! 0) # tl (live_lines t)" "length (tl (live_lines t) @ [?blank]) = terminal_rows t"
  proof -
    have "0 < terminal_rows t" "0 < length (terminal_cells t)" using g(1) by (auto simp: grid_ok_def rootos_consts)
    then show "live_lines t = take (terminal_cols t) (terminal_cells t ! 0) # tl (live_lines t)"
      by (cases "terminal_rows t"; cases "terminal_cells t") (simp_all add: live_lines_def)
    show "length (tl (live_lines t) @ [?blank]) = terminal_rows t" using length_live_lines [OF g(1)] g(1) by (simp add: grid_ok_def)
  qed
  have "map (take (terminal_cols t)) (take (terminal_rows t) (shift_cells (terminal_cols t) (terminal_rows t) (terminal_cells t)))
      = tl (live_lines t) @ [?blank]"
    unfolding live_lines_def using g(1) by (intro shift_live) (auto simp: grid_ok_def list_all_iff row_ok_def)
  then have "history (terminal_scroll ?u) = last_n TERMINAL_SCROLLBACK_LINES (scroll_lines t @ [take (terminal_cols t) (terminal_cells t ! 0)]) @ tl (live_lines t) @ [?blank]"
    using hist sl by simp
  also have "\<dots> = last_n (TERMINAL_SCROLLBACK_LINES + terminal_rows t) (scroll_lines t @ [take (terminal_cols t) (terminal_cells t ! 0)] @ tl (live_lines t) @ [?blank])"
    using last_n_append [of TERMINAL_SCROLLBACK_LINES "tl (live_lines t) @ [?blank]" "scroll_lines t @ [take (terminal_cols t) (terminal_cells t ! 0)]"]
    unfolding live(2) by simp
  also have "scroll_lines t @ [take (terminal_cols t) (terminal_cells t ! 0)] @ tl (live_lines t) @ [?blank] = history t @ [?blank]"
    by (subst history_def, subst (2) live(1)) simp
  finally show ?thesis using visible_row_window [OF assms(1)] by simp
qed

theorem terminal_history_correct_witness:
  "history (terminal_scroll ((terminal_init demo_env (raw_terminal True 1024 768))\<lparr>terminal_row := 48\<rparr>))
     = last_n (TERMINAL_SCROLLBACK_LINES + 48) (history (terminal_init demo_env (raw_terminal True 1024 768)) @ [replicate 128 BLANK])"
proof -
  let ?t = "terminal_init demo_env (raw_terminal True 1024 768)"
  have "rootfont_ready demo_font" using demo_font_header by (simp add: rootfont_ready_def)
  then have "terminal_graphics ?t" "terminal_rows ?t = 48" "terminal_cols ?t = 128"
    by (simp_all add: terminal_init_def raw_terminal_def demo_env_def Let_def rootos_consts)
  moreover have "term_ok ?t" by (rule terminal_init_ok [OF raw_terminal_arrays]) simp_all
  ultimately show ?thesis using terminal_history_correct [of ?t] by simp
qed

section \<open>Highlighting\<close>

text \<open>How often requests invert the pixel at a position, read as odd or even.\<close>

fun covers :: "DisplayOp \<Rightarrow> nat \<Rightarrow> nat \<Rightarrow> bool" where
  "covers (Invert_rect x y w h) px py \<longleftrightarrow> x \<le> px \<and> px < x + w \<and> y \<le> py \<and> py < y + h"
| "covers _ px py \<longleftrightarrow> False"

definition flips :: "DisplayOp list \<Rightarrow> nat \<Rightarrow> nat \<Rightarrow> bool" where
  "flips ops px py = odd (length (filter (\<lambda>op. covers op px py) ops))"

lemma flips_simps [simp]:
  "\<not> flips [] px py" "flips (as @ bs) px py = (flips as px py \<noteq> flips bs px py)" "flips [op] px py = covers op px py"
  by (auto simp: flips_def)

text \<open>\<open>shows t t' F\<close>: the requests between two states flip exactly the pixels of the cells in \<open>F\<close>, and nothing else is drawn over.\<close>

definition cell_of :: "terminal \<Rightarrow> nat \<Rightarrow> nat \<Rightarrow> nat" where
  "cell_of t px py = (py div TERMINAL_CELL_HEIGHT) * terminal_cols t + px div TERMINAL_CELL_WIDTH"

definition on_grid :: "terminal \<Rightarrow> nat \<Rightarrow> nat \<Rightarrow> bool" where
  "on_grid t px py \<longleftrightarrow> px div TERMINAL_CELL_WIDTH < terminal_cols t \<and> py div TERMINAL_CELL_HEIGHT < terminal_rows t"

definition trace_of :: "terminal \<Rightarrow> DisplayOp list" where
  "trace_of t = display_trace (terminal_display t)"

definition flipped :: "terminal \<Rightarrow> terminal \<Rightarrow> nat set \<Rightarrow> bool" where
  "flipped t t' F \<longleftrightarrow> (\<exists>ops. trace_of t' = trace_of t @ ops \<and> (\<forall>px py. on_grid t px py \<longrightarrow> flips ops px py = (cell_of t px py \<in> F))
     \<and> list_all (\<lambda>op. op = Begin_update \<or> op = End_update \<or> (\<exists>x y w h. op = Invert_rect x y w h)) ops)"

definition same_geometry :: "terminal \<Rightarrow> terminal \<Rightarrow> bool" where
  "same_geometry t t' \<longleftrightarrow> terminal_cols t' = terminal_cols t \<and> terminal_rows t' = terminal_rows t"

lemma flipped_refl: "flipped t t {}"
  unfolding flipped_def by (intro exI [of _ "[]"]) simp

lemma flipped_trans:
  assumes "flipped a b F" "flipped b c G" "same_geometry a b"
  shows "flipped a c ((F - G) \<union> (G - F))"
proof -
  obtain xs ys where x: "trace_of b = trace_of a @ xs" "\<forall>px py. on_grid a px py \<longrightarrow> flips xs px py = (cell_of a px py \<in> F)"
      "list_all (\<lambda>op. op = Begin_update \<or> op = End_update \<or> (\<exists>x y w h. op = Invert_rect x y w h)) xs"
    and y: "trace_of c = trace_of b @ ys" "\<forall>px py. on_grid b px py \<longrightarrow> flips ys px py = (cell_of b px py \<in> G)"
      "list_all (\<lambda>op. op = Begin_update \<or> op = End_update \<or> (\<exists>x y w h. op = Invert_rect x y w h)) ys"
    using assms by (auto simp: flipped_def)
  have "on_grid b px py = on_grid a px py" "cell_of b px py = cell_of a px py" for px py
    using assms(3) by (simp_all add: on_grid_def cell_of_def same_geometry_def)
  then show ?thesis using x y unfolding flipped_def by (intro exI [of _ "xs @ ys"]) auto
qed

lemma trace_draw [simp]: "trace_of (draw op t) = trace_of t @ [op]"
  by (simp add: trace_of_def draw_def)

lemma draw_fields [simp]:
  "terminal_cols (draw op t) = terminal_cols t" "terminal_rows (draw op t) = terminal_rows t"
  "terminal_graphics (draw op t) = terminal_graphics t" "selection_drawn (draw op t) = selection_drawn t"
  "selection_drawn_start (draw op t) = selection_drawn_start t" "selection_drawn_end (draw op t) = selection_drawn_end t"
  by (simp_all add: draw_def)

text \<open>The pixels of one row of a range of cells.\<close>

definition row_rect :: "terminal \<Rightarrow> nat \<Rightarrow> nat \<Rightarrow> nat \<Rightarrow> DisplayOp" where
  "row_rect t first final row =
     (let from = (if row = first div terminal_cols t then first mod terminal_cols t else 0);
          to = (if row = final div terminal_cols t then final mod terminal_cols t else terminal_cols t - 1)
      in Invert_rect (from * TERMINAL_CELL_WIDTH) (row * TERMINAL_CELL_HEIGHT) ((to - from + 1) * TERMINAL_CELL_WIDTH) TERMINAL_CELL_HEIGHT)"

lemma cells_of_row:
  assumes "first \<le> final" "0 < C" "c < C" "first div C \<le> row" "row \<le> final div C"
  shows "((if row = first div C then first mod C else 0) \<le> c \<and> c \<le> (if row = final div C then final mod C else C - 1))
    \<longleftrightarrow> first \<le> row * C + c \<and> row * C + c \<le> (final::nat)"
proof -
  have f: "first = first div C * C + first mod C" "final = final div C * C + final mod C" by simp_all
  have m: "first mod C < C" "final mod C < C" using assms(2) by simp_all
  have fl: "final div C * C \<le> final" by simp
  have lo: "row = first div C \<or> Suc (first div C) * C \<le> row * C" using assms(4) mult_le_mono1 [of "Suc (first div C)" row C] by (cases "row = first div C") simp_all
  have hi: "row = final div C \<or> Suc row * C \<le> final div C * C" using assms(5) mult_le_mono1 [of "Suc row" "final div C" C] by (cases "row = final div C") simp_all
  from lo show ?thesis
  proof
    assume r: "row = first div C"
    from hi show ?thesis
    proof
      assume h: "row = final div C"
      have "row * C + c \<le> final \<longleftrightarrow> c \<le> final mod C" using f(2) h by (metis add_le_cancel_left)
      moreover have "first \<le> row * C + c \<longleftrightarrow> first mod C \<le> c" using f(1) r by (metis add_le_cancel_left)
      ultimately show ?thesis using r h by auto
    next
      assume h: "Suc row * C \<le> final div C * C"
      then have "row \<noteq> final div C" using assms(2) by auto
      moreover have "row * C + c \<le> final" using h fl assms(3) unfolding mult_Suc by linarith
      moreover have "first \<le> row * C + c \<longleftrightarrow> first mod C \<le> c" using f(1) r by (metis add_le_cancel_left)
      ultimately show ?thesis using r assms(3) by auto
    qed
  next
    assume l: "Suc (first div C) * C \<le> row * C"
    then have r: "row \<noteq> first div C" using assms(2) by auto
    have l2: "first \<le> row * C + c" using l f(1) m(1) unfolding mult_Suc by linarith
    from hi show ?thesis
    proof
      assume h: "row = final div C"
      have "row * C + c \<le> final \<longleftrightarrow> c \<le> final mod C" using f(2) h by (metis add_le_cancel_left)
      then show ?thesis using r h l2 by simp
    next
      assume h: "Suc row * C \<le> final div C * C"
      then have "row \<noteq> final div C" using assms(2) by auto
      moreover have "row * C + c \<le> final" using h fl assms(3) unfolding mult_Suc by linarith
      ultimately show ?thesis using r l2 assms(3) by auto
    qed
  qed
qed

lemma covers_cells:
  assumes "from \<le> to"
  shows "covers (Invert_rect (from * TERMINAL_CELL_WIDTH) (row * TERMINAL_CELL_HEIGHT) ((to - from + 1) * TERMINAL_CELL_WIDTH) TERMINAL_CELL_HEIGHT) px py
    \<longleftrightarrow> py div TERMINAL_CELL_HEIGHT = row \<and> from \<le> px div TERMINAL_CELL_WIDTH \<and> px div TERMINAL_CELL_WIDTH \<le> to"
proof -
  have w: "from * 8 + (to - from + 1) * 8 = (to + 1) * 8" using assms by (simp add: diff_mult_distrib)
  have "from * 8 \<le> px \<longleftrightarrow> from \<le> px div 8" by (simp add: less_eq_div_iff_mult_less_eq)
  moreover have "px < (to + 1) * 8 \<longleftrightarrow> px div 8 \<le> to" using div_less_iff_less_mult [of 8 px "to + 1"] by auto
  moreover have "row * 16 \<le> py \<and> py < row * 16 + 16 \<longleftrightarrow> py div 16 = row"
    using less_eq_div_iff_mult_less_eq [of 16 row py] div_less_iff_less_mult [of 16 py "row + 1"] by auto
  moreover note w
  ultimately show ?thesis unfolding covers.simps TERMINAL_CELL_WIDTH_def TERMINAL_CELL_HEIGHT_def w by blast
qed

lemma row_rect_covers:
  assumes "first \<le> final" "0 < terminal_cols t" "on_grid t px py" "first div terminal_cols t \<le> row" "row \<le> final div terminal_cols t"
  shows "covers (row_rect t first final row) px py
    \<longleftrightarrow> py div TERMINAL_CELL_HEIGHT = row \<and> first \<le> cell_of t px py \<and> cell_of t px py \<le> final"
proof -
  let ?C = "terminal_cols t"
  let ?from = "if row = first div ?C then first mod ?C else 0" and ?to = "if row = final div ?C then final mod ?C else ?C - 1"
  have "?from \<le> ?to"
  proof (cases "first div ?C = final div ?C")
    case True
    then have "first mod ?C \<le> final mod ?C"
      using assms(1) div_mult_mod_eq [of first ?C] div_mult_mod_eq [of final ?C] by (metis add_le_cancel_left)
    then show ?thesis using True assms(2,4,5) by auto
  next
    case False
    then show ?thesis using assms(2,4,5) mod_less_divisor [OF assms(2), of first] by auto
  qed
  note cv = covers_cells [OF this]
  have "px div TERMINAL_CELL_WIDTH < ?C" using assms(3) by (simp add: on_grid_def)
  from cells_of_row [OF assms(1,2) this assms(4,5)] show ?thesis
    unfolding row_rect_def Let_def cv cell_of_def by blast
qed

lemma flips_rows:
  assumes "\<forall>row\<in>set rows. covers (g row) px py \<longleftrightarrow> py div TERMINAL_CELL_HEIGHT = row \<and> P" "distinct rows"
  shows "flips (map g rows) px py \<longleftrightarrow> py div TERMINAL_CELL_HEIGHT \<in> set rows \<and> P"
  using assms
proof (induction rows)
  case (Cons r rows)
  have "flips (g r # map g rows) px py = (flips [g r] px py \<noteq> flips (map g rows) px py)"
    using flips_simps(2) [of "[g r]" "map g rows" px py] by simp
  then show ?case using Cons by auto
qed simp

lemma fold_draw: "fold (\<lambda>row. draw (g row)) rows t = t\<lparr>terminal_display := fold (\<lambda>row. request (g row)) rows (terminal_display t)\<rparr>"
  by (induction rows arbitrary: t) (simp_all add: draw_def)

lemma trace_fold: "trace_of (fold (\<lambda>row. draw (g row)) rows t) = trace_of t @ map g rows"
  by (induction rows arbitrary: t) simp_all

lemma invert_range_flips:
  assumes "terminal_graphics t" "0 < terminal_cols t" "first \<le> final" "final < terminal_rows t * terminal_cols t"
  shows "flipped t (selection_invert_linear_range first final t) {first..final}"
proof -
  let ?C = "terminal_cols t" and ?g = "row_rect t first final"
  let ?rows = "[first div ?C..<final div ?C + 1]"
  have inv: "selection_invert_linear_range first final t = fold (\<lambda>row. draw (?g row)) ?rows t"
  proof -
    have "\<not> first > final" "terminal_rows t * ?C \<noteq> 0" "\<not> first > terminal_rows t * ?C - 1" "\<not> final > terminal_rows t * ?C - 1"
      using assms(3,4) by linarith+
    then show ?thesis using assms(1) unfolding selection_invert_linear_range_def row_rect_def Let_def by (simp only: if_False simp_thms)
  qed
  have "flips (map ?g ?rows) px py = (cell_of t px py \<in> {first..final})" if "on_grid t px py" for px py
  proof -
    let ?P = "first \<le> cell_of t px py \<and> cell_of t px py \<le> final"
    have "flips (map ?g ?rows) px py \<longleftrightarrow> py div TERMINAL_CELL_HEIGHT \<in> set ?rows \<and> ?P"
      by (rule flips_rows) (use row_rect_covers [OF assms(3,2) that] in auto)
    moreover have "py div TERMINAL_CELL_HEIGHT \<in> set ?rows" if ?P
    proof -
      have "cell_of t px py div ?C = py div TERMINAL_CELL_HEIGHT"
        using \<open>on_grid t px py\<close> assms(2) by (simp add: cell_of_def on_grid_def)
      moreover have "first div ?C \<le> cell_of t px py div ?C" "cell_of t px py div ?C \<le> final div ?C"
        using that by (auto intro: div_le_mono)
      ultimately show ?thesis by (simp del: upt_Suc)
    qed
    ultimately show ?thesis by auto
  qed
  moreover have "list_all (\<lambda>op. op = Begin_update \<or> op = End_update \<or> (\<exists>x y w h. op = Invert_rect x y w h)) (map ?g ?rows)"
    by (auto simp: list_all_iff row_rect_def Let_def)
  ultimately show ?thesis unfolding flipped_def inv trace_fold by blast
qed

lemma invert_range_same: "same_geometry t (selection_invert_linear_range a b t)" "terminal_graphics (selection_invert_linear_range a b t) = terminal_graphics t"
  using core_eqD(1,4,5) [OF core_views(8) [of a b t]] by (simp_all add: same_geometry_def)

text \<open>The cells a terminal has highlighted, and the cells of its selection.\<close>

definition drawn_cells :: "terminal \<Rightarrow> nat set" where
  "drawn_cells t = (if selection_drawn t then {selection_drawn_start t..selection_drawn_end t} else {})"

definition selected_cells :: "terminal \<Rightarrow> nat set" where
  "selected_cells t = (case selection_current_linear t of None \<Rightarrow> {} | Some (a, b) \<Rightarrow> {a..b})"

definition drawn_ok :: "terminal \<Rightarrow> bool" where
  "drawn_ok t \<longleftrightarrow> (selection_drawn t \<longrightarrow> selection_drawn_start t \<le> selection_drawn_end t \<and> selection_drawn_end t < terminal_rows t * terminal_cols t)"

lemma flipped_wrap:
  assumes "flipped (draw Begin_update t) u F"
  shows "flipped t (draw End_update u) F"
proof -
  obtain ops where "trace_of u = trace_of t @ [Begin_update] @ ops" "\<forall>px py. on_grid (draw Begin_update t) px py \<longrightarrow> flips ops px py = (cell_of (draw Begin_update t) px py \<in> F)"
    "list_all (\<lambda>op. op = Begin_update \<or> op = End_update \<or> (\<exists>x y w h. op = Invert_rect x y w h)) ops"
    using assms by (auto simp: flipped_def)
  moreover have "on_grid (draw Begin_update t) px py = on_grid t px py" "cell_of (draw Begin_update t) px py = cell_of t px py" for px py
    by (simp_all add: on_grid_def cell_of_def)
  ultimately show ?thesis unfolding flipped_def
    by (intro exI [of _ "[Begin_update] @ ops @ [End_update]"]) (simp del: append_Cons)
qed

lemma flipped_record: "trace_of u = trace_of v \<Longrightarrow> flipped t u F \<Longrightarrow> flipped t v F"
  by (simp add: flipped_def)

text \<open>Two updates of the highlighting in a row, on a terminal with a grid.\<close>

definition ranges_ok :: "terminal \<Rightarrow> bool" where
  "ranges_ok t \<longleftrightarrow> terminal_graphics t \<and> 0 < terminal_cols t"

lemma invert_range_step:
  assumes "ranges_ok t" "a \<le> b" "b < terminal_rows t * terminal_cols t"
  shows "flipped t (selection_invert_linear_range a b t) {a..b}"
  using invert_range_flips [of t a b] assms by (simp add: ranges_ok_def)

lemma invert_two_ranges:
  assumes "ranges_ok t" "a \<le> b" "b < terminal_rows t * terminal_cols t" "c \<le> d" "d < terminal_rows t * terminal_cols t"
  shows "flipped t (selection_invert_linear_range c d (selection_invert_linear_range a b t)) (({a..b} - {c..d}) \<union> ({c..d} - {a..b}))"
    "b < c \<Longrightarrow> flipped t (selection_invert_linear_range c d (selection_invert_linear_range a b t)) ({a..b} \<union> {c..d})"
proof -
  let ?u = "selection_invert_linear_range a b t"
  have "ranges_ok ?u" "terminal_rows ?u * terminal_cols ?u = terminal_rows t * terminal_cols t"
    using invert_range_same(1) [of t a b] invert_range_same(2) [of a b t] assms(1) by (simp_all add: ranges_ok_def same_geometry_def)
  then show s: "flipped t (selection_invert_linear_range c d ?u) (({a..b} - {c..d}) \<union> ({c..d} - {a..b}))"
    using flipped_trans [OF invert_range_step [OF assms(1-3)] invert_range_step [of ?u c d] invert_range_same(1)] assms by simp
  assume "b < c"
  then have "({a..b} - {c..d}) \<union> ({c..d} - {a..b}) = {a..b} \<union> {c..d}" by auto
  then show "flipped t (selection_invert_linear_range c d ?u) ({a..b} \<union> {c..d})" using s by (simp only:)
qed

text \<open>The cells that two overlapping ranges do not share lie at their two ends.\<close>

lemma edge_cells:
  assumes "c \<le> b" "a \<le> d" "a \<le> b" "c \<le> (d::nat)"
  shows "({c..d} - {a..b}) \<union> ({a..b} - {c..d}) =
    (if a < c then {a..c - 1} else if a > c then {c..a - 1} else {}) \<union> (if b > d then {d + 1..b} else if b < d then {b + 1..d} else {})"
  using assms by (auto split: if_splits)

lemma selection_change_flips:
  assumes "ranges_ok t" "drawn_ok t" "a \<le> b" "b < terminal_rows t * terminal_cols t"
  shows "flipped t (selection_change a b t) ((drawn_cells t - {a..b}) \<union> ({a..b} - drawn_cells t))"
proof (cases "selection_drawn t")
  case False
  then show ?thesis using invert_range_step [OF assms(1,3,4)] by (simp add: selection_change_def drawn_cells_def Let_def)
next
  case True
  let ?c = "selection_drawn_start t" and ?d = "selection_drawn_end t" and ?N = "terminal_rows t * terminal_cols t"
  have d: "?c \<le> ?d" "?d < ?N" using assms(2) True by (simp_all add: drawn_ok_def)
  have dc: "drawn_cells t = {?c..?d}" using True by (simp add: drawn_cells_def)
  show ?thesis
  proof (cases "b < ?c \<or> a > ?d")
    case far: True
    then show ?thesis using True invert_two_ranges [OF assms(1) d assms(3,4)]
      by (simp add: selection_change_def dc Let_def)
  next
    case near: False
    note one = invert_range_step [OF assms(1)] and two = invert_two_ranges(2) [OF assms(1)]
    have sets: "(drawn_cells t - {a..b}) \<union> ({a..b} - drawn_cells t) =
      (if a < ?c then {a..?c - 1} else if a > ?c then {?c..a - 1} else {}) \<union> (if b > ?d then {?d + 1..b} else if b < ?d then {b + 1..?d} else {})"
      unfolding dc using near assms(3) d(1) by (intro edge_cells) auto
    consider "a < ?c" | "a = ?c" | "a > ?c" by linarith
    then show ?thesis unfolding sets
    proof cases
      case 1
      consider "b > ?d" | "b = ?d" | "b < ?d" by linarith
      then show "flipped t (selection_change a b t) ((if a < ?c then {a..?c - 1} else if a > ?c then {?c..a - 1} else {})
          \<union> (if b > ?d then {?d + 1..b} else if b < ?d then {b + 1..?d} else {}))"
        using 1 True near d assms(3,4) one [of a "?c - 1"] two [of a "?c - 1" "?d + 1" b] two [of a "?c - 1" "b + 1" ?d]
        by cases (simp_all add: selection_change_def Let_def)
    next
      case 2
      consider "b > ?d" | "b = ?d" | "b < ?d" by linarith
      then show "flipped t (selection_change a b t) ((if a < ?c then {a..?c - 1} else if a > ?c then {?c..a - 1} else {})
          \<union> (if b > ?d then {?d + 1..b} else if b < ?d then {b + 1..?d} else {}))"
        using 2 True near d assms(3,4) flipped_refl [of t] one [of "?d + 1" b] one [of "b + 1" ?d]
        by cases (simp_all add: selection_change_def Let_def)
    next
      case 3
      consider "b > ?d" | "b = ?d" | "b < ?d" by linarith
      then show "flipped t (selection_change a b t) ((if a < ?c then {a..?c - 1} else if a > ?c then {?c..a - 1} else {})
          \<union> (if b > ?d then {?d + 1..b} else if b < ?d then {b + 1..?d} else {}))"
        using 3 True near d assms(3,4) one [of ?c "a - 1"] two [of ?c "a - 1" "?d + 1" b] two [of ?c "a - 1" "b + 1" ?d]
        by cases (simp_all add: selection_change_def Let_def)
    qed
  qed
qed

lemma selected_range:
  assumes "sel_ok t" "selection_current_linear t = Some (a, b)"
  shows "a \<le> b" "b < terminal_rows t * terminal_cols t"
proof -
  have act: "selection_active_state t" using assms(2) by (simp add: selection_current_linear_def split: if_split_asm)
  have lin: "cell_linear t c r < terminal_rows t * terminal_cols t" if "c < terminal_cols t" "r < terminal_rows t" for c r
  proof -
    have "r * terminal_cols t + c < Suc r * terminal_cols t" using that by simp
    also have "\<dots> \<le> terminal_rows t * terminal_cols t" using that by (intro mult_right_mono) auto
    finally show ?thesis by (simp add: cell_linear_def)
  qed
  show "a \<le> b" "b < terminal_rows t * terminal_cols t"
    using assms act lin by (auto simp: selection_current_linear_def selection_bounds_def sel_ok_def split: if_split_asm)
qed

text \<open>
  C20: Updating the highlighted selection, which only redraws the difference to what is on the screen, is right: the
  requests it makes are inversions that flip a pixel of the grid exactly when its cell is in the old or in the new
  selection but not in both, and afterwards the selection on record is the one on the screen.
\<close>

theorem selection_highlight_correct:
  assumes "term_ok t" "terminal_graphics t" "drawn_ok t"
  shows "flipped t (selection_show t) ((drawn_cells t - selected_cells t) \<union> (selected_cells t - drawn_cells t))
    \<and> drawn_cells (selection_show t) = selected_cells t \<and> drawn_ok (selection_show t)"
proof (cases "selection_current_linear t")
  case None
  then have sel: "selected_cells t = {}" "selection_show t = selection_hide t" by (simp_all add: selected_cells_def selection_show_def)
  show ?thesis
  proof (cases "selection_drawn t")
    case True
    let ?b = "draw Begin_update t"
    have "ranges_ok ?b" "terminal_rows ?b * terminal_cols ?b = terminal_rows t * terminal_cols t"
      using assms(1,2) by (simp_all add: ranges_ok_def term_ok_def grid_ok_def)
    then have "flipped ?b (selection_invert_linear_range (selection_drawn_start t) (selection_drawn_end t) ?b) {selection_drawn_start t..selection_drawn_end t}"
      using assms(3) True by (intro invert_range_step) (simp_all add: drawn_ok_def)
    then have f: "flipped t (draw End_update (selection_invert_linear_range (selection_drawn_start t) (selection_drawn_end t) ?b)) (drawn_cells t)"
      using True by (intro flipped_wrap) (simp add: drawn_cells_def)
    have "flipped t (selection_hide t) (drawn_cells t)"
      by (rule flipped_record [OF _ f]) (use True in \<open>simp add: selection_hide_def Let_def trace_of_def\<close>)
    then show ?thesis using True sel by (simp add: drawn_cells_def drawn_ok_def selection_hide_def Let_def)
  next
    case False
    then show ?thesis using sel flipped_refl by (simp add: drawn_cells_def drawn_ok_def selection_hide_def)
  qed
next
  case (Some p)
  obtain a b where ab: "selection_current_linear t = Some (a, b)" using Some by (cases p) simp
  have r: "a \<le> b" "b < terminal_rows t * terminal_cols t" using selected_range [OF _ ab] assms(1) by (auto simp: term_ok_def)
  let ?b = "draw Begin_update t"
  have "flipped ?b (selection_change a b ?b) ((drawn_cells ?b - {a..b}) \<union> ({a..b} - drawn_cells ?b))"
    using assms r by (intro selection_change_flips) (simp_all add: ranges_ok_def term_ok_def grid_ok_def drawn_ok_def)
  then have f: "flipped t (draw End_update (selection_change a b ?b)) ((drawn_cells t - {a..b}) \<union> ({a..b} - drawn_cells t))"
    unfolding drawn_cells_def draw_fields by (rule flipped_wrap)
  have sh: "selection_show t = (draw End_update (selection_change a b ?b))\<lparr>selection_drawn_start := a, selection_drawn_end := b, selection_drawn := True\<rparr>"
    using ab by (simp add: selection_show_def)
  have "flipped t (selection_show t) ((drawn_cells t - {a..b}) \<union> ({a..b} - drawn_cells t))"
    by (rule flipped_record [OF _ f]) (simp add: sh trace_of_def)
  moreover have "terminal_rows (selection_show t) = terminal_rows t" "terminal_cols (selection_show t) = terminal_cols t"
    using core_eqD(4,5) [OF core_selection(3) [of t]] by simp_all
  ultimately show ?thesis using ab r by (simp add: selected_cells_def drawn_cells_def drawn_ok_def sh)
qed

definition demo_selection :: terminal where
  "demo_selection = (terminal_init demo_env (raw_terminal True 1024 768))\<lparr>selection_anchor_col := 2, selection_anchor_row := 0,
     selection_focus_col := 5, selection_focus_row := 1, selection_active_state := True, selection_tracking := False\<rparr>"

lemma demo_terminal:
  "term_ok (terminal_init demo_env (raw_terminal True 1024 768))" "terminal_graphics (terminal_init demo_env (raw_terminal True 1024 768))"
  "terminal_cols (terminal_init demo_env (raw_terminal True 1024 768)) = 128" "terminal_rows (terminal_init demo_env (raw_terminal True 1024 768)) = 48"
  "\<not> selection_drawn (terminal_init demo_env (raw_terminal True 1024 768))"
proof -
  have "rootfont_ready demo_font" using demo_font_header by (simp add: rootfont_ready_def)
  then show "terminal_graphics (terminal_init demo_env (raw_terminal True 1024 768))"
    "terminal_cols (terminal_init demo_env (raw_terminal True 1024 768)) = 128" "terminal_rows (terminal_init demo_env (raw_terminal True 1024 768)) = 48"
    "\<not> selection_drawn (terminal_init demo_env (raw_terminal True 1024 768))"
    by (simp_all add: terminal_init_def raw_terminal_def demo_env_def Let_def rootos_consts)
  show "term_ok (terminal_init demo_env (raw_terminal True 1024 768))" by (rule terminal_init_ok [OF raw_terminal_arrays]) simp_all
qed

lemma demo_selection_ok: "term_ok demo_selection" "terminal_graphics demo_selection" "\<not> selection_drawn demo_selection"
proof -
  show "term_ok demo_selection" unfolding demo_selection_def by (rule sel_set_ok) (simp_all add: demo_terminal)
  show "terminal_graphics demo_selection" "\<not> selection_drawn demo_selection" by (simp_all add: demo_selection_def demo_terminal)
qed

theorem selection_highlight_correct_witness:
  "flipped demo_selection (selection_show demo_selection) (selected_cells demo_selection)
   \<and> drawn_cells (selection_show demo_selection) = selected_cells demo_selection \<and> 130 \<in> selected_cells demo_selection"
proof -
  have "130 \<in> selected_cells demo_selection"
    by (simp add: demo_selection_def selected_cells_def selection_current_linear_def selection_bounds_def cell_linear_def demo_terminal)
  moreover have "drawn_ok demo_selection" "drawn_cells demo_selection = {}"
    using demo_selection_ok(3) by (simp_all add: drawn_ok_def drawn_cells_def)
  ultimately show ?thesis using selection_highlight_correct [OF demo_selection_ok(1,2)] by simp
qed

section \<open>Copying\<close>

definition blank_cell :: "RootCodepoint \<Rightarrow> bool" where
  "blank_cell v \<longleftrightarrow> v = 0 \<or> v = BLANK"

text \<open>A piece of a row without the blanks at its end, but at least its first cell; and the text of its cells.\<close>

definition trimmed :: "RootCodepoint list \<Rightarrow> RootCodepoint list" where
  "trimmed xs = (case rev (dropWhile blank_cell (rev xs)) of [] \<Rightarrow> take 1 xs | ys \<Rightarrow> ys)"

definition cells_text :: "RootCodepoint list \<Rightarrow> RootCodepoint list" where
  "cells_text xs = map (\<lambda>v. if v = 0 then BLANK else v) (filter (\<lambda>v. v \<noteq> TERMINAL_CONTINUATION) xs)"

definition row_text :: "terminal \<Rightarrow> (nat \<times> nat) \<Rightarrow> (nat \<times> nat) \<Rightarrow> nat \<Rightarrow> RootCodepoint list" where
  "row_text t start stop row =
     (let from = (if row = snd start then fst start else 0); to = (if row = snd stop then fst stop else terminal_cols t - 1)
      in cells_text (trimmed (map ((!) (history t ! (scrollback_count t - scrollback_view_offset t + row))) [from..<to + 1])))"

fun lines_text :: "(nat \<Rightarrow> RootCodepoint list) \<Rightarrow> nat list \<Rightarrow> RootCodepoint list" where
  "lines_text f [] = []"
| "lines_text f [row] = f row"
| "lines_text f (row # rows) = f row @ [0x0A] @ lines_text f rows"

definition selected_text :: "terminal \<Rightarrow> RootCodepoint list" where
  "selected_text t = (case selection_bounds t of (start, stop) \<Rightarrow> lines_text (row_text t start stop) [snd start..<snd stop + 1])"

lemma trim_to_bounds: "lo \<le> hi \<Longrightarrow> lo \<le> trim_to row lo hi \<and> trim_to row lo hi \<le> hi"
  by (induction row lo hi rule: trim_to.induct) (auto simp: le_Suc_eq)

lemma trimmed_snoc: "xs \<noteq> [] \<Longrightarrow> trimmed (xs @ [v]) = (if blank_cell v then trimmed xs else xs @ [v])"
proof (cases "blank_cell v")
  case True
  assume "xs \<noteq> []"
  then have "take 1 (xs @ [v]) = take 1 xs" by (cases xs) auto
  moreover have "dropWhile blank_cell (rev (xs @ [v])) = dropWhile blank_cell (rev xs)" using True by simp
  ultimately show ?thesis using True unfolding trimmed_def by (simp only: if_True)
next
  case False
  then show ?thesis by (simp add: trimmed_def split: list.split)
qed

lemma trim_to_trimmed:
  "lo \<le> hi \<Longrightarrow> map ((!) row) [lo..<trim_to row lo hi + 1] = trimmed (map ((!) row) [lo..<hi + 1])"
proof (induction row lo hi rule: trim_to.induct)
  case (1 row lo)
  then show ?case by (simp add: trimmed_def split: list.split)
next
  case (2 row lo hi)
  show ?case
  proof (cases "Suc hi > lo")
    case True
    then have ne: "map ((!) row) [lo..<hi + 1] \<noteq> []" by simp
    have "map ((!) row) [lo..<Suc hi + 1] = map ((!) row) [lo..<hi + 1] @ [row ! Suc hi]" using True by simp
    then have "trimmed (map ((!) row) [lo..<Suc hi + 1]) = (if row ! Suc hi = 0 \<or> row ! Suc hi = BLANK
        then trimmed (map ((!) row) [lo..<hi + 1]) else map ((!) row) [lo..<Suc hi + 1])"
      using trimmed_snoc [OF ne, of "row ! Suc hi"] by (simp only: blank_cell_def)
    then show ?thesis using 2 True by (simp del: upt_Suc)
  next
    case False
    then have "lo = Suc hi" using "2.prems" by simp
    then show ?thesis by (simp add: trimmed_def split: list.split)
  qed
qed

abbreviation COPY_MAX :: nat where
  "COPY_MAX \<equiv> ROOT_CLIPBOARD_MAX_CODEPOINTS - 1"

lemma copy_cells_text:
  "length out \<le> COPY_MAX \<Longrightarrow> copy_cells vs out = (length (out @ cells_text vs) > COPY_MAX, take COPY_MAX (out @ cells_text vs))"
proof (induction vs out rule: copy_cells.induct)
  case (2 v vs out)
  show ?case
  proof (cases "v = TERMINAL_CONTINUATION \<or> length out + 1 \<ge> ROOT_CLIPBOARD_MAX_CODEPOINTS")
    case True
    then show ?thesis using 2 by (auto simp: cells_text_def rootos_consts)
  next
    case False
    then have "copy_cells vs (out @ [if v = 0 then BLANK else v])
      = (length ((out @ [if v = 0 then BLANK else v]) @ cells_text vs) > COPY_MAX, take COPY_MAX ((out @ [if v = 0 then BLANK else v]) @ cells_text vs))"
      using 2 by (auto simp: rootos_consts)
    then show ?thesis using False by (simp add: cells_text_def Let_def)
  qed
qed (simp add: cells_text_def)

lemma take_full: "length xs > n \<Longrightarrow> take n (take n xs @ ys) = take n (xs @ ys)"
  by simp

lemma copy_rows_text:
  assumes "term_ok t" "\<forall>row\<in>set rows. row < terminal_rows t \<and> snd start \<le> row \<and> row \<le> snd stop"
    "fst start < terminal_cols t" "fst stop < terminal_cols t" "snd start = snd stop \<longrightarrow> fst start \<le> fst stop"
    "length out \<le> COPY_MAX" "rows \<noteq> [] \<longrightarrow> last rows = snd stop" "sorted_wrt (<) rows"
  shows "copy_rows t start stop rows out = take COPY_MAX (out @ lines_text (row_text t start stop) rows)"
  using assms(2,6-)
proof (induction rows arbitrary: out)
  case (Cons row rows)
  let ?from = "if row = snd start then fst start else 0" and ?to = "if row = snd stop then fst stop else terminal_cols t - 1"
  let ?line = "row_text t start stop row"
  have r: "row < terminal_rows t" using Cons.prems(1) by simp
  from visible_row_window [OF assms(1) r] obtain data where data: "visible_row_data t row = Some data"
    "take (terminal_cols t) data = history t ! (scrollback_count t - scrollback_view_offset t + row)" by auto
  have ft: "?from \<le> ?to" "?to < terminal_cols t" using assms(3-5) by auto
  have "map ((!) data) [?from..<?to + 1] = map ((!) (history t ! (scrollback_count t - scrollback_view_offset t + row))) [?from..<?to + 1]"
    using ft(2) by (auto simp flip: data(2))
  then have line: "cells_text (map ((!) data) [?from..<trim_to data ?from ?to + 1]) = ?line"
    unfolding trim_to_trimmed [OF ft(1)] row_text_def Let_def by (simp only:)
  let ?full = "length (out @ ?line) > COPY_MAX" and ?o = "take COPY_MAX (out @ ?line)"
  have cc: "copy_cells (map ((!) data) [?from..<trim_to data ?from ?to + 1]) out = (?full, ?o)"
    using copy_cells_text [OF Cons.prems(2)] line by simp
  have step: "copy_rows t start stop (row # rows) out = (if ?full then ?o
      else if row \<noteq> snd stop then (if length ?o + 1 \<ge> ROOT_CLIPBOARD_MAX_CODEPOINTS then ?o else copy_rows t start stop rows (?o @ [0x0A]))
      else copy_rows t start stop rows ?o)"
    unfolding copy_rows.simps data(1) option.case Let_def cc prod.case by simp
  show ?case
  proof (cases "row = snd stop")
    case True
    then have "rows = []" using Cons.prems by (cases rows) (auto simp: sorted_wrt_append)
    then show ?thesis unfolding step using True by (simp split: if_split)
  next
    case False
    then have ne: "rows \<noteq> []" using Cons.prems(3) by auto
    have lt: "lines_text (row_text t start stop) (row # rows) = ?line @ [0x0A] @ lines_text (row_text t start stop) rows"
      using ne by (cases rows) simp_all
    show ?thesis
    proof (cases "length (out @ ?line) \<ge> COPY_MAX")
      case True
      then have "?full \<or> length ?o + 1 \<ge> ROOT_CLIPBOARD_MAX_CODEPOINTS" by auto
      moreover have "take COPY_MAX (out @ lines_text (row_text t start stop) (row # rows)) = ?o" unfolding lt using True by simp
      ultimately show ?thesis unfolding step using False by (auto split: if_splits)
    next
      case small: False
      then have "copy_rows t start stop rows ((out @ ?line) @ [0x0A]) = take COPY_MAX (((out @ ?line) @ [0x0A]) @ lines_text (row_text t start stop) rows)"
        using Cons.prems ne by (intro Cons.IH) auto
      then show ?thesis unfolding step lt using False small by (simp add: rootos_consts)
    qed
  qed
qed simp

lemma selection_order:
  assumes "sel_ok t" "selection_active_state t" "selection_bounds t = ((sc, sr), (ec, er))"
  shows "sc < terminal_cols t" "ec < terminal_cols t" "sr \<le> er" "er < terminal_rows t" "sr = er \<longrightarrow> sc \<le> ec"
proof -
  have ends: "sc < terminal_cols t" "ec < terminal_cols t" "sr < terminal_rows t" "er < terminal_rows t"
    and lin: "cell_linear t sc sr \<le> cell_linear t ec er"
    using assms by (auto simp: sel_ok_def selection_bounds_def split: if_split_asm)
  show "sc < terminal_cols t" "ec < terminal_cols t" "er < terminal_rows t" by (fact ends)+
  have "er < sr \<Longrightarrow> er * terminal_cols t + ec < sr * terminal_cols t"
    using ends(2) mult_le_mono1 [of "Suc er" sr "terminal_cols t"] by simp
  then show "sr \<le> er" using lin unfolding cell_linear_def by linarith
  show "sr = er \<longrightarrow> sc \<le> ec" using lin by (auto simp: cell_linear_def)
qed

text \<open>
  C21: Copying a selection always succeeds and puts on the clipboard the first 4095 code points of the selected text: the
  lines between the two ends as the user sees them (with the view scrolled back or not), without the blanks at the end
  of each line and without the second halves of wide glyphs, separated by newlines.
\<close>

theorem selection_copy_correct:
  assumes "term_ok t" "selection_active_state t"
  shows "fst (terminal_selection_copy t)
    \<and> clipboard_text (terminal_clipboard (snd (terminal_selection_copy t))) = take COPY_MAX (selected_text t)"
proof -
  obtain sc sr ec er where b: "selection_bounds t = ((sc, sr), (ec, er))" by (metis surj_pair)
  have sel: "sel_ok t" and clip: "clipboard_ok (terminal_clipboard t)" using assms(1) by (simp_all add: term_ok_def grid_ok_def)
  note o = selection_order [OF sel assms(2) b]
  let ?out = "copy_rows t (sc, sr) (ec, er) [sr..<er + 1] []"
  have out: "?out = take COPY_MAX (selected_text t)"
  proof -
    have "sorted_wrt (<) [sr..<er + 1]" by (rule sorted_wrt_upt)
    then show ?thesis
      using copy_rows_text [OF assms(1), of "[sr..<er + 1]" "(sc, sr)" "(ec, er)" "[]"] o by (simp add: selected_text_def b)
  qed
  define copied where "copied = ?out"
  obtain ok c where rs: "rootclipboard_set (Some copied) (length copied) (terminal_clipboard t) = (ok, c)" by force
  have "length copied < ROOT_CLIPBOARD_MAX_CODEPOINTS" using out by (simp add: rootos_consts copied_def)
  then have "ok" "clipboard_text c = copied" using clipboard_set_spec [OF clip, of copied] rs by simp_all
  moreover have "terminal_selection_copy t = (case rootclipboard_set (Some copied) (length copied) (terminal_clipboard t) of (ok, c) \<Rightarrow> (ok, t\<lparr>terminal_clipboard := c\<rparr>))"
    using assms(2) b by (simp add: terminal_selection_copy_def copied_def Let_def)
  ultimately show ?thesis using rs out by (simp add: copied_def)
qed

theorem selection_copy_correct_witness:
  "fst (terminal_selection_copy demo_selection)
   \<and> clipboard_text (terminal_clipboard (snd (terminal_selection_copy demo_selection))) = take COPY_MAX (selected_text demo_selection)"
  by (rule selection_copy_correct [OF demo_selection_ok(1)]) (simp add: demo_selection_def)

end
