(* ===== verification/Root_Editor.thy ===== *)
theory Root_Editor
  imports Root_Terminal Root_Filesystem
begin

text \<open>
  The text editor (\<open>source/editor/rootedit.c\<close>). Its static variables are the fields of \<open>rootedit\<close>: an array of 4096 code
  points with a length and a cursor, the selection, the part of the text on the screen, two rings of 24 snapshots, and
  the terminal and the file system it works on. The functions follow the file; \<open>rootedit_event\<close> is one turn of its loop.
  A step is \<open>None\<close> when the length or the cursor it computes leaves the array.
\<close>

definition ROOTEDIT_MAX_CODEPOINTS :: nat where [rootos_consts]: "ROOTEDIT_MAX_CODEPOINTS = 4096"
definition ROOTEDIT_MAX_FILE_BYTES :: nat where [rootos_consts]: "ROOTEDIT_MAX_FILE_BYTES = ROOTEDIT_MAX_CODEPOINTS * 4"
definition ROOTEDIT_BODY_START_ROW :: nat where [rootos_consts]: "ROOTEDIT_BODY_START_ROW = 3"
definition ROOTEDIT_CELL_WIDTH :: nat where [rootos_consts]: "ROOTEDIT_CELL_WIDTH = 8"
definition ROOTEDIT_CELL_HEIGHT :: nat where [rootos_consts]: "ROOTEDIT_CELL_HEIGHT = 16"
definition ROOTEDIT_UNDO_DEPTH :: nat where [rootos_consts]: "ROOTEDIT_UNDO_DEPTH = 24"

abbreviation LF :: RootCodepoint where "LF \<equiv> 0x0A"

record RootEditSnapshot =
  snap_buffer :: "RootCodepoint list"
  snap_length :: nat
  snap_cursor :: nat

datatype RootEditUndoGroup =
    ROOTEDIT_GROUP_NONE | ROOTEDIT_GROUP_INSERT | ROOTEDIT_GROUP_BACKSPACE | ROOTEDIT_GROUP_DELETE

record snapshot_ring =
  ring_stack :: "RootEditSnapshot list"
  ring_start :: nat
  ring_count :: nat

record 'd rootedit =
  editor_buffer :: "RootCodepoint list"
  editor_length :: nat
  editor_cursor :: nat
  editor_dirty :: bool
  editor_save_error :: bool
  editor_view_line :: nat
  editor_horizontal_offset :: nat
  editor_status_cache :: int
  edit_selection_active :: bool
  edit_selection_anchor :: nat
  edit_selection_drawn :: bool
  edit_drawn_start :: nat
  edit_drawn_end :: nat
  mouse_selecting :: bool
  undo_ring :: snapshot_ring
  redo_ring :: snapshot_ring
  undo_scratch_a :: RootEditSnapshot
  undo_scratch_b :: RootEditSnapshot
  undo_group :: RootEditUndoGroup
  editor_path :: string
  ed_term :: terminal
  ed_fs :: "'d fs"

definition on_term :: "(terminal \<Rightarrow> terminal) \<Rightarrow> 'd rootedit \<Rightarrow> 'd rootedit" where
  "on_term f e = e\<lparr>ed_term := f (ed_term e)\<rparr>"

text \<open>The length and the cursor stay within the array.\<close>

definition edit_fits :: "'d rootedit \<Rightarrow> bool" where
  "edit_fits e \<longleftrightarrow> editor_length e \<le> ROOTEDIT_MAX_CODEPOINTS \<and> editor_cursor e \<le> ROOTEDIT_MAX_CODEPOINTS"

section \<open>Undo and redo\<close>

definition editor_snapshot_capture :: "'d rootedit \<Rightarrow> RootEditSnapshot \<Rightarrow> RootEditSnapshot" where
  "editor_snapshot_capture e snapshot =
     snapshot\<lparr>snap_length := editor_length e, snap_cursor := editor_cursor e,
              snap_buffer := copy_cols (editor_length e) (editor_buffer e) (snap_buffer snapshot)\<rparr>"

definition editor_snapshot_restore :: "RootEditSnapshot \<Rightarrow> 'd rootedit \<Rightarrow> 'd rootedit" where
  "editor_snapshot_restore snapshot e =
     e\<lparr>editor_length := snap_length snapshot, editor_cursor := snap_cursor snapshot,
       editor_buffer := copy_cols (snap_length snapshot) (snap_buffer snapshot) (editor_buffer e),
       edit_selection_active := False, edit_selection_drawn := False, mouse_selecting := False,
       edit_selection_anchor := snap_cursor snapshot, editor_dirty := True, editor_save_error := False\<rparr>"

definition snapshot_store :: "RootEditSnapshot \<Rightarrow> RootEditSnapshot \<Rightarrow> RootEditSnapshot" where
  "snapshot_store snapshot old =
     old\<lparr>snap_length := snap_length snapshot, snap_cursor := snap_cursor snapshot,
         snap_buffer := copy_cols (snap_length snapshot) (snap_buffer snapshot) (snap_buffer old)\<rparr>"

definition snapshot_stack_push :: "RootEditSnapshot \<Rightarrow> snapshot_ring \<Rightarrow> snapshot_ring" where
  "snapshot_stack_push snapshot r =
     (if ring_count r < ROOTEDIT_UNDO_DEPTH then
        let index = (ring_start r + ring_count r) mod ROOTEDIT_UNDO_DEPTH
        in r\<lparr>ring_stack := (ring_stack r)[index := snapshot_store snapshot (ring_stack r ! index)], ring_count := ring_count r + 1\<rparr>
      else
        let index = ring_start r
        in r\<lparr>ring_stack := (ring_stack r)[index := snapshot_store snapshot (ring_stack r ! index)],
             ring_start := (ring_start r + 1) mod ROOTEDIT_UNDO_DEPTH\<rparr>)"

text \<open>The snapshot taken from the ring (copied over \<open>out\<close>), or nothing when the ring is empty.\<close>

definition snapshot_stack_pop :: "RootEditSnapshot \<Rightarrow> snapshot_ring \<Rightarrow> (RootEditSnapshot \<times> snapshot_ring) option" where
  "snapshot_stack_pop out r =
     (if ring_count r = 0 then None
      else
        let index = (ring_start r + ring_count r - 1) mod ROOTEDIT_UNDO_DEPTH;
            out = snapshot_store (ring_stack r ! index) out;
            r = r\<lparr>ring_count := ring_count r - 1\<rparr>
        in Some (out, if ring_count r = 0 then r\<lparr>ring_start := 0\<rparr> else r))"

definition editor_break_undo_group :: "'d rootedit \<Rightarrow> 'd rootedit" where
  "editor_break_undo_group e = e\<lparr>undo_group := ROOTEDIT_GROUP_NONE\<rparr>"

definition editor_record_undo :: "RootEditUndoGroup \<Rightarrow> bool \<Rightarrow> 'd rootedit \<Rightarrow> 'd rootedit" where
  "editor_record_undo kind force_new e =
     (if \<not> force_new \<and> undo_group e = kind then e
      else
        let a = editor_snapshot_capture e (undo_scratch_a e)
        in e\<lparr>undo_scratch_a := a, undo_ring := snapshot_stack_push a (undo_ring e),
             redo_ring := (redo_ring e)\<lparr>ring_start := 0, ring_count := 0\<rparr>, undo_group := kind\<rparr>)"

definition editor_undo :: "'d rootedit \<Rightarrow> bool \<times> 'd rootedit" where
  "editor_undo e =
     (case snapshot_stack_pop (undo_scratch_a e) (undo_ring e) of
        None \<Rightarrow> (False, e)
      | Some (a, ring) \<Rightarrow>
          let b = editor_snapshot_capture e (undo_scratch_b e);
              e = e\<lparr>undo_ring := ring, undo_scratch_a := a, undo_scratch_b := b, redo_ring := snapshot_stack_push b (redo_ring e)\<rparr>
          in (True, editor_break_undo_group (editor_snapshot_restore a e)))"

definition editor_redo :: "'d rootedit \<Rightarrow> bool \<times> 'd rootedit" where
  "editor_redo e =
     (case snapshot_stack_pop (undo_scratch_a e) (redo_ring e) of
        None \<Rightarrow> (False, e)
      | Some (a, ring) \<Rightarrow>
          let b = editor_snapshot_capture e (undo_scratch_b e);
              e = e\<lparr>redo_ring := ring, undo_scratch_a := a, undo_scratch_b := b, undo_ring := snapshot_stack_push b (undo_ring e)\<rparr>
          in (True, editor_break_undo_group (editor_snapshot_restore a e)))"

section \<open>Geometry\<close>

definition editor_columns :: "'d rootedit \<Rightarrow> nat" where
  "editor_columns e = (if terminal_cols (ed_term e) < 2 then 1 else terminal_cols (ed_term e) - 1)"

definition editor_rows :: "'d rootedit \<Rightarrow> nat" where
  "editor_rows e = (if terminal_rows (ed_term e) < 6 then 6 else terminal_rows (ed_term e))"

definition editor_body_rows :: "'d rootedit \<Rightarrow> nat" where
  "editor_body_rows e = editor_rows e - 4"

definition editor_clear_row :: "screen_env \<Rightarrow> nat \<Rightarrow> 'd rootedit \<Rightarrow> 'd rootedit" where
  "editor_clear_row E row = on_term (\<lambda>t. terminal_set_cursor E 0 row (terminal_clear_row E row t))"

section \<open>Lines\<close>

fun line_start_scan :: "RootCodepoint list \<Rightarrow> nat \<Rightarrow> nat" where
  "line_start_scan buffer 0 = 0"
| "line_start_scan buffer (Suc i) = (if buffer ! i \<noteq> LF then line_start_scan buffer i else Suc i)"

function line_end_scan :: "RootCodepoint list \<Rightarrow> nat \<Rightarrow> nat \<Rightarrow> nat" where
  "line_end_scan buffer len i = (if i < len \<and> buffer ! i \<noteq> LF then line_end_scan buffer len (i + 1) else i)"
  by pat_completeness auto
termination by (relation "measure (\<lambda>(_, len, i). len - i)") auto

declare line_end_scan.simps [simp del]

definition editor_line_start_from_index :: "'d rootedit \<Rightarrow> nat \<Rightarrow> nat" where
  "editor_line_start_from_index e index =
     line_start_scan (editor_buffer e) (if index > editor_length e then editor_length e else index)"

definition editor_line_end_from_index :: "'d rootedit \<Rightarrow> nat \<Rightarrow> nat" where
  "editor_line_end_from_index e index =
     line_end_scan (editor_buffer e) (editor_length e) (if index > editor_length e then editor_length e else index)"

definition editor_line_number_from_index :: "'d rootedit \<Rightarrow> nat \<Rightarrow> nat" where
  "editor_line_number_from_index e index =
     (let index = (if index > editor_length e then editor_length e else index)
      in fold (\<lambda>i line. if editor_buffer e ! i = LF then line + 1 else line) [0..<index] 0)"

function line_number_scan :: "RootCodepoint list \<Rightarrow> nat \<Rightarrow> nat \<Rightarrow> nat \<Rightarrow> nat \<Rightarrow> nat" where
  "line_number_scan buffer len line i current =
     (if i < len then
        (if buffer ! i = LF then
           (if current + 1 = line then i + 1 else line_number_scan buffer len line (i + 1) (current + 1))
         else line_number_scan buffer len line (i + 1) current)
      else len)"
  by pat_completeness auto
termination by (relation "measure (\<lambda>(_, len, _, i, _). len - i)") auto

declare line_number_scan.simps [simp del]

definition editor_line_start_by_number :: "'d rootedit \<Rightarrow> nat \<Rightarrow> nat" where
  "editor_line_start_by_number e line =
     (if line = 0 then 0 else line_number_scan (editor_buffer e) (editor_length e) line 0 0)"

fun column_scan :: "(RootCodepoint \<Rightarrow> nat) \<Rightarrow> RootCodepoint list \<Rightarrow> nat \<Rightarrow> nat" where
  "column_scan width [] column = column"
| "column_scan width (c # cs) column = (if c = LF then column else column_scan width cs (column + width c))"

definition editor_visual_column :: "screen_env \<Rightarrow> 'd rootedit \<Rightarrow> nat \<Rightarrow> nat \<Rightarrow> nat" where
  "editor_visual_column E e line_start index =
     (let index = (if index > editor_length e then editor_length e else index)
      in column_scan (terminal_codepoint_cells E (ed_term e)) (map ((!) (editor_buffer e)) [line_start..<index]) 0)"

definition editor_codepoint_column :: "'d rootedit \<Rightarrow> nat \<Rightarrow> nat" where
  "editor_codepoint_column e index = u32_sub index (editor_line_start_from_index e index)"

section \<open>The selection\<close>

definition editor_selection_start :: "'d rootedit \<Rightarrow> nat" where
  "editor_selection_start e = (if edit_selection_anchor e < editor_cursor e then edit_selection_anchor e else editor_cursor e)"

definition editor_selection_end :: "'d rootedit \<Rightarrow> nat" where
  "editor_selection_end e = (if edit_selection_anchor e > editor_cursor e then edit_selection_anchor e else editor_cursor e)"

definition editor_selection_clear :: "'d rootedit \<Rightarrow> 'd rootedit" where
  "editor_selection_clear e = e\<lparr>edit_selection_active := False, edit_selection_anchor := editor_cursor e,
     edit_selection_drawn := False, edit_drawn_start := 0, edit_drawn_end := 0\<rparr>"

definition editor_range_has_newline :: "'d rootedit \<Rightarrow> nat \<Rightarrow> nat \<Rightarrow> bool" where
  "editor_range_has_newline e start stop =
     (let (start, stop) = (if start > stop then (stop, start) else (start, stop));
          stop = (if stop > editor_length e then editor_length e else stop)
      in list_ex (\<lambda>i. editor_buffer e ! i = LF) [start..<stop])"

text \<open>The cells of one line of the screen that a selected range covers: first column, last column, row.\<close>

definition selection_segment :: "screen_env \<Rightarrow> 'd rootedit \<Rightarrow> nat \<Rightarrow> nat \<Rightarrow> nat \<Rightarrow> (nat \<times> nat \<times> nat) option" where
  "selection_segment E e start stop line =
     (let line_start = editor_line_start_by_number e line;
          line_end = editor_line_end_from_index e line_start;
          segment_start = (if start < line_start then line_start else start);
          segment_end = (if stop > line_end then line_end else stop)
      in if segment_start \<ge> segment_end then None
         else
           let visual_start = editor_visual_column E e line_start segment_start;
               visual_end = editor_visual_column E e line_start segment_end
           in if visual_end \<le> editor_horizontal_offset e then None
              else
                let visual_start = (if visual_start < editor_horizontal_offset e then editor_horizontal_offset e else visual_start);
                    screen_start = visual_start - editor_horizontal_offset e;
                    screen_end = visual_end - editor_horizontal_offset e;
                    columns = editor_columns e
                in if screen_start \<ge> columns then None
                   else
                     let screen_end = (if screen_end > columns then columns else screen_end)
                     in if screen_end \<le> screen_start then None
                        else Some (screen_start, screen_end, ROOTEDIT_BODY_START_ROW + (line - editor_view_line e)))"

definition editor_invert_selection_range :: "screen_env \<Rightarrow> nat \<Rightarrow> nat \<Rightarrow> 'd rootedit \<Rightarrow> 'd rootedit" where
  "editor_invert_selection_range E start stop e =
     (if start \<ge> stop \<or> \<not> display_ready (terminal_display (ed_term e)) then e
      else
        let stop = (if stop > editor_length e then editor_length e else stop);
            first_visible_line = editor_view_line e;
            last_visible_line = editor_view_line e + editor_body_rows e;
            start_line = editor_line_number_from_index e start;
            end_line = editor_line_number_from_index e stop
        in if end_line < first_visible_line \<or> start_line \<ge> last_visible_line then e
           else
             let from_line = (if start_line < first_visible_line then first_visible_line else start_line);
                 to_line = (if end_line \<ge> last_visible_line then last_visible_line - 1 else end_line)
             in fold (\<lambda>line e. case selection_segment E e start stop line of
                    None \<Rightarrow> e
                  | Some (screen_start, screen_end, screen_row) \<Rightarrow>
                      on_term (draw (Invert_rect (screen_start * ROOTEDIT_CELL_WIDTH) (screen_row * ROOTEDIT_CELL_HEIGHT)
                        ((screen_end - screen_start) * ROOTEDIT_CELL_WIDTH) ROOTEDIT_CELL_HEIGHT)) e)
                  [from_line..<to_line + 1] e)"

definition editor_selection_hide :: "screen_env \<Rightarrow> 'd rootedit \<Rightarrow> 'd rootedit" where
  "editor_selection_hide E e =
     (if \<not> edit_selection_drawn e then e
      else (on_term (draw End_update) (editor_invert_selection_range E (edit_drawn_start e) (edit_drawn_end e)
              (on_term (draw Begin_update) e)))\<lparr>edit_selection_drawn := False\<rparr>)"

definition editor_selection_change :: "screen_env \<Rightarrow> nat \<Rightarrow> nat \<Rightarrow> 'd rootedit \<Rightarrow> 'd rootedit" where
  "editor_selection_change E new_start new_end e =
     (let old_start = edit_drawn_start e; old_end = edit_drawn_end e in
      if \<not> edit_selection_drawn e then editor_invert_selection_range E new_start new_end e
      else if new_end \<le> old_start \<or> new_start \<ge> old_end then
        editor_invert_selection_range E new_start new_end (editor_invert_selection_range E old_start old_end e)
      else
        let e = (if new_start < old_start then editor_invert_selection_range E new_start old_start e
                 else if new_start > old_start then editor_invert_selection_range E old_start new_start e
                 else e)
        in if new_end > old_end then editor_invert_selection_range E old_end new_end e
           else if new_end < old_end then editor_invert_selection_range E new_end old_end e
           else e)"

definition editor_selection_show :: "screen_env \<Rightarrow> 'd rootedit \<Rightarrow> 'd rootedit" where
  "editor_selection_show E e =
     (if \<not> edit_selection_active e \<or> editor_selection_start e = editor_selection_end e then editor_selection_hide E e
      else
        let new_start = editor_selection_start e;
            new_end = editor_selection_end e
        in (on_term (draw End_update) (editor_selection_change E new_start new_end (on_term (draw Begin_update) e)))
             \<lparr>edit_drawn_start := new_start, edit_drawn_end := new_end, edit_selection_drawn := True\<rparr>)"

section \<open>The viewport\<close>

definition editor_ensure_cursor_visible :: "screen_env \<Rightarrow> 'd rootedit \<Rightarrow> bool \<times> 'd rootedit" where
  "editor_ensure_cursor_visible E e =
     (let cursor_line = editor_line_number_from_index e (editor_cursor e);
          body_rows = editor_body_rows e;
          above = cursor_line < editor_view_line e;
          e = (if above then e\<lparr>editor_view_line := cursor_line\<rparr> else e);
          below = cursor_line \<ge> editor_view_line e + body_rows;
          e = (if below then e\<lparr>editor_view_line := cursor_line - body_rows + 1\<rparr> else e);
          visual = editor_visual_column E e (editor_line_start_from_index e (editor_cursor e)) (editor_cursor e);
          columns = editor_columns e;
          before = visual < editor_horizontal_offset e;
          e = (if before then e\<lparr>editor_horizontal_offset := visual\<rparr> else e);
          behind = visual \<ge> editor_horizontal_offset e + columns;
          e = (if behind then e\<lparr>editor_horizontal_offset := visual - columns + 1\<rparr> else e)
      in (above \<or> below \<or> before \<or> behind, e))"

definition editor_place_cursor :: "screen_env \<Rightarrow> 'd rootedit \<Rightarrow> 'd rootedit" where
  "editor_place_cursor E e =
     (let line = editor_line_number_from_index e (editor_cursor e);
          line_start = editor_line_start_from_index e (editor_cursor e);
          visual = editor_visual_column E e line_start (editor_cursor e);
          x = (if visual \<ge> editor_horizontal_offset e then visual - editor_horizontal_offset e else 0);
          y = u32_add ROOTEDIT_BODY_START_ROW (u32_sub line (editor_view_line e));
          x = (if x \<ge> editor_columns e then editor_columns e - 1 else x);
          y = (if y \<ge> editor_rows e - 1 then editor_rows e - 2 else y)
      in on_term (terminal_set_cursor E x y) e)"

text \<open>The code points of a line from the horizontal offset on, as many as fit in the columns.\<close>

fun draw_codepoints :: "screen_env \<Rightarrow> nat \<Rightarrow> nat \<Rightarrow> RootCodepoint list \<Rightarrow> nat \<Rightarrow> nat \<Rightarrow> terminal \<Rightarrow> terminal" where
  "draw_codepoints E offset columns [] source_column output_column t = t"
| "draw_codepoints E offset columns (codepoint # rest) source_column output_column t =
     (let width = terminal_codepoint_cells E t codepoint in
      if source_column + width \<le> offset then draw_codepoints E offset columns rest (source_column + width) output_column t
      else if output_column + width > columns then t
      else draw_codepoints E offset columns rest (source_column + width) (output_column + width) (terminal_putcodepoint E codepoint t))"

definition editor_draw_line :: "screen_env \<Rightarrow> nat \<Rightarrow> 'd rootedit \<Rightarrow> 'd rootedit" where
  "editor_draw_line E logical_line e =
     (if logical_line < editor_view_line e then e
      else
        let screen_line = logical_line - editor_view_line e
        in if screen_line \<ge> editor_body_rows e then e
           else
             let screen_row = ROOTEDIT_BODY_START_ROW + screen_line;
                 e = editor_clear_row E screen_row e;
                 line_start = editor_line_start_by_number e logical_line;
                 line_end = editor_line_end_from_index e line_start
             in on_term (draw_codepoints E (editor_horizontal_offset e) (editor_columns e)
                  (map ((!) (editor_buffer e)) [line_start..<line_end]) 0 0)
                  (on_term (terminal_set_cursor E 0 screen_row) e))"

definition editor_draw_document :: "screen_env \<Rightarrow> 'd rootedit \<Rightarrow> 'd rootedit" where
  "editor_draw_document E e = fold (\<lambda>i e. editor_draw_line E (editor_view_line e + i) e) [0..<editor_body_rows e] e"

definition text_bytes :: "string \<Rightarrow> u8 list option" where
  "text_bytes s = Some (map of_char s)"

definition editor_draw_header :: "screen_env \<Rightarrow> 'd rootedit \<Rightarrow> 'd rootedit" where
  "editor_draw_header E e =
     (let e = editor_clear_row E 0 e;
          e = on_term (terminal_print E (text_bytes ''RootEdit - '')) e;
          e = on_term (terminal_print E (text_bytes (editor_path e))) e;
          e = editor_clear_row E 1 e;
          e = on_term (terminal_print E (text_bytes ''Ctrl+S Save | Ctrl+Z Undo | Ctrl+C/X/V | Ctrl+Q Exit'')) e;
          e = editor_clear_row E 2 e
      in on_term (terminal_putchar E 0x2D ^^ editor_columns e) e)"

definition editor_draw_status :: "screen_env \<Rightarrow> 'd rootedit \<Rightarrow> 'd rootedit" where
  "editor_draw_status E e =
     (let status = (if editor_save_error e then 2 else if editor_dirty e then 1 else 0) in
      if status = editor_status_cache e then e
      else
        let e = e\<lparr>editor_status_cache := status\<rparr>;
            row = editor_rows e - 1;
            e = on_term (terminal_set_cursor E 0 row) (editor_clear_row E row e)
        in on_term (terminal_print E (text_bytes (if editor_save_error e then ''[SAVE ERROR]''
             else if editor_dirty e then ''[MODIFIED]'' else ''[SAVED]''))) e)"

definition editor_redraw_full :: "screen_env \<Rightarrow> 'd rootedit \<Rightarrow> 'd rootedit" where
  "editor_redraw_full E e =
     (let e = e\<lparr>edit_selection_drawn := False, edit_drawn_start := 0, edit_drawn_end := 0\<rparr>;
          e = on_term (terminal_begin_batch E) e;
          e = editor_draw_status E (editor_draw_document E e);
          e = on_term (terminal_end_batch E) e
      in editor_place_cursor E (editor_selection_show E e))"

definition editor_redraw_current_line :: "screen_env \<Rightarrow> 'd rootedit \<Rightarrow> 'd rootedit" where
  "editor_redraw_current_line E e =
     (let e = on_term (terminal_begin_batch E) (editor_selection_hide E e);
          e = editor_draw_status E (editor_draw_line E (editor_line_number_from_index e (editor_cursor e)) e);
          e = on_term (terminal_end_batch E) e
      in editor_place_cursor E (editor_selection_show E e))"

definition editor_after_cursor_move :: "screen_env \<Rightarrow> 'd rootedit \<Rightarrow> 'd rootedit" where
  "editor_after_cursor_move E e =
     (case editor_ensure_cursor_visible E e of (viewport_changed, e) \<Rightarrow>
        if viewport_changed then editor_redraw_full E e else editor_place_cursor E e)"

section \<open>Editing\<close>

text \<open>The loop \<open>for (i = start; i + removed < len; i++) buffer[i] = buffer[i + removed]\<close> and its mirror image.\<close>

definition shift_left :: "nat \<Rightarrow> nat \<Rightarrow> nat \<Rightarrow> 'a list \<Rightarrow> 'a list" where
  "shift_left start removed len buffer = fold (\<lambda>i buffer. buffer[i := buffer ! (i + removed)]) [start..<len - removed] buffer"

definition shift_right :: "nat \<Rightarrow> nat \<Rightarrow> nat \<Rightarrow> 'a list \<Rightarrow> 'a list" where
  "shift_right start added len buffer =
     fold (\<lambda>i buffer. buffer[i + added - 1 := buffer ! (i - 1)]) (rev [start + 1..<len + 1]) buffer"

definition editor_delete_selection :: "screen_env \<Rightarrow> 'd rootedit \<Rightarrow> bool \<times> 'd rootedit" where
  "editor_delete_selection E e =
     (if \<not> edit_selection_active e then (False, e)
      else
        let start = editor_selection_start e;
            stop = editor_selection_end e
        in if start = stop then (False, editor_selection_clear e)
           else
             let e = editor_selection_hide E e;
                 structural = editor_range_has_newline e start stop;
                 removed = stop - start;
                 e = e\<lparr>editor_buffer := shift_left start removed (editor_length e) (editor_buffer e),
                       editor_length := u32_sub (editor_length e) removed, editor_cursor := start, editor_dirty := True\<rparr>
             in (structural, editor_selection_clear e))"

definition editor_insert :: "screen_env \<Rightarrow> RootCodepoint \<Rightarrow> 'd rootedit \<Rightarrow> bool \<times> 'd rootedit" where
  "editor_insert E codepoint e =
     (case (if edit_selection_active e then editor_delete_selection E e else (False, e)) of (structural, e) \<Rightarrow>
        if editor_length e \<ge> ROOTEDIT_MAX_CODEPOINTS then (structural, e)
        else
          let e = e\<lparr>editor_buffer := (shift_right (editor_cursor e) 1 (editor_length e) (editor_buffer e))[editor_cursor e := codepoint],
                    editor_cursor := editor_cursor e + 1, editor_length := editor_length e + 1, editor_dirty := True, editor_save_error := False\<rparr>
          in (if codepoint = LF then True else structural, e))"

definition editor_backspace :: "screen_env \<Rightarrow> 'd rootedit \<Rightarrow> bool \<times> 'd rootedit" where
  "editor_backspace E e =
     (if edit_selection_active e then editor_delete_selection E e
      else if editor_cursor e = 0 then (False, e)
      else
        let removed = editor_buffer e ! (editor_cursor e - 1)
        in (removed = LF,
            e\<lparr>editor_buffer := shift_left (editor_cursor e - 1) 1 (editor_length e) (editor_buffer e),
              editor_cursor := editor_cursor e - 1, editor_length := u32_sub (editor_length e) 1, editor_dirty := True, editor_save_error := False\<rparr>))"

definition editor_delete :: "screen_env \<Rightarrow> 'd rootedit \<Rightarrow> bool \<times> 'd rootedit" where
  "editor_delete E e =
     (if edit_selection_active e then editor_delete_selection E e
      else if editor_cursor e \<ge> editor_length e then (False, e)
      else
        let removed = editor_buffer e ! editor_cursor e
        in (removed = LF,
            e\<lparr>editor_buffer := shift_left (editor_cursor e) 1 (editor_length e) (editor_buffer e),
              editor_length := editor_length e - 1, editor_dirty := True, editor_save_error := False\<rparr>))"

definition editor_copy_selection :: "'d rootedit \<Rightarrow> 'd rootedit" where
  "editor_copy_selection e =
     (if \<not> edit_selection_active e then e
      else
        let start = editor_selection_start e;
            stop = editor_selection_end e
        in on_term (\<lambda>t. t\<lparr>terminal_clipboard :=
             snd (rootclipboard_set (Some (drop start (editor_buffer e))) (stop - start) (terminal_clipboard t))\<rparr>) e)"

definition editor_cut_selection :: "screen_env \<Rightarrow> 'd rootedit \<Rightarrow> bool \<times> 'd rootedit" where
  "editor_cut_selection E e =
     (if \<not> edit_selection_active e then (False, e) else editor_delete_selection E (editor_copy_selection e))"

definition editor_paste :: "screen_env \<Rightarrow> 'd rootedit \<Rightarrow> bool \<times> 'd rootedit" where
  "editor_paste E e =
     (let clip = clipboard_data (terminal_clipboard (ed_term e));
          clip_length = clipboard_length (terminal_clipboard (ed_term e))
      in if clip_length = 0 then (False, e)
         else case (if edit_selection_active e then editor_delete_selection E e else (False, e)) of (structural, e) \<Rightarrow>
           if u32_add (editor_length e) clip_length > ROOTEDIT_MAX_CODEPOINTS then (structural, e)
           else
             let buffer = shift_right (editor_cursor e) clip_length (editor_length e) (editor_buffer e);
                 buffer = fold (\<lambda>i buffer. buffer[editor_cursor e + i := clip ! i]) [0..<clip_length] buffer
             in (structural \<or> list_ex (\<lambda>i. clip ! i = LF) [0..<clip_length],
                 e\<lparr>editor_buffer := buffer, editor_cursor := editor_cursor e + clip_length,
                   editor_length := editor_length e + clip_length, editor_dirty := True, editor_save_error := False\<rparr>))"

section \<open>Moving\<close>

definition editor_move_up :: "'d rootedit \<Rightarrow> 'd rootedit" where
  "editor_move_up e =
     (let current_start = editor_line_start_from_index e (editor_cursor e) in
      if current_start = 0 then e
      else
        let column = editor_codepoint_column e (editor_cursor e);
            previous_end = current_start - 1;
            previous_start = editor_line_start_from_index e previous_end;
            previous_length = previous_end - previous_start;
            column = (if column > previous_length then previous_length else column)
        in e\<lparr>editor_cursor := previous_start + column\<rparr>)"

definition editor_move_down :: "'d rootedit \<Rightarrow> 'd rootedit" where
  "editor_move_down e =
     (let current_end = editor_line_end_from_index e (editor_cursor e) in
      if current_end \<ge> editor_length e then e
      else
        let column = editor_codepoint_column e (editor_cursor e);
            next_start = current_end + 1;
            next_end = editor_line_end_from_index e next_start;
            next_length = next_end - next_start;
            column = (if column > next_length then next_length else column)
        in e\<lparr>editor_cursor := next_start + column\<rparr>)"

fun position_scan :: "(RootCodepoint \<Rightarrow> nat) \<Rightarrow> nat \<Rightarrow> RootCodepoint list \<Rightarrow> nat \<Rightarrow> nat \<Rightarrow> nat" where
  "position_scan width target [] visual position = position"
| "position_scan width target (c # cs) visual position =
     (if target < visual + width c then position else position_scan width target cs (visual + width c) (position + 1))"

definition editor_index_from_mouse :: "screen_env \<Rightarrow> 'd rootedit \<Rightarrow> int \<Rightarrow> int \<Rightarrow> nat option" where
  "editor_index_from_mouse E e px py =
     (case terminal_pixel_to_cell (ed_term e) px py of
        None \<Rightarrow> None
      | Some (column, row) \<Rightarrow>
          if row < ROOTEDIT_BODY_START_ROW \<or> row \<ge> ROOTEDIT_BODY_START_ROW + editor_body_rows e then None
          else
            let logical_line = editor_view_line e + (row - ROOTEDIT_BODY_START_ROW);
                line_start = editor_line_start_by_number e logical_line;
                line_end = editor_line_end_from_index e line_start;
                target = editor_horizontal_offset e + column
            in Some (position_scan (terminal_codepoint_cells E (ed_term e)) target
                 (map ((!) (editor_buffer e)) [line_start..<line_end]) 0 line_start))"

definition editor_word_character :: "RootCodepoint \<Rightarrow> bool" where
  "editor_word_character c \<longleftrightarrow>
     0x61 \<le> c \<and> c \<le> 0x7A \<or> 0x41 \<le> c \<and> c \<le> 0x5A \<or> 0x30 \<le> c \<and> c \<le> 0x39 \<or> c = 0x5F \<or> c \<ge> 0x80"

fun edit_word_start :: "RootCodepoint list \<Rightarrow> bool \<Rightarrow> nat \<Rightarrow> nat" where
  "edit_word_start buffer word 0 = 0"
| "edit_word_start buffer word (Suc i) =
     (if buffer ! i = LF then Suc i
      else if editor_word_character (buffer ! i) \<noteq> word then Suc i
      else edit_word_start buffer word i)"

function edit_word_end :: "RootCodepoint list \<Rightarrow> nat \<Rightarrow> bool \<Rightarrow> nat \<Rightarrow> nat" where
  "edit_word_end buffer len word i =
     (if i < len then
        (if buffer ! i = LF then i else if editor_word_character (buffer ! i) \<noteq> word then i else edit_word_end buffer len word (i + 1))
      else i)"
  by pat_completeness auto
termination by (relation "measure (\<lambda>(_, len, _, i). len - i)") auto

declare edit_word_end.simps [simp del]

definition editor_select_word_from_mouse :: "screen_env \<Rightarrow> int \<Rightarrow> int \<Rightarrow> 'd rootedit \<Rightarrow> bool \<times> 'd rootedit" where
  "editor_select_word_from_mouse E px py e =
     (case editor_index_from_mouse E e px py of
        None \<Rightarrow> (False, e)
      | Some position \<Rightarrow>
          if position \<ge> editor_length e then (False, e)
          else
            let clicked = editor_buffer e ! position
            in if clicked = LF then (False, e)
               else
                 let e = editor_selection_hide E e;
                     word = editor_word_character clicked;
                     start = edit_word_start (editor_buffer e) word position;
                     stop = edit_word_end (editor_buffer e) (editor_length e) word (position + 1);
                     e = e\<lparr>edit_selection_anchor := start, editor_cursor := stop, edit_selection_active := (stop > start), mouse_selecting := False\<rparr>;
                     e = snd (editor_ensure_cursor_visible E e);
                     e = editor_break_undo_group (editor_place_cursor E (editor_selection_show E e))
                 in (edit_selection_active e, e))"

section \<open>Loading and saving\<close>

fun load_codepoints :: "nat \<Rightarrow> u8 list \<Rightarrow> RootCodepoint list" where
  "load_codepoints 0 bytes = []"
| "load_codepoints (Suc room) bytes =
     (if bytes = [] then []
      else case root_utf8_decode bytes of
             None \<Rightarrow> ROOT_UNICODE_REPLACEMENT # load_codepoints room (drop 1 bytes)
           | Some (codepoint, consumed) \<Rightarrow>
               if consumed = 0 then ROOT_UNICODE_REPLACEMENT # load_codepoints room (drop 1 bytes)
               else codepoint # load_codepoints room (drop consumed bytes))"

definition editor_load :: "string option \<Rightarrow> 'd rootedit \<Rightarrow> FsResult \<times> 'd rootedit" where
  "editor_load path e =
     (case filesystem_read_file (ed_fs e) path (ROOTEDIT_MAX_FILE_BYTES + 1) of ((result, bytes), st) \<Rightarrow>
        let e = e\<lparr>ed_fs := st\<rparr> in
        if result \<noteq> FS_RESULT_OK then (result, e)
        else
          let codepoints = load_codepoints ROOTEDIT_MAX_CODEPOINTS bytes
          in (FS_RESULT_OK,
              e\<lparr>editor_buffer := codepoints @ drop (length codepoints) (editor_buffer e), editor_length := length codepoints,
                editor_cursor := length codepoints, editor_dirty := False, editor_save_error := False, editor_view_line := 0,
                editor_horizontal_offset := 0, editor_status_cache := - 1, edit_selection_active := False, edit_selection_drawn := False,
                mouse_selecting := False, undo_ring := (undo_ring e)\<lparr>ring_start := 0, ring_count := 0\<rparr>,
                redo_ring := (redo_ring e)\<lparr>ring_start := 0, ring_count := 0\<rparr>, undo_group := ROOTEDIT_GROUP_NONE\<rparr>))"

text \<open>The bytes of the text, or nothing when they exceed the limit.\<close>

fun save_bytes :: "RootCodepoint list \<Rightarrow> u8 list \<Rightarrow> u8 list option" where
  "save_bytes [] out = Some out"
| "save_bytes (c # cs) out =
     (let encoded = root_utf8_encode c
      in if length out + length encoded > ROOTEDIT_MAX_FILE_BYTES then None else save_bytes cs (out @ encoded))"

definition editor_save :: "'d rootedit \<Rightarrow> (FsResult \<times> 'd rootedit) option" where
  "editor_save e =
     (case save_bytes (map ((!) (editor_buffer e)) [0..<editor_length e]) [] of
        None \<Rightarrow> Some (FS_RESULT_FILE_TOO_LARGE, e\<lparr>editor_save_error := True\<rparr>)
      | Some bytes \<Rightarrow>
          (case filesystem_write_file (ed_fs e) (Some (editor_path e)) (Some bytes) (length bytes) of
             None \<Rightarrow> None
           | Some (result, st) \<Rightarrow>
               let e = e\<lparr>ed_fs := st\<rparr>
               in Some (result, if result = FS_RESULT_OK then e\<lparr>editor_dirty := False, editor_save_error := False\<rparr>
                                else e\<lparr>editor_save_error := True\<rparr>)))"

end
