(* ===== verification/Root_Editor_Loop.thy ===== *)
theory Root_Editor_Loop
  imports Root_Editor
begin

text \<open>
  The event loop of the text editor (\<open>rootedit_open\<close> in \<open>source/editor/rootedit.c\<close>): one definition per branch of the loop,
  \<open>rootedit_event\<close> for the turn and \<open>rootedit_open\<close> for a session over the events that arrive.
\<close>

section \<open>Mouse\<close>

definition edit_mouse_down :: "screen_env \<Rightarrow> RootInputEvent \<Rightarrow> 'd rootedit \<Rightarrow> 'd rootedit" where
  "edit_mouse_down E event e =
     (case editor_index_from_mouse E e (ev_mouse_x event) (ev_mouse_y event) of
        None \<Rightarrow> e
      | Some index \<Rightarrow>
          let e = (editor_selection_hide E e)\<lparr>editor_cursor := index, edit_selection_anchor := index,
                    edit_selection_active := False, mouse_selecting := True\<rparr>
          in editor_after_cursor_move E (editor_break_undo_group e))"

text \<open>Showing the selection after the cursor moved; used for a drag and for the shifted arrows.\<close>

definition edit_show_selection :: "screen_env \<Rightarrow> 'd rootedit \<Rightarrow> 'd rootedit" where
  "edit_show_selection E e =
     (case editor_ensure_cursor_visible E e of (viewport_changed, e) \<Rightarrow>
        if viewport_changed then editor_redraw_full E e else editor_place_cursor E (editor_selection_show E e))"

definition edit_mouse_drag :: "screen_env \<Rightarrow> RootInputEvent \<Rightarrow> 'd rootedit \<Rightarrow> 'd rootedit" where
  "edit_mouse_drag E event e =
     (case editor_index_from_mouse E e (ev_mouse_x event) (ev_mouse_y event) of
        None \<Rightarrow> e
      | Some index \<Rightarrow>
          edit_show_selection E (e\<lparr>editor_cursor := index, edit_selection_active := (index \<noteq> edit_selection_anchor e)\<rparr>))"

section \<open>Changes of the text\<close>

text \<open>What follows an edit: make the cursor visible and draw either everything or the current line.\<close>

definition edit_redraw :: "screen_env \<Rightarrow> bool \<Rightarrow> 'd rootedit \<Rightarrow> 'd rootedit" where
  "edit_redraw E structural e =
     (case editor_ensure_cursor_visible E e of (viewport_changed, e) \<Rightarrow>
        if structural \<or> viewport_changed then editor_redraw_full E e else editor_redraw_current_line E e)"

definition edit_apply :: "screen_env \<Rightarrow> ('d rootedit \<Rightarrow> bool \<times> 'd rootedit) \<Rightarrow> 'd rootedit \<Rightarrow> 'd rootedit option" where
  "edit_apply E change e =
     (case change e of (structural, e) \<Rightarrow> if edit_fits e then Some (edit_redraw E structural e) else None)"

definition edit_save_key :: "screen_env \<Rightarrow> 'd rootedit \<Rightarrow> 'd rootedit option" where
  "edit_save_key E e =
     (case editor_save (editor_break_undo_group e) of
        None \<Rightarrow> None
      | Some (result, e) \<Rightarrow> Some (editor_place_cursor E
          (on_term (terminal_end_batch E) (editor_draw_status E (on_term (terminal_begin_batch E) e)))))"

definition edit_select_all_key :: "screen_env \<Rightarrow> 'd rootedit \<Rightarrow> 'd rootedit" where
  "edit_select_all_key E e =
     (let e = editor_selection_hide E (editor_break_undo_group e);
          e = e\<lparr>edit_selection_anchor := 0, editor_cursor := editor_length e, edit_selection_active := (editor_length e \<noteq> 0)\<rparr>
      in editor_redraw_full E (snd (editor_ensure_cursor_visible E e)))"

definition edit_cut_key :: "screen_env \<Rightarrow> 'd rootedit \<Rightarrow> 'd rootedit option" where
  "edit_cut_key E e =
     (let e = editor_break_undo_group e in
      map_option editor_break_undo_group
        (if edit_selection_active e then edit_apply E (editor_cut_selection E) (editor_record_undo ROOTEDIT_GROUP_NONE True e)
         else Some e))"

definition edit_paste_key :: "screen_env \<Rightarrow> 'd rootedit \<Rightarrow> 'd rootedit option" where
  "edit_paste_key E e =
     (let e = editor_break_undo_group e in
      map_option editor_break_undo_group
        (if \<not> rootclipboard_empty (terminal_clipboard (ed_term e))
         then edit_apply E (editor_paste E) (editor_record_undo ROOTEDIT_GROUP_NONE True e)
         else Some e))"

definition edit_undo_key :: "screen_env \<Rightarrow> 'd rootedit \<Rightarrow> 'd rootedit" where
  "edit_undo_key E e =
     (case editor_undo (editor_selection_hide E e) of (undone, e) \<Rightarrow>
        if undone then editor_redraw_full E (snd (editor_ensure_cursor_visible E e)) else e)"

definition edit_redo_key :: "screen_env \<Rightarrow> 'd rootedit \<Rightarrow> 'd rootedit" where
  "edit_redo_key E e =
     (case editor_redo (editor_selection_hide E e) of (redone, e) \<Rightarrow>
        if redone then editor_redraw_full E (snd (editor_ensure_cursor_visible E e)) else e)"

text \<open>Backspace, Delete and a typed character: grouped unless they replace a selection.\<close>

definition edit_grouped :: "screen_env \<Rightarrow> RootEditUndoGroup \<Rightarrow> ('d rootedit \<Rightarrow> bool \<times> 'd rootedit) \<Rightarrow> 'd rootedit \<Rightarrow> 'd rootedit option" where
  "edit_grouped E kind change e =
     (let had_selection = edit_selection_active e in
      map_option (if had_selection then editor_break_undo_group else id)
        (edit_apply E change (editor_record_undo kind had_selection e)))"

definition edit_enter_key :: "screen_env \<Rightarrow> 'd rootedit \<Rightarrow> 'd rootedit option" where
  "edit_enter_key E e =
     (let e = editor_record_undo ROOTEDIT_GROUP_NONE True (editor_break_undo_group e);
          e = editor_break_undo_group (snd (editor_insert E LF e))
      in if edit_fits e then Some (editor_redraw_full E (snd (editor_ensure_cursor_visible E e))) else None)"

definition edit_tab_key :: "screen_env \<Rightarrow> 'd rootedit \<Rightarrow> 'd rootedit option" where
  "edit_tab_key E e =
     (let e = editor_record_undo ROOTEDIT_GROUP_NONE True (editor_break_undo_group e);
          e = editor_break_undo_group (((\<lambda>e. snd (editor_insert E BLANK e)) ^^ 4) e)
      in if edit_fits e then Some (edit_redraw E False e) else None)"

section \<open>Cursor keys\<close>

definition is_arrow :: "RootKey \<Rightarrow> bool" where
  "is_arrow key \<longleftrightarrow> key = ROOT_KEY_LEFT \<or> key = ROOT_KEY_RIGHT \<or> key = ROOT_KEY_UP \<or> key = ROOT_KEY_DOWN"

definition edit_move :: "RootKey \<Rightarrow> 'd rootedit \<Rightarrow> 'd rootedit" where
  "edit_move key e =
     (if key = ROOT_KEY_LEFT then (if editor_cursor e > 0 then e\<lparr>editor_cursor := editor_cursor e - 1\<rparr> else e)
      else if key = ROOT_KEY_RIGHT then (if editor_cursor e < editor_length e then e\<lparr>editor_cursor := editor_cursor e + 1\<rparr> else e)
      else if key = ROOT_KEY_UP then editor_move_up e
      else if key = ROOT_KEY_DOWN then editor_move_down e
      else if key = ROOT_KEY_HOME then e\<lparr>editor_cursor := editor_line_start_from_index e (editor_cursor e)\<rparr>
      else e\<lparr>editor_cursor := editor_line_end_from_index e (editor_cursor e)\<rparr>)"

definition edit_shift_arrow :: "screen_env \<Rightarrow> RootKey \<Rightarrow> 'd rootedit \<Rightarrow> 'd rootedit" where
  "edit_shift_arrow E key e =
     (let e = editor_break_undo_group e;
          e = (if \<not> edit_selection_active e then e\<lparr>edit_selection_anchor := editor_cursor e\<rparr> else e);
          e = edit_move key e
      in edit_show_selection E (e\<lparr>edit_selection_active := (editor_cursor e \<noteq> edit_selection_anchor e)\<rparr>))"

definition edit_cursor_key :: "screen_env \<Rightarrow> RootKey \<Rightarrow> 'd rootedit \<Rightarrow> 'd rootedit" where
  "edit_cursor_key E key e =
     editor_after_cursor_move E (edit_move key (editor_selection_clear (editor_selection_hide E (editor_break_undo_group e))))"

section \<open>The loop\<close>

definition edit_key :: "screen_env \<Rightarrow> RootInputEvent \<Rightarrow> 'd rootedit \<Rightarrow> 'd rootedit option" where
  "edit_key E event e =
     (let key = ev_key event in
      if ev_ctrl event \<or> (ev_alt event \<and> \<not> ev_altgr event) then Some (editor_break_undo_group e)
      else if ev_shift event \<and> is_arrow key then Some (edit_shift_arrow E key e)
      else if is_arrow key \<or> key = ROOT_KEY_HOME \<or> key = ROOT_KEY_END then Some (edit_cursor_key E key e)
      else if key = ROOT_KEY_BACKSPACE then edit_grouped E ROOTEDIT_GROUP_BACKSPACE (editor_backspace E) e
      else if key = ROOT_KEY_DELETE then edit_grouped E ROOTEDIT_GROUP_DELETE (editor_delete E) e
      else if key = ROOT_KEY_ENTER \<or> key = ROOT_KEY_KP_ENTER then edit_enter_key E e
      else if key = ROOT_KEY_TAB then edit_tab_key E e
      else if roottext_should_insert event then edit_grouped E ROOTEDIT_GROUP_INSERT (editor_insert E (ev_codepoint event)) e
      else Some e)"

definition edit_key_down :: "screen_env \<Rightarrow> RootInputEvent \<Rightarrow> 'd rootedit \<Rightarrow> 'd rootedit option" where
  "edit_key_down E event e =
     (let action = roottext_editor_action event in
      if action = ROOT_TEXT_ACTION_SAVE then edit_save_key E e
      else if action = ROOT_TEXT_ACTION_SELECT_ALL then Some (edit_select_all_key E e)
      else if action = ROOT_TEXT_ACTION_COPY then Some (editor_copy_selection (editor_break_undo_group e))
      else if action = ROOT_TEXT_ACTION_CUT then edit_cut_key E e
      else if action = ROOT_TEXT_ACTION_PASTE then edit_paste_key E e
      else if action = ROOT_TEXT_ACTION_UNDO then Some (edit_undo_key E e)
      else if action = ROOT_TEXT_ACTION_REDO then Some (edit_redo_key E e)
      else edit_key E event e)"

text \<open>One turn: whether the editor is still running, and its state.\<close>

definition rootedit_event :: "screen_env \<Rightarrow> RootInputEvent \<Rightarrow> 'd rootedit \<Rightarrow> (bool \<times> 'd rootedit) option" where
  "rootedit_event E event e =
     (if ev_type event = ROOT_INPUT_MOUSE_DOUBLE_CLICK \<and> ev_button event = ROOT_MOUSE_LEFT then
        Some (True, snd (editor_select_word_from_mouse E (ev_mouse_x event) (ev_mouse_y event) e))
      else if ev_type event = ROOT_INPUT_MOUSE_BUTTON_DOWN \<and> ev_button event = ROOT_MOUSE_LEFT then
        Some (True, edit_mouse_down E event e)
      else if ev_type event = ROOT_INPUT_MOUSE_DRAG \<and> mouse_selecting e then Some (True, edit_mouse_drag E event e)
      else if ev_type event = ROOT_INPUT_MOUSE_BUTTON_UP \<and> ev_button event = ROOT_MOUSE_LEFT then
        Some (True, e\<lparr>mouse_selecting := False\<rparr>)
      else if ev_type event \<noteq> ROOT_INPUT_KEY_DOWN then Some (True, e)
      else if roottext_editor_action event = ROOT_TEXT_ACTION_EXIT then
        Some (False, editor_selection_hide E (editor_break_undo_group e))
      else map_option (Pair True) (edit_key_down E event e))"

fun rootedit_loop :: "screen_env \<Rightarrow> RootInputEvent list \<Rightarrow> 'd rootedit \<Rightarrow> (bool \<times> 'd rootedit) option" where
  "rootedit_loop E [] e = Some (True, e)"
| "rootedit_loop E (event # events) e =
     (case rootedit_event E event e of
        None \<Rightarrow> None
      | Some (running, e) \<Rightarrow> if running then rootedit_loop E events e else Some (False, e))"

definition rootedit_start :: "screen_env \<Rightarrow> string option \<Rightarrow> 'd rootedit \<Rightarrow> FsResult \<times> 'd rootedit" where
  "rootedit_start E path e =
     (case path of
        None \<Rightarrow> (FS_RESULT_INVALID_PATH, e)
      | Some s \<Rightarrow>
          if chead s = NUL then (FS_RESULT_INVALID_PATH, e)
          else case root_strlcpy (editor_path e) s ROOT_PATH_MAX of (copy, len) \<Rightarrow>
            let e = e\<lparr>editor_path := copy\<rparr> in
            if len \<ge> ROOT_PATH_MAX then (FS_RESULT_INVALID_PATH, e)
            else case editor_load path e of (load_result, e) \<Rightarrow>
              if load_result \<noteq> FS_RESULT_OK then (load_result, e)
              else
                let e = on_term (terminal_begin_batch E) (on_term (terminal_clear E) e);
                    e = editor_draw_status E (editor_draw_document E (editor_draw_header E e))
                in (FS_RESULT_OK, editor_place_cursor E (on_term (terminal_end_batch E) e)))"

text \<open>A session over the events that arrive; the result is \<open>None\<close> while the editor still waits for the next one.\<close>

definition rootedit_open :: "screen_env \<Rightarrow> string option \<Rightarrow> RootInputEvent list \<Rightarrow> 'd rootedit \<Rightarrow> (FsResult option \<times> 'd rootedit) option" where
  "rootedit_open E path events e =
     (case rootedit_start E path e of (result, e) \<Rightarrow>
        if result \<noteq> FS_RESULT_OK then Some (Some result, e)
        else case rootedit_loop E events e of
               None \<Rightarrow> None
             | Some (True, e) \<Rightarrow> Some (None, e)
             | Some (False, e) \<Rightarrow> Some (Some FS_RESULT_OK, on_term (terminal_clear E) e))"

end
