(* ===== verification/Root_Editor_Screen.thy ===== *)
theory Root_Editor_Screen
  imports Root_Editor_Loop Root_Terminal_Safety
begin

text \<open>
  What the drawing functions of the editor leave alone: everything but the view, the drawn selection and the cells of the
  terminal (\<open>doc_of\<close>), and the terminal's own invariant and geometry.
\<close>

section \<open>The terminal\<close>

definition scr_of :: "terminal \<Rightarrow> clipboard \<times> nat \<times> nat \<times> bool" where
  "scr_of t = (terminal_clipboard t, terminal_cols t, terminal_rows t, terminal_graphics t)"

lemma scr_core: "core_of t' = core_of t \<Longrightarrow> scr_of t' = scr_of t"
  by (simp add: core_of_def text_of_def scr_of_def)

lemma scr_quiet: "quiet t t' \<Longrightarrow> scr_of t' = scr_of t"
  by (simp add: quiet_def text_of_def scr_of_def)

lemma scr_fold: "(\<And>x t. scr_of (f x t) = scr_of t) \<Longrightarrow> scr_of (fold f xs t) = scr_of t"
  by (induction xs arbitrary: t) auto

lemma scr_pow: "(\<And>t. scr_of (f t) = scr_of t) \<Longrightarrow> scr_of ((f ^^ n) t) = scr_of t"
  by (induction n) auto

lemma scr_updates [simp]:
  "scr_of (t\<lparr>terminal_row := r\<rparr>) = scr_of t" "scr_of (t\<lparr>terminal_col := r\<rparr>) = scr_of t" "scr_of (t\<lparr>terminal_cells := c\<rparr>) = scr_of t"
  "scr_of (t\<lparr>scrollback := c\<rparr>) = scr_of t" "scr_of (t\<lparr>scrollback_head := n\<rparr>) = scr_of t" "scr_of (t\<lparr>scrollback_count := n\<rparr>) = scr_of t"
  "scr_of (t\<lparr>scrollback_view_offset := n\<rparr>) = scr_of t" "scr_of (t\<lparr>terminal_full_redraw_pending := b\<rparr>) = scr_of t"
  "scr_of (t\<lparr>terminal_explicit_batch_depth := n\<rparr>) = scr_of t" "scr_of (t\<lparr>terminal_batch_output_count := n\<rparr>) = scr_of t"
  "scr_of (t\<lparr>terminal_batch_defer_threshold := n\<rparr>) = scr_of t" "scr_of (t\<lparr>vga_memory := m\<rparr>) = scr_of t"
  "scr_of (set_cell row col v t) = scr_of t"
  by (simp_all add: scr_of_def set_cell_def)

lemma scr_drawing [simp]:
  "scr_of (draw op t) = scr_of t" "scr_of (graphics_render_live_cell E c r t) = scr_of t" "scr_of (graphics_clear_cell c r t) = scr_of t"
  "scr_of (graphics_draw_glyph E cp c r t) = scr_of t" "scr_of (graphics_redraw_view E t) = scr_of t" "scr_of (vga_put_at x c r t) = scr_of t"
  "scr_of (count_output t) = scr_of t" "scr_of (terminal_end_update t) = scr_of t"
  by (rule scr_core; simp)+

lemma scr_begin [simp]: "scr_of (terminal_begin_update E b t) = scr_of t"
  by (rule scr_quiet, rule quiet_begin_update)

lemma scr_scroll [simp]: "scr_of (terminal_scroll t) = scr_of t"
  by (simp add: terminal_scroll_def Let_def scrollback_push_top_row_def scr_core [OF vga_scroll_core])

lemma scr_next_row [simp]: "scr_of (next_row t) = scr_of t"
  by (simp add: next_row_def)

lemma scr_put [simp]: "scr_of (put_untabbed E c t) = scr_of t"
proof -
  have iff: "scr_of (if b then x else y) = scr_of u" if "scr_of x = scr_of u" "scr_of y = scr_of u" for b x y u
    using that by simp
  have "scr_of (put_graphics E c t) = scr_of t" for t
  proof (cases "graphics_get_glyph E c")
    case (Some g)
    show ?thesis unfolding put_graphics_def Some option.case Let_def
      by (simp only: if_distrib [where f = scr_of] scr_next_row scr_updates scr_drawing if_cancel)
  qed (simp add: put_graphics_def)
  then show ?thesis by (simp add: put_untabbed_def Let_def put_vga_def put_backspace_def)
qed

lemma scr_put_internal [simp]: "scr_of (terminal_putcodepoint_internal E c t) = scr_of t"
  by (simp add: terminal_putcodepoint_internal_def Let_def scr_pow)

lemma scr_ops [simp]:
  "scr_of (terminal_putcodepoint E c t) = scr_of t" "scr_of (terminal_putchar E b t) = scr_of t" "scr_of (terminal_print E txt t) = scr_of t"
  "scr_of (terminal_set_cursor E x y t) = scr_of t" "scr_of (terminal_clear_row E y t) = scr_of t" "scr_of (terminal_clear E t) = scr_of t"
  "scr_of (terminal_begin_batch E t) = scr_of t" "scr_of (terminal_end_batch E t) = scr_of t"
  by (simp_all add: terminal_putcodepoint_def terminal_putchar_def terminal_print_def scr_fold terminal_set_cursor_def
      terminal_clear_row_def terminal_clear_def terminal_begin_batch_def terminal_end_batch_def Let_def split: option.split)

text \<open>A step of the editor on the terminal: the invariant, the clipboard and the geometry stay.\<close>

definition term_step :: "(terminal \<Rightarrow> terminal) \<Rightarrow> bool" where
  "term_step f \<longleftrightarrow> (\<forall>t. scr_of (f t) = scr_of t \<and> (term_ok t \<longrightarrow> term_ok (f t)))"

lemma putcodepoint_ok: "term_ok t \<Longrightarrow> term_ok (terminal_putcodepoint E c t)"
  by (simp add: terminal_putcodepoint_def put_internal_ok begin_ok end_ok)

lemma putchar_ok: "term_ok t \<Longrightarrow> term_ok (terminal_putchar E b t)"
  by (simp add: terminal_putchar_def putcodepoint_ok)

lemma term_step_draw_codepoints: "term_step (draw_codepoints E off cols cs a b)"
proof -
  have "scr_of (draw_codepoints E off cols cs a b t) = scr_of t \<and> (term_ok t \<longrightarrow> term_ok (draw_codepoints E off cols cs a b t))" for t
    by (induction E off cols cs a b t rule: draw_codepoints.induct) (auto simp: Let_def putcodepoint_ok)
  then show ?thesis by (simp add: term_step_def)
qed

lemma term_step_pow: "term_step f \<Longrightarrow> term_step (f ^^ n)"
  by (induction n) (auto simp: term_step_def)

lemma term_steps [simp]:
  "term_step (draw op)" "term_step (terminal_putchar E c)" "term_step (terminal_print E txt)" "term_step (terminal_set_cursor E x y)"
  "term_step (terminal_clear E)" "term_step (terminal_begin_batch E)" "term_step (terminal_end_batch E)"
  "term_step (\<lambda>t. terminal_set_cursor E x y (terminal_clear_row E r t))"
  by (simp_all add: term_step_def putchar_ok print_ok set_cursor_ok clear_ok batch_ok clear_row_ok)

section \<open>The editor\<close>

definition doc_of where
  "doc_of e = ((editor_buffer e, editor_length e, editor_cursor e, editor_dirty e, editor_save_error e),
     (edit_selection_active e, edit_selection_anchor e, mouse_selecting e),
     (undo_ring e, redo_ring e, undo_scratch_a e, undo_scratch_b e), (editor_path e, ed_fs e, scr_of (ed_term e)))"

lemma doc_eqD:
  assumes "doc_of e' = doc_of e"
  shows "editor_buffer e' = editor_buffer e" "editor_length e' = editor_length e" "editor_cursor e' = editor_cursor e"
    "editor_dirty e' = editor_dirty e" "editor_save_error e' = editor_save_error e"
    "edit_selection_active e' = edit_selection_active e" "edit_selection_anchor e' = edit_selection_anchor e"
    "mouse_selecting e' = mouse_selecting e" "undo_ring e' = undo_ring e" "redo_ring e' = redo_ring e"
    "undo_scratch_a e' = undo_scratch_a e" "undo_scratch_b e' = undo_scratch_b e"
    "editor_path e' = editor_path e" "ed_fs e' = ed_fs e" "scr_of (ed_term e') = scr_of (ed_term e)"
    "terminal_clipboard (ed_term e') = terminal_clipboard (ed_term e)"
  using assms by (simp_all add: doc_of_def scr_of_def)

text \<open>A view step leaves the text, the selection, the history and the files alone.\<close>

definition view_step :: "'d rootedit \<Rightarrow> 'd rootedit \<Rightarrow> bool" where
  "view_step e e' \<longleftrightarrow> doc_of e' = doc_of e \<and> undo_group e' = undo_group e \<and> (term_ok (ed_term e) \<longrightarrow> term_ok (ed_term e'))"

lemma view_refl [simp]: "view_step e e"
  by (simp add: view_step_def)

lemma view_trans: "view_step a b \<Longrightarrow> view_step b c \<Longrightarrow> view_step a c"
  by (simp add: view_step_def)

lemma view_term: "term_step f \<Longrightarrow> view_step a e \<Longrightarrow> view_step a (on_term f e)"
  by (simp add: view_step_def term_step_def on_term_def doc_of_def)

lemma view_updates [simp]:
  "view_step a (e\<lparr>edit_selection_drawn := b\<rparr>) = view_step a e" "view_step a (e\<lparr>edit_drawn_start := n\<rparr>) = view_step a e"
  "view_step a (e\<lparr>edit_drawn_end := n\<rparr>) = view_step a e" "view_step a (e\<lparr>editor_view_line := n\<rparr>) = view_step a e"
  "view_step a (e\<lparr>editor_horizontal_offset := n\<rparr>) = view_step a e" "view_step a (e\<lparr>editor_status_cache := i\<rparr>) = view_step a e"
  by (simp_all add: view_step_def doc_of_def)

lemma view_fold: "(\<And>x e. view_step e (f x e)) \<Longrightarrow> view_step a e \<Longrightarrow> view_step a (fold f xs e)"
  by (induction xs arbitrary: e) (simp, metis fold_simps(2) view_trans)

lemma view_if: "view_step a x \<Longrightarrow> view_step a y \<Longrightarrow> view_step a (if b then x else y)"
  by simp

lemma view_invert: "view_step a e \<Longrightarrow> view_step a (editor_invert_selection_range E i j e)"
  unfolding editor_invert_selection_range_def Let_def
  by (intro view_if view_fold) (auto intro!: view_term split: option.split)

lemma view_hide: "view_step a e \<Longrightarrow> view_step a (editor_selection_hide E e)"
  by (simp add: editor_selection_hide_def view_term view_invert)

lemma view_change: "view_step a e \<Longrightarrow> view_step a (editor_selection_change E i j e)"
  by (simp add: editor_selection_change_def Let_def view_invert)

lemma view_show: "view_step a e \<Longrightarrow> view_step a (editor_selection_show E e)"
  by (simp add: editor_selection_show_def Let_def view_term view_change view_hide)

lemma view_place: "view_step a e \<Longrightarrow> view_step a (editor_place_cursor E e)"
  by (simp add: editor_place_cursor_def Let_def view_term)

lemma view_ensure: "view_step a e \<Longrightarrow> view_step a (snd (editor_ensure_cursor_visible E e))"
  by (simp add: editor_ensure_cursor_visible_def Let_def)

lemma view_clear_row: "view_step a e \<Longrightarrow> view_step a (editor_clear_row E r e)"
  by (simp add: editor_clear_row_def view_term)

lemma view_line: "view_step a e \<Longrightarrow> view_step a (editor_draw_line E n e)"
  by (simp add: editor_draw_line_def Let_def view_term view_clear_row term_step_draw_codepoints)

lemma view_document: "view_step a e \<Longrightarrow> view_step a (editor_draw_document E e)"
  by (simp add: editor_draw_document_def view_fold view_line)

lemma view_status: "view_step a e \<Longrightarrow> view_step a (editor_draw_status E e)"
  by (simp add: editor_draw_status_def Let_def view_term view_clear_row)

lemma view_header: "view_step a e \<Longrightarrow> view_step a (editor_draw_header E e)"
  by (simp add: editor_draw_header_def Let_def view_term view_clear_row term_step_pow)

lemma view_redraw: "view_step a e \<Longrightarrow> view_step a (editor_redraw_full E e)" "view_step a e \<Longrightarrow> view_step a (editor_redraw_current_line E e)"
  by (simp_all add: editor_redraw_full_def editor_redraw_current_line_def Let_def view_place view_show view_term view_status
      view_document view_line view_hide)

lemma view_after_move: "view_step a e \<Longrightarrow> view_step a (editor_after_cursor_move E e)"
  using view_ensure [of a e E] by (simp add: editor_after_cursor_move_def case_prod_beta view_redraw view_place)

lemma view_edit_redraw: "view_step a e \<Longrightarrow> view_step a (edit_redraw E b e)"
  using view_ensure [of a e E] by (simp add: edit_redraw_def case_prod_beta view_redraw)

lemma view_show_selection: "view_step a e \<Longrightarrow> view_step a (edit_show_selection E e)"
  using view_ensure [of a e E] by (simp add: edit_show_selection_def case_prod_beta view_redraw view_show view_place)

end
