(* ===== verification/Root_Editor_Text.thy ===== *)
theory Root_Editor_Text
  imports Root_Editor_Screen Root_Ring
begin

text \<open>
  The text operations of the editor refine operations on a list of code points with a cursor and a selection, and the two
  rings of snapshots are logs of the 24 newest states.
\<close>

section \<open>The array loops\<close>

lemma shift_left_loop:
  "k + removed \<le> length buffer \<Longrightarrow> j < length buffer \<Longrightarrow>
     length (fold (\<lambda>i b. b[i := b ! (i + removed)]) [start..<k] buffer) = length buffer
     \<and> fold (\<lambda>i b. b[i := b ! (i + removed)]) [start..<k] buffer ! j =
         (if start \<le> j \<and> j < k then buffer ! (j + removed) else buffer ! j)"
proof (induction k arbitrary: j)
  case (Suc k)
  note IH = Suc.IH [of "k + removed"] Suc.IH [of j]
  show ?case
  proof (cases "start \<le> k")
    case True
    then show ?thesis using IH Suc.prems by (auto simp: nth_list_update)
  qed (use Suc.prems in auto)
qed simp

lemma shift_left_length: "len \<le> length buffer \<Longrightarrow> removed \<le> len \<Longrightarrow> length (shift_left start removed len buffer) = length buffer"
  using shift_left_loop [of "len - removed" removed buffer 0 start] by (cases buffer) (auto simp: shift_left_def)

lemma shift_left_take:
  assumes "start + removed \<le> len" "len \<le> length buffer"
  shows "take (len - removed) (shift_left start removed len buffer) = take start (take len buffer) @ drop (start + removed) (take len buffer)"
proof (rule nth_equalityI)
  note l = shift_left_length [of len buffer removed start]
  show "length (take (len - removed) (shift_left start removed len buffer))
      = length (take start (take len buffer) @ drop (start + removed) (take len buffer))" using assms l by simp
  fix i assume "i < length (take (len - removed) (shift_left start removed len buffer))"
  then have i: "i < len - removed" using assms l by simp
  then show "take (len - removed) (shift_left start removed len buffer) ! i
      = (take start (take len buffer) @ drop (start + removed) (take len buffer)) ! i"
    using assms shift_left_loop [of "len - removed" removed buffer i start]
    by (auto simp: shift_left_def nth_append add.commute add.left_commute)
qed

lemma shift_right_loop:
  "n + added \<le> length buffer \<Longrightarrow> 0 < added \<Longrightarrow> j < length buffer \<Longrightarrow>
     length (fold (\<lambda>i b. b[i + added - 1 := b ! (i - 1)]) (rev [start + 1..<n + 1]) buffer) = length buffer
     \<and> fold (\<lambda>i b. b[i + added - 1 := b ! (i - 1)]) (rev [start + 1..<n + 1]) buffer ! j =
         (if start + added \<le> j \<and> j < n + added then buffer ! (j - added) else buffer ! j)"
proof (induction n arbitrary: buffer)
  case (Suc n)
  show ?case
  proof (cases "start \<le> n")
    case True
    let ?b = "buffer[n + added := buffer ! n]"
    have r: "rev [start + 1..<Suc n + 1] = Suc n # rev [start + 1..<n + 1]" using True by simp
    have "length (fold (\<lambda>i b. b[i + added - 1 := b ! (i - 1)]) (rev [start + 1..<n + 1]) ?b) = length ?b
       \<and> fold (\<lambda>i b. b[i + added - 1 := b ! (i - 1)]) (rev [start + 1..<n + 1]) ?b ! j =
         (if start + added \<le> j \<and> j < n + added then ?b ! (j - added) else ?b ! j)"
      using Suc.prems by (intro Suc.IH) simp_all
    moreover have "?b ! (j - added) = buffer ! (j - added)" if "j < n + added" using that Suc.prems by (auto simp: nth_list_update)
    moreover have "j = n + added \<or> ?b ! j = buffer ! j" by (metis nth_list_update_neq)
    moreover have "?b ! (n + added) = buffer ! n" using Suc.prems by simp
    ultimately show ?thesis unfolding r fold_Cons comp_apply using True by (auto simp: not_less less_Suc_eq)
  qed (use Suc.prems in auto)
qed auto

lemma write_loop:
  "n \<le> length ins \<Longrightarrow> p + n \<le> length buffer \<Longrightarrow>
     fold (\<lambda>i b. b[p + i := ins ! i]) [0..<n] buffer = take p buffer @ take n ins @ drop (p + n) buffer"
proof (induction n)
  case (Suc n)
  then have "fold (\<lambda>i b. b[p + i := ins ! i]) [0..<Suc n] buffer = (take p buffer @ take n ins @ drop (p + n) buffer)[p + n := ins ! n]"
    by simp
  also have "\<dots> = take p buffer @ take n ins @ (ins ! n # drop (Suc (p + n)) buffer)"
    using Suc.prems by (simp add: list_update_append Cons_nth_drop_Suc [of "p + n" buffer, symmetric])
  finally show ?case using Suc.prems by (simp add: take_Suc_conv_app_nth)
qed simp

lemma shift_right_take:
  assumes "start \<le> len" "len + n \<le> length buffer" "0 < n" "n \<le> length ins"
  shows "length (shift_right start n len buffer) = length buffer"
    "take (len + n) (fold (\<lambda>i b. b[start + i := ins ! i]) [0..<n] (shift_right start n len buffer))
     = take start (take len buffer) @ take n ins @ drop start (take len buffer)"
proof -
  let ?s = "shift_right start n len buffer"
  have ne: "0 < length buffer" using assms(2,3) by linarith
  show l: "length ?s = length buffer" using shift_right_loop [of len n buffer 0 start] assms ne by (simp add: shift_right_def)
  have s: "?s ! j = (if start + n \<le> j \<and> j < len + n then buffer ! (j - n) else buffer ! j)" if "j < length buffer" for j
    using shift_right_loop [of len n buffer j start] assms that by (simp add: shift_right_def)
  have t: "take start ?s = take start (take len buffer)"
    using assms l s by (intro nth_equalityI) auto
  have "take (len + n - (start + n)) (drop (start + n) ?s) = drop start (take len buffer)"
    using assms l s by (intro nth_equalityI) (auto simp: add.commute)
  then show "take (len + n) (fold (\<lambda>i b. b[start + i := ins ! i]) [0..<n] ?s) = take start (take len buffer) @ take n ins @ drop start (take len buffer)"
    using assms l t by (simp add: write_loop [OF assms(4)] take_drop)
qed

section \<open>The document\<close>

definition doc_text :: "'d rootedit \<Rightarrow> RootCodepoint list" where
  "doc_text e = take (editor_length e) (editor_buffer e)"

text \<open>A text, a cursor in it, and where the selection begins if there is one.\<close>

type_synonym edit_doc = "RootCodepoint list \<times> nat \<times> nat option"

definition abs_doc :: "'d rootedit \<Rightarrow> edit_doc" where
  "abs_doc e = (doc_text e, editor_cursor e, if edit_selection_active e then Some (edit_selection_anchor e) else None)"

definition buffer_ok :: "'d rootedit \<Rightarrow> bool" where
  "buffer_ok e \<longleftrightarrow> length (editor_buffer e) = ROOTEDIT_MAX_CODEPOINTS \<and> editor_cursor e \<le> editor_length e
     \<and> editor_length e \<le> ROOTEDIT_MAX_CODEPOINTS"

definition selection_ok :: "'d rootedit \<Rightarrow> bool" where
  "selection_ok e \<longleftrightarrow> (edit_selection_active e \<longrightarrow> edit_selection_anchor e \<le> editor_length e)"

lemma doc_length: "buffer_ok e \<Longrightarrow> length (doc_text e) = editor_length e"
  by (simp add: buffer_ok_def doc_text_def)

fun spec_remove :: "edit_doc \<Rightarrow> edit_doc" where
  "spec_remove (xs, c, None) = (xs, c, None)"
| "spec_remove (xs, c, Some a) = (take (min a c) xs @ drop (max a c) xs, min a c, None)"

fun spec_put :: "RootCodepoint list \<Rightarrow> edit_doc \<Rightarrow> edit_doc" where
  "spec_put ys (xs, c, s) =
     (if length xs + length ys > ROOTEDIT_MAX_CODEPOINTS then (xs, c, s) else (take c xs @ ys @ drop c xs, c + length ys, s))"

definition spec_insert :: "RootCodepoint \<Rightarrow> edit_doc \<Rightarrow> edit_doc" where
  "spec_insert codepoint d = spec_put [codepoint] (spec_remove d)"

definition spec_paste :: "RootCodepoint list \<Rightarrow> edit_doc \<Rightarrow> edit_doc" where
  "spec_paste ys d = (if ys = [] then d else spec_put ys (spec_remove d))"

fun spec_backspace :: "edit_doc \<Rightarrow> edit_doc" where
  "spec_backspace (xs, c, Some a) = spec_remove (xs, c, Some a)"
| "spec_backspace (xs, c, None) = (take (c - 1) xs @ drop c xs, c - 1, None)"

fun spec_delete :: "edit_doc \<Rightarrow> edit_doc" where
  "spec_delete (xs, c, Some a) = spec_remove (xs, c, Some a)"
| "spec_delete (xs, c, None) = (take c xs @ drop (c + 1) xs, c, None)"

fun spec_selected :: "edit_doc \<Rightarrow> RootCodepoint list" where
  "spec_selected (xs, c, None) = []"
| "spec_selected (xs, c, Some a) = take (max a c - min a c) (drop (min a c) xs)"

definition spec_clip :: "edit_doc \<Rightarrow> RootCodepoint list \<Rightarrow> RootCodepoint list" where
  "spec_clip d old = (case d of (xs, c, None) \<Rightarrow> old
     | (xs, c, Some a) \<Rightarrow> if length (spec_selected d) < ROOT_CLIPBOARD_MAX_CODEPOINTS then spec_selected d else old)"

section \<open>The operations\<close>

lemma selection_bounds_min [simp]:
  "editor_selection_start e = min (edit_selection_anchor e) (editor_cursor e)"
  "editor_selection_end e = max (edit_selection_anchor e) (editor_cursor e)"
  by (simp_all add: editor_selection_start_def editor_selection_end_def min_def max_def)

lemma hide_doc: "doc_of (editor_selection_hide E e) = doc_of e"
  using view_hide [of e e E] by (simp add: view_step_def)

lemma delete_selection_doc:
  assumes "buffer_ok e" "selection_ok e"
  shows "abs_doc (snd (editor_delete_selection E e)) = spec_remove (abs_doc e)"
    "buffer_ok (snd (editor_delete_selection E e))" "\<not> edit_selection_active (snd (editor_delete_selection E e))"
    "terminal_clipboard (ed_term (snd (editor_delete_selection E e))) = terminal_clipboard (ed_term e)"
proof -
  note h = doc_eqD [OF hide_doc [of E e]]
  let ?a = "min (edit_selection_anchor e) (editor_cursor e)" and ?z = "max (edit_selection_anchor e) (editor_cursor e)"
  have le: "?a + (?z - ?a) \<le> editor_length e" "editor_length e \<le> length (editor_buffer e)" "?z - ?a \<le> editor_length e"
    if "edit_selection_active e" using that assms by (auto simp: buffer_ok_def selection_ok_def)
  have sub: "u32_sub (editor_length e) (?z - ?a) = editor_length e - (?z - ?a)" if "edit_selection_active e"
    using le that assms(1) by (intro u32_sub_exact) (auto simp: buffer_ok_def rootos_consts)
  have z: "?a + (?z - ?a) = ?z" by simp
  show "abs_doc (snd (editor_delete_selection E e)) = spec_remove (abs_doc e)"
  proof (cases "edit_selection_active e \<and> ?a \<noteq> ?z")
    case True
    then show ?thesis using h sub shift_left_take [OF le(1,2)] unfolding z
      by (simp add: editor_delete_selection_def Let_def abs_doc_def doc_text_def editor_selection_clear_def)
  next
    case False
    then have eq: "edit_selection_anchor e = editor_cursor e" if "edit_selection_active e" using that by linarith
    have clear: "doc_text (editor_selection_clear e) = doc_text e" "editor_cursor (editor_selection_clear e) = editor_cursor e"
        "\<not> edit_selection_active (editor_selection_clear e)" by (simp_all add: doc_text_def editor_selection_clear_def)
    have "snd (editor_delete_selection E e) = (if edit_selection_active e then editor_selection_clear e else e)"
      using eq by (auto simp: editor_delete_selection_def)
    then show ?thesis using eq clear by (simp add: abs_doc_def)
  qed
  show "buffer_ok (snd (editor_delete_selection E e))"
  proof (cases "edit_selection_active e \<and> ?a \<noteq> ?z")
    case True
    have "?a \<le> editor_length e - (?z - ?a)" "editor_length e - (?z - ?a) \<le> ROOTEDIT_MAX_CODEPOINTS"
      using le(1) True assms(1) by (auto simp: buffer_ok_def)
    then show ?thesis using True assms(1) h sub shift_left_length [OF le(2,3)]
      by (simp add: editor_delete_selection_def Let_def buffer_ok_def editor_selection_clear_def)
  next
    case False
    then have "snd (editor_delete_selection E e) = (if edit_selection_active e then editor_selection_clear e else e)"
      by (simp add: editor_delete_selection_def)
    then show ?thesis using assms(1) by (simp add: buffer_ok_def editor_selection_clear_def)
  qed
  show "\<not> edit_selection_active (snd (editor_delete_selection E e))"
    by (simp add: editor_delete_selection_def Let_def editor_selection_clear_def)
  show "terminal_clipboard (ed_term (snd (editor_delete_selection E e))) = terminal_clipboard (ed_term e)"
    using h by (simp add: editor_delete_selection_def Let_def editor_selection_clear_def)
qed

text \<open>Deleting the selection first, when there is one.\<close>

definition without_selection :: "screen_env \<Rightarrow> 'd rootedit \<Rightarrow> bool \<times> 'd rootedit" where
  "without_selection E e = (if edit_selection_active e then editor_delete_selection E e else (False, e))"

lemma without_selection_doc:
  assumes "buffer_ok e" "selection_ok e"
  obtains b e' where "without_selection E e = (b, e')" "abs_doc e' = spec_remove (abs_doc e)" "buffer_ok e'"
    "\<not> edit_selection_active e'" "terminal_clipboard (ed_term e') = terminal_clipboard (ed_term e)"
proof (cases "edit_selection_active e")
  case True
  then show ?thesis using that [of "fst (editor_delete_selection E e)" "snd (editor_delete_selection E e)"] delete_selection_doc [OF assms, of E]
    by (simp add: without_selection_def)
next
  case False
  then show ?thesis using that [of False e] assms by (simp add: without_selection_def abs_doc_def)
qed

lemma insert_doc:
  assumes "buffer_ok e" "selection_ok e"
  shows "abs_doc (snd (editor_insert E codepoint e)) = spec_insert codepoint (abs_doc e)"
    "buffer_ok (snd (editor_insert E codepoint e))" "\<not> edit_selection_active (snd (editor_insert E codepoint e))"
    "terminal_clipboard (ed_term (snd (editor_insert E codepoint e))) = terminal_clipboard (ed_term e)"
proof -
  obtain b d where d: "without_selection E e = (b, d)" "abs_doc d = spec_remove (abs_doc e)" "buffer_ok d" "\<not> edit_selection_active d"
      "terminal_clipboard (ed_term d) = terminal_clipboard (ed_term e)" by (rule without_selection_doc [OF assms])
  have op: "editor_insert E codepoint e = (if editor_length d \<ge> ROOTEDIT_MAX_CODEPOINTS then (b, d)
      else (codepoint = LF \<or> b, d\<lparr>editor_buffer := (shift_right (editor_cursor d) 1 (editor_length d) (editor_buffer d))[editor_cursor d := codepoint],
          editor_cursor := editor_cursor d + 1, editor_length := editor_length d + 1, editor_dirty := True, editor_save_error := False\<rparr>))"
    using d(1) by (simp add: editor_insert_def without_selection_def)
  have t: "length (shift_right (editor_cursor d) 1 (editor_length d) (editor_buffer d)) = length (editor_buffer d)"
    "take (editor_length d + 1) ((shift_right (editor_cursor d) 1 (editor_length d) (editor_buffer d))[editor_cursor d := codepoint])
       = take (editor_cursor d) (doc_text d) @ [codepoint] @ drop (editor_cursor d) (doc_text d)" if "editor_length d < ROOTEDIT_MAX_CODEPOINTS"
    using shift_right_take [of "editor_cursor d" "editor_length d" 1 "editor_buffer d" "[codepoint]"] that d(3)
    by (simp_all add: buffer_ok_def doc_text_def)
  have "abs_doc (snd (editor_insert E codepoint e)) = spec_put [codepoint] (abs_doc d)"
    using op t d(3,4) doc_length [OF d(3)] by (simp add: abs_doc_def) (simp add: doc_text_def not_le)
  then show "abs_doc (snd (editor_insert E codepoint e)) = spec_insert codepoint (abs_doc e)" by (simp add: spec_insert_def d(2))
  show "buffer_ok (snd (editor_insert E codepoint e))" using op t(1) d(3) by (simp add: buffer_ok_def)
  show "\<not> edit_selection_active (snd (editor_insert E codepoint e))" using op d(4) by simp
  show "terminal_clipboard (ed_term (snd (editor_insert E codepoint e))) = terminal_clipboard (ed_term e)" using op d(5) by simp
qed

lemma paste_doc:
  assumes "buffer_ok e" "selection_ok e" "clipboard_ok (terminal_clipboard (ed_term e))"
  shows "abs_doc (snd (editor_paste E e)) = spec_paste (clipboard_text (terminal_clipboard (ed_term e))) (abs_doc e)"
    "buffer_ok (snd (editor_paste E e))"
    "edit_selection_active (snd (editor_paste E e)) \<longrightarrow> snd (editor_paste E e) = e"
    "terminal_clipboard (ed_term (snd (editor_paste E e))) = terminal_clipboard (ed_term e)"
proof -
  let ?c = "terminal_clipboard (ed_term e)"
  let ?n = "clipboard_length ?c" and ?ys = "clipboard_data ?c"
  obtain b d where d: "without_selection E e = (b, d)" "abs_doc d = spec_remove (abs_doc e)" "buffer_ok d" "\<not> edit_selection_active d"
      "terminal_clipboard (ed_term d) = terminal_clipboard (ed_term e)" by (rule without_selection_doc [OF assms(1,2)])
  let ?buf = "fold (\<lambda>i buffer. buffer[editor_cursor d + i := ?ys ! i]) [0..<?n] (shift_right (editor_cursor d) ?n (editor_length d) (editor_buffer d))"
  have n: "?n \<le> length ?ys" "?n < ROOTEDIT_MAX_CODEPOINTS" using assms(3) by (simp_all add: clipboard_ok_def rootos_consts)
  have add: "u32_add (editor_length d) ?n = editor_length d + ?n"
    using n(2) d(3) by (intro u32_add_exact) (simp add: buffer_ok_def rootos_consts)
  have op: "editor_paste E e = (if ?n = 0 then (False, e) else if editor_length d + ?n > ROOTEDIT_MAX_CODEPOINTS then (b, d)
      else (b \<or> list_ex (\<lambda>i. ?ys ! i = LF) [0..<?n], d\<lparr>editor_buffer := ?buf, editor_cursor := editor_cursor d + ?n,
          editor_length := editor_length d + ?n, editor_dirty := True, editor_save_error := False\<rparr>))"
    using d(1) add by (simp add: editor_paste_def without_selection_def Let_def)
  have wl: "length (fold (\<lambda>i buffer. buffer[p + i := ?ys ! i]) is xs) = length xs" for p "is" and xs :: "RootCodepoint list"
    by (induction "is" arbitrary: xs) auto
  have t: "length ?buf = length (editor_buffer d)"
    "take (editor_length d + ?n) ?buf = take (editor_cursor d) (doc_text d) @ take ?n ?ys @ drop (editor_cursor d) (doc_text d)"
    if "editor_length d + ?n \<le> ROOTEDIT_MAX_CODEPOINTS" "0 < ?n"
    using shift_right_take [of "editor_cursor d" "editor_length d" ?n "editor_buffer d" ?ys] that n(1) d(3)
    by (simp_all add: buffer_ok_def doc_text_def wl)
  have "abs_doc (snd (editor_paste E e)) = spec_put (take ?n ?ys) (abs_doc d)" if "0 < ?n"
    using op t d(3,4) doc_length [OF d(3)] n(1) that by (simp add: abs_doc_def) (simp add: doc_text_def not_less)
  then show "abs_doc (snd (editor_paste E e)) = spec_paste (clipboard_text ?c) (abs_doc e)"
    using op n(1) by (cases "?n = 0") (simp_all add: spec_paste_def clipboard_text_def d(2) flip: length_0_conv)
  show "buffer_ok (snd (editor_paste E e))" using op t(1) d(3) assms(1) by (simp add: buffer_ok_def)
  show "edit_selection_active (snd (editor_paste E e)) \<longrightarrow> snd (editor_paste E e) = e" using op d(4) by simp
  show "terminal_clipboard (ed_term (snd (editor_paste E e))) = ?c" using op d(5) by simp
qed

lemma backspace_doc:
  assumes "buffer_ok e" "selection_ok e"
  shows "abs_doc (snd (editor_backspace E e)) = spec_backspace (abs_doc e)"
    "buffer_ok (snd (editor_backspace E e))" "\<not> edit_selection_active (snd (editor_backspace E e))"
    "terminal_clipboard (ed_term (snd (editor_backspace E e))) = terminal_clipboard (ed_term e)"
proof -
  have "abs_doc (snd (editor_backspace E e)) = spec_backspace (abs_doc e) \<and> buffer_ok (snd (editor_backspace E e))
     \<and> \<not> edit_selection_active (snd (editor_backspace E e)) \<and> terminal_clipboard (ed_term (snd (editor_backspace E e))) = terminal_clipboard (ed_term e)"
  proof (cases "edit_selection_active e")
    case True
    then show ?thesis using delete_selection_doc [OF assms, of E] by (simp add: editor_backspace_def abs_doc_def)
  next
    case False
    have l: "editor_cursor e - 1 + 1 \<le> editor_length e" "editor_length e \<le> length (editor_buffer e)" "1 \<le> editor_length e"
      if "editor_cursor e \<noteq> 0" using that assms(1) by (auto simp: buffer_ok_def)
    have sub: "u32_sub (editor_length e) 1 = editor_length e - 1" if "editor_cursor e \<noteq> 0"
      using l(3) that assms(1) by (intro u32_sub_exact) (auto simp: buffer_ok_def rootos_consts)
    show ?thesis using False sub shift_left_take [OF l(1,2)] shift_left_length [OF l(2,3)] assms(1)
      by (auto simp: editor_backspace_def abs_doc_def doc_text_def buffer_ok_def)
  qed
  then show "abs_doc (snd (editor_backspace E e)) = spec_backspace (abs_doc e)"
    "buffer_ok (snd (editor_backspace E e))" "\<not> edit_selection_active (snd (editor_backspace E e))"
    "terminal_clipboard (ed_term (snd (editor_backspace E e))) = terminal_clipboard (ed_term e)" by blast+
qed

lemma delete_doc:
  assumes "buffer_ok e" "selection_ok e"
  shows "abs_doc (snd (editor_delete E e)) = spec_delete (abs_doc e)"
    "buffer_ok (snd (editor_delete E e))" "\<not> edit_selection_active (snd (editor_delete E e))"
    "terminal_clipboard (ed_term (snd (editor_delete E e))) = terminal_clipboard (ed_term e)"
proof -
  have "abs_doc (snd (editor_delete E e)) = spec_delete (abs_doc e) \<and> buffer_ok (snd (editor_delete E e))
     \<and> \<not> edit_selection_active (snd (editor_delete E e)) \<and> terminal_clipboard (ed_term (snd (editor_delete E e))) = terminal_clipboard (ed_term e)"
  proof (cases "edit_selection_active e")
    case True
    then show ?thesis using delete_selection_doc [OF assms, of E] by (simp add: editor_delete_def abs_doc_def)
  next
    case False
    have l: "editor_cursor e + 1 \<le> editor_length e" "editor_length e \<le> length (editor_buffer e)" "1 \<le> editor_length e"
      if "editor_cursor e < editor_length e" using that assms(1) by (auto simp: buffer_ok_def)
    show ?thesis using False shift_left_take [OF l(1,2)] shift_left_length [OF l(2,3)] assms(1)
      by (auto simp: editor_delete_def abs_doc_def doc_text_def buffer_ok_def not_less)
  qed
  then show "abs_doc (snd (editor_delete E e)) = spec_delete (abs_doc e)"
    "buffer_ok (snd (editor_delete E e))" "\<not> edit_selection_active (snd (editor_delete E e))"
    "terminal_clipboard (ed_term (snd (editor_delete E e))) = terminal_clipboard (ed_term e)" by blast+
qed

lemma copy_doc:
  assumes "buffer_ok e" "selection_ok e" "clipboard_ok (terminal_clipboard (ed_term e))"
  shows "doc_of ((editor_copy_selection e)\<lparr>ed_term := ed_term e\<rparr>) = doc_of e" "abs_doc (editor_copy_selection e) = abs_doc e"
    "buffer_ok (editor_copy_selection e)" "selection_ok (editor_copy_selection e)"
    "clipboard_ok (terminal_clipboard (ed_term (editor_copy_selection e)))"
    "clipboard_text (terminal_clipboard (ed_term (editor_copy_selection e))) = spec_clip (abs_doc e) (clipboard_text (terminal_clipboard (ed_term e)))"
proof -
  let ?a = "min (edit_selection_anchor e) (editor_cursor e)" and ?z = "max (edit_selection_anchor e) (editor_cursor e)"
  have e: "editor_copy_selection e = (if edit_selection_active e then e\<lparr>ed_term := (ed_term e)\<lparr>terminal_clipboard :=
      snd (rootclipboard_set (Some (drop ?a (editor_buffer e))) (?z - ?a) (terminal_clipboard (ed_term e)))\<rparr>\<rparr> else e)"
    by (simp add: editor_copy_selection_def on_term_def Let_def)
  show "doc_of ((editor_copy_selection e)\<lparr>ed_term := ed_term e\<rparr>) = doc_of e" "abs_doc (editor_copy_selection e) = abs_doc e"
    "buffer_ok (editor_copy_selection e)" "selection_ok (editor_copy_selection e)"
    using assms by (simp_all add: e doc_of_def abs_doc_def doc_text_def buffer_ok_def selection_ok_def)
  let ?sel = "take (?z - ?a) (drop ?a (editor_buffer e))"
  have cut: "rootclipboard_set (Some xs) n c = rootclipboard_set (Some (take n xs)) n c" for xs n c
    by (simp add: rootclipboard_set_def)
  have z: "?z \<le> editor_length e" if "edit_selection_active e" using that assms by (simp add: buffer_ok_def selection_ok_def)
  have len: "length ?sel = ?z - ?a" if "edit_selection_active e"
    using z [OF that] assms(1) unfolding length_take length_drop buffer_ok_def by linarith
  have sel: "?sel = spec_selected (abs_doc e)" if "edit_selection_active e"
  proof -
    have "take (?z - ?a) (drop ?a (take (editor_length e) (editor_buffer e))) = ?sel"
      unfolding drop_take take_take using z that by (intro arg_cong2 [where f = take]) auto
    then show ?thesis using that by (simp add: abs_doc_def doc_text_def)
  qed
  have sp: "clipboard_ok (snd (rootclipboard_set (Some ?sel) (?z - ?a) (terminal_clipboard (ed_term e))))"
    "clipboard_text (snd (rootclipboard_set (Some ?sel) (?z - ?a) (terminal_clipboard (ed_term e))))
       = (if length ?sel < ROOT_CLIPBOARD_MAX_CODEPOINTS then ?sel else clipboard_text (terminal_clipboard (ed_term e)))" if "edit_selection_active e"
    using clipboard_set_spec(2,3) [OF assms(3), of ?sel] unfolding len [OF that] by blast+
  show "clipboard_ok (terminal_clipboard (ed_term (editor_copy_selection e)))"
    using sp(1) assms(3) by (simp add: e cut [of "drop ?a (editor_buffer e)"])
  show "clipboard_text (terminal_clipboard (ed_term (editor_copy_selection e))) = spec_clip (abs_doc e) (clipboard_text (terminal_clipboard (ed_term e)))"
  proof (cases "edit_selection_active e")
    case True
    have c: "clipboard_text (terminal_clipboard (ed_term (editor_copy_selection e)))
        = clipboard_text (snd (rootclipboard_set (Some ?sel) (?z - ?a) (terminal_clipboard (ed_term e))))"
      using True by (simp add: e cut [of "drop ?a (editor_buffer e)"])
    have "clipboard_text (terminal_clipboard (ed_term (editor_copy_selection e)))
        = (if length (spec_selected (abs_doc e)) < ROOT_CLIPBOARD_MAX_CODEPOINTS then spec_selected (abs_doc e)
           else clipboard_text (terminal_clipboard (ed_term e)))"
      using trans [OF c sp(2) [OF True]] unfolding sel [OF True] .
    moreover obtain xs c a where "abs_doc e = (xs, c, Some a)" using True by (simp add: abs_doc_def)
    ultimately show ?thesis by (simp add: spec_clip_def)
  qed (simp add: e spec_clip_def abs_doc_def)
qed

end
