(* ===== verification/Root_Editor_Safety.thy ===== *)
theory Root_Editor_Safety
  imports Root_Editor_Text Root_FS_Semantics
begin

text \<open>
  Sessions of the editor: the rings of snapshots as logs (an interpretation of \<open>bounded_log\<close>), undo and redo, the
  invariant of the loop, and saving and loading through the file system.
\<close>

section \<open>Snapshots\<close>

definition snap_state :: "RootEditSnapshot \<Rightarrow> RootCodepoint list \<times> nat" where
  "snap_state s = (take (snap_length s) (snap_buffer s), snap_cursor s)"

definition edit_state :: "'d rootedit \<Rightarrow> RootCodepoint list \<times> nat" where
  "edit_state e = (doc_text e, editor_cursor e)"

definition snap_ok :: "RootEditSnapshot \<Rightarrow> bool" where
  "snap_ok s \<longleftrightarrow> length (snap_buffer s) = ROOTEDIT_MAX_CODEPOINTS \<and> snap_cursor s \<le> snap_length s \<and> snap_length s \<le> ROOTEDIT_MAX_CODEPOINTS"

definition ring_shape :: "snapshot_ring \<Rightarrow> bool" where
  "ring_shape r \<longleftrightarrow> length (ring_stack r) = ROOTEDIT_UNDO_DEPTH \<and> ring_start r < ROOTEDIT_UNDO_DEPTH \<and> ring_count r \<le> ROOTEDIT_UNDO_DEPTH"

definition ring_ok :: "snapshot_ring \<Rightarrow> bool" where
  "ring_ok r \<longleftrightarrow> ring_shape r \<and> list_all snap_ok (ring_stack r)"

definition ring_states :: "snapshot_ring \<Rightarrow> (RootCodepoint list \<times> nat) list" where
  "ring_states r = map snap_state (ring_list ROOTEDIT_UNDO_DEPTH (ring_stack r) (ring_start r) (ring_count r))"

lemma snap_store:
  assumes "snap_length s \<le> length (snap_buffer s)"
  shows "snap_state (snapshot_store s old) = snap_state s"
  using assms by (simp add: snapshot_store_def snap_state_def copy_cols_def)

lemma snap_store_ok: "snap_ok s \<Longrightarrow> snap_ok old \<Longrightarrow> snap_ok (snapshot_store s old)"
  by (simp add: snapshot_store_def snap_ok_def copy_cols_def)

lemma map_last_n: "map f (last_n n xs) = last_n n (map f xs)"
  by (simp add: last_n_def drop_map)

lemma push_states:
  assumes "ring_shape r" "snap_length s \<le> length (snap_buffer s)"
  shows "ring_shape (snapshot_stack_push s r)"
    "ring_states (snapshot_stack_push s r) = last_n ROOTEDIT_UNDO_DEPTH (ring_states r @ [snap_state s])"
proof -
  show "ring_shape (snapshot_stack_push s r)"
    using assms(1) by (auto simp: snapshot_stack_push_def ring_shape_def Let_def rootos_consts)
  let ?n = ROOTEDIT_UNDO_DEPTH and ?xs = "ring_stack r"
  have b: "length ?xs = ?n" "ring_start r < ?n" "ring_count r \<le> ?n" using assms(1) by (simp_all add: ring_shape_def)
  define v where "v = snapshot_store s (?xs ! (if ring_count r < ?n then (ring_start r + ring_count r) mod ?n else ring_start r))"
  have "ring_states (snapshot_stack_push s r) = map snap_state
      (if ring_count r < ?n then ring_list ?n (?xs[(ring_start r + ring_count r) mod ?n := v]) (ring_start r) (Suc (ring_count r))
       else ring_list ?n (?xs[ring_start r := v]) ((ring_start r + 1) mod ?n) ?n)"
    using b(3) by (simp add: ring_states_def snapshot_stack_push_def v_def Let_def)
  also have "\<dots> = last_n ?n (ring_states r @ [snap_state v])"
    unfolding ring_list_push [OF b] map_last_n by (simp add: ring_states_def)
  finally show "ring_states (snapshot_stack_push s r) = last_n ?n (ring_states r @ [snap_state s])"
    by (simp add: v_def snap_store [OF assms(2)])
qed

text \<open>A ring of snapshots is a log of the newest 24 states.\<close>

interpretation editlog: bounded_log "\<lambda>(xs, c). snapshot_stack_push \<lparr>snap_buffer = xs, snap_length = length xs, snap_cursor = c\<rparr>"
    ring_states ROOTEDIT_UNDO_DEPTH ring_shape
  by unfold_locales (auto simp: push_states snap_state_def, simp add: ring_states_def ring_shape_def)

lemma push_ok: "ring_ok r \<Longrightarrow> snap_ok s \<Longrightarrow> ring_ok (snapshot_stack_push s r)"
proof -
  assume r: "ring_ok r" and s: "snap_ok s"
  have st: "list_all snap_ok ((ring_stack r)[i := snapshot_store s (ring_stack r ! j)])" if "j < length (ring_stack r)" for i j
    using r s that by (auto simp: ring_ok_def list_all_iff snap_store_ok dest!: set_update_subset_insert [THEN subsetD])
  have "list_all snap_ok (ring_stack (snapshot_stack_push s r))"
    using st r unfolding ring_ok_def ring_shape_def snapshot_stack_push_def Let_def by (simp add: rootos_consts)
  then show "ring_ok (snapshot_stack_push s r)"
    using push_states(1) [of r s] r s by (simp add: ring_ok_def snap_ok_def)
qed

lemma push_snap: "ring_ok r \<Longrightarrow> snap_ok s \<Longrightarrow> ring_states (snapshot_stack_push s r) = last_n ROOTEDIT_UNDO_DEPTH (ring_states r @ [snap_state s])"
  by (rule push_states(2)) (simp_all add: ring_ok_def snap_ok_def)

lemma pop_states:
  assumes "ring_ok r" "snap_ok out"
  shows "(snapshot_stack_pop out r = None \<longleftrightarrow> ring_states r = [])"
    "snapshot_stack_pop out r = Some (s, r') \<Longrightarrow> snap_ok s \<and> ring_ok r' \<and> ring_states r = ring_states r' @ [snap_state s]"
proof -
  show "snapshot_stack_pop out r = None \<longleftrightarrow> ring_states r = []"
    by (simp add: snapshot_stack_pop_def Let_def ring_states_def flip: length_0_conv)
  assume p: "snapshot_stack_pop out r = Some (s, r')"
  let ?n = ROOTEDIT_UNDO_DEPTH and ?i = "(ring_start r + ring_count r - 1) mod ROOTEDIT_UNDO_DEPTH"
  obtain m where m: "ring_count r = Suc m" using p by (cases "ring_count r") (simp_all add: snapshot_stack_pop_def)
  have s: "s = snapshot_store (ring_stack r ! ?i) out" using p m by (simp add: snapshot_stack_pop_def Let_def split: if_splits)
  have r': "ring_stack r' = ring_stack r" "ring_count r' = m" "ring_start r' = ring_start r \<or> m = 0 \<and> ring_start r' = 0"
    using p m by (auto simp: snapshot_stack_pop_def Let_def split: if_splits)
  have i: "?i < length (ring_stack r)" using assms(1) by (simp add: ring_ok_def ring_shape_def rootos_consts)
  then have ok: "snap_ok (ring_stack r ! ?i)" using assms(1) by (simp add: ring_ok_def list_all_length)
  have "ring_states r = map snap_state (ring_list ?n (ring_stack r) (ring_start r) m) @ [snap_state (ring_stack r ! ?i)]"
    by (simp add: ring_states_def m ring_list_Suc)
  moreover have "ring_list ?n (ring_stack r') (ring_start r') (ring_count r') = ring_list ?n (ring_stack r) (ring_start r) m"
    using r' by auto
  moreover have "snap_state s = snap_state (ring_stack r ! ?i)" using ok by (simp add: s snap_store snap_ok_def)
  ultimately show "snap_ok s \<and> ring_ok r' \<and> ring_states r = ring_states r' @ [snap_state s]"
    using s snap_store_ok [OF ok assms(2)] r' assms(1) m by (auto simp: ring_states_def ring_ok_def ring_shape_def)
qed

lemma capture_ok:
  assumes "buffer_ok e" "snap_ok s"
  shows "snap_ok (editor_snapshot_capture e s)" "snap_state (editor_snapshot_capture e s) = edit_state e"
  using assms by (simp_all add: editor_snapshot_capture_def snap_ok_def snap_state_def edit_state_def buffer_ok_def doc_text_def copy_cols_def)

lemma restore_ok:
  assumes "buffer_ok e" "snap_ok s"
  shows "buffer_ok (editor_snapshot_restore s e)" "edit_state (editor_snapshot_restore s e) = snap_state s"
  using assms by (simp_all add: editor_snapshot_restore_def snap_ok_def snap_state_def edit_state_def buffer_ok_def doc_text_def copy_cols_def)

section \<open>The invariant\<close>

text \<open>While a selection exists or the left button is held, the place it began lies in the text.\<close>

definition anchor_ok :: "'d rootedit \<Rightarrow> bool" where
  "anchor_ok e \<longleftrightarrow> (edit_selection_active e \<or> mouse_selecting e \<longrightarrow> edit_selection_anchor e \<le> editor_length e)"

definition history_ok :: "'d rootedit \<Rightarrow> bool" where
  "history_ok e \<longleftrightarrow> ring_ok (undo_ring e) \<and> ring_ok (redo_ring e) \<and> snap_ok (undo_scratch_a e) \<and> snap_ok (undo_scratch_b e)
     \<and> ring_count (undo_ring e) + ring_count (redo_ring e) \<le> ROOTEDIT_UNDO_DEPTH"

definition edit_ok :: "'d rootedit \<Rightarrow> bool" where
  "edit_ok e \<longleftrightarrow> buffer_ok e \<and> anchor_ok e \<and> history_ok e \<and> term_ok (ed_term e) \<and> ram_good (ed_fs e)"

lemma edit_okD:
  assumes "edit_ok e"
  shows "buffer_ok e" "anchor_ok e" "history_ok e" "term_ok (ed_term e)" "ram_good (ed_fs e)" "selection_ok e"
    "clipboard_ok (terminal_clipboard (ed_term e))"
  using assms by (simp_all add: edit_ok_def anchor_ok_def selection_ok_def term_ok_def grid_ok_def)

lemma view_keeps:
  assumes "view_step e e'" "edit_ok e"
  shows "edit_ok e'" "edit_fits e' = edit_fits e" "mouse_selecting e' = mouse_selecting e"
    "edit_selection_active e' = edit_selection_active e"
  using assms doc_eqD [of e' e]
  by (simp_all add: view_step_def edit_ok_def buffer_ok_def anchor_ok_def history_ok_def edit_fits_def)

lemma buffer_fits: "buffer_ok e \<Longrightarrow> edit_fits e"
  by (simp add: buffer_ok_def edit_fits_def)

lemma break_ok [simp]: "edit_ok (editor_break_undo_group e) = edit_ok e"
  "mouse_selecting (editor_break_undo_group e) = mouse_selecting e" "edit_selection_active (editor_break_undo_group e) = edit_selection_active e"
  "ed_term (editor_break_undo_group e) = ed_term e"
  by (simp_all add: editor_break_undo_group_def edit_ok_def buffer_ok_def anchor_ok_def history_ok_def)

text \<open>Everything but the buffer, the cursor and the selection.\<close>

definition rest_of where
  "rest_of e = (undo_ring e, redo_ring e, undo_scratch_a e, undo_scratch_b e, mouse_selecting e, editor_path e, ed_fs e)"

lemma rest_view: "view_step e e' \<Longrightarrow> rest_of e' = rest_of e"
  using doc_eqD [of e' e] by (simp add: view_step_def rest_of_def)

lemma rest_ok:
  assumes "rest_of e' = rest_of e" "edit_ok e" "buffer_ok e'" "anchor_ok e'" "term_ok (ed_term e')"
  shows "edit_ok e'"
  using assms by (simp add: edit_ok_def history_ok_def rest_of_def)

section \<open>Moving the cursor\<close>

lemma line_start_le: "line_start_scan buffer i \<le> i"
  by (induction buffer i rule: line_start_scan.induct) auto

lemma line_end_bounds: "i \<le> len \<Longrightarrow> i \<le> line_end_scan buffer len i \<and> line_end_scan buffer len i \<le> len"
proof (induction buffer len i rule: line_end_scan.induct)
  case (1 buffer len i)
  then show ?case using "1.IH" by (subst (1 2) line_end_scan.simps) auto
qed

lemma line_number_le: "i \<le> len \<Longrightarrow> line_number_scan buffer len line i current \<le> len"
proof (induction buffer len line i current rule: line_number_scan.induct)
  case (1 buffer len line i current)
  show ?case using 1 by (subst line_number_scan.simps) auto
qed

lemma position_le: "position_scan w target cs visual position \<le> position + length cs"
proof (induction cs arbitrary: visual position)
  case (Cons c cs)
  show ?case using Cons.IH [of "visual + w c" "Suc position"] by simp
qed simp

lemma line_facts:
  "editor_line_start_from_index e i \<le> i" "editor_line_start_from_index e i \<le> editor_length e"
  "editor_line_end_from_index e i \<le> editor_length e" "i \<le> editor_length e \<Longrightarrow> i \<le> editor_line_end_from_index e i"
  "editor_line_start_by_number e n \<le> editor_length e"
  using line_start_le [of "editor_buffer e" "min i (editor_length e)"]
    line_end_bounds [of "min i (editor_length e)" "editor_length e" "editor_buffer e"]
    line_number_le [of 0 "editor_length e" "editor_buffer e" n 0]
  by (auto simp: editor_line_start_from_index_def editor_line_end_from_index_def editor_line_start_by_number_def min_def split: if_splits)

lemma index_from_mouse_le: "editor_index_from_mouse E e x y = Some i \<Longrightarrow> i \<le> editor_length e"
proof -
  assume i: "editor_index_from_mouse E e x y = Some i"
  obtain column row where c: "terminal_pixel_to_cell (ed_term e) x y = Some (column, row)"
    using i by (auto simp: editor_index_from_mouse_def split: option.splits)
  let ?s = "editor_line_start_by_number e (editor_view_line e + (row - ROOTEDIT_BODY_START_ROW))"
  have "i = position_scan (terminal_codepoint_cells E (ed_term e)) (editor_horizontal_offset e + column)
      (map ((!) (editor_buffer e)) [?s..<editor_line_end_from_index e ?s]) 0 ?s"
    using i c by (simp add: editor_index_from_mouse_def Let_def split: if_splits)
  then have "i \<le> ?s + (editor_line_end_from_index e ?s - ?s)"
    using position_le [of "terminal_codepoint_cells E (ed_term e)" "editor_horizontal_offset e + column"
      "map ((!) (editor_buffer e)) [?s..<editor_line_end_from_index e ?s]" 0 ?s] by simp
  then show ?thesis using line_facts(3) [of e ?s] line_facts(4) [of ?s e] line_facts(5) [of e] by fastforce
qed

lemma move_bounds:
  assumes "editor_cursor e \<le> editor_length e"
  shows "\<exists>c. edit_move key e = e\<lparr>editor_cursor := c\<rparr> \<and> c \<le> editor_length e"
proof -
  have up: "\<exists>c. editor_move_up e = e\<lparr>editor_cursor := c\<rparr> \<and> c \<le> editor_length e"
  proof (cases "editor_line_start_from_index e (editor_cursor e) = 0")
    case True
    then show ?thesis using assms by (auto simp: editor_move_up_def intro: exI [of _ "editor_cursor e"])
  next
    case False
    let ?p = "editor_line_start_from_index e (editor_cursor e) - 1"
    have "?p \<le> editor_length e" "editor_line_start_from_index e ?p \<le> ?p"
      using line_facts(2) [of e "editor_cursor e"] line_facts(1) [of e ?p] by linarith+
    then show ?thesis using False by (auto simp: editor_move_up_def Let_def intro!: exI)
  qed
  have down: "\<exists>c. editor_move_down e = e\<lparr>editor_cursor := c\<rparr> \<and> c \<le> editor_length e"
  proof (cases "editor_line_end_from_index e (editor_cursor e) \<ge> editor_length e")
    case True
    then show ?thesis using assms by (auto simp: editor_move_down_def intro: exI [of _ "editor_cursor e"])
  next
    case False
    let ?n = "editor_line_end_from_index e (editor_cursor e) + 1"
    have "?n \<le> editor_line_end_from_index e ?n" "editor_line_end_from_index e ?n \<le> editor_length e"
      using False line_facts(3) [of e ?n] line_facts(4) [of ?n e] by linarith+
    then show ?thesis using False by (auto simp: editor_move_down_def Let_def intro!: exI)
  qed
  define P where "P x \<longleftrightarrow> (\<exists>c. x = e\<lparr>editor_cursor := c\<rparr> \<and> c \<le> editor_length e)" for x
  have "P e" "P (editor_move_up e)" "P (editor_move_down e)" using up down assms by (auto simp: P_def intro: exI [of _ "editor_cursor e"])
  moreover have "P (e\<lparr>editor_cursor := c\<rparr>)" if "c \<le> editor_length e" for c using that by (auto simp: P_def)
  moreover from this have "P (e\<lparr>editor_cursor := editor_line_start_from_index e i\<rparr>)" "P (e\<lparr>editor_cursor := editor_line_end_from_index e i\<rparr>)" for i
    using line_facts(2,3) by blast+
  ultimately have "P (edit_move key e)" using assms by (simp add: edit_move_def)
  then show ?thesis by (simp add: P_def)
qed

section \<open>Every event keeps the invariant\<close>

lemma delete_selection_ok:
  assumes "edit_ok e"
  shows "edit_ok (snd (editor_delete_selection E e))" "mouse_selecting (snd (editor_delete_selection E e)) = mouse_selecting e"
proof -
  note d = edit_okD [OF assms]
  note v = view_hide [OF view_refl, of e E]
  note h = rest_view [OF v]
  have r: "rest_of (snd (editor_delete_selection E e)) = rest_of e"
    using h by (simp add: editor_delete_selection_def Let_def rest_of_def editor_selection_clear_def)
  have t: "term_ok (ed_term (snd (editor_delete_selection E e)))"
    using v d(4) by (simp add: editor_delete_selection_def Let_def editor_selection_clear_def view_step_def)
  note b = delete_selection_doc(2) [OF d(1,6), of E]
  have "edit_selection_active e \<Longrightarrow> edit_selection_anchor (snd (editor_delete_selection E e)) = editor_cursor (snd (editor_delete_selection E e))"
    by (simp add: editor_delete_selection_def Let_def editor_selection_clear_def)
  moreover have "\<not> edit_selection_active e \<Longrightarrow> snd (editor_delete_selection E e) = e" by (simp add: editor_delete_selection_def)
  ultimately have "anchor_ok (snd (editor_delete_selection E e))"
    using b d(2) by (cases "edit_selection_active e") (simp_all add: anchor_ok_def buffer_ok_def)
  then show "edit_ok (snd (editor_delete_selection E e))" using rest_ok [OF r assms b _ t] by simp
  show "mouse_selecting (snd (editor_delete_selection E e)) = mouse_selecting e" using r by (simp add: rest_of_def)
qed

lemma without_selection_ok:
  assumes "edit_ok e"
  shows "edit_ok (snd (without_selection E e))" "mouse_selecting (snd (without_selection E e)) = mouse_selecting e"
  using assms delete_selection_ok [OF assms, of E] by (simp_all add: without_selection_def)

text \<open>Growing the text, and shrinking it while no selection begins anywhere.\<close>

lemma resize_ok:
  assumes "edit_ok d" "\<not> edit_selection_active d" "n \<ge> editor_length d \<or> \<not> mouse_selecting d"
    and "e = d\<lparr>editor_buffer := xs, editor_cursor := c, editor_length := n, editor_dirty := p, editor_save_error := q\<rparr>" "buffer_ok e"
  shows "edit_ok e" "mouse_selecting e = mouse_selecting d"
proof -
  have "rest_of e = rest_of d" "term_ok (ed_term e)" "anchor_ok e"
    using assms edit_okD [OF assms(1)] by (auto simp: rest_of_def anchor_ok_def)
  then show "edit_ok e" using rest_ok [OF _ assms(1,5)] by simp
  show "mouse_selecting e = mouse_selecting d" by (simp add: assms(4))
qed

lemma insert_ok:
  assumes "edit_ok e"
  shows "edit_ok (snd (editor_insert E codepoint e))" "mouse_selecting (snd (editor_insert E codepoint e)) = mouse_selecting e"
proof -
  note k = edit_okD [OF assms]
  note b = insert_doc(2) [OF k(1,6), of E codepoint]
  obtain f d where d: "without_selection E e = (f, d)" "\<not> edit_selection_active d" by (rule without_selection_doc [OF k(1,6)])
  have dk: "edit_ok d" "mouse_selecting d = mouse_selecting e" using without_selection_ok [OF assms, of E] d(1) by simp_all
  have "edit_ok (snd (editor_insert E codepoint e)) \<and> mouse_selecting (snd (editor_insert E codepoint e)) = mouse_selecting d"
  proof (cases "editor_length d \<ge> ROOTEDIT_MAX_CODEPOINTS")
    case True
    then show ?thesis using d(1) dk by (simp add: editor_insert_def without_selection_def)
  next
    case False
    then have s: "snd (editor_insert E codepoint e) = d\<lparr>editor_buffer := (shift_right (editor_cursor d) 1 (editor_length d) (editor_buffer d))[editor_cursor d := codepoint],
        editor_cursor := editor_cursor d + 1, editor_length := editor_length d + 1, editor_dirty := True, editor_save_error := False\<rparr>"
      using d(1) by (simp add: editor_insert_def without_selection_def)
    show ?thesis using resize_ok [OF dk(1) d(2) _ s b] by simp
  qed
  then show "edit_ok (snd (editor_insert E codepoint e))" "mouse_selecting (snd (editor_insert E codepoint e)) = mouse_selecting e"
    using dk(2) by simp_all
qed

lemma paste_ok:
  assumes "edit_ok e"
  shows "edit_ok (snd (editor_paste E e))" "mouse_selecting (snd (editor_paste E e)) = mouse_selecting e"
proof -
  note k = edit_okD [OF assms]
  note b = paste_doc(2) [OF k(1,6,7), of E]
  obtain f d where d: "without_selection E e = (f, d)" "\<not> edit_selection_active d" by (rule without_selection_doc [OF k(1,6)])
  have dk: "edit_ok d" "mouse_selecting d = mouse_selecting e" using without_selection_ok [OF assms, of E] d(1) by simp_all
  let ?c = "terminal_clipboard (ed_term e)"
  let ?n = "clipboard_length ?c"
  have "edit_ok (snd (editor_paste E e)) \<and> mouse_selecting (snd (editor_paste E e)) = mouse_selecting e"
  proof (cases "?n = 0 \<or> u32_add (editor_length d) ?n > ROOTEDIT_MAX_CODEPOINTS")
    case True
    then show ?thesis using d(1) dk assms by (auto simp: editor_paste_def without_selection_def Let_def)
  next
    case False
    then have s: "snd (editor_paste E e) = d\<lparr>editor_buffer := fold (\<lambda>i buffer. buffer[editor_cursor d + i := clipboard_data ?c ! i]) [0..<?n]
          (shift_right (editor_cursor d) ?n (editor_length d) (editor_buffer d)),
        editor_cursor := editor_cursor d + ?n, editor_length := editor_length d + ?n, editor_dirty := True, editor_save_error := False\<rparr>"
      using d(1) by (simp add: editor_paste_def without_selection_def Let_def)
    show ?thesis using resize_ok [OF dk(1) d(2) _ s b] dk(2) by simp
  qed
  then show "edit_ok (snd (editor_paste E e))" "mouse_selecting (snd (editor_paste E e)) = mouse_selecting e" by simp_all
qed

lemma deletion_ok:
  assumes "edit_ok e" "mouse_selecting e \<longrightarrow> edit_selection_active e"
  shows "edit_ok (snd (editor_backspace E e))" "mouse_selecting (snd (editor_backspace E e)) = mouse_selecting e"
    "edit_ok (snd (editor_delete E e))" "mouse_selecting (snd (editor_delete E e)) = mouse_selecting e"
proof -
  note k = edit_okD [OF assms(1)]
  note s = delete_selection_ok [OF assms(1), of E] and b = backspace_doc(2) [OF k(1,6), of E] delete_doc(2) [OF k(1,6), of E]
  have "edit_ok (snd (editor_backspace E e)) \<and> mouse_selecting (snd (editor_backspace E e)) = mouse_selecting e"
  proof (cases "edit_selection_active e \<or> editor_cursor e = 0")
    case True
    then show ?thesis using s assms(1) by (auto simp: editor_backspace_def)
  next
    case False
    then have e: "snd (editor_backspace E e) = e\<lparr>editor_buffer := shift_left (editor_cursor e - 1) 1 (editor_length e) (editor_buffer e),
        editor_cursor := editor_cursor e - 1, editor_length := u32_sub (editor_length e) 1, editor_dirty := True, editor_save_error := False\<rparr>"
      by (simp add: editor_backspace_def)
    show ?thesis using resize_ok [OF assms(1) _ _ e b(1)] False assms(2) by auto
  qed
  then show "edit_ok (snd (editor_backspace E e))" "mouse_selecting (snd (editor_backspace E e)) = mouse_selecting e" by simp_all
  have "edit_ok (snd (editor_delete E e)) \<and> mouse_selecting (snd (editor_delete E e)) = mouse_selecting e"
  proof (cases "edit_selection_active e \<or> editor_cursor e \<ge> editor_length e")
    case True
    then show ?thesis using s assms(1) by (auto simp: editor_delete_def)
  next
    case False
    then have e: "snd (editor_delete E e) = e\<lparr>editor_buffer := shift_left (editor_cursor e) 1 (editor_length e) (editor_buffer e),
        editor_cursor := editor_cursor e, editor_length := editor_length e - 1, editor_dirty := True, editor_save_error := False\<rparr>"
      by (simp add: editor_delete_def)
    show ?thesis using resize_ok [OF assms(1) _ _ e b(2)] False assms(2) by auto
  qed
  then show "edit_ok (snd (editor_delete E e))" "mouse_selecting (snd (editor_delete E e)) = mouse_selecting e" by simp_all
qed

lemma term_ok_clipboard: "clipboard_ok x \<Longrightarrow> term_ok t \<Longrightarrow> term_ok (t\<lparr>terminal_clipboard := x\<rparr>)"
  by (simp add: term_ok_def grid_ok_def cursor_ok_def sel_ok_def view_ok_def)

lemma copy_ok:
  assumes "edit_ok e"
  shows "edit_ok (editor_copy_selection e)" "mouse_selecting (editor_copy_selection e) = mouse_selecting e"
proof -
  note k = edit_okD [OF assms]
  note c = copy_doc [OF k(1,6,7)]
  have e: "editor_copy_selection e = e \<or> (\<exists>x. editor_copy_selection e = e\<lparr>ed_term := (ed_term e)\<lparr>terminal_clipboard := x\<rparr>\<rparr>)"
    by (auto simp: editor_copy_selection_def on_term_def Let_def)
  then have "term_ok (ed_term (editor_copy_selection e))"
    using c(5) k(4) term_ok_clipboard by (elim disjE exE) simp_all
  moreover have "rest_of (editor_copy_selection e) = rest_of e" "anchor_ok (editor_copy_selection e)"
    using e k(2) by (auto simp: rest_of_def anchor_ok_def)
  ultimately show "edit_ok (editor_copy_selection e)" using rest_ok [OF _ assms c(3)] by simp
  show "mouse_selecting (editor_copy_selection e) = mouse_selecting e" using e by auto
qed

lemma cut_ok:
  assumes "edit_ok e"
  shows "edit_ok (snd (editor_cut_selection E e))" "mouse_selecting (snd (editor_cut_selection E e)) = mouse_selecting e"
  using assms copy_ok [OF assms] delete_selection_ok [OF copy_ok(1) [OF assms], of E] by (simp_all add: editor_cut_selection_def)

lemma record_ok:
  assumes "edit_ok e"
  shows "edit_ok (editor_record_undo kind b e)" "mouse_selecting (editor_record_undo kind b e) = mouse_selecting e"
    "edit_selection_active (editor_record_undo kind b e) = edit_selection_active e" "edit_state (editor_record_undo kind b e) = edit_state e"
    "ed_term (editor_record_undo kind b e) = ed_term e"
proof -
  note k = edit_okD [OF assms]
  have a: "snap_ok (editor_snapshot_capture e (undo_scratch_a e))" using capture_ok(1) [OF k(1), of "undo_scratch_a e"] k(3) by (simp add: history_ok_def)
  have "ring_ok ((redo_ring e)\<lparr>ring_start := 0, ring_count := 0\<rparr>)" using k(3) by (simp add: history_ok_def ring_ok_def ring_shape_def rootos_consts)
  moreover have "ring_count (snapshot_stack_push s r) \<le> ROOTEDIT_UNDO_DEPTH" if "ring_ok r" "snap_ok s" for r s
    using push_ok [OF that] by (simp add: ring_ok_def ring_shape_def)
  ultimately show "edit_ok (editor_record_undo kind b e)"
    using assms a push_ok [OF _ a] k(3) by (auto simp: editor_record_undo_def Let_def edit_ok_def buffer_ok_def anchor_ok_def history_ok_def)
qed (simp_all add: editor_record_undo_def Let_def edit_state_def doc_text_def)

lemma apply_ok:
  assumes "edit_ok (snd (change e))"
  shows "\<exists>e'. edit_apply E change e = Some e' \<and> view_step (snd (change e)) e' \<and> edit_ok e' \<and> mouse_selecting e' = mouse_selecting (snd (change e))"
proof -
  note v = view_edit_redraw [OF view_refl, of "snd (change e)" E "fst (change e)"]
  have "edit_fits (snd (change e))" using buffer_fits edit_okD(1) [OF assms] .
  then have "edit_apply E change e = Some (edit_redraw E (fst (change e)) (snd (change e)))"
    by (simp add: edit_apply_def case_prod_beta)
  then show ?thesis using v view_keeps [OF v assms] by blast
qed

text \<open>Steps that put the cursor and the selection somewhere in the text.\<close>

lemma select_ok:
  assumes "edit_ok e" "c \<le> editor_length e" "a \<le> editor_length e"
  shows "edit_ok (e\<lparr>editor_cursor := c, edit_selection_anchor := a, edit_selection_active := b, mouse_selecting := m\<rparr>)"
    "edit_ok (e\<lparr>edit_selection_anchor := a, editor_cursor := c, edit_selection_active := b, mouse_selecting := m\<rparr>)"
  using assms by (simp_all add: edit_ok_def buffer_ok_def anchor_ok_def history_ok_def)

lemma place_ok:
  assumes "edit_ok e" "c \<le> editor_length e" "b \<longrightarrow> edit_selection_anchor e \<le> editor_length e"
  shows "edit_ok (e\<lparr>editor_cursor := c, edit_selection_active := b\<rparr>)"
  using assms by (simp add: edit_ok_def buffer_ok_def anchor_ok_def history_ok_def)

lemma word_bounds:
  "edit_word_start buffer w i \<le> i" "i \<le> len \<Longrightarrow> edit_word_end buffer len w i \<le> len"
proof -
  show "edit_word_start buffer w i \<le> i" by (induction buffer w i rule: edit_word_start.induct) auto
  show "i \<le> len \<Longrightarrow> edit_word_end buffer len w i \<le> len"
  proof (induction buffer len w i rule: edit_word_end.induct)
    case (1 buffer len w i)
    show ?case using 1 by (subst edit_word_end.simps) auto
  qed
qed

lemma hide_ok:
  assumes "edit_ok e"
  shows "edit_ok (editor_selection_hide E e)" "mouse_selecting (editor_selection_hide E e) = mouse_selecting e"
    "edit_selection_active (editor_selection_hide E e) = edit_selection_active e"
    "editor_length (editor_selection_hide E e) = editor_length e" "editor_cursor (editor_selection_hide E e) = editor_cursor e"
    "editor_buffer (editor_selection_hide E e) = editor_buffer e"
  using view_keeps [OF view_hide [OF view_refl] assms, of E] doc_eqD [OF hide_doc, of E e] by simp_all

lemma shown_ok:
  assumes "edit_ok e"
  shows "edit_ok (editor_after_cursor_move E e)" "mouse_selecting (editor_after_cursor_move E e) = mouse_selecting e"
    "edit_ok (edit_show_selection E e)" "mouse_selecting (edit_show_selection E e) = mouse_selecting e"
    "edit_ok (editor_redraw_full E (snd (editor_ensure_cursor_visible E e)))"
    "mouse_selecting (editor_redraw_full E (snd (editor_ensure_cursor_visible E e))) = mouse_selecting e"
    "edit_ok (edit_redraw E b e)" "mouse_selecting (edit_redraw E b e) = mouse_selecting e"
  using view_keeps [OF view_after_move [OF view_refl] assms, of E] view_keeps [OF view_show_selection [OF view_refl] assms, of E]
    view_keeps [OF view_redraw(1) [OF view_ensure [OF view_refl]] assms, of E E] view_keeps [OF view_edit_redraw [OF view_refl] assms, of E b]
  by simp_all

lemma select_word_ok:
  assumes "edit_ok e"
  shows "edit_ok (snd (editor_select_word_from_mouse E x y e))"
    "mouse_selecting (snd (editor_select_word_from_mouse E x y e)) \<longrightarrow> mouse_selecting e"
proof -
  let ?r = "snd (editor_select_word_from_mouse E x y e)"
  have "?r = e \<or> (\<exists>a c b. a \<le> editor_length e \<and> c \<le> editor_length e \<and> ?r = editor_break_undo_group (editor_place_cursor E (editor_selection_show E
      (snd (editor_ensure_cursor_visible E ((editor_selection_hide E e)\<lparr>edit_selection_anchor := a, editor_cursor := c, edit_selection_active := b, mouse_selecting := False\<rparr>))))))"
  proof (cases "editor_index_from_mouse E e x y")
    case (Some i)
    show ?thesis
    proof (cases "i \<ge> editor_length e \<or> editor_buffer e ! i = LF")
      case True
      then show ?thesis using Some by (auto simp: editor_select_word_from_mouse_def)
    next
      case False
      let ?w = "editor_word_character (editor_buffer e ! i)"
      let ?a = "edit_word_start (editor_buffer e) ?w i" and ?c = "edit_word_end (editor_buffer e) (editor_length e) ?w (i + 1)"
      have "?a \<le> editor_length e" "?c \<le> editor_length e"
        using word_bounds(1) [of "editor_buffer e" ?w i] word_bounds(2) [of "i + 1" "editor_length e" "editor_buffer e" ?w] False by linarith+
      moreover have "?r = editor_break_undo_group (editor_place_cursor E (editor_selection_show E
        (snd (editor_ensure_cursor_visible E ((editor_selection_hide E e)\<lparr>edit_selection_anchor := ?a, editor_cursor := ?c, edit_selection_active := (?c > ?a), mouse_selecting := False\<rparr>)))))"
        using False Some hide_ok(4,6) [OF assms, of E] by (simp add: editor_select_word_from_mouse_def Let_def)
      ultimately show ?thesis by blast
    qed
  qed (simp add: editor_select_word_from_mouse_def)
  then have "edit_ok ?r \<and> (mouse_selecting ?r \<longrightarrow> mouse_selecting e)"
  proof (elim disjE exE conjE)
    fix a c b
    let ?e = "(editor_selection_hide E e)\<lparr>edit_selection_anchor := a, editor_cursor := c, edit_selection_active := b, mouse_selecting := False\<rparr>"
    assume h: "a \<le> editor_length e" "c \<le> editor_length e" and r: "?r = editor_break_undo_group (editor_place_cursor E (editor_selection_show E (snd (editor_ensure_cursor_visible E ?e))))"
    have e: "edit_ok ?e" using select_ok(2) [where b = b and m = False, OF hide_ok(1) [OF assms, of E], of c a] h hide_ok(4) [OF assms, of E] by simp
    note v = view_keeps [OF view_place [OF view_show [OF view_ensure [OF view_refl]]] e, of E E E]
    show "edit_ok ?r \<and> (mouse_selecting ?r \<longrightarrow> mouse_selecting e)" unfolding r using v(1,3) by simp
  qed (use assms in simp)
  then show "edit_ok ?r" "mouse_selecting ?r \<longrightarrow> mouse_selecting e" by blast+
qed

lemma mouse_ok:
  assumes "edit_ok e"
  shows "edit_ok (edit_mouse_down E ev e)" "mouse_selecting e \<Longrightarrow> edit_ok (edit_mouse_drag E ev e)"
    "mouse_selecting (edit_mouse_drag E ev e) = mouse_selecting e"
proof -
  note h = hide_ok [OF assms, of E]
  show "edit_ok (edit_mouse_down E ev e)"
  proof (cases "editor_index_from_mouse E e (ev_mouse_x ev) (ev_mouse_y ev)")
    case (Some i)
    have "edit_ok ((editor_selection_hide E e)\<lparr>editor_cursor := i, edit_selection_anchor := i, edit_selection_active := False, mouse_selecting := True\<rparr>)"
      using select_ok(1) [OF h(1)] index_from_mouse_le [OF Some] h(4) by simp
    then show ?thesis using Some by (simp add: edit_mouse_down_def shown_ok(1))
  qed (simp add: edit_mouse_down_def assms)
  show "mouse_selecting e \<Longrightarrow> edit_ok (edit_mouse_drag E ev e)"
  proof (cases "editor_index_from_mouse E e (ev_mouse_x ev) (ev_mouse_y ev)")
    case (Some i)
    assume "mouse_selecting e"
    then have "edit_ok (e\<lparr>editor_cursor := i, edit_selection_active := (i \<noteq> edit_selection_anchor e)\<rparr>)"
      using index_from_mouse_le [OF Some] edit_okD(2) [OF assms] by (intro place_ok assms) (simp_all add: anchor_ok_def)
    then show ?thesis using Some by (simp add: edit_mouse_drag_def shown_ok(3))
  qed (simp add: edit_mouse_drag_def assms)
  show "mouse_selecting (edit_mouse_drag E ev e) = mouse_selecting e"
  proof (cases "editor_index_from_mouse E e (ev_mouse_x ev) (ev_mouse_y ev)")
    case (Some i)
    let ?e = "e\<lparr>editor_cursor := i, edit_selection_active := (i \<noteq> edit_selection_anchor e)\<rparr>"
    have "doc_of (edit_show_selection E ?e) = doc_of ?e" using view_show_selection [OF view_refl, of ?e E] by (simp add: view_step_def)
    then show ?thesis using Some doc_eqD(8) [of "edit_show_selection E ?e" ?e] by (simp add: edit_mouse_drag_def)
  qed (simp add: edit_mouse_drag_def)
qed

section \<open>Undo, redo and the remaining keys\<close>

lemma push_count: "ring_count (snapshot_stack_push s r) = (if ring_count r < ROOTEDIT_UNDO_DEPTH then ring_count r + 1 else ring_count r)"
  by (simp add: snapshot_stack_push_def Let_def)

lemma states_count: "length (ring_states r) = ring_count r"
  by (simp add: ring_states_def)

lemma last_n_room: "length xs < n \<Longrightarrow> last_n n (xs @ [x]) = xs @ [x]"
  by (simp add: last_n_short)

text \<open>What \<open>editor_undo\<close> and \<open>editor_redo\<close> share: the newest state of one ring is restored, the current one goes to the other.\<close>

lemma restore_step:
  assumes ok: "edit_ok e" and p: "snapshot_stack_pop (undo_scratch_a e) r = Some (a, r')" and r: "ring_ok r"
    and b: "b = editor_snapshot_capture e (undo_scratch_b e)"
    and q: "ring_ok q" "ring_count q < ROOTEDIT_UNDO_DEPTH"
    and e': "e' = editor_break_undo_group (editor_snapshot_restore a (f e))" "buffer_ok (f e)" "ed_term (f e) = ed_term e" "ed_fs (f e) = ed_fs e"
      "undo_scratch_a (f e) = a" "undo_scratch_b (f e) = b"
    and h: "{undo_ring (f e), redo_ring (f e)} = {r', snapshot_stack_push b q}" "ring_count (undo_ring (f e)) + ring_count (redo_ring (f e)) \<le> ROOTEDIT_UNDO_DEPTH"
  shows "edit_ok e'" "\<not> mouse_selecting e'" "ring_states r = ring_states r' @ [edit_state e']"
    "ring_states (snapshot_stack_push b q) = ring_states q @ [edit_state e]" "undo_ring e' = undo_ring (f e)" "redo_ring e' = redo_ring (f e)"
proof -
  note k = edit_okD [OF ok]
  have s: "snap_ok (undo_scratch_a e)" "snap_ok (undo_scratch_b e)" using k(3) by (simp_all add: history_ok_def)
  note po = pop_states(2) [OF r s(1) p]
  have sb: "snap_ok b" "snap_state b = edit_state e" using capture_ok [OF k(1) s(2)] by (simp_all add: b)
  note re = restore_ok [OF e'(2), of a]
  have rings: "ring_ok (undo_ring (f e))" "ring_ok (redo_ring (f e))"
    using h(1) po push_ok [OF q(1) sb(1)] by (auto simp: doubleton_eq_iff)
  have f: "edit_state e' = edit_state (editor_snapshot_restore a (f e))" "undo_ring e' = undo_ring (f e)" "redo_ring e' = redo_ring (f e)"
    by (simp_all add: e'(1) editor_break_undo_group_def edit_state_def doc_text_def editor_snapshot_restore_def)
  have "edit_ok (editor_snapshot_restore a (f e))"
    using re(1) po rings sb(1) h(2) e'(3-6) k(4,5)
    by (simp add: edit_ok_def anchor_ok_def history_ok_def editor_snapshot_restore_def buffer_ok_def)
  then show "edit_ok e'" by (simp add: e'(1))
  show "\<not> mouse_selecting e'" by (simp add: e'(1) editor_snapshot_restore_def)
  show "ring_states r = ring_states r' @ [edit_state e']" using po re(2) f(1) by simp
  show "ring_states (snapshot_stack_push b q) = ring_states q @ [edit_state e]"
    using push_snap [OF q(1) sb(1)] q(2) sb(2) by (simp add: last_n_room states_count)
  show "undo_ring e' = undo_ring (f e)" "redo_ring e' = redo_ring (f e)" using f by simp_all
qed

lemma pop_count: "snapshot_stack_pop out r = Some (s, r') \<Longrightarrow> ring_count r = ring_count r' + 1"
  by (auto simp: snapshot_stack_pop_def Let_def split: if_splits)

lemma undo_step:
  assumes "edit_ok e" "editor_undo e = (done_it, e')"
  shows "if ring_states (undo_ring e) = [] then \<not> done_it \<and> e' = e
    else done_it \<and> edit_ok e' \<and> \<not> mouse_selecting e' \<and> ring_states (undo_ring e) = ring_states (undo_ring e') @ [edit_state e']
       \<and> ring_states (redo_ring e') = ring_states (redo_ring e) @ [edit_state e]"
proof (cases "snapshot_stack_pop (undo_scratch_a e) (undo_ring e)")
  case None
  then show ?thesis using assms pop_states(1) [of "undo_ring e" "undo_scratch_a e"] edit_okD(3) [OF assms(1)]
    by (simp add: editor_undo_def history_ok_def)
next
  case (Some x)
  obtain a r' where x: "x = (a, r')" by force
  let ?b = "editor_snapshot_capture e (undo_scratch_b e)"
  let ?f = "\<lambda>e. e\<lparr>undo_ring := r', undo_scratch_a := a, undo_scratch_b := ?b, redo_ring := snapshot_stack_push ?b (redo_ring e)\<rparr>"
  have h: "ring_ok (undo_ring e)" "ring_ok (redo_ring e)" "ring_count (undo_ring e) + ring_count (redo_ring e) \<le> ROOTEDIT_UNDO_DEPTH"
    using edit_okD(3) [OF assms(1)] by (simp_all add: history_ok_def)
  have c: "ring_count (redo_ring e) < ROOTEDIT_UNDO_DEPTH" using h(3) pop_count Some x by fastforce
  have u: "done_it" "e' = editor_break_undo_group (editor_snapshot_restore a (?f e))"
    using assms(2) Some x by (simp_all add: editor_undo_def Let_def)
  have "buffer_ok (?f e)" using edit_okD(1) [OF assms(1)] by (simp add: buffer_ok_def)
  from restore_step [where f = ?f, OF assms(1) Some [unfolded x] h(1) refl h(2) c u(2) this]
  have "edit_ok e'" "\<not> mouse_selecting e'" "ring_states (undo_ring e) = ring_states r' @ [edit_state e']"
    "ring_states (snapshot_stack_push ?b (redo_ring e)) = ring_states (redo_ring e) @ [edit_state e]"
    "undo_ring e' = r'" "redo_ring e' = snapshot_stack_push ?b (redo_ring e)"
    using h(3) c pop_count [OF Some [unfolded x]] by (simp_all add: push_count)
  then show ?thesis using u(1) by simp
qed

lemma redo_step:
  assumes "edit_ok e" "editor_redo e = (done_it, e')"
  shows "if ring_states (redo_ring e) = [] then \<not> done_it \<and> e' = e
    else done_it \<and> edit_ok e' \<and> \<not> mouse_selecting e' \<and> ring_states (redo_ring e) = ring_states (redo_ring e') @ [edit_state e']
       \<and> ring_states (undo_ring e') = ring_states (undo_ring e) @ [edit_state e]"
proof (cases "snapshot_stack_pop (undo_scratch_a e) (redo_ring e)")
  case None
  then show ?thesis using assms pop_states(1) [of "redo_ring e" "undo_scratch_a e"] edit_okD(3) [OF assms(1)]
    by (simp add: editor_redo_def history_ok_def)
next
  case (Some x)
  obtain a r' where x: "x = (a, r')" by force
  let ?b = "editor_snapshot_capture e (undo_scratch_b e)"
  let ?f = "\<lambda>e. e\<lparr>redo_ring := r', undo_scratch_a := a, undo_scratch_b := ?b, undo_ring := snapshot_stack_push ?b (undo_ring e)\<rparr>"
  have h: "ring_ok (undo_ring e)" "ring_ok (redo_ring e)" "ring_count (undo_ring e) + ring_count (redo_ring e) \<le> ROOTEDIT_UNDO_DEPTH"
    using edit_okD(3) [OF assms(1)] by (simp_all add: history_ok_def)
  have c: "ring_count (undo_ring e) < ROOTEDIT_UNDO_DEPTH" using h(3) pop_count Some x by fastforce
  have u: "done_it" "e' = editor_break_undo_group (editor_snapshot_restore a (?f e))"
    using assms(2) Some x by (simp_all add: editor_redo_def Let_def)
  have "buffer_ok (?f e)" using edit_okD(1) [OF assms(1)] by (simp add: buffer_ok_def)
  from restore_step [where f = ?f, OF assms(1) Some [unfolded x] h(2) refl h(1) c u(2) this]
  have "edit_ok e'" "\<not> mouse_selecting e'" "ring_states (redo_ring e) = ring_states r' @ [edit_state e']"
    "ring_states (snapshot_stack_push ?b (undo_ring e)) = ring_states (undo_ring e) @ [edit_state e]"
    "redo_ring e' = r'" "undo_ring e' = snapshot_stack_push ?b (undo_ring e)"
    using h(3) c pop_count [OF Some [unfolded x]] by (simp_all add: push_count insert_commute)
  then show ?thesis using u(1) by simp
qed

end
