(* ===== verification/Root_Editor_Claims.thy ===== *)
theory Root_Editor_Claims
  imports Root_Editor_Safety
begin

text \<open>
  The properties of the editor: whole sessions, editing as operations on a text, undo and redo, loading and saving.
\<close>

section \<open>The files\<close>

text \<open>Only saving touches the file system, and nothing in the loop changes the path.\<close>

definition files_of :: "'d rootedit \<Rightarrow> string \<times> 'd fs" where
  "files_of e = (editor_path e, ed_fs e)"

lemma files_view: "view_step e e' \<Longrightarrow> files_of e' = files_of e"
  by (simp add: view_step_def doc_of_def files_of_def)

lemma files_drawing [simp]:
  "files_of (editor_selection_hide E e) = files_of e" "files_of (editor_redraw_full E e) = files_of e"
  "files_of (editor_after_cursor_move E e) = files_of e" "files_of (edit_show_selection E e) = files_of e"
  "files_of (edit_redraw E b e) = files_of e" "files_of (snd (editor_ensure_cursor_visible E e)) = files_of e"
  "files_of (editor_place_cursor E e) = files_of e" "files_of (editor_selection_show E e) = files_of e"
  "files_of (editor_draw_status E e) = files_of e"
  by (simp_all add: files_view [OF view_hide [OF view_refl]] files_view [OF view_redraw(1) [OF view_refl]]
      files_view [OF view_after_move [OF view_refl]] files_view [OF view_show_selection [OF view_refl]]
      files_view [OF view_edit_redraw [OF view_refl]] files_view [OF view_ensure [OF view_refl]]
      files_view [OF view_place [OF view_refl]] files_view [OF view_show [OF view_refl]] files_view [OF view_status [OF view_refl]])

lemma files_updates [simp]:
  "files_of (e\<lparr>editor_buffer := xs\<rparr>) = files_of e" "files_of (e\<lparr>editor_length := n\<rparr>) = files_of e" "files_of (e\<lparr>editor_cursor := n\<rparr>) = files_of e"
  "files_of (e\<lparr>editor_dirty := b\<rparr>) = files_of e" "files_of (e\<lparr>editor_save_error := b\<rparr>) = files_of e"
  "files_of (e\<lparr>edit_selection_active := b\<rparr>) = files_of e"
  "files_of (e\<lparr>edit_selection_drawn := b\<rparr>) = files_of e" "files_of (e\<lparr>edit_selection_anchor := n\<rparr>) = files_of e"
  "files_of (e\<lparr>mouse_selecting := b\<rparr>) = files_of e" "files_of (e\<lparr>undo_ring := r\<rparr>) = files_of e" "files_of (e\<lparr>redo_ring := r\<rparr>) = files_of e"
  "files_of (e\<lparr>undo_scratch_a := s\<rparr>) = files_of e" "files_of (e\<lparr>undo_scratch_b := s\<rparr>) = files_of e" "files_of (e\<lparr>undo_group := g\<rparr>) = files_of e"
  "files_of (editor_selection_clear e) = files_of e" "files_of (editor_break_undo_group e) = files_of e" "files_of (on_term f e) = files_of e"
  by (simp_all add: files_of_def editor_selection_clear_def editor_break_undo_group_def on_term_def)

lemma files_changes [simp]:
  "files_of (snd (editor_delete_selection E e)) = files_of e" "files_of (snd (editor_insert E c e)) = files_of e"
  "files_of (snd (editor_backspace E e)) = files_of e" "files_of (snd (editor_delete E e)) = files_of e"
  "files_of (editor_copy_selection e) = files_of e" "files_of (snd (editor_cut_selection E e)) = files_of e"
  "files_of (snd (editor_paste E e)) = files_of e" "files_of (editor_record_undo k b e) = files_of e"
  "files_of (snd (editor_undo e)) = files_of e" "files_of (snd (editor_redo e)) = files_of e"
proof -
  show d: "files_of (snd (editor_delete_selection E e)) = files_of e" for e
    by (simp add: editor_delete_selection_def Let_def)
  have w: "files_of (snd (if edit_selection_active e then editor_delete_selection E e else (False, e))) = files_of e" for e by (simp add: d)
  show "files_of (snd (editor_insert E c e)) = files_of e"
    using w [of e] by (simp add: editor_insert_def case_prod_beta Let_def)
  show "files_of (snd (editor_paste E e)) = files_of e"
    using w [of e] by (simp add: editor_paste_def case_prod_beta Let_def)
  show c: "files_of (editor_copy_selection e) = files_of e" for e by (simp add: editor_copy_selection_def Let_def)
  show "files_of (snd (editor_cut_selection E e)) = files_of e" by (simp add: editor_cut_selection_def d c)
  show "files_of (snd (editor_backspace E e)) = files_of e" by (simp add: editor_backspace_def Let_def d)
  show "files_of (snd (editor_delete E e)) = files_of e" by (simp add: editor_delete_def Let_def d)
  show "files_of (editor_record_undo k b e) = files_of e" by (simp add: editor_record_undo_def Let_def)
  show "files_of (snd (editor_undo e)) = files_of e" "files_of (snd (editor_redo e)) = files_of e"
    by (simp_all add: editor_undo_def editor_redo_def Let_def editor_snapshot_restore_def split: option.split)
qed

lemma files_move [simp]: "files_of (edit_move key e) = files_of e"
  by (simp add: edit_move_def editor_move_up_def editor_move_down_def Let_def)

section \<open>Every key\<close>

lemma shift_arrow_ok:
  assumes "edit_ok e"
  shows "edit_ok (edit_shift_arrow E key e)" "mouse_selecting (edit_shift_arrow E key e) = mouse_selecting e"
proof -
  let ?e = "if \<not> edit_selection_active (editor_break_undo_group e)
      then (editor_break_undo_group e)\<lparr>edit_selection_anchor := editor_cursor (editor_break_undo_group e)\<rparr> else editor_break_undo_group e"
  have b: "edit_ok (editor_break_undo_group e)" using assms by simp
  have e: "edit_ok ?e" "edit_selection_anchor ?e \<le> editor_length ?e" "mouse_selecting ?e = mouse_selecting e"
    using b by (auto simp: edit_ok_def buffer_ok_def anchor_ok_def history_ok_def)
  have "editor_cursor ?e \<le> editor_length ?e" using edit_okD(1) [OF e(1)] by (simp only: buffer_ok_def)
  then obtain c where c: "edit_move key ?e = ?e\<lparr>editor_cursor := c\<rparr>" "c \<le> editor_length ?e" using move_bounds by blast
  let ?m = "?e\<lparr>editor_cursor := c, edit_selection_active := (c \<noteq> edit_selection_anchor ?e)\<rparr>"
  have s: "edit_shift_arrow E key e = edit_show_selection E ?m"
    unfolding edit_shift_arrow_def Let_def c(1) by simp
  have m: "edit_ok ?m" using place_ok [OF e(1) c(2)] e(2) by blast
  show "edit_ok (edit_shift_arrow E key e)" unfolding s using shown_ok(3) [OF m] .
  show "mouse_selecting (edit_shift_arrow E key e) = mouse_selecting e" unfolding s using shown_ok(4) [OF m] e(3) by simp
qed

lemma cursor_key_ok:
  assumes "edit_ok e"
  shows "edit_ok (edit_cursor_key E key e)" "mouse_selecting (edit_cursor_key E key e) = mouse_selecting e"
proof -
  let ?h = "editor_selection_hide E (editor_break_undo_group e)"
  let ?e = "editor_selection_clear ?h"
  have b: "edit_ok (editor_break_undo_group e)" using assms by simp
  note h = hide_ok [OF b, of E]
  have e: "edit_ok ?e" "mouse_selecting ?e = mouse_selecting e"
    using h(1,2) by (simp_all add: editor_selection_clear_def edit_ok_def buffer_ok_def anchor_ok_def history_ok_def)
  obtain c where c: "edit_move key ?e = ?e\<lparr>editor_cursor := c\<rparr>" "c \<le> editor_length ?e"
    using move_bounds [of ?e key] edit_okD(1) [OF e(1)] unfolding buffer_ok_def by blast
  have m: "edit_ok (?e\<lparr>editor_cursor := c\<rparr>)"
    using e(1) c(2) by (simp add: edit_ok_def buffer_ok_def anchor_ok_def history_ok_def)
  show "edit_ok (edit_cursor_key E key e)" unfolding edit_cursor_key_def c(1) using shown_ok(1) [OF m] .
  show "mouse_selecting (edit_cursor_key E key e) = mouse_selecting e"
    unfolding edit_cursor_key_def c(1) using shown_ok(2) [OF m] e(2) by simp
qed

text \<open>A step of the loop that kept the invariant, did not start a mouse selection and left the files alone.\<close>

definition step_ok :: "'d rootedit \<Rightarrow> 'd rootedit option \<Rightarrow> bool" where
  "step_ok e r \<longleftrightarrow> (\<exists>e'. r = Some e' \<and> edit_ok e' \<and> (mouse_selecting e' \<longrightarrow> mouse_selecting e) \<and> files_of e' = files_of e)"

lemma step_okI: "edit_ok e' \<Longrightarrow> mouse_selecting e' \<longrightarrow> mouse_selecting e \<Longrightarrow> files_of e' = files_of e \<Longrightarrow> step_ok e (Some e')"
  by (simp add: step_ok_def)

lemma step_ok_map:
  assumes "step_ok e r" "f = editor_break_undo_group \<or> f = id"
  shows "step_ok e (map_option f r)"
  using assms by (auto simp: step_ok_def)

lemma step_apply:
  assumes "edit_ok (snd (change d))" "mouse_selecting (snd (change d)) \<longrightarrow> mouse_selecting e" "files_of (snd (change d)) = files_of e"
  shows "step_ok e (edit_apply E change d)"
  using apply_ok [of change d, OF assms(1), of E] assms(2,3) files_view by (fastforce simp: step_ok_def)

lemma grouped_ok:
  assumes "edit_ok (snd (change (editor_record_undo k (edit_selection_active e) e)))"
    "mouse_selecting (snd (change (editor_record_undo k (edit_selection_active e) e))) \<longrightarrow> mouse_selecting e"
    "files_of (snd (change (editor_record_undo k (edit_selection_active e) e))) = files_of e"
  shows "step_ok e (edit_grouped E k change e)"
  unfolding edit_grouped_def Let_def
  by (rule step_ok_map [OF step_apply [of change "editor_record_undo k (edit_selection_active e) e", OF assms]]) simp

lemma edits_ok:
  assumes "edit_ok e"
  shows "step_ok e (edit_grouped E k (editor_insert E c) e)"
    "(mouse_selecting e \<longrightarrow> edit_selection_active e) \<Longrightarrow> step_ok e (edit_grouped E k (editor_backspace E) e)"
    "(mouse_selecting e \<longrightarrow> edit_selection_active e) \<Longrightarrow> step_ok e (edit_grouped E k (editor_delete E) e)"
    "step_ok e (edit_cut_key E e)" "step_ok e (edit_paste_key E e)" "step_ok e (edit_enter_key E e)" "step_ok e (edit_tab_key E e)"
proof -
  note r = record_ok [OF assms, of k "edit_selection_active e"]
  have held: "mouse_selecting (editor_record_undo k (edit_selection_active e) e)
      \<longrightarrow> edit_selection_active (editor_record_undo k (edit_selection_active e) e)"
    if "mouse_selecting e \<longrightarrow> edit_selection_active e" using r(2,3) that by blast
  show "step_ok e (edit_grouped E k (editor_insert E c) e)"
    using insert_ok [OF r(1), of E c] r(2) by (intro grouped_ok) simp_all
  show "step_ok e (edit_grouped E k (editor_backspace E) e)" if "mouse_selecting e \<longrightarrow> edit_selection_active e"
    using deletion_ok(1,2) [OF r(1) held [OF that], of E] r(2) by (intro grouped_ok) simp_all
  show "step_ok e (edit_grouped E k (editor_delete E) e)" if "mouse_selecting e \<longrightarrow> edit_selection_active e"
    using deletion_ok(3,4) [OF r(1) held [OF that], of E] r(2) by (intro grouped_ok) simp_all
  let ?b = "editor_break_undo_group e"
  have b: "edit_ok ?b" using assms by simp
  note q = record_ok [OF b, of ROOTEDIT_GROUP_NONE True]
  have "step_ok e (edit_apply E (editor_cut_selection E) (editor_record_undo ROOTEDIT_GROUP_NONE True ?b))"
    using cut_ok [OF q(1), of E] q(2) by (intro step_apply) simp_all
  then show "step_ok e (edit_cut_key E e)" unfolding edit_cut_key_def Let_def
    using b by (intro step_ok_map) (simp_all add: step_okI)
  have "step_ok e (edit_apply E (editor_paste E) (editor_record_undo ROOTEDIT_GROUP_NONE True ?b))"
    using paste_ok [OF q(1), of E] q(2) by (intro step_apply) simp_all
  then show "step_ok e (edit_paste_key E e)" unfolding edit_paste_key_def Let_def
    using b by (intro step_ok_map) (simp_all add: step_okI)
  let ?i = "editor_break_undo_group (snd (editor_insert E LF (editor_record_undo ROOTEDIT_GROUP_NONE True ?b)))"
  have i: "edit_ok ?i" "mouse_selecting ?i = mouse_selecting e" using insert_ok [OF q(1), of E LF] q(2) by simp_all
  show "step_ok e (edit_enter_key E e)"
    unfolding edit_enter_key_def Let_def using buffer_fits [OF edit_okD(1) [OF i(1)]] shown_ok(5,6) [OF i(1), of E] i(2)
    by (simp add: step_okI)
  have pow: "edit_ok (((\<lambda>e. snd (editor_insert E BLANK e)) ^^ n) d) \<and> mouse_selecting (((\<lambda>e. snd (editor_insert E BLANK e)) ^^ n) d) = mouse_selecting d
      \<and> files_of (((\<lambda>e. snd (editor_insert E BLANK e)) ^^ n) d) = files_of d" if "edit_ok d" for n d
    using that by (induction n) (simp_all add: insert_ok)
  let ?t = "editor_break_undo_group (((\<lambda>e. snd (editor_insert E BLANK e)) ^^ 4) (editor_record_undo ROOTEDIT_GROUP_NONE True ?b))"
  have t: "edit_ok ?t" "mouse_selecting ?t = mouse_selecting e" "files_of ?t = files_of e" using pow [OF q(1), of 4] q(2) by simp_all
  show "step_ok e (edit_tab_key E e)"
    unfolding edit_tab_key_def Let_def using buffer_fits [OF edit_okD(1) [OF t(1)]] shown_ok(7,8) [OF t(1), of E False] t(2,3)
    by (simp add: step_okI)
qed

lemma undo_keys_ok:
  assumes "edit_ok e"
  shows "step_ok e (Some (edit_undo_key E e))" "step_ok e (Some (edit_redo_key E e))" "step_ok e (Some (edit_select_all_key E e))"
proof -
  note h = hide_ok [OF assms, of E]
  let ?h = "editor_selection_hide E e"
  obtain b e' where u: "editor_undo ?h = (b, e')" by force
  have f: "files_of e' = files_of e" using files_changes(9) [of ?h] u by simp
  have k: "edit_ok e' \<and> (mouse_selecting e' \<longrightarrow> mouse_selecting e)" using undo_step [OF h(1) u] h(1,2) by (auto split: if_splits)
  then show "step_ok e (Some (edit_undo_key E e))"
    using f u shown_ok(5,6) [of e' E] by (intro step_okI) (simp_all add: edit_undo_key_def)
  obtain b e' where u: "editor_redo ?h = (b, e')" by force
  have f: "files_of e' = files_of e" using files_changes(10) [of ?h] u by simp
  have k: "edit_ok e' \<and> (mouse_selecting e' \<longrightarrow> mouse_selecting e)" using redo_step [OF h(1) u] h(1,2) by (auto split: if_splits)
  then show "step_ok e (Some (edit_redo_key E e))"
    using f u shown_ok(5,6) [of e' E] by (intro step_okI) (simp_all add: edit_redo_key_def)
  have b: "edit_ok (editor_break_undo_group e)" using assms by simp
  note g = hide_ok [OF b, of E]
  let ?g = "editor_selection_hide E (editor_break_undo_group e)"
  let ?s = "?g\<lparr>edit_selection_anchor := 0, editor_cursor := editor_length ?g, edit_selection_active := (editor_length ?g \<noteq> 0)\<rparr>"
  have s: "edit_ok ?s" "mouse_selecting ?s = mouse_selecting e"
    using g(1,2) by (simp_all add: edit_ok_def buffer_ok_def anchor_ok_def history_ok_def)
  show "step_ok e (Some (edit_select_all_key E e))"
    using shown_ok(5,6) [OF s(1), of E] s(2) by (intro step_okI) (simp_all add: edit_select_all_key_def Let_def)
qed

section \<open>Saving and loading\<close>

text \<open>What a write to a path leaves alone: the current directory and every object at another path.\<close>

definition other_files :: "string \<Rightarrow> 'd fs \<Rightarrow> 'd fs \<Rightarrow> bool" where
  "other_files path st st' \<longleftrightarrow> current_directory st' = current_directory st
     \<and> (\<forall>q. root_path_resolve (current_directory st) (Some path) ROOT_PATH_MAX \<noteq> Some (render q) \<longrightarrow> ram_objects st' q = ram_objects st q)"

lemma other_refl [simp]: "other_files path st st"
  by (simp add: other_files_def)

lemma other_trans: "other_files path a b \<Longrightarrow> other_files path b c \<Longrightarrow> other_files path a c"
  by (simp add: other_files_def)

lemma write_other:
  assumes g: "ram_good st"
  shows "\<exists>r st'. filesystem_write_file st (Some path) (Some bs) (length bs) = Some (r, st') \<and> ram_good st' \<and> other_files path st st'"
proof (cases "length bs > FS_MAX_FILE_SIZE \<or> root_path_resolve (current_directory st) (Some path) ROOT_PATH_MAX = None")
  case True
  then show ?thesis using g by (auto simp: filesystem_write_file_def)
next
  case False
  note rg = g [folded ram_good_iff]
  obtain out where o: "root_path_resolve (current_directory st) (Some path) ROOT_PATH_MAX = Some out" using False by auto
  obtain p where p: "wf_path p" "out = render p" by (rule ramv.good_resolve [OF rg o])
  obtain r st' where w: "filesystem_write_file st (Some path) (Some bs) (length bs) = Some (r, st')" "ram_good st'" "framed st st'"
    and sp: "ram_objects st' = ram_objects st \<or> ram_objects st' = (ram_objects st)(p \<mapsto> (FS_FILE, bs))"
    using ramv.write_spec [OF rg o [unfolded p(2)] p(1), of bs] False unfolding ram_good_iff by (auto split: if_splits)
  have "other_files path st st'" using w(3) sp o p(2) by (auto simp: other_files_def framed_def)
  then show ?thesis using w(1,2) by blast
qed

lemma save_bytes_all:
  assumes "length out + 4 * length cs \<le> ROOTEDIT_MAX_FILE_BYTES"
  shows "save_bytes cs out = Some (out @ concat (map root_utf8_encode cs))"
  using assms
proof (induction cs arbitrary: out)
  case (Cons c cs)
  have "length (root_utf8_encode c) \<le> 4" by (simp add: root_utf8_encode_def Let_def)
  then show ?case using Cons.prems Cons.IH [of "out @ root_utf8_encode c"] by (simp add: Let_def)
qed simp

lemma encoded_length: "length (concat (map root_utf8_encode cs)) \<le> 4 * length cs"
proof (induction cs)
  case (Cons c cs)
  have "length (root_utf8_encode c) \<le> 4" by (simp add: root_utf8_encode_def Let_def)
  then show ?case using Cons.IH by simp
qed simp

lemma buffer_text: "buffer_ok e \<Longrightarrow> map ((!) (editor_buffer e)) [0..<editor_length e] = doc_text e"
  by (simp add: buffer_ok_def doc_text_def list_eq_iff_nth_eq)

lemma save_step:
  assumes "edit_ok e"
  shows "\<exists>r st'. filesystem_write_file (ed_fs e) (Some (editor_path e)) (Some (concat (map root_utf8_encode (doc_text e))))
       (length (concat (map root_utf8_encode (doc_text e)))) = Some (r, st')
     \<and> editor_save e = Some (r, if r = FS_RESULT_OK then e\<lparr>ed_fs := st', editor_dirty := False, editor_save_error := False\<rparr>
           else e\<lparr>ed_fs := st', editor_save_error := True\<rparr>)
     \<and> ram_good st' \<and> other_files (editor_path e) (ed_fs e) st'"
proof -
  note k = edit_okD [OF assms]
  let ?bs = "concat (map root_utf8_encode (doc_text e))"
  have b: "save_bytes (map ((!) (editor_buffer e)) [0..<editor_length e]) [] = Some ?bs"
    using save_bytes_all [of "[]" "doc_text e"] doc_length [OF k(1)] k(1) unfolding buffer_text [OF k(1)]
    by (simp add: buffer_ok_def ROOTEDIT_MAX_FILE_BYTES_def)
  obtain r st' where w: "filesystem_write_file (ed_fs e) (Some (editor_path e)) (Some ?bs) (length ?bs) = Some (r, st')"
      "ram_good st'" "other_files (editor_path e) (ed_fs e) st'" using write_other [OF k(5)] by blast
  then show ?thesis by (simp add: editor_save_def b)
qed

lemma save_key_step:
  assumes "edit_ok e"
  shows "\<exists>e'. edit_save_key E e = Some e' \<and> edit_ok e' \<and> mouse_selecting e' = mouse_selecting e
     \<and> editor_path e' = editor_path e \<and> other_files (editor_path e) (ed_fs e) (ed_fs e')"
proof -
  let ?b = "editor_break_undo_group e"
  have b: "edit_ok ?b" using assms by simp
  have f: "editor_path ?b = editor_path e" "ed_fs ?b = ed_fs e" "mouse_selecting ?b = mouse_selecting e"
    by (simp_all add: editor_break_undo_group_def)
  obtain r d where d: "editor_save ?b = Some (r, d)" "edit_ok d" "mouse_selecting d = mouse_selecting e" "editor_path d = editor_path e"
      "other_files (editor_path e) (ed_fs e) (ed_fs d)"
    using save_step [OF b] b f by (auto simp: edit_ok_def buffer_ok_def anchor_ok_def history_ok_def)
  let ?v = "editor_place_cursor E (on_term (terminal_end_batch E) (editor_draw_status E (on_term (terminal_begin_batch E) d)))"
  have v: "view_step d ?v" by (intro view_place view_term view_status view_refl term_steps)
  show ?thesis using d(1) view_keeps [OF v d(2)] doc_eqD(13,14) [of ?v d] v d(3-5)
    by (simp add: edit_save_key_def view_step_def)
qed

lemma load_take: "load_codepoints n bytes = take n (decode_text bytes)"
proof (induction n arbitrary: bytes)
  case (Suc n)
  show ?case using Suc.IH by (subst decode_text.simps) (simp split: option.split)
qed simp

lemma decode_encoded: "list_all root_unicode_valid cs \<Longrightarrow> decode_text (concat (map root_utf8_encode cs)) = cs"
proof (induction cs)
  case Nil
  show ?case by (subst decode_text.simps) simp
next
  case (Cons c cs)
  let ?r = "concat (map root_utf8_encode cs)"
  have "root_utf8_decode (root_utf8_encode c @ ?r) = Some (c, length (root_utf8_encode c))" using Cons.prems utf8.dec_enc by simp
  moreover have "0 < length (root_utf8_encode c)" using encode_nonempty by simp
  ultimately have "decode_text (root_utf8_encode c @ ?r) = c # decode_text ?r"
    by (subst decode_text.simps) simp
  then show ?case using Cons by simp
qed

lemma ram_read_keeps: "ram_good st \<Longrightarrow> snd (filesystem_read_file st path n) = st"
  using ram_backend [of st] by (auto simp: filesystem_read_file_def backend_read_file_def split: option.splits)

section \<open>Sessions\<close>

text \<open>The editor's static arrays, and a terminal and a file system in order.\<close>

definition edit_arrays :: "'d rootedit \<Rightarrow> bool" where
  "edit_arrays e \<longleftrightarrow> length (editor_buffer e) = ROOTEDIT_MAX_CODEPOINTS
     \<and> length (ring_stack (undo_ring e)) = ROOTEDIT_UNDO_DEPTH \<and> length (ring_stack (redo_ring e)) = ROOTEDIT_UNDO_DEPTH
     \<and> list_all snap_ok (ring_stack (undo_ring e)) \<and> list_all snap_ok (ring_stack (redo_ring e))
     \<and> snap_ok (undo_scratch_a e) \<and> snap_ok (undo_scratch_b e) \<and> term_ok (ed_term e) \<and> ram_good (ed_fs e)"

text \<open>No Backspace or Delete while the left button is held.\<close>

fun calm :: "bool \<Rightarrow> RootInputEvent list \<Rightarrow> bool" where
  "calm held [] = True"
| "calm held (event # events) =
     (if ev_type event = ROOT_INPUT_MOUSE_BUTTON_DOWN \<and> ev_button event = ROOT_MOUSE_LEFT then calm True events
      else if ev_type event = ROOT_INPUT_MOUSE_BUTTON_UP \<and> ev_button event = ROOT_MOUSE_LEFT then calm False events
      else (\<not> (held \<and> ev_type event = ROOT_INPUT_KEY_DOWN \<and> (ev_key event = ROOT_KEY_BACKSPACE \<or> ev_key event = ROOT_KEY_DELETE))
        \<and> calm held events))"

definition session_ok :: "'d rootedit \<Rightarrow> 'd rootedit \<Rightarrow> bool" where
  "session_ok e e' \<longleftrightarrow> edit_ok e' \<and> editor_path e' = editor_path e \<and> other_files (editor_path e) (ed_fs e) (ed_fs e')"

lemma step_session: "step_ok e r \<Longrightarrow> \<exists>e'. r = Some e' \<and> session_ok e e' \<and> (mouse_selecting e' \<longrightarrow> mouse_selecting e)"
  by (auto simp: step_ok_def session_ok_def files_of_def)

lemma session_trans: "session_ok a b \<Longrightarrow> session_ok b c \<Longrightarrow> session_ok a c"
  by (auto simp: session_ok_def intro: other_trans)

lemma key_step:
  assumes "edit_ok e" "mouse_selecting e \<longrightarrow> ev_key event \<noteq> ROOT_KEY_BACKSPACE \<and> ev_key event \<noteq> ROOT_KEY_DELETE"
  shows "step_ok e (edit_key E event e)"
proof -
  have b: "edit_ok (editor_break_undo_group e)" using assms(1) by simp
  have "step_ok e (Some (editor_break_undo_group e))" "step_ok e (Some e)" using assms(1) by (auto intro!: step_okI)
  moreover have "step_ok e (Some (edit_shift_arrow E key e))" "step_ok e (Some (edit_cursor_key E key e))" for key
    using shift_arrow_ok [OF assms(1), of E key] cursor_key_ok [OF assms(1), of E key]
    by (auto intro!: step_okI simp: edit_shift_arrow_def edit_cursor_key_def Let_def)
  moreover have "ev_key event = ROOT_KEY_BACKSPACE \<Longrightarrow> step_ok e (edit_grouped E ROOTEDIT_GROUP_BACKSPACE (editor_backspace E) e)"
    "ev_key event = ROOT_KEY_DELETE \<Longrightarrow> step_ok e (edit_grouped E ROOTEDIT_GROUP_DELETE (editor_delete E) e)"
    using edits_ok(2,3) [OF assms(1)] assms(2) by blast+
  ultimately show ?thesis
    using edits_ok(1) [OF assms(1), of E] edits_ok(6,7) [OF assms(1), of E]
    unfolding edit_key_def Let_def by (simp split: if_split)
qed

lemma key_down_step:
  assumes "edit_ok e" "mouse_selecting e \<longrightarrow> ev_key event \<noteq> ROOT_KEY_BACKSPACE \<and> ev_key event \<noteq> ROOT_KEY_DELETE"
  shows "\<exists>e'. edit_key_down E event e = Some e' \<and> session_ok e e' \<and> (mouse_selecting e' \<longrightarrow> mouse_selecting e)"
proof (cases "roottext_editor_action event = ROOT_TEXT_ACTION_SAVE")
  case True
  then show ?thesis using save_key_step [OF assms(1), of E] by (auto simp: edit_key_down_def session_ok_def)
next
  case False
  have c: "step_ok e (Some (editor_copy_selection (editor_break_undo_group e)))"
    using copy_ok [of "editor_break_undo_group e"] assms(1) by (intro step_okI) simp_all
  have "step_ok e (edit_key_down E event e)"
    using False c undo_keys_ok [OF assms(1), of E] edits_ok(4,5) [OF assms(1), of E] key_step [OF assms, of E]
    unfolding edit_key_down_def Let_def by (simp split: if_split)
  then show ?thesis by (rule step_session)
qed

lemma event_step:
  assumes "edit_ok e" "mouse_selecting e \<longrightarrow> held" "calm held (event # events)"
  shows "\<exists>running e' held'. rootedit_event E event e = Some (running, e') \<and> session_ok e e' \<and> (mouse_selecting e' \<longrightarrow> held') \<and> calm held' events"
proof -
  let ?t = "ev_type event" and ?left = "ev_button event = ROOT_MOUSE_LEFT"
  have same: "session_ok e e" using assms(1) by (simp add: session_ok_def)
  consider (double) "?t = ROOT_INPUT_MOUSE_DOUBLE_CLICK" ?left | (down) "?t = ROOT_INPUT_MOUSE_BUTTON_DOWN" ?left
    | (drag) "?t = ROOT_INPUT_MOUSE_DRAG" "mouse_selecting e" | (up) "?t = ROOT_INPUT_MOUSE_BUTTON_UP" ?left
    | (key) "?t = ROOT_INPUT_KEY_DOWN"
    | (other) "?t \<noteq> ROOT_INPUT_KEY_DOWN" "\<not> (?t = ROOT_INPUT_MOUSE_DOUBLE_CLICK \<and> ?left)" "\<not> (?t = ROOT_INPUT_MOUSE_BUTTON_DOWN \<and> ?left)"
        "\<not> (?t = ROOT_INPUT_MOUSE_DRAG \<and> mouse_selecting e)" "\<not> (?t = ROOT_INPUT_MOUSE_BUTTON_UP \<and> ?left)" by blast
  then show ?thesis
  proof cases
    case double
    have f: "files_of (snd (editor_select_word_from_mouse E x y e)) = files_of e" for x y
      by (simp add: editor_select_word_from_mouse_def Let_def split: option.split)
    have "step_ok e (Some (snd (editor_select_word_from_mouse E (ev_mouse_x event) (ev_mouse_y event) e)))"
      using select_word_ok [OF assms(1)] f by (intro step_okI) simp_all
    from step_session [OF this] show ?thesis using double assms(2,3) by (auto simp: rootedit_event_def)
  next
    case down
    have "files_of (edit_mouse_down E event e) = files_of e" by (simp add: edit_mouse_down_def Let_def split: option.split)
    then have "session_ok e (edit_mouse_down E event e)" using mouse_ok(1) [OF assms(1)] by (simp add: session_ok_def files_of_def)
    then show ?thesis using down assms(3) by (auto simp: rootedit_event_def)
  next
    case drag
    have "files_of (edit_mouse_drag E event e) = files_of e" by (simp add: edit_mouse_drag_def split: option.split)
    then have "session_ok e (edit_mouse_drag E event e)" using mouse_ok(2) [OF assms(1) drag(2)] by (simp add: session_ok_def files_of_def)
    then show ?thesis using drag assms(2,3) mouse_ok(3) [OF assms(1)] by (auto simp: rootedit_event_def)
  next
    case up
    have "session_ok e (e\<lparr>mouse_selecting := False\<rparr>)"
      using assms(1) by (simp add: session_ok_def edit_ok_def buffer_ok_def anchor_ok_def history_ok_def)
    then show ?thesis using up assms(3) by (auto simp: rootedit_event_def)
  next
    case key
    have c: "calm held events" "mouse_selecting e \<longrightarrow> ev_key event \<noteq> ROOT_KEY_BACKSPACE \<and> ev_key event \<noteq> ROOT_KEY_DELETE"
      using key assms(2,3) by auto
    have b: "edit_ok (editor_break_undo_group e)" using assms(1) by simp
    have "files_of (editor_selection_hide E (editor_break_undo_group e)) = files_of e" by simp
    then have x: "session_ok e (editor_selection_hide E (editor_break_undo_group e))"
        "mouse_selecting (editor_selection_hide E (editor_break_undo_group e)) = mouse_selecting e"
      using hide_ok(1,2) [OF b, of E] by (simp_all add: session_ok_def files_of_def)
    obtain e' where "edit_key_down E event e = Some e'" "session_ok e e'" "mouse_selecting e' \<longrightarrow> mouse_selecting e"
      using key_down_step [OF assms(1) c(2), of E] by blast
    then show ?thesis
    proof (cases "roottext_editor_action event = ROOT_TEXT_ACTION_EXIT")
      case True
      then have "rootedit_event E event e = Some (False, editor_selection_hide E (editor_break_undo_group e))"
        using key by (simp add: rootedit_event_def)
      then show ?thesis using x c(1) assms(2) by blast
    next
      case False
      assume k: "edit_key_down E event e = Some e'" "session_ok e e'" "mouse_selecting e' \<longrightarrow> mouse_selecting e"
      have "rootedit_event E event e = Some (True, e')" using key False k(1) by (simp add: rootedit_event_def)
      then show ?thesis using k(2,3) c(1) assms(2) by blast
    qed
  next
    case other
    have "rootedit_event E event e = Some (True, e)"
      unfolding rootedit_event_def if_not_P [OF other(2)] if_not_P [OF other(3)] if_not_P [OF other(4)] if_not_P [OF other(5)]
      using other(1) by (rule if_P)
    moreover have "calm held events"
      using assms(3) unfolding calm.simps(2) if_not_P [OF other(3)] if_not_P [OF other(5)] by (rule conjunct2)
    ultimately show ?thesis using same assms(2) by blast
  qed
qed

lemma loop_step:
  "edit_ok e \<Longrightarrow> mouse_selecting e \<longrightarrow> held \<Longrightarrow> calm held events \<Longrightarrow>
     \<exists>running e'. rootedit_loop E events e = Some (running, e') \<and> session_ok e e'"
proof (induction events arbitrary: e held)
  case Nil
  then have "rootedit_loop E [] e = Some (True, e) \<and> session_ok e e" by (simp add: session_ok_def)
  then show ?case by blast
next
  case (Cons event events)
  obtain running e' held' where s: "rootedit_event E event e = Some (running, e')" "session_ok e e'" "mouse_selecting e' \<longrightarrow> held'" "calm held' events"
    using event_step [OF Cons.prems] by blast
  show ?case
  proof (cases running)
    case True
    obtain running' e'' where "rootedit_loop E events e' = Some (running', e'')" "session_ok e' e''"
      using Cons.IH [OF _ s(3,4)] s(2) by (auto simp: session_ok_def)
    then show ?thesis using s(1) True session_trans [OF s(2)] by auto
  qed (use s in auto)
qed

lemma read_cases:
  assumes "ram_good st"
  obtains r bytes where "filesystem_read_file st path n = ((r, bytes), st)"
  using that [of "fst (fst (filesystem_read_file st path n))" "snd (fst (filesystem_read_file st path n))"]
    ram_read_keeps [OF assms, of path n] by (simp add: prod_eq_iff)

lemma load_step:
  assumes "edit_arrays e" "filesystem_read_file (ed_fs e) path (ROOTEDIT_MAX_FILE_BYTES + 1) = ((r, bytes), st)"
  shows "if r \<noteq> FS_RESULT_OK then editor_load path e = (r, e)
    else \<exists>d. editor_load path e = (FS_RESULT_OK, d) \<and> edit_ok d \<and> files_of d = files_of e \<and> ed_term d = ed_term e
      \<and> edit_state d = (take ROOTEDIT_MAX_CODEPOINTS (decode_text bytes), length (take ROOTEDIT_MAX_CODEPOINTS (decode_text bytes)))
      \<and> \<not> editor_dirty d \<and> \<not> mouse_selecting d \<and> ring_states (undo_ring d) = [] \<and> ring_states (redo_ring d) = []"
proof -
  have "ram_good (ed_fs e)" using assms(1) by (simp add: edit_arrays_def)
  then have st: "st = ed_fs e" using ram_read_keeps [of "ed_fs e" path "ROOTEDIT_MAX_FILE_BYTES + 1"] unfolding assms(2) by simp
  show ?thesis
  proof (cases "r = FS_RESULT_OK")
    case True
    let ?cs = "load_codepoints ROOTEDIT_MAX_CODEPOINTS bytes"
    have n: "length ?cs \<le> ROOTEDIT_MAX_CODEPOINTS" by (simp add: load_take)
    obtain d where d: "editor_load path e = (FS_RESULT_OK, d)" using assms(2) True by (simp add: editor_load_def Let_def)
    then have d': "d = e\<lparr>ed_fs := st, editor_buffer := ?cs @ drop (length ?cs) (editor_buffer e), editor_length := length ?cs,
        editor_cursor := length ?cs, editor_dirty := False, editor_save_error := False, editor_view_line := 0,
        editor_horizontal_offset := 0, editor_status_cache := - 1, edit_selection_active := False, edit_selection_drawn := False,
        mouse_selecting := False, undo_ring := (undo_ring e)\<lparr>ring_start := 0, ring_count := 0\<rparr>,
        redo_ring := (redo_ring e)\<lparr>ring_start := 0, ring_count := 0\<rparr>, undo_group := ROOTEDIT_GROUP_NONE\<rparr>"
      using assms(2) True by (simp add: editor_load_def Let_def)
    have "edit_ok d" using assms(1) n
      by (simp add: d' st edit_arrays_def edit_ok_def buffer_ok_def anchor_ok_def history_ok_def ring_ok_def ring_shape_def ROOTEDIT_UNDO_DEPTH_def)
    moreover have "edit_state d = (?cs, length ?cs)" by (simp add: d' edit_state_def doc_text_def)
    ultimately show ?thesis using True d by (simp add: load_take) (simp add: d' st files_of_def ring_states_def)
  qed (use assms(2) st in \<open>simp add: editor_load_def Let_def\<close>)
qed

lemma arrays_path [simp]: "edit_arrays (e\<lparr>editor_path := s\<rparr>) = edit_arrays e"
  by (simp add: edit_arrays_def)

lemma start_step:
  assumes "edit_arrays e"
  shows "\<exists>r d. rootedit_start E path e = (r, d) \<and> term_ok (ed_term d) \<and> ed_fs d = ed_fs e
    \<and> (r = FS_RESULT_OK \<longrightarrow> edit_ok d \<and> \<not> mouse_selecting d)"
proof -
  have t: "term_ok (ed_term e)" and g: "ram_good (ed_fs e)" using assms by (simp_all add: edit_arrays_def)
  show ?thesis
  proof (cases path)
    case None
    then show ?thesis using t by (simp add: rootedit_start_def)
  next
    case (Some s)
    obtain copy len where c: "root_strlcpy (editor_path e) s ROOT_PATH_MAX = (copy, len)" by force
    show ?thesis
    proof (cases "chead s = NUL \<or> len \<ge> ROOT_PATH_MAX")
      case True
      then show ?thesis using t Some c by (auto simp: rootedit_start_def)
    next
      case False
      let ?e = "e\<lparr>editor_path := copy\<rparr>"
      have a: "edit_arrays ?e" using assms by simp
      obtain r bytes where rd: "filesystem_read_file (ed_fs ?e) path (ROOTEDIT_MAX_FILE_BYTES + 1) = ((r, bytes), ed_fs ?e)"
        using read_cases [OF g, of path "ROOTEDIT_MAX_FILE_BYTES + 1"] by auto
      note l = load_step [OF a rd]
      have open_eq: "rootedit_start E path e = (case editor_load path ?e of (load_result, d) \<Rightarrow>
          if load_result \<noteq> FS_RESULT_OK then (load_result, d)
          else let d = on_term (terminal_begin_batch E) (on_term (terminal_clear E) d);
                   d = editor_draw_status E (editor_draw_document E (editor_draw_header E d))
               in (FS_RESULT_OK, editor_place_cursor E (on_term (terminal_end_batch E) d)))"
        using False Some c by (simp add: rootedit_start_def)
      show ?thesis
      proof (cases "r = FS_RESULT_OK")
        case True
        then obtain d where d: "editor_load path ?e = (FS_RESULT_OK, d)" "edit_ok d" "files_of d = files_of ?e" "\<not> mouse_selecting d" using l by auto
        let ?v = "editor_place_cursor E (on_term (terminal_end_batch E) (editor_draw_status E (editor_draw_document E (editor_draw_header E
            (on_term (terminal_begin_batch E) (on_term (terminal_clear E) d))))))"
        have v: "view_step d ?v"
          by (intro view_place view_term view_status view_document view_header view_refl term_steps)
        have "rootedit_start E path e = (FS_RESULT_OK, ?v)" unfolding open_eq d(1) by (simp add: Let_def)
        then show ?thesis using view_keeps(1,3) [OF v d(2)] d(3,4) files_view [OF v] edit_okD(4) [OF view_keeps(1) [OF v d(2)]]
          by (simp add: files_of_def)
      next
        case False
        then have "rootedit_start E path e = (r, ?e)" using l unfolding open_eq by simp
        then show ?thesis using False t by simp
      qed
    qed
  qed
qed

section \<open>Properties\<close>

text \<open>
  C22: A session never leaves its arrays. Opened on any path with a terminal and a file system in order, and fed any keys
  and mouse events at any positions, as long as Backspace and Delete are not pressed while the left button is held,
  the editor returns, its cursor and selection stay in the text and the text in the 4096 code points, the history
  rings stay in their bounds, the terminal and the file system stay well formed, and no other file is touched.
\<close>

theorem editor_session_safe:
  assumes "edit_arrays e" "calm False events"
  shows "\<exists>r e'. rootedit_open E path events e = Some (r, e') \<and> term_ok (ed_term e') \<and> ram_good (ed_fs e')
     \<and> other_files (editor_path e') (ed_fs e) (ed_fs e') \<and> (r = None \<or> r = Some FS_RESULT_OK \<longrightarrow> edit_ok e')"
proof -
  obtain r d where s: "rootedit_start E path e = (r, d)" "term_ok (ed_term d)" "ed_fs d = ed_fs e"
      "r = FS_RESULT_OK \<longrightarrow> edit_ok d \<and> \<not> mouse_selecting d" using start_step [OF assms(1)] by blast
  have g: "ram_good (ed_fs e)" using assms(1) by (simp add: edit_arrays_def)
  show ?thesis
  proof (cases "r = FS_RESULT_OK")
    case True
    then obtain running e' where l: "rootedit_loop E events d = Some (running, e')" "session_ok d e'"
      using loop_step [OF _ _ assms(2), of d E] s(4) by blast
    let ?v = "on_term (terminal_clear E) e'"
    have v: "view_step e' ?v" by (intro view_term view_refl term_steps)
    have ok: "edit_ok e'" "editor_path e' = editor_path d" "other_files (editor_path d) (ed_fs e) (ed_fs e')"
      using l(2) s(3) by (simp_all add: session_ok_def)
    note vk = view_keeps(1) [OF v ok(1)] doc_eqD(13,14) [of ?v e']
    show ?thesis
    proof (cases running)
      case True
      then have "rootedit_open E path events e = Some (None, e')" using s(1) l(1) \<open>r = FS_RESULT_OK\<close> by (simp add: rootedit_open_def)
      then show ?thesis using ok edit_okD(4,5) [OF ok(1)] by simp
    next
      case False
      then have "rootedit_open E path events e = Some (Some FS_RESULT_OK, ?v)" using s(1) l(1) \<open>r = FS_RESULT_OK\<close> by (simp add: rootedit_open_def)
      then show ?thesis using ok vk(2,3) v edit_okD(4,5) [OF vk(1)] vk(1) by (simp add: view_step_def)
    qed
  next
    case False
    then show ?thesis using s g by (simp add: rootedit_open_def)
  qed
qed

text \<open>
  C23: Editing is what it is on a text with a cursor and a selection: typing replaces the selection by the code point,
  pasting by the clipboard (both leave the text alone when it would exceed 4096 code points), Backspace and Delete
  remove the selection or the code point beside the cursor, cutting removes the selection, and copying and cutting put
  the selected text in the clipboard unless it is too long for it.
\<close>

theorem editor_refines_text:
  assumes "edit_ok e"
  shows "abs_doc (snd (editor_insert E codepoint e)) = spec_insert codepoint (abs_doc e)
    \<and> abs_doc (snd (editor_paste E e)) = spec_paste (clipboard_text (terminal_clipboard (ed_term e))) (abs_doc e)
    \<and> abs_doc (snd (editor_backspace E e)) = spec_backspace (abs_doc e)
    \<and> abs_doc (snd (editor_delete E e)) = spec_delete (abs_doc e)
    \<and> abs_doc (snd (editor_cut_selection E e)) = spec_remove (abs_doc e)
    \<and> clipboard_text (terminal_clipboard (ed_term (snd (editor_cut_selection E e)))) = spec_clip (abs_doc e) (clipboard_text (terminal_clipboard (ed_term e)))
    \<and> abs_doc (editor_copy_selection e) = abs_doc e
    \<and> clipboard_text (terminal_clipboard (ed_term (editor_copy_selection e))) = spec_clip (abs_doc e) (clipboard_text (terminal_clipboard (ed_term e)))"
proof -
  note k = edit_okD [OF assms]
  note c = copy_doc [OF k(1,6,7)]
  have cut: "abs_doc (snd (editor_cut_selection E e)) = spec_remove (abs_doc e)
     \<and> terminal_clipboard (ed_term (snd (editor_cut_selection E e))) = terminal_clipboard (ed_term (editor_copy_selection e))"
  proof (cases "edit_selection_active e")
    case True
    then show ?thesis using delete_selection_doc(1,4) [OF c(3,4), of E] c(2) by (simp add: editor_cut_selection_def)
  next
    case False
    then show ?thesis by (simp add: editor_cut_selection_def editor_copy_selection_def abs_doc_def)
  qed
  show ?thesis
    using insert_doc(1) [OF k(1,6), of E codepoint] paste_doc(1) [OF k(1,6,7), of E] backspace_doc(1) [OF k(1,6), of E]
      delete_doc(1) [OF k(1,6), of E] cut c(2,6) by simp
qed

text \<open>The states that undo and redo can reach, and the one shown.\<close>

definition history :: "'d rootedit \<Rightarrow> (RootCodepoint list \<times> nat) list \<times> (RootCodepoint list \<times> nat) \<times> (RootCodepoint list \<times> nat) list" where
  "history e = (ring_states (undo_ring e), edit_state e, ring_states (redo_ring e))"

text \<open>
  C24: Recording keeps the 24 newest states and forgets the undone ones; undo goes back to the newest recorded text and
  cursor and redo forward again, and each takes back the other exactly: no state is lost between the two rings.
\<close>

theorem editor_history_correct:
  assumes "edit_ok e"
  shows "history (editor_record_undo k True e) = (last_n ROOTEDIT_UNDO_DEPTH (ring_states (undo_ring e) @ [edit_state e]), edit_state e, [])
    \<and> (ring_states (undo_ring e) \<noteq> [] \<longrightarrow> edit_state (snd (editor_undo e)) = last (ring_states (undo_ring e))
         \<and> history (snd (editor_redo (snd (editor_undo e)))) = history e)
    \<and> (ring_states (redo_ring e) \<noteq> [] \<longrightarrow> edit_state (snd (editor_redo e)) = last (ring_states (redo_ring e))
         \<and> history (snd (editor_undo (snd (editor_redo e)))) = history e)"
proof (intro conjI impI)
  note k = edit_okD [OF assms]
  have a: "ring_ok (undo_ring e)" "snap_ok (undo_scratch_a e)" using k(3) by (simp_all add: history_ok_def)
  show "history (editor_record_undo k True e) = (last_n ROOTEDIT_UNDO_DEPTH (ring_states (undo_ring e) @ [edit_state e]), edit_state e, [])"
    using push_snap [OF a(1) capture_ok(1) [OF k(1) a(2)]] capture_ok(2) [OF k(1) a(2)]
    by (simp add: history_def editor_record_undo_def Let_def edit_state_def doc_text_def) (simp add: ring_states_def)
next
  assume n: "ring_states (undo_ring e) \<noteq> []"
  obtain b d where u: "editor_undo e = (b, d)" by force
  obtain c f where r: "editor_redo d = (c, f)" by force
  have ud: "edit_ok d" "ring_states (undo_ring e) = ring_states (undo_ring d) @ [edit_state d]"
      "ring_states (redo_ring d) = ring_states (redo_ring e) @ [edit_state e]" using undo_step [OF assms u] n by simp_all
  have rf: "ring_states (redo_ring d) = ring_states (redo_ring f) @ [edit_state f]"
      "ring_states (undo_ring f) = ring_states (undo_ring d) @ [edit_state d]" using redo_step [OF ud(1) r] ud(3) by simp_all
  show "edit_state (snd (editor_undo e)) = last (ring_states (undo_ring e))" using u ud(2) by simp
  show "history (snd (editor_redo (snd (editor_undo e)))) = history e" using u r ud(2,3) rf by (simp add: history_def)
next
  assume n: "ring_states (redo_ring e) \<noteq> []"
  obtain b d where r: "editor_redo e = (b, d)" by force
  obtain c f where u: "editor_undo d = (c, f)" by force
  have rd: "edit_ok d" "ring_states (redo_ring e) = ring_states (redo_ring d) @ [edit_state d]"
      "ring_states (undo_ring d) = ring_states (undo_ring e) @ [edit_state e]" using redo_step [OF assms r] n by simp_all
  have uf: "ring_states (undo_ring d) = ring_states (undo_ring f) @ [edit_state f]"
      "ring_states (redo_ring f) = ring_states (redo_ring d) @ [edit_state d]" using undo_step [OF rd(1) u] rd(3) by simp_all
  show "edit_state (snd (editor_redo e)) = last (ring_states (redo_ring e))" using r rd(2) by simp
  show "history (snd (editor_undo (snd (editor_redo e)))) = history e" using u r rd(2,3) uf by (simp add: history_def)
qed


text \<open>
  C26: What opening a file shows. A file of at most 16384 bytes is shown as its UTF-8 text with every byte that starts no
  sequence replaced by U+FFFD, and cut after 4096 code points without notice, with the cursor at its end, nothing to
  undo and no modified mark; a missing file, a directory and a larger file are reported and change nothing.
\<close>

theorem editor_load_correct:
  assumes a: "edit_arrays e" and p: "wf_path p"
    and rs: "root_path_resolve (current_directory (ed_fs e)) (Some path) ROOT_PATH_MAX = Some (render p)"
  shows "case ram_objects (ed_fs e) p of
       None \<Rightarrow> editor_load (Some path) e = (FS_RESULT_NOT_FOUND, e)
     | Some (FS_DIRECTORY, x) \<Rightarrow> editor_load (Some path) e = (FS_RESULT_NOT_FILE, e)
     | Some (FS_FILE, bytes) \<Rightarrow>
         if length bytes > ROOTEDIT_MAX_FILE_BYTES then editor_load (Some path) e = (FS_RESULT_NO_SPACE, e)
         else let text = take ROOTEDIT_MAX_CODEPOINTS (decode_text bytes) in
           \<exists>d. editor_load (Some path) e = (FS_RESULT_OK, d) \<and> edit_ok d \<and> ed_fs d = ed_fs e
             \<and> history d = ([], (text, length text), []) \<and> \<not> editor_dirty d"
proof -
  have g: "ram_good (ed_fs e)" using a by (simp add: edit_arrays_def)
  let ?n = "ROOTEDIT_MAX_FILE_BYTES + 1"
  obtain r bytes where rd: "filesystem_read_file (ed_fs e) (Some path) ?n = ((r, bytes), ed_fs e)" by (rule read_cases [OF g])
  note l = load_step [OF a rd] and sp = ram_read_spec [OF g rs p, of ?n, unfolded rd]
  show ?thesis
  proof (cases "ram_objects (ed_fs e) p")
    case None
    then show ?thesis using l sp by simp
  next
    case (Some v)
    obtain t bs where v: "v = (t, bs)" by force
    show ?thesis
    proof (cases t)
      case FS_DIRECTORY
      then show ?thesis using l sp Some v by simp
    next
      case FS_FILE
      show ?thesis
      proof (cases "length bs > ROOTEDIT_MAX_FILE_BYTES")
        case True
        then show ?thesis using l sp Some v FS_FILE by simp
      next
        case False
        then have "r = FS_RESULT_OK" "bytes = bs" using sp Some v FS_FILE by simp_all
        then show ?thesis using l Some v FS_FILE False by (auto simp: history_def files_of_def Let_def)
      qed
    qed
  qed
qed

definition plain_event :: "RootInputEventType \<Rightarrow> RootInputEvent" where
  "plain_event t = \<lparr>timestamp_ms = 0, ev_type = t, ev_key = 0, ev_codepoint = 0, ev_shift = False, ev_ctrl = False, ev_alt = False,
     ev_altgr = False, ev_mouse_x = 0, ev_mouse_y = 0, ev_mouse_dx = 0, ev_mouse_dy = 0, ev_mouse_wheel = 0, ev_button = ROOT_MOUSE_NONE, ev_mouse_buttons = 0\<rparr>"

definition press :: "RootKey \<Rightarrow> RootInputEvent" where
  "press key = (plain_event ROOT_INPUT_KEY_DOWN)\<lparr>ev_key := key\<rparr>"

definition drag_to :: "int \<Rightarrow> int \<Rightarrow> RootInputEvent" where
  "drag_to x y = (plain_event ROOT_INPUT_MOUSE_DRAG)\<lparr>ev_mouse_x := x, ev_mouse_y := y\<rparr>"

lemma press_key:
  assumes "key = ROOT_KEY_BACKSPACE \<or> key = ROOT_KEY_DELETE"
  shows "rootedit_event E (press key) e = map_option (Pair True) (if key = ROOT_KEY_BACKSPACE
     then edit_grouped E ROOTEDIT_GROUP_BACKSPACE (editor_backspace E) e else edit_grouped E ROOTEDIT_GROUP_DELETE (editor_delete E) e)"
  using assms by (auto simp: rootedit_event_def press_def plain_event_def edit_key_down_def edit_key_def roottext_editor_action_def
      plain_ctrl_def is_key_down_def is_arrow_def Let_def)

text \<open>
  C27: The case that the session theorem excludes breaks the editor. With the left button held behind the only code point
  of the text, Backspace empties the text but the place where the selection begins stays at 1; dragging to any cell of
  the body then selects a range that is no longer there, and Delete takes its length from an empty text: the unsigned
  length wraps and the text leaves its array.
\<close>

theorem stale_anchor_leaves_buffer:
  assumes ok: "edit_ok e" and one: "editor_length e = 1" "editor_cursor e = 1" "edit_selection_anchor e = 1"
    and held: "mouse_selecting e" "\<not> edit_selection_active e"
    and cell: "terminal_pixel_to_cell (ed_term e) x y = Some (c, r)" "ROOTEDIT_BODY_START_ROW \<le> r" "r < ROOTEDIT_BODY_START_ROW + editor_body_rows e"
  shows "rootedit_loop E [press ROOT_KEY_BACKSPACE, drag_to x y, press ROOT_KEY_DELETE] e = None"
proof -
  let ?r = "editor_record_undo ROOTEDIT_GROUP_BACKSPACE False e"
  let ?b = "snd (editor_backspace E ?r)"
  have f: "editor_length ?r = 1" "editor_cursor ?r = 1" "edit_selection_anchor ?r = 1" "mouse_selecting ?r" "\<not> edit_selection_active ?r" "ed_term ?r = ed_term e"
    using one held by (simp_all add: editor_record_undo_def Let_def)
  then have b: "editor_length ?b = 0" "editor_cursor ?b = 0" "edit_selection_anchor ?b = 1" "mouse_selecting ?b" "\<not> edit_selection_active ?b" "ed_term ?b = ed_term e"
    by (simp_all add: editor_backspace_def u32_sub_def)
  define d where "d = edit_redraw E (fst (editor_backspace E ?r)) ?b"
  have dv: "doc_of d = doc_of ?b" using view_edit_redraw [OF view_refl, of ?b E] by (simp add: d_def view_step_def)
  note df = doc_eqD [OF dv, unfolded b]
  have s1: "rootedit_event E (press ROOT_KEY_BACKSPACE) e = Some (True, d)"
    using b held by (simp add: press_key edit_grouped_def edit_apply_def case_prod_beta edit_fits_def d_def)
  have scr: "scr_of (ed_term d) = scr_of (ed_term e)" using df(15) .
  have px: "terminal_pixel_to_cell (ed_term d) x y = Some (c, r)" "editor_body_rows d = editor_body_rows e"
    using scr cell(1) by (auto simp: scr_of_def terminal_pixel_to_cell_def editor_body_rows_def editor_rows_def Let_def split: if_splits)
  obtain i where i: "editor_index_from_mouse E d x y = Some i"
    using px cell(2,3) by (simp add: editor_index_from_mouse_def Let_def)
  then have i0: "i = 0" using index_from_mouse_le [OF i] df(2) by simp
  let ?s = "d\<lparr>editor_cursor := 0, edit_selection_active := True\<rparr>"
  define g where "g = edit_show_selection E ?s"
  have gv: "doc_of g = doc_of ?s" using view_show_selection [OF view_refl, of ?s E] by (simp add: g_def view_step_def)
  note gf = doc_eqD [OF gv, simplified, unfolded df(2,7)]
  have s2: "rootedit_event E (drag_to x y) d = Some (True, g)"
    using i i0 df(7,8) b(4) by (simp add: rootedit_event_def drag_to_def plain_event_def edit_mouse_drag_def g_def)
  let ?k = "editor_record_undo ROOTEDIT_GROUP_DELETE True g"
  have kf: "editor_length ?k = 0" "editor_cursor ?k = 0" "edit_selection_anchor ?k = 1" "edit_selection_active ?k"
    using gf by (simp_all add: editor_record_undo_def Let_def)
  have "editor_length (snd (editor_delete E ?k)) = u32_sub 0 1"
    using kf doc_eqD(2) [OF hide_doc, of E ?k] by (simp add: editor_delete_def editor_delete_selection_def Let_def editor_selection_clear_def)
  then have "\<not> edit_fits (snd (editor_delete E ?k))" by (simp add: edit_fits_def u32_sub_def rootos_consts)
  then have "rootedit_event E (press ROOT_KEY_DELETE) g = None"
    using gf(6) by (simp add: press_key edit_grouped_def edit_apply_def case_prod_beta)
  then show ?thesis using s1 s2 by simp
qed

section \<open>Concrete editors\<close>

definition demo_snapshot :: RootEditSnapshot where
  "demo_snapshot = \<lparr>snap_buffer = replicate 4096 0, snap_length = 0, snap_cursor = 0\<rparr>"

definition demo_edit where
  "demo_edit = \<lparr>editor_buffer = 0x61 # replicate 4095 0, editor_length = 1, editor_cursor = 1, editor_dirty = False, editor_save_error = False,
     editor_view_line = 0, editor_horizontal_offset = 0, editor_status_cache = - 1, edit_selection_active = False, edit_selection_anchor = 1,
     edit_selection_drawn = False, edit_drawn_start = 0, edit_drawn_end = 0, mouse_selecting = True,
     undo_ring = \<lparr>ring_stack = replicate 24 demo_snapshot, ring_start = 0, ring_count = 0\<rparr>,
     redo_ring = \<lparr>ring_stack = replicate 24 demo_snapshot, ring_start = 0, ring_count = 0\<rparr>,
     undo_scratch_a = demo_snapshot, undo_scratch_b = demo_snapshot, undo_group = ROOTEDIT_GROUP_NONE, editor_path = ''readme.txt'',
     ed_term = terminal_init demo_env (raw_terminal True 1024 768), ed_fs = demo_fs\<rparr>"

lemma demo_snapshot_ok: "snap_ok demo_snapshot"
  by (simp add: snap_ok_def demo_snapshot_def rootos_consts)

lemma demo_edit_ok: "edit_ok demo_edit" "edit_arrays demo_edit"
proof -
  have t: "term_ok (terminal_init demo_env (raw_terminal True 1024 768))"
    by (rule terminal_init_ok [OF raw_terminal_arrays]) simp_all
  have r: "list_all snap_ok (replicate n demo_snapshot)" for n by (simp add: list_all_iff demo_snapshot_ok)
  show "edit_ok demo_edit" "edit_arrays demo_edit"
    using t r demo_snapshot_ok demo_fs_good(1)
    by (simp_all add: edit_ok_def edit_arrays_def buffer_ok_def anchor_ok_def history_ok_def ring_ok_def ring_shape_def demo_edit_def rootos_consts)
qed

lemma demo_edit_fields:
  "doc_text demo_edit = [0x61]" "editor_length demo_edit = 1" "editor_cursor demo_edit = 1" "edit_selection_anchor demo_edit = 1"
  "mouse_selecting demo_edit" "\<not> edit_selection_active demo_edit" "editor_path demo_edit = ''readme.txt''" "ed_fs demo_edit = demo_fs"
  by (simp_all add: demo_edit_def doc_text_def)

theorem editor_session_safe_witness:
  "\<exists>r e'. rootedit_open demo_env (Some ''readme.txt'') [press 0, drag_to 9 60, press ROOT_KEY_DELETE] demo_edit = Some (r, e')
     \<and> term_ok (ed_term e') \<and> ram_good (ed_fs e')"
proof -
  have "calm False [press 0, drag_to 9 60, press ROOT_KEY_DELETE]" by (simp add: press_def drag_to_def plain_event_def)
  from editor_session_safe [OF demo_edit_ok(2) this, of demo_env "Some ''readme.txt''"] show ?thesis by blast
qed

theorem editor_refines_text_witness:
  "abs_doc (snd (editor_backspace demo_env demo_edit)) = ([], 0, None)
   \<and> abs_doc (snd (editor_insert demo_env LF demo_edit)) = ([0x61, LF], 2, None)"
proof -
  have d: "abs_doc demo_edit = ([0x61], 1, None)" by (simp add: abs_doc_def demo_edit_fields)
  show ?thesis using editor_refines_text [OF demo_edit_ok(1), of demo_env LF] unfolding d by (simp add: spec_insert_def rootos_consts)
qed

theorem editor_history_correct_witness:
  "history (editor_record_undo ROOTEDIT_GROUP_INSERT True demo_edit) = ([([0x61], 1)], ([0x61], 1), [])"
proof -
  have "ring_states (undo_ring demo_edit) = []" by (simp add: demo_edit_def ring_states_def)
  moreover have "edit_state demo_edit = ([0x61], 1)" by (simp add: edit_state_def demo_edit_fields)
  ultimately show ?thesis using editor_history_correct [OF demo_edit_ok(1), of ROOTEDIT_GROUP_INSERT] by (simp add: last_n_short rootos_consts)
qed


theorem editor_load_correct_witness:
  "\<exists>d. editor_load (Some ''readme.txt'') demo_edit = (FS_RESULT_OK, d) \<and> history d = ([], ([], 0), [])"
proof -
  have "decode_text [] = []" by (subst decode_text.simps) simp
  then show ?thesis
    using editor_load_correct [OF demo_edit_ok(2) demo_paths(2) demo_at(1) [folded demo_edit_fields(8)]]
    unfolding demo_edit_fields(8) demo_objects(1) by (auto simp: Let_def)
qed

theorem stale_anchor_leaves_buffer_witness:
  "rootedit_loop demo_env [press ROOT_KEY_BACKSPACE, drag_to 20 50, press ROOT_KEY_DELETE] demo_edit = None"
proof -
  have c: "terminal_pixel_to_cell (ed_term demo_edit) 20 50 = Some (2, 3)" "editor_body_rows demo_edit = 44"
    by (simp_all add: demo_edit_def terminal_init_def raw_terminal_def terminal_pixel_to_cell_def editor_body_rows_def editor_rows_def
        demo_env_def rootfont_ready_def demo_font_header Let_def rootos_consts)
  show ?thesis
    by (rule stale_anchor_leaves_buffer [OF demo_edit_ok(1) demo_edit_fields(2-6) c(1)]) (simp_all add: c(2) rootos_consts)
qed

end
